(* ===== verification/Prelude.thy ===== *)
theory Prelude
  imports Main "HOL-Library.AList" "HOL-Library.List_Lexorder" "HOL-Library.Char_ord"
    "HOL-Library.Sublist"
begin

text \<open>
  What the components share.  A Go \<^verbatim>\<open>string\<close> is its byte sequence, a HOL
  \<open>string\<close> (a list of 8-bit characters), ordered as Go orders it (by bytes); a Go
  \<^verbatim>\<open>map\<close> is an association list with distinct keys, whose order is the order one
  \<^verbatim>\<open>range\<close> visits it in.  Go leaves that order open, so no theorem may depend on it: the
  statements hold for every association list with distinct keys.  A nil map and an empty one
  read alike and are both \<open>[]\<close>; a map that is \<^emph>\<open>not built yet\<close> is an
  \<open>option\<close>.
\<close>

named_theorems go_map \<open>lookups after the updates of a Go map\<close>
named_theorems go_str \<open>facts on byte strings\<close>

subsection \<open>Maps\<close>

type_synonym ('k, 'v) gomap = "('k \<times> 'v) list"

abbreviation mget :: "('k, 'v) gomap \<Rightarrow> 'k \<Rightarrow> 'v option" where
  "mget \<equiv> map_of"

abbreviation mput :: "'k \<Rightarrow> 'v \<Rightarrow> ('k, 'v) gomap \<Rightarrow> ('k, 'v) gomap" where
  "mput \<equiv> AList.update"

abbreviation mdel :: "'k \<Rightarrow> ('k, 'v) gomap \<Rightarrow> ('k, 'v) gomap" where
  "mdel \<equiv> AList.delete"

abbreviation mkeys :: "('k, 'v) gomap \<Rightarrow> 'k list" where
  "mkeys m \<equiv> map fst m"

abbreviation mok :: "('k, 'v) gomap \<Rightarrow> bool" where
  "mok m \<equiv> distinct (map fst m)"

definition mhas :: "('k, 'v) gomap \<Rightarrow> 'k \<Rightarrow> bool" where
  "mhas m k \<longleftrightarrow> mget m k \<noteq> None"

text \<open>Every value rewritten in place, its key kept: a loop that stores back what it ranges over.\<close>

definition mmap :: "('k \<Rightarrow> 'v \<Rightarrow> 'w) \<Rightarrow> ('k, 'v) gomap \<Rightarrow> ('k, 'w) gomap" where
  "mmap f m = map (\<lambda>(k, v). (k, f k v)) m"

lemma mget_mput [go_map, simp]: "mget (mput k v m) k' = (if k' = k then Some v else mget m k')"
  by (simp add: update_conv)

lemma mget_mdel [go_map, simp]: "mget (mdel k m) k' = (if k' = k then None else mget m k')"
  by (simp add: delete_conv)

lemma mok_mput [go_map, simp]: "mok m \<Longrightarrow> mok (mput k v m)"
  by (rule distinct_update)

lemma mok_mdel [go_map, simp]: "mok m \<Longrightarrow> mok (mdel k m)"
  by (rule distinct_delete)

lemma mget_mmap [go_map, simp]: "mget (mmap f m) k = map_option (f k) (mget m k)"
  by (induction m) (auto simp: mmap_def)

lemma mkeys_mmap [go_map, simp]: "mkeys (mmap f m) = mkeys m"
  by (induction m) (auto simp: mmap_def)

lemma mmap_mmap: "mmap f (mmap g m) = mmap (\<lambda>k v. f k (g k v)) m"
  by (simp add: mmap_def case_prod_unfold)

lemma mput_absent: "k \<notin> fst ` set m \<Longrightarrow> mput k v m = m @ [(k, v)]"
  by (induction m) auto

lemma mput_same: "mget es k = Some r \<Longrightarrow> mput k r es = es"
  by (induction es) (auto split: if_splits)

lemma mput_mput: "mput k r (mput k r' es) = mput k r es"
  by (induction es) auto

lemma mget_in: "mget m k = Some v \<Longrightarrow> (k, v) \<in> set m"
  by (rule map_of_SomeD)

lemma in_mget: "mok m \<Longrightarrow> (k, v) \<in> set m \<Longrightarrow> mget m k = Some v"
  by simp

lemma mget_filter:
  "mok m \<Longrightarrow> mget (filter P m) k =
     (case mget m k of None \<Rightarrow> None | Some v \<Rightarrow> if P (k, v) then Some v else None)"
proof (induction m)
  case (Cons x m)
  obtain a b where x: "x = (a, b)" by fastforce
  from Cons show ?case
    by (cases "k = a") (auto simp: x split: option.splits dest!: map_of_SomeD intro: rev_image_eqI)
qed simp

lemma mok_filter: "mok m \<Longrightarrow> mok (filter P m)"
  by (induction m) auto

lemma mget_mhas: "mhas m k \<longleftrightarrow> k \<in> set (mkeys m)"
  by (simp add: mhas_def map_of_eq_None_iff)

text \<open>A sum over the values of a map, and how an update changes it.\<close>

definition msum :: "('v \<Rightarrow> int) \<Rightarrow> ('k, 'v) gomap \<Rightarrow> int" where
  "msum f m = sum_list (map (\<lambda>(k, v). f v) m)"

lemma msum_Nil [simp]: "msum f [] = 0" and msum_Cons [simp]: "msum f (x # m) = f (snd x) + msum f m"
  by (simp_all add: msum_def case_prod_unfold)

lemma msum_put_new: "mget m k = None \<Longrightarrow> msum f (mput k v m) = msum f m + f v"
  by (induction m) (auto split: if_splits)

lemma msum_put_old: "mget m k = Some w \<Longrightarrow> msum f (mput k v m) = msum f m - f w + f v"
  by (induction m) (auto split: if_splits)

lemma msum_del: "mok m \<Longrightarrow> mget m k = Some w \<Longrightarrow> msum f (mdel k m) = msum f m - f w"
proof (induction m)
  case (Cons x m)
  show ?case
  proof (cases "fst x = k")
    case True
    have "k \<notin> fst ` set m" using Cons.prems(1) True by auto
    then have "mdel k m = m" by (rule delete_id)
    with True Cons.prems(2) show ?thesis by (cases x) simp
  next
    case False
    with Cons show ?thesis by (cases x) auto
  qed
qed simp

lemma msum_count: "int (length (filter (\<lambda>(k, v). P v) m)) = msum (\<lambda>v. of_bool (P v)) m"
  by (induction m) auto

lemma msum_filter: "msum f (filter (\<lambda>(k, v). P v) m) = msum (\<lambda>v. if P v then f v else 0) m"
  by (induction m) auto

subsection \<open>Strings\<close>

definition has_prefix :: "string \<Rightarrow> string \<Rightarrow> bool" where
  "has_prefix s p \<longleftrightarrow> prefix p s"

definition has_suffix :: "string \<Rightarrow> string \<Rightarrow> bool" where
  "has_suffix s p \<longleftrightarrow> suffix p s"

text \<open>\<^verbatim>\<open>strings.TrimPrefix\<close>, \<^verbatim>\<open>strings.CutPrefix\<close> and \<^verbatim>\<open>strings.Cut\<close> at one byte.\<close>

definition trim_prefix :: "string \<Rightarrow> string \<Rightarrow> string" where
  "trim_prefix s p = (if prefix p s then drop (length p) s else s)"

definition upto_byte :: "char \<Rightarrow> string \<Rightarrow> string" where
  "upto_byte c s = takeWhile (\<lambda>x. x \<noteq> c) s"

definition after_byte :: "char \<Rightarrow> string \<Rightarrow> string option" where
  "after_byte c s = (case dropWhile (\<lambda>x. x \<noteq> c) s of [] \<Rightarrow> None | _ # t \<Rightarrow> Some t)"

fun split_on :: "char \<Rightarrow> string \<Rightarrow> string list" where
  "split_on c [] = [[]]"
| "split_on c (x # xs) =
     (if x = c then [] # split_on c xs
      else (case split_on c xs of [] \<Rightarrow> [[x]] | y # ys \<Rightarrow> (x # y) # ys))"

fun contains_str :: "string \<Rightarrow> string \<Rightarrow> bool" where
  "contains_str [] p \<longleftrightarrow> p = []"
| "contains_str (x # xs) p \<longleftrightarrow> prefix p (x # xs) \<or> contains_str xs p"

definition count_byte :: "char \<Rightarrow> string \<Rightarrow> nat" where
  "count_byte c s = length (filter (\<lambda>x. x = c) s)"

lemma upto_byte_sep [go_str, simp]: "c \<notin> set a \<Longrightarrow> upto_byte c (a @ c # b) = a"
  unfolding upto_byte_def by (induction a) auto

lemma upto_byte_nosep [go_str, simp]: "c \<notin> set a \<Longrightarrow> upto_byte c a = a"
  unfolding upto_byte_def by (induction a) auto

lemma after_byte_sep [go_str, simp]: "c \<notin> set a \<Longrightarrow> after_byte c (a @ c # b) = Some b"
  unfolding after_byte_def by (induction a) auto

lemma after_byte_nosep [go_str, simp]: "c \<notin> set a \<Longrightarrow> after_byte c a = None"
  unfolding after_byte_def by (induction a) auto

lemma after_byte_None: "after_byte c s = None \<longleftrightarrow> c \<notin> set s"
  unfolding after_byte_def by (induction s) auto

lemma after_byte_Some: "after_byte c s = Some t \<Longrightarrow> s = upto_byte c s @ c # t"
  unfolding after_byte_def upto_byte_def
  by (induction s) (auto split: if_splits)

lemma upto_byte_notin [go_str, simp]: "c \<notin> set (upto_byte c s)"
  unfolding upto_byte_def by (auto dest: set_takeWhileD)

lemma split_on_not_nil [simp]: "split_on c s \<noteq> []"
  by (induction s) (auto split: list.splits)

lemma split_on_nosep [go_str, simp]: "c \<notin> set a \<Longrightarrow> split_on c a = [a]"
  by (induction a) auto

lemma split_on_sep [go_str, simp]: "c \<notin> set a \<Longrightarrow> split_on c (a @ c # b) = a # split_on c b"
  by (induction a) auto

lemma split_on_parts_notin: "p \<in> set (split_on c s) \<Longrightarrow> c \<notin> set p"
  by (induction s arbitrary: p) (auto split: if_splits list.splits)

lemma split_on_hd: "hd (split_on c s) = upto_byte c s"
  unfolding upto_byte_def by (induction s) (auto split: list.splits)

lemma prefix_sep_iff:
  "c \<notin> set a \<Longrightarrow> c \<notin> set p \<Longrightarrow> prefix (p @ [c]) (a @ c # b) \<longleftrightarrow> a = p"
proof (induction a arbitrary: p)
  case Nil
  then show ?case by (cases p) auto
next
  case (Cons x a)
  then show ?case by (cases p) auto
qed

lemma sep_inj:
  "c \<notin> set a \<Longrightarrow> c \<notin> set a' \<Longrightarrow> a @ c # b = a' @ c # b' \<longleftrightarrow> a = a' \<and> b = b'"
proof (induction a arbitrary: a')
  case Nil
  then show ?case by (cases a') auto
next
  case (Cons x a)
  then show ?case by (cases a') auto
qed

subsection \<open>Lists\<close>

lemma sort_set_eq: "set xs = set ys \<Longrightarrow> distinct xs \<Longrightarrow> distinct ys \<Longrightarrow> sort xs = sort ys"
  by (metis distinct_sort set_sort sorted_distinct_set_unique sorted_sort)

lemma find_Some_in: "find P xs = Some x \<Longrightarrow> x \<in> set xs \<and> P x"
  by (induction xs) (auto split: if_splits)

lemma find_or_hd:
  "(case find P c of Some k \<Rightarrow> Some k | None \<Rightarrow> (case c of [] \<Rightarrow> None | x # _ \<Rightarrow> Some x)) = Some k
     \<Longrightarrow> k \<in> set c"
  by (cases "find P c") (auto dest: find_Some_in split: list.splits)

end
