(* ===== verification/GoText.thy ===== *)
theory GoText
  imports Prelude
begin

text \<open>
  Go's UTF-8 decoding (\<^verbatim>\<open>unicode/utf8\<close>, as a \<^verbatim>\<open>range\<close> over a string and
  \<^verbatim>\<open>strings.Map\<close> use it) and what \<^verbatim>\<open>internal/util/paths.go\<close> and
  \<^verbatim>\<open>internal/state/gaps.go\<close> build on it to neutralise text read from an archive.  A rune
  is a \<open>nat\<close>; an invalid byte decodes to the replacement rune, one byte wide.
\<close>

abbreviation (input) rune_error :: nat where "rune_error \<equiv> 65533"

definition byte :: "char \<Rightarrow> nat" where
  "byte c = of_char c"

definition in_range :: "nat \<Rightarrow> nat \<Rightarrow> nat \<Rightarrow> bool" where
  "in_range lo hi n \<longleftrightarrow> lo \<le> n \<and> n \<le> hi"

text \<open>The accepted range of the second byte after a given first one.\<close>

definition second_lo :: "nat \<Rightarrow> nat" where
  "second_lo b = (if b = 0xE0 then 0xA0 else if b = 0xF0 then 0x90 else 0x80)"

definition second_hi :: "nat \<Rightarrow> nat" where
  "second_hi b = (if b = 0xED then 0x9F else if b = 0xF4 then 0x8F else 0xBF)"

definition decode2 :: "nat \<Rightarrow> nat list \<Rightarrow> nat \<times> nat" where
  "decode2 b bs = (case bs of
     b1 # _ \<Rightarrow> if in_range 0x80 0xBF b1 then (b mod 32 * 64 + b1 mod 64, 2) else (rune_error, 1)
   | [] \<Rightarrow> (rune_error, 1))"

definition decode3 :: "nat \<Rightarrow> nat list \<Rightarrow> nat \<times> nat" where
  "decode3 b bs = (case bs of
     b1 # b2 # _ \<Rightarrow>
       if in_range (second_lo b) (second_hi b) b1 \<and> in_range 0x80 0xBF b2
       then (b mod 16 * 4096 + b1 mod 64 * 64 + b2 mod 64, 3) else (rune_error, 1)
   | _ \<Rightarrow> (rune_error, 1))"

definition decode4 :: "nat \<Rightarrow> nat list \<Rightarrow> nat \<times> nat" where
  "decode4 b bs = (case bs of
     b1 # b2 # b3 # _ \<Rightarrow>
       if in_range (second_lo b) (second_hi b) b1 \<and> in_range 0x80 0xBF b2 \<and> in_range 0x80 0xBF b3
       then (b mod 8 * 262144 + b1 mod 64 * 4096 + b2 mod 64 * 64 + b3 mod 64, 4)
       else (rune_error, 1)
   | _ \<Rightarrow> (rune_error, 1))"

text \<open>\<^verbatim>\<open>utf8.DecodeRuneInString\<close>: the rune and its width.\<close>

definition decode_rune :: "string \<Rightarrow> nat \<times> nat" where
  "decode_rune s = (case map byte s of
     [] \<Rightarrow> (rune_error, 0)
   | b # bs \<Rightarrow>
       if b < 0x80 then (b, 1)
       else if in_range 0xC2 0xDF b then decode2 b bs
       else if in_range 0xE0 0xEF b then decode3 b bs
       else if in_range 0xF0 0xF4 b then decode4 b bs
       else (rune_error, 1))"

text \<open>A Unicode scalar value, and its encoding (\<^verbatim>\<open>utf8.AppendRune\<close>).\<close>

definition scalar :: "nat \<Rightarrow> bool" where
  "scalar r \<longleftrightarrow> r < 0x110000 \<and> \<not> in_range 0xD800 0xDFFF r"

definition encode_nats :: "nat \<Rightarrow> nat list" where
  "encode_nats r =
     (if r < 0x80 then [r]
      else if r < 0x800 then [0xC0 + r div 64, 0x80 + r mod 64]
      else if \<not> scalar r then [0xEF, 0xBF, 0xBD]
      else if r < 0x10000 then [0xE0 + r div 4096, 0x80 + r div 64 mod 64, 0x80 + r mod 64]
      else [0xF0 + r div 262144, 0x80 + r div 4096 mod 64, 0x80 + r div 64 mod 64, 0x80 + r mod 64])"

definition encode_rune :: "nat \<Rightarrow> string" where
  "encode_rune r = map char_of (encode_nats r)"

lemma decode_width_pos: "s \<noteq> [] \<Longrightarrow> 0 < snd (decode_rune s)"
  by (cases s) (auto simp: decode_rune_def decode2_def decode3_def decode4_def split: list.splits)

text \<open>\<^verbatim>\<open>for _, r := range s\<close>: the runes of a string.\<close>

function runes :: "string \<Rightarrow> nat list" where
  "runes s = (if s = [] then [] else fst (decode_rune s) # runes (drop (snd (decode_rune s)) s))"
  by pat_completeness auto
termination
  by (relation "measure length") (auto simp: decode_width_pos)

declare runes.simps [simp del]

lemma runes_Nil [simp]: "runes [] = []"
  by (simp add: runes.simps)

lemma byte_less [simp]: "byte c < 256"
  by (simp add: byte_def)

lemma byte_char_of [simp]: "n < 256 \<Longrightarrow> byte (char_of n) = n"
  by (simp add: byte_def)

text \<open>Every decoded rune is a scalar value, and decoding undoes encoding.\<close>

lemma lead_mod: "(m * k + n) mod m = n mod (m::nat)"
  by simp

lemma cont_mod: "in_range 0x80 0xBF b \<Longrightarrow> b mod 64 = b - 0x80"
  using lead_mod [of 64 2 "b - 0x80"] mod_less [of "b - 0x80" 64]
  unfolding in_range_def by auto

lemma lead3_mod: "in_range 0xE0 0xEF b \<Longrightarrow> b mod 16 = b - 0xE0"
  using lead_mod [of 16 14 "b - 0xE0"] mod_less [of "b - 0xE0" 16]
  unfolding in_range_def by auto

lemma lead4_mod: "in_range 0xF0 0xF4 b \<Longrightarrow> b mod 8 = b - 0xF0"
  using lead_mod [of 8 30 "b - 0xF0"] mod_less [of "b - 0xF0" 8]
  unfolding in_range_def by auto

lemma second_cont: "in_range (second_lo b) (second_hi b) b1 \<Longrightarrow> in_range 0x80 0xBF b1"
  by (auto simp: in_range_def second_lo_def second_hi_def split: if_splits)

lemma scalar_error [simp]: "scalar rune_error"
  by (simp add: scalar_def in_range_def)

lemma decode2_scalar: "scalar (fst (decode2 b bs))"
proof -
  have "scalar (b mod 32 * 64 + b1 mod 64)" for b1
  proof -
    have "b mod 32 < 32" "b1 mod 64 < 64" by simp_all
    then show ?thesis unfolding scalar_def in_range_def by linarith
  qed
  then show ?thesis by (auto simp: decode2_def split: list.splits)
qed

lemma decode3_key:
  assumes b: "in_range 0xE0 0xEF b" and r: "in_range (second_lo b) (second_hi b) b1"
  shows "scalar (b mod 16 * 4096 + b1 mod 64 * 64 + b2 mod 64)"
proof -
  have m: "b mod 16 = b - 0xE0" "b1 mod 64 = b1 - 0x80" "b2 mod 64 < 64"
    using lead3_mod [OF b] cont_mod [OF second_cont [OF r]] by simp_all
  show ?thesis
  proof (cases "b = 0xED")
    case True
    then have "b1 \<le> 0x9F" using r by (simp add: in_range_def second_hi_def)
    then have "b1 - 0x80 \<le> 31" by linarith
    moreover have "b mod 16 = 13" by (simp add: True)
    ultimately show ?thesis using m(2,3) unfolding scalar_def in_range_def by linarith
  next
    case False
    then consider "b < 0xED" | "0xED < b" by linarith
    then show ?thesis
      using m b second_cont [OF r] unfolding scalar_def in_range_def by cases linarith+
  qed
qed

lemma decode3_scalar: "in_range 0xE0 0xEF b \<Longrightarrow> scalar (fst (decode3 b bs))"
  by (auto simp: decode3_def decode3_key split: list.splits)

lemma decode4_key:
  assumes b: "in_range 0xF0 0xF4 b" and r: "in_range (second_lo b) (second_hi b) b1"
  shows "scalar (b mod 8 * 262144 + b1 mod 64 * 4096 + b2 mod 64 * 64 + b3 mod 64)"
proof -
  have m: "b mod 8 = b - 0xF0" "b1 mod 64 = b1 - 0x80" "b2 mod 64 < 64" "b3 mod 64 < 64"
    using lead4_mod [OF b] cont_mod [OF second_cont [OF r]] by simp_all
  consider "b = 0xF0" | "b = 0xF4" | "0xF0 < b" "b < 0xF4"
    using b unfolding in_range_def by linarith
  then show ?thesis
    using m r second_cont [OF r] unfolding scalar_def in_range_def second_lo_def second_hi_def
    by cases (simp_all, linarith+)
qed

lemma decode4_scalar: "in_range 0xF0 0xF4 b \<Longrightarrow> scalar (fst (decode4 b bs))"
  by (auto simp: decode4_def decode4_key split: list.splits)

lemma decode_rune_scalar: "scalar (fst (decode_rune s))"
proof -
  have "scalar rune_error" "b < 128 \<Longrightarrow> scalar b" for b by (auto simp: scalar_def in_range_def)
  then show ?thesis
    by (auto simp: decode_rune_def decode2_scalar decode3_scalar decode4_scalar split: list.splits)
qed

lemma runes_scalar: "r \<in> set (runes s) \<Longrightarrow> scalar r"
  by (induction s rule: runes.induct) (subst (asm) (2) runes.simps, auto split: if_splits simp: decode_rune_scalar)

lemma encode_nats_less: "scalar r \<Longrightarrow> n \<in> set (encode_nats r) \<Longrightarrow> n < 256"
proof -
  assume r: "scalar r" and n: "n \<in> set (encode_nats r)"
  have m: "r mod 64 < 64" "r div 64 mod 64 < 64" "r div 4096 mod 64 < 64" by simp_all
  have d: "r < 0x800 \<Longrightarrow> r div 64 < 32" "r < 0x10000 \<Longrightarrow> r div 4096 < 16" "r div 262144 < 5"
    using r by (simp_all add: scalar_def div_less_iff_less_mult)
  show "n < 256"
    using n m d r unfolding encode_nats_def by (auto split: if_splits)
qed

lemma bytes_encode [simp]: "scalar r \<Longrightarrow> map byte (encode_rune r) = encode_nats r"
  by (auto simp: encode_rune_def map_idI encode_nats_less)

lemma mod_split3: "(r::nat) div 4096 * 4096 + r div 64 mod 64 * 64 + r mod 64 = r"
proof -
  have "r div 4096 = r div 64 div 64" by (simp flip: div_mult2_eq)
  then show ?thesis
    using div_mult_mod_eq [of "r div 64" 64] div_mult_mod_eq [of r 64] by linarith
qed

lemma mod_split4:
  "(r::nat) div 262144 * 262144 + r div 4096 mod 64 * 4096 + r div 64 mod 64 * 64 + r mod 64 = r"
proof -
  have "r div 262144 = r div 4096 div 64" by (simp flip: div_mult2_eq)
  then show ?thesis
    using div_mult_mod_eq [of "r div 4096" 64] mod_split3 [of r] by linarith
qed

lemmas div_bounds = div_less_iff_less_mult less_eq_div_iff_mult_less_eq

lemma cont_range [simp]: "in_range 0x80 0xBF (0x80 + n mod 64)" "(0x80 + n mod 64) mod 64 = n mod 64"
proof -
  have "n mod 64 < 64" by simp
  then show "in_range 0x80 0xBF (0x80 + n mod 64)" unfolding in_range_def by linarith
  show "(0x80 + n mod 64) mod 64 = n mod 64"
    using lead_mod [of 64 2 "n mod 64"] by simp
qed

lemma decode_encode3:
  assumes r: "scalar r" "0x800 \<le> r" "r < 0x10000"
  shows "in_range 0xE0 0xEF (0xE0 + r div 4096)"
    and "decode3 (0xE0 + r div 4096) ([0x80 + r div 64 mod 64, 0x80 + r mod 64] @ bs) = (r, 3)"
proof -
  have k: "r div 4096 < 16" using r by (simp add: div_bounds)
  then show lead: "in_range 0xE0 0xEF (0xE0 + r div 4096)" unfolding in_range_def by linarith
  have m: "r div 64 mod 64 < 64" "r mod 64 < 64" by simp_all
  have "r div 4096 = 0 \<Longrightarrow> 0x20 \<le> r div 64 mod 64" "r div 4096 = 13 \<Longrightarrow> r div 64 mod 64 \<le> 0x1F"
    using mod_split3 [of r] m r unfolding scalar_def in_range_def by linarith+
  then have "in_range (second_lo (0xE0 + r div 4096)) (second_hi (0xE0 + r div 4096)) (0x80 + r div 64 mod 64)"
    using m k unfolding in_range_def second_lo_def second_hi_def by auto
  then show "decode3 (0xE0 + r div 4096) ([0x80 + r div 64 mod 64, 0x80 + r mod 64] @ bs) = (r, 3)"
    using mod_split3 [of r] lead3_mod [OF lead] by (simp add: decode3_def)
qed

lemma decode_encode4:
  assumes r: "0x10000 \<le> r" "r < 0x110000"
  shows "in_range 0xF0 0xF4 (0xF0 + r div 262144)"
    and "decode4 (0xF0 + r div 262144)
     ([0x80 + r div 4096 mod 64, 0x80 + r div 64 mod 64, 0x80 + r mod 64] @ bs) = (r, 4)"
proof -
  have k: "r div 262144 < 5" using r by (simp add: div_bounds)
  then show lead: "in_range 0xF0 0xF4 (0xF0 + r div 262144)" unfolding in_range_def by linarith
  have m: "r div 4096 mod 64 < 64" "r div 64 mod 64 < 64" "r mod 64 < 64" by simp_all
  have "r div 262144 = 0 \<Longrightarrow> 0x10 \<le> r div 4096 mod 64" "r div 262144 = 4 \<Longrightarrow> r div 4096 mod 64 \<le> 0xF"
    using mod_split4 [of r] m r by linarith+
  then have "in_range (second_lo (0xF0 + r div 262144)) (second_hi (0xF0 + r div 262144)) (0x80 + r div 4096 mod 64)"
    using m k unfolding in_range_def second_lo_def second_hi_def by auto
  then show "decode4 (0xF0 + r div 262144)
     ([0x80 + r div 4096 mod 64, 0x80 + r div 64 mod 64, 0x80 + r mod 64] @ bs) = (r, 4)"
    using mod_split4 [of r] lead4_mod [OF lead] by (simp add: decode4_def)
qed

lemma decode_encode:
  assumes "scalar r"
  shows "decode_rune (encode_rune r @ t) = (r, length (encode_rune r))"
proof -
  have len: "length (encode_rune r) = length (encode_nats r)" by (simp add: encode_rune_def)
  have bs: "map byte (encode_rune r @ t) = encode_nats r @ map byte t" using assms by simp
  consider "r < 0x80" | "0x80 \<le> r" "r < 0x800" | "0x800 \<le> r" "r < 0x10000" | "0x10000 \<le> r" "r < 0x110000"
    using assms unfolding scalar_def by linarith
  then show ?thesis
  proof cases
    case 1
    then show ?thesis unfolding decode_rune_def len bs by (simp add: encode_nats_def)
  next
    case 2
    then have k: "2 \<le> r div 64" "r div 64 < 32" by (simp_all add: div_bounds)
    then have "in_range 0xC2 0xDF (0xC0 + r div 64)" "(0xC0 + r div 64) mod 32 = r div 64"
      using lead_mod [of 32 6 "r div 64"] unfolding in_range_def by simp_all
    with 2 show ?thesis
      unfolding decode_rune_def len bs by (simp add: encode_nats_def decode2_def)
  next
    case 3
    have "\<not> in_range 0xC2 0xDF (0xE0 + r div 4096)" unfolding in_range_def by linarith
    with 3 assms show ?thesis
      using decode_encode3(1) [of r] decode_encode3(2) [of r "map byte t"]
      unfolding decode_rune_def len bs by (simp add: encode_nats_def)
  next
    case 4
    have "\<not> in_range 0xC2 0xDF (0xF0 + r div 262144)" "\<not> in_range 0xE0 0xEF (0xF0 + r div 262144)"
      unfolding in_range_def by linarith+
    with 4 assms show ?thesis
      using decode_encode4(1) [of r] decode_encode4(2) [of r "map byte t"]
      unfolding decode_rune_def len bs by (simp add: encode_nats_def)
  qed
qed

lemma encode_rune_not_nil [simp]: "encode_rune r \<noteq> []"
  by (simp add: encode_rune_def encode_nats_def)

definition encode_runes :: "nat list \<Rightarrow> string" where
  "encode_runes rs = concat (map encode_rune rs)"

lemma runes_encode [go_str]:
  "(\<And>r. r \<in> set rs \<Longrightarrow> scalar r) \<Longrightarrow> runes (encode_runes rs) = rs"
proof (induction rs)
  case Nil
  then show ?case by (simp add: encode_runes_def)
next
  case (Cons r rs)
  then show ?case
    by (subst runes.simps) (simp add: encode_runes_def decode_encode)
qed

subsection \<open>Stripping text that is echoed\<close>

text \<open>\<^verbatim>\<open>strings.Map\<close> with a mapping that only keeps or drops runes.\<close>

definition keep_runes :: "(nat \<Rightarrow> bool) \<Rightarrow> string \<Rightarrow> string" where
  "keep_runes P s = encode_runes (filter P (runes s))"

definition control_rune :: "nat \<Rightarrow> bool" where
  "control_rune r \<longleftrightarrow> r < 0x20 \<or> r = 0x7f \<or> (0x80 \<le> r \<and> r < 0xa0)"

definition bidi_rune :: "nat \<Rightarrow> bool" where
  "bidi_rune r \<longleftrightarrow> (0x202a \<le> r \<and> r \<le> 0x202e) \<or> (0x2066 \<le> r \<and> r \<le> 0x2069)"

definition strip_control :: "string \<Rightarrow> string" where
  "strip_control s = keep_runes (\<lambda>r. \<not> control_rune r) s"

definition strip_bidi :: "string \<Rightarrow> string" where
  "strip_bidi s = keep_runes (\<lambda>r. \<not> bidi_rune r) s"

lemma runes_keep [go_str, simp]: "runes (keep_runes P s) = filter P (runes s)"
  unfolding keep_runes_def by (rule runes_encode) (auto simp: runes_scalar)

lemma keep_keep [go_str, simp]: "keep_runes P (keep_runes Q s) = keep_runes (\<lambda>r. Q r \<and> P r) s"
  by (simp add: keep_runes_def [of P "keep_runes Q s"]) (simp add: keep_runes_def)

lemma runes_strip_control [go_str, simp]:
  "runes (strip_control s) = filter (\<lambda>r. \<not> control_rune r) (runes s)"
  by (simp add: strip_control_def)

lemma runes_strip_bidi [go_str, simp]: "runes (strip_bidi s) = filter (\<lambda>r. \<not> bidi_rune r) (runes s)"
  by (simp add: strip_bidi_def)

lemma strip_control_idem [go_str, simp]: "strip_control (strip_control s) = strip_control s"
  by (simp add: strip_control_def)

lemma runes_encode_take [go_str, simp]:
  "runes (encode_runes (take n (filter P (runes s)))) = take n (filter P (runes s))"
  "runes (encode_runes (filter P (runes s))) = filter P (runes s)"
  by (rule runes_encode, auto dest!: in_set_takeD intro: runes_scalar)+

lemma strip_control_no_nul: "CHR 0x00 # t \<noteq> strip_control s"
proof
  assume a: "CHR 0x00 # t = strip_control s"
  have "runes (CHR 0x00 # t) = 0 # runes t"
    by (subst runes.simps) (simp add: decode_rune_def byte_def)
  with a have "0 \<in> set (runes (strip_control s))" by simp
  then show False by (simp add: control_rune_def)
qed

end
