(* ===== verification/Interfaces.thy ===== *)
theory Interfaces
  imports Prelude
begin

text \<open>
  The contracts several components share, as locales: an encoding with its decoder, a
  sanitiser of untrusted data, a machine whose operations keep an invariant, and a secondary
  index over a map.  Each is interpreted on the model's own definitions in the theory that
  provides them.
\<close>

subsection \<open>An encoding and its decoder\<close>

locale codec =
  fixes enc :: "'a \<Rightarrow> 'b" and dec :: "'b \<Rightarrow> 'a option" and good :: "'a \<Rightarrow> bool"
  assumes dec_enc: "good x \<Longrightarrow> dec (enc x) = Some x"
begin

lemma enc_inj: "good x \<Longrightarrow> good y \<Longrightarrow> enc x = enc y \<Longrightarrow> x = y"
  using dec_enc by (metis option.inject)

lemma enc_inj_on: "inj_on enc {x. good x}"
  by (rule inj_onI) (auto intro: enc_inj)

end

subsection \<open>A sanitiser of untrusted data\<close>

locale sanitiser =
  fixes clean :: "'a \<Rightarrow> 'a" and safe :: "'a \<Rightarrow> bool"
  assumes clean_safe: "safe (clean x)"
    and safe_fixed: "safe x \<Longrightarrow> clean x = x"
begin

lemma clean_idem: "clean (clean x) = clean x"
  by (rule safe_fixed [OF clean_safe])

lemma fixed_iff: "clean x = x \<longleftrightarrow> safe x"
  using clean_safe safe_fixed by metis

lemma range_clean: "range clean = {x. safe x}"
  using clean_safe fixed_iff by (auto, metis rangeI)

end

subsection \<open>A machine that keeps an invariant\<close>

text \<open>\<open>may op s\<close> is what the operation's caller owes it; a run is admissible when every step is.\<close>

locale machine =
  fixes step :: "'op \<Rightarrow> 's \<Rightarrow> 's" and may :: "'op \<Rightarrow> 's \<Rightarrow> bool" and inv :: "'s \<Rightarrow> bool"
  assumes step_inv: "inv s \<Longrightarrow> may x s \<Longrightarrow> inv (step x s)"
begin

fun may_run :: "'op list \<Rightarrow> 's \<Rightarrow> bool" where
  "may_run [] s \<longleftrightarrow> True"
| "may_run (x # xs) s \<longleftrightarrow> may x s \<and> may_run xs (step x s)"

lemma run_inv: "inv s \<Longrightarrow> may_run xs s \<Longrightarrow> inv (fold step xs s)"
  by (induction xs arbitrary: s) (auto simp: step_inv)

lemma may_run_append: "may_run (xs @ ys) s \<longleftrightarrow> may_run xs s \<and> may_run ys (fold step xs s)"
  by (induction xs arbitrary: s) auto

end

subsection \<open>A secondary index\<close>

text \<open>
  A map of entries and an index over it: \<open>ientry k v\<close> is the index key entry \<open>k\<close> with
  value \<open>v\<close> is filed under and the item filed there (\<open>None\<close>: it is not filed),
  \<open>iget\<close> reads the items under an index key, and \<open>iset\<close> and \<open>idel\<close> are the upkeep a
  writer of the map runs beside its own update, given the entry's old value.  An index is
  \<open>acc\<close>urate for an entry when exactly its own item is filed for it; the laws are local: an
  upkeep step makes the index accurate for the entry it is about and leaves every other item alone.
  It follows that the index always answers what a scan of the map would.
\<close>

locale secondary_index =
  fixes ientry :: "'k \<Rightarrow> 'v \<Rightarrow> ('i \<times> 'e) option"
    and ekey :: "'e \<Rightarrow> 'k"
    and iget :: "'x \<Rightarrow> 'i \<Rightarrow> 'e set"
    and iset :: "'k \<Rightarrow> 'v option \<Rightarrow> 'v \<Rightarrow> 'x \<Rightarrow> 'x"
    and idel :: "'k \<Rightarrow> 'v option \<Rightarrow> 'x \<Rightarrow> 'x"
    and iempty :: 'x
    and iinv :: "'x \<Rightarrow> bool"
  assumes ientry_key: "ientry k v = Some (i, e) \<Longrightarrow> ekey e = k"
    and iempty_get: "iget iempty i = {}"
    and iempty_inv: "iinv iempty"
    and iset_law: "iinv x \<Longrightarrow>
      (\<And>i e. e \<in> iget x i \<and> ekey e = k \<longleftrightarrow> (\<exists>w. old = Some w \<and> ientry k w = Some (i, e))) \<Longrightarrow>
      iinv (iset k old v x) \<and>
      (\<forall>i e. e \<in> iget (iset k old v x) i \<longleftrightarrow>
         (if ekey e = k then ientry k v = Some (i, e) else e \<in> iget x i))"
    and idel_law: "iinv x \<Longrightarrow>
      (\<And>i e. e \<in> iget x i \<and> ekey e = k \<longleftrightarrow> (\<exists>w. old = Some w \<and> ientry k w = Some (i, e))) \<Longrightarrow>
      iinv (idel k old x) \<and>
      (\<forall>i e. e \<in> iget (idel k old x) i \<longleftrightarrow> ekey e \<noteq> k \<and> e \<in> iget x i)"
begin

definition covers :: "('k \<Rightarrow> 'v option) \<Rightarrow> 'x \<Rightarrow> bool" where
  "covers m x \<longleftrightarrow> iinv x \<and>
     (\<forall>i e. e \<in> iget x i \<longleftrightarrow> (\<exists>v. m (ekey e) = Some v \<and> ientry (ekey e) v = Some (i, e)))"

lemma covers_inv: "covers m x \<Longrightarrow> iinv x"
  by (simp add: covers_def)

lemma covers_get:
  "covers m x \<Longrightarrow> e \<in> iget x i \<longleftrightarrow> (\<exists>v. m (ekey e) = Some v \<and> ientry (ekey e) v = Some (i, e))"
  by (simp add: covers_def)

lemma covers_acc:
  "covers m x \<Longrightarrow> e \<in> iget x i \<and> ekey e = k \<longleftrightarrow> (\<exists>w. m k = Some w \<and> ientry k w = Some (i, e))"
  by (auto simp: covers_get dest: ientry_key)

lemma covers_empty: "covers Map.empty iempty"
  by (simp add: covers_def iempty_get iempty_inv)

lemma covers_set:
  assumes "covers m x"
  shows "covers (m(k \<mapsto> v)) (iset k (m k) v x)"
  using iset_law [OF covers_inv [OF assms] covers_acc [OF assms], of k v]
  by (auto simp: covers_def covers_get [OF assms] split: if_splits)

lemma covers_del:
  assumes "covers m x"
  shows "covers (m(k := None)) (idel k (m k) x)"
  using idel_law [OF covers_inv [OF assms] covers_acc [OF assms], of k]
  by (auto simp: covers_def covers_get [OF assms] split: if_splits)

lemma covers_same:
  assumes "covers m x" and "m k = Some v" and "ientry k v' = ientry k v"
  shows "covers (m(k \<mapsto> v')) x"
  using assms by (auto simp: covers_def)

text \<open>Built by one pass over the entries of a map without duplicate keys.\<close>

lemma covers_build:
  assumes "distinct (map fst es)"
  shows "covers (map_of es) (fold (\<lambda>(k, v) x. iset k None v x) (rev es) iempty)"
  using assms
proof (induction es)
  case Nil
  then show ?case by (simp add: covers_empty)
next
  case (Cons e es)
  obtain k v where e: "e = (k, v)" by fastforce
  with Cons.prems have "map_of es k = None" by (simp add: map_of_eq_None_iff)
  with covers_set [OF Cons.IH, of k v] Cons.prems show ?case
    by (simp add: e fun_upd_def)
qed

lemma covers_build_list:
  assumes "distinct (map fst es)"
  shows "covers (map_of es) (fold (\<lambda>(k, v) x. iset k None v x) es iempty)"
proof -
  have d: "distinct (map fst (rev es))" using assms by (metis distinct_rev rev_map)
  have "map_of (rev es) = map_of es"
  proof
    fix k
    show "map_of (rev es) k = map_of es k"
    proof (cases "map_of es k")
      case None
      then have "k \<notin> fst ` set (rev es)" by (simp add: map_of_eq_None_iff)
      with None show ?thesis by (metis map_of_eq_None_iff)
    next
      case (Some v)
      then have "(k, v) \<in> set (rev es)" by (simp add: map_of_SomeD)
      with d Some show ?thesis by (metis map_of_is_SomeI)
    qed
  qed
  with covers_build [OF d] show ?thesis by simp
qed

end

end
