(* ===== verification/Labels.thy ===== *)
theory Labels
  imports GoText Interfaces
begin

text \<open>
  The gap labels of a record (\<^verbatim>\<open>internal/state/gapclass.go\<close>): the special labels, the parse-gap
  labels with their kinds, and the class each label has in the list it sits in.  Classes and labels
  are strings, as in the code: a manifest is untrusted and can hold any text.
\<close>

abbreviation nul :: char where "nul \<equiv> CHR 0x00"

subsection \<open>The constants\<close>

definition class_fillable :: string where "class_fillable = ''fillable''"
definition class_terminal :: string where "class_terminal = ''terminal''"
definition class_info :: string where "class_info = ''info''"

definition unknown_sentinel :: string where "unknown_sentinel = ''unknown''"
definition missing_body :: string where "missing_body = ''body''"

definition label_unreadable_body :: string where "label_unreadable_body = ''unreadable:body''"
definition label_unreadable_attachments :: string where
  "label_unreadable_attachments = ''unreadable:attachments''"
definition label_unparsed :: string where "label_unparsed = ''unparsed''"
definition label_superseded :: string where "label_superseded = ''superseded''"
definition label_legacy_placeholder :: string where "label_legacy_placeholder = ''legacy-placeholder''"

definition gap_kind_undecoded_part :: string where "gap_kind_undecoded_part = ''undecoded-part''"
definition gap_kind_structure_limit :: string where "gap_kind_structure_limit = ''structure-limit''"
definition gap_kind_fidelity_fallback :: string where "gap_kind_fidelity_fallback = ''fidelity-fallback''"
definition gap_kind_identity_stub :: string where "gap_kind_identity_stub = ''identity-stub''"
definition gap_kind_corrupt_part :: string where "gap_kind_corrupt_part = ''corrupt-part''"
definition gap_kind_unsplit_multipart :: string where "gap_kind_unsplit_multipart = ''unsplit-multipart''"

lemmas class_defs = class_fillable_def class_terminal_def class_info_def

lemmas kind_defs = gap_kind_undecoded_part_def gap_kind_structure_limit_def
  gap_kind_fidelity_fallback_def gap_kind_identity_stub_def gap_kind_corrupt_part_def
  gap_kind_unsplit_multipart_def

lemmas label_defs = unknown_sentinel_def missing_body_def label_unreadable_body_def
  label_unreadable_attachments_def label_unparsed_def label_superseded_def
  label_legacy_placeholder_def

lemma class_distinct [simp]:
  "class_fillable \<noteq> class_terminal" "class_terminal \<noteq> class_fillable"
  "class_fillable \<noteq> class_info" "class_info \<noteq> class_fillable"
  "class_terminal \<noteq> class_info" "class_info \<noteq> class_terminal"
  "class_fillable \<noteq> []" "class_terminal \<noteq> []" "class_info \<noteq> []"
  by (simp_all add: class_defs)

subsection \<open>Parse-gap labels\<close>

definition max_parse_gap_detail :: nat where "max_parse_gap_detail = 300"

definition bound_detail :: "string \<Rightarrow> string" where
  "bound_detail d = (let d = strip_control d
     in if max_parse_gap_detail < length (runes d)
        then encode_runes (take max_parse_gap_detail (runes d)) else d)"

definition parse_gap_label :: "string \<Rightarrow> string \<Rightarrow> string" where
  "parse_gap_label kind detail = [nul] @ kind @ [nul] @ bound_detail detail"

definition parse_gap_kinds :: "string list" where
  "parse_gap_kinds = [gap_kind_undecoded_part, gap_kind_structure_limit, gap_kind_fidelity_fallback,
     gap_kind_identity_stub, gap_kind_corrupt_part, gap_kind_unsplit_multipart]"

definition parse_gap_parts :: "string \<Rightarrow> (string \<times> string) option" where
  "parse_gap_parts label =
     (if \<not> has_prefix label [nul] then None
      else case after_byte nul (drop 1 label) of
        None \<Rightarrow> None
      | Some detail \<Rightarrow>
          let kind = upto_byte nul (drop 1 label)
          in if kind \<in> set parse_gap_kinds then Some (kind, detail) else None)"

definition is_parse_gap_label :: "string \<Rightarrow> bool" where
  "is_parse_gap_label label \<longleftrightarrow> parse_gap_parts label \<noteq> None"

definition parse_gap_fillable :: "string \<Rightarrow> bool" where
  "parse_gap_fillable kind \<longleftrightarrow> kind = gap_kind_corrupt_part \<or> kind = gap_kind_unsplit_multipart"

lemma kinds_nul_free: "kind \<in> set parse_gap_kinds \<Longrightarrow> nul \<notin> set kind"
  by (auto simp: parse_gap_kinds_def kind_defs)

lemma parse_gap_parts_label:
  "kind \<in> set parse_gap_kinds \<Longrightarrow> parse_gap_parts (parse_gap_label kind d) = Some (kind, bound_detail d)"
  using kinds_nul_free [of kind]
  by (simp add: parse_gap_parts_def parse_gap_label_def has_prefix_def)

text \<open>The labels a build makes, of a known kind and a detail it has bounded, read back as they were made.\<close>

interpretation gap_label: codec "\<lambda>(kind, d). parse_gap_label kind d" parse_gap_parts
  "\<lambda>(kind, d). kind \<in> set parse_gap_kinds \<and> bound_detail d = d"
  by unfold_locales (auto simp: parse_gap_parts_label)

lemma bound_detail_eq:
  "bound_detail d = encode_runes (take max_parse_gap_detail (filter (\<lambda>r. \<not> control_rune r) (runes d)))"
  by (simp add: bound_detail_def Let_def strip_control_def keep_runes_def)

lemma runes_bound_detail:
  "runes (bound_detail d) = take max_parse_gap_detail (filter (\<lambda>r. \<not> control_rune r) (runes d))"
  by (simp add: bound_detail_eq)

interpretation detail: sanitiser bound_detail
  "\<lambda>d. strip_control d = d \<and> length (runes d) \<le> max_parse_gap_detail"
proof
  fix d
  let ?rs = "runes (bound_detail d)"
  have "\<forall>r\<in>set ?rs. \<not> control_rune r" by (auto simp: runes_bound_detail dest: in_set_takeD)
  then have f: "filter (\<lambda>r. \<not> control_rune r) ?rs = ?rs" by (simp add: filter_id_conv)
  have "encode_runes ?rs = bound_detail d"
    by (simp only: runes_bound_detail) (simp only: bound_detail_eq)
  then have "strip_control (bound_detail d) = bound_detail d"
    by (simp add: strip_control_def keep_runes_def f)
  moreover have "length ?rs \<le> max_parse_gap_detail" by (simp add: runes_bound_detail)
  ultimately show "strip_control (bound_detail d) = bound_detail d \<and> length ?rs \<le> max_parse_gap_detail" ..
next
  fix d assume "strip_control d = d \<and> length (runes d) \<le> max_parse_gap_detail"
  then show "bound_detail d = d" by (simp add: bound_detail_def)
qed

subsection \<open>The class of a label\<close>

definition is_unreadable_label :: "string \<Rightarrow> bool" where
  "is_unreadable_label label \<longleftrightarrow> has_prefix label ''unreadable:''"

definition gap_class :: "string \<Rightarrow> string" where
  "gap_class label =
     (if is_unreadable_label label then class_fillable
      else if label = label_unparsed then class_terminal
      else if label = label_superseded \<or> label = label_legacy_placeholder then class_info
      else case parse_gap_parts label of
        Some (kind, _) \<Rightarrow> if parse_gap_fillable kind then [] else class_terminal
      | None \<Rightarrow> [])"

definition record_gap_class :: "string \<Rightarrow> bool \<Rightarrow> string" where
  "record_gap_class label terminal_list =
     (if gap_class label \<noteq> [] then gap_class label
      else if terminal_list then class_terminal else class_fillable)"

lemma unreadable_not_parse_gap: "is_unreadable_label l \<Longrightarrow> \<not> is_parse_gap_label l"
  by (cases l) (auto simp: is_unreadable_label_def is_parse_gap_label_def parse_gap_parts_def has_prefix_def)

lemma special_labels [simp]:
  "\<not> is_unreadable_label label_unparsed" "\<not> is_unreadable_label label_superseded"
  "\<not> is_unreadable_label label_legacy_placeholder" "\<not> is_unreadable_label missing_body"
  "\<not> is_unreadable_label unknown_sentinel"
  "\<not> is_parse_gap_label label_unparsed" "\<not> is_parse_gap_label label_superseded"
  "\<not> is_parse_gap_label label_legacy_placeholder" "\<not> is_parse_gap_label missing_body"
  "\<not> is_parse_gap_label unknown_sentinel"
  "label_superseded \<noteq> label_unparsed" "label_legacy_placeholder \<noteq> label_unparsed"
  "label_superseded \<noteq> unknown_sentinel" "label_unparsed \<noteq> label_superseded"
  "label_unparsed \<noteq> label_legacy_placeholder" "missing_body \<noteq> unknown_sentinel"
  "unknown_sentinel \<noteq> missing_body" "missing_body \<noteq> label_unparsed" "label_unparsed \<noteq> missing_body"
  "label_unparsed \<noteq> unknown_sentinel" "unknown_sentinel \<noteq> label_unparsed"
  "label_legacy_placeholder \<noteq> missing_body" "missing_body \<noteq> label_legacy_placeholder"
  by (simp_all add: label_defs is_unreadable_label_def is_parse_gap_label_def parse_gap_parts_def has_prefix_def)

lemma gap_class_special [simp]:
  "gap_class label_unparsed = class_terminal" "gap_class label_superseded = class_info"
  "gap_class label_legacy_placeholder = class_info"
  by (simp_all add: gap_class_def)

lemma record_gap_class_cases:
  "record_gap_class l t = class_info \<longleftrightarrow> l = label_superseded \<or> l = label_legacy_placeholder"
  "record_gap_class l t \<in> {class_fillable, class_terminal, class_info}"
  by (auto simp: record_gap_class_def gap_class_def split: option.splits)

text \<open>
  C17: a parse-gap label of a known kind reads back as that kind, its detail stripped of control
  characters and cut to 300 runes; whatever reads as a parse gap begins with NUL and has a known kind;
  and a control-stripped label (every attachment name a reader sets is one) never reads as one, so a
  sender cannot forge a parse gap by naming an attachment.
\<close>

theorem parse_gap_label_reads_back:
  fixes kind detail label :: string
  assumes "kind \<in> set parse_gap_kinds"
  shows "parse_gap_parts (parse_gap_label kind detail) = Some (kind, bound_detail detail)
     \<and> length (runes (bound_detail detail)) \<le> 300
     \<and> (\<forall>r \<in> set (runes (bound_detail detail)). \<not> control_rune r)
     \<and> \<not> is_parse_gap_label (strip_control label)"
proof -
  have "\<not> is_parse_gap_label (strip_control label)"
    using strip_control_no_nul [of _ label, symmetric]
    by (cases "strip_control label") (auto simp: is_parse_gap_label_def parse_gap_parts_def has_prefix_def)
  then show ?thesis
    using parse_gap_parts_label [OF assms]
    by (auto simp: runes_bound_detail max_parse_gap_detail_def dest: in_set_takeD)
qed

theorem parse_gap_label_reads_back_witness:
  "parse_gap_parts (parse_gap_label ''corrupt-part'' ''cut short'')
     = Some (''corrupt-part'', bound_detail ''cut short'')"
  using parse_gap_label_reads_back [of "''corrupt-part''" "''cut short''" "''a.pdf''"]
  by (simp add: parse_gap_kinds_def kind_defs)

end
