(* ===== verification/GoTime.thy ===== *)
theory GoTime
  imports GoText
begin

text \<open>
  Go's \<^verbatim>\<open>time.Time\<close> as an instant: the nanoseconds since 0001-01-01 00:00:00 UTC, so that the
  zero time is \<open>0\<close>, \<^verbatim>\<open>Before\<close>/\<^verbatim>\<open>After\<close>/\<^verbatim>\<open>Equal\<close> are \<open><\<close>,
  \<open>>\<close> and \<open>=\<close>, and \<^verbatim>\<open>Sub\<close> saturates at the range of an \<^verbatim>\<open>int64\<close> of
  nanoseconds.  A \<^verbatim>\<open>time.Duration\<close> is an \<open>int\<close> of nanoseconds; its arithmetic wraps at 64
  bits.  The civil calendar, the RFC 3339 layout that dates are printed in, and the parse of that
  layout are here too.
\<close>

type_synonym gotime = int
type_synonym duration = int

abbreviation (input) zero_time :: gotime where "zero_time \<equiv> 0"

definition second_ns :: int where "second_ns = 1000000000"
definition hour_ns :: int where "hour_ns = 3600 * second_ns"
definition day_ns :: int where "day_ns = 24 * hour_ns"

lemmas time_units = second_ns_def hour_ns_def day_ns_def

definition max_duration :: int where "max_duration = 2 ^ 63 - 1"
definition min_duration :: int where "min_duration = - (2 ^ 63)"

definition time_sub :: "gotime \<Rightarrow> gotime \<Rightarrow> duration" where
  "time_sub a b = max min_duration (min max_duration (a - b))"

text \<open>Two's complement wrap-around of a 64-bit result.\<close>

definition wrap64 :: "int \<Rightarrow> int" where
  "wrap64 x = (x + 2 ^ 63) mod 2 ^ 64 - 2 ^ 63"

lemma wrap64_id: "min_duration \<le> x \<Longrightarrow> x \<le> max_duration \<Longrightarrow> wrap64 x = x"
  by (simp add: wrap64_def min_duration_def max_duration_def)

lemma time_sub_pos: "0 < time_sub a b \<longleftrightarrow> b < a"
  by (auto simp: time_sub_def min_duration_def max_duration_def)

lemma time_sub_ge: "0 < d \<Longrightarrow> d \<le> max_duration \<Longrightarrow> d \<le> time_sub a b \<longleftrightarrow> b + d \<le> a"
  by (auto simp: time_sub_def min_duration_def max_duration_def)

text \<open>The UTC day an instant falls on; two instants share \<^verbatim>\<open>Date()\<close> when they share it.\<close>

definition utc_day :: "gotime \<Rightarrow> int" where
  "utc_day t = t div day_ns"

subsection \<open>The civil calendar\<close>

definition leap :: "int \<Rightarrow> bool" where
  "leap y \<longleftrightarrow> y mod 4 = 0 \<and> (y mod 100 \<noteq> 0 \<or> y mod 400 = 0)"

definition days_in :: "int \<Rightarrow> int \<Rightarrow> int" where
  "days_in m y = (if m = 2 then (if leap y then 29 else 28)
     else if m \<in> {4, 6, 9, 11} then 30 else 31)"

text \<open>Days from 0001-01-01 to the first of January of year \<open>y\<close>.\<close>

definition days_before_year :: "int \<Rightarrow> int" where
  "days_before_year y = 365 * (y - 1) + (y - 1) div 4 - (y - 1) div 100 + (y - 1) div 400"

definition days_before_month :: "int \<Rightarrow> int \<Rightarrow> int" where
  "days_before_month y m = sum_list (map (\<lambda>i. days_in i y) [1..m - 1])"

definition civil_ns :: "int \<Rightarrow> int \<Rightarrow> int \<Rightarrow> int \<Rightarrow> int \<Rightarrow> int \<Rightarrow> int \<Rightarrow> gotime" where
  "civil_ns y mo d h mi s ns =
     (days_before_year y + days_before_month y mo + d - 1) * day_ns
       + h * hour_ns + mi * 60 * second_ns + s * second_ns + ns"

text \<open>The year a day number falls in: an estimate, corrected by one where it overshoots.\<close>

definition year_of :: "int \<Rightarrow> int" where
  "year_of d = (let y = d * 400 div 146097 + 2
     in if d < days_before_year (y - 1) then y - 2
        else if d < days_before_year y then y - 1 else y)"

fun month_from :: "int \<Rightarrow> int \<Rightarrow> int list \<Rightarrow> int \<times> int" where
  "month_from y d [] = (12, d)"
| "month_from y d (m # ms) = (if d < days_in m y then (m, d) else month_from y (d - days_in m y) ms)"

definition civil_of :: "int \<Rightarrow> int \<times> int \<times> int" where
  "civil_of day = (let y = year_of day; (m, d) = month_from y (day - days_before_year y) [1..12]
     in (y, m, d + 1))"

subsection \<open>RFC 3339\<close>

definition digit_char :: "nat \<Rightarrow> char" where
  "digit_char n = char_of (48 + n mod 10)"

fun pad_digits :: "nat \<Rightarrow> nat \<Rightarrow> string" where
  "pad_digits 0 n = []"
| "pad_digits (Suc w) n = pad_digits w (n div 10) @ [digit_char n]"

definition pad :: "nat \<Rightarrow> int \<Rightarrow> string" where
  "pad w n = pad_digits w (nat n)"

text \<open>\<^verbatim>\<open>t.UTC().Format("2006-01-02")\<close> and \<^verbatim>\<open>t.UTC().Format(time.RFC3339)\<close>, of the years 0 to 9999.\<close>

definition format_date :: "gotime \<Rightarrow> string" where
  "format_date t = (let (y, m, d) = civil_of (utc_day t)
     in pad 4 y @ ''-'' @ pad 2 m @ ''-'' @ pad 2 d)"

definition format_rfc3339 :: "gotime \<Rightarrow> string" where
  "format_rfc3339 t = (let s = t mod day_ns div second_ns
     in format_date t @ ''T'' @ pad 2 (s div 3600) @ '':'' @ pad 2 (s div 60 mod 60) @ '':''
        @ pad 2 (s mod 60) @ ''Z'')"

definition digit_of :: "char \<Rightarrow> int option" where
  "digit_of c = (if in_range 48 57 (byte c) then Some (int (byte c) - 48) else None)"

fun digits_val :: "int \<Rightarrow> string \<Rightarrow> int option" where
  "digits_val acc [] = Some acc"
| "digits_val acc (c # cs) =
     (case digit_of c of None \<Rightarrow> None | Some d \<Rightarrow> digits_val (acc * 10 + d) cs)"

definition uint_in :: "string \<Rightarrow> int \<Rightarrow> int \<Rightarrow> int option" where
  "uint_in s lo hi = (case digits_val 0 s of
     None \<Rightarrow> None | Some n \<Rightarrow> if lo \<le> n \<and> n \<le> hi then Some n else None)"

definition slice :: "nat \<Rightarrow> nat \<Rightarrow> string \<Rightarrow> string" where
  "slice i j s = take (j - i) (drop i s)"

text \<open>The offset after the seconds, in nanoseconds east of UTC.\<close>

definition parse_zone :: "string \<Rightarrow> int option" where
  "parse_zone s =
     (if s = ''Z'' then Some 0
      else if length s = 6 \<and> (s ! 0 = CHR ''+'' \<or> s ! 0 = CHR ''-'') \<and> s ! 3 = CHR '':''
      then (case (uint_in (slice 1 3 s) 0 23, uint_in (slice 4 6 s) 0 59) of
              (Some h, Some m) \<Rightarrow>
                let z = (h * 60 + m) * 60 * second_ns in Some (if s ! 0 = CHR ''-'' then - z else z)
            | _ \<Rightarrow> None)
      else None)"

text \<open>A fraction of a second: at least one digit, the ones after the ninth dropped.\<close>

definition parse_fraction :: "string \<Rightarrow> int \<times> string" where
  "parse_fraction s = (case s of
     CHR ''.'' # c # _ \<Rightarrow>
       if digit_of c = None then (0, s)
       else let ds = takeWhile (\<lambda>x. digit_of x \<noteq> None) (tl s); ds9 = take 9 ds
            in ((case digits_val 0 ds9 of Some n \<Rightarrow> n * 10 ^ (9 - length ds9) | None \<Rightarrow> 0),
                drop (1 + length ds) s)
   | _ \<Rightarrow> (0, s))"

definition parse_rfc3339 :: "string \<Rightarrow> gotime option" where
  "parse_rfc3339 s =
     (if length s < 19 \<or> s ! 4 \<noteq> CHR ''-'' \<or> s ! 7 \<noteq> CHR ''-'' \<or> s ! 10 \<noteq> CHR ''T''
         \<or> s ! 13 \<noteq> CHR '':'' \<or> s ! 16 \<noteq> CHR '':'' then None
      else case (uint_in (slice 0 4 s) 0 9999, uint_in (slice 5 7 s) 1 12) of
        (Some y, Some mo) \<Rightarrow>
          (case (uint_in (slice 8 10 s) 1 (days_in mo y), uint_in (slice 11 13 s) 0 23,
                 uint_in (slice 14 16 s) 0 59, uint_in (slice 17 19 s) 0 59) of
             (Some d, Some h, Some mi, Some sec) \<Rightarrow>
               (case parse_fraction (drop 19 s) of (ns, rest) \<Rightarrow>
                  map_option (\<lambda>z. civil_ns y mo d h mi sec ns - z) (parse_zone rest))
           | _ \<Rightarrow> None)
      | _ \<Rightarrow> None)"

end
