(* ===== verification/Records.thy ===== *)
theory Records
  imports Labels GoTime "HOL-Library.Word"
begin

text \<open>
  What the manifest remembers of one message (\<^verbatim>\<open>Record\<close> of \<^verbatim>\<open>internal/state/manifest.go\<close>, with
  the fixity and the sealed units of \<^verbatim>\<open>units.go\<close>), and the predicates over it.  An absent
  pointer is \<open>None\<close>; an empty slice and a nil one are both \<open>[]\<close>.
\<close>

record file_digest =
  fd_sha256 :: string
  fd_size :: int

record fixity =
  fx_html :: "file_digest option"
  fx_zip :: "file_digest option"
  fx_eml :: "file_digest option"

record sealed_unit =
  su_rev :: "32 word"
  su_sha256 :: string
  su_size :: int

record sealed_set =
  ss_html :: "sealed_unit option"
  ss_zip :: "sealed_unit option"
  ss_eml :: "sealed_unit option"

record mrec =
  r_path :: string
  r_folder :: string
  r_exported_at :: gotime
  r_missing :: "string list"
  r_terminal :: "string list"
  r_unresolved :: "string list"
  r_body_fallback :: string
  r_subject :: string
  r_date :: string
  r_fingerprint :: string
  r_fp_scheme :: int
  r_phys_id :: string
  r_content_hash :: string
  r_alt_phys_ids :: "string list"
  r_also_files :: "string list"
  r_fixity :: "fixity option"
  r_first_folder :: string
  r_first_seen :: gotime
  r_last_seen :: gotime
  r_present :: bool
  r_locator :: string
  r_recovered_by :: string
  r_parse_scheme :: int
  r_parser_gen :: int
  r_raw_digest :: string
  r_fidelity_fallback :: int
  r_unit :: string
  r_sealed :: "sealed_set option"

text \<open>The zero value of the struct.\<close>

definition zero_rec :: mrec where
  "zero_rec = \<lparr>r_path = [], r_folder = [], r_exported_at = 0, r_missing = [], r_terminal = [],
     r_unresolved = [], r_body_fallback = [], r_subject = [], r_date = [], r_fingerprint = [],
     r_fp_scheme = 0, r_phys_id = [], r_content_hash = [], r_alt_phys_ids = [], r_also_files = [],
     r_fixity = None, r_first_folder = [], r_first_seen = 0, r_last_seen = 0, r_present = False,
     r_locator = [], r_recovered_by = [], r_parse_scheme = 0, r_parser_gen = 0, r_raw_digest = [],
     r_fidelity_fallback = 0, r_unit = [], r_sealed = None\<rparr>"

subsection \<open>Digests\<close>

definition lower_hex :: "char \<Rightarrow> bool" where
  "lower_hex c \<longleftrightarrow> (CHR ''0'' \<le> c \<and> c \<le> CHR ''9'') \<or> (CHR ''a'' \<le> c \<and> c \<le> CHR ''f'')"

definition valid_digest :: "string \<Rightarrow> bool" where
  "valid_digest s \<longleftrightarrow> length s = 64 \<and> list_all lower_hex s"

definition valid_unit_id :: "string \<Rightarrow> bool" where
  "valid_unit_id s \<longleftrightarrow> length s = 32 \<and> list_all lower_hex s"

subsection \<open>The predicates of a record\<close>

definition has_digest :: "mrec \<Rightarrow> bool" where
  "has_digest r \<longleftrightarrow> (case r_fixity r of None \<Rightarrow> False
     | Some f \<Rightarrow> fx_html f \<noteq> None \<or> fx_zip f \<noteq> None \<or> fx_eml f \<noteq> None)"

definition fillable :: "mrec \<Rightarrow> bool" where
  "fillable r \<longleftrightarrow> 0 < length (r_missing r)"

definition complete :: "mrec \<Rightarrow> bool" where
  "complete r \<longleftrightarrow> length (r_missing r) = 0 \<and> length (r_terminal r) = 0"

definition has_issues :: "mrec \<Rightarrow> bool" where
  "has_issues r \<longleftrightarrow> 0 < length (r_missing r) \<or> 0 < length (r_terminal r)
     \<or> 0 < length (r_unresolved r) \<or> r_body_fallback r \<noteq> []"

definition unknown :: "mrec \<Rightarrow> bool" where
  "unknown r \<longleftrightarrow> length (r_missing r) = 1 \<and> r_missing r ! 0 = unknown_sentinel"

definition has_unreadable :: "mrec \<Rightarrow> bool" where
  "has_unreadable r \<longleftrightarrow> list_ex is_unreadable_label (r_missing r) \<or> list_ex is_unreadable_label (r_terminal r)"

definition rec_has_label :: "mrec \<Rightarrow> string \<Rightarrow> bool" where
  "rec_has_label r l \<longleftrightarrow> list_ex (\<lambda>x. x = l) (r_missing r) \<or> list_ex (\<lambda>x. x = l) (r_terminal r)"

definition list_has_label :: "string list \<Rightarrow> string \<Rightarrow> bool" where
  "list_has_label xs l \<longleftrightarrow> list_ex (\<lambda>x. x = l) xs"

definition terminal_gap :: "mrec \<Rightarrow> bool" where
  "terminal_gap r \<longleftrightarrow>
     list_ex (\<lambda>l. \<not> is_parse_gap_label l \<and> record_gap_class l True = class_terminal) (r_terminal r)"

definition has_parse_gap :: "mrec \<Rightarrow> bool" where
  "has_parse_gap r \<longleftrightarrow> list_ex is_parse_gap_label (r_missing r) \<or> list_ex is_parse_gap_label (r_terminal r)"

definition rec_has_labels :: "mrec \<Rightarrow> string list \<Rightarrow> bool" where
  "rec_has_labels r ls \<longleftrightarrow> list_all (rec_has_label r) ls"

definition stale_unparsed :: "mrec \<Rightarrow> int \<Rightarrow> bool" where
  "stale_unparsed r gen \<longleftrightarrow> rec_has_label r label_unparsed \<and> r_parser_gen r < gen"

definition is_legacy_placeholder :: "mrec \<Rightarrow> bool" where
  "is_legacy_placeholder r \<longleftrightarrow> rec_has_label r label_legacy_placeholder"

definition record_has_phys_id :: "mrec \<Rightarrow> string \<Rightarrow> bool" where
  "record_has_phys_id r i \<longleftrightarrow> i \<noteq> [] \<and> (r_phys_id r = i \<or> list_ex (\<lambda>a. a = i) (r_alt_phys_ids r))"

lemma rec_has_label_iff: "rec_has_label r l \<longleftrightarrow> l \<in> set (r_missing r) \<or> l \<in> set (r_terminal r)"
  by (auto simp: rec_has_label_def list_ex_iff)

lemma has_unreadable_iff:
  "has_unreadable r \<longleftrightarrow> (\<exists>l \<in> set (r_missing r) \<union> set (r_terminal r). is_unreadable_label l)"
  by (auto simp: has_unreadable_def list_ex_iff)

lemma record_has_phys_id_iff:
  "record_has_phys_id r i \<longleftrightarrow> i \<noteq> [] \<and> (r_phys_id r = i \<or> i \<in> set (r_alt_phys_ids r))"
  by (auto simp: record_has_phys_id_def list_ex_iff)

lemma unknown_iff: "unknown r \<longleftrightarrow> r_missing r = [unknown_sentinel]"
  by (cases "r_missing r") (auto simp: unknown_def)

lemmas rec_preds = has_unreadable_def rec_has_label_def has_parse_gap_def terminal_gap_def
  fillable_def has_issues_def complete_def unknown_def

end
