(* ===== verification/Keys.thy ===== *)
theory Keys
  imports Labels
begin

text \<open>
  The manifest keys (\<^verbatim>\<open>internal/state/manifest.go\<close>, \<^verbatim>\<open>legacy.go\<close>): components joined by
  NUL.  A folder-scoped key is \<^verbatim>\<open>token NUL folder NUL identity\<close>, a live key
  \<^verbatim>\<open>token NUL identity\<close>, and either may be qualified by a fingerprint.
\<close>

definition key_separator :: string where "key_separator = [nul]"

definition folder_key :: "string \<Rightarrow> string \<Rightarrow> string \<Rightarrow> string" where
  "folder_key token folder identity = token @ key_separator @ folder @ key_separator @ identity"

definition live_key :: "string \<Rightarrow> string \<Rightarrow> string" where
  "live_key token identity = token @ key_separator @ identity"

definition qualify :: "string \<Rightarrow> string \<Rightarrow> string" where
  "qualify key fp = key @ key_separator @ fp"

definition identity_of :: "string \<Rightarrow> string" where
  "identity_of key = (case after_byte nul key of None \<Rightarrow> [] | Some rest \<Rightarrow> upto_byte nul rest)"

definition identity_of_key :: "string \<Rightarrow> string" where
  "identity_of_key key = (let parts = split_on nul key
     in if length parts < 3 then [] else parts ! 2)"

definition is_identity :: "string \<Rightarrow> bool" where
  "is_identity s \<longleftrightarrow> has_prefix s ''mid:'' \<or> has_prefix s ''sha:''"

definition locator_index_key :: "string \<Rightarrow> string \<Rightarrow> string" where
  "locator_index_key key locator = upto_byte nul key @ key_separator @ locator"

definition first_segment :: "string \<Rightarrow> string" where
  "first_segment path = upto_byte CHR ''/'' (trim_prefix path ''/'')"

definition migrate_key :: "string \<Rightarrow> string \<Rightarrow> string \<times> bool" where
  "migrate_key key path =
     (if path = [] then (key, False)
      else if count_byte nul key \<noteq> 1 then (key, False)
      else let seg = first_segment path
           in if seg = [] then (key, False) else (seg @ key_separator @ key, True))"

definition gap_key :: "string \<Rightarrow> string \<Rightarrow> string \<Rightarrow> string" where
  "gap_key token scope locator = token @ key_separator @ scope @ key_separator @ locator"

text \<open>
  \<^verbatim>\<open>filepath.Base\<close> for a path separator: the last element, trailing separators dropped.
\<close>

definition base_name :: "char \<Rightarrow> string \<Rightarrow> string" where
  "base_name sep p =
     (if p = [] then ''.''
      else let q = rev (dropWhile (\<lambda>c. c = sep) (rev p))
           in if q = [] then [sep] else rev (takeWhile (\<lambda>c. c \<noteq> sep) (rev q)))"

text \<open>
  \<^verbatim>\<open>SafeToken\<close>, for the separator of the platform (\<^verbatim>\<open>filepath.Separator\<close>).  The byte
  test is the rune test: every rune below 0x80 is one byte of its own.
\<close>

definition safe_token :: "char \<Rightarrow> string \<Rightarrow> bool" where
  "safe_token sep tok \<longleftrightarrow>
     \<not> (tok = [] \<or> tok = ''.'' \<or> tok = ''..'')
     \<and> \<not> (CHR ''/'' \<in> set tok \<or> sep \<in> set tok)
     \<and> tok = base_name sep tok
     \<and> list_all (\<lambda>r. \<not> (r < 0x20 \<or> r = 0x7f)) (runes tok)"

lemmas key_defs = folder_key_def live_key_def qualify_def key_separator_def

lemma identity_of_live [go_str, simp]:
  "nul \<notin> set token \<Longrightarrow> nul \<notin> set identity \<Longrightarrow> identity_of (live_key token identity) = identity"
  "nul \<notin> set token \<Longrightarrow> nul \<notin> set identity \<Longrightarrow> identity_of (qualify (live_key token identity) fp) = identity"
  by (simp_all add: identity_of_def key_defs)

lemma split_folder_key [go_str, simp]:
  "nul \<notin> set token \<Longrightarrow> nul \<notin> set folder \<Longrightarrow> nul \<notin> set identity \<Longrightarrow>
     split_on nul (folder_key token folder identity) = [token, folder, identity]"
  by (simp add: key_defs)

lemma split_live_key [go_str, simp]:
  "nul \<notin> set token \<Longrightarrow> nul \<notin> set identity \<Longrightarrow> split_on nul (live_key token identity) = [token, identity]"
  by (simp add: key_defs)

lemma split_qualified [go_str, simp]:
  "nul \<notin> set token \<Longrightarrow> nul \<notin> set identity \<Longrightarrow> nul \<notin> set fp \<Longrightarrow>
     split_on nul (qualify (live_key token identity) fp) = [token, identity, fp]"
  by (simp add: key_defs)

lemma identity_of_folder_key [go_str, simp]:
  "nul \<notin> set token \<Longrightarrow> nul \<notin> set folder \<Longrightarrow> nul \<notin> set identity \<Longrightarrow>
     identity_of_key (folder_key token folder identity) = identity"
  by (simp add: identity_of_key_def)

interpretation live: codec "\<lambda>(t, i). live_key t i"
  "\<lambda>k. case split_on nul k of [t, i] \<Rightarrow> Some (t, i) | _ \<Rightarrow> None"
  "\<lambda>(t, i). nul \<notin> set t \<and> nul \<notin> set i"
  by unfold_locales auto

interpretation filed: codec "\<lambda>(t, f, i). folder_key t f i"
  "\<lambda>k. case split_on nul k of [t, f, i] \<Rightarrow> Some (t, f, i) | _ \<Rightarrow> None"
  "\<lambda>(t, f, i). nul \<notin> set t \<and> nul \<notin> set f \<and> nul \<notin> set i"
  by unfold_locales auto

lemma count_byte_append [simp]: "count_byte c (a @ b) = count_byte c a + count_byte c b"
  by (simp add: count_byte_def)

lemma count_byte_zero: "count_byte c a = 0 \<longleftrightarrow> c \<notin> set a"
  by (auto simp: count_byte_def filter_empty_conv)

lemma count_sep [simp]: "count_byte nul key_separator = 1"
  by (simp add: count_byte_def key_separator_def)

text \<open>A re-scoped key holds at least two NULs, so it is never re-scoped again.\<close>

lemma migrate_key_twice:
  assumes "migrate_key key path = (k', True)"
  shows "migrate_key k' path' = (k', False)"
proof -
  from assms have c: "count_byte nul key = 1" and k': "k' = first_segment path @ key_separator @ key"
    by (auto simp: migrate_key_def Let_def split: if_splits)
  then have "count_byte nul k' \<noteq> 1" by simp
  then show ?thesis by (simp add: migrate_key_def)
qed

lemma migrate_key_False: "migrate_key key path = (k', False) \<Longrightarrow> k' = key"
  by (auto simp: migrate_key_def Let_def split: if_splits)

lemma is_identity_nonempty: "is_identity s \<Longrightarrow> s \<noteq> []"
  by (auto simp: is_identity_def has_prefix_def)

text \<open>
  A key names one message.  Of components free of NUL, live keys, folder-scoped keys and
  fingerprint-qualified live keys are injective, a live key never equals a folder-scoped one nor any
  qualified key, and the identity component read back from each is the one it was built with: so a
  crafted Message-ID can never take the key of another message (R1, R3, R6).
\<close>

theorem keys_name_one_message:
  assumes "nul \<notin> set t" "nul \<notin> set f" "nul \<notin> set i" "nul \<notin> set p"
    and "nul \<notin> set t'" "nul \<notin> set f'" "nul \<notin> set i'" "nul \<notin> set p'"
  shows "(live_key t i = live_key t' i' \<longleftrightarrow> t = t' \<and> i = i')
     \<and> (folder_key t f i = folder_key t' f' i' \<longleftrightarrow> t = t' \<and> f = f' \<and> i = i')
     \<and> (qualify (live_key t i) p = qualify (live_key t' i') p' \<longleftrightarrow> t = t' \<and> i = i' \<and> p = p')
     \<and> live_key t i \<noteq> folder_key t' f' i'
     \<and> live_key t i \<noteq> qualify (live_key t' i') p'
     \<and> identity_of (live_key t i) = i \<and> identity_of (qualify (live_key t i) p) = i
     \<and> identity_of_key (folder_key t f i) = i"
proof -
  note live_inj = live.enc_inj [of "(t, i)" "(t', i')"]
  note filed_inj = filed.enc_inj [of "(t, f, i)" "(t', f', i')"]
  have q: "qualify (live_key a b) c = folder_key a b c" for a b c by (simp add: key_defs)
  note q_inj = filed.enc_inj [of "(t, i, p)" "(t', i', p')"]
  have ne: "live_key t i \<noteq> folder_key t' a b" if "nul \<notin> set a" "nul \<notin> set b" for a b
  proof
    assume "live_key t i = folder_key t' a b"
    then have "split_on nul (live_key t i) = split_on nul (folder_key t' a b)" by (rule arg_cong)
    with assms that show False by simp
  qed
  show ?thesis
    using assms live_inj filed_inj q_inj ne by (auto simp: q [symmetric]) (auto simp: q)
qed

theorem keys_name_one_message_witness:
  "live_key ''alice'' ''mid:<1@x>'' \<noteq> qualify (live_key ''alice'' ''mid:<1@x>'') ''ab''
   \<and> identity_of (live_key ''alice'' ''mid:<1@x>'') = ''mid:<1@x>''"
  using keys_name_one_message [of "''alice''" "''Inbox''" "''mid:<1@x>''" "''ab''"
      "''alice''" "''Inbox''" "''mid:<1@x>''" "''ab''"]
  by simp

end
