(* ===== verification/Manifest.thy ===== *)
theory Manifest
  imports Records Keys
begin

text \<open>
  The manifest (\<^verbatim>\<open>Manifest\<close> of \<^verbatim>\<open>internal/state/manifest.go\<close>): its state, its secondary
  indices and the operations that read and write it.  Each operation runs under the manifest's lock,
  so it is one step: a function from a state to a result and a state.  The four lazily built
  indices and the unit set are \<open>None\<close> until first use.
\<close>

record ident_ref =
  ir_key :: string
  ir_fingerprint :: string
  ir_phys_id :: string

text \<open>One entry of the capture-gap ledger; theory \<open>Ledger\<close> has its operations.\<close>

record capture_gap =
  g_token :: string
  g_folder :: string
  g_scope :: string
  g_locator :: string
  g_reason :: string
  g_class :: string
  g_subject :: string
  g_received :: string
  g_detail :: string
  g_skipped :: int
  g_defers_gone :: bool
  g_first_run :: gotime
  g_last_run :: gotime
  g_runs :: int

record manifest =
  m_path :: string
  m_version :: int
  m_entries :: "(string, mrec) gomap"
  m_stores :: "(string, string) gomap"
  m_capture_gaps :: "(string, capture_gap) gomap"
  m_collapsed_tokens :: "(string, bool) gomap"
  m_migrated :: int
  m_rekeyed :: int
  m_stores_migrated :: int
  m_unit_set :: "(string, bool) gomap option"
  m_sealed :: bool
  m_loaded_version :: int
  m_collapsed :: int
  m_by_path :: "(string, string) gomap option"
  m_by_locator :: "(string, string) gomap option"
  m_by_raw_digest :: "(string, string list) gomap option"
  m_by_ident :: "(string, ident_ref list) gomap option"

definition manifest_version :: int where "manifest_version = 6"

definition new_manifest :: "string \<Rightarrow> manifest" where
  "new_manifest path = \<lparr>m_path = path, m_version = manifest_version, m_entries = [], m_stores = [],
     m_capture_gaps = [], m_collapsed_tokens = [], m_migrated = 0, m_rekeyed = 0,
     m_stores_migrated = 0, m_unit_set = None, m_sealed = False, m_loaded_version = manifest_version,
     m_collapsed = 0, m_by_path = None, m_by_locator = None, m_by_raw_digest = None,
     m_by_ident = Some []\<rparr>"

subsection \<open>Maps of lists\<close>

text \<open>A Go map of slices: an absent key reads as the nil slice.\<close>

definition mlist :: "('k, 'v list) gomap \<Rightarrow> 'k \<Rightarrow> 'v list" where
  "mlist x k = (case mget x k of None \<Rightarrow> [] | Some l \<Rightarrow> l)"

lemma mlist_mput [go_map, simp]: "mlist (mput k l x) k' = (if k' = k then l else mlist x k')"
  by (simp add: mlist_def)

lemma mlist_mdel [go_map, simp]: "mlist (mdel k x) k' = (if k' = k then [] else mlist x k')"
  by (simp add: mlist_def)

lemma mlist_empty [simp]: "mlist [] k = []"
  by (simp add: mlist_def)

text \<open>The first element that satisfies a test, rewritten in place or cut out.\<close>

fun upd_first :: "('a \<Rightarrow> bool) \<Rightarrow> ('a \<Rightarrow> 'a) \<Rightarrow> 'a list \<Rightarrow> 'a list" where
  "upd_first P f [] = []"
| "upd_first P f (x # xs) = (if P x then f x # xs else x # upd_first P f xs)"

fun del_first :: "('a \<Rightarrow> bool) \<Rightarrow> 'a list \<Rightarrow> 'a list" where
  "del_first P [] = []"
| "del_first P (x # xs) = (if P x then xs else x # del_first P xs)"

definition list_keys :: "('e \<Rightarrow> 'k) \<Rightarrow> ('i, 'e list) gomap \<Rightarrow> bool" where
  "list_keys ek x \<longleftrightarrow> mok x \<and> (\<forall>i. distinct (map ek (mlist x i)))"

lemma set_upd_first:
  "distinct (map f xs) \<Longrightarrow> (\<And>x. f (g x) = f x) \<Longrightarrow>
     set (upd_first (\<lambda>x. f x = k) g xs) = {x \<in> set xs. f x \<noteq> k} \<union> g ` {x \<in> set xs. f x = k}
     \<and> distinct (map f (upd_first (\<lambda>x. f x = k) g xs))"
proof (induction xs)
  case (Cons a xs)
  show ?case
  proof (cases "f a = k")
    case True
    from True Cons.prems(1) have "k \<notin> f ` set xs" by auto
    then have "{x \<in> set xs. f x \<noteq> k} = set xs" "{x \<in> set xs. f x = k} = {}" by blast+
    then have "{x \<in> set (a # xs). f x \<noteq> k} = set xs" "{x \<in> set (a # xs). f x = k} = {a}"
      using True by auto
    moreover have "f (g a) = k" using True Cons.prems(2) by simp
    ultimately show ?thesis using True Cons.prems(1) by simp
  next
    case False
    let ?u = "upd_first (\<lambda>x. f x = k) g xs"
    have d: "distinct (map f xs)" and na: "f a \<notin> f ` set xs" using Cons.prems(1) by auto
    have ih: "set ?u = {x \<in> set xs. f x \<noteq> k} \<union> g ` {x \<in> set xs. f x = k}" "distinct (map f ?u)"
      using Cons.IH [OF d Cons.prems(2)] by blast+
    have "f ` set ?u \<subseteq> f ` set xs" unfolding ih(1) using Cons.prems(2) by auto
    with na have "f a \<notin> f ` set ?u" by blast
    then have "distinct (map f (upd_first (\<lambda>x. f x = k) g (a # xs)))" using False ih(2) by simp
    moreover have "set (upd_first (\<lambda>x. f x = k) g (a # xs)) = insert a (set ?u)" using False by simp
    ultimately show ?thesis unfolding ih(1) using False by auto
  qed
qed simp

lemma set_del_first:
  "distinct (map f xs) \<Longrightarrow>
     set (del_first (\<lambda>x. f x = k) xs) = {x \<in> set xs. f x \<noteq> k}
     \<and> distinct (map f (del_first (\<lambda>x. f x = k) xs))"
  by (induction xs) (auto, metis imageI)

subsection \<open>The identity index\<close>

definition ident_ref_of :: "string \<Rightarrow> mrec \<Rightarrow> ident_ref" where
  "ident_ref_of k r = \<lparr>ir_key = k, ir_fingerprint = r_fingerprint r, ir_phys_id = r_phys_id r\<rparr>"

definition build_ident :: "(string, mrec) gomap \<Rightarrow> (string, ident_ref list) gomap" where
  "build_ident es = fold (\<lambda>(k, r) x.
     let i = identity_of k in if i = [] then x else mput i (mlist x i @ [ident_ref_of k r]) x) es []"

definition ident_upsert ::
  "string \<Rightarrow> string \<Rightarrow> string \<Rightarrow> (string, ident_ref list) gomap \<Rightarrow> (string, ident_ref list) gomap" where
  "ident_upsert key fp phys x =
     (let i = identity_of key; lst = mlist x i
      in if i = [] then x
         else if list_ex (\<lambda>e. ir_key e = key) lst
         then mput i (upd_first (\<lambda>e. ir_key e = key) (\<lambda>e. e\<lparr>ir_fingerprint := fp, ir_phys_id := phys\<rparr>) lst) x
         else mput i (lst @ [\<lparr>ir_key = key, ir_fingerprint = fp, ir_phys_id = phys\<rparr>]) x)"

definition ident_remove :: "string \<Rightarrow> (string, ident_ref list) gomap \<Rightarrow> (string, ident_ref list) gomap" where
  "ident_remove key x =
     (let i = identity_of key; lst = mlist x i
      in if i = [] \<or> \<not> list_ex (\<lambda>e. ir_key e = key) lst then x
         else let rest = del_first (\<lambda>e. ir_key e = key) lst
              in if rest = [] then mdel i x else mput i rest x)"

definition ident_entry :: "string \<Rightarrow> mrec \<Rightarrow> (string \<times> ident_ref) option" where
  "ident_entry k r = (if identity_of k = [] then None else Some (identity_of k, ident_ref_of k r))"

lemma ident_upsert_law:
  assumes inv: "list_keys ir_key x"
    and acc: "\<And>i e. e \<in> set (mlist x i) \<and> ir_key e = k \<longleftrightarrow> (\<exists>w. old = Some w \<and> ident_entry k w = Some (i, e))"
  shows "list_keys ir_key (ident_upsert k (r_fingerprint v) (r_phys_id v) x) \<and>
    (\<forall>i e. e \<in> set (mlist (ident_upsert k (r_fingerprint v) (r_phys_id v) x) i) \<longleftrightarrow>
       (if ir_key e = k then ident_entry k v = Some (i, e) else e \<in> set (mlist x i)))"
proof (cases "identity_of k = []")
  case True
  with inv acc show ?thesis by (auto simp: ident_upsert_def ident_entry_def Let_def)
next
  case False
  let ?i = "identity_of k" and ?g = "\<lambda>e. e\<lparr>ir_fingerprint := r_fingerprint v, ir_phys_id := r_phys_id v\<rparr>"
  have g: "ir_key e = k \<Longrightarrow> ?g e = ident_ref_of k v" for e by (cases e) (simp add: ident_ref_of_def)
  have ref: "ir_key (ident_ref_of k v) = k" by (simp add: ident_ref_of_def)
  have only: "e \<in> set (mlist x j) \<Longrightarrow> ir_key e = k \<Longrightarrow> j = ?i" for e j
    using acc [of e j] by (auto simp: ident_entry_def split: if_splits)
  have d: "distinct (map ir_key (mlist x ?i))" using inv by (simp add: list_keys_def)
  show ?thesis
  proof (cases "list_ex (\<lambda>e. ir_key e = k) (mlist x ?i)")
    case True
    have u: "set (upd_first (\<lambda>e. ir_key e = k) ?g (mlist x ?i)) =
        {e \<in> set (mlist x ?i). ir_key e \<noteq> k} \<union> {ident_ref_of k v}"
      using set_upd_first [OF d, of ?g k] True g by (auto simp: list_ex_iff image_iff)
    have "distinct (map ir_key (upd_first (\<lambda>e. ir_key e = k) ?g (mlist x ?i)))"
      using set_upd_first [OF d, of ?g k] by simp
    with inv False True u only show ?thesis
      by (auto simp: ident_upsert_def Let_def list_keys_def ident_entry_def ref)
  next
    case absent: False
    with inv False only show ?thesis
      by (auto simp: ident_upsert_def Let_def list_keys_def ident_entry_def ident_ref_of_def list_ex_iff)
  qed
qed

lemma ident_remove_law:
  assumes inv: "list_keys ir_key x"
    and acc: "\<And>i e. e \<in> set (mlist x i) \<and> ir_key e = k \<longleftrightarrow> (\<exists>w. old = Some w \<and> ident_entry k w = Some (i, e))"
  shows "list_keys ir_key (ident_remove k x) \<and>
    (\<forall>i e. e \<in> set (mlist (ident_remove k x) i) \<longleftrightarrow> ir_key e \<noteq> k \<and> e \<in> set (mlist x i))"
proof -
  let ?i = "identity_of k"
  have only: "e \<in> set (mlist x j) \<Longrightarrow> ir_key e = k \<Longrightarrow> j = ?i \<and> ?i \<noteq> []" for e j
    using acc [of e j] by (auto simp: ident_entry_def split: if_splits)
  have d: "distinct (map ir_key (mlist x ?i))" using inv by (simp add: list_keys_def)
  show ?thesis
  proof (cases "?i = [] \<or> \<not> list_ex (\<lambda>e. ir_key e = k) (mlist x ?i)")
    case True
    then have "ident_remove k x = x" by (simp add: ident_remove_def Let_def)
    moreover have "e \<in> set (mlist x j) \<Longrightarrow> ir_key e \<noteq> k" for e j
      using True only [of e j] by (auto simp: list_ex_iff)
    ultimately show ?thesis using inv by auto
  next
    case False
    let ?rest = "del_first (\<lambda>e. ir_key e = k) (mlist x ?i)"
    have m: "mlist (ident_remove k x) j = (if j = ?i then ?rest else mlist x j)" for j
      using False by (simp add: ident_remove_def Let_def)
    have "mok (ident_remove k x)"
      using False inv by (simp add: ident_remove_def Let_def list_keys_def)
    with m set_del_first [OF d, of k] inv only show ?thesis
      by (auto simp: list_keys_def)
  qed
qed

interpretation byident: secondary_index ident_entry ir_key "\<lambda>x i. set (mlist x i)"
  "\<lambda>k old v x. ident_upsert k (r_fingerprint v) (r_phys_id v) x" "\<lambda>k old x. ident_remove k x"
  "[]" "list_keys ir_key"
proof
  show "ident_entry k v = Some (i, e) \<Longrightarrow> ir_key e = k" for k v i e
    by (auto simp: ident_entry_def ident_ref_of_def split: if_splits)
  show "set (mlist [] i) = {}" for i :: string by simp
  show "list_keys ir_key []" by (simp add: list_keys_def)
qed (rule ident_upsert_law ident_remove_law; assumption)+

text \<open>The index as it is used: built from the entries when it is not yet.\<close>

definition ident_index :: "manifest \<Rightarrow> (string, ident_ref list) gomap" where
  "ident_index m = (case m_by_ident m of None \<Rightarrow> build_ident (m_entries m) | Some x \<Rightarrow> x)"

subsection \<open>The raw-digest index of the unparsed stubs\<close>

definition digest_add :: "string \<Rightarrow> mrec \<Rightarrow> (string, string list) gomap \<Rightarrow> (string, string list) gomap" where
  "digest_add key r x =
     (if r_raw_digest r = [] \<or> \<not> rec_has_label r label_unparsed then x
      else let dk = locator_index_key key (r_raw_digest r)
           in if list_ex (\<lambda>k. k = key) (mlist x dk) then x else mput dk (mlist x dk @ [key]) x)"

definition digest_drop :: "string \<Rightarrow> mrec \<Rightarrow> (string, string list) gomap \<Rightarrow> (string, string list) gomap" where
  "digest_drop key old x =
     (if r_raw_digest old = [] then x
      else let dk = locator_index_key key (r_raw_digest old);
               ks = del_first (\<lambda>k. k = key) (mlist x dk)
           in if ks = [] then mdel dk x else mput dk ks x)"

definition build_digest :: "(string, mrec) gomap \<Rightarrow> (string, string list) gomap" where
  "build_digest es = fold (\<lambda>(k, r) x. digest_add k r x) es []"

definition digest_index :: "manifest \<Rightarrow> (string, string list) gomap" where
  "digest_index m = (case m_by_raw_digest m of None \<Rightarrow> build_digest (m_entries m) | Some x \<Rightarrow> x)"

definition digest_entry :: "string \<Rightarrow> mrec \<Rightarrow> (string \<times> string) option" where
  "digest_entry k r = (if r_raw_digest r = [] \<or> \<not> rec_has_label r label_unparsed then None
     else Some (locator_index_key k (r_raw_digest r), k))"

definition digest_set where
  "digest_set k old r x = digest_add k r (case old of None \<Rightarrow> x | Some w \<Rightarrow> digest_drop k w x)"

definition digest_del where
  "digest_del k old x = (case old of None \<Rightarrow> x | Some w \<Rightarrow> digest_drop k w x)"

lemma digest_drop_lists:
  assumes inv: "list_keys (\<lambda>k. k) x"
  shows "list_keys (\<lambda>k. k) (digest_drop k w x)"
    and "mlist (digest_drop k w x) i =
      (if r_raw_digest w \<noteq> [] \<and> i = locator_index_key k (r_raw_digest w)
       then del_first (\<lambda>y. y = k) (mlist x i) else mlist x i)"
proof -
  show m: "mlist (digest_drop k w x) i =
      (if r_raw_digest w \<noteq> [] \<and> i = locator_index_key k (r_raw_digest w)
       then del_first (\<lambda>y. y = k) (mlist x i) else mlist x i)" for i
    by (simp add: digest_drop_def Let_def)
  have "mok (digest_drop k w x)" using inv by (simp add: digest_drop_def Let_def list_keys_def)
  with inv m set_del_first [of "\<lambda>y. y" _ k] show "list_keys (\<lambda>k. k) (digest_drop k w x)"
    by (auto simp: list_keys_def)
qed

lemma digest_del_law:
  assumes inv: "list_keys (\<lambda>k. k) x"
    and acc: "\<And>i e. e \<in> set (mlist x i) \<and> e = k \<longleftrightarrow> (\<exists>w. old = Some w \<and> digest_entry k w = Some (i, e))"
  shows "list_keys (\<lambda>k. k) (digest_del k old x) \<and>
    (\<forall>i e. e \<in> set (mlist (digest_del k old x) i) \<longleftrightarrow> e \<noteq> k \<and> e \<in> set (mlist x i))"
proof (cases old)
  case None
  then show ?thesis using inv acc by (auto simp: digest_del_def)
next
  case (Some w)
  have d: "distinct (map (\<lambda>y. y) (mlist x i))" for i using inv unfolding list_keys_def by blast
  have only: "k \<in> set (mlist x i) \<Longrightarrow> r_raw_digest w \<noteq> [] \<and> i = locator_index_key k (r_raw_digest w)" for i
    using acc [of k i] Some by (auto simp: digest_entry_def split: if_splits)
  have "e \<in> set (mlist (digest_drop k w x) i) \<longleftrightarrow> e \<noteq> k \<and> e \<in> set (mlist x i)" for e i
    using only [of i] set_del_first [OF d, of k i] by (auto simp: digest_drop_lists(2) [OF inv])
  then show ?thesis using digest_drop_lists(1) [OF inv] by (simp add: digest_del_def Some)
qed

lemma digest_set_law:
  assumes inv: "list_keys (\<lambda>k. k) x"
    and acc: "\<And>i e. e \<in> set (mlist x i) \<and> e = k \<longleftrightarrow> (\<exists>w. old = Some w \<and> digest_entry k w = Some (i, e))"
  shows "list_keys (\<lambda>k. k) (digest_set k old v x) \<and>
    (\<forall>i e. e \<in> set (mlist (digest_set k old v x) i) \<longleftrightarrow>
       (if e = k then digest_entry k v = Some (i, e) else e \<in> set (mlist x i)))"
proof -
  let ?y = "digest_del k old x"
  have y: "list_keys (\<lambda>k. k) ?y" "\<And>i e. e \<in> set (mlist ?y i) \<longleftrightarrow> e \<noteq> k \<and> e \<in> set (mlist x i)"
    using digest_del_law [OF inv acc] by blast+
  have s: "digest_set k old v x = digest_add k v ?y" by (simp add: digest_set_def digest_del_def)
  have no: "\<not> list_ex (\<lambda>e. e = k) (mlist ?y i)" for i using y(2) by (auto simp: list_ex_iff)
  have nk: "k \<notin> set (mlist ?y i)" for i using y(2) by simp
  show ?thesis
  proof (cases "r_raw_digest v = [] \<or> \<not> rec_has_label v label_unparsed")
    case True
    then have "digest_add k v ?y = ?y" by (simp add: digest_add_def)
    with y True show ?thesis unfolding s by (auto simp: digest_entry_def)
  next
    case False
    let ?dk = "locator_index_key k (r_raw_digest v)"
    have a: "digest_add k v ?y = mput ?dk (mlist ?y ?dk @ [k]) ?y"
      using False no by (simp add: digest_add_def Let_def)
    have "list_keys (\<lambda>k. k) (mput ?dk (mlist ?y ?dk @ [k]) ?y)"
      using y(1) nk by (auto simp: list_keys_def)
    with False y(2) show ?thesis unfolding s a by (auto simp: digest_entry_def)
  qed
qed

interpretation bydigest: secondary_index digest_entry "\<lambda>k. k" "\<lambda>x i. set (mlist x i)"
  digest_set digest_del "[]" "list_keys (\<lambda>k. k)"
proof
  show "digest_entry k v = Some (i, e) \<Longrightarrow> e = k" for k v i e
    by (auto simp: digest_entry_def split: if_splits)
  show "set (mlist [] i) = {}" for i :: string by simp
  show "list_keys (\<lambda>k. k) []" by (simp add: list_keys_def)
qed (rule digest_set_law digest_del_law; assumption)+

subsection \<open>Built indices cover the entries\<close>

text \<open>Both builders run the index's own upkeep over entries that are new to it.\<close>

lemma build_digest_covers: "mok es \<Longrightarrow> bydigest.covers (mget es) (build_digest es)"
  using bydigest.covers_build_list [of es] by (simp add: build_digest_def digest_set_def)

lemma build_ident_step:
  "build_ident (es @ [(k, r)]) = (if identity_of k = [] then build_ident es
     else mput (identity_of k) (mlist (build_ident es) (identity_of k) @ [ident_ref_of k r]) (build_ident es))"
  by (simp add: build_ident_def Let_def)

lemma build_ident_keys: "e \<in> set (mlist (build_ident es) i) \<Longrightarrow> ir_key e \<in> set (mkeys es)"
proof (induction es rule: rev_induct)
  case Nil
  then show ?case by (simp add: build_ident_def)
next
  case (snoc x es)
  then show ?case
    by (cases x) (auto simp: build_ident_step ident_ref_of_def split: if_splits)
qed

lemma build_ident_snoc:
  assumes "mok (es @ [(k, r)])"
  shows "build_ident (es @ [(k, r)]) = ident_upsert k (r_fingerprint r) (r_phys_id r) (build_ident es)"
proof -
  have "\<not> list_ex (\<lambda>e. ir_key e = k) (mlist (build_ident es) (identity_of k))"
    using assms build_ident_keys [of _ es] by (auto simp: list_ex_iff)
  then show ?thesis
    by (simp add: build_ident_step ident_upsert_def Let_def ident_ref_of_def)
qed

lemma build_ident_covers: "mok es \<Longrightarrow> byident.covers (mget es) (build_ident es)"
proof -
  have "mok es \<Longrightarrow> build_ident es = fold (\<lambda>(k, r) x. ident_upsert k (r_fingerprint r) (r_phys_id r) x) es []"
  proof (induction es rule: rev_induct)
    case Nil
    then show ?case by (simp add: build_ident_def)
  next
    case (snoc e es)
    then show ?case using build_ident_snoc [of es "fst e" "snd e"] by (cases e) simp
  qed
  then show "mok es \<Longrightarrow> byident.covers (mget es) (build_ident es)"
    using byident.covers_build_list [of es] by simp
qed

end
