(* ===== verification/ManifestOps.thy ===== *)
theory ManifestOps
  imports Manifest
begin

text \<open>
  The manifest's operations (\<^verbatim>\<open>manifest.go\<close>, \<^verbatim>\<open>legacy.go\<close>, \<^verbatim>\<open>units.go\<close>), in the
  code's order: adding and deleting a record, the settling of partly-read and unparsed records, the
  lookups by path, locator, identity and immutable id, and the in-place updates of the timeline.
\<close>

subsection \<open>Lookups\<close>

definition has_key :: "manifest \<Rightarrow> string \<Rightarrow> bool" where
  "has_key m key \<longleftrightarrow> mhas (m_entries m) key"

definition has_token :: "manifest \<Rightarrow> string \<Rightarrow> bool" where
  "has_token m token \<longleftrightarrow> list_ex (\<lambda>k. has_prefix k (token @ key_separator)) (mkeys (m_entries m))"

definition get_rec :: "manifest \<Rightarrow> string \<Rightarrow> mrec option" where
  "get_rec m key = mget (m_entries m) key"

definition len :: "manifest \<Rightarrow> nat" where
  "len m = length (m_entries m)"

definition all_recs :: "manifest \<Rightarrow> (string, mrec) gomap" where
  "all_recs m = m_entries m"

subsection \<open>The locator and path indices\<close>

definition locator_add :: "string \<Rightarrow> mrec \<Rightarrow> (string, string) gomap \<Rightarrow> (string, string) gomap" where
  "locator_add key r x =
     (if r_locator r \<noteq> [] \<and> has_unreadable r then mput (locator_index_key key (r_locator r)) key x else x)"

definition locator_drop :: "string \<Rightarrow> mrec \<Rightarrow> (string, string) gomap \<Rightarrow> (string, string) gomap" where
  "locator_drop key old x =
     (if r_locator old = [] then x
      else let lk = locator_index_key key (r_locator old)
           in if mget x lk = Some key then mdel lk x else x)"

definition build_locator :: "(string, mrec) gomap \<Rightarrow> (string, string) gomap" where
  "build_locator es = fold (\<lambda>(k, r) x. locator_add k r x) es []"

definition locator_index :: "manifest \<Rightarrow> (string, string) gomap" where
  "locator_index m = (case m_by_locator m of None \<Rightarrow> build_locator (m_entries m) | Some x \<Rightarrow> x)"

definition build_path :: "(string, mrec) gomap \<Rightarrow> (string, string) gomap" where
  "build_path es = fold (\<lambda>(k, r) x. if r_path r \<noteq> [] then mput (r_path r) k x else x) es []"

definition path_index :: "manifest \<Rightarrow> (string, string) gomap" where
  "path_index m = (case m_by_path m of None \<Rightarrow> build_path (m_entries m) | Some x \<Rightarrow> x)"

definition key_for_locator :: "string \<Rightarrow> string \<Rightarrow> manifest \<Rightarrow> string option \<times> manifest" where
  "key_for_locator token locator m =
     (if locator = [] then (None, m)
      else (mget (locator_index m) (token @ key_separator @ locator),
            m\<lparr>m_by_locator := Some (locator_index m)\<rparr>))"

definition key_for_path :: "string \<Rightarrow> manifest \<Rightarrow> string option \<times> manifest" where
  "key_for_path path m = (mget (path_index m) path, m\<lparr>m_by_path := Some (path_index m)\<rparr>)"

subsection \<open>Add and Delete\<close>

definition path_move :: "string \<Rightarrow> mrec option \<Rightarrow> mrec \<Rightarrow> (string, string) gomap \<Rightarrow> (string, string) gomap" where
  "path_move key old r x =
     (let x1 = (case old of Some o' \<Rightarrow> if r_path o' \<noteq> r_path r then mdel (r_path o') x else x | None \<Rightarrow> x)
      in if r_path r \<noteq> [] then mput (r_path r) key x1 else x1)"

definition add :: "string \<Rightarrow> mrec \<Rightarrow> manifest \<Rightarrow> manifest" where
  "add key r m =
     (let old = mget (m_entries m) key in
      m\<lparr>m_unit_set := map_option (\<lambda>u. if r_unit r \<noteq> [] then mput (r_unit r) True u else u) (m_unit_set m),
        m_by_path := map_option (path_move key old r) (m_by_path m),
        m_by_ident := Some (ident_upsert key (r_fingerprint r) (r_phys_id r) (ident_index m)),
        m_by_locator := map_option (\<lambda>x. locator_add key r
            (case old of Some o' \<Rightarrow> locator_drop key o' x | None \<Rightarrow> x)) (m_by_locator m),
        m_by_raw_digest := map_option (digest_set key old r) (m_by_raw_digest m),
        m_entries := mput key r (m_entries m)\<rparr>)"

definition delete :: "string \<Rightarrow> manifest \<Rightarrow> manifest" where
  "delete key m =
     (let old = mget (m_entries m) key in
      m\<lparr>m_by_path := map_option (\<lambda>x. case old of Some o' \<Rightarrow> mdel (r_path o') x | None \<Rightarrow> x) (m_by_path m),
        m_by_locator := map_option (\<lambda>x. case old of Some o' \<Rightarrow> locator_drop key o' x | None \<Rightarrow> x)
            (m_by_locator m),
        m_by_raw_digest := map_option (digest_del key old) (m_by_raw_digest m),
        m_by_ident := map_option (ident_remove key) (m_by_ident m),
        m_entries := mdel key (m_entries m)\<rparr>)"

subsection \<open>Settling partly-read and unparsed records\<close>

definition has_unparsed_stubs :: "manifest \<Rightarrow> bool \<times> manifest" where
  "has_unparsed_stubs m = (digest_index m \<noteq> [], m\<lparr>m_by_raw_digest := Some (digest_index m)\<rparr>)"

text \<open>The stub of the new record's own folder, else the first in key order.\<close>

definition folder_of :: "(string, mrec) gomap \<Rightarrow> string \<Rightarrow> string" where
  "folder_of es k = (case mget es k of None \<Rightarrow> [] | Some r \<Rightarrow> r_folder r)"

definition unparsed_target :: "string \<Rightarrow> string \<Rightarrow> string \<Rightarrow> manifest \<Rightarrow> string option" where
  "unparsed_target token digest new_key m =
     (let es = m_entries m;
          cands = sort (filter (\<lambda>k. case mget es k of None \<Rightarrow> False
              | Some c \<Rightarrow> k \<noteq> new_key \<and> rec_has_label c label_unparsed)
            (mlist (digest_index m) (token @ key_separator @ digest)))
      in case find (\<lambda>k. folder_of es k = folder_of es new_key) cands of
           Some k \<Rightarrow> Some k
         | None \<Rightarrow> (case cands of [] \<Rightarrow> None | c # _ \<Rightarrow> Some c))"

definition supersede_unparsed :: "string \<Rightarrow> string \<Rightarrow> string \<Rightarrow> manifest \<Rightarrow> bool \<times> manifest" where
  "supersede_unparsed token digest new_key m =
     (let x = digest_index m; m1 = m\<lparr>m_by_raw_digest := Some x\<rparr>
      in case unparsed_target token digest new_key m of
           None \<Rightarrow> (False, m1)
         | Some key \<Rightarrow>
             (case mget (m_entries m) key of
                None \<Rightarrow> (False, m1)
              | Some r \<Rightarrow>
                  (True, m1\<lparr>m_by_raw_digest := Some (digest_drop key r x),
                     m_entries := mput key (r\<lparr>r_missing := [], r_terminal := [label_superseded],
                         r_recovered_by := new_key, r_parser_gen := 0, r_raw_digest := []\<rparr>) (m_entries m)\<rparr>)))"

lemma unparsed_target_Some:
  assumes "unparsed_target token digest new_key m = Some key"
  obtains r where "mget (m_entries m) key = Some r" "rec_has_label r label_unparsed" "key \<noteq> new_key"
    "key \<in> set (mlist (digest_index m) (token @ key_separator @ digest))"
proof -
  let ?es = "m_entries m"
  let ?c = "sort (filter (\<lambda>k. case mget ?es k of None \<Rightarrow> False
      | Some c \<Rightarrow> k \<noteq> new_key \<and> rec_has_label c label_unparsed)
    (mlist (digest_index m) (token @ key_separator @ digest)))"
  have "key \<in> set ?c"
    using assms find_or_hd [of ?c _ key] unfolding unparsed_target_def Let_def by blast
  then show thesis using that by (auto split: option.splits)
qed

definition stamp_parser_gen :: "string \<Rightarrow> int \<Rightarrow> manifest \<Rightarrow> bool \<times> manifest" where
  "stamp_parser_gen key gen m = (case mget (m_entries m) key of
     None \<Rightarrow> (False, m)
   | Some r \<Rightarrow>
       if \<not> rec_has_label r label_unparsed \<or> gen \<le> r_parser_gen r then (False, m)
       else (True, m\<lparr>m_entries := mput key (r\<lparr>r_parser_gen := gen\<rparr>) (m_entries m)\<rparr>))"

text \<open>
  \<^verbatim>\<open>SupersedePartial\<close> looks the key up under the lock, releases it, and takes it again to
  commit: its two halves, and the operation when nothing comes between them.
\<close>

definition supersede_partial_commit :: "string \<Rightarrow> string \<Rightarrow> manifest \<Rightarrow> bool \<times> manifest" where
  "supersede_partial_commit key new_key m = (case mget (m_entries m) key of
     None \<Rightarrow> (False, m)
   | Some r \<Rightarrow>
       if \<not> has_unreadable r then (False, m)
       else (True, m\<lparr>m_by_locator := map_option (locator_drop key r) (m_by_locator m),
               m_entries := mput key (r\<lparr>r_missing := [], r_terminal := [label_superseded],
                   r_recovered_by := new_key, r_locator := []\<rparr>) (m_entries m)\<rparr>))"

definition supersede_partial :: "string \<Rightarrow> string \<Rightarrow> string \<Rightarrow> manifest \<Rightarrow> bool \<times> manifest" where
  "supersede_partial token locator new_key m =
     (case key_for_locator token locator m of (found, m1) \<Rightarrow>
        (case found of
           None \<Rightarrow> (False, m1)
         | Some key \<Rightarrow> if key = new_key then (False, m1) else supersede_partial_commit key new_key m1))"

definition set_locator :: "string \<Rightarrow> string \<Rightarrow> manifest \<Rightarrow> bool \<times> manifest" where
  "set_locator key locator m = (case mget (m_entries m) key of
     None \<Rightarrow> (False, m)
   | Some r \<Rightarrow>
       if locator = [] \<or> r_locator r \<noteq> [] \<or> \<not> has_unreadable r then (False, m)
       else let r' = r\<lparr>r_locator := locator\<rparr>
            in (True, m\<lparr>m_entries := mput key r' (m_entries m),
                        m_by_locator := map_option (locator_add key r') (m_by_locator m)\<rparr>))"

definition resolve :: "string \<Rightarrow> manifest \<Rightarrow> bool \<times> manifest" where
  "resolve key m = (case mget (m_entries m) key of
     None \<Rightarrow> (False, m)
   | Some r \<Rightarrow>
       if \<not> unknown r then (False, m)
       else let r1 = r\<lparr>r_missing := []\<rparr>;
                r2 = (if \<not> has_issues r1 then r1\<lparr>r_subject := [], r_date := []\<rparr> else r1)
            in (True, m\<lparr>m_entries := mput key r2 (m_entries m)\<rparr>))"

subsection \<open>The timeline of a record\<close>

definition merge_fields :: "string \<Rightarrow> string \<Rightarrow> gotime \<Rightarrow> bool \<Rightarrow> manifest \<Rightarrow> bool \<times> manifest" where
  "merge_fields key folder seen present m = (case mget (m_entries m) key of
     None \<Rightarrow> (False, m)
   | Some r \<Rightarrow> (True, m\<lparr>m_entries := mput key
       (r\<lparr>r_folder := folder, r_last_seen := seen, r_present := present\<rparr>) (m_entries m)\<rparr>))"

definition stamp_parse_scheme :: "string \<Rightarrow> int \<Rightarrow> manifest \<Rightarrow> bool \<times> manifest" where
  "stamp_parse_scheme key scheme m = (case mget (m_entries m) key of
     None \<Rightarrow> (False, m)
   | Some r \<Rightarrow>
       if scheme \<le> r_parse_scheme r then (False, m)
       else (True, m\<lparr>m_entries := mput key (r\<lparr>r_parse_scheme := scheme\<rparr>) (m_entries m)\<rparr>))"

definition set_present :: "string \<Rightarrow> bool \<Rightarrow> manifest \<Rightarrow> bool \<times> manifest" where
  "set_present key present m = (case mget (m_entries m) key of
     None \<Rightarrow> (False, m)
   | Some r \<Rightarrow> (True, m\<lparr>m_entries := mput key (r\<lparr>r_present := present\<rparr>) (m_entries m)\<rparr>))"

definition touch_seen :: "string \<Rightarrow> gotime \<Rightarrow> manifest \<Rightarrow> bool \<times> manifest" where
  "touch_seen key seen m = (case mget (m_entries m) key of
     None \<Rightarrow> (False, m)
   | Some r \<Rightarrow> (True, m\<lparr>m_entries := mput key (r\<lparr>r_last_seen := seen\<rparr>) (m_entries m)\<rparr>))"

subsection \<open>Identities and immutable ids\<close>

definition keys_for_identity :: "string \<Rightarrow> manifest \<Rightarrow> ident_ref list \<times> manifest" where
  "keys_for_identity identity m = (mlist (ident_index m) identity, m\<lparr>m_by_ident := Some (ident_index m)\<rparr>)"

definition same_store_identity_count :: "string \<Rightarrow> string \<Rightarrow> manifest \<Rightarrow> nat \<times> manifest" where
  "same_store_identity_count store identity m =
     (length (filter (\<lambda>e. has_prefix (ir_key e) (store @ key_separator)) (mlist (ident_index m) identity)),
      m\<lparr>m_by_ident := Some (ident_index m)\<rparr>)"

definition has_phys_id :: "string \<Rightarrow> string \<Rightarrow> manifest \<Rightarrow> bool" where
  "has_phys_id key i m = (case mget (m_entries m) key of None \<Rightarrow> False | Some r \<Rightarrow> record_has_phys_id r i)"

text \<open>
  When the primary id is set and the index is not built, the code builds it from the entries that
  already hold the new id.
\<close>

definition add_phys_id :: "string \<Rightarrow> string \<Rightarrow> manifest \<Rightarrow> bool \<times> manifest" where
  "add_phys_id key i m =
     (if i = [] then (False, m)
      else case mget (m_entries m) key of
        None \<Rightarrow> (False, m)
      | Some r \<Rightarrow>
          if record_has_phys_id r i then (False, m)
          else if r_phys_id r = [] then
            let es = mput key (r\<lparr>r_phys_id := i\<rparr>) (m_entries m); b = identity_of key
            in (True, m\<lparr>m_entries := es,
                 m_by_ident := Some (case m_by_ident m of
                     None \<Rightarrow> build_ident es
                   | Some x \<Rightarrow>
                       if list_ex (\<lambda>e. ir_key e = key) (mlist x b)
                       then mput b (upd_first (\<lambda>e. ir_key e = key) (\<lambda>e. e\<lparr>ir_phys_id := i\<rparr>) (mlist x b)) x
                       else x)\<rparr>)
          else (True, m\<lparr>m_entries := mput key (r\<lparr>r_alt_phys_ids := r_alt_phys_ids r @ [i]\<rparr>) (m_entries m)\<rparr>))"

definition owes_collapse :: "string \<Rightarrow> manifest \<Rightarrow> bool" where
  "owes_collapse token m \<longleftrightarrow> mget (m_collapsed_tokens m) token \<noteq> Some True"

definition mark_collapsed :: "string list \<Rightarrow> manifest \<Rightarrow> manifest" where
  "mark_collapsed tokens m =
     m\<lparr>m_collapsed_tokens := fold (\<lambda>t x. mput t True x) tokens (m_collapsed_tokens m)\<rparr>"

subsection \<open>Units of an encrypted archive\<close>

definition has_units :: "manifest \<Rightarrow> bool" where
  "has_units m \<longleftrightarrow> list_ex (\<lambda>(k, r). r_unit r \<noteq> []) (m_entries m)"

definition build_unit_set :: "(string, mrec) gomap \<Rightarrow> (string, bool) gomap" where
  "build_unit_set es = fold (\<lambda>(k, r) u. if r_unit r \<noteq> [] then mput (r_unit r) True u else u) es []"

definition unit_in_use :: "string \<Rightarrow> manifest \<Rightarrow> bool \<times> manifest" where
  "unit_in_use u m =
     (let s = (case m_unit_set m of None \<Rightarrow> build_unit_set (m_entries m) | Some s \<Rightarrow> s)
      in (mget s u = Some True, m\<lparr>m_unit_set := Some s\<rparr>))"

datatype detach_error = Not_Sealed | Copy_Exists

definition detach_plaintext :: "(string \<Rightarrow> bool) \<Rightarrow> string \<Rightarrow> manifest \<Rightarrow> detach_error + manifest" where
  "detach_plaintext exists path m =
     (if \<not> m_sealed m then Inl Not_Sealed
      else if exists path then Inl Copy_Exists
      else Inr (m\<lparr>m_entries := mmap (\<lambda>k r. r\<lparr>r_unit := [], r_sealed := None\<rparr>) (m_entries m),
                  m_sealed := False, m_unit_set := None, m_path := path\<rparr>))"

subsection \<open>Legacy stubs\<close>

definition legacy_placeholder_subject :: string where
  "legacy_placeholder_subject = ''(unreadable message)''"

definition reclass_hit :: "string \<Rightarrow> string \<Rightarrow> mrec \<Rightarrow> bool" where
  "reclass_hit identity key r \<longleftrightarrow>
     \<not> (r_subject r \<noteq> legacy_placeholder_subject \<or> \<not> fillable r \<or> identity_of_key key \<noteq> identity)
     \<and> \<not> (length (r_missing r) \<noteq> 1 \<or> r_missing r ! 0 \<noteq> missing_body \<or> length (r_terminal r) \<noteq> 0)"

definition reclass_legacy_placeholders :: "string \<Rightarrow> manifest \<Rightarrow> nat \<times> manifest" where
  "reclass_legacy_placeholders identity m =
     (if identity = [] then (0, m)
      else (length (filter (\<lambda>(k, r). reclass_hit identity k r) (m_entries m)),
            m\<lparr>m_entries := mmap (\<lambda>k r. if reclass_hit identity k r
                then r\<lparr>r_missing := [], r_terminal := [label_legacy_placeholder]\<rparr> else r) (m_entries m)\<rparr>))"

end
