(* ===== verification/ManifestInv.thy ===== *)
theory ManifestInv
  imports ManifestOps
begin

text \<open>
  The manifest's invariant, that every operation keeps it, and what the lookups answer under it.
  A caller owes \<^verbatim>\<open>Add\<close> two things: the path it files is not another record's, and the record
  is not at once partly read and unparsed (no reader makes such a record; theory \<open>Findings\<close> shows
  what the indices do with one).
\<close>

definition mixed :: "mrec \<Rightarrow> bool" where
  "mixed r \<longleftrightarrow> has_unreadable r \<and> rec_has_label r label_unparsed"

definition path_unique :: "(string, mrec) gomap \<Rightarrow> bool" where
  "path_unique es \<longleftrightarrow> (\<forall>k k' r r'. mget es k = Some r \<and> mget es k' = Some r'
     \<and> r_path r = r_path r' \<and> r_path r \<noteq> [] \<longrightarrow> k = k')"

definition path_exact :: "(string, mrec) gomap \<Rightarrow> (string, string) gomap \<Rightarrow> bool" where
  "path_exact es x \<longleftrightarrow> (\<forall>p k. mget x p = Some k \<longleftrightarrow> p \<noteq> [] \<and> (\<exists>r. mget es k = Some r \<and> r_path r = p))"

definition locator_sound :: "(string, mrec) gomap \<Rightarrow> (string, string) gomap \<Rightarrow> bool" where
  "locator_sound es x \<longleftrightarrow> (\<forall>i k. mget x i = Some k \<longrightarrow> (\<exists>r. mget es k = Some r \<and> has_unreadable r
     \<and> r_locator r \<noteq> [] \<and> i = locator_index_key k (r_locator r)))"

definition opt_all :: "('a \<Rightarrow> bool) \<Rightarrow> 'a option \<Rightarrow> bool" where
  "opt_all P x \<longleftrightarrow> (case x of None \<Rightarrow> True | Some y \<Rightarrow> P y)"

definition inv :: "manifest \<Rightarrow> bool" where
  "inv m \<longleftrightarrow> mok (m_entries m) \<and> path_unique (m_entries m)
     \<and> (\<forall>k r. mget (m_entries m) k = Some r \<longrightarrow> \<not> mixed r)
     \<and> opt_all (byident.covers (mget (m_entries m))) (m_by_ident m)
     \<and> opt_all (bydigest.covers (mget (m_entries m))) (m_by_raw_digest m)
     \<and> opt_all (locator_sound (m_entries m)) (m_by_locator m)
     \<and> opt_all (path_exact (m_entries m)) (m_by_path m)"

lemma path_uniqueD:
  "path_unique es \<Longrightarrow> mget es k = Some r \<Longrightarrow> mget es k' = Some r' \<Longrightarrow> r_path r' = r_path r \<Longrightarrow>
     r_path r \<noteq> [] \<Longrightarrow> k' = k"
  unfolding path_unique_def by metis

lemma path_uniqueI:
  "(\<And>k k' r r'. mget es k = Some r \<Longrightarrow> mget es k' = Some r' \<Longrightarrow> r_path r = r_path r' \<Longrightarrow>
     r_path r \<noteq> [] \<Longrightarrow> k = k') \<Longrightarrow> path_unique es"
  unfolding path_unique_def by blast

lemma opt_all_simps [simp]: "opt_all P None" "opt_all P (Some x) = P x"
  by (simp_all add: opt_all_def)

lemma opt_all_map: "opt_all P x \<Longrightarrow> (\<And>y. P y \<Longrightarrow> Q (f y)) \<Longrightarrow> opt_all Q (map_option f x)"
  by (cases x) auto

lemma opt_all_mono: "opt_all P x \<Longrightarrow> (\<And>y. P y \<Longrightarrow> Q y) \<Longrightarrow> opt_all Q x"
  by (cases x) auto

lemma invD:
  assumes "inv m"
  shows "mok (m_entries m)" "path_unique (m_entries m)"
    "mget (m_entries m) k = Some r \<Longrightarrow> \<not> mixed r"
    "opt_all (byident.covers (mget (m_entries m))) (m_by_ident m)"
    "opt_all (bydigest.covers (mget (m_entries m))) (m_by_raw_digest m)"
    "opt_all (locator_sound (m_entries m)) (m_by_locator m)"
    "opt_all (path_exact (m_entries m)) (m_by_path m)"
  using assms by (simp_all add: inv_def)

subsection \<open>A built index is right whenever it is read\<close>

lemma ident_index_covers: "inv m \<Longrightarrow> byident.covers (mget (m_entries m)) (ident_index m)"
  using invD(1,4) [of m] by (auto simp: ident_index_def build_ident_covers split: option.splits)

lemma digest_index_covers: "inv m \<Longrightarrow> bydigest.covers (mget (m_entries m)) (digest_index m)"
  using invD(1,5) [of m] by (auto simp: digest_index_def build_digest_covers split: option.splits)

lemma locator_soundD:
  "locator_sound es x \<Longrightarrow> mget x i = Some k \<Longrightarrow> \<exists>r. mget es k = Some r \<and> has_unreadable r
     \<and> r_locator r \<noteq> [] \<and> i = locator_index_key k (r_locator r)"
  by (simp add: locator_sound_def)

lemma locator_add_sound:
  assumes "locator_sound es x" and "\<And>i. mget x i \<noteq> Some key"
  shows "locator_sound (mput key r es) (locator_add key r x)"
  unfolding locator_sound_def
proof (intro allI impI)
  fix i k
  assume g: "mget (locator_add key r x) i = Some k"
  show "\<exists>ra. mget (mput key r es) k = Some ra \<and> has_unreadable ra \<and> r_locator ra \<noteq> []
     \<and> i = locator_index_key k (r_locator ra)"
  proof (cases "k = key")
    case True
    with g assms(2) [of i] show ?thesis by (auto simp: locator_add_def split: if_splits)
  next
    case False
    with g have "mget x i = Some k" by (auto simp: locator_add_def split: if_splits)
    with False locator_soundD [OF assms(1)] show ?thesis by simp
  qed
qed

lemma locator_drop_sound:
  assumes s: "locator_sound es x" and old: "mget es key = Some old"
  shows "mget (locator_drop key old x) i \<noteq> Some key"
    and "mget (locator_drop key old x) i = Some k \<Longrightarrow> mget x i = Some k"
proof -
  show "mget (locator_drop key old x) i \<noteq> Some key"
  proof
    assume a: "mget (locator_drop key old x) i = Some key"
    then have "mget x i = Some key" by (auto simp: locator_drop_def Let_def split: if_splits)
    with old have "r_locator old \<noteq> []" "i = locator_index_key key (r_locator old)"
      using locator_soundD [OF s] by force+
    with a show False by (auto simp: locator_drop_def Let_def split: if_splits)
  qed
  show "mget (locator_drop key old x) i = Some k \<Longrightarrow> mget x i = Some k"
    by (auto simp: locator_drop_def Let_def split: if_splits)
qed

lemma locator_sound_absent:
  "locator_sound es x \<Longrightarrow> mget es key = None \<Longrightarrow> mget x i \<noteq> Some key"
  using locator_soundD by fastforce

lemma locator_sound_other:
  assumes "locator_sound es x" and "\<And>i k. mget y i = Some k \<Longrightarrow> mget x i = Some k \<and> k \<noteq> key"
  shows "locator_sound (mput key r es) y" "locator_sound (mdel key es) y"
proof -
  have "mget y i = Some k \<Longrightarrow> k \<noteq> key \<and> (\<exists>r. mget es k = Some r \<and> has_unreadable r
     \<and> r_locator r \<noteq> [] \<and> i = locator_index_key k (r_locator r))" for i k
    using assms by (auto simp: locator_sound_def)
  then show "locator_sound (mput key r es) y" "locator_sound (mdel key es) y"
    unfolding locator_sound_def by auto
qed

lemma build_locator_sound: "mok es \<Longrightarrow> locator_sound es (build_locator es)"
proof (induction es rule: rev_induct)
  case Nil
  then show ?case by (simp add: build_locator_def locator_sound_def)
next
  case (snoc e es)
  obtain k r where e: "e = (k, r)" by fastforce
  let ?x = "build_locator es"
  have IH: "locator_sound es ?x" using snoc by simp
  have new: "mget es k = None" using snoc.prems by (simp add: e map_of_eq_None_iff)
  have m: "mget (es @ [e]) j = (if j = k then Some r else mget es j)" for j
    using new by (auto simp: e map_add_def split: option.splits)
  have b: "build_locator (es @ [e]) = locator_add k r ?x" by (simp add: build_locator_def e)
  show ?case
    unfolding b locator_sound_def m
    using IH new by (auto simp: locator_sound_def locator_add_def) (metis option.distinct(1))+
qed

lemma locator_index_sound: "inv m \<Longrightarrow> locator_sound (m_entries m) (locator_index m)"
  using invD(1,6) [of m] by (auto simp: locator_index_def build_locator_sound split: option.splits)

lemma build_path_exact:
  "mok es \<Longrightarrow> path_unique es \<Longrightarrow> path_exact es (build_path es)"
proof (induction es rule: rev_induct)
  case Nil
  then show ?case by (simp add: build_path_def path_exact_def)
next
  case (snoc e es)
  obtain k r where e: "e = (k, r)" by fastforce
  have new: "mget es k = None" using snoc.prems by (simp add: e map_of_eq_None_iff)
  have m: "mget (es @ [e]) j = (if j = k then Some r else mget es j)" for j
    using new by (auto simp: e map_add_def split: option.splits)
  have "path_unique es"
    using snoc.prems(2) new unfolding path_unique_def m by (metis option.distinct(1))
  with snoc have IH: "path_exact es (build_path es)" by simp
  have u: "mget es k' = Some r' \<Longrightarrow> r_path r' = r_path r \<Longrightarrow> r_path r \<noteq> [] \<Longrightarrow> False" for k' r'
    using snoc.prems(2) new unfolding path_unique_def m by (metis option.distinct(1))
  have b: "build_path (es @ [e]) = (if r_path r \<noteq> [] then mput (r_path r) k (build_path es) else build_path es)"
    by (simp add: build_path_def e)
  show ?case
    unfolding b path_exact_def m using IH new u by (auto simp: path_exact_def)
qed

lemma path_index_exact: "inv m \<Longrightarrow> path_exact (m_entries m) (path_index m)"
  using invD(1,2,7) [of m] by (auto simp: path_index_def build_path_exact split: option.splits)

subsection \<open>Every operation keeps the invariant\<close>

lemma covers_mput: "byident.covers (mget (mput k r es)) x = byident.covers ((mget es)(k \<mapsto> r)) x"
  "bydigest.covers (mget (mput k r es)) y = bydigest.covers ((mget es)(k \<mapsto> r)) y"
  by (simp_all add: update_conv')

lemma covers_mdel: "byident.covers (mget (mdel k es)) x = byident.covers ((mget es)(k := None)) x"
  "bydigest.covers (mget (mdel k es)) y = bydigest.covers ((mget es)(k := None)) y"
  by (simp_all add: delete_conv')

lemma covers_same_put:
  "byident.covers (mget es) x \<Longrightarrow> mget es k = Some r \<Longrightarrow> ident_entry k r' = ident_entry k r \<Longrightarrow>
     byident.covers (mget (mput k r' es)) x"
  "bydigest.covers (mget es) y \<Longrightarrow> mget es k = Some r \<Longrightarrow> digest_entry k r' = digest_entry k r \<Longrightarrow>
     bydigest.covers (mget (mput k r' es)) y"
  unfolding covers_mput by (rule byident.covers_same bydigest.covers_same; assumption)+

text \<open>An update in place that leaves what the indices file untouched.\<close>

definition same_filing :: "string \<Rightarrow> mrec \<Rightarrow> mrec \<Rightarrow> bool" where
  "same_filing k r r' \<longleftrightarrow> r_path r' = r_path r \<and> ident_entry k r' = ident_entry k r
     \<and> digest_entry k r' = digest_entry k r \<and> (mixed r' \<longrightarrow> mixed r)
     \<and> (has_unreadable r \<and> r_locator r \<noteq> [] \<longrightarrow> has_unreadable r' \<and> r_locator r' = r_locator r)"

lemma path_exact_same:
  assumes "path_exact es x" "mget es k = Some r" "r_path r' = r_path r"
  shows "path_exact (mput k r' es) x"
  using assms unfolding path_exact_def by auto

lemma locator_sound_same:
  assumes s: "locator_sound es x" and k: "mget es k = Some r"
    and u: "has_unreadable r \<and> r_locator r \<noteq> [] \<longrightarrow> has_unreadable r' \<and> r_locator r' = r_locator r"
  shows "locator_sound (mput k r' es) x"
  unfolding locator_sound_def
proof (intro allI impI)
  fix i j
  assume "mget x i = Some j"
  from locator_soundD [OF s this] u k
  show "\<exists>ra. mget (mput k r' es) j = Some ra \<and> has_unreadable ra \<and> r_locator ra \<noteq> []
     \<and> i = locator_index_key j (r_locator ra)"
    by (cases "j = k") auto
qed

lemma path_unique_same:
  "path_unique es \<Longrightarrow> mget es k = Some r \<Longrightarrow> r_path r' = r_path r \<Longrightarrow> path_unique (mput k r' es)"
  by (rule path_uniqueI) (auto split: if_splits dest: path_uniqueD)

lemma inv_same:
  assumes m: "inv m" and k: "mget (m_entries m) k = Some r" and s: "same_filing k r r'"
  shows "inv (m\<lparr>m_entries := mput k r' (m_entries m)\<rparr>)"
  using invD [OF m] s k
  by (auto simp: inv_def same_filing_def covers_mput byident.covers_same bydigest.covers_same
      intro: path_unique_same path_exact_same locator_sound_same elim!: opt_all_mono split: if_splits)

lemma inv_index [intro]:
  assumes "inv m"
  shows "inv (m\<lparr>m_by_ident := Some (ident_index m)\<rparr>)" "inv (m\<lparr>m_by_raw_digest := Some (digest_index m)\<rparr>)"
    "inv (m\<lparr>m_by_locator := Some (locator_index m)\<rparr>)" "inv (m\<lparr>m_by_path := Some (path_index m)\<rparr>)"
  using invD [OF assms] ident_index_covers [OF assms] digest_index_covers [OF assms]
    locator_index_sound [OF assms] path_index_exact [OF assms]
  by (simp_all add: inv_def)

lemma inv_frame [simp]:
  "inv (m\<lparr>m_collapsed_tokens := a\<rparr>) = inv m" "inv (m\<lparr>m_unit_set := b\<rparr>) = inv m"
  "inv (m\<lparr>m_capture_gaps := c\<rparr>) = inv m" "inv (m\<lparr>m_path := d\<rparr>) = inv m"
  "inv (m\<lparr>m_version := e\<rparr>) = inv m" "inv (m\<lparr>m_sealed := f\<rparr>) = inv m"
  by (simp_all add: inv_def)

definition add_ok :: "string \<Rightarrow> mrec \<Rightarrow> manifest \<Rightarrow> bool" where
  "add_ok key r m \<longleftrightarrow> \<not> mixed r \<and>
     (r_path r \<noteq> [] \<longrightarrow> (\<forall>k r'. mget (m_entries m) k = Some r' \<and> r_path r' = r_path r \<longrightarrow> k = key))"

lemma path_exactD:
  "path_exact es x \<Longrightarrow> mget x p = Some k \<longleftrightarrow> p \<noteq> [] \<and> (\<exists>r. mget es k = Some r \<and> r_path r = p)"
  by (simp add: path_exact_def)

lemma path_move_get:
  "mget (path_move key old r x) p =
     (if p = r_path r \<and> p \<noteq> [] then Some key
      else if (\<exists>w. old = Some w \<and> p = r_path w \<and> r_path w \<noteq> r_path r) then None else mget x p)"
proof -
  have "mget (if a \<noteq> [] then mput a key y else y) p = (if p = a \<and> p \<noteq> [] then Some key else mget y p)"
    for a :: string and y :: "(string, string) gomap"
    by simp
  moreover have "mget (if b \<noteq> a then mdel b x else x) p = (if p = b \<and> b \<noteq> a then None else mget x p)"
    for a b :: string
    by simp
  ultimately show ?thesis
    unfolding path_move_def Let_def by (cases old) (simp_all only: option.case option.inject option.distinct ex_simps simp_thms if_False)
qed

lemma path_move_exact:
  assumes x: "path_exact es x" and u: "path_unique es"
    and free: "r_path r \<noteq> [] \<Longrightarrow> (\<And>k r'. mget es k = Some r' \<Longrightarrow> r_path r' = r_path r \<Longrightarrow> k = key)"
  shows "path_exact (mput key r es) (path_move key (mget es key) r x)"
  unfolding path_exact_def
proof (intro allI)
  fix p k
  show "mget (path_move key (mget es key) r x) p = Some k \<longleftrightarrow>
      p \<noteq> [] \<and> (\<exists>r'. mget (mput key r es) k = Some r' \<and> r_path r' = p)"
  proof (cases "k = key")
    case True
    then show ?thesis unfolding path_move_get by (auto simp: path_exactD [OF x])
  next
    case False
    have a: "mget es k = Some r' \<Longrightarrow> r_path r' = r_path r \<Longrightarrow> r_path r \<noteq> [] \<Longrightarrow> False" for r'
      using free False by blast
    have b: "mget es key = Some w \<Longrightarrow> mget es k = Some r' \<Longrightarrow> r_path r' = r_path w \<Longrightarrow> r_path w \<noteq> [] \<Longrightarrow> False" for r' w
      using path_uniqueD [OF u] False by blast
    show ?thesis
      unfolding path_move_get using False a b by (auto simp: path_exactD [OF x])
  qed
qed

lemma path_del_exact:
  assumes x: "path_exact es x" and u: "path_unique es"
  shows "path_exact (mdel key es) (case mget es key of Some old \<Rightarrow> mdel (r_path old) x | None \<Rightarrow> x)"
proof (cases "mget es key")
  case None
  with x show ?thesis by (auto simp: path_exact_def)
next
  case (Some old)
  have "mget es k = Some r' \<Longrightarrow> r_path r' = r_path old \<Longrightarrow> r_path old \<noteq> [] \<Longrightarrow> k = key" for k r'
    using path_uniqueD [OF u Some] by blast
  with Some x show ?thesis by (auto simp: path_exact_def)
qed

lemma inv_add:
  assumes m: "inv m" and a: "add_ok key r m"
  shows "inv (add key r m)"
proof -
  let ?es = "m_entries m"
  note d = invD [OF m]
  have u: "path_unique (mput key r ?es)"
    by (rule path_uniqueI) (use a path_uniqueD [OF d(2)] in \<open>auto simp: add_ok_def split: if_splits\<close>)
  have l: "locator_sound (mput key r ?es) (locator_add key r
      (case mget ?es key of Some old \<Rightarrow> locator_drop key old x | None \<Rightarrow> x))"
    if x: "locator_sound ?es x" for x
  proof (cases "mget ?es key")
    case None
    with x show ?thesis by (auto intro!: locator_add_sound dest: locator_sound_absent)
  next
    case (Some old)
    have "locator_sound ?es (locator_drop key old x)"
      using locator_drop_sound(2) [OF x Some] locator_soundD [OF x] unfolding locator_sound_def by blast
    with Some locator_drop_sound(1) [OF x Some] show ?thesis by (auto intro!: locator_add_sound)
  qed
  have "opt_all (locator_sound (mput key r ?es)) (map_option (\<lambda>x. locator_add key r
      (case mget ?es key of Some old \<Rightarrow> locator_drop key old x | None \<Rightarrow> x)) (m_by_locator m))"
    using d(6) l by (rule opt_all_map)
  moreover have "opt_all (path_exact (mput key r ?es)) (map_option (path_move key (mget ?es key) r) (m_by_path m))"
    using d(7) by (rule opt_all_map) (use a in \<open>auto intro!: path_move_exact d(2) simp: add_ok_def\<close>)
  moreover have "opt_all (bydigest.covers (mget (mput key r ?es))) (map_option (digest_set key (mget ?es key) r) (m_by_raw_digest m))"
    using d(5) by (rule opt_all_map) (simp add: covers_mput bydigest.covers_set)
  moreover have "byident.covers (mget (mput key r ?es)) (ident_upsert key (r_fingerprint r) (r_phys_id r) (ident_index m))"
    unfolding covers_mput by (rule byident.covers_set [OF ident_index_covers [OF m]])
  ultimately show ?thesis
    using d(1,3) u a by (auto simp: inv_def add_def Let_def add_ok_def split: if_splits)
qed

lemma inv_delete:
  assumes m: "inv m"
  shows "inv (delete key m)"
proof -
  let ?es = "m_entries m"
  note d = invD [OF m]
  have l: "locator_sound (mdel key ?es)
      (case mget ?es key of Some old \<Rightarrow> locator_drop key old x | None \<Rightarrow> x)"
    if x: "locator_sound ?es x" for x
  proof (cases "mget ?es key")
    case None
    with locator_sound_absent [OF x None] x show ?thesis by (auto intro: locator_sound_other)
  next
    case (Some old)
    with locator_drop_sound [OF x Some] show ?thesis
      by simp (rule locator_sound_other(2) [OF x], metis)
  qed
  have "opt_all (locator_sound (mdel key ?es)) (map_option (\<lambda>x.
      case mget ?es key of Some old \<Rightarrow> locator_drop key old x | None \<Rightarrow> x) (m_by_locator m))"
    using d(6) l by (rule opt_all_map)
  moreover have "opt_all (path_exact (mdel key ?es)) (map_option (\<lambda>x.
      case mget ?es key of Some old \<Rightarrow> mdel (r_path old) x | None \<Rightarrow> x) (m_by_path m))"
    using d(7) path_del_exact [OF _ d(2)] by (rule opt_all_map)
  moreover have "opt_all (bydigest.covers (mget (mdel key ?es))) (map_option (digest_del key (mget ?es key)) (m_by_raw_digest m))"
    using d(5) by (rule opt_all_map) (simp add: covers_mdel bydigest.covers_del)
  moreover have "opt_all (byident.covers (mget (mdel key ?es))) (map_option (ident_remove key) (m_by_ident m))"
    using d(4) by (rule opt_all_map) (simp add: covers_mdel byident.covers_del)
  moreover have "path_unique (mdel key ?es)"
    by (rule path_uniqueI) (use path_uniqueD [OF d(2)] in \<open>auto split: if_splits\<close>)
  ultimately show ?thesis
    using d(1,3) by (auto simp: inv_def delete_def Let_def split: if_splits)
qed

lemma ident_entry_cong:
  "r_fingerprint r' = r_fingerprint r \<Longrightarrow> r_phys_id r' = r_phys_id r \<Longrightarrow> ident_entry k r' = ident_entry k r"
  by (simp add: ident_entry_def ident_ref_of_def)

lemma inv_stamp_parser_gen: "inv m \<Longrightarrow> inv (snd (stamp_parser_gen key gen m))"
  by (auto simp: stamp_parser_gen_def same_filing_def mixed_def rec_preds digest_entry_def
      intro!: inv_same ident_entry_cong split: option.splits)

lemma inv_stamp_parse_scheme: "inv m \<Longrightarrow> inv (snd (stamp_parse_scheme key scheme m))"
  by (auto simp: stamp_parse_scheme_def same_filing_def mixed_def rec_preds digest_entry_def
      intro!: inv_same ident_entry_cong split: option.splits)

lemma inv_merge_fields: "inv m \<Longrightarrow> inv (snd (merge_fields key folder seen present m))"
  by (auto simp: merge_fields_def same_filing_def mixed_def rec_preds digest_entry_def
      intro!: inv_same ident_entry_cong split: option.splits)

lemma inv_set_present: "inv m \<Longrightarrow> inv (snd (set_present key present m))"
  by (auto simp: set_present_def same_filing_def mixed_def rec_preds digest_entry_def
      intro!: inv_same ident_entry_cong split: option.splits)

lemma inv_touch_seen: "inv m \<Longrightarrow> inv (snd (touch_seen key seen m))"
  by (auto simp: touch_seen_def same_filing_def mixed_def rec_preds digest_entry_def
      intro!: inv_same ident_entry_cong split: option.splits)

lemma inv_resolve:
  assumes "inv m"
  shows "inv (snd (resolve key m))"
proof (cases "mget (m_entries m) key")
  case None
  with assms show ?thesis by (simp add: resolve_def)
next
  case (Some r)
  show ?thesis
  proof (cases "unknown r")
    case False
    with Some assms show ?thesis by (simp add: resolve_def)
  next
    case True
    then have miss: "r_missing r = [unknown_sentinel]" by (simp add: unknown_iff)
    define r1 where "r1 = r\<lparr>r_missing := []\<rparr>"
    define r2 where "r2 = (if \<not> has_issues r1 then r1\<lparr>r_subject := [], r_date := []\<rparr> else r1)"
    have "same_filing key r r2"
      using miss by (auto simp: r2_def r1_def same_filing_def mixed_def has_unreadable_iff rec_has_label_iff
          digest_entry_def intro!: ident_entry_cong)
    moreover have "snd (resolve key m) = m\<lparr>m_entries := mput key r2 (m_entries m)\<rparr>"
      using Some True by (simp add: resolve_def r2_def r1_def Let_def)
    ultimately show ?thesis using inv_same [OF assms Some] by simp
  qed
qed

lemma inv_supersede_partial_commit:
  assumes m: "inv m"
  shows "inv (snd (supersede_partial_commit key new_key m))"
proof (cases "mget (m_entries m) key")
  case None
  with m show ?thesis by (simp add: supersede_partial_commit_def)
next
  case (Some r)
  let ?r' = "r\<lparr>r_missing := [], r_terminal := [label_superseded], r_recovered_by := new_key, r_locator := []\<rparr>"
  show ?thesis
  proof (cases "has_unreadable r")
    case False
    with Some m show ?thesis by (simp add: supersede_partial_commit_def)
  next
    case True
    note d = invD [OF m]
    from True d(3) [OF Some] have "\<not> rec_has_label r label_unparsed" by (simp add: mixed_def)
    then have dig: "digest_entry key ?r' = digest_entry key r"
      by (simp add: digest_entry_def rec_has_label_iff)
    have ide: "ident_entry key ?r' = ident_entry key r" by (rule ident_entry_cong) simp_all
    have unr: "\<not> has_unreadable ?r'" by (simp add: has_unreadable_iff)
    have "opt_all (locator_sound (mput key ?r' (m_entries m))) (map_option (locator_drop key r) (m_by_locator m))"
      using d(6)
    proof (rule opt_all_map)
      fix x assume x: "locator_sound (m_entries m) x"
      show "locator_sound (mput key ?r' (m_entries m)) (locator_drop key r x)"
        by (rule locator_sound_other(1) [OF x]) (metis locator_drop_sound [OF x Some])
    qed
    moreover have "opt_all (path_exact (mput key ?r' (m_entries m))) (m_by_path m)"
      using d(7) path_exact_same [OF _ Some] by (auto elim!: opt_all_mono)
    moreover have "path_unique (mput key ?r' (m_entries m))"
      using path_unique_same [OF d(2) Some] by simp
    moreover have "opt_all (byident.covers (mget (mput key ?r' (m_entries m)))) (m_by_ident m)"
      using d(4) covers_same_put(1) [OF _ Some ide] by (auto elim!: opt_all_mono)
    moreover have "opt_all (bydigest.covers (mget (mput key ?r' (m_entries m)))) (m_by_raw_digest m)"
      using d(5) covers_same_put(2) [OF _ Some dig] by (auto elim!: opt_all_mono)
    ultimately show ?thesis
      using d(1,3) Some True unr by (auto simp: inv_def supersede_partial_commit_def mixed_def split: if_splits)
  qed
qed

lemma inv_key_for_locator: "inv m \<Longrightarrow> inv (snd (key_for_locator token locator m))"
  by (auto simp: key_for_locator_def)

lemma inv_key_for_path: "inv m \<Longrightarrow> inv (snd (key_for_path path m))"
  by (auto simp: key_for_path_def)

lemma inv_keys_for_identity: "inv m \<Longrightarrow> inv (snd (keys_for_identity identity m))"
  by (auto simp: keys_for_identity_def)

lemma inv_has_unparsed_stubs: "inv m \<Longrightarrow> inv (snd (has_unparsed_stubs m))"
  by (auto simp: has_unparsed_stubs_def)

lemma inv_supersede_partial: "inv m \<Longrightarrow> inv (snd (supersede_partial token locator new_key m))"
  using inv_key_for_locator [of m token locator]
  by (auto simp: supersede_partial_def inv_supersede_partial_commit split: prod.splits option.splits)

lemma inv_set_locator:
  assumes m: "inv m"
  shows "inv (snd (set_locator key locator m))"
proof (cases "mget (m_entries m) key")
  case None
  with m show ?thesis by (simp add: set_locator_def)
next
  case (Some r)
  let ?r' = "r\<lparr>r_locator := locator\<rparr>"
  show ?thesis
  proof (cases "locator = [] \<or> r_locator r \<noteq> [] \<or> \<not> has_unreadable r")
    case True
    with Some m show ?thesis by (simp add: set_locator_def)
  next
    case False
    note d = invD [OF m]
    have "same_filing key r ?r'"
      using False by (auto simp: same_filing_def mixed_def rec_preds digest_entry_def intro!: ident_entry_cong)
    from inv_same [OF m Some this] have i: "inv (m\<lparr>m_entries := mput key ?r' (m_entries m)\<rparr>)" .
    have "opt_all (locator_sound (mput key ?r' (m_entries m))) (map_option (locator_add key ?r') (m_by_locator m))"
      using d(6)
    proof (rule opt_all_map)
      fix x assume x: "locator_sound (m_entries m) x"
      have "mget x i \<noteq> Some key" for i
      proof
        assume "mget x i = Some key"
        from locator_soundD [OF x this] Some False show False by simp
      qed
      then show "locator_sound (mput key ?r' (m_entries m)) (locator_add key ?r' x)"
        using locator_add_sound [OF x] by blast
    qed
    moreover have "snd (set_locator key locator m) = m\<lparr>m_entries := mput key ?r' (m_entries m),
        m_by_locator := map_option (locator_add key ?r') (m_by_locator m)\<rparr>"
      using Some False by (simp add: set_locator_def Let_def)
    ultimately show ?thesis using i unfolding inv_def by simp
  qed
qed

lemma digest_entry_superseded: "r_raw_digest r' = [] \<Longrightarrow> digest_entry k r' = None"
  by (simp add: digest_entry_def)

lemma inv_supersede_unparsed:
  assumes m: "inv m"
  shows "inv (snd (supersede_unparsed token digest new_key m))"
proof -
  let ?x = "digest_index m" and ?es = "m_entries m"
  note d = invD [OF m]
  show ?thesis
  proof (cases "unparsed_target token digest new_key m")
    case None
    then show ?thesis using inv_index(2) [OF m] by (simp add: supersede_unparsed_def Let_def)
  next
    case (Some key)
    obtain r where r: "mget ?es key = Some r" "rec_has_label r label_unparsed"
      using unparsed_target_Some [OF Some] by blast
    let ?r' = "r\<lparr>r_missing := [], r_terminal := [label_superseded],
        r_recovered_by := new_key, r_parser_gen := 0, r_raw_digest := []\<rparr>"
    have res: "snd (supersede_unparsed token digest new_key m) = m\<lparr>
        m_by_raw_digest := Some (digest_drop key r ?x), m_entries := mput key ?r' ?es\<rparr>"
      using Some r(1) by (simp add: supersede_unparsed_def Let_def)
    have nu: "\<not> has_unreadable r" using d(3) [OF r(1)] r(2) by (simp add: mixed_def)
    have ide: "ident_entry key ?r' = ident_entry key r" by (rule ident_entry_cong) simp_all
    have unr: "\<not> has_unreadable ?r'" by (simp add: has_unreadable_iff)
    have none: "digest_entry key ?r' = None" by (rule digest_entry_superseded) simp
    have "bydigest.covers (mget (mput key ?r' ?es)) (digest_set key (Some r) ?r' ?x)"
      unfolding covers_mput r(1) [symmetric] by (rule bydigest.covers_set [OF digest_index_covers [OF m]])
    then have "bydigest.covers (mget (mput key ?r' ?es)) (digest_drop key r ?x)"
      by (simp add: digest_set_def digest_add_def)
    moreover have "opt_all (locator_sound (mput key ?r' ?es)) (m_by_locator m)"
      using d(6) locator_sound_same [OF _ r(1), of _ ?r'] nu by (auto elim!: opt_all_mono)
    moreover have "opt_all (path_exact (mput key ?r' ?es)) (m_by_path m)"
      using d(7) path_exact_same [OF _ r(1)] by (auto elim!: opt_all_mono)
    moreover have "opt_all (byident.covers (mget (mput key ?r' ?es))) (m_by_ident m)"
      using d(4) covers_same_put(1) [OF _ r(1) ide] by (auto elim!: opt_all_mono)
    moreover have "path_unique (mput key ?r' ?es)"
      using path_unique_same [OF d(2) r(1)] by simp
    ultimately show ?thesis
      unfolding res using d(1,3) unr by (auto simp: inv_def mixed_def split: if_splits)
  qed
qed

lemma upd_first_cong: "(\<And>x. x \<in> set xs \<Longrightarrow> P x \<Longrightarrow> f x = g x) \<Longrightarrow> upd_first P f xs = upd_first P g xs"
  by (induction xs) auto

lemma add_phys_index:
  assumes c: "byident.covers (mget es) x" and k: "mget es key = Some r"
  shows "byident.covers (mget (mput key (r\<lparr>r_phys_id := i\<rparr>) es))
     (if list_ex (\<lambda>e. ir_key e = key) (mlist x (identity_of key))
      then mput (identity_of key) (upd_first (\<lambda>e. ir_key e = key) (\<lambda>e. e\<lparr>ir_phys_id := i\<rparr>)
             (mlist x (identity_of key))) x
      else x)"
proof -
  let ?r' = "r\<lparr>r_phys_id := i\<rparr>" and ?l = "mlist x (identity_of key)"
  have ref: "e \<in> set ?l \<Longrightarrow> ir_key e = key \<Longrightarrow> identity_of key \<noteq> [] \<and> e = ident_ref_of key r" for e
    using byident.covers_get [OF c, of e "identity_of key"] k by (auto simp: ident_entry_def split: if_splits)
  have mem: "identity_of key \<noteq> [] \<Longrightarrow> ident_ref_of key r \<in> set ?l"
    using byident.covers_get [OF c, of "ident_ref_of key r" "identity_of key"] k
    by (simp add: ident_entry_def ident_ref_of_def)
  have "upd_first (\<lambda>e. ir_key e = key) (\<lambda>e. e\<lparr>ir_phys_id := i\<rparr>) ?l =
      upd_first (\<lambda>e. ir_key e = key) (\<lambda>e. e\<lparr>ir_fingerprint := r_fingerprint ?r', ir_phys_id := r_phys_id ?r'\<rparr>) ?l"
  proof (rule upd_first_cong)
    fix e assume "e \<in> set ?l" "ir_key e = key"
    with ref have "e = ident_ref_of key r" by blast
    then show "e\<lparr>ir_phys_id := i\<rparr> = e\<lparr>ir_fingerprint := r_fingerprint ?r', ir_phys_id := r_phys_id ?r'\<rparr>"
      by (simp add: ident_ref_of_def)
  qed
  moreover have "ir_key (ident_ref_of key r) = key" by (simp add: ident_ref_of_def)
  with ref mem have "list_ex (\<lambda>e. ir_key e = key) ?l \<longleftrightarrow> identity_of key \<noteq> []"
    unfolding list_ex_iff by blast
  ultimately have "(if list_ex (\<lambda>e. ir_key e = key) ?l
      then mput (identity_of key) (upd_first (\<lambda>e. ir_key e = key) (\<lambda>e. e\<lparr>ir_phys_id := i\<rparr>) ?l) x else x)
      = ident_upsert key (r_fingerprint ?r') (r_phys_id ?r') x"
    by (simp add: ident_upsert_def Let_def)
  then show ?thesis
    using byident.covers_set [OF c, of key ?r'] by (simp add: covers_mput)
qed

lemma inv_add_phys_id:
  assumes m: "inv m"
  shows "inv (snd (add_phys_id key i m))"
proof (cases "mget (m_entries m) key")
  case None
  with m show ?thesis by (simp add: add_phys_id_def)
next
  case (Some r)
  note d = invD [OF m]
  show ?thesis
  proof (cases "i = [] \<or> record_has_phys_id r i \<or> r_phys_id r \<noteq> []")
    case True
    have "same_filing key r (r\<lparr>r_alt_phys_ids := r_alt_phys_ids r @ [i]\<rparr>)"
      by (auto simp: same_filing_def mixed_def rec_preds digest_entry_def intro!: ident_entry_cong)
    note up = inv_same [OF m Some this]
    show ?thesis
    proof (cases "i = [] \<or> record_has_phys_id r i")
      case True
      then have "snd (add_phys_id key i m) = m" using Some by (auto simp: add_phys_id_def)
      with m show ?thesis by simp
    next
      case False
      with True Some up show ?thesis by (simp add: add_phys_id_def)
    qed
  next
    case False
    let ?r' = "r\<lparr>r_phys_id := i\<rparr>"
    let ?es = "mput key ?r' (m_entries m)"
    have "mixed ?r' = mixed r" "digest_entry key ?r' = digest_entry key r" "has_unreadable ?r' = has_unreadable r"
      by (simp_all add: mixed_def rec_preds digest_entry_def)
    note sf = this
    have res: "snd (add_phys_id key i m) = m\<lparr>m_entries := ?es, m_by_ident := Some (case m_by_ident m of
         None \<Rightarrow> build_ident ?es
       | Some x \<Rightarrow> if list_ex (\<lambda>e. ir_key e = key) (mlist x (identity_of key))
           then mput (identity_of key) (upd_first (\<lambda>e. ir_key e = key) (\<lambda>e. e\<lparr>ir_phys_id := i\<rparr>)
             (mlist x (identity_of key))) x else x)\<rparr>"
      using Some False by (simp add: add_phys_id_def Let_def)
    have "byident.covers (mget ?es) (case m_by_ident m of
         None \<Rightarrow> build_ident ?es
       | Some x \<Rightarrow> if list_ex (\<lambda>e. ir_key e = key) (mlist x (identity_of key))
           then mput (identity_of key) (upd_first (\<lambda>e. ir_key e = key) (\<lambda>e. e\<lparr>ir_phys_id := i\<rparr>)
             (mlist x (identity_of key))) x else x)"
    proof (cases "m_by_ident m")
      case None
      then show ?thesis using build_ident_covers [of ?es] d(1) by simp
    next
      case (Some x)
      with d(4) add_phys_index [OF _ \<open>mget (m_entries m) key = Some r\<close>, of x i] show ?thesis by simp
    qed
    moreover have "opt_all (locator_sound ?es) (m_by_locator m)"
      using d(6) locator_sound_same [OF _ Some, of _ ?r'] sf by (auto elim!: opt_all_mono)
    moreover have "opt_all (path_exact ?es) (m_by_path m)"
      using d(7) path_exact_same [OF _ Some] by (auto elim!: opt_all_mono)
    moreover have "opt_all (bydigest.covers (mget ?es)) (m_by_raw_digest m)"
      using d(5) covers_same_put(2) [OF _ Some sf(2)] by (auto elim!: opt_all_mono)
    moreover have "path_unique ?es" using path_unique_same [OF d(2) Some] by simp
    ultimately show ?thesis
      unfolding res using d(1,3) sf Some by (auto simp: inv_def split: if_splits)
  qed
qed

end
