(* ===== verification/Sweep.thy ===== *)
theory Sweep
  imports ManifestInv
begin

text \<open>
  Gone-detection (\<^verbatim>\<open>internal/state/sweep.go\<close>, \<^verbatim>\<open>SweepGone\<close> and
  \<^verbatim>\<open>WalkedFolders\<close> of \<^verbatim>\<open>manifest.go\<close>): which records a complete walk of a mailbox marks
  as gone, which it spares, and the stubs of an older build it adopts.
\<close>

subsection \<open>The folders a walk has seen\<close>

text \<open>\<open>None\<close> is the nil pointer a caller without a walk passes.\<close>

type_synonym walked = "(string, bool) gomap option"

definition new_walked :: walked where "new_walked = Some []"

definition walked_mark :: "string \<Rightarrow> (string, bool) gomap \<Rightarrow> (string, bool) gomap" where
  "walked_mark folder w = mput folder True w"

definition walked_has :: "walked \<Rightarrow> string \<Rightarrow> bool" where
  "walked_has w folder \<longleftrightarrow> (case w of None \<Rightarrow> False | Some s \<Rightarrow> mget s folder = Some True)"

definition walked_len :: "walked \<Rightarrow> nat" where
  "walked_len w = (case w of None \<Rightarrow> 0 | Some s \<Rightarrow> length s)"

subsection \<open>What a sweep spares\<close>

record sweep_spare =
  sp_no_phys_id :: bool
  sp_sha_identity :: bool
  sp_all_records :: bool
  sp_legacy_placeholders :: bool

definition no_spare :: sweep_spare where
  "no_spare = \<lparr>sp_no_phys_id = False, sp_sha_identity = False, sp_all_records = False,
     sp_legacy_placeholders = False\<rparr>"

definition spares :: "sweep_spare \<Rightarrow> string \<Rightarrow> mrec \<Rightarrow> bool" where
  "spares s key r \<longleftrightarrow>
     (if sp_all_records s then True
      else if sp_no_phys_id s \<and> r_phys_id r = [] then True
      else if sp_sha_identity s \<and> has_prefix (identity_of key) ''sha:'' then True
      else sp_legacy_placeholders s \<and> r_subject r = legacy_placeholder_subject
        \<and> list_has_label (r_terminal r) label_legacy_placeholder)"

subsection \<open>The sweep\<close>

definition sweep_hit :: "string \<Rightarrow> walked \<Rightarrow> gotime \<Rightarrow> sweep_spare \<Rightarrow> string \<Rightarrow> mrec \<Rightarrow> bool" where
  "sweep_hit token walked this_run spare key r \<longleftrightarrow>
     (if \<not> has_prefix key (token @ key_separator) then False
      else if \<not> r_present r \<or> \<not> r_last_seen r < this_run then False
      else if \<not> walked_has walked (r_folder r) then False
      else \<not> spares spare key r)"

text \<open>A record rewritten in place at each key of a list.\<close>

definition upd_keys :: "(string \<Rightarrow> mrec \<Rightarrow> mrec) \<Rightarrow> string list \<Rightarrow> (string, mrec) gomap \<Rightarrow> (string, mrec) gomap" where
  "upd_keys f ks es = fold (\<lambda>k es. case mget es k of None \<Rightarrow> es | Some r \<Rightarrow> mput k (f k r) es) ks es"

definition sweep_gone_sparing :: "string \<Rightarrow> walked \<Rightarrow> gotime \<Rightarrow> sweep_spare \<Rightarrow> manifest
    \<Rightarrow> string list \<times> manifest" where
  "sweep_gone_sparing token walked this_run spare m =
     (let gone = sort (map fst (filter (\<lambda>(k, r). sweep_hit token walked this_run spare k r) (m_entries m)))
      in (gone, m\<lparr>m_entries := upd_keys (\<lambda>k r. r\<lparr>r_present := False\<rparr>) gone (m_entries m)\<rparr>))"

definition sweep_gone :: "string \<Rightarrow> walked \<Rightarrow> gotime \<Rightarrow> manifest \<Rightarrow> string list \<times> manifest" where
  "sweep_gone token walked this_run m = sweep_gone_sparing token walked this_run no_spare m"

subsection \<open>The records by immutable id\<close>

definition phys_id_add :: "string \<Rightarrow> string \<times> mrec \<Rightarrow> (string, string list) gomap \<Rightarrow> (string, string list) gomap" where
  "phys_id_add token = (\<lambda>(key, r) out.
     if \<not> has_prefix key (token @ key_separator) then out
     else let out1 = (if r_phys_id r \<noteq> [] then mput (r_phys_id r) (mlist out (r_phys_id r) @ [key]) out else out)
          in fold (\<lambda>i out. mput i (mlist out i @ [key]) out) (r_alt_phys_ids r) out1)"

definition phys_id_keys :: "string \<Rightarrow> manifest \<Rightarrow> (string, string list) gomap" where
  "phys_id_keys token m = fold (phys_id_add token) (m_entries m) []"

subsection \<open>Adopting the stubs of an older build\<close>

definition adopt_hit :: "string \<Rightarrow> string \<Rightarrow> string \<Rightarrow> string option \<Rightarrow> string \<Rightarrow> mrec \<Rightarrow> bool" where
  "adopt_hit token phys when want key r \<longleftrightarrow>
     \<not> (\<not> has_prefix key (token @ key_separator) \<or> r_subject r \<noteq> legacy_placeholder_subject
        \<or> \<not> has_prefix (identity_of key) ''sha:'' \<or> length (r_terminal r) \<noteq> 1
        \<or> r_terminal r ! 0 \<noteq> missing_body \<or> length (r_missing r) \<noteq> 0)
     \<and> \<not> (want \<noteq> None \<and> Some (identity_of key) \<noteq> want)
     \<and> \<not> (\<not> (phys \<noteq> [] \<and> record_has_phys_id r phys) \<and> \<not> (when \<noteq> [] \<and> r_date r = when))"

definition adopt_step :: "string \<Rightarrow> string \<Rightarrow> string \<Rightarrow> string option \<Rightarrow> gotime \<Rightarrow> string
    \<Rightarrow> nat \<times> (string, mrec) gomap \<Rightarrow> nat \<times> (string, mrec) gomap" where
  "adopt_step token phys when want seen key = (\<lambda>(n, es).
     case mget es key of
       None \<Rightarrow> (n, es)
     | Some r \<Rightarrow>
         if adopt_hit token phys when want key r
         then (n + 1, mput key (r\<lparr>r_last_seen := seen, r_missing := [],
                 r_terminal := [label_legacy_placeholder]\<rparr>) es)
         else (n, es))"

definition adopt_legacy_graph_stubs :: "string \<Rightarrow> string \<Rightarrow> gotime \<Rightarrow> gotime \<Rightarrow> (gotime \<Rightarrow> string) option
    \<Rightarrow> manifest \<Rightarrow> nat \<times> manifest" where
  "adopt_legacy_graph_stubs token phys received seen legacy_identity m =
     (let when = (if received = 0 then [] else format_rfc3339 received)
      in case legacy_identity of
           None \<Rightarrow>
             (case fold (adopt_step token phys when None seen) (mkeys (m_entries m)) (0, m_entries m) of
                (n, es) \<Rightarrow> (n, m\<lparr>m_entries := es\<rparr>))
         | Some f \<Rightarrow>
             (case fold (adopt_step token phys when (Some (f received)) seen)
                     (map ir_key (mlist (ident_index m) (f received))) (0, m_entries m) of
                (n, es) \<Rightarrow> (n, m\<lparr>m_by_ident := Some (ident_index m), m_entries := es\<rparr>)))"

subsection \<open>Updates in place at many keys\<close>

lemma upd_keys_get:
  "distinct ks \<Longrightarrow> mget (upd_keys f ks es) k
     = (if k \<in> set ks then map_option (f k) (mget es k) else mget es k)"
  unfolding upd_keys_def by (induction ks arbitrary: es) (auto split: option.splits)

lemma upd_keys_keys: "mkeys (upd_keys f ks es) = mkeys es"
proof -
  have "mkeys (case mget es k of None \<Rightarrow> es | Some r \<Rightarrow> mput k (f k r) es) = mkeys es" for k es
    by (induction es) (auto split: option.splits)
  then show ?thesis unfolding upd_keys_def by (induction ks arbitrary: es) auto
qed

lemma gomap_eqI:
  "mok a \<Longrightarrow> mkeys a = mkeys b \<Longrightarrow> (\<And>k. mget a k = mget b k) \<Longrightarrow> a = b"
proof (induction a arbitrary: b)
  case (Cons x a)
  then obtain y b' where b: "b = y # b'" by (cases b) auto
  from Cons.prems(2) b have fst: "fst x = fst y" and ks: "mkeys a = mkeys b'" by auto
  from Cons.prems(3) [of "fst x"] b fst have snd: "snd x = snd y" by (cases x; cases y) auto
  have "mget a k = mget b' k" for k
  proof (cases "k = fst x")
    case True
    with Cons.prems(1) fst ks have "mget a k = None" "mget b' k = None"
      by (simp_all add: map_of_eq_None_iff) (metis ks list.set_map)
    then show ?thesis by simp
  next
    case False
    with Cons.prems(3) [of k] b fst show ?thesis by (cases x; cases y) auto
  qed
  with Cons.IH [of b'] Cons.prems(1) ks fst snd b show ?case by (simp add: prod_eq_iff)
qed simp

text \<open>The invariant survives any such update that leaves what the indices file alone.\<close>

lemma inv_upd_keys:
  assumes "inv m" and "\<And>k r. mget (m_entries m) k = Some r \<Longrightarrow> k \<in> set ks \<Longrightarrow> same_filing k r (f k r)"
    and "distinct ks"
  shows "inv (m\<lparr>m_entries := upd_keys f ks (m_entries m)\<rparr>)"
  using assms
proof (induction ks arbitrary: m)
  case Nil
  then show ?case by (simp add: upd_keys_def)
next
  case (Cons k ks)
  show ?case
  proof (cases "mget (m_entries m) k")
    case None
    with Cons.IH [OF Cons.prems(1)] Cons.prems(2,3) show ?thesis by (simp add: upd_keys_def)
  next
    case (Some r)
    let ?m = "m\<lparr>m_entries := mput k (f k r) (m_entries m)\<rparr>"
    from Cons.prems(2) [OF Some] have "same_filing k r (f k r)" by simp
    with Cons.prems(1) Some have "inv ?m" by (intro inv_same)
    moreover have "same_filing k' r' (f k' r')" if "mget (m_entries ?m) k' = Some r'" "k' \<in> set ks" for k' r'
      using that Cons.prems(2) [of k' r'] Cons.prems(3) by (auto split: if_splits)
    ultimately have "inv (?m\<lparr>m_entries := upd_keys f ks (m_entries ?m)\<rparr>)"
      using Cons.IH [of ?m] Cons.prems(3) by simp
    then show ?thesis using Some by (simp add: upd_keys_def)
  qed
qed

lemma same_filing_present [simp]:
  "same_filing k r (r\<lparr>r_present := b\<rparr>)"
  by (auto simp: same_filing_def mixed_def rec_preds digest_entry_def intro!: ident_entry_cong)

lemma inv_sweep:
  assumes "inv m"
  shows "inv (snd (sweep_gone_sparing token walked this_run spare m))"
proof -
  have "distinct (sort (map fst (filter (\<lambda>(k, r). sweep_hit token walked this_run spare k r) (m_entries m))))"
    using mok_filter [OF invD(1) [OF assms]] by simp
  with assms show ?thesis
    unfolding sweep_gone_sparing_def Let_def snd_conv by (intro inv_upd_keys) auto
qed

lemma adopt_same_filing:
  assumes "adopt_hit token phys when want key r"
  shows "same_filing key r (r\<lparr>r_last_seen := seen, r_missing := [], r_terminal := [label_legacy_placeholder]\<rparr>)"
proof -
  from assms have r: "r_missing r = []" "r_terminal r = [missing_body]"
    by (auto simp: adopt_hit_def length_Suc_conv)
  have "\<not> is_unreadable_label missing_body" "\<not> is_unreadable_label label_legacy_placeholder"
    "missing_body \<noteq> label_unparsed" "label_legacy_placeholder \<noteq> label_unparsed"
    by (simp_all add: is_unreadable_label_def has_prefix_def label_defs)
  with r show ?thesis
    by (auto simp: same_filing_def mixed_def has_unreadable_def rec_has_label_def digest_entry_def
        intro!: ident_entry_cong)
qed

lemma adopt_steps_inv:
  assumes "inv m"
  shows "inv (m\<lparr>m_entries := snd (fold (adopt_step token phys when want seen) ks (n, m_entries m))\<rparr>)"
  using assms
proof (induction ks arbitrary: n m)
  case (Cons k ks)
  obtain n1 es where s: "adopt_step token phys when want seen k (n, m_entries m) = (n1, es)" by fastforce
  have "inv (m\<lparr>m_entries := es\<rparr>)"
    using s Cons.prems adopt_same_filing inv_same [OF Cons.prems]
    by (auto simp: adopt_step_def split: option.splits if_splits)
  from Cons.IH [OF this, of n1] s show ?case by simp
qed simp

lemma inv_adopt:
  assumes "inv m"
  shows "inv (snd (adopt_legacy_graph_stubs token phys received seen legacy m))"
proof (cases legacy)
  case None
  then show ?thesis using adopt_steps_inv [OF assms, where n = 0]
    by (auto simp: adopt_legacy_graph_stubs_def Let_def split: prod.split) (metis snd_conv)+
next
  case (Some f)
  have "inv (m\<lparr>m_by_ident := Some (ident_index m)\<rparr>)" using assms by (rule inv_index)
  from adopt_steps_inv [OF this, where n = 0] Some show ?thesis
    by (auto simp: adopt_legacy_graph_stubs_def Let_def split: prod.split) (metis snd_conv)+
qed

lemma mmap_upd_keys: "mok es \<Longrightarrow> mmap f es = upd_keys f (mkeys es) es"
  by (rule gomap_eqI) (auto simp: upd_keys_keys upd_keys_get map_of_eq_None_iff [THEN iffD2])

lemma inv_mmap:
  assumes "inv m" and "\<And>k r. mget (m_entries m) k = Some r \<Longrightarrow> same_filing k r (f k r)"
  shows "inv (m\<lparr>m_entries := mmap f (m_entries m)\<rparr>)"
  using inv_upd_keys [OF assms(1), of "mkeys (m_entries m)" f] assms(2) invD(1) [OF assms(1)]
  by (simp add: mmap_upd_keys)

lemma inv_reclass:
  assumes "inv m"
  shows "inv (snd (reclass_legacy_placeholders identity m))"
proof -
  have "same_filing k r (if reclass_hit identity k r
      then r\<lparr>r_missing := [], r_terminal := [label_legacy_placeholder]\<rparr> else r)" for k r
  proof (cases "reclass_hit identity k r")
    case True
    then have r: "r_missing r = [missing_body]" "r_terminal r = []"
      by (auto simp: reclass_hit_def length_Suc_conv)
    have "\<not> is_unreadable_label missing_body" "\<not> is_unreadable_label label_legacy_placeholder"
      "missing_body \<noteq> label_unparsed" "label_legacy_placeholder \<noteq> label_unparsed"
      by (simp_all add: is_unreadable_label_def has_prefix_def label_defs)
    with r True show ?thesis
      by (auto simp: same_filing_def mixed_def has_unreadable_def rec_has_label_def digest_entry_def
          intro!: ident_entry_cong)
  next
    case False
    then show ?thesis by (simp add: same_filing_def)
  qed
  with assms show ?thesis by (auto simp: reclass_legacy_placeholders_def intro: inv_mmap)
qed


subsection \<open>What a sweep does\<close>

lemma sweep_gone_fst:
  "fst (sweep_gone_sparing token walked this_run spare m) =
     sort (map fst (filter (\<lambda>(k, r). sweep_hit token walked this_run spare k r) (m_entries m)))"
  by (simp add: sweep_gone_sparing_def Let_def)

lemma sweep_gone_set:
  assumes "mok (m_entries m)"
  shows "k \<in> set (fst (sweep_gone_sparing token walked this_run spare m)) \<longleftrightarrow>
     (\<exists>r. mget (m_entries m) k = Some r \<and> sweep_hit token walked this_run spare k r)"
  unfolding sweep_gone_fst set_sort using in_mget [OF assms] by (force dest: map_of_SomeD)

lemma sweep_gone_distinct:
  "mok (m_entries m) \<Longrightarrow> distinct (fst (sweep_gone_sparing token walked this_run spare m))
     \<and> sorted (fst (sweep_gone_sparing token walked this_run spare m))"
  unfolding sweep_gone_fst using mok_filter by simp

lemma sweep_gone_get:
  assumes "mok (m_entries m)"
  shows "mget (m_entries (snd (sweep_gone_sparing token walked this_run spare m))) k =
     map_option (\<lambda>r. if sweep_hit token walked this_run spare k r then r\<lparr>r_present := False\<rparr> else r)
       (mget (m_entries m) k)"
proof -
  let ?gone = "fst (sweep_gone_sparing token walked this_run spare m)"
  have "mget (m_entries (snd (sweep_gone_sparing token walked this_run spare m))) k =
      (if k \<in> set ?gone then map_option (\<lambda>r. r\<lparr>r_present := False\<rparr>) (mget (m_entries m) k)
       else mget (m_entries m) k)"
    using upd_keys_get [of ?gone] sweep_gone_distinct [OF assms, of token walked this_run spare]
    by (simp add: sweep_gone_sparing_def Let_def)
  then show ?thesis
    using sweep_gone_set [OF assms, of k token walked this_run spare]
    by (cases "mget (m_entries m) k") auto
qed

lemma set_present_run:
  "fold (\<lambda>k m. snd (set_present k b m)) ks m = m\<lparr>m_entries := upd_keys (\<lambda>k r. r\<lparr>r_present := b\<rparr>) ks (m_entries m)\<rparr>"
proof (induction ks arbitrary: m)
  case (Cons k ks)
  then show ?case
    by (cases "mget (m_entries m) k") (simp_all add: set_present_def upd_keys_def)
qed (simp add: upd_keys_def)

text \<open>
  C12: a sweep marks gone exactly the records of the mailbox that were present, whose folder the walk
  went through, that this run did not observe and that nothing spares; it changes their presence and
  nothing else, reports them sorted and once each, finds nothing when repeated, and the undo the
  caller runs when the history append fails (\<^verbatim>\<open>SetPresent\<close> on each) restores the manifest as
  it was (R13, T5).
\<close>

theorem sweep_marks_exactly_the_unseen:
  fixes token :: string and walked :: walked and this_run :: gotime and spare :: sweep_spare
  assumes "inv m"
  defines "res \<equiv> sweep_gone_sparing token walked this_run spare m"
  shows "(\<forall>k. k \<in> set (fst res) \<longleftrightarrow> (\<exists>r. mget (m_entries m) k = Some r
            \<and> has_prefix k (token @ key_separator) \<and> r_present r \<and> r_last_seen r < this_run
            \<and> walked_has walked (r_folder r) \<and> \<not> spares spare k r))
     \<and> (\<forall>k. mget (m_entries (snd res)) k = (if k \<in> set (fst res)
            then map_option (\<lambda>r. r\<lparr>r_present := False\<rparr>) (mget (m_entries m) k) else mget (m_entries m) k))
     \<and> sorted (fst res) \<and> distinct (fst res) \<and> inv (snd res)
     \<and> fst (sweep_gone_sparing token walked this_run spare (snd res)) = []
     \<and> fold (\<lambda>k m. snd (set_present k True m)) (fst res) (snd res) = m"
proof (intro conjI allI)
  note ok = invD(1) [OF assms(1)]
  note set = sweep_gone_set [OF ok, of _ token walked this_run spare, folded res_def]
  note get = sweep_gone_get [OF ok, of token walked this_run spare, folded res_def]
  have d: "sorted (fst res)" "distinct (fst res)"
    using sweep_gone_distinct [OF ok] by (simp_all add: res_def)
  show "sorted (fst res)" "distinct (fst res)" by (rule d)+
  show "inv (snd res)" unfolding res_def by (rule inv_sweep [OF assms(1)])
  show hit: "k \<in> set (fst res) \<longleftrightarrow> (\<exists>r. mget (m_entries m) k = Some r
            \<and> has_prefix k (token @ key_separator) \<and> r_present r \<and> r_last_seen r < this_run
            \<and> walked_has walked (r_folder r) \<and> \<not> spares spare k r)" for k
    unfolding set by (auto simp: sweep_hit_def)
  show get': "mget (m_entries (snd res)) k = (if k \<in> set (fst res)
            then map_option (\<lambda>r. r\<lparr>r_present := False\<rparr>) (mget (m_entries m) k) else mget (m_entries m) k)" for k
    using set [of k] by (cases "mget (m_entries m) k") (auto simp: get)
  have "mok (m_entries (snd res))" using \<open>inv (snd res)\<close> by (rule invD(1))
  from sweep_gone_set [OF this, of _ token walked this_run spare]
  have "k \<notin> set (fst (sweep_gone_sparing token walked this_run spare (snd res)))" for k
    by (auto simp: get sweep_hit_def split: if_splits)
  then have "set (fst (sweep_gone_sparing token walked this_run spare (snd res))) = {}"
    by (simp only: set_eq_iff empty_iff) simp
  then show "fst (sweep_gone_sparing token walked this_run spare (snd res)) = []" by simp
  let ?u = "upd_keys (\<lambda>k r. r\<lparr>r_present := True\<rparr>) (fst res) (m_entries (snd res))"
  have "?u = m_entries m"
  proof (rule gomap_eqI)
    have keys: "mkeys (m_entries (snd res)) = mkeys (m_entries m)"
      by (simp add: res_def sweep_gone_sparing_def upd_keys_keys Let_def)
    then show "mkeys ?u = mkeys (m_entries m)" "mok ?u" using ok by (simp_all add: upd_keys_keys)
    show "mget ?u k = mget (m_entries m) k" for k
      unfolding upd_keys_get [OF d(2)] get' using hit [of k] by auto
  qed
  then show "fold (\<lambda>k m. snd (set_present k True m)) (fst res) (snd res) = m"
    unfolding set_present_run by (simp add: res_def sweep_gone_sparing_def Let_def)
qed

definition swept_box :: manifest where
  "swept_box = (new_manifest [])\<lparr>m_entries :=
     [(live_key ''m'' ''mid:a'', zero_rec\<lparr>r_path := ''a'', r_folder := ''I'', r_last_seen := 5, r_present := True\<rparr>)],
     m_by_ident := None\<rparr>"

theorem sweep_marks_exactly_the_unseen_witness:
  "live_key ''m'' ''mid:a'' \<in> set (fst (sweep_gone_sparing ''m'' (Some (walked_mark ''I'' [])) 6 no_spare swept_box))"
proof -
  have e: "m_entries swept_box = [(live_key ''m'' ''mid:a'', zero_rec\<lparr>r_path := ''a'', r_folder := ''I'',
     r_last_seen := 5, r_present := True\<rparr>)]" by (simp add: swept_box_def)
  have "inv swept_box"
    by (simp add: inv_def e path_unique_def mixed_def has_unreadable_def zero_rec_def)
      (simp add: swept_box_def new_manifest_def)
  from sweep_marks_exactly_the_unseen [OF this, of "''m''" "Some (walked_mark ''I'' [])" 6 no_spare]
  show ?thesis
    by (simp add: e zero_rec_def walked_has_def walked_mark_def spares_def no_spare_def live_key_def
        key_separator_def has_prefix_def)
qed

subsection \<open>What an adoption does\<close>

lemma adopt_step_no_hit:
  "(\<And>k r. k \<in> set ks \<Longrightarrow> mget es k = Some r \<Longrightarrow> \<not> adopt_hit token phys when want k r) \<Longrightarrow>
     fold (adopt_step token phys when want seen) ks (n, es) = (n, es)"
proof (induction ks)
  case (Cons k ks)
  then have "adopt_step token phys when want seen k (n, es) = (n, es)"
    by (auto simp: adopt_step_def split: option.splits)
  with Cons show ?case by simp
qed simp

definition adopted :: "gotime \<Rightarrow> mrec \<Rightarrow> mrec" where
  "adopted seen r = r\<lparr>r_last_seen := seen, r_missing := [], r_terminal := [label_legacy_placeholder]\<rparr>"

lemma adopted_no_hit: "\<not> adopt_hit token phys when want k (adopted seen r)"
  by (simp add: adopt_hit_def adopted_def label_defs)

lemma adopt_steps:
  "fold (adopt_step token phys when want seen) ks (n, es) = (n', es') \<Longrightarrow>
     mkeys es' = mkeys es \<and> (\<forall>k. mget es' k = map_option (\<lambda>r.
        if k \<in> set ks \<and> adopt_hit token phys when want k r then adopted seen r else r) (mget es k))"
proof (induction ks arbitrary: n es)
  case (Cons k ks)
  obtain n1 es1 where s: "adopt_step token phys when want seen k (n, es) = (n1, es1)" by fastforce
  from s have g: "mget es1 j = map_option (\<lambda>r. if j = k \<and> adopt_hit token phys when want k r
      then adopted seen r else r) (mget es j)" for j
    by (cases "mget es k"; cases "mget es j") (auto simp: adopt_step_def adopted_def split: if_splits)
  have ks: "mkeys es1 = mkeys es"
  proof -
    have "mkeys (mput k r es) = mkeys es" if "mget es k = Some r0" for r r0
      using that by (induction es) (auto split: if_splits)
    with s show ?thesis by (auto simp: adopt_step_def split: option.splits if_splits)
  qed
  from Cons.prems s have "fold (adopt_step token phys when want seen) ks (n1, es1) = (n', es')" by simp
  from Cons.IH [OF this] ks show ?case
    by (auto simp: g adopted_no_hit option.map_comp comp_def intro!: option.map_cong)
qed (simp add: option.map_id0 [unfolded id_def] option.map_ident)


lemma adopted_spared:
  assumes "adopt_hit token phys when want k r" and "sp_legacy_placeholders spare"
  shows "spares spare k (adopted seen r)"
  using assms by (simp add: adopt_hit_def spares_def adopted_def list_has_label_def)

definition adoption_candidates :: "gotime \<Rightarrow> (gotime \<Rightarrow> string) option \<Rightarrow> manifest \<Rightarrow> string list" where
  "adoption_candidates received legacy m = (case legacy of None \<Rightarrow> mkeys (m_entries m)
     | Some f \<Rightarrow> map ir_key (mlist (ident_index m) (f received)))"

lemma adopt_eq:
  "adopt_legacy_graph_stubs token phys received seen legacy m =
     (let when = (if received = 0 then [] else format_rfc3339 received);
          res = fold (adopt_step token phys when (map_option (\<lambda>f. f received) legacy) seen)
            (adoption_candidates received legacy m) (0, m_entries m)
      in (fst res, (case legacy of None \<Rightarrow> m | Some f \<Rightarrow> m\<lparr>m_by_ident := Some (ident_index m)\<rparr>)
                     \<lparr>m_entries := snd res\<rparr>))"
  by (cases legacy) (simp_all add: adopt_legacy_graph_stubs_def adoption_candidates_def Let_def
      case_prod_unfold)

text \<open>
  Adopting the stubs of an older build settles exactly those of the message: a candidate that
  \<open>adopt_hit\<close> holds for becomes a legacy placeholder seen this run, which a sweep that spares placeholders
  never marks gone; no other record changes, no key is added or lost, and a second adoption for the same
  message finds none (FC27, S3-AI8).
\<close>

lemma adoption_settles_a_stub_once:
  fixes token phys :: string and received seen :: gotime and legacy :: "(gotime \<Rightarrow> string) option"
  assumes "inv m"
  defines "m' \<equiv> snd (adopt_legacy_graph_stubs token phys received seen legacy m)"
    and "hit \<equiv> \<lambda>k r. k \<in> set (adoption_candidates received legacy m)
      \<and> adopt_hit token phys (if received = 0 then [] else format_rfc3339 received) (map_option (\<lambda>f. f received) legacy) k r"
  shows "inv m' \<and> mkeys (m_entries m') = mkeys (m_entries m)
     \<and> (\<forall>k r. mget (m_entries m) k = Some r \<longrightarrow> mget (m_entries m') k = Some (if hit k r then adopted seen r else r)
          \<and> (\<forall>spare. hit k r \<and> sp_legacy_placeholders spare \<longrightarrow> spares spare k (adopted seen r)))
     \<and> fst (adopt_legacy_graph_stubs token phys received seen' legacy m') = 0"
proof -
  let ?when = "if received = 0 then [] else format_rfc3339 received"
  let ?want = "map_option (\<lambda>f. f received) legacy"
  let ?ks = "adoption_candidates received legacy m"
  obtain n es where run: "fold (adopt_step token phys ?when ?want seen) ?ks (0, m_entries m) = (n, es)"
    by fastforce
  note st = adopt_steps [OF run]
  have m': "m_entries m' = es" by (simp add: m'_def adopt_eq run Let_def)
  have ks: "adoption_candidates received legacy m' = ?ks"
  proof (cases legacy)
    case None
    then show ?thesis using st by (simp add: adoption_candidates_def m')
  next
    case (Some f)
    then have "m_by_ident m' = Some (ident_index m)" by (simp add: m'_def adopt_eq Let_def)
    then have "ident_index m' = ident_index m" by (simp add: ident_index_def)
    with Some show ?thesis by (simp add: adoption_candidates_def)
  qed
  have none: "\<not> adopt_hit token phys ?when ?want k r" if "k \<in> set ?ks" "mget es k = Some r" for k r
  proof -
    let ?f = "\<lambda>r. if k \<in> set ?ks \<and> adopt_hit token phys ?when ?want k r then adopted seen r else r"
    have "mget es k = map_option ?f (mget (m_entries m) k)" using st by blast
    with that(2) obtain r0 where "r = ?f r0" by (cases "mget (m_entries m) k") auto
    with that(1) show ?thesis using adopted_no_hit by (simp split: if_split)
  qed
  then have "fold (adopt_step token phys ?when ?want seen') ?ks (0, es) = (0, es)"
    by (rule adopt_step_no_hit)
  then have again: "fst (adopt_legacy_graph_stubs token phys received seen' legacy m') = 0"
    unfolding adopt_eq [of token phys received seen' legacy m'] Let_def ks m' by simp
  have "mget es k = Some (if hit k r then adopted seen r else r)
      \<and> (\<forall>spare. hit k r \<and> sp_legacy_placeholders spare \<longrightarrow> spares spare k (adopted seen r))"
    if "mget (m_entries m) k = Some r" for k r
    using that st adopted_spared [of token phys ?when ?want k r] by (simp add: hit_def)
  with st again m' inv_adopt [OF assms(1)] show ?thesis by (auto simp: m'_def)
qed

end
