(* ===== verification/ManifestProps.thy ===== *)
theory ManifestProps
  imports Sweep
begin

text \<open>
  The manifest as a machine: any sequence of its operations, and what holds at its end.  A run of
  the program interleaves the calls of its goroutines in some order; as each call holds the lock, the
  sequences of operations are all the interleavings there are.  \<^verbatim>\<open>SupersedePartial\<close>, the one
  operation that takes the lock twice, is two operations here: the lookup and the commit.
\<close>

datatype mop =
    Op_Add string mrec
  | Op_Delete string
  | Op_Supersede_Unparsed string string string
  | Op_Key_For_Locator string string
  | Op_Supersede_Commit string string
  | Op_Stamp_Parser_Gen string int
  | Op_Set_Locator string string
  | Op_Key_For_Path string
  | Op_Has_Stubs
  | Op_Keys_For_Identity string
  | Op_Resolve string
  | Op_Merge_Fields string string gotime bool
  | Op_Stamp_Parse_Scheme string int
  | Op_Set_Present string bool
  | Op_Touch_Seen string gotime
  | Op_Add_Phys_Id string string
  | Op_Mark_Collapsed "string list"
  | Op_Unit_In_Use string
  | Op_Sweep string walked gotime sweep_spare
  | Op_Adopt string string gotime gotime "(gotime \<Rightarrow> string) option"
  | Op_Reclass string

fun mstep :: "mop \<Rightarrow> manifest \<Rightarrow> manifest" where
  "mstep (Op_Add k r) m = add k r m"
| "mstep (Op_Delete k) m = delete k m"
| "mstep (Op_Supersede_Unparsed t d k) m = snd (supersede_unparsed t d k m)"
| "mstep (Op_Key_For_Locator t l) m = snd (key_for_locator t l m)"
| "mstep (Op_Supersede_Commit k k') m = snd (supersede_partial_commit k k' m)"
| "mstep (Op_Stamp_Parser_Gen k g) m = snd (stamp_parser_gen k g m)"
| "mstep (Op_Set_Locator k l) m = snd (set_locator k l m)"
| "mstep (Op_Key_For_Path p) m = snd (key_for_path p m)"
| "mstep Op_Has_Stubs m = snd (has_unparsed_stubs m)"
| "mstep (Op_Keys_For_Identity i) m = snd (keys_for_identity i m)"
| "mstep (Op_Resolve k) m = snd (resolve k m)"
| "mstep (Op_Merge_Fields k f s p) m = snd (merge_fields k f s p m)"
| "mstep (Op_Stamp_Parse_Scheme k s) m = snd (stamp_parse_scheme k s m)"
| "mstep (Op_Set_Present k p) m = snd (set_present k p m)"
| "mstep (Op_Touch_Seen k s) m = snd (touch_seen k s m)"
| "mstep (Op_Add_Phys_Id k i) m = snd (add_phys_id k i m)"
| "mstep (Op_Mark_Collapsed ts) m = mark_collapsed ts m"
| "mstep (Op_Unit_In_Use u) m = snd (unit_in_use u m)"
| "mstep (Op_Sweep t w r s) m = snd (sweep_gone_sparing t w r s m)"
| "mstep (Op_Adopt t p r s f) m = snd (adopt_legacy_graph_stubs t p r s f m)"
| "mstep (Op_Reclass i) m = snd (reclass_legacy_placeholders i m)"

definition mmay :: "mop \<Rightarrow> manifest \<Rightarrow> bool" where
  "mmay op m \<longleftrightarrow> (case op of Op_Add k r \<Rightarrow> add_ok k r m | _ \<Rightarrow> True)"

lemmas inv_ops = inv_add inv_delete inv_supersede_unparsed inv_key_for_locator
  inv_supersede_partial_commit inv_stamp_parser_gen inv_set_locator inv_key_for_path
  inv_has_unparsed_stubs inv_keys_for_identity inv_resolve inv_merge_fields inv_stamp_parse_scheme
  inv_set_present inv_touch_seen inv_add_phys_id inv_sweep inv_adopt inv_reclass

lemma mstep_inv: "inv m \<Longrightarrow> mmay op m \<Longrightarrow> inv (mstep op m)"
  by (cases op) (simp_all add: inv_ops mmay_def mark_collapsed_def unit_in_use_def Let_def)

interpretation manifest: machine mstep mmay inv
  by unfold_locales (rule mstep_inv)

lemma inv_new: "inv (new_manifest path)"
  using byident.covers_empty by (simp add: inv_def new_manifest_def path_unique_def)

subsection \<open>What the lookups answer\<close>

lemma keys_for_identity_scan:
  assumes "inv m"
  shows "e \<in> set (fst (keys_for_identity i m)) \<longleftrightarrow> i \<noteq> [] \<and> identity_of (ir_key e) = i
      \<and> (\<exists>r. mget (m_entries m) (ir_key e) = Some r \<and> e = ident_ref_of (ir_key e) r)"
  using byident.covers_get [OF ident_index_covers [OF assms], of e i]
  by (auto simp: keys_for_identity_def ident_entry_def split: if_splits)

lemma key_for_path_scan:
  assumes "inv m"
  shows "fst (key_for_path p m) = Some k \<longleftrightarrow> p \<noteq> [] \<and> (\<exists>r. mget (m_entries m) k = Some r \<and> r_path r = p)"
  using path_exactD [OF path_index_exact [OF assms]] by (simp add: key_for_path_def)

lemma key_for_locator_sound:
  assumes "inv m" and "fst (key_for_locator token locator m) = Some k" and "nul \<notin> set token"
  shows "\<exists>r. mget (m_entries m) k = Some r \<and> has_unreadable r \<and> r_locator r = locator
      \<and> upto_byte nul k = token"
proof -
  from assms(2) have "mget (locator_index m) (token @ key_separator @ locator) = Some k"
    by (simp add: key_for_locator_def split: if_splits)
  from locator_soundD [OF locator_index_sound [OF assms(1)] this]
  obtain r where r: "mget (m_entries m) k = Some r" "has_unreadable r"
    "token @ key_separator @ locator = locator_index_key k (r_locator r)" by blast
  then have "token @ nul # locator = upto_byte nul k @ nul # r_locator r"
    by (simp add: locator_index_key_def key_separator_def)
  with assms(3) have "token = upto_byte nul k \<and> locator = r_locator r"
    by (subst (asm) sep_inj) auto
  with r show ?thesis by blast
qed

lemma digest_entry_Some:
  "digest_entry k r = Some (i, k) \<longleftrightarrow>
     r_raw_digest r \<noteq> [] \<and> rec_has_label r label_unparsed \<and> i = locator_index_key k (r_raw_digest r)"
  by (auto simp: digest_entry_def)

lemma unparsed_scan:
  assumes "inv m" and "nul \<notin> set token" and "digest \<noteq> []"
  shows "k \<in> set (mlist (digest_index m) (token @ key_separator @ digest)) \<longleftrightarrow>
      (\<exists>r. mget (m_entries m) k = Some r \<and> rec_has_label r label_unparsed \<and> r_raw_digest r = digest
        \<and> upto_byte nul k = token)"
proof -
  have "token @ key_separator @ digest = locator_index_key k d \<longleftrightarrow> token = upto_byte nul k \<and> digest = d" for d
    using sep_inj [OF assms(2) upto_byte_notin [of nul k], of digest d]
    by (simp add: locator_index_key_def key_separator_def)
  then show ?thesis
    unfolding bydigest.covers_get [OF digest_index_covers [OF assms(1)]] digest_entry_Some
    using assms(3) by metis
qed

text \<open>
  C10: whatever sequence of operations a run makes, in whatever interleaving, the lazily built and
  incrementally kept indices answer what a scan of the records would.  \<^verbatim>\<open>KeysForIdentity\<close> lists
  exactly the records of that identity with their current fingerprint and immutable id;
  \<^verbatim>\<open>KeyForPath\<close> names exactly the record that owns a path; the digest index, which
  \<^verbatim>\<open>SupersedeUnparsed\<close> reads, holds exactly the unparsed stubs of a store with that raw digest.
  \<^verbatim>\<open>KeyForLocator\<close> names only a partly-read record of the same store with that locator: it holds one
  key for a locator, so where two records share one it may name either, or none after one of them left
  (R4, R17, FC8).  The run is one whose operations the callers' rules allow (\<open>may_run\<close>).
\<close>

theorem indices_answer_a_scan:
  assumes "inv m" and "manifest.may_run ops m" and "nul \<notin> set token" and "digest \<noteq> []"
  defines "m' \<equiv> fold mstep ops m"
  shows "(e \<in> set (fst (keys_for_identity i m')) \<longleftrightarrow> i \<noteq> [] \<and> identity_of (ir_key e) = i
        \<and> (\<exists>r. mget (m_entries m') (ir_key e) = Some r \<and> e = ident_ref_of (ir_key e) r))
     \<and> (fst (key_for_path p m') = Some k \<longleftrightarrow>
          p \<noteq> [] \<and> (\<exists>r. mget (m_entries m') k = Some r \<and> r_path r = p))
     \<and> (k \<in> set (mlist (digest_index m') (token @ key_separator @ digest)) \<longleftrightarrow>
          (\<exists>r. mget (m_entries m') k = Some r \<and> rec_has_label r label_unparsed \<and> r_raw_digest r = digest
             \<and> upto_byte nul k = token))
     \<and> (fst (key_for_locator token locator m') = Some k \<longrightarrow>
          (\<exists>r. mget (m_entries m') k = Some r \<and> has_unreadable r \<and> r_locator r = locator
             \<and> upto_byte nul k = token))"
proof -
  have i: "inv m'" unfolding m'_def using assms(1,2) by (rule manifest.run_inv)
  show ?thesis
    by (intro conjI impI; (rule keys_for_identity_scan [OF i] | rule key_for_path_scan [OF i]
        | rule unparsed_scan [OF i assms(3,4)]
        | (rule key_for_locator_sound [OF i _ assms(3)], assumption)))
qed

definition sample_key :: string where "sample_key = live_key ''alice'' ''mid:1''"

definition sample_rec :: mrec where
  "sample_rec = zero_rec\<lparr>r_path := ''alice/Inbox/1.html'', r_folder := ''Inbox'', r_present := True\<rparr>"

lemma sample_add_ok: "add_ok sample_key sample_rec (new_manifest ''m'')"
  by (simp add: add_ok_def sample_rec_def zero_rec_def mixed_def has_unreadable_iff new_manifest_def)

theorem indices_answer_a_scan_witness:
  "fst (key_for_path ''alice/Inbox/1.html''
     (fold mstep [Op_Key_For_Path ''x'', Op_Add sample_key sample_rec] (new_manifest ''m''))) = Some sample_key"
proof -
  let ?ops = "[Op_Key_For_Path ''x'', Op_Add sample_key sample_rec]"
  have "manifest.may_run ?ops (new_manifest ''m'')"
    using sample_add_ok by (simp add: mmay_def key_for_path_def add_ok_def)
  from indices_answer_a_scan [OF inv_new this, of "''alice''" "''d''" undefined "[]" "''alice/Inbox/1.html''" sample_key "[]"]
  show ?thesis
    by (simp add: add_def Let_def key_for_path_def sample_rec_def zero_rec_def new_manifest_def)
qed

subsection \<open>Metadata-only settling\<close>

definition same_files :: "mrec \<Rightarrow> mrec \<Rightarrow> bool" where
  "same_files r r' \<longleftrightarrow> r_path r' = r_path r \<and> r_fixity r' = r_fixity r \<and> r_also_files r' = r_also_files r
     \<and> r_fingerprint r' = r_fingerprint r \<and> r_folder r' = r_folder r \<and> r_present r' = r_present r
     \<and> r_exported_at r' = r_exported_at r \<and> r_unit r' = r_unit r \<and> r_sealed r' = r_sealed r"

definition settled :: "string \<Rightarrow> mrec \<Rightarrow> bool" where
  "settled new_key r \<longleftrightarrow> r_missing r = [] \<and> r_terminal r = [label_superseded] \<and> r_recovered_by r = new_key"

lemma supersede_commit_result:
  assumes "supersede_partial_commit key new_key m = (b, m')"
  shows "if b then \<exists>r r'. mget (m_entries m) key = Some r \<and> has_unreadable r
            \<and> m_entries m' = mput key r' (m_entries m) \<and> same_files r r' \<and> settled new_key r'
         else m' = m"
proof (cases "mget (m_entries m) key")
  case (Some r)
  let ?r' = "r\<lparr>r_missing := [], r_terminal := [label_superseded], r_recovered_by := new_key, r_locator := []\<rparr>"
  have "same_files r ?r' \<and> settled new_key ?r'" by (simp add: same_files_def settled_def)
  with Some assms show ?thesis by (auto simp: supersede_partial_commit_def split: if_splits)
qed (use assms in \<open>simp add: supersede_partial_commit_def\<close>)

lemma supersede_partial_result:
  assumes "supersede_partial token locator new_key m = (b, m')"
  shows "if b then \<exists>key r r'. key \<noteq> new_key \<and> mget (m_entries m) key = Some r \<and> has_unreadable r
            \<and> m_entries m' = mput key r' (m_entries m) \<and> same_files r r' \<and> settled new_key r'
         else m_entries m' = m_entries m"
proof -
  obtain found m1 where k: "key_for_locator token locator m = (found, m1)" by fastforce
  then have e: "m_entries m1 = m_entries m" by (auto simp: key_for_locator_def split: if_splits)
  show ?thesis
  proof (cases "found = None \<or> found = Some new_key")
    case True
    with assms k e show ?thesis by (auto simp: supersede_partial_def)
  next
    case False
    then obtain key where key: "found = Some key" "key \<noteq> new_key" by auto
    with assms k have "supersede_partial_commit key new_key m1 = (b, m')" by (simp add: supersede_partial_def)
    from supersede_commit_result [OF this] key(2) e show ?thesis by (cases b) auto
  qed
qed

text \<open>
  Settling a partly-read record is metadata only (FC6(4)).  When \<^verbatim>\<open>SupersedePartial\<close> reports
  a record settled, exactly one record changed, it was partly read and is not the one at the new key,
  its only label is now "superseded", which is of class info, and its path, files, fixity, folder and
  timeline are what they were; when it reports none, no record changed.
\<close>

theorem supersede_partial_metadata_only:
  assumes "supersede_partial token locator new_key m = (b, m')"
  shows "(\<not> b \<longrightarrow> m_entries m' = m_entries m) \<and>
    (b \<longrightarrow> (\<exists>key r r'. key \<noteq> new_key \<and> mget (m_entries m) key = Some r \<and> has_unreadable r
        \<and> mget (m_entries m') key = Some r' \<and> same_files r r' \<and> settled new_key r'
        \<and> \<not> terminal_gap r' \<and> \<not> fillable r'
        \<and> (\<forall>k. k \<noteq> key \<longrightarrow> mget (m_entries m') k = mget (m_entries m) k)))"
  using supersede_partial_result [OF assms]
  by (auto simp: settled_def terminal_gap_def fillable_def record_gap_class_def split: if_splits)

definition partial_rec :: mrec where
  "partial_rec = zero_rec\<lparr>r_path := ''s/a.html'', r_missing := [label_unreadable_body], r_locator := ''pst-nid:1''\<rparr>"

definition partial_manifest :: manifest where
  "partial_manifest = (new_manifest ''m'')\<lparr>m_entries := [(folder_key ''s'' ''F'' ''mid:1'', partial_rec)]\<rparr>"

lemma partial_fires: "fst (supersede_partial ''s'' ''pst-nid:1'' ''k'' partial_manifest)"
  by (simp add: supersede_partial_def key_for_locator_def locator_index_def partial_manifest_def
      new_manifest_def build_locator_def locator_add_def partial_rec_def zero_rec_def has_unreadable_iff
      locator_index_key_def folder_key_def key_separator_def upto_byte_def supersede_partial_commit_def
      label_unreadable_body_def is_unreadable_label_def has_prefix_def)

theorem supersede_partial_metadata_only_witness:
  "\<exists>key r'. mget (m_entries (snd (supersede_partial ''s'' ''pst-nid:1'' ''k'' partial_manifest))) key = Some r'
     \<and> settled ''k'' r' \<and> \<not> terminal_gap r'"
  using supersede_partial_metadata_only [of "''s''" "''pst-nid:1''" "''k''" partial_manifest]
    partial_fires by (metis prod.collapse)

lemma supersede_unparsed_result:
  assumes "supersede_unparsed token digest new_key m = (b, m')"
  shows "if b then \<exists>key r r'. key \<noteq> new_key \<and> mget (m_entries m) key = Some r \<and> rec_has_label r label_unparsed
            \<and> key \<in> set (mlist (digest_index m) (token @ key_separator @ digest))
            \<and> m_entries m' = mput key r' (m_entries m) \<and> same_files r r' \<and> settled new_key r'
         else m_entries m' = m_entries m"
proof (cases "unparsed_target token digest new_key m")
  case None
  with assms show ?thesis by (auto simp: supersede_unparsed_def Let_def)
next
  case (Some key)
  obtain r where r: "mget (m_entries m) key = Some r" "rec_has_label r label_unparsed" "key \<noteq> new_key"
    "key \<in> set (mlist (digest_index m) (token @ key_separator @ digest))"
    by (rule unparsed_target_Some [OF Some])
  let ?r' = "r\<lparr>r_missing := [], r_terminal := [label_superseded], r_recovered_by := new_key,
      r_parser_gen := 0, r_raw_digest := []\<rparr>"
  have "same_files r ?r' \<and> settled new_key ?r'" by (simp add: same_files_def settled_def)
  moreover have "b" "m_entries m' = mput key ?r' (m_entries m)"
    using assms Some r(1) by (auto simp: supersede_unparsed_def Let_def)
  ultimately show ?thesis using r by auto
qed

text \<open>
  C11: settling an unparsed stub (FC25).  Under the invariant, when \<^verbatim>\<open>SupersedeUnparsed\<close> reports
  a stub settled, it is an unparsed record of this very store with this very digest, not the one at the
  new key, and only its metadata changed; when it reports none, no record changed and the store held no
  stub of that digest but the one at the new key: a stub is never missed.
\<close>

theorem supersede_unparsed_settles_the_stub:
  assumes "inv m" and "supersede_unparsed token digest new_key m = (b, m')"
    and "nul \<notin> set token" and "digest \<noteq> []"
  shows "(b \<longrightarrow> (\<exists>key r r'. key \<noteq> new_key \<and> mget (m_entries m) key = Some r
        \<and> rec_has_label r label_unparsed \<and> r_raw_digest r = digest \<and> upto_byte nul key = token
        \<and> mget (m_entries m') key = Some r' \<and> same_files r r' \<and> settled new_key r'
        \<and> (\<forall>k. k \<noteq> key \<longrightarrow> mget (m_entries m') k = mget (m_entries m) k)))
    \<and> (\<not> b \<longrightarrow> m_entries m' = m_entries m \<and> (\<forall>k r. k \<noteq> new_key \<and> mget (m_entries m) k = Some r
        \<and> rec_has_label r label_unparsed \<and> upto_byte nul k = token \<longrightarrow> r_raw_digest r \<noteq> digest))"
proof -
  note idx = unparsed_scan [OF assms(1,3,4)]
  show ?thesis
  proof (cases b)
    case True
    with supersede_unparsed_result [OF assms(2)] show ?thesis by (fastforce simp: idx)
  next
    case False
    then have none: "unparsed_target token digest new_key m = None"
      using assms(2) by (auto simp: supersede_unparsed_def Let_def elim: unparsed_target_Some split: option.splits)
    have "k = new_key" if k: "mget (m_entries m) k = Some r" "rec_has_label r label_unparsed"
      "upto_byte nul k = token" "r_raw_digest r = digest" for k r
    proof (rule ccontr)
      assume "k \<noteq> new_key"
      with k have "k \<in> set (sort (filter (\<lambda>k. case mget (m_entries m) k of None \<Rightarrow> False
          | Some c \<Rightarrow> k \<noteq> new_key \<and> rec_has_label c label_unparsed)
        (mlist (digest_index m) (token @ key_separator @ digest))))" by (simp add: idx)
      moreover have "sort (filter (\<lambda>k. case mget (m_entries m) k of None \<Rightarrow> False
          | Some c \<Rightarrow> k \<noteq> new_key \<and> rec_has_label c label_unparsed)
        (mlist (digest_index m) (token @ key_separator @ digest))) = []"
        using none unfolding unparsed_target_def Let_def by (simp split: option.splits list.splits)
      ultimately show False by (metis empty_iff list.set(1))
    qed
    with False supersede_unparsed_result [OF assms(2)] show ?thesis by auto
  qed
qed

definition stub_rec :: mrec where
  "stub_rec = zero_rec\<lparr>r_path := ''s/b.html'', r_terminal := [label_unparsed], r_raw_digest := ''d''\<rparr>"

definition stub_manifest :: manifest where
  "stub_manifest = (new_manifest ''m'')\<lparr>m_entries := [(folder_key ''s'' ''F'' ''sha:9'', stub_rec)], m_by_ident := None\<rparr>"

lemma stub_inv: "inv stub_manifest"
  by (simp add: inv_def stub_manifest_def new_manifest_def path_unique_def mixed_def has_unreadable_iff
      stub_rec_def zero_rec_def)

lemma stub_fires: "fst (supersede_unparsed ''s'' ''d'' ''k'' stub_manifest)"
  by (simp add: supersede_unparsed_def unparsed_target_def stub_manifest_def new_manifest_def digest_index_def
      build_digest_def digest_add_def stub_rec_def zero_rec_def rec_has_label_iff Let_def mlist_def
      locator_index_key_def folder_key_def key_separator_def upto_byte_def folder_of_def)

theorem supersede_unparsed_settles_the_stub_witness:
  "\<exists>key r'. mget (m_entries (snd (supersede_unparsed ''s'' ''d'' ''k'' stub_manifest))) key = Some r'
     \<and> settled ''k'' r'"
proof -
  obtain b m' where r: "supersede_unparsed ''s'' ''d'' ''k'' stub_manifest = (b, m')" by fastforce
  with stub_fires have b: "b" by simp
  have "nul \<notin> set ''s''" "''d'' \<noteq> []" by simp_all
  from supersede_unparsed_settles_the_stub [OF stub_inv r this] b show ?thesis unfolding r by auto
qed

subsection \<open>What the single-field updates leave alone\<close>

text \<open>
  The timeline and generation updates are frame-exact.  \<^verbatim>\<open>MergeFields\<close> rewrites folder, last
  seen and present and nothing else (the first-captured file and its fixity stay, R13);
  \<^verbatim>\<open>SetPresent\<close> and \<^verbatim>\<open>TouchSeen\<close> rewrite their one field; and the parser generation and the
  parse scheme are only ever raised.  None adds, drops or renames a key, and each reports exactly
  whether it changed the record (or found it).
\<close>

theorem timeline_updates_frame:
  assumes "mget (m_entries m) key = Some r"
  shows "mget (m_entries (snd (merge_fields key f t p m))) key
       = Some (r\<lparr>r_folder := f, r_last_seen := t, r_present := p\<rparr>)
    \<and> mget (m_entries (snd (set_present key p m))) key = Some (r\<lparr>r_present := p\<rparr>)
    \<and> mget (m_entries (snd (touch_seen key t m))) key = Some (r\<lparr>r_last_seen := t\<rparr>)
    \<and> mget (m_entries (snd (stamp_parse_scheme key n m))) key
       = Some (r\<lparr>r_parse_scheme := max n (r_parse_scheme r)\<rparr>)
    \<and> fst (stamp_parse_scheme key n m) = (r_parse_scheme r < n)
    \<and> mget (m_entries (snd (stamp_parser_gen key n m))) key
       = Some (if rec_has_label r label_unparsed then r\<lparr>r_parser_gen := max n (r_parser_gen r)\<rparr> else r)
    \<and> fst (stamp_parser_gen key n m) = stale_unparsed r n
    \<and> (\<forall>op \<in> {Op_Merge_Fields key f t p, Op_Set_Present key p, Op_Touch_Seen key t,
              Op_Stamp_Parse_Scheme key n, Op_Stamp_Parser_Gen key n}.
         set (mkeys (m_entries (mstep op m))) = set (mkeys (m_entries m))
         \<and> (\<forall>k. k \<noteq> key \<longrightarrow> mget (m_entries (mstep op m)) k = mget (m_entries m) k))"
proof -
  have k: "key \<in> set (mkeys (m_entries m))" using assms by (metis mget_mhas mhas_def option.distinct(1))
  have mx: "max n (r_parse_scheme r) = (if r_parse_scheme r < n then n else r_parse_scheme r)"
    "max n (r_parser_gen r) = (if r_parser_gen r < n then n else r_parser_gen r)" by auto
  have keys: "set (mkeys (mput key r' (m_entries m))) = set (mkeys (m_entries m))" for r'
    using k by (simp add: update_keys insert_absorb)
  have same: "r\<lparr>r_parse_scheme := r_parse_scheme r\<rparr> = r" "r\<lparr>r_parser_gen := r_parser_gen r\<rparr> = r" by simp_all
  show ?thesis
    unfolding mx using assms keys same
    by (auto simp: merge_fields_def set_present_def touch_seen_def stamp_parse_scheme_def
        stamp_parser_gen_def stale_unparsed_def not_less)
qed

theorem timeline_updates_frame_witness:
  "mget (m_entries (snd (stamp_parser_gen (folder_key ''s'' ''F'' ''sha:9'') 2 stub_manifest)))
     (folder_key ''s'' ''F'' ''sha:9'') = Some (stub_rec\<lparr>r_parser_gen := 2\<rparr>)"
proof -
  have "mget (m_entries stub_manifest) (folder_key ''s'' ''F'' ''sha:9'') = Some stub_rec"
    by (simp add: stub_manifest_def)
  from timeline_updates_frame [OF this, of "[]" 0 False 2] show ?thesis
    by (simp add: stub_rec_def zero_rec_def rec_has_label_iff)
qed

end
