(* ===== verification/Counts.thy ===== *)
theory Counts
  imports ManifestInv "HOL-Library.Multiset"
begin

text \<open>
  The tallies the status page and the run summary print (\<^verbatim>\<open>manifest.go\<close>, \<^verbatim>\<open>Issues\<close> to
  \<^verbatim>\<open>FixityCounts\<close>).  Each is one pass over the records in whatever order \<^verbatim>\<open>range\<close>
  gives; the lemmas show that the order does not matter and what an operation does to a tally.
\<close>

abbreviation recs :: "manifest \<Rightarrow> mrec list" where
  "recs m \<equiv> map snd (m_entries m)"

subsection \<open>Counting maps\<close>

text \<open>\<^verbatim>\<open>out[k]++\<close>.\<close>

definition mincr :: "'k \<Rightarrow> ('k, nat) gomap \<Rightarrow> ('k, nat) gomap" where
  "mincr k out = mput k ((case mget out k of None \<Rightarrow> 0 | Some n \<Rightarrow> n) + 1) out"

definition mcount :: "('k, nat) gomap \<Rightarrow> 'k \<Rightarrow> nat" where
  "mcount out k = (case mget out k of None \<Rightarrow> 0 | Some n \<Rightarrow> n)"

lemma mcount_mincr [go_map, simp]: "mcount (mincr k out) k' = mcount out k' + (if k' = k then 1 else 0)"
  by (auto simp: mcount_def mincr_def)

lemma mcount_fold_mincr: "mcount (fold mincr ks out) k = mcount out k + count_list ks k"
  by (induction ks arbitrary: out) auto

lemma mok_fold_mincr: "mok out \<Longrightarrow> mok (fold mincr ks out)"
  by (induction ks arbitrary: out) (auto simp: mincr_def)

subsection \<open>The report\<close>

definition issue_less :: "mrec \<Rightarrow> mrec \<Rightarrow> bool" where
  "issue_less a b =
     (if r_folder a \<noteq> r_folder b then r_folder a < r_folder b
      else if r_date a \<noteq> r_date b then r_date a < r_date b
      else r_path a < r_path b)"

text \<open>
  \<^verbatim>\<open>sort.Slice\<close> leaves records it finds equal in an order of its own; here they keep the order
  of the pass.
\<close>

definition issues :: "manifest \<Rightarrow> mrec list" where
  "issues m = sort_key (\<lambda>r. [r_folder r, r_date r, r_path r]) (filter has_issues (recs m))"

subsection \<open>The tallies\<close>

definition counts :: "manifest \<Rightarrow> nat \<times> nat \<times> nat" where
  "counts m = fold (\<lambda>r (f, t, u).
      if unknown r then (f, t, u + 1)
      else if fillable r then (f + 1, t, u)
      else if terminal_gap r then (f, t + 1, u)
      else (f, t, u)) (recs m) (0, 0, 0)"

definition unreadable_count :: "manifest \<Rightarrow> nat" where
  "unreadable_count m = length (filter has_unreadable (recs m))"

definition unreadable_only :: "mrec \<Rightarrow> bool" where
  "unreadable_only r \<longleftrightarrow> fillable r \<and> \<not> unknown r \<and> list_all is_unreadable_label (r_missing r)"

definition unreadable_only_count :: "manifest \<Rightarrow> nat" where
  "unreadable_only_count m = length (filter unreadable_only (recs m))"

definition unparsed_count :: "manifest \<Rightarrow> nat" where
  "unparsed_count m = length (filter (\<lambda>r. rec_has_label r label_unparsed) (recs m))"

definition unparsed_terminal :: "mrec \<Rightarrow> bool" where
  "unparsed_terminal r \<longleftrightarrow>
     \<not> (unknown r \<or> fillable r \<or> \<not> rec_has_label r label_unparsed \<or> \<not> terminal_gap r)
     \<and> \<not> list_ex (\<lambda>l. l \<noteq> label_unparsed \<and> \<not> is_parse_gap_label l
             \<and> record_gap_class l True = class_terminal) (r_terminal r)"

definition unparsed_terminal_count :: "manifest \<Rightarrow> nat" where
  "unparsed_terminal_count m = length (filter unparsed_terminal (recs m))"

definition undecodable_count :: "manifest \<Rightarrow> nat" where
  "undecodable_count m = length (filter has_parse_gap (recs m))"

definition rec_gap_kinds :: "mrec \<Rightarrow> string list" where
  "rec_gap_kinds r = fold (\<lambda>l seen. case parse_gap_parts l of
        None \<Rightarrow> seen
      | Some (kind, _) \<Rightarrow> if kind \<in> set seen then seen else seen @ [kind])
     (r_missing r @ r_terminal r) []"

definition parse_gap_kind_counts :: "manifest \<Rightarrow> (string, nat) gomap" where
  "parse_gap_kind_counts m = fold (\<lambda>r out. fold mincr (rec_gap_kinds r) out) (recs m) []"

definition parse_gap_tally :: "mrec \<Rightarrow> nat \<times> nat \<Rightarrow> nat \<times> nat" where
  "parse_gap_tally r = (\<lambda>(withp, only).
      if \<not> fillable r \<or> unknown r then (withp, only)
      else let parse_gaps = length (filter is_parse_gap_label (r_missing r))
           in if parse_gaps = 0 then (withp, only)
              else (withp + 1, if parse_gaps = length (r_missing r) then only + 1 else only))"

definition fillable_parse_gap_counts :: "manifest \<Rightarrow> nat \<times> nat" where
  "fillable_parse_gap_counts m = fold parse_gap_tally (recs m) (0, 0)"

definition fidelity_fallback_count :: "manifest \<Rightarrow> nat" where
  "fidelity_fallback_count m = length (filter (\<lambda>r. 0 < r_fidelity_fallback r) (recs m))"

definition partly_read_paths :: "int \<Rightarrow> manifest \<Rightarrow> string list" where
  "partly_read_paths limit m =
     (let out = sort (map (\<lambda>r. strip_control (r_path r)) (filter has_unreadable (recs m)))
      in if 0 < limit \<and> limit < int (length out) then take (nat limit) out else out)"

definition fallback_counts :: "manifest \<Rightarrow> (string, nat) gomap" where
  "fallback_counts m = fold (\<lambda>r out. if r_body_fallback r = [] then out else mincr (r_body_fallback r) out)
     (recs m) []"

definition fixity_counts :: "manifest \<Rightarrow> nat \<times> nat" where
  "fixity_counts m = (length (filter has_digest (recs m)), length (m_entries m))"

subsection \<open>Each tally as a number of records\<close>

text \<open>How many records satisfy a predicate: the specification every tally is measured by.\<close>

definition how_many :: "(mrec \<Rightarrow> bool) \<Rightarrow> manifest \<Rightarrow> nat" where
  "how_many P m = size (filter_mset P (mset (recs m)))"

lemma how_many_eq: "how_many P m = length (filter P (recs m))"
  unfolding how_many_def by (metis mset_filter size_mset)

lemma counts_fold:
  "fold (\<lambda>r (f, t, u).
      if unknown r then (f, t, u + 1)
      else if fillable r then (f + 1, t, u)
      else if terminal_gap r then (f, t + 1, u)
      else (f, t, u)) rs (f, t, u)
   = (f + length (filter (\<lambda>r. fillable r \<and> \<not> unknown r) rs),
      t + length (filter (\<lambda>r. terminal_gap r \<and> \<not> fillable r) rs),
      u + length (filter unknown rs))"
  by (induction rs arbitrary: f t u) (auto simp: fillable_def unknown_iff)

lemma counts_eq:
  "counts m = (how_many (\<lambda>r. fillable r \<and> \<not> unknown r) m,
               how_many (\<lambda>r. terminal_gap r \<and> \<not> fillable r) m, how_many unknown m)"
  unfolding counts_def counts_fold by (simp add: how_many_eq)

lemma filter_all_iff: "length (filter P xs) = length xs \<longleftrightarrow> list_all P xs"
  by (metis filter_True length_filter_less list_all_iff nat_neq_iff)

lemma filter_none_iff: "filter P xs = [] \<longleftrightarrow> \<not> list_ex P xs"
  by (auto simp: filter_empty_conv list_ex_iff)

lemma parse_gap_tally_eq:
  "parse_gap_tally r (a, b) =
     (a + (if fillable r \<and> \<not> unknown r \<and> list_ex is_parse_gap_label (r_missing r) then 1 else 0),
      b + (if fillable r \<and> \<not> unknown r \<and> list_all is_parse_gap_label (r_missing r) then 1 else 0))"
proof -
  have "list_all is_parse_gap_label (r_missing r) \<Longrightarrow> list_ex is_parse_gap_label (r_missing r)"
    if "fillable r"
    using that by (cases "r_missing r") (auto simp: fillable_def)
  then show ?thesis
    by (auto simp: parse_gap_tally_def filter_all_iff filter_none_iff)
qed

lemma parse_gap_tally_fold:
  "fold parse_gap_tally rs (a, b)
   = (a + length (filter (\<lambda>r. fillable r \<and> \<not> unknown r \<and> list_ex is_parse_gap_label (r_missing r)) rs),
      b + length (filter (\<lambda>r. fillable r \<and> \<not> unknown r \<and> list_all is_parse_gap_label (r_missing r)) rs))"
  by (induction rs arbitrary: a b) (simp_all add: parse_gap_tally_eq)

lemma tallies_eq:
  "unreadable_count m = how_many has_unreadable m"
  "unreadable_only_count m = how_many unreadable_only m"
  "unparsed_count m = how_many (\<lambda>r. rec_has_label r label_unparsed) m"
  "unparsed_terminal_count m = how_many unparsed_terminal m"
  "undecodable_count m = how_many has_parse_gap m"
  "fidelity_fallback_count m = how_many (\<lambda>r. 0 < r_fidelity_fallback r) m"
  "fixity_counts m = (how_many has_digest m, how_many (\<lambda>r. True) m)"
  "fillable_parse_gap_counts m =
     (how_many (\<lambda>r. fillable r \<and> \<not> unknown r \<and> list_ex is_parse_gap_label (r_missing r)) m,
      how_many (\<lambda>r. fillable r \<and> \<not> unknown r \<and> list_all is_parse_gap_label (r_missing r)) m)"
  by (simp_all add: how_many_eq unreadable_count_def unreadable_only_count_def unparsed_count_def
      unparsed_terminal_count_def undecodable_count_def fidelity_fallback_count_def fixity_counts_def
      fillable_parse_gap_counts_def parse_gap_tally_fold)

lemma rec_gap_kinds_set:
  "set (rec_gap_kinds r) = {k. \<exists>l d. l \<in> set (r_missing r) \<union> set (r_terminal r) \<and> parse_gap_parts l = Some (k, d)}"
  and rec_gap_kinds_distinct: "distinct (rec_gap_kinds r)"
proof -
  have "set (fold (\<lambda>l seen. case parse_gap_parts l of
        None \<Rightarrow> seen
      | Some (kind, _) \<Rightarrow> if kind \<in> set seen then seen else seen @ [kind]) ls seen)
    = set seen \<union> {k. \<exists>l d. l \<in> set ls \<and> parse_gap_parts l = Some (k, d)} \<and>
    (distinct seen \<longrightarrow> distinct (fold (\<lambda>l seen. case parse_gap_parts l of
        None \<Rightarrow> seen
      | Some (kind, _) \<Rightarrow> if kind \<in> set seen then seen else seen @ [kind]) ls seen))" for ls seen
    by (induction ls arbitrary: seen) (auto split: option.splits)
  from this [of "r_missing r @ r_terminal r" "[]"]
  show "set (rec_gap_kinds r) = {k. \<exists>l d. l \<in> set (r_missing r) \<union> set (r_terminal r) \<and> parse_gap_parts l = Some (k, d)}"
    and "distinct (rec_gap_kinds r)"
    by (auto simp: rec_gap_kinds_def)
qed

lemma mcount_kinds:
  "mcount (parse_gap_kind_counts m) k = how_many (\<lambda>r. k \<in> set (rec_gap_kinds r)) m"
proof -
  have "distinct ks \<Longrightarrow> count_list ks k = (if k \<in> set ks then 1 else 0)" for ks :: "string list"
    by (induction ks) auto
  then have c: "count_list (rec_gap_kinds r) k = (if k \<in> set (rec_gap_kinds r) then 1 else 0)" for r
    using rec_gap_kinds_distinct by blast
  have "mcount (fold (\<lambda>r out. fold mincr (rec_gap_kinds r) out) rs out) k
      = mcount out k + length (filter (\<lambda>r. k \<in> set (rec_gap_kinds r)) rs)" for rs out
    by (induction rs arbitrary: out) (auto simp: mcount_fold_mincr c)
  from this [of "recs m" "[]"] show ?thesis
    unfolding parse_gap_kind_counts_def how_many_eq
    by (simp only: mcount_def [of "[]"] map_of.simps option.case add_0)
qed

lemma mcount_fallbacks:
  "k \<noteq> [] \<Longrightarrow> mcount (fallback_counts m) k = how_many (\<lambda>r. r_body_fallback r = k) m"
proof -
  assume k: "k \<noteq> []"
  have "mcount (fold (\<lambda>r out. if r_body_fallback r = [] then out else mincr (r_body_fallback r) out) rs out) k
      = mcount out k + length (filter (\<lambda>r. r_body_fallback r = k) rs)" for rs out
    using k by (induction rs arbitrary: out) auto
  from this [of "recs m" "[]"] show ?thesis
    unfolding fallback_counts_def how_many_eq by (simp only: mcount_def [of "[]"] map_of.simps option.case add_0)
qed

subsection \<open>What an operation does to a tally\<close>

lemma how_many_put:
  assumes "mok (m_entries m)" "mget (m_entries m) key = Some r"
  shows "how_many P (m\<lparr>m_entries := mput key r' (m_entries m)\<rparr>) + (if P r then 1 else 0)
       = how_many P m + (if P r' then 1 else 0)"
proof -
  have "length (filter P (map snd (mput key r' es))) + (if P r then 1 else 0)
      = length (filter P (map snd es)) + (if P r' then 1 else (0::nat))"
    if "mok es" "mget es key = Some r" for es
    using that by (induction es) (auto split: if_splits)
  from this [OF assms] show ?thesis by (simp add: how_many_eq)
qed

lemma how_many_entries: "m_entries m = m_entries m' \<Longrightarrow> how_many P m = how_many P m'"
  by (simp add: how_many_eq)

lemma how_many_order:
  "mset (m_entries m) = mset (m_entries m') \<Longrightarrow> how_many P m = how_many P m'"
  by (simp add: how_many_def)

lemma how_many_mono:
  assumes "\<And>r. P r \<Longrightarrow> Q r"
  shows "how_many P m \<le> how_many Q m"
proof -
  have "length (filter P rs) \<le> length (filter Q rs)" for rs
    using assms by (induction rs) (auto simp: le_SucI)
  then show ?thesis by (simp only: how_many_eq)
qed

lemma how_many_split: "how_many P m = how_many (\<lambda>r. P r \<and> Q r) m + how_many (\<lambda>r. P r \<and> \<not> Q r) m"
proof -
  have "length (filter P rs) = length (filter (\<lambda>r. P r \<and> Q r) rs) + length (filter (\<lambda>r. P r \<and> \<not> Q r) rs)" for rs
    by (induction rs) auto
  then show ?thesis by (simp only: how_many_eq)
qed


lemma how_many_disjoint:
  assumes "\<And>r. P r \<Longrightarrow> R r" and "\<And>r. Q r \<Longrightarrow> R r" and "\<And>r. \<not> (P r \<and> Q r)"
  shows "how_many P m + how_many Q m \<le> how_many R m"
proof -
  have "length (filter P rs) + length (filter Q rs) \<le> length (filter R rs)" for rs
    using assms by (induction rs) (auto simp: le_SucI)
  then show ?thesis by (simp only: how_many_eq)
qed

lemma unreadable_not_gap_list:
  "xs \<noteq> [] \<Longrightarrow> list_all is_unreadable_label xs \<Longrightarrow> \<not> list_all is_parse_gap_label xs"
  using unreadable_not_parse_gap by (cases xs) auto

text \<open>
  The tallies are counts of records and fit together: the fillable records that are not unknown, the
  terminal ones that are not fillable and the unknown ones are disjoint and with the rest add up to all;
  the records that are fillable only for being partly read and those fillable only for a parse gap are
  disjoint parts of the fillable ones, so status may take both away from them; the stubs it takes out of \<open>terminal\<close> are part of it; each per-kind count is the
  number of records with a gap of that kind; and the report lists exactly the records with an issue,
  in order (J5, FC26, F3, F7).
\<close>

lemma tallies_fit_together:
  defines "f m \<equiv> fst (counts m)" and "t m \<equiv> fst (snd (counts m))" and "u m \<equiv> snd (snd (counts m))"
  shows "f m = how_many (\<lambda>r. fillable r \<and> \<not> unknown r) m \<and> t m = how_many (\<lambda>r. terminal_gap r \<and> \<not> fillable r) m
     \<and> u m = how_many unknown m
     \<and> f m + t m + u m + how_many (\<lambda>r. \<not> fillable r \<and> \<not> terminal_gap r) m = len m
     \<and> unreadable_only_count m + snd (fillable_parse_gap_counts m) \<le> f m
     \<and> snd (fillable_parse_gap_counts m) \<le> fst (fillable_parse_gap_counts m)
     \<and> unparsed_terminal_count m \<le> t m
     \<and> unparsed_terminal_count m \<le> unparsed_count m
     \<and> unreadable_only_count m \<le> unreadable_count m
     \<and> fst (fixity_counts m) \<le> snd (fixity_counts m)
     \<and> mcount (parse_gap_kind_counts m) k = how_many (\<lambda>r. k \<in> set (rec_gap_kinds r)) m
     \<and> mset (issues m) = filter_mset has_issues (mset (recs m))
     \<and> sorted_wrt (\<lambda>a b. \<not> issue_less b a) (issues m)"
proof (intro conjI)
  note [simp] = f_def t_def u_def counts_eq tallies_eq
  show "f m = how_many (\<lambda>r. fillable r \<and> \<not> unknown r) m" "t m = how_many (\<lambda>r. terminal_gap r \<and> \<not> fillable r) m"
    "u m = how_many unknown m" by simp_all
  have all: "len m = how_many (\<lambda>r. True) m" by (simp add: len_def how_many_eq)
  have u: "how_many unknown m = how_many (\<lambda>r. fillable r \<and> unknown r) m"
    by (rule arg_cong [of _ _ "\<lambda>P. how_many P m"]) (auto simp: fillable_def unknown_iff fun_eq_iff)
  have nf: "how_many (\<lambda>r. \<not> fillable r) m = how_many (\<lambda>r. terminal_gap r \<and> \<not> fillable r) m
      + how_many (\<lambda>r. \<not> fillable r \<and> \<not> terminal_gap r) m"
    using how_many_split [of "\<lambda>r. \<not> fillable r" m terminal_gap] by (simp add: conj_commute)
  show "f m + t m + u m + how_many (\<lambda>r. \<not> fillable r \<and> \<not> terminal_gap r) m = len m"
    using how_many_split [of "\<lambda>r. True" m fillable] how_many_split [of fillable m unknown]
    by (simp add: all u nf)
  show "unreadable_only_count m + snd (fillable_parse_gap_counts m) \<le> f m"
    using unreadable_not_gap_list
    by (simp, intro how_many_disjoint) (auto simp: unreadable_only_def fillable_def)
  show "snd (fillable_parse_gap_counts m) \<le> fst (fillable_parse_gap_counts m)"
    by (simp, rule how_many_mono) (auto simp: fillable_def list_all_iff list_ex_iff neq_Nil_conv)
  show "unparsed_terminal_count m \<le> t m" "unparsed_terminal_count m \<le> unparsed_count m"
    by (simp, rule how_many_mono, simp add: unparsed_terminal_def)+
  show "unreadable_only_count m \<le> unreadable_count m"
    by (simp, rule how_many_mono) (auto simp: unreadable_only_def fillable_def has_unreadable_def
        list_all_iff list_ex_iff neq_Nil_conv)
  show "fst (fixity_counts m) \<le> snd (fixity_counts m)" by (simp, rule how_many_mono, simp)
  show "mcount (parse_gap_kind_counts m) k = how_many (\<lambda>r. k \<in> set (rec_gap_kinds r)) m"
    by (rule mcount_kinds)
  show "mset (issues m) = filter_mset has_issues (mset (recs m))" by (simp add: issues_def)
  have less: "issue_less b a \<longleftrightarrow> [r_folder b, r_date b, r_path b] < [r_folder a, r_date a, r_path a]" for a b
    by (auto simp: issue_less_def)
  have "sorted (map (\<lambda>r. [r_folder r, r_date r, r_path r]) (issues m))" by (simp add: issues_def)
  then show "sorted_wrt (\<lambda>a b. \<not> issue_less b a) (issues m)"
    unfolding less not_less sorted_map .
qed

lemma how_many_update:
  assumes "mok (m_entries m)" and "mget (m_entries m) key = Some r" and "m_entries m' = mput key r' (m_entries m)"
  shows "how_many P m' + (if P r then 1 else 0) = how_many P m + (if P r' then 1 else 0)"
  using how_many_put [OF assms(1,2), of P r'] assms(3) how_many_entries [of m' "m\<lparr>m_entries := mput key r' (m_entries m)\<rparr>" P]
  by simp

lemma superseded_labels [simp]: "record_gap_class label_superseded True \<noteq> class_terminal"
  by (simp add: record_gap_class_def gap_class_def label_defs is_unreadable_label_def has_prefix_def class_defs)

text \<open>
  Settling a record moves exactly that record between the tallies: a partly-read record superseded
  by its re-read leaves the partly-read count and whatever tally it was in and enters none; an
  older archive's \<open>unknown\<close> record resolved leaves the unknown tally and is then terminal exactly when
  its terminal labels say so (J5, RV-12).
\<close>

theorem settling_moves_one_record:
  assumes "inv m" and "mget (m_entries m) key = Some r"
  shows "(supersede_partial_commit key new_key m = (True, m1) \<longrightarrow>
       unreadable_count m = unreadable_count m1 + 1
       \<and> fst (counts m) = fst (counts m1) + (if fillable r \<and> \<not> unknown r then 1 else 0)
       \<and> fst (snd (counts m)) = fst (snd (counts m1)) + (if terminal_gap r \<and> \<not> fillable r then 1 else 0)
       \<and> snd (snd (counts m)) = snd (snd (counts m1)) + (if unknown r then 1 else 0))
    \<and> (resolve key m = (True, m2) \<longrightarrow>
       snd (snd (counts m)) = snd (snd (counts m2)) + 1 \<and> fst (counts m2) = fst (counts m)
       \<and> fst (snd (counts m2)) = fst (snd (counts m)) + (if terminal_gap r then 1 else 0))"
proof (intro conjI impI)
  note ok = invD(1) [OF assms(1)]
  {
    assume c: "supersede_partial_commit key new_key m = (True, m1)"
    define r' where "r' = r\<lparr>r_missing := [], r_terminal := [label_superseded], r_recovered_by := new_key,
        r_locator := []\<rparr>"
    from c assms(2) have u: "has_unreadable r" and e: "m_entries m1 = mput key r' (m_entries m)"
      by (auto simp: supersede_partial_commit_def r'_def split: if_splits)
    note n = how_many_update [OF ok assms(2) e]
    have r': "\<not> has_unreadable r'" "\<not> fillable r'" "\<not> unknown r'" "\<not> terminal_gap r'"
      by (simp_all add: r'_def has_unreadable_def fillable_def unknown_def terminal_gap_def)
    show "unreadable_count m = unreadable_count m1 + 1"
      using n [of has_unreadable] u r' by (simp add: tallies_eq)
    show "fst (counts m) = fst (counts m1) + (if fillable r \<and> \<not> unknown r then 1 else 0)"
      using n [of "\<lambda>r. fillable r \<and> \<not> unknown r"] r' by (simp add: counts_eq)
    show "fst (snd (counts m)) = fst (snd (counts m1)) + (if terminal_gap r \<and> \<not> fillable r then 1 else 0)"
      using n [of "\<lambda>r. terminal_gap r \<and> \<not> fillable r"] r' by (simp add: counts_eq)
    show "snd (snd (counts m)) = snd (snd (counts m1)) + (if unknown r then 1 else 0)"
      using n [of unknown] r' by (simp add: counts_eq)
  }
  {
    assume c: "resolve key m = (True, m2)"
    define r1 where "r1 = r\<lparr>r_missing := []\<rparr>"
    define r' where "r' = (if \<not> has_issues r1 then r1\<lparr>r_subject := [], r_date := []\<rparr> else r1)"
    from c assms(2) have u: "unknown r" and e: "m_entries m2 = mput key r' (m_entries m)"
      by (auto simp: resolve_def r'_def r1_def Let_def split: if_splits)
    note n = how_many_update [OF ok assms(2) e]
    have r': "\<not> fillable r'" "\<not> unknown r'" "terminal_gap r' = terminal_gap r"
      by (simp_all add: r'_def r1_def fillable_def unknown_def terminal_gap_def)
    have r: "fillable r" using u by (simp add: fillable_def unknown_def)
    show "snd (snd (counts m)) = snd (snd (counts m2)) + 1"
      using n [of unknown] r' u by (simp add: counts_eq)
    show "fst (counts m2) = fst (counts m)"
      using n [of "\<lambda>r. fillable r \<and> \<not> unknown r"] r' u by (simp add: counts_eq)
    show "fst (snd (counts m2)) = fst (snd (counts m)) + (if terminal_gap r then 1 else 0)"
      using n [of "\<lambda>r. terminal_gap r \<and> \<not> fillable r"] r' r by (simp add: counts_eq)
  }
qed

definition legacy_box :: manifest where
  "legacy_box = (new_manifest [])\<lparr>m_entries := [(''k'', zero_rec\<lparr>r_missing := [unknown_sentinel]\<rparr>)], m_by_ident := None\<rparr>"

theorem settling_moves_one_record_witness:
  "snd (snd (counts legacy_box)) = snd (snd (counts (snd (resolve ''k'' legacy_box)))) + 1"
proof -
  let ?r = "zero_rec\<lparr>r_missing := [unknown_sentinel]\<rparr>"
  have e: "m_entries legacy_box = [(''k'', ?r)]" by (simp add: legacy_box_def)
  have "inv legacy_box"
    by (simp add: inv_def e path_unique_def mixed_def has_unreadable_def zero_rec_def)
      (simp add: legacy_box_def new_manifest_def)
  moreover have "mget (m_entries legacy_box) ''k'' = Some ?r" by (simp add: e)
  moreover have "resolve ''k'' legacy_box = (True, snd (resolve ''k'' legacy_box))"
    by (simp add: resolve_def e unknown_def Let_def)
  ultimately show ?thesis using settling_moves_one_record [of legacy_box "''k''" ?r] by blast
qed

end
