(* ===== verification/Hash.thy ===== *)
theory Hash
  imports Prelude "HOL-Library.Word"
begin

text \<open>
  The two digests of Go's standard library the source calls, written from their standards:
  \<^verbatim>\<open>crypto/sha1\<close> and \<^verbatim>\<open>crypto/sha256\<close> with \<^verbatim>\<open>encoding/hex\<close>, and
  \<^verbatim>\<open>HashHex\<close> of \<^verbatim>\<open>internal/util/paths.go\<close>.  The theorems use of them only
  their length and their alphabet: a claim that needs two inputs to have different digests says so.
\<close>

unbundle bit_operations_syntax

type_synonym w32 = "32 word"

definition byte_word :: "char \<Rightarrow> w32" where
  "byte_word c = word_of_nat (of_char c)"

definition word_bytes :: "w32 \<Rightarrow> char list" where
  "word_bytes w = map (\<lambda>i. char_of (unat (drop_bit i w AND 0xff))) [24, 16, 8, 0]"

text \<open>The message padded to whole blocks of 64 bytes, as words of 32 bits, most significant byte first.\<close>

definition pad_message :: "string \<Rightarrow> string" where
  "pad_message s = s @ [CHR 0x80] @ replicate ((119 - length s mod 64) mod 64) (CHR 0x00)
     @ map (\<lambda>i. char_of (8 * length s div 256 ^ (7 - i) mod 256)) [0..<8]"

fun be_words :: "string \<Rightarrow> w32 list" where
  "be_words (a # b # c # d # s) =
     (push_bit 24 (byte_word a) OR push_bit 16 (byte_word b) OR push_bit 8 (byte_word c) OR byte_word d)
     # be_words s"
| "be_words _ = []"

fun blocks :: "nat \<Rightarrow> w32 list \<Rightarrow> w32 list list" where
  "blocks 0 ws = []"
| "blocks (Suc n) ws = take 16 ws # blocks n (drop 16 ws)"

definition message_blocks :: "string \<Rightarrow> w32 list list" where
  "message_blocks s = (let ws = be_words (pad_message s) in blocks (length ws div 16) ws)"

subsection \<open>SHA-1\<close>

fun extend1 :: "nat \<Rightarrow> w32 list \<Rightarrow> w32 list" where
  "extend1 0 ws = ws"
| "extend1 (Suc n) ws = (let t = length ws
     in extend1 n (ws @ [word_rotl 1 (ws ! (t - 3) XOR ws ! (t - 8) XOR ws ! (t - 14) XOR ws ! (t - 16))]))"

definition round1 :: "nat \<Rightarrow> w32 \<Rightarrow> w32 \<Rightarrow> w32 \<Rightarrow> w32 \<times> w32" where
  "round1 t b c d =
     (if t < 20 then ((b AND c) OR (NOT b AND d), 0x5a827999)
      else if t < 40 then (b XOR c XOR d, 0x6ed9eba1)
      else if t < 60 then ((b AND c) OR (b AND d) OR (c AND d), 0x8f1bbcdc)
      else (b XOR c XOR d, 0xca62c1d6))"

definition step1 :: "nat \<times> w32 \<Rightarrow> w32 list \<Rightarrow> w32 list" where
  "step1 = (\<lambda>(t, w) h. let a = h ! 0; b = h ! 1; c = h ! 2; d = h ! 3; e = h ! 4
     in [word_rotl 5 a + fst (round1 t b c d) + e + w + snd (round1 t b c d), a, word_rotl 30 b, c, d])"

definition block1 :: "w32 list \<Rightarrow> w32 list \<Rightarrow> w32 list" where
  "block1 blk h = map2 (+) h (fold step1 (zip [0..<80] (extend1 64 blk)) h)"

definition sha1 :: "string \<Rightarrow> char list" where
  "sha1 s = concat (map word_bytes (fold block1 (message_blocks s)
     [0x67452301, 0xefcdab89, 0x98badcfe, 0x10325476, 0xc3d2e1f0]))"

subsection \<open>SHA-256\<close>

text \<open>
  The constants are the first 32 bits of the fractional parts of the square roots (the initial state)
  and of the cube roots (the rounds) of the first primes, as the standard derives them.
\<close>

fun root_bits :: "nat \<Rightarrow> nat \<Rightarrow> nat \<Rightarrow> nat \<Rightarrow> nat" where
  "root_bits p n 0 r = r"
| "root_bits p n (Suc i) r = (let r' = r + 2 ^ i in root_bits p n i (if r' ^ p \<le> n then r' else r))"

definition primes_to :: "nat \<Rightarrow> nat list" where
  "primes_to n = filter (\<lambda>p. list_all (\<lambda>d. p mod d \<noteq> 0) [2..<p]) [2..<Suc n]"

definition h256 :: "w32 list" where
  "h256 = map (\<lambda>p. word_of_nat (root_bits 2 (p * 2 ^ 64) 35 0)) (primes_to 19)"

definition k256 :: "w32 list" where
  "k256 = map (\<lambda>p. word_of_nat (root_bits 3 (p * 2 ^ 96) 35 0)) (primes_to 311)"

fun extend2 :: "nat \<Rightarrow> w32 list \<Rightarrow> w32 list" where
  "extend2 0 ws = ws"
| "extend2 (Suc n) ws =
     (let t = length ws; x = ws ! (t - 15); y = ws ! (t - 2);
          s0 = word_rotr 7 x XOR word_rotr 18 x XOR drop_bit 3 x;
          s1 = word_rotr 17 y XOR word_rotr 19 y XOR drop_bit 10 y
      in extend2 n (ws @ [ws ! (t - 16) + s0 + ws ! (t - 7) + s1]))"

definition step2 :: "w32 \<times> w32 \<Rightarrow> w32 list \<Rightarrow> w32 list" where
  "step2 = (\<lambda>(k, w) h.
     let a = h ! 0; b = h ! 1; c = h ! 2; d = h ! 3; e = h ! 4; f = h ! 5; g = h ! 6;
         s1 = word_rotr 6 e XOR word_rotr 11 e XOR word_rotr 25 e;
         t1 = h ! 7 + s1 + ((e AND f) XOR (NOT e AND g)) + k + w;
         s0 = word_rotr 2 a XOR word_rotr 13 a XOR word_rotr 22 a
     in [t1 + s0 + ((a AND b) XOR (a AND c) XOR (b AND c)), a, b, c, d + t1, e, f, g])"

definition block2 :: "w32 list \<Rightarrow> w32 list \<Rightarrow> w32 list" where
  "block2 blk h = map2 (+) h (fold step2 (zip k256 (extend2 48 blk)) h)"

definition sha256 :: "string \<Rightarrow> char list" where
  "sha256 s = concat (map word_bytes (fold block2 (message_blocks s) h256))"

subsection \<open>Hexadecimal\<close>

definition hex_digit :: "nat \<Rightarrow> char" where
  "hex_digit n = ''0123456789abcdef'' ! n"

definition hex_byte :: "char \<Rightarrow> string" where
  "hex_byte c = [hex_digit (of_char c div 16), hex_digit (of_char c mod 16)]"

definition hex_encode :: "char list \<Rightarrow> string" where
  "hex_encode bs = concat (map hex_byte bs)"

definition hash_hex :: "string \<Rightarrow> nat \<Rightarrow> string" where
  "hash_hex s n = (let h = hex_encode (sha1 s) in if n < length h then take n h else h)"

lemma length_step1 [simp]: "length (step1 x h) = 5"
  by (simp add: step1_def Let_def split: prod.splits)

lemma length_step2 [simp]: "length (step2 x h) = 8"
  by (simp add: step2_def Let_def split: prod.splits)

lemma length_fold_const:
  "(\<And>x h. length (f x h) = n) \<Longrightarrow> length h = n \<Longrightarrow> length (fold f xs h) = n"
  by (induction xs arbitrary: h) auto

lemma length_words: "length (concat (map word_bytes ws)) = 4 * length ws"
  by (induction ws) (auto simp: word_bytes_def)

lemma length_hex [simp]: "length (hex_encode bs) = 2 * length bs"
  by (induction bs) (auto simp: hex_encode_def hex_byte_def)

lemma length_block1: "length h = 5 \<Longrightarrow> length (block1 blk h) = 5"
  by (simp add: block1_def length_fold_const)

lemma length_block2: "length h = 8 \<Longrightarrow> length (block2 blk h) = 8"
  by (simp add: block2_def length_fold_const)

lemma length_fold_inv:
  "(\<And>x h. length h = n \<Longrightarrow> length (f x h) = n) \<Longrightarrow> length h = n \<Longrightarrow> length (fold f xs h) = n"
  by (induction xs arbitrary: h) auto

lemma length_sha1 [simp]: "length (sha1 s) = 20"
  unfolding sha1_def length_words by (subst length_fold_inv [where n = 5]) (simp_all add: length_block1)

lemma length_h256 [simp]: "length h256 = 8"
  unfolding h256_def primes_to_def length_map by (simp add: upt_rec)

lemma length_sha256 [simp]: "length (sha256 s) = 32"
  unfolding sha256_def length_words by (subst length_fold_inv [where n = 8]) (simp_all add: length_block2)

lemma length_hash_hex [simp]: "length (hash_hex s n) = min n 40"
  by (simp add: hash_hex_def Let_def)

definition hex_alphabet :: "char set" where
  "hex_alphabet = set ''0123456789abcdef''"

lemma hex_digit_cases: "n < 16 \<Longrightarrow> hex_digit n \<in> hex_alphabet"
  unfolding hex_digit_def hex_alphabet_def by (rule nth_mem) simp

lemma hex_byte_alphabet: "set (hex_byte c) \<subseteq> hex_alphabet"
proof -
  have "of_char c < (256::nat)" by (rule nat_of_char_less_256)
  then have "of_char c div 16 < (16::nat)" by linarith
  then show ?thesis
    using hex_digit_cases [of "of_char c div 16"] hex_digit_cases [of "of_char c mod 16"]
    by (simp add: hex_byte_def)
qed

lemma hex_encode_alphabet: "set (hex_encode bs) \<subseteq> hex_alphabet"
  using hex_byte_alphabet by (induction bs) (auto simp: hex_encode_def)

lemma hash_hex_alphabet: "set (hash_hex s n) \<subseteq> hex_alphabet"
  using hex_encode_alphabet [of "sha1 s"]
  by (auto simp: hash_hex_def Let_def dest!: in_set_takeD)

lemma hex_digit_inj: "n < 16 \<Longrightarrow> m < 16 \<Longrightarrow> hex_digit n = hex_digit m \<Longrightarrow> n = m"
  using nth_eq_iff_index_eq [of "''0123456789abcdef''" n m] by (simp add: hex_digit_def)

lemma hex_byte_inj: "hex_byte c = hex_byte d \<Longrightarrow> c = d"
proof -
  assume e: "hex_byte c = hex_byte d"
  let ?n = "of_char c :: nat" and ?m = "of_char d :: nat"
  have "?n < 256" "?m < 256" by simp_all
  then have "?n div 16 < 16" "?m div 16 < 16" by (simp_all add: less_mult_imp_div_less)
  with e have "?n div 16 = ?m div 16" "?n mod 16 = ?m mod 16"
    by (auto simp: hex_byte_def intro!: hex_digit_inj)
  then have "?n = ?m" by (metis div_mult_mod_eq)
  then show ?thesis by simp
qed

lemma hex_encode_inj: "hex_encode bs = hex_encode cs \<Longrightarrow> bs = cs"
proof (induction bs arbitrary: cs)
  case Nil
  then show ?case by (cases cs) (simp_all add: hex_encode_def hex_byte_def)
next
  case (Cons b bs)
  from Cons.prems obtain c cs' where cs: "cs = c # cs'"
    by (cases cs) (simp_all add: hex_encode_def hex_byte_def)
  from Cons.prems have "hex_byte b @ hex_encode bs = hex_byte c @ hex_encode cs'" by (simp add: cs hex_encode_def)
  then have "hex_byte b = hex_byte c \<and> hex_encode bs = hex_encode cs'" by (simp add: hex_byte_def)
  then show ?case using Cons.IH hex_byte_inj by (auto simp: cs)
qed

lemma hash_hex_no_nul: "CHR 0x00 \<notin> set (hash_hex s n)"
  using hash_hex_alphabet [of s n] by (auto simp: hex_alphabet_def)

end
