(* ===== verification/Collapse.thy ===== *)
theory Collapse
  imports ManifestProps Hash "HOL-Library.Product_Lexorder" "HOL-Library.Multiset"
begin

text \<open>
  \<^verbatim>\<open>CollapseByIdentity\<close> of \<^verbatim>\<open>internal/state/manifest.go\<close>: the one-time upgrade that unifies
  the folder-scoped records of one message into a single mailbox-wide record.  \<open>same\<close> is the
  caller's content comparison (\<open>None\<close> when it passes none), \<open>tokens\<close> the mailboxes in
  scope (empty: all).
\<close>

type_synonym member = "string \<times> mrec"

subsection \<open>Sorting the keys into groups\<close>

text \<open>A folder-scoped key carries its identity at its third component; a live key is left alone.\<close>

definition collapse_group :: "string list \<Rightarrow> string \<Rightarrow> (string \<times> string) option" where
  "collapse_group tokens k =
     (let parts = split_on nul k
      in if 3 \<le> length parts \<and> is_identity (parts ! 2)
         then if tokens \<noteq> [] \<and> parts ! 0 \<notin> set tokens then None else Some (parts ! 0, parts ! 2)
         else None)"

definition collapse_file :: "string list \<Rightarrow> string \<times> mrec
    \<Rightarrow> (string \<times> string, member list) gomap \<times> (string, mrec) gomap
    \<Rightarrow> (string \<times> string, member list) gomap \<times> (string, mrec) gomap" where
  "collapse_file tokens = (\<lambda>(k, r) (groups, kept).
     case collapse_group tokens k of
       None \<Rightarrow> (groups, mput k r kept)
     | Some g \<Rightarrow> (mput g (mlist groups g @ [(k, r)]) groups, kept))"

definition collapse_split :: "string list \<Rightarrow> (string, mrec) gomap
    \<Rightarrow> (string \<times> string, member list) gomap \<times> (string, mrec) gomap" where
  "collapse_split tokens es = fold (collapse_file tokens) es ([], [])"

subsection \<open>The sub-groups that merge\<close>

fun place_member :: "(string \<Rightarrow> string \<Rightarrow> bool) option \<Rightarrow> member
    \<Rightarrow> (string \<times> member list) list \<Rightarrow> (string \<times> member list) list" where
  "place_member same mem [] = [(r_fingerprint (snd mem), [mem])]"
| "place_member same mem ((fp, ms) # subs) =
     (if fp = r_fingerprint (snd mem) \<and>
         (case same of None \<Rightarrow> True | Some f \<Rightarrow> f (r_path (snd (hd ms))) (r_path (snd mem)))
      then (fp, ms @ [mem]) # subs
      else (fp, ms) # place_member same mem subs)"

definition collapse_place :: "(string \<Rightarrow> string \<Rightarrow> bool) option \<Rightarrow> member
    \<Rightarrow> (string \<times> member list) list \<Rightarrow> (string \<times> member list) list" where
  "collapse_place same mem subs =
     (if r_fingerprint (snd mem) = [] then subs @ [([], [mem])] else place_member same mem subs)"

definition collapse_subs :: "(string \<Rightarrow> string \<Rightarrow> bool) option \<Rightarrow> member list
    \<Rightarrow> (string \<times> member list) list" where
  "collapse_subs same members = fold (collapse_place same) members []"

subsection \<open>The survivor of a sub-group\<close>

record survivor =
  sv_fp :: string
  sv_rec :: mrec
  sv_first_key :: string
  sv_first_seen :: gotime
  sv_losers :: "member list"

definition latest_member :: "member \<Rightarrow> member list \<Rightarrow> member" where
  "latest_member e ms = fold (\<lambda>x l. if r_exported_at (snd l) < r_exported_at (snd x) then x else l) ms e"

definition make_survivor :: "string \<times> member list \<Rightarrow> survivor" where
  "make_survivor sg =
     (let ms = sort_key (\<lambda>(k, r). (r_exported_at r, k)) (snd sg);
          earliest = hd ms; latest = latest_member earliest (tl ms)
      in \<lparr>sv_fp = fst sg,
          sv_rec = (snd earliest)\<lparr>r_first_folder := r_folder (snd earliest),
            r_first_seen := r_exported_at (snd earliest), r_folder := r_folder (snd latest),
            r_last_seen := r_exported_at (snd latest), r_present := True\<rparr>,
          sv_first_key = fst earliest, sv_first_seen = r_exported_at (snd earliest),
          sv_losers = tl ms\<rparr>)"

definition group_survivors :: "(string \<Rightarrow> string \<Rightarrow> bool) option \<Rightarrow> member list \<Rightarrow> survivor list" where
  "group_survivors same members =
     sort_key (\<lambda>s. (sv_first_seen s, sv_first_key s)) (map make_survivor (collapse_subs same members))"

subsection \<open>The new keys\<close>

record collapse_loss =
  cl_loser_key :: string
  cl_loser_path :: string
  cl_folder :: string
  cl_exported_at :: gotime
  cl_survivor_key :: string

definition survivor_key :: "string \<Rightarrow> nat \<Rightarrow> survivor \<Rightarrow> (string, mrec) gomap \<Rightarrow> string" where
  "survivor_key base i s kept =
     (if i = 0 then base
      else let nk = qualify base (sv_fp s)
           in if sv_fp s = [] \<or> mhas kept nk then qualify base (hash_hex (sv_first_key s) 8) else nk)"

definition commit_survivor :: "string \<Rightarrow> nat \<times> survivor
    \<Rightarrow> (string, mrec) gomap \<times> (string, string) gomap \<times> collapse_loss list
    \<Rightarrow> (string, mrec) gomap \<times> (string, string) gomap \<times> collapse_loss list" where
  "commit_survivor base = (\<lambda>(i, s) (kept, remap, losses).
     let nk = survivor_key base i s kept;
         r = (sv_rec s)\<lparr>r_also_files := r_also_files (sv_rec s) @ map (\<lambda>l. r_path (snd l)) (sv_losers s)\<rparr>
     in (mput nk r kept,
         if sv_first_key s \<noteq> nk then mput (sv_first_key s) nk remap else remap,
         losses @ map (\<lambda>l. \<lparr>cl_loser_key = fst l, cl_loser_path = r_path (snd l),
             cl_folder = r_folder (snd l), cl_exported_at = r_exported_at (snd l),
             cl_survivor_key = nk\<rparr>) (sv_losers s)))"

definition collapse_one :: "(string \<Rightarrow> string \<Rightarrow> bool) option \<Rightarrow> (string \<times> string, member list) gomap
    \<Rightarrow> string \<times> string
    \<Rightarrow> (string, mrec) gomap \<times> (string, string) gomap \<times> collapse_loss list
    \<Rightarrow> (string, mrec) gomap \<times> (string, string) gomap \<times> collapse_loss list" where
  "collapse_one same groups g st =
     fold (commit_survivor (live_key (fst g) (snd g)))
       (enumerate 0 (group_survivors same (mlist groups g))) st"

definition collapse_all :: "(string \<Rightarrow> string \<Rightarrow> bool) option \<Rightarrow> string list \<Rightarrow> (string, mrec) gomap
    \<Rightarrow> (string, mrec) gomap \<times> (string, string) gomap \<times> collapse_loss list" where
  "collapse_all same tokens es =
     (case collapse_split tokens es of (groups, kept) \<Rightarrow>
        fold (collapse_one same groups) (sort (mkeys groups)) (kept, [], []))"

definition collapse_by_identity :: "(string \<Rightarrow> string \<Rightarrow> bool) option \<Rightarrow> string list \<Rightarrow> manifest
    \<Rightarrow> (collapse_loss list \<times> (string, string) gomap) \<times> manifest" where
  "collapse_by_identity same tokens m =
     (if m_entries m = [] then (([], []), m\<lparr>m_collapsed := 0\<rparr>)
      else case collapse_all same tokens (m_entries m) of (es, remap, losses) \<Rightarrow>
        ((losses, remap), m\<lparr>m_entries := es, m_by_path := None, m_by_locator := None,
           m_by_raw_digest := None, m_by_ident := Some (build_ident es),
           m_collapsed := int (length losses)\<rparr>))"


subsection \<open>The groups hold exactly the keys in scope\<close>

lemma collapse_split_fold:
  assumes "fold (collapse_file tokens) es (g0, k0) = (groups, kept)" and "mok g0" and "mok k0"
  shows "mok groups \<and> mok kept
      \<and> (\<forall>g. mlist groups g = mlist g0 g @ filter (\<lambda>(k, r). collapse_group tokens k = Some g) es)
      \<and> (\<forall>g. mget groups g = None \<longrightarrow> filter (\<lambda>(k, r). collapse_group tokens k = Some g) es = [])
      \<and> (mok es \<longrightarrow> (\<forall>k. mget kept k = (if collapse_group tokens k = None
            then case mget es k of None \<Rightarrow> mget k0 k | Some r \<Rightarrow> Some r else mget k0 k)))"
  using assms
proof (induction es arbitrary: g0 k0)
  case (Cons x es)
  obtain k r where x: "x = (k, r)" by fastforce
  show ?case
  proof (cases "collapse_group tokens k")
    case None
    with Cons.prems have "fold (collapse_file tokens) es (g0, mput k r k0) = (groups, kept)" by (simp add: collapse_file_def x)
    note ih = Cons.IH [OF this Cons.prems(2) mok_mput [OF Cons.prems(3)]]
    have "mget es k = None" if "mok (x # es)" using that by (simp add: x map_of_eq_None_iff)
    with ih show ?thesis by (simp add: x None split: option.split del: split_paired_All)
  next
    case (Some g)
    with Cons.prems have "fold (collapse_file tokens) es (mput g (mlist g0 g @ [(k, r)]) g0, k0) = (groups, kept)"
      by (simp add: collapse_file_def x)
    note ih = Cons.IH [OF this]
    have g: "mget groups g \<noteq> None"
    proof
      assume n: "mget groups g = None"
      from ih [OF mok_mput [OF Cons.prems(2)] Cons.prems(3)] have "mlist groups g \<noteq> []"
        by (simp del: split_paired_All)
      with n show False by (simp add: mlist_def)
    qed
    have "mget es k = None" if "mok (x # es)" using that by (simp add: x map_of_eq_None_iff)
    with ih [OF mok_mput [OF Cons.prems(2)] Cons.prems(3)] g show ?thesis
      by (auto simp: x Some split: option.split simp del: split_paired_All)
  qed
qed auto

lemma collapse_split:
  assumes "mok es" and "collapse_split tokens es = (groups, kept)"
  shows "mok groups" "mok kept"
    "mlist groups g = filter (\<lambda>(k, r). collapse_group tokens k = Some g) es"
    "mget kept k = (if collapse_group tokens k = None then mget es k else None)"
    "mget es k = Some r \<Longrightarrow> collapse_group tokens k = Some g \<Longrightarrow> g \<in> set (mkeys groups)"
proof -
  have c: "mok groups" "mok kept"
    "\<And>g. mlist groups g = mlist [] g @ filter (\<lambda>(k, r). collapse_group tokens k = Some g) es"
    "\<And>g. mget groups g = None \<Longrightarrow> filter (\<lambda>(k, r). collapse_group tokens k = Some g) es = []"
    "\<And>k. mget kept k = (if collapse_group tokens k = None
            then case mget es k of None \<Rightarrow> mget [] k | Some r \<Rightarrow> Some r else mget [] k)"
    using collapse_split_fold [OF assms(2) [unfolded collapse_split_def]] assms(1) by force+
  from c(1,2) show "mok groups" "mok kept" .
  from c(3) show "mlist groups g = filter (\<lambda>(k, r). collapse_group tokens k = Some g) es" by simp
  from c(5) show "mget kept k = (if collapse_group tokens k = None then mget es k else None)"
    by (simp split: option.splits)
  assume a: "mget es k = Some r" "collapse_group tokens k = Some g"
  then have "(k, r) \<in> set (filter (\<lambda>(k, r). collapse_group tokens k = Some g) es)"
    by (auto dest: map_of_SomeD)
  with c(4) have "mget groups g \<noteq> None" by (metis empty_iff empty_set)
  then show "g \<in> set (mkeys groups)" by (simp add: map_of_eq_None_iff)
qed

lemma collapse_nonempty_fold:
  "fold (collapse_file tokens) es (g0, k0) = (groups, kept) \<Longrightarrow> (\<And>g. mget g0 g \<noteq> Some []) \<Longrightarrow>
     mget groups g \<noteq> Some []"
proof (induction es arbitrary: g0 k0)
  case (Cons x es)
  obtain k r where x: "x = (k, r)" by fastforce
  obtain g1 k1 where s: "collapse_file tokens x (g0, k0) = (g1, k1)" by fastforce
  then have "mget g1 g' \<noteq> Some []" for g'
    using Cons.prems(2) [of g']
    by (auto simp: collapse_file_def x simp del: split_paired_All split: option.splits if_splits)
  with Cons.IH [of g1 k1] Cons.prems(1) s show ?case by simp
qed simp

lemma collapse_group_nonempty:
  assumes "collapse_split tokens es = (groups, kept)" and "g \<in> set (mkeys groups)"
  shows "mlist groups g \<noteq> []"
proof -
  have "mget groups g \<noteq> Some []"
    using collapse_nonempty_fold [of tokens es "[]" "[]" groups kept g] assms(1)
    by (simp add: collapse_split_def)
  moreover have "mget groups g \<noteq> None" using assms(2) by (simp add: map_of_eq_None_iff)
  ultimately show ?thesis by (auto simp: mlist_def split: option.splits)
qed

subsection \<open>The sub-groups\<close>

definition sub_ok :: "(string \<Rightarrow> string \<Rightarrow> bool) option \<Rightarrow> string \<times> member list \<Rightarrow> bool" where
  "sub_ok same sg \<longleftrightarrow> snd sg \<noteq> [] \<and> (\<forall>mem\<in>set (snd sg). r_fingerprint (snd mem) = fst sg)
     \<and> (fst sg = [] \<longrightarrow> length (snd sg) = 1)
     \<and> (\<forall>f. same = Some f \<longrightarrow>
          (\<forall>mem\<in>set (tl (snd sg)). f (r_path (snd (hd (snd sg)))) (r_path (snd mem))))"

lemma place_member_ok:
  "\<forall>sg\<in>set subs. sub_ok same sg \<Longrightarrow> r_fingerprint (snd mem) \<noteq> [] \<Longrightarrow>
     (\<forall>sg\<in>set (place_member same mem subs). sub_ok same sg)
     \<and> mset (concat (map snd (place_member same mem subs))) = add_mset mem (mset (concat (map snd subs)))"
proof (induction same mem subs rule: place_member.induct)
  case (1 same mem)
  then show ?case by (simp add: sub_ok_def)
next
  case (2 same mem fp ms subs)
  let ?joins = "fp = r_fingerprint (snd mem) \<and>
         (case same of None \<Rightarrow> True | Some f \<Rightarrow> f (r_path (snd (hd ms))) (r_path (snd mem)))"
  from "2.prems" have ok: "sub_ok same (fp, ms)" and oks: "\<forall>sg\<in>set subs. sub_ok same sg" by simp_all
  show ?case
  proof (cases ?joins)
    case True
    from ok True "2.prems"(2) have "sub_ok same (fp, ms @ [mem])"
      by (cases ms) (auto simp: sub_ok_def)
    with True oks show ?thesis by simp
  next
    case False
    then have e: "place_member same mem ((fp, ms) # subs) = (fp, ms) # place_member same mem subs"
      by (simp only: place_member.simps if_False)
    from "2.IH" [OF False oks "2.prems"(2)] ok show ?thesis unfolding e by simp
  qed
qed

lemma collapse_place_ok:
  "\<forall>sg\<in>set subs. sub_ok same sg \<Longrightarrow>
     (\<forall>sg\<in>set (collapse_place same mem subs). sub_ok same sg)
     \<and> mset (concat (map snd (collapse_place same mem subs))) = add_mset mem (mset (concat (map snd subs)))"
  using place_member_ok [of subs same mem] by (auto simp: collapse_place_def sub_ok_def)

lemma collapse_subs_fold:
  "\<forall>sg\<in>set subs. sub_ok same sg \<Longrightarrow>
     (\<forall>sg\<in>set (fold (collapse_place same) members subs). sub_ok same sg)
     \<and> mset (concat (map snd (fold (collapse_place same) members subs)))
       = mset (concat (map snd subs)) + mset members"
proof (induction members arbitrary: subs)
  case (Cons mem members)
  from collapse_place_ok [OF Cons.prems, of mem] Cons.IH [of "collapse_place same mem subs"]
  show ?case by simp
qed simp

lemma collapse_subs_ok:
  "sg \<in> set (collapse_subs same members) \<Longrightarrow> sub_ok same sg"
  "mset (concat (map snd (collapse_subs same members))) = mset members"
  using collapse_subs_fold [of "[]" same members] by (auto simp: collapse_subs_def)


subsection \<open>The survivors\<close>

text \<open>A survivor stands for the members of its sub-group: its own record is one of them, the others are its losers.\<close>

definition stands_for :: "survivor \<Rightarrow> member list \<Rightarrow> bool" where
  "stands_for s ms \<longleftrightarrow> (\<exists>r. mset ((sv_first_key s, r) # sv_losers s) = mset ms
     \<and> r_path (sv_rec s) = r_path r \<and> r_also_files (sv_rec s) = r_also_files r
     \<and> r_fingerprint (sv_rec s) = r_fingerprint r)"

lemma make_survivor_stands_for:
  assumes "snd sg \<noteq> []"
  shows "stands_for (make_survivor sg) (snd sg) \<and> sv_fp (make_survivor sg) = fst sg"
proof -
  let ?ms = "sort_key (\<lambda>(k, r). (r_exported_at r, k)) (snd sg)"
  have "mset ?ms = mset (snd sg)" by simp
  moreover from this assms obtain e t where "?ms = e # t" by (metis mset.simps(1) mset_zero_iff neq_Nil_conv)
  ultimately show ?thesis
    by (cases e) (auto simp: stands_for_def make_survivor_def Let_def intro!: exI [of _ "snd e"])
qed

lemma group_survivors_of:
  "s \<in> set (group_survivors same members) \<Longrightarrow> \<exists>sg \<in> set (collapse_subs same members).
     stands_for s (snd sg) \<and> sv_fp s = fst sg \<and> sub_ok same sg"
proof -
  assume "s \<in> set (group_survivors same members)"
  then obtain sg where sg: "sg \<in> set (collapse_subs same members)" "s = make_survivor sg"
    by (auto simp: group_survivors_def)
  note ok = collapse_subs_ok(1) [OF sg(1)]
  then have "snd sg \<noteq> []" by (simp add: sub_ok_def)
  from make_survivor_stands_for [OF this] sg ok show ?thesis by blast
qed

lemma sub_members:
  "sg \<in> set (collapse_subs same members) \<Longrightarrow> set (snd sg) \<subseteq> set members"
  using collapse_subs_ok(2) [of same members, THEN mset_eq_setD] by auto

lemma member_sub:
  "x \<in> set members \<Longrightarrow> \<exists>sg \<in> set (collapse_subs same members). x \<in> set (snd sg)"
  using collapse_subs_ok(2) [of same members, THEN mset_eq_setD] by auto

lemma stands_for_first:
  "stands_for s ms \<Longrightarrow> \<exists>r. (sv_first_key s, r) \<in> set ms"
  unfolding stands_for_def by (metis list.set_intros(1) mset_eq_setD)

lemma survivor_member:
  assumes "s \<in> set (group_survivors same members)"
  shows "\<exists>r. (sv_first_key s, r) \<in> set members \<and> r_fingerprint r = sv_fp s"
proof -
  from group_survivors_of [OF assms] obtain sg where sg: "sg \<in> set (collapse_subs same members)"
    "stands_for s (snd sg)" "sv_fp s = fst sg" "sub_ok same sg" by blast
  from stands_for_first [OF sg(2)] obtain r where r: "(sv_first_key s, r) \<in> set (snd sg)" by blast
  with sg(3,4) have "r_fingerprint r = sv_fp s" by (auto simp: sub_ok_def)
  with r sub_members [OF sg(1)] show ?thesis by blast
qed

lemma member_survives:
  assumes "(k, r) \<in> set members"
  shows "\<exists>s \<in> set (group_survivors same members). r_path (sv_rec s) = r_path r \<or> (k, r) \<in> set (sv_losers s)"
proof -
  from member_sub [OF assms] obtain sg where sg: "sg \<in> set (collapse_subs same members)" "(k, r) \<in> set (snd sg)"
    by blast
  let ?s = "make_survivor sg"
  from sg collapse_subs_ok(1) [OF sg(1)] make_survivor_stands_for [of sg]
  have "stands_for ?s (snd sg)" by (simp add: sub_ok_def)
  then obtain r' where m: "mset ((sv_first_key ?s, r') # sv_losers ?s) = mset (snd sg)"
    and p: "r_path (sv_rec ?s) = r_path r'" by (auto simp: stands_for_def)
  from mset_eq_setD [OF m] sg(2) have "r = r' \<or> (k, r) \<in> set (sv_losers ?s)" by auto
  moreover from sg(1) have "?s \<in> set (group_survivors same members)" by (simp add: group_survivors_def)
  ultimately show ?thesis using p by blast
qed

lemma distinct_representatives:
  "distinct (map fst (concat (map snd subs))) \<Longrightarrow> (\<And>sg. sg \<in> set subs \<Longrightarrow> f sg \<in> fst ` set (snd sg)) \<Longrightarrow>
     distinct (map f subs)"
proof (induction subs)
  case (Cons sg subs)
  have "f sg \<notin> f ` set subs"
  proof
    assume "f sg \<in> f ` set subs"
    then obtain sg' where "sg' \<in> set subs" "f sg = f sg'" by blast
    with Cons.prems(2) [of sg] Cons.prems(2) [of sg']
    have "f sg \<in> fst ` set (snd sg)" "f sg \<in> fst ` set (concat (map snd subs))" by auto
    moreover from Cons.prems(1) have "fst ` set (snd sg) \<inter> fst ` set (concat (map snd subs)) = {}"
      by simp
    ultimately show False by blast
  qed
  with Cons show ?case by simp
qed simp

lemma first_keys_distinct:
  assumes "distinct (map fst members)"
  shows "distinct (map sv_first_key (group_survivors same members))"
proof -
  let ?subs = "collapse_subs same members"
  have "mset (map fst (concat (map snd ?subs))) = mset (map fst members)"
    using collapse_subs_ok(2) [of same members] by (metis mset_map)
  then have "distinct (map fst (concat (map snd ?subs)))"
    using assms by (metis mset_eq_imp_distinct_iff)
  then have "distinct (map (sv_first_key \<circ> make_survivor) ?subs)"
  proof (rule distinct_representatives)
    fix sg assume "sg \<in> set ?subs"
    then have "stands_for (make_survivor sg) (snd sg)"
      using collapse_subs_ok(1) make_survivor_stands_for unfolding sub_ok_def by blast
    from stands_for_first [OF this] show "(sv_first_key \<circ> make_survivor) sg \<in> fst ` set (snd sg)"
      by force
  qed
  then have "distinct (map sv_first_key (map make_survivor ?subs))" by simp
  moreover have "mset (map sv_first_key (group_survivors same members))
      = mset (map sv_first_key (map make_survivor ?subs))"
    by (simp add: group_survivors_def multiset.map_comp)
  ultimately show ?thesis by (metis mset_eq_imp_distinct_iff)
qed


subsection \<open>No survivor takes a key that is in use\<close>

definition in_family :: "string \<times> string \<Rightarrow> string \<Rightarrow> bool" where
  "in_family g k \<longleftrightarrow> take 2 (split_on nul k) = [fst g, snd g]"

text \<open>Some record of the manifest is, or keeps on disk as one of its copies, the file at a path.\<close>

definition keeps_path :: "(string, mrec) gomap \<Rightarrow> string \<Rightarrow> bool" where
  "keeps_path es p \<longleftrightarrow> (\<exists>k r. mget es k = Some r \<and> (p = r_path r \<or> p \<in> set (r_also_files r)))"

definition plain :: "string \<times> string \<Rightarrow> bool" where
  "plain g \<longleftrightarrow> nul \<notin> set (fst g) \<and> nul \<notin> set (snd g)"

lemma group_plain: "collapse_group tokens k = Some g \<Longrightarrow> plain g"
  using split_on_parts_notin [of _ nul k]
  by (auto simp: collapse_group_def Let_def plain_def split: if_splits)

lemma family_keys:
  assumes "plain g"
  shows "in_family g (live_key (fst g) (snd g))" "in_family g (qualify (live_key (fst g) (snd g)) x)"
  using assms by (simp_all add: in_family_def plain_def key_defs)

lemma family_unique: "in_family g k \<Longrightarrow> in_family g' k \<Longrightarrow> g = g'"
  by (auto simp: in_family_def prod_eq_iff)

lemma qualify_inj: "qualify b x = qualify b y \<longleftrightarrow> x = y" "qualify b x \<noteq> b" "b \<noteq> qualify b x"
  by (auto simp: qualify_def key_separator_def)

text \<open>The keys a group has put so far, after the survivors \<open>done\<close>.\<close>

definition family_upto :: "string \<times> string \<Rightarrow> survivor list \<Rightarrow> (string, mrec) gomap \<Rightarrow> bool" where
  "family_upto g done kept \<longleftrightarrow> (\<forall>k. mget kept k \<noteq> None \<and> in_family g k \<longrightarrow>
     (k = live_key (fst g) (snd g) \<and> done \<noteq> [])
     \<or> (\<exists>fp. length fp \<noteq> 8 \<and> k = qualify (live_key (fst g) (snd g)) fp)
     \<or> (\<exists>s\<in>set done. k = qualify (live_key (fst g) (snd g)) (hash_hex (sv_first_key s) 8)))"

lemma survivor_key_fresh:
  assumes "plain g" and "family_upto g done kept"
    and "length (sv_fp s) \<noteq> 8"
    and "\<forall>s'\<in>set done. hash_hex (sv_first_key s') 8 \<noteq> hash_hex (sv_first_key s) 8"
  defines "base \<equiv> live_key (fst g) (snd g)"
  shows "mget kept (survivor_key base (length done) s kept) = None
     \<and> family_upto g (done @ [s]) (mput (survivor_key base (length done) s kept) r kept)
     \<and> in_family g (survivor_key base (length done) s kept)"
proof -
  let ?h = "hash_hex (sv_first_key s) 8"
  let ?nk = "survivor_key base (length done) s kept"
  have fam: "in_family g base" "in_family g (qualify base x)" for x
    using family_keys [OF assms(1)] by (simp_all add: base_def)
  have cases: "?nk = base \<and> done = [] \<or> ?nk = qualify base (sv_fp s) \<and> mget kept ?nk = None
      \<or> ?nk = qualify base ?h"
    by (auto simp: survivor_key_def Let_def mhas_def)
  have nh: "mget kept (qualify base ?h) = None"
  proof (rule ccontr)
    assume "mget kept (qualify base ?h) \<noteq> None"
    with assms(2) fam(2) [of ?h] consider "qualify base ?h = base"
      | fp where "length fp \<noteq> 8" "qualify base ?h = qualify base fp"
      | s' where "s' \<in> set done" "qualify base ?h = qualify base (hash_hex (sv_first_key s') 8)"
      unfolding family_upto_def base_def by blast
    then show False using assms(4) by cases (auto simp: qualify_inj)
  qed
  have nb: "mget kept base = None" if "done = []"
  proof (rule ccontr)
    assume "mget kept base \<noteq> None"
    with assms(2) fam(1) that show False
      unfolding family_upto_def base_def by (auto simp: qualify_inj)
  qed
  from cases nh nb have "mget kept ?nk = None" by metis
  moreover have "family_upto g (done @ [s]) (mput ?nk r kept)"
    using assms(2,3) cases unfolding family_upto_def base_def [symmetric] by auto
  moreover have "in_family g ?nk" using cases fam by metis
  ultimately show ?thesis by blast
qed

lemma commit_survivor_eq:
  "fst (commit_survivor base (i, s) (kept, remap, losses)) =
     mput (survivor_key base i s kept)
       ((sv_rec s)\<lparr>r_also_files := r_also_files (sv_rec s) @ map (\<lambda>l. r_path (snd l)) (sv_losers s)\<rparr>) kept"
  by (simp add: commit_survivor_def Let_def)

lemma commit_group:
  assumes "plain g" and "family_upto g done (fst st)"
    and "\<forall>s\<in>set ss. length (sv_fp s) \<noteq> 8"
    and "distinct (map (\<lambda>s. hash_hex (sv_first_key s) 8) (done @ ss))"
    and "fold (commit_survivor (live_key (fst g) (snd g))) (enumerate (length done) ss) st = st'"
  shows "mget (fst st) \<subseteq>\<^sub>m mget (fst st')
    \<and> (\<forall>k. mget (fst st') k \<noteq> None \<longrightarrow> mget (fst st) k \<noteq> None \<or> in_family g k)
    \<and> (\<forall>s\<in>set ss. \<exists>k. mget (fst st') k = Some ((sv_rec s)\<lparr>r_also_files :=
           r_also_files (sv_rec s) @ map (\<lambda>l. r_path (snd l)) (sv_losers s)\<rparr>))"
  using assms(2-5)
proof (induction ss arbitrary: "done" st)
  case (Cons s ss)
  obtain kept remap losses where st: "st = (kept, remap, losses)" by (cases st)
  let ?b = "live_key (fst g) (snd g)"
  let ?st1 = "commit_survivor ?b (length done, s) st"
  let ?r = "(sv_rec s)\<lparr>r_also_files := r_also_files (sv_rec s) @ map (\<lambda>l. r_path (snd l)) (sv_losers s)\<rparr>"
  let ?nk = "survivor_key ?b (length done) s kept"
  have e: "fst ?st1 = mput ?nk ?r kept" by (simp add: st commit_survivor_eq)
  from Cons.prems(1) have f: "family_upto g done kept" by (simp add: st)
  from Cons.prems(3) have "hash_hex (sv_first_key s) 8 \<notin> (\<lambda>s. hash_hex (sv_first_key s) 8) ` set done"
    by auto
  then have "\<forall>s'\<in>set done. hash_hex (sv_first_key s') 8 \<noteq> hash_hex (sv_first_key s) 8"
    by (metis (no_types, lifting) image_eqI)
  from survivor_key_fresh [OF assms(1) f _ this] Cons.prems(2)
  have new: "mget kept ?nk = None" "family_upto g (done @ [s]) (fst ?st1)" "in_family g ?nk"
    unfolding e by auto
  from Cons.prems(4) have run: "fold (commit_survivor ?b) (enumerate (length (done @ [s])) ss) ?st1 = st'"
    by simp
  from Cons.prems(3) have "distinct (map (\<lambda>s. hash_hex (sv_first_key s) 8) ((done @ [s]) @ ss))" by simp
  note ih = Cons.IH [OF new(2) _ this run]
  have "mget kept \<subseteq>\<^sub>m mget (fst ?st1)" using new(1) by (auto simp: e map_le_def)
  moreover have "mget (fst ?st1) ?nk = Some ?r" by (simp add: e)
  then have "\<exists>k. mget (fst st') k = Some ?r"
    using ih Cons.prems(2) unfolding map_le_def by (metis domI list.set_intros(2))
  moreover have "mget (fst st') k \<noteq> None \<longrightarrow> mget kept k \<noteq> None \<or> in_family g k" for k
    using ih Cons.prems(2) new(3) unfolding e by (metis list.set_intros(2) mget_mput)
  ultimately show ?case using ih Cons.prems(2) by (auto simp: st intro: map_le_trans)
qed simp

lemma keeps_path_mono: "mget es \<subseteq>\<^sub>m mget es' \<Longrightarrow> keeps_path es p \<Longrightarrow> keeps_path es' p"
  unfolding keeps_path_def map_le_def by (metis domI)

subsection \<open>No message is dropped\<close>

text \<open>
  What the upgrade relies on: the new keys are free (no live record of a message that is also filed
  under a folder), the recorded fingerprints are not eight bytes long (they are sixteen), and the
  eight-digit hashes of the folder-scoped keys do not collide.
\<close>

definition collapse_ok :: "string list \<Rightarrow> (string, mrec) gomap \<Rightarrow> bool" where
  "collapse_ok tokens es \<longleftrightarrow>
     list_all (\<lambda>(k, r). length (r_fingerprint r) \<noteq> 8
       \<and> list_all (\<lambda>(k', r'). (case (collapse_group tokens k, collapse_group tokens k') of
             (Some g, None) \<Rightarrow> take 2 (split_on nul k') \<noteq> [fst g, snd g]
           | (Some g, Some g') \<Rightarrow> k = k' \<or> hash_hex k 8 \<noteq> hash_hex k' 8
           | _ \<Rightarrow> True)) es) es"

lemma collapse_okD:
  assumes "collapse_ok tokens es" and "mget es k = Some r"
  shows "length (r_fingerprint r) \<noteq> 8"
    and "collapse_group tokens k = Some g \<Longrightarrow> mget es k' = Some r' \<Longrightarrow> collapse_group tokens k' = None \<Longrightarrow>
      \<not> in_family g k'"
    and "collapse_group tokens k = Some g \<Longrightarrow> mget es k' = Some r' \<Longrightarrow> collapse_group tokens k' = Some g' \<Longrightarrow>
      k \<noteq> k' \<Longrightarrow> hash_hex k 8 \<noteq> hash_hex k' 8"
  using assms by (fastforce simp: collapse_ok_def list_all_iff in_family_def dest!: map_of_SomeD)+

text \<open>One group committed: nothing put so far is touched, and every member's file is kept.\<close>

lemma collapse_one_keeps:
  fixes same :: "(string \<Rightarrow> string \<Rightarrow> bool) option"
  assumes "plain g" and "distinct (map fst (mlist groups g))"
    and "\<forall>k. mget (fst st) k \<noteq> None \<longrightarrow> \<not> in_family g k"
    and "\<forall>(k, r)\<in>set (mlist groups g). length (r_fingerprint r) \<noteq> 8"
    and "inj_on (\<lambda>k. hash_hex k 8) (fst ` set (mlist groups g))"
  defines "st' \<equiv> collapse_one same groups g st"
  shows "mget (fst st) \<subseteq>\<^sub>m mget (fst st')
    \<and> (\<forall>k. mget (fst st') k \<noteq> None \<longrightarrow> mget (fst st) k \<noteq> None \<or> in_family g k)
    \<and> (\<forall>(k, r)\<in>set (mlist groups g). keeps_path (fst st') (r_path r))"
proof -
  let ?ss = "group_survivors same (mlist groups g)"
  have fp: "\<forall>s\<in>set ?ss. length (sv_fp s) \<noteq> 8"
    using survivor_member [of _ same "mlist groups g"] assms(4) by fastforce
  have "sv_first_key ` set ?ss \<subseteq> fst ` set (mlist groups g)"
    using survivor_member [of _ same "mlist groups g"] by force
  then have "inj_on (\<lambda>k. hash_hex k 8) (sv_first_key ` set ?ss)" using assms(5) inj_on_subset by blast
  with first_keys_distinct [OF assms(2), of same]
  have d: "distinct (map (\<lambda>s. hash_hex (sv_first_key s) 8) ([] @ ?ss))"
    by (simp add: distinct_map inj_on_def)
  have f: "family_upto g [] (fst st)" using assms(3) by (auto simp: family_upto_def)
  have r: "fold (commit_survivor (live_key (fst g) (snd g))) (enumerate (length ([] :: survivor list)) ?ss) st = st'"
    by (simp add: st'_def collapse_one_def)
  note c = commit_group [OF assms(1) f fp d r]
  have "keeps_path (fst st') (r_path x)" if m: "(k, x) \<in> set (mlist groups g)" for k x
  proof -
    from member_survives [OF m] obtain s where s: "s \<in> set ?ss"
      "r_path (sv_rec s) = r_path x \<or> (k, x) \<in> set (sv_losers s)" by blast
    with c obtain nk where "mget (fst st') nk = Some ((sv_rec s)\<lparr>r_also_files :=
           r_also_files (sv_rec s) @ map (\<lambda>l. r_path (snd l)) (sv_losers s)\<rparr>)" by blast
    with s(2) show ?thesis by (force simp: keeps_path_def)
  qed
  with c show ?thesis by blast
qed

lemma collapse_groups_keep:
  assumes "distinct gs" and "\<forall>g\<in>set gs. plain g \<and> distinct (map fst (mlist groups g))
      \<and> (\<forall>(k, r)\<in>set (mlist groups g). length (r_fingerprint r) \<noteq> 8)
      \<and> inj_on (\<lambda>k. hash_hex k 8) (fst ` set (mlist groups g))"
    and "\<forall>g\<in>set gs. \<forall>k. mget (fst st) k \<noteq> None \<longrightarrow> \<not> in_family g k"
    and "fold (collapse_one same groups) gs st = st'"
  shows "mget (fst st) \<subseteq>\<^sub>m mget (fst st')
    \<and> (\<forall>g\<in>set gs. \<forall>(k, r)\<in>set (mlist groups g). keeps_path (fst st') (r_path r))"
  using assms
proof (induction gs arbitrary: st)
  case (Cons g gs)
  let ?st1 = "collapse_one same groups g st"
  have one: "mget (fst st) \<subseteq>\<^sub>m mget (fst ?st1)"
    "\<And>k. mget (fst ?st1) k \<noteq> None \<Longrightarrow> mget (fst st) k \<noteq> None \<or> in_family g k"
    "\<And>k r. (k, r) \<in> set (mlist groups g) \<Longrightarrow> keeps_path (fst ?st1) (r_path r)"
    using collapse_one_keeps [of g groups st same] Cons.prems(2,3) by force+
  have "\<forall>g'\<in>set gs. \<forall>k. mget (fst ?st1) k \<noteq> None \<longrightarrow> \<not> in_family g' k"
    using one(2) Cons.prems(1,3) family_unique by (metis distinct.simps(2) list.set_intros(2))
  with Cons.IH [of ?st1] Cons.prems
  have two: "mget (fst ?st1) \<subseteq>\<^sub>m mget (fst st')"
    "\<forall>g\<in>set gs. \<forall>(k, r)\<in>set (mlist groups g). keeps_path (fst st') (r_path r)"
    by auto
  have "keeps_path (fst st') (r_path r)" if "(k, r) \<in> set (mlist groups g)" for k r
    using one(3) [OF that] two(1) by (rule keeps_path_mono [rotated])
  with two one(1) show ?case by (auto intro: map_le_trans)
qed simp

lemma collapse_all_keeps:
  assumes "mok es" and "collapse_ok tokens es" and "mget es k = Some r"
  shows "keeps_path (fst (collapse_all same tokens es)) (r_path r)
    \<and> (collapse_group tokens k = None \<longrightarrow> mget (fst (collapse_all same tokens es)) k = Some r)"
proof -
  obtain groups kept where split: "collapse_split tokens es = (groups, kept)" by fastforce
  note sp = collapse_split [OF assms(1) split]
  let ?gs = "sort (mkeys groups)"
  let ?st' = "fold (collapse_one same groups) ?gs (kept, [], [])"
  have e: "collapse_all same tokens es = ?st'" by (simp add: collapse_all_def split)
  have mem: "mget es k = Some r \<and> collapse_group tokens k = Some g" if "(k, r) \<in> set (mlist groups g)" for k r g
    using that assms(1) by (simp add: sp(3))
  have dist: "distinct (map fst (mlist groups g))" for g
    unfolding sp(3) using assms(1) by (rule mok_filter)
  have inj: "inj_on (\<lambda>k. hash_hex k 8) (fst ` set (mlist groups g))" for g
  proof (rule inj_onI)
    fix x y assume "x \<in> fst ` set (mlist groups g)" "y \<in> fst ` set (mlist groups g)"
      and h: "hash_hex x 8 = hash_hex y 8"
    then obtain r s where "(x, r) \<in> set (mlist groups g)" "(y, s) \<in> set (mlist groups g)" by force
    with mem collapse_okD(3) [OF assms(2)] h show "x = y" by metis
  qed
  have ne: "mlist groups g \<noteq> []" if "g \<in> set (mkeys groups)" for g
    using collapse_group_nonempty [OF split that] .
  have plain: "plain g" if "g \<in> set (mkeys groups)" for g
  proof -
    from ne [OF that] obtain k r where "(k, r) \<in> set (mlist groups g)"
      by (metis list.set_intros(1) neq_Nil_conv surj_pair)
    with mem group_plain show ?thesis by metis
  qed
  have fam: "\<not> in_family g k" if g: "g \<in> set (mkeys groups)" and "mget kept k \<noteq> None" for g k
  proof -
    from ne [OF g] obtain k' r' where "(k', r') \<in> set (mlist groups g)"
      by (metis list.set_intros(1) neq_Nil_conv surj_pair)
    then have m: "mget es k' = Some r'" "collapse_group tokens k' = Some g" using mem by auto
    from that(2) obtain r where "mget es k = Some r" "collapse_group tokens k = None"
      using sp(4) [of k] by (auto split: if_splits)
    from collapse_okD(2) [OF assms(2) m this] show ?thesis .
  qed
  have "mget kept \<subseteq>\<^sub>m mget (fst ?st')
      \<and> (\<forall>g\<in>set ?gs. \<forall>(k, r)\<in>set (mlist groups g). keeps_path (fst ?st') (r_path r))"
    using collapse_groups_keep [of ?gs groups "(kept, [], [])" same ?st'] sp(1) dist inj plain fam mem
      collapse_okD(1) [OF assms(2)] by (simp add: case_prod_unfold) (metis prod.collapse)
  then have le: "mget kept \<subseteq>\<^sub>m mget (fst ?st')"
    and grp: "\<And>g k r. g \<in> set (mkeys groups) \<Longrightarrow> (k, r) \<in> set (mlist groups g) \<Longrightarrow> keeps_path (fst ?st') (r_path r)"
    unfolding set_sort by fast+
  show ?thesis
  proof (cases "collapse_group tokens k")
    case None
    then have "mget kept k = Some r" using assms(3) sp(4) by simp
    with le have "mget (fst ?st') k = Some r" unfolding map_le_def by (metis domI)
    then show ?thesis unfolding e by (auto simp: keeps_path_def)
  next
    case (Some g)
    then have "(k, r) \<in> set (mlist groups g)" using assms(3) by (auto simp: sp(3) dest: map_of_SomeD)
    with grp [OF sp(5) [OF assms(3) Some]] Some show ?thesis unfolding e by auto
  qed
qed


subsection \<open>Only copies of one message merge\<close>

text \<open>
  Two different records the collapse may merge: one message identity, one fingerprint that is not empty,
  and, when the caller compares contents, one record of that identity and fingerprint whose file the
  comparison held for the same as the file of each of the two (it may be one of the two itself).
\<close>

definition may_merge :: "(string \<Rightarrow> string \<Rightarrow> bool) option \<Rightarrow> string list \<Rightarrow> member list \<Rightarrow> member \<Rightarrow> member \<Rightarrow> bool" where
  "may_merge same tokens members a b \<longleftrightarrow> fst a \<noteq> fst b
     \<and> collapse_group tokens (fst a) \<noteq> None \<and> collapse_group tokens (fst a) = collapse_group tokens (fst b)
     \<and> r_fingerprint (snd a) = r_fingerprint (snd b) \<and> r_fingerprint (snd a) \<noteq> []
     \<and> (\<forall>f. same = Some f \<longrightarrow> (\<exists>c \<in> set members. collapse_group tokens (fst c) = collapse_group tokens (fst a)
          \<and> r_fingerprint (snd c) = r_fingerprint (snd a)
          \<and> (c = a \<or> f (r_path (snd c)) (r_path (snd a))) \<and> (c = b \<or> f (r_path (snd c)) (r_path (snd b)))))"

lemma may_merge_mono:
  assumes "set ms \<subseteq> set ms'" and "may_merge same tokens ms a b"
  shows "may_merge same tokens ms' a b"
  unfolding may_merge_def
proof (intro conjI allI impI)
  fix f assume "same = Some f"
  then obtain c where "c \<in> set ms" "collapse_group tokens (fst c) = collapse_group tokens (fst a)"
    "r_fingerprint (snd c) = r_fingerprint (snd a)" "c = a \<or> f (r_path (snd c)) (r_path (snd a))"
    "c = b \<or> f (r_path (snd c)) (r_path (snd b))"
    using assms(2) unfolding may_merge_def by blast
  with assms(1) show "\<exists>c\<in>set ms'. collapse_group tokens (fst c) = collapse_group tokens (fst a)
      \<and> r_fingerprint (snd c) = r_fingerprint (snd a)
      \<and> (c = a \<or> f (r_path (snd c)) (r_path (snd a))) \<and> (c = b \<or> f (r_path (snd c)) (r_path (snd b)))"
    by blast
qed (insert assms(2), unfold may_merge_def, blast+)

lemma sub_keys_distinct:
  assumes "distinct (map fst members)" and "sg \<in> set (collapse_subs same members)"
  shows "distinct (map fst (snd sg))"
proof -
  have "mset (map fst (concat (map snd (collapse_subs same members)))) = mset (map fst members)"
    using collapse_subs_ok(2) [of same members] by (metis mset_map)
  then have "distinct (map fst (concat (map snd (collapse_subs same members))))"
    using assms(1) by (metis mset_eq_imp_distinct_iff)
  then show ?thesis using assms(2) by (auto dest!: split_list)
qed

lemma loser_may_merge:
  assumes "s \<in> set (group_survivors same members)" and "l \<in> set (sv_losers s)"
    and "\<And>k r. (k, r) \<in> set members \<Longrightarrow> collapse_group tokens k = Some g"
    and "distinct (map fst members)"
  shows "\<exists>a\<in>set members. fst a = sv_first_key s \<and> l \<in> set members \<and> may_merge same tokens members a l"
proof -
  from group_survivors_of [OF assms(1)] obtain sg where sg: "sg \<in> set (collapse_subs same members)"
    "stands_for s (snd sg)" "sub_ok same sg" by blast
  then obtain r where m: "mset ((sv_first_key s, r) # sv_losers s) = mset (snd sg)"
    by (auto simp: stands_for_def)
  let ?a = "(sv_first_key s, r)"
  from mset_eq_setD [OF m] assms(2) have in_sg: "?a \<in> set (snd sg)" "l \<in> set (snd sg)" by auto
  with sub_members [OF sg(1)] have in_m: "?a \<in> set members" "l \<in> set members" by auto
  have "mset (map fst (?a # sv_losers s)) = mset (map fst (snd sg))" using m by (metis mset_map)
  then have "distinct (map fst (?a # sv_losers s))"
    using sub_keys_distinct [OF assms(4) sg(1)] by (metis mset_eq_imp_distinct_iff)
  then have other: "fst ?a \<noteq> fst l" using assms(2) by auto
  from assms(2) have "2 \<le> length (snd sg)"
    using mset_eq_length [OF m] by (cases "sv_losers s") auto
  with sg(3) have fp: "fst sg \<noteq> []" by (auto simp: sub_ok_def)
  let ?c = "hd (snd sg)"
  have pivot: "?c = x \<or> f (r_path (snd ?c)) (r_path (snd x))"
    if "x \<in> set (snd sg)" "same = Some f" for x f
    using that sg(3) by (cases "snd sg") (auto simp: sub_ok_def)
  have c: "?c \<in> set (snd sg)" using in_sg(1) by (cases "snd sg") auto
  then have "?c \<in> set members" using sub_members [OF sg(1)] by blast
  then have "collapse_group tokens (fst ?a) = Some g" "collapse_group tokens (fst l) = Some g"
    "collapse_group tokens (fst ?c) = Some g"
    using assms(3) in_m by (metis prod.collapse)+
  moreover have "r_fingerprint (snd ?a) = fst sg" "r_fingerprint (snd l) = fst sg" "r_fingerprint (snd ?c) = fst sg"
    using sg(3) in_sg c unfolding sub_ok_def by blast+
  ultimately have "may_merge same tokens members ?a l"
    using fp other pivot [OF in_sg(1)] pivot [OF in_sg(2)] \<open>?c \<in> set members\<close>
    unfolding may_merge_def by (metis option.distinct(1))
  with in_m show ?thesis by force
qed

definition loss_of :: "collapse_loss \<Rightarrow> survivor list \<Rightarrow> bool" where
  "loss_of l ss \<longleftrightarrow> (\<exists>s\<in>set ss. \<exists>x\<in>set (sv_losers s). cl_loser_key l = fst x \<and> cl_loser_path l = r_path (snd x))"

lemma commit_loss:
  "l \<in> set (snd (snd (commit_survivor base (i, s) st))) \<Longrightarrow> l \<in> set (snd (snd st)) \<or> loss_of l [s]"
  by (cases st) (force simp: commit_survivor_def Let_def loss_of_def)

lemma commit_losses:
  "l \<in> set (snd (snd (fold (commit_survivor base) (enumerate i ss) st))) \<Longrightarrow>
     l \<in> set (snd (snd st)) \<or> loss_of l ss"
proof (induction ss arbitrary: i st)
  case (Cons s ss)
  from Cons.IH [of "Suc i" "commit_survivor base (i, s) st"] Cons.prems commit_loss [of l base i s st]
  show ?case by (auto simp: loss_of_def)
qed simp

lemma collapse_losses:
  "l \<in> set (snd (snd (fold (collapse_one same groups) gs st))) \<Longrightarrow>
     l \<in> set (snd (snd st)) \<or> (\<exists>g\<in>set gs. loss_of l (group_survivors same (mlist groups g)))"
proof (induction gs arbitrary: st)
  case (Cons g gs)
  have "l \<in> set (snd (snd st)) \<or> loss_of l (group_survivors same (mlist groups g))"
    if "l \<in> set (snd (snd (collapse_one same groups g st)))"
    using that commit_losses unfolding collapse_one_def by blast
  with Cons.IH [of "collapse_one same groups g st"] Cons.prems show ?case by auto
qed simp

lemma collapse_merges_copies:
  assumes "mok es" and "l \<in> set (snd (snd (collapse_all same tokens es)))"
  shows "\<exists>k r k' r'. mget es k = Some r \<and> mget es k' = Some r' \<and> k' = cl_loser_key l
     \<and> r_path r' = cl_loser_path l \<and> may_merge same tokens es (k, r) (k', r')"
proof -
  obtain groups kept where split: "collapse_split tokens es = (groups, kept)" by fastforce
  note sp = collapse_split [OF assms(1) split]
  from assms(2) obtain g s x where x: "s \<in> set (group_survivors same (mlist groups g))"
    "x \<in> set (sv_losers s)" "cl_loser_key l = fst x" "cl_loser_path l = r_path (snd x)"
    using collapse_losses [of l same groups "sort (mkeys groups)" "(kept, [], [])"]
    by (auto simp: collapse_all_def split loss_of_def)
  have mem: "mget es k = Some r \<and> collapse_group tokens k = Some g" if "(k, r) \<in> set (mlist groups g)" for k r
    using that assms(1) by (simp add: sp(3))
  have dist: "distinct (map fst (mlist groups g))"
    unfolding sp(3) using assms(1) by (rule mok_filter)
  have sub: "set (mlist groups g) \<subseteq> set es" unfolding sp(3) by auto
  from loser_may_merge [OF x(1,2), of tokens g] mem dist obtain a where
    a: "a \<in> set (mlist groups g)" "x \<in> set (mlist groups g)" "may_merge same tokens (mlist groups g) a x" by blast
  have "may_merge same tokens es a x" by (rule may_merge_mono [OF sub a(3)])
  note a = a(1,2) this
  show ?thesis
  proof (intro exI conjI)
    show "mget es (fst a) = Some (snd a)" "mget es (fst x) = Some (snd x)"
      using mem a by (metis prod.collapse)+
    show "may_merge same tokens es (fst a, snd a) (fst x, snd x)" using a(3) by simp
  qed (use x in simp_all)
qed

subsection \<open>A second collapse finds nothing\<close>

lemma hash_not_identity: "\<not> is_identity (hash_hex k 8)"
proof -
  have "hash_hex k 8 \<noteq> []" using length_hash_hex [of k 8] by (metis list.size(3) min_def numeral_eq_iff zero_neq_numeral)
  then have "hd (hash_hex k 8) \<in> hex_alphabet" using hash_hex_alphabet by (metis hd_in_set subset_iff)
  then show ?thesis
    by (cases "hash_hex k 8") (auto simp: is_identity_def has_prefix_def hex_alphabet_def)
qed

lemma live_key_no_group: "plain g \<Longrightarrow> collapse_group tokens (live_key (fst g) (snd g)) = None"
  by (simp add: collapse_group_def plain_def key_defs)

lemma qualified_no_group:
  assumes "plain g" and "\<not> is_identity x"
  shows "collapse_group tokens (qualify (live_key (fst g) (snd g)) x) = None"
proof -
  have "\<not> is_identity (hd (split_on nul x))"
    using assms(2) takeWhile_is_prefix [of "\<lambda>c. c \<noteq> nul" x]
    unfolding split_on_hd is_identity_def has_prefix_def upto_byte_def
    by (meson prefix_order.trans)
  moreover have "split_on nul (qualify (live_key (fst g) (snd g)) x) = fst g # snd g # split_on nul x"
    using assms(1) by (simp add: plain_def key_defs)
  ultimately show ?thesis
    by (cases "split_on nul x") (simp_all add: collapse_group_def)
qed

lemma survivor_key_no_group:
  assumes "plain g" and "\<not> is_identity (sv_fp s)"
  shows "collapse_group tokens (survivor_key (live_key (fst g) (snd g)) i s kept) = None"
  using assms hash_not_identity
  by (simp add: survivor_key_def Let_def live_key_no_group qualified_no_group)

lemma commit_no_group:
  assumes "plain g" and "\<forall>s\<in>set ss. \<not> is_identity (sv_fp s)"
    and "mok (fst st) \<and> (\<forall>k. mget (fst st) k \<noteq> None \<longrightarrow> collapse_group tokens k = None)"
  defines "st' \<equiv> \<lambda>i. fold (commit_survivor (live_key (fst g) (snd g))) (enumerate i ss) st"
  shows "mok (fst (st' i)) \<and> (\<forall>k. mget (fst (st' i)) k \<noteq> None \<longrightarrow> collapse_group tokens k = None)"
  using assms(2,3) unfolding st'_def
proof (induction ss arbitrary: i st)
  case (Cons s ss)
  obtain kept remap losses where st: "st = (kept, remap, losses)" by (cases st)
  have e: "fst (commit_survivor (live_key (fst g) (snd g)) (i, s) st)
      = mput (survivor_key (live_key (fst g) (snd g)) i s kept) ((sv_rec s)\<lparr>r_also_files :=
           r_also_files (sv_rec s) @ map (\<lambda>l. r_path (snd l)) (sv_losers s)\<rparr>) kept"
    by (simp add: st commit_survivor_eq)
  have "mok (fst (commit_survivor (live_key (fst g) (snd g)) (i, s) st))
      \<and> (\<forall>k. mget (fst (commit_survivor (live_key (fst g) (snd g)) (i, s) st)) k \<noteq> None
            \<longrightarrow> collapse_group tokens k = None)"
    unfolding e using Cons.prems survivor_key_no_group [OF assms(1)] by (simp add: st)
  with Cons.IH [of "commit_survivor (live_key (fst g) (snd g)) (i, s) st" "Suc i"] Cons.prems(1)
  show ?case by simp
qed simp

lemma collapse_all_no_group:
  assumes "mok es" and "\<forall>(k, r)\<in>set es. \<not> is_identity (r_fingerprint r)"
  shows "mok (fst (collapse_all same tokens es)) \<and>
     (\<forall>k. mget (fst (collapse_all same tokens es)) k \<noteq> None \<longrightarrow> collapse_group tokens k = None)"
proof -
  obtain groups kept where split: "collapse_split tokens es = (groups, kept)" by fastforce
  note sp = collapse_split [OF assms(1) split]
  have mem: "(k, r) \<in> set es \<and> collapse_group tokens k = Some g" if "(k, r) \<in> set (mlist groups g)" for k r g
    using that by (simp add: sp(3))
  have fold: "mok (fst (fold (collapse_one same groups) gs st)) \<and>
      (\<forall>k. mget (fst (fold (collapse_one same groups) gs st)) k \<noteq> None \<longrightarrow> collapse_group tokens k = None)"
    if "set gs \<subseteq> set (mkeys groups)"
      and "mok (fst st) \<and> (\<forall>k. mget (fst st) k \<noteq> None \<longrightarrow> collapse_group tokens k = None)" for gs st
    using that
  proof (induction gs arbitrary: st)
    case (Cons g gs)
    from collapse_group_nonempty [OF split] Cons.prems(1) obtain k r where "(k, r) \<in> set (mlist groups g)"
      by (metis insert_subset list.set_intros(1) list.simps(15) neq_Nil_conv surj_pair)
    with mem group_plain have p: "plain g" by metis
    have "\<forall>s\<in>set (group_survivors same (mlist groups g)). \<not> is_identity (sv_fp s)"
      using survivor_member [of _ same "mlist groups g"] mem assms(2) by fastforce
    from commit_no_group [OF p this Cons.prems(2)] Cons.IH [of "collapse_one same groups g st"] Cons.prems(1)
    show ?case by (simp add: collapse_one_def)
  qed simp
  have "mok kept \<and> (\<forall>k. mget kept k \<noteq> None \<longrightarrow> collapse_group tokens k = None)"
    using sp(2,4) by auto
  with fold [of "sort (mkeys groups)" "(kept, [], [])"] show ?thesis
    by (simp add: collapse_all_def split)
qed

lemma collapse_split_none:
  assumes "mok es" and "\<forall>k. mget es k \<noteq> None \<longrightarrow> collapse_group tokens k = None"
  shows "collapse_split tokens es = ([], es)"
proof -
  have "fold (collapse_file tokens) es' ([], kept) = ([], kept @ es')"
    if "mok (kept @ es')" "\<forall>k\<in>fst ` set es'. collapse_group tokens k = None" for es' kept
    using that
  proof (induction es' arbitrary: kept)
    case (Cons x es')
    then have "fst x \<notin> fst ` set kept" by auto
    then have "mput (fst x) (snd x) kept = kept @ [x]" by (simp add: mput_absent)
    with Cons show ?case by (simp add: collapse_file_def case_prod_unfold)
  qed simp
  from this [of "[]" es] assms show ?thesis
    by (force simp: collapse_split_def map_of_eq_None_iff)
qed


lemma collapse_entries:
  "m_entries (snd (collapse_by_identity same tokens m)) = fst (collapse_all same tokens (m_entries m))"
  by (auto simp: collapse_by_identity_def collapse_all_def collapse_split_def split: prod.splits)

lemma collapse_result:
  "fst (fst (collapse_by_identity same tokens m)) = snd (snd (collapse_all same tokens (m_entries m)))"
  by (auto simp: collapse_by_identity_def collapse_all_def collapse_split_def split: prod.splits)

subsection \<open>A run of it\<close>

definition mail_in :: "string \<Rightarrow> string \<Rightarrow> gotime \<Rightarrow> mrec" where
  "mail_in folder path t = zero_rec\<lparr>r_path := path, r_folder := folder, r_exported_at := t,
     r_fingerprint := ''f0''\<rparr>"

definition two_copies :: manifest where
  "two_copies = (new_manifest [])\<lparr>m_entries :=
     [(folder_key ''m'' ''I'' ''mid:a'', mail_in ''I'' ''a'' 1),
      (folder_key ''m'' ''S'' ''mid:a'', mail_in ''S'' ''b'' 2)]\<rparr>"

definition one_of_each :: manifest where
  "one_of_each = (new_manifest [])\<lparr>m_entries :=
     [(folder_key ''m'' ''I'' ''mid:a'', mail_in ''I'' ''a'' 1),
      (live_key ''m'' ''mid:b'', mail_in ''S'' ''b'' 2)]\<rparr>"

lemma sample_groups [simp]:
  "collapse_group [] (folder_key ''m'' ''I'' ''mid:a'') = Some (''m'', ''mid:a'')"
  "collapse_group [] (folder_key ''m'' ''S'' ''mid:a'') = Some (''m'', ''mid:a'')"
  "collapse_group [] (live_key ''m'' ''mid:a'') = None"
  "collapse_group [] (live_key ''m'' ''mid:b'') = None"
  by (simp_all add: collapse_group_def key_defs is_identity_def has_prefix_def)

lemma sample_keys [simp]:
  "folder_key ''m'' ''I'' ''mid:a'' \<noteq> folder_key ''m'' ''S'' ''mid:a''"
  "folder_key ''m'' ''I'' ''mid:a'' \<noteq> live_key ''m'' ''mid:a''"
  "folder_key ''m'' ''I'' ''mid:a'' \<noteq> live_key ''m'' ''mid:b''"
  by (simp_all add: key_defs)

lemmas collapse_eval = collapse_all_def collapse_split_def collapse_file_def new_manifest_def
  collapse_one_def group_survivors_def collapse_subs_def collapse_place_def mail_in_def zero_rec_def
  make_survivor_def commit_survivor_def survivor_key_def latest_member_def mlist_def
  two_copies_def one_of_each_def

text \<open>
  C9: where the keys the one-time identity collapse gives out are free and do not collide
  (\<open>collapse_ok\<close>: no record stands already under the live key of a message that is also filed under a
  folder, no recorded fingerprint is eight bytes long, no two folder-scoped keys share the eight digits of
  their hash), the collapse drops no message: every record's file is afterwards the page of some record or
  one of the copies a record keeps on disk, the records out of its scope stand as they were, and the
  rebuilt identity index lists exactly the records there are (R1, R3, R13).
\<close>

theorem collapse_drops_no_message:
  fixes same :: "(string \<Rightarrow> string \<Rightarrow> bool) option" and tokens :: "string list"
  assumes "mok (m_entries m)" and "collapse_ok tokens (m_entries m)"
    and "\<forall>(k, r)\<in>set (m_entries m). \<not> is_identity (r_fingerprint r)"
  defines "m' \<equiv> snd (collapse_by_identity same tokens m)"
  shows "(\<forall>k r. mget (m_entries m) k = Some r \<longrightarrow> keeps_path (m_entries m') (r_path r)
           \<and> (collapse_group tokens k = None \<longrightarrow> mget (m_entries m') k = Some r))
     \<and> (m_entries m \<noteq> [] \<longrightarrow> byident.covers (mget (m_entries m')) (ident_index m'))"
proof
  show "\<forall>k r. mget (m_entries m) k = Some r \<longrightarrow> keeps_path (m_entries m') (r_path r)
           \<and> (collapse_group tokens k = None \<longrightarrow> mget (m_entries m') k = Some r)"
    unfolding m'_def collapse_entries using collapse_all_keeps [OF assms(1,2)] by blast
  have "mok (m_entries m')"
    unfolding m'_def collapse_entries using collapse_all_no_group [OF assms(1,3)] by blast
  then have c: "byident.covers (mget (m_entries m')) (build_ident (m_entries m'))"
    by (rule build_ident_covers)
  show "m_entries m \<noteq> [] \<longrightarrow> byident.covers (mget (m_entries m')) (ident_index m')"
  proof
    assume "m_entries m \<noteq> []"
    then have "m_by_ident m' = Some (build_ident (m_entries m'))"
      by (simp add: m'_def collapse_by_identity_def split: prod.split)
    with c show "byident.covers (mget (m_entries m')) (ident_index m')"
      by (simp add: ident_index_def)
  qed
qed

text \<open>
  C13: what the collapse merges: each record it reports lost had a partner, another record of the same
  mailbox and message identity with the same, non-empty fingerprint.  When the caller compares contents,
  some record of that identity and fingerprint (one of the two, or a third) had a file the comparison held
  for the same as the file of each of the two: two distinct messages that reuse one Message-ID are never
  merged on the fingerprint alone (R1).
\<close>

theorem collapse_merges_only_copies:
  assumes "mok (m_entries m)"
    and "l \<in> set (fst (fst (collapse_by_identity same tokens m)))"
  shows "\<exists>k r r'. mget (m_entries m) k = Some r \<and> mget (m_entries m) (cl_loser_key l) = Some r'
     \<and> r_path r' = cl_loser_path l \<and> may_merge same tokens (m_entries m) (k, r) (cl_loser_key l, r')"
  using collapse_merges_copies [OF assms(1) assms(2) [unfolded collapse_result]] by metis

text \<open>
  C14: the collapse is idempotent: run again over the same mailboxes it reports no loss and no new
  key and leaves every record as it is, so a run cut off after it can repeat it (EC4).
\<close>

theorem collapse_is_idempotent:
  fixes same :: "(string \<Rightarrow> string \<Rightarrow> bool) option" and tokens :: "string list"
  assumes "mok (m_entries m)"
    and "\<forall>(k, r)\<in>set (m_entries m). \<not> is_identity (r_fingerprint r)"
  defines "m' \<equiv> snd (collapse_by_identity same tokens m)"
  shows "fst (collapse_by_identity same' tokens m') = ([], [])
     \<and> m_entries (snd (collapse_by_identity same' tokens m')) = m_entries m'"
proof -
  have "collapse_split tokens (m_entries m') = ([], m_entries m')"
    unfolding m'_def collapse_entries
    using collapse_all_no_group [OF assms(1,2)] by (intro collapse_split_none) blast+
  then have "collapse_all same' tokens (m_entries m') = (m_entries m', [], [])"
    by (simp add: collapse_all_def)
  then show ?thesis by (simp add: collapse_by_identity_def)
qed

theorem collapse_drops_no_message_witness:
  "keeps_path (m_entries (snd (collapse_by_identity None [] one_of_each))) ''a''"
proof -
  let ?m = one_of_each
  have ok: "mok (m_entries ?m)" by (simp add: one_of_each_def)
  have c: "collapse_ok [] (m_entries ?m)"
    by (simp add: collapse_ok_def one_of_each_def mail_in_def) 
  have f: "\<forall>(k, r)\<in>set (m_entries ?m). \<not> is_identity (r_fingerprint r)"
    by (simp add: one_of_each_def mail_in_def is_identity_def has_prefix_def)
  have "mget (m_entries ?m) (folder_key ''m'' ''I'' ''mid:a'') = Some (mail_in ''I'' ''a'' 1)"
    by (simp add: one_of_each_def)
  with collapse_drops_no_message [OF ok c f, of None]
  have "keeps_path (m_entries (snd (collapse_by_identity None [] ?m))) (r_path (mail_in ''I'' ''a'' 1))"
    by blast
  then show ?thesis by (simp add: mail_in_def)
qed

theorem collapse_merges_only_copies_witness:
  "\<exists>k r r'. mget (m_entries two_copies) k = Some r
     \<and> mget (m_entries two_copies) (folder_key ''m'' ''S'' ''mid:a'') = Some r' \<and> r_path r' = ''b''
     \<and> may_merge (Some (\<lambda>_ _. True)) [] (m_entries two_copies) (k, r) (folder_key ''m'' ''S'' ''mid:a'', r')"
proof -
  let ?l = "\<lparr>cl_loser_key = folder_key ''m'' ''S'' ''mid:a'', cl_loser_path = ''b'', cl_folder = ''S'',
     cl_exported_at = 2, cl_survivor_key = live_key ''m'' ''mid:a''\<rparr>"
  have "mok (m_entries two_copies)" by (simp add: two_copies_def)
  moreover have "?l \<in> set (fst (fst (collapse_by_identity (Some (\<lambda>_ _. True)) [] two_copies)))"
    unfolding collapse_result by (simp add: collapse_eval Let_def)
  ultimately show ?thesis
    using collapse_merges_only_copies [of two_copies ?l "Some (\<lambda>_ _. True)" "[]"] by simp
qed

theorem collapse_is_idempotent_witness:
  "fst (collapse_by_identity None [] (snd (collapse_by_identity None [] two_copies))) = ([], [])"
proof -
  have "mok (m_entries two_copies)" by (simp add: two_copies_def)
  moreover have "\<forall>(k, r)\<in>set (m_entries two_copies). \<not> is_identity (r_fingerprint r)"
    by (simp add: two_copies_def mail_in_def is_identity_def has_prefix_def)
  ultimately show ?thesis using collapse_is_idempotent [of two_copies None "[]" None] by blast
qed

end
