(* ===== verification/BoundText.thy ===== *)
theory BoundText
  imports GoText Interfaces Hash
begin

text \<open>
  The bounds on text read from an archive (\<^verbatim>\<open>boundString\<close>, \<^verbatim>\<open>boundRunes\<close> and
  \<^verbatim>\<open>BoundLocator\<close> of \<^verbatim>\<open>internal/state/gaps.go\<close>), with
  \<^verbatim>\<open>utf8.DecodeLastRuneInString\<close>: cutting at a byte bound never leaves half a rune.
\<close>

definition rune_start :: "char \<Rightarrow> bool" where
  "rune_start c \<longleftrightarrow> \<not> in_range 0x80 0xBF (byte c)"

text \<open>Where the last rune may start: the nearest rune-start byte among the three before the last.\<close>

definition last_start :: "string \<Rightarrow> nat" where
  "last_start s = (let e = length s; lim = e - 4
     in case find (\<lambda>i. rune_start (s ! i)) (rev [lim..<e - 1]) of Some i \<Rightarrow> i | None \<Rightarrow> lim - 1)"

definition decode_last_rune :: "string \<Rightarrow> nat \<times> nat" where
  "decode_last_rune s =
     (if s = [] then (rune_error, 0)
      else if byte (last s) < 0x80 then (byte (last s), 1)
      else let start = last_start s; (r, n) = decode_rune (drop start s)
           in if start + n \<noteq> length s then (rune_error, 1) else (r, n))"

function cut_tail :: "string \<Rightarrow> string" where
  "cut_tail s = (if s = [] then [] else
     let (r, n) = decode_last_rune s
     in if r = rune_error \<and> n \<le> 1 then cut_tail (butlast s) else s)"
  by pat_completeness auto
termination
  by (relation "measure length") auto

declare cut_tail.simps [simp del]

definition bound_string :: "string \<Rightarrow> nat \<Rightarrow> string" where
  "bound_string s mx = (let s = strip_bidi (strip_control s)
     in if length s \<le> mx then s else cut_tail (take mx s))"

definition bound_runes :: "string \<Rightarrow> nat \<Rightarrow> string" where
  "bound_runes s mx = (let s = strip_bidi (strip_control s)
     in if length (runes s) \<le> mx then s else encode_runes (take mx (runes s)))"

definition max_gap_locator :: nat where "max_gap_locator = 512"

definition bound_locator :: "string \<Rightarrow> string" where
  "bound_locator raw =
     (if bound_string raw max_gap_locator = raw then raw
      else let suffix = ''#'' @ hex_encode (take 8 (sha256 raw))
           in bound_string raw (max_gap_locator - length suffix) @ suffix)"

subsection \<open>The shape of an encoded rune\<close>

definition lead_len :: "nat \<Rightarrow> nat" where
  "lead_len b = (if b < 0xC0 then 1 else if b < 0xE0 then 2 else if b < 0xF0 then 3 else 4)"

definition shaped :: "string \<Rightarrow> bool" where
  "shaped s \<longleftrightarrow> s \<noteq> [] \<and> rune_start (hd s) \<and> length s = lead_len (byte (hd s)) \<and> (\<forall>c\<in>set (tl s). \<not> rune_start c)"

lemma rune_start_char [simp]: "n < 256 \<Longrightarrow> rune_start (char_of n) \<longleftrightarrow> \<not> in_range 0x80 0xBF n"
  by (simp add: rune_start_def)

lemma encode_shaped:
  assumes "scalar r"
  shows "shaped (encode_rune r)"
proof -
  have m: "r mod 64 < 64" "r div 64 mod 64 < 64" "r div 4096 mod 64 < 64" by simp_all
  have d: "r < 0x800 \<Longrightarrow> r div 64 < 32" "r < 0x10000 \<Longrightarrow> r div 4096 < 16" "r div 262144 < 5"
    using assms by (simp_all add: scalar_def div_less_iff_less_mult)
  have c: "0x80 + n mod 64 < 256" for n :: nat
    using mod_less_divisor [of 64 n] by linarith
  consider "r < 0x80" | "0x80 \<le> r" "r < 0x800" | "0x800 \<le> r" "r < 0x10000" | "0x10000 \<le> r" by linarith
  then show ?thesis
  proof cases
    case 1
    then show ?thesis by (simp add: shaped_def encode_rune_def encode_nats_def lead_len_def in_range_def)
  next
    case 2
    with d(1) have "0xC0 + r div 64 < 256" "\<not> in_range 0x80 0xBF (0xC0 + r div 64)" "0xC0 + r div 64 < 0xE0"
      by (simp_all add: in_range_def)
    with 2 c show ?thesis by (simp add: shaped_def encode_rune_def encode_nats_def lead_len_def)
  next
    case 3
    with d(2) have "0xE0 + r div 4096 < 256" "\<not> in_range 0x80 0xBF (0xE0 + r div 4096)" "0xE0 + r div 4096 < 0xF0"
      by (simp_all add: in_range_def)
    with 3 c assms show ?thesis by (simp add: shaped_def encode_rune_def encode_nats_def lead_len_def)
  next
    case 4
    with d(3) have "0xF0 + r div 262144 < 256" "\<not> in_range 0x80 0xBF (0xF0 + r div 262144)"
      by (simp_all add: in_range_def)
    with 4 c assms show ?thesis by (simp add: shaped_def encode_rune_def encode_nats_def lead_len_def)
  qed
qed

lemma decode_shape:
  assumes "decode_rune t = (r, n)" and "2 \<le> n"
  shows "n \<le> length t \<and> n = lead_len (byte (hd t)) \<and> (\<forall>c\<in>set (tl (take n t)). \<not> rune_start c)"
proof -
  obtain a u where t: "t = a # u" using assms by (cases t) (auto simp: decode_rune_def)
  from assms have m: "\<not> byte a < 0x80"
    "in_range 0xC2 0xDF (byte a) \<and> decode2 (byte a) (map byte u) = (r, n)
     \<or> in_range 0xE0 0xEF (byte a) \<and> decode3 (byte a) (map byte u) = (r, n)
     \<or> in_range 0xF0 0xF4 (byte a) \<and> decode4 (byte a) (map byte u) = (r, n)"
    by (auto simp: t decode_rune_def split: if_splits)
  from m(2) show ?thesis
  proof (elim disjE conjE)
    assume "in_range 0xC2 0xDF (byte a)" "decode2 (byte a) (map byte u) = (r, n)"
    with assms(2) show ?thesis
      by (cases u) (auto simp: t decode2_def lead_len_def in_range_def rune_start_def split: if_splits)
  next
    assume "in_range 0xE0 0xEF (byte a)" "decode3 (byte a) (map byte u) = (r, n)"
    with assms(2) second_cont show ?thesis
      by (auto simp: t decode3_def lead_len_def in_range_def rune_start_def map_eq_Cons_conv
          split: if_splits list.splits)
  next
    assume "in_range 0xF0 0xF4 (byte a)" "decode4 (byte a) (map byte u) = (r, n)"
    with assms(2) second_cont show ?thesis
      by (auto simp: t decode4_def lead_len_def in_range_def rune_start_def map_eq_Cons_conv
          split: if_splits list.splits)
  qed
qed

lemma decode_single: "decode_rune [c] = (r, n) \<Longrightarrow> \<not> byte c < 0x80 \<Longrightarrow> r = rune_error \<and> n = 1"
  by (auto simp: decode_rune_def decode2_def decode3_def decode4_def split: if_splits)


subsection \<open>The last rune of a text cut anywhere\<close>

lemma find_rev_upt:
  "a \<le> i \<Longrightarrow> i < b \<Longrightarrow> P i \<Longrightarrow> (\<And>j. i < j \<Longrightarrow> j < b \<Longrightarrow> \<not> P j) \<Longrightarrow> find P (rev [a..<b]) = Some i"
proof (induction b)
  case (Suc b)
  then show ?case by (cases "i = b") auto
qed simp

text \<open>A text that ends in part of a rune: the last rune reads as an invalid byte.\<close>

lemma decode_last_partial:
  assumes "s \<noteq> []" and "0x80 \<le> byte (last s)"
    and "\<And>k. 2 \<le> length s - k \<Longrightarrow> k < length s \<Longrightarrow>
      \<not> (length s - k = lead_len (byte (s ! k)) \<and> (\<forall>c\<in>set (drop (Suc k) s). \<not> rune_start c))"
  shows "decode_last_rune s = (rune_error, 1)"
proof -
  let ?k = "last_start s"
  obtain r n where d: "decode_rune (drop ?k s) = (r, n)" by fastforce
  have "(r, n) = (rune_error, 1)" if e: "?k + n = length s"
  proof (cases "2 \<le> n")
    case True
    have k: "?k < length s" using e True by linarith
    from decode_shape [OF d True] e k assms(3) [of ?k] show ?thesis
      by (simp add: hd_drop_conv_nth tl_take flip: drop_Suc) (metis True add_diff_cancel_left' drop_Suc tl_drop)
  next
    case False
    have "n \<noteq> 0"
    proof
      assume "n = 0"
      with d have "drop ?k s = []" using decode_width_pos [of "drop ?k s"] by (metis less_irrefl snd_conv)
      have "?k \<le> length s - 1"
        by (auto simp: last_start_def Let_def split: option.split dest: find_Some_in)
      moreover have "0 < length s" using assms(1) by simp
      moreover have "length s \<le> ?k" using \<open>drop ?k s = []\<close> by simp
      ultimately show False by linarith
    qed
    with False have n: "n = 1" by simp
    with e have "drop ?k s = [last s]"
      by (metis Suc_eq_plus1 append_butlast_last_id append_eq_conv_conj assms(1) length_append_singleton nat.inject)
    with decode_single [of "last s" r n] d assms(2) show ?thesis by simp
  qed
  with d assms(1,2) show ?thesis by (auto simp: decode_last_rune_def Let_def split: prod.splits)
qed

lemma decode_last_whole:
  assumes "scalar r"
  shows "decode_last_rune (u @ encode_rune r) = (r, length (encode_rune r))"
proof -
  let ?e = "encode_rune r" and ?s = "u @ encode_rune r"
  from encode_shaped [OF assms] have sh: "rune_start (hd ?e)" "length ?e = lead_len (byte (hd ?e))"
    "\<And>c. c \<in> set (tl ?e) \<Longrightarrow> \<not> rune_start c" by (auto simp: shaped_def)
  have last: "last ?s = last ?e" by simp
  show ?thesis
  proof (cases "length ?e = 1")
    case True
    then obtain c where c: "?e = [c]" by (metis One_nat_def length_0_conv length_Suc_conv)
    from decode_encode [OF assms, of "[]"] c have d: "decode_rune [c] = (r, 1)" by simp
    have "byte c < 0x80"
    proof (rule ccontr)
      assume "\<not> byte c < 0x80"
      with decode_single [OF d] have "r = rune_error" by blast
      with c show False by (simp add: encode_rune_def encode_nats_def scalar_def in_range_def)
    qed
    with d c show ?thesis by (auto simp: decode_last_rune_def decode_rune_def)
  next
    case False
    have len: "2 \<le> length ?e" "length ?e \<le> 4"
      using False sh(2) encode_rune_not_nil [of r] by (auto simp: lead_len_def split: if_splits)
    have cont: "\<not> rune_start (?s ! j)" if "length u < j" "j < length ?s" for j
    proof -
      have "?s ! j = tl ?e ! (j - length u - 1)" using that
        by (simp add: nth_append nth_tl Suc_diff_Suc less_diff_conv2)
      moreover have "j - length u - 1 < length (tl ?e)" using that by simp
      ultimately show ?thesis using sh(3) by (metis nth_mem)
    qed
    have "last ?s = ?s ! (length ?s - 1)" by (rule last_conv_nth) simp
    with cont [of "length ?s - 1"] len have "\<not> rune_start (last ?s)" by simp
    then have b: "\<not> byte (last ?s) < 0x80" by (auto simp: rune_start_def in_range_def)
    have "?s ! length u = hd ?e" by (simp add: nth_append hd_conv_nth)
    then have "find (\<lambda>i. rune_start (?s ! i)) (rev [length ?s - 4..<length ?s - 1]) = Some (length u)"
      using sh(1) len cont by (intro find_rev_upt) auto
    then have "last_start ?s = length u" by (simp add: last_start_def)
    then show ?thesis
      using b decode_encode [OF assms, of "[]"] unfolding decode_last_rune_def Let_def by simp
  qed
qed

lemma cut_tail_whole:
  assumes "\<And>r. r \<in> set rs \<Longrightarrow> scalar r"
  shows "cut_tail (encode_runes rs) = encode_runes rs"
proof (cases rs rule: rev_cases)
  case Nil
  then show ?thesis by (simp add: encode_runes_def cut_tail.simps)
next
  case (snoc us r)
  then have s: "encode_runes rs = encode_runes us @ encode_rune r" by (simp add: encode_runes_def)
  have "\<not> (r = rune_error \<and> length (encode_rune r) \<le> 1)"
    by (auto simp: encode_rune_def encode_nats_def scalar_def in_range_def)
  moreover have "decode_last_rune (encode_runes rs) = (r, length (encode_rune r))"
    unfolding s using assms snoc by (intro decode_last_whole) simp
  ultimately show ?thesis by (subst cut_tail.simps) auto
qed

lemma cut_tail_partial:
  assumes "shaped e" and "prefix p e" and "p \<noteq> e"
  shows "cut_tail (u @ p) = cut_tail u"
  using assms(2,3)
proof (induction p rule: rev_induct)
  case (snoc c p)
  let ?s = "u @ p @ [c]"
  from snoc.prems have "prefix p e" "p \<noteq> e" by (auto simp: prefix_def)
  note ih = snoc.IH [OF this]
  from assms(1) have sh: "rune_start (hd e)" "length e = lead_len (byte (hd e))"
    "\<And>x. x \<in> set (tl e) \<Longrightarrow> \<not> rune_start x" by (auto simp: shaped_def)
  from snoc.prems obtain v where e: "e = p @ c # v" "v \<noteq> []" by (auto simp: prefix_def)
  have l2: "2 \<le> length e" using e by (cases v) auto
  then have hd80: "0xC0 \<le> byte (hd e)" using sh(2) by (auto simp: lead_len_def split: if_splits)
  have "0x80 \<le> byte c"
  proof (cases p)
    case Nil
    then show ?thesis using hd80 e by simp
  next
    case (Cons a p')
    then have "c \<in> set (tl e)" using e by simp
    with sh(3) show ?thesis by (auto simp: rune_start_def in_range_def)
  qed
  moreover have "\<not> (length ?s - k = lead_len (byte (?s ! k)) \<and> (\<forall>x\<in>set (drop (Suc k) ?s). \<not> rune_start x))"
    if "2 \<le> length ?s - k" "k < length ?s" for k
  proof (cases "k < length u")
    case True
    have "hd e \<in> set (drop (Suc k) ?s)" using True e by (cases p) auto
    then show ?thesis using sh(1) by blast
  next
    case False
    show ?thesis
    proof (cases "k = length u")
      case True
      have "?s ! k = hd e" using True e by (cases p) (auto simp: nth_append)
      moreover have "length ?s - k < length e" using True e by (cases v) auto
      ultimately show ?thesis using sh(2) by simp
    next
      case f: False
      with False have lt: "length u < k" by simp
      let ?i = "k - length u - 1"
      have i: "?i < length (tl (p @ [c]))" using lt that(2) by simp
      have "?s ! k = tl (p @ [c]) ! ?i" using lt i by (simp add: nth_append nth_tl Suc_diff_Suc)
      then have "?s ! k \<in> set (tl (p @ [c]))" using i by (metis nth_mem)
      then have "?s ! k \<in> set (tl e)" using e by (cases p) auto
      then have "\<not> rune_start (?s ! k)" by (rule sh(3))
      then have "lead_len (byte (?s ! k)) = 1" by (simp add: rune_start_def in_range_def lead_len_def)
      with that(1) show ?thesis by simp
    qed
  qed
  ultimately have "decode_last_rune ?s = (rune_error, 1)"
    by (intro decode_last_partial) simp_all
  then have "cut_tail ?s = cut_tail (u @ p)"
    by (subst cut_tail.simps) (simp add: butlast_append)
  with ih show ?case by simp
qed simp


subsection \<open>What a byte bound keeps\<close>

text \<open>The runes that fit whole within a number of bytes.\<close>

fun fit :: "nat \<Rightarrow> nat list \<Rightarrow> nat list" where
  "fit n [] = []"
| "fit n (r # rs) = (if length (encode_rune r) \<le> n then r # fit (n - length (encode_rune r)) rs else [])"

lemma encode_runes_simps [simp]: "encode_runes [] = []" "encode_runes (r # rs) = encode_rune r @ encode_runes rs"
  "encode_runes (rs @ us) = encode_runes rs @ encode_runes us"
  by (simp_all add: encode_runes_def)

lemma fit_prefix: "prefix (fit n rs) rs"
  by (induction rs arbitrary: n) auto

lemma fit_set: "set (fit n rs) \<subseteq> set rs"
  using fit_prefix set_mono_prefix by blast

lemma fit_length: "length (encode_runes (fit n rs)) \<le> n"
  by (induction n rs rule: fit.induct) auto

lemma fit_all: "length (encode_runes rs) \<le> n \<Longrightarrow> fit n rs = rs"
  by (induction n rs rule: fit.induct) auto

lemma fit_rest:
  "\<exists>p. take n (encode_runes rs) = encode_runes (fit n rs) @ p
     \<and> (p = [] \<or> (\<exists>r\<in>set rs. prefix p (encode_rune r) \<and> p \<noteq> encode_rune r))"
proof (induction n rs rule: fit.induct)
  case (2 n r rs)
  show ?case
  proof (cases "length (encode_rune r) \<le> n")
    case True
    with 2 show ?thesis by auto
  next
    case False
    then have "take n (encode_runes (r # rs)) = take n (encode_rune r)" by simp
    moreover have "prefix (take n (encode_rune r)) (encode_rune r)" "take n (encode_rune r) \<noteq> encode_rune r"
      using False by (auto simp: take_is_prefix)
    ultimately show ?thesis using False by auto
  qed
qed simp

definition clean_rune :: "nat \<Rightarrow> bool" where
  "clean_rune r \<longleftrightarrow> \<not> control_rune r \<and> \<not> bidi_rune r"

lemma strip_both: "strip_bidi (strip_control s) = encode_runes (filter clean_rune (runes s))"
proof -
  have "(\<lambda>r. \<not> control_rune r \<and> \<not> bidi_rune r) = clean_rune" by (auto simp: clean_rune_def)
  then show ?thesis by (simp add: strip_bidi_def strip_control_def) (simp add: keep_runes_def)
qed

lemma bound_string_eq: "bound_string s n = encode_runes (fit n (filter clean_rune (runes s)))"
proof (cases "length (encode_runes (filter clean_rune (runes s))) \<le> n")
  case True
  then show ?thesis by (simp add: bound_string_def strip_both fit_all)
next
  case False
  let ?rs = "filter clean_rune (runes s)"
  have sc: "\<And>r. r \<in> set ?rs \<Longrightarrow> scalar r" by (auto simp: runes_scalar)
  from fit_rest [of n ?rs] obtain p where p: "take n (encode_runes ?rs) = encode_runes (fit n ?rs) @ p"
    "p = [] \<or> (\<exists>r\<in>set ?rs. prefix p (encode_rune r) \<and> p \<noteq> encode_rune r)" by blast
  have "cut_tail (encode_runes (fit n ?rs) @ p) = cut_tail (encode_runes (fit n ?rs))"
    using p(2) cut_tail_partial encode_shaped sc by (metis append_Nil2)
  also have "\<dots> = encode_runes (fit n ?rs)"
    using sc fit_set [of n ?rs] by (intro cut_tail_whole) blast
  finally show ?thesis using False by (simp add: bound_string_def strip_both p(1))
qed

lemma runes_encode_sub: "set rs \<subseteq> set (filter P (runes s)) \<Longrightarrow> runes (encode_runes rs) = rs"
  by (rule runes_encode) (use runes_scalar in auto)

lemma runes_bound_string: "runes (bound_string s n) = fit n (filter clean_rune (runes s))"
  unfolding bound_string_eq by (rule runes_encode_sub [OF fit_set])

definition stripped :: "string \<Rightarrow> bool" where
  "stripped s \<longleftrightarrow> strip_bidi (strip_control s) = s"

lemma stripped_iff: "stripped s \<longleftrightarrow> encode_runes (filter clean_rune (runes s)) = s"
  by (simp add: stripped_def strip_both)

lemma stripped_clean: "stripped (encode_runes rs)" if "\<forall>r\<in>set rs. scalar r \<and> clean_rune r"
  using that by (simp add: stripped_iff runes_encode filter_id_conv [THEN iffD2])

text \<open>Bounding a text is a sanitiser: what comes out is stripped and within its bound, and such a text stays.\<close>

interpretation bounded: sanitiser "\<lambda>s. bound_string s n" "\<lambda>s. stripped s \<and> length s \<le> n" for n
proof
  show "stripped (bound_string s n) \<and> length (bound_string s n) \<le> n" for s
  proof
    have "\<forall>r\<in>set (fit n (filter clean_rune (runes s))). scalar r \<and> clean_rune r"
      using fit_set [of n "filter clean_rune (runes s)"] runes_scalar by auto
    then show "stripped (bound_string s n)" unfolding bound_string_eq by (rule stripped_clean)
    show "length (bound_string s n) \<le> n" unfolding bound_string_eq by (rule fit_length)
  qed
qed (simp add: bound_string_def stripped_def)

lemma bound_runes_eq: "bound_runes s n = encode_runes (take n (filter clean_rune (runes s)))"
proof -
  have "runes (strip_bidi (strip_control s)) = filter clean_rune (runes s)"
    unfolding strip_both by (rule runes_encode_sub [of _ clean_rune s]) simp
  then show ?thesis by (simp add: bound_runes_def strip_both Let_def)
qed

interpretation bounded_runes: sanitiser "\<lambda>s. bound_runes s n" "\<lambda>s. stripped s \<and> length (runes s) \<le> n" for n
proof
  show "stripped (bound_runes s n) \<and> length (runes (bound_runes s n)) \<le> n" for s
  proof
    let ?rs = "take n (filter clean_rune (runes s))"
    have sub: "set ?rs \<subseteq> set (filter clean_rune (runes s))" by (rule set_take_subset)
    then have "\<forall>r\<in>set ?rs. scalar r \<and> clean_rune r" using runes_scalar by auto
    then show "stripped (bound_runes s n)" unfolding bound_runes_eq by (rule stripped_clean)
    show "length (runes (bound_runes s n)) \<le> n"
      unfolding bound_runes_eq runes_encode_sub [OF sub] by simp
  qed
qed (simp add: bound_runes_def stripped_def)

subsection \<open>Locators\<close>

lemma ascii_runes:
  "\<forall>c\<in>set t. byte c < 0x80 \<Longrightarrow> encode_runes (map byte t) = t"
proof (induction t)
  case (Cons c t)
  then have "encode_rune (byte c) = [c]" by (simp add: encode_rune_def encode_nats_def byte_def)
  with Cons show ?case by simp
qed simp

definition digest_suffix :: "string \<Rightarrow> string" where
  "digest_suffix raw = ''#'' @ hex_encode (take 8 (sha256 raw))"

lemma length_digest_suffix [simp]: "length (digest_suffix raw) = 17"
  by (simp add: digest_suffix_def)

lemma digest_suffix_alphabet: "c \<in> set (digest_suffix raw) \<Longrightarrow> c = CHR ''#'' \<or> c \<in> hex_alphabet"
  using hex_encode_alphabet by (auto simp: digest_suffix_def)

lemma digest_suffix_clean: "\<forall>c\<in>set (digest_suffix raw). byte c < 0x80 \<and> scalar (byte c) \<and> clean_rune (byte c)"
proof
  fix c assume "c \<in> set (digest_suffix raw)"
  from digest_suffix_alphabet [OF this] show "byte c < 0x80 \<and> scalar (byte c) \<and> clean_rune (byte c)"
    by (auto simp: hex_alphabet_def byte_def scalar_def in_range_def clean_rune_def control_rune_def bidi_rune_def)
qed

lemma bound_locator_eq:
  "bound_locator raw = (if bound_string raw max_gap_locator = raw then raw
     else bound_string raw (max_gap_locator - 17) @ digest_suffix raw)"
  using length_digest_suffix [of raw] by (simp add: bound_locator_def digest_suffix_def Let_def)

lemma bound_locator_fixed: "bound_string (bound_locator raw) max_gap_locator = bound_locator raw"
proof (cases "bound_string raw max_gap_locator = raw")
  case False
  let ?rs = "fit (max_gap_locator - 17) (filter clean_rune (runes raw))"
  have e: "bound_locator raw = encode_runes (?rs @ map byte (digest_suffix raw))"
    using False digest_suffix_clean by (simp add: bound_locator_eq bound_string_eq ascii_runes)
  have "\<forall>r\<in>set (?rs @ map byte (digest_suffix raw)). scalar r \<and> clean_rune r"
    using fit_set [of "max_gap_locator - 17" "filter clean_rune (runes raw)"] runes_scalar digest_suffix_clean
    by auto
  then have "stripped (bound_locator raw)" unfolding e by (rule stripped_clean)
  moreover have "length (bound_locator raw) \<le> max_gap_locator"
    using False bounded.clean_safe [of raw "max_gap_locator - 17"]
    by (simp add: bound_locator_eq max_gap_locator_def)
  ultimately show ?thesis by (intro bounded.safe_fixed) simp
qed (simp add: bound_locator_eq)

text \<open>
  C23: the text a source gives is bounded safely: cutting at a byte bound keeps exactly the clean runes
  that fit whole, never half of one, the result is within the bound, and cleaning it again changes
  nothing; and a locator built with \<^verbatim>\<open>BoundLocator\<close> is within the ledger's bound and a
  fixed point of the ledger's own cleaning, so a lookup builds the key the ledger stored (MA-157,
  S3-AO9).
\<close>

theorem bounds_keep_whole_runes:
  "runes (bound_string s n) = fit n (filter clean_rune (runes s))
   \<and> length (bound_string s n) \<le> n \<and> bound_string (bound_string s n) n = bound_string s n
   \<and> length (bound_locator raw) \<le> max_gap_locator
   \<and> bound_string (bound_locator raw) max_gap_locator = bound_locator raw"
proof -
  have "length (bound_string (bound_locator raw) max_gap_locator) \<le> max_gap_locator"
    using bounded.clean_safe by blast
  then show ?thesis
    using runes_bound_string bounded.clean_safe bounded.clean_idem by (simp add: bound_locator_fixed)
qed

end
