(* ===== verification/Ledger.thy ===== *)
theory Ledger
  imports Manifest BoundText "HOL-Library.Multiset"
begin

text \<open>
  The capture-gap ledger (\<^verbatim>\<open>internal/state/gaps.go\<close>): what a run could not capture.  The
  ledger is the manifest's map of gaps by key, so the operations here are functions on that map.
  \<open>sep\<close> is the platform's path separator, which \<^verbatim>\<open>SafeToken\<close> asks about.
\<close>

type_synonym ledger = "(string, capture_gap) gomap"

subsection \<open>The constants\<close>

definition gap_scope_item :: string where "gap_scope_item = ''item''"
definition gap_scope_folder :: string where "gap_scope_folder = ''folder''"
definition gap_scope_overflow :: string where "gap_scope_overflow = ''overflow''"

lemmas scope_defs = gap_scope_item_def gap_scope_folder_def gap_scope_overflow_def

definition max_gap_items :: nat where "max_gap_items = 1000"
definition max_gap_folders :: nat where "max_gap_folders = 1000"
definition max_gap_info :: nat where "max_gap_info = 100"
definition max_gap_overflow :: nat where "max_gap_overflow = 100"
definition max_gap_total :: nat where "max_gap_total = 20000"
definition max_gap_detail :: nat where "max_gap_detail = 300"
definition max_gap_subject :: nat where "max_gap_subject = 200"
definition max_gap_reason :: nat where "max_gap_reason = 64"
definition max_gap_folder :: nat where "max_gap_folder = 512"
definition max_gap_received :: nat where "max_gap_received = 40"
definition max_gap_skipped :: int where "max_gap_skipped = 2 ^ 30"
definition stuck_runs :: int where "stuck_runs = 3"
definition stuck_age :: duration where "stuck_age = 72 * hour_ns"

subsection \<open>One gap\<close>

definition weight :: "capture_gap \<Rightarrow> int" where
  "weight g = (if g_scope g = gap_scope_overflow \<and> 0 < g_skipped g then g_skipped g else 1)"

definition gap_folder :: "string \<Rightarrow> string" where
  "gap_folder folder = bound_string folder max_gap_folder"

definition known_class :: "string \<Rightarrow> bool" where
  "known_class c \<longleftrightarrow> c = class_fillable \<or> c = class_terminal \<or> c = class_info"

definition severity :: "string \<Rightarrow> nat" where
  "severity c = (if c = class_terminal then 3 else if c = class_fillable then 2
     else if c = class_info then 1 else 0)"

definition more_severe :: "string \<Rightarrow> string \<Rightarrow> string" where
  "more_severe a b = (if severity a < severity b then b else a)"

definition sanitize_gap :: "capture_gap \<Rightarrow> capture_gap" where
  "sanitize_gap g = g\<lparr>
     g_folder := bound_string (g_folder g) max_gap_folder,
     g_locator := bound_string (g_locator g) max_gap_locator,
     g_reason := (let r = bound_string (g_reason g) max_gap_reason in if r = [] then ''unknown'' else r),
     g_subject := bound_runes (g_subject g) max_gap_subject,
     g_received := bound_string (g_received g) max_gap_received,
     g_detail := bound_string (g_detail g) max_gap_detail,
     g_scope := (if g_scope g \<in> {gap_scope_item, gap_scope_folder, gap_scope_overflow} then g_scope g
                 else gap_scope_item),
     g_class := (if \<not> known_class (g_class g) then class_terminal else g_class g),
     g_skipped := (if g_skipped g < 0 then 0 else if max_gap_skipped < g_skipped g then max_gap_skipped
                   else g_skipped g)\<rparr>"

definition same_utc_day :: "gotime \<Rightarrow> gotime \<Rightarrow> bool" where
  "same_utc_day a b \<longleftrightarrow> utc_day a = utc_day b"

definition overflow_locator :: "string \<Rightarrow> string" where
  "overflow_locator folder = ''overflow:'' @ folder"

definition overflow_detail :: string where
  "overflow_detail = ''more items than the per-source limit could not be captured; they are counted here, not listed''"

definition gap_bucket :: "capture_gap \<Rightarrow> string" where
  "gap_bucket g = (if g_scope g = gap_scope_overflow then []
     else if g_class g = class_info then class_info else g_scope g)"

definition gap_bucket_cap :: "string \<Rightarrow> nat" where
  "gap_bucket_cap bucket = (if bucket = gap_scope_item then max_gap_items
     else if bucket = gap_scope_folder then max_gap_folders
     else if bucket = class_info then max_gap_info else 0)"

subsection \<open>Observing a gap\<close>

definition gap_bucket_count :: "string \<Rightarrow> string \<Rightarrow> ledger \<Rightarrow> nat" where
  "gap_bucket_count token bucket L =
     length (filter (\<lambda>(k, e). g_token e = token \<and> gap_bucket e = bucket) L)"

definition overflow_count :: "string \<Rightarrow> ledger \<Rightarrow> nat" where
  "overflow_count token L =
     length (filter (\<lambda>(k, e). g_token e = token \<and> g_scope e = gap_scope_overflow) L)"

text \<open>The folder an excess gap is counted under: its own, or the store's root when the token has its
  overflow entries.\<close>

definition absorb_folder :: "capture_gap \<Rightarrow> ledger \<Rightarrow> string" where
  "absorb_folder g L =
     (if mget L (gap_key (g_token g) gap_scope_overflow (overflow_locator (g_folder g))) = None
         \<and> max_gap_overflow \<le> overflow_count (g_token g) L
      then [] else g_folder g)"

definition new_overflow :: "string \<Rightarrow> string \<Rightarrow> string \<Rightarrow> gotime \<Rightarrow> gotime \<Rightarrow> int \<Rightarrow> capture_gap" where
  "new_overflow token folder cls fr lr runs = \<lparr>g_token = token, g_folder = folder,
     g_scope = gap_scope_overflow, g_locator = overflow_locator folder, g_reason = ''overflow'',
     g_class = cls, g_subject = [], g_received = [], g_detail = overflow_detail, g_skipped = 0,
     g_defers_gone = False, g_first_run = fr, g_last_run = lr, g_runs = runs\<rparr>"

definition absorb_gap :: "capture_gap \<Rightarrow> gotime \<Rightarrow> ledger \<Rightarrow> string \<times> ledger" where
  "absorb_gap g run_at L =
     (let folder = absorb_folder g L;
          key = gap_key (g_token g) gap_scope_overflow (overflow_locator folder);
          o1 = (case mget L key of
              None \<Rightarrow> new_overflow (g_token g) folder (g_class g) run_at 0 1
            | Some e \<Rightarrow>
                if g_last_run e \<noteq> run_at
                then e\<lparr>g_runs := (if same_utc_day (g_last_run e) run_at then g_runs e else g_runs e + 1),
                       g_skipped := 0, g_class := g_class g\<rparr>
                else e);
          o2 = o1\<lparr>g_skipped := g_skipped o1 + 1, g_class := more_severe (g_class o1) (g_class g),
                  g_last_run := run_at\<rparr>
      in (key, mput key o2 L))"

definition observe_old :: "capture_gap \<Rightarrow> gotime \<Rightarrow> capture_gap \<Rightarrow> capture_gap" where
  "observe_old g run_at old =
     (let same_run = (g_last_run old = run_at);
          o1 = (if same_run then old
                else old\<lparr>g_runs := (if same_utc_day (g_last_run old) run_at then g_runs old else g_runs old + 1),
                         g_skipped := 0\<rparr>);
          o2 = o1\<lparr>g_skipped := g_skipped o1 + g_skipped g,
                  g_first_run := (if run_at < g_first_run o1 then run_at else g_first_run o1),
                  g_last_run := run_at\<rparr>;
          defers = (g_defers_gone g \<or> (same_run \<and> g_defers_gone old));
          o3 = (if \<not> same_run \<or> severity (g_class old) \<le> severity (g_class g)
                then o2\<lparr>g_reason := g_reason g, g_class := g_class g, g_detail := g_detail g,
                        g_folder := g_folder g, g_defers_gone := defers\<rparr>
                else if defers then o2\<lparr>g_defers_gone := True\<rparr> else o2)
      in o3\<lparr>g_subject := (if g_subject g \<noteq> [] then g_subject g else g_subject o3),
            g_received := (if g_received g \<noteq> [] then g_received g else g_received o3)\<rparr>)"

definition observed_gap :: "capture_gap \<Rightarrow> capture_gap" where
  "observed_gap g = (let g = sanitize_gap g
     in if g_scope g = gap_scope_overflow then g\<lparr>g_scope := gap_scope_item\<rparr> else g)"

definition own_key :: "capture_gap \<Rightarrow> string" where
  "own_key g = gap_key (g_token g) (g_scope g) (g_locator g)"

definition observe_gap :: "char \<Rightarrow> capture_gap \<Rightarrow> gotime \<Rightarrow> ledger \<Rightarrow> (string \<times> bool) \<times> ledger" where
  "observe_gap sep raw run_at L =
     (let g = observed_gap raw; key = own_key g; b = gap_bucket g
      in if \<not> safe_token sep (g_token g) then (([], False), L)
         else case mget L key of
           Some old \<Rightarrow> ((key, False), mput key (observe_old g run_at old) L)
         | None \<Rightarrow>
             if b \<noteq> [] \<and> gap_bucket_cap b \<le> gap_bucket_count (g_token g) b L
             then (case absorb_gap g run_at L of (k, L') \<Rightarrow> ((k, False), L'))
             else ((key, True), mput key (g\<lparr>g_first_run := run_at, g_last_run := run_at, g_runs := 1\<rparr>) L))"

subsection \<open>Closing a gap\<close>

definition close_gap :: "string \<Rightarrow> ledger \<Rightarrow> bool \<times> ledger" where
  "close_gap key L = (case mget L key of None \<Rightarrow> (False, L) | Some _ \<Rightarrow> (True, mdel key L))"

definition close_gap_reason :: "string \<Rightarrow> string \<Rightarrow> ledger \<Rightarrow> bool \<times> ledger" where
  "close_gap_reason key reason L = (case mget L key of
     None \<Rightarrow> (False, L)
   | Some g \<Rightarrow> if g_reason g \<noteq> reason then (False, L) else (True, mdel key L))"

definition close_gap_in_folder :: "string \<Rightarrow> string \<Rightarrow> ledger \<Rightarrow> bool \<times> ledger" where
  "close_gap_in_folder key folder L = (case mget L key of
     None \<Rightarrow> (False, L)
   | Some g \<Rightarrow> if g_folder g \<noteq> [] \<and> g_folder g \<noteq> gap_folder folder then (False, L) else (True, mdel key L))"

definition gap_for :: "string \<Rightarrow> ledger \<Rightarrow> capture_gap option" where
  "gap_for key L = mget L key"

definition gap_observed_in :: "string \<Rightarrow> gotime \<Rightarrow> ledger \<Rightarrow> string option" where
  "gap_observed_in key run_at L = (case mget L key of
     None \<Rightarrow> None | Some g \<Rightarrow> if g_last_run g \<noteq> run_at then None else Some (g_folder g))"

definition export_stage_reason :: "string \<Rightarrow> bool" where
  "export_stage_reason reason \<longleftrightarrow>
     reason = ''export-failed'' \<or> reason = ''export-panic'' \<or> reason = ''folder-unwritable''"

definition close_hit :: "string \<Rightarrow> (capture_gap \<Rightarrow> bool) option \<Rightarrow> gotime \<Rightarrow> gotime \<Rightarrow> capture_gap \<Rightarrow> bool" where
  "close_hit token scope_fn run_at since g \<longleftrightarrow>
     (if g_token g \<noteq> token \<or> g_last_run g = run_at then False
      else if (case scope_fn of None \<Rightarrow> False | Some f \<Rightarrow> \<not> f g) then False
      else if since \<noteq> 0 then
        (if g_scope g = gap_scope_overflow \<or> export_stage_reason (g_reason g) then False
         else if g_scope g = gap_scope_item \<and> g_received g \<noteq> [] then
           (case parse_rfc3339 (g_received g) of None \<Rightarrow> True | Some when \<Rightarrow> \<not> when < since)
         else True)
      else True)"

definition close_unobserved :: "string \<Rightarrow> (capture_gap \<Rightarrow> bool) option \<Rightarrow> gotime \<Rightarrow> gotime \<Rightarrow> ledger \<Rightarrow> nat \<times> ledger" where
  "close_unobserved token scope_fn run_at since L =
     fold (\<lambda>(key, g) (closed, L'). if close_hit token scope_fn run_at since g
         then (closed + 1, mdel key L') else (closed, L')) L (0, L)"

subsection \<open>Reading the ledger\<close>

definition gap_less :: "capture_gap \<Rightarrow> capture_gap \<Rightarrow> bool" where
  "gap_less a b =
     (if g_token a \<noteq> g_token b then g_token a < g_token b
      else if g_folder a \<noteq> g_folder b then g_folder a < g_folder b
      else if g_reason a \<noteq> g_reason b then g_reason a < g_reason b
      else g_locator a < g_locator b)"

definition sort_gaps :: "capture_gap list \<Rightarrow> capture_gap list" where
  "sort_gaps gs = sort_key (\<lambda>g. [g_token g, g_folder g, g_reason g, g_locator g]) gs"

definition capture_gaps_sorted :: "ledger \<Rightarrow> capture_gap list" where
  "capture_gaps_sorted L = sort_gaps (map snd L)"

definition gap_attempted :: "capture_gap \<Rightarrow> (string, gotime) gomap \<Rightarrow> bool" where
  "gap_attempted g last_run_at = (case mget last_run_at (g_token g) of
     None \<Rightarrow> False | Some t \<Rightarrow> g_last_run g = t)"

definition gap_stuck :: "capture_gap \<Rightarrow> gotime \<Rightarrow> duration \<Rightarrow> bool" where
  "gap_stuck g now period \<longleftrightarrow>
     (if g_class g \<noteq> class_fillable \<or> g_runs g < stuck_runs then False
      else let p = wrap64 (2 * period); age = (if stuck_age < p then p else stuck_age)
           in age \<le> time_sub now (g_first_run g))"

record gap_tally =
  t_fillable :: int
  t_terminal :: int
  t_info :: int
  t_stuck :: int
  t_not_attempted :: int
  t_oldest :: gotime

definition zero_tally :: gap_tally where
  "zero_tally = \<lparr>t_fillable = 0, t_terminal = 0, t_info = 0, t_stuck = 0, t_not_attempted = 0, t_oldest = 0\<rparr>"

definition is_missing :: "capture_gap \<Rightarrow> bool" where
  "is_missing g \<longleftrightarrow> g_class g = class_fillable \<or> g_class g = class_terminal"

definition tally_step :: "(string, gotime) gomap \<Rightarrow> gotime \<Rightarrow> duration \<Rightarrow> capture_gap \<Rightarrow> gap_tally \<Rightarrow> gap_tally" where
  "tally_step last_run_at now period g t0 =
     (let w = weight g;
          t = (if is_missing g \<and> (t_oldest t0 = 0 \<or> g_first_run g < t_oldest t0)
               then t0\<lparr>t_oldest := g_first_run g\<rparr> else t0)
      in if \<not> gap_attempted g last_run_at
         then (if is_missing g then t\<lparr>t_not_attempted := t_not_attempted t + w\<rparr> else t)
         else if g_class g = class_fillable
         then t\<lparr>t_fillable := t_fillable t + w,
                t_stuck := (if gap_stuck g now period then t_stuck t + w else t_stuck t)\<rparr>
         else if g_class g = class_terminal then t\<lparr>t_terminal := t_terminal t + w\<rparr>
         else if g_class g = class_info then t\<lparr>t_info := t_info t + w\<rparr>
         else t)"

definition tally_gaps :: "capture_gap list \<Rightarrow> (string, gotime) gomap \<Rightarrow> gotime \<Rightarrow> duration \<Rightarrow> gap_tally" where
  "tally_gaps gaps last_run_at now period = fold (tally_step last_run_at now period) gaps zero_tally"

definition capture_gap_counts :: "(string, gotime) gomap \<Rightarrow> gotime \<Rightarrow> duration \<Rightarrow> ledger
    \<Rightarrow> int \<times> int \<times> int \<times> int \<times> int \<times> gotime" where
  "capture_gap_counts last_run_at now period L =
     (let t = tally_gaps (capture_gaps_sorted L) last_run_at now period
      in (t_fillable t, t_terminal t, t_info t, t_stuck t, t_not_attempted t, t_oldest t))"

definition missing_gap_count :: "ledger \<Rightarrow> int" where
  "missing_gap_count L = fold (\<lambda>(k, g) n. if is_missing g then n + weight g else n) L 0"

definition gap_count :: "ledger \<Rightarrow> nat" where
  "gap_count L = length L"


subsection \<open>A sanitised entry\<close>

text \<open>What holds of an entry whose every field has been bounded and stripped.\<close>

definition gap_safe :: "capture_gap \<Rightarrow> bool" where
  "gap_safe g \<longleftrightarrow>
     stripped (g_folder g) \<and> length (g_folder g) \<le> max_gap_folder
     \<and> stripped (g_locator g) \<and> length (g_locator g) \<le> max_gap_locator
     \<and> stripped (g_reason g) \<and> length (g_reason g) \<le> max_gap_reason \<and> g_reason g \<noteq> []
     \<and> stripped (g_subject g) \<and> length (runes (g_subject g)) \<le> max_gap_subject
     \<and> stripped (g_received g) \<and> length (g_received g) \<le> max_gap_received
     \<and> stripped (g_detail g) \<and> length (g_detail g) \<le> max_gap_detail
     \<and> g_scope g \<in> {gap_scope_item, gap_scope_folder, gap_scope_overflow} \<and> known_class (g_class g)
     \<and> 0 \<le> g_skipped g \<and> g_skipped g \<le> max_gap_skipped"

lemma stripped_unknown: "stripped ''unknown''"
proof -
  have "stripped (encode_runes (map byte ''unknown''))"
    by (rule stripped_clean) (simp add: byte_def scalar_def in_range_def clean_rune_def control_rune_def bidi_rune_def)
  moreover have "encode_runes (map byte ''unknown'') = ''unknown''"
    by (rule ascii_runes) (simp add: byte_def)
  ultimately show ?thesis by simp
qed

interpretation gap: sanitiser sanitize_gap gap_safe
proof
  fix g
  note b = bounded.clean_safe and r = bounded_runes.clean_safe
  show "gap_safe (sanitize_gap g)"
    using b [of "g_folder g" max_gap_folder] b [of "g_locator g" max_gap_locator]
      b [of "g_reason g" max_gap_reason] b [of "g_received g" max_gap_received]
      b [of "g_detail g" max_gap_detail] r [of "g_subject g" max_gap_subject] stripped_unknown
    by (simp add: gap_safe_def sanitize_gap_def Let_def known_class_def max_gap_skipped_def max_gap_reason_def)
next
  fix g assume "gap_safe g"
  then show "sanitize_gap g = g"
    using bounded.safe_fixed bounded_runes.safe_fixed
    by (simp add: gap_safe_def sanitize_gap_def Let_def)
qed

subsection \<open>The ledger's invariant\<close>

text \<open>
  Every entry sits at its own key and names a token without separators; an overflow entry counts at
  least one item; no lifetime cap is exceeded; and beyond its hundred folders a token has only its
  own overflow entry.
\<close>

definition entry_ok :: "string \<Rightarrow> capture_gap \<Rightarrow> bool" where
  "entry_ok k g \<longleftrightarrow> k = own_key g \<and> nul \<notin> set (g_token g)
     \<and> g_scope g \<in> {gap_scope_item, gap_scope_folder, gap_scope_overflow}
     \<and> (g_scope g = gap_scope_overflow \<longrightarrow> 1 \<le> g_skipped g)"

definition overflow_key :: "string \<Rightarrow> string \<Rightarrow> string" where
  "overflow_key token folder = gap_key token gap_scope_overflow (overflow_locator folder)"

definition within_caps :: "ledger \<Rightarrow> bool" where
  "within_caps L \<longleftrightarrow> (\<forall>token. nul \<notin> set token \<longrightarrow>
     (\<forall>b. b \<noteq> [] \<longrightarrow> gap_bucket_count token b L \<le> gap_bucket_cap b)
     \<and> overflow_count token L \<le> max_gap_overflow + (if mget L (overflow_key token []) = None then 0 else 1))"

definition ledger_ok :: "ledger \<Rightarrow> bool" where
  "ledger_ok L \<longleftrightarrow> mok L \<and> (\<forall>k g. mget L k = Some g \<longrightarrow> entry_ok k g)"

lemma scope_nul: "s \<in> {gap_scope_item, gap_scope_folder, gap_scope_overflow} \<Longrightarrow> nul \<notin> set s"
  by (auto simp: scope_defs)

lemma scopes_distinct [simp]: "gap_scope_item \<noteq> gap_scope_folder" "gap_scope_item \<noteq> gap_scope_overflow"
  "gap_scope_folder \<noteq> gap_scope_overflow" "gap_scope_overflow \<noteq> gap_scope_item"
  "gap_scope_folder \<noteq> gap_scope_item" "gap_scope_overflow \<noteq> gap_scope_folder"
  "gap_scope_item \<noteq> []" "[] \<noteq> gap_scope_item" "[] \<noteq> gap_scope_folder" "gap_scope_folder \<noteq> []" "gap_scope_item \<noteq> class_info" "gap_scope_folder \<noteq> class_info"
  "class_info \<noteq> gap_scope_item" "class_info \<noteq> gap_scope_folder"
  "gap_scope_overflow \<noteq> class_info" "class_info \<noteq> gap_scope_overflow"
  by (simp_all add: scope_defs class_defs)

lemma gap_key_inj:
  "nul \<notin> set t \<Longrightarrow> nul \<notin> set t' \<Longrightarrow> nul \<notin> set s \<Longrightarrow> nul \<notin> set s' \<Longrightarrow>
     gap_key t s l = gap_key t' s' l' \<longleftrightarrow> t = t' \<and> s = s' \<and> l = l'"
  by (simp add: gap_key_def key_separator_def sep_inj)

lemma nul_in_runes: "nul \<in> set s \<Longrightarrow> 0 \<in> set (runes s)"
proof (induction s rule: runes.induct)
  case (1 s)
  obtain r n where d: "decode_rune s = (r, n)" by fastforce
  have ne: "s \<noteq> []" using 1(2) by auto
  show ?case
  proof (cases "nul \<in> set (drop n s)")
    case True
    with 1(1) ne d show ?thesis by (subst runes.simps) simp
  next
    case False
    then have m: "nul \<in> set (take n s)" using 1(2) by (metis Un_iff append_take_drop_id set_append)
    have "hd s = nul"
    proof (cases "2 \<le> n")
      case True
      from decode_shape [OF d True] have "nul \<notin> set (tl (take n s))"
        by (auto simp: rune_start_def in_range_def byte_def)
      with m True ne show ?thesis by (cases s; cases n) auto
    next
      case False
      then have "n = 0 \<or> n = 1" by linarith
      with m ne show ?thesis by (cases s) auto
    qed
    then have "fst (decode_rune s) = 0" using ne by (cases s) (auto simp: decode_rune_def byte_def)
    then show ?thesis using ne by (subst runes.simps) simp
  qed
qed

lemma safe_token_nul: "safe_token sep t \<Longrightarrow> nul \<notin> set t"
  using nul_in_runes by (fastforce simp: safe_token_def list_all_iff)


lemma bucket_count_msum:
  "int (gap_bucket_count t b L) = msum (\<lambda>e. of_bool (g_token e = t \<and> gap_bucket e = b)) L"
  "int (overflow_count t L) = msum (\<lambda>e. of_bool (g_token e = t \<and> g_scope e = gap_scope_overflow)) L"
  unfolding gap_bucket_count_def overflow_count_def by (rule msum_count)+

lemma ledger_okD:
  "ledger_ok L \<Longrightarrow> mok L" "ledger_ok L \<Longrightarrow> mget L k = Some g \<Longrightarrow> entry_ok k g"
  by (simp_all add: ledger_ok_def)

lemma ledger_ok_put: "ledger_ok L \<Longrightarrow> entry_ok k g \<Longrightarrow> ledger_ok (mput k g L)"
  by (simp add: ledger_ok_def)

lemma ledger_ok_del: "ledger_ok L \<Longrightarrow> ledger_ok (mdel k L)"
  by (simp add: ledger_ok_def)

lemma observed_facts:
  fixes raw :: capture_gap
  defines "g \<equiv> observed_gap raw"
  shows "g_scope g \<in> {gap_scope_item, gap_scope_folder}" "known_class (g_class g)"
    "g_token g = g_token raw" "0 \<le> g_skipped g" "gap_bucket g \<noteq> []"
proof -
  have s: "gap_safe (sanitize_gap raw)" by (rule gap.clean_safe)
  then show "g_scope g \<in> {gap_scope_item, gap_scope_folder}" "known_class (g_class g)"
    "g_token g = g_token raw" "0 \<le> g_skipped g"
    unfolding g_def by (auto simp: observed_gap_def Let_def gap_safe_def) (simp add: sanitize_gap_def)+
  then show "gap_bucket g \<noteq> []" by (auto simp: gap_bucket_def)
qed

text \<open>What an overflow entry is after it has absorbed one more gap.\<close>

lemma absorb_entry:
  assumes "ledger_ok L" and "nul \<notin> set (g_token g)"
  obtains key o' where "absorb_gap g run_at L = (key, mput key o' L)"
    "key = overflow_key (g_token g) (absorb_folder g L)"
    "g_token o' = g_token g" "g_scope o' = gap_scope_overflow" "g_last_run o' = run_at" "entry_ok key o'"
    "weight o' = (case mget L key of None \<Rightarrow> 1
       | Some e \<Rightarrow> if g_last_run e = run_at then weight e + 1 else 1)"
    "\<And>e. mget L key = Some e \<Longrightarrow> g_token e = g_token g \<and> g_scope e = gap_scope_overflow"
proof -
  let ?f = "absorb_folder g L"
  let ?k = "overflow_key (g_token g) ?f"
  have old: "g_token e = g_token g \<and> g_scope e = gap_scope_overflow \<and> 1 \<le> g_skipped e" if "mget L ?k = Some e" for e
  proof -
    from ledger_okD(2) [OF assms(1) that] have e: "entry_ok ?k e" .
    then have "gap_key (g_token g) gap_scope_overflow (overflow_locator ?f) = gap_key (g_token e) (g_scope e) (g_locator e)"
      by (simp add: entry_ok_def own_key_def overflow_key_def)
    with e assms(2) have "g_token e = g_token g \<and> g_scope e = gap_scope_overflow"
      by (subst (asm) gap_key_inj) (auto simp: entry_ok_def scope_nul)
    with e show ?thesis by (simp add: entry_ok_def)
  qed
  define o' where "o' = (let o1 = (case mget L ?k of
              None \<Rightarrow> new_overflow (g_token g) ?f (g_class g) run_at 0 1
            | Some e \<Rightarrow>
                if g_last_run e \<noteq> run_at
                then e\<lparr>g_runs := (if same_utc_day (g_last_run e) run_at then g_runs e else g_runs e + 1),
                       g_skipped := 0, g_class := g_class g\<rparr>
                else e)
       in o1\<lparr>g_skipped := g_skipped o1 + 1, g_class := more_severe (g_class o1) (g_class g),
                  g_last_run := run_at\<rparr>)"
  have a: "absorb_gap g run_at L = (?k, mput ?k o' L)"
    by (simp add: absorb_gap_def o'_def overflow_key_def Let_def)
  show thesis
  proof (cases "mget L ?k")
    case None
    then show thesis
      using that [OF a refl] assms(2)
      by (simp add: o'_def new_overflow_def entry_ok_def own_key_def overflow_key_def weight_def Let_def)
  next
    case (Some e)
    from ledger_okD(2) [OF assms(1) Some] have k: "?k = own_key e" by (simp add: entry_ok_def)
    note o = old [OF Some]
    have w: "weight e = g_skipped e" using o by (simp add: weight_def)
    have f: "g_token o' = g_token g" "g_scope o' = gap_scope_overflow" "g_locator o' = g_locator e"
      "g_last_run o' = run_at"
      "g_skipped o' = (if g_last_run e = run_at then g_skipped e + 1 else 1)"
      using o by (simp_all add: o'_def Some Let_def)
    have "entry_ok ?k o'"
      using f o k assms(2) by (auto simp: entry_ok_def own_key_def)
    moreover have "weight o' = (if g_last_run e = run_at then weight e + 1 else 1)"
      using f o w by (simp add: weight_def)
    ultimately have w: "entry_ok ?k o'" "weight o' = (case mget L ?k of None \<Rightarrow> 1
        | Some e \<Rightarrow> if g_last_run e = run_at then weight e + 1 else 1)"
      by (simp_all only: Some option.case)
    show thesis
      by (rule that [OF a refl f(1,2,4) w]) (use old in blast)
  qed
qed

lemma observe_old_frame:
  "g_token (observe_old g run_at old) = g_token old" "g_scope (observe_old g run_at old) = g_scope old"
  "g_locator (observe_old g run_at old) = g_locator old" "g_last_run (observe_old g run_at old) = run_at"
  by (simp_all add: observe_old_def Let_def)

text \<open>The gap an observation finds under its own key is of the same token and scope.\<close>

lemma old_same_scope:
  assumes "ledger_ok L" and "mget L (own_key g) = Some old" and "nul \<notin> set (g_token g)"
    and "g_scope g \<in> {gap_scope_item, gap_scope_folder}"
  shows "g_token old = g_token g \<and> g_scope old = g_scope g"
proof -
  from ledger_okD(2) [OF assms(1,2)] have e: "entry_ok (own_key g) old" .
  then have "gap_key (g_token g) (g_scope g) (g_locator g) = gap_key (g_token old) (g_scope old) (g_locator old)"
    by (simp add: entry_ok_def own_key_def)
  with e assms(3,4) show ?thesis
    by (subst (asm) gap_key_inj) (auto simp: entry_ok_def scope_nul)
qed

lemma observe_ledger_ok:
  assumes "ledger_ok L"
  shows "ledger_ok (snd (observe_gap sep raw run_at L))"
proof (cases "safe_token sep (g_token (observed_gap raw))")
  case True
  let ?g = "observed_gap raw"
  note t = safe_token_nul [OF True]
  show ?thesis
  proof (cases "mget L (own_key ?g)")
    case (Some old)
    from ledger_okD(2) [OF assms Some] old_same_scope [OF assms Some t observed_facts(1)] observed_facts(1) [of raw]
    have "entry_ok (own_key ?g) (observe_old ?g run_at old)"
      by (auto simp: entry_ok_def own_key_def observe_old_frame)
    with assms True Some show ?thesis by (simp add: observe_gap_def Let_def ledger_ok_put)
  next
    case None
    from absorb_entry [OF assms t, of run_at] obtain key o' where
      a: "absorb_gap ?g run_at L = (key, mput key o' L)" "entry_ok key o'" by blast
    have "entry_ok (own_key ?g) (?g\<lparr>g_first_run := run_at, g_last_run := run_at, g_runs := 1\<rparr>)"
      using t observed_facts(1) [of raw] by (auto simp: entry_ok_def own_key_def)
    with a assms True None show ?thesis by (auto simp: observe_gap_def Let_def ledger_ok_put)
  qed
qed (simp add: observe_gap_def Let_def assms)


subsection \<open>The lifetime caps\<close>

text \<open>What a caller owes: an observation of a listed gap keeps it in the list it counts against.\<close>

definition keeps_bucket :: "capture_gap \<Rightarrow> gotime \<Rightarrow> ledger \<Rightarrow> bool" where
  "keeps_bucket raw run_at L \<longleftrightarrow> (case mget L (own_key (observed_gap raw)) of
     None \<Rightarrow> True
   | Some old \<Rightarrow> gap_bucket (observe_old (observed_gap raw) run_at old) = gap_bucket old)"

lemma within_capsD:
  assumes "within_caps L" and "nul \<notin> set t"
  shows "b \<noteq> [] \<Longrightarrow> gap_bucket_count t b L \<le> gap_bucket_cap b"
    and "overflow_count t L \<le> max_gap_overflow + (if mget L (overflow_key t []) = None then 0 else 1)"
  using assms by (auto simp: within_caps_def)

lemma within_capsI:
  "(\<And>t b. nul \<notin> set t \<Longrightarrow> b \<noteq> [] \<Longrightarrow> gap_bucket_count t b L \<le> gap_bucket_cap b) \<Longrightarrow>
   (\<And>t. nul \<notin> set t \<Longrightarrow> overflow_count t L
      \<le> max_gap_overflow + (if mget L (overflow_key t []) = None then 0 else 1)) \<Longrightarrow> within_caps L"
  unfolding within_caps_def by blast

lemma nat_if: "int a = int b + (if P then 1 else 0) \<Longrightarrow> a = b + (if P then 1 else 0)"
  by (auto split: if_splits)

lemma within_caps_same:
  assumes "within_caps L" and "mget L k = Some old" and "g_token g' = g_token old"
    and "g_scope g' = g_scope old" and "gap_bucket g' = gap_bucket old"
  shows "within_caps (mput k g' L)"
proof -
  have "int (gap_bucket_count t b (mput k g' L)) = int (gap_bucket_count t b L)"
    "int (overflow_count t (mput k g' L)) = int (overflow_count t L)" for t b
    unfolding bucket_count_msum using assms by (simp_all add: msum_put_old)
  then have "gap_bucket_count t b (mput k g' L) = gap_bucket_count t b L"
    "overflow_count t (mput k g' L) = overflow_count t L" for t b by simp_all
  moreover have "mget (mput k g' L) j = None \<longleftrightarrow> mget L j = None" for j using assms(2) by simp
  ultimately show ?thesis using within_capsD [OF assms(1)] by (intro within_capsI) simp_all
qed

lemma within_caps_new:
  assumes "within_caps L" and "mget L k = None" and "g_scope g \<noteq> gap_scope_overflow" and "gap_bucket g \<noteq> []"
    and "gap_bucket_count (g_token g) (gap_bucket g) L < gap_bucket_cap (gap_bucket g)"
  shows "within_caps (mput k g L)"
proof -
  have "int (gap_bucket_count t b (mput k g L)) = int (gap_bucket_count t b L)
        + (if g_token g = t \<and> gap_bucket g = b then 1 else 0)"
    "int (overflow_count t (mput k g L)) = int (overflow_count t L)" for t b
    unfolding bucket_count_msum using assms(2,3) by (simp_all add: msum_put_new)
  then have n: "gap_bucket_count t b (mput k g L) = gap_bucket_count t b L
        + (if g_token g = t \<and> gap_bucket g = b then 1 else 0)"
    "overflow_count t (mput k g L) = overflow_count t L" for t b
    by (blast intro: nat_if, simp)
  show ?thesis
  proof (rule within_capsI)
    fix t b :: string assume "nul \<notin> set t" "b \<noteq> []"
    then show "gap_bucket_count t b (mput k g L) \<le> gap_bucket_cap b"
      using within_capsD(1) [OF assms(1)] assms(5) unfolding n by auto
  next
    fix t :: string assume "nul \<notin> set t"
    then show "overflow_count t (mput k g L)
        \<le> max_gap_overflow + (if mget (mput k g L) (overflow_key t []) = None then 0 else 1)"
      using within_capsD(2) [OF assms(1), of t] unfolding n by (auto split: if_splits)
  qed
qed

lemma overflow_no_bucket: "g_scope g = gap_scope_overflow \<Longrightarrow> gap_bucket g = []"
  by (simp add: gap_bucket_def)

lemma within_caps_absorb:
  assumes "ledger_ok L" and "within_caps L" and "nul \<notin> set (g_token g)"
  shows "within_caps (snd (absorb_gap g run_at L))"
proof -
  from absorb_entry [OF assms(1,3), of run_at] obtain key o' where
    a: "absorb_gap g run_at L = (key, mput key o' L)" "key = overflow_key (g_token g) (absorb_folder g L)"
    "g_token o' = g_token g" "g_scope o' = gap_scope_overflow"
    and old: "\<And>e. mget L key = Some e \<Longrightarrow> g_token e = g_token g \<and> g_scope e = gap_scope_overflow" by blast
  show ?thesis
  proof (cases "mget L key")
    case (Some e)
    with old a assms(2) show ?thesis by (auto intro!: within_caps_same simp: overflow_no_bucket)
  next
    case None
    have "int (gap_bucket_count t b (mput key o' L)) = int (gap_bucket_count t b L)"
      if "b \<noteq> []" for t b
      unfolding bucket_count_msum using None a(4) that by (simp add: msum_put_new overflow_no_bucket)
    then have b: "gap_bucket_count t b (mput key o' L) = gap_bucket_count t b L" if "b \<noteq> []" for t b
      using that by simp
    have "int (overflow_count t (mput key o' L)) = int (overflow_count t L) + (if t = g_token g then 1 else 0)" for t
      unfolding bucket_count_msum using None a(3,4) by (simp add: msum_put_new)
    then have o: "overflow_count t (mput key o' L) = overflow_count t L + (if t = g_token g then 1 else 0)" for t
      by (rule nat_if)
    have root: "overflow_count (g_token g) L + 1 \<le> max_gap_overflow
        + (if mget (mput key o' L) (overflow_key (g_token g) []) = None then 0 else 1)"
    proof (cases "key = overflow_key (g_token g) []")
      case True
      with None within_capsD(2) [OF assms(2,3)] show ?thesis by simp
    next
      case False
      with a(2) have "absorb_folder g L \<noteq> []" by auto
      then have "overflow_count (g_token g) L < max_gap_overflow" "absorb_folder g L = g_folder g"
        using None a(2) by (auto simp: absorb_folder_def overflow_key_def split: if_splits)
      then show ?thesis by simp
    qed
    have "overflow_count t L \<le> max_gap_overflow
        + (if mget (mput key o' L) (overflow_key t []) = None then 0 else 1)" if "nul \<notin> set t" for t
      using within_capsD(2) [OF assms(2) that] by (auto split: if_splits)
    note grow = this
    show ?thesis
      unfolding a(1) snd_conv
    proof (rule within_capsI)
      fix t b :: string assume "nul \<notin> set t" "b \<noteq> []"
      then show "gap_bucket_count t b (mput key o' L) \<le> gap_bucket_cap b"
        using within_capsD(1) [OF assms(2)] b by simp
    next
      fix t :: string assume t: "nul \<notin> set t"
      show "overflow_count t (mput key o' L)
          \<le> max_gap_overflow + (if mget (mput key o' L) (overflow_key t []) = None then 0 else 1)"
      proof (cases "t = g_token g")
        case True
        with root show ?thesis unfolding o by simp
      next
        case False
        with grow [OF t] show ?thesis unfolding o by simp
      qed
    qed
  qed
qed

lemma within_caps_observe:
  assumes "ledger_ok L" and "within_caps L" and "keeps_bucket raw run_at L"
  shows "within_caps (snd (observe_gap sep raw run_at L))"
proof (cases "safe_token sep (g_token (observed_gap raw))")
  case True
  let ?g = "observed_gap raw"
  note t = safe_token_nul [OF True]
  show ?thesis
  proof (cases "mget L (own_key ?g)")
    case (Some old)
    then have "within_caps (mput (own_key ?g) (observe_old ?g run_at old) L)"
      using assms by (intro within_caps_same [OF assms(2) Some]) (auto simp: keeps_bucket_def observe_old_frame)
    with True Some show ?thesis by (simp add: observe_gap_def Let_def)
  next
    case None
    let ?b = "gap_bucket ?g"
    have nb: "?b \<noteq> []" by (rule observed_facts)
    show ?thesis
    proof (cases "gap_bucket_cap ?b \<le> gap_bucket_count (g_token ?g) ?b L")
      case c: True
      with within_caps_absorb [OF assms(1,2) t, of run_at] True None nb show ?thesis
        by (simp add: observe_gap_def Let_def split: prod.split) (metis snd_conv)
    next
      case False
      let ?n = "?g\<lparr>g_first_run := run_at, g_last_run := run_at, g_runs := 1\<rparr>"
      have "gap_bucket ?n = ?b" by (simp add: gap_bucket_def)
      moreover have "g_scope ?n \<noteq> gap_scope_overflow" using observed_facts(1) [of raw] by auto
      ultimately have "within_caps (mput (own_key ?g) ?n L)"
        using False nb by (intro within_caps_new [OF assms(2) None]) simp_all
      with False True None show ?thesis by (simp add: observe_gap_def Let_def)
    qed
  qed
qed (simp add: observe_gap_def Let_def assms)

lemma within_caps_del:
  assumes "ledger_ok L" and "within_caps L"
  shows "within_caps (mdel k L)"
proof (cases "mget L k")
  case None
  then have "k \<notin> fst ` set L" by (simp add: map_of_eq_None_iff)
  with assms(2) show ?thesis by simp
next
  case (Some g)
  have "int (gap_bucket_count t b (mdel k L)) \<le> int (gap_bucket_count t b L)" for t b
    unfolding bucket_count_msum using msum_del [OF ledger_okD(1) [OF assms(1)] Some] by simp
  then have b: "gap_bucket_count t b (mdel k L) \<le> gap_bucket_count t b L" for t b by simp
  have "int (overflow_count t (mdel k L)) = int (overflow_count t L)
      - (if g_token g = t \<and> g_scope g = gap_scope_overflow then 1 else 0)" for t
    unfolding bucket_count_msum using msum_del [OF ledger_okD(1) [OF assms(1)] Some] by simp
  then have o: "int (overflow_count t (mdel k L)) = int (overflow_count t L)
      - (if g_token g = t \<and> g_scope g = gap_scope_overflow then 1 else 0)" for t .
  have root: "g_token g = t \<and> g_scope g = gap_scope_overflow" if "k = overflow_key t []" "nul \<notin> set t" for t
  proof -
    from ledger_okD(2) [OF assms(1) Some] have e: "entry_ok k g" .
    with that have "gap_key t gap_scope_overflow (overflow_locator []) = gap_key (g_token g) (g_scope g) (g_locator g)"
      by (simp add: entry_ok_def own_key_def overflow_key_def)
    with e that show ?thesis by (subst (asm) gap_key_inj) (auto simp: entry_ok_def scope_nul)
  qed
  show ?thesis
    unfolding within_caps_def
  proof (intro allI impI conjI)
    fix t b assume t: "nul \<notin> set t"
    { assume "b \<noteq> ([] :: string)"
      with within_capsD(1) [OF assms(2) t] b [of t b] show "gap_bucket_count t b (mdel k L) \<le> gap_bucket_cap b"
        using order_trans by blast }
    show "overflow_count t (mdel k L)
        \<le> max_gap_overflow + (if mget (mdel k L) (overflow_key t []) = None then 0 else 1)"
      using within_capsD(2) [OF assms(2) t] o [of t] root [OF _ t] by (cases "k = overflow_key t []") (auto split: if_splits)
  qed
qed


subsection \<open>The ledger as a machine\<close>

definition close_step :: "string \<Rightarrow> (capture_gap \<Rightarrow> bool) option \<Rightarrow> gotime \<Rightarrow> gotime
    \<Rightarrow> string \<times> capture_gap \<Rightarrow> nat \<times> ledger \<Rightarrow> nat \<times> ledger" where
  "close_step token scope_fn run_at since = (\<lambda>(key, g) (closed, L').
     if close_hit token scope_fn run_at since g then (closed + 1, mdel key L') else (closed, L'))"

lemma close_unobserved_eq: "close_unobserved token scope_fn run_at since L =
    fold (close_step token scope_fn run_at since) L (0, L)"
  by (simp add: close_unobserved_def close_step_def)

lemma close_steps:
  "mok xs \<Longrightarrow> snd (fold (close_step token scope_fn run_at since) xs (n, L)) =
     fold mdel (map fst (filter (\<lambda>(k, g). close_hit token scope_fn run_at since g) xs)) L
   \<and> fst (fold (close_step token scope_fn run_at since) xs (n, L)) =
     n + length (filter (\<lambda>(k, g). close_hit token scope_fn run_at since g) xs)"
  by (induction xs arbitrary: n L) (auto simp: close_step_def)

lemma mget_fold_mdel: "mget (fold mdel ks L) k = (if k \<in> set ks then None else mget L k)"
  by (induction ks arbitrary: L) auto

lemma close_unobserved_get:
  assumes "mok L"
  shows "mget (snd (close_unobserved token scope_fn run_at since L)) k = (case mget L k of
      None \<Rightarrow> None | Some g \<Rightarrow> if close_hit token scope_fn run_at since g then None else Some g)"
proof -
  have "k \<in> set (map fst (filter (\<lambda>(k, g). close_hit token scope_fn run_at since g) L))
      \<longleftrightarrow> (\<exists>g. mget L k = Some g \<and> close_hit token scope_fn run_at since g)"
    using in_mget [OF assms] by (force dest: map_of_SomeD)
  then show ?thesis
    unfolding close_unobserved_eq close_steps [OF assms, THEN conjunct1] mget_fold_mdel
    by (cases "mget L k") simp_all
qed

lemma fold_mdel_inv:
  "ledger_ok L \<Longrightarrow> within_caps L \<Longrightarrow> ledger_ok (fold mdel ks L) \<and> within_caps (fold mdel ks L)"
  by (induction ks arbitrary: L) (auto intro: ledger_ok_del within_caps_del)

datatype lop =
    L_Observe capture_gap gotime
  | L_Close string
  | L_Close_Reason string string
  | L_Close_In_Folder string string
  | L_Close_Unobserved string "(capture_gap \<Rightarrow> bool) option" gotime gotime

fun lstep :: "char \<Rightarrow> lop \<Rightarrow> ledger \<Rightarrow> ledger" where
  "lstep sep (L_Observe g run_at) L = snd (observe_gap sep g run_at L)"
| "lstep sep (L_Close k) L = snd (close_gap k L)"
| "lstep sep (L_Close_Reason k r) L = snd (close_gap_reason k r L)"
| "lstep sep (L_Close_In_Folder k f) L = snd (close_gap_in_folder k f L)"
| "lstep sep (L_Close_Unobserved t f run_at since) L = snd (close_unobserved t f run_at since L)"

definition lmay :: "lop \<Rightarrow> ledger \<Rightarrow> bool" where
  "lmay op L \<longleftrightarrow> (case op of L_Observe g run_at \<Rightarrow> keeps_bucket g run_at L | _ \<Rightarrow> True)"

lemma lstep_inv:
  assumes "ledger_ok L \<and> within_caps L" and "lmay op L"
  shows "ledger_ok (lstep sep op L) \<and> within_caps (lstep sep op L)"
proof (cases op)
  case (L_Observe g run_at)
  with assms show ?thesis by (simp add: lmay_def observe_ledger_ok within_caps_observe)
next
  case (L_Close_Unobserved t f run_at since)
  with assms show ?thesis
    using close_steps [of L t f run_at since 0 L] fold_mdel_inv [of L] ledger_okD(1) [of L]
    by (simp add: close_unobserved_eq)
qed (use assms in \<open>auto simp: close_gap_def close_gap_reason_def close_gap_in_folder_def
      intro: ledger_ok_del within_caps_del split: option.split\<close>)

interpretation ledger: machine "lstep sep" lmay "\<lambda>L. ledger_ok L \<and> within_caps L" for sep
  by unfold_locales (rule lstep_inv)

lemma empty_ledger: "ledger_ok [] \<and> within_caps []"
  by (simp add: ledger_ok_def within_caps_def gap_bucket_count_def overflow_count_def)

text \<open>
  C18: the ledger stays within its lifetime bounds as long as no observation re-files a listed gap under
  another cap: after any sequence of such observations and of closes, of any length, a mailbox has at most
  a thousand listed items, a thousand folders, a hundred notes and a hundred and one overflow entries
  (P13, FC16, S2A-AO3).  The code does not keep the condition itself: a listed note that a later run
  observes as a loss moves into the items' bucket whatever its count.
\<close>

theorem ledger_keeps_its_caps:
  assumes "ledger.may_run sep ops []" and "nul \<notin> set token"
  defines "L \<equiv> fold (lstep sep) ops []"
  shows "gap_bucket_count token gap_scope_item L \<le> 1000 \<and> gap_bucket_count token gap_scope_folder L \<le> 1000
     \<and> gap_bucket_count token class_info L \<le> 100 \<and> overflow_count token L \<le> 101"
proof -
  from ledger.run_inv [OF empty_ledger assms(1)] have "within_caps L" by (simp add: L_def)
  note w = within_capsD [OF this assms(2)]
  from w(1) [of gap_scope_item] w(1) [of gap_scope_folder] w(1) [of class_info] w(2)
  show ?thesis
    by (auto simp: gap_bucket_cap_def max_gap_items_def max_gap_folders_def max_gap_info_def
        max_gap_overflow_def split: if_splits)
qed

subsection \<open>Counting exactly\<close>

text \<open>How many items of a store the ledger says a run missed.\<close>

definition run_weight :: "string \<Rightarrow> gotime \<Rightarrow> ledger \<Rightarrow> int" where
  "run_weight token run_at L = msum (\<lambda>g. if g_token g = token \<and> g_last_run g = run_at then weight g else 0) L"

lemma absorb_counts:
  assumes "ledger_ok L" and "nul \<notin> set (g_token g)"
  shows "run_weight token run_at (snd (absorb_gap g run_at L))
     = run_weight token run_at L + (if g_token g = token then 1 else 0)"
proof -
  from absorb_entry [OF assms, of run_at] obtain key o' where
    a: "absorb_gap g run_at L = (key, mput key o' L)"
    and f: "g_token o' = g_token g" "g_last_run o' = run_at"
    and w: "weight o' = (case mget L key of None \<Rightarrow> 1
       | Some e \<Rightarrow> if g_last_run e = run_at then weight e + 1 else 1)"
    and old: "\<And>e. mget L key = Some e \<Longrightarrow> g_token e = g_token g \<and> g_scope e = gap_scope_overflow"
    by blast
  show ?thesis
  proof (cases "mget L key")
    case None
    then show ?thesis using w f unfolding a run_weight_def snd_conv by (simp add: msum_put_new)
  next
    case (Some e)
    from old [OF Some] have "g_token e = g_token g" by blast
    with Some w f show ?thesis unfolding a run_weight_def snd_conv by (simp add: msum_put_old)
  qed
qed

text \<open>
  C19: nothing a run could not capture goes uncounted: an observation of a gap the ledger does not
  list yet raises the number of items the run missed in that store by exactly one, whether it gets
  an entry of its own or, beyond the caps, is absorbed by an overflow entry, and leaves every other
  store's number alone (P13).
\<close>

theorem an_observation_counts_once:
  assumes "ledger_ok L" and "safe_token sep (g_token raw)"
    and "mget L (own_key (observed_gap raw)) = None"
  shows "run_weight token run_at (snd (observe_gap sep raw run_at L))
     = run_weight token run_at L + (if g_token raw = token then 1 else 0)"
proof -
  let ?g = "observed_gap raw"
  have t: "g_token ?g = g_token raw" by (rule observed_facts)
  have nn: "nul \<notin> set (g_token ?g)" using assms(2) t by (simp add: safe_token_nul)
  have nb: "gap_bucket ?g \<noteq> []" by (rule observed_facts)
  let ?n = "?g\<lparr>g_first_run := run_at, g_last_run := run_at, g_runs := 1\<rparr>"
  have "weight ?n = 1" using observed_facts(1) [of raw] by (auto simp: weight_def)
  then have new: "run_weight token run_at (mput (own_key ?g) ?n L)
      = run_weight token run_at L + (if g_token raw = token then 1 else 0)"
    using assms(3) t by (simp add: run_weight_def msum_put_new)
  show ?thesis
  proof (cases "gap_bucket_cap (gap_bucket ?g) \<le> gap_bucket_count (g_token ?g) (gap_bucket ?g) L")
    case True
    then have "snd (observe_gap sep raw run_at L) = snd (absorb_gap ?g run_at L)"
      using assms(2,3) nb t by (simp add: observe_gap_def Let_def split: prod.split)
    then show ?thesis using absorb_counts [OF assms(1) nn, of token run_at] t by simp
  next
    case False
    then have "snd (observe_gap sep raw run_at L) = mput (own_key ?g) ?n L"
      using assms(2,3) t by (simp add: observe_gap_def Let_def)
    then show ?thesis using new by simp
  qed
qed


subsection \<open>One run's observations\<close>

lemma observe_shape:
  "safe_token sep (g_token (observed_gap raw)) \<Longrightarrow> \<exists>key c v. observe_gap sep raw run_at L = ((key, c), mput key v L)
     \<and> g_last_run v = run_at"
  by (auto simp: observe_gap_def absorb_gap_def observe_old_frame Let_def split: option.split)

definition observe_all :: "char \<Rightarrow> capture_gap list \<Rightarrow> gotime \<Rightarrow> ledger \<Rightarrow> string list \<times> ledger" where
  "observe_all sep gaps run_at L =
     fold (\<lambda>g (ks, L). case observe_gap sep g run_at L of ((k, _), L') \<Rightarrow> (k # ks, L')) gaps ([], L)"

lemma observe_all_ok:
  assumes "ledger_ok L" and "\<forall>k\<in>set ks. k \<noteq> [] \<longrightarrow> (\<exists>e. mget L k = Some e \<and> g_last_run e = run_at)"
  shows "ledger_ok (snd (fold (\<lambda>g (ks, L). case observe_gap sep g run_at L of ((k, _), L') \<Rightarrow> (k # ks, L')) gaps (ks, L)))
    \<and> (\<forall>k\<in>set (fst (fold (\<lambda>g (ks, L). case observe_gap sep g run_at L of ((k, _), L') \<Rightarrow> (k # ks, L')) gaps (ks, L))).
        k \<noteq> [] \<longrightarrow> (\<exists>e. mget (snd (fold (\<lambda>g (ks, L). case observe_gap sep g run_at L of ((k, _), L') \<Rightarrow> (k # ks, L'))
          gaps (ks, L))) k = Some e \<and> g_last_run e = run_at))"
  using assms
proof (induction gaps arbitrary: ks L)
  case (Cons g gaps)
  obtain k c L' where o: "observe_gap sep g run_at L = ((k, c), L')" by (metis prod.collapse)
  have ok: "ledger_ok L'" using observe_ledger_ok [OF Cons.prems(1), of sep g run_at] o by simp
  have "\<forall>j\<in>set (k # ks). j \<noteq> [] \<longrightarrow> (\<exists>e. mget L' j = Some e \<and> g_last_run e = run_at)"
  proof (cases "safe_token sep (g_token (observed_gap g))")
    case True
    from observe_shape [OF True, of run_at L] o obtain v where "L' = mput k v L" "g_last_run v = run_at" by auto
    with Cons.prems(2) show ?thesis by auto
  next
    case False
    with o have "k = []" "L' = L" by (auto simp: observe_gap_def Let_def)
    with Cons.prems(2) show ?thesis by simp
  qed
  from Cons.IH [OF ok this] o show ?case by simp
qed simp

text \<open>
  C20: what a run saw missing is still listed when its walk is over: every key the run's observations
  returned is in the ledger afterwards, stamped with this run, and closing the gaps the completed walk
  did not observe, with any scope and any window, does not touch it (FC13, FC14).
\<close>

theorem observed_gaps_survive_the_walk:
  assumes "ledger_ok L" and "k \<in> set (fst (observe_all sep gaps run_at L))" and "k \<noteq> []"
  shows "\<exists>e. g_last_run e = run_at \<and> mget (snd (observe_all sep gaps run_at L)) k = Some e
     \<and> mget (snd (close_unobserved token scope_fn run_at since (snd (observe_all sep gaps run_at L)))) k = Some e"
proof -
  note o = observe_all_ok [OF assms(1), of "[]" run_at sep gaps, folded observe_all_def, simplified]
  then obtain e where e: "mget (snd (observe_all sep gaps run_at L)) k = Some e" "g_last_run e = run_at"
    using assms(2,3) by blast
  from o have "mok (snd (observe_all sep gaps run_at L))" by (simp add: ledger_ok_def)
  from close_unobserved_get [OF this, of token scope_fn run_at since k] e
  show ?thesis by (simp add: close_hit_def)
qed

text \<open>
  Within one run the milder observation of a gap never downgrades the other: its class gets no
  milder, it counts no further run, what the run skipped adds up and a deferral of the sweep stays; a
  later run counts at most one more run, none on the same day, and starts its own count (FC15, OR5,
  S2A-AI1, S3-AI3).
\<close>

theorem one_run_never_downgrades:
  "(if g_last_run old = run_at
      then severity (g_class old) \<le> severity (g_class (observe_old g run_at old))
        \<and> g_runs (observe_old g run_at old) = g_runs old
        \<and> g_skipped (observe_old g run_at old) = g_skipped old + g_skipped g
        \<and> (g_defers_gone (observe_old g run_at old) = (g_defers_gone old \<or> g_defers_gone g))
      else g_runs (observe_old g run_at old)
          = g_runs old + (if utc_day (g_last_run old) = utc_day run_at then 0 else 1)
        \<and> g_skipped (observe_old g run_at old) = g_skipped g \<and> g_class (observe_old g run_at old) = g_class g
        \<and> g_defers_gone (observe_old g run_at old) = g_defers_gone g)
     \<and> g_last_run (observe_old g run_at old) = run_at \<and> g_first_run (observe_old g run_at old) = min run_at (g_first_run old)"
  unfolding observe_old_def Let_def same_utc_day_def by (auto simp: min_def)

subsection \<open>The tally\<close>

lemma tally_fold:
  "(\<And>g. g \<in> set gs \<Longrightarrow> known_class (g_class g)) \<Longrightarrow> fold (tally_step lr now period) gs t = t' \<Longrightarrow>
     t_fillable t' + t_terminal t' + t_not_attempted t'
      = t_fillable t + t_terminal t + t_not_attempted t + sum_list (map (\<lambda>g. if is_missing g then weight g else 0) gs)
    \<and> (t_stuck t \<le> t_fillable t \<longrightarrow> t_stuck t' \<le> t_fillable t')"
proof (induction gs arbitrary: t)
  case (Cons g gs)
  let ?t = "tally_step lr now period g t"
  have "0 < weight g" by (simp add: weight_def)
  then have "t_fillable ?t + t_terminal ?t + t_not_attempted ?t
      = t_fillable t + t_terminal t + t_not_attempted t + (if is_missing g then weight g else 0)
    \<and> (t_stuck t \<le> t_fillable t \<longrightarrow> t_stuck ?t \<le> t_fillable ?t)"
    using Cons.prems(1) [of g] by (auto simp: tally_step_def Let_def is_missing_def known_class_def)
  with Cons.IH [of ?t] Cons.prems show ?case by simp
qed simp

lemma missing_fold:
  "fold (\<lambda>(k, g) n. if is_missing g then n + weight g else n) L n
     = n + sum_list (map (\<lambda>g. if is_missing g then weight g else 0) (map snd L))"
  by (induction L arbitrary: n) auto

text \<open>
  C21: no missing item falls between the counts of the status page: the attempted fillable and terminal
  gaps and the not-attempted ones add up to exactly what the ledger says is missing, with an overflow
  entry counted as the items it absorbed, and the stuck gaps are part of the fillable ones; neither
  depends on the order the gaps are visited in (FC14, OR5).
\<close>

theorem tally_accounts_for_every_gap:
  fixes last_run_at :: "(string, gotime) gomap" and now :: gotime and period :: duration
  assumes "\<forall>(k, g)\<in>set L. known_class (g_class g)"
  defines "t \<equiv> tally_gaps (capture_gaps_sorted L) last_run_at now period"
  shows "t_fillable t + t_terminal t + t_not_attempted t = missing_gap_count L
     \<and> t_stuck t \<le> t_fillable t
     \<and> mset (capture_gaps_sorted L) = mset (map snd L)
     \<and> sorted_wrt (\<lambda>a b. \<not> gap_less b a) (capture_gaps_sorted L)"
proof (intro conjI)
  let ?gs = "capture_gaps_sorted L"
  show m: "mset ?gs = mset (map snd L)" by (simp add: capture_gaps_sorted_def sort_gaps_def)
  have "set ?gs = snd ` set L" using mset_eq_setD [OF m] by simp
  then have kc: "\<And>g. g \<in> set ?gs \<Longrightarrow> known_class (g_class g)" using assms(1) by auto
  let ?w = "\<lambda>g. if is_missing g then weight g else 0"
  have sum: "sum_list (map ?w ?gs) = sum_list (map ?w (map snd L))"
  proof -
    have "sum_mset (image_mset ?w (mset ?gs)) = sum_mset (image_mset ?w (mset (map snd L)))" by (simp only: m)
    then show ?thesis by (simp only: mset_map [symmetric] sum_mset_sum_list)
  qed
  have run: "fold (tally_step last_run_at now period) ?gs zero_tally = t"
    by (simp add: t_def tally_gaps_def)
  from tally_fold [OF kc run] have tf:
    "t_fillable t + t_terminal t + t_not_attempted t = sum_list (map ?w ?gs)" "t_stuck t \<le> t_fillable t"
    by (simp_all only: zero_tally_def gap_tally.simps)
  show "t_fillable t + t_terminal t + t_not_attempted t = missing_gap_count L"
    unfolding tf(1) sum missing_gap_count_def missing_fold by (rule add_0 [symmetric])
  show "t_stuck t \<le> t_fillable t" by (rule tf(2))
  have less: "gap_less b a \<longleftrightarrow> [g_token b, g_folder b, g_reason b, g_locator b]
      < [g_token a, g_folder a, g_reason a, g_locator a]" for a b
    by (auto simp: gap_less_def)
  have "sorted (map (\<lambda>g. [g_token g, g_folder g, g_reason g, g_locator g]) ?gs)"
    by (simp add: capture_gaps_sorted_def sort_gaps_def)
  then show "sorted_wrt (\<lambda>a b. \<not> gap_less b a) ?gs"
    unfolding less not_less sorted_map .
qed


subsection \<open>A ledger of one gap\<close>

definition sample_gap :: capture_gap where
  "sample_gap = \<lparr>g_token = ''m'', g_folder = [], g_scope = gap_scope_item, g_locator = [],
     g_reason = [], g_class = class_fillable, g_subject = [], g_received = [], g_detail = [],
     g_skipped = 0, g_defers_gone = False, g_first_run = 0, g_last_run = 0, g_runs = 0\<rparr>"

lemma sample_token: "safe_token CHR ''/'' ''m''"
  by (simp add: safe_token_def base_name_def runes.simps decode_rune_def byte_def)

lemma sample_observed [simp]: "g_token (observed_gap sample_gap) = ''m''"
  by (simp add: observed_facts sample_gap_def)

lemma sample_observe:
  "observe_gap CHR ''/'' sample_gap run_at [] = ((own_key (observed_gap sample_gap), True),
     [(own_key (observed_gap sample_gap), (observed_gap sample_gap)
        \<lparr>g_first_run := run_at, g_last_run := run_at, g_runs := 1\<rparr>)])"
proof -
  have "gap_bucket (observed_gap sample_gap) = gap_scope_item"
    by (simp add: observed_gap_def sanitize_gap_def sample_gap_def gap_bucket_def known_class_def Let_def)
  then show ?thesis
    by (simp add: observe_gap_def sample_token Let_def gap_bucket_cap_def gap_bucket_count_def max_gap_items_def)
qed

theorem ledger_keeps_its_caps_witness:
  "gap_bucket_count ''m'' gap_scope_item (fold (lstep CHR ''/'') [L_Observe sample_gap 7, L_Close ''x''] []) \<le> 1000"
proof -
  have "ledger.may_run CHR ''/'' [L_Observe sample_gap 7, L_Close ''x''] []"
    by (simp add: lmay_def keeps_bucket_def)
  from ledger_keeps_its_caps [OF this, of "''m''"] show ?thesis by simp
qed

theorem an_observation_counts_once_witness:
  "run_weight ''m'' 7 (snd (observe_gap CHR ''/'' sample_gap 7 [])) = 1"
  using an_observation_counts_once [of "[]" "CHR ''/''" sample_gap "''m''" 7] empty_ledger sample_token
  by (simp add: sample_gap_def run_weight_def)

theorem observed_gaps_survive_the_walk_witness:
  "\<exists>e. mget (snd (close_unobserved ''m'' None 7 0 (snd (observe_all CHR ''/'' [sample_gap] 7 []))))
     (own_key (observed_gap sample_gap)) = Some e"
proof -
  have "own_key (observed_gap sample_gap) \<in> set (fst (observe_all CHR ''/'' [sample_gap] 7 []))"
    by (simp add: observe_all_def sample_observe)
  moreover have "own_key (observed_gap sample_gap) \<noteq> []"
    by (simp add: own_key_def gap_key_def)
  ultimately show ?thesis
    using observed_gaps_survive_the_walk [of "[]"] empty_ledger by blast
qed

theorem tally_accounts_for_every_gap_witness:
  "t_not_attempted (tally_gaps (capture_gaps_sorted [(''k'', sample_gap)]) [] 0 0) = 1"
proof -
  have "\<forall>(k, g)\<in>set [(''k'', sample_gap)]. known_class (g_class g)"
    by (simp add: sample_gap_def known_class_def)
  from tally_accounts_for_every_gap [OF this, of "[]" 0 0]
  show ?thesis
    by (simp add: capture_gaps_sorted_def sort_gaps_def tally_gaps_def tally_step_def gap_attempted_def
        zero_tally_def missing_gap_count_def is_missing_def weight_def sample_gap_def)
qed

end
