(* ===== verification/LedgerLoad.thy ===== *)
theory LedgerLoad
  imports Ledger "HOL-Library.Product_Lexorder"
begin

text \<open>
  The ledger as it is read back (\<^verbatim>\<open>sanitizeGaps\<close> of \<^verbatim>\<open>internal/state/gaps.go\<close>): a
  manifest is untrusted, so every entry is cleaned, re-keyed and counted against the caps again.
  \<^verbatim>\<open>GapSourceID\<close>, \<^verbatim>\<open>SourceDisplay\<close> and \<^verbatim>\<open>SourceKind\<close> are here too.
\<close>

definition load_gap :: "gotime \<Rightarrow> capture_gap \<Rightarrow> capture_gap" where
  "load_gap now g =
     (let g1 = sanitize_gap g; g2 = g1\<lparr>g_token := strip_control (g_token g1)\<rparr>;
          g3 = (if now < g_first_run g2 then g2\<lparr>g_first_run := now\<rparr> else g2);
          g4 = (if now < g_last_run g3 then g3\<lparr>g_last_run := now\<rparr> else g3);
          g5 = (if g_last_run g4 < g_first_run g4 then g4\<lparr>g_first_run := g_last_run g4\<rparr> else g4)
      in if g_runs g5 < 1 then g5\<lparr>g_runs := 1\<rparr> else g5)"

definition load_step :: "char \<Rightarrow> gotime \<Rightarrow> string list \<Rightarrow> ledger \<Rightarrow> string \<Rightarrow> ledger \<Rightarrow> ledger" where
  "load_step sep now tokens L k clean = (case mget L k of
     None \<Rightarrow> clean
   | Some raw \<Rightarrow>
       let g = load_gap now raw; nk = own_key g
       in if \<not> safe_token sep (g_token g) \<or> g_token g \<notin> set tokens then clean
          else case mget clean nk of
            Some prev \<Rightarrow> mput nk (if g_last_run g < g_last_run prev then prev else g) clean
          | None \<Rightarrow> mput nk g clean)"

definition load_clean :: "char \<Rightarrow> gotime \<Rightarrow> string list \<Rightarrow> ledger \<Rightarrow> ledger" where
  "load_clean sep now tokens L = fold (load_step sep now tokens L) (sort (mkeys L)) []"

definition cap_step :: "ledger \<Rightarrow> string
    \<Rightarrow> (string \<times> string, nat) gomap \<times> ledger \<times> capture_gap list
    \<Rightarrow> (string \<times> string, nat) gomap \<times> ledger \<times> capture_gap list" where
  "cap_step clean k = (\<lambda>(used, out, excess). case mget clean k of
     None \<Rightarrow> (used, out, excess)
   | Some g \<Rightarrow>
       let b = gap_bucket g; n = (case mget used (g_token g, b) of None \<Rightarrow> 0 | Some n \<Rightarrow> n)
       in if b = [] then (used, mput k g out, excess)
          else if gap_bucket_cap b \<le> n then (used, out, excess @ [g])
          else (mput (g_token g, b) (n + 1) used, mput k g out, excess))"

definition fold_overflow :: "capture_gap \<Rightarrow> int \<Rightarrow> string \<Rightarrow> ledger \<Rightarrow> ledger" where
  "fold_overflow g w folder L =
     (let key = gap_key (g_token g) gap_scope_overflow (overflow_locator folder);
          o1 = (case mget L key of
              None \<Rightarrow> new_overflow (g_token g) folder (g_class g) (g_first_run g) (g_last_run g) (g_runs g)
            | Some e \<Rightarrow> e)
      in mput key (o1\<lparr>g_skipped := g_skipped o1 + w, g_class := more_severe (g_class o1) (g_class g),
            g_last_run := (if g_last_run o1 < g_last_run g then g_last_run g else g_last_run o1),
            g_first_run := (if g_first_run g < g_first_run o1 then g_first_run g else g_first_run o1)\<rparr>) L)"

definition total_step :: "string \<Rightarrow> ledger \<Rightarrow> ledger" where
  "total_step k L = (case mget L k of None \<Rightarrow> L | Some g \<Rightarrow> fold_overflow g (weight g) [] (mdel k L))"

definition cap_ledger :: "ledger \<Rightarrow> ledger" where
  "cap_ledger clean =
     (case fold (cap_step clean) (sort (mkeys clean)) ([], [], []) of (used, out, excess) \<Rightarrow>
        let out1 = fold (\<lambda>g. fold_overflow g (weight g) (g_folder g)) excess out
        in if max_gap_total < length out1
           then fold total_step (drop max_gap_total (sort (mkeys out1))) out1 else out1)"

definition sanitize_gaps :: "char \<Rightarrow> gotime \<Rightarrow> (string, string) gomap \<Rightarrow> ledger \<Rightarrow> ledger" where
  "sanitize_gaps sep now stores L =
     (if L = [] then [] else cap_ledger (load_clean sep now (map snd stores) L))"

subsection \<open>The source of a gap\<close>

definition gap_source_id :: "string \<Rightarrow> (string, string) gomap \<Rightarrow> string" where
  "gap_source_id token stores = fold (\<lambda>(i, t) best.
     if t = token \<and> (best = [] \<or> i < best) then i else best) stores []"

definition source_display :: "string \<Rightarrow> string" where
  "source_display i = strip_bidi (strip_control (trim_prefix (trim_prefix i ''path:'') ''mailbox:''))"

definition source_graph :: string where "source_graph = ''graph''"
definition source_pst :: string where "source_pst = ''pst''"
definition source_outlook_scratch :: string where "source_outlook_scratch = ''outlook-scratch''"
definition source_local :: string where "source_local = ''local''"

text \<open>
  \<^verbatim>\<open>strings.ToLower\<close> as far as ASCII results go: the letters A to Z, and the two other runes
  whose lower case is an ASCII letter (U+0130 to i, the Kelvin sign to k).  Every other rune keeps or
  maps to runes outside ASCII, which the ASCII tests below cannot tell apart.
\<close>

definition lower_rune :: "nat \<Rightarrow> nat" where
  "lower_rune r = (if in_range 65 90 r then r + 32 else if r = 0x130 then 0x69
     else if r = 0x212A then 0x6B else r)"

definition lower_ascii :: "string \<Rightarrow> string" where
  "lower_ascii s = encode_runes (map lower_rune (runes s))"

definition source_kind :: "string \<Rightarrow> string" where
  "source_kind i =
     (if has_prefix i ''mailbox:'' then source_graph
      else let p = lower_ascii (trim_prefix i ''path:'')
           in if contains_str p ''_outlook-pst/'' \<or> contains_str p (''_outlook-pst'' @ [CHR 0x5C])
              then source_outlook_scratch
              else if has_suffix p ''.pst'' \<or> has_suffix p ''.ost'' then source_pst
              else source_local)"

subsection \<open>An entry after loading\<close>

definition load_ok :: "char \<Rightarrow> gotime \<Rightarrow> string list \<Rightarrow> capture_gap \<Rightarrow> bool" where
  "load_ok sep now tokens g \<longleftrightarrow> safe_token sep (g_token g) \<and> g_token g \<in> set tokens
     \<and> g_first_run g \<le> g_last_run g \<and> g_last_run g \<le> now \<and> 1 \<le> g_runs g
     \<and> g_scope g \<in> {gap_scope_item, gap_scope_folder, gap_scope_overflow} \<and> known_class (g_class g)"

lemma load_gap_facts:
  "g_first_run (load_gap now g) \<le> g_last_run (load_gap now g)" "g_last_run (load_gap now g) \<le> now"
  "1 \<le> g_runs (load_gap now g)" "g_scope (load_gap now g) = g_scope (sanitize_gap g)"
  "g_class (load_gap now g) = g_class (sanitize_gap g)" "g_skipped (load_gap now g) = g_skipped (sanitize_gap g)"
  "gap_safe (load_gap now g)"
proof -
  have "gap_safe (sanitize_gap g)" by (rule gap.clean_safe)
  then show "gap_safe (load_gap now g)" by (simp add: load_gap_def gap_safe_def Let_def)
qed (auto simp: load_gap_def Let_def)

definition good_ledger :: "char \<Rightarrow> gotime \<Rightarrow> string list \<Rightarrow> ledger \<Rightarrow> bool" where
  "good_ledger sep now tokens L \<longleftrightarrow> mok L \<and> (\<forall>k g. mget L k = Some g \<longrightarrow> k = own_key g \<and> load_ok sep now tokens g)"

lemma good_ledgerD:
  "good_ledger sep now tokens L \<Longrightarrow> mok L"
  "good_ledger sep now tokens L \<Longrightarrow> mget L k = Some g \<Longrightarrow> k = own_key g \<and> load_ok sep now tokens g"
  by (simp_all add: good_ledger_def)

lemma good_ledger_put:
  "good_ledger sep now tokens L \<Longrightarrow> k = own_key g \<Longrightarrow> load_ok sep now tokens g \<Longrightarrow>
     good_ledger sep now tokens (mput k g L)"
  by (simp add: good_ledger_def)

lemma good_ledger_del: "good_ledger sep now tokens L \<Longrightarrow> good_ledger sep now tokens (mdel k L)"
  by (simp add: good_ledger_def)

lemma load_clean_good: "good_ledger sep now tokens (load_clean sep now tokens L)"
proof -
  have "good_ledger sep now tokens (fold (load_step sep now tokens L) ks clean)"
    if "good_ledger sep now tokens clean" for ks clean
    using that
  proof (induction ks arbitrary: clean)
    case (Cons k ks)
    have "good_ledger sep now tokens (load_step sep now tokens L k clean)"
    proof (cases "mget L k")
      case None
      with Cons.prems show ?thesis by (simp add: load_step_def)
    next
      case (Some raw)
      let ?g = "load_gap now raw"
      have "load_ok sep now tokens ?g" if "safe_token sep (g_token ?g)" "g_token ?g \<in> set tokens"
        using that load_gap_facts(1-3,7) [of now raw] by (simp add: load_ok_def gap_safe_def)
      note new = good_ledger_put [OF Cons.prems refl this]
      show ?thesis
      proof (cases "safe_token sep (g_token ?g) \<and> g_token ?g \<in> set tokens")
        case False
        with Some Cons.prems show ?thesis by (simp add: load_step_def Let_def)
      next
        case True
        from new True have n: "good_ledger sep now tokens (mput (own_key ?g) ?g clean)" by blast
        have step: "load_step sep now tokens L k clean = (case mget clean (own_key ?g) of
            Some prev \<Rightarrow> mput (own_key ?g) (if g_last_run ?g < g_last_run prev then prev else ?g) clean
          | None \<Rightarrow> mput (own_key ?g) ?g clean)"
          using True Some by (simp add: load_step_def Let_def)
        show ?thesis
        proof (cases "mget clean (own_key ?g)")
          case None
          with n show ?thesis by (simp add: step)
        next
          case p: (Some prev)
          from good_ledgerD(2) [OF Cons.prems p] have q: "own_key ?g = own_key prev" "load_ok sep now tokens prev"
            by blast+
          have "good_ledger sep now tokens (mput (own_key ?g) prev clean)"
            by (rule good_ledger_put [OF Cons.prems q])
          with n show ?thesis unfolding step p option.case by (cases "g_last_run ?g < g_last_run prev") simp_all
        qed
      qed
    qed
    with Cons.IH show ?case by simp
  qed simp
  moreover have "good_ledger sep now tokens []" by (simp add: good_ledger_def)
  ultimately show ?thesis unfolding load_clean_def by blast
qed


subsection \<open>Folding the excess\<close>

definition counted :: "ledger \<Rightarrow> bool" where
  "counted L \<longleftrightarrow> (\<forall>k g. mget L k = Some g \<longrightarrow> g_scope g = gap_scope_overflow \<longrightarrow> 1 \<le> g_skipped g)"

lemma countedD: "counted L \<Longrightarrow> mget L k = Some g \<Longrightarrow> g_scope g = gap_scope_overflow \<Longrightarrow> 1 \<le> g_skipped g"
  by (simp add: counted_def)

lemma weight_pos: "0 < weight g"
  by (simp add: weight_def)

lemma overflow_weight: "g_scope g = gap_scope_overflow \<Longrightarrow> 1 \<le> g_skipped g \<Longrightarrow> weight g = g_skipped g"
  by (simp add: weight_def)

text \<open>What folding one gap into an overflow entry does.\<close>

lemma fold_overflow_facts:
  fixes folder :: string
  assumes good: "good_ledger sep now tokens L" and cnt: "counted L" and g: "load_ok sep now tokens g" and w: "1 \<le> w"
  defines "key \<equiv> overflow_key (g_token g) folder"
  shows "\<exists>o'. fold_overflow g w folder L = mput key o' L \<and> g_scope o' = gap_scope_overflow \<and> key = own_key o'
     \<and> load_ok sep now tokens o' \<and> 1 \<le> g_skipped o' \<and> g_token o' = g_token g
     \<and> weight o' = (case mget L key of None \<Rightarrow> w | Some e \<Rightarrow> weight e + w)
     \<and> (\<forall>e. mget L key = Some e \<longrightarrow> g_token e = g_token g \<and> g_scope e = gap_scope_overflow)"
proof -
  have t: "nul \<notin> set (g_token g)" using g safe_token_nul by (auto simp: load_ok_def)
  have kc: "known_class (more_severe a b)" if "known_class a" "known_class b" for a b
    using that by (simp add: more_severe_def)
  have old: "g_token e = g_token g \<and> g_scope e = gap_scope_overflow \<and> key = own_key e
      \<and> load_ok sep now tokens e \<and> 1 \<le> g_skipped e" if m: "mget L key = Some e" for e
  proof -
    from good_ledgerD(2) [OF good m] have e: "key = own_key e" "load_ok sep now tokens e" by blast+
    then have n: "nul \<notin> set (g_token e)" "nul \<notin> set (g_scope e)"
      using safe_token_nul scope_nul by (auto simp: load_ok_def)
    from e(1) have "gap_key (g_token g) gap_scope_overflow (overflow_locator folder)
        = gap_key (g_token e) (g_scope e) (g_locator e)" by (simp add: key_def overflow_key_def own_key_def)
    then have "g_token e = g_token g \<and> g_scope e = gap_scope_overflow"
      using t n by (subst (asm) gap_key_inj) (auto simp: scope_nul)
    with e countedD [OF cnt m] show ?thesis by blast
  qed
  define o1 where "o1 = (case mget L key of
      None \<Rightarrow> new_overflow (g_token g) folder (g_class g) (g_first_run g) (g_last_run g) (g_runs g)
    | Some e \<Rightarrow> e)"
  define o' where "o' = o1\<lparr>g_skipped := g_skipped o1 + w, g_class := more_severe (g_class o1) (g_class g),
            g_last_run := (if g_last_run o1 < g_last_run g then g_last_run g else g_last_run o1),
            g_first_run := (if g_first_run g < g_first_run o1 then g_first_run g else g_first_run o1)\<rparr>"
  have f: "fold_overflow g w folder L = mput key o' L"
    by (simp add: fold_overflow_def o'_def o1_def key_def overflow_key_def Let_def)
  have "g_token o1 = g_token g \<and> g_scope o1 = gap_scope_overflow \<and> key = own_key o1
    \<and> load_ok sep now tokens o1 \<and> 0 \<le> g_skipped o1
    \<and> g_skipped o1 = (case mget L key of None \<Rightarrow> 0 | Some e \<Rightarrow> weight e)"
  proof (cases "mget L key")
    case None
    then have e: "o1 = new_overflow (g_token g) folder (g_class g) (g_first_run g) (g_last_run g) (g_runs g)"
      by (simp add: o1_def)
    show ?thesis
      unfolding e None using g
      by (simp add: new_overflow_def load_ok_def own_key_def key_def overflow_key_def)
  next
    case (Some e)
    then have "o1 = e" by (simp add: o1_def)
    with old [OF Some] overflow_weight [of e] show ?thesis unfolding Some option.case by auto
  qed
  then have o1: "g_token o1 = g_token g" "g_scope o1 = gap_scope_overflow" "key = own_key o1"
    "load_ok sep now tokens o1" "0 \<le> g_skipped o1"
    "g_skipped o1 = (case mget L key of None \<Rightarrow> 0 | Some e \<Rightarrow> weight e)"
    by blast+
  have l: "load_ok sep now tokens o'"
    using o1(4) g kc by (auto simp: o'_def load_ok_def)
  have n: "own_key o' = own_key o1" "g_token o' = g_token o1" "g_scope o' = g_scope o1"
    "g_skipped o' = g_skipped o1 + w"
    by (simp_all add: o'_def own_key_def)
  show ?thesis
  proof (intro exI conjI)
    show "fold_overflow g w folder L = mput key o' L" by (rule f)
    show s: "g_scope o' = gap_scope_overflow" unfolding n(3) by (rule o1(2))
    show "key = own_key o'" unfolding n(1) by (rule o1(3))
    show "load_ok sep now tokens o'" by (rule l)
    show p: "1 \<le> g_skipped o'" using o1(5) w n(4) by linarith
    show "g_token o' = g_token g" unfolding n(2) by (rule o1(1))
    have "weight o' = g_skipped o1 + w" using overflow_weight [OF s p] n(4) by linarith
    then show "weight o' = (case mget L key of None \<Rightarrow> w | Some e \<Rightarrow> weight e + w)"
      unfolding o1(6) by (cases "mget L key") simp_all
    show "\<forall>e. mget L key = Some e \<longrightarrow> g_token e = g_token g \<and> g_scope e = gap_scope_overflow"
      using old by blast
  qed
qed


text \<open>The bundle kept from the cleaned entries to the end.\<close>

definition capped :: "char \<Rightarrow> gotime \<Rightarrow> string list \<Rightarrow> ledger \<Rightarrow> bool" where
  "capped sep now tokens L \<longleftrightarrow> good_ledger sep now tokens L \<and> counted L
     \<and> (\<forall>t b. b \<noteq> [] \<longrightarrow> gap_bucket_count t b L \<le> gap_bucket_cap b)"

lemma cappedD:
  "capped sep now tokens L \<Longrightarrow> good_ledger sep now tokens L"
  "capped sep now tokens L \<Longrightarrow> counted L"
  "capped sep now tokens L \<Longrightarrow> b \<noteq> [] \<Longrightarrow> gap_bucket_count t b L \<le> gap_bucket_cap b"
  by (simp_all add: capped_def)

lemma capped_fold_overflow:
  assumes c: "capped sep now tokens L" and g: "load_ok sep now tokens g" and w: "1 \<le> w"
  shows "capped sep now tokens (fold_overflow g w folder L)"
    and "msum weight (fold_overflow g w folder L) = msum weight L + w"
    and "\<exists>t\<in>set tokens. folder = [] \<longrightarrow>
      set (mkeys (fold_overflow g w folder L)) \<subseteq> insert (overflow_key t []) (set (mkeys L))"
proof -
  from fold_overflow_facts [OF cappedD(1) [OF c] cappedD(2) [OF c] g w, of folder] obtain o' key where
    e: "fold_overflow g w folder L = mput key o' L" and s: "g_scope o' = gap_scope_overflow"
    and k: "key = own_key o'" "key = overflow_key (g_token g) folder" and l: "load_ok sep now tokens o'"
    and p: "1 \<le> g_skipped o'"
    and wt: "weight o' = (case mget L key of None \<Rightarrow> w | Some e \<Rightarrow> weight e + w)"
    and old: "\<And>e. mget L key = Some e \<Longrightarrow> g_scope e = gap_scope_overflow" by blast
  show "msum weight (fold_overflow g w folder L) = msum weight L + w"
    unfolding e using wt by (cases "mget L key") (simp_all add: msum_put_new msum_put_old)
  have "int (gap_bucket_count t b (mput key o' L)) = int (gap_bucket_count t b L)" if "b \<noteq> []" for t b
    unfolding bucket_count_msum using that s old
    by (cases "mget L key") (simp_all add: msum_put_new msum_put_old overflow_no_bucket)
  then have b: "gap_bucket_count t b (mput key o' L) = gap_bucket_count t b L" if "b \<noteq> []" for t b
    using that by simp
  have "counted (mput key o' L)" using cappedD(2) [OF c] p by (simp add: counted_def)
  moreover have "good_ledger sep now tokens (mput key o' L)"
    by (rule good_ledger_put [OF cappedD(1) [OF c] k(1) l])
  ultimately show "capped sep now tokens (fold_overflow g w folder L)"
    unfolding e capped_def using b cappedD(3) [OF c] by simp
  have "g_token g \<in> set tokens" using g by (simp add: load_ok_def)
  moreover have "set (mkeys (mput key o' L)) \<subseteq> insert key (set (mkeys L))" by (auto simp: dom_update)
  ultimately show "\<exists>t\<in>set tokens. folder = [] \<longrightarrow>
      set (mkeys (fold_overflow g w folder L)) \<subseteq> insert (overflow_key t []) (set (mkeys L))"
    unfolding e k(2) by blast
qed

lemma capped_fold_excess:
  "capped sep now tokens L \<Longrightarrow> \<forall>g\<in>set gs. load_ok sep now tokens g \<Longrightarrow>
     capped sep now tokens (fold (\<lambda>g. fold_overflow g (weight g) (g_folder g)) gs L)
     \<and> msum weight (fold (\<lambda>g. fold_overflow g (weight g) (g_folder g)) gs L)
       = msum weight L + sum_list (map weight gs)"
proof (induction gs arbitrary: L)
  case (Cons g gs)
  have w: "1 \<le> weight g" using weight_pos [of g] by linarith
  from Cons.prems(2) have g: "load_ok sep now tokens g" by simp
  from Cons.IH [OF capped_fold_overflow(1) [OF Cons.prems(1) g w]] Cons.prems(2)
    capped_fold_overflow(2) [OF Cons.prems(1) g w]
  show ?case by simp
qed simp

lemma capped_total_step:
  assumes c: "capped sep now tokens L"
  shows "capped sep now tokens (total_step k L)" and "msum weight (total_step k L) = msum weight L"
    and "set (mkeys (total_step k L)) \<subseteq> (set (mkeys L) - {k}) \<union> (\<lambda>t. overflow_key t []) ` set tokens"
proof -
  have "capped sep now tokens (total_step k L) \<and> msum weight (total_step k L) = msum weight L
    \<and> set (mkeys (total_step k L)) \<subseteq> (set (mkeys L) - {k}) \<union> (\<lambda>t. overflow_key t []) ` set tokens"
  proof (cases "mget L k")
    case None
    then have "total_step k L = L" by (simp add: total_step_def)
    moreover have "k \<notin> set (mkeys L)" using None by (simp add: map_of_eq_None_iff)
    ultimately show ?thesis using c by auto
  next
    case (Some g)
    note m = good_ledgerD(1) [OF cappedD(1) [OF c]]
    have w: "1 \<le> weight g" using weight_pos [of g] by linarith
    from good_ledgerD(2) [OF cappedD(1) [OF c] Some] have g: "load_ok sep now tokens g" by blast
    have "int (gap_bucket_count t b (mdel k L)) \<le> int (gap_bucket_count t b L)" for t b
      unfolding bucket_count_msum using msum_del [OF m Some] by simp
    then have le: "gap_bucket_count t b (mdel k L) \<le> gap_bucket_count t b L" for t b by simp
    have d: "capped sep now tokens (mdel k L)"
      unfolding capped_def
    proof (intro conjI allI impI)
      show "good_ledger sep now tokens (mdel k L)" by (rule good_ledger_del [OF cappedD(1) [OF c]])
      show "counted (mdel k L)" using cappedD(2) [OF c] by (auto simp: counted_def split: if_splits)
      show "gap_bucket_count t b (mdel k L) \<le> gap_bucket_cap b" if "b \<noteq> []" for t b
        using le cappedD(3) [OF c that] by (rule order_trans)
    qed
    have t: "total_step k L = fold_overflow g (weight g) [] (mdel k L)" using Some by (simp add: total_step_def)
    have "set (mkeys (mdel k L)) = set (mkeys L) - {k}" 
      by (rule set_eqI) (simp only: mget_mhas [symmetric] mhas_def mget_mdel Diff_iff singleton_iff, simp)
    with capped_fold_overflow [OF d g w, of "[]"] msum_del [OF m Some, of weight]
    show ?thesis unfolding t by auto
  qed
  then show "capped sep now tokens (total_step k L)" "msum weight (total_step k L) = msum weight L"
    "set (mkeys (total_step k L)) \<subseteq> (set (mkeys L) - {k}) \<union> (\<lambda>t. overflow_key t []) ` set tokens"
    by blast+
qed

lemma capped_total:
  "capped sep now tokens L \<Longrightarrow>
     capped sep now tokens (fold total_step ks L) \<and> msum weight (fold total_step ks L) = msum weight L
     \<and> set (mkeys (fold total_step ks L)) \<subseteq> (set (mkeys L) - set ks) \<union> (\<lambda>t. overflow_key t []) ` set tokens"
proof (induction ks arbitrary: L)
  case (Cons k ks)
  note st = capped_total_step [OF Cons.prems, of k]
  from Cons.IH [OF st(1)] st(2,3) show ?case by (simp add: subset_iff) blast
qed auto


subsection \<open>The caps applied\<close>

definition weight_at :: "ledger \<Rightarrow> string \<Rightarrow> int" where
  "weight_at L k = (case mget L k of None \<Rightarrow> 0 | Some g \<Rightarrow> weight g)"

lemma weight_at_keys: "mok L \<Longrightarrow> sum_list (map (weight_at L) (mkeys L)) = msum weight L"
proof (induction L)
  case (Cons x L)
  have eq: "map (weight_at (x # L)) (mkeys L) = map (weight_at L) (mkeys L)"
  proof (intro map_cong refl)
    fix k assume "k \<in> set (mkeys L)"
    moreover have "fst x \<notin> set (mkeys L)" using Cons.prems by simp
    ultimately have "k \<noteq> fst x" by metis
    then show "weight_at (x # L) k = weight_at L k" by (simp add: weight_at_def)
  qed
  have "mok L" using Cons.prems by simp
  from Cons.IH [OF this]
  have "sum_list (map (weight_at (x # L)) (mkeys (x # L))) = weight_at (x # L) (fst x) + msum weight L"
    by (simp only: list.map sum_list.Cons eq)
  moreover have "weight_at (x # L) (fst x) = weight (snd x)" by (simp add: weight_at_def)
  ultimately show ?case by (simp only: msum_Cons)
qed simp

definition cap_inv :: "char \<Rightarrow> gotime \<Rightarrow> string list \<Rightarrow>
    (string \<times> string, nat) gomap \<times> ledger \<times> capture_gap list \<Rightarrow> bool" where
  "cap_inv sep now tokens st \<longleftrightarrow> (case st of (used, out, excess) \<Rightarrow>
     capped sep now tokens out \<and> (\<forall>g\<in>set excess. load_ok sep now tokens g)
     \<and> (\<forall>t b. b \<noteq> [] \<longrightarrow> gap_bucket_count t b out = (case mget used (t, b) of None \<Rightarrow> 0 | Some n \<Rightarrow> n)))"

definition cap_weight :: "(string \<times> string, nat) gomap \<times> ledger \<times> capture_gap list \<Rightarrow> int" where
  "cap_weight st = msum weight (fst (snd st)) + sum_list (map weight (snd (snd st)))"

lemma cap_step_inv:
  assumes clean: "good_ledger sep now tokens clean" "counted clean" and i: "cap_inv sep now tokens st"
    and new: "mget (fst (snd st)) k = None"
  shows "cap_inv sep now tokens (cap_step clean k st)
    \<and> cap_weight (cap_step clean k st) = cap_weight st + weight_at clean k
    \<and> set (mkeys (fst (snd (cap_step clean k st)))) \<subseteq> insert k (set (mkeys (fst (snd st))))"
proof (cases "mget clean k")
  case None
  with i show ?thesis by (auto simp: cap_step_def weight_at_def split: prod.splits)
next
  case (Some g)
  obtain used out excess where st: "st = (used, out, excess)" by (cases st)
  let ?b = "gap_bucket g" and ?t = "g_token g"
  let ?n = "case mget used (?t, ?b) of None \<Rightarrow> 0 | Some n \<Rightarrow> n"
  from good_ledgerD(2) [OF clean(1) Some] have g: "k = own_key g" "load_ok sep now tokens g" by blast+
  from i have c: "capped sep now tokens out" and ex: "\<forall>g\<in>set excess. load_ok sep now tokens g"
    and u: "\<And>t b. b \<noteq> [] \<Longrightarrow> gap_bucket_count t b out = (case mget used (t, b) of None \<Rightarrow> 0 | Some n \<Rightarrow> n)"
    by (auto simp: cap_inv_def st)
  have n: "mget out k = None" using new by (simp add: st)
  have "int (gap_bucket_count t b (mput k g out)) = int (gap_bucket_count t b out)
      + (if ?t = t \<and> ?b = b then 1 else 0)" for t b
    unfolding bucket_count_msum using n by (simp add: msum_put_new)
  then have cnt: "gap_bucket_count t b (mput k g out) = gap_bucket_count t b out
      + (if ?t = t \<and> ?b = b then 1 else 0)" for t b
    by (rule nat_if)
  have put: "capped sep now tokens (mput k g out)" if "?b \<noteq> [] \<Longrightarrow> ?n < gap_bucket_cap ?b"
    unfolding capped_def
  proof (intro conjI allI impI)
    show "good_ledger sep now tokens (mput k g out)" by (rule good_ledger_put [OF cappedD(1) [OF c] g])
    show "counted (mput k g out)"
      using cappedD(2) [OF c] countedD [OF clean(2) Some] by (auto simp: counted_def)
    fix t b :: string assume b: "b \<noteq> []"
    show "gap_bucket_count t b (mput k g out) \<le> gap_bucket_cap b"
    proof (cases "?t = t \<and> ?b = b")
      case True
      with b that u [OF b, of t] show ?thesis unfolding cnt by auto
    next
      case False
      with cappedD(3) [OF c b, of t] show ?thesis unfolding cnt if_not_P [OF False] by simp
    qed
  qed
  have w: "msum weight (mput k g out) = msum weight out + weight g" using n by (rule msum_put_new)
  have keys: "set (mkeys (mput k g out)) \<subseteq> insert k (set (mkeys out))" by (auto simp: dom_update)
  consider "?b = []" | "?b \<noteq> []" "gap_bucket_cap ?b \<le> ?n" | "?b \<noteq> []" "?n < gap_bucket_cap ?b" by linarith
  then show ?thesis
  proof cases
    case 1
    then have e: "cap_step clean k st = (used, mput k g out, excess)"
      by (simp add: cap_step_def st Some Let_def)
    show ?thesis
      unfolding e using put 1 ex u cnt w keys by (auto simp: cap_inv_def cap_weight_def st weight_at_def Some)
  next
    case 2
    then have e: "cap_step clean k st = (used, out, excess @ [g])"
      by (simp add: cap_step_def st Some Let_def)
    show ?thesis
      unfolding e using c ex u g(2) by (auto simp: cap_inv_def cap_weight_def st weight_at_def Some)
  next
    case 3
    then have e: "cap_step clean k st = (mput (?t, ?b) (?n + 1) used, mput k g out, excess)"
      by (simp add: cap_step_def st Some Let_def)
    show ?thesis
      unfolding e using put 3 ex u cnt w keys by (auto simp: cap_inv_def cap_weight_def st weight_at_def Some)
  qed
qed

lemma cap_steps_inv:
  assumes clean: "good_ledger sep now tokens clean" "counted clean"
  shows "cap_inv sep now tokens st \<Longrightarrow> distinct ks \<Longrightarrow> set ks \<inter> set (mkeys (fst (snd st))) = {} \<Longrightarrow>
     cap_inv sep now tokens (fold (cap_step clean) ks st)
     \<and> cap_weight (fold (cap_step clean) ks st) = cap_weight st + sum_list (map (weight_at clean) ks)"
proof (induction ks arbitrary: st)
  case (Cons k ks)
  have "mget (fst (snd st)) k = None" using Cons.prems(3) by (auto simp: map_of_eq_None_iff)
  note st = cap_step_inv [OF clean Cons.prems(1) this]
  have "set ks \<inter> set (mkeys (fst (snd (cap_step clean k st)))) = {}"
    using st [THEN conjunct2, THEN conjunct2] Cons.prems(2,3) by (simp add: subset_iff disjoint_iff) blast
  with Cons.IH [of "cap_step clean k st"] st Cons.prems(2) show ?case by simp
qed simp


lemma load_clean_counted:
  assumes "\<forall>(k, g)\<in>set L. g_scope g = gap_scope_overflow \<longrightarrow> 1 \<le> g_skipped g"
  shows "counted (load_clean sep now tokens L)"
proof -
  have one: "1 \<le> g_skipped (load_gap now g)"
    if "mget L k = Some g" "g_scope (load_gap now g) = gap_scope_overflow" for k g
  proof -
    from that(2) have "g_scope g = gap_scope_overflow"
      unfolding load_gap_facts(4) by (simp add: sanitize_gap_def split: if_splits)
    with assms that(1) have "1 \<le> g_skipped g" by (auto dest: map_of_SomeD)
    then show ?thesis unfolding load_gap_facts(6) by (simp add: sanitize_gap_def max_gap_skipped_def)
  qed
  have step: "counted (load_step sep now tokens L k clean)" if c: "counted clean" for k clean
  proof (cases "mget L k")
    case None
    with c show ?thesis by (simp add: load_step_def)
  next
    case (Some raw)
    have "counted (mput (own_key (load_gap now raw)) (load_gap now raw) clean)"
      using c one [OF Some] by (simp add: counted_def)
    moreover have "counted (mput nk prev clean)" if "mget clean nk = Some prev" for nk prev
      using c countedD [OF c that] by (simp add: counted_def)
    ultimately show ?thesis using c Some by (auto simp: load_step_def Let_def split: option.split)
  qed
  have "counted (fold (load_step sep now tokens L) ks clean)" if "counted clean" for ks clean
    using that by (induction ks arbitrary: clean) (simp_all add: step)
  moreover have "counted []" by (simp add: counted_def)
  ultimately show ?thesis unfolding load_clean_def by blast
qed

lemma cap_ledger_facts:
  assumes clean: "good_ledger sep now tokens clean" "counted clean"
  shows "capped sep now tokens (cap_ledger clean) \<and> msum weight (cap_ledger clean) = msum weight clean
    \<and> length (cap_ledger clean) \<le> max_gap_total + card (set tokens)"
proof -
  let ?ks = "sort (mkeys clean)"
  obtain used out excess where run: "fold (cap_step clean) ?ks ([], [], []) = (used, out, excess)"
    by (metis prod.collapse)
  note m = good_ledgerD(1) [OF clean(1)]
  have "capped sep now tokens []"
    by (simp add: capped_def good_ledger_def counted_def gap_bucket_count_def)
  then have "cap_inv sep now tokens ([], [], [])" by (simp add: cap_inv_def gap_bucket_count_def)
  from cap_steps_inv [OF clean this, of ?ks] m run
  have i: "cap_inv sep now tokens (used, out, excess)"
    and w: "cap_weight (used, out, excess) = sum_list (map (weight_at clean) ?ks)"
    by (simp_all add: cap_weight_def)
  have "sum_mset (image_mset (weight_at clean) (mset ?ks)) = sum_mset (image_mset (weight_at clean) (mset (mkeys clean)))"
    by simp
  then have "sum_list (map (weight_at clean) ?ks) = msum weight clean"
    using weight_at_keys [OF m] by (simp only: mset_map [symmetric] sum_mset_sum_list)
  with w have w: "msum weight out + sum_list (map weight excess) = msum weight clean"
    by (simp add: cap_weight_def)
  let ?o = "fold (\<lambda>g. fold_overflow g (weight g) (g_folder g)) excess out"
  from i have "capped sep now tokens out" "\<forall>g\<in>set excess. load_ok sep now tokens g"
    by (auto simp: cap_inv_def)
  from capped_fold_excess [OF this] w have o: "capped sep now tokens ?o" "msum weight ?o = msum weight clean"
    by simp_all
  note mo = good_ledgerD(1) [OF cappedD(1) [OF o(1)]]
  show ?thesis
  proof (cases "max_gap_total < length ?o")
    case False
    then have "cap_ledger clean = ?o" by (simp add: cap_ledger_def run Let_def)
    with o False show ?thesis by simp
  next
    case True
    let ?s = "sort (mkeys ?o)"
    let ?r = "fold total_step (drop max_gap_total ?s) ?o"
    have e: "cap_ledger clean = ?r" using True by (simp add: cap_ledger_def run Let_def)
    note t = capped_total [OF o(1), of "drop max_gap_total ?s"]
    have d: "distinct ?s" and s: "set ?s = set (mkeys ?o)" using mo by simp_all
    have "set (mkeys ?o) - set (drop max_gap_total ?s) \<subseteq> set (take max_gap_total ?s)"
    proof -
      have "set ?s = set (take max_gap_total ?s) \<union> set (drop max_gap_total ?s)"
        by (simp only: set_append [symmetric] append_take_drop_id)
      with s show ?thesis by blast
    qed
    with t have sub: "set (mkeys ?r) \<subseteq> set (take max_gap_total ?s) \<union> (\<lambda>t. overflow_key t []) ` set tokens"
      by blast
    have "card (set (mkeys ?r)) = length ?r"
      using distinct_card [OF good_ledgerD(1) [OF cappedD(1) [OF t [THEN conjunct1]]]]
      by (simp only: length_map)
    moreover have "card (set (take max_gap_total ?s)) \<le> max_gap_total"
      using card_length [of "take max_gap_total ?s"] by simp
    moreover have "card ((\<lambda>t. overflow_key t []) ` set tokens) \<le> card (set tokens)"
      by (rule card_image_le) simp
    moreover have "card (set (mkeys ?r)) \<le> card (set (take max_gap_total ?s) \<union> (\<lambda>t. overflow_key t []) ` set tokens)"
      by (rule card_mono [OF _ sub]) simp
    moreover note card_Un_le [of "set (take max_gap_total ?s)" "(\<lambda>t. overflow_key t []) ` set tokens"]
    ultimately have "length ?r \<le> max_gap_total + card (set tokens)" by linarith
    with t o(2) show ?thesis unfolding e by simp
  qed
qed

text \<open>
  C22: a ledger read back is safe, if each overflow entry of the file stands for at least one gap as every
  overflow entry the code writes does: every entry sits at its own key, belongs to a
  store of this archive, has a known class and scope and sane times, no lifetime cap is exceeded for
  any token, the whole is at most twenty thousand entries and one per store, and nothing that survived
  the cleaning is lost: the entries over a cap are counted exactly in the overflow entries (FC14, FC16,
  FC17, MA-157).
\<close>

theorem loading_bounds_the_ledger:
  fixes sep :: char and now :: gotime and stores :: "(string, string) gomap"
  assumes "\<forall>(k, g)\<in>set L. g_scope g = gap_scope_overflow \<longrightarrow> 1 \<le> g_skipped g"
  defines "out \<equiv> sanitize_gaps sep now stores L"
  shows "ledger_ok out
     \<and> (\<forall>k g. mget out k = Some g \<longrightarrow> safe_token sep (g_token g) \<and> g_token g \<in> snd ` set stores
          \<and> known_class (g_class g) \<and> g_first_run g \<le> g_last_run g \<and> g_last_run g \<le> now \<and> 1 \<le> g_runs g)
     \<and> (\<forall>token b. b \<noteq> [] \<longrightarrow> gap_bucket_count token b out \<le> gap_bucket_cap b)
     \<and> length out \<le> 20000 + card (snd ` set stores)
     \<and> msum weight out = msum weight (load_clean sep now (map snd stores) L)"
proof -
  let ?tokens = "map snd stores"
  have e: "out = cap_ledger (load_clean sep now ?tokens L)"
    by (simp add: out_def sanitize_gaps_def cap_ledger_def load_clean_def Let_def)
  from cap_ledger_facts [OF load_clean_good load_clean_counted [OF assms(1)], of sep now ?tokens]
  have c: "capped sep now ?tokens out" and r: "msum weight out = msum weight (load_clean sep now ?tokens L)"
    "length out \<le> max_gap_total + card (set ?tokens)" unfolding e by blast+
  have "entry_ok k g" if "mget out k = Some g" for k g
    using good_ledgerD(2) [OF cappedD(1) [OF c] that] countedD [OF cappedD(2) [OF c] that] safe_token_nul
    by (auto simp: entry_ok_def load_ok_def)
  then have "ledger_ok out" using good_ledgerD(1) [OF cappedD(1) [OF c]] by (simp add: ledger_ok_def)
  moreover have "safe_token sep (g_token g) \<and> g_token g \<in> snd ` set stores
          \<and> known_class (g_class g) \<and> g_first_run g \<le> g_last_run g \<and> g_last_run g \<le> now \<and> 1 \<le> g_runs g"
    if "mget out k = Some g" for k g
    using good_ledgerD(2) [OF cappedD(1) [OF c] that] by (simp add: load_ok_def)
  ultimately show ?thesis using cappedD(3) [OF c] r by (simp add: max_gap_total_def)
qed

theorem loading_bounds_the_ledger_witness:
  "length (sanitize_gaps CHR ''/'' 9 [(''path:a'', ''m'')] [(''k'', sample_gap)]) \<le> 20001"
proof -
  have "\<forall>(k, g)\<in>set [(''k'', sample_gap)]. g_scope g = gap_scope_overflow \<longrightarrow> 1 \<le> g_skipped g"
    by (simp add: sample_gap_def)
  from loading_bounds_the_ledger [OF this, of "CHR ''/''" 9 "[(''path:a'', ''m'')]"] show ?thesis by simp
qed

end
