(* ===== verification/Findings.thy ===== *)
theory Findings
  imports Collapse LedgerLoad
begin

text \<open>
  Where the code does what its comments rule out: each lemma runs the model on a small manifest.
\<close>

subsection \<open>The identity collapse\<close>

text \<open>A manifest that holds a message under a folder and under its live key.\<close>
definition put_off :: manifest where
  "put_off = (new_manifest [])\<lparr>m_entries :=
     [(folder_key ''m'' ''I'' ''mid:a'', mail_in ''I'' ''a'' 1),
      (live_key ''m'' ''mid:a'', mail_in ''I'' ''b'' 2)]\<rparr>"

text \<open>
  C24: a collapse that was put off can drop a record: in a manifest that holds a message under a folder (its upgrade was put off, see \<^verbatim>\<open>app/graph.go\<close>)
  and under its live key as well (the run that put it off archived it again): the first survivor
  takes the live key without asking whether it is taken, so the record that had it is gone, with no
  loss reported and its file on no record's list.
\<close>

lemma collapse_overwrites_a_live_record:
  "\<exists>m'. collapse_by_identity None [] put_off
      = (([], [(folder_key ''m'' ''I'' ''mid:a'', live_key ''m'' ''mid:a'')]), m')
     \<and> \<not> keeps_path (m_entries m') ''b''"
proof -
  have e: "collapse_all None [] (m_entries put_off) =
     ([(live_key ''m'' ''mid:a'', (mail_in ''I'' ''a'' 1)\<lparr>r_first_folder := ''I'', r_first_seen := 1,
         r_last_seen := 1, r_present := True\<rparr>)],
      [(folder_key ''m'' ''I'' ''mid:a'', live_key ''m'' ''mid:a'')], [])"
    by (simp add: collapse_eval put_off_def Let_def)
  have "m_entries put_off \<noteq> []" by (simp add: put_off_def)
  then show ?thesis
    by (simp add: collapse_by_identity_def e keeps_path_def mail_in_def zero_rec_def)
qed


subsection \<open>The gap ledger\<close>

text \<open>
  The overflow entry of a folder whose path is over 503 bytes is keyed by a locator longer than the
  ledger's bound on locators: loading cuts it, so the entry no longer sits where the next absorbed gap
  of that folder looks for it.
\<close>

lemma reload_cuts_a_long_overflow_locator:
  assumes "503 < length folder"
  shows "g_locator (sanitize_gap (new_overflow token folder cls fr lr runs)) \<noteq> overflow_locator folder"
proof
  let ?g = "new_overflow token folder cls fr lr runs"
  assume "g_locator (sanitize_gap ?g) = overflow_locator folder"
  moreover have "length (g_locator (sanitize_gap ?g)) \<le> max_gap_locator"
    using gap.clean_safe [of ?g] by (simp add: gap_safe_def)
  ultimately show False using assms by (simp add: overflow_locator_def max_gap_locator_def)
qed

text \<open>
  The caps are asked of a new entry only: a later run that observes a listed note (class info) as a
  loss files it under the items whatever their number, so the notes of a store can be turned into
  items beyond the thousand, a hundred at a time.
\<close>

lemma a_reclassed_note_ignores_the_cap:
  assumes "ledger_ok L" and "safe_token sep (g_token raw)"
    and "mget L (own_key (observed_gap raw)) = Some old" and "gap_bucket old = class_info"
    and "gap_bucket (observed_gap raw) = gap_scope_item" and "g_last_run old \<noteq> run_at"
  shows "gap_bucket_count (g_token raw) gap_scope_item (snd (observe_gap sep raw run_at L))
     = gap_bucket_count (g_token raw) gap_scope_item L + 1"
proof -
  let ?g = "observed_gap raw" and ?t = "g_token raw"
  have t: "g_token ?g = ?t" by (rule observed_facts)
  with assms(2) have nn: "nul \<notin> set (g_token ?g)" by (simp add: safe_token_nul)
  from old_same_scope [OF assms(1,3) nn observed_facts(1)] t
  have o: "g_token old = ?t" "g_scope old = g_scope ?g" by simp_all
  let ?n = "observe_old ?g run_at old"
  have c: "g_class ?n = g_class ?g" using assms(6) by (simp add: observe_old_def Let_def)
  have "gap_bucket ?n = gap_bucket ?g" by (simp add: gap_bucket_def observe_old_frame o c)
  then have b: "gap_bucket ?n = gap_scope_item" using assms(5) by simp
  have n: "g_token ?n = ?t" by (simp add: observe_old_frame o)
  have "snd (observe_gap sep raw run_at L) = mput (own_key ?g) ?n L"
    using assms(2,3) t by (simp add: observe_gap_def Let_def)
  moreover have "int (gap_bucket_count ?t gap_scope_item (mput (own_key ?g) ?n L))
      = int (gap_bucket_count ?t gap_scope_item L) + 1"
    unfolding bucket_count_msum using assms(3,4) b n by (simp add: msum_put_old)
  ultimately show ?thesis by simp
qed

end
