(* ===== verification/AsciiText.thy ===== *)
theory AsciiText
  imports BoundText
begin

text \<open>
  Single-byte characters in a text: a byte below 0x80 is always a rune of its own, so the byte
  operations of Go's \<^verbatim>\<open>strings\<close> package and the rune operations agree on them.  The trims,
  the case mapping and the cuts the naming routines are built from are here.
\<close>

subsection \<open>ASCII bytes are runes\<close>

abbreviation ascii :: "char \<Rightarrow> bool" where
  "ascii c \<equiv> byte c < 0x80"

lemma decode_ascii [simp]: "ascii c \<Longrightarrow> decode_rune (c # s) = (byte c, 1)"
  by (simp add: decode_rune_def)

lemma runes_Cons_ascii [simp]: "ascii c \<Longrightarrow> runes (c # s) = byte c # runes s"
  by (subst runes.simps) simp

lemma not_cont_ascii: "b < 0x80 \<Longrightarrow> \<not> in_range (second_lo a) hi b" "b < 0x80 \<Longrightarrow> \<not> in_range 0x80 hi b"
  by (auto simp: in_range_def second_lo_def)

lemma decode_before_ascii:
  assumes "a \<noteq> []" and "ascii c"
  shows "decode_rune (a @ c # b) = decode_rune a \<and> snd (decode_rune a) \<le> length a"
proof -
  note d = decode_rune_def decode2_def decode3_def decode4_def not_cont_ascii [OF assms(2)]
  obtain w v where a: "a = w # v" using assms(1) by (cases a) auto
  show ?thesis
  proof (cases v)
    case Nil
    then show ?thesis by (simp add: a d split: list.splits)
  next
    case (Cons x v')
    show ?thesis
    proof (cases v')
      case Nil
      then show ?thesis by (simp add: a Cons d split: list.splits)
    next
      case c2: (Cons y v'')
      show ?thesis by (cases v'') (simp_all add: a Cons c2 d split: list.splits)
    qed
  qed
qed

lemma runes_split_ascii: "ascii c \<Longrightarrow> runes (a @ c # b) = runes a @ byte c # runes b"
proof (induction a rule: length_induct)
  case (1 a)
  show ?case
  proof (cases "a = []")
    case True
    then show ?thesis using 1(2) by simp
  next
    case False
    let ?n = "snd (decode_rune a)"
    have d: "decode_rune (a @ c # b) = decode_rune a" "?n \<le> length a"
      using decode_before_ascii [OF False 1(2)] by blast+
    have "length (drop ?n a) < length a" using decode_width_pos [OF False] False by simp
    with 1 have ih: "runes (drop ?n a @ c # b) = runes (drop ?n a) @ byte c # runes b" by blast
    have "runes (a @ c # b) = fst (decode_rune a) # runes (drop ?n (a @ c # b))"
      using False by (subst runes.simps) (simp add: d(1))
    also have "drop ?n (a @ c # b) = drop ?n a @ c # b" using d(2) by simp
    finally show ?thesis using ih False by (subst (2) runes.simps) simp
  qed
qed

lemma runes_append_ascii: "ascii c \<Longrightarrow> runes (a @ [c]) = runes a @ [byte c]"
  using runes_split_ascii [of c a "[]"] by simp

lemma runes_ascii_append: "list_all ascii b \<Longrightarrow> runes (a @ b) = runes a @ map byte b"
proof (induction b arbitrary: a)
  case (Cons c b)
  then have "runes (a @ c # b) = runes (a @ [c]) @ map byte b" using Cons.IH [of "a @ [c]"] by simp
  with Cons.prems show ?case by (simp add: runes_append_ascii)
qed simp

lemma runes_ascii: "list_all ascii s \<Longrightarrow> runes s = map byte s"
  using runes_ascii_append [of s "[]"] by simp

lemma byte_inject [simp]: "byte a = byte b \<longleftrightarrow> a = b"
  by (simp add: byte_def)

text \<open>A sequence of more than one byte never decodes to an ASCII character.\<close>

lemma decode_not_ascii:
  assumes "\<not> ascii x"
  shows "0x80 \<le> fst (decode_rune (x # s))"
proof -
  let ?b = "byte x"
  have "0x80 \<le> fst (decode2 ?b bs)" if b: "in_range 0xC2 0xDF ?b" for bs
  proof -
    have "2 \<le> ?b mod 32" using b lead_mod [of 32 6 "?b - 0xC0"] mod_less [of "?b - 0xC0" 32]
      by (auto simp: in_range_def)
    then show ?thesis by (auto simp: decode2_def split: list.split)
  qed
  moreover have "0x80 \<le> fst (decode3 ?b bs)" if b: "in_range 0xE0 0xEF ?b" for bs
  proof -
    have "2048 \<le> ?b mod 16 * 4096 + b1 mod 64 * 64"
      if r: "in_range (second_lo ?b) (second_hi ?b) b1" for b1
      using lead3_mod [OF b] cont_mod [OF second_cont [OF r]] b r
      by (cases "?b = 0xE0") (auto simp: in_range_def second_lo_def)
    then show ?thesis by (fastforce simp: decode3_def split: list.split)
  qed
  moreover have "0x80 \<le> fst (decode4 ?b bs)" if b: "in_range 0xF0 0xF4 ?b" for bs
  proof -
    have "65536 \<le> ?b mod 8 * 262144 + b1 mod 64 * 4096"
      if r: "in_range (second_lo ?b) (second_hi ?b) b1" for b1
      using lead4_mod [OF b] cont_mod [OF second_cont [OF r]] b r
      by (cases "?b = 0xF0") (auto simp: in_range_def second_lo_def)
    then show ?thesis by (fastforce simp: decode4_def split: list.split)
  qed
  ultimately show ?thesis using assms by (simp add: decode_rune_def)
qed

lemma in_runes_ascii:
  assumes "ascii c"
  shows "byte c \<in> set (runes s) \<longleftrightarrow> c \<in> set s"
proof
  assume "c \<in> set s"
  then obtain a b where "s = a @ c # b" by (meson split_list)
  with assms show "byte c \<in> set (runes s)" by (simp add: runes_split_ascii)
next
  show "byte c \<in> set (runes s) \<Longrightarrow> c \<in> set s"
  proof (induction s rule: runes.induct)
    case (1 s)
    then have ne: "s \<noteq> []" by auto
    obtain r n where d: "decode_rune s = (r, n)" by fastforce
    have "byte c = r \<or> byte c \<in> set (runes (drop n s))"
      using 1(2) ne by (subst (asm) runes.simps) (simp add: d)
    then show ?case
    proof
      assume "byte c \<in> set (runes (drop n s))"
      with 1(1) ne d show ?thesis by (auto dest: in_set_dropD)
    next
      assume r: "byte c = r"
      obtain x t where s: "s = x # t" using ne by (cases s) auto
      have "ascii x"
        using decode_not_ascii [of x t] d r assms by (cases "ascii x") (auto simp: s)
      then have "byte x = r" using d by (simp add: s)
      with r have "byte c = byte x" by simp
      then show ?thesis by (simp add: s)
    qed
  qed
qed

subsection \<open>Trimming\<close>

text \<open>\<^verbatim>\<open>strings.TrimLeft\<close>, \<^verbatim>\<open>TrimRight\<close> and \<^verbatim>\<open>Trim\<close> with a cutset of ASCII characters.\<close>

definition trim_left :: "string \<Rightarrow> string \<Rightarrow> string" where
  "trim_left cs s = dropWhile (\<lambda>c. c \<in> set cs) s"

definition trim_right :: "string \<Rightarrow> string \<Rightarrow> string" where
  "trim_right cs s = rev (trim_left cs (rev s))"

definition trim :: "string \<Rightarrow> string \<Rightarrow> string" where
  "trim cs s = trim_right cs (trim_left cs s)"

lemma trim_left_suffix: "suffix (trim_left cs s) s"
  by (simp add: trim_left_def suffix_dropWhile)

lemma trim_right_prefix: "prefix (trim_right cs s) s"
  using trim_left_suffix [of cs "rev s"] by (simp add: trim_right_def suffix_to_prefix)

lemma set_trims:
  "set (trim_left cs s) \<subseteq> set s" "set (trim_right cs s) \<subseteq> set s" "set (trim cs s) \<subseteq> set s"
proof -
  show l: "set (trim_left cs s) \<subseteq> set s" for s using set_mono_suffix [OF trim_left_suffix] .
  show r: "set (trim_right cs s) \<subseteq> set s" for s using set_mono_prefix [OF trim_right_prefix] .
  show "set (trim cs s) \<subseteq> set s" unfolding trim_def using l r by blast
qed

lemma length_trim_right: "length (trim_right cs s) \<le> length s"
  by (rule prefix_length_le [OF trim_right_prefix])

lemma trim_left_hd: "trim_left cs s \<noteq> [] \<Longrightarrow> hd (trim_left cs s) \<notin> set cs"
  unfolding trim_left_def using hd_dropWhile [of "\<lambda>c. c \<in> set cs" s] by simp

lemma trim_right_last: "trim_right cs s \<noteq> [] \<Longrightarrow> last (trim_right cs s) \<notin> set cs"
  using trim_left_hd [of cs "rev s"] by (simp add: trim_right_def last_rev)

lemma trim_right_hd: "trim_right cs s \<noteq> [] \<Longrightarrow> hd (trim_right cs s) = hd s"
  using trim_right_prefix [of cs s] by (metis prefix_def hd_append2)

lemma trim_ends:
  assumes "trim cs s \<noteq> []"
  shows "hd (trim cs s) \<notin> set cs" "last (trim cs s) \<notin> set cs"
proof -
  have "trim_right cs [] = []" by (simp add: trim_right_def trim_left_def)
  with assms have "trim_left cs s \<noteq> []" unfolding trim_def by metis
  from trim_left_hd [OF this] trim_right_hd [of cs "trim_left cs s"] assms
  show "hd (trim cs s) \<notin> set cs" by (simp add: trim_def)
  show "last (trim cs s) \<notin> set cs" using assms trim_right_last unfolding trim_def by blast
qed

text \<open>\<^verbatim>\<open>unicode.IsSpace\<close> and \<^verbatim>\<open>strings.TrimSpace\<close>: white space dropped rune by rune at both ends.\<close>

definition space_rune :: "nat \<Rightarrow> bool" where
  "space_rune r \<longleftrightarrow> in_range 9 13 r \<or> r \<in> {0x20, 0x85, 0xA0, 0x1680, 0x2028, 0x2029, 0x202F, 0x205F, 0x3000}
     \<or> in_range 0x2000 0x200A r"

function trim_space_left :: "string \<Rightarrow> string" where
  "trim_space_left s = (if s \<noteq> [] \<and> space_rune (fst (decode_rune s))
     then trim_space_left (drop (snd (decode_rune s)) s) else s)"
  by pat_completeness auto
termination
  by (relation "measure length") (auto simp: decode_width_pos)

lemma last_start_less: "s \<noteq> [] \<Longrightarrow> last_start s < length s"
  by (auto simp: last_start_def Let_def dest!: find_Some_in split: option.split)

lemma decode_last_pos: "s \<noteq> [] \<Longrightarrow> 0 < snd (decode_last_rune s)"
  using decode_width_pos [of "drop (last_start s) s"] last_start_less [of s]
  by (auto simp: decode_last_rune_def Let_def split: prod.split)

function trim_space_right :: "string \<Rightarrow> string" where
  "trim_space_right s = (if s \<noteq> [] \<and> space_rune (fst (decode_last_rune s))
     then trim_space_right (take (length s - snd (decode_last_rune s)) s) else s)"
  by pat_completeness auto
termination
  by (relation "measure length") (auto simp: decode_last_pos)

declare trim_space_left.simps [simp del] trim_space_right.simps [simp del]

definition trim_space :: "string \<Rightarrow> string" where
  "trim_space s = trim_space_right (trim_space_left s)"

lemma trim_space_left_suffix: "suffix (trim_space_left s) s"
  by (induction s rule: trim_space_left.induct)
    (subst trim_space_left.simps, auto intro: suffix_order.trans suffix_drop)

lemma trim_space_right_prefix: "prefix (trim_space_right s) s"
  by (induction s rule: trim_space_right.induct)
    (subst trim_space_right.simps, auto intro: prefix_order.trans take_is_prefix)

lemma set_trim_space: "set (trim_space s) \<subseteq> set s"
  using set_mono_prefix [OF trim_space_right_prefix] set_mono_suffix [OF trim_space_left_suffix]
  unfolding trim_space_def by blast

end
