(* ===== verification/Paths.thy ===== *)
theory Paths
  imports AsciiText GoTime
begin

text \<open>
  Names on disk (\<^verbatim>\<open>internal/util/paths.go\<close>, \<^verbatim>\<open>exportnames.go\<close>): the path segment,
  file name and slug built from a name a mail source gives, the stricter pass of the copy export, and
  the check of a recorded path.  Unicode normalisation (\<^verbatim>\<open>golang.org/x/text\<close>) is the parameter
  \<open>nfc\<close>, the Unicode tables the parameters \<open>letter\<close> and \<open>cf\<close>; nothing is assumed of
  them.
\<close>

subsection \<open>Segments\<close>

definition segment_max :: nat where "segment_max = 120"
definition ext_max :: nat where "ext_max = 24"

definition illegal :: "char \<Rightarrow> bool" where
  "illegal c \<longleftrightarrow> c \<in> {CHR ''<'', CHR ''>'', CHR '':'', CHR 0x22, CHR ''/'', CHR 0x5C, CHR ''|'', CHR ''?'', CHR ''*''}
     \<or> byte c < 0x20"

definition blank :: "char \<Rightarrow> bool" where
  "blank c \<longleftrightarrow> byte c \<in> {9, 10, 12, 13, 32}"

text \<open>Every run of characters replaced by one (\<^verbatim>\<open>multiSpace\<close>, \<^verbatim>\<open>multiDash\<close>).\<close>

function squeeze :: "char \<Rightarrow> (char \<Rightarrow> bool) \<Rightarrow> string \<Rightarrow> string" where
  "squeeze rep P [] = []"
| "squeeze rep P (c # s) =
     (if P c then rep # squeeze rep P (dropWhile P s) else c # squeeze rep P s)"
  by pat_completeness auto
termination
  by (relation "measure (\<lambda>(_, _, s). length s)") (auto simp: le_imp_less_Suc length_dropWhile_le)

text \<open>
  \<^verbatim>\<open>strings.ToUpper\<close> as far as a comparison with ASCII names sees it: the dotless i and the
  long s are the two other characters whose capital is an ASCII letter.
\<close>

definition upper_rune :: "nat \<Rightarrow> nat" where
  "upper_rune r = (if in_range 97 122 r then r - 32 else if r = 0x131 then 73 else if r = 0x17F then 83 else r)"

definition upper_name :: "string \<Rightarrow> string" where
  "upper_name s = encode_runes (map upper_rune (runes s))"

definition reserved_names :: "string list" where
  "reserved_names = [''CON'', ''PRN'', ''AUX'', ''NUL'',
     ''COM1'', ''COM2'', ''COM3'', ''COM4'', ''COM5'', ''COM6'', ''COM7'', ''COM8'', ''COM9'',
     ''LPT1'', ''LPT2'', ''LPT3'', ''LPT4'', ''LPT5'', ''LPT6'', ''LPT7'', ''LPT8'', ''LPT9'']"

definition is_reserved :: "string \<Rightarrow> bool" where
  "is_reserved s \<longleftrightarrow> upper_name (upto_byte CHR ''.'' s) \<in> set reserved_names"

definition truncate_runes :: "string \<Rightarrow> nat \<Rightarrow> string" where
  "truncate_runes s mx = (if mx = 0 then s else let r = runes s
     in if length r \<le> mx then s else encode_runes (take mx r))"

definition short_hash :: "string \<Rightarrow> string" where
  "short_hash s = hash_hex s 8"

definition segment_core :: "(string \<Rightarrow> string) \<Rightarrow> string \<Rightarrow> string \<times> bool" where
  "segment_core nfc s0 =
     (let s = nfc s0; cleaned = map (\<lambda>c. if illegal c then CHR '' '' else c) s; changed = (cleaned \<noteq> s);
          s = trim '' .'' (squeeze CHR '' '' blank cleaned)
      in if s = [] then (''untitled'', False)
         else let s = (if is_reserved s then CHR ''_'' # s else s)
         in if segment_max < length (runes s) then (truncate_runes s segment_max, True) else (s, changed))"

definition sanitize_segment :: "(string \<Rightarrow> string) \<Rightarrow> string \<Rightarrow> string" where
  "sanitize_segment nfc s = (case segment_core nfc s of (out, changed) \<Rightarrow>
     if \<not> changed then out
     else let suffix = CHR ''~'' # short_hash s in truncate_runes out (segment_max - length suffix) @ suffix)"

subsection \<open>File names and slugs\<close>

text \<open>\<^verbatim>\<open>filepath.Ext\<close>, for the separators of the platform.\<close>

definition file_ext :: "(char \<Rightarrow> bool) \<Rightarrow> string \<Rightarrow> string" where
  "file_ext is_sep s =
     (let t = takeWhile (\<lambda>c. c \<noteq> CHR ''.'' \<and> \<not> is_sep c) (rev s); rest = drop (length t) (rev s)
      in case rest of [] \<Rightarrow> [] | c # _ \<Rightarrow> if c = CHR ''.'' then rev (t @ [c]) else [])"

definition trim_suffix :: "string \<Rightarrow> string \<Rightarrow> string" where
  "trim_suffix s e = (if suffix e s then take (length s - length e) s else s)"

fun nat_digits :: "nat \<Rightarrow> string" where
  "nat_digits n = (if n = 0 then [] else nat_digits (n div 10) @ [char_of (48 + n mod 10)])"

declare nat_digits.simps [simp del]

text \<open>\<^verbatim>\<open>itoa\<close> of a 64-bit int: the negation wraps.\<close>

definition itoa :: "int \<Rightarrow> string" where
  "itoa i = (if i = 0 then ''0'' else if i < 0 then CHR ''-'' # nat_digits (nat (wrap64 (- i))) else nat_digits (nat i))"

definition sanitize_filename :: "(string \<Rightarrow> string) \<Rightarrow> (char \<Rightarrow> bool) \<Rightarrow> string \<Rightarrow> int \<Rightarrow> string" where
  "sanitize_filename nfc is_sep name0 index =
     (let name = trim_space (nfc name0); fallback = ''attachment-'' @ itoa index
      in if name = [] then fallback
         else let ext = file_ext is_sep name; ext = (if ext_max < length (runes ext) then [] else ext);
                base = fst (segment_core nfc (trim_suffix name ext));
                ext = filter (\<lambda>c. \<not> illegal c) ext;
                result = trim_right '' .'' (base @ ext)
         in if result = [] \<or> result = ''untitled'' \<or> trim_left ''.'' result = [] then fallback else result)"

definition slug :: "(string \<Rightarrow> string) \<Rightarrow> (nat \<Rightarrow> bool) \<Rightarrow> string \<Rightarrow> nat \<Rightarrow> string" where
  "slug nfc letter s max_runes =
     (let b = concat (map (\<lambda>r. if letter r \<or> r = 46 \<or> r = 95 \<or> r = 45 then encode_rune r else ''-'') (runes (nfc s)));
          out = trim ''-._ '' (squeeze CHR ''-'' (\<lambda>c. c = CHR ''-'') b)
      in if out = [] then ''untitled'' else trim ''-._ '' (truncate_runes out max_runes))"

subsection \<open>Recorded paths\<close>

definition valid_recorded_path :: "(string \<Rightarrow> bool) \<Rightarrow> string \<Rightarrow> string list option" where
  "valid_recorded_path is_abs p =
     (if p = [] \<or> has_prefix p ''/'' \<or> is_abs p then None
      else if CHR 0x5C \<in> set p \<or> CHR '':'' \<in> set p then None
      else let parts = split_on CHR ''/'' p
      in if list_ex (\<lambda>s. s = [] \<or> s = ''.'' \<or> s = ''..'') parts \<or> has_prefix (hd parts) ''.'' then None
         else Some parts)"

subsection \<open>What a segment may hold\<close>

lemma set_squeeze: "set (squeeze rep P s) \<subseteq> insert rep (set s)"
  by (induction rep P s rule: squeeze.induct) (auto dest: set_dropWhileD)

lemma runes_truncate: "0 < n \<Longrightarrow> runes (truncate_runes s n) = take n (runes s)"
  unfolding truncate_runes_def Let_def
  by (auto intro!: runes_encode dest!: in_set_takeD intro: runes_scalar)

lemma set_truncate_ascii:
  assumes "ascii c" and "c \<in> set (truncate_runes s n)"
  shows "c \<in> set s"
proof (cases "n = 0")
  case True
  then show ?thesis using assms(2) by (simp add: truncate_runes_def)
next
  case False
  have "byte c \<in> set (runes (truncate_runes s n))" using assms in_runes_ascii by blast
  then have "byte c \<in> set (runes s)" using False by (auto simp: runes_truncate dest: in_set_takeD)
  then show ?thesis using assms(1) in_runes_ascii by blast
qed

text \<open>A name without illegal characters, and the first character of a text.\<close>

definition legal :: "string \<Rightarrow> bool" where
  "legal s \<longleftrightarrow> (\<forall>c\<in>set s. \<not> illegal c)"

lemma illegal_ascii: "illegal c \<Longrightarrow> ascii c"
  by (auto simp: illegal_def byte_def)

lemma legal_truncate: "legal s \<Longrightarrow> legal (truncate_runes s n)"
  unfolding legal_def using set_truncate_ascii illegal_ascii by blast

lemma legal_sub: "legal s \<Longrightarrow> set t \<subseteq> set s \<Longrightarrow> legal t"
  by (auto simp: legal_def)

lemma legal_append [simp]: "legal (a @ b) \<longleftrightarrow> legal a \<and> legal b"
  and legal_Cons [simp]: "legal (c # b) \<longleftrightarrow> \<not> illegal c \<and> legal b"
  and legal_Nil [simp]: "legal []"
  by (auto simp: legal_def)

lemma hd_ascii_runes:
  assumes "s \<noteq> []" and "ascii c"
  shows "hd s = c \<longleftrightarrow> hd (runes s) = byte c"
proof -
  obtain x t where s: "s = x # t" using assms(1) by (cases s) auto
  show ?thesis
  proof (cases "ascii x")
    case True
    then show ?thesis by (auto simp: s)
  next
    case False
    then have "0x80 \<le> hd (runes s)" using decode_not_ascii [of x t] by (subst runes.simps) (simp add: s)
    with False assms(2) show ?thesis by (auto simp: s)
  qed
qed

lemma truncate_not_nil: "s \<noteq> [] \<Longrightarrow> 0 < n \<Longrightarrow> truncate_runes s n \<noteq> []"
  by (auto simp: truncate_runes_def Let_def encode_runes_def)

lemma truncate_hd:
  assumes "s \<noteq> []" and "0 < n" and "ascii c" and "hd s \<noteq> c"
  shows "hd (truncate_runes s n) \<noteq> c"
proof -
  have "runes s \<noteq> []" using assms(1) by (subst runes.simps) simp
  then have "hd (runes (truncate_runes s n)) = hd (runes s)" using assms(2) by (simp add: runes_truncate)
  with assms show ?thesis using hd_ascii_runes truncate_not_nil by metis
qed

subsection \<open>Reserved device names\<close>

lemma scalar_upper: "scalar r \<Longrightarrow> scalar (upper_rune r)"
  by (auto simp: upper_rune_def scalar_def in_range_def)

lemma runes_upper [simp]: "runes (upper_name s) = map upper_rune (runes s)"
  unfolding upper_name_def by (rule runes_encode) (auto intro: scalar_upper runes_scalar)

lemma runes_upto: "ascii c \<Longrightarrow> runes (upto_byte c s) = takeWhile (\<lambda>r. r \<noteq> byte c) (runes s)"
proof (cases "c \<in> set s")
  case True
  assume c: "ascii c"
  from True obtain a b where s: "s = a @ c # b" "c \<notin> set a" by (meson split_list_first)
  then have "byte c \<notin> set (runes a)" using in_runes_ascii [OF c] by blast
  then have "\<forall>x\<in>set (runes a). x \<noteq> byte c" by blast
  then show ?thesis using s c by (simp add: runes_split_ascii takeWhile_append)
next
  case False
  assume c: "ascii c"
  then have "byte c \<notin> set (runes s)" using in_runes_ascii False by blast
  then have "takeWhile (\<lambda>r. r \<noteq> byte c) (runes s) = runes s" by (intro takeWhile_eq_all_conv [THEN iffD2]) blast
  then show ?thesis unfolding upto_byte_nosep [OF False] by (rule sym)
qed

definition reserved_runes :: "nat list set" where
  "reserved_runes = (\<lambda>s. map byte s) ` set reserved_names"

lemma reserved_ascii: "n \<in> set reserved_names \<Longrightarrow> list_all ascii n"
  by (auto simp: reserved_names_def byte_def)

lemma upper_in_reserved: "upper_name s \<in> set reserved_names \<longleftrightarrow> map upper_rune (runes s) \<in> reserved_runes"
proof
  assume "upper_name s \<in> set reserved_names"
  moreover from this have "runes (upper_name s) = map byte (upper_name s)"
    using reserved_ascii runes_ascii by blast
  ultimately show "map upper_rune (runes s) \<in> reserved_runes" by (auto simp: reserved_runes_def)
next
  assume "map upper_rune (runes s) \<in> reserved_runes"
  then obtain n where n: "n \<in> set reserved_names" "map upper_rune (runes s) = map byte n"
    by (auto simp: reserved_runes_def)
  have "encode_runes (map byte n) = n" using reserved_ascii [OF n(1)]
    by (induction n) (simp_all add: encode_rune_def encode_nats_def byte_def)
  then show "upper_name s \<in> set reserved_names" using n by (simp add: upper_name_def)
qed

lemma is_reserved_runes:
  "is_reserved s \<longleftrightarrow> map upper_rune (takeWhile (\<lambda>r. r \<noteq> 46) (runes s)) \<in> reserved_runes"
  using upper_in_reserved [of "upto_byte CHR ''.'' s"] runes_upto [of "CHR ''.''" s]
  by (simp add: is_reserved_def byte_def)

lemma reserved_shape: "rs \<in> reserved_runes \<Longrightarrow> length rs < 5 \<and> 95 \<notin> set rs \<and> 126 \<notin> set rs"
  by (auto simp: reserved_runes_def reserved_names_def byte_def)

lemma takeWhile_of_take: "takeWhile P (take n xs) = take n (takeWhile P xs)"
  by (induction xs arbitrary: n) (auto simp: take_Cons split: nat.splits)

lemma not_reserved_truncate:
  assumes "\<not> is_reserved s" and "5 \<le> n"
  shows "\<not> is_reserved (truncate_runes s n)"
proof
  let ?w = "takeWhile (\<lambda>r. r \<noteq> 46) (runes s)"
  assume "is_reserved (truncate_runes s n)"
  then have r: "map upper_rune (take n ?w) \<in> reserved_runes"
    using assms(2) by (simp add: is_reserved_runes runes_truncate takeWhile_of_take)
  from reserved_shape [OF this] assms(2) have "take n ?w = ?w" by (cases "n \<le> length ?w") simp_all
  with r assms(1) show False by (simp add: is_reserved_runes)
qed

lemma not_reserved_marked: "\<not> is_reserved (CHR ''_'' # s)"
proof
  have "upper_rune 95 = 95" by (simp add: upper_rune_def in_range_def)
  then have "95 \<in> set (map upper_rune (takeWhile (\<lambda>r. r \<noteq> 46) (runes (CHR ''_'' # s))))"
    by (simp add: byte_def)
  moreover assume "is_reserved (CHR ''_'' # s)"
  ultimately show False using reserved_shape is_reserved_runes by blast
qed

lemma not_reserved_suffix:
  assumes "\<not> is_reserved s" and "list_all ascii h"
  shows "\<not> is_reserved (s @ CHR ''~'' # h)"
proof (cases "46 \<in> set (runes s)")
  case True
  have "runes (s @ CHR ''~'' # h) = runes s @ map byte (CHR ''~'' # h)"
    by (rule runes_ascii_append) (use assms(2) in \<open>simp add: byte_def\<close>)
  then show ?thesis using assms(1) True by (simp add: is_reserved_runes takeWhile_append1)
next
  case False
  have r: "runes (s @ CHR ''~'' # h) = runes s @ map byte (CHR ''~'' # h)"
    by (rule runes_ascii_append) (use assms(2) in \<open>simp add: byte_def\<close>)
  have t: "byte CHR ''~'' = 126" "upper_rune 126 = 126" by (simp_all add: byte_def upper_rune_def in_range_def)
  have "takeWhile (\<lambda>r. r \<noteq> 46) (runes s @ 126 # map byte h)
      = runes s @ 126 # takeWhile (\<lambda>r. r \<noteq> 46) (map byte h)"
    by (subst takeWhile_append2) (use False in auto)
  then have "126 \<in> set (map upper_rune (takeWhile (\<lambda>r. r \<noteq> 46) (runes (s @ CHR ''~'' # h))))"
    using r t by (simp add: image_iff)
  then show ?thesis using reserved_shape is_reserved_runes by blast
qed

subsection \<open>What the sanitiser returns\<close>

lemma blank_to_space: "legal (map (\<lambda>c. if illegal c then CHR '' '' else c) s)"
  by (auto simp: legal_def illegal_def byte_def)

lemma plain_chars [simp]: "\<not> illegal CHR ''_''" "\<not> illegal CHR '' ''" "\<not> illegal CHR ''~''" "\<not> illegal CHR ''-''"
  by (simp_all add: illegal_def byte_def)

lemma legal_squeeze: "\<not> illegal rep \<Longrightarrow> legal s \<Longrightarrow> legal (squeeze rep P s)"
  using set_squeeze [of rep P s] unfolding legal_def by blast

text \<open>The result before the suffix: everything but its end.\<close>

definition core_ok :: "string \<Rightarrow> bool" where
  "core_ok s \<longleftrightarrow> s \<noteq> [] \<and> legal s \<and> hd s \<notin> set '' .'' \<and> \<not> is_reserved s \<and> length (runes s) \<le> segment_max"

lemma core_okI:
  "s \<noteq> [] \<Longrightarrow> legal s \<Longrightarrow> hd s \<notin> set '' .'' \<Longrightarrow> \<not> is_reserved s \<Longrightarrow> length (runes s) \<le> segment_max
     \<Longrightarrow> core_ok s"
  by (simp add: core_ok_def)

lemma core_truncate: "core_ok s \<Longrightarrow> 5 \<le> n \<Longrightarrow> core_ok (truncate_runes s n)"
  using truncate_not_nil [of s n] legal_truncate [of s n] not_reserved_truncate [of s n]
    truncate_hd [of s n "CHR '' ''"] truncate_hd [of s n "CHR ''.''"]
  by (auto simp: core_ok_def runes_truncate byte_def)

lemma untitled_ok: "core_ok ''untitled''" "last ''untitled'' \<notin> set '' .''"
proof -
  have "length (map upper_rune (takeWhile (\<lambda>r. r \<noteq> 46) (runes ''untitled''))) = 8" by (simp add: byte_def)
  then have "\<not> is_reserved ''untitled''" using reserved_shape unfolding is_reserved_runes by fastforce
  then show "core_ok ''untitled''"
    by (simp add: core_ok_def legal_def illegal_def byte_def segment_max_def)
qed simp

lemma marked_name:
  assumes "t \<noteq> []" and "legal t" and "hd t \<notin> set '' .''" and "last t \<notin> set '' .''"
  defines "u \<equiv> if is_reserved t then CHR ''_'' # t else t"
  shows "u \<noteq> []" "legal u" "hd u \<notin> set '' .''" "\<not> is_reserved u" "last u \<notin> set '' .''"
  using assms(1-4) not_reserved_marked [of t] unfolding u_def by (cases "is_reserved t"; simp)+

lemma segment_core_ok:
  assumes "segment_core nfc s0 = (out, changed)"
  shows "core_ok out \<and> (\<not> changed \<longrightarrow> last out \<notin> set '' .'')"
proof -
  let ?s = "nfc s0" and ?cleaned = "map (\<lambda>c. if illegal c then CHR '' '' else c) (nfc s0)"
  let ?t = "trim '' .'' (squeeze CHR '' '' blank ?cleaned)"
  let ?u = "if is_reserved ?t then CHR ''_'' # ?t else ?t"
  have e: "(out, changed) = (if ?t = [] then (''untitled'', False)
      else if segment_max < length (runes ?u) then (truncate_runes ?u segment_max, True) else (?u, ?cleaned \<noteq> ?s))"
    using assms by (simp add: segment_core_def Let_def split: if_splits)
  show ?thesis
  proof (cases "?t = []")
    case True
    then show ?thesis using e untitled_ok by simp
  next
    case False
    have "legal (squeeze CHR '' '' blank ?cleaned)"
      by (rule legal_squeeze) (simp, rule blank_to_space)
    then have lt: "legal ?t" by (rule legal_sub) (rule set_trims)
    note ends = trim_ends [OF False]
    note u = marked_name [OF False lt ends]
    show ?thesis
    proof (cases "segment_max < length (runes ?u)")
      case True
      have "core_ok (truncate_runes ?u segment_max)"
        using u truncate_not_nil [of ?u segment_max] legal_truncate [of ?u segment_max]
          not_reserved_truncate [of ?u segment_max] truncate_hd [of ?u segment_max "CHR '' ''"]
          truncate_hd [of ?u segment_max "CHR ''.''"]
        by (simp add: core_ok_def runes_truncate byte_def segment_max_def)
      with e False True show ?thesis by simp
    next
      case fits: False
      from e False fits have o: "out = ?u" by simp
      have "core_ok ?u" by (rule core_okI [OF u(1-4)]) (use fits in simp)
      then show ?thesis using u(5) unfolding o by blast
    qed
  qed
qed

lemma hash_ascii: "list_all ascii (hash_hex s n)"
proof -
  have "ascii c" if "c \<in> hex_alphabet" for c using that by (auto simp: hex_alphabet_def byte_def)
  then show ?thesis using hash_hex_alphabet [of s n] by (auto simp: list_all_iff)
qed

lemma hash_legal: "legal (hash_hex s n)" "c \<in> set (hash_hex s n) \<Longrightarrow> c \<notin> set '' .''"
proof -
  have "\<not> illegal c \<and> c \<notin> set '' .''" if "c \<in> hex_alphabet" for c
    using that by (auto simp: hex_alphabet_def illegal_def byte_def)
  then show "legal (hash_hex s n)" "c \<in> set (hash_hex s n) \<Longrightarrow> c \<notin> set '' .''"
    using hash_hex_alphabet [of s n] unfolding legal_def by blast+
qed

lemma tilde_ascii: "list_all ascii (CHR ''~'' # hash_hex s n)"
  using hash_ascii by (simp add: byte_def)

lemma marked_core:
  assumes "core_ok t" and "length (runes t) + Suc n \<le> segment_max" and "0 < n" and "n \<le> 40"
  shows "core_ok (t @ CHR ''~'' # hash_hex s n) \<and> last (t @ CHR ''~'' # hash_hex s n) \<notin> set '' .''"
proof -
  have ne: "hash_hex s n \<noteq> []" using length_hash_hex [of s n] assms(3) by force
  then have "last (hash_hex s n) \<notin> set '' .''" by (intro hash_legal(2) [of _ s n]) simp
  moreover have "length (runes (t @ CHR ''~'' # hash_hex s n)) \<le> segment_max"
    unfolding runes_ascii_append [OF tilde_ascii] using assms by simp
  moreover have "\<not> is_reserved (t @ CHR ''~'' # hash_hex s n)"
    using assms(1) not_reserved_suffix hash_ascii by (simp add: core_ok_def)
  ultimately show ?thesis using assms(1) ne hash_legal(1) by (simp add: core_ok_def)
qed

lemma segment_ok:
  "core_ok (sanitize_segment nfc s) \<and> last (sanitize_segment nfc s) \<notin> set '' .''"
proof -
  obtain out changed where c: "segment_core nfc s = (out, changed)" by fastforce
  note ok = segment_core_ok [OF c]
  show ?thesis
  proof (cases changed)
    case False
    with ok c show ?thesis by (simp add: sanitize_segment_def)
  next
    case True
    let ?t = "truncate_runes out 111"
    have "core_ok ?t" using ok core_truncate by simp
    moreover have "length (runes ?t) + Suc 8 \<le> segment_max" by (simp add: runes_truncate segment_max_def)
    moreover have "sanitize_segment nfc s = ?t @ CHR ''~'' # hash_hex s 8"
      using c True by (simp add: sanitize_segment_def short_hash_def segment_max_def Let_def)
    ultimately show ?thesis using marked_core [of ?t 8 s] by simp
  qed
qed

lemma file_ext_shape: "file_ext is_sep s \<noteq> [] \<Longrightarrow> hd (file_ext is_sep s) = CHR ''.''"
  by (auto simp: file_ext_def Let_def split: list.splits if_splits)

lemma legal_trim_right: "legal s \<Longrightarrow> legal (trim_right cs s)"
  using legal_sub [of s "trim_right cs s"] set_trims(2) by blast

lemma legal_filter [simp]: "legal (filter (\<lambda>c. \<not> illegal c) s)"
  by (auto simp: legal_def)

lemma digit_chars: "c \<in> set (nat_digits n) \<Longrightarrow> byte c \<in> {48..57}"
proof (induction n rule: nat_digits.induct)
  case (1 n)
  have "48 + n mod 10 \<le> 57" by simp
  with 1 show ?case by (subst (asm) nat_digits.simps) (auto split: if_splits simp: byte_def)
qed

lemma itoa_chars: "c \<in> set (itoa i) \<Longrightarrow> byte c \<in> insert 45 {48..57}"
  using digit_chars by (fastforce simp: itoa_def byte_def split: if_splits)

lemma itoa_plain: "legal (itoa i)" "c \<in> set (itoa i) \<Longrightarrow> c \<notin> set '' .''"
proof -
  have p: "\<not> illegal c \<and> c \<notin> set '' .''" if "byte c \<in> insert 45 {48..57}" for c
    using that by (auto simp: illegal_def byte_def)
  then show "legal (itoa i)" "c \<in> set (itoa i) \<Longrightarrow> c \<notin> set '' .''"
    using itoa_chars unfolding legal_def by blast+
qed

lemma fallback_ok:
  "legal (''attachment-'' @ itoa i) \<and> last (''attachment-'' @ itoa i) \<notin> set '' .''"
proof -
  have "last (''attachment-'' @ itoa i) \<in> insert (CHR ''-'') (set (itoa i))"
    by (cases "itoa i" rule: rev_cases) simp_all
  then have "last (''attachment-'' @ itoa i) \<notin> set '' .''" using itoa_plain(2) by fastforce
  moreover have "legal ''attachment-''" by (simp add: illegal_def byte_def)
  ultimately show ?thesis using itoa_plain(1) [of i] unfolding legal_append by blast
qed

lemma filename_ok:
  fixes nfc is_sep s i
  defines "out \<equiv> sanitize_filename nfc is_sep s i"
  shows "out \<noteq> [] \<and> legal out \<and> last out \<notin> set '' .''"
proof -
  define name where "name = trim_space (nfc s)"
  define ext where "ext = (if ext_max < length (runes (file_ext is_sep name)) then [] else file_ext is_sep name)"
  define base where "base = fst (segment_core nfc (trim_suffix name ext))"
  let ?r = "trim_right '' .'' (base @ filter (\<lambda>c. \<not> illegal c) ext)" and ?f = "''attachment-'' @ itoa i"
  have o: "out = (if name = [] then ?f
      else if ?r = [] \<or> ?r = ''untitled'' \<or> trim_left ''.'' ?r = [] then ?f else ?r)"
    by (simp add: out_def sanitize_filename_def Let_def name_def ext_def base_def)
  have f: "?f \<noteq> [] \<and> legal ?f \<and> last ?f \<notin> set '' .''" using fallback_ok by fast
  have "legal base"
    using segment_core_ok [of nfc "trim_suffix name ext" base] by (cases "segment_core nfc (trim_suffix name ext)")
      (auto simp: core_ok_def base_def)
  then have r: "legal ?r" by (intro legal_trim_right) simp
  show ?thesis
  proof (cases "out = ?f")
    case True
    with f show ?thesis by presburger
  next
    case False
    then have "out = ?r" and ne: "?r \<noteq> []" unfolding o by presburger+
    with r trim_right_last [OF ne] show ?thesis by presburger
  qed
qed

text \<open>
  What the two sanitisers leave of a name, whatever the name and whatever Unicode normalisation does to
  it: a segment that is not empty, holds none of the characters the code calls illegal and no separator,
  neither starts nor ends with a dot or a space, is none of the device names the code knows and has at most
  120 runes; an attachment's file name that is not empty, holds no such character and does not end in a dot
  or a space.  The bound is in runes, not bytes, and the device names are the short list: the names that fit
  every file system are those of \<^verbatim>\<open>exportnames.go\<close>.
\<close>

lemma names_on_disk:
  "sanitize_segment nfc s \<noteq> [] \<and> filter illegal (sanitize_segment nfc s) = []
   \<and> hd (sanitize_segment nfc s) \<notin> {CHR '' '', CHR ''.''} \<and> last (sanitize_segment nfc s) \<notin> {CHR '' '', CHR ''.''}
   \<and> \<not> is_reserved (sanitize_segment nfc s) \<and> length (runes (sanitize_segment nfc s)) \<le> 120
   \<and> sanitize_filename nfc is_sep s i \<noteq> [] \<and> filter illegal (sanitize_filename nfc is_sep s i) = []
   \<and> last (sanitize_filename nfc is_sep s i) \<notin> {CHR '' '', CHR ''.''}"
proof -
  have "filter illegal t = []" if "legal t" for t using that by (auto simp: legal_def filter_empty_conv)
  then show ?thesis
    using segment_ok [of nfc s] filename_ok [of nfc is_sep s i] unfolding core_ok_def segment_max_def by simp
qed

subsection \<open>Recorded paths stay in the archive\<close>

fun join :: "char \<Rightarrow> string list \<Rightarrow> string" where
  "join c [] = []"
| "join c [x] = x"
| "join c (x # y # ys) = x @ c # join c (y # ys)"

lemma set_split_on: "x \<in> set (split_on c s) \<Longrightarrow> set x \<subseteq> set s"
proof (induction s arbitrary: x)
  case (Cons a s)
  obtain y ys where y: "split_on c s = y # ys" by (cases "split_on c s") auto
  have "set y \<subseteq> set s" "\<And>z. z \<in> set ys \<Longrightarrow> set z \<subseteq> set s" using Cons.IH by (simp_all add: y)
  with Cons.prems show ?case by (auto simp: y split: if_splits)
qed simp

lemma join_split [simp]: "join c (split_on c s) = s"
proof (induction s)
  case (Cons x s)
  then show ?case by (cases "split_on c s"; cases "tl (split_on c s)") auto
qed simp

text \<open>\<^verbatim>\<open>filepath.Clean\<close> where the separator is a slash: dots resolved lexically.\<close>

definition clean_step :: "bool \<Rightarrow> string \<Rightarrow> string list \<Rightarrow> string list" where
  "clean_step rooted e out =
     (if e = [] \<or> e = ''.'' then out
      else if e = ''..'' then (if out \<noteq> [] \<and> last out \<noteq> ''..'' then butlast out
                             else if rooted then out else out @ [''..''])
      else out @ [e])"

definition go_clean :: "string \<Rightarrow> string" where
  "go_clean p =
     (if p = [] then ''.''
      else let rooted = has_prefix p ''/''; out = fold (clean_step rooted) (split_on CHR ''/'' p) []
      in if rooted then CHR ''/'' # join CHR ''/'' out else if out = [] then ''.'' else join CHR ''/'' out)"

lemma clean_plain:
  "list_all (\<lambda>e. e \<noteq> [] \<and> e \<noteq> ''.'' \<and> e \<noteq> ''..'') es \<Longrightarrow> fold (clean_step rooted) es out = out @ es"
  by (induction es arbitrary: out) (auto simp: clean_step_def)

text \<open>
  C30: a path a manifest records cannot lead out of the archive once the check passed: it is the
  slash-joined list of the segments returned, it is already lexically clean, no segment is empty,
  a dot or a dot-dot or holds a separator, a backslash or a drive colon, and the first is no dotfile
  (FC6).
\<close>

theorem recorded_paths_stay_inside:
  assumes "valid_recorded_path is_abs p = Some parts"
  shows "join CHR ''/'' parts = p \<and> go_clean p = p \<and> \<not> is_abs p
     \<and> list_all (\<lambda>s. s \<notin> {[], ''.'', ''..''} \<and> set s \<inter> {CHR ''/'', CHR 0x5C, CHR '':''} = {}) parts
     \<and> parts \<noteq> [] \<and> hd (hd parts) \<noteq> CHR ''.''"
proof -
  from assms have v: "p \<noteq> []" "\<not> has_prefix p ''/''" "\<not> is_abs p" "CHR 0x5C \<notin> set p" "CHR '':'' \<notin> set p"
    and parts: "parts = split_on CHR ''/'' p"
    and ok: "list_all (\<lambda>s. s \<noteq> [] \<and> s \<noteq> ''.'' \<and> s \<noteq> ''..'') parts" and h: "\<not> has_prefix (hd parts) ''.''"
    by (auto simp: valid_recorded_path_def Let_def list_ex_iff list_all_iff split: if_splits)
  have j: "join CHR ''/'' parts = p" by (simp add: parts)
  have ne: "parts \<noteq> []" by (simp add: parts)
  have "go_clean p = p"
    using v(1,2) ne j clean_plain [OF ok, of False "[]"] by (simp add: go_clean_def parts)
  moreover have "set s \<inter> {CHR ''/'', CHR 0x5C, CHR '':''} = {}" if "s \<in> set parts" for s
  proof -
    have "CHR ''/'' \<notin> set s" using that split_on_parts_notin unfolding parts by blast
    moreover have "set s \<subseteq> set p" using that set_split_on unfolding parts by blast
    ultimately show ?thesis using v(4,5) by blast
  qed
  moreover have "hd (hd parts) \<noteq> CHR ''.''"
    using h ok ne by (cases "hd parts") (auto simp: has_prefix_def list_all_iff)
  ultimately show ?thesis using j v(3) ok ne by (simp add: list_all_iff)
qed

theorem recorded_paths_stay_inside_witness:
  "go_clean ''store/Inbox/a.html'' = ''store/Inbox/a.html''"
proof -
  have "valid_recorded_path (\<lambda>_. False) ''store/Inbox/a.html'' = Some [''store'', ''Inbox'', ''a.html'']"
    by (simp add: valid_recorded_path_def has_prefix_def)
  from recorded_paths_stay_inside [OF this] show ?thesis by blast
qed

text \<open>
  Two names of nothing but refused characters become one segment: \<^verbatim>\<open>untitled\<close> carries no hash of
  the original name, unlike every other name that lost a character.
\<close>

lemma names_of_refused_characters_merge:
  "sanitize_segment (\<lambda>s. s) ''???'' = ''untitled'' \<and> sanitize_segment (\<lambda>s. s) ''***'' = ''untitled''"
  by (simp add: sanitize_segment_def segment_core_def illegal_def byte_def blank_def trim_def trim_left_def
      trim_right_def Let_def)

end
