(* ===== verification/Load.thy ===== *)
theory Load
  imports ManifestInv LedgerLoad Paths
begin

text \<open>
  Opening and saving a manifest (\<^verbatim>\<open>Load\<close>, \<^verbatim>\<open>LoadFrom\<close>, \<^verbatim>\<open>FromSealed\<close>, \<^verbatim>\<open>finish\<close>
  and \<^verbatim>\<open>Save\<close> of \<^verbatim>\<open>internal/state/manifest.go\<close>, \<^verbatim>\<open>checkUnits\<close> of
  \<^verbatim>\<open>units.go\<close>): the refusal of a newer format, the migrations, the canonical store ids, the
  cleaning of untrusted fields, and the store tokens.  The host (its path rules, its file system and
  its Unicode tables) and the JSON decoder are parameters.
\<close>

record host =
  h_sep :: char
  h_folds :: bool
  h_is_abs :: "string \<Rightarrow> bool"
  h_abs :: "string \<Rightarrow> string option"
  h_resolve :: "string \<Rightarrow> string option"
  h_clean :: "string \<Rightarrow> string"
  h_lower :: "string \<Rightarrow> string"
  h_nfc :: "string \<Rightarrow> string"

subsection \<open>Store ids\<close>

definition path_source_id :: "host \<Rightarrow> string \<Rightarrow> string" where
  "path_source_id h p =
     (let abs = (case h_abs h p of None \<Rightarrow> p | Some a \<Rightarrow> a);
          abs = (case h_resolve h abs of Some r \<Rightarrow> r | None \<Rightarrow> h_clean h abs);
          abs = (if h_folds h then h_lower h abs else abs)
      in ''path:'' @ abs)"

definition mailbox_source_id :: "host \<Rightarrow> string \<Rightarrow> string" where
  "mailbox_source_id h addr = ''mailbox:'' @ h_lower h (trim_space addr)"

definition canonical_id :: "string \<Rightarrow> bool" where
  "canonical_id i \<longleftrightarrow> has_prefix i ''path:'' \<or> has_prefix i ''mailbox:''"

definition migrate_store_id :: "host \<Rightarrow> string \<Rightarrow> string" where
  "migrate_store_id h old =
     (if canonical_id old then old
      else if CHR ''@'' \<in> set old \<and> \<not> h_is_abs h old then mailbox_source_id h old
      else path_source_id h old)"

definition snapshot_store_id :: "host \<Rightarrow> string \<Rightarrow> string" where
  "snapshot_store_id h old =
     (if canonical_id old then old
      else if CHR ''@'' \<in> set old \<and> \<not> h_is_abs h old then mailbox_source_id h old
      else let p = h_clean h old in ''path:'' @ (if h_folds h then h_lower h p else p))"

definition plain_token :: "string \<Rightarrow> bool" where
  "plain_token t \<longleftrightarrow> CHR ''~'' \<notin> set t"

definition prefer_plain_token :: "string \<Rightarrow> string \<Rightarrow> string" where
  "prefer_plain_token a b =
     (if plain_token a \<and> \<not> plain_token b then a
      else if plain_token b \<and> \<not> plain_token a then b
      else if a \<le> b then a else b)"

subsection \<open>Store tokens\<close>

definition token_segment :: "host \<Rightarrow> string \<Rightarrow> string" where
  "token_segment h store =
     (let seg = sanitize_segment (h_nfc h) store
      in if safe_token (h_sep h) seg then seg
         else let stripped = sanitize_segment (h_nfc h) (strip_control store)
         in if safe_token (h_sep h) stripped then stripped @ CHR ''~'' # short_hash store
            else ''store~'' @ short_hash store)"

definition segment_owned :: "(string, string) gomap \<Rightarrow> string \<Rightarrow> bool" where
  "segment_owned stores tok \<longleftrightarrow> list_ex (\<lambda>(_, t). t = tok) stores"

text \<open>The loop over the length of the digest: 8, 16, 24, 32 and 40 characters.\<close>

function token_loop :: "(string, string) gomap \<Rightarrow> string \<Rightarrow> string \<Rightarrow> nat \<Rightarrow> string" where
  "token_loop stores seg source n0 =
     (let n = (if 40 < n0 then 40 else n0); tok = seg @ CHR ''~'' # hash_hex source n
      in if \<not> segment_owned stores tok then tok
         else if n = 40 then seg @ CHR ''~'' # hash_hex (source @ nul # seg) 40
         else token_loop stores seg source (n + 8))"
  by pat_completeness auto
termination
  by (relation "measure (\<lambda>(_, _, _, n). 48 - n)") (auto split: if_splits)

declare token_loop.simps [simp del]

definition fresh_token :: "host \<Rightarrow> string \<Rightarrow> string \<Rightarrow> manifest \<Rightarrow> string \<times> manifest" where
  "fresh_token h source store m =
     (let seg = token_segment h store;
          tok = (if \<not> segment_owned (m_stores m) seg then seg else token_loop (m_stores m) seg source 8)
      in (tok, m\<lparr>m_stores := mput source tok (m_stores m)\<rparr>))"

definition token :: "host \<Rightarrow> string \<Rightarrow> string \<Rightarrow> manifest \<Rightarrow> string \<times> manifest" where
  "token h source store m = (case mget (m_stores m) source of
     Some tok \<Rightarrow> if safe_token (h_sep h) tok then (tok, m) else fresh_token h source store m
   | None \<Rightarrow> fresh_token h source store m)"

subsection \<open>The migrations\<close>

definition sentinel_step :: "mrec \<Rightarrow> mrec" where
  "sentinel_step r = (if \<not> has_issues r then r\<lparr>r_missing := [unknown_sentinel]\<rparr> else r)"

definition mark_unknown :: "manifest \<Rightarrow> manifest" where
  "mark_unknown m =
     (if m_version m < 2
      then m\<lparr>m_entries := mmap (\<lambda>_. sentinel_step) (m_entries m),
             m_migrated := m_migrated m + int (length (filter (\<lambda>(_, r). \<not> has_issues r) (m_entries m)))\<rparr>
      else m)"

definition rekey_step :: "string \<times> mrec \<Rightarrow> (string, mrec) gomap \<Rightarrow> (string, mrec) gomap" where
  "rekey_step = (\<lambda>(k, r) es. let nk = fst (migrate_key k (r_path r)); es = mdel k es
     in if mhas es nk then es else mput nk r es)"

definition rekeys :: "(string, mrec) gomap \<Rightarrow> (string \<times> mrec) list" where
  "rekeys es = filter (\<lambda>(k, r). snd (migrate_key k (r_path r))) es"

definition rescope :: "manifest \<Rightarrow> manifest" where
  "rescope m =
     (if m_loaded_version m < 3 \<and> 0 < length (m_entries m)
      then let rk = rekeys (m_entries m)
           in m\<lparr>m_entries := fold rekey_step rk (m_entries m), m_rekeyed := m_rekeyed m + int (length rk)\<rparr>
      else m)"

definition timeline_step :: "mrec \<Rightarrow> mrec" where
  "timeline_step r =
     (let r1 = (if r_first_folder r = [] then r\<lparr>r_first_folder := r_folder r\<rparr> else r);
          r2 = (if r_first_seen r1 = zero_time then r1\<lparr>r_first_seen := r_exported_at r1\<rparr> else r1);
          r3 = (if r_last_seen r2 = zero_time then r2\<lparr>r_last_seen := r_exported_at r2\<rparr> else r2)
      in r3\<lparr>r_present := True\<rparr>)"

definition seed_timeline :: "manifest \<Rightarrow> manifest" where
  "seed_timeline m = (if m_loaded_version m < 4
     then m\<lparr>m_entries := mmap (\<lambda>_. timeline_step) (m_entries m)\<rparr> else m)"

subsection \<open>Untrusted fields\<close>

definition store_step :: "host \<Rightarrow> bool \<Rightarrow> (string, string) gomap \<Rightarrow> string
    \<Rightarrow> (string, string) gomap \<times> int \<Rightarrow> (string, string) gomap \<times> int" where
  "store_step h snap stores old = (\<lambda>(migrated, n). case mget stores old of
     None \<Rightarrow> (migrated, n)
   | Some tok \<Rightarrow>
       if \<not> safe_token (h_sep h) tok then (migrated, n + 1)
       else let i = (if snap then snapshot_store_id h old else migrate_store_id h old)
       in case mget migrated i of
            Some existing \<Rightarrow> (mput i (prefer_plain_token existing tok) migrated, n + 1)
          | None \<Rightarrow> (mput i tok migrated, if i \<noteq> old then n + 1 else n))"

definition canonical_stores :: "host \<Rightarrow> bool \<Rightarrow> manifest \<Rightarrow> manifest" where
  "canonical_stores h snap m =
     (if 0 < length (m_stores m)
      then let (migrated, n) = fold (store_step h snap (m_stores m)) (sort (mkeys (m_stores m)))
                 ([], m_stores_migrated m)
           in m\<lparr>m_stores := migrated, m_stores_migrated := n\<rparr>
      else m)"

definition clean_entry :: "(string, mrec) gomap \<Rightarrow> mrec \<Rightarrow> mrec" where
  "clean_entry es r =
     (let r1 = (if r_locator r \<noteq> [] \<and> \<not> has_unreadable r then r\<lparr>r_locator := []\<rparr> else r);
          r2 = (if r_recovered_by r1 \<noteq> [] \<and> \<not> mhas es (r_recovered_by r1) then r1\<lparr>r_recovered_by := []\<rparr> else r1);
          r3 = (if \<not> rec_has_label r2 label_unparsed \<and> (r_parser_gen r2 \<noteq> 0 \<or> r_raw_digest r2 \<noteq> [])
                then r2\<lparr>r_parser_gen := 0, r_raw_digest := []\<rparr> else r2)
      in if r_raw_digest r3 \<noteq> [] \<and> \<not> valid_digest (r_raw_digest r3) then r3\<lparr>r_raw_digest := []\<rparr> else r3)"

definition clean_entries :: "manifest \<Rightarrow> manifest" where
  "clean_entries m = m\<lparr>m_entries := mmap (\<lambda>_. clean_entry (m_entries m)) (m_entries m)\<rparr>"

text \<open>\<^verbatim>\<open>sanitizeGaps\<close>, then the fields of every record.\<close>

definition clean_sane :: "host \<Rightarrow> gotime \<Rightarrow> manifest \<Rightarrow> manifest" where
  "clean_sane h now m =
     clean_entries (m\<lparr>m_capture_gaps := sanitize_gaps (h_sep h) now (m_stores m) (m_capture_gaps m)\<rparr>)"

subsection \<open>The units of an encrypted archive\<close>

datatype unit_error = Sealed_without_unit | Bad_unit_id | Shared_unit | Bad_sealed_unit

definition bad_sealed :: "sealed_unit option \<Rightarrow> bool" where
  "bad_sealed u = (case u of None \<Rightarrow> False
     | Some s \<Rightarrow> su_rev s = 0 \<or> \<not> valid_digest (su_sha256 s) \<or> su_size s \<le> 0)"

fun check_units_from :: "(string, mrec) gomap \<Rightarrow> (string, string) gomap \<Rightarrow> string list \<Rightarrow> unit_error option" where
  "check_units_from es owner [] = None"
| "check_units_from es owner (k # ks) = (case mget es k of
     None \<Rightarrow> check_units_from es owner ks
   | Some r \<Rightarrow>
       if r_unit r = []
       then (if r_sealed r \<noteq> None then Some Sealed_without_unit else check_units_from es owner ks)
       else if \<not> valid_unit_id (r_unit r) then Some Bad_unit_id
       else if (case mget owner (r_unit r) of Some other \<Rightarrow> other \<noteq> k | None \<Rightarrow> False) then Some Shared_unit
       else if (case r_sealed r of None \<Rightarrow> False
                | Some s \<Rightarrow> list_ex bad_sealed [ss_html s, ss_zip s, ss_eml s]) then Some Bad_sealed_unit
       else check_units_from es (mput (r_unit r) k owner) ks)"

definition check_units :: "manifest \<Rightarrow> unit_error option" where
  "check_units m = check_units_from (m_entries m) [] (sort (mkeys (m_entries m)))"

subsection \<open>Opening and saving\<close>

datatype load_error =
  Read_failed
| Corrupt
| Newer_format int
| Damaged_units unit_error

definition finish :: "host \<Rightarrow> gotime \<Rightarrow> string \<Rightarrow> manifest \<Rightarrow> load_error + manifest" where
  "finish h now path m0 =
     (if manifest_version < m_version m0 then Inl (Newer_format (m_version m0))
      else let m = m0\<lparr>m_loaded_version := m_version m0\<rparr>;
               m = clean_sane h now (canonical_stores h (path = []) (seed_timeline (rescope (mark_unknown m))));
               m = (if m_version m < manifest_version then m\<lparr>m_version := manifest_version\<rparr> else m)
      in case check_units m of
           Some e \<Rightarrow> Inl (Damaged_units e)
         | None \<Rightarrow> Inr (m\<lparr>m_by_ident := Some (build_ident (m_entries m))\<rparr>))"

definition parse_manifest ::
  "host \<Rightarrow> gotime \<Rightarrow> (string \<Rightarrow> manifest \<Rightarrow> manifest option) \<Rightarrow> string \<Rightarrow> string \<Rightarrow> load_error + manifest" where
  "parse_manifest h now unmarshal path data =
     (if data = [] then Inr (new_manifest path)
      else case unmarshal data (new_manifest path) of
             None \<Rightarrow> Inl Corrupt | Some m \<Rightarrow> finish h now path m)"

datatype read_result = Not_exist | Read_error | Read_bytes string

definition load_manifest ::
  "host \<Rightarrow> gotime \<Rightarrow> (string \<Rightarrow> manifest \<Rightarrow> manifest option) \<Rightarrow> (string \<Rightarrow> read_result) \<Rightarrow> string
     \<Rightarrow> load_error + manifest" where
  "load_manifest h now unmarshal read path = (case read path of
     Not_exist \<Rightarrow> Inr (new_manifest path)
   | Read_error \<Rightarrow> Inl Read_failed
   | Read_bytes data \<Rightarrow> parse_manifest h now unmarshal path data)"

definition load_from ::
  "host \<Rightarrow> gotime \<Rightarrow> (string \<Rightarrow> manifest \<Rightarrow> manifest option) \<Rightarrow> string \<Rightarrow> load_error + manifest" where
  "load_from h now unmarshal data = parse_manifest h now unmarshal [] data"

record view =
  v_version :: int
  v_entries :: "(string, mrec) gomap"
  v_stores :: "(string, string) gomap"
  v_capture_gaps :: "(string, capture_gap) gomap"
  v_collapsed_tokens :: "(string, bool) gomap"

definition from_sealed :: "host \<Rightarrow> gotime \<Rightarrow> string \<Rightarrow> view \<Rightarrow> load_error + manifest" where
  "from_sealed h now path v = finish h now path ((new_manifest path)\<lparr>m_version := v_version v,
     m_entries := v_entries v, m_stores := v_stores v, m_capture_gaps := v_capture_gaps v,
     m_collapsed_tokens := v_collapsed_tokens v, m_sealed := True\<rparr>)"

text \<open>What \<^verbatim>\<open>Save\<close> commits: refused for a snapshot, else the content at the current version.\<close>

definition save_view :: "manifest \<Rightarrow> (view \<times> manifest) option" where
  "save_view m =
     (if m_path m = [] then None
      else let m = m\<lparr>m_version := manifest_version\<rparr>
      in Some (\<lparr>v_version = m_version m, v_entries = m_entries m, v_stores = m_stores m,
                v_capture_gaps = m_capture_gaps m, v_collapsed_tokens = m_collapsed_tokens m\<rparr>, m))"

end
