(* ===== verification/LoadProps.thy ===== *)
theory LoadProps
  imports Load
begin

text \<open>What opening a manifest guarantees, and that saving and opening it again changes nothing.\<close>

subsection \<open>Re-scoped keys\<close>

lemma migrate_key_new:
  assumes "snd (migrate_key k p)"
  shows "fst (migrate_key k p) = first_segment p @ key_separator @ k" "count_byte nul k = 1"
    "2 \<le> count_byte nul (fst (migrate_key k p))"
  using assms by (auto simp: migrate_key_def Let_def split: if_splits)

lemma rekeys_iff: "(k, r) \<in> set (rekeys es) \<longleftrightarrow> (k, r) \<in> set es \<and> snd (migrate_key k (r_path r))"
  by (auto simp: rekeys_def)

text \<open>A new key is never one of the old ones: it has more separators than any of them.\<close>

definition fresh_keys :: "(string \<times> mrec) list \<Rightarrow> bool" where
  "fresh_keys L \<longleftrightarrow> distinct (map fst L)
     \<and> (\<forall>x\<in>set L. fst (migrate_key (fst x) (r_path (snd x))) \<notin> fst ` set L)"

lemma rekeys_fresh: "mok es \<Longrightarrow> fresh_keys (rekeys es)"
proof -
  assume m: "mok es"
  have "distinct (map fst (rekeys es))"
    using m unfolding rekeys_def by (metis distinct_map_filter)
  moreover have "fst (migrate_key (fst x) (r_path (snd x))) \<noteq> fst y"
    if "x \<in> set (rekeys es)" "y \<in> set (rekeys es)" for x y
  proof -
    have "snd (migrate_key (fst x) (r_path (snd x)))" "snd (migrate_key (fst y) (r_path (snd y)))"
      using that by (auto simp: rekeys_def)
    from migrate_key_new(3) [OF this(1)] migrate_key_new(2) [OF this(2)] show ?thesis by auto
  qed
  ultimately show ?thesis by (auto simp: fresh_keys_def)
qed

definition new_keyed :: "(string \<times> mrec) list \<Rightarrow> (string \<times> mrec) list" where
  "new_keyed L = map (\<lambda>x. (fst (migrate_key (fst x) (r_path (snd x))), snd x)) L"

lemma rekey_fold:
  "fresh_keys L \<Longrightarrow> mget (fold rekey_step L es) k =
     (if k \<in> fst ` set L then None
      else case mget es k of Some r \<Rightarrow> Some r | None \<Rightarrow> map_of (new_keyed L) k)"
proof (induction L arbitrary: es)
  case Nil
  then show ?case by (simp add: new_keyed_def split: option.split)
next
  case (Cons x L)
  obtain k0 r0 where x: "x = (k0, r0)" by fastforce
  let ?nk = "fst (migrate_key k0 (r_path r0))"
  have f: "fresh_keys L" "k0 \<notin> fst ` set L" "?nk \<noteq> k0" "?nk \<notin> fst ` set L"
    and g: "\<And>y. y \<in> set L \<Longrightarrow> fst (migrate_key (fst y) (r_path (snd y))) \<noteq> k0"
    using Cons.prems by (auto simp: fresh_keys_def x)
  have step: "mget (rekey_step (k0, r0) es) k = (if k = k0 then None
      else if k = ?nk then (case mget es ?nk of None \<Rightarrow> Some r0 | Some r \<Rightarrow> Some r) else mget es k)" for k
    using f(3) by (auto simp: rekey_step_def Let_def mhas_def split: option.splits)
  have no: "map_of (new_keyed L) k0 = None" using g by (force simp: new_keyed_def map_of_eq_None_iff)
  have new: "map_of (new_keyed ((k0, r0) # L)) k = (if k = ?nk then Some r0 else map_of (new_keyed L) k)" for k
    by (simp add: new_keyed_def)
  show ?case
    using f no by (auto simp: Cons.IH [OF f(1)] step new x split: option.splits)
qed

lemma rekey_keeps:
  assumes m: "mok es" and k: "mget es k = Some r" and p: "\<forall>x\<in>set es. nul \<notin> set (first_segment (r_path (snd x)))"
  defines "nk \<equiv> fst (migrate_key k (r_path r))"
  shows "mget (fold rekey_step (rekeys es) es) nk = Some (case mget es nk of Some r0 \<Rightarrow> r0 | None \<Rightarrow> r)"
proof (cases "snd (migrate_key k (r_path r))")
  case False
  then have nk: "nk = k" using migrate_key_False [of k "r_path r"] by (cases "migrate_key k (r_path r)") (simp add: nk_def)
  have "k \<notin> fst ` set (rekeys es)"
  proof
    assume "k \<in> fst ` set (rekeys es)"
    then obtain r1 where "(k, r1) \<in> set es" "snd (migrate_key k (r_path r1))" by (auto simp: rekeys_iff)
    with in_mget [OF m] k False show False by force
  qed
  then show ?thesis using k by (simp add: rekey_fold [OF rekeys_fresh [OF m]] nk)
next
  case True
  note n = migrate_key_new [OF True, folded nk_def]
  have kr: "(k, r) \<in> set (rekeys es)" using mget_in [OF k] True by (simp add: rekeys_iff)
  have nin: "nk \<notin> fst ` set (rekeys es)"
    using rekeys_fresh [OF m] kr by (force simp: fresh_keys_def nk_def)
  show ?thesis
  proof (cases "mget es nk")
    case (Some r0)
    then show ?thesis using nin by (simp add: rekey_fold [OF rekeys_fresh [OF m]])
  next
    case None
    have uniq: "r1 = r" if "(nk, r1) \<in> set (new_keyed (rekeys es))" for r1
    proof -
      from that obtain k1 where k1: "(k1, r1) \<in> set es" "snd (migrate_key k1 (r_path r1))"
        "nk = fst (migrate_key k1 (r_path r1))"
        by (auto simp: new_keyed_def rekeys_def)
      have "nul \<notin> set (first_segment (r_path r1))" "nul \<notin> set (first_segment (r_path r))"
        using p k1(1) mget_in [OF k] by fastforce+
      note no = this
      have "first_segment (r_path r) @ key_separator @ k = first_segment (r_path r1) @ key_separator @ k1"
        by (rule trans [OF n(1) [symmetric] trans [OF k1(3) migrate_key_new(1) [OF k1(2)]]])
      then have "k1 = k" using sep_inj [OF no(2,1)] by (simp add: key_separator_def)
      with in_mget [OF m k1(1)] k show ?thesis by simp
    qed
    have "(nk, r) \<in> set (new_keyed (rekeys es))" using kr by (force simp: new_keyed_def nk_def)
    then obtain r1 where r1: "map_of (new_keyed (rekeys es)) nk = Some r1"
      using weak_map_of_SomeI by metis
    have "r1 = r" by (rule uniq) (rule map_of_SomeD [OF r1])
    with r1 have "map_of (new_keyed (rekeys es)) nk = Some r" by simp
    then show ?thesis using nin None by (simp add: rekey_fold [OF rekeys_fresh [OF m]])
  qed
qed

subsection \<open>The stages of opening\<close>

text \<open>The entries after the stages that rewrite them, and the fields the stages leave alone.\<close>

definition staged :: "manifest \<Rightarrow> (string, mrec) gomap" where
  "staged m = m_entries (seed_timeline (rescope (mark_unknown (m\<lparr>m_loaded_version := m_version m\<rparr>))))"

lemma stage_frames [simp]:
  "m_version (mark_unknown m) = m_version m" "m_loaded_version (mark_unknown m) = m_loaded_version m"
  "m_stores (mark_unknown m) = m_stores m" "m_path (mark_unknown m) = m_path m"
  "m_version (rescope m) = m_version m" "m_loaded_version (rescope m) = m_loaded_version m"
  "m_stores (rescope m) = m_stores m" "m_path (rescope m) = m_path m"
  "m_version (seed_timeline m) = m_version m" "m_loaded_version (seed_timeline m) = m_loaded_version m"
  "m_stores (seed_timeline m) = m_stores m" "m_path (seed_timeline m) = m_path m"
  "m_version (canonical_stores h s m) = m_version m" "m_entries (canonical_stores h s m) = m_entries m"
  "m_loaded_version (canonical_stores h s m) = m_loaded_version m" "m_path (canonical_stores h s m) = m_path m"
  "m_version (clean_sane h now m) = m_version m" "m_stores (clean_sane h now m) = m_stores m"
  "m_loaded_version (clean_sane h now m) = m_loaded_version m" "m_path (clean_sane h now m) = m_path m"
  by (simp_all add: mark_unknown_def rescope_def seed_timeline_def canonical_stores_def clean_sane_def
      clean_entries_def Let_def split: prod.split)

lemma clean_sane_entries [simp]:
  "m_entries (clean_sane h now m) = mmap (\<lambda>_. clean_entry (m_entries m)) (m_entries m)"
  by (simp add: clean_sane_def clean_entries_def)

lemma canonical_cong:
  "m_stores x = m_stores y \<Longrightarrow> m_stores_migrated x = m_stores_migrated y \<Longrightarrow>
     m_stores (canonical_stores h b x) = m_stores (canonical_stores h b y)"
  by (simp add: canonical_stores_def split: prod.split)

lemma finish_cases:
  assumes "finish h now path m = Inr m'"
  shows "m_version m \<le> manifest_version" "m_version m' = manifest_version" "m_loaded_version m' = m_version m"
    "m_path m' = m_path m" "m_entries m' = mmap (\<lambda>_. clean_entry (staged m)) (staged m)"
    "m_stores m' = m_stores (canonical_stores h (path = []) m)"
    "m_by_ident m' = Some (build_ident (m_entries m'))" "check_units m' = None"
proof -
  let ?m1 = "m\<lparr>m_loaded_version := m_version m\<rparr>"
  let ?m2 = "clean_sane h now (canonical_stores h (path = []) (seed_timeline (rescope (mark_unknown ?m1))))"
  let ?m3 = "if m_version ?m2 < manifest_version then ?m2\<lparr>m_version := manifest_version\<rparr> else ?m2"
  show v: "m_version m \<le> manifest_version" using assms by (simp add: finish_def split: if_splits)
  have c: "check_units ?m3 = None" and m': "m' = ?m3\<lparr>m_by_ident := Some (build_ident (m_entries ?m3))\<rparr>"
    using assms v by (auto simp: finish_def Let_def split: option.splits if_splits)
  show "m_version m' = manifest_version" "m_loaded_version m' = m_version m" "m_path m' = m_path m"
    "m_by_ident m' = Some (build_ident (m_entries m'))"
    using v by (simp_all add: m')
  show "m_entries m' = mmap (\<lambda>_. clean_entry (staged m)) (staged m)" by (simp add: m' staged_def)
  have "m_stores m' = m_stores (canonical_stores h (path = []) (seed_timeline (rescope (mark_unknown ?m1))))"
    by (simp add: m')
  also have "\<dots> = m_stores (canonical_stores h (path = []) m)"
    by (rule canonical_cong) (simp_all add: mark_unknown_def rescope_def seed_timeline_def Let_def)
  finally show "m_stores m' = m_stores (canonical_stores h (path = []) m)" .
  show "check_units m' = None" using c by (simp add: m' check_units_def)
qed

lemma mhas_mmap [simp]: "mhas (mmap f es) k \<longleftrightarrow> mhas es k"
  by (simp add: mhas_def)

lemma clean_entry_frame:
  "r_path (clean_entry es r) = r_path r" "r_missing (clean_entry es r) = r_missing r"
  "r_terminal (clean_entry es r) = r_terminal r" "r_unit (clean_entry es r) = r_unit r"
  "r_sealed (clean_entry es r) = r_sealed r"
  by (simp_all add: clean_entry_def Let_def)

lemma same_labels [simp]:
  "has_unreadable (r\<lparr>r_locator := a\<rparr>) = has_unreadable r"
  "rec_has_label (r\<lparr>r_locator := a\<rparr>) l = rec_has_label r l"
  "rec_has_label (r\<lparr>r_recovered_by := b\<rparr>) l = rec_has_label r l"
  by (simp_all add: has_unreadable_def rec_has_label_def)

lemma clean_entry_fields:
  "r_locator (clean_entry es r) = (if has_unreadable r then r_locator r else [])"
  "r_recovered_by (clean_entry es r) = (if mhas es (r_recovered_by r) then r_recovered_by r else [])"
  "r_parser_gen (clean_entry es r) = (if rec_has_label r label_unparsed then r_parser_gen r else 0)"
  "r_raw_digest (clean_entry es r)
     = (if rec_has_label r label_unparsed \<and> valid_digest (r_raw_digest r) then r_raw_digest r else [])"
  by (simp_all add: clean_entry_def Let_def)

lemma clean_entry_facts:
  "r_locator (clean_entry es r) \<noteq> [] \<Longrightarrow> has_unreadable r"
  "r_recovered_by (clean_entry es r) \<noteq> [] \<Longrightarrow> mhas es (r_recovered_by (clean_entry es r))"
  "r_raw_digest (clean_entry es r) \<noteq> [] \<Longrightarrow> valid_digest (r_raw_digest (clean_entry es r)) \<and> rec_has_label r label_unparsed"
  "r_parser_gen (clean_entry es r) \<noteq> 0 \<Longrightarrow> rec_has_label r label_unparsed"
  by (simp_all add: clean_entry_fields split: if_splits)

lemma clean_entry_idem: "clean_entry es (clean_entry es r) = clean_entry es r"
proof -
  have l: "has_unreadable (clean_entry es r) = has_unreadable r"
    "rec_has_label (clean_entry es r) l = rec_has_label r l" for l
    by (simp_all add: has_unreadable_def rec_has_label_def clean_entry_frame)
  let ?c = "clean_entry es r"
  have "\<not> (r_locator ?c \<noteq> [] \<and> \<not> has_unreadable ?c)" "\<not> (r_recovered_by ?c \<noteq> [] \<and> \<not> mhas es (r_recovered_by ?c))"
    "\<not> (\<not> rec_has_label ?c label_unparsed \<and> (r_parser_gen ?c \<noteq> 0 \<or> r_raw_digest ?c \<noteq> []))"
    "\<not> (r_raw_digest ?c \<noteq> [] \<and> \<not> valid_digest (r_raw_digest ?c))"
    using clean_entry_facts [of es r] l by auto
  then show ?thesis by (subst (1) clean_entry_def) (simp only: Let_def if_False)
qed

lemma clean_entry_keys: "(\<And>k. mhas es k = mhas es' k) \<Longrightarrow> clean_entry es = clean_entry es'"
  by (rule ext) (simp add: clean_entry_def)

subsection \<open>Nothing is lost\<close>

definition new_key :: "manifest \<Rightarrow> string \<Rightarrow> mrec \<Rightarrow> string" where
  "new_key m k r = (if m_version m < 3 then fst (migrate_key k (r_path r)) else k)"

lemma sentinel_path [simp]: "r_path (sentinel_step r) = r_path r" "r_unit (sentinel_step r) = r_unit r"
  by (simp_all add: sentinel_step_def)

lemma timeline_path [simp]: "r_path (timeline_step r) = r_path r"
  by (simp add: timeline_step_def Let_def)

lemma mark_unknown_entries:
  "m_entries (mark_unknown m) = mmap (\<lambda>_. if m_version m < 2 then sentinel_step else (\<lambda>r. r)) (m_entries m)"
proof -
  have "mmap (\<lambda>_ r. r) es = es" for es :: "(string, mrec) gomap" by (induction es) (auto simp: mmap_def)
  then show ?thesis by (simp add: mark_unknown_def)
qed

lemma staged_mok: "mok (m_entries m) \<Longrightarrow> mok (staged m)"
proof -
  have "mok (rekey_step x es)" if "mok es" for x es
    using that by (cases x) (simp add: rekey_step_def Let_def)
  then have "mok (fold rekey_step L es)" if "mok es" for L es
    using that by (induction L arbitrary: es) simp_all
  then show "mok (m_entries m) \<Longrightarrow> mok (staged m)"
    by (simp add: staged_def seed_timeline_def rescope_def mark_unknown_entries Let_def)
qed

text \<open>The record that stands under a record's new key: itself, or the one the key was taken by.\<close>

definition kept_record :: "manifest \<Rightarrow> string \<Rightarrow> mrec \<Rightarrow> mrec" where
  "kept_record m k r = (case mget (m_entries m) (new_key m k r) of Some r0 \<Rightarrow> r0 | None \<Rightarrow> r)"

definition upgraded :: "manifest \<Rightarrow> mrec \<Rightarrow> mrec" where
  "upgraded m r = (if m_version m < 4 then timeline_step else (\<lambda>r. r)) ((if m_version m < 2 then sentinel_step else (\<lambda>r. r)) r)"

lemma staged_keeps:
  assumes m: "mok (m_entries m)" and k: "mget (m_entries m) k = Some r"
    and p: "\<forall>x\<in>set (m_entries m). nul \<notin> set (first_segment (r_path (snd x)))"
  shows "mget (staged m) (new_key m k r) = Some (upgraded m (kept_record m k r))"
proof -
  define es where "es = m_entries (mark_unknown (m\<lparr>m_loaded_version := m_version m\<rparr>))"
  define f where "f = (if m_version m < 2 then sentinel_step else (\<lambda>r. r))"
  have fp: "r_path (f r) = r_path r" for r by (simp add: f_def)
  have es: "es = mmap (\<lambda>_. f) (m_entries m)" by (simp add: es_def mark_unknown_entries f_def)
  have e: "mok es" "mget es k = Some (f r)" using m k by (simp_all add: es)
  have pe: "\<forall>x\<in>set es. nul \<notin> set (first_segment (r_path (snd x)))"
    using p by (auto simp: es mmap_def fp)
  have ne: "0 < length (m_entries (mark_unknown (m\<lparr>m_loaded_version := m_version m\<rparr>)))"
    using e(2) unfolding es_def [symmetric] by (cases es) auto
  let ?nk = "new_key m k r"
  have "mget (m_entries (rescope (mark_unknown (m\<lparr>m_loaded_version := m_version m\<rparr>)))) ?nk
      = Some (case mget es ?nk of Some r0 \<Rightarrow> r0 | None \<Rightarrow> f r)"
  proof (cases "m_version m < 3")
    case True
    with rekey_keeps [OF e pe] ne show ?thesis
      by (simp add: rescope_def Let_def new_key_def fp es_def)
  next
    case False
    then show ?thesis using e by (simp add: rescope_def new_key_def es_def)
  qed
  then have "mget (m_entries (rescope (mark_unknown (m\<lparr>m_loaded_version := m_version m\<rparr>)))) ?nk = Some (f (kept_record m k r))"
    by (simp add: es kept_record_def split: option.split)
  then show ?thesis by (simp add: staged_def seed_timeline_def upgraded_def f_def [symmetric])
qed

text \<open>
  What an opened record still says of the one in the file: everything about its page, its copies, its
  fixity, its identity, its hashes and its gaps as they were, and the rest as they were too, but that
  a record of version 1 that claims nothing is marked of unknown completeness, a record without a timeline
  (before version 4) is given one from its own folder and date, and a field that does not belong (a locator
  of a record that was read in full, a pointer to a record that is not there, the parser note of a message
  that was parsed, a digest that is none) is dropped.
\<close>

definition opened_from :: "manifest \<Rightarrow> manifest \<Rightarrow> mrec \<Rightarrow> mrec \<Rightarrow> bool" where
  "opened_from m m' r r' \<longleftrightarrow>
     r'\<lparr>r_missing := r_missing r, r_first_folder := r_first_folder r, r_first_seen := r_first_seen r,
        r_last_seen := r_last_seen r, r_present := r_present r, r_locator := r_locator r,
        r_recovered_by := r_recovered_by r, r_parser_gen := r_parser_gen r, r_raw_digest := r_raw_digest r\<rparr> = r
     \<and> r_missing r' = (if m_version m < 2 \<and> \<not> has_issues r then [unknown_sentinel] else r_missing r)
     \<and> (if m_version m < 4
         then r_present r'
           \<and> r_first_folder r' = (if r_first_folder r = [] then r_folder r else r_first_folder r)
           \<and> r_first_seen r' = (if r_first_seen r = zero_time then r_exported_at r else r_first_seen r)
           \<and> r_last_seen r' = (if r_last_seen r = zero_time then r_exported_at r else r_last_seen r)
         else r_present r' = r_present r \<and> r_first_folder r' = r_first_folder r
           \<and> r_first_seen r' = r_first_seen r \<and> r_last_seen r' = r_last_seen r)
     \<and> r_locator r' = (if has_unreadable r' then r_locator r else [])
     \<and> r_recovered_by r' = (if mhas (m_entries m') (r_recovered_by r) then r_recovered_by r else [])
     \<and> r_parser_gen r' = (if rec_has_label r' label_unparsed then r_parser_gen r else 0)
     \<and> r_raw_digest r' = (if rec_has_label r' label_unparsed \<and> valid_digest (r_raw_digest r) then r_raw_digest r else [])"

lemma clean_entry_rest:
  "(clean_entry es r)\<lparr>r_locator := a, r_recovered_by := b, r_parser_gen := c, r_raw_digest := d\<rparr>
     = r\<lparr>r_locator := a, r_recovered_by := b, r_parser_gen := c, r_raw_digest := d\<rparr>"
proof -
  have u: "(if P then x\<lparr>r_locator := []\<rparr> else x) = x\<lparr>r_locator := if P then [] else r_locator x\<rparr>"
    "(if P then x\<lparr>r_recovered_by := []\<rparr> else x) = x\<lparr>r_recovered_by := if P then [] else r_recovered_by x\<rparr>"
    "(if P then x\<lparr>r_raw_digest := []\<rparr> else x) = x\<lparr>r_raw_digest := if P then [] else r_raw_digest x\<rparr>"
    "(if P then x\<lparr>r_parser_gen := 0, r_raw_digest := []\<rparr> else x)
       = x\<lparr>r_parser_gen := if P then 0 else r_parser_gen x, r_raw_digest := if P then [] else r_raw_digest x\<rparr>"
    for P and x :: mrec by simp_all
  have o: "x\<lparr>r_locator := a', r_locator := a, r_recovered_by := b, r_parser_gen := c, r_raw_digest := d\<rparr>
      = x\<lparr>r_locator := a, r_recovered_by := b, r_parser_gen := c, r_raw_digest := d\<rparr>"
    "x\<lparr>r_recovered_by := a', r_locator := a, r_recovered_by := b, r_parser_gen := c, r_raw_digest := d\<rparr>
      = x\<lparr>r_locator := a, r_recovered_by := b, r_parser_gen := c, r_raw_digest := d\<rparr>"
    "x\<lparr>r_raw_digest := a', r_locator := a, r_recovered_by := b, r_parser_gen := c, r_raw_digest := d\<rparr>
      = x\<lparr>r_locator := a, r_recovered_by := b, r_parser_gen := c, r_raw_digest := d\<rparr>"
    "x\<lparr>r_parser_gen := n, r_locator := a, r_recovered_by := b, r_parser_gen := c, r_raw_digest := d\<rparr>
      = x\<lparr>r_locator := a, r_recovered_by := b, r_parser_gen := c, r_raw_digest := d\<rparr>"
    for x :: mrec and a' n by simp_all
  show ?thesis unfolding clean_entry_def Let_def u o ..
qed

lemma clean_entry_labels:
  "has_unreadable (clean_entry es r) = has_unreadable r" "rec_has_label (clean_entry es r) l = rec_has_label r l"
  by (simp_all add: has_unreadable_def rec_has_label_def clean_entry_frame)

lemma upgraded_fields:
  "r_missing (upgraded m r) = (if m_version m < 2 \<and> \<not> has_issues r then [unknown_sentinel] else r_missing r)"
  "r_locator (upgraded m r) = r_locator r" "r_recovered_by (upgraded m r) = r_recovered_by r"
  "r_parser_gen (upgraded m r) = r_parser_gen r" "r_raw_digest (upgraded m r) = r_raw_digest r"
  by (simp_all add: upgraded_def timeline_step_def sentinel_step_def Let_def)

lemma upgraded_timeline:
  "r_present (upgraded m r) = (m_version m < 4 \<or> r_present r)"
  "r_first_folder (upgraded m r) = (if m_version m < 4 \<and> r_first_folder r = [] then r_folder r else r_first_folder r)"
  "r_first_seen (upgraded m r) = (if m_version m < 4 \<and> r_first_seen r = zero_time then r_exported_at r else r_first_seen r)"
  "r_last_seen (upgraded m r) = (if m_version m < 4 \<and> r_last_seen r = zero_time then r_exported_at r else r_last_seen r)"
  by (simp_all add: upgraded_def timeline_step_def sentinel_step_def Let_def)

lemma upgraded_rest:
  "(upgraded m r)\<lparr>r_missing := a, r_first_folder := b, r_first_seen := c, r_last_seen := d, r_present := e\<rparr>
     = r\<lparr>r_missing := a, r_first_folder := b, r_first_seen := c, r_last_seen := d, r_present := e\<rparr>"
  by (simp add: upgraded_def timeline_step_def sentinel_step_def Let_def)

lemma clean_entry_timeline:
  "r_present (clean_entry es r) = r_present r" "r_first_folder (clean_entry es r) = r_first_folder r"
  "r_first_seen (clean_entry es r) = r_first_seen r" "r_last_seen (clean_entry es r) = r_last_seen r"
  by (simp_all add: clean_entry_def Let_def)

lemma upgraded_opens:
  assumes "\<And>k. mhas (m_entries m') k = mhas es k"
  shows "opened_from m m' r (clean_entry es (upgraded m r))"
proof -
  let ?u = "upgraded m r"
  let ?c = "clean_entry es ?u"
  let ?reset = "\<lambda>x. x\<lparr>r_missing := r_missing r, r_first_folder := r_first_folder r, r_first_seen := r_first_seen r,
        r_last_seen := r_last_seen r, r_present := r_present r, r_locator := r_locator r,
        r_recovered_by := r_recovered_by r, r_parser_gen := r_parser_gen r, r_raw_digest := r_raw_digest r\<rparr>"
  have "?reset ?c = ?reset (?c\<lparr>r_locator := r_locator r, r_recovered_by := r_recovered_by r,
      r_parser_gen := r_parser_gen r, r_raw_digest := r_raw_digest r\<rparr>)" by simp
  also have "\<dots> = ?reset (?u\<lparr>r_missing := r_missing r, r_first_folder := r_first_folder r, r_first_seen := r_first_seen r,
        r_last_seen := r_last_seen r, r_present := r_present r\<rparr>)" unfolding clean_entry_rest by simp
  also have "\<dots> = r" unfolding upgraded_rest by simp
  finally have frame: "?reset ?c = r" .
  show ?thesis unfolding opened_from_def
    by (intro conjI) (simp_all add: frame upgraded_fields upgraded_timeline clean_entry_frame clean_entry_timeline
        clean_entry_fields clean_entry_labels assms)
qed

text \<open>
  C25: opening an archive of any older build keeps what its records say.  Every record of the file stands
  in the opened manifest, under its own key, or, in a file of version 1 or 2, under the key its store gives
  it, with every field it had: its page, copies, fixity, hashes, labels, folder and timeline, but for the
  updates an older version is due and the fields that do not belong (\<open>opened_from\<close>).  The one exception is
  the code's own: where the new key was taken already by a record of an upgraded build, that record is the
  one kept, as it was, and the legacy one is dropped.  The paths of the file have a first segment without
  a NUL byte (R6, R8, FC1).
\<close>

theorem opening_loses_no_record:
  assumes "finish h now path m = Inr m'" and "mok (m_entries m)" and "mget (m_entries m) k = Some r"
    and "\<forall>x\<in>set (m_entries m). nul \<notin> set (first_segment (r_path (snd x)))"
  shows "\<exists>r'. mget (m_entries m') (new_key m k r) = Some r' \<and> opened_from m m' (kept_record m k r) r'"
  using staged_keeps [OF assms(2-4)] upgraded_opens [of m' "staged m" m]
  by (simp add: finish_cases(5) [OF assms(1)])

subsection \<open>Store ids and tokens of an opened manifest\<close>

definition sound_stores :: "host \<Rightarrow> (string, string) gomap \<Rightarrow> bool" where
  "sound_stores h st \<longleftrightarrow> mok st \<and> (\<forall>i t. mget st i = Some t \<longrightarrow> canonical_id i \<and> safe_token (h_sep h) t)"

lemma canonical_migrated: "canonical_id (migrate_store_id h old)" "canonical_id (snapshot_store_id h old)"
  by (simp_all add: migrate_store_id_def snapshot_store_id_def canonical_id_def path_source_id_def
      mailbox_source_id_def has_prefix_def Let_def)

lemma sound_stores_put:
  "sound_stores h st \<Longrightarrow> canonical_id i \<Longrightarrow> safe_token (h_sep h) t \<Longrightarrow> sound_stores h (mput i t st)"
  by (simp add: sound_stores_def)

lemma store_step_sound:
  assumes "sound_stores h (fst a)"
  shows "sound_stores h (fst (store_step h snap st old a))"
proof -
  obtain M n where a: "a = (M, n)" by fastforce
  show ?thesis
  proof (cases "mget st old")
    case None
    then show ?thesis using assms by (simp add: store_step_def a)
  next
    case (Some tok)
    define i where "i = (if snap then snapshot_store_id h old else migrate_store_id h old)"
    have c: "canonical_id i" by (simp add: i_def canonical_migrated)
    show ?thesis
    proof (cases "safe_token (h_sep h) tok")
      case False
      then show ?thesis using assms Some by (simp add: store_step_def a)
    next
      case True
      have M: "sound_stores h M" using assms a by simp
      have s: "safe_token (h_sep h) (prefer_plain_token e tok)" if "mget M i = Some e" for e
        using M that True by (simp add: sound_stores_def prefer_plain_token_def)
      have "fst (store_step h snap st old a) = (case mget M i of
          Some e \<Rightarrow> mput i (prefer_plain_token e tok) M | None \<Rightarrow> mput i tok M)"
        using Some True by (simp add: store_step_def a Let_def i_def [symmetric] split: option.split)
      then show ?thesis using sound_stores_put [OF M c] s True by (simp split: option.split)
    qed
  qed
qed

lemma store_fold_sound:
  "sound_stores h (fst a) \<Longrightarrow> sound_stores h (fst (fold (store_step h snap st) ks a))"
  by (induction ks arbitrary: a) (auto simp: store_step_sound)

lemma canonical_stores_sound: "sound_stores h (m_stores (canonical_stores h snap m))"
proof -
  have e: "sound_stores h []" by (simp add: sound_stores_def)
  have "sound_stores h (fst (fold (store_step h snap (m_stores m)) ks ([], n)))" for ks n
    by (rule store_fold_sound) (simp add: e)
  then show ?thesis using e by (simp add: canonical_stores_def split: prod.split) (metis fst_conv)
qed

text \<open>Canonicalising a sound map changes nothing.\<close>

lemma store_fold_fixed:
  "sound_stores h st \<Longrightarrow> distinct ks \<Longrightarrow> set ks \<inter> set (mkeys M) = {} \<Longrightarrow>
     mget (fst (fold (store_step h snap st) ks (M, n))) k
       = (if k \<in> set ks then mget st k else mget M k) \<and> snd (fold (store_step h snap st) ks (M, n)) = n"
  if "\<forall>k\<in>set ks. mget st k \<noteq> None"
  using that
proof (induction ks arbitrary: M)
  case (Cons a ks)
  obtain t where t: "mget st a = Some t" using Cons.prems by fastforce
  then have c: "canonical_id a" "safe_token (h_sep h) t" using Cons.prems(1) by (simp_all add: sound_stores_def)
  have "(if snap then snapshot_store_id h a else migrate_store_id h a) = a"
    using c by (simp add: snapshot_store_id_def migrate_store_id_def)
  moreover have "mget M a = None" using Cons.prems(3) by (auto simp: map_of_eq_None_iff)
  ultimately have step: "store_step h snap st a (M, n) = (mput a t M, n)"
    using t c by (simp add: store_step_def Let_def)
  have "set ks \<inter> set (mkeys (mput a t M)) = {}"
    using Cons.prems(2,3) by (auto simp: dom_update)
  from Cons.IH [OF Cons.prems(1) _ this] Cons.prems(2,4) show ?case
    unfolding fold_simps step using t by auto
qed simp

lemma canonical_stores_fixed:
  assumes "sound_stores h (m_stores m)"
  shows "mget (m_stores (canonical_stores h snap m)) k = mget (m_stores m) k
    \<and> m_stores_migrated (canonical_stores h snap m) = m_stores_migrated m"
proof (cases "0 < length (m_stores m)")
  case True
  let ?f = "fold (store_step h snap (m_stores m)) (sort (mkeys (m_stores m))) ([], m_stores_migrated m)"
  have mk: "mok (m_stores m)" using assms by (simp add: sound_stores_def)
  have "mget (fst ?f) k = (if k \<in> set (sort (mkeys (m_stores m))) then mget (m_stores m) k else mget [] k)
      \<and> snd ?f = m_stores_migrated m"
    by (rule store_fold_fixed) (use assms mk in \<open>auto simp: map_of_eq_None_iff\<close>)
  moreover have "k \<notin> set (mkeys (m_stores m)) \<Longrightarrow> mget (m_stores m) k = None" by (simp add: map_of_eq_None_iff)
  ultimately show ?thesis using True by (auto simp: canonical_stores_def split: prod.split)
next
  case False
  then show ?thesis by (simp add: canonical_stores_def)
qed

subsection \<open>Units\<close>

definition unit_ok :: "mrec \<Rightarrow> bool" where
  "unit_ok r \<longleftrightarrow> (r_unit r \<noteq> [] \<longrightarrow> valid_unit_id (r_unit r)) \<and> (r_unit r = [] \<longrightarrow> r_sealed r = None)
     \<and> (\<forall>s. r_sealed r = Some s \<longrightarrow> \<not> list_ex bad_sealed [ss_html s, ss_zip s, ss_eml s])"

lemma check_units_from_ok:
  "check_units_from es owner ks = None \<Longrightarrow> k \<in> set ks \<Longrightarrow> mget es k = Some r \<Longrightarrow>
     unit_ok r \<and> (\<forall>o'. r_unit r \<noteq> [] \<longrightarrow> mget owner (r_unit r) = Some o' \<longrightarrow> o' = k)"
proof (induction ks arbitrary: owner)
  case (Cons a ks)
  show ?case
  proof (cases "mget es a")
    case None
    with Cons show ?thesis by auto
  next
    case (Some ra)
    show ?thesis
    proof (cases "r_unit ra = []")
      case True
      have s: "r_sealed ra = None" and n: "check_units_from es owner ks = None"
        using Cons.prems(1) Some True by (auto split: if_splits)
      show ?thesis
      proof (cases "k = a")
        case True
        then show ?thesis using Some s Cons.prems(3) \<open>r_unit ra = []\<close> by (simp add: unit_ok_def)
      next
        case False
        then show ?thesis using Cons.IH [OF n] Cons.prems(2,3) by simp
      qed
    next
      case False
      let ?o = "mput (r_unit ra) a owner"
      have f: "valid_unit_id (r_unit ra)" "\<forall>o'. mget owner (r_unit ra) = Some o' \<longrightarrow> o' = a"
        "\<forall>s. r_sealed ra = Some s \<longrightarrow> \<not> list_ex bad_sealed [ss_html s, ss_zip s, ss_eml s]"
        "check_units_from es ?o ks = None"
        using Cons.prems(1) Some False by (auto split: if_splits option.splits)
      show ?thesis
      proof (cases "k = a")
        case True
        then show ?thesis using Some f(1-3) False Cons.prems(3) by (simp add: unit_ok_def)
      next
        case ka: False
        then have "k \<in> set ks" using Cons.prems(2) by simp
        from Cons.IH [OF f(4) this Cons.prems(3)]
        have ih: "unit_ok r" "\<And>o'. r_unit r \<noteq> [] \<Longrightarrow> mget ?o (r_unit r) = Some o' \<Longrightarrow> o' = k" by blast+
        have "r_unit r \<noteq> r_unit ra" if "r_unit r \<noteq> []" using ih(2) [OF that, of a] ka by auto
        then show ?thesis using ih by auto
      qed
    qed
  qed
qed simp

lemma check_units_from_unique:
  "check_units_from es owner ks = None \<Longrightarrow> k \<in> set ks \<Longrightarrow> k' \<in> set ks \<Longrightarrow> mget es k = Some r \<Longrightarrow>
     mget es k' = Some r' \<Longrightarrow> r_unit r \<noteq> [] \<Longrightarrow> r_unit r = r_unit r' \<Longrightarrow> k = k'"
proof (induction ks arbitrary: owner)
  case (Cons a ks)
  have tl: "check_units_from es owner' ks = None" if "owner' = (case mget es a of None \<Rightarrow> owner
      | Some ra \<Rightarrow> if r_unit ra = [] then owner else mput (r_unit ra) a owner)" for owner'
    using Cons.prems(1) that by (auto split: option.splits if_splits)
  have first: "k'' = a" if "mget es a = Some ra" "r_unit ra \<noteq> []" "k'' \<in> set ks" "mget es k'' = Some r''"
    "r_unit r'' = r_unit ra" for ra k'' r''
    using check_units_from_ok [OF tl [OF refl] that(3,4)] that by auto
  show ?case
  proof (cases "k = a \<or> k' = a")
    case True
    show ?thesis
    proof (rule ccontr)
      assume ne: "k \<noteq> k'"
      have u: "r_unit r' \<noteq> []" using Cons.prems(6,7) by simp
      from True show False
      proof
        assume a: "k = a"
        then have "k' \<in> set ks" using Cons.prems(3) ne by simp
        from first [OF _ Cons.prems(6) this Cons.prems(5)] a ne Cons.prems(4,7) show False by metis
      next
        assume a: "k' = a"
        then have "k \<in> set ks" using Cons.prems(2) ne by simp
        from first [OF _ u this Cons.prems(4)] a ne Cons.prems(5,7) show False by metis
      qed
    qed
  next
    case False
    with Cons.prems(2,3) have "k \<in> set ks" "k' \<in> set ks" by simp_all
    then show ?thesis by (rule Cons.IH [OF tl [OF refl] _ _ Cons.prems(4-7)])
  qed
qed simp

subsection \<open>What an opened manifest guarantees\<close>

text \<open>
  C26: whatever a manifest file holds, the manifest opened from it is sound: it is at the current
  version and every store id is canonical with a token that is one safe path segment; a record's
  recovered-by names a record, a locator belongs to an unreadable message, a raw digest is a digest of
  an unparsed one; every unit id is well formed, no two records share one, and sealed units belong to a
  record with a unit and have a revision, a digest and a size; and the identity index answers what a
  scan of the records would (INS2-1, FC25, P2a-C3, C5c).
\<close>

theorem an_opened_manifest_is_sound:
  assumes "finish h now path m = Inr m'" and "mok (m_entries m)"
    and "mget (m_entries m') k = Some r"
  shows "m_version m' = 6 \<and> sound_stores h (m_stores m')
     \<and> (r_recovered_by r = [] \<or> mhas (m_entries m') (r_recovered_by r))
     \<and> (r_locator r = [] \<or> has_unreadable r)
     \<and> (r_raw_digest r = [] \<or> valid_digest (r_raw_digest r) \<and> rec_has_label r label_unparsed)
     \<and> unit_ok r
     \<and> (\<forall>k' r'. mget (m_entries m') k' = Some r' \<longrightarrow> r_unit r' = r_unit r \<longrightarrow> r_unit r = [] \<or> k' = k)
     \<and> opt_all (byident.covers (mget (m_entries m'))) (m_by_ident m')"
proof -
  note f = finish_cases [OF assms(1)]
  have mk: "mok (m_entries m')" using staged_mok [OF assms(2)] by (simp add: f(5))
  from assms(3) obtain r0 where r0: "r = clean_entry (staged m) r0" by (auto simp: f(5))
  have l: "has_unreadable r = has_unreadable r0" "rec_has_label r x = rec_has_label r0 x" for x
    by (simp_all add: r0 has_unreadable_def rec_has_label_def clean_entry_frame)
  note c = clean_entry_facts [of "staged m" r0, folded r0]
  have cu: "check_units_from (m_entries m') [] (sort (mkeys (m_entries m'))) = None"
    using f(8) by (simp add: check_units_def)
  have ks: "k \<in> set (sort (mkeys (m_entries m')))" if "mget (m_entries m') k = Some r" for k r
    using mget_in [OF that] by force
  have "k' = k" if "mget (m_entries m') k' = Some r'" "r_unit r' = r_unit r" "r_unit r \<noteq> []" for k' r'
    using check_units_from_unique [OF cu ks [OF that(1)] ks [OF assms(3)] that(1) assms(3)] that by simp
  moreover have "opt_all (byident.covers (mget (m_entries m'))) (m_by_ident m')"
    using build_ident_covers [OF mk] by (simp add: f(7))
  moreover have "unit_ok r" using check_units_from_ok [OF cu ks [OF assms(3)] assms(3)] by blast
  moreover have "sound_stores h (m_stores m')" by (simp add: f(6) canonical_stores_sound)
  moreover have "mhas (m_entries m') (r_recovered_by r)" if "r_recovered_by r \<noteq> []"
    using c(2) [OF that] by (simp add: f(5))
  ultimately show ?thesis using c l f(2) by (auto simp: manifest_version_def)
qed

subsection \<open>Opening again\<close>

lemma mmap_id: "(\<And>k v. (k, v) \<in> set es \<Longrightarrow> f k v = v) \<Longrightarrow> mmap f es = es"
  by (induction es) (auto simp: mmap_def)

lemma finish_current:
  assumes "m_version m = manifest_version" and "mmap (\<lambda>_. clean_entry (m_entries m)) (m_entries m) = m_entries m"
    and "check_units m = None"
  shows "\<exists>m2. finish h now path m = Inr m2 \<and> m_entries m2 = m_entries m
    \<and> m_stores m2 = m_stores (canonical_stores h (path = []) m)
    \<and> m_migrated m2 = m_migrated m \<and> m_rekeyed m2 = m_rekeyed m
    \<and> m_stores_migrated m2 = m_stores_migrated (canonical_stores h (path = []) m)
    \<and> m_collapsed_tokens m2 = m_collapsed_tokens m"
proof -
  let ?m1 = "m\<lparr>m_loaded_version := m_version m\<rparr>"
  let ?m2 = "clean_sane h now (canonical_stores h (path = []) ?m1)"
  have e: "m_entries ?m2 = m_entries m" using assms(2) by simp
  have "seed_timeline (rescope (mark_unknown ?m1)) = ?m1"
    using assms(1) by (simp add: mark_unknown_def rescope_def seed_timeline_def manifest_version_def)
  then have "finish h now path m = Inr (?m2\<lparr>m_by_ident := Some (build_ident (m_entries m))\<rparr>)"
    using assms(1,3) e by (simp add: finish_def Let_def check_units_def)
  moreover have "m_stores ?m2 = m_stores (canonical_stores h (path = []) m)"
    by (simp add: canonical_stores_def split: prod.split)
  moreover have "m_migrated ?m2 = m_migrated m \<and> m_rekeyed ?m2 = m_rekeyed m
      \<and> m_stores_migrated ?m2 = m_stores_migrated (canonical_stores h (path = []) m)
      \<and> m_collapsed_tokens ?m2 = m_collapsed_tokens m"
    by (simp add: clean_sane_def clean_entries_def canonical_stores_def split: prod.split)
  ultimately show ?thesis using e by auto
qed

text \<open>
  C27: saving an opened manifest and opening what was saved changes nothing: it always opens, the
  records are the same ones, every store keeps its token, and nothing is migrated, re-keyed or
  rewritten a second time (FC1, FC3).
\<close>

theorem reopening_changes_nothing:
  assumes "finish h now path m = Inr m'" and "mok (m_entries m)" and "m_path m \<noteq> []"
  shows "\<exists>v m2. save_view m' = Some (v, m') \<and> from_sealed h now' path' v = Inr m2
    \<and> m_entries m2 = m_entries m' \<and> (\<forall>i. mget (m_stores m2) i = mget (m_stores m') i)
    \<and> m_collapsed_tokens m2 = m_collapsed_tokens m'
    \<and> m_migrated m2 = 0 \<and> m_rekeyed m2 = 0 \<and> m_stores_migrated m2 = 0"
proof -
  note f = finish_cases [OF assms(1)]
  let ?v = "\<lparr>v_version = m_version m', v_entries = m_entries m', v_stores = m_stores m',
                v_capture_gaps = m_capture_gaps m', v_collapsed_tokens = m_collapsed_tokens m'\<rparr>"
  let ?m0 = "(new_manifest path')\<lparr>m_version := m_version m', m_entries := m_entries m', m_stores := m_stores m',
    m_capture_gaps := m_capture_gaps m', m_collapsed_tokens := m_collapsed_tokens m', m_sealed := True\<rparr>"
  have s: "save_view m' = Some (?v, m')"
    using f(2,4) assms(3) by (simp add: save_view_def Let_def)
  have "clean_entry (m_entries m') = clean_entry (staged m)"
    by (rule clean_entry_keys) (simp add: f(5))
  then have "mmap (\<lambda>_. clean_entry (m_entries m')) (m_entries m') = m_entries m'"
    by (simp add: f(5) mmap_mmap clean_entry_idem)
  then obtain m2 where m2: "finish h now' path' ?m0 = Inr m2" "m_entries m2 = m_entries m'"
    "m_stores m2 = m_stores (canonical_stores h (path' = []) ?m0)" "m_migrated m2 = 0" "m_rekeyed m2 = 0"
    "m_stores_migrated m2 = m_stores_migrated (canonical_stores h (path' = []) ?m0)"
    "m_collapsed_tokens m2 = m_collapsed_tokens m'"
    using finish_current [of ?m0 h now' path'] f(2,8) by (auto simp: check_units_def new_manifest_def)
  have "sound_stores h (m_stores ?m0)" using canonical_stores_sound by (simp add: f(6))
  from canonical_stores_fixed [OF this] have
    "mget (m_stores m2) i = mget (m_stores m') i \<and> m_stores_migrated m2 = 0" for i
    by (simp add: m2(3,6) new_manifest_def)
  then show ?thesis using s m2 by (auto simp: from_sealed_def)
qed

subsection \<open>The token of a store\<close>

lemma base_name_plain: "s \<noteq> [] \<Longrightarrow> sep \<notin> set s \<Longrightarrow> base_name sep s = s"
proof -
  assume ne: "s \<noteq> []" and n: "sep \<notin> set s"
  have d: "dropWhile (\<lambda>c. c = sep) (rev s) = rev s"
    using ne n by (cases "rev s") (auto dest: arg_cong [where f = set])
  have t: "takeWhile (\<lambda>c. c \<noteq> sep) (rev s) = rev s" using n by (auto simp: takeWhile_eq_all_conv)
  show ?thesis using ne by (simp add: base_name_def d t)
qed

definition safe_runes :: "string \<Rightarrow> bool" where
  "safe_runes s \<longleftrightarrow> list_all (\<lambda>r. \<not> (r < 0x20 \<or> r = 0x7f)) (runes s)"

lemma safe_tokenI:
  assumes "s \<notin> {[], ''.'', ''..''}" and "CHR ''/'' \<notin> set s" and "sep \<notin> set s" and "safe_runes s"
  shows "safe_token sep s"
  using assms base_name_plain [of s sep] by (simp add: safe_token_def safe_runes_def)

lemma hash_token:
  assumes "sep \<in> {CHR ''/'', CHR 0x5C}" and "safe_token sep s"
  shows "safe_token sep (s @ CHR ''~'' # hash_hex x n)"
proof -
  have l: "legal (CHR ''~'' # hash_hex x n)" using hash_legal by simp
  then have "CHR ''/'' \<notin> set (CHR ''~'' # hash_hex x n)" "sep \<notin> set (CHR ''~'' # hash_hex x n)"
    using assms(1) by (auto simp: legal_def illegal_def simp del: legal_Cons)
  moreover have "byte c \<ge> 0x20 \<and> byte c \<noteq> 0x7f" if "c \<in> set (CHR ''~'' # hash_hex x n)" for c
    using that hash_hex_alphabet [of x n] by (auto simp: hex_alphabet_def byte_def)
  then have "safe_runes (s @ CHR ''~'' # hash_hex x n)"
    using assms(2) unfolding safe_runes_def runes_ascii_append [OF tilde_ascii]
    by (fastforce simp: safe_token_def list_all_iff)
  moreover have "s @ CHR ''~'' # hash_hex x n \<notin> {[], ''.'', ''..''}"
  proof
    assume "s @ CHR ''~'' # hash_hex x n \<in> {[], ''.'', ''..''}"
    then have "set (s @ CHR ''~'' # hash_hex x n) \<subseteq> {CHR ''.''}" by (elim insertE) simp_all
    then show False by simp
  qed
  ultimately show ?thesis using assms(2) by (intro safe_tokenI) (simp_all add: safe_token_def)
qed

lemma token_segment_safe:
  assumes "h_sep h \<in> {CHR ''/'', CHR 0x5C}"
  shows "safe_token (h_sep h) (token_segment h store)"
proof -
  have st: "safe_token (h_sep h) ''store''"
    using assms by (intro safe_tokenI) (auto simp: safe_runes_def byte_def)
  show ?thesis
    using hash_token [OF assms] hash_token [OF assms st, of store 8]
    by (simp add: token_segment_def short_hash_def Let_def)
qed

lemma token_loop_facts:
  assumes "h_sep h \<in> {CHR ''/'', CHR 0x5C}" and "safe_token (h_sep h) seg"
  shows "safe_token (h_sep h) (token_loop st seg src n)
    \<and> (\<not> segment_owned st (token_loop st seg src n)
       \<or> token_loop st seg src n = seg @ CHR ''~'' # hash_hex (src @ nul # seg) 40)"
  using assms(2)
proof (induction st seg src n rule: token_loop.induct)
  case (1 st seg src n)
  then show ?case
    using hash_token [OF assms(1) 1(2)] by (subst (1 2 3) token_loop.simps) (auto simp: Let_def)
qed

lemma fresh_token_ok:
  assumes "h_sep h \<in> {CHR ''/'', CHR 0x5C}"
  shows "safe_token (h_sep h) (fst (fresh_token h source store m))
     \<and> token h source store' (snd (fresh_token h source store m)) = fresh_token h source store m
     \<and> mget (m_stores (snd (fresh_token h source store m))) source = Some (fst (fresh_token h source store m))
     \<and> m_entries (snd (fresh_token h source store m)) = m_entries m
     \<and> (\<forall>other. other = source
          \<or> mget (m_stores (snd (fresh_token h source store m))) other = mget (m_stores m) other)
     \<and> ((\<forall>other. mget (m_stores m) other \<noteq> Some (fst (fresh_token h source store m)))
        \<or> fst (fresh_token h source store m)
            = token_segment h store @ CHR ''~'' # hash_hex (source @ nul # token_segment h store) 40)"
proof -
  let ?seg = "token_segment h store"
  let ?tok = "if \<not> segment_owned (m_stores m) ?seg then ?seg else token_loop (m_stores m) ?seg source 8"
  have f: "fresh_token h source store m = (?tok, m\<lparr>m_stores := mput source ?tok (m_stores m)\<rparr>)"
    by (simp add: fresh_token_def Let_def)
  note l = token_loop_facts [of h ?seg "m_stores m" source 8, OF assms token_segment_safe [OF assms]]
  have s: "safe_token (h_sep h) ?tok" using l token_segment_safe [OF assms] by simp
  have o: "\<not> segment_owned (m_stores m) ?tok \<or> ?tok = ?seg @ CHR ''~'' # hash_hex (source @ nul # ?seg) 40"
    using l by simp
  have "mget (m_stores m) other \<noteq> Some t" if "\<not> segment_owned (m_stores m) t" for other t
    using that by (auto simp: segment_owned_def list_ex_iff dest: mget_in)
  with o have "(\<forall>other. mget (m_stores m) other \<noteq> Some ?tok)
      \<or> ?tok = ?seg @ CHR ''~'' # hash_hex (source @ nul # ?seg) 40" by blast
  with s show ?thesis unfolding f by (simp add: token_def)
qed

text \<open>
  A store has one directory for good: the token of a source is one safe path segment, asking again
  under any display name returns it and changes nothing, no other source's token changes, and it is
  the token of no other source unless the full digest of two sources collides (F1, FC2, R4, R6).
\<close>

theorem a_store_keeps_its_token:
  fixes h :: host and source :: string and store :: string and m :: manifest
  assumes "h_sep h \<in> {CHR ''/'', CHR 0x5C}"
  defines "tok \<equiv> fst (token h source store m)" and "m' \<equiv> snd (token h source store m)"
  shows "safe_token (h_sep h) tok \<and> token h source store' m' = (tok, m')
     \<and> mget (m_stores m') source = Some tok \<and> m_entries m' = m_entries m
     \<and> (\<forall>other. other = source \<or> mget (m_stores m') other = mget (m_stores m) other)
     \<and> ((\<forall>other. mget (m_stores m) other \<noteq> Some tok) \<or> m' = m
        \<or> tok = token_segment h store @ CHR ''~'' # hash_hex (source @ nul # token_segment h store) 40)"
proof (cases "\<exists>t. mget (m_stores m) source = Some t \<and> safe_token (h_sep h) t")
  case True
  then show ?thesis by (auto simp: tok_def m'_def token_def)
next
  case False
  let ?F = "fresh_token h source store m"
  have e: "token h source store m = ?F" using False by (simp add: token_def split: option.split)
  have t: "tok = fst ?F" "m' = snd ?F" "(tok, m') = ?F" by (simp_all add: tok_def m'_def e)
  note f = fresh_token_ok [OF assms(1), where source = source and store = store and m = m and store' = store']
  show ?thesis unfolding t(3) unfolding t(1,2) using f by blast
qed

subsection \<open>On a small archive\<close>

text \<open>A manifest of version 2 with one record, on a host with slashes whose files are where they are named.\<close>

definition plain_host :: host where
  "plain_host = \<lparr>h_sep = CHR ''/'', h_folds = False, h_is_abs = (\<lambda>p. has_prefix p ''/''), h_abs = Some,
     h_resolve = Some, h_clean = go_clean, h_lower = (\<lambda>s. s), h_nfc = (\<lambda>s. s)\<rparr>"

definition old_record :: mrec where
  "old_record = zero_rec\<lparr>r_path := ''m/I/a'', r_folder := ''I'', r_missing := [''body'']\<rparr>"

definition old_manifest :: manifest where
  "old_manifest = (new_manifest ''p'')\<lparr>m_version := 2, m_entries := [(live_key ''I'' ''mid:a'', old_record)]\<rparr>"

lemma old_migrates:
  "migrate_key (live_key ''I'' ''mid:a'') ''m/I/a'' = (folder_key ''m'' ''I'' ''mid:a'', True)"
  by (simp add: migrate_key_def key_defs count_byte_def first_segment_def trim_prefix_def upto_byte_def)

lemma old_staged: "staged old_manifest = [(folder_key ''m'' ''I'' ''mid:a'', timeline_step old_record)]"
  by (simp add: staged_def old_manifest_def new_manifest_def mark_unknown_def rescope_def rekeys_def rekey_step_def
      seed_timeline_def old_migrates mhas_def old_record_def mmap_def Let_def)

lemma old_opens: "\<exists>m'. finish plain_host now ''p'' old_manifest = Inr m'"
proof -
  let ?m1 = "old_manifest\<lparr>m_loaded_version := m_version old_manifest\<rparr>"
  let ?m2 = "clean_sane plain_host now (canonical_stores plain_host False (seed_timeline (rescope (mark_unknown ?m1))))"
  have "m_entries ?m2 = mmap (\<lambda>_. clean_entry (staged old_manifest)) (staged old_manifest)"
    by (simp add: staged_def)
  then have e: "m_entries ?m2 = [(folder_key ''m'' ''I'' ''mid:a'', clean_entry (staged old_manifest) (timeline_step old_record))]"
    by (simp add: old_staged mmap_def)
  have "r_unit old_record = []" "r_sealed old_record = None" by (simp_all add: old_record_def zero_rec_def)
  then have u: "r_unit (timeline_step old_record) = []" "r_sealed (timeline_step old_record) = None"
    by (simp_all add: timeline_step_def Let_def)
  have "check_units m = None" if "m_entries m = m_entries ?m2" for m
    unfolding check_units_def that e using u by (simp add: clean_entry_frame)
  moreover have "\<not> manifest_version < m_version old_manifest"
    by (simp add: old_manifest_def manifest_version_def)
  ultimately show ?thesis by (simp add: finish_def Let_def split: option.split)
qed

lemma old_facts:
  "mok (m_entries old_manifest)" "mget (m_entries old_manifest) (live_key ''I'' ''mid:a'') = Some old_record"
  "\<forall>x\<in>set (m_entries old_manifest). nul \<notin> set (first_segment (r_path (snd x)))" "m_path old_manifest \<noteq> []"
  "new_key old_manifest (live_key ''I'' ''mid:a'') old_record = folder_key ''m'' ''I'' ''mid:a''"
  by (simp_all add: old_manifest_def old_record_def new_manifest_def new_key_def old_migrates first_segment_def
      trim_prefix_def upto_byte_def)

theorem opening_loses_no_record_witness:
  "\<exists>m' r'. finish plain_host 0 ''p'' old_manifest = Inr m'
     \<and> mget (m_entries m') (folder_key ''m'' ''I'' ''mid:a'') = Some r' \<and> opened_from old_manifest m' old_record r'"
proof -
  obtain m' where m': "finish plain_host 0 ''p'' old_manifest = Inr m'" using old_opens by blast
  have "kept_record old_manifest (live_key ''I'' ''mid:a'') old_record = old_record"
    by (simp add: kept_record_def old_facts(5)) (simp add: old_manifest_def key_defs)
  with opening_loses_no_record [OF m' old_facts(1-3)] m' show ?thesis unfolding old_facts(5) by auto
qed

theorem an_opened_manifest_is_sound_witness:
  "\<exists>m'. finish plain_host 0 ''p'' old_manifest = Inr m' \<and> m_version m' = 6"
proof -
  obtain m' where m': "finish plain_host 0 ''p'' old_manifest = Inr m'" using old_opens by blast
  have "mget (m_entries m') (folder_key ''m'' ''I'' ''mid:a'')
      = Some (clean_entry (staged old_manifest) (timeline_step old_record))"
    by (simp add: finish_cases(5) [OF m'] old_staged)
  from an_opened_manifest_is_sound [OF m' old_facts(1) this] m' show ?thesis by blast
qed

theorem reopening_changes_nothing_witness:
  "\<exists>m' v m2. finish plain_host 0 ''p'' old_manifest = Inr m' \<and> from_sealed plain_host 1 ''p'' v = Inr m2
     \<and> m_entries m2 = m_entries m'"
proof -
  obtain m' where m': "finish plain_host 0 ''p'' old_manifest = Inr m'" using old_opens by blast
  from reopening_changes_nothing [OF m' old_facts(1,4), of 1 "''p''"] m' show ?thesis by blast
qed

theorem a_store_keeps_its_token_witness:
  "safe_token CHR ''/'' (fst (token plain_host ''mailbox:a'' ''a'' (new_manifest ''p'')))"
proof -
  have "h_sep plain_host \<in> {CHR ''/'', CHR 0x5C}" by (simp add: plain_host_def)
  from a_store_keeps_its_token [OF this, of "''mailbox:a''" "''a''" "new_manifest ''p''"]
  show ?thesis by (simp add: plain_host_def)
qed

end
