(* ===== verification/ExportNames.thy ===== *)
theory ExportNames
  imports Paths
begin

text \<open>
  The stricter naming pass of the copy export (\<^verbatim>\<open>internal/util/exportnames.go\<close>): bidi controls
  stripped, more device names refused and every name within 255 bytes, cut between whole runes.
\<close>

definition export_segment_max_bytes :: nat where "export_segment_max_bytes = 255"

definition name_control :: "(nat \<Rightarrow> bool) \<Rightarrow> nat \<Rightarrow> bool" where
  "name_control cf r \<longleftrightarrow> \<not> (r = 0x200C \<or> r = 0x200D)
     \<and> (r = 0x7F \<or> in_range 0x80 0x9F r \<or> r = 0x2028 \<or> r = 0x2029 \<or> r = 0x034F \<or> cf r)"

definition strip_name_controls :: "(nat \<Rightarrow> bool) \<Rightarrow> string \<Rightarrow> string" where
  "strip_name_controls cf s = keep_runes (\<lambda>r. \<not> name_control cf r) s"

text \<open>\<^verbatim>\<open>truncateBytes\<close>: the loop backs up to a byte that starts a rune.\<close>

fun rune_cut :: "string \<Rightarrow> nat \<Rightarrow> nat" where
  "rune_cut s 0 = 0"
| "rune_cut s (Suc n) = (if rune_start (s ! Suc n) then Suc n else rune_cut s n)"

definition truncate_bytes :: "string \<Rightarrow> nat \<Rightarrow> string" where
  "truncate_bytes s mx = (if mx = 0 then [] else if length s \<le> mx then s else take (rune_cut s mx) s)"

definition join_suffix :: "string \<Rightarrow> string \<Rightarrow> nat \<Rightarrow> string" where
  "join_suffix name sfx mx =
     (if length name + length sfx \<le> mx then name @ sfx
      else trim_right '' .'' (truncate_bytes name (mx - length sfx)) @ sfx)"

definition reserved_extra :: "string list" where
  "reserved_extra = [''CONIN$'', ''CONOUT$'', ''CLOCK$'', ''COM0'', ''LPT0'']"

definition superscript_port :: "string \<Rightarrow> string \<Rightarrow> bool" where
  "superscript_port up p \<longleftrightarrow> has_prefix up p
     \<and> (case decode_rune (drop (length p) up) of (r, n) \<Rightarrow>
          n = length (drop (length p) up) \<and> 0 < n \<and> r \<in> {0xB9, 0xB2, 0xB3})"

definition is_reserved_strict :: "string \<Rightarrow> bool" where
  "is_reserved_strict s \<longleftrightarrow> is_reserved s
     \<or> (let up = upper_name (trim_right '' '' (upto_byte CHR ''.'' s))
        in up \<in> set reserved_names \<or> up \<in> set reserved_extra
           \<or> superscript_port up ''COM'' \<or> superscript_port up ''LPT'')"

definition has_hash_suffix :: "string \<Rightarrow> bool" where
  "has_hash_suffix s \<longleftrightarrow> 9 \<le> length s \<and> s ! (length s - 9) = CHR ''~''
     \<and> list_all (\<lambda>r. in_range 48 57 r \<or> in_range 97 102 r) (runes (drop (length s - 8) s))"

definition bound_bytes :: "string \<Rightarrow> string \<Rightarrow> nat \<Rightarrow> string" where
  "bound_bytes s orig mx =
     (if length s \<le> mx then s
      else let base = (if has_hash_suffix s then take (length s - 9) s else s)
      in join_suffix (trim_right '' .'' base) (CHR ''~'' # short_hash orig) mx)"

definition export_segment :: "(string \<Rightarrow> string) \<Rightarrow> string \<Rightarrow> string" where
  "export_segment nfc name =
     (let clean = strip_bidi name; out = sanitize_segment nfc clean;
          out = (if is_reserved_strict out then CHR ''_'' # out else out);
          out = (if clean \<noteq> name \<and> \<not> has_hash_suffix out
                 then join_suffix out (CHR ''~'' # short_hash name) export_segment_max_bytes else out)
      in bound_bytes out name export_segment_max_bytes)"

definition last_dot :: "string \<Rightarrow> nat option" where
  "last_dot s = (let t = takeWhile (\<lambda>c. c \<noteq> CHR ''.'') (rev s)
     in if length t < length s then Some (length s - length t - 1) else None)"

text \<open>The base and the extension a long name is cut into.\<close>

definition cut_extension :: "string \<Rightarrow> string \<times> string" where
  "cut_extension out = (case last_dot out of
       Some i \<Rightarrow> if 0 < i then (take i out, trim_right '' .'' (truncate_bytes (drop i out) 32)) else (out, [])
     | None \<Rightarrow> (out, []))"

definition export_filename ::
  "(string \<Rightarrow> string) \<Rightarrow> (char \<Rightarrow> bool) \<Rightarrow> (nat \<Rightarrow> bool) \<Rightarrow> string \<Rightarrow> int \<Rightarrow> string" where
  "export_filename nfc is_sep cf name index =
     (let clean = strip_name_controls cf (strip_bidi name); out = sanitize_filename nfc is_sep clean index;
          out = (if is_reserved_strict out \<or> has_prefix out ''-'' \<or> has_prefix out ''~'' then CHR ''_'' # out else out)
      in if length out \<le> export_segment_max_bytes then out
         else let (base, ext) = cut_extension out;
                  sfx = CHR ''~'' # short_hash name;
                  base = trim_right '' .'' (truncate_bytes base (export_segment_max_bytes - length ext - length sfx))
              in base @ sfx @ ext)"

subsection \<open>Every name fits\<close>

lemma rune_cut_le: "rune_cut s n \<le> n"
  by (induction s n rule: rune_cut.induct) auto

lemma truncate_bytes_prefix: "prefix (truncate_bytes s n) s"
  by (auto simp: truncate_bytes_def take_is_prefix)

lemma truncate_bytes_le: "length (truncate_bytes s n) \<le> n"
  using rune_cut_le [of s n] by (auto simp: truncate_bytes_def)

lemma trimmed_cut: "length (trim_right cs (truncate_bytes s n)) \<le> n"
  using length_trim_right [of cs "truncate_bytes s n"] truncate_bytes_le [of s n] by linarith

lemma legal_trimmed_cut: "legal s \<Longrightarrow> legal (trim_right cs (truncate_bytes s n))"
  using legal_sub [of s "truncate_bytes s n"] set_mono_prefix [OF truncate_bytes_prefix] legal_trim_right by blast

lemma suffix_ok: "legal (CHR ''~'' # short_hash s)" "length (CHR ''~'' # short_hash s) = 9"
  using hash_legal(1) by (simp_all add: short_hash_def)

lemma join_suffix_ok:
  assumes "legal name" and "9 \<le> mx"
  shows "legal (join_suffix name (CHR ''~'' # short_hash s) mx)
    \<and> length (join_suffix name (CHR ''~'' # short_hash s) mx) \<le> mx
    \<and> join_suffix name (CHR ''~'' # short_hash s) mx \<noteq> []"
proof -
  have "length (trim_right '' .'' (truncate_bytes name (mx - 9))) + 9 \<le> mx"
    using trimmed_cut [of "'' .''" name "mx - 9"] assms(2) by linarith
  then show ?thesis
    using legal_trimmed_cut [OF assms(1), of "'' .''" "mx - 9"] assms(1) suffix_ok [of s]
    unfolding join_suffix_def by (auto simp del: legal_Cons)
qed

lemma bound_bytes_ok:
  assumes "legal s" and "s \<noteq> []" and "9 \<le> mx"
  shows "legal (bound_bytes s orig mx) \<and> length (bound_bytes s orig mx) \<le> mx \<and> bound_bytes s orig mx \<noteq> []"
proof -
  have l: "legal (trim_right '' .'' (if has_hash_suffix s then take (length s - 9) s else s))"
    by (rule legal_trim_right) (use assms(1) in \<open>auto simp: legal_def dest: in_set_takeD\<close>)
  show ?thesis
    using join_suffix_ok [OF l assms(3)] assms(1,2) by (cases "length s \<le> mx") (simp_all add: bound_bytes_def Let_def)
qed

lemma cut_extension_ok:
  assumes "cut_extension out = (base, ext)" and "legal out"
  shows "legal base" "legal ext" "length ext \<le> 32"
proof -
  have "legal (take n out)" "legal (drop n out)" for n
    using assms(2) by (auto simp: legal_def dest: in_set_takeD in_set_dropD)
  then show "legal base" "legal ext" "length ext \<le> 32"
    using assms legal_trimmed_cut trimmed_cut by (auto simp: cut_extension_def split: option.splits if_splits)
qed

text \<open>
  C31: a copy export can write every name it makes: whatever the original name, the folder segment and
  the file name are not empty, hold no refused character and no separator, and are at most 255 bytes
  long, the limit of the Linux file systems (F91).
\<close>

theorem export_names_fit:
  "export_segment nfc s \<noteq> [] \<and> length (export_segment nfc s) \<le> 255 \<and> filter illegal (export_segment nfc s) = []
   \<and> export_filename nfc is_sep cf s i \<noteq> [] \<and> length (export_filename nfc is_sep cf s i) \<le> 255
   \<and> filter illegal (export_filename nfc is_sep cf s i) = []"
proof -
  have fl: "filter illegal t = []" if "legal t" for t using that by (auto simp: legal_def filter_empty_conv)
  let ?out = "sanitize_segment nfc (strip_bidi s)"
  let ?m = "if is_reserved_strict ?out then CHR ''_'' # ?out else ?out"
  let ?j = "if strip_bidi s \<noteq> s \<and> \<not> has_hash_suffix ?m
      then join_suffix ?m (CHR ''~'' # short_hash s) export_segment_max_bytes else ?m"
  have m: "legal ?m" "?m \<noteq> []" using segment_ok [of nfc "strip_bidi s"] by (simp_all add: core_ok_def)
  have "legal ?j \<and> ?j \<noteq> []"
    using join_suffix_ok [OF m(1), of export_segment_max_bytes s] m by (simp add: export_segment_max_bytes_def)
  then have seg: "legal (export_segment nfc s) \<and> length (export_segment nfc s) \<le> 255 \<and> export_segment nfc s \<noteq> []"
    using bound_bytes_ok [of ?j export_segment_max_bytes s]
    by (simp only: export_segment_def Let_def export_segment_max_bytes_def) simp
  let ?f = "sanitize_filename nfc is_sep (strip_name_controls cf (strip_bidi s)) i"
  let ?g = "if is_reserved_strict ?f \<or> has_prefix ?f ''-'' \<or> has_prefix ?f ''~'' then CHR ''_'' # ?f else ?f"
  have g: "legal ?g" "?g \<noteq> []" using filename_ok [of nfc is_sep "strip_name_controls cf (strip_bidi s)" i] by simp_all
  have fname: "legal (export_filename nfc is_sep cf s i) \<and> length (export_filename nfc is_sep cf s i) \<le> 255
      \<and> export_filename nfc is_sep cf s i \<noteq> []"
  proof (cases "length ?g \<le> export_segment_max_bytes")
    case True
    then have "export_filename nfc is_sep cf s i = ?g" by (simp add: export_filename_def Let_def)
    with True g show ?thesis by (simp add: export_segment_max_bytes_def)
  next
    case False
    obtain base ext where be: "cut_extension ?g = (base, ext)" by fastforce
    note b = cut_extension_ok [OF this g(1)]
    let ?c = "trim_right '' .'' (truncate_bytes base (255 - length ext - 9))"
    have e: "export_filename nfc is_sep cf s i = ?c @ (CHR ''~'' # short_hash s) @ ext"
      using False be suffix_ok(2) [of s]
      by (simp add: export_filename_def Let_def export_segment_max_bytes_def)
    have "length ?c + 9 + length ext \<le> 255" using trimmed_cut [of "'' .''" base "255 - length ext - 9"] b(3) by linarith
    then show ?thesis
      unfolding e using legal_trimmed_cut [OF b(1)] b(2) suffix_ok [of s] by simp
  qed
  show ?thesis using seg fname fl by blast
qed

end
