(* ===== verification/History.thy ===== *)
theory History
  imports Manifest AsciiText "HOL-Library.Product_Lexorder"
begin

text \<open>
  The append-only history log (\<^verbatim>\<open>internal/state/history.go\<close>): its lines, the repair of a torn
  tail, the fold that answers how the mailbox stood on a date, the run dates, the coverage status and
  the redaction.  The log is its bytes; the JSON codec is a parameter (\<open>marshal\<close>,
  \<open>unmarshal\<close>), and so is the date parser's result through
  \<^const>\<open>parse_rfc3339\<close> of theory \<open>GoTime\<close>.
\<close>

record hist_event =
  he_run :: int
  he_at :: string
  he_mailboxes :: "string list"
  he_completed :: string
  he_k :: string
  he_folder :: string
  he_gone :: bool
  he_from :: string
  he_to :: string
  he_copy :: bool
  he_barrier :: bool

definition zero_event :: hist_event where
  "zero_event = \<lparr>he_run = 0, he_at = [], he_mailboxes = [], he_completed = [], he_k = [], he_folder = [],
     he_gone = False, he_from = [], he_to = [], he_copy = False, he_barrier = False\<rparr>"

definition run_header :: "int \<Rightarrow> gotime \<Rightarrow> string list \<Rightarrow> hist_event" where
  "run_header run at mailboxes = zero_event\<lparr>he_run := run, he_at := format_rfc3339 at, he_mailboxes := mailboxes\<rparr>"

definition folder_event :: "string \<Rightarrow> string \<Rightarrow> hist_event" where
  "folder_event key folder = zero_event\<lparr>he_k := key, he_folder := folder\<rparr>"

definition gone_event :: "string \<Rightarrow> hist_event" where
  "gone_event key = zero_event\<lparr>he_k := key, he_gone := True\<rparr>"

definition rename_event :: "string \<Rightarrow> string \<Rightarrow> hist_event" where
  "rename_event src dst = zero_event\<lparr>he_from := src, he_to := dst\<rparr>"

definition run_footer :: "int \<Rightarrow> gotime \<Rightarrow> hist_event" where
  "run_footer run at = zero_event\<lparr>he_run := run, he_completed := format_rfc3339 at\<rparr>"

subsection \<open>The log file\<close>

abbreviation newline :: char where "newline \<equiv> CHR 0x0A"

text \<open>\<^verbatim>\<open>lastNewlineEnd\<close>: the scan backward in chunks of 8192 bytes.\<close>

function newline_scan :: "string \<Rightarrow> nat \<Rightarrow> nat" where
  "newline_scan f pos =
     (if pos = 0 then 0
      else let n = (if pos < 8192 then pos else 8192); start = pos - n; buf = take n (drop start f)
      in case find (\<lambda>i. buf ! i = newline) (rev [0..<n]) of
           Some i \<Rightarrow> start + i + 1
         | None \<Rightarrow> newline_scan f start)"
  by pat_completeness auto
termination
  by (relation "measure snd") (auto split: if_splits)

declare newline_scan.simps [simp del]

definition truncate_torn_tail :: "string \<Rightarrow> string" where
  "truncate_torn_tail f =
     (let size = length f
      in if size = 0 then f
         else let off = newline_scan f size in if off < size then take off f else f)"

text \<open>A writer: the bytes of its file, \<open>None\<close> once it is closed.\<close>

type_synonym history_writer = "string option"

definition open_history :: "string option \<Rightarrow> history_writer" where
  "open_history f = Some (truncate_torn_tail (case f of None \<Rightarrow> [] | Some b \<Rightarrow> b))"

definition history_append :: "(hist_event \<Rightarrow> string) \<Rightarrow> hist_event \<Rightarrow> history_writer \<Rightarrow> history_writer option" where
  "history_append marshal ev w = (case w of None \<Rightarrow> None | Some f \<Rightarrow> Some (Some (f @ marshal ev @ [newline])))"

definition close_history :: "history_writer \<Rightarrow> history_writer" where
  "close_history w = None"

text \<open>The lines a scanner with the 16 MB bound yields, and whether it stopped at one that is too long.\<close>

definition max_line :: nat where "max_line = 16 * 1024 * 1024"

definition log_lines :: "string \<Rightarrow> string list" where
  "log_lines f = (let ls = split_on newline f in if last ls = [] then butlast ls else ls)"

definition scan_lines :: "string \<Rightarrow> string list \<times> bool" where
  "scan_lines f = (let ls = log_lines f
     in (takeWhile (\<lambda>l. length l < max_line) ls, list_ex (\<lambda>l. \<not> length l < max_line) ls))"

definition parse_line :: "(string \<Rightarrow> hist_event option) \<Rightarrow> string \<Rightarrow> hist_event option" where
  "parse_line unmarshal l = (let line = trim_space l in if line = [] then None else unmarshal line)"

definition read_history :: "(string \<Rightarrow> hist_event option) \<Rightarrow> string option \<Rightarrow> hist_event list \<times> bool" where
  "read_history unmarshal f = (case f of None \<Rightarrow> ([], False)
     | Some b \<Rightarrow> (case scan_lines b of (ls, bad) \<Rightarrow> (List.map_filter (parse_line unmarshal) ls, bad)))"

subsection \<open>The fold to a date\<close>

record fold_state =
  fs_folder :: string
  fs_present :: bool

definition apply_rename :: "string \<Rightarrow> string \<Rightarrow> fold_state \<Rightarrow> fold_state" where
  "apply_rename src dst s =
     (if fs_folder s = src then s\<lparr>fs_folder := dst\<rparr>
      else if has_prefix (fs_folder s) (src @ ''/'') then s\<lparr>fs_folder := dst @ drop (length src) (fs_folder s)\<rparr>
      else s)"

type_synonym fold_run = "(string, fold_state) gomap \<times> gotime option"

definition fold_event :: "gotime \<Rightarrow> hist_event \<Rightarrow> fold_run \<Rightarrow> fold_run" where
  "fold_event up_to ev = (\<lambda>(state, at).
     if he_barrier ev then (state, None)
     else if 0 < he_run ev \<and> he_at ev \<noteq> [] then (state, parse_rfc3339 (he_at ev))
     else if he_k ev \<noteq> [] then
       (case at of None \<Rightarrow> (state, at)
        | Some t \<Rightarrow>
            if up_to < t then (state, at)
            else if he_gone ev then
              let s = (case mget state (he_k ev) of None \<Rightarrow> \<lparr>fs_folder = [], fs_present = False\<rparr> | Some s \<Rightarrow> s)
              in (mput (he_k ev) (s\<lparr>fs_present := False\<rparr>) state, at)
            else (mput (he_k ev) \<lparr>fs_folder = he_folder ev, fs_present = True\<rparr> state, at))
     else if he_from ev \<noteq> [] \<and> he_to ev \<noteq> [] then
       (case at of None \<Rightarrow> (state, at)
        | Some t \<Rightarrow> if up_to < t then (state, at)
                    else (mmap (\<lambda>_. apply_rename (he_from ev) (he_to ev)) state, at))
     else (state, at))"

definition fold_events :: "hist_event list \<Rightarrow> gotime \<Rightarrow> (string, fold_state) gomap" where
  "fold_events events up_to = fst (fold (fold_event up_to) events ([], None))"

definition fold_history ::
  "(string \<Rightarrow> hist_event option) \<Rightarrow> string option \<Rightarrow> gotime \<Rightarrow> (string, fold_state) gomap option" where
  "fold_history unmarshal f up_to = (case read_history unmarshal f of (events, bad) \<Rightarrow>
     if bad then None else Some (fold_events events up_to))"

subsection \<open>Run dates, coverage and redaction\<close>

definition date_step :: "hist_event \<Rightarrow> string list \<Rightarrow> string list" where
  "date_step ev dates =
     (if 0 < he_run ev \<and> he_at ev \<noteq> []
      then case parse_rfc3339 (he_at ev) of None \<Rightarrow> dates
           | Some t \<Rightarrow> let d = format_date t in if d \<in> set dates then dates else dates @ [d]
      else dates)"

definition run_dates :: "hist_event list \<Rightarrow> string list" where
  "run_dates events = rev (sort (fold date_step events []))"

record history_stat =
  st_exists :: bool
  st_runs :: nat
  st_events :: nat
  st_bad_lines :: nat
  st_torn_tail :: bool

definition stat_clean :: "history_stat \<Rightarrow> bool" where
  "stat_clean s \<longleftrightarrow> st_exists s \<and> st_bad_lines s = 0 \<and> \<not> st_torn_tail s"

definition stat_line :: "(string \<Rightarrow> hist_event option) \<Rightarrow> string \<Rightarrow> history_stat \<Rightarrow> history_stat" where
  "stat_line unmarshal l st = (let line = trim_space l in if line = [] then st else case unmarshal line of
     None \<Rightarrow> st\<lparr>st_bad_lines := st_bad_lines st + 1\<rparr>
   | Some ev \<Rightarrow>
       if 0 < he_run ev \<and> he_at ev \<noteq> [] \<and> \<not> he_copy ev then st\<lparr>st_runs := st_runs st + 1\<rparr>
       else if 0 < he_run ev \<and> he_at ev \<noteq> [] then st
       else if 0 < he_run ev \<and> he_completed ev \<noteq> [] then st
       else if he_k ev \<noteq> [] \<or> he_from ev \<noteq> [] \<and> he_to ev \<noteq> [] then st\<lparr>st_events := st_events st + 1\<rparr>
       else st)"

definition history_status :: "(string \<Rightarrow> hist_event option) \<Rightarrow> string option \<Rightarrow> history_stat \<times> bool" where
  "history_status unmarshal f =
     (let st0 = \<lparr>st_exists = False, st_runs = 0, st_events = 0, st_bad_lines = 0, st_torn_tail = False\<rparr>
      in case f of None \<Rightarrow> (st0, False)
       | Some b \<Rightarrow> (case scan_lines b of (ls, bad) \<Rightarrow>
           (fold (stat_line unmarshal) ls
              (st0\<lparr>st_exists := True, st_torn_tail := b \<noteq> [] \<and> last b \<noteq> newline\<rparr>), bad)))"

definition write_history :: "(hist_event \<Rightarrow> string) \<Rightarrow> hist_event list \<Rightarrow> string" where
  "write_history marshal events = concat (map (\<lambda>ev. marshal ev @ [newline]) events)"

definition redact :: "(string \<Rightarrow> bool) \<Rightarrow> hist_event list \<Rightarrow> hist_event list" where
  "redact keep events = filter (\<lambda>ev. \<not> (he_k ev \<noteq> [] \<and> \<not> keep (he_k ev))) events"

text \<open>\<^verbatim>\<open>CompactHistory\<close>: the number of events dropped and the file it leaves; \<open>None\<close> is a read error.\<close>

definition compact_history ::
  "(hist_event \<Rightarrow> string) \<Rightarrow> (string \<Rightarrow> hist_event option) \<Rightarrow> (string \<Rightarrow> bool) \<Rightarrow> string option
     \<Rightarrow> (nat \<times> string option) option" where
  "compact_history marshal unmarshal keep f = (case read_history unmarshal f of (events, bad) \<Rightarrow>
     if bad then None
     else let kept = redact keep events; dropped = length events - length kept
     in if dropped = 0 then Some (0, f) else Some (dropped, Some (write_history marshal kept)))"

end
