(* ===== verification/HistoryProps.thy ===== *)
theory HistoryProps
  imports History
begin

text \<open>What the history log guarantees: a crash costs at most a torn line, the past does not change,
  and a redaction touches nothing else.\<close>

subsection \<open>The last newline\<close>

text \<open>The bytes up to and with the last newline: what the chunked scan must find.\<close>

definition whole_lines :: "string \<Rightarrow> string" where
  "whole_lines f = rev (dropWhile (\<lambda>c. c \<noteq> newline) (rev f))"

lemma find_last:
  "find P (rev [0..<n]) = Some i \<Longrightarrow> i < n \<and> P i \<and> (\<forall>j<n. i < j \<longrightarrow> \<not> P j)"
  "find P (rev [0..<n]) = None \<Longrightarrow> \<forall>j<n. \<not> P j"
proof (induction n)
  case (Suc n)
  { case 1 then show ?case using Suc.IH(1) by (auto simp: less_Suc_eq split: if_splits) }
  { case 2 then show ?case using Suc.IH(2) by (auto simp: less_Suc_eq split: if_splits) }
qed auto

lemma whole_lines_append: "newline \<notin> set b \<Longrightarrow> whole_lines (a @ b) = whole_lines a"
proof -
  assume n: "newline \<notin> set b"
  have "dropWhile (\<lambda>c. c \<noteq> newline) (rev b @ rev a) = dropWhile (\<lambda>c. c \<noteq> newline) (rev a)"
    by (rule dropWhile_append2) (use n in auto)
  then show ?thesis by (simp add: whole_lines_def)
qed

lemma whole_lines_end: "whole_lines (a @ [newline]) = a @ [newline]"
  by (simp add: whole_lines_def)

lemma no_newline_nth: "newline \<notin> set b \<longleftrightarrow> (\<forall>j<length b. b ! j \<noteq> newline)"
  by (auto simp: in_set_conv_nth)

lemma newline_scan_eq: "pos \<le> length f \<Longrightarrow> newline_scan f pos = length (whole_lines (take pos f))"
proof (induction f pos rule: newline_scan.induct)
  case (1 f pos)
  show ?case
  proof (cases "pos = 0")
    case True
    then show ?thesis by (subst newline_scan.simps) (simp add: whole_lines_def)
  next
    case False
    define n where "n = (if pos < 8192 then pos else 8192)"
    define start where "start = pos - n"
    define buf where "buf = take n (drop start f)"
    have n: "0 < n" "n \<le> pos" "start < pos" "start + n = pos" using False by (auto simp: n_def start_def)
    have lb: "length buf = n" using n 1(2) by (simp add: buf_def)
    have split: "take pos f = take start f @ buf" unfolding buf_def n(4) [symmetric] by (rule take_add)
    show ?thesis
    proof (cases "find (\<lambda>i. buf ! i = newline) (rev [0..<n])")
      case None
      have "newline \<notin> set buf" using find_last(2) [OF None] lb by (simp add: no_newline_nth)
      then have "whole_lines (take pos f) = whole_lines (take start f)" unfolding split by (rule whole_lines_append)
      moreover have "newline_scan f pos = newline_scan f start"
        using False None by (subst newline_scan.simps) (simp add: Let_def n_def start_def buf_def)
      moreover have "newline_scan f start = length (whole_lines (take start f))"
        using 1(1) [OF False n_def start_def buf_def None] n(3) 1(2) by simp
      ultimately show ?thesis by simp
    next
      case (Some i)
      note i = find_last(1) [OF Some]
      have d: "newline \<notin> set (drop (Suc i) buf)" using i lb by (auto simp: no_newline_nth)
      have b: "buf = take i buf @ [newline] @ drop (Suc i) buf" using i lb id_take_nth_drop [of i buf] by simp
      have "take pos f = ((take start f @ take i buf) @ [newline]) @ drop (Suc i) buf"
        unfolding split using b by simp
      then have "whole_lines (take pos f) = (take start f @ take i buf) @ [newline]"
        using whole_lines_append [OF d] whole_lines_end by metis
      moreover have "newline_scan f pos = start + i + 1"
        using False Some by (subst newline_scan.simps) (simp add: Let_def n_def start_def buf_def)
      ultimately show ?thesis using i lb n 1(2) by simp
    qed
  qed
qed

lemma whole_lines_prefix: "prefix (whole_lines f) f"
  unfolding whole_lines_def by (metis prefixI rev_append rev_rev_ident takeWhile_dropWhile_id)

lemma truncate_torn_tail_eq: "truncate_torn_tail f = whole_lines f"
proof -
  have p: "take (length (whole_lines f)) f = whole_lines f"
    using whole_lines_prefix [of f] by (metis append_eq_conv_conj prefix_def)
  have "whole_lines f = f" if "\<not> length (whole_lines f) < length f"
    using p that by simp
  then show ?thesis using p newline_scan_eq [of "length f" f]
    by (auto simp: truncate_torn_tail_def Let_def whole_lines_def)
qed

subsection \<open>Lines and events\<close>

lemma split_lines:
  "(\<And>e. e \<in> set es \<Longrightarrow> newline \<notin> set (marshal e)) \<Longrightarrow>
     split_on newline (write_history marshal es @ t) = map marshal es @ split_on newline t"
  by (induction es) (simp_all add: write_history_def)

text \<open>What is assumed of the JSON codec: one line per event, within the bound, read back as it was.\<close>

definition line_codec :: "(hist_event \<Rightarrow> string) \<Rightarrow> (string \<Rightarrow> hist_event option) \<Rightarrow> hist_event set \<Rightarrow> bool" where
  "line_codec marshal unmarshal E \<longleftrightarrow> (\<forall>e\<in>E. newline \<notin> set (marshal e) \<and> length (marshal e) < max_line
     \<and> trim_space (marshal e) \<noteq> [] \<and> unmarshal (trim_space (marshal e)) = Some e)"

lemma parse_marshal: "line_codec m u E \<Longrightarrow> e \<in> E \<Longrightarrow> parse_line u (m e) = Some e"
  by (simp add: line_codec_def parse_line_def Let_def)

lemma map_filter_all: "(\<And>e. e \<in> set es \<Longrightarrow> g (h e) = Some e) \<Longrightarrow> List.map_filter g (map h es) = es"
  by (induction es) (simp_all add: List.map_filter_simps)

lemma map_filter_append: "List.map_filter g (xs @ ys) = List.map_filter g xs @ List.map_filter g ys"
  by (simp add: List.map_filter_def)

lemma read_written:
  assumes c: "line_codec m u (set es)" and t: "newline \<notin> set t" "length t < max_line"
  shows "read_history u (Some (write_history m es @ t)) = (es @ List.map_filter (parse_line u) (if t = [] then [] else [t]), False)"
proof -
  have nl: "\<And>e. e \<in> set es \<Longrightarrow> newline \<notin> set (m e)" and short: "\<And>e. e \<in> set es \<Longrightarrow> length (m e) < max_line"
    using c by (simp_all add: line_codec_def)
  have s: "split_on newline (write_history m es @ t) = map m es @ [t]"
    using split_lines [of es m t, OF nl] t(1) by simp
  have l: "log_lines (write_history m es @ t) = map m es @ (if t = [] then [] else [t])"
    by (simp add: log_lines_def s Let_def butlast_append)
  have all: "list_all (\<lambda>l. length l < max_line) (map m es @ (if t = [] then [] else [t]))"
    using short t(2) by (auto simp: list_all_iff)
  then have tw: "takeWhile (\<lambda>l. length l < max_line) (map m es @ (if t = [] then [] else [t]))
      = map m es @ (if t = [] then [] else [t])"
    by (intro takeWhile_eq_all_conv [THEN iffD2]) (simp add: list_all_iff)
  have sc: "scan_lines (write_history m es @ t) = (map m es @ (if t = [] then [] else [t]), False)"
    unfolding scan_lines_def Let_def l tw using all by (auto simp: list_all_iff list_ex_iff)
  have "List.map_filter (parse_line u) (map m es) = es"
    by (rule map_filter_all) (rule parse_marshal [OF c])
  then show ?thesis by (simp add: read_history_def sc map_filter_append)
qed

text \<open>
  C32: a crash in the middle of a line costs that line and nothing else: the log with a torn tail still
  reads as every whole event before it, opening it for append cuts exactly the torn tail (the scan in
  chunks finds the last newline), and what is appended then reads back after the events that were there
  (GB-4).
\<close>

theorem a_torn_log_recovers:
  assumes "line_codec marshal unmarshal (set (es @ new))" and "newline \<notin> set torn" and "length torn < max_line"
    and "parse_line unmarshal torn = None"
  defines "f \<equiv> write_history marshal es @ torn"
  shows "read_history unmarshal (Some f) = (es, False)
     \<and> open_history (Some f) = Some (write_history marshal es)
     \<and> newline_scan f (length f) = length (write_history marshal es)
     \<and> fold (\<lambda>e w. Option.bind w (history_append marshal e)) new (Some (open_history (Some f)))
         = Some (Some (write_history marshal (es @ new)))
     \<and> read_history unmarshal (Some (write_history marshal (es @ new))) = (es @ new, False)"
proof -
  have c: "line_codec marshal unmarshal (set es)" using assms(1) by (simp add: line_codec_def)
  have w: "whole_lines (write_history marshal es) = write_history marshal es"
  proof (cases es rule: rev_cases)
    case (snoc es' e)
    then have "write_history marshal es = (write_history marshal es' @ marshal e) @ [newline]"
      by (simp add: write_history_def)
    then show ?thesis using whole_lines_end by metis
  qed (simp add: write_history_def whole_lines_def)
  have f: "whole_lines f = write_history marshal es"
    unfolding f_def using whole_lines_append [OF assms(2)] w by simp
  have o: "open_history (Some f) = Some (write_history marshal es)"
    by (simp add: open_history_def truncate_torn_tail_eq f)
  have app: "fold (\<lambda>e w. Option.bind w (history_append marshal e)) xs (Some (Some b))
      = Some (Some (b @ write_history marshal xs))" for xs b
    by (induction xs arbitrary: b) (simp_all add: history_append_def write_history_def)
  have "read_history unmarshal (Some f) = (es, False)"
    unfolding f_def read_written [OF c assms(2,3)] using assms(4) by (simp add: List.map_filter_simps)
  moreover have "read_history unmarshal (Some (write_history marshal (es @ new))) = (es @ new, False)"
    using read_written [OF assms(1), of "[]"] by (simp add: max_line_def List.map_filter_simps)
  moreover have "newline_scan f (length f) = length (write_history marshal es)"
    using newline_scan_eq [of "length f" f] f by simp
  ultimately show ?thesis using o by (simp add: app) (simp add: write_history_def)
qed

subsection \<open>The past does not change\<close>

definition is_header :: "hist_event \<Rightarrow> bool" where
  "is_header ev \<longleftrightarrow> \<not> he_barrier ev \<and> 0 < he_run ev \<and> he_at ev \<noteq> []"

text \<open>Events of later runs: they begin with a header or a barrier, and every readable header is later.\<close>

definition later_runs :: "gotime \<Rightarrow> hist_event list \<Rightarrow> bool" where
  "later_runs up_to new \<longleftrightarrow> (case new of [] \<Rightarrow> True | ev # _ \<Rightarrow> is_header ev \<or> he_barrier ev)
     \<and> list_all (\<lambda>ev. is_header ev \<longrightarrow> (case parse_rfc3339 (he_at ev) of None \<Rightarrow> True | Some t \<Rightarrow> up_to < t)) new"

definition not_yet :: "gotime \<Rightarrow> gotime option \<Rightarrow> bool" where
  "not_yet up_to at \<longleftrightarrow> (case at of None \<Rightarrow> True | Some t \<Rightarrow> up_to < t)"

lemma fold_event_later:
  assumes "is_header ev \<longrightarrow> not_yet up_to (parse_rfc3339 (he_at ev))"
    and "not_yet up_to at \<or> is_header ev \<or> he_barrier ev"
  shows "fst (fold_event up_to ev (S, at)) = S \<and> not_yet up_to (snd (fold_event up_to ev (S, at)))"
  using assms by (auto simp: fold_event_def is_header_def not_yet_def split: option.splits)

lemma fold_later:
  "list_all (\<lambda>ev. is_header ev \<longrightarrow> not_yet up_to (parse_rfc3339 (he_at ev))) new \<Longrightarrow> not_yet up_to (snd a) \<Longrightarrow>
     fst (fold (fold_event up_to) new a) = fst a"
proof (induction new arbitrary: a)
  case (Cons ev new)
  obtain S at where a: "a = (S, at)" by fastforce
  have "fst (fold_event up_to ev (S, at)) = S \<and> not_yet up_to (snd (fold_event up_to ev (S, at)))"
    by (rule fold_event_later) (use Cons.prems a in simp_all)
  then show ?case using Cons.IH [of "fold_event up_to ev a"] Cons.prems(1) by (simp add: a)
qed simp

lemma fold_event_twice:
  "\<not> (he_from ev \<noteq> [] \<and> he_to ev \<noteq> []) \<Longrightarrow> fold_event up_to ev (fold_event up_to ev a) = fold_event up_to ev a"
  by (cases a) (auto simp: fold_event_def Let_def mput_mput split: option.splits)

text \<open>
  C33: a view of a past date is settled: whatever later runs append to the log, readable or not, the
  state the log folds to at an earlier date stays what it was, record by record; and an event written
  twice, the most a crash costs, folds as if written once (a folder rename apart) (T2, T4, design 3.5).
\<close>

theorem go_back_views_are_stable:
  assumes "later_runs up_to new" and "he_from ev = []"
  shows "fold_events (old @ new) up_to = fold_events old up_to
     \<and> fold_events (old @ [ev, ev] @ rest) up_to' = fold_events (old @ [ev] @ rest) up_to'"
proof -
  obtain S at where a: "fold (fold_event up_to) old ([], None) = (S, at)" by fastforce
  have all: "list_all (\<lambda>ev. is_header ev \<longrightarrow> not_yet up_to (parse_rfc3339 (he_at ev))) new"
    using assms(1) by (simp add: later_runs_def not_yet_def)
  have "fst (fold (fold_event up_to) new (S, at)) = S"
  proof (cases new)
    case (Cons e es)
    then have "is_header e \<or> he_barrier e" using assms(1) by (simp add: later_runs_def)
    then have "fst (fold_event up_to e (S, at)) = S \<and> not_yet up_to (snd (fold_event up_to e (S, at)))"
      by (intro fold_event_later) (use all Cons in simp_all)
    then show ?thesis using fold_later [of up_to es "fold_event up_to e (S, at)"] all by (simp add: Cons)
  qed simp
  then show ?thesis using assms(2) by (simp add: fold_events_def a fold_event_twice)
qed

subsection \<open>Redaction\<close>

text \<open>A line the log's writers make: an event of a message is nothing else.\<close>

definition one_kind :: "hist_event \<Rightarrow> bool" where
  "one_kind ev \<longleftrightarrow> he_k ev = [] \<or> \<not> he_barrier ev \<and> \<not> is_header ev"

lemma fold_event_other:
  assumes "he_k ev \<noteq> []" and "one_kind ev" and "k \<noteq> he_k ev"
  shows "mget (fst (fold_event d ev (S, at))) k = mget S k \<and> snd (fold_event d ev (S, at)) = at"
  using assms by (auto simp: fold_event_def one_kind_def is_header_def Let_def split: option.splits)

lemma fold_event_agree:
  "mget S k = mget S' k \<Longrightarrow> mget (fst (fold_event d ev (S, at))) k = mget (fst (fold_event d ev (S', at))) k
     \<and> snd (fold_event d ev (S, at)) = snd (fold_event d ev (S', at))"
  by (auto simp: fold_event_def Let_def split: option.splits)

lemma fold_event_none:
  "mget S k = None \<Longrightarrow> he_k ev \<noteq> k \<Longrightarrow> mget (fst (fold_event d ev (S, at))) k = None"
  by (auto simp: fold_event_def Let_def split: option.splits)

lemma redact_fold:
  assumes "list_all one_kind es" and "keep k" and "mget S k = mget S' k"
  shows "mget (fst (fold (fold_event d) (redact keep es) (S', at))) k = mget (fst (fold (fold_event d) es (S, at))) k"
  using assms(1,3)
proof (induction es arbitrary: S S' at)
  case (Cons ev es)
  obtain T t where n: "fold_event d ev (S, at) = (T, t)" by fastforce
  show ?case
  proof (cases "he_k ev \<noteq> [] \<and> \<not> keep (he_k ev)")
    case True
    then have "k \<noteq> he_k ev" using assms(2) by auto
    with fold_event_other [of ev k d S at] True Cons.prems n have "mget T k = mget S' k" "t = at" by auto
    then show ?thesis using Cons.IH [of T S' at] Cons.prems(1) True by (simp add: redact_def n)
  next
    case False
    obtain T' t' where n': "fold_event d ev (S', at) = (T', t')" by fastforce
    have "mget T k = mget T' k" "t = t'" using fold_event_agree [OF Cons.prems(2), of d ev at] n n' by auto
    then show ?thesis using Cons.IH [of T T' t] Cons.prems(1) False by (simp add: redact_def n n')
  qed
qed (simp add: redact_def)

lemma redact_gone:
  assumes "\<not> keep k" and "k \<noteq> []" and "mget S k = None"
  shows "mget (fst (fold (fold_event d) (redact keep es) (S, at))) k = None"
  using assms(3)
proof (induction es arbitrary: S at)
  case (Cons ev es)
  show ?case
  proof (cases "he_k ev \<noteq> [] \<and> \<not> keep (he_k ev)")
    case True
    then show ?thesis using Cons by (simp add: redact_def)
  next
    case False
    then have ne: "he_k ev \<noteq> k" using assms(1,2) by auto
    obtain T t where n: "fold_event d ev (S, at) = (T, t)" by fastforce
    have "mget T k = None" using fold_event_none [OF Cons.prems ne, of d at] n by simp
    then show ?thesis using Cons.IH [of T t] False by (auto simp: redact_def n)
  qed
qed (simp add: redact_def)

text \<open>
  C34: a redaction leaves no trace of a message and touches nothing else: after a compaction no line of
  the log names a message that was not kept, it is in the view of no date, every kept message stands at
  every date where it stood, every run header and rename is still there in order, and when nothing is
  dropped the file is left as it is (T5, R21).
\<close>

theorem a_redaction_touches_nothing_else:
  assumes "line_codec marshal unmarshal (set es)" and "list_all one_kind es" and "k \<noteq> []"
  defines "f \<equiv> Some (write_history marshal es)"
  shows "\<exists>n f'. compact_history marshal unmarshal keep f = Some (n, f')
     \<and> read_history unmarshal f' = (redact keep es, False)
     \<and> (if n = 0 then f' = f else n = length (filter (\<lambda>e. he_k e \<noteq> [] \<and> \<not> keep (he_k e)) es))
     \<and> filter (\<lambda>e. he_k e = []) (redact keep es) = filter (\<lambda>e. he_k e = []) es
     \<and> list_all (\<lambda>e. he_k e = [] \<or> keep (he_k e)) (redact keep es)
     \<and> mget (fold_events (redact keep es) d) k = (if keep k then mget (fold_events es d) k else None)"
proof -
  let ?r = "redact keep es"
  let ?drop = "\<lambda>e. he_k e \<noteq> [] \<and> \<not> keep (he_k e)"
  have rd: "read_history unmarshal f = (es, False)"
    using read_written [OF assms(1), of "[]"] by (simp add: f_def max_line_def List.map_filter_simps)
  have c: "line_codec marshal unmarshal (set ?r)"
    using assms(1) by (auto simp: line_codec_def redact_def)
  have rr: "read_history unmarshal (Some (write_history marshal ?r)) = (?r, False)"
    using read_written [OF c, of "[]"] by (simp add: max_line_def List.map_filter_simps)
  have len: "length es - length ?r = length (filter ?drop es)"
    using sum_length_filter_compl [of ?drop es] by (simp add: redact_def)
  have same: "?r = es" if "length (filter ?drop es) = 0"
    using that unfolding redact_def by (intro filter_True) (auto simp: filter_empty_conv)
  have comp: "compact_history marshal unmarshal keep f = (if length (filter ?drop es) = 0 then Some (0, f)
      else Some (length (filter ?drop es), Some (write_history marshal ?r)))"
    unfolding compact_history_def rd prod.case Let_def len by (simp only: if_False)
  have ends: "filter (\<lambda>e. he_k e = []) ?r = filter (\<lambda>e. he_k e = []) es"
    "list_all (\<lambda>e. he_k e = [] \<or> keep (he_k e)) ?r"
    by (auto simp: redact_def list_all_iff intro: filter_cong)
  have view: "mget (fold_events ?r d) k = (if keep k then mget (fold_events es d) k else None)"
    using redact_fold [OF assms(2), of keep k "[]" "[]" d None] redact_gone [OF _ assms(3), of keep "[]" d es None]
    by (simp add: fold_events_def)
  show ?thesis
  proof (cases "length (filter ?drop es) = 0")
    case True
    with comp have "compact_history marshal unmarshal keep f = Some (0, f)" by simp
    moreover have "read_history unmarshal f = (?r, False)" using rd same [OF True] by simp
    ultimately show ?thesis using ends view by auto
  next
    case False
    with comp have "compact_history marshal unmarshal keep f
        = Some (length (filter ?drop es), Some (write_history marshal ?r))" by simp
    with rr ends view False show ?thesis by auto
  qed
qed

subsection \<open>On a small log\<close>

definition day_one :: hist_event where "day_one = zero_event\<lparr>he_run := 1, he_at := ''2024-01-02T03:04:05Z''\<rparr>"
definition seen_a :: hist_event where "seen_a = folder_event ''a'' ''Inbox''"

definition tiny_marshal :: "hist_event \<Rightarrow> string" where
  "tiny_marshal e = (if he_k e = [] then ''r'' else ''f'')"

definition tiny_unmarshal :: "string \<Rightarrow> hist_event option" where
  "tiny_unmarshal l = (if l = ''r'' then Some day_one else if l = ''f'' then Some seen_a else None)"

lemma trim_letters: "trim_space ''r'' = ''r''" "trim_space ''f'' = ''f''" "trim_space ''x'' = ''x''"
  by (simp_all add: trim_space_def trim_space_left.simps trim_space_right.simps decode_last_rune_def
      space_rune_def in_range_def byte_def decode_rune_def)

lemma tiny_codec: "line_codec tiny_marshal tiny_unmarshal {day_one, seen_a}"
  by (simp add: line_codec_def tiny_marshal_def tiny_unmarshal_def day_one_def seen_a_def folder_event_def
      zero_event_def trim_letters max_line_def)

theorem a_torn_log_recovers_witness:
  "read_history tiny_unmarshal (Some (write_history tiny_marshal [day_one] @ ''x'')) = ([day_one], False)"
proof -
  have c: "line_codec tiny_marshal tiny_unmarshal (set ([day_one] @ [seen_a]))"
    using tiny_codec by (simp add: insert_commute)
  have t: "parse_line tiny_unmarshal ''x'' = None" by (simp add: parse_line_def trim_letters tiny_unmarshal_def)
  show ?thesis using a_torn_log_recovers [OF c _ _ t] by (simp add: max_line_def)
qed

theorem go_back_views_are_stable_witness:
  "fold_events ([day_one, seen_a] @ [day_one\<lparr>he_run := 2\<rparr>, gone_event ''a'']) 0 = fold_events [day_one, seen_a] 0"
proof -
  have "parse_rfc3339 ''2024-01-02T03:04:05Z'' = Some (civil_ns 2024 1 2 3 4 5 0)"
    by (simp add: parse_rfc3339_def GoTime.slice_def uint_in_def digit_of_def byte_def in_range_def days_in_def numeral_2_eq_2
        parse_fraction_def parse_zone_def leap_def Let_def)
  then have "case parse_rfc3339 ''2024-01-02T03:04:05Z'' of None \<Rightarrow> True | Some t \<Rightarrow> 0 < t"
    by (simp add: civil_ns_def days_before_year_def days_before_month_def time_units)
  then have "later_runs 0 [day_one\<lparr>he_run := 2\<rparr>, gone_event ''a'']"
    by (simp add: later_runs_def is_header_def day_one_def gone_event_def zero_event_def)
  from go_back_views_are_stable [OF this, of zero_event "[day_one, seen_a]"]
  show ?thesis by (simp add: zero_event_def)
qed

theorem a_redaction_touches_nothing_else_witness:
  "mget (fold_events (redact (\<lambda>_. False) [day_one, seen_a]) (civil_ns 2025 1 1 0 0 0 0)) ''a'' = None"
proof -
  have c: "line_codec tiny_marshal tiny_unmarshal (set [day_one, seen_a])" using tiny_codec by simp
  have "list_all one_kind [day_one, seen_a]"
    by (simp add: one_kind_def is_header_def day_one_def seen_a_def folder_event_def zero_event_def)
  from a_redaction_touches_nothing_else [OF c this, of "''a''" "\<lambda>_. False" "civil_ns 2025 1 1 0 0 0 0"] show ?thesis by auto
qed

end
