(* ===== verification/Streaks.thy ===== *)
theory Streaks
  imports GoText GoTime Interfaces
begin

text \<open>
  The cross-run streak records: how long an archive's source has been unreachable
  (\<^verbatim>\<open>internal/state/sourceloss.go\<close>) and how long its scheduled runs have gone without a
  Thunderbird sync (\<^verbatim>\<open>syncstreak.go\<close>).  Both measure a span between counted runs and never
  read the clock for it.
\<close>

definition min_plausible_time :: gotime where
  "min_plausible_time = civil_ns 2024 1 1 0 0 0 0"

subsection \<open>The source streak\<close>

record source_streak =
  so_version :: int
  so_fails :: int
  so_first :: gotime
  so_last :: gotime
  so_success :: gotime
  so_kind :: string

definition zero_source_streak :: source_streak where
  "zero_source_streak = \<lparr>so_version = 0, so_fails = 0, so_first = zero_time, so_last = zero_time,
     so_success = zero_time, so_kind = []\<rparr>"

definition source_streak_version :: int where "source_streak_version = 1"
definition surface_after :: duration where "surface_after = 3 * 24 * hour_ns"
definition auto_pause_after :: duration where "auto_pause_after = 30 * 24 * hour_ns"
definition min_failed_runs :: int where "min_failed_runs = 2"

definition observe :: "source_streak \<Rightarrow> bool \<Rightarrow> string \<Rightarrow> gotime \<Rightarrow> source_streak" where
  "observe s reachable kind now =
     (let s = s\<lparr>so_version := source_streak_version\<rparr>
      in if reachable
         then s\<lparr>so_fails := 0, so_first := zero_time, so_last := zero_time, so_kind := [], so_success := now\<rparr>
         else let s = s\<lparr>so_fails := so_fails s + 1, so_kind := strip_control kind\<rparr>
         in if now < min_plausible_time then s
            else let s = (if so_first s = zero_time \<or> so_first s < min_plausible_time \<or> now < so_first s
                            \<or> so_last s \<noteq> zero_time \<and> now < so_last s
                          then s\<lparr>so_first := now\<rparr> else s)
            in s\<lparr>so_last := now\<rparr>)"

definition unreachable :: "source_streak \<Rightarrow> bool" where
  "unreachable s \<longleftrightarrow> 0 < so_fails s"

definition unreachable_for :: "source_streak \<Rightarrow> duration" where
  "unreachable_for s =
     (if so_fails s < min_failed_runs \<or> so_first s = zero_time \<or> so_last s = zero_time then 0
      else if so_first s < min_plausible_time \<or> so_last s < min_plausible_time then 0
      else let d = time_sub (so_last s) (so_first s) in if 0 < d then d else 0)"

definition surface_loudly :: "source_streak \<Rightarrow> bool" where
  "surface_loudly s \<longleftrightarrow> surface_after \<le> unreachable_for s"

definition auto_pause_due :: "source_streak \<Rightarrow> bool" where
  "auto_pause_due s \<longleftrightarrow> auto_pause_after \<le> unreachable_for s"

text \<open>Reading: an absent or malformed record is the zero streak, any other failed read is reported.\<close>

datatype 'a file_read = File_absent | File_refused | File_bytes 'a

definition read_source_streak :: "('a \<Rightarrow> source_streak option) \<Rightarrow> 'a file_read \<Rightarrow> source_streak option" where
  "read_source_streak unmarshal f = (case f of
     File_absent \<Rightarrow> Some zero_source_streak
   | File_refused \<Rightarrow> None
   | File_bytes b \<Rightarrow> (case unmarshal b of None \<Rightarrow> Some zero_source_streak | Some s \<Rightarrow> Some s))"

subsection \<open>The sync streak\<close>

record sync_streak =
  sy_version :: int
  sy_serial :: int
  sy_missed :: int
  sy_busy :: int
  sy_no_change :: int
  sy_first_no_change :: gotime
  sy_last_no_change :: gotime
  sy_first_missed :: gotime
  sy_last_missed :: gotime
  sy_last_synced :: gotime
  sy_last_name :: string
  sy_record_id :: string

definition zero_sync_streak :: sync_streak where
  "zero_sync_streak = \<lparr>sy_version = 0, sy_serial = 0, sy_missed = 0, sy_busy = 0, sy_no_change = 0,
     sy_first_no_change = zero_time, sy_last_no_change = zero_time, sy_first_missed = zero_time,
     sy_last_missed = zero_time, sy_last_synced = zero_time, sy_last_name = [], sy_record_id = []\<rparr>"

definition sync_streak_version :: int where "sync_streak_version = 1"
definition sync_stale_after :: duration where "sync_stale_after = 3 * 24 * hour_ns"
definition sync_min_runs :: int where "sync_min_runs = 2"
definition sync_busy_runs :: int where "sync_busy_runs = 3"
definition max_record_id_len :: nat where "max_record_id_len = 64"

definition named :: "string \<Rightarrow> sync_streak \<Rightarrow> sync_streak" where
  "named random_text s = (if sy_record_id s = [] then s\<lparr>sy_record_id := random_text\<rparr> else s)"

definition plausible_record_id :: "string \<Rightarrow> bool" where
  "plausible_record_id i \<longleftrightarrow> \<not> max_record_id_len < length i
     \<and> list_all (\<lambda>r. in_range 65 90 r \<or> in_range 97 122 r \<or> in_range 48 57 r) (runes i)"

definition synced :: "gotime \<Rightarrow> sync_streak \<Rightarrow> sync_streak" where
  "synced now s =
     (let s = s\<lparr>sy_version := sync_streak_version, sy_missed := 0, sy_busy := 0,
                sy_first_missed := zero_time, sy_last_missed := zero_time\<rparr>
      in if \<not> now < min_plausible_time then s\<lparr>sy_last_synced := now\<rparr> else s)"

definition span_at :: "gotime \<Rightarrow> gotime \<Rightarrow> gotime \<Rightarrow> gotime \<times> gotime" where
  "span_at fst_t lst now =
     (if now < min_plausible_time then (fst_t, lst)
      else (if fst_t = zero_time \<or> fst_t < min_plausible_time \<or> now < fst_t \<or> lst \<noteq> zero_time \<and> now < lst
            then now else fst_t, now))"

definition span_of :: "int \<Rightarrow> gotime \<Rightarrow> gotime \<Rightarrow> duration" where
  "span_of n fst_t lst =
     (if n < sync_min_runs \<or> fst_t = zero_time \<or> lst = zero_time \<or> fst_t < min_plausible_time
         \<or> lst < min_plausible_time then 0
      else let d = time_sub lst fst_t in if 0 < d then d else 0)"

definition miss :: "string \<Rightarrow> gotime \<Rightarrow> sync_streak \<Rightarrow> sync_streak" where
  "miss name now s =
     (let s = s\<lparr>sy_version := sync_streak_version\<rparr>;
          s = (if sy_missed s = 0 then s\<lparr>sy_serial := sy_serial s + 1\<rparr> else s);
          s = s\<lparr>sy_missed := sy_missed s + 1, sy_busy := 0, sy_last_name := strip_control name\<rparr>;
          (f, l) = span_at (sy_first_missed s) (sy_last_missed s) now
      in s\<lparr>sy_first_missed := f, sy_last_missed := l\<rparr>)"

definition profile_busy :: "string \<Rightarrow> gotime \<Rightarrow> sync_streak \<Rightarrow> sync_streak" where
  "profile_busy name now s =
     (let s = s\<lparr>sy_version := sync_streak_version, sy_busy := sy_busy s + 1\<rparr>
      in if sync_busy_runs \<le> sy_busy s then miss name now s else s)"

definition no_change_seen :: "gotime \<Rightarrow> sync_streak \<Rightarrow> sync_streak" where
  "no_change_seen now s =
     (let s = s\<lparr>sy_version := sync_streak_version, sy_no_change := sy_no_change s + 1\<rparr>;
          (f, l) = span_at (sy_first_no_change s) (sy_last_no_change s) now
      in s\<lparr>sy_first_no_change := f, sy_last_no_change := l\<rparr>)"

definition mail_arrived :: "sync_streak \<Rightarrow> sync_streak" where
  "mail_arrived s = s\<lparr>sy_version := sync_streak_version, sy_no_change := 0,
     sy_first_no_change := zero_time, sy_last_no_change := zero_time\<rparr>"

definition stale :: "sync_streak \<Rightarrow> bool" where
  "stale s \<longleftrightarrow> sync_stale_after \<le> span_of (sy_missed s) (sy_first_missed s) (sy_last_missed s)"

definition nothing_arrived :: "sync_streak \<Rightarrow> bool" where
  "nothing_arrived s \<longleftrightarrow> sync_stale_after \<le> span_of (sy_no_change s) (sy_first_no_change s) (sy_last_no_change s)"

definition read_sync_streak :: "('a \<Rightarrow> sync_streak option) \<Rightarrow> 'a file_read \<Rightarrow> sync_streak option" where
  "read_sync_streak unmarshal f = (case f of
     File_absent \<Rightarrow> Some zero_sync_streak
   | File_refused \<Rightarrow> None
   | File_bytes b \<Rightarrow> (case unmarshal b of None \<Rightarrow> Some zero_sync_streak
       | Some s \<Rightarrow>
           let s = s\<lparr>sy_last_name := strip_control (sy_last_name s)\<rparr>
           in Some (if \<not> plausible_record_id (sy_record_id s) then s\<lparr>sy_record_id := []\<rparr> else s)))"

subsection \<open>One span rule\<close>

text \<open>
  The span of a list of counted run times, latest last: what the stored pair of times must stand for.
\<close>

definition spans :: "gotime list \<Rightarrow> gotime \<Rightarrow> gotime \<Rightarrow> bool" where
  "spans ts f l \<longleftrightarrow> (if list_all (\<lambda>t. t < min_plausible_time) ts then f = zero_time \<and> l = zero_time
     else f \<in> set ts \<and> l \<in> set ts \<and> min_plausible_time \<le> f \<and> f \<le> l)"

lemma min_plausible_pos: "0 < min_plausible_time"
  by (simp add: min_plausible_time_def civil_ns_def days_before_year_def days_before_month_def time_units)

lemma spans_Nil [simp]: "spans [] f l \<longleftrightarrow> f = zero_time \<and> l = zero_time"
  by (simp add: spans_def)

lemma spans_snoc: "spans ts f l \<Longrightarrow> span_at f l now = (f', l') \<Longrightarrow> spans (ts @ [now]) f' l'"
  using min_plausible_pos by (auto simp: spans_def span_at_def split: if_splits)

lemma span_sound:
  assumes "spans ts f l" and "0 < d" and "d \<le> span_of n f l"
  shows "sync_min_runs \<le> n \<and> (\<exists>t1\<in>set ts. \<exists>t2\<in>set ts. min_plausible_time \<le> t1 \<and> t1 + d \<le> t2)"
proof -
  have n: "\<not> n < sync_min_runs" "f \<noteq> zero_time" and s: "d \<le> time_sub l f"
    using assms(2,3) by (auto simp: span_of_def Let_def split: if_splits)
  then have "f \<in> set ts" "l \<in> set ts" "min_plausible_time \<le> f"
    using assms(1) by (auto simp: spans_def split: if_splits)
  moreover have "f + d \<le> l" using s assms(2) by (simp add: time_sub_def min_def max_def min_duration_def split: if_splits)
  ultimately show ?thesis using n(1) by auto
qed

lemma source_span:
  "(so_first (observe s False kind now), so_last (observe s False kind now)) = span_at (so_first s) (so_last s) now"
  "so_fails (observe s False kind now) = so_fails s + 1"
  by (simp_all add: observe_def span_at_def Let_def)

lemma source_spanned: "unreachable_for s = span_of (so_fails s) (so_first s) (so_last s)"
  by (simp add: unreachable_for_def span_of_def min_failed_runs_def sync_min_runs_def)

lemma miss_span:
  "(sy_first_missed (miss name now y), sy_last_missed (miss name now y))
     = span_at (sy_first_missed y) (sy_last_missed y) now"
  "sy_missed (miss name now y) = sy_missed y + 1" "sy_busy (miss name now y) = 0"
  "sy_no_change (miss name now y) = sy_no_change y" "sy_first_no_change (miss name now y) = sy_first_no_change y"
  "sy_last_no_change (miss name now y) = sy_last_no_change y"
  "sy_serial (miss name now y) = sy_serial y + (if sy_missed y = 0 then 1 else 0)"
  by (simp_all add: miss_def Let_def split: prod.split)

text \<open>
  C36: the source-loss record and the sync record follow one rule: an unreachable run moves the source
  streak's two times exactly as a miss moves the sync streak's, and their spans are measured the same
  way (MA-891, R3C-11).
\<close>

theorem both_streaks_use_one_span_rule:
  "(so_first (observe s False kind now), so_last (observe s False kind now)) = span_at (so_first s) (so_last s) now
   \<and> unreachable_for s = span_of (so_fails s) (so_first s) (so_last s)
   \<and> (sy_first_missed (miss kind now y), sy_last_missed (miss kind now y))
       = span_at (sy_first_missed y) (sy_last_missed y) now
   \<and> so_fails (observe s False kind now) = so_fails s + 1 \<and> sy_missed (miss kind now y) = sy_missed y + 1"
  by (intro conjI) (simp_all only: source_span miss_span source_spanned)

subsection \<open>The source streak over many runs\<close>

datatype seen_run = Reached gotime | Lost string gotime

fun run_seen :: "seen_run \<Rightarrow> source_streak \<Rightarrow> source_streak" where
  "run_seen (Reached now) s = observe s True [] now"
| "run_seen (Lost kind now) s = observe s False kind now"

text \<open>The times of the runs since the last one that reached the source.\<close>

fun lost_times :: "seen_run list \<Rightarrow> gotime list \<Rightarrow> gotime list" where
  "lost_times [] ts = ts"
| "lost_times (Reached _ # rs) ts = lost_times rs []"
| "lost_times (Lost _ now # rs) ts = lost_times rs (ts @ [now])"

definition streak_of :: "gotime list \<Rightarrow> source_streak \<Rightarrow> bool" where
  "streak_of ts s \<longleftrightarrow> so_fails s = int (length ts) \<and> spans ts (so_first s) (so_last s)"

lemma run_source_streak:
  "streak_of ts s \<Longrightarrow> streak_of (lost_times [r] ts) (run_seen r s)"
proof (cases r)
  case (Lost kind now)
  assume s: "streak_of ts s"
  let ?s = "observe s False kind now"
  from spans_snoc [OF _ source_span(1) [of s kind now, symmetric]] s show ?thesis
    by (simp add: Lost streak_of_def source_span(2))
qed (simp add: streak_of_def observe_def Let_def)

lemma runs_source_streak: "streak_of ts s \<Longrightarrow> streak_of (lost_times rs ts) (fold run_seen rs s)"
proof (induction rs arbitrary: ts s)
  case (Cons r rs)
  then show ?case using run_source_streak [OF Cons.prems, of r] by (cases r) auto
qed simp

text \<open>
  C35: the source-loss warnings tell the truth about runs: over any sequence of scheduled runs on any
  clock, an archive warns only after at least two runs since the last reachable one found its source
  lost at trustworthy times three days apart, and pauses only after thirty; an archive that pauses
  warns, and one reachable run, or a machine that was off, never does either (R3C-11, MA-891).
\<close>

theorem source_loss_warnings_are_earned:
  fixes rs :: "seen_run list"
  defines "s \<equiv> fold run_seen rs zero_source_streak" and "lost \<equiv> lost_times rs []"
  shows "so_fails s = int (length lost)
     \<and> (surface_loudly s \<longrightarrow> 2 \<le> length lost
          \<and> (\<exists>t1\<in>set lost. \<exists>t2\<in>set lost. min_plausible_time \<le> t1 \<and> t1 + surface_after \<le> t2))
     \<and> (auto_pause_due s \<longrightarrow> surface_loudly s
          \<and> (\<exists>t1\<in>set lost. \<exists>t2\<in>set lost. min_plausible_time \<le> t1 \<and> t1 + auto_pause_after \<le> t2))
     \<and> \<not> surface_loudly (run_seen (Reached now) s)"
proof -
  have "streak_of [] zero_source_streak" by (simp add: streak_of_def zero_source_streak_def)
  then have st: "streak_of lost s" unfolding s_def lost_def by (rule runs_source_streak)
  note u = source_spanned [of s]
  have d: "0 < surface_after" "0 < auto_pause_after" "surface_after \<le> auto_pause_after"
    by (simp_all add: surface_after_def auto_pause_after_def time_units)
  have sp: "spans lost (so_first s) (so_last s)" and n: "so_fails s = int (length lost)"
    using st by (simp_all add: streak_of_def)
  have loud: "2 \<le> length lost \<and> (\<exists>t1\<in>set lost. \<exists>t2\<in>set lost. min_plausible_time \<le> t1 \<and> t1 + surface_after \<le> t2)"
    if "surface_loudly s"
    using span_sound [OF sp d(1), of "so_fails s"] that n by (simp add: surface_loudly_def u sync_min_runs_def)
  have pause: "\<exists>t1\<in>set lost. \<exists>t2\<in>set lost. min_plausible_time \<le> t1 \<and> t1 + auto_pause_after \<le> t2"
    if "auto_pause_due s"
    using span_sound [OF sp d(2), of "so_fails s"] that by (simp add: auto_pause_due_def u)
  have "surface_loudly s" if "auto_pause_due s" using that d(3) by (simp add: surface_loudly_def auto_pause_due_def)
  moreover have "\<not> surface_loudly (run_seen (Reached now) s)"
    using d(1) by (simp add: surface_loudly_def unreachable_for_def observe_def min_failed_runs_def Let_def)
  ultimately show ?thesis using n loud pause by blast
qed

theorem source_loss_warnings_are_earned_witness:
  "surface_loudly (fold run_seen [Lost [] (800000 * day_ns), Lost [] (800004 * day_ns)] zero_source_streak)
   \<and> (\<exists>t1\<in>{800000 * day_ns, 800004 * day_ns}. \<exists>t2\<in>{800000 * day_ns, 800004 * day_ns}. t1 + surface_after \<le> t2)"
proof -
  let ?rs = "[Lost [] (800000 * day_ns), Lost [] (800004 * day_ns)]"
  have m: "min_plausible_time \<le> 800000 * day_ns"
    by (simp add: min_plausible_time_def civil_ns_def days_before_year_def days_before_month_def time_units)
  have l: "surface_loudly (fold run_seen ?rs zero_source_streak)"
    using m by (simp add: surface_loudly_def unreachable_for_def observe_def zero_source_streak_def Let_def
        min_failed_runs_def surface_after_def time_sub_def time_units min_duration_def max_duration_def)
  with source_loss_warnings_are_earned [of ?rs 0] show ?thesis by auto
qed

subsection \<open>The sync streak over many sessions\<close>

datatype sync_op = Did_sync gotime | Missed string gotime | Was_busy string gotime | Saw_no_change gotime | Mail_came

fun run_sync :: "sync_op \<Rightarrow> sync_streak \<Rightarrow> sync_streak" where
  "run_sync (Did_sync now) s = synced now s"
| "run_sync (Missed name now) s = miss name now s"
| "run_sync (Was_busy name now) s = profile_busy name now s"
| "run_sync (Saw_no_change now) s = no_change_seen now s"
| "run_sync Mail_came s = mail_arrived s"

text \<open>
  What the record must say: the misses counted since the last sync, with a third busy session in a row
  as one, the busy sessions in a row, the sessions that saw no mail since mail last came, and the
  streaks of misses that ever began.
\<close>

record sync_view =
  vw_missed :: "gotime list"
  vw_busy :: nat
  vw_quiet :: "gotime list"
  vw_streaks :: nat

definition view_miss :: "gotime \<Rightarrow> sync_view \<Rightarrow> sync_view" where
  "view_miss now v = v\<lparr>vw_missed := vw_missed v @ [now], vw_busy := 0,
     vw_streaks := vw_streaks v + (if vw_missed v = [] then 1 else 0)\<rparr>"

fun view_sync :: "sync_op \<Rightarrow> sync_view \<Rightarrow> sync_view" where
  "view_sync (Did_sync now) v = v\<lparr>vw_missed := [], vw_busy := 0\<rparr>"
| "view_sync (Missed name now) v = view_miss now v"
| "view_sync (Was_busy name now) v =
     (if vw_busy v = 2 then view_miss now v else v\<lparr>vw_busy := vw_busy v + 1\<rparr>)"
| "view_sync (Saw_no_change now) v = v\<lparr>vw_quiet := vw_quiet v @ [now]\<rparr>"
| "view_sync Mail_came v = v\<lparr>vw_quiet := []\<rparr>"

definition sync_refines :: "sync_view \<Rightarrow> sync_streak \<Rightarrow> bool" where
  "sync_refines v s \<longleftrightarrow> sy_missed s = int (length (vw_missed v)) \<and> sy_busy s = int (vw_busy v) \<and> vw_busy v \<le> 2
     \<and> sy_no_change s = int (length (vw_quiet v)) \<and> sy_serial s = int (vw_streaks v)
     \<and> spans (vw_missed v) (sy_first_missed s) (sy_last_missed s)
     \<and> spans (vw_quiet v) (sy_first_no_change s) (sy_last_no_change s)"

lemma miss_refines:
  assumes "sync_refines v s"
  shows "sync_refines (view_miss now v) (miss name now s)"
proof -
  show ?thesis
    using assms spans_snoc [OF _ miss_span(1) [of name now s, symmetric]] by (simp add: sync_refines_def view_miss_def miss_span(2-7))
qed

lemma no_change_refines:
  assumes "sync_refines v s"
  shows "sync_refines (v\<lparr>vw_quiet := vw_quiet v @ [now]\<rparr>) (no_change_seen now s)"
proof -
  let ?s = "no_change_seen now s"
  have f: "span_at (sy_first_no_change s) (sy_last_no_change s) now = (sy_first_no_change ?s, sy_last_no_change ?s)"
    "sy_missed ?s = sy_missed s" "sy_serial ?s = sy_serial s" "sy_busy ?s = sy_busy s" "sy_no_change ?s = sy_no_change s + 1"
    "sy_first_missed ?s = sy_first_missed s" "sy_last_missed ?s = sy_last_missed s"
    by (simp_all add: no_change_seen_def Let_def split: prod.split)
  show ?thesis using assms spans_snoc [OF _ f(1)] by (simp add: sync_refines_def f(2-7))
qed

lemma busy_refines:
  assumes "sync_refines v s"
  shows "sync_refines (view_sync (Was_busy name now) v) (profile_busy name now s)"
proof (cases "vw_busy v = 2")
  case True
  let ?s = "s\<lparr>sy_version := sync_streak_version, sy_busy := sy_busy s + 1\<rparr>"
  have "profile_busy name now s = miss name now (s\<lparr>sy_busy := sy_busy s + 1\<rparr>)"
    using assms True by (simp add: profile_busy_def sync_refines_def sync_busy_runs_def miss_def Let_def)
  also have "\<dots> = miss name now s" by (simp add: miss_def Let_def split: prod.split)
  finally show ?thesis using miss_refines [OF assms, of now name] True by simp
next
  case False
  then show ?thesis using assms by (simp add: profile_busy_def sync_refines_def sync_busy_runs_def Let_def)
qed

interpretation sync: machine "\<lambda>x (v, s). (view_sync x v, run_sync x s)" "\<lambda>_ _. True" "\<lambda>(v, s). sync_refines v s"
proof
  fix a :: "sync_view \<times> sync_streak" and x
  assume "case a of (v, s) \<Rightarrow> sync_refines v s"
  then obtain v s where a: "a = (v, s)" and i: "sync_refines v s" by (cases a) simp
  have "sync_refines (view_sync x v) (run_sync x s)"
  proof (cases x)
    case (Missed name now)
    then show ?thesis using miss_refines [OF i] by simp
  next
    case (Was_busy name now)
    then show ?thesis using busy_refines [OF i] by simp
  next
    case (Saw_no_change now)
    then show ?thesis using no_change_refines [OF i] by simp
  qed (use i in \<open>simp_all add: sync_refines_def synced_def mail_arrived_def Let_def\<close>)
  then show "case (case a of (v, s) \<Rightarrow> (view_sync x v, run_sync x s)) of (v, s) \<Rightarrow> sync_refines v s"
    by (simp add: a)
qed

lemma fold_pair: "fold (\<lambda>x (v, s). (f x v, g x s)) xs (a, b) = (fold f xs a, fold g xs b)"
  by (induction xs arbitrary: a b) simp_all

lemma sync_all_may: "sync.may_run xs s"
  by (induction xs arbitrary: s) simp_all

text \<open>
  C37: the sync record refines the plain account of the sessions: over any sequence of sessions on any
  clock, it counts the misses since the last sync with every third busy session in a row as one, so a
  stuck profile lock cannot hide a streak, and the quiet sessions since mail last came; it is stale, or
  says nothing arrived, only when two such sessions at trustworthy times are three days apart (C-4,
  OQ-5, MA-891).  Its serial counts the streaks that began, so it names one streak whatever the clock does.
\<close>

theorem the_sync_record_refines_its_sessions:
  fixes ops :: "sync_op list"
  defines "s \<equiv> fold run_sync ops zero_sync_streak"
    and "v \<equiv> fold view_sync ops \<lparr>vw_missed = [], vw_busy = 0, vw_quiet = [], vw_streaks = 0\<rparr>"
  shows "sync_refines v s
     \<and> (stale s \<longrightarrow> (\<exists>t1\<in>set (vw_missed v). \<exists>t2\<in>set (vw_missed v). min_plausible_time \<le> t1 \<and> t1 + sync_stale_after \<le> t2))
     \<and> (nothing_arrived s \<longrightarrow> (\<exists>t1\<in>set (vw_quiet v). \<exists>t2\<in>set (vw_quiet v). min_plausible_time \<le> t1 \<and> t1 + sync_stale_after \<le> t2))"
proof -
  let ?v0 = "\<lparr>vw_missed = [], vw_busy = 0, vw_quiet = [], vw_streaks = 0\<rparr>"
  have "sync_refines ?v0 zero_sync_streak" by (simp add: sync_refines_def zero_sync_streak_def)
  then have "case fold (\<lambda>x (v, s). (view_sync x v, run_sync x s)) ops (?v0, zero_sync_streak) of (v, s) \<Rightarrow> sync_refines v s"
    by (intro sync.run_inv sync_all_may) simp
  then have r: "sync_refines v s" by (simp add: fold_pair v_def s_def)
  have d: "0 < sync_stale_after" by (simp add: sync_stale_after_def time_units)
  from r have sp: "spans (vw_missed v) (sy_first_missed s) (sy_last_missed s)"
    "spans (vw_quiet v) (sy_first_no_change s) (sy_last_no_change s)" by (simp_all add: sync_refines_def)
  from r span_sound [OF sp(1) d] span_sound [OF sp(2) d] show ?thesis
    by (auto simp: stale_def nothing_arrived_def)
qed

theorem the_sync_record_refines_its_sessions_witness:
  "stale (fold run_sync [Missed [] (800000 * day_ns), Missed [] (800004 * day_ns)] zero_sync_streak)
   \<and> (\<exists>t1\<in>{800000 * day_ns, 800004 * day_ns}. \<exists>t2\<in>{800000 * day_ns, 800004 * day_ns}. t1 + sync_stale_after \<le> t2)"
proof -
  let ?ops = "[Missed [] (800000 * day_ns), Missed [] (800004 * day_ns)]"
  have m: "min_plausible_time \<le> 800000 * day_ns"
    by (simp add: min_plausible_time_def civil_ns_def days_before_year_def days_before_month_def time_units)
  have "stale (fold run_sync ?ops zero_sync_streak)"
    using m by (simp add: stale_def span_of_def span_at_def miss_def zero_sync_streak_def Let_def
        sync_min_runs_def sync_stale_after_def time_sub_def time_units min_duration_def max_duration_def)
  with the_sync_record_refines_its_sessions [of ?ops] show ?thesis by (auto simp: view_miss_def)
qed

end
