(* ===== verification/Breaker.thy ===== *)
theory Breaker
  imports GoTime Interfaces
begin

text \<open>
  The Graph breaker (\<^verbatim>\<open>internal/app/graphbreaker.go\<close>): the counts of one mailbox's failed
  downloads, kept in a ring of the last 50 attempts, and the bounds that say when the service rather
  than an item is failing.  The words of a refusal are the bound it names.
\<close>

definition breaker_run :: int where "breaker_run = 25"
definition breaker_window :: nat where "breaker_window = 50"
definition breaker_rate :: int where "breaker_rate = 25"
definition default_breaker_time :: duration where "default_breaker_time = 30 * (60 * second_ns)"

datatype attempt_kind = Attempt_OK | Attempt_item_fault | Attempt_counted

datatype threshold = In_a_row int | Of_the_last int | Had_taken duration

record breaker =
  br_time_bound :: duration
  br_consecutive :: int
  br_ring :: "bool list"
  br_filled :: nat
  br_next :: nat
  br_faults :: int
  br_spent :: duration

definition zero_breaker :: "duration \<Rightarrow> breaker" where
  "zero_breaker bound = \<lparr>br_time_bound = bound, br_consecutive = 0, br_ring = replicate breaker_window False,
     br_filled = 0, br_next = 0, br_faults = 0, br_spent = 0\<rparr>"

definition new_breaker :: "duration \<Rightarrow> breaker" where
  "new_breaker bound = zero_breaker (if bound \<le> 0 then default_breaker_time else bound)"

definition note_attempt :: "bool \<Rightarrow> breaker \<Rightarrow> breaker" where
  "note_attempt counted b =
     (let b = (if br_filled b = breaker_window
               then (if br_ring b ! br_next b then b\<lparr>br_faults := br_faults b - 1\<rparr> else b)
               else b\<lparr>br_filled := br_filled b + 1\<rparr>)
      in b\<lparr>br_ring := (br_ring b)[br_next b := counted], br_next := (br_next b + 1) mod breaker_window\<rparr>)"

definition attempt :: "attempt_kind \<Rightarrow> duration \<Rightarrow> breaker \<Rightarrow> threshold option \<times> breaker" where
  "attempt kind took b =
     (let b = note_attempt (kind = Attempt_counted) b
      in case kind of
           Attempt_OK \<Rightarrow> (None, b\<lparr>br_consecutive := 0\<rparr>)
         | Attempt_item_fault \<Rightarrow> (None, b)
         | Attempt_counted \<Rightarrow>
             let b = b\<lparr>br_faults := br_faults b + 1, br_consecutive := br_consecutive b + 1,
                       br_spent := wrap64 (br_spent b + took)\<rparr>
             in (if breaker_run \<le> br_consecutive b then Some (In_a_row (br_consecutive b))
                 else if br_filled b = breaker_window \<and> breaker_rate \<le> br_faults b
                 then Some (Of_the_last (br_faults b))
                 else if br_time_bound b < br_spent b then Some (Had_taken (br_spent b)) else None, b))"

definition reset_breaker :: "breaker \<Rightarrow> breaker" where
  "reset_breaker b = zero_breaker (br_time_bound b)"

subsection \<open>The plain account of the attempts\<close>

text \<open>
  What the counts stand for: the attempts since the last reset, newest last.  The run of counted
  faults since the last success skips the items' own faults; the rate looks at the last 50 attempts.
\<close>

type_synonym attempts = "(attempt_kind \<times> duration) list"

abbreviation counts :: "attempt_kind \<times> duration \<Rightarrow> bool" where
  "counts a \<equiv> fst a = Attempt_counted"

definition counted_in :: "attempts \<Rightarrow> int" where
  "counted_in as = int (length (filter counts as))"

definition since_success :: "attempts \<Rightarrow> attempts" where
  "since_success as = takeWhile (\<lambda>a. fst a \<noteq> Attempt_OK) (rev as)"

definition last_window :: "attempts \<Rightarrow> attempts" where
  "last_window as = drop (length as - breaker_window) as"

definition time_spent :: "attempts \<Rightarrow> duration" where
  "time_spent as = fold (\<lambda>a t. wrap64 (t + snd a)) (filter counts as) 0"

definition judge :: "duration \<Rightarrow> attempts \<Rightarrow> threshold option" where
  "judge bound as =
     (if as = [] \<or> \<not> counts (last as) then None
      else if 25 \<le> counted_in (since_success as) then Some (In_a_row (counted_in (since_success as)))
      else if 50 \<le> length as \<and> 25 \<le> counted_in (last_window as) then Some (Of_the_last (counted_in (last_window as)))
      else if bound < time_spent as then Some (Had_taken (time_spent as)) else None)"

definition account :: "duration \<Rightarrow> attempts \<Rightarrow> breaker \<Rightarrow> bool" where
  "account bound as b \<longleftrightarrow>
     br_time_bound b = bound \<and> br_consecutive b = counted_in (since_success as)
     \<and> br_filled b = min (length as) 50 \<and> br_next b = length as mod 50 \<and> length (br_ring b) = 50
     \<and> (\<forall>i<length as. length as \<le> i + 50 \<longrightarrow> br_ring b ! (i mod 50) = counts (as ! i))
     \<and> br_faults b = counted_in (last_window as) \<and> br_spent b = time_spent as"

lemma account_new: "account bound [] (zero_breaker bound)"
  by (simp add: account_def zero_breaker_def counted_in_def since_success_def last_window_def time_spent_def breaker_window_def)

lemma last_window_snoc:
  "last_window (as @ [a]) = (if length as < 50 then as @ [a] else drop 1 (last_window as) @ [a])"
proof (cases "length as < 50")
  case False
  then have "Suc (length as) - 50 = Suc (length as - 50)" by simp
  with False show ?thesis by (simp add: last_window_def breaker_window_def)
qed (simp add: last_window_def breaker_window_def)

lemma last_window_full:
  assumes "50 \<le> length as"
  shows "last_window as = as ! (length as - 50) # drop 1 (last_window as)"
proof -
  have "length as - 50 < length as" using assms by simp
  then show ?thesis by (simp add: last_window_def breaker_window_def Cons_nth_drop_Suc)
qed

lemma counted_in_simps [simp]:
  "counted_in [] = 0" "counted_in (a # as) = (if counts a then 1 else 0) + counted_in as"
  "counted_in (as @ bs) = counted_in as + counted_in bs"
  by (simp_all add: counted_in_def)

lemma slot_other:
  fixes n i :: nat
  assumes "i < n" and "n < i + 50"
  shows "i mod 50 \<noteq> n mod 50"
proof
  assume "i mod 50 = n mod 50"
  then have "50 dvd n - i" using assms(1) by (metis mod_eq_dvd_iff_nat less_imp_le_nat)
  with assms show False by (auto dest: dvd_imp_le)
qed

lemma account_note:
  assumes "account bound as b" and "counts a = c"
  shows "let b' = note_attempt c b in br_filled b' = min (length as + 1) 50 \<and> br_next b' = (length as + 1) mod 50
     \<and> length (br_ring b') = 50
     \<and> (\<forall>i<length as + 1. length as + 1 \<le> i + 50 \<longrightarrow> br_ring b' ! (i mod 50) = counts ((as @ [a]) ! i))
     \<and> br_faults b' + (if c then 1 else 0) = counted_in (last_window (as @ [a]))
     \<and> br_time_bound b' = bound \<and> br_consecutive b' = br_consecutive b \<and> br_spent b' = br_spent b"
proof -
  let ?n = "length as" and ?b = "note_attempt c b"
  from assms(1) have A: "br_time_bound b = bound" "br_filled b = min ?n 50" "br_next b = ?n mod 50"
    "length (br_ring b) = 50" "br_faults b = counted_in (last_window as)"
    and R: "\<And>i. i < ?n \<Longrightarrow> ?n \<le> i + 50 \<Longrightarrow> br_ring b ! (i mod 50) = counts (as ! i)"
    by (simp_all add: account_def)
  have ring: "br_ring ?b = (br_ring b)[?n mod 50 := c]"
    and next': "br_next ?b = (?n + 1) mod 50" and filled: "br_filled ?b = min (?n + 1) 50"
    and same: "br_time_bound ?b = bound" "br_consecutive ?b = br_consecutive b" "br_spent ?b = br_spent b"
    using A by (auto simp: note_attempt_def Let_def breaker_window_def mod_Suc_eq)
  have slots: "br_ring ?b ! (i mod 50) = counts ((as @ [a]) ! i)" if "i < ?n + 1" "?n + 1 \<le> i + 50" for i
  proof (cases "i = ?n")
    case True
    then show ?thesis using A(4) assms(2) by (simp add: ring)
  next
    case False
    with that have "i < ?n" "?n < i + 50" by simp_all
    then show ?thesis using slot_other [of i ?n] R by (simp add: ring nth_append)
  qed
  have faults: "br_faults ?b + (if c then 1 else 0) = counted_in (last_window (as @ [a]))"
  proof (cases "?n < 50")
    case True
    then have "br_faults ?b = br_faults b" using A(2) by (simp add: note_attempt_def Let_def breaker_window_def)
    with True A(5) show ?thesis using assms(2) by (simp add: last_window_snoc last_window_def breaker_window_def)
  next
    case False
    let ?o = "?n - 50"
    have "?o mod 50 = ?n mod 50" using False by (simp add: le_mod_geq)
    then have "br_ring b ! (?n mod 50) = counts (as ! ?o)" using R [of ?o] False by simp
    then have "br_faults ?b = br_faults b - (if counts (as ! ?o) then 1 else 0)"
      using A(2,3) False by (simp add: note_attempt_def Let_def breaker_window_def)
    moreover have "counted_in (last_window as) = (if counts (as ! ?o) then 1 else 0) + counted_in (drop 1 (last_window as))"
      using False by (subst last_window_full) simp_all
    ultimately show ?thesis using A(5) assms(2) False by (simp add: last_window_snoc)
  qed
  from ring A(4) next' filled slots faults same show ?thesis by (simp add: Let_def)
qed

lemma since_success_snoc:
  "since_success (as @ [a]) = (if fst a = Attempt_OK then [] else a # since_success as)"
  by (simp add: since_success_def)

lemma time_spent_snoc:
  "time_spent (as @ [a]) = (if counts a then wrap64 (time_spent as + snd a) else time_spent as)"
  by (simp add: time_spent_def)

lemma attempt_accounts:
  assumes "account bound as b"
  shows "fst (attempt k t b) = judge bound (as @ [(k, t)]) \<and> account bound (as @ [(k, t)]) (snd (attempt k t b))"
proof -
  let ?c = "k = Attempt_counted" and ?as = "as @ [(k, t)]"
  let ?b = "note_attempt ?c b"
  note N = account_note [OF assms, of "(k, t)" ?c, unfolded Let_def, simplified fst_conv, OF refl]
  have c: "br_consecutive b = counted_in (since_success as)" "br_spent b = time_spent as"
    using assms by (simp_all add: account_def)
  show ?thesis
  proof (cases k)
    case Attempt_counted
    have "fst (attempt k t b) = judge bound ?as"
      using N c Attempt_counted
      by (simp add: attempt_def Let_def judge_def breaker_run_def breaker_rate_def breaker_window_def
          since_success_snoc time_spent_snoc add.commute min_def split: if_splits)
    moreover have "account bound ?as (snd (attempt k t b))"
      using N c Attempt_counted
      by (simp add: attempt_def Let_def account_def since_success_snoc time_spent_snoc add.commute)
    ultimately show ?thesis ..
  qed (use N c in \<open>simp_all add: attempt_def Let_def account_def since_success_snoc time_spent_snoc judge_def\<close>)
qed

subsection \<open>A whole walk\<close>

datatype breaker_op = Attempt attempt_kind duration | Reset

fun breaker_step :: "breaker_op \<Rightarrow> breaker \<Rightarrow> threshold option \<times> breaker" where
  "breaker_step (Attempt k t) b = attempt k t b"
| "breaker_step Reset b = (None, reset_breaker b)"

fun judge_step :: "duration \<Rightarrow> breaker_op \<Rightarrow> attempts \<Rightarrow> threshold option \<times> attempts" where
  "judge_step bound (Attempt k t) as = (judge bound (as @ [(k, t)]), as @ [(k, t)])"
| "judge_step bound Reset as = (None, [])"

fun answers :: "('op \<Rightarrow> 's \<Rightarrow> 'r \<times> 's) \<Rightarrow> 'op list \<Rightarrow> 's \<Rightarrow> 'r list" where
  "answers step [] s = []"
| "answers step (x # xs) s = (case step x s of (r, s') \<Rightarrow> r # answers step xs s')"

lemma answers_append:
  "answers step (xs @ ys) s = answers step xs s @ answers step ys (fold (\<lambda>x s. snd (step x s)) xs s)"
  by (induction xs arbitrary: s) (simp_all split: prod.split)

lemma breaker_account:
  "account bound as b \<Longrightarrow> \<exists>as'. account bound as' (fold (\<lambda>x s. snd (breaker_step x s)) ops b)"
proof (induction ops arbitrary: as b)
  case (Cons x ops)
  show ?case
  proof (cases x)
    case (Attempt k t)
    then show ?thesis using Cons.IH [OF conjunct2 [OF attempt_accounts [OF Cons.prems, of k t]]] by simp
  next
    case Reset
    have "br_time_bound b = bound" using Cons.prems by (simp add: account_def)
    then show ?thesis using Cons.IH [OF account_new] by (simp add: Reset reset_breaker_def)
  qed
qed auto

lemma breaker_answers: "account bound as b \<Longrightarrow> answers breaker_step ops b = answers (judge_step bound) ops as"
proof (induction ops arbitrary: as b)
  case (Cons x ops)
  show ?case
  proof (cases x)
    case (Attempt k t)
    from attempt_accounts [OF Cons.prems, of k t] obtain b' where
      "attempt k t b = (judge bound (as @ [(k, t)]), b')" "account bound (as @ [(k, t)]) b'"
      by (cases "attempt k t b") simp
    then show ?thesis using Cons.IH by (simp add: Attempt)
  next
    case Reset
    have "br_time_bound b = bound" using Cons.prems by (simp add: account_def)
    then show ?thesis using Cons.IH [OF account_new] by (simp add: Reset reset_breaker_def)
  qed
qed simp

abbreviation attempted :: "attempts \<Rightarrow> breaker_op list" where
  "attempted \<equiv> map (\<lambda>(k, t). Attempt k t)"

lemma judge_run: "fold (\<lambda>x s. snd (judge_step bound x s)) (attempted xs) as = as @ xs"
  by (induction xs arbitrary: as) auto

lemma judge_answer: "judge bound (as @ xs @ [a]) \<in> set (answers (judge_step bound) (attempted (xs @ a # ys)) as)"
  by (cases a) (simp add: answers_append judge_run split: prod.split)

lemma counted_in_since:
  assumes "\<forall>a\<in>set xs. fst a \<noteq> Attempt_OK"
  shows "counted_in xs \<le> counted_in (since_success (as @ xs))"
proof -
  have "since_success (as @ xs) = rev xs @ since_success as"
    using assms by (simp add: since_success_def takeWhile_append)
  moreover have "counted_in (rev xs) = counted_in xs" by (simp add: counted_in_def rev_filter [symmetric])
  moreover have "0 \<le> counted_in (since_success as)" by (simp add: counted_in_def)
  ultimately show ?thesis by simp
qed

lemma last_counted:
  assumes "0 < counted_in fs"
  obtains xs a ys where "fs = xs @ a # ys" "counts a" "counted_in (xs @ [a]) = counted_in fs"
proof -
  from assms have "\<exists>a\<in>set fs. counts a" by (auto simp: counted_in_def filter_empty_conv)
  then obtain xs a ys where f: "fs = xs @ a # ys" "counts a" "\<forall>y\<in>set ys. \<not> counts y"
    using split_list_last_prop [of fs "\<lambda>a. counts a"] by blast
  moreover from f(3) have "counted_in ys = 0" by (simp add: counted_in_def filter_empty_conv)
  ultimately show ?thesis using that by simp
qed

text \<open>
  C38: the breaker's ring, kept in constant space, answers every attempt of a walk exactly as a plain
  account of the attempts since the last reset would: 25 counted faults since the last success, 25 of
  the last 50, or more time than the bound; and an outage is cut short: after any walk, at most 25
  counted faults with no success among them trip it, so it costs a bounded number of downloads (FC10).
\<close>

theorem the_breaker_counts_a_sliding_window:
  fixes ops :: "breaker_op list" and faults :: attempts and bound :: duration
  defines "b \<equiv> fold (\<lambda>x s. snd (breaker_step x s)) ops (new_breaker bound)"
  shows "answers breaker_step ops (new_breaker bound)
       = answers (judge_step (if bound \<le> 0 then default_breaker_time else bound)) ops []
     \<and> ((\<forall>a\<in>set faults. fst a \<noteq> Attempt_OK) \<and> 25 \<le> counted_in faults
         \<longrightarrow> (\<exists>r\<in>set (answers breaker_step (attempted faults) b). r \<noteq> None))"
proof (intro conjI impI)
  let ?bound = "if bound \<le> 0 then default_breaker_time else bound"
  have a: "account ?bound [] (new_breaker bound)" unfolding new_breaker_def by (rule account_new)
  then show "answers breaker_step ops (new_breaker bound) = answers (judge_step ?bound) ops []"
    by (rule breaker_answers)
  assume f: "(\<forall>a\<in>set faults. fst a \<noteq> Attempt_OK) \<and> 25 \<le> counted_in faults"
  then have "0 < counted_in faults" by simp
  from last_counted [OF this] obtain xs x ys where
    s: "faults = xs @ x # ys" "counts x" "counted_in (xs @ [x]) = counted_in faults" .
  obtain as where b: "account ?bound as b" using breaker_account [OF a] unfolding b_def by blast
  have "25 \<le> counted_in (since_success (as @ xs @ [x]))"
    using counted_in_since [of "xs @ [x]" as] f s by simp
  then have "judge ?bound (as @ xs @ [x]) \<noteq> None" using s(2) by (simp add: judge_def)
  then show "\<exists>r\<in>set (answers breaker_step (attempted faults) b). r \<noteq> None"
    using judge_answer [of ?bound as xs x ys] breaker_answers [OF b] by (auto simp: s(1))
qed

theorem the_breaker_counts_a_sliding_window_witness:
  "\<exists>r\<in>set (answers breaker_step (attempted (replicate 25 (Attempt_counted, second_ns)))
      (new_breaker 0)). r \<noteq> None"
  using the_breaker_counts_a_sliding_window [where ops = "[]" and bound = 0 and faults = "replicate 25 (Attempt_counted, second_ns)"]
  by (simp add: counted_in_def)

end
