(* ===== verification/Message.thy ===== *)
theory Message
  imports Hash Paths Labels
begin

text \<open>
  The normalised message (\<^verbatim>\<open>internal/model/message.go\<close>): its fields, the identity view the
  parser pins, and the digests that say which message a capture is: the identity its manifest key is
  built from, the envelope fingerprint and the content digest.  An attachment's stream is the bytes it
  yields and whether it ends without an error; \<open>None\<close> is a nil \<^verbatim>\<open>WriteTo\<close>.
  \<^verbatim>\<open>Embedded\<close> is left out: nothing in the code sets it.
\<close>

record attachment =
  at_filename :: string
  at_mime_type :: string
  at_content_id :: string
  at_size :: int
  at_write_to :: "(string \<times> bool) option"
  at_gap_kind :: string
  at_gap_detail :: string
  at_zip_name :: string

record identity_terms =
  it_mid :: string
  it_subject :: string
  it_sender :: string
  it_to :: string
  it_cc :: string
  it_bcc :: string
  it_date :: gotime
  it_html :: string
  it_plain :: string
  it_rtf :: string
  it_attachments :: "(string \<times> int) list"
  it_no_date :: bool

record v1_item =
  v1_index :: nat
  v1_label :: string
  v1_size :: int
  v1_sha256 :: string

record message =
  ms_subject :: string
  ms_sender_name :: string
  ms_sender :: string
  ms_to :: string
  ms_cc :: string
  ms_bcc :: string
  ms_reply_to :: string
  ms_in_reply_to :: string
  ms_references :: string
  ms_sent :: gotime
  ms_received :: gotime
  ms_identity_date :: gotime
  ms_mid :: string
  ms_raw :: string
  ms_transport_headers :: string
  ms_html :: string
  ms_plain :: string
  ms_rtf :: string
  ms_importance :: string
  ms_sensitivity :: string
  ms_unread :: bool
  ms_categories :: "string list"
  ms_phys_id :: string
  ms_locator :: string
  ms_read_locator :: string
  ms_read_gaps :: "string list"
  ms_read_error :: string
  ms_terms :: "identity_terms option"
  ms_parse_notes :: "(string \<times> int \<times> string) list"
  ms_parse_gaps :: "(string \<times> string) list"
  ms_v1_inventory :: "v1_item list"
  ms_fell_back :: bool
  ms_attachments :: "attachment list"

definition zero_message :: message where
  "zero_message = \<lparr>ms_subject = [], ms_sender_name = [], ms_sender = [], ms_to = [], ms_cc = [], ms_bcc = [],
     ms_reply_to = [], ms_in_reply_to = [], ms_references = [], ms_sent = zero_time, ms_received = zero_time,
     ms_identity_date = zero_time, ms_mid = [], ms_raw = [], ms_transport_headers = [], ms_html = [],
     ms_plain = [], ms_rtf = [], ms_importance = [], ms_sensitivity = [], ms_unread = False,
     ms_categories = [], ms_phys_id = [], ms_locator = [], ms_read_locator = [], ms_read_gaps = [],
     ms_read_error = [], ms_terms = None, ms_parse_notes = [], ms_parse_gaps = [], ms_v1_inventory = [],
     ms_fell_back = False, ms_attachments = []\<rparr>"

text \<open>\<^verbatim>\<open>fmt\<close>'s \<^verbatim>\<open>%d\<close>.\<close>

definition fmt_d :: "int \<Rightarrow> string" where
  "fmt_d i = (if i = 0 then ''0'' else if i < 0 then CHR ''-'' # nat_digits (nat (- i)) else nat_digits (nat i))"

definition attachment_label :: "attachment \<Rightarrow> nat \<Rightarrow> string" where
  "attachment_label a index =
     (let name = strip_control (at_filename a); cid = strip_control (at_content_id a)
      in if name \<noteq> [] then name else if cid \<noteq> [] then ''cid:'' @ cid else ''attachment-'' @ fmt_d (int index))"

definition idv :: "message \<Rightarrow> identity_terms" where
  "idv m = (case ms_terms m of Some t \<Rightarrow> t
   | None \<Rightarrow> \<lparr>it_mid = ms_mid m, it_subject = ms_subject m, it_sender = ms_sender m, it_to = ms_to m,
       it_cc = ms_cc m, it_bcc = ms_bcc m, it_date = ms_identity_date m, it_html = ms_html m,
       it_plain = ms_plain m, it_rtf = ms_rtf m,
       it_attachments = map (\<lambda>a. (at_filename a, at_size a)) (ms_attachments m), it_no_date = False\<rparr>)"

definition identity_subject :: "message \<Rightarrow> string" where
  "identity_subject m = it_subject (idv m)"

definition set_internet_message_id :: "string \<Rightarrow> message \<Rightarrow> message" where
  "set_internet_message_id i m =
     m\<lparr>ms_mid := i, ms_terms := map_option (\<lambda>t. t\<lparr>it_mid := i\<rparr>) (ms_terms m)\<rparr>"

definition message_date :: "message \<Rightarrow> gotime" where
  "message_date m = (if ms_received m \<noteq> zero_time then ms_received m else ms_sent m)"

definition identity_time :: "message \<Rightarrow> identity_terms \<Rightarrow> gotime" where
  "identity_time m t = (if it_date t \<noteq> zero_time then it_date t
     else if it_no_date t then zero_time else message_date m)"

text \<open>\<^verbatim>\<open>UnixNano\<close>: an \<^verbatim>\<open>int64\<close> that wraps outside the years 1678 to 2262.\<close>

definition unix_nano :: "gotime \<Rightarrow> int" where
  "unix_nano t = wrap64 (t - civil_ns 1970 1 1 0 0 0 0)"

text \<open>The text each digest hashes: its fields, each closed by a NUL.\<close>

definition nul_join :: "string list \<Rightarrow> string" where
  "nul_join fs = concat (map (\<lambda>f. f @ [nul]) fs)"

definition bodies_text :: "identity_terms \<Rightarrow> string" where
  "bodies_text t = it_html t @ [nul] @ it_plain t @ [nul] @ it_rtf t"

definition content_hash_text :: "message \<Rightarrow> string" where
  "content_hash_text m = (let t = idv m in
     nul_join [it_subject t, it_sender t, it_to t, fmt_d (unix_nano (identity_time m t)),
       fmt_d (int (length (it_attachments t)))] @ bodies_text t)"

definition content_hash :: "message \<Rightarrow> string" where
  "content_hash m = hex_encode (sha256 (content_hash_text m))"

definition identity :: "message \<Rightarrow> string" where
  "identity m = (let i = trim_space (it_mid (idv m))
     in if i \<noteq> [] then ''mid:'' @ i else ''sha:'' @ content_hash m)"

definition legacy_stub_identity :: string where
  "legacy_stub_identity = identity (zero_message\<lparr>ms_subject := ''(unreadable message)''\<rparr>)"

definition fingerprint_text :: "message \<Rightarrow> string" where
  "fingerprint_text m = (let t = idv m in
     nul_join [it_subject t, it_sender t, it_to t, it_cc t, fmt_d (unix_nano (identity_time m t))]
     @ nul_join (map (\<lambda>(i, f, _). fmt_d (int i) @ '':'' @ f) (enumerate 0 (it_attachments t))))"

definition fingerprint :: "message \<Rightarrow> string" where
  "fingerprint m = take 16 (hex_encode (sha256 (fingerprint_text m)))"

definition fingerprint_no_attachments :: "message \<Rightarrow> string" where
  "fingerprint_no_attachments m = fingerprint
     (m\<lparr>ms_attachments := [], ms_terms := map_option (\<lambda>t. t\<lparr>it_attachments := []\<rparr>) (ms_terms m)\<rparr>)"

definition content_digest_text :: "message \<Rightarrow> string" where
  "content_digest_text m = (let t = idv m in
     nul_join [it_subject t, it_sender t, it_to t, it_cc t, it_bcc t, fmt_d (unix_nano (identity_time m t))]
     @ nul_join (map (\<lambda>(i, f, n). fmt_d (int i) @ '':'' @ f @ '':'' @ fmt_d n) (enumerate 0 (it_attachments t)))
     @ bodies_text t)"

definition content_digest :: "message \<Rightarrow> string" where
  "content_digest m = hex_encode (sha256 (content_digest_text m))"

subsection \<open>What the digests tell apart\<close>

lemma nat_digits_inj: "nat_digits n = nat_digits m \<Longrightarrow> n = m"
proof (induction n arbitrary: m rule: less_induct)
  case (less n)
  show ?case
  proof (cases "n = 0 \<or> m = 0")
    case True
    then show ?thesis using less.prems by (auto simp: nat_digits.simps [of n] nat_digits.simps [of m] split: if_splits)
  next
    case False
    then have e: "nat_digits (n div 10) = nat_digits (m div 10)"
      "(char_of (48 + n mod 10) :: char) = char_of (48 + m mod 10)"
      using less.prems by (simp_all add: nat_digits.simps [of n] nat_digits.simps [of m])
    have "byte (char_of (48 + n mod 10)) = byte (char_of (48 + m mod 10))" using e(2) by simp
    then have "n mod 10 = m mod 10" by simp
    moreover have "n div 10 = m div 10" using less.IH [OF _ e(1)] False by simp
    ultimately show ?thesis by (metis div_mult_mod_eq)
  qed
qed

lemma fmt_d_chars: "c \<in> set (fmt_d i) \<Longrightarrow> byte c \<in> insert 45 {48..57}"
  using digit_chars by (fastforce simp: fmt_d_def byte_def split: if_splits)

lemma fmt_d_no_sep: "nul \<notin> set (fmt_d i)" "CHR '':'' \<notin> set (fmt_d i)"
  using fmt_d_chars [of nul i] fmt_d_chars [of "CHR '':''" i] by (auto simp: byte_def)

lemma nat_digits_no_sign: "CHR ''-'' \<notin> set (nat_digits n)"
  using digit_chars [of "CHR ''-''" n] by (auto simp: byte_def)

lemma fmt_d_inj: "fmt_d i = fmt_d j \<Longrightarrow> i = j"
proof -
  have z: "nat_digits n \<noteq> ''0''" for n
  proof
    assume a: "nat_digits n = ''0''"
    then have "n \<noteq> 0" by (cases n) (simp_all add: nat_digits.simps [of 0])
    then have "nat_digits (n div 10) = []" "(char_of (48 + n mod 10) :: char) = CHR ''0''"
      using a by (simp_all add: nat_digits.simps [of n])
    then have "n div 10 = 0" "byte (char_of (48 + n mod 10)) = 48"
      by (auto simp: nat_digits.simps [of "n div 10"] byte_def split: if_splits)
    with \<open>n \<noteq> 0\<close> show False by simp
  qed
  have s: "nat_digits n \<noteq> CHR ''-'' # x" for n x using nat_digits_no_sign [of n] by (metis list.set_intros(1))
  assume "fmt_d i = fmt_d j"
  then show ?thesis
    using z [of "nat i"] z [of "nat j"] s s [symmetric]
    by (auto simp: fmt_d_def eq_commute [of "''0''"] split: if_splits
        dest!: nat_digits_inj [of "nat (- i)" "nat (- j)"] nat_digits_inj [of "nat i" "nat j"])
qed

lemma nul_join_append: "nul_join (fs @ gs) = nul_join fs @ nul_join gs"
  by (simp add: nul_join_def)

lemma split_nul_join: "list_all (\<lambda>f. nul \<notin> set f) fs \<Longrightarrow> split_on nul (nul_join fs @ s) = fs @ split_on nul s"
  by (induction fs) (simp_all add: nul_join_def)

text \<open>A view whose texts hold no NUL byte.\<close>

definition nul_free :: "identity_terms \<Rightarrow> bool" where
  "nul_free t \<longleftrightarrow> list_all (\<lambda>f. nul \<notin> set f) [it_subject t, it_sender t, it_to t, it_cc t, it_bcc t]
     \<and> list_all (\<lambda>(f, _). nul \<notin> set f) (it_attachments t)
     \<and> list_all (\<lambda>f. nul \<notin> set f) [it_html t, it_plain t, it_rtf t]"

abbreviation att_parts :: "(string \<times> int) list \<Rightarrow> string list" where
  "att_parts as \<equiv> map (\<lambda>(i, f, n). fmt_d (int i) @ '':'' @ f @ '':'' @ fmt_d n) (enumerate 0 as)"

lemma att_parts_inj: "att_parts as = att_parts bs \<Longrightarrow> as = bs"
proof (rule nth_equalityI)
  assume e: "att_parts as = att_parts bs"
  then show l: "length as = length bs" by (metis length_enumerate length_map)
  fix i assume i: "i < length as"
  obtain f n where a: "as ! i = (f, n)" by fastforce
  obtain g k where b: "bs ! i = (g, k)" by fastforce
  from e i l have "att_parts as ! i = att_parts bs ! i" by simp
  then have "f @ '':'' @ fmt_d n = g @ '':'' @ fmt_d k"
    using i l by (simp add: nth_enumerate_eq a b)
  then have "rev (fmt_d n) @ CHR '':'' # rev f = rev (fmt_d k) @ CHR '':'' # rev g"
    by (metis append.assoc append_Cons append_Nil rev.simps(2) rev_append)
  then have "fmt_d n = fmt_d k \<and> f = g"
    using sep_inj [of "CHR '':''" "rev (fmt_d n)" "rev (fmt_d k)" "rev f" "rev g"] fmt_d_no_sep(2) by simp
  then show "as ! i = bs ! i" using fmt_d_inj by (auto simp: a b)
qed

lemma att_parts_nul: "list_all (\<lambda>(f, _). nul \<notin> set f) as \<Longrightarrow> list_all (\<lambda>f. nul \<notin> set f) (att_parts as)"
  by (fastforce simp: list_all_iff fmt_d_no_sep in_set_enumerate_eq dest: nth_mem)

lemma content_digest_split:
  assumes "nul_free (idv m)"
  shows "split_on nul (content_digest_text m) =
     [it_subject (idv m), it_sender (idv m), it_to (idv m), it_cc (idv m), it_bcc (idv m),
       fmt_d (unix_nano (identity_time m (idv m)))] @ att_parts (it_attachments (idv m))
     @ [it_html (idv m), it_plain (idv m), it_rtf (idv m)]"
proof -
  let ?t = "idv m"
  let ?h = "[it_subject ?t, it_sender ?t, it_to ?t, it_cc ?t, it_bcc ?t, fmt_d (unix_nano (identity_time m ?t))]"
  have h: "list_all (\<lambda>f. nul \<notin> set f) (?h @ att_parts (it_attachments ?t))"
    using assms att_parts_nul [of "it_attachments ?t"] by (simp add: nul_free_def fmt_d_no_sep)
  have b: "split_on nul (bodies_text ?t) = [it_html ?t, it_plain ?t, it_rtf ?t]"
    using assms by (simp add: bodies_text_def nul_free_def)
  have "content_digest_text m = nul_join (?h @ att_parts (it_attachments ?t)) @ bodies_text ?t"
    by (simp add: content_digest_text_def Let_def nul_join_def)
  then show ?thesis using split_nul_join [OF h, of "bodies_text ?t"] b by simp
qed

text \<open>
  C39: the content digest tells every two messages apart that the fingerprint does, if neither holds a NUL
  byte in its subject, sender, recipients, attachment names or bodies, as the identity views have them, and
  SHA-256 does not collide on the two texts: equal digests then mean
  equal subject, sender, recipients, identity date, attachment names and sizes and bodies, so equal
  fingerprints, with and without the attachments, and equal content hashes.  An adoption by content
  therefore never overrides a fingerprint that would have kept two messages apart.
\<close>

theorem content_digest_tells_messages_apart:
  assumes "nul_free (idv m)" and "nul_free (idv m')"
    and no_collision: "sha256 (content_digest_text m) = sha256 (content_digest_text m') \<Longrightarrow>
      content_digest_text m = content_digest_text m'"
    and "content_digest m = content_digest m'"
  shows "it_attachments (idv m) = it_attachments (idv m') \<and> bodies_text (idv m) = bodies_text (idv m')
     \<and> fingerprint_text m = fingerprint_text m' \<and> fingerprint m = fingerprint m'
     \<and> content_hash m = content_hash m'"
proof -
  let ?h = "\<lambda>m. [it_subject (idv m), it_sender (idv m), it_to (idv m), it_cc (idv m), it_bcc (idv m),
    fmt_d (unix_nano (identity_time m (idv m)))]"
  let ?b = "\<lambda>m. [it_html (idv m), it_plain (idv m), it_rtf (idv m)]"
  have "sha256 (content_digest_text m) = sha256 (content_digest_text m')"
    using assms(4) unfolding content_digest_def by (rule hex_encode_inj)
  then have "?h m @ att_parts (it_attachments (idv m)) @ ?b m = ?h m' @ att_parts (it_attachments (idv m')) @ ?b m'"
    using no_collision content_digest_split [OF assms(1)] content_digest_split [OF assms(2)] by metis
  then have e: "?h m = ?h m'" "att_parts (it_attachments (idv m)) = att_parts (it_attachments (idv m'))" "?b m = ?b m'"
    by (simp_all add: append_eq_append_conv)
  then have "it_attachments (idv m) = it_attachments (idv m')" by (blast intro: att_parts_inj)
  moreover from e have "bodies_text (idv m) = bodies_text (idv m')" by (simp add: bodies_text_def)
  ultimately show ?thesis using e(1)
    by (simp add: fingerprint_text_def fingerprint_def content_hash_text_def content_hash_def Let_def)
qed

theorem content_digest_tells_messages_apart_witness:
  "fingerprint (zero_message\<lparr>ms_subject := ''hi'', ms_phys_id := ''x''\<rparr>) = fingerprint (zero_message\<lparr>ms_subject := ''hi''\<rparr>)"
proof -
  let ?m = "zero_message\<lparr>ms_subject := ''hi'', ms_phys_id := ''x''\<rparr>" and ?m' = "zero_message\<lparr>ms_subject := ''hi''\<rparr>"
  have v: "idv ?m = idv ?m'" by (simp add: idv_def zero_message_def)
  have n: "nul_free (idv ?m')" by (simp add: nul_free_def idv_def zero_message_def)
  have t: "content_digest_text ?m = content_digest_text ?m'"
  proof -
    have "message_date ?m = message_date ?m'" by (simp add: message_date_def zero_message_def)
    then have "identity_time ?m (idv ?m) = identity_time ?m' (idv ?m')" by (simp only: identity_time_def v)
    then show ?thesis by (simp only: content_digest_text_def v Let_def)
  qed
  from content_digest_tells_messages_apart [of ?m ?m'] n t show ?thesis by (simp add: v content_digest_def)
qed

text \<open>
  With a NUL byte in a body the digest is not as discriminating as the fingerprint: a body can spell
  the entry of an attachment the message does not have.
\<close>

definition forged_body :: message where
  "forged_body = zero_message\<lparr>ms_html := ''0:a:1'' @ [nul] @ ''text''\<rparr>"

definition real_attachment :: message where
  "real_attachment = zero_message\<lparr>ms_html := ''text'', ms_attachments := [\<lparr>at_filename = ''a'', at_mime_type = [],
     at_content_id = [], at_size = 1, at_write_to = None, at_gap_kind = [], at_gap_detail = [], at_zip_name = []\<rparr>]\<rparr>"

lemma a_body_can_forge_an_attachment:
  "content_digest forged_body = content_digest real_attachment"
  "fingerprint_text forged_body \<noteq> fingerprint_text real_attachment"
proof -
  have d: "fmt_d 0 = ''0''" "fmt_d 1 = ''1''" by (simp_all add: fmt_d_def nat_digits.simps char_of_def bit_simps)
  have v: "identity_time forged_body (idv forged_body) = identity_time real_attachment (idv real_attachment)"
    by (simp add: identity_time_def idv_def message_date_def forged_body_def real_attachment_def zero_message_def)
  have "content_digest_text forged_body = content_digest_text real_attachment"
    by (simp add: content_digest_text_def Let_def v d nul_join_def bodies_text_def)
      (simp add: idv_def forged_body_def real_attachment_def zero_message_def d)
  then show "content_digest forged_body = content_digest real_attachment" by (simp add: content_digest_def)
  show "fingerprint_text forged_body \<noteq> fingerprint_text real_attachment"
    by (simp add: fingerprint_text_def Let_def v d nul_join_def)
      (simp add: idv_def forged_body_def real_attachment_def zero_message_def d)
qed

end
