(* ===== verification/ExportDecide.thy ===== *)
theory ExportDecide
  imports Message Sweep LedgerLoad
begin

text \<open>
  What a capture is and what to do with it (\<^verbatim>\<open>internal/export/exporter.go\<close>): the gap labels a
  message brings, the probe that says whether a re-read improved, the KEEP guard, the place of a message
  among the records of its identity, and the decision to skip or to capture.  The exporter's state holds
  the manifest, the run's counters and findings, the calls it made back, and the files of the archive by
  their slash-separated path under the output folder.
\<close>

datatype mode = Incremental | Full

record stats =
  s_exported :: int
  s_skipped_manifest :: int
  s_skipped_date :: int
  s_attachments :: int
  s_attachments_inline :: int
  s_attachments_empty :: int
  s_attachment_errors :: int
  s_unresolved :: int
  s_html_fallback :: int
  s_non_html :: int
  s_no_body :: int
  s_raw_written :: int
  s_raw_available :: int
  s_retried :: int
  s_filled :: int
  s_still_incomplete :: int
  s_resolved :: int
  s_unreadable :: int
  s_unparsed :: int
  s_kept :: int
  s_export_panics :: int
  s_export_faults :: int

record issue =
  is_folder :: string
  is_subject :: string
  is_path :: string
  is_date :: gotime
  is_kind :: string
  is_detail :: string

text \<open>A manifest skip the live path records (\<^verbatim>\<open>OnManifestSkip\<close>), and an indexed write.\<close>

datatype callback = On_skip string "string list" bool | On_exported string string

record exporter =
  ex_manifest :: manifest
  ex_mode :: mode
  ex_since :: gotime
  ex_keep_raw :: bool
  ex_source_complete :: bool
  ex_dedup :: bool
  ex_run_at :: gotime
  ex_gap_run_at :: gotime
  ex_stats :: stats
  ex_issues :: "issue list"
  ex_reuse_logged :: "(string, bool) gomap"
  ex_calls :: "callback list"
  ex_files :: "(string, string) gomap"

text \<open>
  What the code calls outside the model: the Unicode tables, the host's separators, the clock, the page
  renderer of \<^verbatim>\<open>html.go\<close>, the zip encoding and the outcome of each file operation.
\<close>

record render_context =
  rc_root_rel :: string
  rc_folder_index_rel :: string
  rc_zip_name :: string
  rc_raw_name :: string
  rc_store :: string
  rc_folder :: string

record render_result =
  rr_html :: string
  rr_consumed :: "nat list"
  rr_unresolved :: "string list"
  rr_fallback :: string

datatype zip_fault = Zip_fine | Zip_no_temp | Zip_entry nat | Zip_close

record world =
  wd_sep :: char
  wd_is_sep :: "char \<Rightarrow> bool"
  wd_is_abs :: "string \<Rightarrow> bool"
  wd_nfc :: "string \<Rightarrow> string"
  wd_letter :: "nat \<Rightarrow> bool"
  wd_now :: gotime
  wd_render :: "message \<Rightarrow> render_context \<Rightarrow> render_result option"
  wd_zip :: "(string \<times> string) list \<Rightarrow> string"
  wd_mkdir_ok :: "string \<Rightarrow> bool"
  wd_write_ok :: "string \<Rightarrow> bool"
  wd_zip_fault :: "string \<Rightarrow> zip_fault"

abbreviation with_manifest :: "(manifest \<Rightarrow> 'r \<times> manifest) \<Rightarrow> exporter \<Rightarrow> exporter" where
  "with_manifest f ex \<equiv> ex\<lparr>ex_manifest := snd (f (ex_manifest ex))\<rparr>"

abbreviation counted :: "(stats \<Rightarrow> stats) \<Rightarrow> exporter \<Rightarrow> exporter" where
  "counted f ex \<equiv> ex\<lparr>ex_stats := f (ex_stats ex)\<rparr>"

definition ex_get :: "exporter \<Rightarrow> string \<Rightarrow> mrec option" where
  "ex_get ex key = mget (m_entries (ex_manifest ex)) key"

definition run_stamp :: "world \<Rightarrow> exporter \<Rightarrow> gotime \<times> exporter" where
  "run_stamp w ex =
     (if ex_run_at ex \<noteq> zero_time then (ex_run_at ex, ex)
      else let ex = (if ex_gap_run_at ex = zero_time then ex\<lparr>ex_gap_run_at := wd_now w\<rparr> else ex)
           in (ex_gap_run_at ex, ex))"

definition m_observe_gap :: "char \<Rightarrow> capture_gap \<Rightarrow> gotime \<Rightarrow> manifest \<Rightarrow> (string \<times> bool) \<times> manifest" where
  "m_observe_gap sep g run_at m = (case observe_gap sep g run_at (m_capture_gaps m) of
     (res, gaps) \<Rightarrow> (res, m\<lparr>m_capture_gaps := gaps\<rparr>))"

subsection \<open>What a capture could not deliver\<close>

definition has_body :: "message \<Rightarrow> bool" where
  "has_body m \<longleftrightarrow> trim_space (ms_html m) \<noteq> [] \<or> trim_space (ms_plain m) \<noteq> [] \<or> trim_space (ms_rtf m) \<noteq> []"

definition rest_kept_unread :: "message \<Rightarrow> bool" where
  "rest_kept_unread m \<longleftrightarrow> list_ex (\<lambda>a. at_gap_kind a = gap_kind_structure_limit) (ms_attachments m)"

definition has_archivable :: "attachment list \<Rightarrow> nat list \<Rightarrow> bool" where
  "has_archivable atts consumed \<longleftrightarrow> list_ex (\<lambda>i. i \<notin> set consumed) [0..<length atts]"

definition append_unique :: "string list \<Rightarrow> string \<Rightarrow> string list" where
  "append_unique xs s = (if list_ex (\<lambda>x. x = s) xs then xs else xs @ [s])"

definition file_gap :: "bool \<Rightarrow> string \<Rightarrow> mrec \<Rightarrow> mrec" where
  "file_gap source_complete label r =
     (let class = (if gap_class label = [] \<and> source_complete then class_terminal else gap_class label)
      in if class = class_fillable \<or> class = [] then r\<lparr>r_missing := append_unique (r_missing r) label\<rparr>
         else r\<lparr>r_terminal := append_unique (r_terminal r) label\<rparr>)"

definition max_parse_gap_labels :: nat where "max_parse_gap_labels = 32"

definition em_dash :: string where
  "em_dash = '' '' @ [CHR 0xE2, CHR 0x80, CHR 0x94] @ '' ''"

definition parse_gap_labels :: "world \<Rightarrow> message \<Rightarrow> string list" where
  "parse_gap_labels w m =
     (let named = map (\<lambda>(k, d). parse_gap_label k d) (ms_parse_gaps m);
          parts = map (\<lambda>(i, a). parse_gap_label (at_gap_kind a)
                     (sanitize_filename (wd_nfc w) (wd_is_sep w) (at_filename a) (int i) @ em_dash @ at_gap_detail a))
                    (filter (\<lambda>(i, a). at_gap_kind a \<noteq> []) (enumerate 0 (ms_attachments m)));
          all = named @ parts
      in if length all \<le> max_parse_gap_labels then all
         else take max_parse_gap_labels all
                @ [parse_gap_label gap_kind_structure_limit
                     (''and '' @ fmt_d (int (length all - max_parse_gap_labels)) @ '' more undecodable parts'')])"

definition parse_gap_named :: "message \<Rightarrow> string \<Rightarrow> bool" where
  "parse_gap_named m name \<longleftrightarrow>
     list_ex (\<lambda>(i, a). at_gap_kind a \<noteq> [] \<and> attachment_label a i = name) (enumerate 0 (ms_attachments m))"

definition has_parse_gap_kind :: "message \<Rightarrow> string \<Rightarrow> bool" where
  "has_parse_gap_kind m kind \<longleftrightarrow> list_ex (\<lambda>(k, d). k = kind) (ms_parse_gaps m)"

definition has_read_gap :: "message \<Rightarrow> string \<Rightarrow> bool" where
  "has_read_gap m label \<longleftrightarrow> list_ex (\<lambda>l. l = label) (ms_read_gaps m)"

definition count_read_gaps :: "message \<Rightarrow> exporter \<Rightarrow> exporter" where
  "count_read_gaps m ex =
     counted (\<lambda>s. s\<lparr>s_unreadable := s_unreadable s + (if list_ex is_unreadable_label (ms_read_gaps m) then 1 else 0),
       s_unparsed := s_unparsed s + (if list_ex (\<lambda>l. l = label_unparsed) (ms_read_gaps m) then 1 else 0)\<rparr>) ex"

definition attachment_bytes :: "attachment \<Rightarrow> nat" where
  "attachment_bytes a = (case at_write_to a of None \<Rightarrow> 0 | Some (bytes, ok) \<Rightarrow> if ok then length bytes else 0)"

definition improves :: "world \<Rightarrow> message \<Rightarrow> string \<Rightarrow> bool" where
  "improves w m item \<longleftrightarrow>
     (if is_parse_gap_label item then \<not> list_ex (\<lambda>l. l = item) (parse_gap_labels w m)
      else if is_unreadable_label item \<or> item = label_unparsed then \<not> has_read_gap m item
      else if item = unknown_sentinel then True
      else if item = missing_body then has_body m \<or> rest_kept_unread m
      else list_ex (\<lambda>(i, a). attachment_label a i = item \<and> 0 < attachment_bytes a) (enumerate 0 (ms_attachments m))
           \<or> list_ex (\<lambda>v. v1_label v = item \<and> 0 < v1_size v) (ms_v1_inventory m))"

definition probe_improves :: "world \<Rightarrow> message \<Rightarrow> string list \<Rightarrow> bool" where
  "probe_improves w m old_missing \<longleftrightarrow> list_ex (improves w m) old_missing"

definition retry_labels :: "mrec \<Rightarrow> bool \<Rightarrow> string list" where
  "retry_labels prev stale = (if \<not> stale then r_missing prev else r_missing prev @ [label_unparsed])"

definition examined_by :: "message \<Rightarrow> mrec \<Rightarrow> bool" where
  "examined_by m prev \<longleftrightarrow> list_all (\<lambda>(code, since, detail). since \<le> r_parse_scheme prev) (ms_parse_notes m)"

definition same_fingerprint :: "mrec \<Rightarrow> message \<Rightarrow> string \<Rightarrow> bool" where
  "same_fingerprint prev m fp \<longleftrightarrow> r_fingerprint prev = fp
     \<or> rec_has_labels prev [label_unreadable_attachments] \<and> r_fingerprint prev = fingerprint_no_attachments m"

subsection \<open>Observing an archived message\<close>

definition fp_scheme_current :: int where "fp_scheme_current = 1"
definition parse_scheme_current :: int where "parse_scheme_current = 2"
definition parser_gen_current :: int where "parser_gen_current = parse_scheme_current"

definition observe_archived :: "world \<Rightarrow> string \<Rightarrow> mrec \<Rightarrow> string \<Rightarrow> string list \<Rightarrow> exporter \<Rightarrow> exporter" where
  "observe_archived w key prev fk folder_path ex =
     (let moved = (r_folder prev \<noteq> fk \<or> \<not> r_present prev);
          seen_at = (if ex_run_at ex = zero_time then wd_now w else ex_run_at ex);
          ex = with_manifest (merge_fields key fk seen_at True) ex
      in ex\<lparr>ex_calls := ex_calls ex @ [On_skip key folder_path moved]\<rparr>)"

definition raw_digest :: "string \<Rightarrow> string" where
  "raw_digest raw = hex_encode (sha256 raw)"

definition supersede_after :: "string \<Rightarrow> string \<Rightarrow> message \<Rightarrow> exporter \<Rightarrow> exporter" where
  "supersede_after store key m ex =
     (if length (ms_read_gaps m) \<noteq> 0 then ex
      else let ex = (if ms_locator m \<noteq> [] then with_manifest (supersede_partial store (ms_locator m) key) ex else ex)
      in if ms_raw m = [] then ex
         else case has_unparsed_stubs (ex_manifest ex) of (has, man) \<Rightarrow>
           let ex = ex\<lparr>ex_manifest := man\<rparr>
           in if has then with_manifest (supersede_unparsed store (raw_digest (ms_raw m)) key) ex else ex)"

definition archived_record_for :: "string \<Rightarrow> message \<Rightarrow> string \<Rightarrow> exporter \<Rightarrow> (string \<times> mrec option) \<times> exporter" where
  "archived_record_for store m base_key ex =
     (if ex_dedup ex \<and> ms_phys_id m \<noteq> []
      then case keys_for_identity (identity m) (ex_manifest ex) of (sibs, man) \<Rightarrow>
        let ex = ex\<lparr>ex_manifest := man\<rparr>
        in case find (\<lambda>s. has_prefix (ir_key s) (store @ key_separator)
                  \<and> has_phys_id (ir_key s) (ms_phys_id m) man \<and> ex_get ex (ir_key s) \<noteq> None) sibs of
             Some s \<Rightarrow> ((ir_key s, ex_get ex (ir_key s)), ex)
           | None \<Rightarrow> ((base_key, ex_get ex base_key), ex)
      else ((base_key, ex_get ex base_key), ex))"

definition join_labels :: "string list \<Rightarrow> string" where
  "join_labels ls = (case ls of [] \<Rightarrow> [] | l # r \<Rightarrow> l @ concat (map (\<lambda>x. '', '' @ x) r))"

definition kept_gap :: "string \<Rightarrow> string \<Rightarrow> message \<Rightarrow> exporter \<Rightarrow> capture_gap" where
  "kept_gap store fk m ex =
     \<lparr>g_token = store, g_folder = fk, g_scope = gap_scope_item,
       g_locator = (if ex_dedup ex \<and> ms_phys_id m \<noteq> [] then bound_locator (''graph:'' @ ms_phys_id m)
                    else ''ident:'' @ identity m),
       g_reason = ''refresh-failed'', g_class = class_info, g_subject = ms_subject m,
       g_received = (if message_date m = zero_time then [] else format_rfc3339 (message_date m)),
       g_detail = ''a newer read of this item was only partly readable ('' @ join_labels (ms_read_gaps m)
         @ ''); the archived copy was kept unchanged''
         @ (if ms_read_error m \<noteq> [] then '': '' @ ms_read_error m else []),
       g_skipped = 0, g_defers_gone = False, g_first_run = zero_time, g_last_run = zero_time, g_runs = 0\<rparr>"

definition observe_kept :: "world \<Rightarrow> string \<Rightarrow> string \<Rightarrow> message \<Rightarrow> exporter \<Rightarrow> exporter" where
  "observe_kept w store fk m ex = (case run_stamp w ex of (at, ex') \<Rightarrow>
     with_manifest (m_observe_gap (wd_sep w) (kept_gap store fk m ex) at) ex')"

definition touch_siblings :: "string \<Rightarrow> string \<Rightarrow> gotime \<Rightarrow> ident_ref list \<Rightarrow> manifest \<Rightarrow> manifest" where
  "touch_siblings store key seen_at sibs m =
     fold (\<lambda>s m. if ir_key s \<noteq> key \<and> has_prefix (ir_key s) (store @ key_separator)
                 then snd (touch_seen (ir_key s) seen_at m) else m) sibs m"

definition stamp_kept :: "string \<Rightarrow> string \<Rightarrow> string list \<Rightarrow> message \<Rightarrow> string \<Rightarrow> mrec \<Rightarrow> gotime \<Rightarrow> exporter \<Rightarrow> exporter" where
  "stamp_kept store fk folder_path m prev_key prev seen_at ex =
     (if ex_dedup ex
      then let exact = (ms_phys_id m \<noteq> [] \<and> has_phys_id prev_key (ms_phys_id m) (ex_manifest ex));
               moved = (r_folder prev \<noteq> fk \<or> \<not> r_present prev);
               ex = with_manifest (merge_fields prev_key fk seen_at True) ex;
               ex = (if exact then ex
                     else case keys_for_identity (identity m) (ex_manifest ex) of (sibs, man) \<Rightarrow>
                       ex\<lparr>ex_manifest := touch_siblings store prev_key seen_at sibs man\<rparr>)
           in ex\<lparr>ex_calls := ex_calls ex @ [On_skip prev_key folder_path moved]\<rparr>
      else with_manifest (touch_seen prev_key seen_at) ex)"

definition keep_degraded :: "world \<Rightarrow> string \<Rightarrow> string \<Rightarrow> string list \<Rightarrow> message \<Rightarrow> string \<Rightarrow> exporter \<Rightarrow> bool \<times> exporter" where
  "keep_degraded w store fk folder_path m base_key ex =
     (case archived_record_for store m base_key ex of ((prev_key, found), ex) \<Rightarrow>
       case found of
         None \<Rightarrow> (False, ex)
       | Some prev \<Rightarrow>
           if rec_has_labels prev (ms_read_gaps m) \<or> is_legacy_placeholder prev then (False, ex)
           else case run_stamp w ex of (seen_at, ex) \<Rightarrow>
             let ex = stamp_kept store fk folder_path m prev_key prev seen_at ex;
                 ex = counted (\<lambda>s. s\<lparr>s_kept := s_kept s + 1\<rparr>) ex
             in (True, observe_kept w store fk m ex))"

definition note_id_reuse :: "string \<Rightarrow> nat \<Rightarrow> exporter \<Rightarrow> exporter" where
  "note_id_reuse i distinct_count ex =
     (if distinct_count \<le> 1 \<or> mget (ex_reuse_logged ex) i = Some True then ex
      else ex\<lparr>ex_reuse_logged := mput i True (ex_reuse_logged ex),
              ex_issues := ex_issues ex @ [\<lparr>is_folder = [], is_subject = [], is_path = [], is_date = zero_time,
                 is_kind = ''id-reuse'', is_detail = i\<rparr>]\<rparr>)"

subsection \<open>The place of a message among the records of its identity\<close>

text \<open>The loops that qualify a key until its slot is free or this message's own.\<close>

abbreviation longest :: "string list \<Rightarrow> nat" where
  "longest keys \<equiv> Max (insert 0 (length ` set keys))"

function requalify :: "string list \<Rightarrow> (string \<Rightarrow> bool) \<Rightarrow> string \<Rightarrow> string \<Rightarrow> string" where
  "requalify keys other tag key =
     (if key \<in> set keys \<and> other key then requalify keys other tag (qualify key tag) else key)"
  by pat_completeness auto
termination
proof (relation "measure (\<lambda>(keys, _, _, key). Suc (longest keys) - length key)")
  fix keys and other :: "string \<Rightarrow> bool" and tag key :: string
  assume "key \<in> set keys \<and> other key"
  then have "length key \<le> longest keys" by (intro Max_ge) auto
  then show "((keys, other, tag, qualify key tag), keys, other, tag, key)
      \<in> measure (\<lambda>(keys, _, _, key). Suc (longest keys) - length key)"
    by (simp add: qualify_def key_separator_def)
qed simp

declare requalify.simps [simp del]

definition place_by_phys_id :: "string \<Rightarrow> message \<Rightarrow> manifest \<Rightarrow> string option \<times> manifest" where
  "place_by_phys_id store m man =
     (let ch = content_digest m; base = live_key store (identity m); phys = ms_phys_id m
      in if ch = [] then (None, man)
         else case keys_for_identity (identity m) man of (sibs, man) \<Rightarrow>
           let keys = filter (\<lambda>k. has_prefix k (store @ key_separator) \<and> mhas (m_entries man) k) (map ir_key sibs);
               hash = (\<lambda>k. case mget (m_entries man) k of None \<Rightarrow> [] | Some r \<Rightarrow> r_content_hash r)
           in case find (\<lambda>k. has_phys_id k phys man) keys of
                Some k \<Rightarrow> (Some k, man)
              | None \<Rightarrow>
                  if list_ex (\<lambda>k. hash k = []) keys then (None, man)
                  else case find (\<lambda>k. hash k = ch) keys of
                    Some k \<Rightarrow> (Some k, snd (add_phys_id k phys man))
                  | None \<Rightarrow>
                      if \<not> mhas (m_entries man) base then (Some base, man)
                      else (Some (requalify (mkeys (m_entries man)) (\<lambda>k. \<not> has_phys_id k phys man)
                                   (hash_hex phys 8) (qualify base (hash_hex phys 8))), man))"

text \<open>A record under the key that says the message is another one: the split is by fingerprint.\<close>

definition splits_off :: "bool \<Rightarrow> bool \<Rightarrow> message \<Rightarrow> string \<Rightarrow> mrec \<Rightarrow> bool" where
  "splits_off dedup multi m fp prev \<longleftrightarrow>
     r_fingerprint prev \<noteq> [] \<and> \<not> same_fingerprint prev m fp \<and> \<not> rec_has_labels prev [label_unparsed]
     \<and> \<not> (dedup \<and> r_fp_scheme prev \<noteq> fp_scheme_current \<and> \<not> multi)"

definition base_key :: "string \<Rightarrow> string \<Rightarrow> message \<Rightarrow> exporter \<Rightarrow> string" where
  "base_key store fk m ex =
     (if ex_dedup ex then live_key store (identity m) else folder_key store fk (identity m))"

definition place :: "string \<Rightarrow> string \<Rightarrow> message \<Rightarrow> exporter \<Rightarrow> string \<times> exporter" where
  "place store fk m ex =
     (let fp = fingerprint m; key = base_key store fk m ex;
          (count, man) = (if ex_dedup ex then same_store_identity_count store (identity m) (ex_manifest ex)
                          else (0, ex_manifest ex));
          (placed, man) = (if ex_dedup ex \<and> has_prefix (identity m) ''mid:'' \<and> ms_phys_id m \<noteq> []
                           then place_by_phys_id store m man else (None, man));
          ex = ex\<lparr>ex_manifest := man\<rparr>
      in case placed of
           Some k \<Rightarrow> (k, ex)
         | None \<Rightarrow>
             if ms_read_gaps m \<noteq> [] then (key, ex)
             else (requalify (mkeys (m_entries man))
                    (\<lambda>k. case mget (m_entries man) k of None \<Rightarrow> False
                       | Some prev \<Rightarrow> splits_off (ex_dedup ex) (1 < count) m fp prev) fp key, ex))"

subsection \<open>Skip or capture\<close>

datatype decision = Skip_archived | Skip_incomplete bool | Skip_date | Capture bool

definition decide :: "world \<Rightarrow> mode \<Rightarrow> gotime \<Rightarrow> mrec option \<Rightarrow> message \<Rightarrow> decision" where
  "decide w md since found m =
     (let date = message_date m;
          by_date = (if since \<noteq> zero_time \<and> date \<noteq> zero_time \<and> date < since then Skip_date else Capture False)
      in case found of
           None \<Rightarrow> by_date
         | Some prev \<Rightarrow>
             if md = Full then by_date
             else let stale = stale_unparsed prev parser_gen_current;
                      replaces = is_legacy_placeholder prev \<and> has_read_gap m label_unparsed
                  in if \<not> fillable prev \<and> \<not> stale \<and> \<not> replaces then Skip_archived
                     else if \<not> replaces \<and> \<not> probe_improves w m (retry_labels prev stale) then Skip_incomplete stale
                     else Capture True)"

definition stamp_examined :: "string \<Rightarrow> message \<Rightarrow> mrec \<Rightarrow> exporter \<Rightarrow> exporter" where
  "stamp_examined key m prev ex =
     (if examined_by m prev then with_manifest (stamp_parse_scheme key parse_scheme_current) ex else ex)"

definition skip_archived ::
  "world \<Rightarrow> string \<Rightarrow> string \<Rightarrow> string list \<Rightarrow> message \<Rightarrow> string \<Rightarrow> mrec \<Rightarrow> exporter \<Rightarrow> exporter" where
  "skip_archived w store fk folder_path m key prev ex =
     (let ex = (if ex_dedup ex then observe_archived w key prev fk folder_path ex else ex);
          ex = stamp_examined key m prev ex;
          ex = count_read_gaps m (supersede_after store key m ex)
      in counted (\<lambda>s. s\<lparr>s_skipped_manifest := s_skipped_manifest s + 1\<rparr>) ex)"

definition skip_incomplete :: "message \<Rightarrow> string \<Rightarrow> mrec \<Rightarrow> bool \<Rightarrow> exporter \<Rightarrow> exporter" where
  "skip_incomplete m key prev stale ex =
     (let ex = counted (\<lambda>s. s\<lparr>s_retried := s_retried s + 1, s_still_incomplete := s_still_incomplete s + 1\<rparr>) ex;
          ex = count_read_gaps m (stamp_examined key m prev ex);
          ex = with_manifest (set_locator key (ms_locator m)) ex
      in if stale then with_manifest (stamp_parser_gen key parser_gen_current) ex else ex)"

definition skip_date ::
  "world \<Rightarrow> string \<Rightarrow> string list \<Rightarrow> string \<Rightarrow> mrec option \<Rightarrow> exporter \<Rightarrow> exporter" where
  "skip_date w fk folder_path key found ex =
     (let ex = (case found of
                  Some prev \<Rightarrow> if ex_dedup ex then observe_archived w key prev fk folder_path ex else ex
                | None \<Rightarrow> ex)
      in counted (\<lambda>s. s\<lparr>s_skipped_date := s_skipped_date s + 1\<rparr>) ex)"

end
