(* ===== verification/Exporter.thy ===== *)
theory Exporter
  imports ExportDecide
begin

text \<open>
  The capture of one message into a plaintext archive (\<^verbatim>\<open>Export\<close> of
  \<^verbatim>\<open>internal/export/exporter.go\<close>, \<^verbatim>\<open>attach.go\<close>, \<^verbatim>\<open>atomic.go\<close>): the file stem,
  the attachment zip, the record it leaves and the order in which files and record change.  A write
  replaces a whole file or fails and changes nothing.  The archive's folders are named by segments, so a
  path under the output folder is its cleaned slash-joined parts.
\<close>

subsection \<open>Paths and files\<close>

definition rel_path :: "string list \<Rightarrow> string" where
  "rel_path parts = go_clean (join CHR ''/'' (filter (\<lambda>p. p \<noteq> []) parts))"

definition slug_max :: nat where "slug_max = 60"
definition rel_path_budget :: nat where "rel_path_budget = 200"
definition zip_suffix :: string where "zip_suffix = ''-attachments.zip''"

definition subject_slug :: "world \<Rightarrow> string \<Rightarrow> nat \<Rightarrow> string" where
  "subject_slug w subject n = (if n = 0 then [] else slug (wd_nfc w) (wd_letter w) subject n)"

text \<open>The layout \<^verbatim>\<open>2006-01-02_1504\<close>.\<close>

definition stem_time :: "gotime \<Rightarrow> string" where
  "stem_time t = (if t = zero_time then ''0000-00-00_0000''
     else let s = t mod day_ns div second_ns in format_date t @ ''_'' @ pad 2 (s div 3600) @ pad 2 (s div 60 mod 60))"

definition base_name_n :: "gotime \<Rightarrow> string \<Rightarrow> string \<Rightarrow> nat \<Rightarrow> string" where
  "base_name_n date slg key n =
     (if slg = [] then stem_time date @ ''_'' @ hash_hex key n
      else stem_time date @ ''_'' @ slg @ ''_'' @ hash_hex key n)"

definition stem_slug :: "world \<Rightarrow> string list \<Rightarrow> gotime \<Rightarrow> string \<Rightarrow> string \<Rightarrow> nat" where
  "stem_slug w dir date subject key =
     (let fits = (\<lambda>n. Suc (length (rel_path (dir @ [base_name_n date (subject_slug w subject n) key 8 @ ''.html''])))
                       \<le> rel_path_budget)
      in if fits slug_max then slug_max else if fits 24 then 24 else 0)"

fun stem_loop :: "(nat \<Rightarrow> string) \<Rightarrow> string list \<Rightarrow> string \<Rightarrow> nat list \<Rightarrow> manifest \<Rightarrow> (string \<times> string) \<times> manifest" where
  "stem_loop name dir key [] man = (([], []), man)"
| "stem_loop name dir key (n # ns) man =
     (let rel = rel_path (dir @ [name n @ ''.html'']); (own, man) = key_for_path rel man
      in if own = None \<or> own = Some key \<or> ns = [] then ((name n, rel), man)
         else stem_loop name dir key ns man)"

definition stem_for ::
  "world \<Rightarrow> string list \<Rightarrow> gotime \<Rightarrow> string \<Rightarrow> string \<Rightarrow> manifest \<Rightarrow> (string \<times> string) \<times> manifest" where
  "stem_for w dir date subject key man =
     (let slg = subject_slug w subject (stem_slug w dir date subject key)
      in stem_loop (base_name_n date slg key) dir key [8, 12, 16, 24, 40] man)"

definition write_digest :: "world \<Rightarrow> string \<Rightarrow> string \<Rightarrow> exporter \<Rightarrow> file_digest option \<times> exporter" where
  "write_digest w path data ex =
     (if wd_write_ok w path
      then (Some \<lparr>fd_sha256 = hex_encode (sha256 data), fd_size = int (length data)\<rparr>,
            ex\<lparr>ex_files := mput path data (ex_files ex)\<rparr>)
      else (None, ex))"

definition remove_file :: "string \<Rightarrow> exporter \<Rightarrow> exporter" where
  "remove_file path ex = ex\<lparr>ex_files := mdel path (ex_files ex)\<rparr>"

definition carried_original :: "string \<Rightarrow> string \<Rightarrow> mrec \<Rightarrow> exporter \<Rightarrow> file_digest option \<times> bool" where
  "carried_original eml rel prev ex =
     (if r_path prev = [] \<or> r_path prev \<noteq> rel then (None, False)
      else if \<not> mhas (ex_files ex) eml then (None, False)
      else case r_fixity prev of
             Some f \<Rightarrow> (case fx_eml f of Some d \<Rightarrow> (Some d, True) | None \<Rightarrow> (None, True))
           | None \<Rightarrow> (None, True))"

subsection \<open>The attachment zip\<close>

record zip_result =
  zr_written :: int
  zr_empty :: "string list"
  zr_failed :: "string list"
  zr_digest :: "file_digest option"

definition zip_last_dot :: "string \<Rightarrow> nat option" where
  "zip_last_dot s = (let r = takeWhile (\<lambda>c. c \<noteq> CHR ''.'' \<and> c \<noteq> CHR ''/'' \<and> c \<noteq> CHR 0x5C) (rev s)
     in if length r < length s \<and> s ! (length s - 1 - length r) = CHR ''.'' then Some (length s - 1 - length r) else None)"

definition name_parts :: "string \<Rightarrow> string \<times> string" where
  "name_parts name = (case zip_last_dot name of
     Some d \<Rightarrow> if 0 < d then (take d name, drop d name) else (name, [])
   | None \<Rightarrow> (name, []))"

definition candidate :: "string \<Rightarrow> nat \<Rightarrow> string" where
  "candidate name n = (let (base, ext) = name_parts name in base @ '' ('' @ fmt_d (int n) @ '')'' @ ext)"

lemma candidate_inj: "candidate name n = candidate name k \<Longrightarrow> n = k"
  by (auto simp: candidate_def Let_def dest: fmt_d_inj split: prod.splits)

text \<open>The candidate loop: \<^verbatim>\<open>used[name]\<close> counts up until the candidate is free.\<close>

function free_name :: "string \<Rightarrow> (string, nat) gomap \<Rightarrow> nat \<Rightarrow> nat" where
  "free_name name used n = (if mhas used (candidate name n) then free_name name used (Suc n) else n)"
  by pat_completeness auto
termination
proof (relation "measure (\<lambda>(name, used, n). card {k. n \<le> k \<and> candidate name k \<in> set (mkeys used)})")
  fix name n and used :: "(string, nat) gomap"
  let ?S = "\<lambda>n. {k. n \<le> k \<and> candidate name k \<in> set (mkeys used)}"
  assume h: "mhas used (candidate name n)"
  have "finite (candidate name ` ?S n)" by (rule finite_subset [of _ "set (mkeys used)"]) auto
  moreover have "inj_on (candidate name) (?S n)" by (rule inj_onI) (auto dest: candidate_inj)
  ultimately have "finite (?S n)" by (rule finite_imageD)
  moreover have "?S (Suc n) \<subset> ?S n"
  proof (rule psubsetI)
    have "n \<in> ?S n" using h by (simp add: mget_mhas)
    moreover have "n \<notin> ?S (Suc n)" by simp
    ultimately show "?S (Suc n) \<noteq> ?S n" by blast
  qed auto
  ultimately show "((name, used, Suc n), name, used, n)
      \<in> measure (\<lambda>(name, used, n). card {k. n \<le> k \<and> candidate name k \<in> set (mkeys used)})"
    by (simp add: psubset_card_mono)
qed simp

declare free_name.simps [simp del]

definition unique_name :: "string \<Rightarrow> (string, nat) gomap \<Rightarrow> string \<times> (string, nat) gomap" where
  "unique_name name used = (case mget used name of
     None \<Rightarrow> (name, mput name 1 used)
   | Some n \<Rightarrow>
       let k = free_name name used n; c = candidate name k
       in (c, mput c 1 (mput name (Suc k) used)))"

record zip_state =
  zs_used :: "(string, nat) gomap"
  zs_entries :: "(string \<times> string) list"
  zs_result :: zip_result

definition zip_start :: zip_state where
  "zip_start = \<lparr>zs_used = [], zs_entries = [],
     zs_result = \<lparr>zr_written = 0, zr_empty = [], zr_failed = [], zr_digest = None\<rparr>\<rparr>"

text \<open>One attachment; \<open>None\<close> is the panic of a nil stream.\<close>

definition zip_attachment :: "world \<Rightarrow> nat \<Rightarrow> attachment \<Rightarrow> zip_state \<Rightarrow> zip_state option" where
  "zip_attachment w i a z = (case at_write_to a of
     None \<Rightarrow> None
   | Some (bytes, ok) \<Rightarrow> Some (let res = zs_result z in
       if \<not> ok then z\<lparr>zs_result := res\<lparr>zr_failed := zr_failed res @ [attachment_label a i]\<rparr>\<rparr>
       else if bytes = [] then z\<lparr>zs_result := res\<lparr>zr_empty := zr_empty res @ [attachment_label a i]\<rparr>\<rparr>
       else case unique_name (sanitize_filename (wd_nfc w) (wd_is_sep w) (at_filename a) (int i)) (zs_used z) of
         (name, used) \<Rightarrow> z\<lparr>zs_used := used, zs_entries := zs_entries z @ [(name, bytes)],
                            zs_result := res\<lparr>zr_written := zr_written res + 1\<rparr>\<rparr>))"

text \<open>The loop of \<^verbatim>\<open>fillZip\<close>; a fault at the n-th entry ends it there, with an error.\<close>

fun fill_zip :: "world \<Rightarrow> nat option \<Rightarrow> nat list \<Rightarrow> (nat \<times> attachment) list \<Rightarrow> zip_state \<Rightarrow> (zip_state \<times> bool) option" where
  "fill_zip w stop consumed [] z = Some (z, True)"
| "fill_zip w stop consumed ((i, a) # atts) z =
     (if i \<in> set consumed then fill_zip w stop consumed atts z
      else case zip_attachment w i a z of
        None \<Rightarrow> None
      | Some z' \<Rightarrow> if stop = Some (length (zs_entries z)) \<and> length (zs_entries z') \<noteq> length (zs_entries z)
                    then Some (z, False)
                    else fill_zip w stop consumed atts z')"

definition write_zip :: "world \<Rightarrow> string \<Rightarrow> attachment list \<Rightarrow> nat list \<Rightarrow> exporter \<Rightarrow> ((zip_result \<times> bool) \<times> exporter) option" where
  "write_zip w path atts consumed ex =
     (let fault = wd_zip_fault w path; stop = (case fault of Zip_entry n \<Rightarrow> Some n | _ \<Rightarrow> None)
      in if fault = Zip_no_temp then Some ((zs_result zip_start, False), ex)
         else case fill_zip w stop consumed (enumerate 0 atts) zip_start of
           None \<Rightarrow> None
         | Some (z, ok) \<Rightarrow>
             if \<not> ok \<or> fault = Zip_close then Some ((zs_result z, False), ex)
             else if zr_written (zs_result z) = 0 then Some ((zs_result z, True), remove_file path ex)
             else case write_digest w path (wd_zip w (zs_entries z)) ex of
                 (None, ex) \<Rightarrow> Some ((zs_result z, False), ex)
               | (Some d, ex) \<Rightarrow> Some (((zs_result z)\<lparr>zr_digest := Some d\<rparr>, True), ex))"

subsection \<open>The record of a capture\<close>

definition known_ids :: "string \<Rightarrow> mrec \<Rightarrow> string list" where
  "known_ids phys prev = snd (fold (\<lambda>i (have, out). if i = [] \<or> i \<in> set have then (have, out) else (i # have, out @ [i]))
     (r_phys_id prev # r_alt_phys_ids prev) ([phys], []))"

definition timeline_fields :: "gotime \<Rightarrow> string \<Rightarrow> message \<Rightarrow> mrec option \<Rightarrow> mrec \<Rightarrow> mrec" where
  "timeline_fields now fk m found r =
     (let phys = (case found of Some prev \<Rightarrow> if ms_phys_id m = [] then r_phys_id prev else ms_phys_id m
                  | None \<Rightarrow> ms_phys_id m);
          r = r\<lparr>r_present := True, r_last_seen := now, r_phys_id := phys,
                r_alt_phys_ids := (case found of Some prev \<Rightarrow> known_ids phys prev | None \<Rightarrow> [])\<rparr>;
          r = (case found of
                 Some prev \<Rightarrow> if r_first_seen prev \<noteq> zero_time
                   then r\<lparr>r_first_folder := r_first_folder prev, r_first_seen := r_first_seen prev\<rparr>
                   else r\<lparr>r_first_folder := fk, r_first_seen := now\<rparr>
               | None \<Rightarrow> r\<lparr>r_first_folder := fk, r_first_seen := now\<rparr>)
      in (case found of Some prev \<Rightarrow> r\<lparr>r_also_files := r_also_files prev\<rparr> | None \<Rightarrow> r))"

definition gap_record :: "world \<Rightarrow> bool \<Rightarrow> message \<Rightarrow> string list \<Rightarrow> mrec \<Rightarrow> mrec" where
  "gap_record w complete_source m gaps r =
     (let r = (if complete_source then r\<lparr>r_terminal := gaps\<rparr> else r\<lparr>r_missing := gaps\<rparr>);
          r = fold (file_gap complete_source) (ms_read_gaps m) r;
          r = fold (file_gap complete_source) (parse_gap_labels w m) r
      in if has_parse_gap_kind m gap_kind_fidelity_fallback then r\<lparr>r_fidelity_fallback := parse_scheme_current\<rparr> else r)"

definition stub_fields :: "message \<Rightarrow> mrec \<Rightarrow> mrec" where
  "stub_fields m r =
     (let r = (if has_unreadable r then r\<lparr>r_locator := ms_locator m\<rparr> else r);
          r = (if has_read_gap m label_unparsed
               then r\<lparr>r_parser_gen := parser_gen_current,
                      r_raw_digest := (if ms_raw m \<noteq> [] then raw_digest (ms_raw m) else r_raw_digest r)\<rparr>
               else r)
      in if has_issues r
         then r\<lparr>r_subject := ms_subject m,
                r_date := (if message_date m \<noteq> zero_time then format_rfc3339 (message_date m) else r_date r)\<rparr>
         else r)"

definition capture_record ::
  "world \<Rightarrow> exporter \<Rightarrow> string \<Rightarrow> string \<Rightarrow> message \<Rightarrow> string list \<Rightarrow> render_result \<Rightarrow> fixity \<Rightarrow> mrec option \<Rightarrow> mrec" where
  "capture_record w ex fk rel m gaps rr fx found =
     (let r = zero_rec\<lparr>r_path := rel, r_folder := fk, r_exported_at := wd_now w, r_unresolved := rr_unresolved rr,
                       r_body_fallback := rr_fallback rr\<rparr>;
          r = stub_fields m (gap_record w (ex_source_complete ex) m gaps r);
          r = r\<lparr>r_fingerprint := fingerprint m, r_fp_scheme := fp_scheme_current, r_parse_scheme := parse_scheme_current,
                r_content_hash := content_digest m, r_fixity := Some fx\<rparr>
      in if ex_dedup ex then timeline_fields (wd_now w) fk m found r else r)"

subsection \<open>The capture\<close>

datatype export_error = Unsafe_token | Folder_error string | Item_error string

datatype outcome = Wrote | Skipped | Refused export_error | Panicked

definition add_issue :: "string \<Rightarrow> message \<Rightarrow> string \<Rightarrow> string \<Rightarrow> string \<Rightarrow> exporter \<Rightarrow> exporter" where
  "add_issue fk m rel kind detail ex =
     (if 10000 \<le> length (ex_issues ex) then ex
      else ex\<lparr>ex_issues := ex_issues ex @ [\<lparr>is_folder = fk, is_subject = ms_subject m, is_path = rel,
             is_date = message_date m, is_kind = kind, is_detail = detail\<rparr>]\<rparr>)"

definition live_labels :: "attachment list \<Rightarrow> nat list \<Rightarrow> string list" where
  "live_labels atts consumed =
     map (\<lambda>(i, a). attachment_label a i) (filter (\<lambda>(i, a). i \<notin> set consumed) (enumerate 0 atts))"

text \<open>The attachments: the gaps they leave and the zip's fixity; \<open>None\<close> is a panic.\<close>

definition archive_attachments ::
  "world \<Rightarrow> string \<Rightarrow> message \<Rightarrow> string \<Rightarrow> string \<Rightarrow> nat list \<Rightarrow> exporter
     \<Rightarrow> ((string list \<times> file_digest option) \<times> exporter) option" where
  "archive_attachments w fk m rel zip_path consumed ex =
     (if \<not> has_archivable (ms_attachments m) consumed then Some (([], None), remove_file zip_path ex)
      else case write_zip w zip_path (ms_attachments m) consumed ex of
        None \<Rightarrow> None
      | Some ((zr, ok), ex) \<Rightarrow>
          let failed = zr_failed zr @ (if ok then [] else live_labels (ms_attachments m) consumed);
              empty = filter (\<lambda>n. \<not> parse_gap_named m n) (zr_empty zr);
              ex = counted (\<lambda>s. s\<lparr>s_attachments := s_attachments s + zr_written zr,
                     s_attachments_empty := s_attachments_empty s + int (length (zr_empty zr)),
                     s_attachment_errors := s_attachment_errors s + int (length failed)\<rparr>) ex;
              ex = fold (add_issue fk m rel ''empty-attachment'') empty ex;
              ex = fold (add_issue fk m rel ''attachment-error'') failed ex
          in Some ((empty @ failed, zr_digest zr), ex))"

definition remove_renamed :: "world \<Rightarrow> string \<Rightarrow> bool \<Rightarrow> mrec option \<Rightarrow> exporter \<Rightarrow> exporter" where
  "remove_renamed w rel write_raw found ex = (case found of
     None \<Rightarrow> ex
   | Some prev \<Rightarrow>
       if valid_recorded_path (wd_is_abs w) (r_path prev) \<noteq> None \<and> r_path prev \<noteq> rel
          \<and> \<not> (ex_dedup ex \<and> r_fp_scheme prev \<noteq> fp_scheme_current)
       then let stem = trim_suffix (r_path prev) ''.html'';
                ex = remove_file (stem @ zip_suffix) (remove_file (r_path prev) ex)
            in if write_raw then remove_file (stem @ ''.eml'') ex else ex
       else ex)"

definition count_capture :: "message \<Rightarrow> bool \<Rightarrow> exporter \<Rightarrow> exporter" where
  "count_capture m retry ex = counted (\<lambda>s. s\<lparr>
     s_no_body := s_no_body s + (if \<not> has_body m then 1 else 0),
     s_non_html := s_non_html s + (if has_body m \<and> trim_space (ms_html m) = [] then 1 else 0),
     s_filled := s_filled s + (if retry then 1 else 0),
     s_raw_available := s_raw_available s + (if ms_raw m \<noteq> [] then 1 else 0),
     s_exported := s_exported s + 1\<rparr>) ex"

definition commit_capture ::
  "world \<Rightarrow> string \<Rightarrow> message \<Rightarrow> bool \<Rightarrow> string \<Rightarrow> string \<Rightarrow> bool \<Rightarrow> mrec option \<Rightarrow> mrec \<Rightarrow> exporter \<Rightarrow> exporter" where
  "commit_capture w store m retry key rel write_raw found r ex =
     (let ex = ex\<lparr>ex_manifest := add key r (ex_manifest ex)\<rparr>;
          ex = supersede_after store key m (count_read_gaps m ex);
          ex = ex\<lparr>ex_calls := ex_calls ex @ [On_exported key rel]\<rparr>
      in count_capture m retry (remove_renamed w rel write_raw found ex))"

definition capture_rendered ::
  "world \<Rightarrow> string \<Rightarrow> string \<Rightarrow> message \<Rightarrow> bool \<Rightarrow> string \<Rightarrow> mrec option \<Rightarrow> string list \<Rightarrow> string \<Rightarrow> string
     \<Rightarrow> file_digest option \<Rightarrow> bool \<Rightarrow> render_result \<Rightarrow> exporter \<Rightarrow> outcome \<times> exporter" where
  "capture_rendered w store fk m retry key found dir base rel eml_digest write_raw rr ex =
     (let ex = counted (\<lambda>s. s\<lparr>s_attachments_inline := s_attachments_inline s
                 + int (length (remdups (rr_consumed rr)))\<rparr>) ex;
          body = (if \<not> has_body m \<and> \<not> rest_kept_unread m then [missing_body] else [])
      in case archive_attachments w fk m rel (rel_path (dir @ [base @ zip_suffix])) (rr_consumed rr) ex of
           None \<Rightarrow> (Panicked, ex)
         | Some ((gaps, zip_digest), ex) \<Rightarrow>
             (case write_digest w rel (rr_html rr) ex of
                (None, ex) \<Rightarrow> (Refused (Item_error rel), ex)
              | (Some html_digest, ex) \<Rightarrow>
                  let ex = counted (\<lambda>s. s\<lparr>s_unresolved := s_unresolved s + int (length (rr_unresolved rr)),
                             s_html_fallback := s_html_fallback s + (if rr_fallback rr \<noteq> [] then 1 else 0)\<rparr>) ex;
                      ex = fold (add_issue fk m rel ''unresolved-inline-image'') (rr_unresolved rr) ex;
                      ex = (if rr_fallback rr \<noteq> [] then add_issue fk m rel ''html-shown-as-source'' (rr_fallback rr) ex else ex);
                      fx = \<lparr>fx_html = Some html_digest, fx_zip = zip_digest, fx_eml = eml_digest\<rparr>;
                      r = capture_record w ex fk rel m (body @ gaps) rr fx found
                  in (Wrote, commit_capture w store m retry key rel write_raw found r ex)))"

definition page_context :: "string \<Rightarrow> string \<Rightarrow> string list \<Rightarrow> message \<Rightarrow> string \<Rightarrow> bool \<Rightarrow> render_context" where
  "page_context store fk write_path m base has_raw =
     \<lparr>rc_root_rel = concat (replicate (1 + length write_path) ''../''), rc_folder_index_rel = ''index.html'',
       rc_zip_name = (if has_archivable (ms_attachments m) [] then base @ zip_suffix else []),
       rc_raw_name = (if has_raw then base @ ''.eml'' else []), rc_store = store, rc_folder = fk\<rparr>"

definition write_path :: "exporter \<Rightarrow> string list \<Rightarrow> mrec option \<Rightarrow> string list" where
  "write_path ex folder_path found = (case found of
     Some prev \<Rightarrow> if ex_dedup ex \<and> r_first_folder prev \<noteq> [] then split_on CHR ''/'' (r_first_folder prev) else folder_path
   | None \<Rightarrow> folder_path)"

definition kept_original :: "bool \<Rightarrow> string \<Rightarrow> string \<Rightarrow> mrec option \<Rightarrow> exporter \<Rightarrow> file_digest option \<times> bool" where
  "kept_original write_raw eml rel found ex = (case found of
     Some prev \<Rightarrow> if \<not> write_raw then carried_original eml rel prev ex else (None, False)
   | None \<Rightarrow> (None, False))"

definition capture_at ::
  "world \<Rightarrow> string \<Rightarrow> string \<Rightarrow> string list \<Rightarrow> message \<Rightarrow> bool \<Rightarrow> string \<Rightarrow> mrec option \<Rightarrow> string \<Rightarrow> string
     \<Rightarrow> exporter \<Rightarrow> outcome \<times> exporter" where
  "capture_at w store fk wp m retry key found base rel ex =
     (let dir = store # wp; eml = rel_path (dir @ [base @ ''.eml'']);
          write_raw = (ex_keep_raw ex \<and> ms_raw m \<noteq> []);
          old = kept_original write_raw eml rel found ex
      in case wd_render w m (page_context store fk wp m base (write_raw \<or> snd old)) of
           None \<Rightarrow> (Refused (Item_error rel), ex)
         | Some rr \<Rightarrow>
             if \<not> write_raw
             then capture_rendered w store fk m retry key found dir base rel (fst old) False rr ex
             else case write_digest w eml (ms_raw m) ex of
               (None, ex) \<Rightarrow> (Refused (Item_error eml), ex)
             | (Some d, ex) \<Rightarrow>
                 capture_rendered w store fk m retry key found dir base rel (Some d) True rr
                   (counted (\<lambda>s. s\<lparr>s_raw_written := s_raw_written s + 1\<rparr>) ex))"

definition capture ::
  "world \<Rightarrow> string \<Rightarrow> string \<Rightarrow> string list \<Rightarrow> message \<Rightarrow> bool \<Rightarrow> string \<Rightarrow> mrec option \<Rightarrow> exporter \<Rightarrow> outcome \<times> exporter" where
  "capture w store fk folder_path m retry key found ex0 =
     (let ex = (if retry then counted (\<lambda>s. s\<lparr>s_retried := s_retried s + 1\<rparr>) ex0 else ex0);
          wp = write_path ex folder_path found; dir = store # wp
      in if \<not> safe_token (wd_sep w) store then (Refused Unsafe_token, ex)
         else if \<not> wd_mkdir_ok w (rel_path dir) then (Refused (Folder_error (rel_path dir)), ex)
         else case stem_for w dir (message_date m) (identity_subject m) key (ex_manifest ex) of
           ((base, rel), man) \<Rightarrow> capture_at w store fk wp m retry key found base rel (ex\<lparr>ex_manifest := man\<rparr>))"

definition export :: "world \<Rightarrow> string \<Rightarrow> string list \<Rightarrow> message \<Rightarrow> exporter \<Rightarrow> outcome \<times> exporter" where
  "export w store folder_path m ex =
     (let fk = join CHR ''/'' folder_path
      in case (if ms_read_gaps m = [] then (False, ex)
               else keep_degraded w store fk folder_path m (base_key store fk m ex) ex) of
           (True, ex) \<Rightarrow> (Skipped, ex)
         | (False, ex) \<Rightarrow>
             (case place store fk m ex of (key, ex) \<Rightarrow>
               (case (decide w (ex_mode ex) (ex_since ex) (ex_get ex key) m, ex_get ex key) of
                  (Skip_archived, Some prev) \<Rightarrow> (Skipped, skip_archived w store fk folder_path m key prev ex)
                | (Skip_incomplete stale, Some prev) \<Rightarrow> (Skipped, skip_incomplete m key prev stale ex)
                | (Capture retry, found) \<Rightarrow> capture w store fk folder_path m retry key found ex
                | (_, found) \<Rightarrow> (Skipped, skip_date w fk folder_path key found ex))))"

end
