(* ===== verification/ExporterProps.thy ===== *)
theory ExporterProps
  imports Exporter
begin

text \<open>
  The safety of the capture: what the export of one message may do to the records of the archive.
  Everything but the capture itself changes only what a record says about its message's whereabouts and
  gaps; the capture replaces a record only when that record is the same item.  What an operation may do
  to a record is a relation of the locale \<open>record_change\<close>, proved once for every operation and
  interpreted for the two relations the properties need.
\<close>

subsection \<open>A relation between the records of two manifests\<close>

definition keeps :: "(mrec \<Rightarrow> mrec \<Rightarrow> bool) \<Rightarrow> manifest \<Rightarrow> manifest \<Rightarrow> bool" where
  "keeps R m m' \<longleftrightarrow> (\<forall>k. rel_option R (mget (m_entries m) k) (mget (m_entries m') k))"

lemma keepsI: "(\<And>k. rel_option R (mget (m_entries m) k) (mget (m_entries m') k)) \<Longrightarrow> keeps R m m'"
  by (simp add: keeps_def)

lemma keeps_rel: "keeps R m m' \<Longrightarrow> rel_option R (mget (m_entries m) k) (mget (m_entries m') k)"
  by (simp add: keeps_def)

lemma keeps_get: "keeps R m m' \<Longrightarrow> mget (m_entries m) k = Some r \<Longrightarrow> \<exists>r'. mget (m_entries m') k = Some r' \<and> R r r'"
  using keeps_rel [of R m m' k] by (simp add: option_rel_Some1)

lemma keeps_none: "keeps R m m' \<Longrightarrow> mget (m_entries m') k = None \<longleftrightarrow> mget (m_entries m) k = None"
  using keeps_rel [of R m m' k] by (auto simp: rel_option_iff split: option.splits)

lemma keeps_back: "keeps R m m' \<Longrightarrow> mget (m_entries m') k = Some r' \<Longrightarrow> \<exists>r. mget (m_entries m) k = Some r \<and> R r r'"
  using keeps_rel [of R m m' k] by (simp add: option_rel_Some2)

lemma keeps_mono: "keeps R m m' \<Longrightarrow> (\<And>r r'. R r r' \<Longrightarrow> S r r') \<Longrightarrow> keeps S m m'"
  unfolding keeps_def by (metis option.rel_mono_strong)

text \<open>The fields that say which capture a record stands for.\<close>

definition same_capture :: "mrec \<Rightarrow> mrec \<Rightarrow> bool" where
  "same_capture r r' \<longleftrightarrow> r_path r' = r_path r \<and> r_exported_at r' = r_exported_at r
     \<and> r_fingerprint r' = r_fingerprint r \<and> r_fp_scheme r' = r_fp_scheme r \<and> r_content_hash r' = r_content_hash r
     \<and> r_fixity r' = r_fixity r \<and> r_first_folder r' = r_first_folder r \<and> r_first_seen r' = r_first_seen r
     \<and> r_also_files r' = r_also_files r \<and> r_unit r' = r_unit r \<and> r_sealed r' = r_sealed r"

subsection \<open>What every operation of the manifest must keep\<close>

text \<open>
  A relation between manifests every operation of the exporter moves along, when its stamps are not
  before a given time.  The exporter's and the walk's steps are proved once over it.
\<close>

locale manifest_change =
  fixes K :: "manifest \<Rightarrow> manifest \<Rightarrow> bool" and run :: gotime
  assumes refl_keeps: "K m m"
    and trans_keeps: "K a b \<Longrightarrow> K b c \<Longrightarrow> K a c"
    and merge_fields_keeps: "\<not> t < run \<Longrightarrow> K m (snd (merge_fields k f t True m))"
    and touch_seen_keeps: "\<not> t < run \<Longrightarrow> K m (snd (touch_seen k t m))"
    and scheme_keeps: "K m (snd (stamp_parse_scheme k s m))"
    and gen_keeps: "K m (snd (stamp_parser_gen k s m))"
    and set_locator_keeps: "K m (snd (set_locator k l m))"
    and add_phys_id_keeps: "K m (snd (add_phys_id k i m))"
    and ident_keeps: "K m (snd (keys_for_identity i m))"
    and index_keeps: "m_entries m' = m_entries m \<Longrightarrow> m_by_ident m' = m_by_ident m \<Longrightarrow> K m m'"
    and partial_commit_keeps: "K m (snd (supersede_partial_commit k n m))"
    and supersede_unparsed_keeps: "K m (snd (supersede_unparsed tok d n m))"
    and resolve_keeps: "K m (snd (resolve k m))"
    and adopt_keeps: "\<not> t < run \<Longrightarrow> K m (snd (adopt_legacy_graph_stubs tok phys rcv t (Some leg) m))"
begin

lemma lookup_keeps:
  "K m (snd (same_store_identity_count st i m))" "K m (snd (key_for_path p m))"
  "K m (snd (has_unparsed_stubs m))" "K m (snd (key_for_locator t l m))"
  using ident_keeps [of m i]
  by (auto simp: same_store_identity_count_def keys_for_identity_def key_for_path_def has_unparsed_stubs_def
      key_for_locator_def intro: index_keeps)

lemma observe_gap_keeps: "K m (snd (m_observe_gap sep g t m))"
  by (auto simp: m_observe_gap_def split: prod.split intro: index_keeps)

lemma supersede_partial_keeps: "K m (snd (supersede_partial t l n m))"
proof -
  obtain found m1 where k: "key_for_locator t l m = (found, m1)" by fastforce
  have "K m m1" using lookup_keeps(4) [of m t l] by (simp add: k)
  then show ?thesis
    by (auto simp: supersede_partial_def k split: option.split intro: trans_keeps partial_commit_keeps)
qed

subsection \<open>The exporter's steps but the capture\<close>

definition clock_ok :: "world \<Rightarrow> exporter \<Rightarrow> bool" where
  "clock_ok w ex \<longleftrightarrow> \<not> wd_now w < run
     \<and> (if ex_run_at ex = zero_time then ex_gap_run_at ex = zero_time \<or> \<not> ex_gap_run_at ex < run
        else \<not> ex_run_at ex < run)"

abbreviation ex_keeps :: "exporter \<Rightarrow> exporter \<Rightarrow> bool" where
  "ex_keeps ex ex' \<equiv> K (ex_manifest ex) (ex_manifest ex')"

lemma clock_manifest [simp]: "clock_ok w (ex\<lparr>ex_manifest := m\<rparr>) = clock_ok w ex"
  by (simp add: clock_ok_def)

lemma observe_archived_keeps: "clock_ok w ex \<Longrightarrow> ex_keeps ex (observe_archived w k prev fk fp ex)"
  by (auto simp: observe_archived_def Let_def clock_ok_def intro!: merge_fields_keeps)

lemma supersede_after_keeps: "ex_keeps ex (supersede_after store k m ex)"
proof (cases "length (ms_read_gaps m) \<noteq> 0")
  case False
  let ?m = "if ms_locator m \<noteq> [] then snd (supersede_partial store (ms_locator m) k (ex_manifest ex)) else ex_manifest ex"
  have a: "K (ex_manifest ex) ?m" by (simp add: refl_keeps supersede_partial_keeps)
  obtain has man where h: "has_unparsed_stubs ?m = (has, man)" by fastforce
  have b: "K (ex_manifest ex) man" using trans_keeps [OF a lookup_keeps(3) [of ?m]] by (simp add: h)
  have "ex_manifest (supersede_after store k m ex) =
      (if ms_raw m = [] then ?m else if has then snd (supersede_unparsed store (raw_digest (ms_raw m)) k man) else man)"
    using False h by (simp add: supersede_after_def Let_def split: if_splits prod.splits)
  then show ?thesis using a b trans_keeps [OF b supersede_unparsed_keeps] by simp
qed (simp add: supersede_after_def refl_keeps)

lemma archived_record_keeps: "ex_keeps ex (snd (archived_record_for store m k ex))"
  using ident_keeps [of "ex_manifest ex" "identity m"]
  by (auto simp: archived_record_for_def Let_def refl_keeps split: option.split prod.split)

lemma touch_siblings_keeps: "\<not> t < run \<Longrightarrow> K m (touch_siblings store k t sibs m)"
  unfolding touch_siblings_def
proof (induction sibs arbitrary: m)
  case (Cons s sibs)
  have "K m (if ir_key s \<noteq> k \<and> has_prefix (ir_key s) (store @ key_separator) then snd (touch_seen (ir_key s) t m) else m)"
    using touch_seen_keeps [OF Cons.prems] by (simp add: refl_keeps)
  from trans_keeps [OF this Cons.IH [OF Cons.prems]] show ?case by simp
qed (simp add: refl_keeps)

lemma stamp_kept_keeps: "\<not> t < run \<Longrightarrow> ex_keeps ex (stamp_kept store fk fp m k prev t ex)"
proof (cases "ex_dedup ex")
  case True
  assume t: "\<not> t < run"
  let ?m = "snd (merge_fields k fk t True (ex_manifest ex))"
  obtain sibs man where s: "keys_for_identity (identity m) ?m = (sibs, man)" by fastforce
  have a: "K (ex_manifest ex) ?m" by (rule merge_fields_keeps [OF t])
  have "K (ex_manifest ex) man" using trans_keeps [OF a ident_keeps] s by (metis snd_conv)
  with a t s True show ?thesis
    by (auto simp: stamp_kept_def Let_def intro: trans_keeps touch_siblings_keeps)
qed (auto simp: stamp_kept_def intro: touch_seen_keeps)

lemma run_stamp_ok: "clock_ok w ex \<Longrightarrow> run_stamp w ex = (t, ex') \<Longrightarrow> \<not> t < run \<and> ex_manifest ex' = ex_manifest ex \<and> clock_ok w ex'"
  by (auto simp: run_stamp_def clock_ok_def Let_def split: if_splits)

lemma observe_kept_keeps: "ex_keeps ex (observe_kept w store fk m ex)"
proof -
  obtain t ex' where s: "run_stamp w ex = (t, ex')" by fastforce
  then have "ex_manifest ex' = ex_manifest ex" by (auto simp: run_stamp_def Let_def split: if_splits)
  then show ?thesis using observe_gap_keeps by (simp add: observe_kept_def s)
qed

lemma keep_degraded_keeps:
  assumes "clock_ok w ex"
  shows "ex_keeps ex (snd (keep_degraded w store fk fp m k ex))"
proof -
  obtain k' found ex1 where a: "archived_record_for store m k ex = ((k', found), ex1)" by (metis prod.exhaust)
  have k1: "ex_keeps ex ex1" using archived_record_keeps [of ex store m k] by (simp add: a)
  have c1: "clock_ok w ex1"
    using a assms by (auto simp: archived_record_for_def Let_def split: if_splits prod.splits option.splits)
  obtain t ex2 where s: "run_stamp w ex1 = (t, ex2)" by fastforce
  have t: "\<not> t < run" "ex_manifest ex2 = ex_manifest ex1" using run_stamp_ok [OF c1 s] by simp_all
  show ?thesis
  proof (cases found)
    case (Some prev)
    let ?ex3 = "counted (\<lambda>s. s\<lparr>s_kept := s_kept s + 1\<rparr>) (stamp_kept store fk fp m k' prev t ex2)"
    have "ex_keeps ex2 ?ex3" using stamp_kept_keeps [OF t(1)] by simp
    then have "ex_keeps ex ?ex3" using trans_keeps [OF k1, of "ex_manifest ?ex3"] t(2) by simp
    then show ?thesis using k1 trans_keeps [OF _ observe_kept_keeps [of ?ex3 w store fk m]]
      by (simp add: keep_degraded_def a Some s Let_def)
  qed (use k1 in \<open>simp add: keep_degraded_def a\<close>)
qed

lemma place_by_phys_id_keeps: "K man (snd (place_by_phys_id store m man))"
proof -
  obtain sibs man' where s: "keys_for_identity (identity m) man = (sibs, man')" by fastforce
  have k: "K man man'" using ident_keeps [of man "identity m"] by (simp add: s)
  have "snd (place_by_phys_id store m man) \<in> {man, man'} \<union> range (\<lambda>k. snd (add_phys_id k (ms_phys_id m) man'))"
    by (auto simp: place_by_phys_id_def s Let_def split: option.splits)
  then show ?thesis using k refl_keeps trans_keeps [OF k add_phys_id_keeps] by auto
qed

lemma place_keeps: "ex_keeps ex (snd (place store fk m ex))"
proof -
  let ?m1 = "snd (if ex_dedup ex then same_store_identity_count store (identity m) (ex_manifest ex) else (0, ex_manifest ex))"
  let ?m2 = "snd (if ex_dedup ex \<and> has_prefix (identity m) ''mid:'' \<and> ms_phys_id m \<noteq> []
    then place_by_phys_id store m ?m1 else (None, ?m1))"
  have "K (ex_manifest ex) ?m1" by (simp add: lookup_keeps refl_keeps)
  from trans_keeps [OF this] have "K (ex_manifest ex) ?m2" using place_by_phys_id_keeps refl_keeps by simp
  moreover have "ex_manifest (snd (place store fk m ex)) = ?m2"
    by (simp add: place_def Let_def split: prod.split option.split)
  ultimately show ?thesis by simp
qed

lemma place_clock: "clock_ok w (snd (place store fk m ex)) = clock_ok w ex"
  by (simp add: place_def Let_def split: prod.split option.split)

lemma stamp_examined_keeps: "ex_keeps ex (stamp_examined k m prev ex)"
  by (simp add: stamp_examined_def scheme_keeps refl_keeps)

lemma skip_keeps:
  assumes "clock_ok w ex"
  shows "ex_keeps ex (skip_archived w store fk fp m k prev ex)"
    "ex_keeps ex (skip_incomplete m k prev stale ex)" "ex_keeps ex (skip_date w fk fp k found ex)"
proof -
  note o = observe_archived_keeps [OF assms]
  let ?a = "if ex_dedup ex then observe_archived w k prev fk fp ex else ex"
  have "ex_keeps ex ?a" using o refl_keeps by simp
  from trans_keeps [OF this] have "ex_keeps ex (stamp_examined k m prev ?a)" using stamp_examined_keeps by blast
  from trans_keeps [OF this] have "ex_keeps ex (supersede_after store k m (stamp_examined k m prev ?a))"
    using supersede_after_keeps by blast
  then show "ex_keeps ex (skip_archived w store fk fp m k prev ex)"
    by (simp add: skip_archived_def count_read_gaps_def Let_def)
  have "ex_keeps ex (stamp_examined k m prev (ex\<lparr>ex_stats := s\<rparr>))" for s
    using stamp_examined_keeps [of "ex\<lparr>ex_stats := s\<rparr>"] by simp
  from trans_keeps [OF this set_locator_keeps]
  have l: "K (ex_manifest ex) (snd (set_locator k (ms_locator m) (ex_manifest (stamp_examined k m prev (ex\<lparr>ex_stats := s\<rparr>)))))"
    for s .
  show "ex_keeps ex (skip_incomplete m k prev stale ex)"
    using l trans_keeps [OF l gen_keeps] by (simp add: skip_incomplete_def count_read_gaps_def Let_def)
  show "ex_keeps ex (skip_date w fk fp k found ex)"
    using o refl_keeps by (simp add: skip_date_def Let_def split: option.split)
qed

end

subsection \<open>Operations that change records only within a relation\<close>

locale record_change =
  fixes R :: "mrec \<Rightarrow> mrec \<Rightarrow> bool" and run :: gotime
  assumes R_trans: "R a b \<Longrightarrow> R b c \<Longrightarrow> R a c"
    and R_merge: "\<not> t < run \<Longrightarrow> R r (r\<lparr>r_folder := f, r_last_seen := t, r_present := True\<rparr>)"
    and R_touch: "\<not> t < run \<Longrightarrow> R r (r\<lparr>r_last_seen := t\<rparr>)"
    and R_other: "same_capture r r' \<Longrightarrow> r_present r' = r_present r \<Longrightarrow> r_last_seen r' = r_last_seen r \<Longrightarrow> R r r'"
begin

lemma R_refl: "R r r"
  by (rule R_other) (simp_all add: same_capture_def)

lemma rec_refl: "keeps R m m"
  by (simp add: keeps_def option.rel_refl R_refl)

lemma rec_trans: "keeps R m m' \<Longrightarrow> keeps R m' m'' \<Longrightarrow> keeps R m m''"
proof (rule keepsI)
  fix k assume k: "keeps R m m'" "keeps R m' m''"
  show "rel_option R (mget (m_entries m) k) (mget (m_entries m'') k)"
    using keeps_rel [OF k(1), of k] keeps_rel [OF k(2), of k] R_trans
    by (auto simp: rel_option_iff split: option.splits)
qed

lemma entries_keeps: "m_entries m' = m_entries m \<Longrightarrow> keeps R m m'"
  by (simp add: keeps_def option.rel_refl R_refl)

lemma put_keeps:
  "m_entries m' = mput k r' (m_entries m) \<Longrightarrow> mget (m_entries m) k = Some r \<Longrightarrow> R r r' \<Longrightarrow> keeps R m m'"
  by (auto simp: keeps_def option.rel_refl R_refl)

lemma put_other:
  "m_entries m' = mput k r' (m_entries m) \<Longrightarrow> mget (m_entries m) k = Some r \<Longrightarrow> same_capture r r'
     \<Longrightarrow> r_present r' = r_present r \<Longrightarrow> r_last_seen r' = r_last_seen r \<Longrightarrow> keeps R m m'"
  by (rule put_keeps) (auto intro: R_other)

lemma rec_merge: "\<not> t < run \<Longrightarrow> keeps R m (snd (merge_fields k f t True m))"
  by (auto simp: merge_fields_def rec_refl split: option.split intro!: put_keeps R_merge)

lemma rec_touch: "\<not> t < run \<Longrightarrow> keeps R m (snd (touch_seen k t m))"
  by (auto simp: touch_seen_def rec_refl split: option.split intro!: put_keeps R_touch)

lemma rec_stamp: "keeps R m (snd (stamp_parse_scheme k s m))" "keeps R m (snd (stamp_parser_gen k s m))"
  by (auto simp: stamp_parse_scheme_def stamp_parser_gen_def same_capture_def rec_refl Let_def
      split: option.split intro!: put_other)

lemma rec_locator: "keeps R m (snd (set_locator k l m))"
  by (auto simp: set_locator_def same_capture_def rec_refl Let_def split: option.split intro!: put_other)

lemma rec_phys: "keeps R m (snd (add_phys_id k i m))"
  by (auto simp: add_phys_id_def same_capture_def rec_refl Let_def split: option.split intro!: put_other)

lemma rec_commit: "keeps R m (snd (supersede_partial_commit k n m))"
  by (auto simp: supersede_partial_commit_def same_capture_def rec_refl split: option.split intro!: put_other)

lemma rec_unparsed: "keeps R m (snd (supersede_unparsed t d n m))"
proof (cases "unparsed_target t d n m")
  case None
  then show ?thesis by (simp add: supersede_unparsed_def Let_def entries_keeps)
next
  case (Some k)
  show ?thesis
  proof (cases "mget (m_entries m) k")
    case None
    then show ?thesis using Some by (simp add: supersede_unparsed_def Let_def entries_keeps)
  next
    case r: (Some r)
    show ?thesis
      by (rule put_other [where k = k and r = r and r' = "r\<lparr>r_missing := [], r_terminal := [label_superseded],
          r_recovered_by := n, r_parser_gen := 0, r_raw_digest := []\<rparr>"])
        (use Some r in \<open>simp_all add: supersede_unparsed_def Let_def same_capture_def\<close>)
  qed
qed

lemma rec_resolve: "keeps R m (snd (resolve k m))"
  by (auto simp: resolve_def Let_def same_capture_def rec_refl split: option.split intro!: put_other)

lemma rec_adopt_step:
  assumes "\<not> t < run"
  shows "keeps R (m\<lparr>m_entries := es\<rparr>) (m\<lparr>m_entries := snd (adopt_step tok phys rcvd want t key (n, es))\<rparr>)"
proof (cases "mget es key")
  case None
  then show ?thesis by (simp add: adopt_step_def rec_refl)
next
  case (Some r)
  have "R r (r\<lparr>r_last_seen := t, r_missing := [], r_terminal := [label_legacy_placeholder]\<rparr>)"
    by (rule R_trans [OF R_touch [OF assms] R_other]) (simp_all add: same_capture_def)
  then show ?thesis using Some by (auto simp: adopt_step_def rec_refl intro!: put_keeps)
qed

lemma rec_adopt:
  assumes "\<not> t < run"
  shows "keeps R m (snd (adopt_legacy_graph_stubs tok phys rcv t (Some leg) m))"
proof -
  have "keeps R (m\<lparr>m_entries := es\<rparr>) (m\<lparr>m_entries := snd (fold (adopt_step tok phys rcvd want t) ks (n, es))\<rparr>)" for rcvd want ks n es
  proof (induction ks arbitrary: n es)
    case (Cons k ks)
    obtain n' es' where e: "adopt_step tok phys rcvd want t k (n, es) = (n', es')" by fastforce
    have "keeps R (m\<lparr>m_entries := es\<rparr>) (m\<lparr>m_entries := es'\<rparr>)"
      using rec_adopt_step [OF assms, where m = m and es = es and tok = tok and phys = phys and rcvd = rcvd
        and want = want and key = k and n = n] by (simp add: e)
    from rec_trans [OF this Cons.IH] show ?case by (simp add: e)
  qed (simp add: rec_refl)
  from this [of "m_entries m"] have f: "keeps R m (m\<lparr>m_entries := snd (fold (adopt_step tok phys rcvd want t) ks (0, m_entries m))\<rparr>)"
    for rcvd want ks by simp
  show ?thesis using f [of "if rcv = 0 then [] else format_rfc3339 rcv" "Some (leg rcv)"
      "map ir_key (mlist (ident_index m) (leg rcv))"]
    by (cases "fold (adopt_step tok phys (if rcv = 0 then [] else format_rfc3339 rcv) (Some (leg rcv)) t)
        (map ir_key (mlist (ident_index m) (leg rcv))) (0, m_entries m)")
      (simp add: adopt_legacy_graph_stubs_def keeps_def)
qed

end

sublocale record_change \<subseteq> manifest_change "keeps R" run
  by unfold_locales
    (auto intro: rec_refl rec_trans rec_merge rec_touch rec_stamp rec_locator rec_phys rec_commit rec_unparsed
      rec_resolve rec_adopt entries_keeps simp: keys_for_identity_def)

interpretation capture: record_change same_capture run for run :: gotime
  by unfold_locales (simp_all add: same_capture_def)

subsection \<open>The capture\<close>

text \<open>What every step before the commit leaves alone: the records and the run's settings.\<close>

definition steady :: "exporter \<Rightarrow> exporter \<Rightarrow> bool" where
  "steady ex ex' \<longleftrightarrow> m_entries (ex_manifest ex') = m_entries (ex_manifest ex)
     \<and> m_by_ident (ex_manifest ex') = m_by_ident (ex_manifest ex)
     \<and> m_capture_gaps (ex_manifest ex') = m_capture_gaps (ex_manifest ex) \<and> ex_mode ex' = ex_mode ex
     \<and> ex_dedup ex' = ex_dedup ex \<and> ex_source_complete ex' = ex_source_complete ex
     \<and> ex_run_at ex' = ex_run_at ex \<and> ex_gap_run_at ex' = ex_gap_run_at ex
     \<and> ex_since ex' = ex_since ex"

lemma steady_refl [simp]: "steady ex ex"
  by (simp add: steady_def)

lemma steady_trans [trans]: "steady a b \<Longrightarrow> steady b c \<Longrightarrow> steady a c"
  by (simp add: steady_def)

lemma steady_if: "(P \<Longrightarrow> steady a b) \<Longrightarrow> (\<not> P \<Longrightarrow> steady a c) \<Longrightarrow> steady a (if P then b else c)"
  by simp

lemma steady_issue [simp]: "steady ex (add_issue fk m rel kind d ex)"
  by (simp add: add_issue_def steady_def)

lemma steady_fold: "(\<And>x ex. steady ex (f x ex)) \<Longrightarrow> steady ex (fold f xs ex)"
  by (induction xs arbitrary: ex) (auto intro: steady_trans)

lemma steady_counted [simp]: "steady ex (counted f ex)"
  by (simp add: steady_def)

lemma steady_remove [simp]: "steady ex (remove_file p ex)"
  by (simp add: remove_file_def steady_def)

lemma steady_write: "write_digest w p data ex = (d, ex') \<Longrightarrow> steady ex ex'"
  by (auto simp: write_digest_def steady_def split: if_splits)

lemma steady_write_zip: "write_zip w p atts consumed ex = Some (res, ex') \<Longrightarrow> steady ex ex'"
  by (auto simp: write_zip_def Let_def split: if_splits option.splits prod.splits dest: steady_write)

lemma archived_attachments:
  assumes "archive_attachments w fk m rel zp consumed ex = Some ((gaps, d), ex')"
    and "has_archivable (ms_attachments m) consumed"
  obtains zr ok ex1 where "write_zip w zp (ms_attachments m) consumed ex = Some ((zr, ok), ex1)"
    "gaps = filter (\<lambda>n. \<not> parse_gap_named m n) (zr_empty zr) @ zr_failed zr
        @ (if ok then [] else live_labels (ms_attachments m) consumed)"
    "d = zr_digest zr" "\<exists>f. ex' = fold (add_issue fk m rel ''attachment-error'')
        (zr_failed zr @ (if ok then [] else live_labels (ms_attachments m) consumed))
        (fold (add_issue fk m rel ''empty-attachment'') (filter (\<lambda>n. \<not> parse_gap_named m n) (zr_empty zr))
          (ex1\<lparr>ex_stats := f\<rparr>))"
proof -
  from assms obtain zr ok ex1 where z: "write_zip w zp (ms_attachments m) consumed ex = Some ((zr, ok), ex1)"
    by (auto simp: archive_attachments_def split: option.splits)
  from assms show ?thesis
    by (intro that [OF z]) (auto simp: archive_attachments_def z Let_def)
qed

lemma steady_attachments:
  assumes "archive_attachments w fk m rel zp consumed ex = Some ((gaps, d), ex')"
  shows "steady ex ex'"
proof (cases "has_archivable (ms_attachments m) consumed")
  case True
  from archived_attachments [OF assms True] obtain zr ok ex1 f xs ys where
    z: "write_zip w zp (ms_attachments m) consumed ex = Some ((zr, ok), ex1)"
    and e: "ex' = fold (add_issue fk m rel ''attachment-error'') xs
        (fold (add_issue fk m rel ''empty-attachment'') ys (ex1\<lparr>ex_stats := f\<rparr>))" by metis
  have "steady ex1 (ex1\<lparr>ex_stats := f\<rparr>)" by (simp add: steady_def)
  from steady_trans [OF steady_write_zip [OF z] this] show ?thesis
    unfolding e by (rule steady_trans [OF _ steady_trans [OF steady_fold steady_fold]]) simp_all
qed (use assms in \<open>auto simp: archive_attachments_def\<close>)

lemma steady_stem: "stem_loop name dir key ns man = (res, man') \<Longrightarrow> m_entries man' = m_entries man
    \<and> m_by_ident man' = m_by_ident man \<and> m_capture_gaps man' = m_capture_gaps man"
proof (induction ns arbitrary: man res man')
  case (Cons n ns)
  then show ?case by (auto simp: Let_def key_for_path_def split: if_splits)
qed simp

abbreviation body_gap :: "message \<Rightarrow> string list" where
  "body_gap m \<equiv> if \<not> has_body m \<and> \<not> rest_kept_unread m then [missing_body] else []"

lemma rendered_cases:
  assumes "capture_rendered w store fk m retry key found dir base rel d wr rr ex = (res, ex')"
  obtains "res \<noteq> Wrote" "steady ex ex'"
  | ex0 ex1 gaps zd fx where "res = Wrote" "steady ex ex1"
      "archive_attachments w fk m rel (rel_path (dir @ [base @ zip_suffix])) (rr_consumed rr) ex0 = Some ((gaps, zd), ex1)"
      "\<exists>ex2. steady ex1 ex2
         \<and> ex' = commit_capture w store m retry key rel wr found
                   (capture_record w ex2 fk rel m (body_gap m @ gaps) rr fx found) ex2"
proof -
  let ?ex0 = "counted (\<lambda>s. s\<lparr>s_attachments_inline := s_attachments_inline s + int (length (remdups (rr_consumed rr)))\<rparr>) ex"
  let ?arch = "archive_attachments w fk m rel (rel_path (dir @ [base @ zip_suffix])) (rr_consumed rr) ?ex0"
  have s0: "steady ex ?ex0" by (rule steady_counted)
  show ?thesis
  proof (cases ?arch)
    case None
    with assms s0 show ?thesis by (intro that(1)) (auto simp: capture_rendered_def Let_def)
  next
    case (Some p)
    then obtain gaps zd ex1 where a: "?arch = Some ((gaps, zd), ex1)" by (metis prod.exhaust)
    have s1: "steady ex ex1" using steady_trans [OF s0 steady_attachments [OF a]] .
    obtain h ex2 where h: "write_digest w rel (rr_html rr) ex1 = (h, ex2)" by fastforce
    have s2: "steady ex1 ex2" using steady_write [OF h] .
    show ?thesis
    proof (cases h)
      case None
      with assms a h have "res = Refused (Item_error rel)" "ex' = ex2"
        by (auto simp: capture_rendered_def Let_def)
      then show ?thesis using steady_trans [OF s1 s2] by (intro that(1)) simp_all
    next
      case (Some hd)
      let ?c = "counted (\<lambda>s. s\<lparr>s_unresolved := s_unresolved s + int (length (rr_unresolved rr)),
        s_html_fallback := s_html_fallback s + (if rr_fallback rr \<noteq> [] then 1 else 0)\<rparr>) ex2"
      let ?f = "fold (add_issue fk m rel ''unresolved-inline-image'') (rr_unresolved rr) ?c"
      let ?i = "if rr_fallback rr \<noteq> [] then add_issue fk m rel ''html-shown-as-source'' (rr_fallback rr) ?f else ?f"
      have "steady ex2 ?f" by (rule steady_trans [OF steady_counted steady_fold]) simp
      then have "steady ex2 ?i" by (intro steady_if) (auto intro: steady_trans [OF _ steady_issue])
      then have s3: "steady ex1 ?i" using s2 steady_trans by blast
      have "res = Wrote" "ex' = commit_capture w store m retry key rel wr found
          (capture_record w ?i fk rel m (body_gap m @ gaps) rr
             \<lparr>fx_html = Some hd, fx_zip = zd, fx_eml = d\<rparr> found) ?i"
        using assms a h Some by (simp_all add: capture_rendered_def Let_def)
      then show ?thesis using s1 s3 a by (intro that(2)) blast+
    qed
  qed
qed

lemma capture_at_rendered:
  assumes "capture_at w store fk wp m retry key found base rel ex = (res, ex')"
  shows "res \<noteq> Wrote \<and> steady ex ex'
     \<or> (\<exists>d wr rr ex1. steady ex ex1
         \<and> capture_rendered w store fk m retry key found (store # wp) base rel d wr rr ex1 = (res, ex'))"
proof -
  let ?eml = "rel_path ((store # wp) @ [base @ ''.eml''])"
  let ?wr = "ex_keep_raw ex \<and> ms_raw m \<noteq> []"
  let ?old = "kept_original ?wr ?eml rel found ex"
  let ?page = "wd_render w m (page_context store fk wp m base (?wr \<or> snd ?old))"
  note c = assms [unfolded capture_at_def Let_def]
  show ?thesis
  proof (cases ?page)
    case None
    then show ?thesis using c by auto
  next
    case rr: (Some rr)
    show ?thesis
    proof (cases ?wr)
      case False
      then have "capture_rendered w store fk m retry key found (store # wp) base rel (fst ?old) False rr ex = (res, ex')"
        using c rr by auto
      then show ?thesis using steady_refl by blast
    next
      case True
      obtain d ex2 where d: "write_digest w ?eml (ms_raw m) ex = (d, ex2)" by fastforce
      let ?ex3 = "counted (\<lambda>s. s\<lparr>s_raw_written := s_raw_written s + 1\<rparr>) ex2"
      have s: "steady ex ex2" "steady ex ?ex3"
        using steady_write [OF d] steady_trans [OF steady_write [OF d] steady_counted] by blast+
      show ?thesis
      proof (cases d)
        case None
        then show ?thesis using c rr d True s(1) by auto
      next
        case (Some x)
        then have "capture_rendered w store fk m retry key found (store # wp) base rel (Some x) True rr ?ex3 = (res, ex')"
          using c rr d True by auto
        then show ?thesis using s(2) by blast
      qed
    qed
  qed
qed

lemma capture_rendered_of:
  assumes "capture w store fk fp m retry key found ex = (res, ex')"
  shows "res \<noteq> Wrote \<and> steady ex ex'
     \<or> (\<exists>dir base rel d wr rr ex1. steady ex ex1
         \<and> capture_rendered w store fk m retry key found dir base rel d wr rr ex1 = (res, ex'))"
proof -
  define ex0 where "ex0 = (if retry then counted (\<lambda>s. s\<lparr>s_retried := s_retried s + 1\<rparr>) ex else ex)"
  have s0: "steady ex ex0" by (simp add: ex0_def)
  define wp where "wp = write_path ex0 fp found"
  obtain base rel man where st: "stem_for w (store # wp) (message_date m) (identity_subject m) key (ex_manifest ex0) = ((base, rel), man)"
    by (metis prod.exhaust)
  let ?ex1 = "ex0\<lparr>ex_manifest := man\<rparr>"
  have "m_entries man = m_entries (ex_manifest ex0) \<and> m_by_ident man = m_by_ident (ex_manifest ex0)
      \<and> m_capture_gaps man = m_capture_gaps (ex_manifest ex0)"
    using st unfolding stem_for_def Let_def by (rule steady_stem)
  then have s1: "steady ex ?ex1" using s0 by (simp add: steady_def)
  have c: "(if \<not> safe_token (wd_sep w) store then (Refused Unsafe_token, ex0)
      else if \<not> wd_mkdir_ok w (rel_path (store # wp)) then (Refused (Folder_error (rel_path (store # wp))), ex0)
      else capture_at w store fk wp m retry key found base rel ?ex1) = (res, ex')"
    using assms unfolding capture_def Let_def ex0_def [symmetric] wp_def [symmetric] st prod.case .
  show ?thesis
  proof (cases "safe_token (wd_sep w) store \<and> wd_mkdir_ok w (rel_path (store # wp))")
    case False
    then show ?thesis using c s0 by (auto split: if_splits)
  next
    case True
    then have "capture_at w store fk wp m retry key found base rel ?ex1 = (res, ex')" using c by simp
    from capture_at_rendered [OF this] show ?thesis using s1 steady_trans by blast
  qed
qed

end
