(* ===== verification/CaptureSafety.thy ===== *)
theory CaptureSafety
  imports ExporterProps
begin

text \<open>
  The headline safety of the exporter: whatever one message brings, every record of the archive survives
  its export, and only a record that is this same item is replaced by its capture.
\<close>

subsection \<open>What a capture commits\<close>

lemma manifest_rest [simp]:
  "ex_manifest (remove_file p ex) = ex_manifest ex"
  "ex_manifest (remove_renamed w rel wr found ex) = ex_manifest ex"
  "ex_manifest (count_capture m retry ex) = ex_manifest ex"
  "ex_manifest (count_read_gaps m ex) = ex_manifest ex"
  by (simp_all add: remove_file_def remove_renamed_def count_capture_def count_read_gaps_def Let_def
      split: option.split)

lemma commit_manifest:
  "ex_manifest (commit_capture w store m retry key rel wr found r ex)
     = ex_manifest (supersede_after store key m (count_read_gaps m (ex\<lparr>ex_manifest := add key r (ex_manifest ex)\<rparr>)))"
  by (simp add: commit_capture_def Let_def)

lemma commit_capture_keeps:
  "keeps same_capture (add key r (ex_manifest ex)) (ex_manifest (commit_capture w store m retry key rel wr found r ex))"
  using capture.supersede_after_keeps [of "count_read_gaps m (ex\<lparr>ex_manifest := add key r (ex_manifest ex)\<rparr>)" store key m]
  by (simp add: commit_manifest)

lemma add_get: "mget (m_entries (add key r m)) k = (if k = key then Some r else mget (m_entries m) k)"
  by (simp add: add_def Let_def)

text \<open>The record of a capture: the message's digests, and seen by this run where the archive keeps a timeline.\<close>

definition record_of :: "world \<Rightarrow> exporter \<Rightarrow> message \<Rightarrow> mrec \<Rightarrow> bool" where
  "record_of w ex m r \<longleftrightarrow> r_fingerprint r = fingerprint m \<and> r_content_hash r = content_digest m
     \<and> (ex_dedup ex \<longrightarrow> r_present r \<and> r_last_seen r = wd_now w)"

lemma captured_record: "record_of w ex m (capture_record w ex fk rel m gaps rr fx found)"
  by (simp add: record_of_def capture_record_def timeline_fields_def Let_def split: option.split)

lemma capture_outcome:
  assumes "capture w store fk fp m retry key found ex = (res, ex')"
  obtains "res \<noteq> Wrote" "steady ex ex'"
  | wr rel r ex1 where "res = Wrote" "steady ex ex1" "record_of w ex m r"
      "ex' = commit_capture w store m retry key rel wr found r ex1"
proof -
  from capture_rendered_of [OF assms] consider "res \<noteq> Wrote \<and> steady ex ex'"
    | dir base rel d wr rr ex1 where "steady ex ex1"
        "capture_rendered w store fk m retry key found dir base rel d wr rr ex1 = (res, ex')" by blast
  then show ?thesis
  proof cases
    case 2
    from 2(2) show ?thesis
    proof (cases rule: rendered_cases)
      case 1
      then show ?thesis using steady_trans [OF 2(1)] that(1) by blast
    next
      case (2 ex0 ex1' gaps zd fx)
      then obtain ex2 where s: "steady ex1 ex2"
        and e: "ex' = commit_capture w store m retry key rel wr found
          (capture_record w ex2 fk rel m (body_gap m @ gaps) rr fx found) ex2"
        using steady_trans by metis
      have s2: "steady ex ex2" by (rule steady_trans [OF \<open>steady ex ex1\<close> s])
      then have "record_of w ex m = record_of w ex2 m" by (simp add: steady_def record_of_def fun_eq_iff)
      then show ?thesis using that(2) [OF 2(1) s2 _ e] captured_record by simp
    qed
  qed (use that(1) in blast)
qed

definition captured :: "string \<Rightarrow> message \<Rightarrow> exporter \<Rightarrow> exporter \<Rightarrow> bool" where
  "captured key m ex ex' \<longleftrightarrow>
     (\<exists>r. mget (m_entries (ex_manifest ex')) key = Some r \<and> r_fingerprint r = fingerprint m
        \<and> r_content_hash r = content_digest m)
     \<and> (\<forall>k. k \<noteq> key \<longrightarrow> rel_option same_capture (mget (m_entries (ex_manifest ex)) k) (mget (m_entries (ex_manifest ex')) k))"

lemma capture_commits:
  assumes "capture w store fk fp m retry key found ex = (res, ex')"
  shows "res \<noteq> Wrote \<and> steady ex ex' \<or> res = Wrote \<and> captured key m ex ex'"
  using assms
proof (cases rule: capture_outcome)
  case (2 wr rel r ex1)
  have k: "keeps same_capture (add key r (ex_manifest ex1)) (ex_manifest ex')"
    unfolding 2(4) by (rule commit_capture_keeps)
  obtain r' where r': "mget (m_entries (ex_manifest ex')) key = Some r'" "same_capture r r'"
    using keeps_get [OF k, of key r] by (auto simp: add_get)
  have "r_fingerprint r' = fingerprint m" "r_content_hash r' = content_digest m"
    using r'(2) 2(3) by (simp_all add: same_capture_def record_of_def)
  moreover have "k' \<noteq> key \<Longrightarrow>
      rel_option same_capture (mget (m_entries (ex_manifest ex)) k') (mget (m_entries (ex_manifest ex')) k')" for k'
    using keeps_rel [OF k, of k'] 2(2) by (simp add: add_get steady_def)
  ultimately show ?thesis using r'(1) 2(1) unfolding captured_def by blast
qed blast

subsection \<open>Which record a message replaces\<close>

text \<open>A record of one store filed under one identity, and the case that there is no second one.\<close>

definition filed_as :: "exporter \<Rightarrow> string \<Rightarrow> string \<Rightarrow> string \<Rightarrow> bool" where
  "filed_as ex store i k \<longleftrightarrow> ex_get ex k \<noteq> None \<and> has_prefix k (store @ key_separator) \<and> identity_of k = i"

definition single_record :: "exporter \<Rightarrow> string \<Rightarrow> string \<Rightarrow> bool" where
  "single_record ex store i \<longleftrightarrow> (\<forall>k k'. filed_as ex store i k \<and> filed_as ex store i k' \<longrightarrow> k = k')"

text \<open>The identity index answers exactly what the records say, as it does in every manifest a run reaches.\<close>

definition identities_sound :: "manifest \<Rightarrow> bool" where
  "identities_sound man \<longleftrightarrow> byident.covers (mget (m_entries man)) (ident_index man)"

abbreviation sound :: "exporter \<Rightarrow> bool" where "sound ex \<equiv> identities_sound (ex_manifest ex)"

text \<open>
  What may be replaced at a key.  By the server's id: a record of this store and identity that holds the id
  or the very content.  By the fingerprint, for a whole read: a record at the message's own key that has the
  fingerprint, or none, or stands for an unparsed item, or, on the mailbox-wide path, has a fingerprint of an
  older scheme and is the only record of its identity in the store.  For a degraded read: what its own key
  holds, when a copy of the item there is no better than the read.
\<close>

definition told_by_id :: "exporter \<Rightarrow> string \<Rightarrow> string \<Rightarrow> message \<Rightarrow> string \<Rightarrow> mrec \<Rightarrow> bool" where
  "told_by_id ex store fk m key r \<longleftrightarrow> ex_dedup ex \<and> has_prefix (identity m) ''mid:'' \<and> ms_phys_id m \<noteq> []
     \<and> has_prefix key (store @ key_separator)
     \<and> (sound ex \<longrightarrow> identity_of key = identity m \<or> has_prefix key (base_key store fk m ex))
     \<and> (record_has_phys_id r (ms_phys_id m) \<or> content_digest m \<noteq> [] \<and> r_content_hash r = content_digest m)"

definition told_by_fingerprint :: "exporter \<Rightarrow> string \<Rightarrow> string \<Rightarrow> message \<Rightarrow> string \<Rightarrow> mrec \<Rightarrow> bool" where
  "told_by_fingerprint ex store fk m key r \<longleftrightarrow> ms_read_gaps m = [] \<and> has_prefix key (base_key store fk m ex)
     \<and> (r_fingerprint r = [] \<or> same_fingerprint r m (fingerprint m) \<or> rec_has_labels r [label_unparsed]
        \<or> ex_dedup ex \<and> r_fp_scheme r \<noteq> fp_scheme_current \<and> (sound ex \<longrightarrow> single_record ex store (identity m)))"

definition no_better :: "exporter \<Rightarrow> string \<Rightarrow> message \<Rightarrow> string \<Rightarrow> bool" where
  "no_better ex store m key \<longleftrightarrow> ms_read_gaps m \<noteq> []
     \<and> (\<exists>k p. ex_get ex k = Some p
          \<and> (k = key \<or> ex_dedup ex \<and> ms_phys_id m \<noteq> [] \<and> has_prefix k (store @ key_separator)
               \<and> (sound ex \<longrightarrow> identity_of k = identity m) \<and> record_has_phys_id p (ms_phys_id m))
          \<and> (rec_has_labels p (ms_read_gaps m) \<or> is_legacy_placeholder p))"

definition same_item :: "exporter \<Rightarrow> string \<Rightarrow> string \<Rightarrow> message \<Rightarrow> string \<Rightarrow> mrec \<Rightarrow> bool" where
  "same_item ex store fk m key r \<longleftrightarrow> told_by_id ex store fk m key r \<or> told_by_fingerprint ex store fk m key r
     \<or> key = base_key store fk m ex \<and> no_better ex store m key"

lemma sound_kept [simp]: "identities_sound (man\<lparr>m_by_ident := Some (ident_index man)\<rparr>) = identities_sound man"
  by (simp add: identities_sound_def ident_index_def)

lemma sibling_filed:
  assumes "identities_sound man" "e \<in> set (mlist (ident_index man) i)"
  shows "identity_of (ir_key e) = i \<and> mget (m_entries man) (ir_key e) \<noteq> None"
  using byident.covers_get [OF assms(1) [unfolded identities_sound_def], of e i] assms(2)
  by (auto simp: ident_entry_def split: if_splits)

lemma filed_sibling:
  assumes "identities_sound (ex_manifest ex)" "filed_as ex store i k" "i \<noteq> []"
  shows "\<exists>e \<in> set (mlist (ident_index (ex_manifest ex)) i). ir_key e = k"
proof -
  obtain r where r: "mget (m_entries (ex_manifest ex)) k = Some r" "identity_of k = i"
    using assms(2) by (auto simp: filed_as_def ex_get_def)
  then obtain e where "ident_entry k r = Some (i, e)" "ir_key e = k"
    using assms(3) by (simp add: ident_entry_def ident_ref_of_def)
  then show ?thesis using byident.covers_get [OF assms(1) [unfolded identities_sound_def], of e i] r(1) by auto
qed

lemma counted_once:
  assumes "identities_sound (ex_manifest ex)" "i \<noteq> []" "\<not> 1 < fst (same_store_identity_count store i (ex_manifest ex))"
  shows "single_record ex store i"
  unfolding single_record_def
proof (intro allI impI)
  fix k k'
  assume f: "filed_as ex store i k \<and> filed_as ex store i k'"
  let ?es = "filter (\<lambda>e. has_prefix (ir_key e) (store @ key_separator)) (mlist (ident_index (ex_manifest ex)) i)"
  have "\<exists>e \<in> set ?es. ir_key e = x" if "filed_as ex store i x" for x
    using filed_sibling [OF assms(1) that assms(2)] that by (auto simp: filed_as_def)
  then obtain e e' where e: "e \<in> set ?es" "ir_key e = k" "e' \<in> set ?es" "ir_key e' = k'" using f by meson
  have "length ?es \<le> 1" using assms(3) by (simp add: same_store_identity_count_def)
  then have "e = e'" using e(1,3) by (cases ?es) auto
  then show "k = k'" using e(2,4) by simp
qed

lemma identity_nonempty: "identity m \<noteq> []"
  by (simp add: identity_def Let_def)

lemma requalify_stops: "\<not> (requalify keys other tag key \<in> set keys \<and> other (requalify keys other tag key))"
proof (induction keys other tag key rule: requalify.induct)
  case (1 keys other tag key)
  then show ?case
    by (cases "key \<in> set keys \<and> other key") (auto simp: requalify.simps [of keys other tag key])
qed

lemma requalify_prefix: "has_prefix key b \<Longrightarrow> has_prefix (requalify keys other tag key) b"
proof (induction keys other tag key rule: requalify.induct)
  case (1 keys other tag key)
  have "has_prefix (qualify key tag) b" using 1(2) by (auto simp: qualify_def has_prefix_def)
  with 1 show ?case by (subst requalify.simps) auto
qed

lemma find_in: "find P xs = Some x \<Longrightarrow> x \<in> set xs \<and> P x"
  by (induction xs) (auto split: if_splits)

lemma phys_placed:
  assumes "place_by_phys_id store m man = (Some k, man')" "mget (m_entries man) k = Some r"
  shows "has_prefix k (store @ key_separator) \<and> (identities_sound man \<longrightarrow> identity_of k = identity m \<or> has_prefix k (live_key store (identity m)))
    \<and> (record_has_phys_id r (ms_phys_id m) \<or> content_digest m \<noteq> [] \<and> r_content_hash r = content_digest m)"
proof -
  obtain sibs man1 where s: "keys_for_identity (identity m) man = (sibs, man1)" by fastforce
  then have e: "m_entries man1 = m_entries man" and sib: "\<And>x. identities_sound man \<Longrightarrow> x \<in> set sibs \<Longrightarrow> identity_of (ir_key x) = identity m"
    using sibling_filed by (auto simp: keys_for_identity_def)
  let ?keys = "filter (\<lambda>k. has_prefix k (store @ key_separator) \<and> mhas (m_entries man1) k) (map ir_key sibs)"
  let ?hash = "\<lambda>k. case mget (m_entries man1) k of None \<Rightarrow> [] | Some r \<Rightarrow> r_content_hash r"
  have key: "has_prefix k (store @ key_separator) \<and> (identities_sound man \<longrightarrow> identity_of k = identity m)" if "k \<in> set ?keys" using that sib by auto
  have ch: "content_digest m \<noteq> []" using assms(1) by (auto simp: place_by_phys_id_def)
  show ?thesis
  proof (cases "find (\<lambda>k. has_phys_id k (ms_phys_id m) man1) ?keys")
    case (Some k')
    then have "k' = k" using assms(1) by (simp add: place_by_phys_id_def s Let_def split: if_splits)
    then have "k \<in> set ?keys" "has_phys_id k (ms_phys_id m) man1" using Some using find_in by fastforce+
    then show ?thesis using key assms(2) by (simp add: has_phys_id_def e)
  next
    case n: None
    show ?thesis
    proof (cases "find (\<lambda>k. ?hash k = content_digest m) ?keys")
      case (Some k')
      then have "k' = k" using assms(1) n by (simp add: place_by_phys_id_def s Let_def split: if_splits)
      then have "k \<in> set ?keys" "?hash k = content_digest m" using Some find_in by fastforce+
      then show ?thesis using key assms(2) ch by (simp add: e)
    next
      case None
      let ?b = "live_key store (identity m)"
      let ?r = "requalify (mkeys (m_entries man1)) (\<lambda>k. \<not> has_phys_id k (ms_phys_id m) man1)
        (hash_hex (ms_phys_id m) 8) (qualify ?b (hash_hex (ms_phys_id m) 8))"
      have "k = (if \<not> mhas (m_entries man1) ?b then ?b else ?r) \<and> (k = ?b \<longrightarrow> \<not> mhas (m_entries man1) ?b \<or> k = ?r)"
        using assms(1) n None by (auto simp: place_by_phys_id_def s Let_def split: if_splits)
      moreover have m: "mhas (m_entries man1) k" using assms(2) by (simp add: e mhas_def)
      ultimately have k: "k = ?r" by (auto split: if_splits)
      moreover note m [unfolded mget_mhas]
      ultimately have "has_phys_id k (ms_phys_id m) man1" using requalify_stops by metis
      moreover have "has_prefix (qualify ?b (hash_hex (ms_phys_id m) 8)) ?b" by (auto simp: qualify_def has_prefix_def)
      then have "has_prefix k ?b" unfolding k by (rule requalify_prefix)
      moreover from this have "has_prefix k (store @ key_separator)" using append_prefixD [of "store @ key_separator"]
        by (simp add: live_key_def has_prefix_def)
      ultimately show ?thesis using assms(2) by (simp add: has_phys_id_def e)
    qed
  qed
qed

lemma phys_not_placed: "place_by_phys_id store m man = (None, man') \<Longrightarrow> m_entries man' = m_entries man"
  by (auto simp: place_by_phys_id_def keys_for_identity_def Let_def split: if_splits option.splits)

text \<open>The place of a message: a replaced record there is the same item.\<close>

lemma kept_not:
  assumes "keep_degraded w store fk fp m k ex = (False, ex')"
  shows "m_entries (ex_manifest ex') = m_entries (ex_manifest ex)" "ex_dedup ex' = ex_dedup ex" "ex_mode ex' = ex_mode ex"
    "identities_sound (ex_manifest ex') = identities_sound (ex_manifest ex)"
  using assms by (auto simp: keep_degraded_def archived_record_for_def keys_for_identity_def Let_def
      split: if_splits option.splits prod.splits)

lemma archived_record_cases:
  assumes "archived_record_for store m k ex = ((k0, found), ex1)"
  shows "found = ex_get ex k0 \<and> (k0 = k \<or> ex_dedup ex \<and> ms_phys_id m \<noteq> []
    \<and> has_prefix k0 (store @ key_separator) \<and> (sound ex \<longrightarrow> identity_of k0 = identity m) \<and> (\<exists>p. found = Some p \<and> record_has_phys_id p (ms_phys_id m)))"
proof -
  let ?sibs = "fst (keys_for_identity (identity m) (ex_manifest ex))"
  let ?man = "snd (keys_for_identity (identity m) (ex_manifest ex))"
  let ?find = "find (\<lambda>s. has_prefix (ir_key s) (store @ key_separator) \<and> has_phys_id (ir_key s) (ms_phys_id m) ?man
    \<and> ex_get (ex\<lparr>ex_manifest := ?man\<rparr>) (ir_key s) \<noteq> None) ?sibs"
  have e: "m_entries ?man = m_entries (ex_manifest ex)" by (simp add: keys_for_identity_def)
  show ?thesis
  proof (cases "ex_dedup ex \<and> ms_phys_id m \<noteq> []")
    case True
    then show ?thesis
    proof (cases ?find)
      case None
      then show ?thesis using assms True e
        by (auto simp: archived_record_for_def Let_def ex_get_def split: prod.splits)
    next
      case (Some s)
      then have f: "has_phys_id (ir_key s) (ms_phys_id m) ?man" "has_prefix (ir_key s) (store @ key_separator)" "s \<in> set ?sibs"
        using Some find_in by fastforce+
      then have "\<exists>p. ex_get ex (ir_key s) = Some p \<and> record_has_phys_id p (ms_phys_id m)"
        by (auto simp: has_phys_id_def e ex_get_def split: option.splits)
      moreover have "sound ex \<longrightarrow> identity_of (ir_key s) = identity m"
        using f(3) sibling_filed by (simp add: keys_for_identity_def)
      moreover have "k0 = ir_key s \<and> found = ex_get ex (ir_key s)"
        using assms True Some e by (auto simp: archived_record_for_def Let_def ex_get_def split: prod.splits)
      ultimately show ?thesis using True f(2) by auto
    qed
  qed (use assms in \<open>auto simp: archived_record_for_def\<close>)
qed

lemma kept_no_better:
  assumes "keep_degraded w store fk fp m k ex = (False, ex')" "ms_read_gaps m \<noteq> []"
    "ex_get ex k = Some r"
  shows "no_better ex store m k"
proof -
  obtain k0 found ex1 where a: "archived_record_for store m k ex = ((k0, found), ex1)" by (metis prod.exhaust)
  note c = archived_record_cases [OF a]
  then obtain p where p: "found = Some p" using assms(3) by auto
  then have "rec_has_labels p (ms_read_gaps m) \<or> is_legacy_placeholder p" using assms(1) a
    by (auto simp: keep_degraded_def Let_def split: if_splits prod.splits)
  then show ?thesis using assms(2) c p unfolding no_better_def by (intro conjI exI [of _ k0] exI [of _ p]) auto
qed

lemma same_item_local: "same_item ex store fk m key r \<Longrightarrow> \<not> ex_dedup ex \<Longrightarrow> has_prefix key (base_key store fk m ex)"
  by (auto simp: same_item_def told_by_id_def told_by_fingerprint_def has_prefix_def)

lemma same_item_cong:
  assumes "m_entries (ex_manifest ex') = m_entries (ex_manifest ex)" "ex_dedup ex' = ex_dedup ex" "sound ex' = sound ex"
  shows "same_item ex' store fk m key r = same_item ex store fk m key r" "no_better ex' store m key = no_better ex store m key"
proof -
  have g: "ex_get ex' k = ex_get ex k" for k by (simp add: ex_get_def assms(1))
  show n: "no_better ex' store m key = no_better ex store m key" by (simp only: no_better_def g assms(2,3))
  have "base_key store fk m ex' = base_key store fk m ex" "single_record ex' store i = single_record ex store i" for i
    by (simp_all only: base_key_def assms(2) single_record_def filed_as_def g)
  then show "same_item ex' store fk m key r = same_item ex store fk m key r"
    by (simp only: same_item_def told_by_id_def told_by_fingerprint_def assms(2,3) n)
qed

lemma placed_same_item:
  assumes "place store fk m ex = (key, ex')" "ex_get ex key = Some r"
    and "ms_read_gaps m \<noteq> [] \<Longrightarrow> key = base_key store fk m ex \<Longrightarrow> no_better ex store m key"
  shows "same_item ex store fk m key r"
proof -
  let ?b = "base_key store fk m ex"
  obtain count man1 where c: "(if ex_dedup ex then same_store_identity_count store (identity m) (ex_manifest ex)
      else (0, ex_manifest ex)) = (count, man1)" by fastforce
  have e1: "m_entries man1 = m_entries (ex_manifest ex)" "identities_sound man1 = sound ex"
    using c by (auto simp: same_store_identity_count_def split: if_splits)
  obtain placed man where p: "(if ex_dedup ex \<and> has_prefix (identity m) ''mid:'' \<and> ms_phys_id m \<noteq> []
      then place_by_phys_id store m man1 else (None, man1)) = (placed, man)" by fastforce
  note pl = assms(1) [unfolded place_def Let_def c p prod.case]
  show ?thesis
  proof (cases placed)
    case (Some k)
    then have "k = key" "ex_dedup ex" "has_prefix (identity m) ''mid:''" "ms_phys_id m \<noteq> []"
      "place_by_phys_id store m man1 = (Some key, man)" using pl p by (auto split: if_splits)
    then show ?thesis using phys_placed [of store m man1 key man r] assms(2)
      by (simp add: ex_get_def e1 same_item_def told_by_id_def base_key_def)
  next
    case None
    then have e: "m_entries man = m_entries (ex_manifest ex)"
      using p e1(1) phys_not_placed [of store m man1 man] by (auto split: if_splits)
    have b: "has_prefix ?b ?b" by (simp add: has_prefix_def)
    show ?thesis
    proof (cases "ms_read_gaps m = []")
      case False
      then have "key = ?b" using pl None by (simp split: if_splits)
      then show ?thesis using assms(3) False by (simp add: same_item_def)
    next
      case True
      let ?other = "\<lambda>k. case mget (m_entries man) k of None \<Rightarrow> False
        | Some prev \<Rightarrow> splits_off (ex_dedup ex) (1 < count) m (fingerprint m) prev"
      have k: "key = requalify (mkeys (m_entries man)) ?other (fingerprint m) ?b"
        using pl None True by (auto split: if_splits cong: option.case_cong)
      have g: "mget (m_entries man) key = Some r" using assms(2) by (simp add: ex_get_def e)
      then have "mhas (m_entries man) key" by (simp add: mhas_def)
      then have "\<not> ?other key" using requalify_stops k unfolding mget_mhas by metis
      then have "\<not> splits_off (ex_dedup ex) (1 < count) m (fingerprint m) r" using g by simp
      moreover have "single_record ex store (identity m)" if "ex_dedup ex" "\<not> 1 < count" "sound ex"
        using counted_once [OF that(3) identity_nonempty, where store = store] c that by simp
      moreover have "has_prefix key ?b" unfolding k by (rule requalify_prefix [OF b])
      ultimately show ?thesis using True by (auto simp: same_item_def told_by_fingerprint_def splits_off_def)
    qed
  qed
qed

subsection \<open>The export of one message\<close>

definition survives :: "exporter \<Rightarrow> exporter \<Rightarrow> bool" where
  "survives ex ex' \<longleftrightarrow> keeps same_capture (ex_manifest ex) (ex_manifest ex')"

lemma some_run: "\<exists>run. manifest_change.clock_ok run w ex"
  by (rule exI [of _ "min (wd_now w) (min (ex_run_at ex) (ex_gap_run_at ex))"])
    (simp add: capture.clock_ok_def)

lemma survives_refl: "m_entries (ex_manifest ex') = m_entries (ex_manifest ex) \<Longrightarrow> survives ex ex'"
  by (simp add: survives_def capture.entries_keeps)

lemma survives_trans [trans]: "survives a b \<Longrightarrow> survives b c \<Longrightarrow> survives a c"
  unfolding survives_def by (rule capture.trans_keeps)

lemma steps_survive:
  "survives ex (snd (keep_degraded w store fk fp m k ex))"
  "survives ex (snd (place store fk m ex))"
  "survives ex (skip_archived w store fk fp m k prev ex)"
  "survives ex (skip_incomplete m k prev stale ex)"
  "survives ex (skip_date w fk fp k found ex)"
  using some_run [of w ex] capture.keep_degraded_keeps capture.place_keeps capture.skip_keeps
  unfolding survives_def by metis+

lemma after_place:
  assumes "(case (decide w (ex_mode ex1) (ex_since ex1) (ex_get ex1 key) m, ex_get ex1 key) of
       (Skip_archived, Some prev) \<Rightarrow> (Skipped, skip_archived w store fk fp m key prev ex1)
     | (Skip_incomplete stale, Some prev) \<Rightarrow> (Skipped, skip_incomplete m key prev stale ex1)
     | (Capture retry, found) \<Rightarrow> capture w store fk fp m retry key found ex1
     | (_, found) \<Rightarrow> (Skipped, skip_date w fk fp key found ex1)) = (res, ex')"
  shows "res \<noteq> Wrote \<and> survives ex1 ex' \<or> res = Wrote \<and> captured key m ex1 ex'"
proof (cases "decide w (ex_mode ex1) (ex_since ex1) (ex_get ex1 key) m")
  case (Capture retry)
  then show ?thesis using assms capture_commits [of w store fk fp m retry key "ex_get ex1 key" ex1 res ex']
    by (auto simp: steady_def intro: survives_refl)
qed (use assms steps_survive in \<open>auto split: option.splits\<close>)

text \<open>A message that is not held back as a degraded re-read is placed at a record of the same item, or a new one.\<close>

lemma export_placed:
  assumes kd: "(if ms_read_gaps m = [] then (False, ex)
      else keep_degraded w store fk fp m (base_key store fk m ex) ex) = (False, exk)"
    and pl: "place store fk m exk = (key, ex1)"
  shows "survives ex ex1" and "ex_get ex key = Some r \<Longrightarrow> same_item ex store fk m key r"
proof -
  have k: "exk = ex \<or> ms_read_gaps m \<noteq> [] \<and> keep_degraded w store fk fp m (base_key store fk m ex) ex = (False, exk)"
    using kd by (auto split: if_splits)
  then have e: "m_entries (ex_manifest exk) = m_entries (ex_manifest ex)" "ex_dedup exk = ex_dedup ex"
    and sk: "identities_sound (ex_manifest exk) = identities_sound (ex_manifest ex)"
    using kept_not [of w store fk fp m "base_key store fk m ex" ex exk] by (elim disjE conjE; simp)+
  have b: "base_key store fk m exk = base_key store fk m ex" by (simp add: base_key_def e)
  have "survives exk ex1" using steps_survive(2) [of exk store fk m] pl by simp
  then show "survives ex ex1" by (rule survives_trans [OF survives_refl [OF e(1)]])
  assume r: "ex_get ex key = Some r"
  have "same_item exk store fk m key r"
  proof (rule placed_same_item [OF pl])
    show "ex_get exk key = Some r" using r e(1) by (simp add: ex_get_def)
    show "no_better exk store m key" if "ms_read_gaps m \<noteq> []" "key = base_key store fk m exk"
    proof -
      have "keep_degraded w store fk fp m key ex = (False, exk)" using k kd that b by auto
      from kept_no_better [OF this that(1) r] show ?thesis using same_item_cong(2) [OF e sk] by simp
    qed
  qed
  then show "same_item ex store fk m key r" using same_item_cong(1) [OF e sk] by simp
qed

lemma export_cases:
  assumes "export w store fp m ex = (res, ex')"
  obtains "res \<noteq> Wrote" "survives ex ex'"
  | key ex1 where "res = Wrote" "survives ex ex1" "captured key m ex1 ex'"
      "\<And>r. ex_get ex key = Some r \<Longrightarrow> same_item ex store (join CHR ''/'' fp) m key r"
proof -
  let ?fk = "join CHR ''/'' fp"
  obtain kept exk where kd: "(if ms_read_gaps m = [] then (False, ex)
    else keep_degraded w store ?fk fp m (base_key store ?fk m ex) ex) = (kept, exk)" by fastforce
  obtain key ex1 where pl: "place store ?fk m exk = (key, ex1)" by fastforce
  note x = assms [unfolded export_def Let_def kd pl prod.case]
  show ?thesis
  proof (cases kept)
    case True
    then have "res = Skipped" "exk = snd (keep_degraded w store ?fk fp m (base_key store ?fk m ex) ex)" "ex' = exk"
      using x kd by (auto split: if_splits)
    then show ?thesis using steps_survive(1) that(1) by simp
  next
    case False
    then have "(if ms_read_gaps m = [] then (False, ex)
      else keep_degraded w store ?fk fp m (base_key store ?fk m ex) ex) = (False, exk)" using kd by simp
    note placed = export_placed [OF this pl]
    have or: "res \<noteq> Wrote \<and> survives ex1 ex' \<or> res = Wrote \<and> captured key m ex1 ex'"
      by (rule after_place [where w = w and store = store and fk = ?fk and fp = fp]) (use x False in simp)
    show ?thesis
    proof (cases "res = Wrote")
      case True
      then have "captured key m ex1 ex'" using or by simp
      from that(2) [OF True placed(1) this placed(2)] show ?thesis .
    next
      case False
      then have "survives ex1 ex'" using or by simp
      from that(1) [OF False survives_trans [OF placed(1) this]] show ?thesis .
    qed
  qed
qed

text \<open>
  C1: exporting a message loses no record of the archive and replaces none but its own.  Every record there was is still there under its key
  and still stands for the same capture (file, fixity, fingerprint, content hash), but for at most one: the
  record under the key of a message that was written.  That one was the same item: a record of this store and
  identity that holds the server's id or the very content; or, for a whole read, a record at the message's
  own key with its fingerprint, with none, unparsed, or, mailbox-wide, with a fingerprint of an older scheme
  while no second record of the identity is in the store; or, for a degraded read, the record at its own key
  while a copy held of the item is no better than the read.  What is said of the identity of a record, and
  of there being no second one, is said where the identity index answers what the records say, as it does
  after every run (C10).  A written message leaves a record with its fingerprint and content hash.
\<close>

theorem no_capture_replaces_another_message:
  assumes "export w store fp m ex = (res, ex')"
  shows "(\<forall>k r. ex_get ex k = Some r \<longrightarrow> (\<exists>r'. ex_get ex' k = Some r'
             \<and> (same_capture r r' \<or> res = Wrote \<and> r_fingerprint r' = fingerprint m
                 \<and> r_content_hash r' = content_digest m \<and> same_item ex store (join CHR ''/'' fp) m k r)))
       \<and> (\<exists>key. \<forall>k. k \<noteq> key \<longrightarrow> rel_option same_capture (ex_get ex k) (ex_get ex' k))
       \<and> (res = Wrote \<longrightarrow> (\<exists>key r. ex_get ex' key = Some r \<and> r_fingerprint r = fingerprint m
                                 \<and> r_content_hash r = content_digest m))"
  using assms
proof (cases rule: export_cases)
  case 1
  then show ?thesis using keeps_get [of same_capture "ex_manifest ex" "ex_manifest ex'"] keeps_rel
    unfolding survives_def ex_get_def by metis
next
  case (2 key ex1)
  obtain rn where rn: "ex_get ex' key = Some rn" "r_fingerprint rn = fingerprint m" "r_content_hash rn = content_digest m"
    and c: "\<And>k. k \<noteq> key \<Longrightarrow> rel_option same_capture (ex_get ex1 k) (ex_get ex' k)"
    using 2(3) unfolding captured_def ex_get_def by blast
  have s: "rel_option same_capture (ex_get ex k) (ex_get ex1 k)" for k
    using 2(2) by (simp add: survives_def keeps_def ex_get_def)
  have o: "rel_option same_capture (ex_get ex k) (ex_get ex' k)" if "k \<noteq> key" for k
    using s [of k] c [OF that] by (auto simp: rel_option_iff same_capture_def split: option.splits)
  have "\<exists>r'. ex_get ex' k = Some r' \<and> (same_capture r r' \<or> res = Wrote \<and> r_fingerprint r' = fingerprint m
      \<and> r_content_hash r' = content_digest m \<and> same_item ex store (join CHR ''/'' fp) m k r)" if "ex_get ex k = Some r" for k r
    using o [of k] that rn 2(1) 2(4) by (cases "k = key") (auto simp: option_rel_Some1)
  then show ?thesis using o rn by blast
qed

text \<open>A sample archive with one copy of a message, which a later run reads only in part.\<close>

definition sample_world :: world where
  "sample_world = \<lparr>wd_sep = CHR ''/'', wd_is_sep = (\<lambda>c. c = CHR ''/''), wd_is_abs = (\<lambda>p. take 1 p = ''/''),
     wd_nfc = (\<lambda>s. s), wd_letter = (\<lambda>_. True), wd_now = 9, wd_render = (\<lambda>m c. None), wd_zip = (\<lambda>_. []),
     wd_mkdir_ok = (\<lambda>_. True), wd_write_ok = (\<lambda>_. True), wd_zip_fault = (\<lambda>_. Zip_fine)\<rparr>"

definition zero_stats :: stats where
  "zero_stats = \<lparr>s_exported = 0, s_skipped_manifest = 0, s_skipped_date = 0, s_attachments = 0,
     s_attachments_inline = 0, s_attachments_empty = 0, s_attachment_errors = 0, s_unresolved = 0,
     s_html_fallback = 0, s_non_html = 0, s_no_body = 0, s_raw_written = 0, s_raw_available = 0, s_retried = 0,
     s_filled = 0, s_still_incomplete = 0, s_resolved = 0, s_unreadable = 0, s_unparsed = 0, s_kept = 0,
     s_export_panics = 0, s_export_faults = 0\<rparr>"

definition sample_box :: exporter where
  "sample_box = \<lparr>ex_manifest = (new_manifest [])\<lparr>m_entries :=
       [(folder_key ''m'' ''I'' ''mid:a'', zero_rec\<lparr>r_path := ''m/I/a.html'', r_folder := ''I''\<rparr>)], m_by_ident := None\<rparr>,
     ex_mode = Incremental, ex_since = zero_time, ex_keep_raw = False, ex_source_complete = False,
     ex_dedup = False, ex_run_at = 5, ex_gap_run_at = zero_time, ex_stats = zero_stats, ex_issues = [],
     ex_reuse_logged = [], ex_calls = [], ex_files = []\<rparr>"

definition half_read :: message where
  "half_read = zero_message\<lparr>ms_mid := ''a'', ms_read_gaps := [label_unparsed]\<rparr>"

lemma half_read_gaps: "ms_read_gaps half_read = [label_unparsed]" "ms_phys_id half_read = []"
  by (simp_all add: half_read_def zero_message_def)

lemma trim_a: "trim_space ''a'' = ''a''"
  by (simp add: trim_space_def trim_space_left.simps trim_space_right.simps decode_last_rune_def
      space_rune_def in_range_def byte_def decode_rune_def)

lemma sample_export:
  "\<exists>ex'. export sample_world ''m'' [''I''] half_read sample_box = (Skipped, ex')"
proof -
  let ?k = "folder_key ''m'' ''I'' ''mid:a''" and ?ex = sample_box
  have i: "identity half_read = ''mid:a''"
    by (simp add: identity_def idv_def half_read_def zero_message_def trim_a)
  have g: "ex_get ?ex ?k = Some (zero_rec\<lparr>r_path := ''m/I/a.html'', r_folder := ''I''\<rparr>)"
    by (simp add: ex_get_def sample_box_def)
  have b: "base_key ''m'' ''I'' half_read ?ex = ?k" by (simp add: base_key_def i sample_box_def)
  have "archived_record_for ''m'' half_read ?k ?ex = ((?k, ex_get ?ex ?k), ?ex)"
    by (simp add: archived_record_for_def sample_box_def)
  then have "fst (keep_degraded sample_world ''m'' ''I'' [''I''] half_read ?k ?ex)"
    by (simp add: keep_degraded_def g half_read_gaps rec_has_labels_def rec_has_label_def is_legacy_placeholder_def
        zero_rec_def Let_def split: prod.split)
  then have "\<exists>ex'. keep_degraded sample_world ''m'' ''I'' [''I''] half_read ?k ?ex = (True, ex')" by (metis prod.collapse)
  then show ?thesis by (auto simp: export_def b half_read_gaps Let_def)
qed

theorem no_capture_replaces_another_message_witness:
  "fst (export sample_world ''m'' [''I''] half_read sample_box) = Skipped
   \<and> (\<exists>r'. ex_get (snd (export sample_world ''m'' [''I''] half_read sample_box)) (folder_key ''m'' ''I'' ''mid:a'') = Some r'
        \<and> r_path r' = ''m/I/a.html'')"
proof -
  let ?k = "folder_key ''m'' ''I'' ''mid:a''" and ?r = "zero_rec\<lparr>r_path := ''m/I/a.html'', r_folder := ''I''\<rparr>"
  obtain ex' where e: "export sample_world ''m'' [''I''] half_read sample_box = (Skipped, ex')" using sample_export by blast
  have g: "ex_get sample_box ?k = Some ?r" by (simp add: ex_get_def sample_box_def)
  from no_capture_replaces_another_message [OF e] g have "\<exists>r'. ex_get ex' ?k = Some r' \<and> same_capture ?r r'" by blast
  then show ?thesis by (auto simp: e same_capture_def)
qed

end
