(* ===== verification/SourceRun.thy ===== *)
theory SourceRun
  imports Exporter Load
begin

text \<open>
  One source's walk of a run (\<^verbatim>\<open>internal/app/localrun.go\<close>, and the fault classes of
  \<^verbatim>\<open>internal/export/errors.go\<close>): what a fault of one message or folder costs, what ends the walk,
  which gaps a capture answers and which a completed walk closes.  The words of an error, the log and the
  checkpoint callback are not modelled; what the operating system answers is in \<open>surroundings\<close>.
\<close>

subsection \<open>Why an error ends the run\<close>

datatype fatal_kind = Fatal_none | Fatal_full | Fatal_read_only | Fatal_gone | Fatal_token

text \<open>The error number in an error's chain, by its name or by its Windows code.\<close>

datatype errno = ENOSPC | EDQUOT | EROFS | EIO | ENXIO | ENODEV | ENOTCONN | ESTALE | EHOSTDOWN
  | Other_errno | Windows_code nat

definition windows_fatal_kind :: "nat \<Rightarrow> bool \<Rightarrow> fatal_kind" where
  "windows_fatal_kind code on_root =
     (if code \<in> {112, 39} then Fatal_full
      else if code = 19 then Fatal_read_only
      else if code \<in> {21, 53, 55, 64, 1167, 1295} then Fatal_gone
      else if code = 3 \<and> on_root then Fatal_gone
      else Fatal_none)"

definition fatal_kind_at :: "export_error \<Rightarrow> errno option \<Rightarrow> bool \<Rightarrow> fatal_kind" where
  "fatal_kind_at err cause names_root =
     (if err = Unsafe_token then Fatal_token
      else case cause of
        None \<Rightarrow> Fatal_none
      | Some (Windows_code c) \<Rightarrow> windows_fatal_kind c names_root
      | Some e \<Rightarrow>
          if e = ENOSPC \<or> e = EDQUOT then Fatal_full
          else if e = EROFS then Fatal_read_only
          else if e \<in> {EIO, ENXIO, ENODEV, ENOTCONN, ESTALE, EHOSTDOWN} then Fatal_gone
          else Fatal_none)"

definition is_run_fatal :: "export_error \<Rightarrow> errno option \<Rightarrow> bool" where
  "is_run_fatal err cause \<longleftrightarrow> fatal_kind_at err cause False \<noteq> Fatal_none"

subsection \<open>The state of a walk\<close>

definition write_breaker :: nat where "write_breaker = 50"
definition probe_every :: nat where "probe_every = 50"
definition folder_fault_cap :: nat where "folder_fault_cap = 2000"
definition ident_folder_sep :: string where "ident_folder_sep = ''#''"

record local_run =
  lr_exp :: exporter
  lr_run_at :: gotime
  lr_faults :: nat
  lr_write_faults :: nat
  lr_recovered :: nat
  lr_closed_gone :: nat

record source_run =
  sr_lr :: local_run
  sr_token :: string
  sr_reports_faults :: bool
  sr_local :: bool
  sr_wrote :: bool
  sr_unwritable :: "(string, bool) gomap"
  sr_streak :: nat
  sr_folder_faults :: "string list"
  sr_folder_seen :: "(string, bool) gomap"
  sr_folder_flood :: bool
  sr_seen_folders :: "(string, bool) gomap"
  sr_fresh_outlook :: bool
  sr_late_close :: "(string, string) gomap"

datatype walk_error = Stopped | Run_fatal fatal_kind | Unavailable | Failed export_error | Source_stopped export_error

record surroundings =
  en_world :: world
  en_stop :: bool
  en_cause :: "export_error \<Rightarrow> errno option"
  en_names_root :: "export_error \<Rightarrow> bool"
  en_text :: "export_error \<Rightarrow> string"
  en_panic :: string
  en_exists :: "string \<Rightarrow> bool"
  en_lock_held :: bool

definition ledger_of :: "source_run \<Rightarrow> (string, capture_gap) gomap" where
  "ledger_of s = m_capture_gaps (ex_manifest (lr_exp (sr_lr s)))"

definition run_at_of :: "source_run \<Rightarrow> gotime" where
  "run_at_of s = lr_run_at (sr_lr s)"

abbreviation with_exp :: "(exporter \<Rightarrow> exporter) \<Rightarrow> source_run \<Rightarrow> source_run" where
  "with_exp f s \<equiv> s\<lparr>sr_lr := (sr_lr s)\<lparr>lr_exp := f (lr_exp (sr_lr s))\<rparr>\<rparr>"

definition with_ledger :: "((string, capture_gap) gomap \<Rightarrow> (string, capture_gap) gomap) \<Rightarrow> source_run \<Rightarrow> source_run" where
  "with_ledger f = with_exp (\<lambda>ex. ex\<lparr>ex_manifest := (ex_manifest ex)\<lparr>m_capture_gaps := f (m_capture_gaps (ex_manifest ex))\<rparr>\<rparr>)"

definition note_recovered :: "source_run \<Rightarrow> source_run" where
  "note_recovered s = s\<lparr>sr_lr := (sr_lr s)\<lparr>lr_recovered := lr_recovered (sr_lr s) + 1\<rparr>\<rparr>"

definition note_fault :: "source_run \<Rightarrow> source_run" where
  "note_fault s = s\<lparr>sr_lr := (sr_lr s)\<lparr>lr_faults := lr_faults (sr_lr s) + 1\<rparr>\<rparr>"

text \<open>A close that is counted when it closed something.\<close>

definition answer_gap :: "((string, capture_gap) gomap \<Rightarrow> bool \<times> (string, capture_gap) gomap) \<Rightarrow> source_run \<Rightarrow> source_run" where
  "answer_gap close s = (let s' = with_ledger (\<lambda>L. snd (close L)) s
     in if fst (close (ledger_of s)) then note_recovered s' else s')"

definition run_probe :: "surroundings \<Rightarrow> source_run \<Rightarrow> walk_error option \<times> source_run" where
  "run_probe en s =
     (let n = lr_write_faults (sr_lr s); s = s\<lparr>sr_lr := (sr_lr s)\<lparr>lr_write_faults := n + 1\<rparr>\<rparr>
      in if n mod probe_every \<noteq> 0 then (None, s)
         else if \<not> en_exists en [] then (Some Unavailable, s)
         else if (sr_wrote s \<or> has_token (ex_manifest (lr_exp (sr_lr s))) (sr_token s)) \<and> \<not> en_exists en (sr_token s)
         then (Some Unavailable, s)
         else if \<not> en_lock_held en then (Some Unavailable, s)
         else (None, s))"

definition last_or :: "'a \<Rightarrow> 'a list \<Rightarrow> 'a" where
  "last_or d xs = (if xs = [] then d else List.last xs)"

definition note_folder :: "string list \<Rightarrow> source_run \<Rightarrow> source_run" where
  "note_folder path s =
     (if path = [] then s
      else s\<lparr>sr_seen_folders := mput (gap_folder (last_or [] path)) True
               (mput (gap_folder (join CHR ''/'' path)) True (sr_seen_folders s))\<rparr>)"

subsection \<open>Recording a gap\<close>

definition note_folder_fault :: "string \<Rightarrow> source_run \<Rightarrow> source_run" where
  "note_folder_fault p s =
     (if mget (sr_folder_seen s) p = Some True then s
      else if folder_fault_cap \<le> length (sr_folder_faults s) then s\<lparr>sr_folder_flood := True\<rparr>
      else s\<lparr>sr_folder_seen := mput p True (sr_folder_seen s), sr_folder_faults := sr_folder_faults s @ [p]\<rparr>)"

text \<open>The gap as it is filed: another folder's copy of a message holds the plain locator already.\<close>

definition filed_gap :: "source_run \<Rightarrow> capture_gap \<Rightarrow> capture_gap" where
  "filed_gap s g0 =
     (let g = g0\<lparr>g_token := sr_token s\<rparr>
      in if g_scope g = gap_scope_item \<and> has_prefix (g_locator g) ''ident:''
         then case gap_observed_in (gap_key (sr_token s) gap_scope_item (g_locator g)) (run_at_of s) (ledger_of s) of
                Some f \<Rightarrow> if f \<noteq> gap_folder (g_folder g)
                          then g\<lparr>g_locator := g_locator g @ ident_folder_sep @ short_hash (g_folder g)\<rparr> else g
              | None \<Rightarrow> g
         else g)"

definition run_observe :: "char \<Rightarrow> capture_gap \<Rightarrow> source_run \<Rightarrow> source_run" where
  "run_observe sep g0 s =
     (let g = filed_gap s g0;
          s = with_ledger (\<lambda>L. snd (observe_gap sep g (run_at_of s) L)) s;
          s = (if g_scope g = gap_scope_folder then note_folder_fault (gap_folder (g_folder g)) s else s)
      in note_fault s)"

definition new_gap :: "string \<Rightarrow> string \<Rightarrow> string \<Rightarrow> string \<Rightarrow> string \<Rightarrow> string \<Rightarrow> int \<Rightarrow> capture_gap" where
  "new_gap folder scope locator reason cls detail skipped =
     \<lparr>g_token = [], g_folder = folder, g_scope = scope, g_locator = locator, g_reason = reason, g_class = cls,
       g_subject = [], g_received = [], g_detail = detail, g_skipped = skipped, g_defers_gone = False,
       g_first_run = zero_time, g_last_run = zero_time, g_runs = 0\<rparr>"

text \<open>A fault the reader delivered during the walk.\<close>

record fault =
  ft_reason :: string
  ft_scope :: string
  ft_class :: string
  ft_folder :: "string list"
  ft_locator :: string
  ft_subject :: string
  ft_detail :: string
  ft_skipped :: int

definition on_reader_fault :: "char \<Rightarrow> fault \<Rightarrow> source_run \<Rightarrow> source_run" where
  "on_reader_fault sep f = run_observe sep ((new_gap (join CHR ''/'' (ft_folder f)) (ft_scope f) (ft_locator f)
     (ft_reason f) (ft_class f) (ft_detail f) (ft_skipped f))\<lparr>g_subject := ft_subject f\<rparr>)"

definition item_locator :: "message \<Rightarrow> string" where
  "item_locator m = (if ms_locator m \<noteq> [] then ms_locator m else ''ident:'' @ identity m)"

definition item_gap :: "message \<Rightarrow> string \<Rightarrow> string \<Rightarrow> string \<Rightarrow> string \<Rightarrow> capture_gap" where
  "item_gap m fk reason cls detail = (new_gap fk gap_scope_item (item_locator m) reason cls detail 0)
     \<lparr>g_subject := ms_subject m,
      g_received := (if message_date m = zero_time then [] else format_rfc3339 (message_date m))\<rparr>"

subsection \<open>The gaps a capture answers\<close>

definition close_read_gap :: "message \<Rightarrow> source_run \<Rightarrow> bool \<times> source_run" where
  "close_read_gap m s =
     (if ms_read_locator m = [] \<or> ms_read_locator m = ms_locator m then (False, s)
      else let key = gap_key (sr_token s) gap_scope_item (ms_read_locator m)
      in case gap_for key (ledger_of s) of
           None \<Rightarrow> (False, s)
         | Some g \<Rightarrow>
             if g_last_run g = run_at_of s
             then if g_reason g \<noteq> ''vanished-during-read'' then (False, s)
                  else (fst (close_gap_reason key (g_reason g) (ledger_of s)),
                        with_ledger (\<lambda>L. snd (close_gap_reason key (g_reason g) L)) s)
             else (False, s\<lparr>sr_late_close := mput key (g_reason g) (sr_late_close s)\<rparr>))"

definition run_recovered :: "message \<Rightarrow> string \<Rightarrow> source_run \<Rightarrow> source_run" where
  "run_recovered m fk s =
     (let s = (if ms_locator m \<noteq> [] then answer_gap (close_gap (gap_key (sr_token s) gap_scope_item (ms_locator m))) s else s);
          (read, s) = close_read_gap m s;
          s = (if read then note_recovered s else s);
          ident = ''ident:'' @ identity m;
          close = (\<lambda>loc s. answer_gap (close_gap_in_folder (gap_key (sr_token s) gap_scope_item loc) fk) s)
      in if ident = ''ident:'' then s
         else close (ident @ ident_folder_sep @ short_hash fk) (close ident s))"

definition settle_step :: "string \<times> string \<Rightarrow> source_run \<Rightarrow> source_run" where
  "settle_step = (\<lambda>(key, reason) s. case gap_for key (ledger_of s) of
     None \<Rightarrow> s
   | Some g \<Rightarrow> if g_last_run g = run_at_of s then s else answer_gap (close_gap_reason key reason) s)"

definition settle_read_gaps :: "source_run \<Rightarrow> source_run" where
  "settle_read_gaps s = (fold settle_step (sr_late_close s) s)\<lparr>sr_late_close := []\<rparr>"

definition close_vanished_this_run :: "message \<Rightarrow> source_run \<Rightarrow> source_run" where
  "close_vanished_this_run m s =
     (if ms_read_locator m = [] then s
      else let key = gap_key (sr_token s) gap_scope_item (ms_read_locator m)
      in case gap_for key (ledger_of s) of
           None \<Rightarrow> s
         | Some g \<Rightarrow> if g_last_run g = run_at_of s
                     then with_ledger (\<lambda>L. snd (close_gap_reason key ''vanished-during-read'' L)) s else s)"

subsection \<open>Handling one message\<close>

definition run_stop :: "surroundings \<Rightarrow> walk_error option" where
  "run_stop en = (if en_stop en then Some Stopped else None)"

text \<open>A write that failed counts toward the source's own breaker.\<close>

definition count_streak :: "export_error \<Rightarrow> source_run \<Rightarrow> walk_error option \<times> source_run" where
  "count_streak e s = (let s = s\<lparr>sr_streak := sr_streak s + 1\<rparr>
     in (if write_breaker \<le> sr_streak s then Some (Source_stopped e) else None, s))"

definition count_export_fault :: "source_run \<Rightarrow> source_run" where
  "count_export_fault = with_exp (counted (\<lambda>t. t\<lparr>s_export_faults := s_export_faults t + 1\<rparr>))"

definition count_export_panic :: "source_run \<Rightarrow> source_run" where
  "count_export_panic = with_exp (counted (\<lambda>t. t\<lparr>s_export_panics := s_export_panics t + 1\<rparr>))"

definition unwritable_gap :: "string \<Rightarrow> string \<Rightarrow> capture_gap" where
  "unwritable_gap fk detail = new_gap fk gap_scope_folder (''folder:'' @ fk) ''folder-unwritable'' class_fillable detail 1"

text \<open>What an export that was refused costs.\<close>

definition run_refused :: "surroundings \<Rightarrow> string \<Rightarrow> message \<Rightarrow> export_error \<Rightarrow> source_run \<Rightarrow> walk_error option \<times> source_run" where
  "run_refused en fk m e s =
     (let kind = fatal_kind_at e (en_cause en e) (en_names_root en e); sep = wd_sep (en_world en)
      in if kind \<noteq> Fatal_none then (Some (Run_fatal kind), s)
         else case e of
           Unsafe_token \<Rightarrow> (Some (Failed e), s)
         | Folder_error dir \<Rightarrow>
             (case run_probe en s of
                (Some err, s) \<Rightarrow> (Some err, s)
              | (None, s) \<Rightarrow>
                  let s = count_export_fault (s\<lparr>sr_unwritable := mput dir True (sr_unwritable s)\<rparr>)
                  in count_streak e (run_observe sep (unwritable_gap fk (en_text en e)) s))
         | Item_error path \<Rightarrow>
             (case run_probe en s of
                (Some err, s) \<Rightarrow> (Some err, s)
              | (None, s) \<Rightarrow>
                  count_streak e (run_observe sep (item_gap m fk ''export-failed'' class_fillable (en_text en e))
                    (count_export_fault s))))"

definition run_handle :: "surroundings \<Rightarrow> string list \<Rightarrow> message \<Rightarrow> source_run \<Rightarrow> walk_error option \<times> source_run" where
  "run_handle en folder_path m s =
     (let fk = join CHR ''/'' folder_path; dir = rel_path (sr_token s # folder_path); sep = wd_sep (en_world en);
          ex = lr_exp (sr_lr s)
      in if run_stop en \<noteq> None then (run_stop en, s)
         else if mget (sr_unwritable s) dir = Some True
           \<and> (ex_mode ex \<noteq> Incremental \<or> \<not> has_key (ex_manifest ex) (folder_key (sr_token s) fk (identity m)))
         then (None, run_observe sep (unwritable_gap fk []) s)
         else case export (en_world en) (sr_token s) folder_path m ex of (out, ex') \<Rightarrow>
           let s = s\<lparr>sr_lr := (sr_lr s)\<lparr>lr_exp := ex'\<rparr>\<rparr>
           in case out of
             Panicked \<Rightarrow>
               (None, run_observe sep (item_gap m fk ''export-panic'' class_terminal (en_panic en)) (count_export_panic s))
           | Wrote \<Rightarrow> (None, run_recovered m fk (s\<lparr>sr_wrote := True, sr_streak := 0\<rparr>))
           | Skipped \<Rightarrow> (None, close_vanished_this_run m s)
           | Refused e \<Rightarrow> run_refused en fk m e s)"

subsection \<open>The end of a walk\<close>

definition export_stage_gap :: "string \<Rightarrow> bool" where
  "export_stage_gap reason \<longleftrightarrow>
     reason \<in> {''export-failed'', ''export-panic'', ''folder-unwritable'', ''refresh-failed''}"

definition pst_reader_gap :: "string \<Rightarrow> bool" where
  "pst_reader_gap reason \<longleftrightarrow> reason \<in> {''pst-message-unreadable'', ''pst-messages-unreadable'', ''pst-row-unreadable'',
     ''pst-row-invalid'', ''folder-unreadable'', ''folder-partially-read'', ''folder-cycle'', ''folder-too-deep'',
     ''overflow'', ''outlook-export-skipped'', ''outlook-account-skipped''}"

definition local_reader_gap :: "string \<Rightarrow> string \<Rightarrow> bool" where
  "local_reader_gap reason locator \<longleftrightarrow>
     (if reason \<in> {''file-unreadable'', ''vanished-during-read''} then has_prefix locator ''maildir:''
      else reason \<in> {''folder-unreadable'', ''folder-partially-read'', ''symlink-outside-store'',
        ''symlinked-folder-skipped'', ''not-a-message-file'', ''folder-cycle'', ''folder-too-deep'', ''overflow''})"

definition run_covered :: "source_run \<Rightarrow> capture_gap \<Rightarrow> bool" where
  "run_covered s g \<longleftrightarrow>
     (if \<not> sr_reports_faults s \<and> \<not> export_stage_gap (g_reason g) then False
      else if sr_folder_flood s then False
      else if sr_reports_faults s \<and> \<not> export_stage_gap (g_reason g)
        \<and> (sr_local s \<and> \<not> local_reader_gap (g_reason g) (g_locator g) \<or> \<not> sr_local s \<and> \<not> pst_reader_gap (g_reason g))
      then False
      else if g_reason g = ''outlook-export-skipped'' \<and> g_folder g \<noteq> [] \<and> \<not> sr_fresh_outlook s
        \<and> mget (sr_seen_folders s) (g_folder g) \<noteq> Some True
      then False
      else \<not> list_ex (\<lambda>p. p = [] \<or> g_folder g = p \<or> has_prefix (g_folder g) (p @ ''/'')) (sr_folder_faults s))"

text \<open>
  How a walk ended: the faults a reader without a callback returned and, when it did not complete, the
  error that ended it.
\<close>

definition run_finish :: "char \<Rightarrow> fault list \<Rightarrow> walk_error option \<Rightarrow> source_run \<Rightarrow> walk_error option \<times> source_run" where
  "run_finish sep faults ended s =
     (let s = settle_read_gaps (fold (on_reader_fault sep) faults s)
      in if ended \<noteq> None then (ended, s)
         else let res = close_unobserved (sr_token s) (Some (run_covered s)) (run_at_of s)
                          (ex_since (lr_exp (sr_lr s))) (ledger_of s);
                  s = with_ledger (\<lambda>_. snd res) s
         in (None, s\<lparr>sr_lr := (sr_lr s)\<lparr>lr_closed_gone := lr_closed_gone (sr_lr s) + fst res\<rparr>\<rparr>))"

end
