(* ===== verification/GraphFaults.thy ===== *)
theory GraphFaults
  imports SourceRun Breaker
begin

text \<open>
  What goes wrong in the walk of one mailbox (\<^verbatim>\<open>internal/app/graphfaults.go\<close>,
  \<^verbatim>\<open>graphbreaker.go\<close>, and \<^verbatim>\<open>Classify\<close> of \<^verbatim>\<open>internal/graph/graph.go\<close>):
  which faults end the mailbox, what a fault on one message or folder records, and what it does to the
  run's gone-detection.  An error is the typed errors of its chain; the service's answers are parameters.
\<close>

subsection \<open>Is an answer a message\<close>

definition message_fields :: "string list" where
  "message_fields = [''from'', ''date'', ''message-id'', ''subject'', ''to'', ''received'', ''mime-version'',
     ''content-type'', ''return-path'', ''sender'']"

definition header_scan_limit :: nat where "header_scan_limit = 256 * 1024"

definition field_char :: "char \<Rightarrow> bool" where
  "field_char c \<longleftrightarrow> in_range 97 122 (of_char c :: nat) \<or> in_range 65 90 (of_char c :: nat)
     \<or> in_range 48 57 (of_char c :: nat) \<or> c = CHR ''-'' \<or> c = CHR ''_''"

definition split_line :: "string \<Rightarrow> string \<times> string" where
  "split_line data = (takeWhile (\<lambda>c. c \<noteq> CHR 0x0A) data, drop 1 (dropWhile (\<lambda>c. c \<noteq> CHR 0x0A) data))"

lemma split_line_less: "data \<noteq> [] \<Longrightarrow> length (snd (split_line data)) < length data"
proof -
  assume "data \<noteq> []"
  then have "0 < length data" by simp
  with length_dropWhile_le [of "\<lambda>c. c \<noteq> CHR 0x0A" data] show ?thesis
    unfolding split_line_def snd_conv length_drop by linarith
qed

function header_scan :: "bool \<Rightarrow> bool \<Rightarrow> string \<Rightarrow> bool" where
  "header_scan first corroborated data =
     (if data = [] then corroborated
      else let line = trim_suffix (fst (split_line data)) [CHR 0x0D]; rest = snd (split_line data);
               name = takeWhile (\<lambda>c. c \<noteq> CHR '':'') line
      in if line = [] then corroborated
         else if hd line = CHR '' '' \<or> hd line = CHR 0x09
         then (if first then False else header_scan False corroborated rest)
         else if name = [] \<or> name = line
         then (if first then False else header_scan False corroborated rest)
         else if \<not> list_all field_char name
         then (if first then False else header_scan False corroborated rest)
         else header_scan False (corroborated \<or> lower_ascii name \<in> set message_fields) rest)"
  by pat_completeness auto
termination
  by (relation "measure (\<lambda>(_, _, data). length data)") (auto simp: split_line_less)

declare header_scan.simps [simp del]

definition looks_like_message :: "string \<Rightarrow> bool" where
  "looks_like_message data = header_scan True False (take header_scan_limit data)"

subsection \<open>The class of an error\<close>

record graph_error =
  ge_redirect :: bool
  ge_refresh :: bool
  ge_status :: "(nat \<times> string) option"
  ge_timeout :: bool
  ge_too_large :: bool
  ge_no_answer :: bool
  ge_text :: string

definition not_a_message :: graph_error where
  "not_a_message = \<lparr>ge_redirect = False, ge_refresh = False, ge_status = None, ge_timeout = False,
     ge_too_large = False, ge_no_answer = False,
     ge_text = ''the answer to the download is not an e-mail message (it has no RFC 5322 header)''\<rparr>"

datatype graph_class = Class_none | Class_cancelled | Class_auth | Class_forbidden | Class_not_found
  | Class_transport | Class_timeout | Class_too_large | Class_failed

definition classify_status :: "nat \<Rightarrow> string \<Rightarrow> graph_class \<times> bool" where
  "classify_status code graph_code =
     (if code = 401 then (Class_auth, False)
      else if code = 403 then (Class_forbidden, False)
      else if code = 404 \<or> graph_code = ''ErrorItemNotFound'' then (Class_not_found, False)
      else if code \<in> {429, 502, 503, 504} then (Class_transport, True)
      else (Class_failed, False))"

definition classify :: "graph_error option \<Rightarrow> bool \<Rightarrow> graph_class \<times> bool" where
  "classify err walk_done = (case err of
     None \<Rightarrow> (Class_none, False)
   | Some e \<Rightarrow>
       if walk_done then (Class_cancelled, False)
       else if ge_refresh e then (Class_auth, False)
       else case ge_status e of
         Some (code, graph_code) \<Rightarrow> classify_status code graph_code
       | None \<Rightarrow>
           if ge_timeout e then (Class_timeout, True)
           else if ge_too_large e then (Class_too_large, False)
           else if ge_no_answer e then (Class_transport, True)
           else (Class_failed, False))"

record fetch_class =
  fc_reason :: string
  fc_class :: string
  fc_fatal :: bool
  fc_transport :: bool

definition item_class :: "string \<Rightarrow> string \<Rightarrow> bool \<Rightarrow> fetch_class" where
  "item_class reason cls transport =
     \<lparr>fc_reason = reason, fc_class = cls, fc_fatal = False, fc_transport = transport\<rparr>"

definition fatal_class :: fetch_class where
  "fatal_class = \<lparr>fc_reason = [], fc_class = [], fc_fatal = True, fc_transport = False\<rparr>"

definition classify_fetch :: "graph_error option \<Rightarrow> bool \<Rightarrow> fetch_class" where
  "classify_fetch err walk_done = (case err of
     None \<Rightarrow> item_class [] [] False
   | Some e \<Rightarrow>
       if walk_done then fatal_class
       else if ge_redirect e then item_class ''fetch-failed'' class_fillable False
       else case classify err walk_done of (c, transport) \<Rightarrow>
         (case c of
            Class_cancelled \<Rightarrow> fatal_class | Class_auth \<Rightarrow> fatal_class | Class_forbidden \<Rightarrow> fatal_class
          | Class_not_found \<Rightarrow> item_class ''vanished-at-fetch'' class_fillable False
          | Class_transport \<Rightarrow> item_class ''fetch-transport'' class_fillable transport
          | Class_timeout \<Rightarrow> item_class ''fetch-timeout'' class_fillable transport
          | Class_too_large \<Rightarrow> item_class ''fetch-too-large'' class_terminal False
          | _ \<Rightarrow> item_class ''fetch-failed'' class_fillable False))"

definition classify_listing :: "graph_error \<Rightarrow> bool \<Rightarrow> bool \<times> bool" where
  "classify_listing err walk_done =
     (let c = classify_fetch (Some err) walk_done in (fc_fatal c, fc_transport c))"

subsection \<open>The state of a mailbox's walk\<close>

record message_ref =
  mr_id :: string
  mr_mid :: string
  mr_received :: gotime
  mr_phys_id :: string
  mr_subject :: string
  mr_importance :: string
  mr_is_read :: "bool option"
  mr_categories :: "string list"
  mr_sensitivity :: string

record mailbox_walk =
  mw_s :: source_run
  mw_walked_gap :: "(string, bool) gomap"
  mw_folder_fault :: bool
  mw_spare :: sweep_spare
  mw_phys_keys :: "(string, string list) gomap option"
  mw_breaker :: breaker
  mw_walked :: "(string, bool) gomap"
  mw_moves :: "(string \<times> string) list"

text \<open>The control request that decides whether the service or the items fail.\<close>

datatype control = Answered | Unanswered | Walk_cancelled

datatype mailbox_error = Ended walk_error | Fatal_fetch graph_error | Fatal_listing graph_error
  | Tripped threshold | Cancelled

definition mw_exp :: "mailbox_walk \<Rightarrow> exporter" where
  "mw_exp w = lr_exp (sr_lr (mw_s w))"

definition mw_man :: "mailbox_walk \<Rightarrow> manifest" where
  "mw_man w = ex_manifest (mw_exp w)"

definition mw_token :: "mailbox_walk \<Rightarrow> string" where
  "mw_token w = sr_token (mw_s w)"

definition mw_run_at :: "mailbox_walk \<Rightarrow> gotime" where
  "mw_run_at w = run_at_of (mw_s w)"

abbreviation on_run :: "(source_run \<Rightarrow> source_run) \<Rightarrow> mailbox_walk \<Rightarrow> mailbox_walk" where
  "on_run f w \<equiv> w\<lparr>mw_s := f (mw_s w)\<rparr>"

definition on_exp :: "(exporter \<Rightarrow> exporter) \<Rightarrow> mailbox_walk \<Rightarrow> mailbox_walk" where
  "on_exp f = on_run (with_exp f)"

definition on_man :: "(manifest \<Rightarrow> manifest) \<Rightarrow> mailbox_walk \<Rightarrow> mailbox_walk" where
  "on_man f = on_exp (\<lambda>ex. ex\<lparr>ex_manifest := f (ex_manifest ex)\<rparr>)"

definition graph_locator :: "message_ref \<Rightarrow> string" where
  "graph_locator ref = bound_locator (''graph:'' @ mr_id ref)"

definition folder_locator :: "string \<Rightarrow> string" where
  "folder_locator s = bound_locator (''folder:'' @ s)"

definition legacy_stub_at :: "gotime \<Rightarrow> string" where
  "legacy_stub_at t = identity (zero_message\<lparr>ms_subject := legacy_placeholder_subject, ms_received := t\<rparr>)"

definition parse_stub :: "message \<Rightarrow> bool" where
  "parse_stub m \<longleftrightarrow> identity m = legacy_stub_identity \<or> label_unparsed \<in> set (ms_read_gaps m)"

definition same_token :: "string \<Rightarrow> mailbox_walk \<Rightarrow> ident_ref list \<times> mailbox_walk" where
  "same_token i w = (let (refs, man) = keys_for_identity i (mw_man w)
     in (filter (\<lambda>s. has_prefix (ir_key s) (mw_token w @ key_separator)) refs, on_man (\<lambda>_. man) w))"

definition phys_table :: "mailbox_walk \<Rightarrow> (string, string list) gomap \<times> mailbox_walk" where
  "phys_table w = (case mw_phys_keys w of
     Some t \<Rightarrow> (t, w)
   | None \<Rightarrow> let t = phys_id_keys (mw_token w) (mw_man w) in (t, w\<lparr>mw_phys_keys := Some t\<rparr>))"

definition touch_all :: "string list \<Rightarrow> gotime \<Rightarrow> manifest \<Rightarrow> manifest" where
  "touch_all keys t m = fold (\<lambda>k m. snd (touch_seen k t m)) keys m"

subsection \<open>What a fault on one item does to the sweep\<close>

definition stamp_identity :: "string \<Rightarrow> mailbox_walk \<Rightarrow> bool \<times> mailbox_walk" where
  "stamp_identity i w = (case same_token i w of (sibs, w) \<Rightarrow>
     (sibs \<noteq> [], on_man (touch_all (map ir_key sibs) (mw_run_at w)) w))"

definition stamp_phys :: "string \<Rightarrow> mailbox_walk \<Rightarrow> bool \<times> mailbox_walk" where
  "stamp_phys i w = (case phys_table w of (t, w) \<Rightarrow>
     (mlist t i \<noteq> [], on_man (touch_all (mlist t i) (mw_run_at w)) w))"

definition fault_identity :: "message_ref \<Rightarrow> message option \<Rightarrow> mailbox_walk \<Rightarrow> bool \<times> mailbox_walk" where
  "fault_identity ref parsed w =
     (let (a, w) = (if mr_mid ref \<noteq> [] then stamp_identity (''mid:'' @ mr_mid ref) w else (False, w));
          (b, w) = (case parsed of Some m \<Rightarrow> stamp_identity (identity m) w | None \<Rightarrow> (False, w));
          (c, w) = (if mr_phys_id ref \<noteq> [] then stamp_phys (mr_phys_id ref) w else (False, w))
      in if a \<or> b \<or> c then (False, w)
         else (True, w\<lparr>mw_spare := (if mr_phys_id ref = []
                 then (mw_spare w)\<lparr>sp_no_phys_id := True, sp_sha_identity := True, sp_all_records := True\<rparr>
                 else (mw_spare w)\<lparr>sp_no_phys_id := True\<rparr>)\<rparr>))"

definition graph_item_gap :: "message_ref \<Rightarrow> string \<Rightarrow> string \<Rightarrow> string \<Rightarrow> string \<Rightarrow> capture_gap" where
  "graph_item_gap ref fk reason cls detail = (new_gap fk gap_scope_item (graph_locator ref) reason cls detail 0)
     \<lparr>g_subject := mr_subject ref,
      g_received := (if mr_received ref = zero_time then [] else format_rfc3339 (mr_received ref))\<rparr>"

definition observe_item ::
  "char \<Rightarrow> message_ref \<Rightarrow> message option \<Rightarrow> string \<Rightarrow> string \<Rightarrow> string \<Rightarrow> string \<Rightarrow> mailbox_walk \<Rightarrow> mailbox_walk" where
  "observe_item sep ref parsed fk reason cls detail w =
     (case fault_identity ref parsed w of (defers, w) \<Rightarrow>
       on_run (run_observe sep ((graph_item_gap ref fk reason cls detail)\<lparr>g_defers_gone := defers\<rparr>)) w)"

definition folder_unwritable :: "char \<Rightarrow> string \<Rightarrow> string \<Rightarrow> bool \<Rightarrow> mailbox_walk \<Rightarrow> mailbox_walk" where
  "folder_unwritable sep fk detail defers =
     on_run (run_observe sep ((new_gap fk gap_scope_folder (folder_locator fk) ''folder-unwritable'' class_fillable
       detail 1)\<lparr>g_defers_gone := defers\<rparr>))"

subsection \<open>What the mailbox already holds\<close>

definition holds_stub :: "manifest \<Rightarrow> string \<Rightarrow> bool" where
  "holds_stub man key \<longleftrightarrow> (case mget (m_entries man) key of None \<Rightarrow> False | Some r \<Rightarrow> rec_has_labels r [label_unparsed])"

definition has_record :: "message_ref \<Rightarrow> mailbox_walk \<Rightarrow> bool \<times> mailbox_walk" where
  "has_record ref w =
     (let (sibs, w) = (if mr_mid ref \<noteq> [] then same_token (''mid:'' @ mr_mid ref) w else ([], w))
      in if sibs \<noteq> [] then (True, w)
         else if mr_phys_id ref = [] then (False, w)
         else case phys_table w of (t, w) \<Rightarrow> (mlist t (mr_phys_id ref) \<noteq> [], w))"

definition archived_copy :: "message_ref \<Rightarrow> mailbox_walk \<Rightarrow> bool \<times> mailbox_walk" where
  "archived_copy ref w =
     (let (sibs, w) = (if mr_mid ref \<noteq> [] then same_token (''mid:'' @ mr_mid ref) w else ([], w))
      in if list_ex (\<lambda>s. \<not> holds_stub (mw_man w) (ir_key s)) sibs then (True, w)
         else if mr_phys_id ref = [] then (False, w)
         else case phys_table w of (t, w) \<Rightarrow>
           (list_ex (\<lambda>k. \<not> holds_stub (mw_man w) k) (mlist t (mr_phys_id ref)), w))"

text \<open>The stub rule: whether the capture of a message whose parse gave up is held back.\<close>

definition graph_stub ::
  "char \<Rightarrow> message_ref \<Rightarrow> message \<Rightarrow> string \<Rightarrow> mailbox_walk \<Rightarrow> (bool \<times> message) \<times> mailbox_walk" where
  "graph_stub sep ref m fk w =
     (if mr_mid ref = [] then ((False, m), w)
      else case archived_copy ref w of
        (True, w) \<Rightarrow>
          ((True, m), on_run (run_observe sep (graph_item_gap ref fk ''refresh-failed'' class_info
             ''a newer read of this item could not be parsed; the archived copy was kept unchanged''))
             (on_exp (counted (\<lambda>s. s\<lparr>s_kept := s_kept s + 1\<rparr>)) (snd (fault_identity ref None w))))
      | (False, w) \<Rightarrow>
          ((False, set_internet_message_id (mr_mid ref) m),
           on_man (\<lambda>man. snd (adopt_legacy_graph_stubs (mw_token w) (mr_phys_id ref) (mr_received ref)
             (mw_run_at w) (Some legacy_stub_at) man)) w))"

definition graph_recovered :: "message_ref \<Rightarrow> mailbox_walk \<Rightarrow> mailbox_walk" where
  "graph_recovered ref w =
     on_run (answer_gap (close_gap (gap_key (mw_token w) gap_scope_item (graph_locator ref)))) w"

definition known_poison :: "message_ref \<Rightarrow> string \<Rightarrow> mailbox_walk \<Rightarrow> bool" where
  "known_poison ref reason w \<longleftrightarrow>
     (case gap_for (gap_key (mw_token w) gap_scope_item (graph_locator ref)) (ledger_of (mw_s w)) of
        None \<Rightarrow> False | Some g \<Rightarrow> g_reason g = reason \<and> g_last_run g \<noteq> mw_run_at w)"

definition breaker_check :: "control \<Rightarrow> threshold option \<Rightarrow> mailbox_walk \<Rightarrow> mailbox_error option \<times> mailbox_walk" where
  "breaker_check ctl fired w = (case fired of
     None \<Rightarrow> (None, w)
   | Some t \<Rightarrow> (case ctl of
        Answered \<Rightarrow> (None, w\<lparr>mw_breaker := reset_breaker (mw_breaker w)\<rparr>)
      | Walk_cancelled \<Rightarrow> (Some Cancelled, w)
      | Unanswered \<Rightarrow> (Some (Tripped t), w)))"

definition note_breaker :: "attempt_kind \<Rightarrow> duration \<Rightarrow> mailbox_walk \<Rightarrow> threshold option \<times> mailbox_walk" where
  "note_breaker kind took w = (case attempt kind took (mw_breaker w) of (fired, b) \<Rightarrow> (fired, w\<lparr>mw_breaker := b\<rparr>))"

subsection \<open>A failed download, a failed listing\<close>

text \<open>A fault of a message before the window that has no record costs nothing but its count.\<close>

definition fetch_cost ::
  "char \<Rightarrow> message_ref \<Rightarrow> string \<Rightarrow> graph_error \<Rightarrow> fetch_class \<Rightarrow> mailbox_walk \<Rightarrow> mailbox_walk" where
  "fetch_cost sep ref fk err c w =
     (let since = ex_since (mw_exp w);
          old = (since \<noteq> zero_time \<and> mr_received ref \<noteq> zero_time \<and> mr_received ref < since);
          (known, w) = (if old then has_record ref w else (True, w))
      in if old \<and> \<not> known
         then snd (fault_identity ref None (on_exp (counted (\<lambda>s. s\<lparr>s_skipped_date := s_skipped_date s + 1\<rparr>)) w))
         else let (sibs, w) = (if ex_mode (mw_exp w) = Full \<and> mr_mid ref \<noteq> []
                               then same_token (''mid:'' @ mr_mid ref) w else ([], w));
                  (reason, cls) = (if sibs \<noteq> [] then (''refresh-failed'', class_info) else (fc_reason c, fc_class c))
              in observe_item sep ref None fk reason cls (ge_text err) w)"

definition fetch_fault ::
  "char \<Rightarrow> control \<Rightarrow> bool \<Rightarrow> message_ref \<Rightarrow> string \<Rightarrow> graph_error \<Rightarrow> duration \<Rightarrow> mailbox_walk
     \<Rightarrow> mailbox_error option \<times> mailbox_walk" where
  "fetch_fault sep ctl walk_done ref fk err took w =
     (let c = classify_fetch (Some err) walk_done
      in if fc_fatal c then (Some (Fatal_fetch err), w)
         else let kind = (if fc_transport c \<and> \<not> known_poison ref (fc_reason c) w then Attempt_counted else Attempt_item_fault);
                  (fired, w) = note_breaker kind took (fetch_cost sep ref fk err c w)
              in breaker_check ctl fired w)"

definition listing_fault ::
  "char \<Rightarrow> control \<Rightarrow> bool \<Rightarrow> string \<Rightarrow> string \<Rightarrow> graph_error \<Rightarrow> duration \<Rightarrow> mailbox_walk
     \<Rightarrow> mailbox_error option \<times> mailbox_walk" where
  "listing_fault sep ctl walk_done folder_id fk err took w =
     (case classify_listing err walk_done of (fatal, transport) \<Rightarrow>
       if fatal then (Some (Fatal_listing err), w)
       else let w = on_run (run_observe sep (new_gap fk gap_scope_folder (folder_locator folder_id) ''folder-list-failed''
                        class_fillable (ge_text err) 0)) (w\<lparr>mw_folder_fault := True\<rparr>)
            in if \<not> transport then (None, w)
               else case note_breaker Attempt_counted took w of (fired, w) \<Rightarrow> breaker_check ctl fired w)"

definition folder_read :: "string \<Rightarrow> string \<Rightarrow> mailbox_walk \<Rightarrow> mailbox_walk" where
  "folder_read folder_id fk w =
     on_run (answer_gap (close_gap_reason (gap_key (mw_token w) gap_scope_folder (folder_locator folder_id))
               ''folder-list-failed''))
       (w\<lparr>mw_walked_gap := mput (gap_folder fk) True (mw_walked_gap w)\<rparr>)"

definition graph_covered :: "mailbox_walk \<Rightarrow> capture_gap \<Rightarrow> bool" where
  "graph_covered w g \<longleftrightarrow> mget (mw_walked_gap w) (g_folder g) = Some True"

end
