(* ===== verification/GraphWalk.thy ===== *)
theory GraphWalk
  imports GraphFaults
begin

text \<open>
  The walk of one mailbox (\<^verbatim>\<open>runGraphMailbox\<close> of \<^verbatim>\<open>internal/app/graph.go\<close>,
  \<^verbatim>\<open>exportOne\<close> of \<^verbatim>\<open>graphfaults.go\<close>): each listed message is skipped by what the
  manifest holds or downloaded and exported, each folder is walked or costs a gap, and a walk that reached
  the end marks what it did not see as gone and closes what it did not meet again.  The service is a
  script: the folders with their messages, what each download and control request answers, how each
  listing ended.  The search index and the log's bytes are left out; a recorded move is its key and folder.
\<close>

subsection \<open>One downloaded message\<close>

definition graph_importance :: "string \<Rightarrow> string" where
  "graph_importance s = (let t = lower_ascii (trim_space s)
     in if t = ''high'' then ''high'' else if t = ''low'' then ''low'' else [])"

definition apply_graph_state :: "message \<Rightarrow> message_ref \<Rightarrow> message" where
  "apply_graph_state m ref =
     (let m = m\<lparr>ms_importance := graph_importance (mr_importance ref)\<rparr>;
          m = (if mr_sensitivity ref \<noteq> [] then m\<lparr>ms_sensitivity := mr_sensitivity ref\<rparr> else m);
          m = (case mr_is_read ref of Some b \<Rightarrow> m\<lparr>ms_unread := \<not> b\<rparr> | None \<Rightarrow> m);
          m = (if mr_received ref \<noteq> zero_time
               then m\<lparr>ms_received := mr_received ref,
                      ms_terms := map_option (\<lambda>t. if it_no_date t then t\<lparr>it_no_date := False\<rparr> else t) (ms_terms m)\<rparr>
               else m);
          m = (if mr_categories ref \<noteq> [] then m\<lparr>ms_categories := mr_categories ref\<rparr> else m)
      in m\<lparr>ms_phys_id := mr_phys_id ref\<rparr>)"

definition graph_wrote :: "message_ref \<Rightarrow> string \<Rightarrow> mailbox_walk \<Rightarrow> mailbox_walk" where
  "graph_wrote ref fk w =
     (let w = graph_recovered ref (on_run (\<lambda>s. s\<lparr>sr_wrote := True, sr_streak := 0\<rparr>) w)
      in on_run (answer_gap (close_gap_reason (gap_key (mw_token w) gap_scope_folder (folder_locator fk))
                   ''folder-unwritable'')) w)"

definition graph_streak :: "export_error \<Rightarrow> mailbox_walk \<Rightarrow> mailbox_error option \<times> mailbox_walk" where
  "graph_streak e w = (case count_streak e (mw_s w) of (err, s) \<Rightarrow> (map_option Ended err, w\<lparr>mw_s := s\<rparr>))"

definition graph_refused ::
  "surroundings \<Rightarrow> message_ref \<Rightarrow> string \<Rightarrow> message \<Rightarrow> export_error \<Rightarrow> mailbox_walk \<Rightarrow> mailbox_error option \<times> mailbox_walk" where
  "graph_refused en ref fk m e w =
     (let kind = fatal_kind_at e (en_cause en e) (en_names_root en e); sep = wd_sep (en_world en)
      in if kind \<noteq> Fatal_none then (Some (Ended (Run_fatal kind)), w)
         else case e of
           Unsafe_token \<Rightarrow> (Some (Ended (Failed e)), w)
         | Folder_error dir \<Rightarrow>
             (case run_probe en (mw_s w) of
                (Some err, s) \<Rightarrow> (Some (Ended err), w\<lparr>mw_s := s\<rparr>)
              | (None, s) \<Rightarrow>
                  let w = w\<lparr>mw_s := count_export_fault (s\<lparr>sr_unwritable := mput dir True (sr_unwritable s)\<rparr>)\<rparr>;
                      (defers, w) = fault_identity ref (Some m) w
                  in graph_streak e (folder_unwritable sep fk (en_text en e) defers w))
         | Item_error path \<Rightarrow>
             (case run_probe en (mw_s w) of
                (Some err, s) \<Rightarrow> (Some (Ended err), w\<lparr>mw_s := s\<rparr>)
              | (None, s) \<Rightarrow>
                  graph_streak e (observe_item sep ref (Some m) fk ''export-failed'' class_fillable (en_text en e)
                    (w\<lparr>mw_s := count_export_fault s\<rparr>))))"

definition export_one ::
  "surroundings \<Rightarrow> message_ref \<Rightarrow> string list \<Rightarrow> message \<Rightarrow> mailbox_walk \<Rightarrow> mailbox_error option \<times> mailbox_walk" where
  "export_one en ref path m w =
     (let fk = join CHR ''/'' path; sep = wd_sep (en_world en)
      in case export (en_world en) (mw_token w) path m (mw_exp w) of (out, ex) \<Rightarrow>
        let w = on_exp (\<lambda>_. ex) w
        in case out of
          Panicked \<Rightarrow>
            (None, observe_item sep ref (Some m) fk ''export-panic'' class_terminal (en_panic en)
                     (on_run count_export_panic w))
        | Wrote \<Rightarrow> (None, graph_wrote ref fk w)
        | Skipped \<Rightarrow> (None, w)
        | Refused e \<Rightarrow> graph_refused en ref fk m e w)"

subsection \<open>Recognising an archived message before the download\<close>

record skip_choice =
  sc_key :: string
  sc_matched :: bool
  sc_skip :: bool

definition choose_skip :: "string \<Rightarrow> string \<Rightarrow> ident_ref list \<Rightarrow> manifest \<Rightarrow> skip_choice" where
  "choose_skip base phys sibs man =
     (let key = (if mhas (m_entries man) base then base else ir_key (hd sibs));
          c = (if phys = [] then \<lparr>sc_key = key, sc_matched = False, sc_skip = True\<rparr>
               else case find (\<lambda>s. has_phys_id (ir_key s) phys man) sibs of
                 Some s \<Rightarrow> \<lparr>sc_key = ir_key s, sc_matched = True, sc_skip = True\<rparr>
               | None \<Rightarrow> \<lparr>sc_key = key, sc_matched = False,
                   sc_skip = list_ex (\<lambda>s. case mget (m_entries man) (ir_key s) of
                               None \<Rightarrow> True | Some r \<Rightarrow> r_content_hash r = []) sibs\<rparr>)
      in case mget (m_entries man) (sc_key c) of
           Some r \<Rightarrow> if sc_skip c \<and> stale_unparsed r parser_gen_current then c\<lparr>sc_skip := False\<rparr> else c
         | None \<Rightarrow> c)"

definition record_move :: "string \<Rightarrow> string \<Rightarrow> mailbox_walk \<Rightarrow> mailbox_walk" where
  "record_move key fk w = w\<lparr>mw_moves := mw_moves w @ [(key, fk)]\<rparr>"

definition fast_skip :: "skip_choice \<Rightarrow> string \<Rightarrow> ident_ref list \<Rightarrow> message_ref \<Rightarrow> string \<Rightarrow> mailbox_walk \<Rightarrow> mailbox_walk" where
  "fast_skip c i sibs ref fk w =
     (let key = sc_key c; t = mw_run_at w;
          rec = (case mget (m_entries (mw_man w)) key of Some r \<Rightarrow> r | None \<Rightarrow> zero_rec);
          resolved = (unknown rec \<and> fst (resolve key (mw_man w)));
          w = (if unknown rec then on_man (\<lambda>m. snd (resolve key m)) w else w);
          w = (if resolved then on_exp (counted (\<lambda>s. s\<lparr>s_resolved := s_resolved s + 1\<rparr>)) w else w);
          w = on_man (\<lambda>m. snd (merge_fields key fk t True m)) w;
          w = (if r_folder rec \<noteq> fk \<or> \<not> r_present rec then record_move key fk w else w);
          w = (if sc_matched c then w
               else on_man (touch_all (filter (\<lambda>k. k \<noteq> key) (map ir_key sibs)) t) w);
          w = on_exp (note_id_reuse i (length sibs)) w;
          w = on_exp (counted (\<lambda>s. s\<lparr>s_skipped_manifest := s_skipped_manifest s + 1\<rparr>)) w
      in graph_recovered ref w)"

text \<open>The fast path: whether the message was skipped.\<close>

definition fast_path :: "message_ref \<Rightarrow> string \<Rightarrow> mailbox_walk \<Rightarrow> bool \<times> mailbox_walk" where
  "fast_path ref fk w =
     (if \<not> (ex_mode (mw_exp w) = Incremental \<and> mr_mid ref \<noteq> []) then (False, w)
      else let i = ''mid:'' @ mr_mid ref
      in case same_token i w of (sibs, w) \<Rightarrow>
           if sibs = [] then (False, w)
           else let c = choose_skip (live_key (mw_token w) i) (mr_phys_id ref) sibs (mw_man w)
                in if sc_skip c then (True, fast_skip c i sibs ref fk w) else (False, w))"

subsection \<open>One listed message\<close>

record answer =
  an_en :: surroundings
  an_fetch :: "graph_error + string"
  an_took :: duration
  an_parse :: "string \<Rightarrow> message option"
  an_control :: control
  an_walk_done :: bool

definition download :: "answer \<Rightarrow> message_ref \<Rightarrow> string list \<Rightarrow> mailbox_walk \<Rightarrow> mailbox_error option \<times> mailbox_walk" where
  "download an ref path w =
     (let fk = join CHR ''/'' path; sep = wd_sep (en_world (an_en an));
          fault = (\<lambda>err. fetch_fault sep (an_control an) (an_walk_done an) ref fk err (an_took an) w)
      in case an_fetch an of
           Inl err \<Rightarrow> fault err
         | Inr data \<Rightarrow>
             if \<not> looks_like_message data then fault not_a_message
             else let w = snd (note_breaker Attempt_OK 0 w)
                  in case an_parse an data of
                       None \<Rightarrow> (None, observe_item sep ref None fk ''export-failed'' class_fillable
                                 ''the message could not be parsed'' w)
                     | Some m0 \<Rightarrow>
                         let m = apply_graph_state m0 ref
                         in if \<not> parse_stub m0 then export_one (an_en an) ref path m w
                            else case graph_stub sep ref m fk w of ((held, m), w) \<Rightarrow>
                              if held then (None, w) else export_one (an_en an) ref path m w)"

definition visit :: "answer \<Rightarrow> message_ref \<Rightarrow> string list \<Rightarrow> mailbox_walk \<Rightarrow> mailbox_error option \<times> mailbox_walk" where
  "visit an ref path w =
     (let fk = join CHR ''/'' path; sep = wd_sep (en_world (an_en an))
      in if en_stop (an_en an) then (Some (Ended Stopped), w)
         else case fast_path ref fk w of
           (True, w) \<Rightarrow> (None, w)
         | (False, w) \<Rightarrow>
             if mget (sr_unwritable (mw_s w)) (rel_path (mw_token w # path)) = Some True
             then case fault_identity ref None w of (defers, w) \<Rightarrow> (None, folder_unwritable sep fk [] defers w)
             else download an ref path w)"

subsection \<open>A folder, a mailbox\<close>

record folder_script =
  fs_id :: string
  fs_path :: "string list"
  fs_messages :: "(message_ref \<times> answer) list"
  fs_stop :: bool
  fs_end :: "graph_error option"
  fs_took :: duration
  fs_control :: control
  fs_walk_done :: bool
  fs_sep :: char

fun visit_all :: "(message_ref \<times> answer) list \<Rightarrow> string list \<Rightarrow> mailbox_walk \<Rightarrow> mailbox_error option \<times> mailbox_walk" where
  "visit_all [] path w = (None, w)"
| "visit_all ((ref, an) # rest) path w = (case visit an ref path w of
     (Some err, w) \<Rightarrow> (Some err, w)
   | (None, w) \<Rightarrow> visit_all rest path w)"

definition walk_folder :: "folder_script \<Rightarrow> mailbox_walk \<Rightarrow> mailbox_error option \<times> mailbox_walk" where
  "walk_folder f w =
     (let fk = join CHR ''/'' (fs_path f)
      in if fs_stop f then (Some Cancelled, w)
         else case visit_all (fs_messages f) (fs_path f) w of
           (Some err, w) \<Rightarrow> (Some err, w)
         | (None, w) \<Rightarrow>
             (case fs_end f of
                Some err \<Rightarrow> listing_fault (fs_sep f) (fs_control f) (fs_walk_done f) (fs_id f) fk err (fs_took f) w
              | None \<Rightarrow> (None, folder_read (fs_id f) fk (w\<lparr>mw_walked := walked_mark fk (mw_walked w)\<rparr>))))"

fun walk_folders :: "folder_script list \<Rightarrow> mailbox_walk \<Rightarrow> mailbox_error option \<times> mailbox_walk" where
  "walk_folders [] w = (None, w)"
| "walk_folders (f # fs) w = (case walk_folder f w of
     (Some err, w) \<Rightarrow> (Some err, w)
   | (None, w) \<Rightarrow> walk_folders fs w)"

text \<open>The gone events: one the log refused leaves its message present.  \<open>None\<close> is no log.\<close>

definition write_gone :: "(string \<Rightarrow> bool) option \<Rightarrow> string list \<Rightarrow> manifest \<Rightarrow> manifest" where
  "write_gone log_ok gone m = (case log_ok of
     None \<Rightarrow> m
   | Some ok \<Rightarrow> fold (\<lambda>k m. if ok k then m else snd (set_present k True m)) gone m)"

definition end_walk :: "(string \<Rightarrow> bool) option \<Rightarrow> mailbox_walk \<Rightarrow> mailbox_walk" where
  "end_walk log_ok w =
     (if mw_folder_fault w then w
      else let (gone, man) = sweep_gone_sparing (mw_token w) (Some (mw_walked w)) (mw_run_at w)
                 ((mw_spare w)\<lparr>sp_legacy_placeholders := True\<rparr>) (mw_man w);
               w = on_man (\<lambda>_. man) w;
               (closed, L) = close_unobserved (mw_token w) (Some (graph_covered w)) (mw_run_at w)
                 (ex_since (mw_exp w)) (ledger_of (mw_s w));
               w = on_run (with_ledger (\<lambda>_. L)) w;
               w = on_run (\<lambda>s. s\<lparr>sr_lr := (sr_lr s)\<lparr>lr_closed_gone := lr_closed_gone (sr_lr s) + closed\<rparr>\<rparr>) w
           in on_man (write_gone log_ok gone) w)"

definition walk_mailbox ::
  "folder_script list \<Rightarrow> bool \<Rightarrow> (string \<Rightarrow> bool) option \<Rightarrow> mailbox_walk \<Rightarrow> mailbox_error option \<times> mailbox_walk" where
  "walk_mailbox fs aborted log_ok w = (case walk_folders fs w of
     (Some err, w) \<Rightarrow> (Some err, w)
   | (None, w) \<Rightarrow> if aborted then (Some (Ended Stopped), w) else (None, end_walk log_ok w))"

definition new_walk :: "duration \<Rightarrow> source_run \<Rightarrow> mailbox_walk" where
  "new_walk breaker_time s = \<lparr>mw_s = s, mw_walked_gap = [], mw_folder_fault = False, mw_spare = no_spare,
     mw_phys_keys = None, mw_breaker = new_breaker breaker_time, mw_walked = [], mw_moves = []\<rparr>"

end
