(* ===== verification/WalkKeeps.thy ===== *)
theory WalkKeeps
  imports CaptureSafety GraphWalk
begin

text \<open>
  What the export of a message and every step of a mailbox's walk keep of the manifest, proved once over
  the relation of the locale \<open>manifest_change\<close> and interpreted for the two facts gone-detection rests
  on: a record stamped by this run stays stamped, and the identity index covers every record.
\<close>

subsection \<open>The settings of a run\<close>

definition same_settings :: "exporter \<Rightarrow> exporter \<Rightarrow> bool" where
  "same_settings ex ex' \<longleftrightarrow> ex_mode ex' = ex_mode ex \<and> ex_dedup ex' = ex_dedup ex \<and> ex_run_at ex' = ex_run_at ex
     \<and> ex_since ex' = ex_since ex"

lemma settings_refl [simp]: "same_settings ex ex"
  by (simp add: same_settings_def)

lemma settings_trans [trans]: "same_settings a b \<Longrightarrow> same_settings b c \<Longrightarrow> same_settings a c"
  by (simp add: same_settings_def)

lemma settings_steady: "steady ex ex' \<Longrightarrow> same_settings ex ex'"
  by (simp add: steady_def same_settings_def)

lemma settings_simps [simp]:
  "same_settings ex (ex\<lparr>ex_manifest := man\<rparr>)" "same_settings ex (counted f ex)"
  "same_settings ex (remove_file p ex)" "same_settings ex (count_read_gaps m ex)"
  "same_settings ex (supersede_after store k m ex)" "same_settings ex (observe_archived w k prev fk fp ex)"
  "same_settings ex (stamp_examined k m prev ex)" "same_settings ex (stamp_kept store fk fp m k prev t ex)"
  "same_settings ex (snd (archived_record_for store m k ex))" "same_settings ex (snd (run_stamp w ex))"
  "same_settings ex (observe_kept w store fk m ex)" "same_settings ex (snd (place store fk m ex))"
  "same_settings ex (remove_renamed w rel wr found ex)" "same_settings ex (count_capture m retry ex)"
  by (auto simp: same_settings_def remove_file_def count_read_gaps_def supersede_after_def observe_archived_def
      stamp_examined_def stamp_kept_def archived_record_for_def run_stamp_def observe_kept_def place_def
      remove_renamed_def count_capture_def Let_def split: option.split prod.split)

lemmas settings_sel = settings_simps [unfolded same_settings_def]

lemma settings_keep: "same_settings ex (snd (keep_degraded w store fk fp m k ex))"
proof -
  obtain r ex1 where a: "archived_record_for store m k ex = (r, ex1)" by fastforce
  obtain t ex2 where s: "run_stamp w ex1 = (t, ex2)" by fastforce
  have "same_settings ex ex1" "same_settings ex1 ex2"
    using settings_simps(9) [of ex store m k] settings_simps(10) [of ex1 w] by (simp_all add: a s)
  then show ?thesis
    by (simp add: keep_degraded_def a s Let_def same_settings_def settings_sel split: option.split prod.split)
qed

lemma settings_skip:
  "same_settings ex (skip_archived w store fk fp m k prev ex)"
  "same_settings ex (skip_incomplete m k prev stale ex)" "same_settings ex (skip_date w fk fp k found ex)"
  by (simp_all add: skip_archived_def skip_incomplete_def skip_date_def Let_def same_settings_def settings_sel
      split: option.split)

lemma settings_commit: "same_settings ex (commit_capture w store m retry key rel wr found r ex)"
  by (simp add: commit_capture_def Let_def same_settings_def settings_sel)

lemma settings_capture: "capture w store fk fp m retry key found ex = (res, ex') \<Longrightarrow> same_settings ex ex'"
  by (erule capture_outcome) (auto intro: settings_steady settings_trans settings_commit)

lemma settings_export: "same_settings ex (snd (export w store fp m ex))"
proof -
  let ?fk = "join CHR ''/'' fp"
  obtain kept exk where kd: "(if ms_read_gaps m = [] then (False, ex)
    else keep_degraded w store ?fk fp m (base_key store ?fk m ex) ex) = (kept, exk)" by fastforce
  obtain key ex1 where pl: "place store ?fk m exk = (key, ex1)" by fastforce
  have k: "same_settings ex exk"
    using kd settings_keep [of ex w store ?fk fp m "base_key store ?fk m ex"] by (auto split: if_splits)
  have "same_settings exk ex1" using settings_simps(12) [of exk store ?fk m] by (simp add: pl)
  then have s: "same_settings ex ex1" using k settings_trans by blast
  have c: "same_settings ex (snd (capture w store ?fk fp m retry key found ex1))" for retry found
    using settings_capture settings_trans [OF s] by (metis prod.collapse)
  show ?thesis
    unfolding export_def Let_def kd pl prod.case using k c settings_trans [OF s] settings_skip
    by (auto split: bool.split decision.split option.split)
qed

subsection \<open>Changes of the books\<close>

text \<open>A change of the source run that touches the ledger and the run's counters only.\<close>

definition books :: "source_run \<Rightarrow> source_run \<Rightarrow> bool" where
  "books s s' \<longleftrightarrow> (\<exists>L. ex_manifest (lr_exp (sr_lr s')) = (ex_manifest (lr_exp (sr_lr s)))\<lparr>m_capture_gaps := L\<rparr>)
     \<and> same_settings (lr_exp (sr_lr s)) (lr_exp (sr_lr s')) \<and> sr_token s' = sr_token s
     \<and> lr_run_at (sr_lr s') = lr_run_at (sr_lr s)"

lemma books_observe: "books s (run_observe sep g s)"
  by (auto simp: books_def run_observe_def with_ledger_def note_fault_def note_folder_fault_def Let_def)

lemma books_answer: "books s (answer_gap close s)"
  by (auto simp: books_def answer_gap_def with_ledger_def note_recovered_def Let_def intro: exI [of _ "m_capture_gaps m" for m])

lemma books_same: "lr_exp (sr_lr s') = lr_exp (sr_lr s) \<Longrightarrow> sr_token s' = sr_token s
    \<Longrightarrow> lr_run_at (sr_lr s') = lr_run_at (sr_lr s) \<Longrightarrow> books s s'"
  unfolding books_def by (auto intro: exI [of _ "m_capture_gaps (ex_manifest (lr_exp (sr_lr s)))"])

lemma books_trans: "books a b \<Longrightarrow> books b c \<Longrightarrow> books a c"
  unfolding books_def using settings_trans by fastforce

lemma books_counted: "books s (with_exp (counted f) s)"
  unfolding books_def by (auto intro: exI [of _ "m_capture_gaps (ex_manifest (lr_exp (sr_lr s)))"])

lemma books_steps:
  "books s (snd (run_probe en s))" "books s (snd (count_streak e s))" "books s (count_export_fault s)"
  "books s (count_export_panic s)" "books s (s\<lparr>sr_unwritable := u\<rparr>)" "books s (s\<lparr>sr_wrote := b, sr_streak := n\<rparr>)"
  by (auto simp: run_probe_def count_streak_def count_export_fault_def count_export_panic_def Let_def
      intro: books_same books_counted)

subsection \<open>The export of one message\<close>

locale capture_change = manifest_change +
  assumes add_keeps: "r_present r \<Longrightarrow> \<not> r_last_seen r < run \<Longrightarrow> K m (add k r m)"
begin

lemma steady_keeps: "steady ex ex' \<Longrightarrow> ex_keeps ex ex'"
  by (rule index_keeps) (simp_all add: steady_def)

lemma clock_settings: "clock_ok w ex \<Longrightarrow> ex_run_at ex \<noteq> zero_time \<Longrightarrow> same_settings ex ex' \<Longrightarrow> clock_ok w ex'"
  by (simp add: clock_ok_def same_settings_def)

lemma capture_keeps:
  assumes "capture w store fk fp m retry key found ex = (res, ex')" and "ex_dedup ex" and "\<not> wd_now w < run"
  shows "ex_keeps ex ex'"
  using assms(1)
proof (cases rule: capture_outcome)
  case (2 wr rel r ex1)
  have "ex_keeps ex1 (ex1\<lparr>ex_manifest := add key r (ex_manifest ex1)\<rparr>)"
    using 2(3) assms(2,3) by (simp add: record_of_def add_keeps)
  from trans_keeps [OF this, of "ex_manifest ex'"] have "ex_keeps ex1 ex'"
    using supersede_after_keeps [of "count_read_gaps m (ex1\<lparr>ex_manifest := add key r (ex_manifest ex1)\<rparr>)" store key m]
    unfolding 2(4) by (simp add: commit_manifest)
  with steady_keeps [OF 2(2)] show ?thesis by (rule trans_keeps)
qed (simp add: steady_keeps)

lemma export_keeps:
  assumes "ex_dedup ex" and "clock_ok w ex" and "ex_run_at ex \<noteq> zero_time"
  shows "ex_keeps ex (snd (export w store fp m ex))"
proof -
  let ?fk = "join CHR ''/'' fp"
  obtain kept exk where kd: "(if ms_read_gaps m = [] then (False, ex)
    else keep_degraded w store ?fk fp m (base_key store ?fk m ex) ex) = (kept, exk)" by fastforce
  obtain key ex1 where pl: "place store ?fk m exk = (key, ex1)" by fastforce
  have k: "ex_keeps ex exk" "same_settings ex exk"
    using kd keep_degraded_keeps [OF assms(2), of store ?fk fp m "base_key store ?fk m ex"] settings_keep [of ex w store ?fk fp m "base_key store ?fk m ex"] refl_keeps
    by (auto split: if_splits)
  have "ex_keeps exk ex1" "same_settings exk ex1"
    using place_keeps [of exk store ?fk m] settings_simps(12) [of exk store ?fk m] by (simp_all add: pl)
  then have s: "ex_keeps ex ex1" "same_settings ex ex1" using k trans_keeps settings_trans by blast+
  have w: "\<not> wd_now w < run" "clock_ok w ex1" "ex_dedup ex1"
    using assms clock_settings [OF assms(2,3) s(2)] s(2) by (simp_all add: clock_ok_def same_settings_def)
  have c: "ex_keeps ex (snd (capture w store ?fk fp m retry key found ex1))" for retry found
    using trans_keeps [OF s(1)] capture_keeps [OF _ w(3,1)] by (metis prod.collapse)
  show ?thesis
    unfolding export_def Let_def kd pl prod.case using k c trans_keeps [OF s(1)] skip_keeps [OF w(2)]
    by (auto split: bool.split decision.split option.split)
qed

subsection \<open>The steps of a walk\<close>

text \<open>A step of the walk: the manifest moves along the relation and the run's settings stay.\<close>

definition goes :: "mailbox_walk \<Rightarrow> mailbox_walk \<Rightarrow> bool" where
  "goes w w' \<longleftrightarrow> K (mw_man w) (mw_man w') \<and> same_settings (mw_exp w) (mw_exp w')
     \<and> mw_token w' = mw_token w \<and> mw_run_at w' = mw_run_at w"

definition walk_ok :: "mailbox_walk \<Rightarrow> bool" where
  "walk_ok w \<longleftrightarrow> ex_dedup (mw_exp w) \<and> ex_run_at (mw_exp w) \<noteq> zero_time \<and> \<not> ex_run_at (mw_exp w) < run
     \<and> \<not> mw_run_at w < run"

lemma goes_refl [intro]: "goes w w"
  by (simp add: goes_def refl_keeps)

lemma goes_trans [trans]: "goes a b \<Longrightarrow> goes b c \<Longrightarrow> goes a c"
  unfolding goes_def using trans_keeps settings_trans by metis

lemma goes_ok: "goes w w' \<Longrightarrow> walk_ok w' = walk_ok w"
  by (simp add: goes_def walk_ok_def same_settings_def)

lemma goes_same: "mw_man w' = mw_man w \<Longrightarrow> same_settings (mw_exp w) (mw_exp w') \<Longrightarrow> mw_token w' = mw_token w
    \<Longrightarrow> mw_run_at w' = mw_run_at w \<Longrightarrow> goes w w'"
  by (simp add: goes_def refl_keeps)

lemma goes_run: "mw_s w' = mw_s w \<Longrightarrow> goes w w'"
  by (rule goes_same) (simp_all add: mw_man_def mw_exp_def mw_token_def mw_run_at_def)

lemma goes_man: "K (mw_man w) (f (mw_man w)) \<Longrightarrow> goes w (on_man f w)"
  by (simp add: goes_def on_man_def on_exp_def mw_man_def mw_exp_def mw_token_def mw_run_at_def run_at_of_def)

lemma goes_counted: "goes w (on_exp (counted f) w)"
  by (rule goes_same) (simp_all add: on_exp_def mw_man_def mw_exp_def mw_token_def mw_run_at_def run_at_of_def)

lemma ledger_keeps: "K m (m\<lparr>m_capture_gaps := L\<rparr>)"
  by (rule index_keeps) simp_all

lemma goes_books: "books (mw_s w) s' \<Longrightarrow> goes w (w\<lparr>mw_s := s'\<rparr>)"
  by (auto simp: goes_def books_def mw_man_def mw_exp_def mw_token_def mw_run_at_def run_at_of_def ledger_keeps)

lemma touch_all_keeps: "\<not> t < run \<Longrightarrow> K m (touch_all ks t m)"
  unfolding touch_all_def
proof (induction ks arbitrary: m)
  case (Cons k ks)
  from trans_keeps [OF touch_seen_keeps [OF Cons.prems] Cons.IH [OF Cons.prems]] show ?case by simp
qed (simp add: refl_keeps)

lemma same_token_goes: "goes w (snd (same_token i w))"
  using ident_keeps goes_man [of w "\<lambda>_. snd (keys_for_identity i (mw_man w))"]
  by (simp add: same_token_def split: prod.split) (metis snd_conv)

lemma phys_table_goes: "goes w (snd (phys_table w))"
  by (auto simp: phys_table_def Let_def split: option.split intro: goes_run)

lemma stamp_identity_goes: "walk_ok w \<Longrightarrow> goes w (snd (stamp_identity i w))"
proof -
  assume ok: "walk_ok w"
  obtain sibs w1 where s: "same_token i w = (sibs, w1)" by fastforce
  have g: "goes w w1" using same_token_goes [of w i] by (simp add: s)
  then have "walk_ok w1" using goes_ok ok by blast
  then have "goes w1 (on_man (touch_all (map ir_key sibs) (mw_run_at w1)) w1)"
    by (intro goes_man touch_all_keeps) (simp add: walk_ok_def)
  from goes_trans [OF g this] show ?thesis by (simp add: stamp_identity_def s)
qed

lemma stamp_phys_goes: "walk_ok w \<Longrightarrow> goes w (snd (stamp_phys i w))"
proof -
  assume ok: "walk_ok w"
  obtain t w1 where s: "phys_table w = (t, w1)" by fastforce
  have g: "goes w w1" using phys_table_goes [of w] by (simp add: s)
  then have "walk_ok w1" using goes_ok ok by blast
  then have "goes w1 (on_man (touch_all (mlist t i) (mw_run_at w1)) w1)"
    by (intro goes_man touch_all_keeps) (simp add: walk_ok_def)
  from goes_trans [OF g this] show ?thesis by (simp add: stamp_phys_def s)
qed

lemma fault_identity_goes:
  assumes "walk_ok w"
  shows "goes w (snd (fault_identity ref parsed w))"
proof -
  obtain a w1 where 1: "(if mr_mid ref \<noteq> [] then stamp_identity (''mid:'' @ mr_mid ref) w else (False, w)) = (a, w1)"
    by fastforce
  obtain b w2 where 2: "(case parsed of Some m \<Rightarrow> stamp_identity (identity m) w1 | None \<Rightarrow> (False, w1)) = (b, w2)"
    by fastforce
  obtain c w3 where 3: "(if mr_phys_id ref \<noteq> [] then stamp_phys (mr_phys_id ref) w2 else (False, w2)) = (c, w3)"
    by fastforce
  have g1: "goes w w1" using 1 stamp_identity_goes [OF assms, of "''mid:'' @ mr_mid ref"]
    by (auto split: if_splits)
  then have o1: "walk_ok w1" using goes_ok assms by blast
  have g2: "goes w1 w2" using 2 stamp_identity_goes [OF o1] by (auto split: option.splits) (metis snd_conv)
  then have o2: "walk_ok w2" using goes_ok o1 by blast
  have g3: "goes w2 w3" using 3 stamp_phys_goes [OF o2, of "mr_phys_id ref"] by (auto split: if_splits)
  have g: "goes w w3" using goes_trans [OF goes_trans [OF g1 g2] g3] .
  show ?thesis unfolding fault_identity_def Let_def 1 2 3 prod.case
    using g goes_trans [OF g goes_run] by simp
qed

lemma observe_item_goes: "walk_ok w \<Longrightarrow> goes w (observe_item sep ref parsed fk reason cls detail w)"
  using fault_identity_goes [of w ref parsed] goes_trans goes_books books_observe
  by (simp add: observe_item_def split: prod.split)

lemma folder_unwritable_goes: "goes w (folder_unwritable sep fk detail defers w)"
  by (simp add: folder_unwritable_def goes_books books_observe)

lemma graph_recovered_goes: "goes w (graph_recovered ref w)"
  by (simp add: graph_recovered_def goes_books books_answer)

lemma breaker_check_goes: "goes w (snd (breaker_check ctl fired w))"
  by (auto simp: breaker_check_def split: option.split control.split intro: goes_run)

lemma note_breaker_goes: "goes w (snd (note_breaker kind took w))"
  by (auto simp: note_breaker_def split: prod.split intro: goes_run)

lemma lookup_goes:
  "goes w (snd (has_record ref w))" "goes w (snd (archived_copy ref w))"
proof -
  obtain sibs w1 where 1: "(if mr_mid ref \<noteq> [] then same_token (''mid:'' @ mr_mid ref) w else ([], w)) = (sibs, w1)"
    by fastforce
  have g: "goes w w1" using 1 same_token_goes [of w "''mid:'' @ mr_mid ref"] by (auto split: if_splits)
  have p: "goes w (snd (phys_table w1))" using goes_trans [OF g phys_table_goes] .
  show "goes w (snd (has_record ref w))" unfolding has_record_def Let_def 1 prod.case
    using g p by (simp split: prod.split) (metis snd_conv)
  show "goes w (snd (archived_copy ref w))" unfolding archived_copy_def Let_def 1 prod.case
    using g p by (simp split: prod.split) (metis snd_conv)
qed

lemma graph_stub_goes:
  assumes "walk_ok w"
  shows "goes w (snd (graph_stub sep ref m fk w))"
proof (cases "mr_mid ref = []")
  case False
  obtain arch w1 where a: "archived_copy ref w = (arch, w1)" by fastforce
  have g: "goes w w1" using lookup_goes(2) [of w ref] by (simp add: a)
  then have ok: "walk_ok w1" using goes_ok assms by blast
  let ?f = "snd (fault_identity ref None w1)" and ?k = "counted (\<lambda>s. s\<lparr>s_kept := s_kept s + 1\<rparr>)"
  have k: "goes w (on_exp ?k ?f)" using goes_trans [OF goes_trans [OF g fault_identity_goes [OF ok]] goes_counted] .
  have "goes w (on_run (run_observe sep gp) (on_exp ?k ?f))" for gp
    using goes_trans [OF k goes_books [OF books_observe]] .
  moreover have "goes w (on_man (\<lambda>man. snd (adopt_legacy_graph_stubs (mw_token w1) (mr_phys_id ref) (mr_received ref)
      (mw_run_at w1) (Some legacy_stub_at) man)) w1)"
    using ok by (intro goes_trans [OF g goes_man] adopt_keeps) (simp add: walk_ok_def)
  ultimately show ?thesis using False by (cases arch) (simp_all add: graph_stub_def a)
qed (simp add: graph_stub_def goes_refl)

lemma fetch_cost_goes:
  assumes "walk_ok w"
  shows "goes w (fetch_cost sep ref fk err c w)"
proof -
  let ?old = "ex_since (mw_exp w) \<noteq> zero_time \<and> mr_received ref \<noteq> zero_time \<and> mr_received ref < ex_since (mw_exp w)"
  obtain known w1 where h: "(if ?old then has_record ref w else (True, w)) = (known, w1)" by fastforce
  have g: "goes w w1" using h lookup_goes(1) [of w ref] goes_refl by (auto split: if_splits)
  then have ok: "walk_ok w1" using goes_ok assms by blast
  let ?k = "on_exp (counted (\<lambda>s. s\<lparr>s_skipped_date := s_skipped_date s + 1\<rparr>)) w1"
  have "goes w1 ?k" by (rule goes_counted)
  then have k: "goes w (snd (fault_identity ref None ?k))"
    using goes_trans [OF g] goes_trans fault_identity_goes goes_ok ok by blast
  obtain sibs w2 where t: "(if ex_mode (mw_exp w1) = Full \<and> mr_mid ref \<noteq> [] then same_token (''mid:'' @ mr_mid ref) w1
      else ([], w1)) = (sibs, w2)" by fastforce
  have g2: "goes w1 w2" using t same_token_goes [of w1 "''mid:'' @ mr_mid ref"] goes_refl by (auto split: if_splits)
  then have "walk_ok w2" using goes_ok ok by blast
  then have "goes w (observe_item sep ref None fk reason cls detail w2)" for reason cls detail
    using goes_trans [OF goes_trans [OF g g2] observe_item_goes] by blast
  with k show ?thesis unfolding fetch_cost_def Let_def h t prod.case by simp
qed

lemma fetch_fault_goes:
  assumes "walk_ok w"
  shows "goes w (snd (fetch_fault sep ctl walk_done ref fk err took w))"
proof -
  let ?c = "classify_fetch (Some err) walk_done"
  let ?w1 = "fetch_cost sep ref fk err ?c w"
  have g: "goes w (snd (note_breaker kind took ?w1))" for kind
    using goes_trans [OF fetch_cost_goes [OF assms] note_breaker_goes] .
  then have "goes w (snd (breaker_check ctl fired (snd (note_breaker kind took ?w1))))" for kind fired
    using goes_trans breaker_check_goes by blast
  then show ?thesis by (simp add: fetch_fault_def Let_def goes_refl split: prod.split) (metis snd_conv)
qed

lemma listing_fault_goes: "goes w (snd (listing_fault sep ctl walk_done i fk err took w))"
proof -
  have o: "goes w (on_run (run_observe sep gp) (w\<lparr>mw_folder_fault := True\<rparr>))" for gp
    using goes_trans [OF goes_run goes_books [OF books_observe]] by simp
  then have "goes w (snd (breaker_check ctl fired (snd (note_breaker kind took (on_run (run_observe sep gp) (w\<lparr>mw_folder_fault := True\<rparr>))))))"
    for gp kind fired
    using goes_trans note_breaker_goes breaker_check_goes by blast
  with o show ?thesis by (simp add: listing_fault_def Let_def goes_refl split: prod.split) (metis snd_conv)
qed

lemma goes_steps:
  "goes w (on_run count_export_panic w)" "goes w (snd (graph_streak e w))" "goes w (record_move k fk w)"
  "goes w (w\<lparr>mw_s := count_export_fault s'\<rparr>)" if "books (mw_s w) s'"
  using that books_trans [OF that books_steps(3)] books_steps(2) [of "mw_s w" e]
  by (auto simp: graph_streak_def record_move_def intro: goes_books books_steps goes_run split: prod.split)

lemma graph_wrote_goes: "goes w (graph_wrote ref fk w)"
proof -
  have "goes w (graph_recovered ref (on_run (\<lambda>s. s\<lparr>sr_wrote := True, sr_streak := 0\<rparr>) w))"
    using goes_trans [OF goes_books [OF books_steps(6)] graph_recovered_goes] by simp
  from goes_trans [OF this goes_books [OF books_answer]] show ?thesis by (simp add: graph_wrote_def Let_def)
qed

lemma graph_refused_goes:
  assumes "walk_ok w"
  shows "goes w (snd (graph_refused en ref fk m e w))"
proof -
  obtain err s1 where pr: "run_probe en (mw_s w) = (err, s1)" by fastforce
  have b: "books (mw_s w) s1" using books_steps(1) [where en = en and s = "mw_s w"] by (simp add: pr)
  have g1: "goes w (w\<lparr>mw_s := s1\<rparr>)" using b by (rule goes_books)
  have g2: "goes w (w\<lparr>mw_s := count_export_fault s1\<rparr>)" using b by (rule goes_steps(4))
  have "books (mw_s w) (s1\<lparr>sr_unwritable := u\<rparr>)" for u using books_trans [OF b books_steps(5)] .
  then have g3: "goes w (w\<lparr>mw_s := count_export_fault (s1\<lparr>sr_unwritable := u\<rparr>)\<rparr>)" for u by (rule goes_steps(4))
  have f: "goes w (snd (graph_streak e (folder_unwritable sep fk t d
      (snd (fault_identity ref (Some m) (w\<lparr>mw_s := count_export_fault (s1\<lparr>sr_unwritable := u\<rparr>)\<rparr>))))))" for sep t d u
    using g3 [of u] goes_trans fault_identity_goes folder_unwritable_goes goes_steps(2) [OF books_same] goes_ok assms
    by (metis (no_types, lifting))
  have i: "goes w (snd (graph_streak e (observe_item sep ref (Some m) fk r c t (w\<lparr>mw_s := count_export_fault s1\<rparr>))))"
    for sep r c t
    using g2 goes_trans observe_item_goes goes_steps(2) [OF books_same] goes_ok assms by (metis (no_types, lifting))
  show ?thesis using g1 f i goes_refl
    by (auto simp: graph_refused_def Let_def pr split: export_error.split option.split prod.split)
      (metis snd_conv)+
qed

lemma goes_export:
  assumes "walk_ok w" and "\<not> wd_now wd < run"
  shows "goes w (on_exp (\<lambda>_. snd (export wd (mw_token w) fp m (mw_exp w))) w)"
proof -
  have "clock_ok wd (mw_exp w)" "ex_dedup (mw_exp w)" "ex_run_at (mw_exp w) \<noteq> zero_time"
    using assms by (simp_all add: walk_ok_def clock_ok_def)
  then have "ex_keeps (mw_exp w) (snd (export wd (mw_token w) fp m (mw_exp w)))" by (intro export_keeps)
  then show ?thesis using settings_export
    by (simp add: goes_def on_exp_def mw_man_def mw_exp_def mw_token_def mw_run_at_def run_at_of_def)
qed

lemma export_one_goes:
  assumes "walk_ok w" and "\<not> wd_now (en_world en) < run"
  shows "goes w (snd (export_one en ref path m w))"
proof -
  obtain out ex where e: "export (en_world en) (mw_token w) path m (mw_exp w) = (out, ex)" by fastforce
  let ?w = "on_exp (\<lambda>_. ex) w"
  have g: "goes w ?w" using goes_export [OF assms, of path m] by (simp add: e)
  then have ok: "walk_ok ?w" using goes_ok assms(1) by blast
  have p: "goes w (observe_item sep ref (Some m) fk r c t (on_run count_export_panic ?w))" for sep fk r c t
    using goes_trans [OF g goes_steps(1) [OF books_same]] observe_item_goes goes_trans goes_ok assms(1)
    by (metis (no_types, lifting))
  show ?thesis using g p goes_trans [OF g graph_wrote_goes] goes_trans [OF g graph_refused_goes [OF ok]]
    by (simp add: export_one_def Let_def e split: outcome.split)
qed

lemma goes_reuse: "goes w (on_exp (note_id_reuse i n) w)"
  by (rule goes_same)
    (simp_all add: on_exp_def note_id_reuse_def same_settings_def mw_man_def mw_exp_def mw_token_def mw_run_at_def run_at_of_def)

lemma fast_skip_goes:
  assumes "walk_ok w"
  shows "goes w (fast_skip c i sibs ref fk w)"
proof -
  let ?t = "mw_run_at w"
  have t: "\<not> ?t < run" using assms by (simp add: walk_ok_def)
  note step = goes_trans [OF _ goes_man] goes_trans [OF _ goes_counted]
  have r: "goes w (if b then on_man (\<lambda>m. snd (resolve k m)) w else w)" for b k
    by (simp add: goes_man resolve_keeps goes_refl)
  have r2: "goes w (if b then on_exp (counted f) w1 else w1)" if "goes w w1" for b f w1
    using that step(2) by simp
  have mg: "goes w (on_man (\<lambda>m. snd (merge_fields k fk ?t True m)) w1)" if "goes w w1" for w1 k
    by (rule step(1) [OF that]) (rule merge_fields_keeps [OF t])
  have mv: "goes w (if b then record_move k fk w1 else w1)" if "goes w w1" for b k w1
    using that goes_trans [OF that goes_steps(3) [OF books_same]] by simp
  have ts: "goes w (if b then w1 else on_man (touch_all ks ?t) w1)" if "goes w w1" for b ks w1
    using that step(1) [OF that] touch_all_keeps [OF t] by simp
  have fin: "goes w (graph_recovered ref (on_exp (counted g) (on_exp (note_id_reuse i n) w1)))" if "goes w w1" for g n w1
    using goes_trans [OF goes_trans [OF goes_trans [OF that goes_reuse] goes_counted] graph_recovered_goes] .
  show ?thesis unfolding fast_skip_def Let_def by (intro fin ts mv mg r2 r)
qed

lemma fast_path_goes:
  assumes "walk_ok w"
  shows "goes w (snd (fast_path ref fk w))"
proof -
  obtain sibs w1 where s: "same_token (''mid:'' @ mr_mid ref) w = (sibs, w1)" by fastforce
  have g: "goes w w1" using same_token_goes [of w "''mid:'' @ mr_mid ref"] unfolding s by simp
  then have ok: "walk_ok w1" using goes_ok assms by blast
  show ?thesis unfolding fast_path_def Let_def s prod.case
    using g goes_trans [OF g fast_skip_goes [OF ok]] goes_refl by simp
qed

lemma download_goes:
  assumes "walk_ok w" and "\<not> wd_now (en_world (an_en an)) < run"
  shows "goes w (snd (download an ref path w))"
proof -
  let ?w = "snd (note_breaker Attempt_OK 0 w)"
  have g: "goes w ?w" by (rule note_breaker_goes)
  then have ok: "walk_ok ?w" using goes_ok assms(1) by blast
  have x: "goes w (snd (export_one (an_en an) ref path m w1))" if "goes w w1" for m w1
    using goes_trans [OF that export_one_goes [OF _ assms(2)]] goes_ok [OF that] assms(1) by blast
  have st: "goes w (snd (graph_stub sep ref m fk ?w))" for sep m fk
    using goes_trans [OF g graph_stub_goes [OF ok]] .
  have st2: "graph_stub sep ref m fk ?w = ((held, m'), w1) \<Longrightarrow> goes w w1" for sep m fk held m' w1
    using st [of sep m fk] by simp
  show ?thesis
    using fetch_fault_goes [OF assms(1)] goes_trans [OF g observe_item_goes [OF ok]] x [OF g] x [OF st2] st2
    by (auto simp: download_def Let_def split: sum.split option.split prod.split)
qed

lemma visit_goes:
  assumes "walk_ok w" and "\<not> wd_now (en_world (an_en an)) < run"
  shows "goes w (snd (visit an ref path w))"
proof -
  obtain hit w1 where f: "fast_path ref (join CHR ''/'' path) w = (hit, w1)" by fastforce
  have g: "goes w w1" using fast_path_goes [OF assms(1), of ref "join CHR ''/'' path"] by (simp add: f)
  then have ok: "walk_ok w1" using goes_ok assms(1) by blast
  have "goes w1 (snd (fault_identity ref None w1))" using fault_identity_goes [OF ok] .
  then have u: "goes w (folder_unwritable sep fk t d (snd (fault_identity ref None w1)))" for sep fk t d
    using goes_trans [OF g goes_trans [OF _ folder_unwritable_goes]] by blast
  show ?thesis using goes_refl g u goes_trans [OF g download_goes [OF ok assms(2)]]
    by (auto simp: visit_def Let_def f split: bool.split prod.split)
qed

text \<open>Every world of a script is on a clock that has reached the run.\<close>

definition on_clock :: "(message_ref \<times> answer) list \<Rightarrow> bool" where
  "on_clock ms \<longleftrightarrow> (\<forall>(ref, an)\<in>set ms. \<not> wd_now (en_world (an_en an)) < run)"

lemma visit_all_goes: "walk_ok w \<Longrightarrow> on_clock ms \<Longrightarrow> goes w (snd (visit_all ms path w))"
proof (induction ms path w rule: visit_all.induct)
  case (2 ref an rest path w)
  obtain err w1 where v: "visit an ref path w = (err, w1)" by fastforce
  have g: "goes w w1" using visit_goes [OF 2(2), of an ref path] 2(3) by (simp add: v on_clock_def)
  then have ok: "walk_ok w1" using goes_ok 2(2) by blast
  show ?case using g 2(1) [OF v [symmetric] _ ok] 2(3) goes_trans [OF g]
    by (simp add: v on_clock_def split: option.split)
qed (simp add: goes_refl)

lemma folder_read_goes: "goes w (folder_read i fk (w\<lparr>mw_walked := x\<rparr>))"
proof -
  have "goes w (w\<lparr>mw_walked := x, mw_walked_gap := y\<rparr>)" for y by (simp add: goes_run)
  from goes_trans [OF this goes_books [OF books_answer]] show ?thesis by (simp add: folder_read_def)
qed

lemma walk_folder_goes:
  assumes "walk_ok w" and "on_clock (fs_messages f)"
  shows "goes w (snd (walk_folder f w))"
proof -
  obtain err w1 where v: "visit_all (fs_messages f) (fs_path f) w = (err, w1)" by fastforce
  have g: "goes w w1" using visit_all_goes [OF assms, of "fs_path f"] by (simp add: v)
  show ?thesis using g goes_trans [OF g folder_read_goes] goes_refl goes_trans [OF g listing_fault_goes]
    by (simp add: walk_folder_def Let_def v split: option.split)
qed

lemma walk_folders_goes:
  "walk_ok w \<Longrightarrow> \<forall>f\<in>set fs. on_clock (fs_messages f) \<Longrightarrow> goes w (snd (walk_folders fs w))"
proof (induction fs w rule: walk_folders.induct)
  case (2 f fs w)
  obtain err w1 where v: "walk_folder f w = (err, w1)" by fastforce
  have g: "goes w w1" using walk_folder_goes [OF 2(2), of f] 2(3) by (simp add: v)
  then have ok: "walk_ok w1" using goes_ok 2(2) by blast
  show ?case using g 2(1) [OF v [symmetric] _ ok] 2(3) goes_trans [OF g] by (simp add: v split: option.split)
qed (simp add: goes_refl)

end

end
