(* ===== verification/WalkSeen.thy ===== *)
theory WalkSeen
  imports WalkKeeps
begin

text \<open>
  The two facts gone-detection rests on, as instances of the locale: a record the run has stamped stays
  stamped through the rest of the walk, and the identity index covers every record, so a lookup by
  Message-ID finds every record of the mailbox that has it.
\<close>

subsection \<open>A stamped record stays stamped\<close>

definition seen_after :: "gotime \<Rightarrow> mrec \<Rightarrow> mrec \<Rightarrow> bool" where
  "seen_after run r r' \<longleftrightarrow> (\<not> r_last_seen r < run \<longrightarrow> \<not> r_last_seen r' < run) \<and> (r_present r \<longrightarrow> r_present r')"

interpretation stamped: record_change "seen_after run" run for run :: gotime
  by unfold_locales (auto simp: seen_after_def)

definition stays :: "gotime \<Rightarrow> manifest \<Rightarrow> manifest \<Rightarrow> bool" where
  "stays run m m' \<longleftrightarrow> (\<forall>k r. mget (m_entries m) k = Some r
     \<longrightarrow> (\<exists>r'. mget (m_entries m') k = Some r' \<and> seen_after run r r'))"

lemma stays_keeps: "keeps (seen_after run) m m' \<Longrightarrow> stays run m m'"
  unfolding stays_def using keeps_get by blast

lemma stays_get: "stays run m m' \<Longrightarrow> mget (m_entries m) k = Some r
    \<Longrightarrow> \<exists>r'. mget (m_entries m') k = Some r' \<and> seen_after run r r'"
  by (simp add: stays_def)

lemma stays_trans: "stays run a b \<Longrightarrow> stays run b c \<Longrightarrow> stays run a c"
  unfolding stays_def seen_after_def by metis

interpretation seen: capture_change "stays run" run for run :: gotime
proof unfold_locales
  show "stays run m m'" if "m_entries m' = m_entries m" "m_by_ident m' = m_by_ident m" for m m'
    using that by (intro stays_keeps stamped.entries_keeps)
  show "stays run m (add k r m)" if "r_present r" "\<not> r_last_seen r < run" for m k r
    using that by (auto simp: stays_def add_get seen_after_def)
qed (auto intro: stays_trans stays_keeps stamped.refl_keeps stamped.merge_fields_keeps stamped.touch_seen_keeps
    stamped.scheme_keeps stamped.gen_keeps stamped.set_locator_keeps stamped.add_phys_id_keeps stamped.ident_keeps
    stamped.partial_commit_keeps stamped.supersede_unparsed_keeps stamped.resolve_keeps stamped.adopt_keeps)

subsection \<open>The identity index covers every record\<close>

definition filed :: "manifest \<Rightarrow> bool" where
  "filed m \<longleftrightarrow> mok (m_entries m) \<and> opt_all (byident.covers (mget (m_entries m))) (m_by_ident m)"

lemma filed_index: "filed m \<Longrightarrow> byident.covers (mget (m_entries m)) (ident_index m)"
  by (cases "m_by_ident m") (auto simp: filed_def ident_index_def intro: build_ident_covers)

lemma filed_cong: "m_entries m' = m_entries m \<Longrightarrow> m_by_ident m' = m_by_ident m \<Longrightarrow> filed m \<Longrightarrow> filed m'"
  by (simp add: filed_def)

lemma filed_ident: "filed m \<Longrightarrow> filed (m\<lparr>m_by_ident := Some (ident_index m)\<rparr>)"
  using filed_index [of m] by (simp add: filed_def)

lemma filed_put:
  assumes "m_entries m' = mput k r' (m_entries m)" and "m_by_ident m' = m_by_ident m"
    and k: "mget (m_entries m) k = Some r" and "r_fingerprint r' = r_fingerprint r" and "r_phys_id r' = r_phys_id r"
    and "filed m"
  shows "filed m'"
proof -
  have "ident_entry k r' = ident_entry k r" using assms by (intro ident_entry_cong)
  from covers_same_put(1) [OF _ k this] show ?thesis
    using assms(1,2,6) by (auto simp: filed_def elim!: opt_all_mono)
qed

lemma filed_add: "filed m \<Longrightarrow> filed (add k r m)"
  using byident.covers_set [OF filed_index [of m], of k r]
  by (simp add: filed_def add_def Let_def covers_mput)

lemma filed_phys:
  assumes "filed m"
  shows "filed (snd (add_phys_id k i m))"
proof (cases "mget (m_entries m) k")
  case (Some r)
  show ?thesis
  proof (cases "i = [] \<or> record_has_phys_id r i \<or> r_phys_id r \<noteq> []")
    case True
    then show ?thesis using Some assms by (auto simp: add_phys_id_def intro: filed_put)
  next
    case False
    let ?es = "mput k (r\<lparr>r_phys_id := i\<rparr>) (m_entries m)"
    have "mok ?es" using assms by (simp add: filed_def)
    with build_ident_covers [OF this] show ?thesis
      using False Some assms add_phys_index [OF _ Some, of _ i]
      by (cases "m_by_ident m") (simp_all add: add_phys_id_def filed_def Let_def)
  qed
qed (use assms in \<open>simp add: add_phys_id_def\<close>)

text \<open>The updates in place of one record.\<close>

lemma filed_puts:
  assumes "filed m"
  shows "filed (snd (merge_fields k f t b m))" "filed (snd (touch_seen k t m))"
    "filed (snd (stamp_parse_scheme k i m))" "filed (snd (stamp_parser_gen k i m))"
    "filed (snd (supersede_partial_commit k n m))" "filed (snd (set_locator k l m))" "filed (snd (resolve k m))"
  using assms
  by (auto simp: merge_fields_def touch_seen_def stamp_parse_scheme_def stamp_parser_gen_def
      supersede_partial_commit_def set_locator_def resolve_def Let_def split: option.split
      intro: filed_put)

lemma filed_unparsed:
  assumes "filed m"
  shows "filed (snd (supersede_unparsed tok d n m))"
proof (cases "unparsed_target tok d n m")
  case (Some k)
  then show ?thesis using assms
    by (cases "mget (m_entries m) k")
      (auto simp: supersede_unparsed_def Let_def intro: filed_cong filed_put)
qed (use assms in \<open>auto simp: supersede_unparsed_def Let_def intro: filed_cong\<close>)

lemma filed_adopt_step:
  assumes "filed m"
  shows "filed (m\<lparr>m_entries := snd (adopt_step tok phys rcvd want t k (n, m_entries m))\<rparr>)"
proof (cases "mget (m_entries m) k")
  case (Some r)
  then show ?thesis using assms by (auto simp: adopt_step_def intro: filed_put)
qed (use assms in \<open>simp add: adopt_step_def\<close>)

lemma filed_adopt_fold:
  "filed m \<Longrightarrow> filed (m\<lparr>m_entries := snd (fold (adopt_step tok phys rcvd want t) ks (n, m_entries m))\<rparr>)"
proof (induction ks arbitrary: n m)
  case (Cons k ks)
  obtain n' es where e: "adopt_step tok phys rcvd want t k (n, m_entries m) = (n', es)" by fastforce
  have "filed (m\<lparr>m_entries := es\<rparr>)" using filed_adopt_step [OF Cons.prems, of tok phys rcvd want t k n] by (simp add: e)
  from Cons.IH [OF this, of n'] show ?case by (simp add: e)
qed simp

lemma filed_adopt:
  assumes "filed m"
  shows "filed (snd (adopt_legacy_graph_stubs tok phys rcv t (Some leg) m))"
proof -
  let ?w = "if rcv = 0 then [] else format_rfc3339 rcv" and ?ks = "map ir_key (mlist (ident_index m) (leg rcv))"
  have "filed (m\<lparr>m_by_ident := Some (ident_index m),
      m_entries := snd (fold (adopt_step tok phys ?w (Some (leg rcv)) t) ?ks (0, m_entries m))\<rparr>)"
    using filed_adopt_fold [OF filed_ident [OF assms], of tok phys ?w "Some (leg rcv)" t ?ks 0] by simp
  then show ?thesis
    by (cases "fold (adopt_step tok phys ?w (Some (leg rcv)) t) ?ks (0, m_entries m)")
      (simp add: adopt_legacy_graph_stubs_def)
qed

interpretation indexed: capture_change "\<lambda>m m'. filed m \<longrightarrow> filed m'" run for run :: gotime
  by unfold_locales
    (auto intro: filed_puts filed_unparsed filed_adopt filed_phys filed_add filed_cong simp: keys_for_identity_def filed_ident)

end
