(* ===== verification/WalkSteps.thy ===== *)
theory WalkSteps
  imports WalkSeen
begin

text \<open>
  The walk as a step relation: the states a mailbox's walk goes through, what holds in all of them, and
  what one visit does to the records of the message it lists.
\<close>

subsection \<open>The steps of a walk\<close>

inductive walk_step :: "gotime \<Rightarrow> mailbox_walk \<Rightarrow> mailbox_walk \<Rightarrow> bool" for run where
  Visited: "\<not> wd_now (en_world (an_en an)) < run \<Longrightarrow> visit an ref path w = (None, w') \<Longrightarrow> walk_step run w w'"
| Listed: "walk_step run w (folder_read i fk (w\<lparr>mw_walked := walked_mark fk (mw_walked w)\<rparr>))"
| Unlisted: "listing_fault sep ctl walk_done i fk err took w = (None, w') \<Longrightarrow> walk_step run w w'"

inductive_cases walk_stepE: "walk_step run w w'"

abbreviation walk_steps :: "gotime \<Rightarrow> mailbox_walk \<Rightarrow> mailbox_walk \<Rightarrow> bool" where
  "walk_steps run \<equiv> (walk_step run)\<^sup>*\<^sup>*"

definition timely :: "gotime \<Rightarrow> (message_ref \<times> answer) list \<Rightarrow> bool" where
  "timely run ms \<longleftrightarrow> (\<forall>(ref, an)\<in>set ms. \<not> wd_now (en_world (an_en an)) < run)"

lemma visit_all_steps:
  "visit_all ms path w = (None, w') \<Longrightarrow> timely run ms \<Longrightarrow> walk_steps run w w'"
proof (induction ms path w rule: visit_all.induct)
  case (2 ref an rest path w)
  from 2(2) obtain w1 where v: "visit an ref path w = (None, w1)" "visit_all rest path w1 = (None, w')"
    by (auto split: prod.splits option.splits)
  have "walk_step run w w1" using 2(3) v(1) by (auto simp: timely_def intro: Visited)
  moreover have "walk_steps run w1 w'" using 2(1) [OF v(1) [symmetric] refl v(2)] 2(3) by (simp add: timely_def)
  ultimately show ?case by (rule converse_rtranclp_into_rtranclp)
qed simp

lemma visit_all_at:
  assumes "visit_all ms path w = (None, w')" and "timely run ms" and "(ref, an) \<in> set ms"
  shows "\<exists>w1 w2. walk_steps run w w1 \<and> visit an ref path w1 = (None, w2) \<and> walk_steps run w2 w'"
  using assms
proof (induction ms path w rule: visit_all.induct)
  case (2 ref' an' rest path w)
  from 2(2) obtain w1 where v: "visit an' ref' path w = (None, w1)" "visit_all rest path w1 = (None, w')"
    by (auto split: prod.splits option.splits)
  have t: "timely run rest" "walk_step run w w1" using 2(3) v(1) by (auto simp: timely_def intro: Visited)
  show ?case
  proof (cases "(ref, an) = (ref', an')")
    case True
    then show ?thesis using v visit_all_steps [OF v(2) t(1)] by blast
  next
    case False
    then have "(ref, an) \<in> set rest" using 2(4) by auto
    from 2(1) [OF v(1) [symmetric] refl v(2) t(1) this] obtain a b where
      "walk_steps run w1 a" "visit an ref path a = (None, b)" "walk_steps run b w'" by blast
    moreover from t(2) this(1) have "walk_steps run w a" by (rule converse_rtranclp_into_rtranclp)
    ultimately show ?thesis by blast
  qed
qed simp

lemma walk_folder_split:
  assumes "walk_folder f w = (None, w')"
  obtains w1 where "visit_all (fs_messages f) (fs_path f) w = (None, w1)" "walk_step run w1 w'"
  using assms unfolding walk_folder_def Let_def
  by (auto split: if_splits prod.splits option.splits intro: Listed Unlisted)

lemma walk_folders_steps:
  "walk_folders fs w = (None, w') \<Longrightarrow> \<forall>f\<in>set fs. timely run (fs_messages f) \<Longrightarrow> walk_steps run w w'"
proof (induction fs w rule: walk_folders.induct)
  case (2 f fs w)
  from 2(2) obtain w1 where v: "walk_folder f w = (None, w1)" "walk_folders fs w1 = (None, w')"
    by (auto split: prod.splits option.splits)
  obtain w0 where "visit_all (fs_messages f) (fs_path f) w = (None, w0)" "walk_step run w0 w1"
    by (rule walk_folder_split [OF v(1)])
  then have "walk_steps run w w1" using visit_all_steps 2(3) by (meson list.set_intros(1) rtranclp.rtrancl_into_rtrancl)
  moreover have "walk_steps run w1 w'" using 2(1) [OF v(1) [symmetric] refl v(2)] 2(3) by simp
  ultimately show ?case by (rule rtranclp_trans)
qed simp

lemma walk_folders_at:
  assumes "walk_folders fs w = (None, w')" and "\<forall>f\<in>set fs. timely run (fs_messages f)"
    and "f \<in> set fs" and "(ref, an) \<in> set (fs_messages f)"
  shows "\<exists>w1 w2. walk_steps run w w1 \<and> visit an ref (fs_path f) w1 = (None, w2) \<and> walk_steps run w2 w'"
  using assms
proof (induction fs w rule: walk_folders.induct)
  case (2 g fs w)
  from 2(2) obtain w1 where v: "walk_folder g w = (None, w1)" "walk_folders fs w1 = (None, w')"
    by (auto split: prod.splits option.splits)
  have rest: "walk_steps run w1 w'" using walk_folders_steps [OF v(2)] 2(3) by simp
  obtain w0 where g: "visit_all (fs_messages g) (fs_path g) w = (None, w0)" "walk_step run w0 w1"
    by (rule walk_folder_split [OF v(1)])
  show ?case
  proof (cases "f = g")
    case True
    have "timely run (fs_messages g)" using 2(3) by simp
    from visit_all_at [OF g(1) this, of ref an] 2(5) True obtain a b where
      "walk_steps run w a" "visit an ref (fs_path f) a = (None, b)" "walk_steps run b w0" by blast
    then show ?thesis using g(2) rest by (meson rtranclp.rtrancl_into_rtrancl rtranclp_trans)
  next
    case False
    have "walk_steps run w w0" using visit_all_steps [OF g(1)] 2(3) by simp
    then have "walk_steps run w w1" using g(2) by (rule rtranclp.rtrancl_into_rtrancl)
    moreover obtain a b where "walk_steps run w1 a" "visit an ref (fs_path f) a = (None, b)" "walk_steps run b w'"
      using 2(1) [OF v(1) [symmetric] refl v(2)] 2(3-5) False by auto
    ultimately show ?thesis using rtranclp_trans by metis
  qed
qed simp

subsection \<open>What holds in every state of a walk\<close>

definition walking :: "gotime \<Rightarrow> mailbox_walk \<Rightarrow> bool" where
  "walking run w \<longleftrightarrow> filed (mw_man w) \<and> ex_dedup (mw_exp w) \<and> ex_run_at (mw_exp w) = run \<and> mw_run_at w = run
     \<and> run \<noteq> zero_time"

lemma walking_ok: "walking run w \<Longrightarrow> capture_change.walk_ok run w"
  by (simp add: walking_def seen.walk_ok_def)

definition onward :: "gotime \<Rightarrow> mailbox_walk \<Rightarrow> mailbox_walk \<Rightarrow> bool" where
  "onward run w w' \<longleftrightarrow> walking run w' \<and> stays run (mw_man w) (mw_man w') \<and> mw_token w' = mw_token w
     \<and> ex_mode (mw_exp w') = ex_mode (mw_exp w)"

lemma onward_trans: "onward run a b \<Longrightarrow> onward run b c \<Longrightarrow> onward run a c"
  unfolding onward_def using stays_trans by metis

lemma onward_goes:
  assumes "walking run w" and "seen.goes run w w'" and "indexed.goes w w'"
  shows "onward run w w'"
  using assms by (simp add: onward_def walking_def seen.goes_def indexed.goes_def same_settings_def)

lemma onward_visit:
  assumes "walking run w" and "\<not> wd_now (en_world (an_en an)) < run" and "visit an ref path w = (res, w')"
  shows "onward run w w'"
  using onward_goes [OF assms(1), of w'] seen.visit_goes [OF walking_ok [OF assms(1)] assms(2), of ref path]
    indexed.visit_goes [OF walking_ok [OF assms(1)] assms(2), of ref path]
  by (simp add: assms(3))

lemma onward_step: "walk_step run w w' \<Longrightarrow> walking run w \<Longrightarrow> onward run w w'"
proof (induction rule: walk_step.cases)
  case (Visited an ref path w w')
  then show ?thesis using onward_visit by blast
next
  case (Listed w i fk)
  then show ?thesis using onward_goes seen.folder_read_goes indexed.folder_read_goes by blast
next
  case (Unlisted sep ctl walk_done i fk err took w w')
  then show ?thesis
    using onward_goes [of run w w'] seen.listing_fault_goes [of run w sep ctl walk_done i fk err took]
      indexed.listing_fault_goes [of w sep ctl walk_done i fk err took] by simp
qed

lemma onward_steps: "walk_steps run w w' \<Longrightarrow> walking run w \<Longrightarrow> onward run w w'"
proof (induction rule: rtranclp_induct)
  case base
  then show ?case by (simp add: onward_def stays_keeps stamped.refl_keeps)
next
  case (step a b)
  then have "onward run w a" by simp
  moreover from this have "onward run a b" using onward_step [OF step(2)] by (simp add: onward_def)
  ultimately show ?case by (rule onward_trans)
qed

end
