(* ===== verification/WalkMarks.thy ===== *)
theory WalkMarks
  imports WalkSteps
begin

text \<open>
  What one visit does to the records of the message it lists: skipped, faulted or held back, every record
  that could be the message is stamped by the run; only a message that was downloaded and exported leaves
  the records of its Message-ID to the exporter, which knows the message itself.
\<close>

subsection \<open>The records of a Message-ID\<close>

definition holds :: "mailbox_walk \<Rightarrow> string \<Rightarrow> string \<Rightarrow> mrec \<Rightarrow> bool" where
  "holds w i k r \<longleftrightarrow> has_prefix k (mw_token w @ key_separator) \<and> identity_of k = i
     \<and> mget (m_entries (mw_man w)) k = Some r"

definition marked :: "gotime \<Rightarrow> mailbox_walk \<Rightarrow> string \<Rightarrow> bool" where
  "marked run w k \<longleftrightarrow> (\<exists>r. mget (m_entries (mw_man w)) k = Some r \<and> \<not> r_last_seen r < run)"

lemma marked_stays: "marked run w k \<Longrightarrow> stays run (mw_man w) (mw_man w') \<Longrightarrow> marked run w' k"
  unfolding marked_def stays_def seen_after_def by metis

lemma marked_onward: "marked run w k \<Longrightarrow> onward run w w' \<Longrightarrow> marked run w' k"
  using marked_stays by (simp add: onward_def)

lemma holds_onward:
  assumes "holds w i k r" and "onward run w w'"
  obtains r' where "holds w' i k r'" "seen_after run r r'"
proof -
  have "mget (m_entries (mw_man w)) k = Some r" using assms(1) by (simp add: holds_def)
  then obtain r' where "mget (m_entries (mw_man w')) k = Some r'" "seen_after run r r'"
    using assms(2) stays_get by (metis onward_def)
  then show ?thesis using assms by (intro that) (auto simp: holds_def onward_def)
qed

lemma same_token_keys:
  assumes "filed (mw_man w)" and "same_token i w = (sibs, w1)" and "i \<noteq> []"
  shows "k \<in> ir_key ` set sibs \<longleftrightarrow> (\<exists>r. holds w i k r)"
    and "mw_token w1 = mw_token w" and "m_entries (mw_man w1) = m_entries (mw_man w)"
proof -
  have s: "sibs = filter (\<lambda>s. has_prefix (ir_key s) (mw_token w @ key_separator)) (mlist (ident_index (mw_man w)) i)"
    using assms(2) by (auto simp: same_token_def keys_for_identity_def)
  have c: "e \<in> set (mlist (ident_index (mw_man w)) i)
      \<longleftrightarrow> (\<exists>r. mget (m_entries (mw_man w)) (ir_key e) = Some r \<and> ident_entry (ir_key e) r = Some (i, e))" for e
    using byident.covers_get [OF filed_index [OF assms(1)]] .
  show "k \<in> ir_key ` set sibs \<longleftrightarrow> (\<exists>r. holds w i k r)"
  proof
    assume "k \<in> ir_key ` set sibs"
    then show "\<exists>r. holds w i k r" unfolding s holds_def
      by (auto simp: c ident_entry_def split: if_splits)
  next
    assume "\<exists>r. holds w i k r"
    then obtain r where r: "has_prefix k (mw_token w @ key_separator)" "identity_of k = i"
      "mget (m_entries (mw_man w)) k = Some r" by (auto simp: holds_def)
    let ?e = "ident_ref_of k r"
    have k: "ir_key ?e = k" by (simp add: ident_ref_of_def)
    have "?e \<in> set (mlist (ident_index (mw_man w)) i)"
      unfolding c using r assms(3) by (simp add: k ident_entry_def)
    then show "k \<in> ir_key ` set sibs" using r(1) k unfolding s by force
  qed
  show "mw_token w1 = mw_token w" "m_entries (mw_man w1) = m_entries (mw_man w)"
    using assms(2) by (auto simp: same_token_def keys_for_identity_def on_man_def on_exp_def mw_token_def mw_man_def mw_exp_def)
qed

lemma touch_all_get:
  "mget (m_entries (touch_all ks t m)) k
     = map_option (\<lambda>r. if k \<in> set ks then r\<lparr>r_last_seen := t\<rparr> else r) (mget (m_entries m) k)"
  unfolding touch_all_def
proof (induction ks arbitrary: m)
  case Nil
  show ?case by (cases "mget (m_entries m) k") simp_all
next
  case (Cons x ks)
  then show ?case by (cases "mget (m_entries m) k") (auto simp: touch_seen_def split: option.split)
qed

lemma on_man_simps [simp]:
  "mw_man (on_man f w) = f (mw_man w)" "mw_token (on_man f w) = mw_token w" "mw_run_at (on_man f w) = mw_run_at w"
  by (simp_all add: on_man_def on_exp_def mw_man_def mw_exp_def mw_token_def mw_run_at_def run_at_of_def)

subsection \<open>A fault on the item\<close>

lemma stamp_identity_marks:
  assumes "walking run w" and "holds w i k r" and "i \<noteq> []"
  shows "fst (stamp_identity i w)" and "marked run (snd (stamp_identity i w)) k"
proof -
  obtain sibs w1 where s: "same_token i w = (sibs, w1)" by fastforce
  have f: "filed (mw_man w)" and t: "mw_run_at w = run" using assms(1) by (simp_all add: walking_def)
  note st = same_token_keys [OF f s assms(3)]
  have k: "k \<in> ir_key ` set sibs" using st(1) assms(2) by blast
  then show "fst (stamp_identity i w)" by (auto simp: stamp_identity_def s)
  have "mw_run_at w1 = run" using s t by (auto simp: same_token_def keys_for_identity_def)
  then show "marked run (snd (stamp_identity i w)) k"
    using k st(3) assms(2) by (simp add: stamp_identity_def s marked_def touch_all_get holds_def)
qed

text \<open>A step that stamps every record of the Message-ID.\<close>

definition settles :: "gotime \<Rightarrow> string \<Rightarrow> mailbox_walk \<Rightarrow> mailbox_walk \<Rightarrow> bool" where
  "settles run i w w' \<longleftrightarrow> onward run w w' \<and> (\<forall>k r. holds w i k r \<longrightarrow> marked run w' k)"

lemma settles_pre: "onward run a b \<Longrightarrow> settles run i b c \<Longrightarrow> settles run i a c"
  unfolding settles_def using holds_onward onward_trans by metis

lemma settles_post: "settles run i a b \<Longrightarrow> onward run b c \<Longrightarrow> settles run i a c"
  unfolding settles_def using marked_onward onward_trans by metis

lemma onward_walking: "onward run w w' \<Longrightarrow> walking run w'"
  by (simp add: onward_def)

lemma onward_refl: "walking run w \<Longrightarrow> onward run w w"
  by (rule onward_goes) (auto intro: seen.goes_refl indexed.goes_refl)

lemma stamp_identity_settles:
  assumes "walking run w" and "i \<noteq> []"
  shows "settles run i w (snd (stamp_identity i w))"
  unfolding settles_def using stamp_identity_marks(2) [OF assms(1) _ assms(2)]
    onward_goes [OF assms(1) seen.stamp_identity_goes indexed.stamp_identity_goes] walking_ok [OF assms(1)]
  by blast

lemma fault_identity_settles:
  assumes "walking run w" and "mr_mid ref \<noteq> []"
  shows "settles run (''mid:'' @ mr_mid ref) w (snd (fault_identity ref parsed w))"
proof -
  let ?i = "''mid:'' @ mr_mid ref"
  obtain a w1 where 1: "stamp_identity ?i w = (a, w1)" by fastforce
  obtain b w2 where 2: "(case parsed of Some m \<Rightarrow> stamp_identity (identity m) w1 | None \<Rightarrow> (False, w1)) = (b, w2)"
    by fastforce
  obtain c w3 where 3: "(if mr_phys_id ref \<noteq> [] then stamp_phys (mr_phys_id ref) w2 else (False, w2)) = (c, w3)"
    by fastforce
  have s1: "settles run ?i w w1" using stamp_identity_settles [OF assms(1), of ?i] unfolding 1 by simp
  then have o1: "walking run w1" by (simp add: settles_def onward_def)
  have o2: "onward run w1 w2"
    using 2 onward_goes [OF o1 seen.stamp_identity_goes indexed.stamp_identity_goes] walking_ok [OF o1] onward_refl [OF o1]
    by (auto split: option.splits) (metis snd_conv)
  note w2 = onward_walking [OF this]
  have o3: "onward run w2 w3"
    using 3 onward_goes [OF w2 seen.stamp_phys_goes indexed.stamp_phys_goes] walking_ok [OF w2] onward_refl [OF w2]
    by (auto split: if_splits) (metis snd_conv)
  note w3 = onward_walking [OF this]
  have s3: "settles run ?i w w3" using settles_post [OF settles_post [OF s1 o2] o3] .
  have o4: "onward run w3 (w3\<lparr>mw_spare := sp\<rparr>)" for sp
    by (rule onward_goes [OF w3]) (auto intro: seen.goes_run indexed.goes_run)
  show ?thesis unfolding fault_identity_def Let_def if_P [OF assms(2)] 1 2 3 prod.case
    using s3 settles_post [OF s3 o4] by simp
qed

lemma observe_item_settles:
  assumes "walking run w" and "mr_mid ref \<noteq> []"
  shows "settles run (''mid:'' @ mr_mid ref) w (observe_item sep ref parsed fk reason cls detail w)"
proof -
  obtain d w1 where f: "fault_identity ref parsed w = (d, w1)" by fastforce
  have s: "settles run (''mid:'' @ mr_mid ref) w w1" using fault_identity_settles [OF assms, of parsed] by (simp add: f)
  then have w1: "walking run w1" by (simp add: settles_def onward_def)
  have "onward run w1 (on_run (run_observe sep g) w1)" for g
    by (rule onward_goes [OF w1]) (auto intro: seen.goes_books indexed.goes_books books_observe)
  from settles_post [OF s this] show ?thesis by (simp add: observe_item_def f)
qed

text \<open>Steps that only move the books.\<close>

lemma onward_lookups:
  assumes "walking run w"
  shows "onward run w (snd (has_record ref w))" "onward run w (snd (archived_copy ref w))"
    "onward run w (snd (same_token i w))" "onward run w (on_exp (counted f) w)"
    "onward run w (snd (note_breaker kind took w))" "onward run w (snd (breaker_check ctl fired w))"
    "onward run w (snd (graph_streak e w))" "onward run w (folder_unwritable sep fk t d w)"
    "onward run w (graph_recovered ref w)" "onward run w (record_move k fk w)"
    "books (mw_s w) s' \<Longrightarrow> onward run w (w\<lparr>mw_s := s'\<rparr>)"
  by (rule onward_goes [OF assms],
      auto intro: seen.lookup_goes indexed.lookup_goes seen.same_token_goes indexed.same_token_goes seen.goes_counted
        indexed.goes_counted seen.note_breaker_goes indexed.note_breaker_goes seen.breaker_check_goes
        indexed.breaker_check_goes seen.goes_steps indexed.goes_steps books_same seen.folder_unwritable_goes
        indexed.folder_unwritable_goes seen.graph_recovered_goes indexed.graph_recovered_goes seen.goes_books
        indexed.goes_books)+

lemma fetch_cost_settles:
  assumes "walking run w" and "mr_mid ref \<noteq> []"
  shows "settles run (''mid:'' @ mr_mid ref) w (fetch_cost sep ref fk err c w)"
proof -
  let ?old = "ex_since (mw_exp w) \<noteq> zero_time \<and> mr_received ref \<noteq> zero_time \<and> mr_received ref < ex_since (mw_exp w)"
  obtain known w1 where h: "(if ?old then has_record ref w else (True, w)) = (known, w1)" by fastforce
  have g: "onward run w w1"
    using h onward_lookups(1) [OF assms(1), of ref] onward_refl [OF assms(1)] by (auto split: if_splits)
  note w1 = onward_walking [OF g]
  have o: "onward run w (on_exp (counted f) w1)" for f using onward_trans [OF g onward_lookups(4) [OF w1]] .
  have k: "settles run (''mid:'' @ mr_mid ref) w (snd (fault_identity ref None (on_exp (counted f) w1)))" for f
    using settles_pre [OF o fault_identity_settles [OF onward_walking [OF o] assms(2)]] .
  obtain sibs w2 where t: "(if ex_mode (mw_exp w1) = Full \<and> mr_mid ref \<noteq> [] then same_token (''mid:'' @ mr_mid ref) w1
      else ([], w1)) = (sibs, w2)" by fastforce
  have "onward run w1 w2"
    using t onward_lookups(3) [OF w1, of "''mid:'' @ mr_mid ref"] onward_refl [OF w1] by (auto split: if_splits)
  then have g2: "onward run w w2" by (rule onward_trans [OF g])
  have "settles run (''mid:'' @ mr_mid ref) w (observe_item sep ref None fk reason cls detail w2)" for reason cls detail
    using settles_pre [OF g2 observe_item_settles [OF onward_walking [OF g2] assms(2)]] .
  with k [of "\<lambda>s. s\<lparr>s_skipped_date := s_skipped_date s + 1\<rparr>"] show ?thesis
    unfolding fetch_cost_def Let_def h t prod.case by (simp split: prod.split)
qed

lemma fetch_fault_settles:
  assumes "walking run w" and "mr_mid ref \<noteq> []" and "fetch_fault sep ctl wdone ref fk err took w = (None, w')"
  shows "settles run (''mid:'' @ mr_mid ref) w w'"
proof -
  let ?c = "classify_fetch (Some err) wdone"
  let ?w1 = "fetch_cost sep ref fk err ?c w"
  have s: "settles run (''mid:'' @ mr_mid ref) w ?w1" using fetch_cost_settles [OF assms(1,2)] .
  then have w1: "walking run ?w1" by (simp add: settles_def onward_def)
  have o: "onward run ?w1 (snd (note_breaker kind took ?w1))" for kind using onward_lookups(5) [OF w1] .
  have "onward run ?w1 (snd (breaker_check ctl fired (snd (note_breaker kind took ?w1))))" for kind fired
    using onward_trans [OF o onward_lookups(6) [OF onward_walking [OF o]]] .
  then have "settles run (''mid:'' @ mr_mid ref) w (snd (breaker_check ctl fired (snd (note_breaker kind took ?w1))))"
    for kind fired using settles_post [OF s] by blast
  then show ?thesis using assms(3)
    by (simp add: fetch_fault_def Let_def split: if_splits prod.splits) (metis snd_conv)+
qed

end
