(* ===== verification/CaptureSeen.thy ===== *)
theory CaptureSeen
  imports WalkSeen
begin

text \<open>
  What the export of a message leaves seen: a message the exporter wrote or kept is a record stamped by
  the run, except one before the window with no record and one whose re-read is still incomplete, which
  the exporter leaves unstamped.
\<close>

definition current :: "gotime \<Rightarrow> manifest \<Rightarrow> string \<Rightarrow> bool" where
  "current run m k \<longleftrightarrow> (\<exists>r. mget (m_entries m) k = Some r \<and> r_present r \<and> \<not> r_last_seen r < run)"

lemma current_stays: "current run m k \<Longrightarrow> stays run m m' \<Longrightarrow> current run m' k"
  unfolding current_def stays_def seen_after_def by metis

lemma current_merge: "mget (m_entries m) k = Some r \<Longrightarrow> \<not> t < run \<Longrightarrow> current run (snd (merge_fields k f t True m)) k"
  by (simp add: current_def merge_fields_def)

lemma current_keeps: "current run m k \<Longrightarrow> keeps (seen_after run) m m' \<Longrightarrow> current run m' k"
  using current_stays stays_keeps by blast

subsection \<open>The skips\<close>

lemma stamp_kept_current:
  assumes "ex_dedup ex" and "ex_get ex k = Some r" and "\<not> t < run"
  shows "current run (ex_manifest (stamp_kept store fk fp m k prev t ex)) k"
proof -
  let ?m = "snd (merge_fields k fk t True (ex_manifest ex))"
  obtain sibs man where s: "keys_for_identity (identity m) ?m = (sibs, man)" by fastforce
  have c: "current run ?m k" using assms(2,3) by (simp add: ex_get_def current_merge)
  have "stays run ?m man" using seen.ident_keeps [of run ?m "identity m"] by (simp add: s)
  with c have "current run man k" by (rule current_stays)
  then have "current run (touch_siblings store k t sibs man) k"
    using current_stays seen.touch_siblings_keeps [OF assms(3)] by blast
  then show ?thesis using c s assms(1) by (auto simp: stamp_kept_def Let_def)
qed

lemma observe_archived_current:
  assumes "ex_get ex k = Some r" and "seen.clock_ok run w ex"
  shows "current run (ex_manifest (observe_archived w k prev fk fp ex)) k"
  using assms by (auto simp: observe_archived_def Let_def ex_get_def seen.clock_ok_def intro!: current_merge)

lemma kept_current:
  assumes "keep_degraded w store fk fp m k ex = (True, ex')" and "ex_dedup ex" and "seen.clock_ok run w ex"
  shows "\<exists>k0 r. ex_get ex k0 = Some r \<and> (k0 = k \<or> record_has_phys_id r (ms_phys_id m)) \<and> current run (ex_manifest ex') k0"
proof -
  obtain k0 found ex1 where a: "archived_record_for store m k ex = ((k0, found), ex1)" by (metis prod.exhaust)
  note c = archived_record_cases [OF a]
  have k1: "stays run (ex_manifest ex) (ex_manifest ex1)" using seen.archived_record_keeps [of run ex store m k] by (simp add: a)
  have e1: "ex_dedup ex1 = ex_dedup ex" "seen.clock_ok run w ex1"
    using a assms(3) by (auto simp: archived_record_for_def Let_def split: if_splits prod.splits option.splits)
  obtain t ex2 where s: "run_stamp w ex1 = (t, ex2)" by fastforce
  have t: "\<not> t < run" "ex_manifest ex2 = ex_manifest ex1" using seen.run_stamp_ok [OF e1(2) s] by simp_all
  have d2: "ex_dedup ex2" using s e1 assms(2) by (auto simp: run_stamp_def Let_def split: if_splits)
  obtain prev where p: "found = Some prev" using assms(1) a by (cases found) (simp_all add: keep_degraded_def)
  let ?ex3 = "counted (\<lambda>s. s\<lparr>s_kept := s_kept s + 1\<rparr>) (stamp_kept store fk fp m k0 prev t ex2)"
  have ex': "ex' = observe_kept w store fk m ?ex3"
    using assms(1) a p s by (auto simp: keep_degraded_def Let_def split: if_splits)
  have g: "ex_get ex k0 = Some prev" using c p by simp
  then obtain r2 where "ex_get ex2 k0 = Some r2" using k1 t(2) stays_get unfolding ex_get_def by metis
  then have "current run (ex_manifest ?ex3) k0" using stamp_kept_current [OF d2 _ t(1)] by simp
  then have "current run (ex_manifest ex') k0" unfolding ex' by (rule current_stays) (rule seen.observe_kept_keeps)
  then show ?thesis using c p g by auto
qed

lemma skip_current:
  assumes "ex_get ex k = Some r" and "ex_dedup ex" and "seen.clock_ok run w ex"
  shows "current run (ex_manifest (skip_archived w store fk fp m k prev ex)) k"
    and "current run (ex_manifest (skip_date w fk fp k (Some prev) ex)) k"
proof -
  let ?a = "observe_archived w k prev fk fp ex"
  have o: "current run (ex_manifest ?a) k" by (rule observe_archived_current [OF assms(1,3)])
  then show "current run (ex_manifest (skip_date w fk fp k (Some prev) ex)) k"
    using assms(2) by (simp add: skip_date_def Let_def)
  have "current run (ex_manifest (supersede_after store k m (stamp_examined k m prev ?a))) k"
    using current_stays [OF current_stays [OF o seen.stamp_examined_keeps] seen.supersede_after_keeps] .
  then show "current run (ex_manifest (skip_archived w store fk fp m k prev ex)) k"
    using assms(2) by (simp add: skip_archived_def Let_def)
qed

lemma capture_current:
  assumes "capture w store fk fp m retry key found ex = (Wrote, ex')" and "ex_dedup ex" and "\<not> wd_now w < run"
  shows "current run (ex_manifest ex') key"
  using assms(1)
proof (cases rule: capture_outcome)
  case (2 wr rel r ex1)
  have "current run (add key r (ex_manifest ex1)) key"
    using 2(3) assms(2,3) by (auto simp: current_def add_get record_of_def)
  then show ?thesis
    using current_stays seen.supersede_after_keeps [of run "count_read_gaps m (ex1\<lparr>ex_manifest := add key r (ex_manifest ex1)\<rparr>)" store key m]
    unfolding 2(4) by (simp add: commit_manifest)
qed simp

lemma rendered_not_skipped:
  "fst (capture_rendered w store fk m retry key found dir base rel d wr rr ex) \<noteq> Skipped"
  by (simp add: capture_rendered_def Let_def split: option.split prod.split)

lemma capture_not_skipped: "fst (capture w store fk fp m retry key found ex) \<noteq> Skipped"
  using rendered_not_skipped by (simp add: capture_def capture_at_def Let_def split: option.split prod.split)

subsection \<open>The export of one message\<close>

text \<open>What a message may leave unstamped: it is before the window and not archived, or still incomplete.\<close>

definition unstamped_skip :: "world \<Rightarrow> exporter \<Rightarrow> string \<Rightarrow> message \<Rightarrow> bool" where
  "unstamped_skip w ex key m \<longleftrightarrow>
     (case decide w (ex_mode ex) (ex_since ex) (ex_get ex key) m of
        Skip_date \<Rightarrow> ex_get ex key = None
      | Skip_incomplete stale \<Rightarrow> True
      | _ \<Rightarrow> False)"

text \<open>The key and the state an export decides at: past the guard of a degraded read, at the message's own place.\<close>

definition placed_at :: "world \<Rightarrow> string \<Rightarrow> string list \<Rightarrow> message \<Rightarrow> exporter \<Rightarrow> string \<Rightarrow> exporter \<Rightarrow> bool" where
  "placed_at w store fp m ex key ex1 \<longleftrightarrow> (let fk = join CHR ''/'' fp
     in \<exists>exk. (if ms_read_gaps m = [] then (False, ex) else keep_degraded w store fk fp m (base_key store fk m ex) ex) = (False, exk)
        \<and> place store fk m exk = (key, ex1))"

text \<open>The record an export answers with: the one it wrote, or one that stands for the message already.\<close>

definition answers :: "exporter \<Rightarrow> string \<Rightarrow> string \<Rightarrow> message \<Rightarrow> exporter \<Rightarrow> string \<Rightarrow> bool" where
  "answers ex store fk m ex' k \<longleftrightarrow>
     (\<exists>r. ex_get ex' k = Some r \<and> r_fingerprint r = fingerprint m \<and> r_content_hash r = content_digest m)
     \<or> (\<exists>r. ex_get ex k = Some r \<and> (same_item ex store fk m k r
            \<or> ms_read_gaps m \<noteq> [] \<and> (k = base_key store fk m ex \<or> record_has_phys_id r (ms_phys_id m))))"

lemma export_current:
  assumes "export w store fp m ex = (res, ex')" and "res \<in> {Wrote, Skipped}"
    and "ex_dedup ex" and "seen.clock_ok run w ex" and "ex_run_at ex \<noteq> zero_time"
  shows "(\<exists>k. answers ex store (join CHR ''/'' fp) m ex' k \<and> current run (ex_manifest ex') k)
    \<or> (\<exists>ex1 key. res = Skipped \<and> placed_at w store fp m ex key ex1 \<and> unstamped_skip w ex1 key m)"
proof -
  let ?fk = "join CHR ''/'' fp"
  obtain kept exk where kd: "(if ms_read_gaps m = [] then (False, ex)
    else keep_degraded w store ?fk fp m (base_key store ?fk m ex) ex) = (kept, exk)" by fastforce
  obtain key ex1 where pl: "place store ?fk m exk = (key, ex1)" by fastforce
  have sk: "same_settings ex exk"
    using kd settings_keep [of ex w store ?fk fp m "base_key store ?fk m ex"] by (auto split: if_splits)
  have s1: "same_settings ex ex1"
    using settings_trans [OF sk] settings_simps(12) [of exk store ?fk m] by (simp add: pl)
  have w: "ex_dedup ex1" "seen.clock_ok run w ex1" "\<not> wd_now w < run"
    using s1 assms(3-5) seen.clock_settings [OF assms(4,5) s1] by (auto simp: same_settings_def seen.clock_ok_def)
  note x = assms(1) [unfolded export_def Let_def kd pl prod.case]
  show ?thesis
  proof (cases kept)
    case True
    then have "keep_degraded w store ?fk fp m (base_key store ?fk m ex) ex = (True, ex')" "ms_read_gaps m \<noteq> []"
      using x kd by (auto split: if_splits)
    with kept_current [OF this(1) assms(3,4)] show ?thesis unfolding answers_def by blast
  next
    case False
    then have "(if ms_read_gaps m = [] then (False, ex)
      else keep_degraded w store ?fk fp m (base_key store ?fk m ex) ex) = (False, exk)" using kd by simp
    note placed = export_placed [OF this pl]
    have at: "placed_at w store fp m ex key ex1" using \<open>_ = (False, exk)\<close> pl unfolding placed_at_def Let_def by blast
    have was: "answers ex store ?fk m ex' key" if prev: "ex_get ex1 key = Some prev" for prev
    proof -
      obtain r where "ex_get ex key = Some r"
        using keeps_back [of same_capture "ex_manifest ex" "ex_manifest ex1" key prev] placed(1) prev
        unfolding survives_def ex_get_def by blast
      with placed(2) show ?thesis unfolding answers_def by blast
    qed
    show ?thesis
    proof (cases "decide w (ex_mode ex1) (ex_since ex1) (ex_get ex1 key) m")
      case Skip_archived
      then obtain prev where p: "ex_get ex1 key = Some prev"
        by (cases "ex_get ex1 key") (simp_all add: decide_def Let_def split: if_splits)
      then have "ex' = skip_archived w store ?fk fp m key prev ex1" using x False Skip_archived by auto
      then show ?thesis using was [OF p] skip_current(1) [OF p w(1,2)] by blast
    next
      case (Skip_incomplete st)
      then obtain prev where "ex_get ex1 key = Some prev"
        by (cases "ex_get ex1 key") (simp_all add: decide_def Let_def split: if_splits)
      then have "res = Skipped" "unstamped_skip w ex1 key m" using x False Skip_incomplete by (auto simp: unstamped_skip_def)
      then show ?thesis using at by blast
    next
      case Skip_date
      show ?thesis
      proof (cases "ex_get ex1 key")
        case None
        then have "res = Skipped" "unstamped_skip w ex1 key m" using x False Skip_date by (auto simp: unstamped_skip_def)
        then show ?thesis using at by blast
      next
        case (Some prev)
        then have "ex' = skip_date w ?fk fp key (Some prev) ex1" using x False Skip_date by auto
        then show ?thesis using was [OF Some] skip_current(2) [OF Some w(1,2)] by blast
      qed
    next
      case (Capture retry)
      have c: "capture w store ?fk fp m retry key (ex_get ex1 key) ex1 = (res, ex')" using x False Capture by simp
      then have res: "res = Wrote" using assms(2) capture_not_skipped [of w store ?fk fp m retry key "ex_get ex1 key" ex1] by auto
      then have "captured key m ex1 ex'" using capture_commits [OF c] by blast
      then have "answers ex store ?fk m ex' key" unfolding answers_def captured_def ex_get_def by blast
      then show ?thesis using capture_current [OF _ w(1,3)] c res by blast
    qed
  qed
qed

end
