(* ===== verification/WalkListed.thy ===== *)
theory WalkListed
  imports WalkMarks CaptureSeen
begin

text \<open>
  What one visit does to the records of the message it lists, on every branch of the visit, and with it
  the guarantee of the walk: no record that could be a listed message is marked gone by the walk that
  listed it.
\<close>

subsection \<open>A downloaded message\<close>

lemma graph_refused_settles:
  assumes "walking run w" and "mr_mid ref \<noteq> []" and "graph_refused en ref fk m e w = (None, w')"
  shows "settles run (''mid:'' @ mr_mid ref) w w'"
proof -
  let ?i = "''mid:'' @ mr_mid ref"
  obtain err s1 where pr: "run_probe en (mw_s w) = (err, s1)" by fastforce
  have b: "books (mw_s w) s1" using books_steps(1) [where en = en and s = "mw_s w"] by (simp add: pr)
  have c: "books (mw_s w) (count_export_fault s1)" "books (mw_s w) (count_export_fault (s1\<lparr>sr_unwritable := u\<rparr>))" for u
    using books_trans [OF b books_steps(3)] books_trans [OF books_trans [OF b books_steps(5)] books_steps(3)] .
  have o: "onward run w (w\<lparr>mw_s := count_export_fault s1\<rparr>)"
    "onward run w (w\<lparr>mw_s := count_export_fault (s1\<lparr>sr_unwritable := u\<rparr>)\<rparr>)" for u
    using onward_lookups(11) [OF assms(1)] c by blast+
  have item: "settles run ?i w (snd (graph_streak e (observe_item sep ref (Some m) fk r cl t (w\<lparr>mw_s := count_export_fault s1\<rparr>))))"
    for sep r cl t
  proof -
    have s: "settles run ?i w (observe_item sep ref (Some m) fk r cl t (w\<lparr>mw_s := count_export_fault s1\<rparr>))"
      using settles_pre [OF o(1) observe_item_settles [OF onward_walking [OF o(1)] assms(2)]] .
    then show ?thesis using settles_post onward_lookups(7) onward_walking settles_def by metis
  qed
  have folder: "settles run ?i w (snd (graph_streak e (folder_unwritable sep fk t d w2)))"
    if "fault_identity ref (Some m) (w\<lparr>mw_s := count_export_fault (s1\<lparr>sr_unwritable := u\<rparr>)\<rparr>) = (d, w2)" for sep t d w2 u
  proof -
    let ?w1 = "w\<lparr>mw_s := count_export_fault (s1\<lparr>sr_unwritable := u\<rparr>)\<rparr>"
    have "settles run ?i ?w1 w2"
      using fault_identity_settles [OF onward_walking [OF o(2) [of u]] assms(2), of "Some m"] unfolding that by simp
    then have s: "settles run ?i w w2" by (rule settles_pre [OF o(2)])
    then have w2: "walking run w2" by (simp add: settles_def onward_def)
    note f = onward_lookups(8) [OF w2, of sep fk t d]
    show ?thesis using settles_post [OF s onward_trans [OF f onward_lookups(7) [OF onward_walking [OF f]]]] .
  qed
  show ?thesis using assms(3) item folder
    unfolding graph_refused_def Let_def pr prod.case
    by (auto split: if_splits export_error.splits option.splits prod.splits) (metis snd_conv)+
qed

text \<open>The message the answer brought, and what its export leaves in the manifest.\<close>

definition read_by :: "answer \<Rightarrow> message_ref \<Rightarrow> message \<Rightarrow> bool" where
  "read_by an ref m \<longleftrightarrow> (\<exists>data m0. an_fetch an = Inr data \<and> looks_like_message data \<and> an_parse an data = Some m0
     \<and> m \<in> {apply_graph_state m0 ref, set_internet_message_id (mr_mid ref) (apply_graph_state m0 ref)})"

definition exported :: "gotime \<Rightarrow> world \<Rightarrow> string list \<Rightarrow> message \<Rightarrow> mailbox_walk \<Rightarrow> manifest \<Rightarrow> bool" where
  "exported run wd path m w man' \<longleftrightarrow> (\<exists>out ex'. export wd (mw_token w) path m (mw_exp w) = (out, ex')
     \<and> ((\<exists>k. answers (mw_exp w) (mw_token w) (join CHR ''/'' path) m ex' k \<and> current run man' k)
        \<or> out = Skipped \<and> (\<exists>ex1 key. placed_at wd (mw_token w) path m (mw_exp w) key ex1 \<and> unstamped_skip wd ex1 key m)))"

lemma exported_stays: "exported run wd path m w man \<Longrightarrow> stays run man man' \<Longrightarrow> exported run wd path m w man'"
  unfolding exported_def using current_stays by metis

lemma export_one_settles:
  assumes "walking run w" and "mr_mid ref \<noteq> []" and "export_one en ref path m w = (None, w')"
    and "\<not> wd_now (en_world en) < run"
  shows "settles run (''mid:'' @ mr_mid ref) w w' \<or> exported run (en_world en) path m w (mw_man w')"
proof -
  obtain out ex where e: "export (en_world en) (mw_token w) path m (mw_exp w) = (out, ex)" by fastforce
  let ?w = "on_exp (\<lambda>_. ex) w" and ?fk = "join CHR ''/'' path"
  have o: "onward run w ?w"
    using onward_goes [OF assms(1) seen.goes_export indexed.goes_export, OF walking_ok [OF assms(1)] assms(4)
        walking_ok [OF assms(1)] assms(4), of path m] by (simp add: e)
  note w1 = onward_walking [OF o]
  note p = onward_lookups(11) [OF w1 books_steps(4)]
  have pa: "settles run (''mid:'' @ mr_mid ref) w (observe_item sep ref (Some m) fk r c t (on_run count_export_panic ?w))" for sep fk r c t
    using settles_pre [OF onward_trans [OF o p] observe_item_settles [OF onward_walking [OF p] assms(2)]] .
  have re: "settles run (''mid:'' @ mr_mid ref) w w'" if "graph_refused en ref fk m er ?w = (None, w')" for fk er
    using settles_pre [OF o graph_refused_settles [OF w1 assms(2) that]] .
  have c: "ex_dedup (mw_exp w)" "seen.clock_ok run (en_world en) (mw_exp w)" "ex_run_at (mw_exp w) \<noteq> zero_time"
    using walking_ok [OF assms(1)] assms(4) by (simp_all add: seen.walk_ok_def seen.clock_ok_def)
  have ex: "exported run (en_world en) path m w ex_man" if "out \<in> {Wrote, Skipped}" "ex_man = ex_manifest ex" for ex_man
    using export_current [OF e that(1) c] e unfolding exported_def that(2) by blast
  have man: "mw_man ?w = ex_manifest ex" by (simp add: mw_man_def mw_exp_def on_exp_def)
  have "stays run (mw_man ?w) (mw_man (graph_wrote ref ?fk ?w))"
    using seen.graph_wrote_goes [of run ?w ref ?fk] by (simp add: seen.goes_def)
  from exported_stays [OF ex this] man
  have wr: "exported run (en_world en) path m w (mw_man (graph_wrote ref ?fk ?w))" if "out = Wrote" using that by blast
  show ?thesis using assms(3) pa re wr ex man unfolding export_one_def Let_def e prod.case
    by (auto split: outcome.splits)
qed

lemma graph_stub_held:
  assumes "walking run w" and "graph_stub sep ref m fk w = ((held, m'), w')"
  shows "onward run w w'" and "held \<Longrightarrow> settles run (''mid:'' @ mr_mid ref) w w'"
proof -
  show "onward run w w'"
    using onward_goes [OF assms(1) seen.graph_stub_goes indexed.graph_stub_goes, OF walking_ok [OF assms(1)] walking_ok [OF assms(1)],
        of sep ref m fk] by (simp add: assms(2))
  obtain arch w1 where a: "archived_copy ref w = (arch, w1)" by fastforce
  have o: "onward run w w1" using onward_lookups(2) [OF assms(1), of ref] by (simp add: a)
  let ?f = "snd (fault_identity ref None w1)" and ?k = "counted (\<lambda>s. s\<lparr>s_kept := s_kept s + 1\<rparr>)"
  show "settles run (''mid:'' @ mr_mid ref) w w'" if held
  proof -
    from that assms(2) have r: "mr_mid ref \<noteq> []" "arch"
      and w': "w' = on_run (run_observe sep (graph_item_gap ref fk ''refresh-failed'' class_info
             ''a newer read of this item could not be parsed; the archived copy was kept unchanged'')) (on_exp ?k ?f)"
      by (auto simp: graph_stub_def a split: if_splits bool.splits)
    have s: "settles run (''mid:'' @ mr_mid ref) w ?f"
      using settles_pre [OF o fault_identity_settles [OF onward_walking [OF o] r(1)]] .
    then have "walking run ?f" by (simp add: settles_def onward_def)
    note k = onward_lookups(4) [OF this]
    show ?thesis unfolding w'
      using settles_post [OF s onward_trans [OF k onward_lookups(11) [OF onward_walking [OF k] books_observe]]] .
  qed
qed

lemma download_settles:
  assumes "walking run w" and "mr_mid ref \<noteq> []" and "download an ref path w = (None, w')"
    and "\<not> wd_now (en_world (an_en an)) < run"
  shows "settles run (''mid:'' @ mr_mid ref) w w'
    \<or> (\<exists>w1 m. onward run w w1 \<and> read_by an ref m \<and> exported run (en_world (an_en an)) path m w1 (mw_man w'))"
proof (cases "an_fetch an")
  case (Inl err)
  then show ?thesis using assms(3) fetch_fault_settles [OF assms(1,2)] by (simp add: download_def Let_def)
next
  case (Inr data)
  let ?w = "snd (note_breaker Attempt_OK 0 w)" and ?fk = "join CHR ''/'' path" and ?sep = "wd_sep (en_world (an_en an))"
  have o: "onward run w ?w" using onward_lookups(5) [OF assms(1)] .
  note w1 = onward_walking [OF o]
  show ?thesis
  proof (cases "looks_like_message data")
    case False
    then show ?thesis using assms(3) Inr fetch_fault_settles [OF assms(1,2)] by (simp add: download_def Let_def)
  next
    case True
    show ?thesis
    proof (cases "an_parse an data")
      case None
      then have "w' = observe_item ?sep ref None ?fk ''export-failed'' class_fillable ''the message could not be parsed'' ?w"
        using assms(3) Inr True unfolding download_def Let_def by simp
      then show ?thesis using settles_pre [OF o observe_item_settles [OF w1 assms(2)]] by blast
    next
      case (Some m0)
      let ?m = "apply_graph_state m0 ref"
      have one: ?thesis if "export_one (an_en an) ref path m w2 = (None, w')" "onward run w w2"
        "m \<in> {?m, set_internet_message_id (mr_mid ref) ?m}" for m w2
      proof -
        have "read_by an ref m" using Inr True Some that(3) unfolding read_by_def by blast
        then show ?thesis
          using export_one_settles [OF onward_walking [OF that(2)] assms(2) that(1) assms(4)] settles_pre [OF that(2)] that(2)
          by blast
      qed
      obtain held m2 w2 where g: "graph_stub ?sep ref ?m ?fk ?w = ((held, m2), w2)" by (metis prod.collapse)
      then have m2: "\<not> held \<Longrightarrow> m2 \<in> {?m, set_internet_message_id (mr_mid ref) ?m}"
        by (auto simp: graph_stub_def split: if_splits prod.splits bool.splits)
      have g2: "onward run w w2" "held \<Longrightarrow> settles run (''mid:'' @ mr_mid ref) w w2"
        using onward_trans [OF o graph_stub_held(1) [OF w1 g]] settles_pre [OF o graph_stub_held(2) [OF w1 g]] by blast+
      show ?thesis
      proof (cases "parse_stub m0")
        case False
        then show ?thesis using assms(3) Inr True Some one [OF _ o, of ?m] unfolding download_def Let_def by simp
      next
        case stub: True
        then have d: "(if held then (None, w2) else export_one (an_en an) ref path m2 w2) = (None, w')"
          using assms(3) Inr True Some g unfolding download_def Let_def by simp
        show ?thesis using d g2(2) one [OF _ g2(1) m2] by (cases held) auto
      qed
    qed
  qed
qed

subsection \<open>A message recognised before the download\<close>

lemma marked_merge:
  "mget (m_entries (mw_man w)) k = Some r \<Longrightarrow> marked run (on_man (\<lambda>m. snd (merge_fields k fk run True m)) w) k"
  by (simp add: marked_def merge_fields_def)

lemma marked_touch:
  "k \<in> set ks \<Longrightarrow> mget (m_entries (mw_man w)) k = Some r \<Longrightarrow> marked run (on_man (touch_all ks run) w) k"
  by (simp add: marked_def touch_all_get)

lemma record_stays:
  "mget (m_entries (mw_man w)) k = Some r \<Longrightarrow> onward run w w' \<Longrightarrow> \<exists>r'. mget (m_entries (mw_man w')) k = Some r'"
  using stays_get by (metis onward_def)

lemma fast_skip_marks:
  assumes w: "walking run w" and c: "mget (m_entries (mw_man w)) (sc_key c) = Some rc"
  shows "onward run w (fast_skip c i sibs ref fk w)" and "marked run (fast_skip c i sibs ref fk w) (sc_key c)"
    and "\<not> sc_matched c \<Longrightarrow> k \<in> ir_key ` set sibs \<Longrightarrow> mget (m_entries (mw_man w)) k = Some r \<Longrightarrow> marked run (fast_skip c i sibs ref fk w) k"
proof -
  let ?key = "sc_key c"
  have t: "mw_run_at w = run" "\<not> run < run" using w by (simp_all add: walking_def)
  have man: "onward run v (on_man f v)" if "walking run v" "seen.goes run v (on_man f v)" "indexed.goes v (on_man f v)" for v f
    using onward_goes that by blast
  define w1 where "w1 = (if unknown rc then on_man (\<lambda>m. snd (resolve ?key m)) w else w)"
  have o1: "onward run w w1" unfolding w1_def using onward_refl [OF w]
    onward_goes [OF w seen.goes_man indexed.goes_man] seen.resolve_keeps indexed.resolve_keeps by simp
  define w2 where "w2 = (if unknown rc \<and> fst (resolve ?key (mw_man w))
    then on_exp (counted (\<lambda>s. s\<lparr>s_resolved := s_resolved s + 1\<rparr>)) w1 else w1)"
  have o2: "onward run w1 w2" unfolding w2_def
    using onward_refl onward_walking [OF o1] onward_lookups(4) [of run w1 "\<lambda>s. s\<lparr>s_resolved := s_resolved s + 1\<rparr>"] by simp
  note w2 = onward_walking [OF o2]
  define w3 where "w3 = on_man (\<lambda>m. snd (merge_fields ?key fk run True m)) w2"
  have o3: "onward run w2 w3" unfolding w3_def
    using t by (intro man w2 seen.goes_man indexed.goes_man seen.merge_fields_keeps indexed.merge_fields_keeps)
  have "marked run w3 ?key"
    unfolding w3_def using record_stays [OF c onward_trans [OF o1 o2]] marked_merge by blast
  moreover define w4 where "w4 = (if r_folder rc \<noteq> fk \<or> \<not> r_present rc then record_move ?key fk w3 else w3)"
  have o4: "onward run w3 w4" unfolding w4_def
    using onward_refl onward_lookups(10) onward_walking [OF o3] by simp
  note w4 = onward_walking [OF o4]
  let ?ks = "filter (\<lambda>k. k \<noteq> ?key) (map ir_key sibs)"
  define w5 where "w5 = (if sc_matched c then w4 else on_man (touch_all ?ks run) w4)"
  have "onward run w4 (on_man (touch_all ?ks run) w4)"
    using t by (intro man w4 seen.goes_man indexed.goes_man seen.touch_all_keeps indexed.touch_all_keeps)
  then have o5: "onward run w4 w5" unfolding w5_def using onward_refl [OF w4] by simp
  have m5: "marked run w5 k" if k: "\<not> sc_matched c" "k \<in> ir_key ` set sibs" "k \<noteq> ?key" "mget (m_entries (mw_man w)) k = Some r"
  proof -
    obtain r4 where "mget (m_entries (mw_man w4)) k = Some r4"
      using record_stays [OF k(4) onward_trans [OF onward_trans [OF o1 o2] onward_trans [OF o3 o4]]] by blast
    with marked_touch [of k ?ks w4 r4 run] show ?thesis using k(1-3) unfolding w5_def by simp
  qed
  define w6 where "w6 = on_exp (counted (\<lambda>s. s\<lparr>s_skipped_manifest := s_skipped_manifest s + 1\<rparr>))
    (on_exp (note_id_reuse i (length sibs)) w5)"
  have n: "onward run w5 (on_exp (note_id_reuse i (length sibs)) w5)"
    using onward_goes [OF onward_walking [OF o5] seen.goes_reuse indexed.goes_reuse] .
  have o6: "onward run w5 w6" unfolding w6_def
    by (rule onward_trans [OF n]) (rule onward_lookups(4) [OF onward_walking [OF n]])
  have o7: "onward run w6 (graph_recovered ref w6)" using onward_lookups(9) [OF onward_walking [OF o6]] .
  note o57 = onward_trans [OF o6 o7] and o37 = onward_trans [OF o4 onward_trans [OF o5 onward_trans [OF o6 o7]]]
  have rc: "(case mget (m_entries (mw_man w)) ?key of Some r \<Rightarrow> r | None \<Rightarrow> zero_rec) = rc"
    using c by (simp add: holds_def)
  have f: "fast_skip c i sibs ref fk w = graph_recovered ref w6"
    unfolding fast_skip_def Let_def rc t(1) w6_def w5_def w4_def w3_def w2_def w1_def ..
  show "onward run w (fast_skip c i sibs ref fk w)" unfolding f
    using onward_trans [OF onward_trans [OF o1 o2] onward_trans [OF o3 o37]] .
  show m: "marked run (fast_skip c i sibs ref fk w) ?key" unfolding f
    using marked_onward [OF \<open>marked run w3 ?key\<close> o37] .
  show "marked run (fast_skip c i sibs ref fk w) k"
    if "\<not> sc_matched c" "k \<in> ir_key ` set sibs" "mget (m_entries (mw_man w)) k = Some r"
    using that m m5 marked_onward [OF _ o57] unfolding f by (cases "k = ?key") auto
qed

lemma find_mem: "find P xs = Some x \<Longrightarrow> x \<in> set xs \<and> P x"
  by (induction xs) (auto split: if_splits)

lemma choose_skip_key:
  assumes "sibs \<noteq> []"
  shows "sc_key (choose_skip base phys sibs man) \<in> ir_key ` set sibs \<or> sc_key (choose_skip base phys sibs man) = base
      \<and> mhas (m_entries man) base" (is ?key)
    and "sc_matched (choose_skip base phys sibs man) \<Longrightarrow> sc_key (choose_skip base phys sibs man) \<in> ir_key ` set sibs
      \<and> has_phys_id (sc_key (choose_skip base phys sibs man)) phys man" (is "_ \<Longrightarrow> ?match")
proof -
  have h: "hd sibs \<in> set sibs" using assms by simp
  have k: "sc_key (choose_skip base phys sibs man) = (case (if phys = [] then None else find (\<lambda>s. has_phys_id (ir_key s) phys man) sibs) of
      Some s \<Rightarrow> ir_key s | None \<Rightarrow> if mhas (m_entries man) base then base else ir_key (hd sibs))"
    by (simp add: choose_skip_def Let_def split: option.split)
  then show ?key using h by (auto split: option.split dest: find_mem)
  show ?match if "sc_matched (choose_skip base phys sibs man)"
  proof -
    have "\<exists>s. find (\<lambda>s. has_phys_id (ir_key s) phys man) sibs = Some s \<and> phys \<noteq> []"
      using that by (auto simp: choose_skip_def Let_def split: option.splits if_splits)
    then show ?thesis unfolding k by (auto dest: find_mem)
  qed
qed

lemma fast_path_marks:
  assumes w: "walking run w" and f: "fast_path ref fk w = (hit, w')"
  shows "onward run w w'"
    and "hit \<Longrightarrow> holds w (''mid:'' @ mr_mid ref) k r \<Longrightarrow> marked run w' k
      \<or> (\<exists>k' r'. holds w (''mid:'' @ mr_mid ref) k' r' \<and> record_has_phys_id r' (mr_phys_id ref) \<and> marked run w' k')"
proof -
  let ?i = "''mid:'' @ mr_mid ref"
  show "onward run w w'"
    using onward_goes [OF w seen.fast_path_goes indexed.fast_path_goes, OF walking_ok [OF w] walking_ok [OF w], of ref fk]
    by (simp add: f)
  obtain sibs w1 where s: "same_token ?i w = (sibs, w1)" by fastforce
  have ne: "?i \<noteq> []" by simp
  have "filed (mw_man w)" using w by (simp add: walking_def)
  note st = same_token_keys [OF this s ne]
  have o1: "onward run w w1" using onward_lookups(3) [OF w, of ?i] unfolding s by simp
  let ?c = "choose_skip (live_key (mw_token w1) ?i) (mr_phys_id ref) sibs (mw_man w1)"
  show "marked run w' k \<or> (\<exists>k' r'. holds w ?i k' r' \<and> record_has_phys_id r' (mr_phys_id ref) \<and> marked run w' k')"
    if hit "holds w ?i k r"
  proof -
    from f that(1) have sk: "sibs \<noteq> []" "w' = fast_skip ?c ?i sibs ref fk w1"
      unfolding fast_path_def Let_def s prod.case by (auto split: if_splits)
    note ch = choose_skip_key [OF sk(1), of "live_key (mw_token w1) ?i" "mr_phys_id ref" "mw_man w1"]
    have "\<exists>rc. mget (m_entries (mw_man w1)) (sc_key ?c) = Some rc"
      using ch(1)
    proof
      assume "sc_key ?c \<in> ir_key ` set sibs"
      then show ?thesis using st(1) st(3) by (auto simp: holds_def)
    qed (auto simp: mhas_def)
    then obtain rc where rc: "mget (m_entries (mw_man w1)) (sc_key ?c) = Some rc" by blast
    note m = fast_skip_marks [OF onward_walking [OF o1] rc, where i = ?i and sibs = sibs and ref = ref and fk = fk]
    show ?thesis
    proof (cases "sc_matched ?c")
      case True
      from ch(2) [OF this] rc have "sc_key ?c \<in> ir_key ` set sibs" "record_has_phys_id rc (mr_phys_id ref)"
        by (simp_all add: has_phys_id_def)
      moreover from this(1) obtain r' where "holds w ?i (sc_key ?c) r'" using st(1) by blast
      moreover from this rc have "r' = rc" using st(3) by (simp add: holds_def)
      ultimately show ?thesis using m(2) sk(2) by blast
    next
      case False
      have k: "k \<in> ir_key ` set sibs" using st(1) that(2) by blast
      have "mget (m_entries (mw_man w1)) k = Some r" using that(2) st(3) by (simp add: holds_def)
      from m(3) [OF False k this] show ?thesis using sk(2) by simp
    qed
  qed
qed

lemma visit_marks:
  assumes w: "walking run w" and "mr_mid ref \<noteq> []" and v: "visit an ref path w = (None, w')"
    and t: "\<not> wd_now (en_world (an_en an)) < run" and h: "holds w (''mid:'' @ mr_mid ref) k r"
  shows "marked run w' k
    \<or> (\<exists>k' r'. holds w (''mid:'' @ mr_mid ref) k' r' \<and> record_has_phys_id r' (mr_phys_id ref) \<and> marked run w' k')
    \<or> (\<exists>w1 m. onward run w w1 \<and> read_by an ref m \<and> exported run (en_world (an_en an)) path m w1 (mw_man w'))"
proof -
  let ?fk = "join CHR ''/'' path" and ?i = "''mid:'' @ mr_mid ref"
  obtain hit w1 where f: "fast_path ref ?fk w = (hit, w1)" by fastforce
  note fp = fast_path_marks [OF w f]
  note w1 = onward_walking [OF fp(1)]
  show ?thesis
  proof (cases hit)
    case True
    then have "w' = w1" using v f unfolding visit_def Let_def by (simp split: if_splits)
    then show ?thesis using fp(2) [OF True h] by blast
  next
    case False
    obtain d w2 where u: "fault_identity ref None w1 = (d, w2)" by fastforce
    have s: "settles run ?i w1 w2" using fault_identity_settles [OF w1 assms(2), of None] unfolding u by simp
    then have w2: "walking run w2" by (simp add: settles_def onward_def)
    have fu: "settles run ?i w1 (folder_unwritable sep fk tx dd w2)" for sep fk tx dd
      using settles_post [OF s onward_lookups(8) [OF w2]] .
    have "settles run ?i w1 w'
        \<or> (\<exists>w3 m. onward run w1 w3 \<and> read_by an ref m \<and> exported run (en_world (an_en an)) path m w3 (mw_man w'))"
      using v f False fu u download_settles [OF w1 assms(2) _ t, of path w'] unfolding visit_def Let_def
      by (auto split: if_splits)
    then show ?thesis
    proof
      assume "settles run ?i w1 w'"
      from settles_pre [OF fp(1) this] h show ?thesis unfolding settles_def by blast
    qed (use onward_trans [OF fp(1)] in blast)
  qed
qed

end
