(* ===== verification/RunAccounts.thy ===== *)
theory RunAccounts
  imports CaptureSeen SourceRun
begin

text \<open>
  Nothing a local source delivers is lost without a word: a message the walk handled is in the archive,
  is before the window, or has a gap on the ledger that this run observed.
\<close>

subsection \<open>What an export answers with\<close>

definition before_window :: "exporter \<Rightarrow> message \<Rightarrow> bool" where
  "before_window ex m \<longleftrightarrow> ex_since ex \<noteq> zero_time \<and> message_date m \<noteq> zero_time \<and> message_date m < ex_since ex"

lemma survives_get: "survives ex ex' \<Longrightarrow> ex_get ex k = Some r \<Longrightarrow> \<exists>r'. ex_get ex' k = Some r' \<and> same_capture r r'"
  unfolding survives_def ex_get_def by (rule keeps_get)

lemma kept_answers:
  assumes "keep_degraded w store fk fp m (base_key store fk m ex) ex = (True, ex')" and "ms_read_gaps m \<noteq> []"
  shows "\<exists>k. answers ex store fk m ex' k \<and> ex_get ex' k \<noteq> None"
proof -
  obtain k0 found ex1 where a: "archived_record_for store m (base_key store fk m ex) ex = ((k0, found), ex1)"
    by (metis prod.exhaust)
  obtain p where p: "found = Some p" using assms(1) a by (cases found) (simp_all add: keep_degraded_def)
  then have g: "ex_get ex k0 = Some p" "k0 = base_key store fk m ex \<or> record_has_phys_id p (ms_phys_id m)"
    using archived_record_cases [OF a] by auto
  have "survives ex ex'" using steps_survive(1) [of ex w store fk fp m "base_key store fk m ex"] by (simp add: assms(1))
  from survives_get [OF this g(1)] g assms(2) show ?thesis unfolding answers_def by blast
qed

lemma export_answers:
  assumes "export w store fp m ex = (res, ex')" and "res \<in> {Wrote, Skipped}"
  shows "(\<exists>k. answers ex store (join CHR ''/'' fp) m ex' k \<and> ex_get ex' k \<noteq> None) \<or> res = Skipped \<and> before_window ex m"
proof -
  let ?fk = "join CHR ''/'' fp"
  obtain kept exk where kd: "(if ms_read_gaps m = [] then (False, ex)
    else keep_degraded w store ?fk fp m (base_key store ?fk m ex) ex) = (kept, exk)" by fastforce
  obtain key ex1 where pl: "place store ?fk m exk = (key, ex1)" by fastforce
  have since: "ex_since ex1 = ex_since ex"
    using kd settings_keep [of ex w store ?fk fp m "base_key store ?fk m ex"] settings_simps(12) [of exk store ?fk m]
    by (auto simp: pl same_settings_def split: if_splits)
  note x = assms(1) [unfolded export_def Let_def kd pl prod.case]
  show ?thesis
  proof (cases kept)
    case True
    then have "keep_degraded w store ?fk fp m (base_key store ?fk m ex) ex = (True, ex')" "ms_read_gaps m \<noteq> []"
      using x kd by (auto split: if_splits)
    from kept_answers [OF this] show ?thesis by blast
  next
    case False
    then have "(if ms_read_gaps m = [] then (False, ex)
      else keep_degraded w store ?fk fp m (base_key store ?fk m ex) ex) = (False, exk)" using kd by simp
    note placed = export_placed [OF this pl]
    have after: "res \<noteq> Wrote \<and> survives ex1 ex' \<or> res = Wrote \<and> captured key m ex1 ex'"
      by (rule after_place [where w = w and store = store and fk = ?fk and fp = fp]) (use x False in simp)
    show ?thesis
    proof (cases "res = Wrote")
      case True
      then have "captured key m ex1 ex'" using after by blast
      then show ?thesis unfolding answers_def captured_def ex_get_def by blast
    next
      case skipped: False
      then have s: "survives ex1 ex'" using after by blast
      show ?thesis
      proof (cases "ex_get ex1 key")
        case (Some prev)
        then obtain r where r: "ex_get ex key = Some r"
          using keeps_back [of same_capture "ex_manifest ex" "ex_manifest ex1" key prev] placed(1)
          unfolding survives_def ex_get_def by blast
        with placed(2) have "answers ex store ?fk m ex' key" unfolding answers_def by blast
        then show ?thesis using survives_get [OF s Some] by blast
      next
        case None
        have "res = Skipped" using skipped assms(2) by blast
        moreover have "before_window ex m"
        proof (rule ccontr)
          assume "\<not> before_window ex m"
          then have "decide w (ex_mode ex1) (ex_since ex1) None m = Capture False"
            by (auto simp: decide_def Let_def before_window_def since)
          then have "capture w store ?fk fp m False key None ex1 = (res, ex')" using x False None by simp
          then show False using capture_not_skipped [of w store ?fk fp m False key None ex1] \<open>res = Skipped\<close> by simp
        qed
        ultimately show ?thesis by blast
      qed
    qed
  qed
qed

subsection \<open>A gap on the ledger\<close>

text \<open>The entry an observation of the gap filed, or was absorbed by: it is listed, and seen by this run.\<close>

definition listed_gap :: "char \<Rightarrow> capture_gap \<Rightarrow> gotime \<Rightarrow> (string, capture_gap) gomap \<Rightarrow> bool" where
  "listed_gap sep g run L \<longleftrightarrow> (\<exists>L0 e. L = snd (observe_gap sep g run L0)
     \<and> mget L (fst (fst (observe_gap sep g run L0))) = Some e \<and> g_last_run e = run)"

lemma observed_listed:
  "safe_token sep (g_token g) \<Longrightarrow> listed_gap sep g run (snd (observe_gap sep g run L))"
  using observe_shape [of sep g run L] observed_facts(3) [of g]
  unfolding listed_gap_def by (auto intro!: exI [of _ L])

definition message_gap :: "string \<Rightarrow> message \<Rightarrow> string \<Rightarrow> capture_gap \<Rightarrow> bool" where
  "message_gap tok m fk g \<longleftrightarrow> g_token g = tok \<and> g_folder g = fk
     \<and> (g_scope g = gap_scope_item \<and> has_prefix (g_locator g) (item_locator m)
        \<or> g_scope g = gap_scope_folder \<and> g_locator g = ''folder:'' @ fk)"

lemma run_observe_ledger:
  "ledger_of (run_observe sep g s) = snd (observe_gap sep (filed_gap s g) (run_at_of s) (ledger_of s))"
  by (simp add: run_observe_def Let_def ledger_of_def with_ledger_def note_folder_fault_def note_fault_def run_at_of_def)

lemma run_observe_frame:
  "lr_run_at (sr_lr (run_observe sep g s)) = lr_run_at (sr_lr s)" "sr_token (run_observe sep g s) = sr_token s"
  using books_observe [of s sep g] by (simp_all add: books_def)

lemma filed_message_gap:
  assumes "g_folder g = fk"
    and "g_scope g = gap_scope_item \<and> has_prefix (g_locator g) (item_locator m)
      \<or> g_scope g = gap_scope_folder \<and> g_locator g = ''folder:'' @ fk"
  shows "message_gap (sr_token s) m fk (filed_gap s g)"
  using assms
  by (auto simp: message_gap_def filed_gap_def Let_def gap_scope_item_def gap_scope_folder_def has_prefix_def
      split: option.split)

text \<open>What an observation leaves on the books, whatever follows that touches no ledger.\<close>

lemma observed_accounts:
  assumes "safe_token sep (sr_token s)" and "message_gap (sr_token s) m fk (filed_gap s g)"
    and "ledger_of s' = ledger_of (run_observe sep g s)"
  shows "\<exists>g. message_gap (sr_token s) m fk g \<and> listed_gap sep g (run_at_of s) (ledger_of s')"
  using assms observed_listed [of sep "filed_gap s g" "run_at_of s" "ledger_of s"]
  unfolding assms(3) run_observe_ledger by (metis message_gap_def)

lemma answer_gap_entries:
  "m_entries (ex_manifest (lr_exp (sr_lr (answer_gap close s)))) = m_entries (ex_manifest (lr_exp (sr_lr s)))"
  by (auto simp: answer_gap_def Let_def note_recovered_def with_ledger_def)

lemma recovered_entries:
  "m_entries (ex_manifest (lr_exp (sr_lr (run_recovered m fk s)))) = m_entries (ex_manifest (lr_exp (sr_lr s)))"
proof -
  have r: "m_entries (ex_manifest (lr_exp (sr_lr (snd (close_read_gap m s))))) = m_entries (ex_manifest (lr_exp (sr_lr s)))" for s
    by (simp add: close_read_gap_def with_ledger_def Let_def split: option.split)
  show ?thesis
    using r by (auto simp: run_recovered_def Let_def answer_gap_entries note_recovered_def split: prod.splits) (metis snd_conv answer_gap_entries)+
qed

lemma vanished_entries:
  "m_entries (ex_manifest (lr_exp (sr_lr (close_vanished_this_run m s)))) = m_entries (ex_manifest (lr_exp (sr_lr s)))"
  by (simp add: close_vanished_this_run_def with_ledger_def Let_def split: option.split)

lemma answers_cong:
  "m_entries (ex_manifest ex2) = m_entries (ex_manifest ex1) \<Longrightarrow> answers ex store fk m ex2 k = answers ex store fk m ex1 k"
  by (simp add: answers_def ex_get_def)

lemma refused_ledger:
  assumes "run_refused en fk m e s = (None, s')"
  shows "\<exists>g s1. ledger_of s' = ledger_of (run_observe (wd_sep (en_world en)) g s1) \<and> sr_token s1 = sr_token s
    \<and> run_at_of s1 = run_at_of s \<and> message_gap (sr_token s1) m fk (filed_gap s1 g)"
proof -
  obtain err s1 where p: "run_probe en s = (err, s1)" by fastforce
  have b: "books s s1" using books_steps(1) [where en = en and s = s] by (simp add: p)
  have t: "sr_token s1 = sr_token s" "run_at_of s1 = run_at_of s" using b by (simp_all add: books_def run_at_of_def)
  have c: "ledger_of (snd (count_streak e x)) = ledger_of x" for x by (simp add: count_streak_def Let_def ledger_of_def)
  have u: "message_gap (sr_token x) m fk (filed_gap x (unwritable_gap fk d))" for x d
    by (rule filed_message_gap) (simp_all add: unwritable_gap_def new_gap_def)
  have i: "message_gap (sr_token x) m fk (filed_gap x (item_gap m fk r cl d))" for x r cl d
    by (rule filed_message_gap) (simp_all add: item_gap_def new_gap_def has_prefix_def)
  have x: "sr_token (count_export_fault y) = sr_token y" "run_at_of (count_export_fault y) = run_at_of y" for y
    by (simp_all add: count_export_fault_def run_at_of_def)
  show ?thesis
  proof (cases e)
    case Unsafe_token
    then show ?thesis using assms by (auto simp: run_refused_def Let_def split: if_splits)
  next
    case (Folder_error dir)
    let ?s = "count_export_fault (s1\<lparr>sr_unwritable := mput dir True (sr_unwritable s1)\<rparr>)"
    have "count_streak e (run_observe (wd_sep (en_world en)) (unwritable_gap fk (en_text en e)) ?s) = (None, s')"
      using assms Folder_error p by (auto simp: run_refused_def Let_def split: if_splits option.splits)
    then have "ledger_of s' = ledger_of (run_observe (wd_sep (en_world en)) (unwritable_gap fk (en_text en e)) ?s)"
      using c by (metis snd_conv)
    moreover have "sr_token ?s = sr_token s" "run_at_of ?s = run_at_of s" using t by (simp_all add: x) (simp add: run_at_of_def)
    ultimately show ?thesis using u by blast
  next
    case (Item_error path)
    let ?s = "count_export_fault s1"
    have "count_streak e (run_observe (wd_sep (en_world en)) (item_gap m fk ''export-failed'' class_fillable (en_text en e)) ?s) = (None, s')"
      using assms Item_error p by (auto simp: run_refused_def Let_def split: if_splits option.splits)
    then have "ledger_of s' = ledger_of (run_observe (wd_sep (en_world en)) (item_gap m fk ''export-failed'' class_fillable (en_text en e)) ?s)"
      using c by (metis snd_conv)
    moreover have "sr_token ?s = sr_token s" "run_at_of ?s = run_at_of s" using t by (simp_all add: x)
    ultimately show ?thesis using i by blast
  qed
qed

text \<open>
  C3: a message a local source delivers is never lost without a word.  When the walk goes on after it,
  the archive answers for it (the record written for it, or one that stood for it already), or it is before
  the run's window, or the ledger lists a gap for it, its own or its folder's, that this run observed.
\<close>

theorem a_delivered_message_is_accounted:
  assumes "run_handle en path m s = (None, s')" and "safe_token (wd_sep (en_world en)) (sr_token s)"
  shows "(\<exists>k. answers (lr_exp (sr_lr s)) (sr_token s) (join CHR ''/'' path) m (lr_exp (sr_lr s')) k
         \<and> ex_get (lr_exp (sr_lr s')) k \<noteq> None)
    \<or> before_window (lr_exp (sr_lr s)) m
    \<or> (\<exists>g. message_gap (sr_token s) m (join CHR ''/'' path) g
         \<and> listed_gap (wd_sep (en_world en)) g (run_at_of s) (ledger_of s'))"
proof -
  let ?fk = "join CHR ''/'' path" and ?sep = "wd_sep (en_world en)" and ?ex = "lr_exp (sr_lr s)"
  obtain out ex' where e: "export (en_world en) (sr_token s) path m ?ex = (out, ex')" by fastforce
  let ?s = "s\<lparr>sr_lr := (sr_lr s)\<lparr>lr_exp := ex'\<rparr>\<rparr>"
  note h = assms(1) [unfolded run_handle_def Let_def e prod.case]
  show ?thesis
  proof (cases "run_stop en \<noteq> None")
    case True
    then show ?thesis using h by simp
  next
    case go: False
    show ?thesis
    proof (cases "mget (sr_unwritable s) (rel_path (sr_token s # path)) = Some True
           \<and> (ex_mode ?ex \<noteq> Incremental \<or> \<not> has_key (ex_manifest ?ex) (folder_key (sr_token s) ?fk (identity m)))")
      case True
      then have "s' = run_observe ?sep (unwritable_gap ?fk []) s" using h go by auto
      moreover have "message_gap (sr_token s) m ?fk (filed_gap s (unwritable_gap ?fk []))"
        by (rule filed_message_gap) (simp_all add: unwritable_gap_def new_gap_def)
      ultimately show ?thesis using observed_accounts [OF assms(2)] by blast
    next
      case False
      note h2 = h [unfolded if_not_P [OF go] if_not_P [OF False]]
      show ?thesis
      proof (cases out)
        case Wrote
        then have s': "s' = run_recovered m ?fk (?s\<lparr>sr_wrote := True, sr_streak := 0\<rparr>)" using h2 by simp
        have "m_entries (ex_manifest (lr_exp (sr_lr s'))) = m_entries (ex_manifest ex')" unfolding s' recovered_entries by simp
        from answers_cong [OF this] this show ?thesis using export_answers [OF e] Wrote unfolding ex_get_def by auto
      next
        case Skipped
        then have s': "s' = close_vanished_this_run m ?s" using h2 by simp
        have "m_entries (ex_manifest (lr_exp (sr_lr s'))) = m_entries (ex_manifest ex')" unfolding s' vanished_entries by simp
        from answers_cong [OF this] this show ?thesis using export_answers [OF e] Skipped unfolding ex_get_def by auto
      next
        case Panicked
        let ?g = "item_gap m ?fk ''export-panic'' class_terminal (en_panic en)"
        let ?p = "count_export_panic ?s"
        have s': "s' = run_observe ?sep ?g ?p" using h2 Panicked by simp
        have t: "sr_token ?p = sr_token s" "run_at_of ?p = run_at_of s" by (simp_all add: count_export_panic_def run_at_of_def)
        have "message_gap (sr_token ?p) m ?fk (filed_gap ?p ?g)"
          by (rule filed_message_gap) (simp_all add: item_gap_def new_gap_def has_prefix_def)
        from observed_accounts [OF _ this, of ?sep s'] s' show ?thesis using assms(2) unfolding t by blast
      next
        case (Refused er)
        then have "run_refused en ?fk m er ?s = (None, s')" using h2 by simp
        from refused_ledger [OF this] obtain g s1 where r: "ledger_of s' = ledger_of (run_observe ?sep g s1)"
          "sr_token s1 = sr_token s" "run_at_of s1 = run_at_of s" "message_gap (sr_token s1) m ?fk (filed_gap s1 g)"
          by (auto simp: run_at_of_def)
        from observed_accounts [OF _ r(4,1)] show ?thesis using assms(2) unfolding r(2,3) by blast
      qed
    qed
  qed
qed

text \<open>The sample archive as the source of a run.\<close>

definition sample_surroundings :: surroundings where
  "sample_surroundings = \<lparr>en_world = sample_world, en_stop = False, en_cause = (\<lambda>_. None), en_names_root = (\<lambda>_. False),
     en_text = (\<lambda>_. []), en_panic = [], en_exists = (\<lambda>_. True), en_lock_held = True\<rparr>"

definition run_over :: "exporter \<Rightarrow> source_run" where
  "run_over ex = \<lparr>sr_lr = \<lparr>lr_exp = ex, lr_run_at = 5, lr_faults = 0, lr_write_faults = 0, lr_recovered = 0, lr_closed_gone = 0\<rparr>,
    sr_token = ''m'', sr_reports_faults = False, sr_local = False, sr_wrote = False, sr_unwritable = [], sr_streak = 0,
    sr_folder_faults = [], sr_folder_seen = [], sr_folder_flood = False, sr_seen_folders = [], sr_fresh_outlook = False,
    sr_late_close = []\<rparr>"

theorem a_delivered_message_is_accounted_witness:
  "\<exists>s'. run_handle sample_surroundings [''I''] half_read (run_over sample_box) = (None, s')
     \<and> ((\<exists>k. answers sample_box ''m'' ''I'' half_read (lr_exp (sr_lr s')) k \<and> ex_get (lr_exp (sr_lr s')) k \<noteq> None)
        \<or> (\<exists>g. listed_gap CHR ''/'' g 5 (ledger_of s')))"
proof -
  have "\<exists>s'. run_handle sample_surroundings [''I''] half_read (run_over sample_box) = (None, s')"
    using sample_export
    by (auto simp: run_handle_def Let_def run_stop_def sample_surroundings_def run_over_def)
  then obtain s' where s': "run_handle sample_surroundings [''I''] half_read (run_over sample_box) = (None, s')" by blast
  have sep: "wd_sep (en_world sample_surroundings) = CHR ''/''" by (simp add: sample_surroundings_def sample_world_def)
  have "\<not> before_window sample_box half_read" by (simp add: before_window_def sample_box_def)
  with a_delivered_message_is_accounted [OF s'] sample_token s' show ?thesis
    unfolding sep by (auto simp: run_over_def run_at_of_def)
qed

end
