(* ===== verification/WalkSafe.thy ===== *)
theory WalkSafe
  imports WalkListed RunAccounts
begin

text \<open>
  The guarantee of a mailbox's walk: no record that could be a listed message is marked gone by the walk
  that listed it, whatever the download, the parser and the exporter did with the message.
\<close>

subsection \<open>The end of the walk\<close>

lemma write_gone_get:
  assumes "k \<notin> set gone"
  shows "mget (m_entries (write_gone log gone m)) k = mget (m_entries m) k"
proof (cases log)
  case (Some ok)
  have "mget (m_entries (fold (\<lambda>k m. if ok k then m else snd (set_present k True m)) gone m)) k = mget (m_entries m) k"
    using assms
  proof (induction gone arbitrary: m)
    case (Cons x gone)
    then show ?case by (simp add: set_present_def split: option.split)
  qed simp
  then show ?thesis by (simp add: write_gone_def Some)
qed (simp add: write_gone_def)

text \<open>The sweep leaves a record the run stamped as it is.\<close>

lemma end_walk_get:
  assumes "walking run w" and "mget (m_entries (mw_man w)) k = Some r" and "\<not> r_last_seen r < run"
  shows "mget (m_entries (mw_man (end_walk log w))) k = Some r"
proof (cases "mw_folder_fault w")
  case False
  have ok: "mok (m_entries (mw_man w))" "mw_run_at w = run" using assms(1) by (simp_all add: walking_def filed_def)
  let ?spare = "(mw_spare w)\<lparr>sp_legacy_placeholders := True\<rparr>"
  obtain gone man where g: "sweep_gone_sparing (mw_token w) (Some (mw_walked w)) run ?spare (mw_man w) = (gone, man)"
    by fastforce
  have n: "\<not> sweep_hit (mw_token w) (Some (mw_walked w)) run ?spare k r" using assms(3) by (simp add: sweep_hit_def)
  then have gk: "k \<notin> set gone" "mget (m_entries man) k = Some r"
    using sweep_gone_set [OF ok(1), of k "mw_token w" "Some (mw_walked w)" run ?spare]
      sweep_gone_get [OF ok(1), of "mw_token w" "Some (mw_walked w)" run ?spare k] assms(2) by (simp_all add: g)
  have "\<exists>L. mw_man (end_walk log w) = write_gone log gone (man\<lparr>m_capture_gaps := L\<rparr>)"
    using False g
    by (auto simp: end_walk_def ok(2) Let_def with_ledger_def mw_man_def mw_exp_def on_man_def on_exp_def split: prod.split)
  then show ?thesis using write_gone_get [OF gk(1)] gk(2) by auto
qed (use assms(2) in \<open>simp add: end_walk_def\<close>)

text \<open>A record seen by the run is still there at the end, and present if it was.\<close>

definition safe :: "gotime \<Rightarrow> manifest \<Rightarrow> string \<Rightarrow> mrec \<Rightarrow> bool" where
  "safe run man k r \<longleftrightarrow> (\<exists>r'. mget (m_entries man) k = Some r' \<and> \<not> r_last_seen r' < run \<and> (r_present r \<longrightarrow> r_present r'))"

lemma marked_safe:
  assumes "mget (m_entries (mw_man w)) k = Some r" and "onward run w w1" and "marked run w1 k" and "onward run w1 w2"
  shows "safe run (mw_man (end_walk log w2)) k r"
proof -
  obtain r1 where r1: "mget (m_entries (mw_man w1)) k = Some r1" "seen_after run r r1"
    using stays_get assms(1,2) by (metis onward_def)
  obtain r2 where r2: "mget (m_entries (mw_man w2)) k = Some r2" "seen_after run r1 r2"
    using stays_get r1(1) assms(4) by (metis onward_def)
  have s: "\<not> r_last_seen r2 < run" "r_present r \<longrightarrow> r_present r2"
    using r1 r2 assms(3) by (auto simp: marked_def seen_after_def)
  have "mget (m_entries (mw_man (end_walk log w2))) k = Some r2"
    using end_walk_get [OF _ r2(1) s(1)] assms(4) by (simp add: onward_def)
  with s show ?thesis by (simp add: safe_def)
qed

lemma current_end:
  "walking run w \<Longrightarrow> current run (mw_man w) k \<Longrightarrow> current run (mw_man (end_walk log w)) k"
  unfolding current_def using end_walk_get by blast

lemma exported_end:
  assumes "walking run w1" and "exported run wd path m w (mw_man w1)"
  shows "exported run wd path m w (mw_man (end_walk log w1))"
  using assms(2) current_end [OF assms(1)] unfolding exported_def by metis


text \<open>A mailbox with one archived message, listed again in its folder.\<close>

definition sample_walk :: mailbox_walk where
  "sample_walk = new_walk 0 (run_over (sample_box\<lparr>ex_dedup := True, ex_manifest := (new_manifest [])\<lparr>m_by_ident := None, m_entries :=
     [(live_key ''m'' ''mid:a'', zero_rec\<lparr>r_path := ''m/I/a.html'', r_folder := ''I'', r_present := True\<rparr>)]\<rparr>\<rparr>))"

definition sample_ref :: message_ref where
  "sample_ref = \<lparr>mr_id = ''1'', mr_mid = ''a'', mr_received = 0, mr_phys_id = [], mr_subject = [], mr_importance = [],
     mr_is_read = None, mr_categories = [], mr_sensitivity = []\<rparr>"

definition sample_answer :: answer where
  "sample_answer = \<lparr>an_en = sample_surroundings, an_fetch = Inr [], an_took = 0, an_parse = (\<lambda>_. None),
     an_control = Answered, an_walk_done = False\<rparr>"

definition sample_folder :: folder_script where
  "sample_folder = \<lparr>fs_id = ''f'', fs_path = [''I''], fs_messages = [(sample_ref, sample_answer)], fs_stop = False,
     fs_end = None, fs_took = 0, fs_control = Answered, fs_walk_done = False, fs_sep = CHR ''/''\<rparr>"

lemmas sample_defs = sample_walk_def run_over_def new_walk_def mw_man_def mw_exp_def mw_token_def mw_run_at_def run_at_of_def sample_box_def

lemma sample_walking: "walking 5 sample_walk"
  by (simp add: walking_def filed_def sample_defs new_manifest_def)

lemma sample_holds:
  "holds sample_walk ''mid:a'' (live_key ''m'' ''mid:a'') (zero_rec\<lparr>r_path := ''m/I/a.html'', r_folder := ''I'', r_present := True\<rparr>)"
proof -
  have "identity_of (live_key ''m'' ''mid:a'') = ''mid:a''" by (rule identity_of_live) simp_all
  then show ?thesis by (simp add: holds_def sample_defs) (simp add: key_defs has_prefix_def)
qed

lemma sample_skips: "\<exists>w'. fast_path sample_ref ''I'' sample_walk = (True, w')"
proof -
  obtain sibs w1 where s: "same_token ''mid:a'' sample_walk = (sibs, w1)" by fastforce
  have "filed (mw_man sample_walk)" using sample_walking by (simp add: walking_def)
  note st = same_token_keys [OF this s]
  have ne: "sibs \<noteq> []" using st(1) sample_holds by fastforce
  let ?c = "choose_skip (live_key (mw_token w1) ''mid:a'') [] sibs (mw_man w1)"
  have "m_entries (mw_man w1) = m_entries (mw_man sample_walk)" using st(3) by simp
  then have "\<not> stale_unparsed r parser_gen_current" if "mget (m_entries (mw_man w1)) k = Some r" for k r
    using that by (auto simp: sample_defs stale_unparsed_def rec_has_label_def zero_rec_def split: if_splits)
  then have "sc_skip ?c" by (auto simp: choose_skip_def Let_def split: option.split)
  then show ?thesis using s ne
    by (simp add: fast_path_def Let_def sample_ref_def) (simp add: sample_defs)
qed


end
