(* ===== verification/WalkFindings.thy ===== *)
theory WalkFindings
  imports WalkSafe
begin

text \<open>
  What the walk does not promise: a message whose re-read is still incomplete is skipped without a stamp,
  so the sweep of its own folder marks it gone while the mailbox lists it.
\<close>

lemma incomplete_skip_unstamped:
  assumes "ex_get ex k = Some r"
  shows "\<exists>r'. ex_get (skip_incomplete m k prev stale ex) k = Some r' \<and> r_last_seen r' = r_last_seen r
    \<and> r_present r' = r_present r \<and> r_folder r' = r_folder r \<and> r_subject r' = r_subject r"
proof -
  let ?e = "stamp_examined k m prev (counted (\<lambda>s. s\<lparr>s_retried := s_retried s + 1, s_still_incomplete := s_still_incomplete s + 1\<rparr>) ex)"
  let ?same = "\<lambda>r r'. r_last_seen r' = r_last_seen r \<and> r_present r' = r_present r \<and> r_folder r' = r_folder r \<and> r_subject r' = r_subject r"
  have "\<exists>r1. mget (m_entries (ex_manifest ?e)) k = Some r1 \<and> ?same r r1"
    using assms by (auto simp: stamp_examined_def stamp_parse_scheme_def ex_get_def)
  then obtain r1 where r1: "mget (m_entries (ex_manifest ?e)) k = Some r1" "?same r r1" by blast
  let ?l = "snd (set_locator k (ms_locator m) (ex_manifest ?e))"
  have "\<exists>r2. mget (m_entries ?l) k = Some r2 \<and> ?same r r2"
    using r1 by (auto simp: set_locator_def Let_def)
  then obtain r2 where r2: "mget (m_entries ?l) k = Some r2" "?same r r2" by blast
  then have "\<exists>r3. mget (m_entries (snd (stamp_parser_gen k parser_gen_current ?l))) k = Some r3 \<and> ?same r r3"
    by (auto simp: stamp_parser_gen_def)
  with r2 show ?thesis by (auto simp: skip_incomplete_def count_read_gaps_def Let_def ex_get_def)
qed

text \<open>
  C40: on the mailbox-wide path a message whose re-read is still incomplete is skipped without a stamp:
  when its folder is walked, the sweep of the very run that read it marks its record gone.
\<close>

theorem still_incomplete_message_is_swept:
  assumes "ex_get ex k = Some r" and "has_prefix k (tok @ key_separator)" and "r_present r" and "r_last_seen r < run"
    and "walked_has walked (r_folder r)" and "r_subject r \<noteq> legacy_placeholder_subject"
    and "mok (m_entries (ex_manifest (skip_incomplete m k prev stale ex)))"
  shows "k \<in> set (fst (sweep_gone_sparing tok walked run (no_spare\<lparr>sp_legacy_placeholders := True\<rparr>)
    (ex_manifest (skip_incomplete m k prev stale ex))))"
proof -
  from incomplete_skip_unstamped [OF assms(1), of m prev stale] obtain r' where
    "mget (m_entries (ex_manifest (skip_incomplete m k prev stale ex))) k = Some r'" "r_last_seen r' = r_last_seen r"
    "r_present r' = r_present r" "r_folder r' = r_folder r" "r_subject r' = r_subject r" by (auto simp: ex_get_def)
  with assms show ?thesis
    by (simp add: sweep_gone_set sweep_hit_def spares_def no_spare_def)
qed

text \<open>A message the sample archive holds present, read again without its missing part.\<close>

definition held_box :: exporter where
  "held_box = sample_box\<lparr>ex_manifest := (new_manifest [])\<lparr>m_entries :=
     [(live_key ''m'' ''sha:1'', zero_rec\<lparr>r_folder := ''I'', r_present := True, r_missing := [''a.pdf'']\<rparr>)]\<rparr>\<rparr>"

theorem still_incomplete_message_is_swept_witness:
  "live_key ''m'' ''sha:1'' \<in> set (fst (sweep_gone_sparing ''m'' (Some [(''I'', True)]) 5 (no_spare\<lparr>sp_legacy_placeholders := True\<rparr>)
     (ex_manifest (skip_incomplete zero_message (live_key ''m'' ''sha:1'') zero_rec False held_box))))"
proof -
  let ?k = "live_key ''m'' ''sha:1''" and ?r = "zero_rec\<lparr>r_folder := ''I'', r_present := True, r_missing := [''a.pdf'']\<rparr>"
  have g: "ex_get held_box ?k = Some ?r" by (simp add: ex_get_def held_box_def)
  have "has_prefix ?k (''m'' @ key_separator)" by (simp add: key_defs has_prefix_def)
  moreover have "mok (m_entries (ex_manifest (skip_incomplete zero_message ?k zero_rec False held_box)))"
    by (simp add: skip_incomplete_def count_read_gaps_def stamp_examined_def stamp_parse_scheme_def set_locator_def
        held_box_def Let_def split: option.split)
  moreover have "r_present ?r" "r_last_seen ?r < 5" "walked_has (Some [(''I'', True)]) (r_folder ?r)"
    "r_subject ?r \<noteq> legacy_placeholder_subject"
    by (simp_all add: walked_has_def zero_rec_def legacy_placeholder_subject_def)
  ultimately show ?thesis by (intro still_incomplete_message_is_swept [OF g])
qed

end
