(* ===== verification/LocalStore.thy ===== *)
theory LocalStore
  imports SourceRun
begin

text \<open>
  How a local mail store is judged before anything in it is opened
  (\<^verbatim>\<open>internal/source/localstore.go\<close>, \<^verbatim>\<open>ModeKind\<close> of
  \<^verbatim>\<open>internal/util/openregular.go\<close>): every entry by its own type, a link by its text, and what a
  refused entry is recorded as.  What the operating system answers is the record \<open>disk\<close>: an object is
  named by the root it was opened under and its slash path there.
\<close>

subsection \<open>What the operating system answers\<close>

text \<open>The type bits of a file mode; a regular file has none of them.\<close>

record file_mode =
  fm_dir :: bool
  fm_symlink :: bool
  fm_pipe :: bool
  fm_socket :: bool
  fm_device :: bool
  fm_char_device :: bool
  fm_irregular :: bool

definition regular_mode :: file_mode where
  "regular_mode = \<lparr>fm_dir = False, fm_symlink = False, fm_pipe = False, fm_socket = False, fm_device = False,
     fm_char_device = False, fm_irregular = False\<rparr>"

record io_error =
  er_text :: string
  er_not_exist :: bool
  er_permission :: bool

text \<open>A directory is told from another by its identity, a file's data may be refused by its descriptor.\<close>

record file_info =
  fi_mode :: file_mode
  fi_id :: nat

record dir_entry =
  de_name :: string
  de_mode :: file_mode

datatype read_fault = Not_regular string | Read_failed io_error

text \<open>
  An mbox file is a stream: its bytes and the error that ends it, if one does.  \<open>dk_mbox\<close> is the mbox
  reader of a third party: the messages it takes from a stream and the error it stops at.
\<close>

record disk =
  dk_goos :: string
  dk_is_abs :: "string \<Rightarrow> bool"
  dk_volume :: "string \<Rightarrow> string"
  dk_nfc :: "string \<Rightarrow> string"
  dk_lstat :: "string \<Rightarrow> string \<Rightarrow> io_error + file_info"
  dk_read_dir :: "string \<Rightarrow> string \<Rightarrow> io_error + dir_entry list"
  dk_list_again :: "nat \<Rightarrow> string \<Rightarrow> string \<Rightarrow> io_error + dir_entry list"
  dk_readlink :: "string \<Rightarrow> string \<Rightarrow> io_error + string"
  dk_read_file :: "string \<Rightarrow> string \<Rightarrow> read_fault + string"
  dk_open_stream :: "string \<Rightarrow> string \<Rightarrow> read_fault + (string \<times> io_error option)"
  dk_mbox :: "string \<times> io_error option \<Rightarrow> string list \<times> io_error option"
  dk_parse :: "string \<Rightarrow> message option"
  dk_stat :: "string \<Rightarrow> string \<Rightarrow> io_error + file_info"
  dk_eval_links :: "string \<Rightarrow> string \<Rightarrow> io_error + string"
  dk_stat_path :: "string \<Rightarrow> io_error + file_info"
  dk_open_root :: "string \<Rightarrow> io_error option"

subsection \<open>What an entry is\<close>

definition is_regular :: "file_mode \<Rightarrow> bool" where
  "is_regular m \<longleftrightarrow> \<not> fm_dir m \<and> \<not> fm_symlink m \<and> \<not> fm_pipe m \<and> \<not> fm_socket m \<and> \<not> fm_device m
     \<and> \<not> fm_char_device m \<and> \<not> fm_irregular m"

definition mode_kind :: "file_mode \<Rightarrow> string" where
  "mode_kind m =
     (if fm_pipe m then ''a pipe''
      else if fm_socket m then ''a socket''
      else if fm_char_device m \<or> fm_device m then ''a device''
      else if fm_symlink m then ''a link''
      else if fm_dir m then ''a directory''
      else if fm_irregular m then ''an irregular file''
      else ''not a regular file'')"

datatype entry_kind = Kind_file | Kind_dir | Kind_file_link | Kind_dir_link | Kind_outside | Kind_special
  | Kind_placeholder | Kind_unreachable

definition classify_mode :: "string \<Rightarrow> file_mode \<Rightarrow> bool \<Rightarrow> entry_kind" where
  "classify_mode goos m readlink_ok =
     (if fm_symlink m then Kind_outside
      else if fm_pipe m \<or> fm_socket m \<or> fm_device m \<or> fm_char_device m then Kind_special
      else if fm_irregular m
      then (if goos \<noteq> ''windows'' then Kind_outside
            else if readlink_ok then Kind_dir_link
            else if fm_dir m then Kind_dir
            else Kind_placeholder)
      else if fm_dir m then Kind_dir
      else if is_regular m then Kind_file
      else Kind_outside)"

definition refusal :: "entry_kind \<Rightarrow> string \<times> string \<times> string" where
  "refusal k = (case k of
     Kind_special \<Rightarrow> (''not-a-message-file'', class_info, gap_scope_item)
   | Kind_dir_link \<Rightarrow> (''symlinked-folder-skipped'', class_terminal, gap_scope_folder)
   | Kind_unreachable \<Rightarrow> (''folder-unreadable'', class_fillable, gap_scope_folder)
   | _ \<Rightarrow> (''symlink-outside-store'', class_terminal, gap_scope_item))"

datatype position = Pos_either | Pos_dir

subsection \<open>Places in a store\<close>

record scope =
  sc_root :: string
  sc_prefix :: string

definition rel_join :: "string \<Rightarrow> string \<Rightarrow> string" where
  "rel_join dir name = (if dir = ''.'' \<or> dir = [] then name else dir @ ''/'' @ name)"

definition at_place :: "scope \<Rightarrow> string \<Rightarrow> string" where
  "at_place sc rel =
     (if rel = ''.'' \<or> rel = [] then sc_prefix sc
      else if sc_prefix sc = [] then rel
      else sc_prefix sc @ ''/'' @ rel)"

text \<open>\<^verbatim>\<open>path.Dir\<close>.\<close>

definition path_dir :: "string \<Rightarrow> string" where
  "path_dir p = go_clean (rev (dropWhile (\<lambda>c. c \<noteq> CHR ''/'') (rev p)))"

definition lexical_link :: "disk \<Rightarrow> string \<Rightarrow> string \<Rightarrow> string option" where
  "lexical_link d rel target =
     (let t = map (\<lambda>c. if c = CHR 0x5C then CHR ''/'' else c) target
      in if t = [] \<or> has_prefix t ''/'' \<or> dk_is_abs d target \<or> dk_volume d target \<noteq> []
            \<or> 2 \<le> length t \<and> t ! 1 = CHR '':''
         then None
         else let joined = go_clean (path_dir rel @ ''/'' @ t)
         in if joined = ''..'' \<or> has_prefix joined ''../'' then None else Some joined)"

subsection \<open>The judgment of an entry\<close>

record verdict =
  vd_kind :: entry_kind
  vd_rel :: string
  vd_detail :: string

definition verdict_of :: "entry_kind \<Rightarrow> string \<Rightarrow> string \<Rightarrow> verdict" where
  "verdict_of k rel detail = \<lparr>vd_kind = k, vd_rel = rel, vd_detail = detail\<rparr>"

definition refused_link_kind :: "position \<Rightarrow> entry_kind" where
  "refused_link_kind pos = (if pos = Pos_dir then Kind_dir_link else Kind_outside)"

definition unreachable_link :: "string \<Rightarrow> string \<Rightarrow> io_error \<Rightarrow> verdict" where
  "unreachable_link rel target e = verdict_of Kind_unreachable rel
     (''the link's target could not be reached (the link points to '' @ target @ ''): '' @ er_text e)"

definition judge_link :: "disk \<Rightarrow> bool \<Rightarrow> scope \<Rightarrow> string \<Rightarrow> position \<Rightarrow> verdict" where
  "judge_link d follow sc rel pos =
     (case dk_readlink d (sc_root sc) rel of
        Inl e \<Rightarrow> verdict_of (refused_link_kind pos) rel (''the link could not be read: '' @ er_text e)
      | Inr target \<Rightarrow>
          (let outside = (\<lambda>pos. verdict_of (refused_link_kind pos) rel
                 (''the link points outside the store (to '' @ target @ '') and was not followed''));
               linked = verdict_of Kind_dir_link rel (''a link to '' @ target)
           in case lexical_link d rel target of
             None \<Rightarrow>
               if \<not> follow then outside pos
               else (case dk_stat d (sc_root sc) rel of
                       Inl e \<Rightarrow> unreachable_link rel target e
                     | Inr fi \<Rightarrow> if fm_dir (fi_mode fi) then linked else outside Pos_either)
           | Some inside \<Rightarrow>
               (case dk_lstat d (sc_root sc) inside of
                  Inl e \<Rightarrow>
                    if follow then unreachable_link rel target e
                    else verdict_of Kind_outside rel (''the link's target could not be read: '' @ er_text e)
                | Inr fi \<Rightarrow>
                    if is_regular (fi_mode fi) then verdict_of Kind_file_link inside []
                    else if fm_dir (fi_mode fi) then linked
                    else if fm_symlink (fi_mode fi)
                    then (let chained = verdict_of (refused_link_kind pos) rel
                                (''the link points at another link ('' @ target @ '') and was not followed'')
                          in if \<not> follow then chained
                             else (case dk_stat d (sc_root sc) rel of
                                     Inl e \<Rightarrow> unreachable_link rel target e
                                   | Inr st \<Rightarrow> if fm_dir (fi_mode st) then linked else chained))
                    else verdict_of Kind_outside rel
                      (''the link's target is not a regular file or a folder ('' @ mode_kind (fi_mode fi) @ '')''))))"

definition judge_entry :: "disk \<Rightarrow> bool \<Rightarrow> scope \<Rightarrow> string \<Rightarrow> file_mode \<Rightarrow> position \<Rightarrow> verdict" where
  "judge_entry d follow sc rel m pos =
     (if fm_symlink m then judge_link d follow sc rel pos
      else let readlink_ok = (fm_irregular m \<and> (case dk_readlink d (sc_root sc) rel of Inl _ \<Rightarrow> False | Inr _ \<Rightarrow> True));
               k = classify_mode (dk_goos d) m readlink_ok
      in verdict_of k rel (case k of
           Kind_special \<Rightarrow> ''a '' @ trim_prefix (mode_kind m) ''a '' @ '' is not a mail file and was not opened''
         | Kind_outside \<Rightarrow> ''the entry is not a regular file or a folder ('' @ mode_kind m @ '')''
         | Kind_dir_link \<Rightarrow> ''a junction or mount point is a directory link''
         | _ \<Rightarrow> []))"

text \<open>Whether an entry that an lstat saw may be a maildir's cur or new.\<close>

definition maildir_entry_mode :: "file_mode \<Rightarrow> bool" where
  "maildir_entry_mode m \<longleftrightarrow> fm_dir m \<or> fm_symlink m \<or> fm_irregular m"

definition is_maildir_in :: "disk \<Rightarrow> scope \<Rightarrow> string \<Rightarrow> bool" where
  "is_maildir_in d sc rel = list_ex (\<lambda>sub. case dk_lstat d (sc_root sc) (rel_join rel sub) of
     Inl _ \<Rightarrow> False | Inr fi \<Rightarrow> maildir_entry_mode (fi_mode fi)) [''cur'', ''new'']"

end
