(* ===== verification/LocalWalk.thy ===== *)
theory LocalWalk
  imports LocalStore
begin

text \<open>
  The walk of a local mail store (\<^verbatim>\<open>internal/source/localwalk.go\<close>, \<^verbatim>\<open>evolution.go\<close>,
  \<^verbatim>\<open>mboxreader.go\<close>, the fault sink of \<^verbatim>\<open>fault.go\<close> and the maildir rules of
  \<^verbatim>\<open>mbox.go\<close>): maildirs, mbox files and the folders that hold them, directory links under the
  input's opt-in, and what cannot be read delivered as a fault.  The callbacks of a run are an argument,
  over a state of any type.  The depth of the walk, which every descent raises and lowers again, is the
  number of levels left; the function a descent reads with is named by a \<open>spot\<close>.
\<close>

subsection \<open>The faults a walk delivers\<close>

definition max_faults :: nat where "max_faults = 10000"
definition max_folder_depth :: nat where "max_folder_depth = 300"
definition max_relocate_listings :: nat where "max_relocate_listings = 64"

definition fault_detail :: "string \<Rightarrow> string" where
  "fault_detail s0 = (let s = strip_control s0 in if length s \<le> 300 then s else cut_tail (take 300 s))"

record fault_sink =
  fs_kept :: "fault list"
  fs_dropped :: nat

datatype spot = Maildir_files | Mailbox | Container | Cache_children | Cache_folder

record pending_link =
  pl_left :: nat
  pl_scope :: scope
  pl_rel :: string
  pl_folder :: "string list"
  pl_place :: spot

record reloc_index =
  ri_names :: "(string, string) gomap"
  ri_lists :: nat

record 's local_walk =
  lw_run :: 's
  lw_sink :: fault_sink
  lw_visited :: "nat list"
  lw_reloc :: "(string, reloc_index) gomap"
  lw_pending :: "pending_link list"

text \<open>The run's callbacks and the input's opt-in.\<close>

record ('s, 'e) walk_env =
  we_disk :: disk
  we_handler :: "string list \<Rightarrow> message \<Rightarrow> 's \<Rightarrow> 'e option \<times> 's"
  we_faults :: "(fault \<Rightarrow> 's \<Rightarrow> 's) option"
  we_abort :: "'s \<Rightarrow> 'e option"
  we_folder :: "string list \<Rightarrow> 's \<Rightarrow> 's"
  we_follow :: bool

definition emit :: "('s, 'e) walk_env \<Rightarrow> fault \<Rightarrow> 's local_walk \<Rightarrow> 's local_walk" where
  "emit en f0 w =
     (let f = f0\<lparr>ft_detail := fault_detail (ft_detail f0)\<rparr>; k = lw_sink w
      in case we_faults en of
           Some cb \<Rightarrow> w\<lparr>lw_run := cb f (lw_run w)\<rparr>
         | None \<Rightarrow> w\<lparr>lw_sink := if length (fs_kept k) < max_faults then k\<lparr>fs_kept := fs_kept k @ [f]\<rparr>
                                 else k\<lparr>fs_dropped := fs_dropped k + 1\<rparr>\<rparr>)"

definition walk_fault :: "string \<Rightarrow> string \<Rightarrow> string \<Rightarrow> string list \<Rightarrow> string \<Rightarrow> string \<Rightarrow> fault" where
  "walk_fault reason scope_of cls folder locator detail =
     \<lparr>ft_reason = reason, ft_scope = scope_of, ft_class = cls, ft_folder = folder, ft_locator = locator,
       ft_subject = [], ft_detail = detail, ft_skipped = 0\<rparr>"

text \<open>\<^verbatim>\<open>GapErrnoClass\<close>: the class of error a remedy differs by.\<close>

definition gap_errno_class :: "string \<Rightarrow> string" where
  "gap_errno_class detail =
     (let d = lower_ascii detail; holds = (\<lambda>words. list_ex (\<lambda>x. contains_str d x) words)
      in if holds [''permission denied'', ''operation not permitted'', ''access is denied''] then ''perm''
         else if holds [''input/output error'', ''i/o error''] then ''io''
         else if holds [''no space left'', ''disk quota'', ''not enough space'', ''disk is full''] then ''nospace''
         else if holds [''file name too long'', ''filename too long'', ''name is too long''] then ''toolong''
         else [])"

definition errno_retryable :: "io_error option \<Rightarrow> bool" where
  "errno_retryable err = (case err of None \<Rightarrow> False | Some e \<Rightarrow> er_permission e \<or> gap_errno_class (er_text e) \<noteq> [])"

definition refuse :: "('s, 'e) walk_env \<Rightarrow> scope \<Rightarrow> string \<Rightarrow> string list \<Rightarrow> verdict \<Rightarrow> 's local_walk \<Rightarrow> 's local_walk" where
  "refuse en sc rel folder v =
     (case refusal (vd_kind v) of (reason, cls, scope_of) \<Rightarrow>
        emit en (walk_fault reason scope_of cls folder
          ((if scope_of = gap_scope_folder then ''folder:'' else ''file:'') @ at_place sc rel) (vd_detail v)))"

definition folder_fault ::
  "('s, 'e) walk_env \<Rightarrow> scope \<Rightarrow> string \<Rightarrow> string list \<Rightarrow> string \<Rightarrow> io_error \<Rightarrow> string \<Rightarrow> 's local_walk \<Rightarrow> 's local_walk" where
  "folder_fault en sc rel folder reason err detail =
     emit en (walk_fault reason gap_scope_folder
       (if reason = ''folder-unreadable'' \<and> errno_retryable (Some err) then class_fillable else class_terminal)
       folder (''folder:'' @ at_place sc rel) (detail @ er_text err))"

definition too_deep :: "('s, 'e) walk_env \<Rightarrow> scope \<Rightarrow> string \<Rightarrow> string list \<Rightarrow> 's local_walk \<Rightarrow> 's local_walk" where
  "too_deep en sc rel folder =
     emit en (walk_fault ''folder-too-deep'' gap_scope_folder class_terminal folder (''folder:'' @ at_place sc rel)
       (''the folder is nested more than '' @ itoa (int max_folder_depth)
         @ '' levels deep; it and the folders below it were not read''))"

definition already_read :: "('s, 'e) walk_env \<Rightarrow> scope \<Rightarrow> string \<Rightarrow> string list \<Rightarrow> 's local_walk \<Rightarrow> 's local_walk" where
  "already_read en sc rel folder =
     emit en (walk_fault ''folder-cycle'' gap_scope_folder class_info folder (''folder:'' @ at_place sc rel)
       ''this folder was read already, through another path, and is not read again'')"

text \<open>A directory the walk has entered is remembered by its identity.\<close>

definition seen_dir :: "file_info \<Rightarrow> 's local_walk \<Rightarrow> bool \<times> 's local_walk" where
  "seen_dir fi w = (if fi_id fi \<in> set (lw_visited w) then (True, w) else (False, w\<lparr>lw_visited := lw_visited w @ [fi_id fi]\<rparr>))"

definition note_place :: "('s, 'e) walk_env \<Rightarrow> string list \<Rightarrow> 's local_walk \<Rightarrow> 's local_walk" where
  "note_place en folder w = w\<lparr>lw_run := we_folder en folder (lw_run w)\<rparr>"

definition with_folder :: "disk \<Rightarrow> string list \<Rightarrow> string \<Rightarrow> string list" where
  "with_folder d folder name = folder @ [sanitize_segment (dk_nfc d) name]"

subsection \<open>Loops that stop at the first error\<close>

fun for_each :: "('a \<Rightarrow> 'w \<Rightarrow> 'e option \<times> 'w) \<Rightarrow> 'a list \<Rightarrow> 'w \<Rightarrow> 'e option \<times> 'w" where
  "for_each f [] w = (None, w)"
| "for_each f (x # xs) w = (case f x w of (Some e, w) \<Rightarrow> (Some e, w) | (None, w) \<Rightarrow> for_each f xs w)"

definition checked :: "('s, 'e) walk_env \<Rightarrow> ('s local_walk \<Rightarrow> 'e option \<times> 's local_walk) \<Rightarrow> 's local_walk \<Rightarrow> 'e option \<times> 's local_walk" where
  "checked en f w = (case we_abort en (lw_run w) of Some e \<Rightarrow> (Some e, w) | None \<Rightarrow> f w)"

subsection \<open>Descending into a directory\<close>

text \<open>How a place is read one level down; \<open>None\<close> at the depth cap.\<close>

type_synonym ('s, 'e) reader = "spot \<Rightarrow> scope \<Rightarrow> string \<Rightarrow> string list \<Rightarrow> 's local_walk \<Rightarrow> 'e option \<times> 's local_walk"

definition into ::
  "('s, 'e) walk_env \<Rightarrow> nat \<Rightarrow> ('s, 'e) reader option \<Rightarrow> scope \<Rightarrow> string \<Rightarrow> verdict \<Rightarrow> string list \<Rightarrow> spot
     \<Rightarrow> 's local_walk \<Rightarrow> 'e option \<times> 's local_walk" where
  "into en left next sc rel v folder p w =
     (case vd_kind v of
        Kind_dir \<Rightarrow>
          (case next of
             None \<Rightarrow> (None, too_deep en sc rel folder w)
           | Some read \<Rightarrow>
               if we_follow en
               then (case dk_lstat (we_disk en) (sc_root sc) rel of
                       Inl _ \<Rightarrow> read p sc rel folder w
                     | Inr fi \<Rightarrow> (case seen_dir fi w of
                         (True, w) \<Rightarrow> (None, already_read en sc rel folder w)
                       | (False, w) \<Rightarrow> read p sc rel folder w))
               else read p sc rel folder w)
      | Kind_dir_link \<Rightarrow>
          if \<not> we_follow en then (None, refuse en sc rel folder v w)
          else (case next of
             None \<Rightarrow> (None, too_deep en sc rel folder w)
           | Some _ \<Rightarrow> (None, w\<lparr>lw_pending := lw_pending w @ [\<lparr>pl_left = left, pl_scope = sc, pl_rel = rel,
                 pl_folder = folder, pl_place = p\<rparr>]\<rparr>))
      | _ \<Rightarrow> (None, refuse en sc rel folder v w))"

subsection \<open>A maildir\<close>

definition maildir_unique :: "string \<Rightarrow> string" where
  "maildir_unique name = takeWhile (\<lambda>c. c \<noteq> CHR '':'' \<and> c \<noteq> CHR ''!'') name"

text \<open>The part of a text after the last \<^verbatim>\<open>2,\<close>, if it has one.\<close>

fun after_version :: "string \<Rightarrow> string option" where
  "after_version [] = None"
| "after_version (c # s) = (case after_version s of
     Some r \<Rightarrow> Some r
   | None \<Rightarrow> if has_prefix (c # s) ''2,'' then Some (drop 2 (c # s)) else None)"

definition maildir_seen :: "string \<Rightarrow> bool" where
  "maildir_seen name = (case after_version name of None \<Rightarrow> False | Some flags \<Rightarrow> CHR ''S'' \<in> set flags)"

definition header_limit :: nat where "header_limit = 64 * 1024"

fun index_of :: "string \<Rightarrow> string \<Rightarrow> nat option" where
  "index_of p [] = (if p = [] then Some 0 else None)"
| "index_of p (c # s) = (if has_prefix (c # s) p then Some 0 else map_option Suc (index_of p s))"

definition header_block :: "string \<Rightarrow> string" where
  "header_block raw =
     (let scan = take header_limit raw;
          crlf = index_of [CHR 0x0D, CHR 0x0A, CHR 0x0D, CHR 0x0A] scan; lf = index_of [CHR 0x0A, CHR 0x0A] scan
      in case (crlf, lf) of
           (None, None) \<Rightarrow> []
         | (Some i, None) \<Rightarrow> take i raw
         | (None, Some j) \<Rightarrow> take j raw
         | (Some i, Some j) \<Rightarrow> take (min i j) raw)"

definition header_block_has :: "string \<Rightarrow> string \<Rightarrow> bool" where
  "header_block_has raw field =
     (let hb = header_block raw; hb = (if hb = [] then take header_limit raw else hb); p = lower_ascii field @ '':''
      in list_ex (\<lambda>line. has_prefix (lower_ascii (trim_left [CHR '' '', CHR 0x09] line)) p) (split_on CHR 0x0A hb))"

text \<open>The file a client gave new flags while the run read its directory.\<close>

definition reloc_names :: "dir_entry list \<Rightarrow> (string, string) gomap" where
  "reloc_names es = fold (\<lambda>e m. if \<not> is_regular (de_mode e) then m
     else let u = maildir_unique (de_name e)
          in case mget m u of Some n \<Rightarrow> if n = [] then mput u (de_name e) m else m | None \<Rightarrow> mput u (de_name e) m) es []"

definition reloc_hit :: "string \<Rightarrow> string \<Rightarrow> reloc_index \<Rightarrow> string option" where
  "reloc_hit want name ix = (case mget (ri_names ix) want of
     Some cur \<Rightarrow> if cur \<noteq> name then Some cur else None | None \<Rightarrow> None)"

definition relocate :: "('s, 'e) walk_env \<Rightarrow> scope \<Rightarrow> string \<Rightarrow> string \<Rightarrow> 's local_walk
    \<Rightarrow> (string \<times> string) option \<times> 's local_walk" where
  "relocate en sc rel name w =
     (let dir = path_dir rel; want = maildir_unique name; key = at_place sc dir;
          ix = (case mget (lw_reloc w) key of Some ix \<Rightarrow> ix | None \<Rightarrow> \<lparr>ri_names = [], ri_lists = 0\<rparr>);
          found = (\<lambda>ix. map_option (\<lambda>cur. (rel_join dir cur, cur)) (reloc_hit want name ix));
          keep = (\<lambda>ix. w\<lparr>lw_reloc := mput key ix (lw_reloc w)\<rparr>)
      in if reloc_hit want name ix \<noteq> None then (found ix, keep ix)
         else if max_relocate_listings \<le> ri_lists ix then (None, keep ix)
         else let n = ri_lists ix; ix = ix\<lparr>ri_lists := n + 1\<rparr>
              in case dk_list_again (we_disk en) n (sc_root sc) dir of
                   Inl _ \<Rightarrow> (None, keep ix)
                 | Inr es \<Rightarrow> let ix = ix\<lparr>ri_names := reloc_names es\<rparr> in (found ix, keep ix))"

definition not_exist :: "read_fault + string \<Rightarrow> bool" where
  "not_exist r = (case r of Inl (Read_failed e) \<Rightarrow> er_not_exist e | _ \<Rightarrow> False)"

definition maildir_message ::
  "('s, 'e) walk_env \<Rightarrow> scope \<Rightarrow> string \<Rightarrow> string \<Rightarrow> string list \<Rightarrow> 's local_walk \<Rightarrow> 'e option \<times> 's local_walk" where
  "maildir_message en sc rel0 name0 folder w0 =
     (let d = we_disk en; read = dk_read_file d (sc_root sc);
          locator = bound_locator (''maildir:'' @ join CHR ''/'' folder @ ''/'' @ maildir_unique name0);
          (moved, w) = (if not_exist (read rel0) then relocate en sc rel0 name0 w0 else (None, w0));
          (rel, name) = (case moved of Some m \<Rightarrow> m | None \<Rightarrow> (rel0, name0))
      in case read rel of
           Inl (Not_regular text) \<Rightarrow> (None, refuse en sc rel folder (verdict_of Kind_special [] text) w)
         | Inl (Read_failed e) \<Rightarrow>
             if er_not_exist e
             then (None, emit en (walk_fault ''vanished-during-read'' gap_scope_item class_fillable folder locator
                    ''the file was renamed or deleted while the run was reading it'') w)
             else (None, emit en (walk_fault ''file-unreadable'' gap_scope_item class_fillable folder locator (er_text e)) w)
         | Inr data \<Rightarrow>
             (case dk_parse d data of
                None \<Rightarrow> (None, w)
              | Some m0 \<Rightarrow>
                  let m = m0\<lparr>ms_read_locator := locator\<rparr>;
                      m = (if header_block_has data ''X-Mozilla-Status'' then m else m\<lparr>ms_unread := \<not> maildir_seen name\<rparr>)
                  in case we_handler en folder m (lw_run w) of (err, s) \<Rightarrow> (err, w\<lparr>lw_run := s\<rparr>)))"

definition maildir_entry ::
  "('s, 'e) walk_env \<Rightarrow> nat \<Rightarrow> ('s, 'e) reader option \<Rightarrow> scope \<Rightarrow> string \<Rightarrow> string list \<Rightarrow> dir_entry
     \<Rightarrow> 's local_walk \<Rightarrow> 'e option \<times> 's local_walk" where
  "maildir_entry en left next sc rel folder fe = checked en (\<lambda>w.
     let erel = rel_join rel (de_name fe); v = judge_entry (we_disk en) (we_follow en) sc erel (de_mode fe) Pos_either
     in case vd_kind v of
          Kind_dir \<Rightarrow> into en left next sc erel v folder Maildir_files w
        | Kind_dir_link \<Rightarrow> into en left next sc erel v folder Maildir_files w
        | Kind_file \<Rightarrow> maildir_message en sc (vd_rel v) (de_name fe) folder w
        | Kind_file_link \<Rightarrow> maildir_message en sc (vd_rel v) (de_name fe) folder w
        | Kind_placeholder \<Rightarrow> maildir_message en sc (vd_rel v) (de_name fe) folder w
        | _ \<Rightarrow> (None, refuse en sc erel folder v w))"

definition maildir_dir ::
  "('s, 'e) walk_env \<Rightarrow> nat \<Rightarrow> ('s, 'e) reader option \<Rightarrow> scope \<Rightarrow> string \<Rightarrow> string list \<Rightarrow> 's local_walk \<Rightarrow> 'e option \<times> 's local_walk" where
  "maildir_dir en left next sc rel folder w =
     (case dk_read_dir (we_disk en) (sc_root sc) rel of
        Inl e \<Rightarrow> (None, if er_not_exist e then w
                       else folder_fault en sc rel folder ''folder-unreadable'' e
                              ''the folder's mail directory could not be listed: '' w)
      | Inr entries \<Rightarrow> for_each (maildir_entry en left next sc rel folder) entries w)"

definition read_maildir ::
  "('s, 'e) walk_env \<Rightarrow> nat \<Rightarrow> ('s, 'e) reader option \<Rightarrow> scope \<Rightarrow> string \<Rightarrow> string list \<Rightarrow> 's local_walk \<Rightarrow> 'e option \<times> 's local_walk" where
  "read_maildir en left next sc rel folder w =
     for_each (\<lambda>sub w.
       let srel = rel_join rel sub
       in case dk_lstat (we_disk en) (sc_root sc) srel of
            Inl e \<Rightarrow> (None, if er_not_exist e then w
                           else folder_fault en sc srel folder ''folder-unreadable'' e
                                  (''the '' @ sub @ '' folder could not be read: '') w)
          | Inr fi \<Rightarrow> into en left next sc srel (judge_entry (we_disk en) (we_follow en) sc srel (fi_mode fi) Pos_dir)
                       folder Maildir_files w)
       [''new'', ''cur''] (note_place en folder w)"

end
