(* ===== verification/LocalRead.thy ===== *)
theory LocalRead
  imports LocalWalk
begin

text \<open>
  Mbox files, the directories that hold them, Evolution's stores, and the walk of a whole store
  (\<^verbatim>\<open>localwalk.go\<close>, \<^verbatim>\<open>evolution.go\<close>, \<^verbatim>\<open>mboxreader.go\<close>).
\<close>

subsection \<open>An mbox file\<close>

definition utf8_bom :: string where "utf8_bom = [CHR 0xEF, CHR 0xBB, CHR 0xBF]"

definition skip_bom :: "string \<times> io_error option \<Rightarrow> string \<times> io_error option" where
  "skip_bom st = (trim_prefix (fst st) utf8_bom, snd st)"

definition sniff_mbox :: "string \<times> io_error option \<Rightarrow> io_error + bool" where
  "sniff_mbox st = (case st of (bytes, end_err) \<Rightarrow>
     let b = trim_left [CHR 0x0D, CHR 0x0A] (trim_prefix (take 4096 bytes) utf8_bom)
     in if has_prefix b ''From '' then Inr True
        else case end_err of
          Some e \<Rightarrow> if length b < length ''From '' \<and> length bytes < 4096 then Inl e else Inr False
        | None \<Rightarrow> Inr False)"

definition looks_like_mbox_in :: "disk \<Rightarrow> scope \<Rightarrow> string \<Rightarrow> io_error + bool" where
  "looks_like_mbox_in d sc rel = (case dk_open_stream d (sc_root sc) rel of
     Inl (Not_regular _) \<Rightarrow> Inr False
   | Inl (Read_failed e) \<Rightarrow> Inl e
   | Inr st \<Rightarrow> sniff_mbox st)"

definition is_mailbox_candidate :: "string \<Rightarrow> bool" where
  "is_mailbox_candidate name \<longleftrightarrow>
     lower_ascii (file_ext (\<lambda>c. c = CHR ''/'') name) \<notin> {''.msf'', ''.dat'', ''.json'', ''.sqlite'', ''.html''}
     \<and> \<not> has_prefix name ''.''"

text \<open>The messages of a stream in turn; the abort check comes before each, and before its end.\<close>

fun mbox_messages ::
  "('s, 'e) walk_env \<Rightarrow> string list \<Rightarrow> nat \<Rightarrow> string list \<Rightarrow> (nat \<Rightarrow> 's local_walk \<Rightarrow> 's local_walk) \<Rightarrow> 's local_walk
     \<Rightarrow> 'e option \<times> 's local_walk" where
  "mbox_messages en folder n [] at_end w = checked en (\<lambda>w. (None, at_end n w)) w"
| "mbox_messages en folder n (data # rest) at_end w = checked en (\<lambda>w.
     case dk_parse (we_disk en) data of
       None \<Rightarrow> mbox_messages en folder (n + 1) rest at_end w
     | Some m \<Rightarrow> (case we_handler en folder m (lw_run w) of
         (Some e, s) \<Rightarrow> (Some e, w\<lparr>lw_run := s\<rparr>)
       | (None, s) \<Rightarrow> mbox_messages en folder (n + 1) rest at_end (w\<lparr>lw_run := s\<rparr>))) w"

definition mbox_file ::
  "('s, 'e) walk_env \<Rightarrow> scope \<Rightarrow> string \<Rightarrow> string list \<Rightarrow> 's local_walk \<Rightarrow> 'e option \<times> 's local_walk" where
  "mbox_file en sc rel folder w0 =
     (let w = note_place en folder w0
      in case dk_open_stream (we_disk en) (sc_root sc) rel of
           Inl (Not_regular text) \<Rightarrow> (None, refuse en sc rel folder (verdict_of Kind_special [] text) w)
         | Inl (Read_failed e) \<Rightarrow>
             (None, folder_fault en sc rel folder ''folder-unreadable'' e ''the mbox file could not be opened: '' w)
         | Inr st \<Rightarrow> (case dk_mbox (we_disk en) (skip_bom st) of (messages, end_err) \<Rightarrow>
             mbox_messages en folder 0 messages
               (\<lambda>n w. case end_err of None \<Rightarrow> w
                  | Some e \<Rightarrow> folder_fault en sc rel folder ''folder-partially-read'' e
                      (itoa (int n) @ '' message(s) were read before the stream failed: '') w) w))"

subsection \<open>A directory of mailboxes\<close>

definition subfolders ::
  "('s, 'e) walk_env \<Rightarrow> nat \<Rightarrow> ('s, 'e) reader option \<Rightarrow> scope \<Rightarrow> string \<Rightarrow> string \<Rightarrow> string list \<Rightarrow> 's local_walk
     \<Rightarrow> 'e option \<times> 's local_walk" where
  "subfolders en left next sc dir name folder w =
     (let srel = rel_join dir (name @ ''.sbd'')
      in case dk_lstat (we_disk en) (sc_root sc) srel of
           Inl _ \<Rightarrow> (None, w)
         | Inr fi \<Rightarrow>
             let v = judge_entry (we_disk en) (we_follow en) sc srel (fi_mode fi) Pos_dir
             in if vd_kind v = Kind_file \<or> vd_kind v = Kind_file_link then (None, w)
                else into en left next sc srel v folder Container w)"

text \<open>The subfolder containers already read are remembered by name.\<close>

definition read_sub ::
  "('s, 'e) walk_env \<Rightarrow> nat \<Rightarrow> ('s, 'e) reader option \<Rightarrow> scope \<Rightarrow> string \<Rightarrow> string \<Rightarrow> string list
     \<Rightarrow> 's local_walk \<times> string list \<Rightarrow> 'e option \<times> 's local_walk \<times> string list" where
  "read_sub en left next sc rel name folder = (\<lambda>(w, read). case subfolders en left next sc rel name folder w of
     (err, w) \<Rightarrow> (err, w, (name @ ''.sbd'') # read))"

definition mbox_entry ::
  "('s, 'e) walk_env \<Rightarrow> nat \<Rightarrow> ('s, 'e) reader option \<Rightarrow> scope \<Rightarrow> string \<Rightarrow> string list \<Rightarrow> dir_entry
     \<Rightarrow> 's local_walk \<times> string list \<Rightarrow> 'e option \<times> 's local_walk \<times> string list" where
  "mbox_entry en left next sc rel folder e = (\<lambda>(w, read).
     case we_abort en (lw_run w) of Some err \<Rightarrow> (Some err, w, read) | None \<Rightarrow>
     (let d = we_disk en; name = de_name e; erel = rel_join rel name;
          v = judge_entry d (we_follow en) sc erel (de_mode e) Pos_either; path = with_folder d folder name;
          sub = read_sub en left next sc rel name path
      in if has_suffix name ''.sbd'' then (None, w, read)
         else if vd_kind v \<in> {Kind_dir, Kind_dir_link}
         then (if vd_kind v = Kind_dir \<and> \<not> is_maildir_in d sc erel then sub (w, read)
               else case into en left next sc erel v path Mailbox w of
                      (Some err, w) \<Rightarrow> (Some err, w, read)
                    | (None, w) \<Rightarrow> sub (w, read))
         else if vd_kind v \<in> {Kind_file, Kind_file_link, Kind_placeholder}
         then (if \<not> is_mailbox_candidate name then (None, w, read)
               else case looks_like_mbox_in d sc (vd_rel v) of
                      Inl err \<Rightarrow> sub (folder_fault en sc erel path ''folder-unreadable'' err ''the file could not be opened: '' w, read)
                    | Inr False \<Rightarrow> sub (w, read)
                    | Inr True \<Rightarrow> (case mbox_file en sc (vd_rel v) path w of
                        (Some err, w) \<Rightarrow> (Some err, w, read)
                      | (None, w) \<Rightarrow> sub (w, read)))
         else (None, refuse en sc erel folder v w, read)))"

text \<open>A container no folder's entry reached is read after the entries.\<close>

definition orphan_container ::
  "('s, 'e) walk_env \<Rightarrow> nat \<Rightarrow> ('s, 'e) reader option \<Rightarrow> scope \<Rightarrow> string \<Rightarrow> string list \<Rightarrow> dir_entry
     \<Rightarrow> 's local_walk \<times> string list \<Rightarrow> 'e option \<times> 's local_walk \<times> string list" where
  "orphan_container en left next sc rel folder e = (\<lambda>(w, read).
     let base = trim_suffix (de_name e) ''.sbd''
     in if base = [] \<or> base = de_name e \<or> de_name e \<in> set read then (None, w, read)
        else case we_abort en (lw_run w) of
          Some err \<Rightarrow> (Some err, w, read)
        | None \<Rightarrow> read_sub en left next sc rel base (with_folder (we_disk en) folder base) (w, read))"

definition unlisted :: "('s, 'e) walk_env \<Rightarrow> scope \<Rightarrow> string \<Rightarrow> string list \<Rightarrow> io_error \<Rightarrow> 's local_walk \<Rightarrow> 's local_walk" where
  "unlisted en sc rel folder e = folder_fault en sc rel folder ''folder-unreadable'' e ''the folder could not be listed: ''"

definition mbox_entries ::
  "('s, 'e) walk_env \<Rightarrow> nat \<Rightarrow> ('s, 'e) reader option \<Rightarrow> scope \<Rightarrow> string \<Rightarrow> string list \<Rightarrow> dir_entry list
     \<Rightarrow> 's local_walk \<Rightarrow> 'e option \<times> 's local_walk" where
  "mbox_entries en left next sc rel folder entries w =
     (case for_each (mbox_entry en left next sc rel folder) entries (w, []) of
        (Some err, w, _) \<Rightarrow> (Some err, w)
      | (None, st) \<Rightarrow> (case for_each (orphan_container en left next sc rel folder) entries st of (err, w, _) \<Rightarrow> (err, w)))"

definition mbox_dir ::
  "('s, 'e) walk_env \<Rightarrow> nat \<Rightarrow> ('s, 'e) reader option \<Rightarrow> scope \<Rightarrow> string \<Rightarrow> string list \<Rightarrow> 's local_walk \<Rightarrow> 'e option \<times> 's local_walk" where
  "mbox_dir en left next sc rel folder w =
     (case dk_read_dir (we_disk en) (sc_root sc) rel of
        Inl e \<Rightarrow> (None, unlisted en sc rel folder e w)
      | Inr entries \<Rightarrow> mbox_entries en left next sc rel folder entries w)"

subsection \<open>An Evolution store\<close>

definition unhex :: "char \<Rightarrow> nat option" where
  "unhex c =
     (let b = byte c
      in if in_range 48 57 b then Some (b - 48)
         else if in_range 97 102 b then Some (b - 87)
         else if in_range 65 70 b then Some (b - 55)
         else None)"

fun unescape_maildir :: "string \<Rightarrow> string" where
  "unescape_maildir (c # a # b # s) =
     (if c = CHR ''_'' then (case (unhex a, unhex b) of
         (Some x, Some y) \<Rightarrow> char_of (16 * x + y) # unescape_maildir s
       | _ \<Rightarrow> c # unescape_maildir (a # b # s))
      else c # unescape_maildir (a # b # s))"
| "unescape_maildir s = s"

definition decode_maildir_name :: "disk \<Rightarrow> string \<Rightarrow> string list" where
  "decode_maildir_name d name =
     filter (\<lambda>s. s \<noteq> []) (map (\<lambda>c. sanitize_segment (dk_nfc d) (unescape_maildir c))
       (filter (\<lambda>c. c \<noteq> []) (split_on CHR ''.'' (trim_prefix name ''.''))))"

definition refused_here :: "verdict \<Rightarrow> bool" where
  "refused_here v \<longleftrightarrow> vd_kind v \<in> {Kind_outside, Kind_special, Kind_unreachable}"

definition maildir_pp_entry ::
  "('s, 'e) walk_env \<Rightarrow> nat \<Rightarrow> ('s, 'e) reader option \<Rightarrow> scope \<Rightarrow> dir_entry \<Rightarrow> 's local_walk \<Rightarrow> 'e option \<times> 's local_walk" where
  "maildir_pp_entry en left next sc e = checked en (\<lambda>w.
     let d = we_disk en; name = de_name e; v = judge_entry d (we_follow en) sc name (de_mode e) Pos_either;
         path = decode_maildir_name d name
     in if \<not> has_prefix name ''.'' then (None, w)
        else if vd_kind v \<notin> {Kind_dir, Kind_dir_link} then (None, if refused_here v then refuse en sc name [] v w else w)
        else if path = [] then (None, w)
        else if vd_kind v = Kind_dir \<and> \<not> is_maildir_in d sc name then (None, w)
        else into en left next sc name v path Mailbox w)"

definition cache_into ::
  "('s, 'e) walk_env \<Rightarrow> nat \<Rightarrow> ('s, 'e) reader option \<Rightarrow> scope \<Rightarrow> string \<Rightarrow> string list \<Rightarrow> 's local_walk \<Rightarrow> 'e option \<times> 's local_walk" where
  "cache_into en left next sc rel folder w =
     (case dk_lstat (we_disk en) (sc_root sc) rel of
        Inl e \<Rightarrow> (None, if er_not_exist e then w
                       else folder_fault en sc rel folder ''folder-unreadable'' e ''the folder container could not be read: '' w)
      | Inr fi \<Rightarrow>
          let v = judge_entry (we_disk en) (we_follow en) sc rel (fi_mode fi) Pos_dir
          in if vd_kind v \<notin> {Kind_dir, Kind_dir_link} then (None, w)
             else into en left next sc rel v folder Cache_children w)"

definition cache_entry ::
  "('s, 'e) walk_env \<Rightarrow> nat \<Rightarrow> ('s, 'e) reader option \<Rightarrow> scope \<Rightarrow> string \<Rightarrow> string list \<Rightarrow> dir_entry
     \<Rightarrow> 's local_walk \<Rightarrow> 'e option \<times> 's local_walk" where
  "cache_entry en left next sc dir folder e = checked en (\<lambda>w.
     let d = we_disk en; name = de_name e; erel = rel_join dir name;
         v = judge_entry d (we_follow en) sc erel (de_mode e) Pos_either
     in if name \<in> {''cur'', ''new'', ''tmp'', ''subfolders''} then (None, w)
        else if vd_kind v \<notin> {Kind_dir, Kind_dir_link}
        then (None, if refused_here v \<and> \<not> (vd_kind v = Kind_outside \<and> \<not> fm_symlink (de_mode e))
                    then refuse en sc erel folder v w else w)
        else into en left next sc erel v (folder @ [sanitize_segment (dk_nfc d) name]) Cache_folder w)"

definition cache_children ::
  "('s, 'e) walk_env \<Rightarrow> nat \<Rightarrow> ('s, 'e) reader option \<Rightarrow> scope \<Rightarrow> string \<Rightarrow> string list \<Rightarrow> 's local_walk \<Rightarrow> 'e option \<times> 's local_walk" where
  "cache_children en left next sc dir folder w =
     (case dk_read_dir (we_disk en) (sc_root sc) dir of
        Inl e \<Rightarrow> (None, if er_not_exist e then w
                       else folder_fault en sc dir folder ''folder-unreadable'' e ''the folder container could not be listed: '' w)
      | Inr entries \<Rightarrow> for_each (cache_entry en left next sc dir folder) entries w)"

definition and_then ::
  "('w \<Rightarrow> 'e option \<times> 'w) \<Rightarrow> ('w \<Rightarrow> 'e option \<times> 'w) \<Rightarrow> 'w \<Rightarrow> 'e option \<times> 'w" where
  "and_then f g w = (case f w of (Some e, w) \<Rightarrow> (Some e, w) | (None, w) \<Rightarrow> g w)"

definition cache_folder ::
  "('s, 'e) walk_env \<Rightarrow> nat \<Rightarrow> ('s, 'e) reader option \<Rightarrow> scope \<Rightarrow> string \<Rightarrow> string list \<Rightarrow> 's local_walk \<Rightarrow> 'e option \<times> 's local_walk" where
  "cache_folder en left next sc dir folder =
     and_then (read_maildir en left next sc dir folder)
       (and_then (cache_children en left next sc dir folder)
          (cache_into en left next sc (rel_join dir ''subfolders'') folder))"

subsection \<open>The descent\<close>

definition read_place :: "('s, 'e) walk_env \<Rightarrow> nat \<Rightarrow> ('s, 'e) reader option \<Rightarrow> ('s, 'e) reader" where
  "read_place en left next p sc rel folder = (case p of
     Maildir_files \<Rightarrow> maildir_dir en left next sc rel folder
   | Mailbox \<Rightarrow> if is_maildir_in (we_disk en) sc rel then read_maildir en left next sc rel folder
                else mbox_dir en left next sc rel folder
   | Container \<Rightarrow> mbox_dir en left next sc rel folder
   | Cache_children \<Rightarrow> cache_children en left next sc rel folder
   | Cache_folder \<Rightarrow> cache_folder en left next sc rel folder)"

primrec descend :: "('s, 'e) walk_env \<Rightarrow> nat \<Rightarrow> ('s, 'e) reader" where
  "descend en 0 = read_place en 0 None"
| "descend en (Suc n) = read_place en (Suc n) (Some (descend en n))"

definition below :: "('s, 'e) walk_env \<Rightarrow> nat \<Rightarrow> ('s, 'e) reader option" where
  "below en left = (case left of 0 \<Rightarrow> None | Suc n \<Rightarrow> Some (descend en n))"

subsection \<open>The links the opt-in follows\<close>

definition follow_into :: "('s, 'e) walk_env \<Rightarrow> pending_link \<Rightarrow> 's local_walk \<Rightarrow> 'e option \<times> 's local_walk" where
  "follow_into en p w =
     (let d = we_disk en; sc = pl_scope p; rel = pl_rel p; folder = pl_folder p;
          lost = (\<lambda>words e. (None, refuse en sc rel folder (verdict_of Kind_unreachable [] (words @ er_text e)) w));
          reach = (case dk_eval_links d (sc_root sc) rel of
                     Inl e \<Rightarrow> Inl e | Inr real \<Rightarrow> map_sum id (\<lambda>fi. (real, fi)) (dk_stat_path d real))
      in case reach of
           Inl e \<Rightarrow> lost ''the link's target could not be reached: '' e
         | Inr (real, fi) \<Rightarrow>
             if \<not> fm_dir (fi_mode fi)
             then (None, refuse en sc rel folder (verdict_of Kind_dir_link [] ''the link is not a folder'') w)
             else (case seen_dir fi w of
                 (True, w) \<Rightarrow> (None, already_read en sc rel folder w)
               | (False, w) \<Rightarrow> (case dk_open_root d real of
                     Some e \<Rightarrow> (None, refuse en sc rel folder (verdict_of Kind_unreachable []
                                 (''the link's target could not be opened: '' @ er_text e)) w)
                   | None \<Rightarrow> descend en (pl_left p - 1) (pl_place p) \<lparr>sc_root = real, sc_prefix = at_place sc rel\<rparr> ''.'' folder w)))"

text \<open>The links set aside, in the order they were found; a followed directory adds its own.\<close>

partial_function (option) drain :: "('s, 'e) walk_env \<Rightarrow> 's local_walk \<Rightarrow> ('e option \<times> 's local_walk) option" where
  "drain en w = (case lw_pending w of
     [] \<Rightarrow> Some (None, w)
   | p # rest \<Rightarrow> (let w = w\<lparr>lw_pending := rest\<rparr>
       in case we_abort en (lw_run w) of
            Some e \<Rightarrow> Some (Some e, w)
          | None \<Rightarrow> (case follow_into en p w of
              (Some e, w) \<Rightarrow> Some (Some e, w)
            | (None, w) \<Rightarrow> drain en w)))"

subsection \<open>A whole store\<close>

text \<open>A store as its reader opens it: the root resolved, and what kind of store it is.\<close>

datatype store_kind = Mbox_file string | Mail_dir | Maildir_plus_plus | Cache_store

datatype 'e walk_end = Walk_ended 'e | Store_failed string io_error

definition lift_end :: "'e option \<times> 's local_walk \<Rightarrow> 'e walk_end option \<times> 's local_walk" where
  "lift_end r = (map_option Walk_ended (fst r), snd r)"

definition walk_root :: "('s, 'e) walk_env \<Rightarrow> store_kind \<Rightarrow> scope \<Rightarrow> 's local_walk \<Rightarrow> 'e walk_end option \<times> 's local_walk" where
  "walk_root en k sc w =
     (let n = max_folder_depth; next = below en n; d = we_disk en
      in case k of
           Mbox_file name \<Rightarrow> lift_end (mbox_file en sc name [] w)
         | Mail_dir \<Rightarrow>
             if is_maildir_in d sc ''.'' then lift_end (read_maildir en n next sc ''.'' [] w)
             else (case dk_read_dir d (sc_root sc) ''.'' of
                     Inl e \<Rightarrow> (Some (Store_failed ''read mail dir'' e), w)
                   | Inr entries \<Rightarrow> lift_end (mbox_entries en n next sc ''.'' [] entries w))
         | Maildir_plus_plus \<Rightarrow>
             (case read_maildir en n next sc ''.'' [] w of
                (Some e, w) \<Rightarrow> (Some (Walk_ended e), w)
              | (None, w) \<Rightarrow> (case dk_read_dir d (sc_root sc) ''.'' of
                  Inl e \<Rightarrow> (Some (Store_failed ''read Evolution store'' e), w)
                | Inr entries \<Rightarrow> lift_end (for_each (maildir_pp_entry en n next sc) entries w)))
         | Cache_store \<Rightarrow> lift_end (cache_into en n next sc ''folders'' [] w))"

definition walk_store :: "('s, 'e) walk_env \<Rightarrow> store_kind \<Rightarrow> scope \<Rightarrow> 's \<Rightarrow> ('e walk_end option \<times> 's local_walk) option" where
  "walk_store en k sc s =
     (let w = \<lparr>lw_run = s, lw_sink = \<lparr>fs_kept = [], fs_dropped = 0\<rparr>, lw_visited = [], lw_reloc = [], lw_pending = []\<rparr>;
          w = (if we_follow en \<and> (case k of Mbox_file _ \<Rightarrow> False | _ \<Rightarrow> True)
               then (case dk_stat_path (we_disk en) (sc_root sc) of Inl _ \<Rightarrow> w | Inr fi \<Rightarrow> snd (seen_dir fi w)) else w)
      in case walk_root en k sc w of
           (Some e, w) \<Rightarrow> Some (Some e, w)
         | (None, w) \<Rightarrow> (case k of
             Mbox_file _ \<Rightarrow> Some (None, w)
           | _ \<Rightarrow> map_option lift_end (drain en w)))"

text \<open>What the walk returns: with a callback its own end, else the faults it kept as well.\<close>

definition sink_result ::
  "('s, 'e) walk_env \<Rightarrow> 'e walk_end option \<Rightarrow> 's local_walk \<Rightarrow> 'e walk_end option \<times> (fault list \<times> nat) option" where
  "sink_result en err w =
     (if we_faults en \<noteq> None \<or> fs_kept (lw_sink w) = [] \<and> fs_dropped (lw_sink w) = 0 then (err, None)
      else (err, Some (fs_kept (lw_sink w), fs_dropped (lw_sink w))))"

end
