(* ===== verification/LocalKeeps.thy ===== *)
theory LocalKeeps
  imports LocalRead
begin

text \<open>
  What a walk of a local store keeps, proved once over a relation that every primitive step of the walk
  moves along, and its instances: without the opt-in no link is set aside, and the directories entered
  only grow.
\<close>

lemma for_each_pair: "for_each f xs w = (err, w') \<Longrightarrow> (\<And>x w err w'. x \<in> set xs \<Longrightarrow> f x w = (err, w') \<Longrightarrow> R w w')
    \<Longrightarrow> (\<And>w. R w w) \<Longrightarrow> (\<And>a b c. R a b \<Longrightarrow> R b c \<Longrightarrow> R a c) \<Longrightarrow> R w w'"
proof (induction f xs w rule: for_each.induct)
  case (2 f x xs w)
  obtain e w1 where s: "f x w = (e, w1)" by fastforce
  have r: "R w w1" using 2(3) [of x] s by simp
  show ?case
  proof (cases e)
    case None
    then have "for_each f xs w1 = (err, w')" using 2(2) s by simp
    from 2(1) [OF s [symmetric] None this] 2(3-5) have "R w1 w'" by auto
    with r show ?thesis using 2(5) by blast
  next
    case (Some e')
    then show ?thesis using 2(2) s r by simp
  qed
qed simp

text \<open>An index of the files a directory holds now files each under its own unique part.\<close>

definition names_sound :: "(string, string) gomap \<Rightarrow> bool" where
  "names_sound m \<longleftrightarrow> (\<forall>want cur. mget m want = Some cur \<longrightarrow> maildir_unique cur = want)"

definition reloc_sound :: "(string, reloc_index) gomap \<Rightarrow> bool" where
  "reloc_sound m \<longleftrightarrow> (\<forall>key ix. mget m key = Some ix \<longrightarrow> names_sound (ri_names ix))"

lemma names_sound_Nil [simp]: "names_sound []"
  by (simp add: names_sound_def)

lemma reloc_sound_Nil [simp]: "reloc_sound []"
  by (simp add: reloc_sound_def)

lemma names_sound_put: "names_sound m \<Longrightarrow> maildir_unique cur = u \<Longrightarrow> names_sound (mput u cur m)"
  by (simp add: names_sound_def mget_mput)

lemma reloc_names_sound: "names_sound (reloc_names es)"
proof -
  have "names_sound m \<Longrightarrow> names_sound (fold (\<lambda>e m. if \<not> is_regular (de_mode e) then m
     else let u = maildir_unique (de_name e)
          in case mget m u of Some n \<Rightarrow> if n = [] then mput u (de_name e) m else m | None \<Rightarrow> mput u (de_name e) m) es m)" for m
    by (induction es arbitrary: m) (auto simp: Let_def names_sound_put split: option.split)
  then show ?thesis by (simp add: reloc_names_def)
qed

lemma relocated:
  assumes "relocate en sc rel name w = (moved, w')"
  shows "\<exists>ix. w' = w\<lparr>lw_reloc := ix\<rparr> \<and> (reloc_sound (lw_reloc w) \<longrightarrow> reloc_sound ix)"
    and "moved = Some (rel1, name1) \<Longrightarrow> reloc_sound (lw_reloc w)
      \<Longrightarrow> rel1 = rel_join (path_dir rel) name1 \<and> maildir_unique name1 = maildir_unique name"
proof -
  let ?key = "at_place sc (path_dir rel)" and ?want = "maildir_unique name"
  define ix where "ix = (case mget (lw_reloc w) ?key of Some ix \<Rightarrow> ix | None \<Rightarrow> \<lparr>ri_names = [], ri_lists = 0\<rparr>)"
  have s: "names_sound (ri_names ix)" if "reloc_sound (lw_reloc w)"
    using that by (simp add: ix_def reloc_sound_def split: option.split)
  let ?found = "\<lambda>ix. map_option (\<lambda>cur. (rel_join (path_dir rel) cur, cur)) (reloc_hit ?want name ix)"
  have "\<exists>j. w' = w\<lparr>lw_reloc := mput ?key j (lw_reloc w)\<rparr> \<and> (moved = None \<or> moved = ?found j)
      \<and> (ri_names j = ri_names ix \<or> (\<exists>es. ri_names j = reloc_names es))"
    (is "\<exists>j. ?ok j")
  proof -
    note r = assms [unfolded relocate_def Let_def ix_def [symmetric]]
    have put: "\<exists>j. ?ok j" if "?ok j" for j using that by blast
    show ?thesis
    proof (cases "reloc_hit ?want name ix \<noteq> None \<or> max_relocate_listings \<le> ri_lists ix")
      case True
      then show ?thesis using r by (intro put [of ix]) (auto split: if_splits)
    next
      case False
      let ?j = "ix\<lparr>ri_lists := ri_lists ix + 1\<rparr>"
      show ?thesis
      proof (cases "dk_list_again (we_disk en) (ri_lists ix) (sc_root sc) (path_dir rel)")
        case (Inl e)
        then show ?thesis using r False by (intro put [of ?j]) simp
      next
        case (Inr es)
        then show ?thesis using r False by (intro put [of "?j\<lparr>ri_names := reloc_names es\<rparr>"]) auto
      qed
    qed
  qed
  then obtain j where j: "w' = w\<lparr>lw_reloc := mput ?key j (lw_reloc w)\<rparr>" "moved = None \<or> moved = ?found j"
    "ri_names j = ri_names ix \<or> (\<exists>es. ri_names j = reloc_names es)" by blast
  have n: "names_sound (ri_names j)" if "reloc_sound (lw_reloc w)"
    using j(3) s [OF that] reloc_names_sound by auto
  then have "reloc_sound (mput ?key j (lw_reloc w))" if "reloc_sound (lw_reloc w)"
    using that by (simp add: reloc_sound_def)
  with j(1) show "\<exists>ix. w' = w\<lparr>lw_reloc := ix\<rparr> \<and> (reloc_sound (lw_reloc w) \<longrightarrow> reloc_sound ix)" by blast
  show "rel1 = rel_join (path_dir rel) name1 \<and> maildir_unique name1 = maildir_unique name"
    if mv: "moved = Some (rel1, name1)" and so: "reloc_sound (lw_reloc w)"
  proof -
    obtain cur where c: "reloc_hit ?want name j = Some cur" "rel1 = rel_join (path_dir rel) cur" "name1 = cur"
      using j(2) mv by (cases "reloc_hit ?want name j") auto
    then have "mget (ri_names j) ?want = Some cur" by (simp add: reloc_hit_def split: option.splits if_splits)
    with n [OF so] c(2,3) show ?thesis by (simp add: names_sound_def)
  qed
qed

locale walk_keeps =
  fixes en :: "('s, 'e) walk_env" and R :: "'s local_walk \<Rightarrow> 's local_walk \<Rightarrow> bool"
  assumes R_refl: "R w w"
    and R_trans: "R a b \<Longrightarrow> R b c \<Longrightarrow> R a c"
    and R_handler: "we_handler en folder m (lw_run w) = (err, s) \<Longrightarrow> R w (w\<lparr>lw_run := s\<rparr>)"
    and R_emit: "R w (emit en f w)"
    and R_note: "R w (note_place en folder w)"
    and R_seen: "we_follow en \<Longrightarrow> R w (snd (seen_dir fi w))"
    and R_reloc: "(reloc_sound (lw_reloc w) \<Longrightarrow> reloc_sound ix) \<Longrightarrow> R w (w\<lparr>lw_reloc := ix\<rparr>)"
    and R_pending: "we_follow en \<Longrightarrow> R w (w\<lparr>lw_pending := lw_pending w @ [p]\<rparr>)"
begin

lemma R_faults:
  "R w (refuse en sc rel folder v w)" "R w (folder_fault en sc rel folder reason e detail w)"
  "R w (too_deep en sc rel folder w)" "R w (already_read en sc rel folder w)" "R w (unlisted en sc rel folder e w)"
  by (simp_all add: refuse_def folder_fault_def too_deep_def already_read_def unlisted_def R_emit split: prod.split)

lemma relocate_R: "R w (snd (relocate en sc rel name w))"
  using relocated(1) [of en sc rel name w] R_reloc by (metis prod.collapse)

lemma maildir_message_R: "R w (snd (maildir_message en sc rel name folder w))"
proof -
  let ?read = "dk_read_file (we_disk en) (sc_root sc)"
  obtain moved w1 where m: "(if not_exist (?read rel) then relocate en sc rel name w else (None, w)) = (moved, w1)"
    by fastforce
  have 1: "R w w1" using m relocate_R [of w sc rel name] R_refl by (auto split: if_splits)
  obtain rel1 name1 where n: "(case moved of Some m \<Rightarrow> m | None \<Rightarrow> (rel, name)) = (rel1, name1)" by fastforce
  have h: "R w (w1\<lparr>lw_run := snd (we_handler en folder msg (lw_run w1))\<rparr>)" for msg
    using R_trans [OF 1 R_handler] by (metis prod.collapse)
  have e: "R w (emit en f w1)" "R w (refuse en sc rel1 folder v w1)" for f v
    using R_trans [OF 1 R_emit] R_trans [OF 1 R_faults(1)] .
  show ?thesis unfolding maildir_message_def Let_def m n prod.case
    using 1 h e by (auto split: sum.split read_fault.split option.split prod.split simp: Let_def) (metis snd_conv)+
qed

text \<open>Readers one level down that keep the relation.\<close>

definition good :: "('s, 'e) reader option \<Rightarrow> bool" where
  "good next \<longleftrightarrow> (\<forall>read. next = Some read \<longrightarrow> (\<forall>p sc rel folder w. R w (snd (read p sc rel folder w))))"

lemma good_read: "good (Some read) \<Longrightarrow> R w (snd (read p sc rel folder w))"
  by (simp add: good_def)

lemma into_R: "good next \<Longrightarrow> R w (snd (into en left next sc rel v folder p w))"
proof -
  assume g: "good next"
  have seen: "R w (snd (read p sc rel folder w1))" "R w (already_read en sc rel folder w1)"
    if "next = Some read" "seen_dir fi w = (b, w1)" "we_follow en" for read fi b w1
  proof -
    have 1: "R w w1" using R_seen [OF that(3), of w fi] that(2) by simp
    show "R w (snd (read p sc rel folder w1))" using R_trans [OF 1] good_read g that(1) by blast
    show "R w (already_read en sc rel folder w1)" using R_trans [OF 1 R_faults(4)] .
  qed
  show ?thesis
    using g seen
    by (auto simp: into_def R_faults R_pending good_read split: entry_kind.split option.split sum.split prod.split bool.split)
qed

lemma checked_R: "(\<And>w. R w (snd (f w))) \<Longrightarrow> R w (snd (checked en f w))"
  by (simp add: checked_def R_refl split: option.split)

lemma loop_R: "(\<And>x w. R w (snd (f x w))) \<Longrightarrow> R w (snd (for_each f xs w))"
  using for_each_pair [of f xs w "fst (for_each f xs w)" "snd (for_each f xs w)" R] R_refl R_trans
  by (metis prod.collapse snd_conv)

lemma maildir_entry_R: "good next \<Longrightarrow> R w (snd (maildir_entry en left next sc rel folder fe w))"
  unfolding maildir_entry_def
  by (rule checked_R) (simp add: Let_def R_faults into_R maildir_message_R split: entry_kind.split)

lemma maildir_dir_R: "good next \<Longrightarrow> R w (snd (maildir_dir en left next sc rel folder w))"
  by (simp add: maildir_dir_def R_refl R_faults loop_R maildir_entry_R split: sum.split)

lemma read_maildir_R: "good next \<Longrightarrow> R w (snd (read_maildir en left next sc rel folder w))"
proof -
  assume g: "good next"
  have l: "R w (snd (for_each f xs (note_place en folder w)))" if "\<And>x w. R w (snd (f x w))" for f and xs :: "string list"
    using R_trans [OF R_note loop_R [OF that]] .
  show ?thesis unfolding read_maildir_def
    by (rule l) (simp add: Let_def R_refl R_faults into_R [OF g] split: sum.split)
qed

lemma mbox_messages_R: "(\<And>n w. R w (at_end n w)) \<Longrightarrow> R w (snd (mbox_messages en folder n ms at_end w))"
proof (induction ms arbitrary: n w)
  case Nil
  then show ?case by (simp add: checked_def R_refl split: option.split)
next
  case (Cons data rest)
  have h: "R w (w\<lparr>lw_run := s\<rparr>)" if "we_handler en folder m (lw_run w) = (e, s)" for m e s
    using that by (rule R_handler)
  show ?case
    using Cons h R_trans by (auto simp: checked_def R_refl split: option.split prod.split) metis+
qed

lemma mbox_file_R: "R w (snd (mbox_file en sc rel folder w))"
proof -
  let ?w = "note_place en folder w"
  have "R w (snd (mbox_messages en folder 0 ms at_end ?w))" if "\<And>n w. R w (at_end n w)" for ms at_end
    using R_trans [OF R_note mbox_messages_R [OF that]] .
  moreover have "R w (refuse en sc rel folder v ?w)" "R w (folder_fault en sc rel folder r e t ?w)" for v r e t
    using R_trans [OF R_note R_faults(1)] R_trans [OF R_note R_faults(2)] .
  ultimately show ?thesis
    by (auto simp: mbox_file_def Let_def R_refl R_faults split: sum.split read_fault.split prod.split option.split)
qed

lemma subfolders_R: "good next \<Longrightarrow> R w (snd (subfolders en left next sc dir name folder w))"
  by (simp add: subfolders_def Let_def R_refl into_R split: sum.split)

lemma read_sub_R:
  assumes "good next"
  shows "R (fst st) (fst (snd (read_sub en left next sc rel name folder st)))"
proof -
  obtain w rd where st: "st = (w, rd)" by fastforce
  obtain x w1 where s: "subfolders en left next sc rel name folder w = (x, w1)" by fastforce
  have "R w w1" using subfolders_R [OF assms, of w left sc rel name folder] by (simp add: s)
  then show ?thesis by (cases x) (auto simp: st s read_sub_def)
qed

lemma mbox_entry_R:
  assumes g: "good next"
  shows "R (fst st) (fst (snd (mbox_entry en left next sc rel folder e st)))"
proof -
  obtain w rd where st: "st = (w, rd)" by fastforce
  have s: "R w (fst (snd (read_sub en left next sc rel name path (w1, rd))))" if "R w w1" for w1 name path
    using R_trans [OF that] read_sub_R [OF g, of "(w1, rd)"] by simp
  have i: "R w w1" if "into en left next sc er v path Mailbox w = (err, w1)" for er v path err w1
    using into_R [OF g, of w left sc er v path Mailbox] that by simp
  have m: "R w w1" if "mbox_file en sc er path w = (err, w1)" for er path err w1
    using mbox_file_R [of w sc er path] that by simp
  show ?thesis
    using s i m
    by (auto simp: st mbox_entry_def Let_def R_refl R_faults split: option.split prod.split sum.split bool.split)
qed

lemma orphan_R:
  assumes g: "good next"
  shows "R (fst st) (fst (snd (orphan_container en left next sc rel folder e st)))"
  using read_sub_R [OF g] by (cases st) (fastforce simp: orphan_container_def Let_def R_refl split: option.split)

lemma pair_loop_R:
  assumes "\<And>x st. R (fst st) (fst (snd (f x st)))"
  shows "R (fst st) (fst (snd (for_each f xs st)))"
proof (rule for_each_pair [where R = "\<lambda>a b. R (fst a) (fst b)" and err = "fst (for_each f xs st)"])
  show "for_each f xs st = (fst (for_each f xs st), snd (for_each f xs st))" by simp
  show "R (fst a) (fst b)" if "f x a = (err, b)" for x a err b using assms [of a x] that by simp
qed (auto intro: R_refl R_trans)

lemma mbox_entries_R:
  assumes g: "good next"
  shows "R w (snd (mbox_entries en left next sc rel folder es w))"
proof -
  let ?f = "mbox_entry en left next sc rel folder" and ?o = "orphan_container en left next sc rel folder"
  obtain err w1 rd where f: "for_each ?f es (w, []) = (err, w1, rd)" by (metis prod.collapse)
  have 1: "R w w1" using pair_loop_R [of ?f "(w, [])" es] mbox_entry_R [OF g] by (simp add: f)
  obtain err2 w2 rd2 where o: "for_each ?o es (w1, rd) = (err2, w2, rd2)" by (metis prod.collapse)
  have "R w1 w2" using pair_loop_R [of ?o "(w1, rd)" es] orphan_R [OF g] by (simp add: o)
  then show ?thesis using 1 R_trans by (cases err) (auto simp: mbox_entries_def f o)
qed

lemma mbox_dir_R: "good next \<Longrightarrow> R w (snd (mbox_dir en left next sc rel folder w))"
  by (simp add: mbox_dir_def R_faults mbox_entries_R split: sum.split)

lemma evolution_R:
  assumes g: "good next"
  shows "R w (snd (maildir_pp_entry en left next sc e w))" "R w (snd (cache_into en left next sc rel folder w))"
    "R w (snd (cache_entry en left next sc rel folder e w))" "R w (snd (cache_children en left next sc rel folder w))"
proof -
  show "R w (snd (maildir_pp_entry en left next sc e w))"
    unfolding maildir_pp_entry_def by (rule checked_R) (simp add: Let_def R_refl R_faults into_R [OF g])
  show "R w (snd (cache_into en left next sc rel folder w))"
    by (simp add: cache_into_def Let_def R_refl R_faults into_R [OF g] split: sum.split)
  have c: "R w (snd (cache_entry en left next sc rel folder e w))" for e w
    unfolding cache_entry_def by (rule checked_R) (simp add: Let_def R_refl R_faults into_R [OF g])
  then show "R w (snd (cache_entry en left next sc rel folder e w))" .
  show "R w (snd (cache_children en left next sc rel folder w))"
    by (simp add: cache_children_def R_refl R_faults loop_R [OF c] split: sum.split)
qed

lemma and_then_R: "(\<And>w. R w (snd (f w))) \<Longrightarrow> (\<And>w. R w (snd (g w))) \<Longrightarrow> R w (snd (and_then f g w))"
  using R_trans by (auto simp: and_then_def split: prod.split option.split) (metis snd_conv)+

lemma read_place_R: "good next \<Longrightarrow> R w (snd (read_place en left next p sc rel folder w))"
  by (auto simp: read_place_def cache_folder_def maildir_dir_R read_maildir_R mbox_dir_R evolution_R
      split: spot.split intro!: and_then_R)

lemma descend_R: "R w (snd (descend en n p sc rel folder w))"
proof (induction n arbitrary: p sc rel folder w)
  case 0
  show ?case by (simp add: read_place_R good_def)
next
  case (Suc n)
  then show ?case by (simp add: read_place_R good_def)
qed

lemma below_good: "good (below en n)"
  by (simp add: good_def below_def descend_R split: nat.split)

lemma walk_root_R: "R w (snd (walk_root en k sc w))"
proof -
  note g = below_good [of max_folder_depth]
  have l: "R w (snd (lift_end r))" if "R w (snd r)" for r using that by (simp add: lift_end_def)
  have pp: "R w (snd (for_each (maildir_pp_entry en n (below en max_folder_depth) sc) es w1))"
    if "R w w1" for n es w1
    by (rule R_trans [OF that]) (rule loop_R, rule evolution_R(1) [OF g])
  have m: "R w w1" if "read_maildir en n (below en max_folder_depth) sc ''.'' [] w = (err, w1)" for n err w1
    using read_maildir_R [OF g, of w n sc "''.''" "[]"] that by simp
  show ?thesis
    using g m pp
    by (auto simp: walk_root_def Let_def R_refl read_maildir_R mbox_file_R mbox_entries_R evolution_R
        split: store_kind.split sum.split prod.split option.split intro!: l)
qed

lemma follow_into_R:
  assumes "we_follow en"
  shows "R w (snd (follow_into en p w))"
proof -
  have s: "R w w1" if "seen_dir fi w = (b, w1)" for fi b w1 using R_seen [OF assms, of w fi] that by simp
  show ?thesis
    using s R_trans [OF s] R_faults descend_R
    by (auto simp: follow_into_def Let_def R_faults split: sum.split prod.split option.split bool.split)
qed

end

end
