(* ===== verification/LocalEnds.thy ===== *)
theory LocalEnds
  imports LocalKeeps
begin

text \<open>
  Two instances of the walk's relation, and the walk of a whole store: without the opt-in no link is set
  aside and no directory is remembered; with it the directories entered only grow, so the links set aside
  are all drained.
\<close>

subsection \<open>Two things every step keeps\<close>

lemma emit_frame [simp]:
  "lw_visited (emit en f w) = lw_visited w" "lw_pending (emit en f w) = lw_pending w" "lw_reloc (emit en f w) = lw_reloc w"
  by (simp_all add: emit_def Let_def split: option.split)

lemma note_frame [simp]:
  "lw_visited (note_place en p w) = lw_visited w" "lw_pending (note_place en p w) = lw_pending w"
  by (simp_all add: note_place_def)

lemma seen_frame:
  "set (lw_visited w) \<subseteq> set (lw_visited (snd (seen_dir fi w)))" "lw_pending (snd (seen_dir fi w)) = lw_pending w"
  "lw_run (snd (seen_dir fi w)) = lw_run w" "lw_sink (snd (seen_dir fi w)) = lw_sink w"
  by (auto simp: seen_dir_def)

text \<open>Without the opt-in nothing is remembered and nothing set aside.\<close>

definition no_links :: "('s, 'e) walk_env \<Rightarrow> 's local_walk \<Rightarrow> 's local_walk \<Rightarrow> bool" where
  "no_links en w w' \<longleftrightarrow> (\<not> we_follow en \<longrightarrow> lw_pending w' = lw_pending w \<and> lw_visited w' = lw_visited w)"

interpretation links: walk_keeps en "no_links en" for en :: "('s, 'e) walk_env"
  by unfold_locales (auto simp: no_links_def)

text \<open>A directory once entered stays remembered.\<close>

definition grown :: "'s local_walk \<Rightarrow> 's local_walk \<Rightarrow> bool" where
  "grown w w' \<longleftrightarrow> set (lw_visited w) \<subseteq> set (lw_visited w')"

interpretation growth: walk_keeps en grown for en :: "('s, 'e) walk_env"
  using seen_frame(1) by unfold_locales (auto simp: grown_def)

subsection \<open>The links set aside\<close>

definition set_aside :: "'s local_walk \<Rightarrow> pending_link list \<Rightarrow> 's local_walk" where
  "set_aside w ps = w\<lparr>lw_pending := ps\<rparr>"

lemma drain_none: "lw_pending w = [] \<Longrightarrow> drain en w = Some (None, w)"
  by (simp add: drain.simps)

text \<open>Following one link either enters a directory not entered before, or sets no other link aside.\<close>

lemma follow_cases:
  obtains "lw_pending (snd (follow_into en p w)) = lw_pending w" "lw_visited (snd (follow_into en p w)) = lw_visited w"
  | real fi where "dk_stat_path (we_disk en) real = Inr fi" "fi_id fi \<notin> set (lw_visited w)"
      "grown (w\<lparr>lw_visited := lw_visited w @ [fi_id fi]\<rparr>) (snd (follow_into en p w))"
proof (cases "dk_eval_links (we_disk en) (sc_root (pl_scope p)) (pl_rel p)")
  case (Inl e)
  then show ?thesis by (intro that(1)) (simp_all add: follow_into_def Let_def refuse_def split: prod.split)
next
  case r: (Inr real)
  show ?thesis
  proof (cases "dk_stat_path (we_disk en) real")
    case (Inl e)
    with r show ?thesis by (intro that(1)) (simp_all add: follow_into_def Let_def refuse_def split: prod.split)
  next
    case s: (Inr fi)
    show ?thesis
    proof (cases "fm_dir (fi_mode fi) \<and> fi_id fi \<notin> set (lw_visited w)")
      case False
      with r s show ?thesis
        by (intro that(1)) (simp_all add: follow_into_def Let_def refuse_def already_read_def seen_dir_def split: prod.split)
    next
      case True
      let ?w = "w\<lparr>lw_visited := lw_visited w @ [fi_id fi]\<rparr>"
      have "snd (follow_into en p w) = (case dk_open_root (we_disk en) real of
          Some e \<Rightarrow> refuse en (pl_scope p) (pl_rel p) (pl_folder p) (verdict_of Kind_unreachable []
            (''the link's target could not be opened: '' @ er_text e)) ?w
        | None \<Rightarrow> snd (descend en (pl_left p - 1) (pl_place p)
            \<lparr>sc_root = real, sc_prefix = at_place (pl_scope p) (pl_rel p)\<rparr> ''.'' (pl_folder p) ?w))"
        using r s True by (simp add: follow_into_def Let_def seen_dir_def split: option.split)
      then have "grown ?w (snd (follow_into en p w))"
        by (simp add: growth.R_faults(1) growth.descend_R split: option.split)
      with s True show ?thesis using that(2) by blast
    qed
  qed
qed

lemma drain_ends:
  assumes fin: "finite {fi_id fi |fi. \<exists>path. dk_stat_path (we_disk en) path = Inr fi}"
  shows "drain en w \<noteq> None"
proof -
  let ?D = "{fi_id fi |fi. \<exists>path. dk_stat_path (we_disk en) path = Inr fi}"
  let ?M = "measures [\<lambda>w :: 'a local_walk. card (?D - set (lw_visited w)), \<lambda>w. length (lw_pending w)]"
  have "wf ?M" by simp
  then show ?thesis
  proof (induction w rule: wf_induct_rule)
    case (less w)
    show ?case
    proof (cases "lw_pending w")
      case Nil
      then show ?thesis by (simp add: drain_none)
    next
      case (Cons p rest)
      let ?w = "w\<lparr>lw_pending := rest\<rparr>"
      obtain err w' where f: "follow_into en p ?w = (err, w')" by fastforce
      have "(w', w) \<in> ?M"
      proof (cases "lw_pending w' = rest \<and> lw_visited w' = lw_visited w")
        case True
        then show ?thesis using Cons by simp
      next
        case False
        then obtain path fi where "dk_stat_path (we_disk en) path = Inr fi" "fi_id fi \<notin> set (lw_visited w)"
        "grown (?w\<lparr>lw_visited := lw_visited w @ [fi_id fi]\<rparr>) w'"
        by (cases rule: follow_cases [of en p ?w]) (simp_all add: f)
      then have g: "set (lw_visited w) \<subseteq> set (lw_visited w')" "dk_stat_path (we_disk en) path = Inr fi"
        "fi_id fi \<in> set (lw_visited w') - set (lw_visited w)" by (auto simp: grown_def)
      then have "?D - set (lw_visited w') \<subset> ?D - set (lw_visited w)" by blast
        then have "card (?D - set (lw_visited w')) < card (?D - set (lw_visited w))"
          using fin by (intro psubset_card_mono) auto
        then show ?thesis by simp
      qed
      from less [OF this] show ?thesis
        using Cons f by (subst drain.simps) (auto simp: Let_def split: option.split)
    qed
  qed
qed

subsection \<open>The walk of a whole store\<close>

lemma store_root:
  assumes "walk_root en k sc w = (err, w')" and "\<not> we_follow en" and "lw_pending w = []"
  shows "lw_pending w' = []"
  using links.walk_root_R [of en w k sc] assms by (simp add: no_links_def)

text \<open>A walk of a store starts from its run, reads its root and drains the links set aside.\<close>

lemma store_shape:
  obtains w e1 w1 where "lw_run w = s" "lw_sink w = \<lparr>fs_kept = [], fs_dropped = 0\<rparr>" "lw_pending w = []"
    "walk_root en k sc w = (e1, w1)"
    "walk_store en k sc s = Some (e1, w1) \<or> walk_store en k sc s = map_option lift_end (drain en w1)"
proof -
  let ?w0 = "\<lparr>lw_run = s, lw_sink = \<lparr>fs_kept = [], fs_dropped = 0\<rparr>, lw_visited = [], lw_reloc = [], lw_pending = []\<rparr>"
  define w where "w = (if we_follow en \<and> (case k of Mbox_file _ \<Rightarrow> False | _ \<Rightarrow> True)
    then (case dk_stat_path (we_disk en) (sc_root sc) of Inl _ \<Rightarrow> ?w0 | Inr fi \<Rightarrow> snd (seen_dir fi ?w0)) else ?w0)"
  have run: "lw_run w = s" "lw_sink w = \<lparr>fs_kept = [], fs_dropped = 0\<rparr>" "lw_pending w = []"
    by (auto simp: w_def seen_frame split: sum.split)
  obtain e1 w1 where r: "walk_root en k sc w = (e1, w1)" by fastforce
  have "walk_store en k sc s = Some (e1, w1) \<or> walk_store en k sc s = map_option lift_end (drain en w1)"
    unfolding walk_store_def Let_def w_def [symmetric] r prod.case by (simp split: option.split store_kind.split)
  with run r that show ?thesis by blast
qed

lemma store_returns:
  assumes "finite {fi_id fi |fi. \<exists>path. dk_stat_path (we_disk en) path = Inr fi}"
  obtains err w where "walk_store en k sc s = Some (err, w)"
proof (cases rule: store_shape [of s en k sc])
  case (1 w e1 w1)
  obtain r where "drain en w1 = Some r" using drain_ends [OF assms, of w1] by blast
  with 1(5) that show ?thesis by (auto simp: lift_end_def)
qed

text \<open>
  C5: the walk of a local mail store returns.  Whatever the store holds, with the links followed or not, a
  walk ends when the directories the links can lead to have finitely many identities: a link that leads
  back to a folder already entered, through whatever other links, is not entered again, and every folder
  nested too deep is left.
\<close>

theorem a_store_walk_returns:
  assumes "finite {fi_id fi |fi. \<exists>path. dk_stat_path (we_disk en) path = Inr fi}"
  shows "\<exists>err w. walk_store en k sc s = Some (err, w)"
  by (rule store_returns [OF assms]) blast

text \<open>A sample disk: a maildir with one message, and one whose second directory is a link back to its root.\<close>

definition no_entry :: io_error where
  "no_entry = \<lparr>er_text = ''no such file'', er_not_exist = True, er_permission = False\<rparr>"

definition sample_disk :: disk where
  "sample_disk = \<lparr>dk_goos = ''linux'', dk_is_abs = (\<lambda>_. False), dk_volume = (\<lambda>_. []), dk_nfc = (\<lambda>s. s),
     dk_lstat = (\<lambda>r p. if p = ''cur'' then Inr \<lparr>fi_mode = regular_mode\<lparr>fm_dir := True\<rparr>, fi_id = 1\<rparr> else Inl no_entry),
     dk_read_dir = (\<lambda>r p. if p = ''cur'' then Inr [\<lparr>de_name = ''7:2,S'', de_mode = regular_mode\<rparr>] else Inl no_entry),
     dk_list_again = (\<lambda>_ _ _. Inl no_entry), dk_readlink = (\<lambda>_ _. Inl no_entry),
     dk_read_file = (\<lambda>r p. if p = ''cur/7:2,S'' then Inr ''x'' else Inl (Read_failed no_entry)),
     dk_open_stream = (\<lambda>_ _. Inl (Read_failed no_entry)), dk_mbox = (\<lambda>_. ([], None)),
     dk_parse = (\<lambda>_. Some zero_message), dk_stat = (\<lambda>_ _. Inl no_entry), dk_eval_links = (\<lambda>_ _. Inl no_entry),
     dk_stat_path = (\<lambda>_. Inl no_entry), dk_open_root = (\<lambda>_. None)\<rparr>"

definition looping_disk :: disk where
  "looping_disk = sample_disk\<lparr>
     dk_lstat := (\<lambda>r p. if p = ''cur'' then Inr \<lparr>fi_mode = regular_mode\<lparr>fm_symlink := True\<rparr>, fi_id = 2\<rparr> else Inl no_entry),
     dk_readlink := (\<lambda>_ _. Inr ''/store''), dk_stat := (\<lambda>_ _. Inr \<lparr>fi_mode = regular_mode\<lparr>fm_dir := True\<rparr>, fi_id = 0\<rparr>),
     dk_eval_links := (\<lambda>_ _. Inr ''/store''),
     dk_stat_path := (\<lambda>_. Inr \<lparr>fi_mode = regular_mode\<lparr>fm_dir := True\<rparr>, fi_id = 0\<rparr>)\<rparr>"

text \<open>A run that counts the messages it is handed.\<close>

definition counting :: "disk \<Rightarrow> bool \<Rightarrow> (nat, unit) walk_env" where
  "counting d follow = \<lparr>we_disk = d, we_handler = (\<lambda>_ _ n. (None, n + 1)), we_faults = None, we_abort = (\<lambda>_. None),
     we_folder = (\<lambda>_ n. n), we_follow = follow\<rparr>"

theorem a_store_walk_returns_witness:
  "\<exists>err w. walk_store (counting looping_disk True) Mail_dir \<lparr>sc_root = ''/store'', sc_prefix = []\<rparr> 0 = Some (err, w)"
proof (rule a_store_walk_returns)
  have "{fi_id fi |fi. \<exists>path. dk_stat_path (we_disk (counting looping_disk True)) path = Inr fi} \<subseteq> {0}"
    by (auto simp: counting_def looping_disk_def)
  then show "finite {fi_id fi |fi. \<exists>path. dk_stat_path (we_disk (counting looping_disk True)) path = Inr fi}"
    by (rule finite_subset) simp
qed

lemma descend_unfold: "descend en n = read_place en n (below en n)"
  by (cases n) (simp_all add: below_def)

text \<open>What a relation over the whole walk of a store has to bear besides its steps.\<close>

locale walk_ends = walk_keeps +
  assumes R_pop: "R w (set_aside w ps)"
begin

lemma drain_R:
  assumes follow: "we_follow en"
  shows "drain en w = Some (err, w') \<Longrightarrow> R w w'"
proof -
  have "env = en \<longrightarrow> R x (snd r)" if "drain env x = Some r" for env x r
  proof (rule drain.raw_induct [where P = "\<lambda>env w r. env = en \<longrightarrow> R w (snd r)", OF _ that])
    fix step :: "('a, 'b) walk_env \<Rightarrow> 'a local_walk \<Rightarrow> ('b option \<times> 'a local_walk) option" and env w r
    assume 1: "\<And>env w r. step env w = Some r \<Longrightarrow> env = en \<longrightarrow> R w (snd r)"
      "(case lw_pending w of [] \<Rightarrow> Some (None, w)
        | p # rest \<Rightarrow> let w = w\<lparr>lw_pending := rest\<rparr>
            in case we_abort env (lw_run w) of
                 Some e \<Rightarrow> Some (Some e, w)
               | None \<Rightarrow> (case follow_into env p w of (Some e, w) \<Rightarrow> Some (Some e, w) | (None, w) \<Rightarrow> step env w)) = Some r"
    show "env = en \<longrightarrow> R w (snd r)"
    proof (cases "lw_pending w")
      case Nil
      then show ?thesis using 1(2) by (auto simp: R_refl)
    next
      case (Cons p rest)
      let ?w = "w\<lparr>lw_pending := rest\<rparr>"
      have p: "R w ?w" using R_pop [of w rest] by (simp add: set_aside_def)
      obtain err w1 where f: "follow_into en p ?w = (err, w1)" by fastforce
      have w1: "R w w1" using R_trans [OF p follow_into_R [OF follow, of ?w p]] by (simp add: f)
      show ?thesis
      proof (rule impI)
        assume env: "env = en"
        note s = 1(2) [unfolded Cons list.case Let_def env f prod.case]
        show "R w (snd r)"
        proof (cases "we_abort en (lw_run ?w)")
          case None
          show ?thesis
          proof (cases err)
            case n: None
            then have "step en w1 = Some r" using s None by simp
            then have "R w1 (snd r)" using 1(1) by blast
            with w1 show ?thesis by (rule R_trans)
          qed (use s None w1 in auto)
        qed (use s p in auto)
      qed
    qed
  qed
  then show "drain en w = Some (err, w') \<Longrightarrow> R w w'" by fastforce
qed

lemma walk_store_R:
  assumes "walk_store en k sc s = Some (err, w')"
  obtains w where "lw_run w = s" "lw_sink w = \<lparr>fs_kept = [], fs_dropped = 0\<rparr>" "R w w'"
proof (cases rule: store_shape [of s en k sc])
  case (1 w e1 w1)
  have r: "R w w1" using walk_root_R [of w k sc] by (simp add: 1(4))
  have "R w w'"
  proof (cases "w' = w1")
    case False
    then obtain e where d: "drain en w1 = Some (e, w')" using 1(5) assms by (cases "drain en w1") (auto simp: lift_end_def)
    show ?thesis
    proof (cases "we_follow en")
      case True
      from R_trans [OF r drain_R [OF True d]] show ?thesis .
    next
      case no: False
      then have "lw_pending w1 = []" using store_root [OF 1(4)] 1(3) by simp
      with d False show ?thesis by (simp add: drain_none)
    qed
  qed (use r in simp)
  with 1 that show ?thesis by blast
qed

end

end
