(* ===== verification/LocalRun.thy ===== *)
theory LocalRun
  imports LocalEnds WalkKeeps RunAccounts
begin

text \<open>
  A run over a local mail store: the walk of the store with the run's own callbacks
  (\<^verbatim>\<open>internal/app/run.go\<close>), and what such a run leaves of the archive's other records.
\<close>

subsection \<open>The run's callbacks\<close>

definition local_env :: "surroundings \<Rightarrow> disk \<Rightarrow> bool \<Rightarrow> (source_run, walk_error) walk_env" where
  "local_env sur d follow =
     \<lparr>we_disk = d, we_handler = run_handle sur, we_faults = Some (on_reader_fault (wd_sep (en_world sur))),
       we_abort = (\<lambda>_. run_stop sur), we_folder = note_folder, we_follow = follow\<rparr>"

subsection \<open>What handling a message changes\<close>

lemma books_refl: "books s s"
  by (simp add: books_same)

lemma books_with_ledger: "books s (with_ledger f s)"
  by (auto simp: books_def with_ledger_def)

lemma books_late: "books s (s\<lparr>sr_late_close := l\<rparr>)"
  by (simp add: books_same)

lemma books_noted: "books s (note_recovered s)"
  by (rule books_same) (simp_all add: note_recovered_def)

lemmas books_trace = books_refl books_with_ledger books_late books_noted books_observe books_answer books_steps

lemma books_vanished: "books s (close_vanished_this_run m s)"
  by (simp add: close_vanished_this_run_def Let_def books_trace split: option.split)

lemma books_read_gap: "books s (snd (close_read_gap m s))"
  by (auto simp: close_read_gap_def Let_def intro: books_trace books_trans [OF books_with_ledger] split: option.split)

lemma books_recovered: "books s (run_recovered m fk s)"
proof -
  define s0 where "s0 = (if ms_locator m \<noteq> []
    then answer_gap (close_gap (gap_key (sr_token s) gap_scope_item (ms_locator m))) s else s)"
  obtain rd s1 where r: "close_read_gap m s0 = (rd, s1)" by fastforce
  define s2 where "s2 = (if rd then note_recovered s1 else s1)"
  have 0: "books s s0" by (simp add: s0_def books_refl books_answer)
  have "books s0 s1" using books_read_gap [of s0 m] by (simp add: r)
  from books_trans [OF 0 this] have 1: "books s s1" .
  have "books s1 s2" by (simp add: s2_def books_refl books_noted)
  from books_trans [OF 1 this] have 2: "books s s2" .
  show ?thesis
    unfolding run_recovered_def Let_def s0_def [symmetric] r prod.case s2_def [symmetric]
    by (simp add: 2 books_trans [OF books_trans [OF 2 books_answer] books_answer])
qed

lemma books_refused: "books s (snd (run_refused en fk m e s))"
proof -
  obtain err s1 where p: "run_probe en s = (err, s1)" by fastforce
  have 1: "books s s1" using books_steps(1) [where en = en and s = s] by (simp add: p)
  have "books s (snd (count_streak e (run_observe sep g (count_export_fault (s1\<lparr>sr_unwritable := u\<rparr>)))))" for sep g u
    by (rule books_trans [OF _ books_steps(2)], rule books_trans [OF _ books_observe], rule books_trans [OF _ books_steps(3)],
        rule books_trans [OF 1 books_steps(5)])
  moreover have "books s (snd (count_streak e (run_observe sep g (count_export_fault s1))))" for sep g
    by (rule books_trans [OF _ books_steps(2)], rule books_trans [OF _ books_observe], rule books_trans [OF 1 books_steps(3)])
  ultimately show ?thesis using 1 books_refl
    by (auto simp: run_refused_def Let_def p split: export_error.split option.split)
qed

subsection \<open>The records of other sources\<close>

text \<open>
  What every step of a run keeps: the run's settings and source, and, where the archive does not
  deduplicate, the capture of every record that is not of this source.
\<close>

definition spared :: "source_run \<Rightarrow> source_run \<Rightarrow> bool" where
  "spared s s' \<longleftrightarrow> same_settings (lr_exp (sr_lr s)) (lr_exp (sr_lr s')) \<and> sr_token s' = sr_token s
     \<and> (\<not> ex_dedup (lr_exp (sr_lr s)) \<longrightarrow> (\<forall>k r. ex_get (lr_exp (sr_lr s)) k = Some r \<longrightarrow>
          (\<exists>r'. ex_get (lr_exp (sr_lr s')) k = Some r'
            \<and> (same_capture r r' \<or> has_prefix k (sr_token s @ key_separator)))))"

lemma capture_same_trans: "same_capture a b \<Longrightarrow> same_capture b c \<Longrightarrow> same_capture a c"
  by (simp add: same_capture_def)

lemma spared_trans: "spared a b \<Longrightarrow> spared b c \<Longrightarrow> spared a c"
proof -
  assume a: "spared a b" and b: "spared b c"
  have s: "same_settings (lr_exp (sr_lr a)) (lr_exp (sr_lr c))" "sr_token c = sr_token a"
    using a b settings_trans unfolding spared_def by (blast, simp)
  have "\<exists>r'. ex_get (lr_exp (sr_lr c)) k = Some r' \<and> (same_capture r r' \<or> has_prefix k (sr_token a @ key_separator))"
    if d: "\<not> ex_dedup (lr_exp (sr_lr a))" and g: "ex_get (lr_exp (sr_lr a)) k = Some r" for k r
  proof -
    obtain r1 where 1: "ex_get (lr_exp (sr_lr b)) k = Some r1" "same_capture r r1 \<or> has_prefix k (sr_token a @ key_separator)"
      using a d g unfolding spared_def by blast
    have "\<not> ex_dedup (lr_exp (sr_lr b))" "sr_token b = sr_token a" using a d by (simp_all add: spared_def same_settings_def)
    then obtain r2 where "ex_get (lr_exp (sr_lr c)) k = Some r2" "same_capture r1 r2 \<or> has_prefix k (sr_token a @ key_separator)"
      using b 1(1) unfolding spared_def by metis
    with 1(2) show ?thesis using capture_same_trans by blast
  qed
  with s show ?thesis unfolding spared_def by blast
qed

lemma spared_books: "books s s' \<Longrightarrow> spared s s'"
  by (auto simp: books_def spared_def ex_get_def same_capture_def)

lemma spared_handle: "spared s (snd (run_handle sur path m s))"
proof -
  let ?fk = "join CHR ''/'' path"
  obtain out ex' where e: "export (en_world sur) (sr_token s) path m (lr_exp (sr_lr s)) = (out, ex')" by fastforce
  let ?s = "s\<lparr>sr_lr := (sr_lr s)\<lparr>lr_exp := ex'\<rparr>\<rparr>"
  have st: "same_settings (lr_exp (sr_lr s)) ex'"
    using settings_export [of "lr_exp (sr_lr s)" "en_world sur" "sr_token s" path m] by (simp add: e)
  have 1: "spared s ?s"
    using e
  proof (cases rule: export_cases)
    case 1
    then show ?thesis using st survives_get unfolding spared_def by fastforce
  next
    case (2 key ex1)
    have "\<exists>r'. ex_get ex' k = Some r' \<and> (same_capture r r' \<or> has_prefix k (sr_token s @ key_separator))"
      if d: "\<not> ex_dedup (lr_exp (sr_lr s))" and g: "ex_get (lr_exp (sr_lr s)) k = Some r" for k r
    proof -
      obtain r1 where 1: "ex_get ex1 k = Some r1" "same_capture r r1" using survives_get [OF 2(2) g] by blast
      show ?thesis
      proof (cases "k = key")
        case True
        then have "has_prefix k (base_key (sr_token s) ?fk m (lr_exp (sr_lr s)))"
          using 2(4) g d same_item_local by blast
        then have "has_prefix k (sr_token s @ key_separator)"
          using d append_prefixD [of "sr_token s @ key_separator"] by (simp add: base_key_def folder_key_def has_prefix_def)
        then show ?thesis using 2(3) True unfolding captured_def ex_get_def by blast
      next
        case False
        then have "rel_option same_capture (ex_get ex1 k) (ex_get ex' k)"
          using 2(3) unfolding captured_def ex_get_def by blast
        then show ?thesis using 1 capture_same_trans by (auto simp: option_rel_Some1)
      qed
    qed
    with st show ?thesis unfolding spared_def by simp
  qed
  have b: "spared s s'" if "books ?s s'" for s' using spared_trans [OF 1 spared_books [OF that]] .
  have r: "spared s (snd (run_refused sur ?fk m er ?s))" for er using b [OF books_refused] .
  have w: "spared s (run_recovered m ?fk (?s\<lparr>sr_wrote := True, sr_streak := 0\<rparr>))"
    using b [OF books_trans [OF books_steps(6) books_recovered]] .
  have p: "spared s (run_observe sep g (count_export_panic ?s))" for sep g
    using b [OF books_trans [OF books_steps(4) books_observe]] .
  show ?thesis
    using b [OF books_vanished] r w p spared_books [OF books_refl] spared_books [OF books_observe]
    by (auto simp: run_handle_def Let_def e split: outcome.split)
qed

subsection \<open>A whole run\<close>

definition spared_walk :: "surroundings \<Rightarrow> disk \<Rightarrow> bool \<Rightarrow> source_run local_walk \<Rightarrow> source_run local_walk \<Rightarrow> bool" where
  "spared_walk sur d follow w w' \<longleftrightarrow> spared (lw_run w) (lw_run w')"

lemma local_env_parts [simp]:
  "we_handler (local_env sur d follow) = run_handle sur" "we_folder (local_env sur d follow) = note_folder"
  "we_disk (local_env sur d follow) = d" "we_follow (local_env sur d follow) = follow"
  by (simp_all add: local_env_def)

lemma spared_fault: "spared s (on_reader_fault sep f s)"
  unfolding on_reader_fault_def by (rule spared_books [OF books_observe])

lemma emit_local [simp]: "lw_run (emit (local_env sur d follow) f w)
    = on_reader_fault (wd_sep (en_world sur)) (f\<lparr>ft_detail := fault_detail (ft_detail f)\<rparr>) (lw_run w)"
  by (simp add: emit_def local_env_def Let_def)

lemma spared_note: "spared s (note_folder path s)"
  by (rule spared_books, rule books_same) (simp_all add: note_folder_def)

interpretation local_run: walk_ends "local_env sur d follow" "spared_walk sur d follow"
  for sur :: surroundings and d :: disk and follow :: bool
proof
  show "spared_walk sur d follow w (w\<lparr>lw_run := s\<rparr>)"
    if "we_handler (local_env sur d follow) folder m (lw_run w) = (err, s)" for folder m w err s
    using spared_handle [of "lw_run w" sur folder m] that by (simp add: spared_walk_def)
  show "spared_walk sur d follow a c" if "spared_walk sur d follow a b" "spared_walk sur d follow b c" for a b c
    using that unfolding spared_walk_def by (rule spared_trans)
qed (simp_all add: spared_walk_def spared_books [OF books_refl] spared_note seen_frame set_aside_def note_place_def
      spared_fault)

text \<open>
  C7: a run over a local mail store touches no other source's mail.  When the walk of the store has ended,
  with every message it handed over handled and every fault recorded, each record the archive held is still
  there under its key, and every record that is not of this source still stands for the same capture (its
  file, fixity, fingerprint and content), wherever the archive does not deduplicate.
\<close>

theorem other_sources_keep_their_records:
  assumes "walk_store (local_env sur d follow) k sc s = Some (err, w)"
    and "\<not> ex_dedup (lr_exp (sr_lr s))" and "ex_get (lr_exp (sr_lr s)) key = Some r"
  shows "\<exists>r'. ex_get (lr_exp (sr_lr (lw_run w))) key = Some r'
    \<and> (same_capture r r' \<or> has_prefix key (sr_token s @ key_separator))"
proof -
  obtain w0 where "lw_run w0 = s" "spared_walk sur d follow w0 w"
    by (rule local_run.walk_store_R [OF assms(1)])
  with assms(2,3) show ?thesis unfolding spared_walk_def spared_def by blast
qed

theorem other_sources_keep_their_records_witness:
  "\<exists>err w r'. walk_store (local_env sample_surroundings sample_disk False) Mail_dir \<lparr>sc_root = ''/store'', sc_prefix = []\<rparr>
       ((run_over sample_box)\<lparr>sr_token := ''n''\<rparr>) = Some (err, w)
     \<and> ex_get (lr_exp (sr_lr (lw_run w))) (folder_key ''m'' ''I'' ''mid:a'') = Some r'
     \<and> same_capture (zero_rec\<lparr>r_path := ''m/I/a.html'', r_folder := ''I''\<rparr>) r'"
proof -
  let ?s = "(run_over sample_box)\<lparr>sr_token := ''n''\<rparr>" and ?en = "local_env sample_surroundings sample_disk False"
  let ?k = "folder_key ''m'' ''I'' ''mid:a''" and ?r = "zero_rec\<lparr>r_path := ''m/I/a.html'', r_folder := ''I''\<rparr>"
  have "finite {fi_id fi |fi. \<exists>path. dk_stat_path (we_disk ?en) path = Inr fi}" by (simp add: sample_disk_def)
  then obtain err w where w: "walk_store ?en Mail_dir \<lparr>sc_root = ''/store'', sc_prefix = []\<rparr> ?s = Some (err, w)"
    by (rule store_returns)
  have "ex_get (lr_exp (sr_lr ?s)) ?k = Some ?r" "\<not> ex_dedup (lr_exp (sr_lr ?s))"
    by (simp_all add: run_over_def sample_box_def ex_get_def)
  from other_sources_keep_their_records [OF w this(2,1)]
  have "\<exists>r'. ex_get (lr_exp (sr_lr (lw_run w))) ?k = Some r' \<and> (same_capture ?r r' \<or> has_prefix ?k (''n'' @ key_separator))"
    by simp
  moreover have "\<not> has_prefix ?k (''n'' @ key_separator)" by (simp add: folder_key_def has_prefix_def)
  ultimately show ?thesis using w by blast
qed

end
