(* ===== verification/LocalInside.thy ===== *)
theory LocalInside
  imports LocalEnds
begin

text \<open>
  Without the opt-in a walk reads nothing outside the store it was opened on: whatever the rest of the
  disk holds, and wherever its links lead, the walk is the same.
\<close>

subsection \<open>A disk changed everywhere but at one root\<close>

definition elsewhere :: "string \<Rightarrow> (string \<Rightarrow> 'a) \<Rightarrow> (string \<Rightarrow> 'a) \<Rightarrow> string \<Rightarrow> 'a" where
  "elsewhere root here there r = (if r = root then here r else there r)"

definition changed_outside :: "string \<Rightarrow> disk \<Rightarrow> disk \<Rightarrow> disk" where
  "changed_outside root other d = d\<lparr>
     dk_lstat := elsewhere root (dk_lstat d) (dk_lstat other),
     dk_read_dir := elsewhere root (dk_read_dir d) (dk_read_dir other),
     dk_list_again := (\<lambda>n. elsewhere root (dk_list_again d n) (dk_list_again other n)),
     dk_readlink := elsewhere root (dk_readlink d) (dk_readlink other),
     dk_read_file := elsewhere root (dk_read_file d) (dk_read_file other),
     dk_open_stream := elsewhere root (dk_open_stream d) (dk_open_stream other),
     dk_stat := dk_stat other, dk_eval_links := dk_eval_links other, dk_stat_path := dk_stat_path other,
     dk_open_root := dk_open_root other\<rparr>"

abbreviation moved :: "('s, 'e) walk_env \<Rightarrow> scope \<Rightarrow> disk \<Rightarrow> ('s, 'e) walk_env" where
  "moved en sc other \<equiv> en\<lparr>we_disk := changed_outside (sc_root sc) other (we_disk en)\<rparr>"

lemma outside_here [simp]:
  "dk_lstat (changed_outside r o' d) r = dk_lstat d r" "dk_read_dir (changed_outside r o' d) r = dk_read_dir d r"
  "dk_list_again (changed_outside r o' d) n r = dk_list_again d n r"
  "dk_readlink (changed_outside r o' d) r = dk_readlink d r" "dk_read_file (changed_outside r o' d) r = dk_read_file d r"
  "dk_open_stream (changed_outside r o' d) r = dk_open_stream d r"
  by (simp_all add: changed_outside_def elsewhere_def)

lemma outside_pure [simp]:
  "dk_goos (changed_outside r o' d) = dk_goos d" "dk_is_abs (changed_outside r o' d) = dk_is_abs d"
  "dk_volume (changed_outside r o' d) = dk_volume d" "dk_nfc (changed_outside r o' d) = dk_nfc d"
  "dk_mbox (changed_outside r o' d) = dk_mbox d" "dk_parse (changed_outside r o' d) = dk_parse d"
  by (simp_all add: changed_outside_def)

text \<open>Rewriting under the branches of a case.\<close>

lemmas no_weak = sum.case_cong_weak option.case_cong_weak prod.case_cong_weak entry_kind.case_cong_weak
  read_fault.case_cong_weak bool.case_cong_weak spot.case_cong_weak store_kind.case_cong_weak if_weak_cong

subsection \<open>The judgment of an entry\<close>

lemma lexical_moved [simp]: "lexical_link (changed_outside r o' d) rel t = lexical_link d rel t"
  by (simp add: lexical_link_def)

lemma judge_moved [simp]:
  "judge_entry (changed_outside (sc_root sc) o' d) False sc rel m pos = judge_entry d False sc rel m pos"
  by (simp add: judge_entry_def judge_link_def Let_def cong del: no_weak)

lemma maildir_moved [simp]: "is_maildir_in (changed_outside (sc_root sc) o' d) sc rel = is_maildir_in d sc rel"
  by (simp add: is_maildir_in_def cong del: no_weak)

lemma looks_moved [simp]: "looks_like_mbox_in (changed_outside (sc_root sc) o' d) sc rel = looks_like_mbox_in d sc rel"
  by (simp add: looks_like_mbox_in_def cong del: no_weak)

lemma names_moved [simp]: "with_folder (changed_outside r o' d) = with_folder d"
    "decode_maildir_name (changed_outside r o' d) = decode_maildir_name d"
  by (simp_all add: with_folder_def decode_maildir_name_def fun_eq_iff cong del: no_weak)

subsection \<open>The steps of the walk\<close>

lemma emit_moved [simp]: "emit (en\<lparr>we_disk := d\<rparr>) = emit en"
  by (simp add: emit_def fun_eq_iff cong del: no_weak)

lemma faults_moved [simp]:
  "refuse (en\<lparr>we_disk := d\<rparr>) = refuse en" "folder_fault (en\<lparr>we_disk := d\<rparr>) = folder_fault en"
  "too_deep (en\<lparr>we_disk := d\<rparr>) = too_deep en" "already_read (en\<lparr>we_disk := d\<rparr>) = already_read en"
  "note_place (en\<lparr>we_disk := d\<rparr>) = note_place en" "checked (en\<lparr>we_disk := d\<rparr>) = checked en"
  "unlisted (en\<lparr>we_disk := d\<rparr>) = unlisted en"
  by (simp_all add: refuse_def folder_fault_def too_deep_def already_read_def note_place_def checked_def unlisted_def
      fun_eq_iff cong del: no_weak)

lemma into_moved [simp]: "\<not> we_follow en \<Longrightarrow> into (en\<lparr>we_disk := d\<rparr>) left next sc = into en left next sc"
  by (simp add: into_def fun_eq_iff cong del: no_weak)

lemma relocate_moved [simp]: "relocate (moved en sc other) sc = relocate en sc"
  by (simp add: relocate_def fun_eq_iff Let_def cong del: no_weak)

lemma message_moved [simp]: "maildir_message (moved en sc other) sc = maildir_message en sc"
  by (simp add: maildir_message_def fun_eq_iff Let_def cong del: no_weak)

lemma entry_moved [simp]:
  "\<not> we_follow en \<Longrightarrow> maildir_entry (moved en sc other) left next sc = maildir_entry en left next sc"
  by (simp add: maildir_entry_def fun_eq_iff Let_def cong del: no_weak)

lemma dirs_moved [simp]:
  assumes "\<not> we_follow en"
  shows "maildir_dir (moved en sc other) left next sc = maildir_dir en left next sc"
    "read_maildir (moved en sc other) left next sc = read_maildir en left next sc"
  using assms by (simp_all add: maildir_dir_def read_maildir_def fun_eq_iff Let_def cong del: no_weak)

lemma mbox_messages_moved [simp]: "dk_parse d = dk_parse (we_disk en)
    \<Longrightarrow> mbox_messages (en\<lparr>we_disk := d\<rparr>) folder n ms at_end w = mbox_messages en folder n ms at_end w"
  by (induction en folder n ms at_end w rule: mbox_messages.induct)
    (auto simp: checked_def split: option.split prod.split)

lemma mbox_moved [simp]: "mbox_file (moved en sc other) sc = mbox_file en sc"
  by (simp add: mbox_file_def fun_eq_iff Let_def cong del: no_weak)

lemma sub_moved [simp]:
  assumes "\<not> we_follow en"
  shows "subfolders (moved en sc other) left next sc = subfolders en left next sc"
    "read_sub (moved en sc other) left next sc = read_sub en left next sc"
  using assms by (simp_all add: subfolders_def read_sub_def fun_eq_iff Let_def cong del: no_weak)

lemma entries_moved [simp]:
  assumes "\<not> we_follow en"
  shows "mbox_entry (moved en sc other) left next sc = mbox_entry en left next sc"
    "orphan_container (moved en sc other) left next sc = orphan_container en left next sc"
    "mbox_entries (moved en sc other) left next sc = mbox_entries en left next sc"
    "mbox_dir (moved en sc other) left next sc = mbox_dir en left next sc"
proof -
  show e: "mbox_entry (moved en sc other) left next sc = mbox_entry en left next sc"
    using assms by (simp add: mbox_entry_def fun_eq_iff Let_def cong del: no_weak)
  show o': "orphan_container (moved en sc other) left next sc = orphan_container en left next sc"
    using assms by (simp add: orphan_container_def fun_eq_iff Let_def cong del: no_weak)
  show m: "mbox_entries (moved en sc other) left next sc = mbox_entries en left next sc"
    by (simp add: mbox_entries_def fun_eq_iff e o' cong del: no_weak)
  show "mbox_dir (moved en sc other) left next sc = mbox_dir en left next sc"
    by (simp add: mbox_dir_def fun_eq_iff m cong del: no_weak)
qed

lemma evolution_moved [simp]:
  assumes "\<not> we_follow en"
  shows "maildir_pp_entry (moved en sc other) left next sc = maildir_pp_entry en left next sc"
    "cache_into (moved en sc other) left next sc = cache_into en left next sc"
    "cache_entry (moved en sc other) left next sc = cache_entry en left next sc"
    "cache_children (moved en sc other) left next sc = cache_children en left next sc"
    "cache_folder (moved en sc other) left next sc = cache_folder en left next sc"
proof -
  show "maildir_pp_entry (moved en sc other) left next sc = maildir_pp_entry en left next sc"
    using assms by (simp add: maildir_pp_entry_def fun_eq_iff Let_def cong del: no_weak)
  show i: "cache_into (moved en sc other) left next sc = cache_into en left next sc"
    using assms by (simp add: cache_into_def fun_eq_iff Let_def cong del: no_weak)
  show e: "cache_entry (moved en sc other) left next sc = cache_entry en left next sc"
    using assms by (simp add: cache_entry_def fun_eq_iff Let_def cong del: no_weak)
  show c: "cache_children (moved en sc other) left next sc = cache_children en left next sc"
    by (simp add: cache_children_def fun_eq_iff e cong del: no_weak)
  show "cache_folder (moved en sc other) left next sc = cache_folder en left next sc"
    using assms by (simp add: cache_folder_def fun_eq_iff i c)
qed

lemma place_moved [simp]: "\<not> we_follow en \<Longrightarrow> read_place (moved en sc other) left next p sc = read_place en left next p sc"
  by (simp add: read_place_def fun_eq_iff cong del: no_weak)

subsection \<open>The reader one level down\<close>

text \<open>A reader is only asked to read within the scope it was given.\<close>

definition at_scope :: "scope \<Rightarrow> ('s, 'e) reader option \<Rightarrow> ('s, 'e) reader option" where
  "at_scope sc next = map_option (\<lambda>read p _. read p sc) next"

lemma into_at: "into en left next sc = into en left (at_scope sc next) sc"
  by (cases "next") (simp_all add: into_def at_scope_def fun_eq_iff cong del: no_weak)

lemma maildir_entry_at: "maildir_entry en left next sc = maildir_entry en left (at_scope sc next) sc"
  by (simp add: maildir_entry_def fun_eq_iff into_at [of _ _ "next"] cong del: no_weak)

lemma maildir_dir_at: "maildir_dir en left next sc = maildir_dir en left (at_scope sc next) sc"
  by (simp add: maildir_dir_def fun_eq_iff maildir_entry_at [of _ _ "next"] cong del: no_weak)

lemma read_maildir_at: "read_maildir en left next sc = read_maildir en left (at_scope sc next) sc"
  by (simp add: read_maildir_def fun_eq_iff into_at [of _ _ "next"] cong del: no_weak)

lemma subfolders_at: "subfolders en left next sc = subfolders en left (at_scope sc next) sc"
  by (simp add: subfolders_def fun_eq_iff into_at [of _ _ "next"] cong del: no_weak)

lemma read_sub_at: "read_sub en left next sc = read_sub en left (at_scope sc next) sc"
  by (simp add: read_sub_def fun_eq_iff subfolders_at [of _ _ "next"] cong del: no_weak)

lemma mbox_entry_at: "mbox_entry en left next sc = mbox_entry en left (at_scope sc next) sc"
  by (simp add: mbox_entry_def fun_eq_iff read_sub_at [of _ _ "next"] into_at [of _ _ "next"] cong del: no_weak)

lemma orphan_container_at: "orphan_container en left next sc = orphan_container en left (at_scope sc next) sc"
  by (simp add: orphan_container_def fun_eq_iff read_sub_at [of _ _ "next"] cong del: no_weak)

lemma mbox_entries_at: "mbox_entries en left next sc = mbox_entries en left (at_scope sc next) sc"
  by (simp add: mbox_entries_def fun_eq_iff mbox_entry_at [of _ _ "next"] orphan_container_at [of _ _ "next"] cong del: no_weak)

lemma mbox_dir_at: "mbox_dir en left next sc = mbox_dir en left (at_scope sc next) sc"
  by (simp add: mbox_dir_def fun_eq_iff mbox_entries_at [of _ _ "next"] cong del: no_weak)

lemma maildir_pp_entry_at: "maildir_pp_entry en left next sc = maildir_pp_entry en left (at_scope sc next) sc"
  by (simp add: maildir_pp_entry_def fun_eq_iff into_at [of _ _ "next"] cong del: no_weak)

lemma cache_into_at: "cache_into en left next sc = cache_into en left (at_scope sc next) sc"
  by (simp add: cache_into_def fun_eq_iff into_at [of _ _ "next"] cong del: no_weak)

lemma cache_entry_at: "cache_entry en left next sc = cache_entry en left (at_scope sc next) sc"
  by (simp add: cache_entry_def fun_eq_iff into_at [of _ _ "next"] cong del: no_weak)

lemma cache_children_at: "cache_children en left next sc = cache_children en left (at_scope sc next) sc"
  by (simp add: cache_children_def fun_eq_iff cache_entry_at [of _ _ "next"] cong del: no_weak)

lemma cache_folder_at: "cache_folder en left next sc = cache_folder en left (at_scope sc next) sc"
  by (simp add: cache_folder_def fun_eq_iff read_maildir_at [of _ _ "next"] cache_children_at [of _ _ "next"] cache_into_at [of _ _ "next"] cong del: no_weak)

lemma place_at: "read_place en left next p sc = read_place en left (at_scope sc next) p sc"
  by (simp add: read_place_def fun_eq_iff maildir_dir_at [of _ _ "next"] read_maildir_at [of _ _ "next"]
      mbox_dir_at [of _ _ "next"] cache_children_at [of _ _ "next"] cache_folder_at [of _ _ "next"] cong del: no_weak)

lemma descend_moved:
  assumes "\<not> we_follow en"
  shows "descend (moved en sc other) n p sc = descend en n p sc"
proof (induction n arbitrary: p)
  case (Suc n)
  have "at_scope sc (Some (descend (moved en sc other) n)) = at_scope sc (Some (descend en n))"
    by (simp add: at_scope_def Suc)
  then have "read_place en (Suc n) (Some (descend (moved en sc other) n)) p sc = read_place en (Suc n) (Some (descend en n)) p sc"
    using place_at by metis
  with assms show ?case by simp
qed (use assms in simp)

lemma below_moved:
  assumes "\<not> we_follow en"
  shows "at_scope sc (below (moved en sc other) n) = at_scope sc (below en n)"
  using assms by (cases n) (simp_all add: below_def at_scope_def descend_moved)

subsection \<open>A whole store\<close>

lemma root_moved:
  assumes "\<not> we_follow en"
  shows "walk_root (moved en sc other) k sc w = walk_root en k sc w"
proof -
  let ?n = max_folder_depth and ?b = "below (moved en sc other) max_folder_depth" and ?c = "below en max_folder_depth"
  note b = below_moved [OF assms, of sc other ?n]
  have "read_maildir en ?n ?b sc = read_maildir en ?n ?c sc" "mbox_entries en ?n ?b sc = mbox_entries en ?n ?c sc"
    "maildir_pp_entry en ?n ?b sc = maildir_pp_entry en ?n ?c sc" "cache_into en ?n ?b sc = cache_into en ?n ?c sc"
    using read_maildir_at [of en ?n ?b sc] read_maildir_at [of en ?n ?c sc] mbox_entries_at [of en ?n ?b sc]
      mbox_entries_at [of en ?n ?c sc] maildir_pp_entry_at [of en ?n ?b sc] maildir_pp_entry_at [of en ?n ?c sc]
      cache_into_at [of en ?n ?b sc] cache_into_at [of en ?n ?c sc] by (simp_all only: b)
  with assms show ?thesis by (simp add: walk_root_def Let_def cong del: no_weak)
qed

text \<open>
  C6: without the opt-in nothing outside a mail store is read.  Whatever the disk holds outside the root the
  store was opened on, and whatever a link out of it leads to, the walk ends in the same state: the same
  messages handed over, the same faults, the same files read.
\<close>

theorem a_walk_stays_in_its_store:
  assumes "\<not> we_follow en"
  shows "walk_store (en\<lparr>we_disk := changed_outside (sc_root sc) other (we_disk en)\<rparr>) k sc s = walk_store en k sc s"
proof -
  have d: "drain e w = Some (None, w)" if "lw_pending w = []" for e w using that by (rule drain_none)
  let ?w = "\<lparr>lw_run = s, lw_sink = \<lparr>fs_kept = [], fs_dropped = 0\<rparr>, lw_visited = [], lw_reloc = [], lw_pending = []\<rparr>"
  obtain err w' where r: "walk_root en k sc ?w = (err, w')" by fastforce
  then have "lw_pending w' = []" using store_root assms by fastforce
  then have "drain (moved en sc other) w' = drain en w'" by (simp only: d)
  with assms show ?thesis by (simp add: walk_store_def Let_def root_moved r cong del: no_weak)
qed

theorem a_walk_stays_in_its_store_witness:
  "walk_store ((counting sample_disk False)\<lparr>we_disk := changed_outside ''/store'' looping_disk sample_disk\<rparr>) Mail_dir
     \<lparr>sc_root = ''/store'', sc_prefix = []\<rparr> 0
   = walk_store (counting sample_disk False) Mail_dir \<lparr>sc_root = ''/store'', sc_prefix = []\<rparr> 0"
proof -
  have "\<not> we_follow (counting sample_disk False)" by (simp add: counting_def)
  from a_walk_stays_in_its_store [OF this, of "\<lparr>sc_root = ''/store'', sc_prefix = []\<rparr>" looping_disk Mail_dir 0]
  show ?thesis by (simp add: counting_def)
qed

end
