(* ===== verification/LocalListed.thy ===== *)
theory LocalListed
  imports LocalEnds
begin

text \<open>
  Nothing a maildir holds is passed over without a word: the walk of a directory that could be listed says
  one thing for each entry, in the order of the listing: the entry's own message, or a fault at its own place.
\<close>

subsection \<open>What a walk said\<close>

datatype said = Handed_over "string list" message | Complained fault

text \<open>A walk that writes down what it hands over and what it complains of, and never stops.\<close>

definition listening :: "disk \<Rightarrow> bool \<Rightarrow> (said list, unit) walk_env" where
  "listening d follow = \<lparr>we_disk = d, we_handler = (\<lambda>folder m log. (None, log @ [Handed_over folder m])),
     we_faults = Some (\<lambda>f log. log @ [Complained f]), we_abort = (\<lambda>_. None), we_folder = (\<lambda>_ log. log),
     we_follow = follow\<rparr>"

lemma listening_parts [simp]:
  "we_disk (listening d follow) = d" "we_follow (listening d follow) = follow"
  "we_handler (listening d follow) folder m log = (None, log @ [Handed_over folder m])"
  "we_abort (listening d follow) log = None" "we_folder (listening d follow) folder log = log"
  by (simp_all add: listening_def)

lemma emit_listening [simp]:
  "lw_run (emit (listening d follow) f w) = lw_run w @ [Complained (f\<lparr>ft_detail := fault_detail (ft_detail f)\<rparr>)]"
  by (simp add: emit_def listening_def)

text \<open>What was said stays said, and what a renamed file is looked up in stays sound.\<close>

definition heard :: "said list local_walk \<Rightarrow> said list local_walk \<Rightarrow> bool" where
  "heard w w' \<longleftrightarrow> prefix (lw_run w) (lw_run w') \<and> (reloc_sound (lw_reloc w) \<longrightarrow> reloc_sound (lw_reloc w'))"

lemma emit_reloc [simp]: "lw_reloc (emit en f w) = lw_reloc w"
  by (simp add: emit_def Let_def split: option.split)

interpretation listen: walk_ends "listening d follow" heard for d :: disk and follow :: bool
  by unfold_locales (auto simp: heard_def seen_frame seen_dir_def note_place_def set_aside_def)

subsection \<open>One file of a maildir\<close>

definition maildir_locator :: "string list \<Rightarrow> string \<Rightarrow> string" where
  "maildir_locator folder name = bound_locator (''maildir:'' @ join CHR ''/'' folder @ ''/'' @ maildir_unique name)"

text \<open>
  The file an entry stands for: the one its name led to, or another of the same directory that carries the
  same unique part (a mail client gave it new flags while the run read the directory).
\<close>

definition own_file :: "string \<Rightarrow> string \<Rightarrow> string \<Rightarrow> bool" where
  "own_file led name rel \<longleftrightarrow> rel = led
     \<or> (\<exists>cur. maildir_unique cur = maildir_unique name \<and> rel = rel_join (path_dir led) cur)"

text \<open>
  What answers for an entry \<open>name\<close> of the directory \<open>dir\<close>: the message its own file holds, under the folder
  it was read for and with the entry's own locator, or a fault at that locator, at the entry's place, or at
  its own file, which is not a message file.
\<close>

definition speaks_for :: "disk \<Rightarrow> scope \<Rightarrow> string \<Rightarrow> string \<Rightarrow> string list \<Rightarrow> string \<Rightarrow> said \<Rightarrow> bool" where
  "speaks_for d sc dir led folder name ev = (case ev of
     Handed_over path m \<Rightarrow> path = folder
       \<and> (\<exists>rel data m0 unread. own_file led name rel \<and> dk_read_file d (sc_root sc) rel = Inr data
            \<and> dk_parse d data = Some m0
            \<and> m = m0\<lparr>ms_read_locator := maildir_locator folder name, ms_unread := unread\<rparr>)
   | Complained f \<Rightarrow> ft_folder f = folder
       \<and> (ft_locator f = maildir_locator folder name
          \<or> ft_locator f \<in> {''file:'' @ at_place sc (rel_join dir name), ''folder:'' @ at_place sc (rel_join dir name)}
          \<or> (\<exists>rel. own_file led name rel \<and> ft_reason f = ''not-a-message-file''
               \<and> ft_locator f = ''file:'' @ at_place sc rel)))"

lemma message_listed:
  assumes parser: "\<And>x. dk_parse d x \<noteq> None" and sound: "reloc_sound (lw_reloc w)"
    and read: "maildir_message (listening d follow) sc led name folder w = (err, w')"
  shows "\<exists>ev. lw_run w' = lw_run w @ [ev] \<and> speaks_for d sc dir led folder name ev"
proof -
  let ?en = "listening d follow"
  obtain moved w1 where m: "(if not_exist (dk_read_file d (sc_root sc) led) then relocate ?en sc led name w else (None, w)) = (moved, w1)"
    by fastforce
  obtain rel1 name1 where n: "(case moved of Some m \<Rightarrow> m | None \<Rightarrow> (led, name)) = (rel1, name1)" by fastforce
  have w1: "lw_run w1 = lw_run w"
    using m relocated(1) [of ?en sc led name w moved w1] by (auto split: if_splits)
  have own: "own_file led name rel1"
  proof (cases moved)
    case None
    then show ?thesis using n by (simp add: own_file_def)
  next
    case (Some p)
    then have "relocate ?en sc led name w = (Some (rel1, name1), w1)" using m n by (simp split: if_splits)
    from relocated(2) [OF this refl sound] show ?thesis unfolding own_file_def by blast
  qed
  note h = read [unfolded maildir_message_def Let_def listening_parts m n prod.case, folded maildir_locator_def]
  show ?thesis
  proof (cases "dk_read_file d (sc_root sc) rel1")
    case (Inr data)
    obtain m0 where m0: "dk_parse d data = Some m0" using parser [of data] by auto
    define u where "u = (if header_block_has data ''X-Mozilla-Status'' then ms_unread m0 else \<not> maildir_seen name1)"
    have "lw_run w' = lw_run w @ [Handed_over folder (m0\<lparr>ms_read_locator := maildir_locator folder name, ms_unread := u\<rparr>)]"
      using h Inr m0 w1 by (auto simp: u_def split: if_splits)
    moreover have "speaks_for d sc dir led folder name (Handed_over folder (m0\<lparr>ms_read_locator := maildir_locator folder name, ms_unread := u\<rparr>))"
      using own Inr m0 unfolding speaks_for_def by auto
    ultimately show ?thesis by blast
  next
    case (Inl fault)
    have "\<exists>f. lw_run w' = lw_run w @ [Complained f] \<and> ft_folder f = folder
        \<and> (ft_locator f = maildir_locator folder name
           \<or> ft_reason f = ''not-a-message-file'' \<and> ft_locator f = ''file:'' @ at_place sc rel1)"
    proof (cases fault)
      case (Not_regular words)
      then show ?thesis using h Inl w1
        by (auto simp: refuse_def refusal_def verdict_of_def walk_fault_def gap_scope_item_def gap_scope_folder_def)
    next
      case (Read_failed e)
      then show ?thesis using h Inl w1 by (cases "er_not_exist e") (auto simp: walk_fault_def)
    qed
    then obtain f where f: "lw_run w' = lw_run w @ [Complained f]" "ft_folder f = folder"
      "ft_locator f = maildir_locator folder name
         \<or> ft_reason f = ''not-a-message-file'' \<and> ft_locator f = ''file:'' @ at_place sc rel1" by blast
    have "speaks_for d sc dir led folder name (Complained f)" using f(2,3) own unfolding speaks_for_def by auto
    with f(1) show ?thesis by blast
  qed
qed

subsection \<open>A directory of a maildir\<close>

text \<open>A loop that ran to its end said what its items say, one after the other.\<close>

lemma for_each_says:
  assumes "\<And>x w w'. x \<in> set xs \<Longrightarrow> I w \<Longrightarrow> f x w = (None, w') \<Longrightarrow> I w' \<and> (\<exists>evs. lw_run w' = lw_run w @ evs \<and> P x evs)"
    and "I w" and "for_each f xs w = (None, w')"
  shows "\<exists>said. list_all2 P xs said \<and> lw_run w' = lw_run w @ concat said"
  using assms
proof (induction xs arbitrary: w)
  case (Cons x xs)
  obtain e w1 where s: "f x w = (e, w1)" by fastforce
  then have n: "f x w = (None, w1)" "for_each f xs w1 = (None, w')" using Cons(4) by (auto split: option.splits)
  obtain evs where e: "I w1" "lw_run w1 = lw_run w @ evs" "P x evs" using Cons(2) [OF _ Cons(3) n(1)] by auto
  obtain said where "list_all2 P xs said" "lw_run w' = lw_run w1 @ concat said"
    using Cons(1) [OF _ e(1) n(2)] Cons(2) by auto
  with e show ?case by (intro exI [of _ "evs # said"]) simp
qed simp

text \<open>What is refused is refused by its place.\<close>

lemma refuse_said:
  "\<exists>f. lw_run (refuse (listening d follow) sc rel folder v w) = lw_run w @ [Complained f] \<and> ft_folder f = folder
     \<and> ft_locator f \<in> {''file:'' @ at_place sc rel, ''folder:'' @ at_place sc rel}"
proof -
  obtain reason cls sco where r: "refusal (vd_kind v) = (reason, cls, sco)" by (metis prod_cases3)
  let ?l = "(if sco = gap_scope_folder then ''folder:'' else ''file:'') @ at_place sc rel"
  let ?f = "(walk_fault reason sco cls folder ?l (vd_detail v))\<lparr>ft_detail := fault_detail (vd_detail v)\<rparr>"
  have "lw_run (refuse (listening d follow) sc rel folder v w) = lw_run w @ [Complained ?f]"
    by (simp add: refuse_def r walk_fault_def del: append.simps)
  moreover have "ft_folder ?f = folder \<and> ft_locator ?f \<in> {''file:'' @ at_place sc rel, ''folder:'' @ at_place sc rel}"
    by (simp add: walk_fault_def del: append.simps)
  ultimately show ?thesis by blast
qed

text \<open>What the walk judges an entry to be, and whether it is a folder to be read.\<close>

definition entry_verdict :: "disk \<Rightarrow> bool \<Rightarrow> scope \<Rightarrow> string \<Rightarrow> dir_entry \<Rightarrow> verdict" where
  "entry_verdict d follow sc dir e = judge_entry d follow sc (rel_join dir (de_name e)) (de_mode e) Pos_either"

definition folder_to_read :: "bool \<Rightarrow> verdict \<Rightarrow> bool" where
  "folder_to_read follow v \<longleftrightarrow> vd_kind v = Kind_dir \<or> follow \<and> vd_kind v = Kind_dir_link"

text \<open>
  C4: nothing a maildir holds is passed over without a word.  When a directory of a maildir was read to its
  end, the walk has said, in the order of the listing, exactly one thing for each entry that is not a folder
  to be read (a folder says what its own reading says).  That one thing is the message the entry's own file
  holds, handed over under the folder the directory was read for and with the entry's own locator; or a
  fault at that locator (the file vanished or could not be read), at the entry's place (a link out of the
  store, a folder link not followed, an entry that is no file), or at the entry's own file, when that is not
  a message file.  An entry's own file is the one its name led to, or one of the same directory with the
  same unique part.  Taken for granted: the message parser answers for every text, and the index of renamed
  files the walk carries files each name under its unique part, as it does from the start of a walk.
\<close>

theorem every_maildir_entry_is_answered_for:
  assumes parser: "\<And>x. dk_parse d x \<noteq> None" and sound: "reloc_sound (lw_reloc w)"
    and dir: "dk_read_dir d (sc_root sc) rel = Inr entries"
    and read: "maildir_dir (listening d follow) left (below (listening d follow) left) sc rel folder w = (None, w')"
  shows "\<exists>answers. lw_run w' = lw_run w @ concat answers
    \<and> list_all2 (\<lambda>e evs. folder_to_read follow (entry_verdict d follow sc rel e)
         \<or> (\<exists>ev. evs = [ev] \<and> speaks_for d sc rel (vd_rel (entry_verdict d follow sc rel e)) folder (de_name e) ev)) entries answers"
proof -
  let ?en = "listening d follow" and ?next = "below (listening d follow) left"
  let ?answered = "\<lambda>e evs. folder_to_read follow (entry_verdict d follow sc rel e)
         \<or> (\<exists>ev. evs = [ev] \<and> speaks_for d sc rel (vd_rel (entry_verdict d follow sc rel e)) folder (de_name e) ev)"
  have step: "reloc_sound (lw_reloc b) \<and> (\<exists>evs. lw_run b = lw_run a @ evs \<and> ?answered e evs)"
    if i: "reloc_sound (lw_reloc a)" and m: "maildir_entry ?en left ?next sc rel folder e a = (None, b)" for e a b
  proof -
    define v where "v = entry_verdict d follow sc rel e"
    have "heard a (snd (maildir_entry ?en left ?next sc rel folder e a))"
      by (rule listen.maildir_entry_R [OF listen.below_good])
    then have ab: "heard a b" by (simp add: m)
    note c = m [unfolded maildir_entry_def checked_def listening_parts option.case Let_def entry_verdict_def [symmetric] v_def [symmetric]]
    have refused: "\<exists>evs. lw_run b = lw_run a @ evs \<and> ?answered e evs"
      if b: "b = refuse ?en sc (rel_join rel (de_name e)) folder v a"
    proof -
      obtain f where f: "lw_run b = lw_run a @ [Complained f]" "ft_folder f = folder"
        "ft_locator f \<in> {''file:'' @ at_place sc (rel_join rel (de_name e)), ''folder:'' @ at_place sc (rel_join rel (de_name e))}"
        using refuse_said [of d follow sc "rel_join rel (de_name e)" folder v a] b by blast
      then have "speaks_for d sc rel (vd_rel v) folder (de_name e) (Complained f)" unfolding speaks_for_def said.case by blast
      with f(1) show ?thesis unfolding v_def by blast
    qed
    have message: "\<exists>evs. lw_run b = lw_run a @ evs \<and> ?answered e evs"
      if "maildir_message ?en sc (vd_rel v) (de_name e) folder a = (None, b)"
      using message_listed [OF parser i that] unfolding v_def by blast
    have folder: "\<exists>evs. lw_run b = lw_run a @ evs \<and> ?answered e evs" if "folder_to_read follow v"
      using ab that unfolding v_def heard_def prefix_def by blast
    have "\<exists>evs. lw_run b = lw_run a @ evs \<and> ?answered e evs"
    proof (cases "folder_to_read follow v")
      case False
      then show ?thesis using c refused message
        by (cases "vd_kind v") (auto simp: into_def folder_to_read_def)
    qed (rule folder)
    then show ?thesis using ab i by (simp add: heard_def)
  qed
  have "\<exists>answers. list_all2 ?answered entries answers \<and> lw_run w' = lw_run w @ concat answers"
    by (rule for_each_says [where I = "\<lambda>w. reloc_sound (lw_reloc w)",
          OF _ sound read [unfolded maildir_dir_def listening_parts dir sum.case]]) (rule step)
  then show ?thesis by blast
qed

theorem every_maildir_entry_is_answered_for_witness:
  "\<exists>w ev. maildir_dir (listening sample_disk False) 300 (below (listening sample_disk False) 300)
       \<lparr>sc_root = ''/store'', sc_prefix = []\<rparr> ''cur'' [''Inbox'']
       \<lparr>lw_run = [], lw_sink = \<lparr>fs_kept = [], fs_dropped = 0\<rparr>, lw_visited = [], lw_reloc = [], lw_pending = []\<rparr> = (None, w)
     \<and> lw_run w = [ev]
     \<and> speaks_for sample_disk \<lparr>sc_root = ''/store'', sc_prefix = []\<rparr> ''cur'' ''cur/7:2,S'' [''Inbox''] ''7:2,S'' ev"
proof -
  let ?en = "listening sample_disk False" and ?sc = "\<lparr>sc_root = ''/store'', sc_prefix = []\<rparr>"
  let ?e = "\<lparr>de_name = ''7:2,S'', de_mode = regular_mode\<rparr>"
  let ?w = "\<lparr>lw_run = [], lw_sink = \<lparr>fs_kept = [], fs_dropped = 0\<rparr>, lw_visited = [], lw_reloc = [], lw_pending = []\<rparr>"
  have v: "judge_entry sample_disk False ?sc (rel_join ''cur'' ''7:2,S'') regular_mode Pos_either
      = verdict_of Kind_file ''cur/7:2,S'' []"
    by (simp add: judge_entry_def classify_mode_def regular_mode_def is_regular_def rel_join_def)
  have v': "entry_verdict sample_disk False ?sc ''cur'' ?e = verdict_of Kind_file ''cur/7:2,S'' []"
    by (simp add: entry_verdict_def v)
  have r: "dk_read_file sample_disk ''/store'' ''cur/7:2,S'' = Inr ''x''" "dk_parse sample_disk = (\<lambda>_. Some zero_message)"
    "dk_read_dir sample_disk ''/store'' ''cur'' = Inr [?e]"
    by (simp_all add: sample_disk_def)
  have "maildir_entry ?en 300 (below ?en 300) ?sc ''cur'' [''Inbox''] ?e w
      = maildir_message ?en ?sc ''cur/7:2,S'' ''7:2,S'' [''Inbox''] w" for w
    by (simp add: maildir_entry_def checked_def v [simplified] v verdict_of_def Let_def)
  moreover have "\<exists>w. maildir_message ?en ?sc ''cur/7:2,S'' ''7:2,S'' [''Inbox''] ?w = (None, w)"
    by (simp add: maildir_message_def r not_exist_def Let_def)
  ultimately obtain w where w: "maildir_dir ?en 300 (below ?en 300) ?sc ''cur'' [''Inbox''] ?w = (None, w)"
    by (auto simp: maildir_dir_def r)
  have "\<exists>answers. lw_run w = lw_run ?w @ concat answers
    \<and> list_all2 (\<lambda>e evs. folder_to_read False (entry_verdict sample_disk False ?sc ''cur'' e)
         \<or> (\<exists>ev. evs = [ev] \<and> speaks_for sample_disk ?sc ''cur'' (vd_rel (entry_verdict sample_disk False ?sc ''cur'' e))
              [''Inbox''] (de_name e) ev)) [?e] answers"
    by (rule every_maildir_entry_is_answered_for [OF _ _ _ w]) (simp_all add: r)
  then show ?thesis using w by (auto simp: v' verdict_of_def folder_to_read_def list_all2_Cons1)
qed

end
