(* ===== verification/LocalLinks.thy ===== *)
theory LocalLinks
  imports LocalInside
begin

text \<open>A file link is read through its own target's name, which lies in the store.\<close>


lemma clean_form:
  assumes "list_all (\<lambda>e. CHR ''/'' \<notin> set e) es" "list_all (\<lambda>g. g \<notin> {[], ''.'', ''..''} \<and> CHR ''/'' \<notin> set g) gs"
  shows "\<exists>n' gs'. fold (clean_step False) es (replicate n ''..'' @ gs) = replicate n' ''..'' @ gs'
    \<and> list_all (\<lambda>g. g \<notin> {[], ''.'', ''..''} \<and> CHR ''/'' \<notin> set g) gs'"
  using assms
proof (induction es arbitrary: n gs)
  case (Cons e es)
  have "\<exists>n1 gs1. clean_step False e (replicate n ''..'' @ gs) = replicate n1 ''..'' @ gs1
    \<and> list_all (\<lambda>g. g \<notin> {[], ''.'', ''..''} \<and> CHR ''/'' \<notin> set g) gs1"
  proof (cases "e = ''..''")
    case True
    show ?thesis
    proof (cases gs rule: rev_cases)
      case Nil
      have "clean_step False e (replicate n ''..'' @ gs) = replicate (Suc n) ''..'' @ []"
        using True Nil by (cases n) (simp_all add: clean_step_def replicate_append_same)
      then show ?thesis by (intro exI [of _ "Suc n"] exI [of _ "[]"]) simp
    next
      case (snoc gs0 g)
      then have "clean_step False e (replicate n ''..'' @ gs) = replicate n ''..'' @ gs0"
        using True Cons.prems by (simp add: clean_step_def butlast_append)
      moreover have "list_all (\<lambda>g. g \<notin> {[], ''.'', ''..''} \<and> CHR ''/'' \<notin> set g) gs0"
        using snoc Cons.prems by simp
      ultimately show ?thesis by blast
    qed
  next
    case False
    then have "clean_step False e (replicate n ''..'' @ gs) = replicate n ''..'' @ (if e = [] \<or> e = ''.'' then gs else gs @ [e])"
      by (simp add: clean_step_def)
    moreover have "list_all (\<lambda>g. g \<notin> {[], ''.'', ''..''} \<and> CHR ''/'' \<notin> set g) (if e = [] \<or> e = ''.'' then gs else gs @ [e])"
      using False Cons.prems by simp
    ultimately show ?thesis by blast
  qed
  then obtain n1 gs1 where 1: "clean_step False e (replicate n ''..'' @ gs) = replicate n1 ''..'' @ gs1"
    "list_all (\<lambda>g. g \<notin> {[], ''.'', ''..''} \<and> CHR ''/'' \<notin> set g) gs1" by blast
  show ?case using Cons.IH [OF _ 1(2), of n1] Cons.prems by (simp add: 1(1))
qed auto

lemma split_join:
  "gs \<noteq> [] \<Longrightarrow> list_all (\<lambda>g. CHR ''/'' \<notin> set g) gs \<Longrightarrow> split_on CHR ''/'' (join CHR ''/'' gs) = gs"
  by (induction gs rule: induct_list012) simp_all

lemma clean_relative:
  assumes "\<not> has_prefix p ''/''"
  obtains n gs where "go_clean p = (if replicate n ''..'' @ gs = [] then ''.'' else join CHR ''/'' (replicate n ''..'' @ gs))"
    "list_all (\<lambda>g. g \<notin> {[], ''.'', ''..''} \<and> CHR ''/'' \<notin> set g) gs"
proof (cases "p = []")
  case True
  then show ?thesis using that [of 0 "[]"] by (simp add: go_clean_def)
next
  case False
  have "list_all (\<lambda>e. CHR ''/'' \<notin> set e) (split_on CHR ''/'' p)"
    using split_on_parts_notin by (auto simp: list_all_iff)
  from clean_form [OF this, of "[]" 0] obtain n gs where
    f: "fold (clean_step False) (split_on CHR ''/'' p) [] = replicate n ''..'' @ gs"
    and g: "list_all (\<lambda>g. g \<notin> {[], ''.'', ''..''} \<and> CHR ''/'' \<notin> set g) gs" by auto
  have "go_clean p = (if replicate n ''..'' @ gs = [] then ''.'' else join CHR ''/'' (replicate n ''..'' @ gs))"
    using False assms by (simp add: go_clean_def Let_def f del: replicate.simps)
  with g show ?thesis by (rule that [rotated])
qed

lemma clean_stays_relative:
  assumes "\<not> has_prefix p ''/''"
  shows "\<not> has_prefix (go_clean p) ''/''" "go_clean p \<noteq> []"
proof -
  obtain n gs where c: "go_clean p = (if replicate n ''..'' @ gs = [] then ''.'' else join CHR ''/'' (replicate n ''..'' @ gs))"
    and g: "list_all (\<lambda>g. g \<notin> {[], ''.'', ''..''} \<and> CHR ''/'' \<notin> set g) gs" using clean_relative [OF assms] .
  have j: "\<not> has_prefix (join CHR ''/'' es) ''/'' \<and> join CHR ''/'' es \<noteq> []"
    if ne: "es \<noteq> []" and all: "list_all (\<lambda>e. e \<noteq> [] \<and> CHR ''/'' \<notin> set e) es" for es
  proof -
    obtain x e es' where es: "es = (x # e) # es'" "x \<noteq> CHR ''/''"
      using ne all by (cases es; cases "hd es") auto
    then have "\<exists>r. join CHR ''/'' es = x # r" by (cases es') simp_all
    with es(2) show ?thesis by (auto simp: has_prefix_def)
  qed
  have "list_all (\<lambda>e. e \<noteq> [] \<and> CHR ''/'' \<notin> set e) (replicate n ''..'')" by (induction n) simp_all
  moreover have "list_all (\<lambda>e. e \<noteq> [] \<and> CHR ''/'' \<notin> set e) gs" using g by (rule list.pred_mono_strong) simp
  ultimately have l: "list_all (\<lambda>e. e \<noteq> [] \<and> CHR ''/'' \<notin> set e) (replicate n ''..'' @ gs)"
    unfolding list_all_append by blast
  have "\<not> has_prefix (go_clean p) ''/'' \<and> go_clean p \<noteq> []"
  proof (cases "replicate n ''..'' @ gs = []")
    case True
    then show ?thesis unfolding c by (simp add: has_prefix_def)
  next
    case False
    show ?thesis unfolding c if_not_P [OF False] by (rule j [OF False l])
  qed
  then show "\<not> has_prefix (go_clean p) ''/''" "go_clean p \<noteq> []" by blast+
qed

lemma lexical_inside:
  assumes "lexical_link d rel target = Some r" and "\<not> has_prefix rel ''/''"
  shows "\<not> has_prefix r ''/'' \<and> ''..'' \<notin> set (split_on CHR ''/'' r)"
proof -
  define t where "t = map (\<lambda>c. if c = CHR 0x5C then CHR ''/'' else c) target"
  let ?j = "path_dir rel @ ''/'' @ t"
  have r: "r = go_clean ?j" "r \<noteq> ''..''" "\<not> has_prefix r ''../''"
    using assms(1) by (auto simp: lexical_link_def Let_def t_def split: if_splits)
  have "\<not> has_prefix (rev (dropWhile (\<lambda>c. c \<noteq> CHR ''/'') (rev rel))) ''/''"
  proof
    assume "has_prefix (rev (dropWhile (\<lambda>c. c \<noteq> CHR ''/'') (rev rel))) ''/''"
    moreover have "rel = rev (dropWhile (\<lambda>c. c \<noteq> CHR ''/'') (rev rel)) @ rev (takeWhile (\<lambda>c. c \<noteq> CHR ''/'') (rev rel))"
      by (metis rev_append rev_rev_ident takeWhile_dropWhile_id)
    ultimately show False using assms(2) by (metis has_prefix_def prefix_prefix)
  qed
  from clean_stays_relative [OF this] have d: "\<not> has_prefix (path_dir rel) ''/''" "path_dir rel \<noteq> []"
    by (simp_all add: path_dir_def)
  then have j: "\<not> has_prefix ?j ''/''" by (cases "path_dir rel") (auto simp: has_prefix_def)
  obtain n gs where c: "r = (if replicate n ''..'' @ gs = [] then ''.'' else join CHR ''/'' (replicate n ''..'' @ gs))"
    and g: "list_all (\<lambda>g. g \<notin> {[], ''.'', ''..''} \<and> CHR ''/'' \<notin> set g) gs"
    using clean_relative [OF j] unfolding r(1) [symmetric] .
  have n: "n = 0"
  proof (cases n)
    case (Suc m)
    then have "r = join CHR ''/'' (''..'' # replicate m ''..'' @ gs)" using c by simp
    then have "r = ''..'' \<or> has_prefix r ''../''"
      by (cases "replicate m ''..'' @ gs") (auto simp: has_prefix_def)
    with r(2,3) show ?thesis by blast
  qed
  have "''..'' \<notin> set (split_on CHR ''/'' r)"
  proof (cases "gs = []")
    case True
    then show ?thesis using c n by simp
  next
    case False
    have "list_all (\<lambda>g. CHR ''/'' \<notin> set g) gs" using g by (auto simp: list_all_iff)
    from split_join [OF False this] show ?thesis using c n g False by (auto simp: list_all_iff)
  qed
  with clean_stays_relative(1) [OF j] show ?thesis by (simp add: r(1))
qed

text \<open>
  C8: a link to a file is followed only inside the store.  Whatever a link says and with the opt-in or
  without, an entry that is a link is read only through a name that is relative, climbs nowhere and, by its
  own lstat in the store's root, is a regular file; every other link to a file is refused.
\<close>

theorem links_are_read_inside_the_store:
  assumes "vd_kind (judge_entry d follow sc rel m pos) \<in> {Kind_file, Kind_file_link, Kind_placeholder}"
    and "fm_symlink m" and "\<not> has_prefix rel ''/''"
  shows "\<not> has_prefix (vd_rel (judge_entry d follow sc rel m pos)) ''/''
    \<and> ''..'' \<notin> set (split_on CHR ''/'' (vd_rel (judge_entry d follow sc rel m pos)))
    \<and> (\<exists>fi. dk_lstat d (sc_root sc) (vd_rel (judge_entry d follow sc rel m pos)) = Inr fi \<and> is_regular (fi_mode fi))"
proof -
  have "\<exists>target inside fi. lexical_link d rel target = Some inside \<and> dk_lstat d (sc_root sc) inside = Inr fi
      \<and> is_regular (fi_mode fi) \<and> judge_entry d follow sc rel m pos = verdict_of Kind_file_link inside []"
    using assms(1,2)
    by (auto simp: judge_entry_def judge_link_def verdict_of_def unreachable_link_def refused_link_kind_def Let_def
        split: sum.splits option.splits if_splits)
  then obtain target inside fi where "lexical_link d rel target = Some inside" "dk_lstat d (sc_root sc) inside = Inr fi"
    "is_regular (fi_mode fi)" and v: "judge_entry d follow sc rel m pos = verdict_of Kind_file_link inside []" by blast
  then show ?thesis using lexical_inside [OF _ assms(3)] unfolding v by (simp add: verdict_of_def)
qed

theorem links_are_read_inside_the_store_witness:
  "''..'' \<notin> set (split_on CHR ''/'' ''x/b'') \<and> judge_entry (sample_disk\<lparr>dk_readlink := (\<lambda>_ _. Inr ''../x/./b''),
      dk_lstat := (\<lambda>_ _. Inr \<lparr>fi_mode = regular_mode, fi_id = 3\<rparr>)\<rparr>) False \<lparr>sc_root = ''/store'', sc_prefix = []\<rparr>
      ''cur/a'' (regular_mode\<lparr>fm_symlink := True\<rparr>) Pos_either = verdict_of Kind_file_link ''x/b'' []"
proof -
  let ?d = "sample_disk\<lparr>dk_readlink := (\<lambda>_ _. Inr ''../x/./b''), dk_lstat := (\<lambda>_ _. Inr \<lparr>fi_mode = regular_mode, fi_id = 3\<rparr>)\<rparr>"
  let ?v = "judge_entry ?d False \<lparr>sc_root = ''/store'', sc_prefix = []\<rparr> ''cur/a'' (regular_mode\<lparr>fm_symlink := True\<rparr>) Pos_either"
  have v: "?v = verdict_of Kind_file_link ''x/b'' []"
    by (simp add: judge_entry_def judge_link_def Let_def lexical_link_def sample_disk_def regular_mode_def is_regular_def
        path_dir_def go_clean_def clean_step_def has_prefix_def)
  have "vd_kind ?v \<in> {Kind_file, Kind_file_link, Kind_placeholder}" unfolding v by (simp add: verdict_of_def)
  from links_are_read_inside_the_store [OF this] show ?thesis
    unfolding v by (simp add: has_prefix_def verdict_of_def)
qed

end
