(* ===== verification/VaultSeal.thy ===== *)
theory VaultSeal
  imports Hash Interfaces
begin

text \<open>
  The sealing layer of an encrypted archive (\<^verbatim>\<open>internal/vault/aead.go\<close>): the associated data that
  names the place of every sealed byte, the key hierarchy and the keyed names and buckets.
  XChaCha20-Poly1305 is a parameter, a \<open>cipher\<close>; HMAC and HKDF are the standard library's, over the
  SHA-256 of this development.  Random bytes are drawn from a supply that may run dry.
\<close>

subsection \<open>A step that may fail\<close>

definition on_ok :: "'e + 'a \<Rightarrow> ('a \<Rightarrow> 'e + 'b) \<Rightarrow> 'e + 'b" where
  "on_ok x f = (case x of Inl e \<Rightarrow> Inl e | Inr a \<Rightarrow> f a)"

lemma on_ok_simps [simp]: "on_ok (Inr a) f = f a" "on_ok (Inl e) f = Inl e"
  by (simp_all add: on_ok_def)

lemma on_ok_Inr [simp]: "on_ok x f = Inr y \<longleftrightarrow> (\<exists>a. x = Inr a \<and> f a = Inr y)"
  by (cases x) simp_all

subsection \<open>Fixed-width integers in big-endian order\<close>

primrec be :: "nat \<Rightarrow> nat \<Rightarrow> string" where
  "be 0 x = []"
| "be (Suc n) x = be n (x div 256) @ [char_of (x mod 256)]"

definition from_be :: "string \<Rightarrow> nat" where
  "from_be s = fold (\<lambda>c n. 256 * n + of_char c) s 0"

lemma length_be [simp]: "length (be n x) = n"
  by (induction n arbitrary: x) simp_all

lemma be_inj: "x < 256 ^ n \<Longrightarrow> y < 256 ^ n \<Longrightarrow> be n x = be n y \<Longrightarrow> x = y"
proof (induction n arbitrary: x y)
  case (Suc n)
  from Suc.prems have d: "be n (x div 256) = be n (y div 256)"
    and m: "char_of (x mod 256) = (char_of (y mod 256) :: char)" by simp_all
  have "x div 256 < 256 ^ n" "y div 256 < 256 ^ n" using Suc.prems(1,2) by (simp_all add: less_mult_imp_div_less mult.commute)
  from Suc.IH [OF this d] have "x div 256 = y div 256" .
  moreover have "x mod 256 = y mod 256"
    using arg_cong [OF m, of "of_char :: char \<Rightarrow> nat"] by simp
  ultimately show ?case by (metis div_mult_mod_eq)
qed simp

definition be_word :: "'a :: len word \<Rightarrow> string" where
  "be_word w = be (LENGTH('a) div 8) (unat w)"

lemma be_word_inj:
  fixes v w :: "'a :: len word"
  assumes "be_word v = be_word w" and "8 dvd LENGTH('a)"
  shows "v = w"
proof -
  have "256 ^ (LENGTH('a) div 8) = (2 :: nat) ^ (8 * (LENGTH('a) div 8))" by (simp add: power_mult)
  then have "256 ^ (LENGTH('a) div 8) = (2 :: nat) ^ LENGTH('a)" using assms(2) by simp
  then have "unat v < 256 ^ (LENGTH('a) div 8)" "unat w < 256 ^ (LENGTH('a) div 8)"
    using unsigned_less [of v, where 'a = nat] unsigned_less [of w, where 'a = nat] by simp_all
  with assms(1) show ?thesis unfolding be_word_def using be_inj word_unat_eq_iff by blast
qed

lemma from_be_snoc: "from_be (s @ [c]) = 256 * from_be s + of_char c"
  by (simp add: from_be_def)

lemma from_be_be: "from_be (be n x) = x mod 256 ^ n"
proof (induction n arbitrary: x)
  case 0
  then show ?case by (simp add: from_be_def)
next
  case (Suc n)
  have "from_be (be (Suc n) x) = 256 * (x div 256 mod 256 ^ n) + x mod 256" by (simp add: from_be_snoc Suc)
  also have "\<dots> = x mod 256 ^ Suc n" by (simp add: mod_mult2_eq)
  finally show ?case .
qed

lemma be_from_be: "be (length s) (from_be s) = s"
  by (induction s rule: rev_induct) (simp_all add: from_be_snoc)

lemma from_be_less: "from_be s < 256 ^ length s"
proof (induction s rule: rev_induct)
  case (snoc c s)
  have "of_char c < (256 :: nat)" by simp
  with snoc have "Suc (from_be s) \<le> 256 ^ length s" "of_char c < (256 :: nat)" by simp_all
  have "256 * from_be s + of_char c < 256 * Suc (from_be s)" using \<open>of_char c < 256\<close> by simp
  also have "\<dots> \<le> 256 * 256 ^ length s" using \<open>Suc (from_be s) \<le> 256 ^ length s\<close> by (rule mult_le_mono2)
  finally show ?case by (simp add: from_be_snoc)
qed (simp add: from_be_def)

subsection \<open>HMAC-SHA256 and HKDF-SHA256\<close>

definition hmac_block :: "string \<Rightarrow> string" where
  "hmac_block key = (let k = if 64 < length key then sha256 key else key in k @ replicate (64 - length k) (CHR 0x00))"

definition xor_pad :: "8 word \<Rightarrow> string \<Rightarrow> string" where
  "xor_pad p s = map (\<lambda>c. char_of (unat (word_of_nat (of_char c) XOR p))) s"

definition hmac256 :: "string \<Rightarrow> string \<Rightarrow> string" where
  "hmac256 key msg = sha256 (xor_pad 0x5c (hmac_block key) @ sha256 (xor_pad 0x36 (hmac_block key) @ msg))"

definition hkdf256 :: "string \<Rightarrow> string \<Rightarrow> string" where
  "hkdf256 secret info = hmac256 (hmac256 (replicate 32 (CHR 0x00)) secret) (info @ [CHR 0x01])"

lemma length_hmac [simp]: "length (hmac256 k m) = 32" "length (hkdf256 s i) = 32"
  by (simp_all add: hmac256_def hkdf256_def)

subsection \<open>The place of sealed bytes\<close>

type_synonym archive_id = string

definition format_version :: "16 word" where "format_version = 1"
definition key_size :: nat where "key_size = 32"
definition nonce_size :: nat where "nonce_size = 24"
definition seal_overhead :: nat where "seal_overhead = 16"
definition max_unit_id_len :: nat where "max_unit_id_len = 65535"
definition id_size :: nat where "id_size = 16"

datatype vault_error = Auth | Unit_kind_unknown | Container_kind_unknown | Unit_id_length | Key_destroyed
  | Bucket_invalid | No_random | Key_length | Wrong_secret | Tampered | Newer_vault | Corrupt | Params_refused
  | Salt_length | Weak_password | Recovery_format | Recovery_check | No_vault | Vault_exists | Conflict | Partially_saved
  | Pending_used | Archive_absent | Lock_refused | Lock_lost | Write_failed | Cost_refused "32 word" "32 word" "8 word"
  | Read_fault | Generation_not_raised | Clean_up_failed | Index_panic | Recovery_file_bad | Key_file_opens
  | Not_proven | Clock_wrong | Key_file_unreadable | Unconfirmed | Key_not_retrievable | Vault_missing
  | Store_inside_archive | Store_fault

definition unit_kind_known :: "8 word \<Rightarrow> bool" where
  "unit_kind_known kind \<longleftrightarrow> kind \<in> {1, 2, 3}"

definition container_kind_known :: "8 word \<Rightarrow> bool" where
  "container_kind_known kind \<longleftrightarrow> kind \<in> {1, 2, 3}"

definition container_manifest :: "8 word" where "container_manifest = 1"
definition container_index :: "8 word" where "container_index = 2"
definition container_history :: "8 word" where "container_history = 3"

definition encrypted_manifest_version :: int where "encrypted_manifest_version = 100"

datatype wrap_kind = Entry_password | Entry_recovery

definition entry_byte :: "wrap_kind \<Rightarrow> 8 word" where
  "entry_byte k = (case k of Entry_password \<Rightarrow> 1 | Entry_recovery \<Rightarrow> 2)"

definition aad_prefix :: "string \<Rightarrow> archive_id \<Rightarrow> string" where
  "aad_prefix tag aid = tag @ be_word format_version @ aid"

definition unit_aad :: "archive_id \<Rightarrow> 8 word \<Rightarrow> string \<Rightarrow> vault_error + string" where
  "unit_aad aid kind uid =
     (if \<not> unit_kind_known kind then Inl Unit_kind_unknown
      else if uid = [] \<or> max_unit_id_len < length uid then Inl Unit_id_length
      else Inr (aad_prefix ''MAU1'' aid @ be_word kind @ be_word (word_of_nat (length uid) :: 16 word) @ uid))"

definition chunk_aad :: "archive_id \<Rightarrow> 8 word \<Rightarrow> 64 word \<Rightarrow> 32 word \<Rightarrow> string" where
  "chunk_aad aid kind gen index = aad_prefix ''MAC1'' aid @ be_word kind @ be_word gen @ be_word index"

definition pointer_aad :: "archive_id \<Rightarrow> 8 word \<Rightarrow> 64 word \<Rightarrow> string" where
  "pointer_aad aid kind gen = aad_prefix ''MAP1'' aid @ be_word kind @ be_word gen"

definition wrap_aad :: "archive_id \<Rightarrow> wrap_kind \<Rightarrow> string" where
  "wrap_aad aid kind = aad_prefix ''MAW1'' aid @ be_word (entry_byte kind)"

subsection \<open>Sealing\<close>

record cipher =
  cx_seal :: "string \<Rightarrow> string \<Rightarrow> string \<Rightarrow> string \<Rightarrow> string"
  cx_open :: "string \<Rightarrow> string \<Rightarrow> string \<Rightarrow> string \<Rightarrow> string option"

text \<open>\<^verbatim>\<open>io.ReadFull\<close> of the random source: all the bytes asked for, or an error.\<close>

definition draw :: "nat \<Rightarrow> string \<Rightarrow> vault_error + string \<times> string" where
  "draw n r = (if length r < n then Inl No_random else Inr (take n r, drop n r))"

definition seal :: "cipher \<Rightarrow> string \<Rightarrow> string \<Rightarrow> string \<Rightarrow> string \<Rightarrow> vault_error + string \<times> string" where
  "seal C key aad plain r =
     (if length key \<noteq> key_size then Inl Key_length
      else case draw nonce_size r of
        Inl e \<Rightarrow> Inl e
      | Inr (nonce, r) \<Rightarrow> Inr (nonce @ cx_seal C key nonce aad plain, r))"

definition open_sealed :: "cipher \<Rightarrow> string \<Rightarrow> string \<Rightarrow> string \<Rightarrow> vault_error + string" where
  "open_sealed C key aad sealed =
     (if length sealed < nonce_size + seal_overhead then Inl Auth
      else if length key \<noteq> key_size then Inl Key_length
      else case cx_open C key (take nonce_size sealed) aad (drop nonce_size sealed) of
        None \<Rightarrow> Inl Auth
      | Some plain \<Rightarrow> Inr plain)"

subsection \<open>A key\<close>

record vault_key =
  vk_id :: archive_id
  vk_master :: string
  vk_data :: string
  vk_mac :: string
  vk_names :: string
  vk_buckets :: string
  vk_live :: bool

definition info_data :: string where "info_data = ''mailarchive data v1''"
definition info_mac :: string where "info_mac = ''mailarchive vault header v1''"
definition info_names :: string where "info_names = ''mailarchive unit names v1''"
definition info_buckets :: string where "info_buckets = ''mailarchive manifest buckets v1''"

definition new_vault_key :: "archive_id \<Rightarrow> string \<Rightarrow> vault_error + vault_key" where
  "new_vault_key aid master =
     (if length master \<noteq> key_size then Inl Key_length
      else Inr \<lparr>vk_id = aid, vk_master = master, vk_data = hkdf256 master info_data, vk_mac = hkdf256 master info_mac,
        vk_names = hkdf256 master info_names, vk_buckets = hkdf256 master info_buckets, vk_live = True\<rparr>)"

definition destroy_key :: "vault_key \<Rightarrow> vault_key" where
  "destroy_key k = (let zero = replicate key_size (CHR 0x00)
     in k\<lparr>vk_master := zero, vk_data := zero, vk_mac := zero, vk_names := zero, vk_buckets := zero, vk_live := False\<rparr>)"

text \<open>A use of a key, which a nil, zero or destroyed key refuses.\<close>

definition with_key :: "vault_key option \<Rightarrow> (vault_key \<Rightarrow> vault_error + 'a) \<Rightarrow> vault_error + 'a" where
  "with_key k f = (case k of None \<Rightarrow> Inl Key_destroyed | Some k \<Rightarrow> if vk_live k then f k else Inl Key_destroyed)"

definition unit_name_len :: nat where "unit_name_len = 32"

definition unit_name :: "vault_key option \<Rightarrow> 8 word \<Rightarrow> string \<Rightarrow> vault_error + string" where
  "unit_name k kind ref = with_key k (\<lambda>k.
     if \<not> unit_kind_known kind then Inl Unit_kind_unknown
     else if ref = [] \<or> max_unit_id_len < length ref then Inl Unit_id_length
     else Inr (take unit_name_len (hex_encode (hmac256 (vk_names k) (ref @ be_word kind)))))"

definition seal_unit :: "cipher \<Rightarrow> vault_key option \<Rightarrow> 8 word \<Rightarrow> string \<Rightarrow> string \<Rightarrow> string \<Rightarrow> vault_error + string \<times> string" where
  "seal_unit C k kind uid plain r = with_key k (\<lambda>k. case unit_aad (vk_id k) kind uid of
     Inl e \<Rightarrow> Inl e | Inr aad \<Rightarrow> seal C (vk_data k) aad plain r)"

definition open_unit :: "cipher \<Rightarrow> vault_key option \<Rightarrow> 8 word \<Rightarrow> string \<Rightarrow> string \<Rightarrow> vault_error + string" where
  "open_unit C k kind uid sealed = with_key k (\<lambda>k. case unit_aad (vk_id k) kind uid of
     Inl e \<Rightarrow> Inl e | Inr aad \<Rightarrow> open_sealed C (vk_data k) aad sealed)"

definition container_use :: "vault_key option \<Rightarrow> 8 word \<Rightarrow> (vault_key \<Rightarrow> vault_error + 'a) \<Rightarrow> vault_error + 'a" where
  "container_use k kind f = with_key k (\<lambda>k. if container_kind_known kind then f k else Inl Container_kind_unknown)"

definition seal_chunk ::
  "cipher \<Rightarrow> vault_key option \<Rightarrow> 8 word \<Rightarrow> 64 word \<Rightarrow> 32 word \<Rightarrow> string \<Rightarrow> string \<Rightarrow> vault_error + string \<times> string" where
  "seal_chunk C k kind gen index plain r =
     container_use k kind (\<lambda>k. seal C (vk_data k) (chunk_aad (vk_id k) kind gen index) plain r)"

definition open_chunk :: "cipher \<Rightarrow> vault_key option \<Rightarrow> 8 word \<Rightarrow> 64 word \<Rightarrow> 32 word \<Rightarrow> string \<Rightarrow> vault_error + string" where
  "open_chunk C k kind gen index sealed =
     container_use k kind (\<lambda>k. open_sealed C (vk_data k) (chunk_aad (vk_id k) kind gen index) sealed)"

definition seal_pointer :: "cipher \<Rightarrow> vault_key option \<Rightarrow> 8 word \<Rightarrow> 64 word \<Rightarrow> string \<Rightarrow> string \<Rightarrow> vault_error + string \<times> string" where
  "seal_pointer C k kind gen plain r =
     container_use k kind (\<lambda>k. seal C (vk_data k) (pointer_aad (vk_id k) kind gen) plain r)"

definition open_pointer :: "cipher \<Rightarrow> vault_key option \<Rightarrow> 8 word \<Rightarrow> 64 word \<Rightarrow> string \<Rightarrow> vault_error + string" where
  "open_pointer C k kind gen sealed =
     container_use k kind (\<lambda>k. open_sealed C (vk_data k) (pointer_aad (vk_id k) kind gen) sealed)"

definition min_buckets :: "32 word" where "min_buckets = 16"
definition max_buckets :: "32 word" where "max_buckets = 2 ^ 24"

definition bucket :: "vault_key option \<Rightarrow> string \<Rightarrow> 32 word \<Rightarrow> vault_error + 32 word" where
  "bucket k record_key n = with_key k (\<lambda>k.
     if n < min_buckets \<or> max_buckets < n \<or> n AND (n - 1) \<noteq> 0 then Inl Bucket_invalid
     else if record_key = [] then Inl Bucket_invalid
     else Inr (word_of_nat (from_be (take 8 (hmac256 (vk_buckets k) record_key)) mod unat n)))"

end
