(* ===== verification/VaultPlaces.thy ===== *)
theory VaultPlaces
  imports VaultSeal
begin

text \<open>
  Sealed bytes open only where they were sealed: the associated data of two places differ, and what is
  sealed for a place opens there.
\<close>

subsection \<open>The places\<close>

text \<open>Where bytes may be sealed, and whether the format has such a place.\<close>

datatype seal_place = In_unit archive_id "8 word" string | In_chunk archive_id "8 word" "64 word" "32 word"
  | In_pointer archive_id "8 word" "64 word" | In_entry archive_id wrap_kind

fun place_ok :: "seal_place \<Rightarrow> bool" where
  "place_ok (In_unit aid kind uid) \<longleftrightarrow> length aid = id_size \<and> unit_kind_known kind \<and> uid \<noteq> [] \<and> length uid \<le> max_unit_id_len"
| "place_ok (In_chunk aid kind gen index) \<longleftrightarrow> length aid = id_size \<and> container_kind_known kind"
| "place_ok (In_pointer aid kind gen) \<longleftrightarrow> length aid = id_size \<and> container_kind_known kind"
| "place_ok (In_entry aid kind) \<longleftrightarrow> length aid = id_size"

fun place_aad :: "seal_place \<Rightarrow> vault_error + string" where
  "place_aad (In_unit aid kind uid) = unit_aad aid kind uid"
| "place_aad (In_chunk aid kind gen index) = Inr (chunk_aad aid kind gen index)"
| "place_aad (In_pointer aid kind gen) = Inr (pointer_aad aid kind gen)"
| "place_aad (In_entry aid kind) = Inr (wrap_aad aid kind)"

lemma be_lengths [simp]:
  "length (be_word (w :: 8 word)) = 1" "length (be_word (x :: 16 word)) = 2"
  "length (be_word (y :: 32 word)) = 4" "length (be_word (z :: 64 word)) = 8"
  by (simp_all add: be_word_def)

lemma be_words_eq [simp]:
  "be_word v = be_word w \<longleftrightarrow> v = w" if "8 dvd LENGTH('a)" for v w :: "'a :: len word"
  using that be_word_inj by blast

lemma prefix_eq:
  assumes "length t = 4" "length t' = 4" "length aid = length aid'"
  shows "aad_prefix t aid @ r = aad_prefix t' aid' @ r' \<longleftrightarrow> t = t' \<and> aid = aid' \<and> r = r'"
  using assms by (auto simp: aad_prefix_def)

lemma prefix_same: "aad_prefix t aid = aad_prefix t aid' \<longleftrightarrow> aid = aid'"
  by (simp add: aad_prefix_def)

lemma place_aad_inj:
  assumes "place_ok p" "place_ok q" "place_aad p = place_aad q"
  shows "p = q"
proof -
  note d = unit_aad_def chunk_aad_def pointer_aad_def wrap_aad_def
  have k: "entry_byte a = entry_byte b \<longleftrightarrow> a = b" for a b by (cases a; cases b) (simp_all add: entry_byte_def)
  show ?thesis
    using assms by (cases p; cases q) (auto simp: d prefix_eq prefix_same k split: if_splits)
qed

subsection \<open>What the cipher promises\<close>

text \<open>
  XChaCha20-Poly1305 as it is documented: what was sealed opens to what went in, and sealed bytes do not
  open under other associated data.
\<close>

definition authentic_cipher :: "cipher \<Rightarrow> bool" where
  "authentic_cipher C \<longleftrightarrow>
     (\<forall>key n a p. cx_open C key n a (cx_seal C key n a p) = Some p \<and> seal_overhead \<le> length (cx_seal C key n a p))
   \<and> (\<forall>key key' n a a' p. a \<noteq> a' \<longrightarrow> cx_open C key' n a' (cx_seal C key n a p) = None)"

lemma draw_some: "draw n r = Inr (x, r') \<Longrightarrow> length x = n \<and> r = x @ r'"
  by (auto simp: draw_def split: if_splits)

lemma sealed_shape:
  assumes "seal C key aad plain r = Inr (bytes, r')"
  obtains nonce where "length nonce = nonce_size" "bytes = nonce @ cx_seal C key nonce aad plain" "length key = key_size"
    "r = nonce @ r'"
  using assms by (auto simp: seal_def dest!: draw_some split: if_splits sum.splits prod.splits)

lemma open_seal:
  assumes "authentic_cipher C" "seal C key aad plain r = Inr (bytes, r')"
  shows "open_sealed C key aad bytes = Inr plain"
  using assms(2)
proof (rule sealed_shape)
  fix nonce
  assume n: "length nonce = nonce_size" "bytes = nonce @ cx_seal C key nonce aad plain" "length key = key_size"
  have "cx_open C key nonce aad (cx_seal C key nonce aad plain) = Some plain"
    "seal_overhead \<le> length (cx_seal C key nonce aad plain)"
    using assms(1) by (simp_all add: authentic_cipher_def)
  with n show ?thesis by (simp add: open_sealed_def)
qed

lemma open_elsewhere:
  assumes "authentic_cipher C" "seal C key aad plain r = Inr (bytes, r')" "aad' \<noteq> aad"
  shows "open_sealed C key' aad' bytes \<noteq> Inr x"
  using assms(2)
proof (rule sealed_shape)
  fix nonce
  assume n: "length nonce = nonce_size" "bytes = nonce @ cx_seal C key nonce aad plain"
  have "cx_open C key' nonce aad' (cx_seal C key nonce aad plain) = None"
    using assms(1,3) unfolding authentic_cipher_def by metis
  with n show ?thesis by (simp add: open_sealed_def)
qed

subsection \<open>An archive's data\<close>

text \<open>The units, chunks and pointers a key seals, each under the key's own archive.\<close>

fun seal_in :: "cipher \<Rightarrow> vault_key \<Rightarrow> seal_place \<Rightarrow> string \<Rightarrow> string \<Rightarrow> vault_error + string \<times> string" where
  "seal_in C k (In_unit aid kind uid) plain r = seal_unit C (Some k) kind uid plain r"
| "seal_in C k (In_chunk aid kind gen index) plain r = seal_chunk C (Some k) kind gen index plain r"
| "seal_in C k (In_pointer aid kind gen) plain r = seal_pointer C (Some k) kind gen plain r"
| "seal_in C k (In_entry aid kind) plain r = Inl Auth"

fun open_in :: "cipher \<Rightarrow> vault_key \<Rightarrow> seal_place \<Rightarrow> string \<Rightarrow> vault_error + string" where
  "open_in C k (In_unit aid kind uid) sealed = open_unit C (Some k) kind uid sealed"
| "open_in C k (In_chunk aid kind gen index) sealed = open_chunk C (Some k) kind gen index sealed"
| "open_in C k (In_pointer aid kind gen) sealed = open_pointer C (Some k) kind gen sealed"
| "open_in C k (In_entry aid kind) sealed = Inl Auth"

fun place_archive :: "seal_place \<Rightarrow> archive_id" where
  "place_archive (In_unit aid kind uid) = aid" | "place_archive (In_chunk aid kind gen index) = aid"
| "place_archive (In_pointer aid kind gen) = aid" | "place_archive (In_entry aid kind) = aid"

lemma sealed_in:
  assumes "seal_in C k p plain r = Inr (bytes, r')" "place_archive p = vk_id k" "length (vk_id k) = id_size"
  shows "\<exists>aad. place_ok p \<and> place_aad p = Inr aad \<and> seal C (vk_data k) aad plain r = Inr (bytes, r') \<and> vk_live k"
  using assms
  by (cases p) (auto simp: seal_unit_def seal_chunk_def seal_pointer_def container_use_def with_key_def unit_aad_def
      split: if_splits)

lemma opened_in:
  assumes "open_in C k p bytes = Inr x" "place_archive p = vk_id k" "length (vk_id k) = id_size"
  shows "\<exists>aad. place_ok p \<and> place_aad p = Inr aad \<and> open_sealed C (vk_data k) aad bytes = Inr x"
  using assms
  by (cases p) (auto simp: open_unit_def open_chunk_def open_pointer_def container_use_def with_key_def unit_aad_def
      split: if_splits)

lemma open_in_eq:
  assumes "place_ok p" "place_aad p = Inr aad" "place_archive p = vk_id k" "vk_live k" "\<And>i e. p \<noteq> In_entry i e"
  shows "open_in C k p bytes = open_sealed C (vk_data k) aad bytes"
  using assms
  by (cases p) (auto simp: open_unit_def open_chunk_def open_pointer_def container_use_def with_key_def unit_aad_def)

text \<open>
  C29: sealed bytes open where they were sealed and nowhere else.  A message, an attachment set, a chunk or a
  pointer sealed under a key opens to the bytes that went in at its own place, and under no key does it open
  as another unit, another kind, another generation or index, another container, or in another archive,
  whenever the cipher authenticates its associated data.
\<close>

theorem sealed_bytes_stay_in_their_place:
  assumes "authentic_cipher C" and "seal_in C k p plain r = Inr (bytes, r')"
    and "place_archive p = vk_id k" and "length (vk_id k) = id_size"
    and "place_archive q = vk_id k'" and "length (vk_id k') = id_size"
  shows "open_in C k p bytes = Inr plain \<and> (open_in C k' q bytes = Inr x \<longrightarrow> q = p)"
proof -
  obtain aad where p: "place_ok p" "place_aad p = Inr aad" "seal C (vk_data k) aad plain r = Inr (bytes, r')" "vk_live k"
    using sealed_in [OF assms(2,3,4)] by blast
  have "p \<noteq> In_entry i e" for i e using assms(2) by auto
  then have "open_in C k p bytes = open_sealed C (vk_data k) aad bytes"
    using open_in_eq [OF p(1,2) assms(3) p(4)] by blast
  then have "open_in C k p bytes = Inr plain" using open_seal [OF assms(1) p(3)] by simp
  moreover have "q = p" if o: "open_in C k' q bytes = Inr x"
  proof -
    obtain aad' where q: "place_ok q" "place_aad q = Inr aad'" "open_sealed C (vk_data k') aad' bytes = Inr x"
      using opened_in [OF o assms(5,6)] by blast
    then have "aad' = aad" using open_elsewhere [OF assms(1) p(3)] by blast
    with p(1,2) q(1,2) place_aad_inj show "q = p" by metis
  qed
  ultimately show ?thesis by blast
qed

text \<open>A cipher that keeps its promise: it writes the length of the associated data and the data itself.\<close>

definition plain_head :: "string \<Rightarrow> string" where
  "plain_head a = replicate 16 CHR ''0'' @ replicate (length a) CHR ''a'' @ CHR ''b'' # a"

definition plain_cipher :: cipher where
  "plain_cipher = \<lparr>cx_seal = (\<lambda>key n a p. plain_head a @ p),
     cx_open = (\<lambda>key n a c. if take (length (plain_head a)) c = plain_head a
       then Some (drop (length (plain_head a)) c) else None)\<rparr>"

lemma unary_eq:
  "replicate m CHR ''a'' @ CHR ''b'' # s = replicate n CHR ''a'' @ CHR ''b'' # t \<Longrightarrow> m = n \<and> s = t"
proof (induction m arbitrary: n)
  case 0
  then show ?case by (cases n) simp_all
next
  case (Suc m)
  then show ?case by (cases n) simp_all
qed

lemma plain_head_eq: "plain_head a @ p = plain_head a' @ q \<Longrightarrow> a = a'"
  unfolding plain_head_def by (auto dest: unary_eq)

lemma plain_authentic: "authentic_cipher plain_cipher"
proof -
  have "a = a'" if "take (length (plain_head a')) (plain_head a @ p) = plain_head a'" for a a' p
  proof -
    have "plain_head a @ p = plain_head a' @ drop (length (plain_head a')) (plain_head a @ p)"
      using that by (metis append_take_drop_id)
    then show ?thesis by (rule plain_head_eq)
  qed
  then have other: "take (length (plain_head a')) (plain_head a @ p) \<noteq> plain_head a'" if "a \<noteq> a'" for a a' p
    using that by blast
  have no: "cx_open plain_cipher key n a' (cx_seal plain_cipher key' n a p) = None" if "a \<noteq> a'" for a a' p key key' n
    using other [OF that, of p] by (simp add: plain_cipher_def)
  have yes: "cx_open plain_cipher key n a (cx_seal plain_cipher key n a p) = Some p" for key n a p
    by (simp add: plain_cipher_def)
  have "16 \<le> length (cx_seal plain_cipher key n a p)" for key n a p
    by (simp add: plain_cipher_def plain_head_def)
  with no yes show ?thesis unfolding authentic_cipher_def seal_overhead_def by blast
qed

definition sample_key32 :: vault_key where
  "sample_key32 = \<lparr>vk_id = replicate 16 CHR ''i'', vk_master = replicate 32 CHR ''m'', vk_data = replicate 32 CHR ''d'',
     vk_mac = replicate 32 CHR ''h'', vk_names = replicate 32 CHR ''n'', vk_buckets = replicate 32 CHR ''b'', vk_live = True\<rparr>"

theorem sealed_bytes_stay_in_their_place_witness:
  "\<exists>bytes. seal_unit plain_cipher (Some sample_key32) 1 ''u'' ''mail'' (replicate 24 CHR ''r'') = Inr (bytes, [])
     \<and> open_unit plain_cipher (Some sample_key32) 1 ''u'' bytes = Inr ''mail''
     \<and> (\<forall>x. open_unit plain_cipher (Some sample_key32) 2 ''u'' bytes \<noteq> Inr x)"
proof -
  let ?k = sample_key32 and ?i = "replicate 16 CHR ''i''"
  have i: "length (vk_id ?k) = id_size" "vk_id ?k = ?i" by (simp_all add: sample_key32_def id_size_def)
  have "\<exists>bytes. seal_in plain_cipher ?k (In_unit ?i 1 ''u'') ''mail'' (replicate 24 CHR ''r'') = Inr (bytes, [])"
    by (simp add: seal_unit_def with_key_def unit_aad_def unit_kind_known_def max_unit_id_len_def seal_def draw_def
        sample_key32_def key_size_def nonce_size_def)
  then obtain bytes where b: "seal_in plain_cipher ?k (In_unit ?i 1 ''u'') ''mail'' (replicate 24 CHR ''r'') = Inr (bytes, [])"
    by blast
  note t = sealed_bytes_stay_in_their_place [OF plain_authentic b _ i(1) _ i(1)]
  have "open_in plain_cipher ?k (In_unit ?i 1 ''u'') bytes = Inr ''mail''"
    using t [where q = "In_unit ?i 1 ''u''"] i(2) by simp
  moreover have "open_in plain_cipher ?k (In_unit ?i 2 ''u'') bytes \<noteq> Inr x" for x
    using t [where q = "In_unit ?i 2 ''u''" and x = x] i(2) by auto
  ultimately show ?thesis using b by auto
qed

subsection \<open>Keyed names and buckets\<close>

lemma unit_name_shape:
  "unit_name k kind ref = Inr name \<Longrightarrow> length name = unit_name_len \<and> set name \<subseteq> hex_alphabet"
  using hex_encode_alphabet
  by (auto simp: unit_name_def with_key_def unit_name_len_def split: option.splits if_splits dest!: in_set_takeD)

text \<open>
  A manifest bucket exists whenever it is asked for.  Every live key files every record key under a
  bucket below the count, for each power of two the format allows, and refuses every other count.
\<close>

theorem every_record_has_a_bucket:
  assumes "vk_live k" and "record_key \<noteq> []"
  shows "(\<forall>m \<in> {4..24}. \<exists>b. bucket (Some k) record_key (2 ^ m) = Inr b \<and> b < 2 ^ m)
    \<and> (\<forall>n b. bucket (Some k) record_key n = Inr b \<longrightarrow> b < n \<and> min_buckets \<le> n \<and> n \<le> max_buckets \<and> n AND (n - 1) = 0)"
proof
  have below: "(word_of_nat (x mod unat n) :: 32 word) < n" if "0 < unat n" for x n
  proof -
    have "x mod unat n < unat n" using that by simp
    moreover have "unat n < 2 ^ 32" using unsigned_less [of n, where 'a = nat] by simp
    ultimately show ?thesis by (simp add: word_less_nat_alt unat_of_nat)
  qed
  show "\<forall>n b. bucket (Some k) record_key n = Inr b \<longrightarrow> b < n \<and> min_buckets \<le> n \<and> n \<le> max_buckets \<and> n AND (n - 1) = 0"
  proof (intro allI impI)
    fix n b
    assume b: "bucket (Some k) record_key n = Inr b"
    then have n: "\<not> n < min_buckets" "\<not> max_buckets < n" "n AND (n - 1) = 0"
      and e: "b = word_of_nat (from_be (take 8 (hmac256 (vk_buckets k) record_key)) mod unat n)"
      by (auto simp: bucket_def with_key_def split: if_splits)
    then have "0 < unat n" by (simp add: min_buckets_def word_less_nat_alt)
    with n show "b < n \<and> min_buckets \<le> n \<and> n \<le> max_buckets \<and> n AND (n - 1) = 0" unfolding e using below by auto
  qed
  show "\<forall>m \<in> {4..24}. \<exists>b. bucket (Some k) record_key (2 ^ m) = Inr b \<and> b < 2 ^ m"
  proof
    fix m :: nat
    assume "m \<in> {4..24}"
    then have "m \<in> set [4..<25]" unfolding set_upt by simp
    moreover have "\<forall>m \<in> set [4..<25]. \<not> (2 ^ m :: 32 word) < min_buckets \<and> \<not> max_buckets < (2 ^ m :: 32 word)
        \<and> (2 ^ m :: 32 word) AND (2 ^ m - 1) = 0 \<and> 0 < unat (2 ^ m :: 32 word)"
      by (simp add: upt_conv_Cons min_buckets_def max_buckets_def del: set_upt)
    ultimately have p: "\<not> (2 ^ m :: 32 word) < min_buckets \<and> \<not> max_buckets < (2 ^ m :: 32 word)
        \<and> (2 ^ m :: 32 word) AND (2 ^ m - 1) = 0 \<and> 0 < unat (2 ^ m :: 32 word)" by (rule bspec [rotated])
    then show "\<exists>b. bucket (Some k) record_key (2 ^ m) = Inr b \<and> b < 2 ^ m"
      using assms below by (simp add: bucket_def with_key_def)
  qed
qed

theorem every_record_has_a_bucket_witness: "\<exists>b. bucket (Some sample_key32) ''k'' 16 = Inr b \<and> b < 16"
proof -
  have "vk_live sample_key32" by (simp add: sample_key32_def)
  from every_record_has_a_bucket [OF this, of "''k''"]
  have "\<exists>b. bucket (Some sample_key32) ''k'' (2 ^ 4) = Inr b \<and> b < 2 ^ 4" by (simp del: power_numeral)
  then show ?thesis by simp
qed

end
