(* ===== verification/Recovery.thy ===== *)
theory Recovery
  imports VaultPlaces AsciiText
begin

text \<open>
  The recovery key of an encrypted archive (\<^verbatim>\<open>internal/vault/recovery.go\<close>): 128 random bits, shown as
  26 base32 characters and a Luhn check character in groups of four, and read back as it was typed.  The
  Unicode tables and normal forms are parameters.
\<close>

definition recovery_alphabet :: string where
  "recovery_alphabet = ''ABCDEFGHIJKLMNOPQRSTUVWXYZ234567''"

definition recovery_body_len :: nat where "recovery_body_len = 26"
definition recovery_len :: nat where "recovery_len = recovery_body_len + 1"
definition recovery_group :: nat where "recovery_group = 4"

definition alpha_index :: "char \<Rightarrow> nat" where
  "alpha_index c = length (takeWhile (\<lambda>a. a \<noteq> c) recovery_alphabet)"

text \<open>Base32 without padding: the bits in order, the last group filled up with zeros.\<close>

primrec digits32 :: "nat \<Rightarrow> nat \<Rightarrow> nat list" where
  "digits32 0 v = []"
| "digits32 (Suc n) v = digits32 n (v div 32) @ [v mod 32]"

definition base32_len :: "nat \<Rightarrow> nat" where
  "base32_len n = (8 * n + 4) div 5"

definition base32_encode :: "string \<Rightarrow> string" where
  "base32_encode s = (let n = base32_len (length s)
     in map (\<lambda>d. recovery_alphabet ! d) (digits32 n (from_be s * 2 ^ (5 * n - 8 * length s))))"

definition base32_decode :: "string \<Rightarrow> string" where
  "base32_decode t = (let n = 5 * length t div 8
     in be n (fold (\<lambda>c v. 32 * v + alpha_index c) t 0 div 2 ^ (5 * length t - 8 * n)))"

text \<open>The Luhn sum, from the right, of factors that alternate.\<close>

fun luhn_sum :: "nat \<Rightarrow> nat list \<Rightarrow> nat" where
  "luhn_sum factor [] = 0"
| "luhn_sum factor (d # ds) = (factor * d) div 32 + (factor * d) mod 32 + luhn_sum (3 - factor) ds"

definition luhn32_check :: "string \<Rightarrow> nat" where
  "luhn32_check s = (32 - luhn_sum 2 (rev (map alpha_index s)) mod 32) mod 32"

definition luhn32_valid :: "string \<Rightarrow> bool" where
  "luhn32_valid s \<longleftrightarrow> luhn_sum 1 (rev (map alpha_index s)) mod 32 = 0"

fun grouped :: "nat \<Rightarrow> string \<Rightarrow> string" where
  "grouped 0 s = s"
| "grouped (Suc n) s = (if length s \<le> recovery_group then s
     else take recovery_group s @ CHR ''-'' # grouped n (drop recovery_group s))"

definition recovery_string :: "string \<Rightarrow> string" where
  "recovery_string k = (let body = base32_encode k; full = body @ [recovery_alphabet ! luhn32_check body]
     in grouped (length full) full)"

record text_world =
  tw_nfkc :: "string \<Rightarrow> string"
  tw_nfc :: "string \<Rightarrow> string"
  tw_upper :: "string \<Rightarrow> string"
  tw_dash :: "nat \<Rightarrow> bool"
  tw_format :: "nat \<Rightarrow> bool"

definition recovery_ignored :: "text_world \<Rightarrow> nat \<Rightarrow> bool" where
  "recovery_ignored T r \<longleftrightarrow> space_rune r \<or> tw_dash T r \<or> tw_format T r \<or> r = 0x2212"

definition parse_recovery_key :: "text_world \<Rightarrow> string \<Rightarrow> vault_error + string" where
  "parse_recovery_key T s =
     (let kept = filter (\<lambda>r. \<not> recovery_ignored T r) (runes (tw_upper T (tw_nfkc T s)))
      in if length kept \<noteq> recovery_len then Inl Recovery_format
         else if list_ex (\<lambda>r. 0x7F < r \<or> char_of r \<notin> set recovery_alphabet) kept then Inl Recovery_format
         else let t = map char_of kept
         in if \<not> luhn32_valid t then Inl Recovery_check
            else let body = take recovery_body_len t; raw = base32_decode body
            in if length raw \<noteq> 16 \<or> base32_encode raw \<noteq> body then Inl Recovery_format
               else Inr raw)"

subsection \<open>The alphabet\<close>

lemma alphabet_length [simp]: "length recovery_alphabet = 32"
  by (simp add: recovery_alphabet_def)

lemma alphabet_distinct: "distinct recovery_alphabet"
  by (simp add: recovery_alphabet_def)

lemma alpha_index_nth [simp]: "i < 32 \<Longrightarrow> alpha_index (recovery_alphabet ! i) = i"
proof -
  assume i: "i < 32"
  have "takeWhile (\<lambda>a. a \<noteq> recovery_alphabet ! i) recovery_alphabet = take i recovery_alphabet"
    by (rule takeWhile_eq_take_P_nth) (use i alphabet_distinct in \<open>auto simp: nth_eq_iff_index_eq\<close>)
  with i show ?thesis by (simp add: alpha_index_def)
qed

lemma nth_alpha_index: "c \<in> set recovery_alphabet \<Longrightarrow> alpha_index c < 32 \<and> recovery_alphabet ! alpha_index c = c"
  by (metis alpha_index_nth alphabet_length in_set_conv_nth)

subsection \<open>Base32 reads back\<close>

lemma length_digits32 [simp]: "length (digits32 n v) = n"
  by (induction n arbitrary: v) simp_all

lemma digits32_small: "d \<in> set (digits32 n v) \<Longrightarrow> d < 32"
  by (induction n arbitrary: v) auto

lemma read_digits32: "v < 32 ^ n \<Longrightarrow> fold (\<lambda>d v. 32 * v + d) (digits32 n v) 0 = v"
proof (induction n arbitrary: v)
  case (Suc n)
  then have "v div 32 < 32 ^ n" by (simp add: less_mult_imp_div_less mult.commute)
  with Suc.IH show ?case by simp
qed simp

lemma read_alpha: "(\<And>d. d \<in> set ds \<Longrightarrow> d < 32)
    \<Longrightarrow> fold (\<lambda>c v. 32 * v + alpha_index c) (map (\<lambda>d. recovery_alphabet ! d) ds) a = fold (\<lambda>d v. 32 * v + d) ds a"
  by (induction ds arbitrary: a) simp_all

lemma base32_reads_back:
  assumes "length s = 16"
  shows "length (base32_encode s) = recovery_body_len" "base32_decode (base32_encode s) = s"
    "set (base32_encode s) \<subseteq> set recovery_alphabet"
proof -
  let ?v = "from_be s * 4"
  have "from_be s < 256 ^ 16" using from_be_less [of s] assms by simp
  then have v: "?v < 32 ^ 26" by simp
  have e: "base32_encode s = map (\<lambda>d. recovery_alphabet ! d) (digits32 26 ?v)"
    by (simp add: base32_encode_def assms base32_len_def)
  show l: "length (base32_encode s) = recovery_body_len" by (simp add: e recovery_body_len_def)
  have "fold (\<lambda>c v. 32 * v + alpha_index c) (base32_encode s) 0 = ?v"
    unfolding e using read_alpha [OF digits32_small] read_digits32 [OF v] by simp
  then show "base32_decode (base32_encode s) = s"
    using be_from_be [of s] assms by (simp add: base32_decode_def l recovery_body_len_def)
  show "set (base32_encode s) \<subseteq> set recovery_alphabet"
    unfolding e using digits32_small by (fastforce intro!: nth_mem)
qed

subsection \<open>The check character\<close>

lemma luhn_doubled: "d < 32 \<Longrightarrow> (2 * d) div 32 + (2 * d) mod 32 = (if d < 16 then 2 * d else 2 * d - (31 :: nat))"
  by (auto simp: le_div_geq le_mod_geq)

lemma luhn_term_inj:
  assumes "f \<in> {1, 2}" "d < 32" "e < 32"
    and "((f * d) div 32 + (f * d) mod 32) mod 32 = ((f * e) div 32 + (f * e) mod 32) mod (32 :: nat)"
  shows "d = e"
proof (cases "f = 1")
  case True
  then show ?thesis using assms by simp
next
  case False
  then have f: "f = 2" using assms(1) by simp
  have "(if x < 16 then 2 * x else 2 * x - 31) mod 32 = (if x < 16 then 2 * x else 2 * x - (31 :: nat))" if "x < 32" for x
    using that by simp
  then have "(if d < 16 then 2 * d else 2 * d - 31) = (if e < 16 then 2 * e else 2 * e - 31)"
    using assms(4) unfolding f luhn_doubled [OF assms(2)] luhn_doubled [OF assms(3)] using assms(2,3) by metis
  then show ?thesis using assms(2,3) by (simp split: if_splits) presburger+
qed

lemma sum_cancel: "(z + a) mod 32 = 0 \<Longrightarrow> (z + b) mod 32 = 0 \<Longrightarrow> a mod 32 = b mod (32 :: nat)"
proof -
  have "a mod 32 = b mod (32 :: nat)" if "a \<le> b" "(z + a) mod 32 = 0" "(z + b) mod 32 = 0" for a b
  proof -
    have "32 dvd (z + b) - (z + a)" using that(2,3) by (intro dvd_diff_nat) auto
    then have "32 dvd b - a" by simp
    with that(1) show ?thesis by (metis mod_eq_dvd_iff_nat)
  qed
  then show "(z + a) mod 32 = 0 \<Longrightarrow> (z + b) mod 32 = 0 \<Longrightarrow> a mod 32 = b mod 32" by (metis nat_le_linear)
qed

lemma luhn_sum_append:
  "f \<in> {1, 2} \<Longrightarrow> \<exists>g \<in> {1, 2}. \<forall>d ys. luhn_sum f (xs @ d # ys)
     = luhn_sum f xs + ((g * d) div 32 + (g * d) mod 32) + luhn_sum (3 - g) ys"
proof (induction xs arbitrary: f)
  case (Cons x xs)
  from Cons.prems have "3 - f \<in> {1, 2}" by auto
  from Cons.IH [OF this] show ?case by (fastforce simp: add.assoc)
qed auto

lemma luhn_detects:
  assumes "luhn32_valid t" "i < length t" "set t \<subseteq> set recovery_alphabet" "c \<in> set recovery_alphabet" "c \<noteq> t ! i"
  shows "\<not> luhn32_valid (t[i := c])"
proof
  assume v: "luhn32_valid (t[i := c])"
  let ?x = "rev (map alpha_index (drop (Suc i) t))" and ?y = "rev (map alpha_index (take i t))"
  have t: "rev (map alpha_index t) = ?x @ alpha_index (t ! i) # ?y"
    using id_take_nth_drop [OF assms(2)] by (metis append.assoc append_Cons append_Nil list.simps(9) map_append rev.simps(2) rev_append)
  have u: "rev (map alpha_index (t[i := c])) = ?x @ alpha_index c # ?y"
    using assms(2) by (simp add: upd_conv_take_nth_drop)
  obtain g where g: "g \<in> {1, 2}" "\<And>d. luhn_sum 1 (?x @ d # ?y)
      = luhn_sum 1 ?x + ((g * d) div 32 + (g * d) mod 32) + luhn_sum (3 - g) ?y"
    using luhn_sum_append [of 1 ?x] by blast
  have eq: "(luhn_sum 1 ?x + a + luhn_sum (3 - g) ?y) mod 32 = 0 \<Longrightarrow> (luhn_sum 1 ?x + b + luhn_sum (3 - g) ?y) mod 32 = 0
      \<Longrightarrow> a mod 32 = b mod (32 :: nat)" for a b
    using sum_cancel [of "luhn_sum 1 ?x + luhn_sum (3 - g) ?y" a b] by (simp only: ac_simps)
  have "alpha_index (t ! i) = alpha_index c"
  proof (rule luhn_term_inj [OF g(1)])
    show "alpha_index (t ! i) < 32" "alpha_index c < 32" using assms nth_alpha_index nth_mem by blast+
    show "((g * alpha_index (t ! i)) div 32 + (g * alpha_index (t ! i)) mod 32) mod 32
        = ((g * alpha_index c) div 32 + (g * alpha_index c) mod 32) mod 32"
      by (rule eq) (use assms(1) v in \<open>simp_all only: luhn32_valid_def t u g(2)\<close>)
  qed
  moreover have "t ! i \<in> set recovery_alphabet" using assms(2,3) nth_mem by blast
  ultimately show False using assms(4,5) nth_alpha_index by metis
qed

lemma luhn_checked: "luhn32_valid (body @ [recovery_alphabet ! luhn32_check body])"
proof -
  define c where "c = luhn32_check body"
  let ?ds = "rev (map alpha_index body)"
  have c: "c < 32" by (simp add: c_def luhn32_check_def)
  have step: "luhn_sum 1 (d # ds) = d + luhn_sum 2 ds" if "d < 32" for d ds using that by simp
  have "rev (map alpha_index (body @ [recovery_alphabet ! c])) = c # ?ds" using c by simp
  then have e: "luhn_sum 1 (rev (map alpha_index (body @ [recovery_alphabet ! c]))) = c + luhn_sum 2 ?ds"
    by (simp only: step [OF c])
  have q: "((32 - r) mod 32 + (32 * q + r)) mod 32 = 0" if "r < 32" for q r :: nat
  proof -
    have "32 - r + (32 * q + r) = 32 * (q + 1)" using that by simp
    then show ?thesis by (metis mod_add_left_eq mod_mult_self1_is_0)
  qed
  have z: "((32 - x mod 32) mod 32 + x) mod 32 = 0" for x :: nat
    using q [of "x mod 32" "x div 32"] by simp
  have "(c + luhn_sum 2 ?ds) mod 32 = 0" unfolding c_def luhn32_check_def by (rule z)
  then show ?thesis unfolding luhn32_valid_def c_def [symmetric] e .
qed

subsection \<open>A key as it was shown\<close>

text \<open>The characters a typed text is read as.\<close>

definition kept_runes :: "text_world \<Rightarrow> string \<Rightarrow> nat list" where
  "kept_runes T s = filter (\<lambda>r. \<not> recovery_ignored T r) (runes (tw_upper T (tw_nfkc T s)))"

definition shown_key :: "string \<Rightarrow> string" where
  "shown_key k = base32_encode k @ [recovery_alphabet ! luhn32_check (base32_encode k)]"

text \<open>The tables agree on the characters a key is shown in: they are their own forms, and only the dash is skipped.\<close>

definition keeps_ascii :: "text_world \<Rightarrow> bool" where
  "keeps_ascii T \<longleftrightarrow> (\<forall>s. set s \<subseteq> insert CHR ''-'' (set recovery_alphabet) \<longrightarrow> tw_upper T (tw_nfkc T s) = s)
     \<and> tw_dash T 0x2D \<and> (\<forall>c \<in> set recovery_alphabet. \<not> tw_dash T (byte c) \<and> \<not> tw_format T (byte c))"

lemma shown_alphabet: "length k = 16 \<Longrightarrow> set (shown_key k) \<subseteq> set recovery_alphabet \<and> length (shown_key k) = recovery_len"
  using base32_reads_back [of k] by (simp add: shown_key_def recovery_len_def luhn32_check_def)

lemma grouped_kept: "filter (\<lambda>c. c \<noteq> CHR ''-'') (grouped n s) = filter (\<lambda>c. c \<noteq> CHR ''-'') s"
proof (induction n s rule: grouped.induct)
  case (2 n s)
  show ?case
  proof (cases "length s \<le> recovery_group")
    case False
    then have "filter (\<lambda>c. c \<noteq> CHR ''-'') (grouped (Suc n) s)
        = filter (\<lambda>c. c \<noteq> CHR ''-'') (take recovery_group s) @ filter (\<lambda>c. c \<noteq> CHR ''-'') (drop recovery_group s)"
      using 2 by simp
    then show ?thesis by (metis append_take_drop_id filter_append)
  qed simp
qed simp

lemma grouped_set: "set (grouped n s) \<subseteq> insert CHR ''-'' (set s)"
  by (induction n s rule: grouped.induct) (auto dest: in_set_takeD in_set_dropD)

lemma alphabet_facts: "c \<in> set recovery_alphabet \<Longrightarrow> ascii c \<and> byte c \<le> 0x7F \<and> \<not> space_rune (byte c) \<and> byte c \<noteq> 0x2212 \<and> c \<noteq> CHR ''-''"
  by (auto simp: recovery_alphabet_def byte_def space_rune_def in_range_def)

lemma kept_shown:
  assumes T: "keeps_ascii T" and k: "length k = 16"
  shows "kept_runes T (recovery_string k) = map byte (shown_key k)"
proof -
  let ?f = "shown_key k" and ?g = "grouped (length (shown_key k)) (shown_key k)"
  have a: "set ?f \<subseteq> set recovery_alphabet" using shown_alphabet [OF k] by blast
  then have g: "set ?g \<subseteq> insert CHR ''-'' (set recovery_alphabet)" using grouped_set by blast
  have s: "recovery_string k = ?g" by (simp add: recovery_string_def shown_key_def Let_def)
  have "list_all ascii ?g" using g alphabet_facts by (fastforce simp: list_all_iff byte_def)
  then have r: "runes ?g = map byte ?g" by (rule runes_ascii)
  have "recovery_ignored T (byte c) \<longleftrightarrow> c = CHR ''-''" if "c \<in> set ?g" for c
    using that g T alphabet_facts [of c] by (auto simp: recovery_ignored_def keeps_ascii_def byte_def)
  then have "filter (\<lambda>r. \<not> recovery_ignored T r) (map byte ?g) = map byte (filter (\<lambda>c. c \<noteq> CHR ''-'') ?g)"
    by (simp add: filter_map o_def cong: filter_cong)
  also have "\<dots> = map byte (filter (\<lambda>c. c \<noteq> CHR ''-'') ?f)" by (simp add: grouped_kept)
  also have "filter (\<lambda>c. c \<noteq> CHR ''-'') ?f = ?f" using a alphabet_facts by (intro filter_True) blast
  finally show ?thesis using T g unfolding kept_runes_def s keeps_ascii_def r [symmetric] by simp
qed

lemma parse_kept:
  assumes "kept_runes T s = map byte t" "length t = recovery_len" "set t \<subseteq> set recovery_alphabet"
  shows "parse_recovery_key T s = (if \<not> luhn32_valid t then Inl Recovery_check
    else let body = take recovery_body_len t; raw = base32_decode body
         in if length raw \<noteq> 16 \<or> base32_encode raw \<noteq> body then Inl Recovery_format else Inr raw)"
proof -
  have "\<not> list_ex (\<lambda>r. 0x7F < r \<or> char_of r \<notin> set recovery_alphabet) (map byte t)"
    using assms(3) alphabet_facts by (fastforce simp: list_ex_iff byte_def)
  moreover have "map char_of (map byte t) = t" by (simp add: byte_def o_def)
  ultimately show ?thesis
    using assms(1,2) unfolding parse_recovery_key_def kept_runes_def [symmetric] Let_def by simp
qed

lemma shown_parses:
  assumes "keeps_ascii T" and "length k = 16"
  shows "parse_recovery_key T (recovery_string k) = Inr k"
proof -
  note a = shown_alphabet [OF assms(2)]
  have v: "luhn32_valid (shown_key k)" unfolding shown_key_def by (rule luhn_checked)
  have "take recovery_body_len (shown_key k) = base32_encode k" using base32_reads_back(1) [OF assms(2)] by (simp add: shown_key_def)
  then show ?thesis
    using parse_kept [OF kept_shown [OF assms]] a v base32_reads_back(2) [OF assms(2)] assms(2) by (simp add: Let_def)
qed

text \<open>
  A recovery key reads back as it was shown, and a typing mistake never passes for one.  The text shown
  for a key parses to the key; and whatever dashes, spaces and letter case it was typed with, a text that
  gives one of the 27 characters wrongly is refused as a typing mistake.  This holds where the Unicode forms
  leave the shown characters alone.
\<close>

theorem recovery_key_reads_back:
  assumes "keeps_ascii T" and "length k = 16"
  shows "parse_recovery_key T (recovery_string k) = Inr k
    \<and> (\<forall>s i c. kept_runes T s = map byte ((shown_key k)[i := c]) \<and> i < recovery_len \<and> c \<in> set recovery_alphabet
          \<and> c \<noteq> shown_key k ! i \<longrightarrow> parse_recovery_key T s = Inl Recovery_check)"
proof -
  note a = shown_alphabet [OF assms(2)]
  have v: "luhn32_valid (shown_key k)" unfolding shown_key_def by (rule luhn_checked)
  have "parse_recovery_key T (recovery_string k) = Inr k" by (rule shown_parses [OF assms])
  moreover have "parse_recovery_key T s = Inl Recovery_check"
    if s: "kept_runes T s = map byte ((shown_key k)[i := c])" and i: "i < recovery_len" "c \<in> set recovery_alphabet"
      "c \<noteq> shown_key k ! i" for s i c
  proof -
    have "\<not> luhn32_valid ((shown_key k)[i := c])" using luhn_detects [OF v] i a by simp
    moreover have "set ((shown_key k)[i := c]) \<subseteq> set recovery_alphabet"
      using a i(2) set_update_subset_insert [of "shown_key k" i c] by blast
    ultimately show ?thesis using parse_kept [OF s] a by simp
  qed
  ultimately show ?thesis by blast
qed

definition ascii_world :: text_world where
  "ascii_world = \<lparr>tw_nfkc = (\<lambda>s. s), tw_nfc = (\<lambda>s. s), tw_upper = (\<lambda>s. s), tw_dash = (\<lambda>r. r = 0x2D), tw_format = (\<lambda>_. False)\<rparr>"

lemma ascii_world_keeps: "keeps_ascii ascii_world"
  using alphabet_facts by (auto simp: keeps_ascii_def ascii_world_def recovery_alphabet_def byte_def)

theorem recovery_key_reads_back_witness:
  "parse_recovery_key ascii_world (recovery_string (replicate 16 CHR ''k'')) = Inr (replicate 16 CHR ''k'')"
  using recovery_key_reads_back [OF ascii_world_keeps, of "replicate 16 CHR ''k''"] by simp

end
