(* ===== verification/VaultFile.thy ===== *)
theory VaultFile
  imports Recovery
begin

text \<open>
  The key file of an encrypted archive (\<^verbatim>\<open>internal/vault/vault.go\<close>, \<^verbatim>\<open>kdf.go\<close>): the master key wrapped under
  the password and under the recovery key, the public header with its MAC, and the file's form.  Argon2id,
  the Unicode normalisation and the JSON codec are parameters of a \<open>vault_world\<close>; base64 and hexadecimal
  are the standard library's.
\<close>

subsection \<open>The cost of a derivation\<close>

record kdf_params =
  kp_memory :: "32 word"
  kp_time :: "32 word"
  kp_threads :: "8 word"

definition kdf_floor :: kdf_params where
  "kdf_floor = \<lparr>kp_memory = 256 * 1024, kp_time = 3, kp_threads = 1\<rparr>"

definition kdf_ceiling :: kdf_params where
  "kdf_ceiling = \<lparr>kp_memory = 1024 * 1024, kp_time = 16, kp_threads = 4\<rparr>"

definition salt_size :: nat where "salt_size = 16"
definition min_password_runes :: nat where "min_password_runes = 12"

definition params_check :: "kdf_params \<Rightarrow> vault_error + unit" where
  "params_check p =
     (if kp_memory p < kp_memory kdf_floor \<or> kp_time p < kp_time kdf_floor \<or> kp_threads p < kp_threads kdf_floor
      then Inl Params_refused
      else if kp_memory kdf_ceiling < kp_memory p \<or> kp_time kdf_ceiling < kp_time p \<or> kp_threads kdf_ceiling < kp_threads p
      then Inl Params_refused
      else Inr ())"

subsection \<open>The vault\<close>

record key_entry =
  ke_salt :: string
  ke_params :: kdf_params
  ke_wrapped :: string

record archive_vault =
  va_id :: archive_id
  va_gen :: "64 word"
  va_password :: key_entry
  va_recovery :: key_entry
  va_mac :: string

record entry_form =
  ef_kind :: string
  ef_kdf :: string
  ef_salt :: string
  ef_memory :: "32 word"
  ef_time :: "32 word"
  ef_threads :: "8 word"
  ef_wrapped :: string

record vault_form =
  fm_format :: int
  fm_archive :: string
  fm_generation :: "64 word"
  fm_entries :: "entry_form list"
  fm_mac :: string

text \<open>
  What is not this program's: the cipher, Argon2id (secret, salt, cost; 32 bytes), the text tables and the
  JSON codec.  \<open>vw_read\<close> is the strict decoder with whether more follows the first value, \<open>vw_format\<close>,
  \<open>vw_archive\<close> and \<open>vw_generation\<close> are the lenient decodes of one field (the zero value where it is absent).
\<close>

record vault_world =
  vw_cipher :: cipher
  vw_argon :: "string \<Rightarrow> string \<Rightarrow> kdf_params \<Rightarrow> string"
  vw_text :: text_world
  vw_write :: "vault_form \<Rightarrow> string"
  vw_read :: "string \<Rightarrow> (vault_form \<times> bool) option"
  vw_format :: "string \<Rightarrow> int option"
  vw_archive :: "string \<Rightarrow> string option"
  vw_generation :: "string \<Rightarrow> (64 word) option"

definition derive_kek :: "vault_world \<Rightarrow> string \<Rightarrow> string \<Rightarrow> kdf_params \<Rightarrow> vault_error + string" where
  "derive_kek W secret salt p = on_ok (params_check p) (\<lambda>_.
     if length salt \<noteq> salt_size then Inl Salt_length else Inr (vw_argon W secret salt p))"

definition password_bytes :: "vault_world \<Rightarrow> string \<Rightarrow> string" where
  "password_bytes W pw = tw_nfc (vw_text W) pw"

text \<open>\<^verbatim>\<open>utf8.ValidString\<close>: the bytes are the encoding of the runes they decode to.\<close>

definition utf8_valid :: "string \<Rightarrow> bool" where
  "utf8_valid s \<longleftrightarrow> encode_runes (runes s) = s"

definition check_new_password :: "vault_world \<Rightarrow> string \<Rightarrow> vault_error + unit" where
  "check_new_password W pw =
     (if \<not> utf8_valid pw then Inl Weak_password
      else if length (runes (tw_nfc (vw_text W) pw)) < min_password_runes then Inl Weak_password
      else Inr ())"

subsection \<open>The header MAC\<close>

definition vault_format :: "16 word" where "vault_format = 1"

definition entry_header :: "wrap_kind \<Rightarrow> key_entry \<Rightarrow> string" where
  "entry_header kind e = be_word (entry_byte kind) @ be_word (kp_memory (ke_params e)) @ be_word (kp_time (ke_params e))
     @ be_word (kp_threads (ke_params e)) @ ke_salt e @ be_word (word_of_nat (length (ke_wrapped e)) :: 16 word) @ ke_wrapped e"

definition vault_header :: "archive_vault \<Rightarrow> string" where
  "vault_header v = ''MAV1'' @ be_word vault_format @ va_id v @ be_word (va_gen v)
     @ entry_header Entry_password (va_password v) @ entry_header Entry_recovery (va_recovery v)"

definition compute_mac :: "archive_vault \<Rightarrow> vault_key \<Rightarrow> string" where
  "compute_mac v k = hmac256 (vk_mac k) (vault_header v)"

definition verify :: "archive_vault \<Rightarrow> vault_key option \<Rightarrow> vault_error + unit" where
  "verify v k = with_key k (\<lambda>k.
     if vk_id k \<noteq> va_id v then Inl Tampered
     else if compute_mac v k \<noteq> va_mac v then Inl Tampered
     else Inr ())"

subsection \<open>Wrapping the master key\<close>

definition wrap :: "vault_world \<Rightarrow> archive_id \<Rightarrow> wrap_kind \<Rightarrow> string \<Rightarrow> string \<Rightarrow> string \<Rightarrow> vault_error + key_entry \<times> string" where
  "wrap W aid kind secret master r =
     on_ok (draw salt_size r) (\<lambda>(salt, r).
     on_ok (derive_kek W secret salt kdf_floor) (\<lambda>kek.
     on_ok (seal (vw_cipher W) kek (wrap_aad aid kind) master r) (\<lambda>(wrapped, r).
       Inr (\<lparr>ke_salt = salt, ke_params = kdf_floor, ke_wrapped = wrapped\<rparr>, r))))"

definition unwrap :: "vault_world \<Rightarrow> archive_vault \<Rightarrow> wrap_kind \<Rightarrow> key_entry \<Rightarrow> string \<Rightarrow> vault_error + vault_key" where
  "unwrap W v kind e secret =
     on_ok (derive_kek W secret (ke_salt e) (ke_params e)) (\<lambda>kek.
     case open_sealed (vw_cipher W) kek (wrap_aad (va_id v) kind) (ke_wrapped e) of
       Inl _ \<Rightarrow> Inl Wrong_secret
     | Inr master \<Rightarrow> on_ok (new_vault_key (va_id v) master) (\<lambda>k. on_ok (verify v (Some k)) (\<lambda>_. Inr k)))"

definition unlock :: "vault_world \<Rightarrow> archive_vault \<Rightarrow> string \<Rightarrow> vault_error + vault_key" where
  "unlock W v password = unwrap W v Entry_password (va_password v) (password_bytes W password)"

definition unlock_recovery :: "vault_world \<Rightarrow> archive_vault \<Rightarrow> string \<Rightarrow> vault_error + vault_key" where
  "unlock_recovery W v code = on_ok (parse_recovery_key (vw_text W) code) (\<lambda>rk.
     unwrap W v Entry_recovery (va_recovery v) rk)"

definition recovery_key_size :: nat where "recovery_key_size = 16"

definition new_recovery_key :: "string \<Rightarrow> vault_error + string \<times> string" where
  "new_recovery_key r = draw recovery_key_size r"

definition zero_entry :: key_entry where
  "zero_entry = \<lparr>ke_salt = replicate salt_size (CHR 0x00), ke_params = \<lparr>kp_memory = 0, kp_time = 0, kp_threads = 0\<rparr>, ke_wrapped = []\<rparr>"

definition signed_vault :: "archive_id \<Rightarrow> 64 word \<Rightarrow> key_entry \<Rightarrow> key_entry \<Rightarrow> vault_key \<Rightarrow> archive_vault" where
  "signed_vault aid gen pw rec k =
     (let v = \<lparr>va_id = aid, va_gen = gen, va_password = pw, va_recovery = rec, va_mac = []\<rparr>
      in v\<lparr>va_mac := compute_mac v k\<rparr>)"

text \<open>The new vault, its key, the recovery key to show once, and the random bytes left.\<close>

definition create :: "vault_world \<Rightarrow> string \<Rightarrow> string \<Rightarrow> vault_error + archive_vault \<times> vault_key \<times> string \<times> string" where
  "create W password r =
     on_ok (check_new_password W password) (\<lambda>_.
     on_ok (draw id_size r) (\<lambda>(aid, r).
     on_ok (draw key_size r) (\<lambda>(master, r).
     on_ok (new_recovery_key r) (\<lambda>(rk, r).
     on_ok (wrap W aid Entry_password (password_bytes W password) master r) (\<lambda>(pw, r).
     on_ok (wrap W aid Entry_recovery rk master r) (\<lambda>(rec, r).
     on_ok (new_vault_key aid master) (\<lambda>k.
       Inr (signed_vault aid 1 pw rec k, k, rk, r))))))))"

definition max_generation :: "64 word" where "max_generation = 2 ^ 62"

definition with_password :: "vault_world \<Rightarrow> archive_vault \<Rightarrow> vault_key option \<Rightarrow> string \<Rightarrow> string \<Rightarrow> vault_error + archive_vault \<times> string" where
  "with_password W v k new r =
     on_ok (check_new_password W new) (\<lambda>_.
     on_ok (verify v k) (\<lambda>_.
     if max_generation \<le> va_gen v + 1 then Inl Corrupt
     else on_ok (wrap W (va_id v) Entry_password (password_bytes W new) (vk_master (the k)) r) (\<lambda>(pw, r).
       let n = v\<lparr>va_gen := va_gen v + 1, va_password := pw\<rparr>
       in Inr (n\<lparr>va_mac := compute_mac n (the k)\<rparr>, r))))"

definition with_new_recovery :: "vault_world \<Rightarrow> archive_vault \<Rightarrow> vault_key option \<Rightarrow> string \<Rightarrow> vault_error + archive_vault \<times> string \<times> string" where
  "with_new_recovery W v k r =
     on_ok (verify v k) (\<lambda>_.
     if max_generation \<le> va_gen v + 1 then Inl Corrupt
     else on_ok (new_recovery_key r) (\<lambda>(rk, r).
       on_ok (wrap W (va_id v) Entry_recovery rk (vk_master (the k)) r) (\<lambda>(rec, r).
       let n = v\<lparr>va_gen := va_gen v + 1, va_recovery := rec\<rparr>
       in Inr (n\<lparr>va_mac := compute_mac n (the k)\<rparr>, rk, r))))"

end
