(* ===== verification/VaultForm.thy ===== *)
theory VaultForm
  imports VaultFile
begin

text \<open>
  The key file as text (\<^verbatim>\<open>internal/vault/vault.go\<close>, \<^verbatim>\<open>aead.go\<close>): the file's fields, writing and strict reading.
  What a reader accepts has the shape of the format, and a vault of that shape reads back as it was.
\<close>

subsection \<open>Hexadecimal and base64\<close>

definition hex_value :: "char \<Rightarrow> nat option" where
  "hex_value c = (let b = byte c in
     if in_range 0x30 0x39 b then Some (b - 0x30)
     else if in_range 0x61 0x66 b then Some (b - 0x61 + 10)
     else if in_range 0x41 0x46 b then Some (b - 0x41 + 10)
     else None)"

fun hex_decode :: "string \<Rightarrow> string option" where
  "hex_decode [] = Some []"
| "hex_decode [c] = None"
| "hex_decode (c # d # s) = (case (hex_value c, hex_value d, hex_decode s) of
     (Some h, Some l, Some t) \<Rightarrow> Some (char_of (16 * h + l) # t) | _ \<Rightarrow> None)"

definition base64_alphabet :: string where
  "base64_alphabet = ''ABCDEFGHIJKLMNOPQRSTUVWXYZabcdefghijklmnopqrstuvwxyz0123456789+/''"

definition base64_digit :: "nat \<Rightarrow> char" where
  "base64_digit n = base64_alphabet ! (n mod 64)"

fun base64_encode :: "string \<Rightarrow> string" where
  "base64_encode [] = []"
| "base64_encode [a] = (let v = byte a * 16 in [base64_digit (v div 64), base64_digit v, CHR ''='', CHR ''=''])"
| "base64_encode [a, b] = (let v = (byte a * 256 + byte b) * 4
     in [base64_digit (v div 64 div 64), base64_digit (v div 64), base64_digit v, CHR ''=''])"
| "base64_encode (a # b # c # s) = (let v = (byte a * 256 + byte b) * 256 + byte c
     in base64_digit (v div 64 div 64 div 64) # base64_digit (v div 64 div 64) # base64_digit (v div 64) # base64_digit v
        # base64_encode s)"

definition base64_value :: "char \<Rightarrow> nat option" where
  "base64_value c = (let i = length (takeWhile (\<lambda>d. d \<noteq> c) base64_alphabet) in if i < 64 then Some i else None)"

text \<open>The quanta of a text without its line ends, the last one padded.\<close>

fun base64_quanta :: "string \<Rightarrow> string option" where
  "base64_quanta [] = Some []"
| "base64_quanta (a # b # c # d # s) = (case (base64_value a, base64_value b) of
     (Some p, Some q) \<Rightarrow>
       if c = CHR ''='' then (if d = CHR ''='' \<and> s = [] then Some [char_of ((p * 64 + q) div 16)] else None)
       else (case base64_value c of
         None \<Rightarrow> None
       | Some r \<Rightarrow>
           let v = (p * 64 + q) * 64 + r
           in if d = CHR ''='' then (if s = [] then Some [char_of (v div 4 div 256), char_of (v div 4 mod 256)] else None)
              else (case (base64_value d, base64_quanta s) of
                (Some u, Some t) \<Rightarrow> let w = v * 64 + u
                  in Some (char_of (w div 256 div 256) # char_of (w div 256 mod 256) # char_of (w mod 256) # t)
              | _ \<Rightarrow> None))
   | _ \<Rightarrow> None)"
| "base64_quanta s = None"

definition base64_decode :: "string \<Rightarrow> string option" where
  "base64_decode s = base64_quanta (filter (\<lambda>c. c \<noteq> CHR 0x0A \<and> c \<noteq> CHR 0x0D) s)"

subsection \<open>Writing\<close>

definition kdf_argon2id :: string where "kdf_argon2id = ''argon2id''"

definition entry_kind_name :: "wrap_kind \<Rightarrow> string" where
  "entry_kind_name k = (case k of Entry_password \<Rightarrow> ''password'' | Entry_recovery \<Rightarrow> ''recovery'')"

definition entry_to_form :: "wrap_kind \<Rightarrow> key_entry \<Rightarrow> entry_form" where
  "entry_to_form kind e = \<lparr>ef_kind = entry_kind_name kind, ef_kdf = kdf_argon2id, ef_salt = base64_encode (ke_salt e),
     ef_memory = kp_memory (ke_params e), ef_time = kp_time (ke_params e), ef_threads = kp_threads (ke_params e),
     ef_wrapped = base64_encode (ke_wrapped e)\<rparr>"

definition vault_to_form :: "archive_vault \<Rightarrow> vault_form" where
  "vault_to_form v = \<lparr>fm_format = uint vault_format, fm_archive = hex_encode (va_id v), fm_generation = va_gen v,
     fm_entries = [entry_to_form Entry_password (va_password v), entry_to_form Entry_recovery (va_recovery v)],
     fm_mac = hex_encode (va_mac v)\<rparr>"

definition marshal :: "vault_world \<Rightarrow> archive_vault \<Rightarrow> string" where
  "marshal W v = vw_write W (vault_to_form v) @ [CHR 0x0A]"

subsection \<open>Reading\<close>

definition parse_id :: "string \<Rightarrow> archive_id option" where
  "parse_id s = (case hex_decode s of Some b \<Rightarrow> if length b = id_size then Some b else None | None \<Rightarrow> None)"

definition zero_id :: archive_id where "zero_id = replicate id_size (CHR 0x00)"

definition wrapped_size :: nat where "wrapped_size = nonce_size + key_size + seal_overhead"

definition mac_size :: nat where "mac_size = 32"

definition entry_kind_of :: "string \<Rightarrow> wrap_kind option" where
  "entry_kind_of s = (if s = ''password'' then Some Entry_password else if s = ''recovery'' then Some Entry_recovery else None)"

definition entry_of_form :: "entry_form \<Rightarrow> (wrap_kind \<times> key_entry) option" where
  "entry_of_form f = (case entry_kind_of (ef_kind f) of
     None \<Rightarrow> None
   | Some kind \<Rightarrow>
       if ef_kdf f \<noteq> kdf_argon2id then None
       else case base64_decode (ef_salt f) of
         None \<Rightarrow> None
       | Some salt \<Rightarrow>
           if length salt \<noteq> salt_size then None
           else case base64_decode (ef_wrapped f) of
             None \<Rightarrow> None
           | Some wrapped \<Rightarrow>
               if length wrapped \<noteq> wrapped_size then None
               else Some (kind, \<lparr>ke_salt = salt, ke_params = \<lparr>kp_memory = ef_memory f, kp_time = ef_time f, kp_threads = ef_threads f\<rparr>,
                 ke_wrapped = wrapped\<rparr>))"

fun read_entries :: "wrap_kind list \<Rightarrow> entry_form list \<Rightarrow> archive_vault \<Rightarrow> vault_error + archive_vault" where
  "read_entries seen [] v = Inr v"
| "read_entries seen (f # fs) v = (case entry_of_form f of
     None \<Rightarrow> Inl Corrupt
   | Some (kind, e) \<Rightarrow>
       if kind \<in> set seen then Inl Corrupt
       else read_entries (kind # seen) fs (case kind of Entry_password \<Rightarrow> v\<lparr>va_password := e\<rparr> | Entry_recovery \<Rightarrow> v\<lparr>va_recovery := e\<rparr>))"

definition vault_of_form :: "vault_form \<Rightarrow> vault_error + archive_vault" where
  "vault_of_form f =
     (if fm_format f < 1 then Inl Corrupt
      else if fm_generation f = 0 then Inl Corrupt
      else if length (fm_entries f) \<noteq> 2 then Inl Corrupt
      else case parse_id (fm_archive f) of
        None \<Rightarrow> Inl Corrupt
      | Some aid \<Rightarrow>
          if aid = zero_id then Inl Corrupt
          else case hex_decode (fm_mac f) of
            None \<Rightarrow> Inl Corrupt
          | Some mac \<Rightarrow>
              if length mac \<noteq> mac_size then Inl Corrupt
              else read_entries [] (fm_entries f)
                \<lparr>va_id = aid, va_gen = fm_generation f, va_password = zero_entry, va_recovery = zero_entry, va_mac = mac\<rparr>)"

definition parse_vault :: "vault_world \<Rightarrow> string \<Rightarrow> vault_error + archive_vault" where
  "parse_vault W data =
     (if (case vw_format W data of Some n \<Rightarrow> uint vault_format < n | None \<Rightarrow> False) then Inl Newer_vault
      else case vw_read W data of
        None \<Rightarrow> Inl Corrupt
      | Some (f, trailing) \<Rightarrow> if trailing then Inl Corrupt else vault_of_form f)"


subsection \<open>The codecs read back\<close>

lemma hex_value_digit [simp]: "n < 16 \<Longrightarrow> hex_value (hex_digit n) = Some n"
proof -
  assume "n < 16"
  then have "n \<in> set [0..<16]" by simp
  moreover have "list_all (\<lambda>n. hex_value (hex_digit n) = Some n) [0..<16]" by code_simp
  ultimately show ?thesis by (simp add: list_all_iff del: set_upt)
qed

lemma hex_reads_back [simp]: "hex_decode (hex_encode bs) = Some bs"
proof (induction bs)
  case (Cons b bs)
  have "byte b div 16 < 16" using byte_less [of b] by (simp add: less_mult_imp_div_less)
  then have "hex_value (hex_digit (byte b div 16)) = Some (byte b div 16)" "hex_value (hex_digit (byte b mod 16)) = Some (byte b mod 16)"
    by simp_all
  then have h: "hex_value (hex_digit (of_char b div 16)) = Some (byte b div 16)" "hex_value (hex_digit (of_char b mod 16)) = Some (byte b mod 16)"
    by (simp_all add: byte_def)
  have "hex_encode (b # bs) = hex_digit (of_char b div 16) # hex_digit (of_char b mod 16) # hex_encode bs"
    by (simp add: hex_encode_def hex_byte_def)
  moreover have "char_of (16 * (byte b div 16) + byte b mod 16) = b" by (simp add: byte_def)
  ultimately show ?case using Cons.IH h by simp
qed (simp add: hex_encode_def)

lemma base64_digits:
  "n < 64 \<Longrightarrow> base64_value (base64_alphabet ! n) = Some n \<and> base64_alphabet ! n \<notin> {CHR ''='', CHR 0x0A, CHR 0x0D}"
proof -
  assume "n < 64"
  then have "n \<in> set [0..<64]" by simp
  moreover have "list_all (\<lambda>n. base64_value (base64_alphabet ! n) = Some n
      \<and> base64_alphabet ! n \<notin> set [CHR ''='', CHR 0x0A, CHR 0x0D]) [0..<64]" by code_simp
  ultimately show ?thesis unfolding list_all_iff by simp
qed

lemma base64_digit_facts [simp]:
  "base64_value (base64_digit n) = Some (n mod 64)" "base64_digit n \<noteq> CHR ''=''" "base64_digit n \<noteq> CHR 0x0A" "base64_digit n \<noteq> CHR 0x0D"
  using base64_digits [of "n mod 64"] by (simp_all add: base64_digit_def)

lemma base64_no_ends: "filter (\<lambda>c. c \<noteq> CHR 0x0A \<and> c \<noteq> CHR 0x0D) (base64_encode s) = base64_encode s"
  by (induction s rule: base64_encode.induct) (simp_all add: Let_def)

lemma six_bits: "(v :: nat) div 64 * 64 + v mod 64 = v"
  by (rule div_mult_mod_eq)

lemma shifted_byte: "c < 256 \<Longrightarrow> (x * 256 + c) div 256 = x \<and> (x * 256 + c) mod 256 = (c :: nat)"
  by simp

lemma small_top: "(v :: nat) < 64 * 64 \<Longrightarrow> v div 64 mod 64 = v div 64"
  by (simp add: less_mult_imp_div_less)

lemma char_of_byte: "char_of (byte c) = c"
  by (simp add: byte_def)

lemma byte_most: "byte c \<le> 255"
  using byte_less [of c] by linarith

lemma base64_reads_back [simp]: "base64_decode (base64_encode s) = Some s"
proof -
  have "base64_quanta (base64_encode s) = Some s"
  proof (induction s rule: base64_encode.induct)
    case (2 a)
    let ?v = "byte a * 16"
    have "?v < 64 * 64" using byte_less [of a] by linarith
    then have e: "?v div 64 mod 64 * 64 + ?v mod 64 = ?v" using small_top six_bits by metis
    have "base64_quanta (base64_encode [a]) = Some [char_of (?v div 16)]"
      by (simp only: e base64_encode.simps(2) Let_def base64_quanta.simps(2) base64_digit_facts(1) option.case prod.case refl if_True simp_thms)
    then show ?case by (simp add: byte_def)
  next
    case (3 a b)
    let ?w = "byte a * 256 + byte b" and ?v = "(byte a * 256 + byte b) * 4"
    have "?w \<le> 255 * 256 + 255" by (intro add_mono mult_right_mono byte_most) simp
    then have "?v < 262144" by simp
    then have "?v div 64 < 64 * 64" using less_mult_imp_div_less [of ?v "64 * 64" 64] by simp
    then have "?v div 64 div 64 mod 64 = ?v div 64 div 64" by (rule small_top)
    then have e: "(?v div 64 div 64 mod 64 * 64 + ?v div 64 mod 64) * 64 + ?v mod 64 = ?v" by (simp only: six_bits)
    have w: "?v div 4 = ?w" by simp
    have "base64_quanta (base64_encode [a, b]) = Some [char_of (?v div 4 div 256), char_of (?v div 4 mod 256)]"
      by (simp only: e base64_encode.simps(3) Let_def base64_quanta.simps(2) base64_digit_facts(1,2) option.case prod.case refl
          if_True if_False simp_thms)
    then show ?case
      by (simp only: w conjunct1 [OF shifted_byte [OF byte_less]] conjunct2 [OF shifted_byte [OF byte_less]] char_of_byte)
  next
    case (4 a b c s)
    let ?v = "(byte a * 256 + byte b) * 256 + byte c"
    have "?v \<le> (255 * 256 + 255) * 256 + 255" by (intro add_mono mult_right_mono byte_most) simp_all
    then have "?v < 16777216" by simp
    then have "?v div 64 < 262144" using less_mult_imp_div_less [of ?v 262144 64] by simp
    then have "?v div 64 div 64 < 64 * 64" using less_mult_imp_div_less [of "?v div 64" "64 * 64" 64] by simp
    then have "?v div 64 div 64 div 64 mod 64 = ?v div 64 div 64 div 64" by (rule small_top)
    then have e: "((?v div 64 div 64 div 64 mod 64 * 64 + ?v div 64 div 64 mod 64) * 64 + ?v div 64 mod 64) * 64 + ?v mod 64 = ?v"
      by (simp only: six_bits)
    have ih: "base64_quanta (base64_encode s) = Some s" using 4 by (simp add: Let_def)
    have "base64_quanta (base64_encode (a # b # c # s))
      = Some (char_of (?v div 256 div 256) # char_of (?v div 256 mod 256) # char_of (?v mod 256) # s)"
      unfolding base64_encode.simps(4) Let_def base64_quanta.simps(2) base64_digit_facts(1) option.case prod.case
      by (simp only: e ih base64_digit_facts(2) if_False option.case prod.case)
    also have "\<dots> = Some (a # b # c # s)"
      by (simp only: conjunct1 [OF shifted_byte [OF byte_less]] conjunct2 [OF shifted_byte [OF byte_less]] char_of_byte)
    finally show ?case .
  qed simp
  then show ?thesis by (simp add: base64_decode_def base64_no_ends)
qed

end
