(* ===== verification/VaultStore.thy ===== *)
theory VaultStore
  imports VaultForm
begin

text \<open>
  The two copies of the key file (\<^verbatim>\<open>internal/vault/store.go\<close>): reading both, choosing the vault to trust,
  and the changes that rewrite them.  A folder is its two files; each atomic write either happens or leaves
  the old file.  The fate of a run says whether the archive lock was had and kept and which writes succeed.
\<close>

subsection \<open>Reading a copy\<close>

text \<open>
  What \<^verbatim>\<open>lstat\<close> shows of a path, and what there is at one: an entry that cannot be opened, or the bytes
  read from it and whether the reading reached its end.
\<close>

record file_look =
  lk_link :: bool
  lk_regular :: bool
  lk_irregular :: bool
  lk_dir :: bool

datatype copy_file = Absent | Stat_fault | At file_look "(bool \<times> string) option"

definition descriptor_readable :: "bool \<Rightarrow> file_look \<Rightarrow> bool" where
  "descriptor_readable windows m \<longleftrightarrow> lk_regular m \<or> (windows \<and> lk_irregular m \<and> \<not> lk_dir m)"

definition judge_vault_file :: "bool \<Rightarrow> file_look \<Rightarrow> vault_error + unit" where
  "judge_vault_file windows m = (if lk_link m \<or> \<not> descriptor_readable windows m then Inl Corrupt else Inr ())"

definition max_vault_bytes :: nat where "max_vault_bytes = 65536"

text \<open>\<open>cd_vault\<close> is \<open>None\<close> for an absent file (\<^verbatim>\<open>os.ErrNotExist\<close>), else why it is unusable or what it both_hold.\<close>

record copy_on_disk =
  cd_raw :: string
  cd_vault :: "(vault_error + archive_vault) option"

definition read_copy :: "vault_world \<Rightarrow> bool \<Rightarrow> copy_file \<Rightarrow> copy_on_disk" where
  "read_copy W windows f = (case f of
     Absent \<Rightarrow> \<lparr>cd_raw = [], cd_vault = None\<rparr>
   | Stat_fault \<Rightarrow> \<lparr>cd_raw = [], cd_vault = Some (Inl Read_fault)\<rparr>
   | At m content \<Rightarrow> (case judge_vault_file windows m of
       Inl e \<Rightarrow> \<lparr>cd_raw = [], cd_vault = Some (Inl e)\<rparr>
     | Inr _ \<Rightarrow> (case content of
         None \<Rightarrow> \<lparr>cd_raw = [], cd_vault = Some (Inl Read_fault)\<rparr>
       | Some (whole, b) \<Rightarrow> let raw = take (max_vault_bytes + 1) b
           in \<lparr>cd_raw = raw, cd_vault = Some (if \<not> whole then Inl Read_fault else if max_vault_bytes < length raw then Inl Corrupt else parse_vault W raw)\<rparr>)))"

definition claimed_id :: "vault_world \<Rightarrow> string \<Rightarrow> archive_id option" where
  "claimed_id W raw = (case vw_archive W raw of
     None \<Rightarrow> None
   | Some s \<Rightarrow> (case parse_id s of None \<Rightarrow> None | Some aid \<Rightarrow> if aid = zero_id then None else Some aid))"

fun copy_ids :: "vault_world \<Rightarrow> copy_on_disk list \<Rightarrow> archive_id list" where
  "copy_ids W [] = []"
| "copy_ids W (c # cs) = (case cd_vault c of
     Some (Inr v) \<Rightarrow> va_id v # copy_ids W cs
   | _ \<Rightarrow> (case claimed_id W (cd_raw c) of Some aid \<Rightarrow> aid # copy_ids W cs | None \<Rightarrow> copy_ids W cs))"

fun parsed_copies :: "copy_on_disk list \<Rightarrow> (string \<times> archive_vault) list" where
  "parsed_copies [] = []"
| "parsed_copies (c # cs) = (case cd_vault c of Some (Inr v) \<Rightarrow> (cd_raw c, v) # parsed_copies cs | _ \<Rightarrow> parsed_copies cs)"

definition no_usable_copy :: "copy_on_disk list \<Rightarrow> vault_error" where
  "no_usable_copy cs =
     (if list_all (\<lambda>c. cd_vault c = None) cs then No_vault
      else case filter (\<lambda>c. cd_vault c \<noteq> None) cs of
        c # _ \<Rightarrow> (case cd_vault c of Some (Inl e) \<Rightarrow> e | _ \<Rightarrow> Corrupt)
      | [] \<Rightarrow> Corrupt)"

record key_folder =
  kf_windows :: bool
  kf_present :: bool
  kf_primary :: copy_file
  kf_mirror :: copy_file

text \<open>The copies as read, and those that parse, the highest generation first.\<close>

definition read_copies ::
  "vault_world \<Rightarrow> key_folder \<Rightarrow> archive_id \<Rightarrow> vault_error + copy_on_disk list \<times> (string \<times> archive_vault) list" where
  "read_copies W F want =
     (let all = [read_copy W (kf_windows F) (kf_primary F), read_copy W (kf_windows F) (kf_mirror F)];
        ids = copy_ids W all; parsed = parsed_copies all
      in if list_ex (\<lambda>c. cd_vault c = Some (Inl Newer_vault)) all then Inl Newer_vault
         else if 1 < length (remdups ids) then Inl Tampered
         else if want \<noteq> zero_id \<and> list_ex (\<lambda>i. i \<noteq> want) ids then Inl Tampered
         else if parsed = [] then Inl (no_usable_copy all)
         else Inr (all, sort_key (\<lambda>c. - uint (va_gen (snd c))) parsed))"

definition detect :: "vault_world \<Rightarrow> key_folder \<Rightarrow> vault_error + (archive_id \<times> 64 word) option" where
  "detect W F = (case read_copies W F zero_id of
     Inl e \<Rightarrow> if e = No_vault then Inr None else Inl e
   | Inr (all, parsed) \<Rightarrow> (case parsed of
       (_, v) # _ \<Rightarrow> Inr (Some (va_id v, va_gen v))
     | [] \<Rightarrow> Inl Index_panic))"

subsection \<open>Opening\<close>

datatype secret = By_password string | By_recovery string | By_key "vault_key option"

definition open_with :: "vault_world \<Rightarrow> secret \<Rightarrow> archive_vault \<Rightarrow> vault_error + vault_key" where
  "open_with W s v = (case s of
     By_password pw \<Rightarrow> unlock W v pw
   | By_recovery code \<Rightarrow> unlock_recovery W v code
   | By_key k \<Rightarrow> with_key k (\<lambda>k. on_ok (new_vault_key (va_id v) (vk_master k)) (\<lambda>k.
       if verify v (Some k) = Inr () then Inr k else Inl Wrong_secret)))"

definition secret_entry :: "secret \<Rightarrow> archive_vault \<Rightarrow> key_entry" where
  "secret_entry s v = (case s of By_password _ \<Rightarrow> va_password v | By_recovery _ \<Rightarrow> va_recovery v
     | By_key _ \<Rightarrow> \<lparr>ke_salt = replicate salt_size (CHR 0x00), ke_params = \<lparr>kp_memory = 0, kp_time = 0, kp_threads = 0\<rparr>, ke_wrapped = []\<rparr>)"

definition is_key :: "secret \<Rightarrow> bool" where
  "is_key s = (case s of By_key _ \<Rightarrow> True | _ \<Rightarrow> False)"

definition cost :: "secret \<Rightarrow> archive_vault \<Rightarrow> 64 word" where
  "cost s v = (let p = ke_params (secret_entry s v) in ucast (kp_memory p) * ucast (kp_time p))"

definition same_entry :: "key_entry \<Rightarrow> key_entry \<Rightarrow> bool" where
  "same_entry a b \<longleftrightarrow> ke_salt a = ke_salt b \<and> ke_params a = ke_params b \<and> ke_wrapped a = ke_wrapped b"

definition params_above :: "kdf_params \<Rightarrow> kdf_params \<Rightarrow> bool" where
  "params_above p lim \<longleftrightarrow> kp_memory lim < kp_memory p \<or> kp_time lim < kp_time p \<or> kp_threads lim < kp_threads p"

definition params_join :: "kdf_params \<Rightarrow> kdf_params \<Rightarrow> kdf_params" where
  "params_join p q = \<lparr>kp_memory = max (kp_memory p) (kp_memory q), kp_time = max (kp_time p) (kp_time q),
     kp_threads = max (kp_threads p) (kp_threads q)\<rparr>"

text \<open>The most any copy over the limit asks, in each setting.\<close>

fun over_limit :: "secret \<Rightarrow> kdf_params \<Rightarrow> (string \<times> archive_vault) list \<Rightarrow> kdf_params option \<Rightarrow> kdf_params option" where
  "over_limit s lim [] over = over"
| "over_limit s lim ((raw, v) # cs) over = (let p = ke_params (secret_entry s v) in
     over_limit s lim cs (if params_above p lim then Some (case over of None \<Rightarrow> p | Some q \<Rightarrow> params_join p q) else over))"

text \<open>The first copy that opens, each different file tried once, or why none did.\<close>

fun first_open :: "vault_world \<Rightarrow> secret \<Rightarrow> string list \<Rightarrow> vault_error list \<Rightarrow> (string \<times> archive_vault) list
    \<Rightarrow> vault_error list + vault_key \<times> archive_vault" where
  "first_open W s seen errs [] = Inl errs"
| "first_open W s seen errs ((raw, v) # cs) =
     (if raw \<in> set seen then first_open W s (raw # seen) errs cs
      else case open_with W s v of
        Inr k \<Rightarrow> Inr (k, v)
      | Inl e \<Rightarrow> first_open W s (raw # seen) (errs @ [e]) cs)"

definition most_telling :: "vault_error list \<Rightarrow> vault_error" where
  "most_telling errs = (if Tampered \<in> set errs then Tampered else if Wrong_secret \<in> set errs then Wrong_secret
     else case errs of e # _ \<Rightarrow> e | [] \<Rightarrow> Index_panic)"

record opened =
  op_vault :: archive_vault
  op_key :: vault_key
  op_needs_heal :: bool
  op_forked :: bool

definition authentic :: "vault_key \<Rightarrow> (string \<times> archive_vault) list \<Rightarrow> archive_vault list" where
  "authentic k parsed = filter (\<lambda>v. verify v (Some k) = Inr ()) (map snd parsed)"

definition choose_vault :: "vault_world \<Rightarrow> secret \<Rightarrow> vault_key \<Rightarrow> archive_vault \<Rightarrow> archive_vault list \<Rightarrow> vault_error + archive_vault" where
  "choose_vault W s k op auth = (case auth of
     [] \<Rightarrow> Inl Index_panic
   | best # _ \<Rightarrow>
       if va_gen op < va_gen best then
         if is_key s \<or> same_entry (secret_entry s best) (secret_entry s op)
            \<or> (case open_with W s best of Inr _ \<Rightarrow> True | Inl _ \<Rightarrow> False)
         then Inr best else Inl Wrong_secret
       else Inr op)"

definition open_vault :: "vault_world \<Rightarrow> key_folder \<Rightarrow> archive_id \<Rightarrow> secret \<Rightarrow> kdf_params option \<Rightarrow> vault_error + opened" where
  "open_vault W F want s limit =
     on_ok (read_copies W F want) (\<lambda>(all, parsed).
     case (case limit of Some lim \<Rightarrow> if is_key s then None else over_limit s lim parsed None | None \<Rightarrow> None) of
       Some p \<Rightarrow> Inl (Cost_refused (kp_memory p) (kp_time p) (kp_threads p))
     | None \<Rightarrow>
       (case first_open W s [] [] (sort_key (\<lambda>c. cost s (snd c)) parsed) of
          Inl errs \<Rightarrow> Inl (most_telling errs)
        | Inr (k, op) \<Rightarrow>
            on_ok (choose_vault W s k op (authentic k parsed)) (\<lambda>winner.
              Inr \<lparr>op_vault = winner, op_key = k,
                op_needs_heal = list_ex (\<lambda>c. cd_raw c \<noteq> marshal W winner) all,
                op_forked = list_ex (\<lambda>v. va_gen v = va_gen winner \<and> va_mac v \<noteq> va_mac winner) (authentic k parsed)\<rparr>)))"

definition verify_key :: "vault_world \<Rightarrow> key_folder \<Rightarrow> archive_id \<Rightarrow> vault_key option \<Rightarrow> vault_error + unit" where
  "verify_key W F want k = on_ok (open_vault W F want (By_key k) None) (\<lambda>_. Inr ())"

definition open_within :: "vault_world \<Rightarrow> key_folder \<Rightarrow> archive_id \<Rightarrow> secret \<Rightarrow> kdf_params \<Rightarrow> vault_error + opened" where
  "open_within W F want s lim = open_vault W F want s (Some lim)"

subsection \<open>Writing\<close>

text \<open>Whether the archive lock was had, was still held before the writes, and each write or removal succeeds.\<close>

record run_fate =
  rf_lock :: bool
  rf_held :: bool
  rf_primary :: bool
  rf_mirror :: bool
  rf_held_after :: bool
  rf_remove_primary :: bool
  rf_remove_mirror :: bool

definition plain_file :: "string \<Rightarrow> copy_file" where
  "plain_file b = At \<lparr>lk_link = False, lk_regular = True, lk_irregular = False, lk_dir = False\<rparr> (Some (True, b))"

text \<open>The folders a save passes through, the last one the one it ends in, and its outcome.\<close>

definition save :: "vault_world \<Rightarrow> run_fate \<Rightarrow> key_folder \<Rightarrow> archive_vault \<Rightarrow> key_folder list \<times> (vault_error + unit)" where
  "save W fate F v =
     (let F1 = F\<lparr>kf_primary := plain_file (marshal W v)\<rparr>; F2 = F1\<lparr>kf_mirror := plain_file (marshal W v)\<rparr>
      in if \<not> rf_primary fate then ([F], Inl Write_failed)
         else if \<not> rf_mirror fate then ([F, F1], Inl Partially_saved)
         else ([F, F1, F2], Inr ()))"

definition require_dir :: "key_folder \<Rightarrow> vault_error + unit" where
  "require_dir F = (if kf_present F then Inr () else Inl Archive_absent)"

definition lock_archive :: "run_fate \<Rightarrow> vault_error + unit" where
  "lock_archive fate = (if rf_lock fate then Inr () else Inl Lock_refused)"

definition still_held :: "run_fate \<Rightarrow> vault_error + unit" where
  "still_held fate = (if rf_held fate then Inr () else Inl Lock_lost)"

definition refuse_existing :: "key_folder \<Rightarrow> vault_error + unit" where
  "refuse_existing F = (if kf_primary F = Absent \<and> kf_mirror F = Absent then Inr () else Inl Vault_exists)"

text \<open>The steps before the writes, and then the writes: a refusal before them leaves the folder.\<close>

definition then_save :: "key_folder \<Rightarrow> vault_error + 'a \<Rightarrow> ('a \<Rightarrow> key_folder list \<times> (vault_error + 'b)) \<Rightarrow> key_folder list \<times> (vault_error + 'b)" where
  "then_save F x f = (case x of Inl e \<Rightarrow> ([F], Inl e) | Inr a \<Rightarrow> f a)"

definition mutate :: "vault_world \<Rightarrow> run_fate \<Rightarrow> key_folder \<Rightarrow> archive_id \<Rightarrow> secret
    \<Rightarrow> (opened \<Rightarrow> vault_error + archive_vault) \<Rightarrow> key_folder list \<times> (vault_error + unit)" where
  "mutate W fate F want s change =
     then_save F
       (on_ok (require_dir F) (\<lambda>_.
        on_ok (lock_archive fate) (\<lambda>_.
        on_ok (open_vault W F want s None) (\<lambda>o'.
        on_ok (change o') (\<lambda>n.
        if va_gen n \<le> va_gen (op_vault o') then Inl Generation_not_raised
        else on_ok (still_held fate) (\<lambda>_. Inr n))))))
       (save W fate F)"

definition change_password_at :: "vault_world \<Rightarrow> run_fate \<Rightarrow> key_folder \<Rightarrow> archive_id \<Rightarrow> secret \<Rightarrow> string \<Rightarrow> string
    \<Rightarrow> key_folder list \<times> (vault_error + unit)" where
  "change_password_at W fate F want s new r =
     mutate W fate F want s (\<lambda>o'. on_ok (with_password W (op_vault o') (Some (op_key o')) new r) (\<lambda>(n, _). Inr n))"

definition heal :: "vault_world \<Rightarrow> run_fate \<Rightarrow> key_folder \<Rightarrow> archive_id \<Rightarrow> secret \<Rightarrow> key_folder list \<times> (vault_error + unit)" where
  "heal W fate F want s =
     then_save F
       (on_ok (require_dir F) (\<lambda>_.
        on_ok (lock_archive fate) (\<lambda>_.
        on_ok (open_vault W F want s None) (\<lambda>o'.
        if op_forked o' then Inl Conflict
        else if \<not> op_needs_heal o' then Inr None
        else on_ok (still_held fate) (\<lambda>_. Inr (Some (op_vault o')))))))
       (\<lambda>w. case w of None \<Rightarrow> ([F], Inr ()) | Some v \<Rightarrow> save W fate F v)"

subsection \<open>A new archive, prepared and committed\<close>

record pending_create =
  pc_vault :: archive_vault
  pc_key :: "vault_key option"
  pc_recovery :: string
  pc_done :: bool

definition prepare_create :: "vault_world \<Rightarrow> key_folder \<Rightarrow> string \<Rightarrow> string \<Rightarrow> vault_error + pending_create \<times> string" where
  "prepare_create W F password r =
     on_ok (require_dir F) (\<lambda>_.
     on_ok (refuse_existing F) (\<lambda>_.
     on_ok (create W password r) (\<lambda>(v, k, rk, r).
       Inr (\<lparr>pc_vault = v, pc_key = Some k, pc_recovery = rk, pc_done = False\<rparr>, r))))"

definition discard_create :: "pending_create \<Rightarrow> pending_create" where
  "discard_create p = (if pc_done p then p else p\<lparr>pc_key := map_option destroy_key (pc_key p), pc_done := True\<rparr>)"

text \<open>A failed save is undone: what was written is removed while the lock is still held.\<close>

definition undo_create :: "run_fate \<Rightarrow> key_folder list \<Rightarrow> key_folder list \<times> (vault_error + 'b)" where
  "undo_create fate Fs =
     (let F = last Fs
      in if \<not> rf_held_after fate then (Fs, Inl Clean_up_failed)
         else let F1 = (if rf_remove_primary fate then F\<lparr>kf_primary := Absent\<rparr> else F);
                F2 = (if rf_remove_mirror fate then F1\<lparr>kf_mirror := Absent\<rparr> else F1)
              in (Fs @ [F1, F2],
                  if kf_primary F2 \<noteq> Absent \<or> kf_mirror F2 \<noteq> Absent then Inl Clean_up_failed else Inl Write_failed))"

definition commit_create :: "vault_world \<Rightarrow> run_fate \<Rightarrow> key_folder \<Rightarrow> pending_create
    \<Rightarrow> key_folder list \<times> pending_create \<times> (vault_error + vault_key)" where
  "commit_create W fate F p =
     (if pc_done p then ([F], p, Inl Pending_used)
      else case on_ok (require_dir F) (\<lambda>_. on_ok (lock_archive fate) (\<lambda>_. on_ok (refuse_existing F) (\<lambda>_. still_held fate))) of
        Inl e \<Rightarrow> ([F], p, Inl e)
      | Inr _ \<Rightarrow> (case save W fate F (pc_vault p) of
          (Fs, Inl e) \<Rightarrow> (case undo_create fate Fs of (Fs, x) \<Rightarrow> (Fs, p, x))
        | (Fs, Inr _) \<Rightarrow> (case pc_key p of
            Some k \<Rightarrow> (Fs, p\<lparr>pc_key := None, pc_done := True\<rparr>, Inr k)
          | None \<Rightarrow> (Fs, p, Inl Index_panic))))"

subsection \<open>A new recovery key, prepared and committed\<close>

record pending_recovery =
  pr_want :: archive_id
  pr_key :: vault_key
  pr_base :: archive_vault
  pr_next :: archive_vault
  pr_recovery :: string
  pr_done :: bool

definition prepare_new_recovery :: "vault_world \<Rightarrow> key_folder \<Rightarrow> archive_id \<Rightarrow> secret \<Rightarrow> string \<Rightarrow> vault_error + pending_recovery \<times> string" where
  "prepare_new_recovery W F want s r =
     on_ok (open_vault W F want s None) (\<lambda>o'.
     on_ok (with_new_recovery W (op_vault o') (Some (op_key o')) r) (\<lambda>(n, rk, r).
       Inr (\<lparr>pr_want = want, pr_key = op_key o', pr_base = op_vault o', pr_next = n, pr_recovery = rk, pr_done = False\<rparr>, r)))"

definition finish_recovery :: "pending_recovery \<Rightarrow> pending_recovery" where
  "finish_recovery p = p\<lparr>pr_key := destroy_key (pr_key p), pr_done := True\<rparr>"

definition discard_recovery :: "pending_recovery \<Rightarrow> pending_recovery" where
  "discard_recovery p = (if pr_done p then p else finish_recovery p)"

text \<open>Whether the vault the change was made from is still the newest authentic one.\<close>

fun base_found :: "pending_recovery \<Rightarrow> archive_vault list \<Rightarrow> bool \<Rightarrow> bool" where
  "base_found p [] found = found"
| "base_found p (v # vs) found =
     (if verify v (Some (pr_key p)) \<noteq> Inr () then base_found p vs found
      else if va_gen (pr_base p) < va_gen v then False
      else base_found p vs (found \<or> (va_gen v = va_gen (pr_base p) \<and> va_mac v = va_mac (pr_base p))))"

definition commit_recovery :: "vault_world \<Rightarrow> run_fate \<Rightarrow> key_folder \<Rightarrow> pending_recovery
    \<Rightarrow> key_folder list \<times> pending_recovery \<times> (vault_error + unit)" where
  "commit_recovery W fate F p =
     (if pr_done p then ([F], p, Inl Pending_used)
      else case on_ok (require_dir F) (\<lambda>_. on_ok (lock_archive fate) (\<lambda>_. read_copies W F (pr_want p))) of
        Inl e \<Rightarrow> ([F], p, Inl e)
      | Inr (_, parsed) \<Rightarrow>
          if \<not> base_found p (map snd parsed) False then ([F], finish_recovery p, Inl Conflict)
          else (case still_held fate of
            Inl e \<Rightarrow> ([F], p, Inl e)
          | Inr _ \<Rightarrow> (case save W fate F (pr_next p) of
              (Fs, Inl e) \<Rightarrow> (Fs, if e = Partially_saved then finish_recovery p else p, Inl e)
            | (Fs, Inr _) \<Rightarrow> (Fs, finish_recovery p, Inr ()))))"

end
