(* ===== verification/VaultRestore.thy ===== *)
theory VaultRestore
  imports VaultStore
begin

text \<open>
  Putting a lost key file back (\<^verbatim>\<open>internal/vault/restore.go\<close>): the recovery file, proving the key against the
  archive's sealed record, preparing a key file that outranks every copy, and committing it over a folder
  that has not changed.
\<close>

subsection \<open>The recovery file\<close>

definition recovery_file_format :: int where "recovery_file_format = 1"
definition recovery_file_kind :: string where "recovery_file_kind = ''mailarchive-recovery-file''"
definition max_recovery_file :: nat where "max_recovery_file = 4096"

record recovery_form =
  rm_format :: int
  rm_kind :: string
  rm_archive :: string
  rm_entry :: entry_form

record recovery_codec =
  rc_write :: "recovery_form \<Rightarrow> string"
  rc_read :: "string \<Rightarrow> (recovery_form \<times> bool) option"
  rc_format :: "string \<Rightarrow> int option"

definition recovery_file :: "recovery_codec \<Rightarrow> archive_vault \<Rightarrow> string" where
  "recovery_file R v = rc_write R \<lparr>rm_format = recovery_file_format, rm_kind = recovery_file_kind, rm_archive = hex_encode (va_id v),
     rm_entry = entry_to_form Entry_recovery (va_recovery v)\<rparr> @ [CHR 0x0A]"

definition parse_recovery_file :: "recovery_codec \<Rightarrow> string \<Rightarrow> vault_error + archive_id \<times> key_entry" where
  "parse_recovery_file R data =
     (if max_recovery_file < length data then Inl Recovery_file_bad
      else if (case rc_format R data of Some n \<Rightarrow> recovery_file_format < n | None \<Rightarrow> False) then Inl Newer_vault
      else case rc_read R data of
        None \<Rightarrow> Inl Recovery_file_bad
      | Some (f, trailing) \<Rightarrow>
          if trailing \<or> rm_format f \<noteq> recovery_file_format \<or> rm_kind f \<noteq> recovery_file_kind then Inl Recovery_file_bad
          else case parse_id (rm_archive f) of
            None \<Rightarrow> Inl Recovery_file_bad
          | Some aid \<Rightarrow>
              if aid = zero_id then Inl Recovery_file_bad
              else case entry_of_form (rm_entry f) of
                Some (Entry_recovery, e) \<Rightarrow> Inr (aid, e)
              | _ \<Rightarrow> Inl Recovery_file_bad)"

subsection \<open>Where the key comes from\<close>

text \<open>A recovery file with its recovery key and a cost limit, or what this computer's store both_hold for an archive.\<close>

datatype restore_source = From_entry archive_id key_entry string "kdf_params option" | Remembered archive_id "string option"

definition vouches :: "restore_source \<Rightarrow> archive_vault \<Rightarrow> bool" where
  "vouches src v = (case src of From_entry _ e _ _ \<Rightarrow> same_entry (va_recovery v) e | Remembered _ _ \<Rightarrow> True)"

definition restore_key :: "vault_world \<Rightarrow> restore_source \<Rightarrow> vault_error + vault_key" where
  "restore_key W src = (case src of
     From_entry aid e code limit \<Rightarrow>
       on_ok (parse_recovery_key (vw_text W) code) (\<lambda>rk.
       if (case limit of Some lim \<Rightarrow> params_above (ke_params e) lim | None \<Rightarrow> False)
       then Inl (Cost_refused (kp_memory (ke_params e)) (kp_time (ke_params e)) (kp_threads (ke_params e)))
       else on_ok (derive_kek W rk (ke_salt e) (ke_params e)) (\<lambda>kek.
         case open_sealed (vw_cipher W) kek (wrap_aad aid Entry_recovery) (ke_wrapped e) of
           Inl _ \<Rightarrow> Inl Wrong_secret
         | Inr master \<Rightarrow> new_vault_key aid master))
   | Remembered claimed stored \<Rightarrow> (case stored of
       None \<Rightarrow> Inl Key_not_retrievable
     | Some s \<Rightarrow> (case base64_decode s of
         None \<Rightarrow> Inl Key_not_retrievable
       | Some master \<Rightarrow> if length master \<noteq> key_size then Inl Key_not_retrievable else new_vault_key claimed master)))"

subsection \<open>Judging the folder\<close>

text \<open>The archive folder: which directory it is, its key files and its record's pointer and mirror.\<close>

datatype pointer_file = No_pointer | Bad_pointer | Pointer string

record record_folder =
  rf_identity :: nat
  rf_keys :: key_folder
  rf_pointer :: pointer_file
  rf_pointer_mirror :: pointer_file

definition generation_headroom :: "64 word" where "generation_headroom = 2 ^ 32"
definition release_floor :: int where "release_floor = 1792972800"
definition pointer_magic :: string where "pointer_magic = ''MAPF''"
definition pointer_head_size :: nat where "pointer_head_size = 14"

record restore_state =
  rt_copies :: "string list"
  rt_pointers :: "string list"
  rt_highest :: "64 word"

definition same_state :: "restore_state \<Rightarrow> restore_state \<Rightarrow> bool" where
  "same_state a b \<longleftrightarrow> rt_copies a = rt_copies b \<and> rt_pointers a = rt_pointers b"

definition claimed_generation :: "vault_world \<Rightarrow> string \<Rightarrow> 64 word" where
  "claimed_generation W raw = (case vw_generation W raw of Some g \<Rightarrow> g | None \<Rightarrow> 0)"

text \<open>One copy judged: a refusal, or the generation it claims and whether it is a vault the source does not vouch for.\<close>

definition judge_copy :: "vault_world \<Rightarrow> vault_key \<Rightarrow> restore_source \<Rightarrow> copy_on_disk \<Rightarrow> vault_error + (64 word) \<times> bool" where
  "judge_copy W k src c =
     (if cd_vault c = Some (Inl Newer_vault) then Inl Newer_vault
      else if (case cd_vault c of Some (Inl e) \<Rightarrow> e \<noteq> Corrupt | _ \<Rightarrow> False) then Inl Key_file_unreadable
      else let claims = (case cd_vault c of Some (Inr v) \<Rightarrow> Some (va_id v) | _ \<Rightarrow> claimed_id W (cd_raw c));
        g = claimed_generation W (cd_raw c)
      in if claims \<noteq> None \<and> claims \<noteq> Some (vk_id k) then Inl Tampered
         else if (case cd_vault c of Some (Inr v) \<Rightarrow> verify v (Some k) = Inr () | _ \<Rightarrow> False) then Inl Key_file_opens
         else if max_generation - generation_headroom \<le> g then Inl Corrupt
         else Inr (g, case cd_vault c of Some (Inr v) \<Rightarrow> \<not> vouches src v | _ \<Rightarrow> False))"

text \<open>One pointer judged: whether it is there, its bytes, and whether it opens under the key.\<close>

definition judge_pointer :: "vault_world \<Rightarrow> vault_key \<Rightarrow> pointer_file \<Rightarrow> vault_error + bool \<times> string \<times> bool" where
  "judge_pointer W k f = (case f of
     No_pointer \<Rightarrow> Inr (False, [], False)
   | Bad_pointer \<Rightarrow> Inl Key_file_unreadable
   | Pointer raw \<Rightarrow>
       if length raw < pointer_head_size \<or> take 4 raw \<noteq> pointer_magic then Inr (True, raw, False)
       else if unat format_version < from_be (take 2 (drop 4 raw)) then Inl Newer_vault
       else Inr (True, raw, case open_pointer (vw_cipher W) (Some k) container_manifest
           (word_of_nat (from_be (take 8 (drop 6 raw)))) (drop pointer_head_size raw) of Inr _ \<Rightarrow> True | Inl _ \<Rightarrow> False))"

definition judge_restore :: "vault_world \<Rightarrow> record_folder \<Rightarrow> archive_id \<Rightarrow> vault_key \<Rightarrow> restore_source \<Rightarrow> vault_error + restore_state" where
  "judge_restore W F want k src =
     (let a = read_copy W (kf_windows (rf_keys F)) (kf_primary (rf_keys F)); b = read_copy W (kf_windows (rf_keys F)) (kf_mirror (rf_keys F))
      in on_ok (judge_copy W k src a) (\<lambda>(g, x).
         on_ok (judge_copy W k src b) (\<lambda>(h, y).
         on_ok (judge_pointer W k (rf_pointer F)) (\<lambda>(here, p, proven).
         on_ok (judge_pointer W k (rf_pointer_mirror F)) (\<lambda>(here', q, proven').
           let st = \<lparr>rt_copies = [cd_raw a, cd_raw b], rt_pointers = [p, q], rt_highest = max g h\<rparr>
           in if proven \<or> proven' then Inr st
              else if here \<or> here' then Inl Not_proven
              else if want = zero_id \<or> want \<noteq> vk_id k then Inl Not_proven
              else if x \<or> y then Inl Not_proven
              else Inr st)))))"

subsection \<open>Preparing and committing\<close>

record pending_restore =
  pe_identity :: nat
  pe_want :: archive_id
  pe_source :: restore_source
  pe_key :: vault_key
  pe_next :: archive_vault
  pe_recovery :: string
  pe_state :: restore_state
  pe_done :: bool

text \<open>\<open>pinned\<close> says whether the directory's identity could be fixed, \<open>now\<close> is the clock in Unix seconds.\<close>

definition prepare_restore :: "vault_world \<Rightarrow> record_folder \<Rightarrow> archive_id \<Rightarrow> restore_source \<Rightarrow> string \<Rightarrow> int \<Rightarrow> bool \<Rightarrow> string
    \<Rightarrow> vault_error + pending_restore \<times> string" where
  "prepare_restore W F want src new now pinned r =
     on_ok (check_new_password W new) (\<lambda>_.
     on_ok (require_dir (rf_keys F)) (\<lambda>_.
     if \<not> pinned then Inl Conflict
     else if now < release_floor then Inl Clock_wrong
     else on_ok (restore_key W src) (\<lambda>k.
     if want \<noteq> zero_id \<and> vk_id k \<noteq> want then Inl Tampered
     else on_ok (judge_restore W F want k src) (\<lambda>st.
     if max_generation - generation_headroom \<le> (word_of_int now :: 64 word) then Inl Clock_wrong
     else let gen = max (word_of_int now) (rt_highest st + 1)
     in on_ok (new_recovery_key r) (\<lambda>(rk, r).
        on_ok (wrap W (vk_id k) Entry_password (password_bytes W new) (vk_master k) r) (\<lambda>(pw, r).
        on_ok (wrap W (vk_id k) Entry_recovery rk (vk_master k) r) (\<lambda>(rec, r).
          Inr (\<lparr>pe_identity = rf_identity F, pe_want = want, pe_source = src, pe_key = k,
                pe_next = signed_vault (vk_id k) gen pw rec k, pe_recovery = rk, pe_state = st, pe_done = False\<rparr>, r))))))))"

definition discard_restore :: "pending_restore \<Rightarrow> pending_restore" where
  "discard_restore p = (if pe_done p then p else p\<lparr>pe_key := destroy_key (pe_key p), pe_done := True\<rparr>)"

text \<open>A folder gone is refused without spending the restore; another folder in its place spends it.\<close>

definition same_folder :: "pending_restore \<Rightarrow> record_folder \<Rightarrow> (vault_error + unit) \<times> pending_restore" where
  "same_folder p F = (case require_dir (rf_keys F) of
     Inl e \<Rightarrow> (Inl e, p)
   | Inr _ \<Rightarrow> if rf_identity F \<noteq> pe_identity p then (Inl Conflict, discard_restore p) else (Inr (), p))"

definition read_back :: "vault_world \<Rightarrow> pending_restore \<Rightarrow> key_folder \<Rightarrow> bool" where
  "read_back W p F = (let c = read_copy W (kf_windows F) (kf_primary F)
     in case cd_vault c of
          Some (Inr v) \<Rightarrow> cd_raw c = marshal W (pe_next p) \<and> verify v (Some (pe_key p)) = Inr ()
        | _ \<Rightarrow> False)"

text \<open>
  The commit over a folder as it is found: \<open>before\<close> is what the folder is when it is looked at again before the
  write, \<open>after\<close> what others make of the key files before the read-back.  The key folders passed through, the
  restore left over and the outcome.
\<close>

definition commit_restore :: "vault_world \<Rightarrow> run_fate \<Rightarrow> record_folder \<Rightarrow> (record_folder \<Rightarrow> record_folder) \<Rightarrow> (key_folder \<Rightarrow> key_folder)
    \<Rightarrow> pending_restore \<Rightarrow> key_folder list \<times> pending_restore \<times> (vault_error + unit)" where
  "commit_restore W fate F before after p =
     (let K = rf_keys F
      in if pe_done p then ([K], p, Inl Pending_used)
      else case same_folder p F of
        (Inl e, p) \<Rightarrow> ([K], p, Inl e)
      | (Inr _, p) \<Rightarrow> (case lock_archive fate of
          Inl e \<Rightarrow> ([K], p, Inl e)
        | Inr _ \<Rightarrow> (case judge_restore W F (pe_want p) (pe_key p) (pe_source p) of
            Inl _ \<Rightarrow> ([K], discard_restore p, Inl Conflict)
          | Inr st \<Rightarrow>
              if \<not> same_state st (pe_state p) then ([K], discard_restore p, Inl Conflict)
              else (case still_held fate of
                Inl e \<Rightarrow> ([K], p, Inl e)
              | Inr _ \<Rightarrow> (case same_folder p (before F) of
                  (Inl e, p) \<Rightarrow> ([K], p, Inl e)
                | (Inr _, p) \<Rightarrow> (case save W fate K (pe_next p) of
                    (Fs, res) \<Rightarrow>
                      if res \<noteq> Inr () \<and> res \<noteq> Inl Partially_saved then (Fs, p, res)
                      else if \<not> read_back W p (after (last Fs)) then (Fs, discard_restore p, Inl Unconfirmed)
                      else (Fs, discard_restore p, res)))))))"

end
