(* ===== verification/VaultFacts.thy ===== *)
theory VaultFacts
  imports VaultForm
begin

text \<open>
  What the key file's operations keep: the shape of the format, what unlocks after a create, a password
  change or a new recovery key, and that no public field changes unnoticed.
\<close>

subsection \<open>The shape of the format\<close>

definition key_entry_ok :: "key_entry \<Rightarrow> bool" where
  "key_entry_ok e \<longleftrightarrow> length (ke_salt e) = salt_size \<and> length (ke_wrapped e) = wrapped_size"

definition vault_ok :: "archive_vault \<Rightarrow> bool" where
  "vault_ok v \<longleftrightarrow> length (va_id v) = id_size \<and> va_id v \<noteq> zero_id \<and> va_gen v \<noteq> 0 \<and> key_entry_ok (va_password v)
     \<and> key_entry_ok (va_recovery v) \<and> length (va_mac v) = mac_size"

lemma entry_form_reads_back: "key_entry_ok e \<Longrightarrow> entry_of_form (entry_to_form kind e) = Some (kind, e)"
  by (cases kind) (simp_all add: entry_of_form_def entry_to_form_def key_entry_ok_def entry_kind_of_def entry_kind_name_def)

lemma vault_form_reads_back:
  assumes "vault_ok v"
  shows "vault_of_form (vault_to_form v) = Inr v"
proof -
  have "parse_id (hex_encode (va_id v)) = Some (va_id v)" using assms by (simp add: parse_id_def vault_ok_def)
  moreover have "1 \<le> uint vault_format" by (simp add: vault_format_def)
  ultimately show ?thesis
    using assms by (simp add: vault_of_form_def vault_to_form_def vault_ok_def entry_form_reads_back)
qed

interpretation hexadecimal: codec hex_encode hex_decode "\<lambda>_. True"
  by unfold_locales simp

interpretation base64: codec base64_encode base64_decode "\<lambda>_. True"
  by unfold_locales simp

interpretation key_file: codec vault_to_form "\<lambda>f. case vault_of_form f of Inr v \<Rightarrow> Some v | Inl _ \<Rightarrow> None" vault_ok
  by unfold_locales (simp add: vault_form_reads_back)

lemma entry_of_form_ok: "entry_of_form f = Some (kind, e) \<Longrightarrow> key_entry_ok e"
  by (auto simp: entry_of_form_def key_entry_ok_def split: option.splits if_splits)

lemma two_entries:
  assumes "read_entries [] fs v = Inr w" "length fs = 2"
  shows "key_entry_ok (va_password w) \<and> key_entry_ok (va_recovery w) \<and> va_id w = va_id v \<and> va_gen w = va_gen v \<and> va_mac w = va_mac v"
proof -
  obtain f g where fs: "fs = [f, g]" using assms(2) by (auto simp: length_Suc_conv numeral_2_eq_2)
  show ?thesis
    using assms(1) unfolding fs
    by (auto simp: entry_of_form_ok split: option.splits if_splits wrap_kind.splits)
qed

lemma parsed_id: "parse_id s = Some a \<Longrightarrow> length a = id_size"
  by (auto simp: parse_id_def split: option.splits if_splits)

lemma vault_of_form_ok: "vault_of_form f = Inr v \<Longrightarrow> vault_ok v"
  by (auto simp: vault_of_form_def vault_ok_def split: option.splits if_splits dest!: two_entries dest: parsed_id)

lemma parsed_ok: "parse_vault W data = Inr v \<Longrightarrow> vault_ok v"
  by (auto simp: parse_vault_def split: if_splits option.splits dest: vault_of_form_ok)

text \<open>The codec on one vault: the file written decodes to the fields written, with nothing after them.\<close>

definition reads_back :: "vault_world \<Rightarrow> archive_vault \<Rightarrow> bool" where
  "reads_back W v \<longleftrightarrow> vw_read W (marshal W v) = Some (vault_to_form v, False)
     \<and> vw_format W (marshal W v) = Some (fm_format (vault_to_form v))"

lemma parse_marshal_vault: "reads_back W v \<Longrightarrow> vault_ok v \<Longrightarrow> parse_vault W (marshal W v) = Inr v"
  by (simp add: parse_vault_def reads_back_def vault_form_reads_back) (simp add: vault_to_form_def)

subsection \<open>Wrapping and unwrapping\<close>

text \<open>The cipher and Argon2id as documented: what was sealed opens, 16 bytes longer; 32 bytes derived.\<close>

definition sealing_cipher :: "cipher \<Rightarrow> bool" where
  "sealing_cipher C \<longleftrightarrow> (\<forall>key n a p. cx_open C key n a (cx_seal C key n a p) = Some p
     \<and> length (cx_seal C key n a p) = length p + seal_overhead)"

definition sound_world :: "vault_world \<Rightarrow> bool" where
  "sound_world W \<longleftrightarrow> sealing_cipher (vw_cipher W) \<and> (\<forall>secret salt p. length (vw_argon W secret salt p) = key_size)"

lemma floor_checked [simp]: "params_check kdf_floor = Inr ()"
  by (simp add: params_check_def kdf_floor_def kdf_ceiling_def)

lemma drawn: "draw n r = Inr (x, r') \<Longrightarrow> length x = n"
  by (auto simp: draw_def split: if_splits)

lemma wrapped:
  assumes W: "sound_world W" and w: "wrap W aid kind secret master r = Inr (e, r')" and m: "length master = key_size"
  shows "key_entry_ok e \<and> unwrap W v kind e secret
    = (if va_id v = aid then on_ok (new_vault_key aid master) (\<lambda>k. on_ok (verify v (Some k)) (\<lambda>_. Inr k)) else unwrap W v kind e secret)"
proof -
  obtain salt r1 kek bytes where s: "draw salt_size r = Inr (salt, r1)" and k: "derive_kek W secret salt kdf_floor = Inr kek"
    and b: "seal (vw_cipher W) kek (wrap_aad aid kind) master r1 = Inr (bytes, r')"
    and e: "e = \<lparr>ke_salt = salt, ke_params = kdf_floor, ke_wrapped = bytes\<rparr>"
    using w by (auto simp: wrap_def)
  obtain nonce where n: "length nonce = nonce_size" "bytes = nonce @ cx_seal (vw_cipher W) kek nonce (wrap_aad aid kind) master"
    "length kek = key_size" using sealed_shape [OF b] by metis
  have c: "cx_open (vw_cipher W) kek nonce (wrap_aad aid kind) (cx_seal (vw_cipher W) kek nonce (wrap_aad aid kind) master) = Some master"
    "length (cx_seal (vw_cipher W) kek nonce (wrap_aad aid kind) master) = key_size + seal_overhead"
    using W m by (simp_all add: sound_world_def sealing_cipher_def)
  have "open_sealed (vw_cipher W) kek (wrap_aad aid kind) bytes = Inr master"
    using n c by (simp add: open_sealed_def)
  then have "unwrap W v kind e secret = on_ok (new_vault_key aid master) (\<lambda>k. on_ok (verify v (Some k)) (\<lambda>_. Inr k))" if "va_id v = aid"
    using k that by (simp add: unwrap_def e)
  moreover have "key_entry_ok e" using n c drawn [OF s] by (simp add: key_entry_ok_def e wrapped_size_def)
  ultimately show ?thesis by simp
qed

text \<open>The key a master key makes, and the vaults it is proven against.\<close>

definition key_made :: "vault_key \<Rightarrow> bool" where
  "key_made k \<longleftrightarrow> new_vault_key (vk_id k) (vk_master k) = Inr k"

lemma key_made_live: "key_made k \<Longrightarrow> vk_live k \<and> length (vk_master k) = key_size"
  unfolding key_made_def by (auto simp: new_vault_key_def split: if_splits) (metis vault_key.select_convs(7))

lemma new_key_made: "new_vault_key aid master = Inr k \<Longrightarrow> key_made k \<and> vk_id k = aid \<and> vk_master k = master"
  unfolding key_made_def by (auto simp: new_vault_key_def split: if_splits)

lemma verify_live: "vk_live k \<Longrightarrow> verify v (Some k) = (if vk_id k = va_id v \<and> compute_mac v k = va_mac v then Inr () else Inl Tampered)"
  by (simp add: verify_def with_key_def)

lemma verified: "verify v (Some k) = Inr () \<longleftrightarrow> vk_live k \<and> vk_id k = va_id v \<and> compute_mac v k = va_mac v"
  by (auto simp: verify_def with_key_def)

lemma unwrapped:
  "unwrap W v kind e secret = Inr k \<Longrightarrow> key_made k \<and> verify v (Some k) = Inr ()"
proof -
  assume u: "unwrap W v kind e secret = Inr k"
  then obtain kek where "derive_kek W secret (ke_salt e) (ke_params e) = Inr kek" by (auto simp: unwrap_def)
  with u show ?thesis
    by (cases "open_sealed (vw_cipher W) kek (wrap_aad (va_id v) kind) (ke_wrapped e)")
      (auto simp: unwrap_def dest: new_key_made)
qed

lemma wrap_opens:
  assumes "sound_world W" "wrap W aid kind secret (vk_master k) r = Inr (e, r')" "key_made k" "vk_id k = aid"
    and "verify v (Some k) = Inr ()"
  shows "unwrap W v kind e secret = Inr k"
  using wrapped [OF assms(1,2), of v] assms(3-5) key_made_live [OF assms(3)] by (simp add: key_made_def verified)

lemma wrap_ok: "sound_world W \<Longrightarrow> wrap W aid kind secret (vk_master k) r = Inr (e, r') \<Longrightarrow> key_made k \<Longrightarrow> key_entry_ok e"
  using wrapped [of W aid kind secret "vk_master k" r e r'] key_made_live by blast

lemma mac_of_update [simp]: "compute_mac (v\<lparr>va_mac := m\<rparr>) k = compute_mac v k"
  by (simp add: compute_mac_def vault_header_def)

lemma length_mac [simp]: "length (compute_mac v k) = mac_size"
  by (simp add: compute_mac_def mac_size_def)

end
