(* ===== verification/VaultSample.thy ===== *)
theory VaultSample
  imports VaultFacts
begin

text \<open>
  One world in which what is assumed of the cipher, of Argon2id, of the text tables and of the codec holds:
  a cipher that tags with its key, a derivation that pads the secret, a codec of fixed-width fields.
\<close>

definition tag16 :: "string \<Rightarrow> string" where
  "tag16 key = take 16 (key @ replicate 16 (CHR 0x00))"

definition tag_cipher :: cipher where
  "tag_cipher = \<lparr>cx_seal = (\<lambda>key n a p. p @ tag16 key),
     cx_open = (\<lambda>key n a c. if drop (length c - 16) c = tag16 key then Some (take (length c - 16) c) else None)\<rparr>"

definition pad_argon :: "string \<Rightarrow> string \<Rightarrow> kdf_params \<Rightarrow> string" where
  "pad_argon secret salt p = take 32 (secret @ replicate 32 (CHR 0x00))"

definition fixed_entry :: "entry_form \<Rightarrow> string" where
  "fixed_entry f = be_word (ef_memory f) @ be_word (ef_time f) @ be_word (ef_threads f) @ ef_salt f @ ef_wrapped f"

definition read_word :: "string \<Rightarrow> 'a :: len word" where
  "read_word s = word_of_nat (from_be s)"

definition read_fixed :: "wrap_kind \<Rightarrow> string \<Rightarrow> entry_form" where
  "read_fixed kind s = \<lparr>ef_kind = entry_kind_name kind, ef_kdf = kdf_argon2id, ef_salt = take 24 (drop 9 s),
     ef_memory = read_word (take 4 s), ef_time = read_word (take 4 (drop 4 s)), ef_threads = read_word (take 1 (drop 8 s)),
     ef_wrapped = take 96 (drop 33 s)\<rparr>"

definition fixed_write :: "vault_form \<Rightarrow> string" where
  "fixed_write f = be_word (fm_generation f) @ fm_archive f @ fm_mac f @ concat (map fixed_entry (fm_entries f))"

definition fixed_read :: "string \<Rightarrow> vault_form" where
  "fixed_read s = \<lparr>fm_format = 1, fm_archive = take 32 (drop 8 s), fm_generation = read_word (take 8 s),
     fm_entries = [read_fixed Entry_password (drop 104 s), read_fixed Entry_recovery (drop 233 s)], fm_mac = take 64 (drop 40 s)\<rparr>"

definition sample_vault_world :: vault_world where
  "sample_vault_world = \<lparr>vw_cipher = tag_cipher, vw_argon = pad_argon, vw_text = ascii_world, vw_write = fixed_write,
     vw_read = (\<lambda>s. if length s = 363 then Some (fixed_read s, False) else None), vw_format = (\<lambda>s. Some 1),
     vw_archive = (\<lambda>s. if s = [] then None else Some (take 32 (drop 8 s))), vw_generation = (\<lambda>s. Some (read_word (take 8 s)))\<rparr>"

lemma read_be_word [simp]:
  "read_word (be_word (a :: 8 word)) = a" "read_word (be_word (c :: 32 word)) = c" "read_word (be_word (d :: 64 word)) = d"
proof -
  have "from_be (be (LENGTH('a) div 8) (unat w)) = unat w" if "256 ^ (LENGTH('a) div 8) = (2 :: nat) ^ LENGTH('a)" for w :: "'a :: len word"
    using that from_be_be [of "LENGTH('a) div 8" "unat w"] unsigned_less [of w, where 'a = nat] by simp
  note h = this
  show "read_word (be_word (a :: 8 word)) = a" "read_word (be_word (c :: 32 word)) = c" "read_word (be_word (d :: 64 word)) = d"
    using h [of a] h [of c] h [of d] by (simp_all add: read_word_def be_word_def)
qed

lemma length_base64: "length (base64_encode s) = 4 * ((length s + 2) div 3)"
proof (induction s rule: base64_encode.induct)
  case (4 a b c s)
  have "(5 + length s) div 3 = Suc ((2 + length s) div 3)" by linarith
  with 4 show ?case by (simp add: Let_def)
qed (simp_all add: Let_def)

lemma padded [simp]: "min m n + (n - m) = (n :: nat)"
  by linarith

lemma read_fixed_entry:
  assumes "key_entry_ok e"
  shows "read_fixed kind (fixed_entry (entry_to_form kind e) @ t) = entry_to_form kind e"
    "length (fixed_entry (entry_to_form kind e)) = 129"
  using assms
  by (simp_all add: read_fixed_def fixed_entry_def entry_to_form_def key_entry_ok_def length_base64 salt_size_def wrapped_size_def
      nonce_size_def key_size_def seal_overhead_def)

lemma sample_reads_back: "vault_ok v \<Longrightarrow> reads_back sample_vault_world v" "vault_ok v \<Longrightarrow> length (marshal sample_vault_world v) = 363"
proof -
  assume v: "vault_ok v"
  let ?p = "entry_to_form Entry_password (va_password v)" and ?q = "entry_to_form Entry_recovery (va_recovery v)"
  have e: "key_entry_ok (va_password v)" "key_entry_ok (va_recovery v)" using v by (simp_all add: vault_ok_def)
  let ?h = "be_word (va_gen v) @ hex_encode (va_id v) @ hex_encode (va_mac v)"
  have m: "marshal sample_vault_world v = ?h @ fixed_entry ?p @ fixed_entry ?q @ [CHR 0x0A]"
    by (simp add: marshal_def sample_vault_world_def fixed_write_def vault_to_form_def)
  have h: "length ?h = 104" using v by (simp add: vault_ok_def id_size_def mac_size_def)
  have "drop 104 (marshal sample_vault_world v) = fixed_entry ?p @ fixed_entry ?q @ [CHR 0x0A]"
    unfolding m using h by (metis append_eq_conv_conj)
  moreover from this have "drop 233 (marshal sample_vault_world v) = fixed_entry ?q @ [CHR 0x0A]"
    using read_fixed_entry(2) [OF e(1), of Entry_password] drop_drop [of 129 104 "marshal sample_vault_world v"] by simp
  moreover show "length (marshal sample_vault_world v) = 363"
    unfolding m using h read_fixed_entry(2) [OF e(1)] read_fixed_entry(2) [OF e(2)] by simp
  moreover have "take 8 (marshal sample_vault_world v) = be_word (va_gen v)" "take 32 (drop 8 (marshal sample_vault_world v)) = hex_encode (va_id v)"
    "take 64 (drop 40 (marshal sample_vault_world v)) = hex_encode (va_mac v)"
    unfolding m using v by (simp_all add: vault_ok_def id_size_def mac_size_def)
  ultimately show "reads_back sample_vault_world v"
    using read_fixed_entry(1) [OF e(1)] read_fixed_entry(1) [OF e(2)]
    by (simp add: reads_back_def sample_vault_world_def fixed_read_def vault_to_form_def vault_format_def)
qed

lemma sample_sound: "sound_world sample_vault_world"
  by (simp add: sound_world_def sample_vault_world_def sealing_cipher_def tag_cipher_def tag16_def seal_overhead_def pad_argon_def key_size_def)

lemma sample_text: "keeps_ascii (vw_text sample_vault_world)"
  using ascii_world_keeps by (simp add: sample_vault_world_def)

subsection \<open>A key and its vault\<close>

definition sample_random :: string where
  "sample_random = replicate 200 CHR ''r''"

lemma sample_draws:
  "draw m (replicate n c) = (if n < m then Inl No_random else Inr (replicate m c, replicate (n - m) c))"
  by (auto simp: draw_def min_def)

lemma sample_wraps:
  assumes "40 \<le> n" "length master = key_size"
  shows "\<exists>e. wrap sample_vault_world aid kind secret master (replicate n c) = Inr (e, replicate (n - 40) c)"
  using assms by (simp add: wrap_def sample_draws salt_size_def derive_kek_def seal_def nonce_size_def sample_vault_world_def pad_argon_def key_size_def)

lemma length_tag16: "length (tag16 key) = 16"
  by (simp add: tag16_def)

lemma sample_other_secret:
  assumes "wrap sample_vault_world aid kind a master r = Inr (e, r')" "\<And>s p t q. tag16 (pad_argon a s p) \<noteq> tag16 (pad_argon b t q)"
  shows "unwrap sample_vault_world v kind e b \<noteq> Inr k"
proof -
  obtain salt r1 kek bytes where k: "derive_kek sample_vault_world a salt kdf_floor = Inr kek"
    and b: "seal tag_cipher kek (wrap_aad aid kind) master r1 = Inr (bytes, r')"
    and e: "e = \<lparr>ke_salt = salt, ke_params = kdf_floor, ke_wrapped = bytes\<rparr>"
    using assms(1) by (auto simp: wrap_def sample_vault_world_def)
  obtain nonce where n: "length nonce = nonce_size" "bytes = nonce @ cx_seal tag_cipher kek nonce (wrap_aad aid kind) master"
    using sealed_shape [OF b] by metis
  have kek: "kek = pad_argon a salt kdf_floor" using k by (auto simp: derive_kek_def sample_vault_world_def split: if_splits)
  have "open_sealed tag_cipher (pad_argon b salt kdf_floor) aad bytes \<noteq> Inr x" for aad x
    using assms(2) [of salt kdf_floor salt kdf_floor] n
    by (simp add: open_sealed_def kek tag_cipher_def length_tag16)
  then show ?thesis
    by (cases "open_sealed tag_cipher (pad_argon b salt kdf_floor) (wrap_aad (va_id v) kind) bytes")
      (auto simp: unwrap_def e derive_kek_def sample_vault_world_def)
qed

lemma sample_passwords_differ:
  "tag16 (pad_argon (password_bytes sample_vault_world ''correct horse'') s p) \<noteq> tag16 (pad_argon (password_bytes sample_vault_world ''battery staple'') t q)"
  by (simp add: tag16_def pad_argon_def password_bytes_def sample_vault_world_def ascii_world_def)

lemma sample_recoveries_differ:
  "tag16 (pad_argon (replicate 16 CHR ''r'') s p) \<noteq> tag16 (pad_argon (replicate 16 CHR ''q'') t q)"
  by (simp add: tag16_def pad_argon_def)

lemma sample_password: "check_new_password sample_vault_world ''correct horse'' = Inr ()" "check_new_password sample_vault_world ''battery staple'' = Inr ()"
proof -
  have "utf8_valid ''correct horse'' \<and> utf8_valid ''battery staple'' \<and> length (runes ''correct horse'') = 13 \<and> length (runes ''battery staple'') = 14"
    by code_simp
  then show "check_new_password sample_vault_world ''correct horse'' = Inr ()" "check_new_password sample_vault_world ''battery staple'' = Inr ()"
    by (simp_all add: check_new_password_def sample_vault_world_def ascii_world_def min_password_runes_def)
qed

lemma sample_created:
  "\<exists>v k rk. create sample_vault_world ''correct horse'' sample_random = Inr (v, k, rk, replicate 56 CHR ''r'') \<and> va_id v \<noteq> zero_id"
proof -
  let ?m = "replicate 32 CHR ''r''" and ?i = "replicate 16 CHR ''r''"
  have m: "length ?m = key_size" by (simp add: key_size_def)
  obtain pw where p: "wrap sample_vault_world ?i Entry_password (password_bytes sample_vault_world ''correct horse'') ?m (replicate 136 CHR ''r'')
      = Inr (pw, replicate 96 CHR ''r'')" using sample_wraps [of 136, OF _ m] by fastforce
  obtain rec where q: "wrap sample_vault_world ?i Entry_recovery ?i ?m (replicate 96 CHR ''r'') = Inr (rec, replicate 56 CHR ''r'')"
    using sample_wraps [of 96, OF _ m] by fastforce
  obtain k where "new_vault_key ?i ?m = Inr k" using m by (simp add: new_vault_key_def)
  then have "create sample_vault_world ''correct horse'' sample_random = Inr (signed_vault ?i 1 pw rec k, k, ?i, replicate 56 CHR ''r'')"
    using p q by (simp add: create_def sample_password sample_random_def sample_draws id_size_def key_size_def new_recovery_key_def
        recovery_key_size_def)
  moreover have "va_id (signed_vault ?i 1 pw rec k) \<noteq> zero_id" by (simp add: signed_vault_def zero_id_def id_size_def Let_def)
  ultimately show ?thesis by blast
qed

end
