(* ===== verification/VaultLife.thy ===== *)
theory VaultLife
  imports VaultSample
begin

text \<open>
  The life of a key file: making it, changing the password, making a new recovery key.  The master key, and
  so every sealed byte, stays; what is written has the format's shape; no altered header verifies.
\<close>

subsection \<open>The operations\<close>

lemma new_password_facts:
  assumes "with_password W v k new r = Inr (n, r')"
  obtains k' pw r1 where "k = Some k'" "verify v (Some k') = Inr ()" "\<not> max_generation \<le> va_gen v + 1"
    "wrap W (va_id v) Entry_password (password_bytes W new) (vk_master k') r = Inr (pw, r')"
    "n = v\<lparr>va_gen := va_gen v + 1, va_password := pw, va_mac := compute_mac (v\<lparr>va_gen := va_gen v + 1, va_password := pw\<rparr>) k'\<rparr>"
    "check_new_password W new = Inr ()"
proof (cases k)
  case None
  then show ?thesis using assms by (simp add: with_password_def verify_def with_key_def)
next
  case (Some k')
  then show ?thesis using assms that by (auto simp: with_password_def Let_def split: if_splits)
qed

lemma new_recovery_facts:
  assumes "with_new_recovery W v k r = Inr (n, rk, r')"
  obtains k' rec r1 where "k = Some k'" "verify v (Some k') = Inr ()" "\<not> max_generation \<le> va_gen v + 1"
    "length rk = recovery_key_size" "wrap W (va_id v) Entry_recovery rk (vk_master k') r1 = Inr (rec, r')"
    "n = v\<lparr>va_gen := va_gen v + 1, va_recovery := rec, va_mac := compute_mac (v\<lparr>va_gen := va_gen v + 1, va_recovery := rec\<rparr>) k'\<rparr>"
proof (cases k)
  case None
  then show ?thesis using assms by (simp add: with_new_recovery_def verify_def with_key_def)
next
  case (Some k')
  then show ?thesis using assms that
    by (auto simp: with_new_recovery_def new_recovery_key_def Let_def split: if_splits dest: drawn)
qed

lemma create_facts:
  assumes "create W password r = Inr (v, k, rk, r')"
  obtains aid pw rec r1 r2 where "v = signed_vault aid 1 pw rec k" "key_made k" "vk_id k = aid" "length aid = id_size"
    "length rk = recovery_key_size"
    "wrap W aid Entry_password (password_bytes W password) (vk_master k) r1 = Inr (pw, r2)"
    "wrap W aid Entry_recovery rk (vk_master k) r2 = Inr (rec, r')"
proof -
  obtain aid ra master rb rc pw rd rec re where s: "draw id_size r = Inr (aid, ra)" "draw key_size ra = Inr (master, rb)"
    "new_recovery_key rb = Inr (rk, rc)" "wrap W aid Entry_password (password_bytes W password) master rc = Inr (pw, rd)"
    "wrap W aid Entry_recovery rk master rd = Inr (rec, r')" "new_vault_key aid master = Inr k" "v = signed_vault aid 1 pw rec k"
    using assms by (auto simp: create_def)
  with new_key_made [OF s(6)] show ?thesis using that drawn unfolding new_recovery_key_def by metis
qed

lemma signed_facts [simp]:
  "va_id (signed_vault aid g pw rec k) = aid" "va_gen (signed_vault aid g pw rec k) = g"
  "va_password (signed_vault aid g pw rec k) = pw" "va_recovery (signed_vault aid g pw rec k) = rec"
  "va_mac (signed_vault aid g pw rec k) = compute_mac (signed_vault aid g pw rec k) k"
  by (simp_all add: signed_vault_def Let_def compute_mac_def vault_header_def)

lemma unlock_recovery_shown:
  assumes "keeps_ascii (vw_text W)" "length rk = recovery_key_size"
  shows "unlock_recovery W v (recovery_string rk) = unwrap W v Entry_recovery (va_recovery v) rk"
  using shown_parses [OF assms(1)] assms(2) by (simp add: unlock_recovery_def recovery_key_size_def)

lemma unwrap_same:
  assumes "unwrap W v kind e secret = Inr k" "va_id n = va_id v" "verify n (Some k) = Inr ()"
  shows "unwrap W n kind e secret = Inr k"
proof -
  obtain kek where k: "derive_kek W secret (ke_salt e) (ke_params e) = Inr kek" using assms(1) by (auto simp: unwrap_def)
  show ?thesis using assms k
    by (cases "open_sealed (vw_cipher W) kek (wrap_aad (va_id v) kind) (ke_wrapped e)") (auto simp: unwrap_def)
qed

lemma password_changed:
  assumes W: "sound_world W" and k: "key_made k" and n: "with_password W v (Some k) new r = Inr (n, r')"
  shows "verify n (Some k) = Inr ()" "unlock W n new = Inr k" "va_gen n = va_gen v + 1" "va_id n = va_id v"
    "va_recovery n = va_recovery v" "key_entry_ok (va_password n)" "length (va_mac n) = mac_size"
    "va_gen n < max_generation" "verify v (Some k) = Inr ()"
proof -
  obtain pw where p: "verify v (Some k) = Inr ()" "\<not> max_generation \<le> va_gen v + 1"
    "wrap W (va_id v) Entry_password (password_bytes W new) (vk_master k) r = Inr (pw, r')"
    "n = v\<lparr>va_gen := va_gen v + 1, va_password := pw, va_mac := compute_mac (v\<lparr>va_gen := va_gen v + 1, va_password := pw\<rparr>) k\<rparr>"
    using n by (rule new_password_facts) blast
  show v: "verify n (Some k) = Inr ()" using p(1) by (simp add: verified p(4) compute_mac_def vault_header_def)
  show "va_gen n = va_gen v + 1" "va_id n = va_id v" "va_recovery n = va_recovery v" "length (va_mac n) = mac_size"
    "va_gen n < max_generation" using p(2) by (simp_all add: p(4))
  have i: "vk_id k = va_id v" using p(1) by (simp add: verified)
  show "unlock W n new = Inr k" using wrap_opens [OF W p(3) k i v] by (simp add: unlock_def p(4))
  show "key_entry_ok (va_password n)" using wrap_ok [OF W p(3) k] by (simp add: p(4))
  show "verify v (Some k) = Inr ()" by (rule p(1))
qed

lemma recovery_changed:
  assumes W: "sound_world W" and k: "key_made k" and n: "with_new_recovery W v (Some k) r = Inr (n, rk, r')"
  shows "verify n (Some k) = Inr ()" "unwrap W n Entry_recovery (va_recovery n) rk = Inr k" "va_gen n = va_gen v + 1"
    "va_id n = va_id v" "va_password n = va_password v" "key_entry_ok (va_recovery n)" "length (va_mac n) = mac_size"
    "va_gen n < max_generation" "length rk = recovery_key_size" "verify v (Some k) = Inr ()"
proof -
  obtain rec r1 where p: "verify v (Some k) = Inr ()" "\<not> max_generation \<le> va_gen v + 1" "length rk = recovery_key_size"
    "wrap W (va_id v) Entry_recovery rk (vk_master k) r1 = Inr (rec, r')"
    "n = v\<lparr>va_gen := va_gen v + 1, va_recovery := rec, va_mac := compute_mac (v\<lparr>va_gen := va_gen v + 1, va_recovery := rec\<rparr>) k\<rparr>"
    using n by (rule new_recovery_facts) blast
  show v: "verify n (Some k) = Inr ()" using p(1) by (simp add: verified p(5) compute_mac_def vault_header_def)
  show "va_gen n = va_gen v + 1" "va_id n = va_id v" "va_password n = va_password v" "length (va_mac n) = mac_size"
    "va_gen n < max_generation" "length rk = recovery_key_size" using p(2,3) by (simp_all add: p(5))
  have i: "vk_id k = va_id v" using p(1) by (simp add: verified)
  show "unwrap W n Entry_recovery (va_recovery n) rk = Inr k" using wrap_opens [OF W p(4) k i v] by (simp add: p(5))
  show "key_entry_ok (va_recovery n)" using wrap_ok [OF W p(4) k] by (simp add: p(5))
  show "verify v (Some k) = Inr ()" by (rule p(1))
qed

lemma created:
  assumes W: "sound_world W" and c: "create W password r = Inr (v, k, rk, r')"
  shows "verify v (Some k) = Inr ()" "key_made k" "unlock W v password = Inr k"
    "unwrap W v Entry_recovery (va_recovery v) rk = Inr k" "va_gen v = 1" "length rk = recovery_key_size"
    "key_entry_ok (va_password v)" "key_entry_ok (va_recovery v)" "length (va_id v) = id_size" "length (va_mac v) = mac_size"
proof -
  obtain aid pw rec r1 r2 where p: "v = signed_vault aid 1 pw rec k" "key_made k" "vk_id k = aid" "length aid = id_size"
    "length rk = recovery_key_size" "wrap W aid Entry_password (password_bytes W password) (vk_master k) r1 = Inr (pw, r2)"
    "wrap W aid Entry_recovery rk (vk_master k) r2 = Inr (rec, r')"
    using c by (rule create_facts) blast
  show v: "verify v (Some k) = Inr ()" using key_made_live [OF p(2)] p(3) by (simp add: verified p(1))
  show "key_made k" "va_gen v = 1" "length rk = recovery_key_size" "length (va_id v) = id_size" "length (va_mac v) = mac_size"
    using p by simp_all
  show "key_entry_ok (va_password v)" "key_entry_ok (va_recovery v)"
    using wrap_ok [OF W p(6,2)] wrap_ok [OF W p(7,2)] by (simp_all add: p(1))
  show "unlock W v password = Inr k" using wrap_opens [OF W p(6,2,3) v] by (simp add: unlock_def p(1))
  show "unwrap W v Entry_recovery (va_recovery v) rk = Inr k" using wrap_opens [OF W p(7,2,3) v] by (simp add: p(1))
qed

text \<open>The sample archive: made, its password changed.\<close>

lemma sample_life:
  obtains v k rk n r where "create sample_vault_world ''correct horse'' sample_random = Inr (v, k, rk, replicate 56 CHR ''r'')"
    "va_id v \<noteq> zero_id" "key_made k" "verify v (Some k) = Inr ()" "vault_ok v" "va_gen v = 1"
    "with_password sample_vault_world v (Some k) ''battery staple'' (replicate 56 CHR ''r'') = Inr (n, r)" "vault_ok n"
    "\<forall>k. unlock sample_vault_world n ''correct horse'' \<noteq> Inr k" "\<forall>k. unlock sample_vault_world v ''battery staple'' \<noteq> Inr k"
    "rk = replicate 16 CHR ''r''" "\<forall>k. unwrap sample_vault_world v Entry_recovery (va_recovery v) (replicate 16 CHR ''q'') \<noteq> Inr k"
proof -
  obtain v k rk where c: "create sample_vault_world ''correct horse'' sample_random = Inr (v, k, rk, replicate 56 CHR ''r'')" "va_id v \<noteq> zero_id"
    using sample_created by blast
  note d = created [OF sample_sound c(1)]
  have m: "length (vk_master k) = key_size" using key_made_live [OF d(2)] by blast
  obtain e where w: "wrap sample_vault_world (va_id v) Entry_password (password_bytes sample_vault_world ''battery staple'') (vk_master k)
      (replicate 56 CHR ''r'') = Inr (e, replicate 16 CHR ''r'')" using sample_wraps [of 56, OF _ m] by fastforce
  have "\<not> max_generation \<le> va_gen v + 1" using d(5) by (simp add: max_generation_def)
  then obtain n r where n: "with_password sample_vault_world v (Some k) ''battery staple'' (replicate 56 CHR ''r'') = Inr (n, r)"
    using w d(1) by (simp add: with_password_def sample_password Let_def)
  have v: "vault_ok v" using d c(2) by (simp add: vault_ok_def)
  note f = password_changed [OF sample_sound d(2) n]
  have "va_gen v + 1 \<noteq> 0" using d(5) by simp
  with f v have "vault_ok n" by (simp add: vault_ok_def)
  moreover have "unlock sample_vault_world v ''battery staple'' \<noteq> Inr k'" for k'
    using c(1) by (rule create_facts) (use sample_other_secret [OF _ sample_passwords_differ] in \<open>auto simp: unlock_def\<close>)
  moreover have rk: "rk = replicate 16 CHR ''r''"
    using c(1) by (auto simp: create_def sample_password sample_random_def sample_draws id_size_def key_size_def new_recovery_key_def
        recovery_key_size_def)
  moreover have "unwrap sample_vault_world v Entry_recovery (va_recovery v) (replicate 16 CHR ''q'') \<noteq> Inr k'" for k'
    using c(1) by (rule create_facts) (use sample_other_secret [OF _ sample_recoveries_differ] rk in auto)
  moreover have "unlock sample_vault_world n ''correct horse'' \<noteq> Inr k'" for k'
    using n by (rule new_password_facts)
      (use sample_other_secret [OF _ sample_passwords_differ [symmetric]] in \<open>auto simp: unlock_def\<close>)
  ultimately show ?thesis using c d v n that by blast
qed

lemma sample_new_recovery:
  assumes "key_made k" "verify v (Some k) = Inr ()" "va_gen v = 1"
  shows "\<exists>m. with_new_recovery sample_vault_world v (Some k) (replicate 56 CHR ''q'') = Inr (m, replicate 16 CHR ''q'', [])"
proof -
  have m: "length (vk_master k) = key_size" using key_made_live [OF assms(1)] by blast
  obtain e where w: "wrap sample_vault_world (va_id v) Entry_recovery (replicate 16 CHR ''q'') (vk_master k)
      (replicate 40 CHR ''q'') = Inr (e, [])" using sample_wraps [of 40, OF _ m] by fastforce
  have "\<not> max_generation \<le> va_gen v + 1" using assms(3) by (simp add: max_generation_def)
  then show ?thesis using w assms(2)
    by (simp add: with_new_recovery_def new_recovery_key_def recovery_key_size_def sample_draws Let_def)
qed

subsection \<open>What unlocks\<close>

text \<open>The changes of a key file in a row: a change that is refused leaves it as it was.\<close>

datatype key_op = Set_password string | Make_recovery

record key_life =
  kl_vault :: archive_vault
  kl_password :: string
  kl_recovery :: string
  kl_random :: string

fun key_step :: "vault_world \<Rightarrow> vault_key \<Rightarrow> key_op \<Rightarrow> key_life \<Rightarrow> key_life" where
  "key_step W k (Set_password new) s = (case with_password W (kl_vault s) (Some k) new (kl_random s) of
     Inr (n, r) \<Rightarrow> s\<lparr>kl_vault := n, kl_password := new, kl_random := r\<rparr> | Inl _ \<Rightarrow> s)"
| "key_step W k Make_recovery s = (case with_new_recovery W (kl_vault s) (Some k) (kl_random s) of
     Inr (n, rk, r) \<Rightarrow> s\<lparr>kl_vault := n, kl_recovery := rk, kl_random := r\<rparr> | Inl _ \<Rightarrow> s)"

definition key_inv :: "vault_world \<Rightarrow> vault_key \<Rightarrow> key_life \<Rightarrow> bool" where
  "key_inv W k s \<longleftrightarrow> sound_world W \<and> key_made k \<and> verify (kl_vault s) (Some k) = Inr () \<and> vault_ok (kl_vault s)
     \<and> va_gen (kl_vault s) < max_generation \<and> length (kl_recovery s) = recovery_key_size
     \<and> unlock W (kl_vault s) (kl_password s) = Inr k
     \<and> unwrap W (kl_vault s) Entry_recovery (va_recovery (kl_vault s)) (kl_recovery s) = Inr k"

lemma below_cap: "g < max_generation \<Longrightarrow> g + 1 \<noteq> (0 :: 64 word)"
proof
  assume "g < max_generation" "g + 1 = 0"
  then have "g = - 1" by (simp only: eq_neg_iff_add_eq_0)
  with \<open>g < max_generation\<close> show False by (simp add: max_generation_def)
qed

lemma key_step_inv:
  assumes "key_inv W k s"
  shows "key_inv W k (key_step W k x s)"
proof (cases x)
  case (Set_password new)
  show ?thesis
  proof (cases "with_password W (kl_vault s) (Some k) new (kl_random s)")
    case (Inr y)
    obtain n r where n: "with_password W (kl_vault s) (Some k) new (kl_random s) = Inr (n, r)" using Inr by (cases y) simp
    have W: "sound_world W" "key_made k" using assms by (simp_all add: key_inv_def)
    note c = password_changed [OF W n]
    have "unwrap W n Entry_recovery (va_recovery n) (kl_recovery s) = Inr k"
      unfolding c(5) by (rule unwrap_same [OF _ c(4,1)]) (use assms in \<open>simp add: key_inv_def\<close>)
    then show ?thesis using assms c n below_cap by (auto simp: key_inv_def Set_password vault_ok_def)
  qed (use assms in \<open>simp add: Set_password\<close>)
next
  case Make_recovery
  show ?thesis
  proof (cases "with_new_recovery W (kl_vault s) (Some k) (kl_random s)")
    case (Inr y)
    obtain n rk r where n: "with_new_recovery W (kl_vault s) (Some k) (kl_random s) = Inr (n, rk, r)" using Inr by (cases y) auto
    have W: "sound_world W" "key_made k" using assms by (simp_all add: key_inv_def)
    note c = recovery_changed [OF W n]
    have "unlock W n (kl_password s) = Inr k"
      unfolding unlock_def c(5) by (rule unwrap_same [OF _ c(4,1)]) (use assms in \<open>simp add: key_inv_def unlock_def\<close>)
    then show ?thesis using assms c n below_cap by (auto simp: key_inv_def Make_recovery vault_ok_def)
  qed (use assms in \<open>simp add: Make_recovery\<close>)
qed

interpretation key_changes: machine "key_step W k" "\<lambda>_ _. True" "key_inv W k" for W k
  by unfold_locales (rule key_step_inv)

lemma any_run: "key_changes.may_run W k xs s"
  by (induction xs arbitrary: s) simp_all

lemma created_inv:
  assumes "sound_world W" "create W password r = Inr (v, k, rk, r')" "va_id v \<noteq> zero_id"
  shows "key_inv W k \<lparr>kl_vault = v, kl_password = password, kl_recovery = rk, kl_random = r'\<rparr>"
  using created [OF assms(1,2)] assms(1,3) by (simp add: key_inv_def vault_ok_def max_generation_def)

lemma steps_keep_id: "va_id (kl_vault (fold (key_step W k) ops s)) = va_id (kl_vault s)"
proof (induction ops arbitrary: s)
  case (Cons x ops)
  have "va_id (kl_vault (key_step W k x s)) = va_id (kl_vault s)"
    by (cases x) (auto split: sum.split elim!: new_password_facts new_recovery_facts)
  then show ?case by (simp add: Cons.IH)
qed simp

text \<open>
  The latest password and the latest recovery key open the archive, however often they were changed.
  From the day the key file is made, after any number of password changes and new recovery keys in any order,
  refused ones among them, the last password that was set and the last recovery key, as it was shown, open the
  archive to the key it was made with, and so to every byte sealed under it.  The archive id stays, the file
  keeps its shape and its generation stays below the cap.
\<close>

theorem the_latest_secrets_open_the_archive:
  assumes "sound_world W" and "keeps_ascii (vw_text W)" and "create W password r = Inr (v, k, rk, r')" and "va_id v \<noteq> zero_id"
    and "s = fold (key_step W k) ops \<lparr>kl_vault = v, kl_password = password, kl_recovery = rk, kl_random = r'\<rparr>"
  shows "unlock W (kl_vault s) (kl_password s) = Inr k \<and> unlock_recovery W (kl_vault s) (recovery_string (kl_recovery s)) = Inr k
    \<and> va_id (kl_vault s) = va_id v \<and> vault_ok (kl_vault s) \<and> va_gen (kl_vault s) < max_generation"
proof -
  have i: "key_inv W k s" unfolding assms(5) by (rule key_changes.run_inv [OF created_inv [OF assms(1,3,4)] any_run])
  moreover have "va_id (kl_vault s) = va_id v" unfolding assms(5) steps_keep_id by simp
  ultimately show ?thesis using unlock_recovery_shown [OF assms(2)] by (simp add: key_inv_def)
qed

theorem the_latest_secrets_open_the_archive_witness:
  "\<exists>v k rk s. create sample_vault_world ''correct horse'' sample_random = Inr (v, k, rk, replicate 56 CHR ''r'')
     \<and> s = fold (key_step sample_vault_world k) [Set_password ''battery staple'', Set_password ''short'', Make_recovery]
         \<lparr>kl_vault = v, kl_password = ''correct horse'', kl_recovery = rk, kl_random = replicate 56 CHR ''r''\<rparr>
     \<and> unlock sample_vault_world (kl_vault s) (kl_password s) = Inr k"
proof -
  obtain v k rk where c: "create sample_vault_world ''correct horse'' sample_random = Inr (v, k, rk, replicate 56 CHR ''r'')" "va_id v \<noteq> zero_id"
    using sample_created by blast
  from the_latest_secrets_open_the_archive [OF sample_sound sample_text c refl] c show ?thesis by blast
qed

subsection \<open>An altered header\<close>

definition same_public :: "archive_vault \<Rightarrow> archive_vault \<Rightarrow> bool" where
  "same_public v w \<longleftrightarrow> va_id v = va_id w \<and> va_gen v = va_gen w \<and> va_password v = va_password w \<and> va_recovery v = va_recovery w"

lemma entry_header_inj:
  assumes "key_entry_ok e" "key_entry_ok f" "entry_header kind e @ s = entry_header kind f @ t"
  shows "e = f \<and> s = t"
proof -
  have "length (ke_salt e) = length (ke_salt f)" "length (ke_wrapped e) = length (ke_wrapped f)"
    using assms(1,2) by (simp_all add: key_entry_ok_def)
  then have "ke_params e = ke_params f \<and> ke_salt e = ke_salt f \<and> ke_wrapped e = ke_wrapped f \<and> s = t"
    using assms(3) by (simp add: entry_header_def kdf_params.equality)
  then show ?thesis by (simp add: key_entry.equality)
qed

lemma vault_header_inj:
  assumes "vault_ok v" "vault_ok w" "vault_header v = vault_header w"
  shows "same_public v w"
proof -
  have "length (va_id v) = length (va_id w)" using assms(1,2) by (simp add: vault_ok_def)
  then have h: "va_id v = va_id w" "va_gen v = va_gen w"
    "entry_header Entry_password (va_password v) @ entry_header Entry_recovery (va_recovery v)
      = entry_header Entry_password (va_password w) @ entry_header Entry_recovery (va_recovery w)"
    using assms(3) by (simp_all add: vault_header_def)
  note p = entry_header_inj [OF _ _ h(3)]
  from p have "va_password v = va_password w" "entry_header Entry_recovery (va_recovery v) @ [] = entry_header Entry_recovery (va_recovery w) @ []"
    using assms(1,2) by (simp_all add: vault_ok_def)
  with entry_header_inj [OF _ _ this(2)] h(1,2) assms(1,2) show ?thesis by (simp add: same_public_def vault_ok_def)
qed

text \<open>
  No public field of a key file changes unnoticed.  When a file read from disk verifies under a key and
  another file read from disk, that differs in the archive id, the generation, a cost, a salt or a wrapped
  key, carries the same MAC, the second is refused as tampered, unless two different headers have been found
  that HMAC-SHA256 maps to one value under that key.
\<close>

theorem an_altered_header_is_refused:
  assumes "parse_vault W data = Inr v" and "parse_vault W data' = Inr v'"
    and "verify v (Some k) = Inr ()" and "va_mac v' = va_mac v" and "\<not> same_public v' v"
  shows "verify v' (Some k) = Inl Tampered
    \<or> (vault_header v' \<noteq> vault_header v \<and> hmac256 (vk_mac k) (vault_header v') = hmac256 (vk_mac k) (vault_header v))"
proof -
  have "vault_header v' \<noteq> vault_header v" using vault_header_inj assms(5) parsed_ok [OF assms(1)] parsed_ok [OF assms(2)] by blast
  with assms(3,4) show ?thesis by (auto simp: verified verify_live compute_mac_def)
qed

theorem an_altered_header_is_refused_witness:
  "\<exists>v k. parse_vault sample_vault_world (marshal sample_vault_world v) = Inr v \<and> verify v (Some k) = Inr ()
     \<and> (verify (v\<lparr>va_gen := 2\<rparr>) (Some k) = Inl Tampered
        \<or> hmac256 (vk_mac k) (vault_header (v\<lparr>va_gen := 2\<rparr>)) = hmac256 (vk_mac k) (vault_header v))"
proof (rule sample_life)
  fix v k
  assume v: "vault_ok v" "verify v (Some k) = Inr ()" "va_gen v = 1"
  have p: "parse_vault sample_vault_world (marshal sample_vault_world w) = Inr w" if "vault_ok w" for w
    using parse_marshal_vault sample_reads_back that by blast
  have w: "vault_ok (v\<lparr>va_gen := 2\<rparr>)" using v(1) by (simp add: vault_ok_def)
  have "\<not> same_public (v\<lparr>va_gen := 2\<rparr>) v" using v(3) by (simp add: same_public_def)
  from an_altered_header_is_refused [OF p [OF v(1)] p [OF w] v(2) _ this] p [OF v(1)] v(2) show ?thesis by auto
qed

subsection \<open>The shape of what is written\<close>

text \<open>
  Every key file this program reads or writes has the shape of the format.  What is read is a full
  vault: a 16-byte id that is not zero, a generation from 1, two entries with a 16-byte salt and a 72-byte
  wrapped key, a 32-byte MAC.  A made vault whose random id is not zero, and every change of a vault below
  the generation cap, has that shape too, stays below the cap, and reads back as it was wherever the codec
  does.
\<close>

theorem key_files_have_their_shape:
  assumes "sound_world W" and "key_made k"
  shows "(parse_vault W data = Inr v \<longrightarrow> vault_ok v)
    \<and> (create W password r = Inr (v, k, rk, r') \<and> va_id v \<noteq> zero_id \<longrightarrow> vault_ok v \<and> va_gen v < max_generation)
    \<and> (with_password W v (Some k) new r = Inr (n, r') \<and> vault_ok v \<and> va_gen v < max_generation
        \<longrightarrow> vault_ok n \<and> va_gen n < max_generation)
    \<and> (with_new_recovery W v (Some k) r = Inr (m, rk', r'') \<and> vault_ok v \<and> va_gen v < max_generation
        \<longrightarrow> vault_ok m \<and> va_gen m < max_generation)
    \<and> (vault_ok v \<and> reads_back W v \<longrightarrow> parse_vault W (marshal W v) = Inr v)"
proof (intro conjI impI)
  assume "create W password r = Inr (v, k, rk, r') \<and> va_id v \<noteq> zero_id"
  then have "va_id v \<noteq> zero_id" and c: "create W password r = Inr (v, k, rk, r')" by simp_all
  with created [OF assms(1) c] show "vault_ok v" "va_gen v < max_generation" by (simp_all add: vault_ok_def max_generation_def)
next
  assume "with_password W v (Some k) new r = Inr (n, r') \<and> vault_ok v \<and> va_gen v < max_generation"
  then have v: "vault_ok v" "va_gen v < max_generation" and c: "with_password W v (Some k) new r = Inr (n, r')" by simp_all
  from password_changed [OF assms c] v below_cap [OF v(2)] show "vault_ok n" "va_gen n < max_generation"
    by (simp_all add: vault_ok_def)
next
  assume "with_new_recovery W v (Some k) r = Inr (m, rk', r'') \<and> vault_ok v \<and> va_gen v < max_generation"
  then have v: "vault_ok v" "va_gen v < max_generation" and c: "with_new_recovery W v (Some k) r = Inr (m, rk', r'')" by simp_all
  from recovery_changed [OF assms c] v below_cap [OF v(2)] show "vault_ok m" "va_gen m < max_generation"
    by (simp_all add: vault_ok_def)
qed (auto intro: parsed_ok parse_marshal_vault)

theorem key_files_have_their_shape_witness:
  "\<exists>v k rk. create sample_vault_world ''correct horse'' sample_random = Inr (v, k, rk, replicate 56 CHR ''r'') \<and> vault_ok v
     \<and> parse_vault sample_vault_world (marshal sample_vault_world v) = Inr v"
proof (rule sample_life)
  fix v k rk
  assume c: "create sample_vault_world ''correct horse'' sample_random = Inr (v, k, rk, replicate 56 CHR ''r'')" "va_id v \<noteq> zero_id"
    and k: "key_made k"
  note t = key_files_have_their_shape [OF sample_sound k, of _ v "''correct horse''" sample_random rk "replicate 56 CHR ''r''"]
  from t c have "vault_ok v" by blast
  with t sample_reads_back c show ?thesis by blast
qed

text \<open>The cap is asked of the sum, which wraps: at the last generation a change is let through, back to 0.\<close>

lemma the_last_generation_wraps:
  assumes "va_gen v = - 1" and "verify v (Some k) = Inr ()" and "key_made k" and "sound_world W" and "56 \<le> length r"
  shows "\<exists>n rk r'. with_new_recovery W v (Some k) r = Inr (n, rk, r') \<and> va_gen n = 0 \<and> \<not> vault_ok n"
proof -
  have "\<exists>rk r1. draw recovery_key_size r = Inr (rk, r1) \<and> 40 \<le> length r1"
    using assms(5) by (simp add: draw_def recovery_key_size_def)
  then obtain rk r1 where d: "draw recovery_key_size r = Inr (rk, r1)" "40 \<le> length r1" by blast
  have "length (vw_argon W rk s p) = key_size" for s p using assms(4) by (simp add: sound_world_def)
  then have "\<exists>x. wrap W (va_id v) Entry_recovery rk (vk_master k) r1 = Inr x"
    using d(2) by (simp add: wrap_def draw_def derive_kek_def seal_def salt_size_def nonce_size_def)
  then obtain rec r2 where w: "wrap W (va_id v) Entry_recovery rk (vk_master k) r1 = Inr (rec, r2)" by auto
  have "\<not> max_generation \<le> (0 :: 64 word)" by (simp add: max_generation_def)
  then show ?thesis using assms(1,2) d(1) w
    by (simp add: with_new_recovery_def new_recovery_key_def vault_ok_def Let_def)
qed

end
