(* ===== verification/VaultCopies.thy ===== *)
theory VaultCopies
  imports VaultStore VaultLife
begin

text \<open>
  What opening a folder's key file gives: which copy unlocks does not depend on how the copies are written,
  the vault trusted is authentic and the newest of the authentic ones, and the folders a change passes
  through, with two known copies, opened exactly.
\<close>

subsection \<open>The codec at rest\<close>

definition good_codec :: "vault_world \<Rightarrow> bool" where
  "good_codec W \<longleftrightarrow> (\<forall>v. vault_ok v \<longrightarrow> reads_back W v \<and> length (marshal W v) \<le> max_vault_bytes) \<and> vw_archive W [] = None"

lemma sample_codec: "good_codec sample_vault_world"
  using sample_reads_back by (simp add: good_codec_def max_vault_bytes_def) (simp add: sample_vault_world_def)

lemma read_plain:
  assumes "good_codec W" "vault_ok v"
  shows "read_copy W windows (plain_file (marshal W v)) = \<lparr>cd_raw = marshal W v, cd_vault = Some (Inr v)\<rparr>"
proof -
  have "length (marshal W v) \<le> max_vault_bytes" "parse_vault W (marshal W v) = Inr v"
    using assms parse_marshal_vault by (auto simp: good_codec_def)
  then show ?thesis
    by (simp add: read_copy_def plain_file_def judge_vault_file_def descriptor_readable_def Let_def)
qed

lemma marshal_inj: "good_codec W \<Longrightarrow> vault_ok v \<Longrightarrow> vault_ok w \<Longrightarrow> marshal W v = marshal W w \<Longrightarrow> v = w"
  using key_file.enc_inj [of v w] unfolding good_codec_def reads_back_def by (metis option.inject prod.inject)

lemma read_copy_parsed:
  assumes "cd_vault (read_copy W windows f) = Some (Inr v)"
  shows "parse_vault W (cd_raw (read_copy W windows f)) = Inr v"
  using assms by (auto simp: read_copy_def Let_def split: copy_file.splits sum.splits option.splits if_splits)

subsection \<open>Which copy unlocks\<close>

lemma open_with_verified: "open_with W s v = Inr k \<Longrightarrow> key_made k \<and> verify v (Some k) = Inr ()"
  by (auto simp: open_with_def unlock_def unlock_recovery_def with_key_def split: secret.splits option.splits if_splits
      dest: unwrapped new_key_made)

lemma first_open_some:
  "first_open W s seen errs cs = Inr (k, v) \<Longrightarrow> open_with W s v = Inr k \<and> v \<in> snd ` set cs"
  by (induction W s seen errs cs rule: first_open.induct) (auto split: if_splits sum.splits)

text \<open>The first vault of a list that the secret opens.\<close>

fun first_key :: "vault_world \<Rightarrow> secret \<Rightarrow> archive_vault list \<Rightarrow> (vault_key \<times> archive_vault) option" where
  "first_key W s [] = None"
| "first_key W s (v # vs) = (case open_with W s v of Inr k \<Rightarrow> Some (k, v) | Inl _ \<Rightarrow> first_key W s vs)"

lemma first_open_key:
  assumes "\<And>raw v. (raw, v) \<in> set cs \<Longrightarrow> f raw = v" "\<And>raw k. raw \<in> set seen \<Longrightarrow> open_with W s (f raw) \<noteq> Inr k"
  shows "(case first_open W s seen errs cs of Inr x \<Rightarrow> Some x | Inl _ \<Rightarrow> None) = first_key W s (map snd cs)"
  using assms
proof (induction W s seen errs cs rule: first_open.induct)
  case (2 W s seen errs raw v cs)
  have f: "f raw = v" using 2(3) by simp
  show ?case
  proof (cases "raw \<in> set seen")
    case True
    then have "open_with W s v \<noteq> Inr k" for k using 2(4) f by blast
    then obtain e where e: "open_with W s v = Inl e" by (metis sum.exhaust)
    have "(case first_open W s (raw # seen) errs cs of Inr x \<Rightarrow> Some x | Inl _ \<Rightarrow> None) = first_key W s (map snd cs)"
      by (rule 2(1) [OF True]) (use 2(3,4) True in auto)
    with True e show ?thesis by simp
  next
    case False
    show ?thesis
    proof (cases "open_with W s v")
      case (Inl e)
      have "(case first_open W s (raw # seen) (errs @ [e]) cs of Inr x \<Rightarrow> Some x | Inl _ \<Rightarrow> None) = first_key W s (map snd cs)"
        by (rule 2(2) [OF False Inl]) (use 2(3,4) Inl in \<open>auto simp: f\<close>)
      with False Inl show ?thesis by simp
    qed (simp add: False)
  qed
qed simp

lemma sort_nil: "sort_key f xs = [] \<longleftrightarrow> xs = []"
  by (metis length_0_conv length_sort)

lemma two_sorted: "sort_key f [x, y] = (if f x \<le> f y then [x, y] else [y, x])"
  by simp

subsection \<open>What is trusted\<close>

lemma authentic_newest:
  assumes "sorted (map (\<lambda>c. - uint (va_gen (snd c))) parsed)" "authentic k parsed = best # rest" "w \<in> set (authentic k parsed)"
  shows "va_gen w \<le> va_gen best"
proof -
  have "sorted (map (\<lambda>v. - uint (va_gen v)) (authentic k parsed))"
    unfolding authentic_def using assms(1)
    by (induction parsed) (auto simp: )
  with assms(2,3) show ?thesis by (auto simp: word_le_def)
qed

lemma choose_facts:
  assumes "choose_vault W s k op auth = Inr w" "op \<in> set auth"
    and "\<And>v. v \<in> set auth \<Longrightarrow> va_gen v \<le> va_gen (hd auth)"
  shows "w \<in> set auth" "\<And>v. v \<in> set auth \<Longrightarrow> va_gen v \<le> va_gen w"
    "w = op \<or> is_key s \<or> same_entry (secret_entry s w) (secret_entry s op) \<or> (\<exists>k. open_with W s w = Inr k)"
proof -
  obtain best rest where a: "auth = best # rest" using assms(2) by (cases auth) simp_all
  have b: "w = op \<and> \<not> va_gen op < va_gen best \<or> w = best \<and>
      (is_key s \<or> same_entry (secret_entry s w) (secret_entry s op) \<or> (\<exists>k. open_with W s w = Inr k))"
    using assms(1) by (auto simp: choose_vault_def a split: if_splits sum.splits)
  then show "w \<in> set auth" using assms(2) a by auto
  show "va_gen v \<le> va_gen w" if "v \<in> set auth" for v using b assms(3) [OF that] a by auto
  show "w = op \<or> is_key s \<or> same_entry (secret_entry s w) (secret_entry s op) \<or> (\<exists>k. open_with W s w = Inr k)" using b by blast
qed

lemma same_entry_opens:
  assumes "open_with W s v = Inr k" "same_entry (secret_entry s w) (secret_entry s v)" "verify w (Some k) = Inr ()"
  shows "open_with W s w = Inr k"
proof -
  have i: "va_id w = va_id v" using open_with_verified [OF assms(1)] assms(3) by (simp add: verified)
  have e: "secret_entry s w = secret_entry s v" using assms(2) by (simp add: same_entry_def key_entry.equality)
  show ?thesis
  proof (cases s)
    case (By_key k')
    then show ?thesis using assms(1,3) i
      by (auto simp: open_with_def with_key_def split: option.splits if_splits)
  qed (use assms i e unwrap_same [OF _ i] in \<open>auto simp: open_with_def unlock_def unlock_recovery_def secret_entry_def\<close>)
qed

lemma key_entry_same: "is_key s \<Longrightarrow> same_entry (secret_entry s w) (secret_entry s v)"
  by (auto simp: is_key_def same_entry_def secret_entry_def split: secret.splits)

lemma parsed_in: "(raw, v) \<in> set (parsed_copies cs) \<Longrightarrow> \<exists>c \<in> set cs. cd_raw c = raw \<and> cd_vault c = Some (Inr v)"
  by (induction cs rule: parsed_copies.induct) (auto split: option.splits sum.splits)

lemma copies_read:
  assumes "read_copies W F want = Inr (all, parsed)"
  shows "all = [read_copy W (kf_windows F) (kf_primary F), read_copy W (kf_windows F) (kf_mirror F)]"
    "parsed = sort_key (\<lambda>c. - uint (va_gen (snd c))) (parsed_copies all)" "parsed \<noteq> []"
    "want \<noteq> zero_id \<Longrightarrow> (raw, v) \<in> set parsed \<Longrightarrow> va_id v = want"
proof -
  show a: "all = [read_copy W (kf_windows F) (kf_primary F), read_copy W (kf_windows F) (kf_mirror F)]"
    and p: "parsed = sort_key (\<lambda>c. - uint (va_gen (snd c))) (parsed_copies all)" and "parsed \<noteq> []"
    using assms by (auto simp: read_copies_def Let_def sort_nil split: if_splits)
  have i: "va_id v \<in> set (copy_ids W cs)" if "(raw, v) \<in> set (parsed_copies cs)" for cs
    using that by (induction cs rule: parsed_copies.induct) (auto split: option.splits sum.splits)
  show "va_id v = want" if "want \<noteq> zero_id" "(raw, v) \<in> set parsed"
    using assms i [of all] that p by (auto simp: read_copies_def Let_def list_ex_iff a split: if_splits)
qed

lemma opened_facts:
  assumes "open_vault W F want s limit = Inr o'"
  obtains all parsed op where "read_copies W F want = Inr (all, parsed)" "open_with W s op = Inr (op_key o')" "op \<in> snd ` set parsed"
    "first_open W s [] [] (sort_key (\<lambda>c. cost s (snd c)) parsed) = Inr (op_key o', op)"
    "choose_vault W s (op_key o') op (authentic (op_key o') parsed) = Inr (op_vault o')"
    "op_needs_heal o' \<longleftrightarrow> list_ex (\<lambda>c. cd_raw c \<noteq> marshal W (op_vault o')) all"
    "op_forked o' \<longleftrightarrow> list_ex (\<lambda>v. va_gen v = va_gen (op_vault o') \<and> va_mac v \<noteq> va_mac (op_vault o')) (authentic (op_key o') parsed)"
proof -
  obtain all parsed where r: "read_copies W F want = Inr (all, parsed)" using assms by (auto simp: open_vault_def)
  obtain k op where f: "first_open W s [] [] (sort_key (\<lambda>c. cost s (snd c)) parsed) = Inr (k, op)"
    using assms r by (auto simp: open_vault_def split: option.splits sum.splits if_splits)
  have "op_key o' = k \<and> choose_vault W s k op (authentic k parsed) = Inr (op_vault o')
      \<and> (op_needs_heal o' \<longleftrightarrow> list_ex (\<lambda>c. cd_raw c \<noteq> marshal W (op_vault o')) all)
      \<and> (op_forked o' \<longleftrightarrow> list_ex (\<lambda>v. va_gen v = va_gen (op_vault o') \<and> va_mac v \<noteq> va_mac (op_vault o')) (authentic k parsed))"
    using assms r f by (auto simp: open_vault_def split: option.splits if_splits)
  then show ?thesis using that r f first_open_some [OF f] by auto
qed


subsection \<open>The outcome of opening\<close>

text \<open>The key, the vault trusted and whether it is forked, from the vaults of the copies alone.\<close>

definition outcome :: "vault_world \<Rightarrow> secret \<Rightarrow> archive_vault list \<Rightarrow> (vault_key \<times> archive_vault \<times> bool) option" where
  "outcome W s vs = (let vs = sort_key (\<lambda>v. - uint (va_gen v)) vs
     in case first_key W s (sort_key (cost s) vs) of
       None \<Rightarrow> None
     | Some (k, op) \<Rightarrow>
         let auth = filter (\<lambda>v. verify v (Some k) = Inr ()) vs
         in case choose_vault W s k op auth of
           Inl _ \<Rightarrow> None
         | Inr w \<Rightarrow> Some (k, w, list_ex (\<lambda>v. va_gen v = va_gen w \<and> va_mac v \<noteq> va_mac w) auth))"

lemma map_insort_snd: "map snd (insort_key (\<lambda>c. g (snd c)) x xs) = insort_key g (snd x) (map snd xs)"
  by (induction xs) auto

lemma map_sort_snd: "map snd (sort_key (\<lambda>c. g (snd c)) xs) = sort_key g (map snd xs)"
  by (induction xs) (simp_all add: map_insort_snd)

lemma parsed_consistent:
  assumes "read_copies W F want = Inr (all, parsed)" "(raw, v) \<in> set parsed"
  shows "parse_vault W raw = Inr v"
proof -
  have "(raw, v) \<in> set (parsed_copies all)" using assms copies_read(2) [OF assms(1)] by simp
  then obtain c where "c \<in> set all" "cd_raw c = raw" "cd_vault c = Some (Inr v)" using parsed_in by blast
  then show ?thesis using copies_read(1) [OF assms(1)] read_copy_parsed by auto
qed

lemma open_vault_outcome:
  assumes r: "read_copies W F want = Inr (all, parsed)"
  shows "open_vault W F want s None = Inr o' \<longleftrightarrow>
    outcome W s (map snd (parsed_copies all)) = Some (op_key o', op_vault o', op_forked o')
    \<and> (op_needs_heal o' \<longleftrightarrow> list_ex (\<lambda>c. cd_raw c \<noteq> marshal W (op_vault o')) all)"
proof -
  let ?vs = "sort_key (\<lambda>v. - uint (va_gen v)) (map snd (parsed_copies all))"
  have p: "map snd parsed = ?vs" unfolding copies_read(2) [OF r] by (rule map_sort_snd)
  have "(case first_open W s [] [] (sort_key (\<lambda>c. cost s (snd c)) parsed) of Inr x \<Rightarrow> Some x | Inl _ \<Rightarrow> None)
      = first_key W s (map snd (sort_key (\<lambda>c. cost s (snd c)) parsed))"
    by (rule first_open_key [where f = "\<lambda>raw. projr (parse_vault W raw)"]) (use parsed_consistent [OF r] in auto)
  then have f: "(case first_open W s [] [] (sort_key (\<lambda>c. cost s (snd c)) parsed) of Inr x \<Rightarrow> Some x | Inl _ \<Rightarrow> None)
      = first_key W s (sort_key (cost s) ?vs)" by (simp only: map_sort_snd p)
  have a: "authentic k parsed = filter (\<lambda>v. verify v (Some k) = Inr ()) ?vs" for k by (simp only: authentic_def p)
  show ?thesis
  proof (cases "first_open W s [] [] (sort_key (\<lambda>c. cost s (snd c)) parsed)")
    case (Inl errs)
    then have "first_key W s (sort_key (cost s) ?vs) = None" using f by simp
    then show ?thesis using Inl by (simp add: open_vault_def r outcome_def Let_def)
  next
    case (Inr x)
    obtain k op where x: "x = (k, op)" by fastforce
    have "first_key W s (sort_key (cost s) ?vs) = Some (k, op)" using f Inr x by simp
    then show ?thesis using Inr x
      by (cases "choose_vault W s k op (filter (\<lambda>v. verify v (Some k) = Inr ()) ?vs)")
        (auto simp: open_vault_def r outcome_def Let_def a)
  qed
qed

lemma once_outcome:
  assumes "open_with W s w = Inr k"
  shows "outcome W s [w] = Some (k, w, False)"
  using assms open_with_verified [OF assms] by (simp add: outcome_def choose_vault_def)

lemma twice_outcome:
  assumes "open_with W s w = Inr k"
  shows "outcome W s [w, w] = Some (k, w, False)"
  using assms open_with_verified [OF assms] by (simp add: outcome_def choose_vault_def)

end
