(* ===== verification/VaultChange.thy ===== *)
theory VaultChange
  imports VaultCopies
begin

text \<open>
  The promises of the two copies: the newest authentic key file wins and nothing rolls it back, and a password
  change takes effect at one moment, wherever the run stops.
\<close>

subsection \<open>No way back\<close>

lemma trusted:
  assumes "open_vault W F want s limit = Inr o'"
  obtains all parsed where "read_copies W F want = Inr (all, parsed)" "op_vault o' \<in> snd ` set parsed"
    "verify (op_vault o') (Some (op_key o')) = Inr ()" "\<exists>k. open_with W s (op_vault o') = Inr k"
    "\<And>v. v \<in> snd ` set parsed \<Longrightarrow> verify v (Some (op_key o')) = Inr () \<Longrightarrow> va_gen v \<le> va_gen (op_vault o')"
proof -
  obtain all parsed op where r: "read_copies W F want = Inr (all, parsed)" and o: "open_with W s op = Inr (op_key o')"
    and i: "op \<in> snd ` set parsed"
    and c: "choose_vault W s (op_key o') op (authentic (op_key o') parsed) = Inr (op_vault o')"
    using assms by (rule opened_facts)
  note p = copies_read [OF r]
  let ?auth = "authentic (op_key o') parsed"
  have op: "op \<in> set ?auth" using i open_with_verified [OF o] by (auto simp: authentic_def)
  then obtain best rest where b: "?auth = best # rest" by (cases ?auth) simp_all
  have "sorted (map (\<lambda>c. - uint (va_gen (snd c))) parsed)" unfolding p(2) by (rule sorted_sort_key)
  from authentic_newest [OF this b] have newest: "va_gen v \<le> va_gen (hd ?auth)" if "v \<in> set ?auth" for v using that b by simp
  note w = choose_facts [OF c op newest]
  have v: "verify (op_vault o') (Some (op_key o')) = Inr ()" "op_vault o' \<in> snd ` set parsed" using w(1) by (auto simp: authentic_def)
  have "\<exists>k. open_with W s (op_vault o') = Inr k"
    using w(3) o same_entry_opens [OF o _ v(1)] key_entry_same by metis
  moreover have "va_gen v \<le> va_gen (op_vault o')" if "v \<in> snd ` set parsed" "verify v (Some (op_key o')) = Inr ()" for v
    using w(2) [of v] that by (auto simp: authentic_def)
  ultimately show ?thesis using that [OF r v(2) v(1)] by blast
qed

text \<open>
  C16: the newest authentic key file wins.  When a folder opens, the vault trusted carries a MAC that the key
  proves, no copy that the key proves is newer, the secret opens that very vault, and it names the archive
  this computer recorded, when one is recorded.  No secret that opens only an older copy is let in.
\<close>

theorem the_newest_authentic_key_file_wins:
  assumes "open_vault W F want s limit = Inr o'"
  shows "verify (op_vault o') (Some (op_key o')) = Inr ()
    \<and> (\<exists>k. open_with W s (op_vault o') = Inr k)
    \<and> (want \<noteq> zero_id \<longrightarrow> va_id (op_vault o') = want)
    \<and> (\<forall>f \<in> {kf_primary F, kf_mirror F}. \<forall>v. cd_vault (read_copy W (kf_windows F) f) = Some (Inr v)
          \<and> verify v (Some (op_key o')) = Inr () \<longrightarrow> va_gen v \<le> va_gen (op_vault o'))"
proof -
  obtain all parsed where r: "read_copies W F want = Inr (all, parsed)" and w: "op_vault o' \<in> snd ` set parsed"
    "verify (op_vault o') (Some (op_key o')) = Inr ()" "\<exists>k. open_with W s (op_vault o') = Inr k"
    and n: "\<And>v. v \<in> snd ` set parsed \<Longrightarrow> verify v (Some (op_key o')) = Inr () \<Longrightarrow> va_gen v \<le> va_gen (op_vault o')"
    using assms by (rule trusted) blast
  note p = copies_read [OF r]
  have "va_id (op_vault o') = want" if "want \<noteq> zero_id" using w(1) p(4) [OF that] by auto
  moreover have "va_gen v \<le> va_gen (op_vault o')"
    if "f \<in> {kf_primary F, kf_mirror F}" "cd_vault (read_copy W (kf_windows F) f) = Some (Inr v)" "verify v (Some (op_key o')) = Inr ()" for f v
  proof -
    have "v \<in> snd ` set (parsed_copies all)" using that(1,2) unfolding p(1) by (auto split: option.splits sum.splits)
    then show ?thesis using n [OF _ that(3)] by (simp add: p(2))
  qed
  ultimately show ?thesis using w by blast
qed

subsection \<open>Two known copies\<close>

text \<open>A folder whose copies hold two known vaults of one archive.\<close>

definition both_hold :: "vault_world \<Rightarrow> key_folder \<Rightarrow> archive_vault \<Rightarrow> archive_vault \<Rightarrow> bool" where
  "both_hold W F a b \<longleftrightarrow> kf_primary F = plain_file (marshal W a) \<and> kf_mirror F = plain_file (marshal W b)
     \<and> vault_ok a \<and> vault_ok b \<and> va_id a = va_id b"

definition wanted :: "archive_id \<Rightarrow> archive_vault \<Rightarrow> bool" where
  "wanted want v \<longleftrightarrow> want = zero_id \<or> want = va_id v"

lemma holds_read:
  assumes "good_codec W" "both_hold W F a b" "wanted want a"
  shows "read_copies W F want = Inr ([\<lparr>cd_raw = marshal W a, cd_vault = Some (Inr a)\<rparr>, \<lparr>cd_raw = marshal W b, cd_vault = Some (Inr b)\<rparr>],
     if va_gen a < va_gen b then [(marshal W b, b), (marshal W a, a)] else [(marshal W a, a), (marshal W b, b)])"
proof -
  have g: "- uint (va_gen a) \<le> - uint (va_gen b) \<longleftrightarrow> \<not> va_gen a < va_gen b" by (auto simp: word_less_def)
  have r: "read_copy W (kf_windows F) (kf_primary F) = \<lparr>cd_raw = marshal W a, cd_vault = Some (Inr a)\<rparr>"
    "read_copy W (kf_windows F) (kf_mirror F) = \<lparr>cd_raw = marshal W b, cd_vault = Some (Inr b)\<rparr>"
    using assms(1,2) read_plain by (simp_all add: both_hold_def)
  have i: "va_id b = va_id a" "want = zero_id \<or> want = va_id a" using assms(2,3) by (simp_all add: both_hold_def wanted_def)
  show ?thesis unfolding read_copies_def Let_def r using i g by (auto simp: wanted_def)
qed

lemma opened_with_a:
  assumes "good_codec W" "both_hold W F a b" "wanted want a"
    and a: "open_with W s a = Inr k" "verify b (Some k) = Inr ()" and g: "va_gen b \<le> va_gen a" and d: "va_gen a = va_gen b \<longrightarrow> a = b"
    and b: "a = b \<or> (\<forall>k. open_with W s b \<noteq> Inr k)"
  shows "\<exists>h. open_vault W F want s None = Inr \<lparr>op_vault = a, op_key = k, op_needs_heal = h, op_forked = False\<rparr> \<and> (h \<longleftrightarrow> a \<noteq> b)"
proof -
  let ?pa = "(marshal W a, a)" and ?pb = "(marshal W b, b)"
  have r: "read_copies W F want = Inr ([\<lparr>cd_raw = marshal W a, cd_vault = Some (Inr a)\<rparr>, \<lparr>cd_raw = marshal W b, cd_vault = Some (Inr b)\<rparr>],
     [?pa, ?pb])" using holds_read [OF assms(1-3)] leD [OF g] by simp
  have ok: "vault_ok a" "vault_ok b" using assms(2) by (simp_all add: both_hold_def)
  have "first_open W s [] [] (sort_key (\<lambda>c. cost s (snd c)) [?pa, ?pb]) = Inr (k, a)"
  proof (cases "a = b")
    case False
    then obtain e where "open_with W s b = Inl e" using b by (metis sum.exhaust)
    moreover have "marshal W a \<noteq> marshal W b" using False marshal_inj [OF assms(1) ok] by blast
    ultimately show ?thesis using a(1) by (simp add: two_sorted)
  qed (use a(1) in simp)
  moreover have au: "authentic k [?pa, ?pb] = [a, b]" using open_with_verified [OF a(1)] a(2) by (simp add: authentic_def)
  moreover have "choose_vault W s k a [a, b] = Inr a" by (simp add: choose_vault_def)
  moreover have "marshal W b \<noteq> marshal W a \<longleftrightarrow> a \<noteq> b" using marshal_inj [OF assms(1) ok(2,1)] by blast
  ultimately show ?thesis using d by (auto simp: open_vault_def r simp del: sort_key_simps)
qed

lemma old_refused:
  assumes "good_codec W" "both_hold W F n v" "wanted want n" "is_key s = False"
    and v: "open_with W s v = Inr k" "verify n (Some k) = Inr ()" and g: "va_gen v < va_gen n"
    and n: "\<forall>k. open_with W s n \<noteq> Inr k"
  shows "open_vault W F want s None = Inl Wrong_secret"
proof -
  let ?pa = "(marshal W n, n)" and ?pb = "(marshal W v, v)"
  have r: "read_copies W F want = Inr ([\<lparr>cd_raw = marshal W n, cd_vault = Some (Inr n)\<rparr>, \<lparr>cd_raw = marshal W v, cd_vault = Some (Inr v)\<rparr>],
     [?pa, ?pb])" using holds_read [OF assms(1-3)] less_not_sym [OF g] by simp
  obtain e where e: "open_with W s n = Inl e" using n by (metis sum.exhaust)
  have ok: "vault_ok n" "vault_ok v" using assms(2) by (simp_all add: both_hold_def)
  have "marshal W n \<noteq> marshal W v" using marshal_inj [OF assms(1) ok] g by auto
  then have "first_open W s [] [] (sort_key (\<lambda>c. cost s (snd c)) [?pa, ?pb]) = Inr (k, v)" using e v(1) by (simp add: two_sorted)
  moreover have "authentic k [?pa, ?pb] = [n, v]" using open_with_verified [OF v(1)] v(2) by (simp add: authentic_def)
  moreover have "\<not> same_entry (secret_entry s n) (secret_entry s v)" using same_entry_opens [OF v(1) _ v(2)] n by blast
  then have "choose_vault W s k v [n, v] = Inl Wrong_secret" using g e assms(4) by (simp add: choose_vault_def)
  ultimately show ?thesis by (simp add: open_vault_def r del: sort_key_simps)
qed

lemma never_opened:
  assumes "good_codec W" "both_hold W F a b" "wanted want a" "\<forall>k. open_with W s a \<noteq> Inr k" "\<forall>k. open_with W s b \<noteq> Inr k"
  shows "open_vault W F want s None \<noteq> Inr o'"
proof
  assume "open_vault W F want s None = Inr o'"
  then obtain all parsed op where "read_copies W F want = Inr (all, parsed)" "open_with W s op = Inr (op_key o')" "op \<in> snd ` set parsed"
    by (rule opened_facts)
  with holds_read [OF assms(1-3)] assms(4,5) show False by (auto split: if_splits)
qed


subsection \<open>A change takes effect at one moment\<close>

definition opens_to :: "vault_world \<Rightarrow> key_folder \<Rightarrow> archive_id \<Rightarrow> secret \<Rightarrow> vault_key \<Rightarrow> archive_vault \<Rightarrow> bool" where
  "opens_to W F want s k v \<longleftrightarrow> (\<exists>o'. open_vault W F want s None = Inr o' \<and> op_key o' = k \<and> op_vault o' = v)"

definition stays_shut :: "vault_world \<Rightarrow> key_folder \<Rightarrow> archive_id \<Rightarrow> secret \<Rightarrow> bool" where
  "stays_shut W F want s \<longleftrightarrow> (\<forall>o'. open_vault W F want s None \<noteq> Inr o')"

lemma opened_both:
  assumes "good_codec W" "both_hold W F a a" "wanted want a" "open_with W s a = Inr k"
  shows "opens_to W F want s k a"
  using opened_with_a [OF assms(1-4)] open_with_verified [OF assms(4)] by (auto simp: opens_to_def)

text \<open>The sample archive on disk.\<close>

definition sample_keys :: "archive_vault \<Rightarrow> key_folder" where
  "sample_keys v = \<lparr>kf_windows = False, kf_present = True, kf_primary = plain_file (marshal sample_vault_world v),
     kf_mirror = plain_file (marshal sample_vault_world v)\<rparr>"

definition sample_fate :: run_fate where
  "sample_fate = \<lparr>rf_lock = True, rf_held = True, rf_primary = True, rf_mirror = True, rf_held_after = True,
     rf_remove_primary = True, rf_remove_mirror = True\<rparr>"

lemma sample_both_hold: "vault_ok v \<Longrightarrow> both_hold sample_vault_world (sample_keys v) v v" and sample_wanted: "wanted zero_id v"
  by (simp_all add: both_hold_def sample_keys_def wanted_def)

lemma sample_open:
  assumes "vault_ok v" "open_with sample_vault_world s v = Inr k"
  obtains o' where "open_vault sample_vault_world (sample_keys v) zero_id s None = Inr o'" "op_vault o' = v" "op_key o' = k"
  using opened_both [OF sample_codec sample_both_hold [OF assms(1)] sample_wanted assms(2)] that by (auto simp: opens_to_def)

theorem the_newest_authentic_key_file_wins_witness:
  "\<exists>v k o'. unlock sample_vault_world v ''correct horse'' = Inr k
     \<and> open_vault sample_vault_world (sample_keys v) zero_id (By_password ''correct horse'') None = Inr o'
     \<and> verify (op_vault o') (Some (op_key o')) = Inr ()"
proof (rule sample_life)
  fix v k rk
  assume c: "create sample_vault_world ''correct horse'' sample_random = Inr (v, k, rk, replicate 56 CHR ''r'')" and v: "vault_ok v"
  have u: "unlock sample_vault_world v ''correct horse'' = Inr k" using created [OF sample_sound c] by blast
  then have o: "open_with sample_vault_world (By_password ''correct horse'') v = Inr k" by (simp add: open_with_def)
  from v o obtain o' where "open_vault sample_vault_world (sample_keys v) zero_id (By_password ''correct horse'') None = Inr o'"
    by (rule sample_open)
  with the_newest_authentic_key_file_wins [OF this] u show ?thesis by blast
qed

lemma shut_both:
  assumes "good_codec W" "both_hold W F a a" "wanted want a" "\<forall>k. open_with W s a \<noteq> Inr k"
  shows "stays_shut W F want s"
  using never_opened [OF assms(1-3)] assms(4) by (auto simp: stays_shut_def)

lemma replaced:
  assumes W: "good_codec W" and F: "both_hold W F v v" "wanted want v" and n: "vault_ok n" "va_id n = va_id v" "va_gen v < va_gen n"
    and s: "is_key old = False"
    and o: "open_with W old v = Inr k" "\<forall>k. open_with W old n \<noteq> Inr k"
    and w: "open_with W new n = Inr k" "\<forall>k. open_with W new v \<noteq> Inr k"
    and e: "save W fate F n = (Fs, res)"
  shows "(\<forall>G \<in> set Fs. opens_to W G want old k v \<and> stays_shut W G want new \<or> opens_to W G want new k n \<and> stays_shut W G want old)
    \<and> (if res = Inr () \<or> res = Inl Partially_saved then opens_to W (last Fs) want new k n else last Fs = F)"
proof -
  let ?b = "plain_file (marshal W n)"
  let ?F1 = "F\<lparr>kf_primary := ?b\<rparr>" and ?F2 = "F\<lparr>kf_primary := ?b, kf_mirror := ?b\<rparr>"
  have v: "vault_ok v" using F(1) by (simp add: both_hold_def)
  have h: "both_hold W ?F1 n v" "both_hold W ?F2 n n" "wanted want n" using F n(1,2) by (simp_all add: both_hold_def wanted_def)
  have kv: "verify v (Some k) = Inr ()" "verify n (Some k) = Inr ()" using open_with_verified o(1) w(1) by blast+
  have 0: "opens_to W F want old k v" "stays_shut W F want new"
    using opened_both [OF W F o(1)] shut_both [OF W F w(2)] by blast+
  have 2: "opens_to W ?F2 want new k n" "stays_shut W ?F2 want old"
    using opened_both [OF W h(2,3) w(1)] shut_both [OF W h(2,3) o(2)] by blast+
  have "opens_to W ?F1 want new k n"
    using opened_with_a [OF W h(1,3) w(1) kv(1) less_imp_le [OF n(3)]] n(3) w(2) by (auto simp: opens_to_def)
  moreover have "stays_shut W ?F1 want old"
    using old_refused [OF W h(1,3) s o(1) kv(2) n(3) o(2)] by (simp add: stays_shut_def)
  ultimately have 1: "opens_to W ?F1 want new k n" "stays_shut W ?F1 want old" .
  consider "Fs = [F]" "res = Inl Write_failed" | "Fs = [F, ?F1]" "res = Inl Partially_saved" | "Fs = [F, ?F1, ?F2]" "res = Inr ()"
    using e unfolding save_def Let_def by (auto split: if_splits)
  then show ?thesis
  proof cases
    case 1
    then show ?thesis using 0 by simp
  next
    case 2
    then show ?thesis using 0 \<open>opens_to W ?F1 want new k n\<close> \<open>stays_shut W ?F1 want old\<close> by simp
  next
    case 3
    then show ?thesis using 0 \<open>opens_to W ?F1 want new k n\<close> \<open>stays_shut W ?F1 want old\<close>
        \<open>opens_to W ?F2 want new k n\<close> \<open>stays_shut W ?F2 want old\<close> by simp
  qed
qed

lemma unsaved:
  assumes "good_codec W" "both_hold W F v v" "wanted want v" "open_with W old v = Inr k" "\<forall>k. open_with W new v \<noteq> Inr k"
  shows "opens_to W F want old k v \<and> stays_shut W F want new"
  using opened_both [OF assms(1-4)] shut_both [OF assms(1-3,5)] by blast

text \<open>
  A password change takes effect at one moment.  With both copies sound, whatever the lock and the writes
  do, at every step of the change exactly one of the two passwords opens the archive, to the same key: the old
  one until the first copy is written, the new one from then on.  The run reports the change as made, or made
  but for the second copy, exactly when the new password is the one that opens.  This rests on the codec, the
  cipher and Argon2id as documented and on neither password opening the other's key file.
\<close>

theorem a_password_change_takes_effect_at_once:
  assumes "sound_world W" and "good_codec W" and "both_hold W F v v" and "wanted want v"
    and "unlock W v old = Inr k" and "with_password W v (Some k) new r = Inr (n, r')"
    and "\<forall>k. unlock W n old \<noteq> Inr k" and "\<forall>k. unlock W v new \<noteq> Inr k"
    and "change_password_at W fate F want (By_password old) new r = (Fs, res)"
  shows "(\<forall>G \<in> set Fs. opens_to W G want (By_password old) k v \<and> stays_shut W G want (By_password new)
        \<or> opens_to W G want (By_password new) k n \<and> stays_shut W G want (By_password old))
    \<and> (if res = Inr () \<or> res = Inl Partially_saved then opens_to W (last Fs) want (By_password new) k n else last Fs = F)"
proof -
  have km: "key_made k" using unwrapped assms(5) unfolding unlock_def by blast
  note c = password_changed [OF assms(1) km assms(6)]
  have v: "vault_ok v" using assms(3) by (simp add: both_hold_def)
  have o: "open_with W (By_password old) v = Inr k" "\<forall>k. open_with W (By_password old) n \<noteq> Inr k"
    and w: "open_with W (By_password new) n = Inr k" "\<forall>k. open_with W (By_password new) v \<noteq> Inr k"
    using assms(5,7,8) c(2) by (simp_all add: open_with_def)
  have s: "is_key (By_password old) = False" by (simp add: is_key_def)
  note u = unsaved [OF assms(2,3,4) o(1) w(2)]
  obtain h where h: "open_vault W F want (By_password old) None = Inr \<lparr>op_vault = v, op_key = k, op_needs_heal = h, op_forked = False\<rparr>"
    using opened_with_a [OF assms(2-4) o(1) c(9)] by auto
  show ?thesis
  proof (cases "kf_present F \<and> rf_lock fate \<and> rf_held fate \<and> va_gen v < va_gen n")
    case True
    have n: "vault_ok n" using v c True by (auto simp: vault_ok_def)
    have "\<not> va_gen n \<le> va_gen v" using True leD by blast
    then have "save W fate F n = (Fs, res)"
      using assms(9) True h assms(6)
      by (simp add: change_password_at_def mutate_def then_save_def require_dir_def lock_archive_def still_held_def)
    from replaced [OF assms(2-4) n c(4) _ s o w this] True show ?thesis by blast
  next
    case False
    then have "Fs = [F] \<and> res \<noteq> Inr () \<and> res \<noteq> Inl Partially_saved"
      using assms(9) h assms(6)
      by (auto simp: change_password_at_def mutate_def then_save_def require_dir_def lock_archive_def still_held_def not_less split: if_splits)
    with u show ?thesis by simp
  qed
qed


theorem a_password_change_takes_effect_at_once_witness:
  "\<exists>v k n Fs res. change_password_at sample_vault_world sample_fate (sample_keys v) zero_id (By_password ''correct horse'')
        ''battery staple'' (replicate 56 CHR ''r'') = (Fs, res)
     \<and> (\<forall>G \<in> set Fs. opens_to sample_vault_world G zero_id (By_password ''correct horse'') k v
        \<or> opens_to sample_vault_world G zero_id (By_password ''battery staple'') k n)"
proof (rule sample_life)
  fix v k rk n r
  assume c: "create sample_vault_world ''correct horse'' sample_random = Inr (v, k, rk, replicate 56 CHR ''r'')" and v: "vault_ok v"
    and n: "with_password sample_vault_world v (Some k) ''battery staple'' (replicate 56 CHR ''r'') = Inr (n, r)"
    and x: "\<forall>k. unlock sample_vault_world n ''correct horse'' \<noteq> Inr k" "\<forall>k. unlock sample_vault_world v ''battery staple'' \<noteq> Inr k"
  have u: "unlock sample_vault_world v ''correct horse'' = Inr k" using created [OF sample_sound c] by blast
  obtain Fs res where s: "change_password_at sample_vault_world sample_fate (sample_keys v) zero_id (By_password ''correct horse'')
      ''battery staple'' (replicate 56 CHR ''r'') = (Fs, res)" by fastforce
  from a_password_change_takes_effect_at_once [OF sample_sound sample_codec sample_both_hold [OF v] sample_wanted u n x s] s
  show ?thesis by blast
qed

end
