(* ===== verification/VaultHeal.thy ===== *)
theory VaultHeal
  imports VaultChange
begin

text \<open>
  Putting the two copies right: a heal ends in two equal copies of the vault that was trusted and never
  shuts the archive on the way; a new recovery key and a new archive are saved whole or not at all.
\<close>

subsection \<open>The folders a heal passes through\<close>

lemma read_again:
  assumes W: "good_codec W" and r: "read_copies W F want = Inr (all, parsed)"
    and w: "w \<in> snd ` set parsed"
  shows "\<exists>parsed. read_copies W (F\<lparr>kf_primary := plain_file (marshal W w), kf_mirror := plain_file (marshal W w)\<rparr>) want
      = Inr ([\<lparr>cd_raw = marshal W w, cd_vault = Some (Inr w)\<rparr>, \<lparr>cd_raw = marshal W w, cd_vault = Some (Inr w)\<rparr>], parsed)"
    and "\<exists>all' parsed'. read_copies W (F\<lparr>kf_primary := plain_file (marshal W w)\<rparr>) want = Inr (all', parsed')
      \<and> (map snd (parsed_copies all') = map snd (parsed_copies all) \<or> map snd (parsed_copies all') = [w, w])"
proof -
  let ?p = "read_copy W (kf_windows F) (kf_primary F)" and ?m = "read_copy W (kf_windows F) (kf_mirror F)"
  let ?c = "\<lparr>cd_raw = marshal W w, cd_vault = Some (Inr w)\<rparr>"
  note a = copies_read(1) [OF r]
  obtain raw where raw: "(raw, w) \<in> set parsed" using w by auto
  then have ok: "vault_ok w" using parsed_consistent [OF r] parsed_ok by blast
  note new = read_plain [OF W ok]
  have i: "want = zero_id \<or> va_id w = want" using copies_read(4) [OF r _ raw] by blast
  show "\<exists>parsed. read_copies W (F\<lparr>kf_primary := plain_file (marshal W w), kf_mirror := plain_file (marshal W w)\<rparr>) want
      = Inr ([?c, ?c], parsed)"
    using i by (auto simp: read_copies_def new Let_def)
  have "cd_vault ?p = Some (Inr w) \<or> cd_vault ?m = Some (Inr w)"
    using raw parsed_in [of raw w all] copies_read(2) [OF r] a by auto
  then show "\<exists>all' parsed'. read_copies W (F\<lparr>kf_primary := plain_file (marshal W w)\<rparr>) want = Inr (all', parsed')
      \<and> (map snd (parsed_copies all') = map snd (parsed_copies all) \<or> map snd (parsed_copies all') = [w, w])"
  proof
    assume p: "cd_vault ?p = Some (Inr w)"
    have "copy_ids W [?c, ?m] = copy_ids W all" "list_ex (\<lambda>c. cd_vault c = Some (Inl Newer_vault)) [?c, ?m]
        = list_ex (\<lambda>c. cd_vault c = Some (Inl Newer_vault)) all"
      "map snd (parsed_copies [?c, ?m]) = map snd (parsed_copies all)"
      using p by (simp_all add: a)
    then show ?thesis using r
      by (auto simp: read_copies_def new Let_def a split: if_splits)
  next
    assume m: "cd_vault ?m = Some (Inr w)"
    then have "copy_ids W [?c, ?m] = [va_id w, va_id w]" "map snd (parsed_copies [?c, ?m]) = [w, w]" by simp_all
    then show ?thesis using i m
      by (auto simp: read_copies_def new Let_def)
  qed
qed

text \<open>A folder with one copy.\<close>

lemma one_copy_read:
  assumes "good_codec W" "vault_ok v"
  shows "read_copies W (F\<lparr>kf_primary := plain_file (marshal W v), kf_mirror := Absent\<rparr>) zero_id
    = Inr ([\<lparr>cd_raw = marshal W v, cd_vault = Some (Inr v)\<rparr>, \<lparr>cd_raw = [], cd_vault = None\<rparr>], [(marshal W v, v)])"
  using read_plain [OF assms] assms(1)
  by (simp add: read_copies_def Let_def read_copy_def [of W _ Absent] claimed_id_def good_codec_def)

lemma open_one:
  assumes "good_codec W" "vault_ok v" "open_with W s v = Inr k"
  shows "open_vault W (F\<lparr>kf_primary := plain_file (marshal W v), kf_mirror := Absent\<rparr>) zero_id s None
      = Inr \<lparr>op_vault = v, op_key = k, op_needs_heal = True, op_forked = False\<rparr>"
  unfolding open_vault_outcome [OF one_copy_read [OF assms(1,2)]] using once_outcome [OF assms(3)]
  by (simp add: marshal_def)

lemma opens_one:
  assumes "good_codec W" "vault_ok v" "open_with W s v = Inr k"
  shows "opens_to W (F\<lparr>kf_primary := plain_file (marshal W v), kf_mirror := Absent\<rparr>) zero_id s k v"
  using open_one [OF assms] by (simp add: opens_to_def)

text \<open>
  A heal converges and never shuts the archive.  At every step of a heal the secret it ran with opens the
  archive to the very vault that was trusted before.  And when the folder is there, the lock is kept and both
  writes succeed, a heal of an unforked archive ends with nothing left to heal: both copies are that vault, and
  a heal run on the result writes nothing.
\<close>

theorem healing_converges:
  assumes "good_codec W" and "open_vault W F want s None = Inr o'" and "heal W fate F want s = (Fs, res)"
  shows "(\<forall>G \<in> set Fs. \<exists>p. open_vault W G want s None = Inr p \<and> op_vault p = op_vault o')
    \<and> (kf_present F \<and> rf_lock fate \<and> rf_held fate \<and> rf_primary fate \<and> rf_mirror fate \<and> \<not> op_forked o' \<longrightarrow>
        res = Inr () \<and> (\<exists>p. open_vault W (last Fs) want s None = Inr p \<and> op_vault p = op_vault o' \<and> \<not> op_needs_heal p \<and> \<not> op_forked p)
        \<and> heal W fate (last Fs) want s = ([last Fs], Inr ()))"
proof -
  let ?w = "op_vault o'"
  obtain all parsed where r: "read_copies W F want = Inr (all, parsed)" and w: "?w \<in> snd ` set parsed" and k: "\<exists>k. open_with W s ?w = Inr k"
    using assms(2) by (rule trusted) blast
  obtain k where k: "open_with W s ?w = Inr k" using k by blast
  let ?b = "plain_file (marshal W ?w)"
  let ?F1 = "F\<lparr>kf_primary := ?b\<rparr>" and ?F2 = "F\<lparr>kf_primary := ?b, kf_mirror := ?b\<rparr>"
  let ?c = "\<lparr>cd_raw = marshal W ?w, cd_vault = Some (Inr ?w)\<rparr>"
  have 0: "\<exists>p. open_vault W F want s None = Inr p \<and> op_vault p = ?w" using assms(2) by blast
  have 1: "\<exists>p. open_vault W ?F1 want s None = Inr p \<and> op_vault p = ?w"
  proof -
    obtain all' parsed' where a: "read_copies W ?F1 want = Inr (all', parsed')"
      "map snd (parsed_copies all') = map snd (parsed_copies all) \<or> map snd (parsed_copies all') = [?w, ?w]"
      using read_again(2) [OF assms(1) r w] by (elim exE conjE) (rule that)
    have "outcome W s (map snd (parsed_copies all)) = Some (op_key o', ?w, op_forked o')"
      using assms(2) open_vault_outcome [OF r] by blast
    then obtain k' f where "outcome W s (map snd (parsed_copies all')) = Some (k', ?w, f)" using a(2) twice_outcome [OF k] by metis
    then have "open_vault W ?F1 want s None = Inr \<lparr>op_vault = ?w, op_key = k',
        op_needs_heal = list_ex (\<lambda>c. cd_raw c \<noteq> marshal W ?w) all', op_forked = f\<rparr>"
      unfolding open_vault_outcome [OF a(1)] by simp
    then show ?thesis by simp
  qed
  obtain parsed2 where r2: "read_copies W ?F2 want = Inr ([?c, ?c], parsed2)" using read_again(1) [OF assms(1) r w] by blast
  have 2: "open_vault W ?F2 want s None = Inr \<lparr>op_vault = ?w, op_key = k, op_needs_heal = False, op_forked = False\<rparr>"
    unfolding open_vault_outcome [OF r2] using twice_outcome [OF k] by simp
  have sv: "(\<forall>G \<in> set Gs. \<exists>p. open_vault W G want s None = Inr p \<and> op_vault p = ?w)" if "save W fate F ?w = (Gs, x)" for Gs x
    using that 0 1 2 unfolding save_def Let_def by (auto split: if_splits)
  consider (kept) "Fs = [F]" | (saved) "save W fate F ?w = (Fs, res)"
    using assms(2,3)
    by (auto simp: heal_def then_save_def require_dir_def lock_archive_def still_held_def split: if_splits)
  then have steps: "\<forall>G \<in> set Fs. \<exists>p. open_vault W G want s None = Inr p \<and> op_vault p = ?w"
    using 0 sv by cases auto
  moreover have "res = Inr () \<and> (\<exists>p. open_vault W (last Fs) want s None = Inr p \<and> op_vault p = ?w \<and> \<not> op_needs_heal p \<and> \<not> op_forked p)
        \<and> heal W fate (last Fs) want s = ([last Fs], Inr ())"
    if f: "kf_present F \<and> rf_lock fate \<and> rf_held fate \<and> rf_primary fate \<and> rf_mirror fate \<and> \<not> op_forked o'"
  proof (cases "op_needs_heal o'")
    case True
    then have "Fs = [F, ?F1, ?F2] \<and> res = Inr ()"
      using assms(2,3) f by (auto simp: heal_def then_save_def require_dir_def lock_archive_def still_held_def save_def Let_def)
    moreover have "heal W fate ?F2 want s = ([?F2], Inr ())"
      using 2 f by (simp add: heal_def then_save_def require_dir_def lock_archive_def)
    ultimately show ?thesis using 2 by simp
  next
    case False
    then have "heal W fate F want s = ([F], Inr ())"
      using assms(2) f by (simp add: heal_def then_save_def require_dir_def lock_archive_def)
    then show ?thesis using assms(2,3) f False by simp
  qed
  ultimately show ?thesis by blast
qed


theorem healing_converges_witness:
  "\<exists>v p Fs res. heal sample_vault_world sample_fate ((sample_keys v)\<lparr>kf_mirror := Absent\<rparr>) zero_id (By_password ''correct horse'') = (Fs, res)
     \<and> res = Inr () \<and> open_vault sample_vault_world (last Fs) zero_id (By_password ''correct horse'') None = Inr p
     \<and> \<not> op_needs_heal p"
proof (rule sample_life)
  fix v k rk
  assume c: "create sample_vault_world ''correct horse'' sample_random = Inr (v, k, rk, replicate 56 CHR ''r'')" and v: "vault_ok v"
  let ?F = "(sample_keys v)\<lparr>kf_mirror := Absent\<rparr>"
  have "open_with sample_vault_world (By_password ''correct horse'') v = Inr k" using created [OF sample_sound c] by (simp add: open_with_def)
  then have "open_vault sample_vault_world ?F zero_id (By_password ''correct horse'') None
      = Inr \<lparr>op_vault = v, op_key = k, op_needs_heal = True, op_forked = False\<rparr>"
    using open_one [OF sample_codec v, of _ k "sample_keys v"] by (simp add: sample_keys_def)
  moreover obtain Fs res where "heal sample_vault_world sample_fate ?F zero_id (By_password ''correct horse'') = (Fs, res)" by fastforce
  moreover have "kf_present ?F" by (simp add: sample_keys_def)
  ultimately show ?thesis
    using healing_converges [OF sample_codec, of ?F zero_id "By_password ''correct horse''" _ sample_fate Fs res]
    by (simp add: sample_fate_def) blast
qed


subsection \<open>A new archive\<close>

text \<open>
  A new archive is whole or nothing.  A create that is committed leaves a folder that opens with the
  password and with the recovery key as it was shown, and is spent.  At every step of the commit the folder
  either holds no key file or one that both open.  A commit that fails leaves the folder as it was and can be
  run again, unless it reports that the clean-up failed.
\<close>

theorem a_create_is_whole_or_nothing:
  assumes "sound_world W" and "good_codec W" and "keeps_ascii (vw_text W)"
    and "prepare_create W F password r = Inr (p, r')" and "va_id (pc_vault p) \<noteq> zero_id"
    and "commit_create W fate F p = (Fs, p', res)"
  shows "(\<forall>G \<in> set Fs. G = F \<or> (\<exists>k. opens_to W G zero_id (By_password password) k (pc_vault p)
        \<and> opens_to W G zero_id (By_recovery (recovery_string (pc_recovery p))) k (pc_vault p)))
    \<and> (\<forall>k. res = Inr k \<longrightarrow> opens_to W (last Fs) zero_id (By_password password) k (pc_vault p)
        \<and> opens_to W (last Fs) zero_id (By_recovery (recovery_string (pc_recovery p))) k (pc_vault p)
        \<and> commit_create W fate (last Fs) p' = ([last Fs], p', Inl Pending_used))
    \<and> (\<forall>e. res = Inl e \<and> e \<noteq> Clean_up_failed \<longrightarrow> last Fs = F \<and> p' = p)"
proof -
  obtain v k rk where c: "create W password r = Inr (v, k, rk, r')" and d: "kf_primary F = Absent" "kf_mirror F = Absent" "kf_present F"
    and p: "p = \<lparr>pc_vault = v, pc_key = Some k, pc_recovery = rk, pc_done = False\<rparr>"
    using assms(4) by (auto simp: prepare_create_def require_dir_def refuse_existing_def split: if_splits)
  note f = created [OF assms(1) c]
  have v: "vault_ok v" using f assms(5) by (simp add: vault_ok_def p)
  have o: "open_with W (By_password password) v = Inr k" "open_with W (By_recovery (recovery_string rk)) v = Inr k"
    using f(3,4) unlock_recovery_shown [OF assms(3) f(6)] by (simp_all add: open_with_def)
  let ?b = "plain_file (marshal W v)"
  let ?F1 = "F\<lparr>kf_primary := ?b\<rparr>" and ?F2 = "F\<lparr>kf_primary := ?b, kf_mirror := ?b\<rparr>"
  have e1: "?F1 = F\<lparr>kf_primary := ?b, kf_mirror := Absent\<rparr>" and e0: "F\<lparr>kf_primary := Absent\<rparr> = F" "F\<lparr>kf_mirror := Absent\<rparr> = F"
    using d by simp_all
  have h: "both_hold W ?F2 v v" "wanted zero_id v" using v by (simp_all add: both_hold_def wanted_def)
  have 1: "opens_to W ?F1 zero_id s k v" if "open_with W s v = Inr k" for s using opens_one [OF assms(2) v that, of F] e1 by metis
  have 2: "opens_to W ?F2 zero_id s k v" if "open_with W s v = Inr k" for s by (rule opened_both [OF assms(2) h that])
  show ?thesis
  proof (cases "rf_lock fate \<and> rf_held fate \<and> rf_primary fate")
    case False
    then have "set Fs = {F} \<and> (\<exists>e. res = Inl e) \<and> p' = p \<and> last Fs = F"
      using assms(6) d e0 p
      by (auto simp: commit_create_def require_dir_def lock_archive_def refuse_existing_def still_held_def save_def Let_def
          undo_create_def split: if_splits)
    then show ?thesis by auto
  next
    case True
    note g = d(3) True
    show ?thesis
    proof (cases "rf_mirror fate")
      case True
      then have "Fs = [F, ?F1, ?F2] \<and> res = Inr k \<and> p' = p\<lparr>pc_key := None, pc_done := True\<rparr>"
        using assms(6) g d p
        by (auto simp: commit_create_def require_dir_def lock_archive_def refuse_existing_def still_held_def save_def Let_def)
      then show ?thesis using 1 [OF o(1)] 1 [OF o(2)] 2 [OF o(1)] 2 [OF o(2)] p by (auto simp: commit_create_def)
    next
      case False
      have m: "?b \<noteq> Absent" by (simp add: plain_file_def)
      have s: "save W fate F v = ([F, ?F1], Inl Partially_saved)" using g False by (simp add: save_def Let_def)
      have u: "commit_create W fate F p = (case undo_create fate [F, ?F1] of (Fs, x) \<Rightarrow> (Fs, p, x))"
        using g d p s by (simp add: commit_create_def require_dir_def lock_archive_def refuse_existing_def still_held_def)
      have "set Fs \<subseteq> {F, ?F1} \<and> p' = p \<and> (\<exists>e. res = Inl e \<and> (e \<noteq> Clean_up_failed \<longrightarrow> last Fs = F))"
        using assms(6) d m unfolding u
        by (auto simp: undo_create_def Let_def e0 split: if_splits)
      then show ?thesis using 1 [OF o(1)] 1 [OF o(2)] p by auto
    qed
  qed
qed


theorem a_create_is_whole_or_nothing_witness:
  "\<exists>p r Fs p' res. prepare_create sample_vault_world \<lparr>kf_windows = False, kf_present = True, kf_primary = Absent, kf_mirror = Absent\<rparr>
        ''correct horse'' sample_random = Inr (p, r)
     \<and> commit_create sample_vault_world sample_fate \<lparr>kf_windows = False, kf_present = True, kf_primary = Absent, kf_mirror = Absent\<rparr> p
        = (Fs, p', res)
     \<and> (\<forall>k. res = Inr k \<longrightarrow> opens_to sample_vault_world (last Fs) zero_id (By_password ''correct horse'') k (pc_vault p))"
proof -
  let ?F = "\<lparr>kf_windows = False, kf_present = True, kf_primary = Absent, kf_mirror = Absent\<rparr>"
  obtain v k rk where c: "create sample_vault_world ''correct horse'' sample_random = Inr (v, k, rk, replicate 56 CHR ''r'')" "va_id v \<noteq> zero_id"
    using sample_created by blast
  let ?p = "\<lparr>pc_vault = v, pc_key = Some k, pc_recovery = rk, pc_done = False\<rparr>"
  have p: "prepare_create sample_vault_world ?F ''correct horse'' sample_random = Inr (?p, replicate 56 CHR ''r'')"
    using c(1) by (simp add: prepare_create_def require_dir_def refuse_existing_def)
  have i: "va_id (pc_vault ?p) \<noteq> zero_id" using c(2) by simp
  obtain Fs p' res where s: "commit_create sample_vault_world sample_fate ?F ?p = (Fs, p', res)" by (metis prod.exhaust)
  from a_create_is_whole_or_nothing [OF sample_sound sample_codec sample_text p i s] p s show ?thesis by blast
qed

subsection \<open>A new recovery key\<close>

lemma read_both:
  assumes "good_codec W" "both_hold W F v v" "wanted want v"
  shows "read_copies W F want = Inr ([\<lparr>cd_raw = marshal W v, cd_vault = Some (Inr v)\<rparr>, \<lparr>cd_raw = marshal W v, cd_vault = Some (Inr v)\<rparr>],
     [(marshal W v, v), (marshal W v, v)])"
  using holds_read [OF assms] by simp

text \<open>
  A new recovery key takes effect at one moment, and only over the key file it was made from.  At every
  step of its commit exactly one of the two recovery keys opens the archive: the old one until the first copy
  is written, the new one from then on.  A commit that changed nothing leaves the prepared change as it was, to
  be tried again.  Over a newer key file, changed elsewhere since it was prepared, it is refused and spent.
\<close>

theorem a_new_recovery_key_takes_effect_at_once:
  assumes "sound_world W" and "good_codec W" and "keeps_ascii (vw_text W)" and "both_hold W F v v" and "wanted want v"
    and "va_gen v < max_generation" and "prepare_new_recovery W F want s r = Inr (p, r')"
    and "open_with W s v = Inr k" and "unlock_recovery W v old = Inr k"
    and "\<forall>k. unlock_recovery W (pr_next p) old \<noteq> Inr k" and "\<forall>k. unlock_recovery W v (recovery_string (pr_recovery p)) \<noteq> Inr k"
    and "commit_recovery W fate F p = (Fs, p', res)"
  shows "(\<forall>G \<in> set Fs. opens_to W G want (By_recovery old) k v \<and> stays_shut W G want (By_recovery (recovery_string (pr_recovery p)))
        \<or> opens_to W G want (By_recovery (recovery_string (pr_recovery p))) k (pr_next p) \<and> stays_shut W G want (By_recovery old))
    \<and> (if res = Inr () \<or> res = Inl Partially_saved
       then opens_to W (last Fs) want (By_recovery (recovery_string (pr_recovery p))) k (pr_next p) \<and> pr_done p'
       else last Fs = F \<and> p' = p)
    \<and> (\<forall>F' m. both_hold W F' m m \<and> wanted want m \<and> kf_present F' \<and> rf_lock fate \<and> verify m (Some k) = Inr () \<and> va_gen v < va_gen m
        \<longrightarrow> commit_recovery W fate F' p = ([F'], finish_recovery p, Inl Conflict))"
proof -
  obtain h where h: "open_vault W F want s None = Inr \<lparr>op_vault = v, op_key = k, op_needs_heal = h, op_forked = False\<rparr>"
    using opened_with_a [OF assms(2,4,5,8)] open_with_verified [OF assms(8)] by auto
  obtain n rk where n: "with_new_recovery W v (Some k) r = Inr (n, rk, r')"
    and p: "p = \<lparr>pr_want = want, pr_key = k, pr_base = v, pr_next = n, pr_recovery = rk, pr_done = False\<rparr>"
    using assms(7) h by (auto simp: prepare_new_recovery_def)
  have km: "key_made k" using open_with_verified [OF assms(8)] by blast
  note c = recovery_changed [OF assms(1) km n]
  have v: "vault_ok v" using assms(4) by (simp add: both_hold_def)
  have o: "open_with W (By_recovery old) v = Inr k" "\<forall>k. open_with W (By_recovery old) n \<noteq> Inr k"
    using assms(9,10) by (simp_all add: open_with_def p)
  have w: "open_with W (By_recovery (recovery_string rk)) n = Inr k" "\<forall>k. open_with W (By_recovery (recovery_string rk)) v \<noteq> Inr k"
    using assms(11) c(2) unlock_recovery_shown [OF assms(3) c(9)] by (simp_all add: open_with_def p)
  have ok: "vault_ok n" using v c below_cap [OF assms(6)] by (simp add: vault_ok_def)
  have g: "va_gen v < va_gen n"
    using c(3) below_cap [OF assms(6)] unatSuc [of "va_gen v"] by (simp add: word_less_nat_alt add.commute)
  have found: "base_found p [v, v] False" using c(10) by (simp add: p)
  note r2 = read_both [OF assms(2,4,5)]
  have conflict: "commit_recovery W fate F' p = ([F'], finish_recovery p, Inl Conflict)"
    if a: "both_hold W F' m m" "wanted want m" "kf_present F'" "rf_lock fate" "verify m (Some k) = Inr ()" "va_gen v < va_gen m" for F' m
    using a read_both [OF assms(2) a(1,2)] by (simp add: commit_recovery_def p require_dir_def lock_archive_def)
  then have conflicts: "\<forall>F' m. both_hold W F' m m \<and> wanted want m \<and> kf_present F' \<and> rf_lock fate \<and> verify m (Some k) = Inr () \<and> va_gen v < va_gen m
        \<longrightarrow> commit_recovery W fate F' p = ([F'], finish_recovery p, Inl Conflict)" by blast
  note u = unsaved [OF assms(2,4,5) o(1) w(2)]
  have shut: "is_key (By_recovery old) = False" by (simp add: is_key_def)
  show ?thesis
  proof (cases "kf_present F \<and> rf_lock fate \<and> rf_held fate")
    case False
    then have "Fs = [F] \<and> p' = p \<and> res \<noteq> Inr () \<and> res \<noteq> Inl Partially_saved"
      using assms(12) r2 found
      by (auto simp: commit_recovery_def require_dir_def lock_archive_def still_held_def p split: if_splits)
    with u conflicts show ?thesis by (simp add: p)
  next
    case True
    obtain Gs x where sv: "save W fate F n = (Gs, x)" by fastforce
    have e: "Fs = Gs \<and> res = x \<and> p' = (if x = Inr () \<or> x = Inl Partially_saved then finish_recovery p else p)"
      using assms(12) True r2 found sv
      by (auto simp: commit_recovery_def require_dir_def lock_archive_def still_held_def p split: sum.splits if_splits)
    note t = replaced [OF assms(2,4,5) ok c(4) g shut o w sv]
    show ?thesis using t e conflicts by (auto simp: p finish_recovery_def split: if_splits)
  qed
qed


theorem a_new_recovery_key_takes_effect_at_once_witness:
  "\<exists>v k p r Fs p' res. prepare_new_recovery sample_vault_world (sample_keys v) zero_id (By_password ''correct horse'') (replicate 56 CHR ''q'') = Inr (p, r)
     \<and> commit_recovery sample_vault_world sample_fate (sample_keys v) p = (Fs, p', res)
     \<and> (\<forall>G \<in> set Fs. opens_to sample_vault_world G zero_id (By_recovery (recovery_string (replicate 16 CHR ''r''))) k v
        \<or> opens_to sample_vault_world G zero_id (By_recovery (recovery_string (replicate 16 CHR ''q''))) k (pr_next p))"
proof (rule sample_life)
  fix v k rk
  assume c: "create sample_vault_world ''correct horse'' sample_random = Inr (v, k, rk, replicate 56 CHR ''r'')" and v: "vault_ok v" "va_gen v = 1"
    and km: "key_made k" "verify v (Some k) = Inr ()" and rk: "rk = replicate 16 CHR ''r''"
    and x: "\<forall>k. unwrap sample_vault_world v Entry_recovery (va_recovery v) (replicate 16 CHR ''q'') \<noteq> Inr k"
  let ?s = "By_password ''correct horse''"
  note f = created [OF sample_sound c]
  have s: "open_with sample_vault_world ?s v = Inr k" using f(3) by (simp add: open_with_def)
  obtain m where m: "with_new_recovery sample_vault_world v (Some k) (replicate 56 CHR ''q'') = Inr (m, replicate 16 CHR ''q'', [])"
    using sample_new_recovery [OF km v(2)] by blast
  obtain o' where o: "open_vault sample_vault_world (sample_keys v) zero_id ?s None = Inr o'" "op_vault o' = v" "op_key o' = k"
    using v(1) s by (rule sample_open)
  let ?p = "\<lparr>pr_want = zero_id, pr_key = k, pr_base = v, pr_next = m, pr_recovery = replicate 16 CHR ''q'', pr_done = False\<rparr>"
  have p: "prepare_new_recovery sample_vault_world (sample_keys v) zero_id ?s (replicate 56 CHR ''q'') = Inr (?p, [])"
    using o m by (simp add: prepare_new_recovery_def)
  have l: "length (replicate 16 CHR ''r'') = recovery_key_size" "length (replicate 16 CHR ''q'') = recovery_key_size"
    by (simp_all add: recovery_key_size_def)
  note sh = unlock_recovery_shown [OF sample_text]
  have old: "unlock_recovery sample_vault_world v (recovery_string (replicate 16 CHR ''r'')) = Inr k" using f(4) sh [OF l(1)] rk by simp
  have no: "\<forall>k. unlock_recovery sample_vault_world m (recovery_string (replicate 16 CHR ''r'')) \<noteq> Inr k"
  proof
    fix k'
    show "unlock_recovery sample_vault_world m (recovery_string (replicate 16 CHR ''r'')) \<noteq> Inr k'"
      using m by (rule new_recovery_facts) (use sample_other_secret [OF _ sample_recoveries_differ [symmetric]] sh [OF l(1)] in auto)
  qed
  have yes: "\<forall>k. unlock_recovery sample_vault_world v (recovery_string (replicate 16 CHR ''q'')) \<noteq> Inr k" using x sh [OF l(2)] by simp
  obtain Fs p' res where e: "commit_recovery sample_vault_world sample_fate (sample_keys v) ?p = (Fs, p', res)" by (metis prod.exhaust)
  have g: "va_gen v < max_generation" using v(2) by (simp add: max_generation_def)
  from a_new_recovery_key_takes_effect_at_once [OF sample_sound sample_codec sample_text sample_both_hold [OF v(1)] sample_wanted g p s old _ _ e]
    no yes p e
  show ?thesis by (metis (no_types, lifting) pending_recovery.select_convs(4,5))
qed

end
