(* ===== verification/VaultPutBack.thy ===== *)
theory VaultPutBack
  imports VaultRestore VaultHeal
begin

text \<open>
  The promises of a restore: it goes only over a folder its key is proven for and whose copies no longer open,
  its key file outranks every copy and leaves room for later changes, and once it is written the new secrets
  open the archive.
\<close>

subsection \<open>What a prepared restore has judged\<close>

lemma judged_copy:
  assumes "judge_copy W k src c = Inr (g, x)"
  shows "g = claimed_generation W (cd_raw c)" "g < max_generation - generation_headroom"
    "cd_vault c \<noteq> Some (Inl Newer_vault)" "cd_vault c = Some (Inr v) \<Longrightarrow> va_id v = vk_id k \<and> verify v (Some k) \<noteq> Inr ()"
    "set (copy_ids W [c]) \<subseteq> {vk_id k}"
  using assms by (auto simp: judge_copy_def Let_def not_le split: if_splits option.splits sum.splits)

lemma judged_restore:
  assumes "judge_restore W F want k src = Inr st"
  obtains g h x y here p proven here' q proven'
  where "judge_copy W k src (read_copy W (kf_windows (rf_keys F)) (kf_primary (rf_keys F))) = Inr (g, x)"
    "judge_copy W k src (read_copy W (kf_windows (rf_keys F)) (kf_mirror (rf_keys F))) = Inr (h, y)" "rt_highest st = max g h"
    "judge_pointer W k (rf_pointer F) = Inr (here, p, proven)" "judge_pointer W k (rf_pointer_mirror F) = Inr (here', q, proven')"
    "proven \<or> proven' \<or> (\<not> here \<and> \<not> here' \<and> want \<noteq> zero_id \<and> want = vk_id k \<and> \<not> x \<and> \<not> y)"
  using assms by (auto simp: judge_restore_def Let_def split: if_splits)

lemma prepared:
  assumes "prepare_restore W F want src new now pinned r = Inr (p, r')"
  obtains k st rk r1 r2 r3 pw rec where "restore_key W src = Inr k" "want = zero_id \<or> vk_id k = want"
    "judge_restore W F want k src = Inr st" "(word_of_int now :: 64 word) < max_generation - generation_headroom"
    "length rk = recovery_key_size"
    "wrap W (vk_id k) Entry_password (password_bytes W new) (vk_master k) r1 = Inr (pw, r2)"
    "wrap W (vk_id k) Entry_recovery rk (vk_master k) r2 = Inr (rec, r')"
    "p = \<lparr>pe_identity = rf_identity F, pe_want = want, pe_source = src, pe_key = k,
       pe_next = signed_vault (vk_id k) (max (word_of_int now) (rt_highest st + 1)) pw rec k, pe_recovery = rk, pe_state = st, pe_done = False\<rparr>"
  using assms
  by (auto simp: prepare_restore_def new_recovery_key_def Let_def not_le split: if_splits dest: drawn)

lemma case_Inr: "(case x of Inl a \<Rightarrow> Inl (g a) | Inr b \<Rightarrow> f b) = Inr y \<longleftrightarrow> (\<exists>b. x = Inr b \<and> f b = Inr y)"
  by (cases x) simp_all

lemma restored_key_made: "restore_key W src = Inr k \<Longrightarrow> key_made k"
proof (cases src)
  case (From_entry aid e code limit)
  assume "restore_key W src = Inr k"
  then show ?thesis
    by (auto simp: restore_key_def From_entry case_Inr split: if_splits dest: new_key_made)
next
  case (Remembered claimed stored)
  assume "restore_key W src = Inr k"
  then show ?thesis
    by (auto simp: restore_key_def Remembered split: option.splits if_splits dest: new_key_made)
qed

subsection \<open>The generation\<close>

lemma above_headroom: "g < max_generation - generation_headroom \<Longrightarrow> g < g + 1 \<and> g + 1 \<le> max_generation - generation_headroom"
proof -
  assume g: "g < max_generation - generation_headroom"
  have m: "unat (max_generation - generation_headroom) = 2 ^ 62 - 2 ^ 32" by (simp add: max_generation_def generation_headroom_def)
  have "unat g < 2 ^ 62 - 2 ^ 32" using g m by (simp add: word_less_nat_alt)
  then have "Suc (unat g) < 2 ^ 64" by simp
  then have s: "unat (g + 1) = Suc (unat g)" by (simp add: unat_word_ariths)
  then show ?thesis using g m by (simp add: word_less_nat_alt word_le_nat_alt)
qed

text \<open>
  A restored key file outranks every copy on the disk.  Its generation is above the one each copy claims,
  readable or not, never before the clock, and at most the cap less 2 to the power 32, so the sum has not
  wrapped and there is room for later changes.
\<close>

theorem a_restored_key_file_outranks_every_copy:
  assumes "prepare_restore W F want src new now pinned r = Inr (p, r')"
  shows "(\<forall>f \<in> {kf_primary (rf_keys F), kf_mirror (rf_keys F)}.
        claimed_generation W (cd_raw (read_copy W (kf_windows (rf_keys F)) f)) < va_gen (pe_next p))
    \<and> word_of_int now \<le> va_gen (pe_next p) \<and> va_gen (pe_next p) \<le> max_generation - generation_headroom"
proof -
  obtain k st rk pw rec where j: "judge_restore W F want k src = Inr st" and now: "(word_of_int now :: 64 word) < max_generation - generation_headroom"
    and g: "va_gen (pe_next p) = max (word_of_int now) (rt_highest st + 1)"
    using assms by (rule prepared) auto
  obtain a b x y where c: "judge_copy W k src (read_copy W (kf_windows (rf_keys F)) (kf_primary (rf_keys F))) = Inr (a, x)"
    "judge_copy W k src (read_copy W (kf_windows (rf_keys F)) (kf_mirror (rf_keys F))) = Inr (b, y)" and h: "rt_highest st = max a b"
    using j by (rule judged_restore)
  note A = judged_copy [OF c(1)] and B = judged_copy [OF c(2)]
  have "rt_highest st < max_generation - generation_headroom" using A(2) B(2) h by (simp add: max_def)
  note H = above_headroom [OF this]
  have m: "a \<le> rt_highest st" "b \<le> rt_highest st" using h by simp_all
  have up: "c < va_gen (pe_next p)" if "c \<le> rt_highest st" for c
  proof -
    have "c < rt_highest st + 1" using that H by (metis le_less_trans)
    moreover have "rt_highest st + 1 \<le> va_gen (pe_next p)" unfolding g by (rule max.cobounded2)
    ultimately show ?thesis by (rule less_le_trans)
  qed
  have "va_gen (pe_next p) \<le> max_generation - generation_headroom" unfolding g using now H by (simp add: less_imp_le)
  moreover have "word_of_int now \<le> va_gen (pe_next p)" unfolding g by simp
  ultimately show ?thesis using up [OF m(1)] up [OF m(2)] A(1) B(1) by simp
qed


text \<open>A folder that lost both copies, and whose record is not written yet.\<close>

definition empty_folder :: record_folder where
  "empty_folder = \<lparr>rf_identity = 7, rf_keys = \<lparr>kf_windows = False, kf_present = True, kf_primary = Absent, kf_mirror = Absent\<rparr>,
     rf_pointer = No_pointer, rf_pointer_mirror = No_pointer\<rparr>"

definition sample_source :: restore_source where
  "sample_source = Remembered (replicate 16 CHR ''i'') (Some (base64_encode (replicate 32 CHR ''m'')))"

lemma sample_restore:
  "\<exists>p. prepare_restore sample_vault_world empty_folder (replicate 16 CHR ''i'') sample_source ''battery staple'' release_floor True
     (replicate 96 CHR ''q'') = Inr (p, []) \<and> vk_id (pe_key p) = replicate 16 CHR ''i''"
proof -
  let ?i = "replicate 16 CHR ''i''" and ?m = "replicate 32 CHR ''m''"
  have m: "length ?m = key_size" by (simp add: key_size_def)
  obtain k where n: "new_vault_key ?i ?m = Inr k" using m by (simp add: new_vault_key_def)
  note km = new_key_made [OF n]
  have k: "restore_key sample_vault_world sample_source = Inr k" using n by (simp add: restore_key_def sample_source_def key_size_def)
  have c: "judge_copy sample_vault_world k src \<lparr>cd_raw = [], cd_vault = None\<rparr> = Inr (0, False)" for src
    by (simp add: judge_copy_def claimed_id_def claimed_generation_def sample_vault_world_def read_word_def from_be_def max_generation_def
        generation_headroom_def)
  have z: "?i \<noteq> zero_id" by (simp add: zero_id_def id_size_def)
  have j: "judge_restore sample_vault_world empty_folder ?i k sample_source = Inr \<lparr>rt_copies = [[], []], rt_pointers = [[], []], rt_highest = 0\<rparr>"
    using km z by (simp add: judge_restore_def empty_folder_def read_copy_def c judge_pointer_def Let_def)
  obtain pw where p: "wrap sample_vault_world ?i Entry_password (password_bytes sample_vault_world ''battery staple'') ?m (replicate 80 CHR ''q'')
      = Inr (pw, replicate 40 CHR ''q'')" using sample_wraps [of 80, OF _ m] by fastforce
  obtain rec where q: "wrap sample_vault_world ?i Entry_recovery (replicate 16 CHR ''q'') ?m (replicate 40 CHR ''q'') = Inr (rec, [])"
    using sample_wraps [of 40, OF _ m] by fastforce
  have now: "\<not> max_generation - generation_headroom \<le> (word_of_int release_floor :: 64 word)"
    by (simp add: max_generation_def generation_headroom_def release_floor_def)
  show ?thesis using k j p q now km z
    by (simp add: prepare_restore_def sample_password require_dir_def new_recovery_key_def recovery_key_size_def sample_draws Let_def)
      (simp add: empty_folder_def)
qed

theorem a_restored_key_file_outranks_every_copy_witness:
  "\<exists>p. prepare_restore sample_vault_world empty_folder (replicate 16 CHR ''i'') sample_source ''battery staple'' release_floor True
     (replicate 96 CHR ''q'') = Inr (p, []) \<and> word_of_int release_floor \<le> va_gen (pe_next p)"
proof -
  obtain p where p: "prepare_restore sample_vault_world empty_folder (replicate 16 CHR ''i'') sample_source ''battery staple'' release_floor True
     (replicate 96 CHR ''q'') = Inr (p, [])" using sample_restore by blast
  from a_restored_key_file_outranks_every_copy [OF this] p show ?thesis by blast
qed

subsection \<open>Getting back in\<close>

lemma copy_ids_pair: "copy_ids W [a, b] = copy_ids W [a] @ copy_ids W [b]"
  by (auto split: option.split sum.split)

lemma opens_restored:
  assumes W: "good_codec W" and n: "vault_ok n" and w: "want = zero_id \<or> want = va_id n"
    and m: "judge_copy W k src (read_copy W (kf_windows K) (kf_mirror K)) = Inr (h, y)" and i: "vk_id k = va_id n"
    and o: "open_with W s n = Inr k"
    and only: "\<forall>v. cd_vault (read_copy W (kf_windows K) (kf_mirror K)) = Some (Inr v) \<longrightarrow> (\<forall>k. open_with W s v \<noteq> Inr k)"
  shows "opens_to W (K\<lparr>kf_primary := plain_file (marshal W n)\<rparr>) want s k n"
proof -
  let ?m = "read_copy W (kf_windows K) (kf_mirror K)" and ?c = "\<lparr>cd_raw = marshal W n, cd_vault = Some (Inr n)\<rparr>"
  let ?F = "K\<lparr>kf_primary := plain_file (marshal W n)\<rparr>"
  note M = judged_copy [OF m]
  note p = read_plain [OF W n, of "kf_windows K"]
  have ids: "set (copy_ids W [?c, ?m]) = {va_id n}" using M(5) i unfolding copy_ids_pair by auto
  have one: "length (remdups (copy_ids W [?c, ?m])) = 1" unfolding length_remdups_card_conv ids by simp
  have no: "\<not> (want \<noteq> zero_id \<and> list_ex (\<lambda>j. j \<noteq> want) (copy_ids W [?c, ?m]))"
    unfolding list_ex_iff ids using w by auto
  have ne: "parsed_copies [?c, ?m] \<noteq> []" by simp
  have rd: "read_copy W (kf_windows ?F) (kf_primary ?F) = ?c" "read_copy W (kf_windows ?F) (kf_mirror ?F) = ?m" using p by simp_all
  have nw: "\<not> list_ex (\<lambda>c. cd_vault c = Some (Inl Newer_vault)) [?c, ?m]" using M(3) by simp
  have "\<exists>parsed. read_copies W ?F want = Inr ([?c, ?m], parsed)"
    unfolding read_copies_def Let_def rd one using no ne nw by (simp only: if_False less_irrefl) blast
  then obtain parsed where r: "read_copies W ?F want = Inr ([?c, ?m], parsed)" by blast
  have v: "verify n (Some k) = Inr ()" using open_with_verified [OF o] by blast
  have "outcome W s (map snd (parsed_copies [?c, ?m])) = Some (k, n, False)"
  proof (cases "\<exists>v. cd_vault ?m = Some (Inr v)")
    case True
    then obtain x where x: "cd_vault ?m = Some (Inr x)" by blast
    have nv: "verify x (Some k) \<noteq> Inr ()" using M(4) [OF x] by blast
    obtain e where e: "open_with W s x = Inl e" using only x by (metis sum.exhaust)
    show ?thesis using o e v nv by (simp add: outcome_def x choose_vault_def Let_def)
  next
    case False
    then have "parsed_copies [?m] = []" by (auto split: option.split sum.split)
    then show ?thesis using once_outcome [OF o] by simp
  qed
  then have "open_vault W ?F want s None = Inr \<lparr>op_vault = n, op_key = k,
      op_needs_heal = list_ex (\<lambda>c. cd_raw c \<noteq> marshal W n) [?c, ?m], op_forked = False\<rparr>"
    unfolding open_vault_outcome [OF r] by simp
  then show ?thesis by (simp add: opens_to_def)
qed

text \<open>
  A committed restore gets its owner back in.  From the moment the first copy is written, and whatever the
  outcome says of the second copy or of the read-back, the new password and the new recovery key open the
  archive to the proven master key, over whatever else the folder both_hold, as long as they do not open the old
  copies.  Every other outcome leaves the key files as they were.
\<close>

theorem a_committed_restore_opens:
  assumes "sound_world W" and "good_codec W" and "keeps_ascii (vw_text W)"
    and "prepare_restore W F want src new now pinned r = Inr (p, r')"
    and "length (vk_id (pe_key p)) = id_size" and "vk_id (pe_key p) \<noteq> zero_id"
    and "commit_restore W fate F' before after p = (Fs, p', res)"
    and "\<forall>v. cd_vault (read_copy W (kf_windows (rf_keys F')) (kf_mirror (rf_keys F'))) = Some (Inr v)
      \<longrightarrow> (\<forall>k. unlock W v new \<noteq> Inr k \<and> unlock_recovery W v (recovery_string (pe_recovery p)) \<noteq> Inr k)"
  shows "if res = Inr () \<or> res = Inl Partially_saved \<or> res = Inl Unconfirmed
    then opens_to W (last Fs) want (By_password new) (pe_key p) (pe_next p)
      \<and> opens_to W (last Fs) want (By_recovery (recovery_string (pe_recovery p))) (pe_key p) (pe_next p)
    else Fs = [rf_keys F']"
proof -
  obtain k st rk r1 r2 pw rec where rk: "restore_key W src = Inr k" and w: "want = zero_id \<or> vk_id k = want"
    and l: "length rk = recovery_key_size"
    and wr: "wrap W (vk_id k) Entry_password (password_bytes W new) (vk_master k) r1 = Inr (pw, r2)"
      "wrap W (vk_id k) Entry_recovery rk (vk_master k) r2 = Inr (rec, r')"
    and p: "p = \<lparr>pe_identity = rf_identity F, pe_want = want, pe_source = src, pe_key = k,
       pe_next = signed_vault (vk_id k) (max (word_of_int now) (rt_highest st + 1)) pw rec k, pe_recovery = rk, pe_state = st, pe_done = False\<rparr>"
    and j: "judge_restore W F want k src = Inr st"
    using assms(4) by (rule prepared) blast
  let ?n = "pe_next p" and ?K = "rf_keys F'"
  note km = restored_key_made [OF rk]
  have v: "verify ?n (Some k) = Inr ()" using key_made_live [OF km] by (simp add: verified p)
  have g: "va_gen ?n \<noteq> 0"
  proof -
    obtain a b x y where c: "judge_copy W k src (read_copy W (kf_windows (rf_keys F)) (kf_primary (rf_keys F))) = Inr (a, x)"
      "judge_copy W k src (read_copy W (kf_windows (rf_keys F)) (kf_mirror (rf_keys F))) = Inr (b, y)" and h: "rt_highest st = max a b"
      using j by (rule judged_restore)
    have "rt_highest st < max_generation - generation_headroom" using judged_copy(2) [OF c(1)] judged_copy(2) [OF c(2)] h by (simp add: max_def)
    from above_headroom [OF this] have "0 < rt_highest st + 1" by (metis word_neq_0_conv word_not_simps(1))
    moreover have "rt_highest st + 1 \<le> va_gen ?n" by (simp add: p)
    ultimately show ?thesis by auto
  qed
  have n: "vault_ok ?n" using assms(5,6) g wrap_ok [OF assms(1) wr(1) km] wrap_ok [OF assms(1) wr(2) km]
    by (simp add: vault_ok_def p)
  have o: "open_with W (By_password new) ?n = Inr k" "open_with W (By_recovery (recovery_string rk)) ?n = Inr k"
    using wrap_opens [OF assms(1) wr(1) km refl] wrap_opens [OF assms(1) wr(2) km refl] v unlock_recovery_shown [OF assms(3) l]
    by (simp_all add: open_with_def unlock_def p)
  show ?thesis
  proof (cases "\<exists>st'. judge_restore W F' want k src = Inr st' \<and> same_state st' st \<and> kf_present ?K \<and> rf_identity F' = rf_identity F
      \<and> rf_lock fate \<and> rf_held fate \<and> kf_present (rf_keys (before F')) \<and> rf_identity (before F') = rf_identity F")
    case True
    then obtain st' where j': "judge_restore W F' want k src = Inr st'" and s: "same_state st' st" "kf_present ?K" "rf_identity F' = rf_identity F"
      "rf_lock fate" "rf_held fate" "kf_present (rf_keys (before F'))" "rf_identity (before F') = rf_identity F" by blast
    obtain h y where m: "judge_copy W k src (read_copy W (kf_windows ?K) (kf_mirror ?K)) = Inr (h, y)"
      using j' by (rule judged_restore)
    have want: "want = zero_id \<or> want = va_id ?n" "vk_id k = va_id ?n" using w by (auto simp: p)
    let ?F1 = "?K\<lparr>kf_primary := plain_file (marshal W ?n)\<rparr>" and ?F2 = "?K\<lparr>kf_primary := plain_file (marshal W ?n), kf_mirror := plain_file (marshal W ?n)\<rparr>"
    have 1: "opens_to W ?F1 want (By_password new) k ?n" "opens_to W ?F1 want (By_recovery (recovery_string rk)) k ?n"
      using opens_restored [OF assms(2) n want(1) m want(2) o(1)] opens_restored [OF assms(2) n want(1) m want(2) o(2)] assms(8)
      by (auto simp: open_with_def p)
    have h2: "both_hold W ?F2 ?n ?n" "wanted want ?n" using n want by (auto simp: both_hold_def wanted_def)
    note 2 = opened_both [OF assms(2) h2 o(1)] opened_both [OF assms(2) h2 o(2)]
    obtain Gs x where sv: "save W fate ?K ?n = (Gs, x)" by fastforce
    have e: "Fs = Gs \<and> (res = x \<or> res = Inl Unconfirmed \<and> (x = Inr () \<or> x = Inl Partially_saved))"
      using assms(7) j' s sv
      by (auto simp: commit_restore_def Let_def p same_folder_def require_dir_def lock_archive_def still_held_def split: if_splits)
    consider "Gs = [?K]" "x = Inl Write_failed" | "Gs = [?K, ?F1]" "x = Inl Partially_saved" | "Gs = [?K, ?F1, ?F2]" "x = Inr ()"
      using sv unfolding save_def Let_def by (auto split: if_splits)
    then show ?thesis using e 1 2 by cases (auto simp: p)
  next
    case False
    then have "Fs = [?K] \<and> res \<noteq> Inr () \<and> res \<noteq> Inl Partially_saved \<and> res \<noteq> Inl Unconfirmed"
      using assms(7)
      by (auto simp: commit_restore_def Let_def p same_folder_def require_dir_def lock_archive_def still_held_def
          split: if_splits sum.splits prod.splits)
    then show ?thesis by simp
  qed
qed


theorem a_committed_restore_opens_witness:
  "\<exists>p Fs p' res. prepare_restore sample_vault_world empty_folder (replicate 16 CHR ''i'') sample_source ''battery staple'' release_floor True
       (replicate 96 CHR ''q'') = Inr (p, [])
     \<and> commit_restore sample_vault_world sample_fate empty_folder (\<lambda>F. F) (\<lambda>K. K) p = (Fs, p', res)
     \<and> (res = Inr () \<longrightarrow> opens_to sample_vault_world (last Fs) (replicate 16 CHR ''i'') (By_password ''battery staple'') (pe_key p) (pe_next p))"
proof -
  obtain p where p: "prepare_restore sample_vault_world empty_folder (replicate 16 CHR ''i'') sample_source ''battery staple'' release_floor True
     (replicate 96 CHR ''q'') = Inr (p, [])" and i: "vk_id (pe_key p) = replicate 16 CHR ''i''" using sample_restore by blast
  have l: "length (vk_id (pe_key p)) = id_size" "vk_id (pe_key p) \<noteq> zero_id" unfolding i by (simp_all add: id_size_def zero_id_def)
  obtain Fs p' res where c: "commit_restore sample_vault_world sample_fate empty_folder (\<lambda>F. F) (\<lambda>K. K) p = (Fs, p', res)" by (metis prod.exhaust)
  have "\<forall>v. cd_vault (read_copy sample_vault_world (kf_windows (rf_keys empty_folder)) (kf_mirror (rf_keys empty_folder))) = Some (Inr v)
      \<longrightarrow> (\<forall>k. unlock sample_vault_world v ''battery staple'' \<noteq> Inr k \<and> unlock_recovery sample_vault_world v (recovery_string (pe_recovery p)) \<noteq> Inr k)"
    by (simp add: empty_folder_def read_copy_def)
  from a_committed_restore_opens [OF sample_sound sample_codec sample_text p l c this] p c show ?thesis by auto
qed

end
