(* ===== verification/VaultKeys.thy ===== *)
theory VaultKeys
  imports VaultHeal
begin

text \<open>
  Remembered keys (\<^verbatim>\<open>internal/vault/keystore.go\<close>) and what a reader without the key may learn
  (\<^verbatim>\<open>internal/vault/claims.go\<close>).  The secret store is its contents and whether it answers; where an archive
  lies in the file system is a parameter.  An error is the list of the errors it matches.
\<close>

subsection \<open>The store\<close>

record secret_store =
  ss_map :: "string \<Rightarrow> string option"
  ss_ok :: bool
  ss_location :: "string option"

definition key_account :: "archive_id \<Rightarrow> string" where
  "key_account aid = ''archive:'' @ hex_encode aid"

definition store_set :: "string \<Rightarrow> string \<Rightarrow> secret_store \<Rightarrow> vault_error + secret_store" where
  "store_set a s S = (if ss_ok S then Inr (S\<lparr>ss_map := (ss_map S)(a := Some s)\<rparr>) else Inl Store_fault)"

definition store_get :: "string \<Rightarrow> secret_store \<Rightarrow> vault_error + string" where
  "store_get a S = (if ss_ok S then (case ss_map S a of Some s \<Rightarrow> Inr s | None \<Rightarrow> Inl Store_fault) else Inl Store_fault)"

definition remember :: "(string \<Rightarrow> bool) \<Rightarrow> secret_store \<Rightarrow> vault_key option \<Rightarrow> vault_error + secret_store" where
  "remember encrypted_at_or_above S k = with_key k (\<lambda>k.
     if (case ss_location S of Some l \<Rightarrow> encrypted_at_or_above l | None \<Rightarrow> False) then Inl Store_inside_archive
     else store_set (key_account (vk_id k)) (base64_encode (vk_master k)) S)"

definition forget :: "secret_store \<Rightarrow> archive_id \<Rightarrow> vault_error + secret_store" where
  "forget S aid = (if ss_ok S then Inr (S\<lparr>ss_map := (ss_map S)(key_account aid := None)\<rparr>) else Inl Store_fault)"

subsection \<open>The gate of an unattended run\<close>

definition require_retrievable_key :: "vault_world \<Rightarrow> key_folder \<Rightarrow> archive_id \<Rightarrow> secret_store \<Rightarrow> vault_error list + opened" where
  "require_retrievable_key W F want S =
     (let refuse = (\<lambda>e. Inl [Key_not_retrievable, e])
      in if want = zero_id then Inl [Key_not_retrievable]
         else case require_dir F of Inl e \<Rightarrow> refuse e | Inr _ \<Rightarrow>
         (case detect W F of
            Inl e \<Rightarrow> refuse e
          | Inr None \<Rightarrow> refuse Vault_missing
          | Inr (Some (aid, _)) \<Rightarrow>
              if aid \<noteq> want then refuse Tampered
              else case store_get (key_account want) S of Inl e \<Rightarrow> refuse e | Inr stored \<Rightarrow>
              (case base64_decode stored of
                 None \<Rightarrow> refuse Corrupt
               | Some master \<Rightarrow>
                   if length master \<noteq> key_size then refuse Corrupt
                   else case new_vault_key want master of Inl e \<Rightarrow> refuse e | Inr k \<Rightarrow>
                   (case open_vault W F want (By_key (Some k)) None of Inl e \<Rightarrow> refuse e | Inr o' \<Rightarrow> Inr o'))))"

subsection \<open>Without the key\<close>

record key_claims =
  kc_present :: bool
  kc_ids :: "archive_id list"
  kc_newer :: bool
  kc_parses :: bool

definition claim_step :: "vault_world \<Rightarrow> copy_on_disk \<Rightarrow> key_claims \<Rightarrow> key_claims" where
  "claim_step W c a = (case cd_vault c of
     None \<Rightarrow> a
   | Some x \<Rightarrow>
       let claim = (case x of Inr v \<Rightarrow> Some (va_id v) | Inl _ \<Rightarrow> claimed_id W (cd_raw c))
       in a\<lparr>kc_present := True,
          kc_newer := kc_newer a \<or> x = Inl Newer_vault,
          kc_parses := kc_parses a \<or> (case x of Inr _ \<Rightarrow> True | Inl _ \<Rightarrow> False),
          kc_ids := (case claim of Some aid \<Rightarrow> if aid \<in> set (kc_ids a) then kc_ids a else kc_ids a @ [aid] | None \<Rightarrow> kc_ids a)\<rparr>)"

definition key_file_claims :: "vault_world \<Rightarrow> key_folder \<Rightarrow> key_claims" where
  "key_file_claims W F = fold (claim_step W)
     [read_copy W (kf_windows F) (kf_primary F), read_copy W (kf_windows F) (kf_mirror F)]
     \<lparr>kc_present = False, kc_ids = [], kc_newer = False, kc_parses = False\<rparr>"

subsection \<open>What the gate lets through\<close>

lemma key_errors: "open_with W (By_key (Some k)) v = Inl e \<Longrightarrow> e \<noteq> No_vault"
  by (auto simp: open_with_def with_key_def on_ok_def new_vault_key_def split: if_splits sum.splits)

lemma first_errors:
  "first_open W s seen errs cs = Inl es \<Longrightarrow> (\<And>v e. open_with W s v = Inl e \<Longrightarrow> e \<noteq> x) \<Longrightarrow> x \<notin> set errs \<Longrightarrow> x \<notin> set es"
  by (induction W s seen errs cs rule: first_open.induct) (auto split: if_splits sum.splits)

lemma told: "most_telling errs = e \<Longrightarrow> e \<in> set errs \<union> {Index_panic}"
  by (auto simp: most_telling_def split: if_splits list.splits)

lemma no_vault_error:
  assumes "open_vault W F want (By_key (Some k)) None = Inl e" "read_copies W F want \<noteq> Inl No_vault"
  shows "e \<noteq> No_vault"
proof (cases "read_copies W F want")
  case (Inl x)
  then show ?thesis using assms by (auto simp: open_vault_def)
next
  case (Inr y)
  obtain all parsed where y: "y = (all, parsed)" by fastforce
  show ?thesis
  proof (cases "first_open W (By_key (Some k)) [] [] (sort_key (\<lambda>c. cost (By_key (Some k)) (snd c)) parsed)")
    case (Inl es)
    then have "No_vault \<notin> set es" using first_errors [OF Inl, of No_vault] key_errors by auto
    then show ?thesis using assms(1) Inl told [of es e] by (auto simp: open_vault_def Inr y)
  next
    case f: (Inr z)
    obtain k' op where "z = (k', op)" by fastforce
    then have "choose_vault W (By_key (Some k)) k' op (authentic k' parsed) = Inl e"
      using assms(1) f by (auto simp: open_vault_def Inr y on_ok_def split: sum.splits)
    then show ?thesis by (auto simp: choose_vault_def split: list.splits if_splits)
  qed
qed

text \<open>
  An unattended run opens the archive this computer recorded, or says why it may not write.  What the gate
  lets through is a vault of the recorded id that the remembered key proves.  Every refusal reads as a key
  that cannot be used and never as a folder without a vault, so a deleted key file is never taken for a
  folder that was never encrypted.  A key remembered for an archive whose copies it opens is let through.
\<close>

theorem an_unattended_run_opens_its_own_archive:
  shows "(\<forall>o'. require_retrievable_key W F want S = Inr o' \<longrightarrow> want \<noteq> zero_id \<and> va_id (op_vault o') = want
        \<and> verify (op_vault o') (Some (op_key o')) = Inr () \<and> ss_map S (key_account want) \<noteq> None)
    \<and> (\<forall>es. require_retrievable_key W F want S = Inl es \<longrightarrow> Key_not_retrievable \<in> set es \<and> No_vault \<notin> set es)
    \<and> (\<forall>k v S'. good_codec W \<and> kf_present F \<and> both_hold W F v v \<and> key_made k \<and> verify v (Some k) = Inr ()
        \<and> remember inside S (Some k) = Inr S' \<longrightarrow> (\<exists>o'. require_retrievable_key W F (va_id v) S' = Inr o' \<and> op_vault o' = v \<and> op_key o' = k))"
proof (intro conjI allI impI)
  fix o'
  assume r: "require_retrievable_key W F want S = Inr o'"
  then obtain k where z: "want \<noteq> zero_id" and op: "open_vault W F want (By_key (Some k)) None = Inr o'" and s: "ss_map S (key_account want) \<noteq> None"
    by (auto simp: require_retrievable_key_def Let_def store_get_def split: if_splits sum.splits option.splits)
  show "want \<noteq> zero_id" "ss_map S (key_account want) \<noteq> None" by (rule z, rule s)
  obtain all parsed where rc: "read_copies W F want = Inr (all, parsed)" and w: "op_vault o' \<in> snd ` set parsed"
    and v: "verify (op_vault o') (Some (op_key o')) = Inr ()"
    using op by (rule trusted) blast
  show "va_id (op_vault o') = want" using w copies_read(4) [OF rc z] by auto
  show "verify (op_vault o') (Some (op_key o')) = Inr ()" by (rule v)
next
  fix es
  assume r: "require_retrievable_key W F want S = Inl es"
  show "Key_not_retrievable \<in> set es"
    using r by (auto simp: require_retrievable_key_def Let_def split: if_splits sum.splits option.splits)
  have d: "detect W F \<noteq> Inl No_vault"
    by (auto simp: detect_def split: sum.splits if_splits list.splits)
  have g: "store_get a S \<noteq> Inl No_vault" for a
    by (auto simp: store_get_def split: option.splits)
  have n: "new_vault_key a b \<noteq> Inl No_vault" for a b
    by (simp add: new_vault_key_def)
  have c: "read_copies W F want \<noteq> Inl No_vault" if dd: "detect W F = Inr (Some x)" for x
  proof -
    obtain all parsed where "read_copies W F zero_id = Inr (all, parsed)"
      using dd by (cases "read_copies W F zero_id") (auto simp: detect_def split: if_splits)
    then show ?thesis by (auto simp: read_copies_def Let_def split: if_splits)
  qed
  have k: "open_vault W F want (By_key (Some k)) None \<noteq> Inl No_vault" if "detect W F = Inr (Some x)" for k x
    using no_vault_error c [OF that] by blast
  show "No_vault \<notin> set es"
    using r by (auto simp: require_retrievable_key_def Let_def require_dir_def d g n k split: if_splits sum.splits option.splits)
next
  fix k v S'
  assume a: "good_codec W \<and> kf_present F \<and> both_hold W F v v \<and> key_made k \<and> verify v (Some k) = Inr () \<and> remember inside S (Some k) = Inr S'"
  then have c: "good_codec W" and F: "kf_present F" "both_hold W F v v" and k: "key_made k" "verify v (Some k) = Inr ()" by simp_all
  have live: "vk_live k" "length (vk_master k) = key_size" using key_made_live [OF k(1)] by simp_all
  have i: "vk_id k = va_id v" using k(2) by (simp add: verified)
  have z: "va_id v \<noteq> zero_id" using F(2) by (simp add: both_hold_def vault_ok_def)
  have s: "store_get (key_account (va_id v)) S' = Inr (base64_encode (vk_master k))"
    using a live i by (auto simp: remember_def with_key_def store_set_def store_get_def split: if_splits)
  have nk: "new_vault_key (va_id v) (vk_master k) = Inr k" using k(1) i by (simp add: key_made_def)
  have d: "detect W F = Inr (Some (va_id v, va_gen v))"
    using read_both [OF c F(2), of zero_id] by (simp add: detect_def wanted_def)
  have op: "open_with W (By_key (Some k)) v = Inr k" using live nk k(2) by (simp add: open_with_def with_key_def)
  from opened_both [OF c F(2) _ op, of "va_id v"] obtain o' where
    o': "open_vault W F (va_id v) (By_key (Some k)) None = Inr o'" "op_key o' = k" "op_vault o' = v"
    by (auto simp: opens_to_def wanted_def)
  then show "\<exists>o'. require_retrievable_key W F (va_id v) S' = Inr o' \<and> op_vault o' = v \<and> op_key o' = k"
    using z F(1) d s nk live by (simp add: require_retrievable_key_def Let_def require_dir_def)
qed


theorem an_unattended_run_opens_its_own_archive_witness:
  "\<exists>v k S. remember (\<lambda>_. False) \<lparr>ss_map = (\<lambda>_. None), ss_ok = True, ss_location = None\<rparr> (Some k) = Inr S
     \<and> (\<exists>o'. require_retrievable_key sample_vault_world (sample_keys v) (va_id v) S = Inr o' \<and> op_vault o' = v \<and> op_key o' = k)"
proof (rule sample_life)
  fix v k
  assume v: "vault_ok v" and k: "key_made k" "verify v (Some k) = Inr ()"
  let ?S = "\<lparr>ss_map = (\<lambda>_. None), ss_ok = True, ss_location = None\<rparr>"
  have "\<exists>S'. remember (\<lambda>_. False) ?S (Some k) = Inr S'"
    using key_made_live [OF k(1)] by (simp add: remember_def with_key_def store_set_def)
  then obtain S' where s: "remember (\<lambda>_. False) ?S (Some k) = Inr S'" by blast
  have "kf_present (sample_keys v)" by (simp add: sample_keys_def)
  then have "\<exists>o'. require_retrievable_key sample_vault_world (sample_keys v) (va_id v) S' = Inr o' \<and> op_vault o' = v \<and> op_key o' = k"
    using sample_codec sample_both_hold [OF v] k s an_unattended_run_opens_its_own_archive [of sample_vault_world "sample_keys v" "va_id v" ?S "\<lambda>_. False"] by blast
  with s show ?thesis by blast
qed

subsection \<open>What a reader without the key is told\<close>

lemma claims_of_two:
  assumes "good_codec W" "both_hold W F v v"
  shows "key_file_claims W F = \<lparr>kc_present = True, kc_ids = [va_id v], kc_newer = False, kc_parses = True\<rparr>"
  using assms read_plain by (simp add: key_file_claims_def claim_step_def both_hold_def Let_def)

end
