(* ===== verification/Marker.thy ===== *)
theory Marker
  imports VaultForm "HOL-Library.Sublist"
begin

text \<open>
  Recognising an encrypted archive (\<^verbatim>\<open>internal/vault/marker.go\<close>): the one predicate every consumer that must
  not treat an encrypted archive as a plaintext one asks.  A folder is what \<^verbatim>\<open>lstat\<close>, the listings and the
  reads show of it; the JSON tokens of the manifest's head are a parameter.
\<close>

subsection \<open>What is seen of a folder\<close>

datatype lstat_seen = Not_there | Lstat_fails | A_folder | A_file

datatype read_end = Reads_on | At_end | Read_fails

text \<open>The value of a top-level key, as an integer and as a boolean, where it decodes to one.\<close>

record json_value =
  jv_int :: "int option"
  jv_bool :: "bool option"

datatype manifest_seen = Manifest_missing | Manifest_special | Manifest_fails
  | Manifest "(string \<times> json_value) list" "(string \<times> read_end) list"

text \<open>
  \<open>fv_units\<close>, \<open>fv_chunks\<close>: the entries of a real folder of that name, each with whether it is a folder and the
  names in it, where they can be listed; \<open>fv_inventory\<close>: the names and whether each is a folder.
\<close>

type_synonym shard_listing = "(string \<times> bool \<times> string list option) list"

record folder_view =
  fv_lstat :: "string \<Rightarrow> lstat_seen"
  fv_units :: "shard_listing option"
  fv_chunks :: "shard_listing option"
  fv_inventory :: "(string \<times> bool) list option"
  fv_manifest :: manifest_seen

definition reserved_files :: "string list" where
  "reserved_files = [''.mailarchive-vault.json'', ''.mailarchive-vault.bak.json'', ''.mailarchive-convert.json'',
     ''.mailarchive-manifest.ptr'', ''.mailarchive-manifest.ptr.bak'', ''.mailarchive-inventory'']"

definition marker_scan_bytes :: nat where "marker_scan_bytes = 1048576"
definition unit_needle :: string where "unit_needle = [CHR 0x22] @ ''unit'' @ [CHR 0x22, CHR '':'', CHR 0x22]"

subsection \<open>The shapes\<close>

definition hex_name :: "string \<Rightarrow> nat \<Rightarrow> bool" where
  "hex_name s n \<longleftrightarrow> length s = n \<and> list_all (\<lambda>r. in_range 0x30 0x39 r \<or> in_range 0x61 0x66 r) (runes s)"

fun is_unit_store :: "shard_listing option \<Rightarrow> bool" where
  "is_unit_store None \<longleftrightarrow> False"
| "is_unit_store (Some shards) \<longleftrightarrow> list_ex (\<lambda>(name, folder, units). folder \<and> hex_name name 2 \<and>
     (case units of None \<Rightarrow> False | Some us \<Rightarrow> list_ex (\<lambda>u. hex_name u 32 \<and> take 2 u = name) us)) shards"

definition shard_name :: "string \<Rightarrow> bool" where
  "shard_name name \<longleftrightarrow>
     (let p = takeWhile (\<lambda>c. c \<noteq> CHR ''.'') name; gen = drop (Suc (length p)) name
      in CHR ''.'' \<in> set name \<and> 2 \<le> length p \<and> length p \<le> 4 \<and> hex_name p (length p) \<and> gen \<noteq> []
         \<and> list_all (\<lambda>c. in_range 0x30 0x39 (byte c)) gen)"

fun is_shard_dir :: "(string \<times> bool) list option \<Rightarrow> bool" where
  "is_shard_dir None \<longleftrightarrow> False"
| "is_shard_dir (Some es) \<longleftrightarrow> list_ex (\<lambda>(name, folder). \<not> folder \<and> shard_name name) es"

subsection \<open>The manifest's own word\<close>

definition header_says :: "(string \<times> json_value) list \<Rightarrow> bool" where
  "header_says ks \<longleftrightarrow> list_ex (\<lambda>(key, v).
     key = ''version'' \<and> (case jv_int v of Some n \<Rightarrow> encrypted_manifest_version \<le> n | None \<Rightarrow> False)
     \<or> key = ''encrypted'' \<and> jv_bool v = Some True) (take 2 ks)"

text \<open>The scan over the reads: the bytes kept from before are the ones a needle could still start in.\<close>

fun scan_units :: "string \<Rightarrow> nat \<Rightarrow> (string \<times> read_end) list \<Rightarrow> vault_error + bool" where
  "scan_units kept read [] = Inr False"
| "scan_units kept read ((c, e) # rs) =
     (if marker_scan_bytes \<le> read then Inr False
      else if sublist unit_needle (kept @ c) then Inr True
      else case e of
        At_end \<Rightarrow> Inr False
      | Read_fails \<Rightarrow> Inl Read_fault
      | Reads_on \<Rightarrow>
          let total = kept @ c; n = length unit_needle - 1
          in scan_units (if n \<le> length total then drop (length total - n) total else total) (read + length c) rs)"

definition manifest_says_encrypted :: "manifest_seen \<Rightarrow> vault_error + bool" where
  "manifest_says_encrypted m = (case m of
     Manifest_missing \<Rightarrow> Inr False
   | Manifest_special \<Rightarrow> Inr False
   | Manifest_fails \<Rightarrow> Inl Read_fault
   | Manifest ks rs \<Rightarrow> if header_says ks then Inr True else scan_units [] 0 rs)"

subsection \<open>The predicate\<close>

definition later_signals :: "folder_view \<Rightarrow> vault_error + bool" where
  "later_signals F =
     (if is_unit_store (fv_units F) then Inr True
      else if is_unit_store (fv_chunks F) then Inr True
      else if is_shard_dir (fv_inventory F) then Inr True
      else manifest_says_encrypted (fv_manifest F))"

fun reserved_signal :: "folder_view \<Rightarrow> string list \<Rightarrow> bool \<Rightarrow> bool \<times> bool" where
  "reserved_signal F [] failed = (False, failed)"
| "reserved_signal F (n # ns) failed = (case fv_lstat F n of
     A_file \<Rightarrow> (True, failed)
   | Lstat_fails \<Rightarrow> reserved_signal F ns True
   | _ \<Rightarrow> reserved_signal F ns failed)"

definition encrypted_marker :: "folder_view \<Rightarrow> vault_error + bool" where
  "encrypted_marker F = (case reserved_signal F reserved_files False of
     (True, _) \<Rightarrow> Inr True
   | (False, failed) \<Rightarrow> (case later_signals F of
       Inr True \<Rightarrow> Inr True
     | Inl e \<Rightarrow> Inl e
     | Inr False \<Rightarrow> if failed then Inl Read_fault else Inr False))"

text \<open>A path is its components; its folders, itself first, up to the root.\<close>

primrec and_above :: "string list \<Rightarrow> string list list" where
  "and_above [] = [[]]"
| "and_above (d # ds) = (d # ds) # and_above ds"

text \<open>Paths here run from the innermost component out.  The marked folder, and whether the path itself could not be told.\<close>

definition encrypted_at_or_above :: "(string list \<Rightarrow> folder_view) \<Rightarrow> (string list \<Rightarrow> string list) \<Rightarrow> string list
    \<Rightarrow> string list option \<times> bool" where
  "encrypted_at_or_above view resolve path =
     (case find (\<lambda>d. encrypted_marker (view d) = Inr True) (and_above path @ and_above (resolve path)) of
        Some d \<Rightarrow> (Some d, False)
      | None \<Rightarrow> (None, case encrypted_marker (view path) of Inl _ \<Rightarrow> True | Inr _ \<Rightarrow> False))"

subsection \<open>The scan finds what a search of the text finds\<close>

text \<open>The bytes the scan reads: up to the first read past the bound, the end, or a fault.\<close>

fun scanned :: "nat \<Rightarrow> (string \<times> read_end) list \<Rightarrow> string" where
  "scanned read [] = []"
| "scanned read ((c, e) # rs) =
     (if marker_scan_bytes \<le> read then [] else c @ (if e = Reads_on then scanned (read + length c) rs else []))"

lemma needle_across:
  assumes "\<not> sublist w p" "w \<noteq> []"
  shows "sublist w (p @ c) \<longleftrightarrow> sublist w (drop (length p - (length w - 1)) p @ c)"
proof
  let ?k = "drop (length p - (length w - 1)) p"
  assume "sublist w (p @ c)"
  then consider "sublist w p" | "sublist w c" | "\<exists>a b. w = a @ b \<and> suffix a p \<and> prefix b c"
    by (auto simp: sublist_append)
  then show "sublist w (?k @ c)"
  proof cases
    case 3
    then obtain a b where w: "w = a @ b" "suffix a p" "prefix b c" by blast
    show ?thesis
    proof (cases "b = []")
      case True
      then have "sublist w p" using w by (simp add: suffix_imp_sublist)
      with assms show ?thesis by simp
    next
      case False
      then have "length a \<le> length w - 1" using w(1) by (cases b) simp_all
      moreover have "length a \<le> length p" by (rule suffix_length_le [OF w(2)])
      ultimately have "length a \<le> length ?k" by simp
      then have "suffix a ?k" by (rule suffix_length_suffix [OF w(2) suffix_drop])
      with w show ?thesis by (auto simp: sublist_append)
    qed
  qed (use assms in \<open>auto simp: sublist_append\<close>)
next
  let ?k = "drop (length p - (length w - 1)) p"
  assume s: "sublist w (?k @ c)"
  have "p @ c = take (length p - (length w - 1)) p @ (?k @ c)" by simp
  then have "sublist (?k @ c) (p @ c)" by (metis sublist_appendI append_Nil2)
  with s show "sublist w (p @ c)" by (rule sublist_order.order_trans)
qed

lemma needle_size: "unit_needle \<noteq> []" "length unit_needle - 1 = 7"
  by (simp_all add: unit_needle_def)

lemma scan_finds:
  assumes "\<not> sublist unit_needle p"
  shows "scan_units (drop (length p - 7) p) read rs = Inr True \<longleftrightarrow> sublist unit_needle (p @ scanned read rs)"
  using assms
proof (induction rs arbitrary: p read)
  case Nil
  then show ?case by simp
next
  case (Cons r rs)
  obtain c e where r: "r = (c, e)" by fastforce
  let ?k = "drop (length p - 7) p"
  have here: "sublist unit_needle (?k @ c) \<longleftrightarrow> sublist unit_needle (p @ c)"
    using needle_across [OF Cons.prems needle_size(1), of c] unfolding needle_size(2) by blast
  show ?case
  proof (cases "marker_scan_bytes \<le> read")
    case True
    then show ?thesis using Cons.prems by (simp add: r)
  next
    case False
    show ?thesis
    proof (cases "sublist unit_needle (p @ c)")
      case True
      then have "sublist unit_needle (p @ c @ t)" for t by (metis append_assoc sublist_append)
      then show ?thesis using False True here by (simp add: r)
    next
      case no: False
      let ?t = "?k @ c"
      have keep: "(if 7 \<le> length ?t then drop (length ?t - 7) ?t else ?t) = drop (length (p @ c) - 7) (p @ c)"
        by auto
      have "scan_units (drop (length (p @ c) - 7) (p @ c)) (read + length c) rs = Inr True
          \<longleftrightarrow> sublist unit_needle ((p @ c) @ scanned (read + length c) rs)" by (rule Cons.IH [OF no])
      then show ?thesis
        using False no here keep unfolding r scan_units.simps scanned.simps needle_size(2) Let_def
        by (cases e) (simp_all only: if_False if_True refl read_end.case append_assoc append_Nil2 read_end.distinct simp_thms
            sum.inject sum.distinct)
    qed
  qed
qed


text \<open>Every signal by itself.\<close>

definition signals :: "folder_view \<Rightarrow> bool" where
  "signals F \<longleftrightarrow> (\<exists>n \<in> set reserved_files. fv_lstat F n = A_file) \<or> is_unit_store (fv_units F) \<or> is_unit_store (fv_chunks F)
     \<or> is_shard_dir (fv_inventory F)
     \<or> (\<exists>ks rs. fv_manifest F = Manifest ks rs \<and> (header_says ks \<or> sublist unit_needle (scanned 0 rs)))"

lemma reserved_found: "fst (reserved_signal F ns failed) \<longleftrightarrow> (\<exists>n \<in> set ns. fv_lstat F n = A_file)"
  by (induction F ns failed rule: reserved_signal.induct) (auto split: lstat_seen.splits)

lemma reserved_failed: "snd (reserved_signal F ns failed) \<Longrightarrow> failed \<or> (\<exists>n \<in> set ns. fv_lstat F n = Lstat_fails)"
  by (induction F ns failed rule: reserved_signal.induct) (auto split: lstat_seen.splits)

lemma manifest_found:
  "manifest_says_encrypted m = Inr True \<longleftrightarrow> (\<exists>ks rs. m = Manifest ks rs \<and> (header_says ks \<or> sublist unit_needle (scanned 0 rs)))"
proof (cases m)
  case (Manifest ks rs)
  have "\<not> sublist unit_needle []" using needle_size(1) by simp
  from scan_finds [OF this, of 0 rs] Manifest show ?thesis by (simp add: manifest_says_encrypted_def)
qed (simp_all add: manifest_says_encrypted_def)

lemma later_found:
  "later_signals F = Inr True \<longleftrightarrow> is_unit_store (fv_units F) \<or> is_unit_store (fv_chunks F) \<or> is_shard_dir (fv_inventory F)
     \<or> manifest_says_encrypted (fv_manifest F) = Inr True"
  by (simp add: later_signals_def)

lemma marked: "encrypted_marker F = Inr True \<longleftrightarrow> signals F"
proof -
  obtain b f where r: "reserved_signal F reserved_files False = (b, f)" by fastforce
  have b: "b \<longleftrightarrow> (\<exists>n \<in> set reserved_files. fv_lstat F n = A_file)" using reserved_found [of F reserved_files False] by (simp add: r)
  show ?thesis
  proof (cases b)
    case True
    then show ?thesis using b r by (simp add: encrypted_marker_def signals_def)
  next
    case False
    have "encrypted_marker F = Inr True \<longleftrightarrow> later_signals F = Inr True"
      using False r by (auto simp: encrypted_marker_def split: sum.split bool.split)
    then show ?thesis using False b by (simp add: later_found manifest_found signals_def)
  qed
qed

lemma found_some: "(\<exists>d. find P xs = Some d) \<longleftrightarrow> (\<exists>d \<in> set xs. P d)"
  by (induction xs) auto

text \<open>
  An encrypted archive is recognised by any one of its signs.  The predicate says encrypted exactly when a
  reserved file is there, a folder has the shape of the unit store, of the sealed record or of its inventory,
  the manifest's head says so, or a record of its first megabyte carries a unit; no fault on another name
  hides a sign, and the scan finds the sign however the reads split it.  A folder under a marked one is
  recognised through the path as given and through its links.
\<close>

theorem any_sign_marks_an_encrypted_archive:
  shows "(encrypted_marker F = Inr True \<longleftrightarrow> signals F)
    \<and> (encrypted_marker F = Inr False \<longrightarrow> (\<forall>n \<in> set reserved_files. fv_lstat F n \<in> {Not_there, A_folder}))
    \<and> ((\<exists>d. fst (encrypted_at_or_above view resolve path) = Some d) \<longleftrightarrow>
         (\<exists>d \<in> set (and_above path) \<union> set (and_above (resolve path)). signals (view d)))"
proof (intro conjI impI)
  show "encrypted_marker F = Inr True \<longleftrightarrow> signals F" by (rule marked)
  show "\<forall>n \<in> set reserved_files. fv_lstat F n \<in> {Not_there, A_folder}" if "encrypted_marker F = Inr False"
  proof -
    obtain b f where r: "reserved_signal F reserved_files False = (b, f)" by fastforce
    have "\<not> b \<and> \<not> f" using that r by (auto simp: encrypted_marker_def split: sum.splits bool.splits if_splits)
    moreover have "f \<longleftrightarrow> (\<exists>n \<in> set reserved_files. fv_lstat F n = Lstat_fails)" if "\<not> b"
    proof -
      have "snd (reserved_signal F ns g) \<longleftrightarrow> g \<or> (\<exists>n \<in> set ns. fv_lstat F n = Lstat_fails)"
        if "\<not> fst (reserved_signal F ns g)" for ns g
        using that by (induction F ns g rule: reserved_signal.induct) (auto split: lstat_seen.splits)
      from this [of reserved_files False] show ?thesis using r \<open>\<not> b\<close> by simp
    qed
    ultimately show ?thesis using reserved_found [of F reserved_files False] r by (auto, metis lstat_seen.exhaust)
  qed
  show "(\<exists>d. fst (encrypted_at_or_above view resolve path) = Some d) \<longleftrightarrow>
         (\<exists>d \<in> set (and_above path) \<union> set (and_above (resolve path)). signals (view d))"
  proof -
    have f: "fst (encrypted_at_or_above view resolve path)
        = find (\<lambda>d. encrypted_marker (view d) = Inr True) (and_above path @ and_above (resolve path))"
      by (simp add: encrypted_at_or_above_def split: option.split)
    show ?thesis unfolding f found_some by (auto simp: marked)
  qed
qed

theorem any_sign_marks_an_encrypted_archive_witness:
  "encrypted_marker \<lparr>fv_lstat = (\<lambda>n. if n = ''.mailarchive-vault.json'' then Lstat_fails else Not_there), fv_units = None, fv_chunks = None,
     fv_inventory = None, fv_manifest = Manifest [] [(''xx'' @ take 5 unit_needle, Reads_on), (drop 5 unit_needle @ ''yy'', At_end)]\<rparr> = Inr True"
  (is "encrypted_marker ?F = Inr True")
proof -
  have "scanned 0 [(''xx'' @ take 5 unit_needle, Reads_on), (drop 5 unit_needle @ ''yy'', At_end)] = ''xx'' @ unit_needle @ ''yy''"
    by (simp add: marker_scan_bytes_def unit_needle_def)
  moreover have "sublist unit_needle (''xx'' @ unit_needle @ ''yy'')" by (rule sublist_appendI)
  ultimately have "signals ?F" unfolding signals_def by auto
  then show ?thesis
    using any_sign_marks_an_encrypted_archive [of ?F "\<lambda>_. ?F" "\<lambda>p. p" "[]"] by blast
qed

end
