(* ===== verification/RecordPointer.thy ===== *)
theory RecordPointer
  imports VaultPlaces
begin

text \<open>
  The root pointer of an encrypted archive's sealed record (\<^verbatim>\<open>internal/container/pointer.go\<close>): the chunk
  tables of its three sections, the rules a pointer keeps, its strict encoding and the sealed file.  The JSON
  form of its head is a parameter, a \<open>head_codec\<close>.
\<close>

subsection \<open>The pointer\<close>

definition pointer_name :: string where "pointer_name = ''.mailarchive-manifest.ptr''"
definition mirror_name :: string where "mirror_name = ''.mailarchive-manifest.ptr.bak''"
definition chunks_dir :: string where "chunks_dir = ''chunks''"

definition max_pointer_size :: nat where "max_pointer_size = 67108864"
definition max_chunk_size :: nat where "max_chunk_size = 67108864"
definition max_entries :: nat where "max_entries = 1048576"
definition max_head_size :: nat where "max_head_size = 4096"
definition record_magic :: string where "record_magic = ''MAPF''"
definition file_head_size :: nat where "file_head_size = 14"
definition entry_size :: nat where "entry_size = 64"

datatype container_error = Not_pointer | Newer_container | Malformed_pointer | Vault_said vault_error | Record_damaged
  | Not_a_sealed_record | Restored_older | Unfinished_save | Inventory_damaged | Inventory_unsaved container_error
  | Archive_lock_lost | Opened_to_read | Store_planted | Over_bound | File_missing | Os_fault | Malformed_inventory
  | Index_damaged container_error | Not_marshalled | Unit_listing | Timeline_closed | Snapshot_refused | No_panic

text \<open>A chunk file's name is its 16 bytes.\<close>

definition new_name :: "string \<Rightarrow> container_error + string \<times> string" where
  "new_name r = (case draw id_size r of Inl e \<Rightarrow> Inl (Vault_said e) | Inr x \<Rightarrow> Inr x)"

definition name_text :: "string \<Rightarrow> string" where
  "name_text n = hex_encode n"

definition chunk_path :: "string \<Rightarrow> string" where
  "chunk_path n = (let h = name_text n in chunks_dir @ ''/'' @ take 2 h @ ''/'' @ h)"

record chunk_entry =
  ce_i :: "32 word"
  ce_name :: string
  ce_gen :: "64 word"
  ce_sha256 :: string
  ce_size :: "32 word"

record pointer_head =
  ph_format :: "16 word"
  ph_gen :: "64 word"
  ph_run_start :: "64 word"
  ph_inv :: "64 word"
  ph_buckets :: "32 word"
  ph_index_meta :: "64 word"
  ph_index_image :: "64 word"
  ph_index_chunk :: "32 word"

record root_pointer =
  rp_head :: pointer_head
  rp_manifest :: "chunk_entry list"
  rp_history :: "chunk_entry list"
  rp_index :: "chunk_entry list"

abbreviation rp_gen :: "root_pointer \<Rightarrow> 64 word" where "rp_gen p \<equiv> ph_gen (rp_head p)"

definition zero_head :: pointer_head where
  "zero_head = \<lparr>ph_format = 0, ph_gen = 0, ph_run_start = 0, ph_inv = 0, ph_buckets = 0, ph_index_meta = 0,
     ph_index_image = 0, ph_index_chunk = 0\<rparr>"

definition zero_pointer :: root_pointer where
  "zero_pointer = \<lparr>rp_head = zero_head, rp_manifest = [], rp_history = [], rp_index = []\<rparr>"

subsection \<open>The rules a pointer keeps\<close>

text \<open>One section's entries: \<open>prev\<close> is the position before, \<open>seen\<close> the names so far; the names after, or a refusal.\<close>

fun check_section :: "64 word \<Rightarrow> 32 word option \<Rightarrow> string list \<Rightarrow> chunk_entry list \<Rightarrow> string list option" where
  "check_section gen prev seen [] = Some seen"
| "check_section gen prev seen (e # es) =
     (if ce_name e = replicate id_size (CHR 0x00) then None
      else if ce_name e \<in> set seen then None
      else if ce_gen e = 0 \<or> gen < ce_gen e then None
      else if ce_size e = 0 \<or> max_chunk_size < unat (ce_size e) then None
      else if (case prev of None \<Rightarrow> False | Some i \<Rightarrow> ce_i e < i) then None
      else check_section gen (Some (ce_i e)) (ce_name e # seen) es)"

fun check_sections :: "64 word \<Rightarrow> string list \<Rightarrow> chunk_entry list list \<Rightarrow> bool" where
  "check_sections gen seen [] \<longleftrightarrow> True"
| "check_sections gen seen (es # ess) \<longleftrightarrow> length es \<le> max_entries
     \<and> (case check_section gen None seen es of None \<Rightarrow> False | Some seen \<Rightarrow> check_sections gen seen ess)"

definition bucket_count_ok :: "32 word \<Rightarrow> bool" where
  "bucket_count_ok n \<longleftrightarrow> min_buckets \<le> n \<and> n \<le> max_buckets \<and> n AND (n - 1) = 0"

definition check_pointer :: "root_pointer \<Rightarrow> container_error + unit" where
  "check_pointer p = (let h = rp_head p in
     if ph_format h \<noteq> format_version then Inl Malformed_pointer
     else if ph_gen h = 0 then Inl Malformed_pointer
     else if ph_gen h < ph_inv h then Inl Malformed_pointer
     else if rp_manifest p \<noteq> [] \<and> \<not> bucket_count_ok (ph_buckets h) then Inl Malformed_pointer
     else if sint (ph_index_image h) < 0 then Inl Malformed_pointer
     else if check_sections (ph_gen h) [] [rp_manifest p, rp_history p, rp_index p] then Inr ()
     else Inl Malformed_pointer)"

subsection \<open>Its encoding\<close>

text \<open>The head's JSON: what is written, and the value read with whether more follows it.\<close>

record head_codec =
  hc_write :: "pointer_head \<Rightarrow> string"
  hc_read :: "string \<Rightarrow> (pointer_head \<times> bool) option"

definition entry_row :: "chunk_entry \<Rightarrow> string" where
  "entry_row e = be_word (ce_i e) @ ce_name e @ be_word (ce_gen e) @ ce_sha256 e @ be_word (ce_size e)"

definition encode_table :: "chunk_entry list \<Rightarrow> string" where
  "encode_table es = be_word (word_of_nat (length es) :: 32 word) @ concat (map entry_row es)"

definition encode_pointer :: "head_codec \<Rightarrow> root_pointer \<Rightarrow> string" where
  "encode_pointer J p = (let head = hc_write J (rp_head p)
     in be_word (word_of_nat (length head) :: 32 word) @ head
        @ concat (map encode_table [rp_manifest p, rp_history p, rp_index p]))"

definition decode_row :: "string \<Rightarrow> chunk_entry" where
  "decode_row row = \<lparr>ce_i = word_of_nat (from_be (take 4 row)), ce_name = take 16 (drop 4 row),
     ce_gen = word_of_nat (from_be (take 8 (drop 20 row))), ce_sha256 = take 32 (drop 28 row),
     ce_size = word_of_nat (from_be (take 4 (drop 60 row)))\<rparr>"

text \<open>The rows at \<open>0\<close>, \<open>entry_size\<close>, \<open>2 * entry_size\<close> and so on.\<close>

primrec decode_rows :: "nat \<Rightarrow> string \<Rightarrow> chunk_entry list" where
  "decode_rows 0 plain = []"
| "decode_rows (Suc n) plain = decode_row (take entry_size plain) # decode_rows n (drop entry_size plain)"

definition decode_table :: "string \<Rightarrow> (chunk_entry list \<times> string) option" where
  "decode_table plain =
     (if length plain < 4 then None
      else let count = from_be (take 4 plain); plain = drop 4 plain
      in if max_entries < count \<or> length plain < count * entry_size then None
         else Some (decode_rows count plain, drop (count * entry_size) plain))"

definition decode_pointer :: "head_codec \<Rightarrow> string \<Rightarrow> container_error + root_pointer" where
  "decode_pointer J plain =
     (if length plain < 4 then Inl Malformed_pointer
      else let n = from_be (take 4 plain); plain = drop 4 plain
      in if max_head_size < n \<or> length plain < n then Inl Malformed_pointer
         else case hc_read J (take n plain) of
           None \<Rightarrow> Inl Malformed_pointer
         | Some (head, trailing) \<Rightarrow> if trailing then Inl Malformed_pointer
           else case decode_table (drop n plain) of
             None \<Rightarrow> Inl Malformed_pointer
           | Some (man, plain) \<Rightarrow> (case decode_table plain of
               None \<Rightarrow> Inl Malformed_pointer
             | Some (hist, plain) \<Rightarrow> (case decode_table plain of
                 None \<Rightarrow> Inl Malformed_pointer
               | Some (idx, plain) \<Rightarrow>
                   if plain \<noteq> [] then Inl Malformed_pointer
                   else Inr \<lparr>rp_head = head, rp_manifest = man, rp_history = hist, rp_index = idx\<rparr>)))"

subsection \<open>The sealed file\<close>

definition vault_step :: "vault_error + 'a \<Rightarrow> container_error + 'a" where
  "vault_step x = (case x of Inl e \<Rightarrow> Inl (Vault_said e) | Inr a \<Rightarrow> Inr a)"

definition pointer_file_bytes :: "64 word \<Rightarrow> string \<Rightarrow> string" where
  "pointer_file_bytes gen sealed = record_magic @ be_word format_version @ be_word gen @ sealed"

definition seal_root :: "cipher \<Rightarrow> head_codec \<Rightarrow> vault_key option \<Rightarrow> root_pointer \<Rightarrow> string \<Rightarrow> container_error + string \<times> string" where
  "seal_root C J k p r = on_ok (check_pointer p) (\<lambda>_.
     on_ok (vault_step (seal_pointer C k container_manifest (rp_gen p) (encode_pointer J p) r)) (\<lambda>(sealed, r).
       let out = pointer_file_bytes (rp_gen p) sealed
       in if max_pointer_size < length out then Inl Malformed_pointer else Inr (out, r)))"

text \<open>The format and generation read without the key, with the refusal beside them.\<close>

definition peek :: "string \<Rightarrow> 16 word \<times> 64 word \<times> container_error option" where
  "peek raw =
     (if length raw < file_head_size \<or> take 4 raw \<noteq> record_magic then (0, 0, Some Not_pointer)
      else let format = word_of_nat (from_be (take 2 (drop 4 raw))); gen = word_of_nat (from_be (take 8 (drop 6 raw)))
      in if format_version < format then (format, gen, Some Newer_container)
         else if format \<noteq> format_version \<or> gen = 0 then (format, gen, Some Malformed_pointer)
         else (format, gen, None))"

definition open_root :: "cipher \<Rightarrow> head_codec \<Rightarrow> vault_key option \<Rightarrow> string \<Rightarrow> container_error + root_pointer" where
  "open_root C J k raw =
     (if max_pointer_size < length raw then Inl Malformed_pointer
      else case peek raw of
        (_, _, Some e) \<Rightarrow> Inl e
      | (_, gen, None) \<Rightarrow>
          on_ok (vault_step (open_pointer C k container_manifest gen (drop file_head_size raw))) (\<lambda>plain.
          on_ok (decode_pointer J plain) (\<lambda>p.
            if rp_gen p \<noteq> gen then Inl Malformed_pointer
            else on_ok (check_pointer p) (\<lambda>_. Inr p))))"

subsection \<open>Bytes that read back\<close>

lemma from_be_word [simp]:
  "from_be (be_word (v :: 16 word)) = unat v" "from_be (be_word (w :: 32 word)) = unat w"
  "from_be (be_word (x :: 64 word)) = unat x"
  using unsigned_less [of v, where 'a = nat] unsigned_less [of w, where 'a = nat] unsigned_less [of x, where 'a = nat]
  by (simp_all add: be_word_def from_be_be)

lemma word_bytes_back:
  "length s = 4 \<Longrightarrow> be_word (word_of_nat (from_be s) :: 32 word) = s"
  "length t = 8 \<Longrightarrow> be_word (word_of_nat (from_be t) :: 64 word) = t"
  using be_from_be [of s] be_from_be [of t] from_be_less [of s] from_be_less [of t]
  by (simp_all add: be_word_def unat_of_nat)

subsection \<open>The tables\<close>

definition entry_shape :: "chunk_entry \<Rightarrow> bool" where
  "entry_shape e \<longleftrightarrow> length (ce_name e) = id_size \<and> length (ce_sha256 e) = 32"

lemma length_row [simp]: "entry_shape e \<Longrightarrow> length (entry_row e) = entry_size"
  by (simp add: entry_row_def entry_shape_def entry_size_def id_size_def)

lemma row_reads_back [simp]: "entry_shape e \<Longrightarrow> decode_row (entry_row e) = e"
  by (simp add: decode_row_def entry_row_def entry_shape_def id_size_def)

lemma row_shape: "length row = entry_size \<Longrightarrow> entry_shape (decode_row row) \<and> entry_row (decode_row row) = row"
proof
  assume l: "length row = entry_size"
  then show "entry_shape (decode_row row)" by (simp add: decode_row_def entry_shape_def entry_size_def id_size_def)
  have d: "drop a row = take n (drop a row) @ drop (n + a) row" for a n by (metis append_take_drop_id drop_drop)
  have "drop 20 row = take 8 (drop 20 row) @ drop 28 row" "drop 28 row = take 32 (drop 28 row) @ drop 60 row"
    "drop 4 row = take 16 (drop 4 row) @ drop 20 row" "row = take 4 row @ drop 4 row" "drop 60 row = take 4 (drop 60 row)"
    using d [of 20 8] d [of 28 32] d [of 4 16] l by (simp_all add: entry_size_def)
  then have r: "row = take 4 row @ take 16 (drop 4 row) @ take 8 (drop 20 row) @ take 32 (drop 28 row) @ take 4 (drop 60 row)"
    by metis
  have w: "be_word (word_of_nat (from_be (take 4 row)) :: 32 word) = take 4 row"
    "be_word (word_of_nat (from_be (take 8 (drop 20 row))) :: 64 word) = take 8 (drop 20 row)"
    "be_word (word_of_nat (from_be (take 4 (drop 60 row))) :: 32 word) = take 4 (drop 60 row)"
    using l by (simp_all add: word_bytes_back entry_size_def)
  show "entry_row (decode_row row) = row"
    unfolding entry_row_def decode_row_def chunk_entry.simps w by (rule r [symmetric])
qed

lemma rows_read_back:
  "list_all entry_shape es \<Longrightarrow> decode_rows (length es) (concat (map entry_row es) @ rest) = es"
  by (induction es) simp_all

lemma length_rows: "list_all entry_shape es \<Longrightarrow> length (concat (map entry_row es)) = length es * entry_size"
  by (induction es) simp_all

lemma table_reads_back:
  assumes "list_all entry_shape es" and "length es \<le> max_entries"
  shows "decode_table (encode_table es @ rest) = Some (es, rest)"
proof -
  have "length es < 2 ^ 32" using assms(2) by (simp add: max_entries_def)
  then have n: "unat (word_of_nat (length es) :: 32 word) = length es" by (simp add: unat_of_nat)
  let ?t = "encode_table es @ rest"
  have t: "take 4 ?t = be_word (word_of_nat (length es) :: 32 word)" "drop 4 ?t = concat (map entry_row es) @ rest"
    "4 \<le> length ?t" by (simp_all add: encode_table_def)
  show ?thesis
    unfolding decode_table_def t(1,2) using assms t(3)
    by (simp add: n length_rows rows_read_back)
qed

text \<open>Strictness: what a table is read from is the table's own encoding.\<close>

lemma rows_of_bytes:
  "n * entry_size \<le> length plain
   \<Longrightarrow> concat (map entry_row (decode_rows n plain)) @ drop (n * entry_size) plain = plain
     \<and> list_all entry_shape (decode_rows n plain) \<and> length (decode_rows n plain) = n"
proof (induction n arbitrary: plain)
  case (Suc n)
  then have "length (take entry_size plain) = entry_size" "n * entry_size \<le> length (drop entry_size plain)" by simp_all
  from row_shape [OF this(1)] Suc.IH [OF this(2)]
  have h: "entry_row (decode_row (take entry_size plain)) = take entry_size plain" "entry_shape (decode_row (take entry_size plain))"
    "concat (map entry_row (decode_rows n (drop entry_size plain))) @ drop (entry_size + n * entry_size) plain = drop entry_size plain"
    "list_all entry_shape (decode_rows n (drop entry_size plain))" "length (decode_rows n (drop entry_size plain)) = n"
    by (simp_all add: add.commute)
  then show ?case using h by simp
qed simp

lemma table_is_canonical:
  assumes "decode_table plain = Some (es, rest)"
  shows "plain = encode_table es @ rest \<and> list_all entry_shape es \<and> length es \<le> max_entries"
proof -
  let ?n = "from_be (take 4 plain)"
  have l: "4 \<le> length plain" "?n \<le> max_entries" "?n * entry_size \<le> length (drop 4 plain)"
    and r: "es = decode_rows ?n (drop 4 plain)" "rest = drop (?n * entry_size) (drop 4 plain)"
    using assms unfolding decode_table_def Let_def by (simp_all only: not_less not_le split: if_splits) simp_all
  have f: "concat (map entry_row es) @ rest = drop 4 plain" "list_all entry_shape es" "length es = ?n"
    using rows_of_bytes [OF l(3)] by (simp_all only: r)
  have w: "be_word (word_of_nat (length es) :: 32 word) = take 4 plain"
    unfolding f(3) by (rule word_bytes_back(1)) (simp add: l(1))
  have "plain = encode_table es @ rest" unfolding encode_table_def w append.assoc f(1) by simp
  then show ?thesis using f(2,3) l(2) by simp
qed

subsection \<open>A pointer reads back\<close>

text \<open>What the format can hold of a pointer, and what is asked of the head's JSON form.\<close>

definition pointer_shape :: "root_pointer \<Rightarrow> bool" where
  "pointer_shape p \<longleftrightarrow> list_all entry_shape (rp_manifest p) \<and> list_all entry_shape (rp_history p) \<and> list_all entry_shape (rp_index p)"

definition good_head_codec :: "head_codec \<Rightarrow> bool" where
  "good_head_codec J \<longleftrightarrow> (\<forall>h. hc_read J (hc_write J h) = Some (h, False) \<and> length (hc_write J h) \<le> max_head_size)"

lemma check_bounds:
  assumes "check_pointer p = Inr ()"
  shows "length (rp_manifest p) \<le> max_entries" "length (rp_history p) \<le> max_entries" "length (rp_index p) \<le> max_entries"
    "ph_format (rp_head p) = format_version" "rp_gen p \<noteq> 0" "ph_inv (rp_head p) \<le> rp_gen p" "0 \<le> sint (ph_index_image (rp_head p))"
    "rp_manifest p \<noteq> [] \<Longrightarrow> bucket_count_ok (ph_buckets (rp_head p))"
  using assms by (auto simp: check_pointer_def Let_def split: if_splits option.splits)

lemma pointer_decodes:
  assumes "good_head_codec J" "pointer_shape p" "check_pointer p = Inr ()"
  shows "decode_pointer J (encode_pointer J p) = Inr p"
proof -
  let ?h = "hc_write J (rp_head p)"
  have h: "hc_read J ?h = Some (rp_head p, False)" "length ?h \<le> max_head_size" using assms(1) by (auto simp: good_head_codec_def)
  then have "length ?h < 2 ^ 32" by (simp add: max_head_size_def)
  then have n: "unat (word_of_nat (length ?h) :: 32 word) = length ?h" by (simp add: unat_of_nat)
  let ?b = "encode_table (rp_manifest p) @ encode_table (rp_history p) @ encode_table (rp_index p)"
  have e: "encode_pointer J p = be_word (word_of_nat (length ?h) :: 32 word) @ ?h @ ?b"
    by (simp add: encode_pointer_def Let_def)
  have t: "take 4 (encode_pointer J p) = be_word (word_of_nat (length ?h) :: 32 word)" "drop 4 (encode_pointer J p) = ?h @ ?b"
    "4 \<le> length (encode_pointer J p)" by (simp_all add: e)
  note s = assms(2)[unfolded pointer_shape_def]
  have tables: "decode_table ?b = Some (rp_manifest p, encode_table (rp_history p) @ encode_table (rp_index p))"
    "decode_table (encode_table (rp_history p) @ encode_table (rp_index p)) = Some (rp_history p, encode_table (rp_index p))"
    "decode_table (encode_table (rp_index p)) = Some (rp_index p, [])"
    using s check_bounds [OF assms(3)] table_reads_back [of "rp_index p" "[]"] by (simp_all add: table_reads_back)
  show ?thesis
    unfolding decode_pointer_def t(1,2) using t(3) h by (simp add: n tables)
qed

text \<open>Strictness: the bytes a pointer is read from are its encoding, up to the spelling of the head.\<close>

lemma decoded_is_encoded:
  assumes "decode_pointer J plain = Inr p"
  shows "\<exists>head. plain = be_word (word_of_nat (length head) :: 32 word) @ head
      @ encode_table (rp_manifest p) @ encode_table (rp_history p) @ encode_table (rp_index p)
    \<and> length head \<le> max_head_size \<and> hc_read J head = Some (rp_head p, False) \<and> pointer_shape p"
proof -
  let ?n = "from_be (take 4 plain)" and ?r = "drop 4 plain"
  obtain ra rb where l: "4 \<le> length plain" "?n \<le> max_head_size" "?n \<le> length ?r"
    and h: "hc_read J (take ?n ?r) = Some (rp_head p, False)"
    and a: "decode_table (drop ?n ?r) = Some (rp_manifest p, ra)" and b: "decode_table ra = Some (rp_history p, rb)"
    and c: "decode_table rb = Some (rp_index p, [])"
    using assms unfolding decode_pointer_def Let_def
    by (auto simp: not_less simp del: drop_drop split: if_splits option.splits prod.splits)
  note t = table_is_canonical [OF a] table_is_canonical [OF b] table_is_canonical [OF c]
  have w: "be_word (word_of_nat (length (take ?n ?r)) :: 32 word) = take 4 plain"
    using l word_bytes_back(1) [of "take 4 plain"] by simp
  have u: "drop ?n ?r = encode_table (rp_manifest p) @ encode_table (rp_history p) @ encode_table (rp_index p)"
    using t by (simp only: append_Nil2)
  have "take 4 plain @ take ?n ?r @ drop ?n ?r = plain" by (simp only: append_take_drop_id)
  then have "plain = be_word (word_of_nat (length (take ?n ?r)) :: 32 word) @ take ?n ?r
      @ encode_table (rp_manifest p) @ encode_table (rp_history p) @ encode_table (rp_index p)"
    unfolding w u by (rule sym)
  moreover have "length (take ?n ?r) \<le> max_head_size" using l by simp
  ultimately show ?thesis using h t unfolding pointer_shape_def by blast
qed

lemma peek_file: "gen \<noteq> 0 \<Longrightarrow> peek (pointer_file_bytes gen sealed) = (format_version, gen, None)"
  by (simp add: peek_def pointer_file_bytes_def record_magic_def file_head_size_def Let_def)

lemma sealed_root:
  assumes "seal_root C J k p r = Inr (raw, r')"
  obtains sealed where "check_pointer p = Inr ()" "raw = pointer_file_bytes (rp_gen p) sealed" "length raw \<le> max_pointer_size"
    "seal_pointer C k container_manifest (rp_gen p) (encode_pointer J p) r = Inr (sealed, r')"
  using assms by (auto simp: seal_root_def vault_step_def Let_def not_less split: if_splits sum.splits)

lemma open_seal_root:
  assumes "authentic_cipher C" "good_head_codec J" "pointer_shape p" "seal_root C J k p r = Inr (raw, r')"
  shows "open_root C J k raw = Inr p"
  using assms(4)
proof (rule sealed_root)
  fix sealed
  assume s: "check_pointer p = Inr ()" "raw = pointer_file_bytes (rp_gen p) sealed" "length raw \<le> max_pointer_size"
    "seal_pointer C k container_manifest (rp_gen p) (encode_pointer J p) r = Inr (sealed, r')"
  have g: "rp_gen p \<noteq> 0" using check_bounds [OF s(1)] by blast
  have "drop file_head_size raw = sealed" by (simp add: s(2) pointer_file_bytes_def record_magic_def file_head_size_def)
  moreover have "open_pointer C k container_manifest (rp_gen p) sealed = Inr (encode_pointer J p)"
    using s(4) open_seal [OF assms(1)]
    by (auto simp: seal_pointer_def open_pointer_def container_use_def with_key_def split: option.splits if_splits)
  ultimately show ?thesis
    using s(3) peek_file [OF g, of sealed] pointer_decodes [OF assms(2,3) s(1)] s(1)
    by (simp add: open_root_def vault_step_def s(2))
qed

text \<open>A head as eight fixed-width fields, for the witnesses.\<close>

definition tiny_head :: head_codec where
  "tiny_head = \<lparr>hc_write = (\<lambda>h. be_word (ph_format h) @ be_word (ph_gen h) @ be_word (ph_run_start h) @ be_word (ph_inv h)
       @ be_word (ph_buckets h) @ be_word (ph_index_meta h) @ be_word (ph_index_image h) @ be_word (ph_index_chunk h)),
     hc_read = (\<lambda>s. Some (\<lparr>ph_format = word_of_nat (from_be (take 2 s)), ph_gen = word_of_nat (from_be (take 8 (drop 2 s))),
       ph_run_start = word_of_nat (from_be (take 8 (drop 10 s))), ph_inv = word_of_nat (from_be (take 8 (drop 18 s))),
       ph_buckets = word_of_nat (from_be (take 4 (drop 26 s))), ph_index_meta = word_of_nat (from_be (take 8 (drop 30 s))),
       ph_index_image = word_of_nat (from_be (take 8 (drop 38 s))), ph_index_chunk = word_of_nat (from_be (take 4 (drop 46 s)))\<rparr>, False))\<rparr>"

lemma tiny_head_good: "good_head_codec tiny_head"
  by (simp add: good_head_codec_def tiny_head_def max_head_size_def)

definition sample_root :: root_pointer where
  "sample_root = \<lparr>rp_head = zero_head\<lparr>ph_format := format_version, ph_gen := 3, ph_buckets := 16\<rparr>,
     rp_manifest = [\<lparr>ce_i = 0, ce_name = replicate 16 CHR ''n'', ce_gen = 2, ce_sha256 = replicate 32 CHR ''h'', ce_size = 40\<rparr>],
     rp_history = [], rp_index = []\<rparr>"

text \<open>
  A committed pointer is read as it was written.  Whatever a save seals as the root pointer keeps every
  rule of the format, opens under its key to the same pointer, shows its own generation to a reader without
  the key, and stays within the size a reader accepts.
\<close>

theorem a_record_pointer_reads_back:
  assumes "authentic_cipher C" and "good_head_codec J" and "pointer_shape p" and "seal_root C J k p r = Inr (raw, r')"
  shows "open_root C J k raw = Inr p \<and> peek raw = (format_version, rp_gen p, None) \<and> length raw \<le> max_pointer_size"
  using assms(4)
proof (rule sealed_root)
  fix sealed
  assume s: "check_pointer p = Inr ()" "raw = pointer_file_bytes (rp_gen p) sealed" "length raw \<le> max_pointer_size"
  then show ?thesis using open_seal_root [OF assms] check_bounds(5) [OF s(1)] by (simp add: peek_file)
qed

theorem a_record_pointer_reads_back_witness:
  "\<exists>raw r. seal_root plain_cipher tiny_head (Some sample_key32) sample_root (replicate 24 CHR ''r'') = Inr (raw, r)
     \<and> open_root plain_cipher tiny_head (Some sample_key32) raw = Inr sample_root"
proof -
  have "check_pointer sample_root = Inr ()"
    by (simp add: check_pointer_def sample_root_def zero_head_def bucket_count_ok_def min_buckets_def max_buckets_def
        max_entries_def max_chunk_size_def id_size_def Let_def)
  then have "\<exists>raw r. seal_root plain_cipher tiny_head (Some sample_key32) sample_root (replicate 24 CHR ''r'') = Inr (raw, r)"
    by (simp add: seal_root_def vault_step_def seal_pointer_def container_use_def with_key_def sample_key32_def
        container_kind_known_def container_manifest_def seal_def draw_def key_size_def nonce_size_def pointer_file_bytes_def
        record_magic_def max_pointer_size_def plain_cipher_def plain_head_def pointer_aad_def aad_prefix_def encode_pointer_def
        tiny_head_def encode_table_def sample_root_def entry_row_def)
  then obtain raw r where
    s: "seal_root plain_cipher tiny_head (Some sample_key32) sample_root (replicate 24 CHR ''r'') = Inr (raw, r)" by blast
  have "pointer_shape sample_root" by (simp add: pointer_shape_def sample_root_def entry_shape_def id_size_def)
  from a_record_pointer_reads_back [OF plain_authentic tiny_head_good this s] s show ?thesis by blast
qed

end
