(* ===== verification/Inventory.thy ===== *)
theory Inventory
  imports RecordPointer History Message VaultForm
begin

text \<open>
  The file list of an encrypted archive (\<^verbatim>\<open>internal/container/inventory.go\<close>): the top file and its shards, which
  a reader without the key can check, their text form and its strict reading.  A line's fields, numbers and
  the scanner are those of the standard library.
\<close>

subsection \<open>Splitting and numbers\<close>

definition drop_cr :: "string \<Rightarrow> string" where
  "drop_cr l = (if l \<noteq> [] \<and> last l = CHR 0x0D then butlast l else l)"

definition scan_limit :: nat where "scan_limit = 4096"

definition split_lines :: "string \<Rightarrow> nat \<Rightarrow> container_error + string list" where
  "split_lines raw most = (let ls = log_lines raw
     in if most < length ls \<or> list_ex (\<lambda>l. \<not> length l < scan_limit) ls then Inl Malformed_inventory else Inr (map drop_cr ls))"

text \<open>\<^verbatim>\<open>strings.Fields\<close>: the runs of runes that are not white space.\<close>

function split_fields :: "string \<Rightarrow> string \<Rightarrow> string list" where
  "split_fields cur s =
     (if s = [] then if cur = [] then [] else [cur]
      else let (r, w) = decode_rune s
      in if space_rune r then (if cur = [] then split_fields [] (drop w s) else cur # split_fields [] (drop w s))
         else split_fields (cur @ take w s) (drop w s))"
  by pat_completeness auto
termination
proof (relation "measure (\<lambda>(cur, s). length s)", goal_cases)
  case (2 cur s x r w)
  then have "0 < w" by (metis decode_width_pos snd_conv)
  with 2 show ?case by simp
next
  case (3 cur s x r w)
  then have "0 < w" by (metis decode_width_pos snd_conv)
  with 3 show ?case by simp
next
  case (4 cur s x r w)
  then have "0 < w" by (metis decode_width_pos snd_conv)
  with 4 show ?case by simp
qed simp

declare split_fields.simps [simp del]

definition text_fields :: "string \<Rightarrow> string list" where
  "text_fields s = split_fields [] s"

definition parse_digits :: "string \<Rightarrow> int option" where
  "parse_digits s = (if s = [] then None else digits_val 0 s)"

definition parse_uint64 :: "string \<Rightarrow> int option" where
  "parse_uint64 s = (case parse_digits s of None \<Rightarrow> None | Some n \<Rightarrow> if n < 2 ^ 64 then Some n else None)"

definition parse_int64 :: "string \<Rightarrow> int option" where
  "parse_int64 s = (case s of
     [] \<Rightarrow> None
   | c # rest \<Rightarrow>
       if c = CHR ''-'' then (case parse_digits rest of None \<Rightarrow> None | Some n \<Rightarrow> if n \<le> 2 ^ 63 then Some (- n) else None)
       else (case parse_digits (if c = CHR ''+'' then rest else s) of None \<Rightarrow> None | Some n \<Rightarrow> if n < 2 ^ 63 then Some n else None))"

subsection \<open>The list\<close>

definition inventory_name :: string where "inventory_name = ''.mailarchive-inventory''"
definition inventory_dir :: string where "inventory_dir = ''inventory''"
definition inventory_head :: string where "inventory_head = ''mailarchive-inventory''"
definition inventory_version :: int where "inventory_version = 1"
definition min_fanout :: nat where "min_fanout = 2"
definition max_fanout :: nat where "max_fanout = 4"
definition max_shards :: nat where "max_shards = 65536"
definition max_shard_lines :: nat where "max_shard_lines = 1048576"

datatype file_state = Live | Retained | Stateless

record sealed_digest =
  sd_sha256 :: string
  sd_size :: int

record listed_file =
  lf_path :: string
  lf_digest :: sealed_digest
  lf_state :: file_state

record shard_ref =
  sf_prefix :: string
  sf_name :: string
  sf_sha256 :: string
  sf_entries :: int

record top_file =
  tf_gen :: "64 word"
  tf_pointer :: sealed_digest
  tf_mirror :: "sealed_digest option"
  tf_fanout :: int
  tf_shards :: "shard_ref list"

record inventory_shard =
  is_prefix :: string
  is_files :: "listed_file list"

definition state_text :: "file_state \<Rightarrow> string" where
  "state_text s = (case s of Live \<Rightarrow> ''live'' | Retained \<Rightarrow> ''retained'' | Stateless \<Rightarrow> ''unknown'')"

definition shard_file_name :: "string \<Rightarrow> 64 word \<Rightarrow> string" where
  "shard_file_name pre gen = inventory_dir @ ''/'' @ pre @ ''.'' @ fmt_d (uint gen)"

text \<open>The regular expressions of a unit or chunk path and of a shard's name: the parts they capture.\<close>

definition hex_text :: "string \<Rightarrow> bool" where
  "hex_text s \<longleftrightarrow> set s \<subseteq> hex_alphabet"

definition match_file_path :: "string \<Rightarrow> (string \<times> string) option" where
  "match_file_path path = (case split_on CHR ''/'' path of
     [t, h, n] \<Rightarrow> if (t = ''units'' \<or> t = ''chunks'') \<and> length h = 2 \<and> hex_text h \<and> length n = 32 \<and> hex_text n then Some (h, n) else None
   | _ \<Rightarrow> None)"

definition match_shard_name :: "string \<Rightarrow> (string \<times> string) option" where
  "match_shard_name name = (case split_on CHR ''/'' name of
     [d, rest] \<Rightarrow> if d \<noteq> inventory_dir then None
       else (case split_on CHR ''.'' rest of
         [p, g] \<Rightarrow> if 2 \<le> length p \<and> length p \<le> 4 \<and> hex_text p \<and> g \<noteq> [] \<and> hd g \<noteq> CHR ''0'' \<and> list_all (\<lambda>c. in_range 48 57 (byte c)) g
             then Some (p, g) else None
       | _ \<Rightarrow> None)
   | _ \<Rightarrow> None)"

definition prefix_of :: "string \<Rightarrow> nat \<Rightarrow> container_error + string" where
  "prefix_of path d = (case match_file_path path of
     None \<Rightarrow> Inl Malformed_inventory
   | Some (h, n) \<Rightarrow> if h \<noteq> take 2 n then Inl Malformed_inventory
       else if d < min_fanout \<or> max_fanout < d then Inl Malformed_inventory
       else Inr (take d n))"

definition hex_prefix :: "string \<Rightarrow> int \<Rightarrow> bool" where
  "hex_prefix s d \<longleftrightarrow> int (length s) = d \<and> hex_text s"

subsection \<open>The top file\<close>

definition pointer_size_ok :: "sealed_digest \<Rightarrow> bool" where
  "pointer_size_ok d \<longleftrightarrow> 0 < sd_size d \<and> sd_size d \<le> int max_pointer_size"

fun check_refs :: "64 word \<Rightarrow> int \<Rightarrow> string option \<Rightarrow> shard_ref list \<Rightarrow> bool" where
  "check_refs gen fanout prev [] \<longleftrightarrow> True"
| "check_refs gen fanout prev (s # ss) \<longleftrightarrow> hex_prefix (sf_prefix s) fanout
     \<and> (case prev of None \<Rightarrow> True | Some p \<Rightarrow> p < sf_prefix s)
     \<and> (case match_shard_name (sf_name s) of
          None \<Rightarrow> False
        | Some (p, g) \<Rightarrow> p = sf_prefix s \<and> 1 \<le> sf_entries s \<and> sf_entries s \<le> int max_shard_lines
            \<and> (case parse_uint64 g of Some n \<Rightarrow> n | None \<Rightarrow> 2 ^ 64 - 1) \<le> uint gen)
     \<and> check_refs gen fanout (Some (sf_prefix s)) ss"

definition check_top :: "top_file \<Rightarrow> bool" where
  "check_top t \<longleftrightarrow> tf_gen t \<noteq> 0 \<and> pointer_size_ok (tf_pointer t)
     \<and> (case tf_mirror t of None \<Rightarrow> True | Some d \<Rightarrow> pointer_size_ok d)
     \<and> int min_fanout \<le> tf_fanout t \<and> tf_fanout t \<le> int max_fanout
     \<and> length (tf_shards t) \<le> max_shards
     \<and> check_refs (tf_gen t) (tf_fanout t) None (tf_shards t)"

definition digest_line :: "string \<Rightarrow> sealed_digest \<Rightarrow> string" where
  "digest_line key d = key @ '' '' @ hex_encode (sd_sha256 d) @ '' '' @ fmt_d (sd_size d)"

definition ref_line :: "shard_ref \<Rightarrow> string" where
  "ref_line s = sf_prefix s @ '' '' @ sf_name s @ '' '' @ hex_encode (sf_sha256 s) @ '' '' @ fmt_d (sf_entries s)"

definition top_lines :: "top_file \<Rightarrow> string list" where
  "top_lines t = [inventory_head @ '' '' @ fmt_d inventory_version, ''gen '' @ fmt_d (uint (tf_gen t)),
     digest_line ''pointer'' (tf_pointer t), (case tf_mirror t of None \<Rightarrow> ''mirror none'' | Some d \<Rightarrow> digest_line ''mirror'' d),
     ''fanout '' @ fmt_d (tf_fanout t)] @ map ref_line (tf_shards t)"

definition end_lines :: "string list \<Rightarrow> string" where
  "end_lines ls = concat (map (\<lambda>l. l @ [newline]) ls)"

definition marshal_top :: "top_file \<Rightarrow> container_error + string" where
  "marshal_top t = (if check_top t then Inr (end_lines (top_lines t)) else Inl Malformed_inventory)"

definition keyed_uint :: "string \<Rightarrow> string \<Rightarrow> int option" where
  "keyed_uint line key = (case text_fields line of [k, n] \<Rightarrow> if k = key then parse_uint64 n else None | _ \<Rightarrow> None)"

definition hex32 :: "string \<Rightarrow> string option" where
  "hex32 s = (if length s \<noteq> 64 then None else hex_decode s)"

definition keyed_digest :: "string \<Rightarrow> string \<Rightarrow> sealed_digest option" where
  "keyed_digest line key = (case text_fields line of
     [k, h, n] \<Rightarrow> if k \<noteq> key then None
       else (case hex32 h of None \<Rightarrow> None
         | Some dg \<Rightarrow> (case parse_int64 n of None \<Rightarrow> None | Some sz \<Rightarrow> Some \<lparr>sd_sha256 = dg, sd_size = sz\<rparr>))
   | _ \<Rightarrow> None)"

definition parse_ref :: "string \<Rightarrow> shard_ref option" where
  "parse_ref line = (case text_fields line of
     [p, name, h, n] \<Rightarrow> (case hex32 h of None \<Rightarrow> None
       | Some dg \<Rightarrow> (case parse_int64 n of None \<Rightarrow> None
         | Some k \<Rightarrow> Some \<lparr>sf_prefix = p, sf_name = name, sf_sha256 = dg, sf_entries = k\<rparr>))
   | _ \<Rightarrow> None)"

fun all_some :: "('a \<Rightarrow> 'b option) \<Rightarrow> 'a list \<Rightarrow> 'b list option" where
  "all_some f [] = Some []"
| "all_some f (x # xs) = (case f x of None \<Rightarrow> None | Some y \<Rightarrow> (case all_some f xs of None \<Rightarrow> None | Some ys \<Rightarrow> Some (y # ys)))"

definition parse_mirror :: "string \<Rightarrow> sealed_digest option option" where
  "parse_mirror line = (if line = ''mirror none'' then Some None else map_option Some (keyed_digest line ''mirror''))"

definition top_of_lines :: "string list \<Rightarrow> top_file option" where
  "top_of_lines lines = (case lines of
     _ # l1 # l2 # l3 # l4 # rest \<Rightarrow>
       (case keyed_uint l1 ''gen'' of None \<Rightarrow> None
        | Some gen \<Rightarrow> (case keyed_digest l2 ''pointer'' of None \<Rightarrow> None
          | Some ptr \<Rightarrow> (case parse_mirror l3 of None \<Rightarrow> None
            | Some mirror \<Rightarrow> (case keyed_uint l4 ''fanout'' of None \<Rightarrow> None
              | Some fan \<Rightarrow> (case all_some parse_ref rest of None \<Rightarrow> None
                | Some refs \<Rightarrow> Some \<lparr>tf_gen = word_of_int gen, tf_pointer = ptr, tf_mirror = mirror,
                    tf_fanout = sint (word_of_int fan :: 64 word), tf_shards = refs\<rparr>)))))
   | _ \<Rightarrow> None)"

text \<open>The last step of a reading: the rules, and the bytes against what a writer would make of it.\<close>

definition accept_top :: "string \<Rightarrow> top_file \<Rightarrow> container_error + top_file" where
  "accept_top raw t = (if \<not> check_top t then Inl Malformed_inventory
     else if marshal_top t \<noteq> Inr raw then Inl Malformed_inventory else Inr t)"

definition top_version :: "string \<Rightarrow> container_error + unit" where
  "top_version l0 = (case text_fields l0 of
     [head, ver] \<Rightarrow> if head \<noteq> inventory_head then Inl Malformed_inventory
       else (case parse_int64 ver of
         None \<Rightarrow> Inl Malformed_inventory
       | Some v \<Rightarrow> if v < 1 then Inl Malformed_inventory else if inventory_version < v then Inl Newer_container else Inr ())
   | _ \<Rightarrow> Inl Malformed_inventory)"

definition parse_top :: "string \<Rightarrow> container_error + top_file" where
  "parse_top raw = on_ok (split_lines raw (max_shards + 5)) (\<lambda>lines.
     if lines = [] then Inl Malformed_inventory
     else on_ok (top_version (hd lines)) (\<lambda>_. case top_of_lines lines of
       None \<Rightarrow> Inl Malformed_inventory
     | Some t \<Rightarrow> accept_top raw t))"

subsection \<open>A shard\<close>

fun check_files :: "string \<Rightarrow> string option \<Rightarrow> listed_file list \<Rightarrow> bool" where
  "check_files pre prev [] \<longleftrightarrow> True"
| "check_files pre prev (f # fs) \<longleftrightarrow> prefix_of (lf_path f) (length pre) = Inr pre
     \<and> (case prev of None \<Rightarrow> True | Some p \<Rightarrow> p < lf_path f)
     \<and> 0 < sd_size (lf_digest f) \<and> (lf_state f = Live \<or> lf_state f = Retained)
     \<and> check_files pre (Some (lf_path f)) fs"

definition check_shard :: "inventory_shard \<Rightarrow> bool" where
  "check_shard s \<longleftrightarrow> min_fanout \<le> length (is_prefix s) \<and> length (is_prefix s) \<le> max_fanout
     \<and> hex_prefix (is_prefix s) (int (length (is_prefix s)))
     \<and> is_files s \<noteq> [] \<and> length (is_files s) \<le> max_shard_lines
     \<and> check_files (is_prefix s) None (is_files s)"

definition file_line :: "listed_file \<Rightarrow> string" where
  "file_line f = lf_path f @ '' '' @ hex_encode (sd_sha256 (lf_digest f)) @ '' '' @ fmt_d (sd_size (lf_digest f)) @ '' '' @ state_text (lf_state f)"

definition marshal_shard :: "inventory_shard \<Rightarrow> container_error + string" where
  "marshal_shard s = (if check_shard s then Inr (end_lines (map file_line (is_files s))) else Inl Malformed_inventory)"

definition parse_file :: "string \<Rightarrow> listed_file option" where
  "parse_file line = (case text_fields line of
     [path, h, n, st] \<Rightarrow> (case hex32 h of None \<Rightarrow> None
       | Some dg \<Rightarrow> (case parse_int64 n of None \<Rightarrow> None
         | Some sz \<Rightarrow>
             let f = (\<lambda>s. \<lparr>lf_path = path, lf_digest = \<lparr>sd_sha256 = dg, sd_size = sz\<rparr>, lf_state = s\<rparr>)
             in if st = ''live'' then Some (f Live) else if st = ''retained'' then Some (f Retained) else None))
   | _ \<Rightarrow> None)"

definition accept_shard :: "string \<Rightarrow> inventory_shard \<Rightarrow> container_error + inventory_shard" where
  "accept_shard raw s = (if \<not> check_shard s then Inl Malformed_inventory
     else if marshal_shard s \<noteq> Inr raw then Inl Malformed_inventory else Inr s)"

definition parse_shard :: "string \<Rightarrow> string \<Rightarrow> container_error + inventory_shard" where
  "parse_shard pre raw = on_ok (split_lines raw max_shard_lines) (\<lambda>lines. case all_some parse_file lines of
     None \<Rightarrow> Inl Malformed_inventory
   | Some fs \<Rightarrow> accept_shard raw \<lparr>is_prefix = pre, is_files = fs\<rparr>)"

lemma accepted_top: "accept_top raw t = Inr t' \<Longrightarrow> t' = t \<and> marshal_top t = Inr raw"
  by (simp add: accept_top_def split: if_splits)

lemma accepted_shard: "accept_shard raw s = Inr s' \<Longrightarrow> s' = s \<and> marshal_shard s = Inr raw"
  by (simp add: accept_shard_def split: if_splits)

end
