(* ===== verification/InventoryProps.thy ===== *)
theory InventoryProps
  imports Inventory
begin

text \<open>
  The file list reads back: a line splits into the fields it was made of, a number and a digest parse to what
  was printed, so what a writer makes is what a reader accepts, byte for byte.
\<close>

subsection \<open>Words and lines\<close>

definition word_char :: "char \<Rightarrow> bool" where
  "word_char c \<longleftrightarrow> ascii c \<and> \<not> space_rune (byte c)"

definition plain_word :: "string \<Rightarrow> bool" where
  "plain_word w \<longleftrightarrow> w \<noteq> [] \<and> list_all word_char w"

fun join_sp :: "string list \<Rightarrow> string" where
  "join_sp [] = []"
| "join_sp [w] = w"
| "join_sp (w # ws) = w @ '' '' @ join_sp ws"

lemma split_word:
  "list_all word_char w \<Longrightarrow> split_fields cur (w @ rest) = split_fields (cur @ w) rest"
proof (induction w arbitrary: cur)
  case (Cons c w)
  then have "split_fields cur ((c # w) @ rest) = split_fields (cur @ [c]) (w @ rest)"
    by (subst split_fields.simps) (simp add: word_char_def)
  with Cons show ?case by simp
qed simp

lemma split_end [simp]: "split_fields cur [] = (if cur = [] then [] else [cur])"
  by (subst split_fields.simps) simp

lemma split_space: "split_fields cur (CHR '' '' # rest) = (if cur = [] then split_fields [] rest else cur # split_fields [] rest)"
  by (subst split_fields.simps) (simp add: byte_def space_rune_def in_range_def)

lemma fields_join: "list_all plain_word ws \<Longrightarrow> text_fields (join_sp ws) = ws"
proof (induction ws rule: join_sp.induct)
  case 1
  then show ?case by (simp add: text_fields_def)
next
  case (2 w)
  then show ?case using split_word [of w "[]" "[]"] by (simp add: text_fields_def plain_word_def)
next
  case (3 w v vs)
  then show ?case using split_word [of w "[]" "'' '' @ join_sp (v # vs)"]
    by (simp add: text_fields_def plain_word_def split_space)
qed

lemma word_chars: "word_char c \<Longrightarrow> c \<noteq> newline \<and> c \<noteq> CHR 0x0D \<and> c \<noteq> CHR '' ''"
  by (auto simp: word_char_def byte_def space_rune_def in_range_def)

lemma join_chars: "list_all plain_word ws \<Longrightarrow> c \<in> set (join_sp ws) \<Longrightarrow> word_char c \<or> c = CHR '' ''"
  by (induction ws rule: join_sp.induct) (auto simp: plain_word_def list_all_iff)

definition whole_line :: "string \<Rightarrow> bool" where
  "whole_line l \<longleftrightarrow> newline \<notin> set l \<and> CHR 0x0D \<notin> set l \<and> length l < scan_limit"

lemma join_whole: "list_all plain_word ws \<Longrightarrow> length (join_sp ws) < scan_limit \<Longrightarrow> whole_line (join_sp ws)"
  using join_chars [of ws] word_chars unfolding whole_line_def by fastforce

lemma drop_cr_whole [simp]: "whole_line l \<Longrightarrow> drop_cr l = l"
  by (auto simp: drop_cr_def whole_line_def dest: last_in_set)

lemma log_end_lines: "\<forall>l \<in> set ls. newline \<notin> set l \<Longrightarrow> log_lines (end_lines ls) = ls"
proof -
  assume "\<forall>l \<in> set ls. newline \<notin> set l"
  then have "split_on newline (end_lines ls) = ls @ [[]]"
    by (induction ls) (simp_all add: end_lines_def)
  then show ?thesis by (simp add: log_lines_def)
qed

lemma split_end_lines:
  assumes "\<forall>l \<in> set ls. whole_line l" and "length ls \<le> most"
  shows "split_lines (end_lines ls) most = Inr ls"
proof -
  have "log_lines (end_lines ls) = ls" using assms(1) log_end_lines by (simp add: whole_line_def)
  moreover have "\<not> list_ex (\<lambda>l. \<not> length l < scan_limit) ls" using assms(1) by (auto simp: list_ex_iff whole_line_def)
  moreover have "map drop_cr ls = ls" using assms(1) by (induction ls) simp_all
  ultimately show ?thesis using assms(2) by (simp add: split_lines_def)
qed

subsection \<open>Numbers and digests\<close>

lemma digit_char_val [simp]: "d < 10 \<Longrightarrow> digit_of (char_of (48 + d)) = Some (int d)"
  by (simp add: digit_of_def in_range_def)

lemma digits_val_snoc: "digits_val acc (s @ [c]) = (case digits_val acc s of None \<Rightarrow> None | Some a \<Rightarrow>
    (case digit_of c of None \<Rightarrow> None | Some d \<Rightarrow> Some (a * 10 + d)))"
  by (induction s arbitrary: acc) (simp_all split: option.splits)

lemma digits_val_digits: "digits_val 0 (nat_digits n) = Some (int n)"
proof (induction n rule: nat_digits.induct)
  case (1 n)
  show ?case
  proof (cases "n = 0")
    case True
    then show ?thesis by (simp add: nat_digits.simps [of 0])
  next
    case False
    have "int n = int (n div 10) * 10 + int (n mod 10)" by (metis div_mult_mod_eq of_nat_add of_nat_mult of_nat_numeral)
    then show ?thesis using 1 [OF False] False by (subst nat_digits.simps) (simp add: digits_val_snoc)
  qed
qed

lemma parse_fmt_d: "0 \<le> i \<Longrightarrow> parse_digits (fmt_d i) = Some i"
proof -
  assume i: "0 \<le> i"
  have "digits_val 0 ''0'' = Some 0" by (simp add: digit_of_def in_range_def byte_def)
  moreover have "nat_digits (nat i) \<noteq> []" if "i \<noteq> 0" using that i by (subst nat_digits.simps) simp
  ultimately show ?thesis using i by (auto simp: parse_digits_def fmt_d_def digits_val_digits)
qed

lemma fmt_d_digits:
  assumes "0 \<le> i"
  shows "fmt_d i \<noteq> []" "c \<in> set (fmt_d i) \<Longrightarrow> byte c \<in> {48..57}"
proof -
  show "fmt_d i \<noteq> []" using parse_fmt_d [OF assms] by (auto simp: parse_digits_def)
  show "c \<in> set (fmt_d i) \<Longrightarrow> byte c \<in> {48..57}"
    using assms digit_chars by (fastforce simp: fmt_d_def byte_def split: if_splits)
qed

lemma parse_uint_fmt [simp]: "0 \<le> i \<Longrightarrow> i < 2 ^ 64 \<Longrightarrow> parse_uint64 (fmt_d i) = Some i"
  by (simp add: parse_uint64_def parse_fmt_d)

lemma parse_int_fmt [simp]:
  assumes "0 \<le> i" and "i < 2 ^ 63"
  shows "parse_int64 (fmt_d i) = Some i"
proof -
  obtain c rest where c: "fmt_d i = c # rest" using fmt_d_digits(1) [OF assms(1)] by (cases "fmt_d i") auto
  then have "byte c \<in> {48..57}" using fmt_d_digits(2) [OF assms(1)] by simp
  then have "c \<noteq> CHR ''-''" "c \<noteq> CHR ''+''" by (auto simp: byte_def)
  then show ?thesis using parse_fmt_d [OF assms(1)] assms(2) c by (simp add: parse_int64_def)
qed

lemma digit_word_char: "byte c \<in> {48..57} \<Longrightarrow> word_char c"
  by (auto simp: word_char_def byte_def space_rune_def in_range_def)

lemma fmt_d_plain: "0 \<le> i \<Longrightarrow> plain_word (fmt_d i)"
  using fmt_d_digits digit_word_char by (auto simp: plain_word_def list_all_iff)

lemma hex_plain: "hex_text s \<Longrightarrow> s \<noteq> [] \<Longrightarrow> plain_word s"
  by (auto simp: plain_word_def list_all_iff hex_text_def hex_alphabet_def word_char_def byte_def space_rune_def in_range_def)

lemma hex32_encode [simp]: "length d = 32 \<Longrightarrow> hex32 (hex_encode d) = Some d"
  by (simp add: hex32_def)

lemma encoded_plain: "length d = 32 \<Longrightarrow> plain_word (hex_encode d)"
proof (rule hex_plain)
  assume "length d = 32"
  then have "length (hex_encode d) = 64" by simp
  then show "hex_encode d \<noteq> []" by (metis list.size(3) zero_neq_numeral)
qed (simp add: hex_text_def hex_encode_alphabet)

lemma fmt_d_length: "0 \<le> i \<Longrightarrow> i < 10 ^ n \<Longrightarrow> 0 < n \<Longrightarrow> length (fmt_d i) \<le> n"
proof -
  have d: "m < 10 ^ k \<Longrightarrow> length (nat_digits m) \<le> k" for m k
  proof (induction k arbitrary: m)
    case 0
    then show ?case by (simp add: nat_digits.simps [of 0])
  next
    case (Suc k)
    then have "m div 10 < 10 ^ k" by simp
    with Suc.IH show ?case by (subst nat_digits.simps) simp
  qed
  assume i: "0 \<le> i" "i < 10 ^ n" "0 < n"
  then have "nat i < 10 ^ n" by (metis nat_less_iff of_nat_numeral of_nat_power)
  with d [of "nat i" n] i show ?thesis by (simp add: fmt_d_def)
qed

subsection \<open>What a writer lists\<close>

text \<open>Digests are 32 bytes, sizes fit 63 bits, and a shard's name is one the writer makes.\<close>

definition digest_shape :: "sealed_digest \<Rightarrow> bool" where
  "digest_shape d \<longleftrightarrow> length (sd_sha256 d) = 32 \<and> sd_size d < 2 ^ 63"

definition ref_shape :: "shard_ref \<Rightarrow> bool" where
  "ref_shape s \<longleftrightarrow> length (sf_sha256 s) = 32 \<and> (\<exists>gen. sf_name s = shard_file_name (sf_prefix s) gen)"

definition top_shape :: "top_file \<Rightarrow> bool" where
  "top_shape t \<longleftrightarrow> digest_shape (tf_pointer t) \<and> (case tf_mirror t of None \<Rightarrow> True | Some d \<Rightarrow> digest_shape d)
     \<and> list_all ref_shape (tf_shards t)"

definition shard_shape :: "inventory_shard \<Rightarrow> bool" where
  "shard_shape s \<longleftrightarrow> list_all (\<lambda>f. digest_shape (lf_digest f)) (is_files s)"

lemma digest_line_words: "digest_line key d = join_sp [key, hex_encode (sd_sha256 d), fmt_d (sd_size d)]"
  by (simp add: digest_line_def)

lemma ref_line_words: "ref_line s = join_sp [sf_prefix s, sf_name s, hex_encode (sf_sha256 s), fmt_d (sf_entries s)]"
  by (simp add: ref_line_def)

lemma file_line_words:
  "file_line f = join_sp [lf_path f, hex_encode (sd_sha256 (lf_digest f)), fmt_d (sd_size (lf_digest f)), state_text (lf_state f)]"
  by (simp add: file_line_def)

lemma digest_line_back:
  assumes "plain_word key" "length key < 100" "digest_shape d" "0 < sd_size d"
  shows "keyed_digest (digest_line key d) key = Some d \<and> whole_line (digest_line key d)"
proof -
  have p: "list_all plain_word [key, hex_encode (sd_sha256 d), fmt_d (sd_size d)]"
    using assms by (simp add: digest_shape_def encoded_plain fmt_d_plain)
  have "sd_size d < 10 ^ 19" using assms(3) by (simp add: digest_shape_def)
  then have "length (fmt_d (sd_size d)) \<le> 19" using assms(4) by (intro fmt_d_length) simp_all
  then have "whole_line (digest_line key d)"
    unfolding digest_line_words using assms by (intro join_whole p) (simp add: scan_limit_def digest_shape_def)
  moreover have "keyed_digest (digest_line key d) key = Some d"
    using fields_join [OF p] assms by (simp add: keyed_digest_def digest_line_words digest_shape_def)
  ultimately show ?thesis by blast
qed

lemma keyed_uint_back:
  assumes "plain_word key" "length key < 100" "0 \<le> i" "i < 2 ^ 64"
  shows "keyed_uint (key @ '' '' @ fmt_d i) key = Some i \<and> whole_line (key @ '' '' @ fmt_d i)"
proof -
  have p: "list_all plain_word [key, fmt_d i]" using assms by (simp add: fmt_d_plain)
  have e: "key @ '' '' @ fmt_d i = join_sp [key, fmt_d i]" by simp
  have "i < 10 ^ 20" using assms(4) by simp
  then have "length (fmt_d i) \<le> 20" using assms(3) by (intro fmt_d_length) simp_all
  then have "whole_line (key @ '' '' @ fmt_d i)" unfolding e using assms by (intro join_whole p) (simp add: scan_limit_def)
  then show ?thesis using fields_join [OF p] assms unfolding e keyed_uint_def by simp
qed

lemma shard_name_plain: "hex_text p \<Longrightarrow> plain_word (shard_file_name p gen) \<and> length (shard_file_name p gen) \<le> 40 + length p"
proof -
  assume h: "hex_text p"
  have w: "list_all word_char ''inventory/.''" by (simp add: word_char_def byte_def space_rune_def in_range_def)
  have "list_all word_char p" using h hex_plain by (cases "p = []") (auto simp: plain_word_def)
  moreover have "list_all word_char (fmt_d (uint gen))" using fmt_d_plain [of "uint gen"] by (simp add: plain_word_def)
  ultimately have "plain_word (shard_file_name p gen)"
    using w by (simp add: plain_word_def shard_file_name_def inventory_dir_def)
  moreover have "uint gen < 10 ^ 20" using uint_bounded [of gen] by simp
  then have "length (fmt_d (uint gen)) \<le> 20" by (intro fmt_d_length) simp_all
  ultimately show ?thesis by (simp add: shard_file_name_def inventory_dir_def)
qed

lemma ref_line_back:
  assumes "ref_shape s" "hex_prefix (sf_prefix s) n" "2 \<le> n" "n \<le> 4" "1 \<le> sf_entries s" "sf_entries s \<le> int max_shard_lines"
  shows "parse_ref (ref_line s) = Some s \<and> whole_line (ref_line s)"
proof -
  have h: "hex_text (sf_prefix s)" "length (sf_prefix s) \<le> 4" "sf_prefix s \<noteq> []" using assms(2-4) by (auto simp: hex_prefix_def)
  obtain gen where g: "sf_name s = shard_file_name (sf_prefix s) gen" using assms(1) by (auto simp: ref_shape_def)
  note nm = shard_name_plain [OF h(1), of gen]
  have p: "list_all plain_word [sf_prefix s, sf_name s, hex_encode (sf_sha256 s), fmt_d (sf_entries s)]"
    using assms(1,5) h hex_plain nm by (simp add: g ref_shape_def encoded_plain fmt_d_plain)
  have e: "sf_entries s < 10 ^ 7" using assms(6) by (simp add: max_shard_lines_def)
  then have "length (fmt_d (sf_entries s)) \<le> 7" using assms(5) by (intro fmt_d_length) simp_all
  then have "whole_line (ref_line s)"
    unfolding ref_line_words using assms(1) h nm by (intro join_whole p) (simp add: scan_limit_def ref_shape_def g)
  moreover have "parse_ref (ref_line s) = Some s"
    using fields_join [OF p] assms(1,5) e by (simp add: parse_ref_def ref_line_words ref_shape_def)
  ultimately show ?thesis by blast
qed

lemma refs_back:
  "check_refs gen fan prev ss \<Longrightarrow> list_all ref_shape ss \<Longrightarrow> 2 \<le> fan \<Longrightarrow> fan \<le> 4
   \<Longrightarrow> all_some parse_ref (map ref_line ss) = Some ss \<and> (\<forall>l \<in> set (map ref_line ss). whole_line l)"
proof (induction ss arbitrary: prev)
  case (Cons s ss)
  have "parse_ref (ref_line s) = Some s \<and> whole_line (ref_line s)"
    using Cons.prems by (intro ref_line_back) (auto split: option.splits prod.splits)
  then show ?case using Cons by auto
qed simp

lemma top_reads_back:
  assumes "marshal_top t = Inr raw" "top_shape t"
  shows "parse_top raw = Inr t"
proof -
  have c: "check_top t" and raw: "raw = end_lines (top_lines t)" using assms(1) by (auto simp: marshal_top_def split: if_splits)
  have f: "2 \<le> tf_fanout t" "tf_fanout t \<le> 4" "length (tf_shards t) \<le> max_shards" "0 < sd_size (tf_pointer t)"
    using c by (auto simp: check_top_def min_fanout_def max_fanout_def pointer_size_ok_def)
  have w: "plain_word ''gen''" "plain_word ''pointer''" "plain_word ''mirror''" "plain_word ''fanout''" "plain_word inventory_head"
    by (simp_all add: plain_word_def word_char_def byte_def space_rune_def in_range_def inventory_head_def)
  have l0: "keyed_uint (inventory_head @ '' '' @ fmt_d inventory_version) inventory_head = Some 1
      \<and> whole_line (inventory_head @ '' '' @ fmt_d inventory_version)"
    using keyed_uint_back [OF w(5), of 1] by (simp add: inventory_head_def inventory_version_def)
  have f0: "text_fields (inventory_head @ '' '' @ fmt_d inventory_version) = [inventory_head, fmt_d inventory_version]"
    using fields_join [of "[inventory_head, fmt_d inventory_version]"] w(5) by (simp add: fmt_d_plain inventory_version_def)
  have l1: "keyed_uint (''gen '' @ fmt_d (uint (tf_gen t))) ''gen'' = Some (uint (tf_gen t)) \<and> whole_line (''gen '' @ fmt_d (uint (tf_gen t)))"
    using keyed_uint_back [OF w(1), of "uint (tf_gen t)"] uint_bounded [of "tf_gen t"] by simp
  have l2: "keyed_digest (digest_line ''pointer'' (tf_pointer t)) ''pointer'' = Some (tf_pointer t)
      \<and> whole_line (digest_line ''pointer'' (tf_pointer t))"
    using assms(2) f(4) by (intro digest_line_back w) (simp_all add: top_shape_def)
  let ?m = "case tf_mirror t of None \<Rightarrow> ''mirror none'' | Some d \<Rightarrow> digest_line ''mirror'' d"
  have l3: "parse_mirror ?m = Some (tf_mirror t) \<and> whole_line ?m"
  proof (cases "tf_mirror t")
    case None
    then show ?thesis by (simp add: parse_mirror_def whole_line_def scan_limit_def)
  next
    case (Some d)
    have "keyed_digest (digest_line ''mirror'' d) ''mirror'' = Some d \<and> whole_line (digest_line ''mirror'' d)"
      using assms(2) c Some by (intro digest_line_back w) (auto simp: top_shape_def check_top_def pointer_size_ok_def)
    moreover have "digest_line ''mirror'' d \<noteq> ''mirror none''"
    proof
      assume "digest_line ''mirror'' d = ''mirror none''"
      then have "keyed_digest ''mirror none'' ''mirror'' = Some d" using calculation by simp
      moreover have "text_fields ''mirror none'' = [''mirror'', ''none'']"
        using fields_join [of "[''mirror'', ''none'']"] by (simp add: plain_word_def word_char_def byte_def space_rune_def in_range_def)
      ultimately show False by (simp add: keyed_digest_def)
    qed
    ultimately show ?thesis using Some by (simp add: parse_mirror_def)
  qed
  have l4: "keyed_uint (''fanout '' @ fmt_d (tf_fanout t)) ''fanout'' = Some (tf_fanout t) \<and> whole_line (''fanout '' @ fmt_d (tf_fanout t))"
    using keyed_uint_back [OF w(4), of "tf_fanout t"] f by simp
  have fan: "sint (word_of_int (tf_fanout t) :: 64 word) = tf_fanout t"
  proof -
    have "tf_fanout t \<in> {2, 3, 4}" using f by auto
    then show ?thesis by auto
  qed
  have refs: "all_some parse_ref (map ref_line (tf_shards t)) = Some (tf_shards t) \<and> (\<forall>l \<in> set (map ref_line (tf_shards t)). whole_line l)"
    using c assms(2) f by (intro refs_back) (auto simp: check_top_def top_shape_def)
  have "\<forall>l \<in> set (top_lines t). whole_line l" using l0 l1 l2 l3 l4 refs by (simp add: top_lines_def)
  then have "split_lines raw (max_shards + 5) = Inr (top_lines t)"
    unfolding raw using f by (intro split_end_lines) (simp_all add: top_lines_def)
  moreover have "top_of_lines (top_lines t) = Some t"
    using l1 l2 l3 l4 refs fan by (simp add: top_of_lines_def top_lines_def)
  ultimately show ?thesis
    using f0 c assms(1) by (simp add: parse_top_def accept_top_def top_version_def top_lines_def inventory_version_def)
qed

subsection \<open>A shard's lines\<close>

lemma path_plain: "match_file_path p = Some (h, n) \<Longrightarrow> plain_word p \<and> length p \<le> 42"
proof -
  assume m: "match_file_path p = Some (h, n)"
  then obtain t where s: "split_on CHR ''/'' p = [t, h, n]" "t = ''units'' \<or> t = ''chunks''" "length h = 2" "hex_text h"
    "length n = 32" "hex_text n"
    by (auto simp: match_file_path_def split: list.splits if_splits)
  have "p = t @ ''/'' @ h @ ''/'' @ n"
  proof -
    have "q = hd (split_on c q) @ concat (map (\<lambda>x. c # x) (tl (split_on c q)))" for c q
    proof (induction c q rule: split_on.induct)
      case (2 c x xs)
      then show ?case by (cases "split_on c xs") auto
    qed simp
    from this [of p "CHR ''/''"] show ?thesis by (simp add: s(1))
  qed
  moreover have "h \<noteq> []" "n \<noteq> []" using s by auto
  then have "list_all word_char t" "list_all word_char h" "list_all word_char n" "word_char CHR ''/''"
    using s hex_plain [of h] hex_plain [of n] by (auto simp: plain_word_def word_char_def byte_def space_rune_def in_range_def)
  ultimately show ?thesis using s by (auto simp: plain_word_def)
qed

lemma file_line_back:
  assumes "prefix_of (lf_path f) d = Inr p" "digest_shape (lf_digest f)" "0 < sd_size (lf_digest f)"
    "lf_state f = Live \<or> lf_state f = Retained"
  shows "parse_file (file_line f) = Some f \<and> whole_line (file_line f) \<and> length (file_line f) \<le> 136"
proof -
  obtain h n where "match_file_path (lf_path f) = Some (h, n)" using assms(1) by (auto simp: prefix_of_def split: option.splits)
  note pp = path_plain [OF this]
  have st: "plain_word (state_text (lf_state f))" "length (state_text (lf_state f)) \<le> 8"
    using assms(4) by (auto simp: state_text_def plain_word_def word_char_def byte_def space_rune_def in_range_def)
  have w: "list_all plain_word [lf_path f, hex_encode (sd_sha256 (lf_digest f)), fmt_d (sd_size (lf_digest f)), state_text (lf_state f)]"
    using pp st assms by (simp add: digest_shape_def encoded_plain fmt_d_plain)
  have "sd_size (lf_digest f) < 10 ^ 19" using assms(2) by (simp add: digest_shape_def)
  then have "length (fmt_d (sd_size (lf_digest f))) \<le> 19" using assms(3) by (intro fmt_d_length) simp_all
  then have l: "length (file_line f) \<le> 136" using pp st assms(2) by (simp add: file_line_def digest_shape_def)
  then have "whole_line (file_line f)" unfolding file_line_words by (intro join_whole w) (simp add: scan_limit_def)
  moreover have "parse_file (file_line f) = Some f"
    using fields_join [OF w] assms by (auto simp: parse_file_def file_line_words digest_shape_def state_text_def)
  ultimately show ?thesis using l by blast
qed

lemma files_back:
  "check_files p prev fs \<Longrightarrow> list_all (\<lambda>f. digest_shape (lf_digest f)) fs
   \<Longrightarrow> all_some parse_file (map file_line fs) = Some fs \<and> (\<forall>l \<in> set (map file_line fs). whole_line l)
     \<and> length (end_lines (map file_line fs)) \<le> 137 * length fs"
proof (induction fs arbitrary: prev)
  case (Cons f fs)
  have f: "parse_file (file_line f) = Some f \<and> whole_line (file_line f) \<and> length (file_line f) \<le> 136"
    using Cons.prems by (intro file_line_back) auto
  have "check_files p (Some (lf_path f)) fs" "list_all (\<lambda>f. digest_shape (lf_digest f)) fs" using Cons.prems by auto
  from Cons.IH [OF this] f show ?case by (simp add: end_lines_def)
qed (simp add: end_lines_def)

lemma shard_reads_back:
  assumes "marshal_shard s = Inr raw" "shard_shape s"
  shows "parse_shard (is_prefix s) raw = Inr s \<and> length raw \<le> 137 * length (is_files s)"
proof -
  have c: "check_shard s" and raw: "raw = end_lines (map file_line (is_files s))" using assms(1) by (auto simp: marshal_shard_def split: if_splits)
  have cf: "check_files (is_prefix s) None (is_files s)" "length (is_files s) \<le> max_shard_lines" using c by (simp_all add: check_shard_def)
  note f = files_back [OF cf(1) assms(2)[unfolded shard_shape_def]]
  have "split_lines raw max_shard_lines = Inr (map file_line (is_files s))"
    unfolding raw using f cf(2) by (intro split_end_lines) simp_all
  then show ?thesis using f c assms(1) raw by (cases s) (simp add: parse_shard_def accept_shard_def)
qed

definition sample_top :: top_file where
  "sample_top = \<lparr>tf_gen = 7, tf_pointer = \<lparr>sd_sha256 = replicate 32 CHR ''p'', sd_size = 99\<rparr>, tf_mirror = None, tf_fanout = 2,
     tf_shards = [\<lparr>sf_prefix = ''0a'', sf_name = ''inventory/0a.7'', sf_sha256 = replicate 32 CHR ''s'', sf_entries = 1\<rparr>]\<rparr>"

definition sample_shard :: inventory_shard where
  "sample_shard = \<lparr>is_prefix = ''0a'', is_files = [\<lparr>lf_path = ''chunks/0a/0a000000000000000000000000000000'',
     lf_digest = \<lparr>sd_sha256 = replicate 32 CHR ''c'', sd_size = 40\<rparr>, lf_state = Live\<rparr>]\<rparr>"

text \<open>
  The file list reads back, and only in its own form.  A top file or shard that a save writes parses to
  what was listed, and a shard stays within the bound its reader puts on it before the read; whatever a
  reader accepts is byte for byte what a writer would write for it.
\<close>

theorem a_file_list_reads_back:
  shows "(marshal_top t = Inr raw \<and> top_shape t \<longrightarrow> parse_top raw = Inr t)
    \<and> (parse_top raw = Inr t \<longrightarrow> marshal_top t = Inr raw)
    \<and> (marshal_shard s = Inr bytes \<and> shard_shape s \<longrightarrow>
        parse_shard (is_prefix s) bytes = Inr s \<and> length bytes \<le> 160 * length (is_files s))
    \<and> (parse_shard p bytes = Inr s \<longrightarrow> marshal_shard s = Inr bytes \<and> is_prefix s = p)"
proof (intro conjI impI)
  show "parse_top raw = Inr t" if "marshal_top t = Inr raw \<and> top_shape t" using that top_reads_back by blast
  show "marshal_top t = Inr raw" if "parse_top raw = Inr t"
    using that accepted_top by (fastforce simp: parse_top_def split: option.split_asm if_split_asm)
  show "parse_shard (is_prefix s) bytes = Inr s" "length bytes \<le> 160 * length (is_files s)"
    if "marshal_shard s = Inr bytes \<and> shard_shape s"
    using that shard_reads_back [of s bytes] by auto
  show "marshal_shard s = Inr bytes" "is_prefix s = p" if "parse_shard p bytes = Inr s"
    using that accepted_shard by (fastforce simp: parse_shard_def split: option.split_asm)+
qed

lemma sample_top_marshals: "marshal_top sample_top = Inr (end_lines (top_lines sample_top))" "top_shape sample_top"
proof -
  have "match_shard_name ''inventory/0a.7'' = Some (''0a'', ''7'')"
    by (simp add: match_shard_name_def inventory_dir_def hex_text_def hex_alphabet_def in_range_def byte_def)
  then show "marshal_top sample_top = Inr (end_lines (top_lines sample_top))"
    by (simp add: marshal_top_def check_top_def sample_top_def pointer_size_ok_def max_pointer_size_def min_fanout_def max_fanout_def
        max_shards_def hex_prefix_def hex_text_def hex_alphabet_def max_shard_lines_def parse_uint64_def parse_digits_def
        digit_of_def in_range_def byte_def)
  have "char_of (byte CHR ''7'') = CHR ''7''" by (rule char_of_byte)
  then have "''inventory/0a.7'' = shard_file_name ''0a'' 7"
    by (simp add: shard_file_name_def inventory_dir_def fmt_d_def nat_digits.simps byte_def)
  then have "\<exists>gen. ''inventory/0a.7'' = shard_file_name ''0a'' gen" by blast
  then show "top_shape sample_top" by (simp add: top_shape_def sample_top_def digest_shape_def ref_shape_def)
qed

lemma sample_shard_marshals:
  "marshal_shard sample_shard = Inr (end_lines (map file_line (is_files sample_shard)))" "shard_shape sample_shard"
proof -
  have "match_file_path ''chunks/0a/0a000000000000000000000000000000'' = Some (''0a'', ''0a000000000000000000000000000000'')"
    by (simp add: match_file_path_def hex_text_def hex_alphabet_def)
  then show "marshal_shard sample_shard = Inr (end_lines (map file_line (is_files sample_shard)))"
    by (simp add: marshal_shard_def check_shard_def sample_shard_def min_fanout_def max_fanout_def hex_prefix_def hex_text_def
        hex_alphabet_def max_shard_lines_def prefix_of_def)
  show "shard_shape sample_shard" by (simp add: shard_shape_def sample_shard_def digest_shape_def)
qed

theorem a_file_list_reads_back_witness:
  "parse_top (end_lines (top_lines sample_top)) = Inr sample_top
   \<and> parse_shard ''0a'' (end_lines (map file_line (is_files sample_shard))) = Inr sample_shard"
proof -
  have "is_prefix sample_shard = ''0a''" by (simp add: sample_shard_def)
  then show ?thesis
    using a_file_list_reads_back [of sample_top "end_lines (top_lines sample_top)" sample_shard
        "end_lines (map file_line (is_files sample_shard))"] sample_top_marshals sample_shard_marshals by simp
qed

end
