(* ===== verification/SealedSections.thy ===== *)
theory SealedSections
  imports Load RecordPointer
begin

text \<open>
  The sections of a sealed record (\<^verbatim>\<open>internal/container/record.go\<close>): the header, the capture gaps and the
  record buckets, how a record's last-seen time is kept as a marker, and the strict reading back.  The JSON
  forms are a parameter, a \<open>section_codec\<close>.
\<close>

subsection \<open>What a section holds\<close>

definition pos_header :: nat where "pos_header = 0"
definition pos_gaps :: nat where "pos_gaps = 1"
definition pos_first :: nat where "pos_first = 2"
definition bucket_target :: nat where "bucket_target = 262144"

record history_gap =
  hg_from :: "64 word"
  hg_to :: "64 word"

record sealed_header =
  sh_version :: int
  sh_stores :: "(string, string) gomap"
  sh_collapsed :: "(string, bool) gomap"
  sh_seen_at :: "(string, gotime) gomap"
  sh_index_behind :: "64 word option"
  sh_index_rows :: int
  sh_history_gap :: "history_gap option"
  sh_run_details :: string
  sh_pause_note :: string
  sh_note_digest :: string
  sh_program :: string

definition zero_header :: sealed_header where
  "zero_header = \<lparr>sh_version = 0, sh_stores = [], sh_collapsed = [], sh_seen_at = [], sh_index_behind = None,
     sh_index_rows = 0, sh_history_gap = None, sh_run_details = [], sh_pause_note = [], sh_note_digest = [], sh_program = []\<rparr>"

definition seen_latest :: string where "seen_latest = ''latest''"

record sealed_record =
  sr_record :: mrec
  sr_seen :: string

record section_codec =
  sj_header :: "sealed_header \<Rightarrow> string option"
  sj_gaps :: "(string, capture_gap) gomap \<Rightarrow> string option"
  sj_bucket :: "(string, sealed_record) gomap \<Rightarrow> string option"
  sj_probe :: "string \<Rightarrow> int option"
  sj_read_header :: "string \<Rightarrow> sealed_header option"
  sj_read_gaps :: "string \<Rightarrow> (string, capture_gap) gomap option"
  sj_read_bucket :: "string \<Rightarrow> (string, sealed_record) gomap option"

subsection \<open>The last-seen marker\<close>

definition token_of :: "string \<Rightarrow> string" where
  "token_of key = upto_byte nul key"

definition seal_seen :: "string \<Rightarrow> mrec \<Rightarrow> (string, gotime) gomap \<Rightarrow> gotime \<Rightarrow> sealed_record" where
  "seal_seen key r seen_at run_stamp =
     (let plain = \<lparr>sr_record = r, sr_seen = []\<rparr>
      in if r_last_seen r = zero_time then plain
         else case mget seen_at (token_of key) of
           None \<Rightarrow> plain
         | Some at \<Rightarrow>
             if at \<noteq> zero_time \<and> (r_last_seen r = at \<or> run_stamp \<noteq> zero_time \<and> r_last_seen r = run_stamp)
             then \<lparr>sr_record = r\<lparr>r_last_seen := zero_time\<rparr>, sr_seen = seen_latest\<rparr> else plain)"

definition open_seen :: "string \<Rightarrow> sealed_record \<Rightarrow> (string, gotime) gomap \<Rightarrow> container_error + mrec" where
  "open_seen key s seen_at =
     (let r = sr_record s
      in if sr_seen s = [] then Inr r
         else if sr_seen s = seen_latest
         then case mget seen_at (token_of key) of
             None \<Rightarrow> Inl Record_damaged
           | Some at \<Rightarrow> if at = zero_time then Inl Record_damaged
               else Inr (r\<lparr>r_last_seen := (if at < r_first_seen r then r_first_seen r else at)\<rparr>)
         else Inl Record_damaged)"

text \<open>What a record's last-seen time is once it has been sealed and opened again.\<close>

definition settled_seen :: "string \<Rightarrow> (string, gotime) gomap \<Rightarrow> gotime \<Rightarrow> mrec \<Rightarrow> mrec" where
  "settled_seen key seen_at run_stamp r = (case mget seen_at (token_of key) of
     Some at \<Rightarrow> if r_last_seen r \<noteq> zero_time \<and> at \<noteq> zero_time \<and> (r_last_seen r = at \<or> run_stamp \<noteq> zero_time \<and> r_last_seen r = run_stamp)
       then r\<lparr>r_last_seen := max at (r_first_seen r)\<rparr> else r
   | None \<Rightarrow> r)"

lemma open_seal_seen: "open_seen key (seal_seen key r seen_at stamp) seen_at = Inr (settled_seen key seen_at stamp r)"
proof (cases "mget seen_at (token_of key)")
  case None
  then show ?thesis by (simp add: open_seen_def seal_seen_def settled_seen_def Let_def)
next
  case (Some at)
  show ?thesis
  proof (cases "r_last_seen r \<noteq> zero_time \<and> at \<noteq> zero_time \<and> (r_last_seen r = at \<or> stamp \<noteq> zero_time \<and> r_last_seen r = stamp)")
    case True
    then have "seal_seen key r seen_at stamp = \<lparr>sr_record = r\<lparr>r_last_seen := zero_time\<rparr>, sr_seen = seen_latest\<rparr>"
      using Some by (simp add: seal_seen_def Let_def)
    then show ?thesis using True Some by (simp add: open_seen_def settled_seen_def seen_latest_def Let_def max_def)
  next
    case False
    then have "seal_seen key r seen_at stamp = \<lparr>sr_record = r, sr_seen = []\<rparr>" using Some by (simp add: seal_seen_def Let_def) blast
    then show ?thesis using False Some by (simp add: open_seen_def settled_seen_def Let_def) blast
  qed
qed

subsection \<open>Writing\<close>

fun tag_buckets ::
  "vault_key option \<Rightarrow> 32 word \<Rightarrow> (string, gotime) gomap \<Rightarrow> gotime \<Rightarrow> (string, mrec) gomap
     \<Rightarrow> container_error + (32 word \<times> string \<times> sealed_record) list" where
  "tag_buckets k n seen_at stamp [] = Inr []"
| "tag_buckets k n seen_at stamp ((key, r) # es) = on_ok (vault_step (bucket k key n)) (\<lambda>b.
     on_ok (tag_buckets k n seen_at stamp es) (\<lambda>tagged. Inr ((b, key, seal_seen key r seen_at stamp) # tagged)))"

definition in_bucket :: "nat \<Rightarrow> (32 word \<times> string \<times> sealed_record) list \<Rightarrow> (string, sealed_record) gomap" where
  "in_bucket i tagged = map snd (filter (\<lambda>(b, _). unat b = i) tagged)"

fun marshal_all :: "('a \<Rightarrow> string option) \<Rightarrow> 'a list \<Rightarrow> container_error + string list" where
  "marshal_all f [] = Inr []"
| "marshal_all f (x # xs) = (case f x of
     None \<Rightarrow> Inl Not_marshalled
   | Some s \<Rightarrow> on_ok (marshal_all f xs) (\<lambda>ss. Inr (s # ss)))"

definition encode_buckets ::
  "section_codec \<Rightarrow> vault_key option \<Rightarrow> 32 word \<Rightarrow> (string, gotime) gomap \<Rightarrow> gotime \<Rightarrow> (string, mrec) gomap
     \<Rightarrow> container_error + string list" where
  "encode_buckets J k n seen_at stamp entries = on_ok (tag_buckets k n seen_at stamp entries) (\<lambda>tagged.
     marshal_all (sj_bucket J) (map (\<lambda>i. in_bucket i tagged) [0..<unat n]))"

text \<open>
  The loop over the bucket count.  A count below the least is raised to it; the loop asks that again at each
  turn, where it no longer changes anything.
\<close>

lemma unat_double:
  fixes n :: "32 word"
  assumes "\<not> max_buckets \<le> n"
  shows "unat (n * 2) = 2 * unat n"
proof -
  have "unat n < 2 ^ 24" using assms by (simp add: max_buckets_def word_le_nat_alt)
  then have "unat n * unat (2 :: 32 word) < 2 ^ LENGTH(32)" by simp
  then show ?thesis by (subst unat_mult_lem [THEN iffD1]) simp_all
qed

function bucket_loop ::
  "section_codec \<Rightarrow> vault_key option \<Rightarrow> 32 word \<Rightarrow> (string, gotime) gomap \<Rightarrow> gotime \<Rightarrow> (string, mrec) gomap
     \<Rightarrow> container_error + string list \<times> 32 word" where
  "bucket_loop J k n seen_at stamp entries =
     (let n = (if n < min_buckets then min_buckets else n)
      in case encode_buckets J k n seen_at stamp entries of
        Inl e \<Rightarrow> Inl e
      | Inr out \<Rightarrow> if sum_list (map length out) \<le> bucket_target * unat n \<or> max_buckets \<le> n then Inr (out, n)
          else bucket_loop J k (n * 2) seen_at stamp entries)"
  by pat_completeness auto
termination
proof (relation "measure (\<lambda>(J, k, n, seen_at, stamp, entries). 2 ^ 24 - unat n)", rule wf_measure, goal_cases)
  case (1 J k n seen_at stamp entries m out)
  then have m: "\<not> max_buckets \<le> m" "n \<le> m" "min_buckets \<le> m" by (auto split: if_splits)
  then have "unat n \<le> unat m" "unat m < 2 ^ 24" "0 < unat m"
    by (simp_all add: max_buckets_def min_buckets_def word_le_nat_alt)
  then show ?case using unat_double [OF m(1)] by simp
qed

declare bucket_loop.simps [simp del]

definition full_header :: "view \<Rightarrow> sealed_header \<Rightarrow> sealed_header" where
  "full_header v h = h\<lparr>sh_version := v_version v, sh_stores := v_stores v, sh_collapsed := v_collapsed_tokens v\<rparr>"

definition encode_sections ::
  "section_codec \<Rightarrow> vault_key option \<Rightarrow> view \<Rightarrow> sealed_header \<Rightarrow> 32 word \<Rightarrow> gotime \<Rightarrow> container_error + string list \<times> 32 word" where
  "encode_sections J k v h n stamp = (case sj_header J (full_header v h) of
     None \<Rightarrow> Inl Not_marshalled
   | Some head \<Rightarrow> (case sj_gaps J (v_capture_gaps v) of
       None \<Rightarrow> Inl Not_marshalled
     | Some gaps \<Rightarrow> on_ok (bucket_loop J k n (sh_seen_at h) stamp (v_entries v)) (\<lambda>(out, n). Inr (head # gaps # out, n))))"

subsection \<open>Reading\<close>

fun open_bucket ::
  "vault_key option \<Rightarrow> 32 word \<Rightarrow> nat \<Rightarrow> (string, gotime) gomap \<Rightarrow> (string, sealed_record) gomap \<Rightarrow> (string, mrec) gomap
     \<Rightarrow> container_error + (string, mrec) gomap" where
  "open_bucket k n i seen_at [] entries = Inr entries"
| "open_bucket k n i seen_at ((key, s) # b) entries = (case bucket k key n of
     Inl _ \<Rightarrow> Inl Record_damaged
   | Inr want \<Rightarrow>
       if unat want \<noteq> i then Inl Record_damaged
       else if mhas entries key then Inl Record_damaged
       else on_ok (open_seen key s seen_at) (\<lambda>r. open_bucket k n i seen_at b (mput key r entries)))"

fun open_buckets ::
  "section_codec \<Rightarrow> vault_key option \<Rightarrow> 32 word \<Rightarrow> nat \<Rightarrow> (string, gotime) gomap \<Rightarrow> string list \<Rightarrow> (string, mrec) gomap
     \<Rightarrow> container_error + (string, mrec) gomap" where
  "open_buckets J k n i seen_at [] entries = Inr entries"
| "open_buckets J k n i seen_at (raw # raws) entries = (case sj_read_bucket J raw of
     None \<Rightarrow> Inl Record_damaged
   | Some b \<Rightarrow> on_ok (open_bucket k n i seen_at b entries) (open_buckets J k n (Suc i) seen_at raws))"

definition decode_sections ::
  "section_codec \<Rightarrow> vault_key option \<Rightarrow> string list \<Rightarrow> 32 word \<Rightarrow> container_error + view \<times> sealed_header" where
  "decode_sections J k sections n =
     (if length sections \<noteq> pos_first + unat n then Inl Record_damaged
      else if (case sj_probe J (sections ! pos_header) of None \<Rightarrow> False | Some v \<Rightarrow> manifest_version < v) then Inl Newer_container
      else case sj_read_header J (sections ! pos_header) of
        None \<Rightarrow> Inl Record_damaged
      | Some h \<Rightarrow> (case sj_read_gaps J (sections ! pos_gaps) of
          None \<Rightarrow> Inl Record_damaged
        | Some gaps \<Rightarrow> on_ok (open_buckets J k n 0 (sh_seen_at h) (drop pos_first sections) []) (\<lambda>entries.
            Inr (\<lparr>v_version = sh_version h, v_entries = entries, v_stores = sh_stores h, v_capture_gaps = gaps,
                  v_collapsed_tokens = sh_collapsed h\<rparr>, h))))"

subsection \<open>What was sealed reads back\<close>

text \<open>What JSON promises: a map of distinct keys reads back as the same map, in some order.\<close>

definition same_map :: "('k, 'v) gomap \<Rightarrow> ('k, 'v) gomap \<Rightarrow> bool" where
  "same_map a b \<longleftrightarrow> mok b \<and> (\<forall>k. mget b k = mget a k)"

definition same_header :: "sealed_header \<Rightarrow> sealed_header \<Rightarrow> bool" where
  "same_header a b \<longleftrightarrow> same_map (sh_stores a) (sh_stores b) \<and> same_map (sh_collapsed a) (sh_collapsed b)
     \<and> same_map (sh_seen_at a) (sh_seen_at b)
     \<and> b\<lparr>sh_stores := sh_stores a, sh_collapsed := sh_collapsed a, sh_seen_at := sh_seen_at a\<rparr> = a"

definition good_section_codec :: "section_codec \<Rightarrow> bool" where
  "good_section_codec J \<longleftrightarrow>
     (\<forall>h s. mok (sh_stores h) \<and> mok (sh_collapsed h) \<and> mok (sh_seen_at h) \<and> sj_header J h = Some s
        \<longrightarrow> sj_probe J s = Some (sh_version h) \<and> (\<exists>h'. sj_read_header J s = Some h' \<and> same_header h h'))
   \<and> (\<forall>g s. mok g \<and> sj_gaps J g = Some s \<longrightarrow> (\<exists>g'. sj_read_gaps J s = Some g' \<and> same_map g g'))
   \<and> (\<forall>b s. mok b \<and> sj_bucket J b = Some s \<longrightarrow> (\<exists>b'. sj_read_bucket J s = Some b' \<and> same_map b b'))"

lemma open_bucket_back:
  assumes "\<forall>(key, s) \<in> set b. \<exists>r. bucket k key n = Inr (want key) \<and> unat (want key) = i \<and> open_seen key s seen_at = Inr r"
    and "mok b" and "mok entries" and "\<forall>key \<in> fst ` set b. mget entries key = None"
  shows "\<exists>entries'. open_bucket k n i seen_at b entries = Inr entries' \<and> mok entries'
    \<and> (\<forall>key. mget entries' key = (case mget b key of Some s \<Rightarrow> (case open_seen key s seen_at of Inr r \<Rightarrow> Some r | Inl _ \<Rightarrow> None)
         | None \<Rightarrow> mget entries key))"
  using assms
proof (induction b arbitrary: entries)
  case Nil
  then show ?case by simp
next
  case (Cons x b)
  obtain key s where x: "x = (key, s)" by fastforce
  obtain r where r: "bucket k key n = Inr (want key)" "unat (want key) = i" "open_seen key s seen_at = Inr r"
    using Cons.prems(1) x by auto
  have a: "mget entries key = None" "key \<notin> fst ` set b" using Cons.prems(2,4) x by auto
  have "\<exists>entries'. open_bucket k n i seen_at b (mput key r entries) = Inr entries' \<and> mok entries'
    \<and> (\<forall>key'. mget entries' key' = (case mget b key' of Some s \<Rightarrow> (case open_seen key' s seen_at of Inr r \<Rightarrow> Some r | Inl _ \<Rightarrow> None)
         | None \<Rightarrow> mget (mput key r entries) key'))"
    using Cons.prems a by (intro Cons.IH) (auto simp: x)
  then obtain entries' where e: "open_bucket k n i seen_at b (mput key r entries) = Inr entries'" "mok entries'"
    "\<And>key'. mget entries' key' = (case mget b key' of Some s \<Rightarrow> (case open_seen key' s seen_at of Inr r \<Rightarrow> Some r | Inl _ \<Rightarrow> None)
         | None \<Rightarrow> mget (mput key r entries) key')" by blast
  have "mget b key = None" using a(2) by (simp add: map_of_eq_None_iff)
  then show ?case using e r a(1) by (auto simp: x mhas_def split: option.splits)
qed

definition bucket_of :: "vault_key option \<Rightarrow> 32 word \<Rightarrow> string \<Rightarrow> 32 word" where
  "bucket_of k n key = (case bucket k key n of Inr b \<Rightarrow> b | Inl _ \<Rightarrow> 0)"

lemma tagged_all:
  "tag_buckets k n seen_at stamp entries = Inr tagged
   \<Longrightarrow> tagged = map (\<lambda>(key, r). (bucket_of k n key, key, seal_seen key r seen_at stamp)) entries
     \<and> (\<forall>key \<in> fst ` set entries. bucket k key n = Inr (bucket_of k n key))"
proof (induction entries arbitrary: tagged)
  case (Cons e entries)
  obtain key r where e: "e = (key, r)" by fastforce
  obtain b rest where b: "bucket k key n = Inr b" "tag_buckets k n seen_at stamp entries = Inr rest"
    "tagged = (b, key, seal_seen key r seen_at stamp) # rest"
    using Cons.prems by (auto simp: e vault_step_def split: sum.splits)
  have "bucket_of k n key = b" by (simp add: bucket_of_def b(1))
  then show ?case using Cons.IH [OF b(2)] b by (simp add: e)
qed simp

lemma map_of_tagged:
  "mok entries \<Longrightarrow> mget (in_bucket i (map (\<lambda>(key, r). (bucket_of k n key, key, seal_seen key r seen_at stamp)) entries)) key
     = (if unat (bucket_of k n key) = i then map_option (\<lambda>r. seal_seen key r seen_at stamp) (mget entries key) else None)"
  by (induction entries) (auto simp: in_bucket_def)

lemma mok_in_bucket:
  "mok entries \<Longrightarrow> mok (in_bucket i (map (\<lambda>(key, r). (bucket_of k n key, key, seal_seen key r seen_at stamp)) entries))"
proof (induction entries)
  case (Cons e entries)
  have "fst ` set (in_bucket i (map (\<lambda>(key, r). (bucket_of k n key, key, seal_seen key r seen_at stamp)) entries)) \<subseteq> fst ` set entries"
    by (force simp: in_bucket_def)
  with Cons show ?case by (cases e) (auto simp: in_bucket_def)
qed (simp add: in_bucket_def)

lemma same_map_seen: "same_map a b \<Longrightarrow> open_seen key s b = open_seen key s a"
  by (simp only: same_map_def open_seen_def)

lemma open_buckets_back:
  assumes J: "good_section_codec J" and e: "mok entries" and s: "same_map seen_at seen_at'"
    and k: "\<forall>key \<in> fst ` set entries. bucket k key n = Inr (bucket_of k n key)"
  shows "marshal_all (sj_bucket J) (map (\<lambda>i. in_bucket i (map (\<lambda>(key, r). (bucket_of k n key, key, seal_seen key r seen_at stamp)) entries)) [i..<m]) = Inr raws
    \<Longrightarrow> mok acc \<Longrightarrow> (\<forall>key \<in> fst ` set entries. i \<le> unat (bucket_of k n key) \<longrightarrow> mget acc key = None)
    \<Longrightarrow> \<exists>out. open_buckets J k n i seen_at' raws acc = Inr out \<and> mok out
      \<and> (\<forall>key. mget out key = (case mget entries key of
           Some r \<Rightarrow> if i \<le> unat (bucket_of k n key) \<and> unat (bucket_of k n key) < m then Some (settled_seen key seen_at stamp r) else mget acc key
         | None \<Rightarrow> mget acc key))"
proof (induction "m - i" arbitrary: i raws acc)
  case 0
  then show ?case by (auto split: option.splits)
next
  case (Suc d)
  let ?t = "map (\<lambda>(key, r). (bucket_of k n key, key, seal_seen key r seen_at stamp)) entries"
  have im: "i < m" "[i..<m] = i # [Suc i..<m]" "d = m - Suc i" using Suc.hyps(2) by (simp_all add: upt_conv_Cons)
  obtain raw rest where raws: "raws = raw # rest" "sj_bucket J (in_bucket i ?t) = Some raw"
    "marshal_all (sj_bucket J) (map (\<lambda>i. in_bucket i ?t) [Suc i..<m]) = Inr rest"
    using Suc.prems(1) unfolding im(2) by (auto split: option.splits)
  obtain b where b: "sj_read_bucket J raw = Some b" "same_map (in_bucket i ?t) b"
    using J [unfolded good_section_codec_def, THEN conjunct2, THEN conjunct2, rule_format, OF conjI, OF mok_in_bucket [OF e] raws(2)]
    by blast
  have bget: "mget b key = (if unat (bucket_of k n key) = i then map_option (\<lambda>r. seal_seen key r seen_at stamp) (mget entries key) else None)" for key
    using b(2) by (simp add: same_map_def map_of_tagged [OF e])
  have bm: "mok b" using b(2) by (simp add: same_map_def)
  have one: "\<exists>r. bucket k key n = Inr (bucket_of k n key) \<and> unat (bucket_of k n key) = i \<and> open_seen key x seen_at' = Inr r"
    if "(key, x) \<in> set b" for key x
  proof -
    have g: "mget b key = Some x" using that bm by (simp add: in_mget)
    then obtain r where "mget entries key = Some r" "x = seal_seen key r seen_at stamp" "unat (bucket_of k n key) = i"
      using bget [of key] by (auto split: if_splits)
    then show ?thesis using k open_seal_seen same_map_seen [OF s] mget_in by (metis fst_conv image_eqI)
  qed
  have fresh: "\<forall>key \<in> fst ` set b. mget acc key = None"
  proof
    fix key
    assume "key \<in> fst ` set b"
    then obtain x where "mget b key = Some x" using bm by (auto simp: in_mget)
    then obtain r where "mget entries key = Some r" "unat (bucket_of k n key) = i" using bget [of key] by (auto split: if_splits)
    then have "key \<in> fst ` set entries" "unat (bucket_of k n key) = i" using mget_in by (force, simp)
    then show "mget acc key = None" using Suc.prems(3) by (metis order_refl)
  qed
  obtain acc' where a: "open_bucket k n i seen_at' b acc = Inr acc'" "mok acc'"
    "\<And>key. mget acc' key = (case mget b key of Some x \<Rightarrow> (case open_seen key x seen_at' of Inr r \<Rightarrow> Some r | Inl _ \<Rightarrow> None)
         | None \<Rightarrow> mget acc key)"
    using open_bucket_back [OF _ bm Suc.prems(2) fresh, of k n "bucket_of k n" i seen_at'] one by auto
  have aget: "mget acc' key = (if unat (bucket_of k n key) = i \<and> mget entries key \<noteq> None
      then map_option (settled_seen key seen_at stamp) (mget entries key) else mget acc key)" for key
    unfolding a(3) bget same_map_seen [OF s] by (cases "mget entries key") (simp_all add: open_seal_seen)
  have later: "\<forall>key \<in> fst ` set entries. Suc i \<le> unat (bucket_of k n key) \<longrightarrow> mget acc' key = None"
    using Suc.prems(3) by (simp add: aget)
  obtain out where o: "open_buckets J k n (Suc i) seen_at' rest acc' = Inr out" "mok out"
    "\<And>key. mget out key = (case mget entries key of
           Some r \<Rightarrow> if Suc i \<le> unat (bucket_of k n key) \<and> unat (bucket_of k n key) < m then Some (settled_seen key seen_at stamp r) else mget acc' key
         | None \<Rightarrow> mget acc' key)"
    using Suc.hyps(1) [OF im(3) raws(3) a(2) later] by blast
  have "mget out key = (case mget entries key of
           Some r \<Rightarrow> if i \<le> unat (bucket_of k n key) \<and> unat (bucket_of k n key) < m then Some (settled_seen key seen_at stamp r) else mget acc key
         | None \<Rightarrow> mget acc key)" for key
    unfolding o(3) aget using im(1) by (cases "mget entries key") auto
  then show ?case using o(1,2) a(1) b(1) by (auto simp: raws(1))
qed

lemma bucket_below:
  assumes "bucket k key n = Inr b"
  shows "b < n"
proof -
  have "\<not> n < min_buckets \<and> (\<exists>x. b = word_of_nat (x mod unat n))"
    using assms by (auto simp: bucket_def with_key_def split: if_splits option.splits)
  then obtain x where n: "\<not> n < min_buckets" and b: "b = word_of_nat (x mod unat n)" by blast
  have "0 < unat n" using n by (simp add: min_buckets_def word_less_nat_alt)
  then have "x mod unat n < unat n" by simp
  moreover have "unat n < 2 ^ 32" using unsigned_less [of n, where 'a = nat] by simp
  ultimately show ?thesis unfolding b by (simp add: word_less_nat_alt unat_of_nat)
qed

lemma marshal_all_length: "marshal_all f xs = Inr ss \<Longrightarrow> length ss = length xs"
  by (induction xs arbitrary: ss) (auto split: option.splits)

lemma bucket_loop_result:
  "bucket_loop J k n seen_at stamp entries = Inr (out, n') \<Longrightarrow> encode_buckets J k n' seen_at stamp entries = Inr out
     \<and> min_buckets \<le> n' \<and> length out = unat n'"
proof (induction J k n seen_at stamp entries rule: bucket_loop.induct)
  case (1 J k n seen_at stamp entries)
  let ?n = "if n < min_buckets then min_buckets else n"
  obtain o1 where e: "encode_buckets J k ?n seen_at stamp entries = Inr o1"
    using "1.prems" by (subst (asm) bucket_loop.simps) (auto simp: Let_def split: sum.splits)
  show ?case
  proof (cases "sum_list (map length o1) \<le> bucket_target * unat ?n \<or> max_buckets \<le> ?n")
    case True
    then have "out = o1" "n' = ?n" using "1.prems" e by (subst (asm) bucket_loop.simps; simp add: Let_def)+
    then show ?thesis using e by (auto simp: encode_buckets_def marshal_all_length not_less)
  next
    case False
    have "bucket_loop J k (?n * 2) seen_at stamp entries = Inr (out, n')"
      using "1.prems" e False by (subst (asm) bucket_loop.simps) (simp add: Let_def)
    then show ?thesis using "1.IH" [OF refl e False] by blast
  qed
qed


text \<open>A codec that knows one header, no gaps and two buckets, for the witness.\<close>

definition sample_view :: view where
  "sample_view = \<lparr>v_version = 6, v_entries = [(''k'', zero_rec\<lparr>r_last_seen := 5\<rparr>)], v_stores = [], v_capture_gaps = [],
     v_collapsed_tokens = []\<rparr>"

definition sample_header :: sealed_header where
  "sample_header = zero_header\<lparr>sh_seen_at := [(''k'', 9)]\<rparr>"

definition sample_sealed :: "(string, sealed_record) gomap" where
  "sample_sealed = [(''k'', seal_seen ''k'' (zero_rec\<lparr>r_last_seen := 5\<rparr>) [(''k'', 9)] 5)]"

definition sample_sections :: section_codec where
  "sample_sections = \<lparr>sj_header = (\<lambda>h. if h = full_header sample_view sample_header then Some ''h'' else None),
     sj_gaps = (\<lambda>g. if g = [] then Some ''g'' else None),
     sj_bucket = (\<lambda>b. if b = [] then Some ''e'' else if b = sample_sealed then Some ''b'' else None),
     sj_probe = (\<lambda>_. Some 6), sj_read_header = (\<lambda>_. Some (full_header sample_view sample_header)), sj_read_gaps = (\<lambda>_. Some []),
     sj_read_bucket = (\<lambda>s. Some (if s = ''e'' then [] else sample_sealed))\<rparr>"

lemma sample_sections_good: "good_section_codec sample_sections"
proof -
  have "mok sample_sealed" by (simp add: sample_sealed_def)
  then show ?thesis
    by (auto simp: good_section_codec_def sample_sections_def same_map_def same_header_def full_header_def sample_view_def
        sample_header_def zero_header_def)
qed

lemma sample_marshals:
  "\<exists>out. marshal_all (sj_bucket sample_sections) (map (\<lambda>i. in_bucket i [(b, ''k'', snd (hd sample_sealed))]) is) = Inr out
     \<and> sum_list (map length out) = length is"
proof (induction "is")
  case (Cons i js)
  moreover have "in_bucket i [(b, ''k'', snd (hd sample_sealed))] \<in> {[], sample_sealed}"
    by (simp add: in_bucket_def sample_sealed_def)
  ultimately show ?case by (auto simp: sample_sections_def)
qed simp


end
