(* ===== verification/RecordStore.thy ===== *)
theory RecordStore
  imports SealedSections Inventory
begin

text \<open>
  Reading the sealed record of an encrypted archive (\<^verbatim>\<open>internal/container/files.go\<close> and \<^verbatim>\<open>store.go\<close>): the files
  of the record as a disk shows them, the two pointers, the envelope, the file list and the sections, the
  rules that refuse an older or unfinished record, and the sweep of files nothing names.  The cipher, the
  JSON codecs and the lister of unit files are parameters of a \<open>record_world\<close>.
\<close>

subsection \<open>The files\<close>

text \<open>A file by its archive-relative path: its bytes and time, something planted there, or one that cannot be read.\<close>

datatype record_file = Plain_file string gotime | Planted | Unreadable

text \<open>\<open>rd_planted\<close> are the paths where something other than a folder stands in a folder's place.\<close>

record record_disk =
  rd_files :: "(string, record_file) gomap"
  rd_planted :: "string list"

definition folders_of :: "string \<Rightarrow> string list" where
  "folders_of rel = (case butlast (split_on CHR ''/'' rel) of
     [] \<Rightarrow> [] | [a] \<Rightarrow> [a] | a # b # _ \<Rightarrow> [a, a @ ''/'' @ b])"

definition folders_real :: "record_disk \<Rightarrow> string \<Rightarrow> bool" where
  "folders_real D rel \<longleftrightarrow> list_all (\<lambda>d. d \<notin> set (rd_planted D)) (folders_of rel)"

definition read_record_file :: "record_disk \<Rightarrow> string \<Rightarrow> nat \<Rightarrow> container_error + string \<times> gotime" where
  "read_record_file D rel most =
     (if \<not> folders_real D rel then Inl Store_planted
      else case mget (rd_files D) rel of
        None \<Rightarrow> Inl File_missing
      | Some Planted \<Rightarrow> Inl Store_planted
      | Some Unreadable \<Rightarrow> Inl Os_fault
      | Some (Plain_file data mtime) \<Rightarrow> if most < length data then Inl Over_bound else Inr (data, mtime))"

definition read_chunk :: "record_disk \<Rightarrow> chunk_entry \<Rightarrow> container_error + string" where
  "read_chunk D e = (case read_record_file D (chunk_path (ce_name e)) (unat (ce_size e)) of
     Inl err \<Rightarrow> Inl err
   | Inr (data, _) \<Rightarrow> if length data \<noteq> unat (ce_size e) \<or> sha256 data \<noteq> ce_sha256 e then Inl Store_planted else Inr data)"

definition file_exists :: "record_disk \<Rightarrow> string \<Rightarrow> bool" where
  "file_exists D rel \<longleftrightarrow> mget (rd_files D) rel \<noteq> None"

subsection \<open>The store\<close>

datatype record_notice = Pointer_copy_damaged | List_unreadable | List_of_another_copy | List_part_damaged | Chunk_copy_damaged
  | Chunk_copy_missing | Restored_to_older_copy | Envelope_damaged | Envelope_unwritten | History_not_kept | Index_misses
  | Index_whole_again | Mirror_unwritten

record index_capture =
  ic_read :: "nat \<Rightarrow> nat \<Rightarrow> string option"
  ic_size :: nat
  ic_version :: "64 word"
  ic_rows :: int

datatype index_source = Source_fails | Source_unchanged | Source_gives index_capture

record record_store =
  rs_ptr :: root_pointer
  rs_attempted :: "64 word"
  rs_sections :: "(32 word, string) gomap"
  rs_reseal :: "32 word list"
  rs_hdr :: sealed_header
  rs_inv :: "top_file option"
  rs_shards :: "(string, string) gomap option"
  rs_sweep_ok :: bool
  rs_inv_live :: "string list"
  rs_inv_retained :: "string list"
  rs_retained :: "(string, sealed_digest) gomap"
  rs_prev_live :: "(string, sealed_digest) gomap"
  rs_commits :: int
  rs_fixed_time :: gotime
  rs_run_stamp :: gotime
  rs_walk_done :: "(string, gotime) gomap"
  rs_fresh :: bool
  rs_env_heal :: bool
  rs_inv_tolerated :: bool
  rs_index_source :: "index_source option"
  rs_index_digests :: "string list"
  rs_quiet_behind :: bool
  rs_sealed_calls :: nat
  rs_timeline :: "hist_event list option"
  rs_timeline_closed :: bool
  rs_hist_tail :: string
  rs_hist_header :: "hist_event option"
  rs_tail_loaded :: bool
  rs_tail_bad :: bool
  rs_gap_staging :: bool
  rs_hist_loss :: "history_gap option"
  rs_notices :: "record_notice list"

definition new_store :: record_store where
  "new_store = \<lparr>rs_ptr = zero_pointer, rs_attempted = 0, rs_sections = [], rs_reseal = [], rs_hdr = zero_header, rs_inv = None,
     rs_shards = None, rs_sweep_ok = False, rs_inv_live = [], rs_inv_retained = [], rs_retained = [], rs_prev_live = [],
     rs_commits = 0, rs_fixed_time = zero_time, rs_run_stamp = zero_time, rs_walk_done = [], rs_fresh = False,
     rs_env_heal = False, rs_inv_tolerated = False, rs_index_source = None, rs_index_digests = [], rs_quiet_behind = False,
     rs_sealed_calls = 0, rs_timeline = None, rs_timeline_closed = False, rs_hist_tail = [], rs_hist_header = None,
     rs_tail_loaded = False, rs_tail_bad = False, rs_gap_staging = False, rs_hist_loss = None, rs_notices = []\<rparr>"

definition notice :: "record_notice \<Rightarrow> record_store \<Rightarrow> record_store" where
  "notice n s = s\<lparr>rs_notices := rs_notices s @ [n]\<rparr>"

text \<open>The envelope's JSON: the lenient probe (version, whether entries are there), the strict fields, and the writing.\<close>

record manifest_envelope =
  en_version :: int
  en_encrypted :: bool
  en_archive_id :: string
  en_pointer :: string

record record_world =
  rw_cipher :: cipher
  rw_head :: head_codec
  rw_codec :: section_codec
  rw_probe :: "string \<Rightarrow> (int \<times> bool) option"
  rw_read_envelope :: "string \<Rightarrow> manifest_envelope option"
  rw_write_envelope :: "manifest_envelope \<Rightarrow> string"
  rw_event :: "hist_event \<Rightarrow> string option"
  rw_read_event :: "string \<Rightarrow> hist_event option"
  rw_host :: host
  rw_now :: gotime
  rw_key :: "vault_key option"
  rw_recorded :: "64 word"
  rw_run_start :: gotime
  rw_units :: "((string, mrec) gomap \<Rightarrow> container_error + (string, sealed_digest) gomap) option"
  rw_read_only :: bool

definition archive_text :: "record_world \<Rightarrow> string" where
  "archive_text W = (case rw_key W of None \<Rightarrow> name_text (replicate id_size (CHR 0x00)) | Some k \<Rightarrow> name_text (vk_id k))"

definition new_envelope :: "string \<Rightarrow> string \<Rightarrow> manifest_envelope" where
  "new_envelope aid ptr = \<lparr>en_version = encrypted_manifest_version, en_encrypted = True, en_archive_id = aid, en_pointer = ptr\<rparr>"

definition marshal_envelope :: "record_world \<Rightarrow> manifest_envelope \<Rightarrow> string" where
  "marshal_envelope W e = rw_write_envelope W e @ [newline]"

subsection \<open>The envelope\<close>

definition envelope_name :: string where "envelope_name = ''.mailarchive-manifest.json''"
definition max_envelope_size :: nat where "max_envelope_size = 4096"

datatype envelope_state = Env_absent | Env_present | Env_unreadable | Env_newer | Env_other | Env_plain

definition read_envelope :: "record_world \<Rightarrow> record_disk \<Rightarrow> container_error + envelope_state" where
  "read_envelope W D = (case read_record_file D envelope_name max_envelope_size of
     Inl File_missing \<Rightarrow> Inr Env_absent
   | Inl Over_bound \<Rightarrow> Inr Env_plain
   | Inl Store_planted \<Rightarrow> Inl Record_damaged
   | Inl _ \<Rightarrow> Inr Env_unreadable
   | Inr (raw, _) \<Rightarrow> (case rw_probe W raw of
       None \<Rightarrow> Inr Env_unreadable
     | Some (version, entries) \<Rightarrow>
         if entries then Inr Env_plain
         else if encrypted_manifest_version < version then Inr Env_newer
         else case rw_read_envelope W raw of
           None \<Rightarrow> Inr Env_unreadable
         | Some e \<Rightarrow>
             if en_version e \<noteq> encrypted_manifest_version \<or> \<not> en_encrypted e then Inr Env_unreadable
             else if en_archive_id e \<noteq> archive_text W \<or> en_pointer e \<noteq> pointer_name then Inr Env_other
             else Inr Env_present))"

subsection \<open>The pointers\<close>

record pointer_scan =
  ps_best :: "root_pointer option"
  ps_newer :: "64 word"
  ps_failed :: nat
  ps_time :: gotime

definition scan_pointer :: "record_world \<Rightarrow> record_disk \<Rightarrow> string \<Rightarrow> pointer_scan \<Rightarrow> pointer_scan" where
  "scan_pointer W D name ps = (case read_record_file D name max_pointer_size of
     Inl File_missing \<Rightarrow> ps
   | Inl _ \<Rightarrow> ps\<lparr>ps_failed := ps_failed ps + 1\<rparr>
   | Inr (raw, mtime) \<Rightarrow>
       (case peek raw of
          (_, gen, Some Newer_container) \<Rightarrow> ps\<lparr>ps_newer := max (ps_newer ps) gen\<rparr>
        | _ \<Rightarrow> (case open_root (rw_cipher W) (rw_head W) (rw_key W) raw of
            Inl _ \<Rightarrow> ps\<lparr>ps_failed := ps_failed ps + 1\<rparr>
          | Inr p \<Rightarrow> ps\<lparr>ps_time := (if ps_time ps < mtime then mtime else ps_time ps),
              ps_best := (case ps_best ps of None \<Rightarrow> Some p | Some b \<Rightarrow> if rp_gen b < rp_gen p then Some p else Some b)\<rparr>)))"

definition scan_pointers :: "record_world \<Rightarrow> record_disk \<Rightarrow> gotime \<Rightarrow> pointer_scan" where
  "scan_pointers W D t = fold (scan_pointer W D) [pointer_name, mirror_name]
     \<lparr>ps_best = None, ps_newer = 0, ps_failed = 0, ps_time = t\<rparr>"

text \<open>The best pointer, whether a newer format decides, and the store with its notices and time.\<close>

definition read_pointers :: "record_world \<Rightarrow> record_disk \<Rightarrow> record_store \<Rightarrow> container_error + root_pointer option \<times> bool \<times> record_store" where
  "read_pointers W D s =
     (let ps = scan_pointers W D (rs_fixed_time s); s = s\<lparr>rs_fixed_time := ps_time ps\<rparr>
      in if 0 < ps_newer ps \<and> (case ps_best ps of None \<Rightarrow> True | Some b \<Rightarrow> rp_gen b < ps_newer ps) then Inr (None, True, s)
         else if 0 < ps_newer ps then Inr (ps_best ps, False, notice Pointer_copy_damaged s)
         else if ps_best ps = None \<and> 0 < ps_failed ps then Inl Record_damaged
         else Inr (ps_best ps, False, s))"

subsection \<open>The sections\<close>

definition entries_at :: "chunk_entry list \<Rightarrow> nat \<Rightarrow> chunk_entry list" where
  "entries_at es pos = filter (\<lambda>e. ce_i e = word_of_nat pos) es"

definition open_entry :: "record_world \<Rightarrow> 8 word \<Rightarrow> record_disk \<Rightarrow> chunk_entry \<Rightarrow> container_error + string" where
  "open_entry W kind D e = on_ok (read_chunk D e) (\<lambda>sealed.
     vault_step (open_chunk (rw_cipher W) (rw_key W) kind (ce_gen e) (ce_i e) sealed))"

text \<open>One section from its two copies: the first that opens; the other is checked, and asked to be written again.\<close>

definition read_section :: "record_world \<Rightarrow> record_disk \<Rightarrow> chunk_entry list \<Rightarrow> nat \<Rightarrow> record_store \<Rightarrow> container_error + string \<times> record_store" where
  "read_section W D es pos s = (case entries_at es pos of
     [e1, e2] \<Rightarrow>
       (case open_entry W container_manifest D e1 of
          Inr plain \<Rightarrow>
            let s = s\<lparr>rs_sections := mput (word_of_nat pos) (sha256 plain) (rs_sections s)\<rparr>
            in (case read_chunk D e2 of
                 Inr _ \<Rightarrow> Inr (plain, s)
               | Inl _ \<Rightarrow> Inr (plain, notice Chunk_copy_missing (s\<lparr>rs_reseal := word_of_nat pos # rs_reseal s\<rparr>)))
        | Inl _ \<Rightarrow> (case open_entry W container_manifest D e2 of
            Inr plain \<Rightarrow> Inr (plain, notice Chunk_copy_damaged (s\<lparr>rs_sections := mput (word_of_nat pos) (sha256 plain) (rs_sections s),
              rs_reseal := word_of_nat pos # rs_reseal s\<rparr>))
          | Inl _ \<Rightarrow> Inl Record_damaged))
   | _ \<Rightarrow> Inl Record_damaged)"

fun read_from :: "record_world \<Rightarrow> record_disk \<Rightarrow> chunk_entry list \<Rightarrow> nat list \<Rightarrow> record_store \<Rightarrow> container_error + string list \<times> record_store" where
  "read_from W D es [] s = Inr ([], s)"
| "read_from W D es (pos # ps) s = on_ok (read_section W D es pos s) (\<lambda>(plain, s).
     on_ok (read_from W D es ps s) (\<lambda>(plains, s). Inr (plain # plains, s)))"

definition section_count :: "root_pointer \<Rightarrow> nat" where
  "section_count p = (if rp_manifest p = [] then 0 else pos_first + unat (ph_buckets (rp_head p)))"

definition read_sections :: "record_world \<Rightarrow> record_disk \<Rightarrow> record_store \<Rightarrow> container_error + string list \<times> record_store" where
  "read_sections W D s = (let p = rs_ptr s
     in if length (remdups (map ce_i (rp_manifest p))) \<noteq> section_count p then Inl Record_damaged
        else read_from W D (rp_manifest p) [0..<section_count p] s)"

subsection \<open>The file list\<close>

definition max_shard_line :: nat where "max_shard_line = 160"

definition digest_of :: "string \<Rightarrow> sealed_digest" where
  "digest_of raw = \<lparr>sd_sha256 = sha256 raw, sd_size = int (length raw)\<rparr>"

definition pointer_matches :: "record_disk \<Rightarrow> sealed_digest \<Rightarrow> bool" where
  "pointer_matches D d \<longleftrightarrow> list_ex (\<lambda>name. case read_record_file D name max_pointer_size of
     Inr (raw, _) \<Rightarrow> digest_of raw = d | Inl _ \<Rightarrow> False) [pointer_name, mirror_name]"

text \<open>What is at a shard's name for \<^verbatim>\<open>lstat\<close>: its size is asked before it is read.\<close>

definition read_shard :: "record_disk \<Rightarrow> shard_ref \<Rightarrow> inventory_shard option \<times> string" where
  "read_shard D ref = (case read_record_file D (sf_name ref) (nat (sf_entries ref) * max_shard_line) of
     Inl _ \<Rightarrow> (None, [])
   | Inr (b, _) \<Rightarrow>
       if sha256 b \<noteq> sf_sha256 ref then (None, b)
       else case parse_shard (sf_prefix ref) b of
         Inl _ \<Rightarrow> (None, b)
       | Inr sh \<Rightarrow> if int (length (is_files sh)) \<noteq> sf_entries ref then (None, b) else (Some sh, b))"

text \<open>The shards by prefix and the paths they list as live and as retained; \<open>None\<close> when one is not intact.\<close>

fun read_shards :: "record_disk \<Rightarrow> shard_ref list \<Rightarrow> (string, string) gomap \<times> string list \<times> string list
    \<Rightarrow> ((string, string) gomap \<times> string list \<times> string list) option" where
  "read_shards D [] acc = Some acc"
| "read_shards D (ref # refs) acc = (case read_shard D ref of
     (None, _) \<Rightarrow> None
   | (Some sh, b) \<Rightarrow> (case acc of (shards, live, retained) \<Rightarrow>
       read_shards D refs (mput (sf_prefix ref) b shards,
         live @ map lf_path (filter (\<lambda>f. lf_state f = Live) (is_files sh)),
         retained @ map lf_path (filter (\<lambda>f. lf_state f \<noteq> Live) (is_files sh)))))"

definition read_inventory :: "record_disk \<Rightarrow> record_store \<Rightarrow> record_store" where
  "read_inventory D s = (case read_record_file D inventory_name ((max_shards + 5) * 256) of
     Inl _ \<Rightarrow> s
   | Inr (raw, _) \<Rightarrow> (case parse_top raw of
       Inl _ \<Rightarrow> notice List_unreadable s
     | Inr t \<Rightarrow>
         if tf_gen t = rp_gen (rs_ptr s) \<and> \<not> pointer_matches D (tf_pointer t)
            \<and> (case tf_mirror t of None \<Rightarrow> True | Some d \<Rightarrow> \<not> pointer_matches D d)
         then notice List_of_another_copy s
         else case read_shards D (tf_shards t) ([], [], []) of
           None \<Rightarrow> if tf_gen t = rp_gen (rs_ptr s)
             then notice List_part_damaged (s\<lparr>rs_inv := Some t, rs_shards := None, rs_inv_live := [], rs_inv_retained := [],
               rs_sweep_ok := False, rs_inv_tolerated := True\<rparr>)
             else s
         | Some (shards, live, retained) \<Rightarrow>
             s\<lparr>rs_inv := Some t, rs_shards := Some shards, rs_inv_live := live, rs_inv_retained := retained, rs_sweep_ok := True\<rparr>))"

subsection \<open>An older or unfinished record\<close>

text \<open>Every file the records and the pointer name.\<close>

definition all_entries :: "root_pointer \<Rightarrow> chunk_entry list" where
  "all_entries p = rp_manifest p @ rp_history p @ rp_index p"

definition live_files :: "record_world \<Rightarrow> record_store \<Rightarrow> view \<Rightarrow> container_error + (string, sealed_digest) gomap" where
  "live_files W s v = on_ok (case rw_units W of None \<Rightarrow> Inr [] | Some f \<Rightarrow> f (v_entries v)) (\<lambda>units.
     Inr (fold (\<lambda>e. mput (chunk_path (ce_name e)) \<lparr>sd_sha256 = ce_sha256 e, sd_size = int (unat (ce_size e))\<rparr>)
       (all_entries (rs_ptr s)) (fold (\<lambda>(p, d). mput p d) units [])))"

text \<open>The unit- and chunk-shaped files under \<^verbatim>\<open>units/\<close> and \<^verbatim>\<open>chunks/\<close>; a planted folder is an error.\<close>

definition walked_files :: "record_disk \<Rightarrow> container_error + string list" where
  "walked_files D =
     (if list_ex (\<lambda>d. d \<in> {''units'', chunks_dir} \<or> has_prefix d ''units/'' \<or> has_prefix d ''chunks/'') (rd_planted D)
      then Inl Record_damaged
      else Inr (filter (\<lambda>rel. match_file_path rel \<noteq> None) (mkeys (rd_files D))))"

definition listed_files :: "record_store \<Rightarrow> string list" where
  "listed_files s = (case rs_shards s of None \<Rightarrow> []
     | Some shards \<Rightarrow> concat (map (\<lambda>(p, b). case parse_shard p b of Inr sh \<Rightarrow> map lf_path (is_files sh) | Inl _ \<Rightarrow> []) shards))"

definition unnamed_files :: "record_world \<Rightarrow> record_disk \<Rightarrow> record_store \<Rightarrow> view \<Rightarrow> container_error + bool" where
  "unnamed_files W D s v = on_ok (live_files W s v) (\<lambda>named. on_ok (walked_files D) (\<lambda>found.
     Inr (list_ex (\<lambda>rel. mget named rel = None \<and> rel \<notin> set (listed_files s)) found)))"

definition check_f12 :: "record_world \<Rightarrow> record_disk \<Rightarrow> record_store \<Rightarrow> view \<Rightarrow> container_error + record_store" where
  "check_f12 W D s v = (let P = rp_gen (rs_ptr s); seen = ph_inv (rp_head (rs_ptr s));
       list_rule = (case rs_inv s of
           None \<Rightarrow> if 1 \<le> seen then Some Inventory_damaged else None
         | Some t \<Rightarrow> if tf_gen t = P + 1 then Some Unfinished_save
             else if P < tf_gen t then Some Restored_older
             else if tf_gen t < seen then Some Restored_older else None)
     in case list_rule of
       Some e \<Rightarrow> Inl e
     | None \<Rightarrow>
         if rw_recorded W = P + 1 then Inl Unfinished_save
         else if P < rw_recorded W
         then on_ok (unnamed_files W D s v) (\<lambda>merged. if merged then Inl Restored_older else Inr (notice Restored_to_older_copy s))
         else Inr s)"

subsection \<open>A new archive\<close>

definition temp_name :: "string \<Rightarrow> bool" where
  "temp_name n \<longleftrightarrow> has_prefix n ''.mailarchive-'' \<and> has_suffix n ''.tmp'' \<and> 17 < length n
     \<and> list_all (\<lambda>c. in_range 48 57 (byte c)) (drop 13 (take (length n - 4) n))"

definition under :: "string \<Rightarrow> record_disk \<Rightarrow> string list" where
  "under d D = filter (\<lambda>rel. has_prefix rel (d @ ''/'')) (mkeys (rd_files D))"

definition count_entries :: "record_disk \<Rightarrow> string \<Rightarrow> container_error + nat" where
  "count_entries D d = (if d \<in> set (rd_planted D) then Inl Record_damaged
     else Inr (length (remdups (map (\<lambda>rel. hd (split_on CHR ''/'' (drop (length d + 1) rel)))
       (under d D @ filter (\<lambda>rel. has_prefix rel (d @ ''/'')) (rd_planted D))))))"

definition leftover_ok :: "record_disk \<Rightarrow> string \<Rightarrow> bool" where
  "leftover_ok D rel \<longleftrightarrow> (case split_on CHR ''/'' rel of
     [_, sh, n] \<Rightarrow> length sh = 2 \<and> mget (rd_files D) rel \<noteq> Some Planted \<and> (match_file_path rel \<noteq> None \<or> temp_name n)
   | _ \<Rightarrow> False)"

definition walk_leftovers :: "record_disk \<Rightarrow> container_error + unit" where
  "walk_leftovers D =
     (if list_ex (\<lambda>d. d = chunks_dir \<or> has_prefix d ''chunks/'') (rd_planted D) then Inl Record_damaged
      else if list_all (leftover_ok D) (under chunks_dir D) then Inr () else Inl Record_damaged)"

definition check_fresh :: "record_world \<Rightarrow> record_disk \<Rightarrow> container_error + unit" where
  "check_fresh W D =
     (if 0 < rw_recorded W then Inl Record_damaged
      else if list_ex (file_exists D) [''search.db'', ''.mailarchive-history.jsonl''] then Inl Record_damaged
      else on_ok (count_entries D ''units'') (\<lambda>n. if 0 < n then Inl Record_damaged
        else on_ok (count_entries D inventory_dir) (\<lambda>n. if 0 < n then Inl Record_damaged else walk_leftovers D)))"

subsection \<open>Loading\<close>

text \<open>The envelope and the pointers decide together: the pointer, or none and a new archive owed.\<close>

definition judge_envelope :: "envelope_state \<Rightarrow> root_pointer option \<Rightarrow> bool \<Rightarrow> container_error option" where
  "judge_envelope env ptr newer =
     (if env = Env_plain then Some Not_a_sealed_record
      else if ptr \<noteq> None then None
      else if newer \<or> env = Env_newer then Some Newer_container
      else if env = Env_other then Some Record_damaged else None)"

definition load_state :: "record_world \<Rightarrow> record_disk \<Rightarrow> record_store \<Rightarrow> container_error + view \<times> record_store" where
  "load_state W D s = (let s = read_inventory D s
     in on_ok (read_sections W D s) (\<lambda>(sections, s).
        on_ok (decode_sections (rw_codec W) (rw_key W) sections (ph_buckets (rp_head (rs_ptr s)))) (\<lambda>(v, h).
        on_ok (check_f12 W D (s\<lparr>rs_hdr := h, rs_hist_loss := sh_history_gap h\<rparr>) v) (\<lambda>s. Inr (v, s)))))"

definition from_sealed_step :: "record_world \<Rightarrow> view \<Rightarrow> container_error + manifest" where
  "from_sealed_step W v = (case from_sealed (rw_host W) (rw_now W) envelope_name v of
     Inr m \<Rightarrow> Inr m
   | Inl (Newer_format _) \<Rightarrow> Inl Newer_container
   | Inl _ \<Rightarrow> Inl Record_damaged)"

definition empty_view :: view where
  "empty_view = \<lparr>v_version = manifest_version, v_entries = [], v_stores = [], v_capture_gaps = [], v_collapsed_tokens = []\<rparr>"

definition load_new :: "record_world \<Rightarrow> record_disk \<Rightarrow> record_store \<Rightarrow> container_error + manifest \<times> record_store" where
  "load_new W D s = on_ok (check_fresh W D) (\<lambda>_. on_ok (from_sealed_step W empty_view) (\<lambda>m. Inr (m, s\<lparr>rs_fresh := True\<rparr>)))"

definition load_found ::
  "record_world \<Rightarrow> record_disk \<Rightarrow> envelope_state \<Rightarrow> root_pointer \<Rightarrow> record_store \<Rightarrow> container_error + manifest \<times> record_store" where
  "load_found W D env p s = on_ok (load_state W D (s\<lparr>rs_ptr := p, rs_attempted := rp_gen p\<rparr>)) (\<lambda>(v, s).
     let s = (if env \<noteq> Env_present then notice Envelope_damaged s else s)\<lparr>rs_env_heal := env \<noteq> Env_present\<rparr>
     in on_ok (from_sealed_step W v) (\<lambda>m. on_ok (live_files W s v) (\<lambda>live. Inr (m, s\<lparr>rs_prev_live := live\<rparr>))))"

definition load_record :: "record_world \<Rightarrow> record_disk \<Rightarrow> container_error + manifest \<times> record_store" where
  "load_record W D = on_ok (read_envelope W D) (\<lambda>env.
     on_ok (read_pointers W D new_store) (\<lambda>(ptr, newer, s).
     case judge_envelope env ptr newer of
       Some e \<Rightarrow> Inl e
     | None \<Rightarrow> (case ptr of None \<Rightarrow> load_new W D s | Some p \<Rightarrow> load_found W D env p s)))"

end
