(* ===== verification/RecordLoad.thy ===== *)
theory RecordLoad
  imports RecordStore
begin

text \<open>
  What a loaded record is: opened from the newest authentic pointer, its sections the ones that pointer names,
  and not older than the file list or what this computer recorded.
\<close>

subsection \<open>The pointers\<close>

text \<open>A copy of the pointer as a scan sees it.\<close>

definition pointer_at :: "record_world \<Rightarrow> record_disk \<Rightarrow> string \<Rightarrow> root_pointer option" where
  "pointer_at W D name = (case read_record_file D name max_pointer_size of
     Inl _ \<Rightarrow> None
   | Inr (raw, _) \<Rightarrow> (case open_root (rw_cipher W) (rw_head W) (rw_key W) raw of Inl _ \<Rightarrow> None | Inr p \<Rightarrow> Some p))"

definition newer_at :: "record_disk \<Rightarrow> string \<Rightarrow> 64 word" where
  "newer_at D name = (case read_record_file D name max_pointer_size of
     Inl _ \<Rightarrow> 0
   | Inr (raw, _) \<Rightarrow> (case peek raw of (_, gen, Some Newer_container) \<Rightarrow> gen | _ \<Rightarrow> 0))"

definition better :: "root_pointer option \<Rightarrow> root_pointer option \<Rightarrow> root_pointer option" where
  "better a b = (case (a, b) of (None, _) \<Rightarrow> b | (_, None) \<Rightarrow> a | (Some p, Some q) \<Rightarrow> if rp_gen p < rp_gen q then b else a)"

lemma open_root_not_newer: "open_root C J k raw = Inr p \<Longrightarrow> \<exists>f. peek raw = (f, rp_gen p, None)"
  by (auto simp: open_root_def split: if_splits prod.splits option.splits)

lemma scan_pointer_facts:
  "ps_best (scan_pointer W D name ps) = better (ps_best ps) (pointer_at W D name)"
  "ps_newer (scan_pointer W D name ps) = max (ps_newer ps) (newer_at D name)"
proof -
  show "ps_best (scan_pointer W D name ps) = better (ps_best ps) (pointer_at W D name)"
  proof (cases "read_record_file D name max_pointer_size")
    case (Inl e)
    then show ?thesis by (cases e) (auto simp: scan_pointer_def pointer_at_def better_def split: option.splits)
  next
    case (Inr x)
    obtain raw t where x: "x = (raw, t)" by fastforce
    obtain f g r where pk: "peek raw = (f, g, r)" by (metis prod_cases3)
    show ?thesis
    proof (cases "open_root (rw_cipher W) (rw_head W) (rw_key W) raw")
      case (Inl e)
      then show ?thesis using Inr x pk
        by (cases r; (cases "the r")?) (auto simp: scan_pointer_def pointer_at_def better_def split: option.splits container_error.splits)
    next
      case (Inr p)
      then have "r = None" using open_root_not_newer [OF Inr] pk by auto
      then show ?thesis using \<open>read_record_file D name max_pointer_size = Inr x\<close> Inr x pk
        by (auto simp: scan_pointer_def pointer_at_def better_def split: option.splits)
    qed
  qed
  show "ps_newer (scan_pointer W D name ps) = max (ps_newer ps) (newer_at D name)"
  proof (cases "read_record_file D name max_pointer_size")
    case (Inl e)
    then show ?thesis by (cases e) (simp_all add: scan_pointer_def newer_at_def)
  next
    case (Inr x)
    obtain raw t where x: "x = (raw, t)" by fastforce
    obtain f g r where pk: "peek raw = (f, g, r)" by (metis prod_cases3)
    show ?thesis
    proof (cases "r = Some Newer_container")
      case True
      then show ?thesis using Inr x pk by (simp add: scan_pointer_def newer_at_def)
    next
      case False
      then show ?thesis using Inr x pk
        by (auto simp: scan_pointer_def newer_at_def split: option.splits container_error.splits sum.splits)
    qed
  qed
qed

definition best_pointer :: "record_world \<Rightarrow> record_disk \<Rightarrow> root_pointer option" where
  "best_pointer W D = better (pointer_at W D pointer_name) (pointer_at W D mirror_name)"

definition newest_newer :: "record_disk \<Rightarrow> 64 word" where
  "newest_newer D = max (newer_at D pointer_name) (newer_at D mirror_name)"

lemma scan_result:
  "ps_best (scan_pointers W D t) = best_pointer W D" "ps_newer (scan_pointers W D t) = newest_newer D"
  by (simp_all add: scan_pointers_def scan_pointer_facts best_pointer_def newest_newer_def better_def max_def split: option.splits)

lemma best_is_newest:
  assumes "best_pointer W D = Some p" "name \<in> {pointer_name, mirror_name}" "pointer_at W D name = Some q"
  shows "rp_gen q \<le> rp_gen p"
  using assms by (auto simp: best_pointer_def better_def split: option.splits if_splits)

lemma best_is_there: "best_pointer W D = Some p \<Longrightarrow> \<exists>name \<in> {pointer_name, mirror_name}. pointer_at W D name = Some p"
  by (auto simp: best_pointer_def better_def split: option.splits if_splits)

lemma read_pointers_best:
  assumes "read_pointers W D s = Inr (Some p, newer, s')"
  shows "best_pointer W D = Some p \<and> newest_newer D \<le> rp_gen p"
  using assms by (auto simp: read_pointers_def Let_def scan_result not_less split: if_splits option.splits)

lemma pointer_at_ok:
  assumes "pointer_at W D name = Some p"
  shows "check_pointer p = Inr () \<and> pointer_shape p"
proof -
  obtain raw where "open_root (rw_cipher W) (rw_head W) (rw_key W) raw = Inr p"
    using assms by (auto simp: pointer_at_def split: sum.splits prod.splits)
  then show ?thesis using decoded_is_encoded by (fastforce simp: open_root_def split: if_splits prod.splits option.splits)
qed

subsection \<open>The sections\<close>

text \<open>What reading does not touch.\<close>

definition same_store :: "record_store \<Rightarrow> record_store \<Rightarrow> bool" where
  "same_store s s' \<longleftrightarrow> rs_ptr s' = rs_ptr s \<and> rs_attempted s' = rs_attempted s \<and> rs_inv s' = rs_inv s
     \<and> rs_shards s' = rs_shards s \<and> rs_fresh s' = rs_fresh s"

lemma same_store_refl [simp]: "same_store s s"
  by (simp add: same_store_def)

lemma same_store_trans: "same_store a b \<Longrightarrow> same_store b c \<Longrightarrow> same_store a c"
  by (simp add: same_store_def)

definition opened_at :: "record_world \<Rightarrow> record_disk \<Rightarrow> chunk_entry list \<Rightarrow> nat \<Rightarrow> string \<Rightarrow> bool" where
  "opened_at W D es pos plain \<longleftrightarrow> length (entries_at es pos) = 2
     \<and> (\<exists>e \<in> set (entries_at es pos). open_entry W container_manifest D e = Inr plain)"

lemma read_section_facts:
  assumes "read_section W D es pos s = Inr (plain, s')"
  shows "opened_at W D es pos plain \<and> same_store s s' \<and> mget (rs_sections s') (word_of_nat pos) = Some (sha256 plain)
    \<and> (\<forall>i. i \<noteq> word_of_nat pos \<longrightarrow> mget (rs_sections s') i = mget (rs_sections s) i)"
proof -
  obtain e1 e2 where e: "entries_at es pos = [e1, e2]" using assms by (auto simp: read_section_def split: list.splits)
  show ?thesis
    using assms by (auto simp: read_section_def e opened_at_def same_store_def notice_def Let_def split: sum.splits)
qed

lemma read_from_facts:
  "read_from W D es ps s = Inr (plains, s') \<Longrightarrow> list_all2 (opened_at W D es) ps plains \<and> same_store s s'"
proof (induction ps arbitrary: s plains)
  case (Cons pos ps)
  obtain plain s1 rest where r: "read_section W D es pos s = Inr (plain, s1)" "read_from W D es ps s1 = Inr (rest, s')" "plains = plain # rest"
    using Cons.prems by auto
  show ?case using read_section_facts [OF r(1)] Cons.IH [OF r(2)] same_store_trans by (auto simp: r(3))
qed simp

lemma read_sections_facts:
  assumes "read_sections W D s = Inr (plains, s')"
  shows "list_all2 (opened_at W D (rp_manifest (rs_ptr s))) [0..<section_count (rs_ptr s)] plains \<and> same_store s s'"
  using assms read_from_facts by (auto simp: read_sections_def Let_def split: if_splits)

subsection \<open>The load\<close>

lemma read_inventory_same:
  "rs_ptr (read_inventory D s) = rs_ptr s" "rs_attempted (read_inventory D s) = rs_attempted s" "rs_fresh (read_inventory D s) = rs_fresh s"
  by (auto simp: read_inventory_def notice_def Let_def split: sum.splits prod.splits option.splits)

text \<open>What the rules against an older or unfinished record leave.\<close>

definition not_older :: "record_world \<Rightarrow> record_disk \<Rightarrow> record_store \<Rightarrow> view \<Rightarrow> bool" where
  "not_older W D s v \<longleftrightarrow>
     (case rs_inv s of
        None \<Rightarrow> ph_inv (rp_head (rs_ptr s)) = 0
      | Some t \<Rightarrow> ph_inv (rp_head (rs_ptr s)) \<le> tf_gen t \<and> tf_gen t \<le> rp_gen (rs_ptr s))
   \<and> (rw_recorded W \<le> rp_gen (rs_ptr s)
      \<or> rw_recorded W \<noteq> rp_gen (rs_ptr s) + 1 \<and> unnamed_files W D s v = Inr False)"

lemma same_store_views:
  assumes "same_store s s'"
  shows "live_files W s' v = live_files W s v" "unnamed_files W D s' v = unnamed_files W D s v"
    "not_older W D s' v \<longleftrightarrow> not_older W D s v"
proof -
  have e: "rs_ptr s' = rs_ptr s" "rs_inv s' = rs_inv s" "rs_shards s' = rs_shards s" using assms by (simp_all add: same_store_def)
  show l: "live_files W s' v = live_files W s v" by (simp only: live_files_def e)
  have "listed_files s' = listed_files s" by (simp only: listed_files_def e)
  then show u: "unnamed_files W D s' v = unnamed_files W D s v" by (simp only: unnamed_files_def l)
  show "not_older W D s' v \<longleftrightarrow> not_older W D s v" by (simp only: not_older_def e u)
qed

lemma check_f12_facts:
  assumes "check_f12 W D s v = Inr s'"
  shows "not_older W D s v \<and> same_store s s'"
proof -
  let ?h = "ph_inv (rp_head (rs_ptr s))" and ?P = "rp_gen (rs_ptr s)"
  have "(case rs_inv s of None \<Rightarrow> ?h = 0 | Some t \<Rightarrow> ?h \<le> tf_gen t \<and> tf_gen t \<le> ?P)"
    using assms by (auto simp: check_f12_def Let_def not_le not_less word_less_1 split: option.splits if_splits)
  moreover have "rw_recorded W \<le> ?P \<or> rw_recorded W \<noteq> ?P + 1 \<and> unnamed_files W D s v = Inr False"
    using assms by (auto simp: check_f12_def Let_def not_less split: option.splits if_splits)
  moreover have "same_store s s'"
    using assms by (auto simp: check_f12_def Let_def same_store_def notice_def split: option.splits if_splits)
  ultimately show ?thesis by (simp add: not_older_def)
qed

text \<open>
  A record that loads is the newest there is, whole, and not an older one.  Whenever the load of an
  encrypted archive gives a record, it is the one named by an authentic pointer of the highest generation
  among both copies, and no copy in a newer format claims more; every section was opened from a chunk that
  pointer names, with its digest, and decoded; the file list is neither ahead of the record nor behind the
  list the record saw, and is missing only where none was ever seen; and a record below the generation this
  computer recorded is taken only when no file on disk is left unnamed by it and its list.
\<close>

theorem a_loaded_record_is_the_newest:
  assumes "load_record W D = Inr (m, s)" and "\<not> rs_fresh s"
  shows "(\<exists>name \<in> {pointer_name, mirror_name}. pointer_at W D name = Some (rs_ptr s))
    \<and> (\<forall>name \<in> {pointer_name, mirror_name}. newer_at D name \<le> rp_gen (rs_ptr s)
          \<and> (\<forall>q. pointer_at W D name = Some q \<longrightarrow> rp_gen q \<le> rp_gen (rs_ptr s)))
    \<and> (\<exists>sections v h. list_all2 (opened_at W D (rp_manifest (rs_ptr s))) [0..<section_count (rs_ptr s)] sections
          \<and> decode_sections (rw_codec W) (rw_key W) sections (ph_buckets (rp_head (rs_ptr s))) = Inr (v, h)
          \<and> from_sealed_step W v = Inr m \<and> not_older W D s v)"
proof -
  obtain env ptr newer s0 where rp: "read_pointers W D new_store = Inr (ptr, newer, s0)"
    and rest: "(case judge_envelope env ptr newer of Some e \<Rightarrow> Inl e
      | None \<Rightarrow> (case ptr of None \<Rightarrow> load_new W D s0 | Some p \<Rightarrow> load_found W D env p s0)) = Inr (m, s)"
    using assms(1) unfolding load_record_def by auto
  have "load_new W D s0 \<noteq> Inr (m, s)" using assms(2) by (auto simp: load_new_def)
  then obtain p where p: "ptr = Some p" "load_found W D env p s0 = Inr (m, s)" using rest by (auto split: option.splits)
  let ?s0 = "s0\<lparr>rs_ptr := p, rs_attempted := rp_gen p\<rparr>"
  obtain v s1 where ls: "load_state W D ?s0 = Inr (v, s1)" and m: "from_sealed_step W v = Inr m" and s: "same_store s1 s"
    using p(2) by (auto simp: load_found_def Let_def same_store_def notice_def)
  let ?s = "read_inventory D ?s0"
  obtain sections s2 h where rs: "read_sections W D ?s = Inr (sections, s2)"
    and d: "decode_sections (rw_codec W) (rw_key W) sections (ph_buckets (rp_head (rs_ptr s2))) = Inr (v, h)"
    and f: "check_f12 W D (s2\<lparr>rs_hdr := h, rs_hist_loss := sh_history_gap h\<rparr>) v = Inr s1"
    using ls by (auto simp: load_state_def Let_def)
  have p0: "rs_ptr ?s = p" by (simp add: read_inventory_same)
  note rf = read_sections_facts [OF rs]
  note ff = check_f12_facts [OF f]
  have t: "same_store (s2\<lparr>rs_hdr := h, rs_hist_loss := sh_history_gap h\<rparr>) s" using ff s same_store_trans by blast
  then have "same_store s2 s" by (simp add: same_store_def)
  then have sp: "rs_ptr s2 = p" "rs_ptr s = p" using rf p0 by (simp_all add: same_store_def)
  have "not_older W D s v" using ff same_store_views(3) [OF t] by blast
  moreover have "best_pointer W D = Some p" "newest_newer D \<le> rp_gen p" using read_pointers_best rp p(1) by blast+
  moreover have "list_all2 (opened_at W D (rp_manifest p)) [0..<section_count p] sections" using rf p0 by simp
  ultimately show ?thesis
    using best_is_there [of W D p] best_is_newest [of W D p] d m sp(1,2) unfolding newest_newer_def sp(2) by auto
qed

end
