(* ===== verification/RecordCommit.thy ===== *)
theory RecordCommit
  imports RecordStore
begin

text \<open>
  The commit of a sealed record (\<^verbatim>\<open>Commit\<close> of \<^verbatim>\<open>internal/container/store.go\<close>, with the history and index
  staging of \<^verbatim>\<open>history.go\<close> and \<^verbatim>\<open>index.go\<close>): changed sections sealed twice under fresh names, the lock
  proved again, the pointer renamed into place, its mirror, then the file list.  A run carries the disk, the
  random bytes, and the fate of each write still to come; its trail is every disk it has passed through.
\<close>

subsection \<open>Steps of a run\<close>

record record_run =
  rr_disk :: record_disk
  rr_trail :: "record_disk list"
  rr_random :: string
  rr_names :: string
  rr_fates :: "bool list"
  rr_held :: bool

text \<open>An atomic write: the whole file with its time, or nothing.  With no fate left every write fails.\<close>

definition write_record_file :: "string \<Rightarrow> string \<Rightarrow> gotime \<Rightarrow> record_run \<Rightarrow> (container_error + unit) \<times> record_run" where
  "write_record_file rel data mtime r =
     (if \<not> folders_real (rr_disk r) rel then (Inl Store_planted, r)
      else case rr_fates r of
        [] \<Rightarrow> (Inl Os_fault, r)
      | ok # fates \<Rightarrow>
          let r = r\<lparr>rr_fates := fates\<rparr>
          in if \<not> ok then (Inl Os_fault, r)
             else let D = (rr_disk r)\<lparr>rd_files := mput rel (Plain_file data mtime) (rd_files (rr_disk r))\<rparr>
             in (Inr (), r\<lparr>rr_disk := D, rr_trail := rr_trail r @ [D]\<rparr>))"

definition write_chunk ::
  "record_world \<Rightarrow> 8 word \<Rightarrow> 64 word \<Rightarrow> nat \<Rightarrow> string \<Rightarrow> record_run \<Rightarrow> (container_error + chunk_entry) \<times> record_run" where
  "write_chunk W kind gen pos plain r =
     (case seal_chunk (rw_cipher W) (rw_key W) kind gen (word_of_nat pos) plain (rr_random r) of
        Inl e \<Rightarrow> (Inl (Vault_said e), r)
      | Inr (sealed, random) \<Rightarrow>
          let r = r\<lparr>rr_random := random\<rparr>
          in if max_chunk_size < length sealed then (Inl Malformed_pointer, r)
             else case new_name (rr_names r) of
               Inl e \<Rightarrow> (Inl e, r)
             | Inr (name, names) \<Rightarrow>
                 case write_record_file (chunk_path name) sealed (rw_run_start W) (r\<lparr>rr_names := names\<rparr>) of
                   (Inl e, r) \<Rightarrow> (Inl e, r)
                 | (Inr _, r) \<Rightarrow> (Inr \<lparr>ce_i = word_of_nat pos, ce_name = name, ce_gen = gen, ce_sha256 = sha256 sealed,
                     ce_size = word_of_nat (length sealed)\<rparr>, r))"

subsection \<open>The times of a commit\<close>

definition unix_secs :: "gotime \<Rightarrow> int" where
  "unix_secs t = (t - civil_ns 1970 1 1 0 0 0 0) div second_ns"

definition from_unix :: "int \<Rightarrow> gotime" where
  "from_unix s = s * second_ns + civil_ns 1970 1 1 0 0 0 0"

definition truncate_second :: "gotime \<Rightarrow> gotime" where
  "truncate_second t = t div second_ns * second_ns"

definition next_fixed_time :: "record_world \<Rightarrow> record_store \<Rightarrow> gotime" where
  "next_fixed_time W s =
     (let t = truncate_second (rw_run_start W + 2 * (rs_commits s + 1) * second_ns);
          floor = truncate_second (rs_fixed_time s) + 2 * second_ns
      in if rs_fixed_time s \<noteq> zero_time \<and> t < floor then floor else t)"

subsection \<open>The history\<close>

definition history_chunk_target :: nat where "history_chunk_target = 262144"

fun encode_events :: "record_world \<Rightarrow> hist_event list \<Rightarrow> container_error + string" where
  "encode_events W [] = Inr []"
| "encode_events W (ev # evs) = (case rw_event W ev of
     None \<Rightarrow> Inl Not_marshalled
   | Some l \<Rightarrow> on_ok (encode_events W evs) (\<lambda>ls. Inr (l @ newline # ls)))"

definition decode_events :: "record_world \<Rightarrow> string \<Rightarrow> hist_event list" where
  "decode_events W plain = List.map_filter (parse_line (rw_read_event W)) (fst (scan_lines plain))"

definition is_run_header :: "hist_event \<Rightarrow> bool" where
  "is_run_header ev \<longleftrightarrow> 0 < he_run ev \<and> he_at ev \<noteq> []"

definition last_header :: "hist_event list \<Rightarrow> hist_event option \<Rightarrow> hist_event option" where
  "last_header events prev = fold (\<lambda>ev h. if is_run_header ev then Some (ev\<lparr>he_copy := True\<rparr>) else h) events prev"

definition timeline_add :: "hist_event \<Rightarrow> record_store \<Rightarrow> container_error + record_store" where
  "timeline_add ev s = (if rs_timeline_closed s then Inl Timeline_closed
     else Inr (s\<lparr>rs_timeline := Some ((case rs_timeline s of None \<Rightarrow> [] | Some evs \<Rightarrow> evs) @ [ev])\<rparr>))"

definition widen_gap :: "history_gap option \<Rightarrow> 64 word \<Rightarrow> 64 word \<Rightarrow> history_gap option" where
  "widen_gap g src dst = (case g of
     None \<Rightarrow> Some \<lparr>hg_from = src, hg_to = dst\<rparr>
   | Some g \<Rightarrow> Some \<lparr>hg_from = min (hg_from g) src, hg_to = max (hg_to g) dst\<rparr>)"

definition on_header :: "(sealed_header \<Rightarrow> sealed_header) \<Rightarrow> record_store \<Rightarrow> record_store" where
  "on_header f s = s\<lparr>rs_hdr := f (rs_hdr s)\<rparr>"

definition mark_history_loss :: "64 word \<Rightarrow> 64 word \<Rightarrow> record_store \<Rightarrow> record_store" where
  "mark_history_loss src dst s = notice History_not_kept (on_header (\<lambda>h. h\<lparr>sh_history_gap := widen_gap (sh_history_gap h) src dst\<rparr>)
     (s\<lparr>rs_hist_loss := widen_gap (rs_hist_loss s) src dst\<rparr>))"

definition hold_history :: "64 word \<Rightarrow> record_store \<Rightarrow> record_store" where
  "hold_history gen s = notice History_not_kept (on_header (\<lambda>h. h\<lparr>sh_history_gap := widen_gap (sh_history_gap h) gen gen\<rparr>)
     (s\<lparr>rs_gap_staging := True\<rparr>))"

record staged_history =
  sg_table :: "chunk_entry list"
  sg_n :: nat
  sg_tail :: string
  sg_header :: "hist_event option"
  sg_clear_bad :: bool

definition staged_nothing :: "record_store \<Rightarrow> staged_history" where
  "staged_nothing s = \<lparr>sg_table = rp_history (rs_ptr s), sg_n = 0, sg_tail = [], sg_header = None, sg_clear_bad = False\<rparr>"

definition apply_history :: "staged_history \<Rightarrow> record_store \<Rightarrow> record_store" where
  "apply_history h s = (if sg_n h = 0 then s
     else s\<lparr>rs_timeline := map_option (drop (sg_n h)) (rs_timeline s), rs_hist_tail := sg_tail h, rs_hist_header := sg_header h,
       rs_tail_bad := (if sg_clear_bad h then False else rs_tail_bad s), rs_gap_staging := False\<rparr>)"

text \<open>The open last chunk, read once.\<close>

definition load_tail :: "record_world \<Rightarrow> record_disk \<Rightarrow> record_store \<Rightarrow> record_store" where
  "load_tail W D s = (case rp_history (rs_ptr s) of
     [] \<Rightarrow> s
   | es \<Rightarrow> if rs_tail_loaded s then s
       else (case open_entry W container_history D (List.last es) of
           Inr plain \<Rightarrow> s\<lparr>rs_hist_tail := plain, rs_hist_header := last_header (decode_events W plain) (rs_hist_header s)\<rparr>
         | Inl _ \<Rightarrow> s\<lparr>rs_tail_bad := True\<rparr>)\<lparr>rs_tail_loaded := True\<rparr>)"

text \<open>Where the events go: the entries kept as they are, and the plaintext they are appended to.\<close>

definition open_tail :: "64 word \<Rightarrow> string \<Rightarrow> record_store \<Rightarrow> chunk_entry list \<times> string \<times> record_store" where
  "open_tail gen lines s = (let table = rp_history (rs_ptr s)
     in if rs_tail_bad s
        then (table, [], mark_history_loss (if 1 < length table then ce_gen (table ! (length table - 2)) + 1 else 1) gen s)
        else if table = [] then ([], [], s)
        else if rs_hist_tail s \<noteq> [] \<and> history_chunk_target < length (rs_hist_tail s) + length lines then (table, [], s)
        else (butlast table, rs_hist_tail s, s))"

definition stage_history ::
  "record_world \<Rightarrow> 64 word \<Rightarrow> record_store \<Rightarrow> record_run \<Rightarrow> (container_error + staged_history) \<times> record_store \<times> record_run" where
  "stage_history W gen s r = (case rs_timeline s of
     None \<Rightarrow> (Inr (staged_nothing s), s, r)
   | Some [] \<Rightarrow> (Inr (staged_nothing s), s, r)
   | Some events \<Rightarrow> (case encode_events W events of
       Inl e \<Rightarrow> (Inl e, s, r)
     | Inr lines \<Rightarrow>
         let s = load_tail W (rr_disk r) s; bad = rs_tail_bad s
         in case open_tail gen lines s of (kept, tail, s) \<Rightarrow>
            (case (if tail = [] \<and> \<not> is_run_header (hd events)
                   then (case rs_hist_header s of None \<Rightarrow> Inr [] | Some h \<Rightarrow> encode_events W [h]) else Inr tail) of
               Inl e \<Rightarrow> (Inl e, s, r)
             | Inr tail \<Rightarrow> (case write_chunk W container_history gen (length kept) (tail @ lines) r of
                 (Inl e, r) \<Rightarrow> (Inl e, s, r)
               | (Inr e, r) \<Rightarrow> (Inr \<lparr>sg_table = kept @ [e], sg_n = length events, sg_tail = tail @ lines,
                   sg_header = last_header events (rs_hist_header s), sg_clear_bad = bad\<rparr>, s, r)))))"

subsection \<open>The search index\<close>

definition index_chunk_size :: nat where "index_chunk_size = 262144"

definition mark_index_behind :: "record_store \<Rightarrow> record_store" where
  "mark_index_behind s = (if sh_index_behind (rs_hdr s) = None
     then notice Index_misses (on_header (\<lambda>h. h\<lparr>sh_index_behind := Some (rs_attempted s + 1)\<rparr>) s) else s)"

definition mark_index_rebuilding :: "record_store \<Rightarrow> record_store" where
  "mark_index_rebuilding s = (if sh_index_behind (rs_hdr s) = None
     then (on_header (\<lambda>h. h\<lparr>sh_index_behind := Some (rs_attempted s + 1)\<rparr>) s)\<lparr>rs_quiet_behind := True\<rparr> else s)"

definition clear_index_behind :: "record_store \<Rightarrow> record_store" where
  "clear_index_behind s = (if sh_index_behind (rs_hdr s) \<noteq> None
     then let s = on_header (\<lambda>h. h\<lparr>sh_index_behind := None\<rparr>) s
       in (if rs_quiet_behind s then s else notice Index_whole_again s)\<lparr>rs_quiet_behind := False\<rparr> else s)"

record staged_index =
  sx_table :: "chunk_entry list"
  sx_length :: "64 word"
  sx_digests :: "string list"
  sx_version :: "64 word"
  sx_sealed :: bool

definition kept_index :: "record_store \<Rightarrow> staged_index" where
  "kept_index s = \<lparr>sx_table = rp_index (rs_ptr s), sx_length = ph_index_image (rp_head (rs_ptr s)), sx_digests = rs_index_digests s,
     sx_version = ph_index_meta (rp_head (rs_ptr s)), sx_sealed = False\<rparr>"

text \<open>The image's chunks from one position on: the entries and digests, or a fault.\<close>

fun seal_image ::
  "record_world \<Rightarrow> 64 word \<Rightarrow> index_capture \<Rightarrow> record_store \<Rightarrow> nat list \<Rightarrow> record_run \<Rightarrow> ((chunk_entry \<times> string) list option) \<times> record_run" where
  "seal_image W gen c s [] r = (Some [], r)"
| "seal_image W gen c s (i # is) r = (case ic_read c (i * index_chunk_size) (min index_chunk_size (ic_size c - i * index_chunk_size)) of
     None \<Rightarrow> (None, r)
   | Some plain \<Rightarrow> let d = sha256 plain in
       (if i < length (rs_index_digests s) \<and> i < length (rp_index (rs_ptr s)) \<and> rs_index_digests s ! i = d
        then (case seal_image W gen c s is r of
            (None, r) \<Rightarrow> (None, r) | (Some es, r) \<Rightarrow> (Some ((rp_index (rs_ptr s) ! i, d) # es), r))
        else (case write_chunk W container_index gen i plain r of
            (Inl _, r) \<Rightarrow> (None, r)
          | (Inr e, r) \<Rightarrow> (case seal_image W gen c s is r of
              (None, r) \<Rightarrow> (None, r) | (Some es, r) \<Rightarrow> (Some ((e, d) # es), r)))))"

definition stage_index ::
  "record_world \<Rightarrow> 64 word \<Rightarrow> record_store \<Rightarrow> record_run \<Rightarrow> staged_index \<times> record_store \<times> record_run" where
  "stage_index W gen s r = (case rs_index_source s of
     None \<Rightarrow> (kept_index s, s, r)
   | Some Source_fails \<Rightarrow> (kept_index s, mark_index_behind s, r)
   | Some Source_unchanged \<Rightarrow> (kept_index s, s, r)
   | Some (Source_gives c) \<Rightarrow>
       (case seal_image W gen c s [0..<(ic_size c + index_chunk_size - 1) div index_chunk_size] r of
          (None, r) \<Rightarrow> (kept_index s, mark_index_behind s, r)
        | (Some es, r) \<Rightarrow> (\<lparr>sx_table = map fst es, sx_length = word_of_nat (ic_size c), sx_digests = map snd es,
            sx_version = ic_version c, sx_sealed = True\<rparr>, on_header (\<lambda>h. h\<lparr>sh_index_rows := ic_rows c\<rparr>) s, r)))"

subsection \<open>The file list\<close>

primrec grow_fanout :: "nat \<Rightarrow> nat \<Rightarrow> nat \<Rightarrow> nat" where
  "grow_fanout 0 f n = f"
| "grow_fanout (Suc k) f n = (if 512 * 16 ^ f < n then grow_fanout k (f + 1) n else f)"

fun prefixed :: "nat \<Rightarrow> listed_file list \<Rightarrow> container_error + (string \<times> listed_file) list" where
  "prefixed d [] = Inr []"
| "prefixed d (f # fs) = on_ok (prefix_of (lf_path f) d) (\<lambda>p. on_ok (prefixed d fs) (\<lambda>ps. Inr ((p, f) # ps)))"

definition all_listed :: "(string, sealed_digest) gomap \<Rightarrow> (string, sealed_digest) gomap \<Rightarrow> listed_file list" where
  "all_listed live retained = map snd (fold (\<lambda>(p, d). mput p \<lparr>lf_path = p, lf_digest = d, lf_state = Retained\<rparr>) retained
     (fold (\<lambda>(p, d). mput p \<lparr>lf_path = p, lf_digest = d, lf_state = Live\<rparr>) live []))"

text \<open>The shards in order: kept where their bytes are as before, else written under a new name.\<close>

definition write_shard :: "record_world \<Rightarrow> 64 word \<Rightarrow> string \<Rightarrow> nat \<Rightarrow> string \<Rightarrow> record_run \<Rightarrow> (container_error + shard_ref) \<times> record_run" where
  "write_shard W gen p n b r = (case write_record_file (shard_file_name p gen) b (rw_run_start W) r of
     (Inl e, r) \<Rightarrow> (Inl e, r)
   | (Inr _, r) \<Rightarrow> (Inr \<lparr>sf_prefix = p, sf_name = shard_file_name p gen, sf_sha256 = sha256 b, sf_entries = int n\<rparr>, r))"

definition place_shard ::
  "record_world \<Rightarrow> 64 word \<Rightarrow> (shard_ref \<times> string) option \<Rightarrow> string \<Rightarrow> nat \<Rightarrow> string \<Rightarrow> record_run \<Rightarrow> (container_error + shard_ref) \<times> record_run" where
  "place_shard W gen old p n b r = (case old of
     Some (ref, b') \<Rightarrow> if b' = b then (Inr ref, r) else write_shard W gen p n b r
   | None \<Rightarrow> write_shard W gen p n b r)"

fun write_shards ::
  "record_world \<Rightarrow> 64 word \<Rightarrow> (string \<Rightarrow> (shard_ref \<times> string) option) \<Rightarrow> (string \<times> listed_file) list \<Rightarrow> string list \<Rightarrow> record_run
     \<Rightarrow> (container_error + (shard_ref \<times> string) list) \<times> record_run" where
  "write_shards W gen old by [] r = (Inr [], r)"
| "write_shards W gen old by (p # ps) r =
     (let files = sort_key lf_path (map snd (filter (\<lambda>(q, _). q = p) by))
      in case marshal_shard \<lparr>is_prefix = p, is_files = files\<rparr> of
        Inl e \<Rightarrow> (Inl e, r)
      | Inr b \<Rightarrow> (case place_shard W gen (old p) p (length files) b r of
          (Inl e, r) \<Rightarrow> (Inl e, r)
        | (Inr ref, r) \<Rightarrow> (case write_shards W gen old by ps r of
            (Inl e, r) \<Rightarrow> (Inl e, r) | (Inr refs, r) \<Rightarrow> (Inr ((ref, b) # refs), r))))"

text \<open>A shard of the list before that a new one may keep, with its bytes.\<close>

definition old_shard :: "record_store \<Rightarrow> nat \<Rightarrow> string \<Rightarrow> (shard_ref \<times> string) option" where
  "old_shard s fanout p = (case (rs_inv s, rs_shards s) of
     (Some t, Some shards) \<Rightarrow> if tf_fanout t \<noteq> int fanout then None
       else (case find (\<lambda>ref. sf_prefix ref = p) (rev (tf_shards t)) of None \<Rightarrow> None
         | Some ref \<Rightarrow> Some (ref, case mget shards p of None \<Rightarrow> [] | Some b \<Rightarrow> b))
   | _ \<Rightarrow> None)"

definition write_inventory ::
  "record_world \<Rightarrow> 64 word \<Rightarrow> sealed_digest \<Rightarrow> sealed_digest option \<Rightarrow> (string, sealed_digest) gomap \<Rightarrow> gotime \<Rightarrow> record_store \<Rightarrow> record_run
     \<Rightarrow> container_error option \<times> record_store \<times> record_run" where
  "write_inventory W gen ptr mirror live mt s r =
     (let files = all_listed live (rs_retained s);
          start = (case rs_inv s of None \<Rightarrow> min_fanout | Some t \<Rightarrow> nat (tf_fanout t));
          fanout = grow_fanout (max_fanout - start) start (length files)
      in case prefixed fanout files of
        Inl e \<Rightarrow> (Some e, s, r)
      | Inr by \<Rightarrow> (case write_shards W gen (old_shard s fanout) by (sort (remdups (map fst by))) r of
          (Inl e, r) \<Rightarrow> (Some e, s, r)
        | (Inr refs, r) \<Rightarrow>
            let t = \<lparr>tf_gen = gen, tf_pointer = ptr, tf_mirror = mirror, tf_fanout = int fanout, tf_shards = map fst refs\<rparr>
            in (case marshal_top t of
                Inl e \<Rightarrow> (Some e, s, r)
              | Inr b \<Rightarrow> (case write_record_file inventory_name b mt r of
                  (Inl e, r) \<Rightarrow> (Some e, s, r)
                | (Inr _, r) \<Rightarrow> (None, s\<lparr>rs_inv := Some t, rs_shards := Some (map (\<lambda>(ref, b). (sf_prefix ref, b)) refs),
                    rs_inv_live := mkeys live, rs_inv_retained := mkeys (rs_retained s)\<rparr>, r)))))"

subsection \<open>The sections\<close>

text \<open>A section whose plaintext is unchanged and whose two copies are both good keeps its entries.\<close>

definition keeps_section :: "record_store \<Rightarrow> 32 word \<Rightarrow> nat \<Rightarrow> string \<Rightarrow> bool" where
  "keeps_section s n pos plain \<longleftrightarrow> mget (rs_sections s) (word_of_nat pos) = Some (sha256 plain)
     \<and> word_of_nat pos \<notin> set (rs_reseal s) \<and> n = ph_buckets (rp_head (rs_ptr s))
     \<and> length (entries_at (rp_manifest (rs_ptr s)) pos) = 2"

fun write_sections ::
  "record_world \<Rightarrow> 64 word \<Rightarrow> record_store \<Rightarrow> 32 word \<Rightarrow> nat \<Rightarrow> string list \<Rightarrow> record_run
     \<Rightarrow> (container_error + chunk_entry list) \<times> record_run" where
  "write_sections W gen s n pos [] r = (Inr [], r)"
| "write_sections W gen s n pos (plain # plains) r =
     (if keeps_section s n pos plain
      then (case write_sections W gen s n (Suc pos) plains r of
          (Inl e, r) \<Rightarrow> (Inl e, r) | (Inr es, r) \<Rightarrow> (Inr (entries_at (rp_manifest (rs_ptr s)) pos @ es), r))
      else (case write_chunk W container_manifest gen pos plain r of
          (Inl e, r) \<Rightarrow> (Inl e, r)
        | (Inr e1, r) \<Rightarrow> (case write_chunk W container_manifest gen pos plain r of
            (Inl e, r) \<Rightarrow> (Inl e, r)
          | (Inr e2, r) \<Rightarrow> (case write_sections W gen s n (Suc pos) plains r of
              (Inl e, r) \<Rightarrow> (Inl e, r) | (Inr es, r) \<Rightarrow> (Inr (e1 # e2 # es), r)))))"

definition section_digests :: "string list \<Rightarrow> (32 word, string) gomap" where
  "section_digests sections = map (\<lambda>(i, plain). (word_of_nat i, sha256 plain)) (enumerate 0 sections)"

subsection \<open>The commit\<close>

text \<open>What a commit stages before its pointer: the sections, and the pointer that would name them.\<close>

record staged_commit =
  sc_sections :: "string list"
  sc_history :: staged_history
  sc_index :: staged_index
  sc_pointer :: root_pointer

definition start_commit :: "record_store \<Rightarrow> record_store" where
  "start_commit s = on_header (\<lambda>h. h\<lparr>sh_seen_at := fold (\<lambda>(t, at). mput t at) (rs_walk_done s) (sh_seen_at h)\<rparr>) s"

definition staged_pointer ::
  "record_world \<Rightarrow> 64 word \<Rightarrow> record_store \<Rightarrow> 32 word \<Rightarrow> chunk_entry list \<Rightarrow> staged_history \<Rightarrow> staged_index \<Rightarrow> root_pointer" where
  "staged_pointer W gen s n table hist idx =
     \<lparr>rp_head = (rp_head (rs_ptr s))\<lparr>ph_format := format_version, ph_gen := gen, ph_buckets := n, ph_index_image := sx_length idx,
        ph_index_chunk := (if sx_table idx = [] then 0 else word_of_nat index_chunk_size), ph_index_meta := sx_version idx,
        ph_run_start := word_of_int (unix_secs (rw_run_start W)),
        ph_inv := (case rs_inv s of None \<Rightarrow> ph_inv (rp_head (rs_ptr s)) | Some t \<Rightarrow> tf_gen t)\<rparr>,
      rp_manifest = table, rp_history = sg_table hist, rp_index = sx_table idx\<rparr>"

definition stage_commit ::
  "record_world \<Rightarrow> view \<Rightarrow> 64 word \<Rightarrow> record_store \<Rightarrow> record_run \<Rightarrow> (container_error + staged_commit) \<times> record_store \<times> record_run" where
  "stage_commit W v gen s r = (case stage_history W gen s r of (hist, s, r) \<Rightarrow>
     let s = (case hist of Inl _ \<Rightarrow> hold_history gen s
           | Inr h \<Rightarrow> if 0 < sg_n h \<and> rs_gap_staging s then on_header (\<lambda>d. d\<lparr>sh_history_gap := rs_hist_loss s\<rparr>) s else s);
         hist = (case hist of Inl _ \<Rightarrow> staged_nothing s | Inr h \<Rightarrow> h)
     in case stage_index W gen s r of (idx, s, r) \<Rightarrow>
        (case encode_sections (rw_codec W) (rw_key W) v (rs_hdr s) (ph_buckets (rp_head (rs_ptr s))) (rs_run_stamp s) of
           Inl e \<Rightarrow> (Inl e, s, r)
         | Inr (sections, n) \<Rightarrow> (case write_sections W gen s n 0 sections r of
             (Inl e, r) \<Rightarrow> (Inl e, s, r)
           | (Inr table, r) \<Rightarrow> (Inr \<lparr>sc_sections = sections, sc_history = hist, sc_index = idx,
               sc_pointer = staged_pointer W gen s n table hist idx\<rparr>, s, r))))"

text \<open>What follows the commit point: the mirror, the envelope, and the file list.\<close>

definition write_envelope :: "record_world \<Rightarrow> record_run \<Rightarrow> (container_error + unit) \<times> record_run" where
  "write_envelope W r = write_record_file envelope_name (marshal_envelope W (new_envelope (archive_text W) pointer_name)) (rw_now W) r"

definition landed :: "staged_commit \<Rightarrow> gotime \<Rightarrow> record_store \<Rightarrow> record_store" where
  "landed c mt s = (let s = apply_history (sc_history c) (s\<lparr>rs_ptr := sc_pointer c, rs_sections := section_digests (sc_sections c),
       rs_reseal := [], rs_commits := rs_commits s + 1, rs_fixed_time := mt, rs_walk_done := []\<rparr>)
     in if sx_sealed (sc_index c) then s\<lparr>rs_index_digests := sx_digests (sc_index c), rs_sealed_calls := rs_sealed_calls s + 1\<rparr> else s)"

definition finish_commit ::
  "record_world \<Rightarrow> view \<Rightarrow> string \<Rightarrow> gotime \<Rightarrow> (string, sealed_digest) gomap \<Rightarrow> record_store \<Rightarrow> record_run \<Rightarrow> container_error option \<times> record_store \<times> record_run" where
  "finish_commit W v raw mt prev_live s r =
     (case write_record_file mirror_name raw mt r of (mirror, r) \<Rightarrow>
      let s = (case mirror of Inl _ \<Rightarrow> notice Mirror_unwritten s | Inr _ \<Rightarrow> s)
      in case (if rs_env_heal s then (case write_envelope W r of
             (Inr _, r) \<Rightarrow> (s\<lparr>rs_env_heal := False\<rparr>, r) | (Inl _, r) \<Rightarrow> (notice Envelope_unwritten s, r)) else (s, r)) of (s, r) \<Rightarrow>
      (case live_files W s v of
         Inl e \<Rightarrow> (Some (Inventory_unsaved e), s, r)
       | Inr live \<Rightarrow>
           let retained = fold (\<lambda>(p, d) m. if mget live p = None then mput p d m else m) prev_live (rs_retained s);
               s = s\<lparr>rs_retained := filter (\<lambda>(p, _). mget live p = None) retained, rs_prev_live := live\<rparr>
           in (case write_inventory W (rp_gen (rs_ptr s)) (digest_of raw) (case mirror of Inl _ \<Rightarrow> None | Inr _ \<Rightarrow> Some (digest_of raw)) live mt s r of
               (Some e, s, r) \<Rightarrow> (Some (Inventory_unsaved e), s, r)
             | (None, s, r) \<Rightarrow> (None, s, r))))"

text \<open>The lock proved once more, and the pointer renamed into place: the commit point.\<close>

definition put_pointer ::
  "record_world \<Rightarrow> 64 word \<Rightarrow> root_pointer \<Rightarrow> record_store \<Rightarrow> record_run \<Rightarrow> (container_error + string \<times> gotime) \<times> record_store \<times> record_run" where
  "put_pointer W gen p s r =
     (if \<not> rr_held r then (Inl Archive_lock_lost, s, r)
      else case seal_root (rw_cipher W) (rw_head W) (rw_key W) p (rr_random r) of
        Inl e \<Rightarrow> (Inl e, s, r)
      | Inr (raw, random) \<Rightarrow>
          let mt = next_fixed_time W s; s = s\<lparr>rs_attempted := gen\<rparr>
          in (case write_record_file pointer_name raw mt (r\<lparr>rr_random := random\<rparr>) of
              (Inl e, r) \<Rightarrow> (Inl e, s, r)
            | (Inr _, r) \<Rightarrow> (Inr (raw, mt), s, r)))"

text \<open>A save that does not reach its commit point takes back what it told the header.\<close>

definition undo_header :: "record_store \<Rightarrow> record_store \<Rightarrow> record_store" where
  "undo_header s0 s = on_header (\<lambda>h. h\<lparr>sh_history_gap := sh_history_gap (rs_hdr s0), sh_index_rows := sh_index_rows (rs_hdr s0)\<rparr>) s"

definition commit ::
  "record_world \<Rightarrow> view \<Rightarrow> record_store \<Rightarrow> record_run \<Rightarrow> container_error option \<times> record_store \<times> record_run" where
  "commit W v s r =
     (if rw_read_only W then (Some Opened_to_read, s, r)
      else let s0 = start_commit s; gen = rs_attempted s + 1
      in case stage_commit W v gen s0 r of
           (Inl e, s, r) \<Rightarrow> (Some e, undo_header s0 s, r)
         | (Inr c, s, r) \<Rightarrow> (case put_pointer W gen (sc_pointer c) s r of
             (Inl e, s, r) \<Rightarrow> (Some e, undo_header s0 s, r)
           | (Inr (raw, mt), s, r) \<Rightarrow> finish_commit W v raw mt (rs_prev_live s) (landed c mt s) r))"

text \<open>
  The rest of a sealed record's life (\<^verbatim>\<open>internal/container\<close>): the sweep at a run's start, a fresh archive's
  first save, what the run tells its store between saves, and the readers of the sealed history and search
  index.
\<close>

subsection \<open>The sweep\<close>

definition sweep_after :: "record_store \<Rightarrow> gotime" where
  "sweep_after s = (if rp_gen (rs_ptr s) = 0 then zero_time else from_unix (sint (ph_run_start (rp_head (rs_ptr s)))))"

definition may_remove :: "record_store \<Rightarrow> string \<Rightarrow> gotime \<Rightarrow> bool" where
  "may_remove s rel mtime \<longleftrightarrow> rel \<notin> set (rs_inv_live s) \<and> (rel \<in> set (rs_inv_retained s) \<or> \<not> mtime < sweep_after s)"

definition named_chunks :: "root_pointer \<Rightarrow> string list" where
  "named_chunks p = map (\<lambda>e. chunk_path (ce_name e)) (all_entries p)"

text \<open>A removal: the file goes, or the disk refuses and it stays.\<close>

definition remove_record_file :: "string \<Rightarrow> record_run \<Rightarrow> bool \<times> record_run" where
  "remove_record_file rel r = (case rr_fates r of
     [] \<Rightarrow> (False, r)
   | ok # fates \<Rightarrow>
       let r = r\<lparr>rr_fates := fates\<rparr>; D = (rr_disk r)\<lparr>rd_files := mdel rel (rd_files (rr_disk r))\<rparr>
       in if ok then (True, r\<lparr>rr_disk := D, rr_trail := rr_trail r @ [D]\<rparr>) else (False, r))"

text \<open>What the sweep may take: a chunk not named, removable by the list, regular, and older than the run.\<close>

definition sweepable :: "record_store \<Rightarrow> gotime \<Rightarrow> record_disk \<Rightarrow> string \<Rightarrow> bool" where
  "sweepable s before D rel \<longleftrightarrow> match_file_path rel \<noteq> None \<and> has_prefix rel (chunks_dir @ ''/'') \<and> rel \<notin> set (named_chunks (rs_ptr s))
     \<and> (case mget (rd_files D) rel of Some (Plain_file _ mtime) \<Rightarrow> may_remove s rel mtime \<and> mtime < before | _ \<Rightarrow> False)"

definition list_part :: "record_store \<Rightarrow> gotime \<Rightarrow> record_disk \<Rightarrow> string \<Rightarrow> bool" where
  "list_part s before D rel \<longleftrightarrow> length (split_on CHR ''/'' rel) = 2 \<and> rel \<notin> set (case rs_inv s of None \<Rightarrow> [] | Some t \<Rightarrow> map sf_name (tf_shards t))
     \<and> (case mget (rd_files D) rel of Some (Plain_file _ mtime) \<Rightarrow> mtime < before | _ \<Rightarrow> False)"

text \<open>Paths in turn: those a test allows are removed and counted, routine where a second test says so.\<close>

fun remove_each ::
  "(record_disk \<Rightarrow> string \<Rightarrow> bool) \<Rightarrow> (string \<Rightarrow> bool) \<Rightarrow> string list \<Rightarrow> nat \<times> nat \<Rightarrow> record_run \<Rightarrow> (nat \<times> nat) \<times> record_run" where
  "remove_each may routine [] n r = (n, r)"
| "remove_each may routine (rel # rels) n r =
     (if \<not> may (rr_disk r) rel then remove_each may routine rels n r
      else case remove_record_file rel r of
        (False, r) \<Rightarrow> remove_each may routine rels n r
      | (True, r) \<Rightarrow> remove_each may routine rels (if routine rel then (fst n + 1, snd n) else (fst n, snd n + 1)) r)"

text \<open>The folders of chunks in order, until one is not a folder.\<close>

fun sweep_folders ::
  "record_store \<Rightarrow> gotime \<Rightarrow> string list \<Rightarrow> nat \<times> nat \<Rightarrow> record_run \<Rightarrow> container_error option \<times> (nat \<times> nat) \<times> record_run" where
  "sweep_folders s before [] n r = (None, n, r)"
| "sweep_folders s before (d # ds) n r =
     (if d \<in> set (rd_planted (rr_disk r)) then (Some Record_damaged, n, r)
      else case remove_each (sweepable s before) (\<lambda>rel. rel \<in> set (rs_inv_retained s)) (sort (under d (rr_disk r))) n r of
        (n, r) \<Rightarrow> sweep_folders s before ds n r)"

definition chunk_folders :: "record_disk \<Rightarrow> string list" where
  "chunk_folders D = sort (remdups (map (\<lambda>rel. chunks_dir @ ''/'' @ hd (split_on CHR ''/'' (drop (length chunks_dir + 1) rel)))
     (under chunks_dir D @ filter (\<lambda>d. has_prefix d (chunks_dir @ ''/'')) (rd_planted D))))"

definition sweep_containers ::
  "record_world \<Rightarrow> gotime \<Rightarrow> record_store \<Rightarrow> record_run \<Rightarrow> container_error option \<times> (nat \<times> nat) \<times> record_run" where
  "sweep_containers W before s r =
     (let D = rr_disk r
      in if rw_read_only W then (Some Opened_to_read, (0, 0), r)
         else if \<not> rs_sweep_ok s then (None, (0, 0), r)
         else if list_ex (\<lambda>d. d = ''units'' \<or> has_prefix d ''units/'' \<or> d = chunks_dir) (rd_planted D) then (Some Record_damaged, (0, 0), r)
         else case sweep_folders s before (chunk_folders D) (0, 0) r of
           (Some e, n, r) \<Rightarrow> (Some e, n, r)
         | (None, n, r) \<Rightarrow>
             if inventory_dir \<in> set (rd_planted D) then (Some Record_damaged, n, r)
             else (case remove_each (list_part s before) (\<lambda>_. True) (sort (under inventory_dir (rr_disk r))) n r of (n, r) \<Rightarrow> (None, n, r)))"

subsection \<open>The first save\<close>

fun remove_leftovers :: "string list \<Rightarrow> record_run \<Rightarrow> record_run" where
  "remove_leftovers [] r = r"
| "remove_leftovers (rel # rels) r = remove_leftovers rels (if mget (rd_files (rr_disk r)) rel = Some Planted then r
     else snd (remove_record_file rel r))"

definition init_record ::
  "record_world \<Rightarrow> manifest \<Rightarrow> record_store \<Rightarrow> record_run \<Rightarrow> container_error option \<times> record_store \<times> record_run" where
  "init_record W m s r =
     (if rw_read_only W then (Some Opened_to_read, s, r)
      else if \<not> rs_fresh s then (None, s, r)
      else case write_envelope W (remove_leftovers (sort (under chunks_dir (rr_disk r))) r) of
        (Inl e, r) \<Rightarrow> (Some e, s, r)
      | (Inr _, r) \<Rightarrow>
          (case (case save_view m of None \<Rightarrow> (Some Snapshot_refused, s, r) | Some (v, _) \<Rightarrow> commit W v s r) of
             (e, s, r) \<Rightarrow> (e, if 0 < rp_gen (rs_ptr s) then s\<lparr>rs_fresh := False\<rparr> else s, r)))"

subsection \<open>What a run tells its store\<close>

definition set_run_stamp :: "gotime \<Rightarrow> record_store \<Rightarrow> record_store" where
  "set_run_stamp t s = s\<lparr>rs_run_stamp := t\<rparr>"

definition walk_done :: "string \<Rightarrow> gotime \<Rightarrow> record_store \<Rightarrow> record_store" where
  "walk_done t at s = s\<lparr>rs_walk_done := mput t at (rs_walk_done s)\<rparr>"

definition set_index :: "index_source \<Rightarrow> record_store \<Rightarrow> record_store" where
  "set_index src s = s\<lparr>rs_index_source := Some src\<rparr>"

definition open_timeline :: "record_store \<Rightarrow> record_store" where
  "open_timeline s = (if rs_timeline s = None then s\<lparr>rs_timeline := Some []\<rparr> else s)"

definition close_timeline :: "record_store \<Rightarrow> record_store" where
  "close_timeline s = s\<lparr>rs_timeline_closed := True\<rparr>"

definition set_note_digest :: "string \<Rightarrow> record_store \<Rightarrow> record_store" where
  "set_note_digest d s = (if length d = 64 \<and> list_all (\<lambda>c. in_range 48 57 (byte c) \<or> in_range 97 102 (byte c)) d
     then on_header (\<lambda>h. h\<lparr>sh_note_digest := d\<rparr>) s else s)"

definition max_pause_note :: nat where "max_pause_note = 16384"

definition set_pause_note :: "string \<Rightarrow> record_store \<Rightarrow> record_store" where
  "set_pause_note note s = on_header (\<lambda>h. h\<lparr>sh_pause_note := take max_pause_note note\<rparr>) s"

subsection \<open>The sealed index and history as they are read\<close>

text \<open>The image chunk by chunk: its bytes so far and the digests, or why it does not reassemble.\<close>

fun read_image ::
  "record_world \<Rightarrow> record_disk \<Rightarrow> root_pointer \<Rightarrow> nat \<Rightarrow> chunk_entry list \<Rightarrow> container_error + string \<times> string list" where
  "read_image W D p i [] = Inr ([], [])"
| "read_image W D p i (e # es) =
     (if ce_i e \<noteq> word_of_nat i then Inl (Index_damaged Record_damaged)
      else case open_entry W container_index D e of
        Inl x \<Rightarrow> Inl (Index_damaged x)
      | Inr plain \<Rightarrow>
          if es \<noteq> [] \<and> length plain \<noteq> unat (ph_index_chunk (rp_head p)) then Inl (Index_damaged Record_damaged)
          else on_ok (read_image W D p (Suc i) es) (\<lambda>(img, ds). Inr (plain @ img, sha256 plain # ds)))"

definition index_image :: "record_world \<Rightarrow> record_disk \<Rightarrow> record_store \<Rightarrow> container_error + string option \<times> record_store" where
  "index_image W D s = (let p = rs_ptr s
     in if rp_index p = [] then Inr (None, s)
        else on_ok (read_image W D p 0 (rp_index p)) (\<lambda>(img, ds).
          if int (length img) \<noteq> sint (ph_index_image (rp_head p)) then Inl (Index_damaged Record_damaged)
          else Inr (Some img, if rw_read_only W then s else s\<lparr>rs_index_digests := ds\<rparr>)))"

definition barrier_event :: hist_event where
  "barrier_event = \<lparr>he_run = 0, he_at = [], he_mailboxes = [], he_completed = [], he_k = [], he_folder = [], he_gone = False,
     he_from = [], he_to = [], he_copy = False, he_barrier = True\<rparr>"

text \<open>The sealed timeline: a chunk that cannot be read stands as a barrier, unless a checked reader must know.\<close>

definition gone_or_locked :: "container_error \<Rightarrow> bool" where
  "gone_or_locked e \<longleftrightarrow> e \<in> {File_missing, Vault_said Key_destroyed}"

fun sealed_history :: "record_world \<Rightarrow> record_disk \<Rightarrow> bool \<Rightarrow> chunk_entry list \<Rightarrow> container_error + hist_event list" where
  "sealed_history W D checked [] = Inr []"
| "sealed_history W D checked (e # es) = (case open_entry W container_history D e of
     Inr plain \<Rightarrow> on_ok (sealed_history W D checked es) (\<lambda>evs. Inr (decode_events W plain @ evs))
   | Inl x \<Rightarrow> if checked \<and> gone_or_locked x then Inl x
       else on_ok (sealed_history W D checked es) (\<lambda>evs. Inr (barrier_event # evs)))"

fun history_for_copy :: "record_world \<Rightarrow> record_disk \<Rightarrow> chunk_entry list \<Rightarrow> container_error + hist_event list \<times> nat" where
  "history_for_copy W D [] = Inr ([], 0)"
| "history_for_copy W D (e # es) = (case open_entry W container_history D e of
     Inr plain \<Rightarrow> on_ok (history_for_copy W D es) (\<lambda>(evs, n). Inr (decode_events W plain @ evs, n))
   | Inl x \<Rightarrow> if x = Vault_said Key_destroyed then Inl x
       else on_ok (history_for_copy W D es) (\<lambda>(evs, n). Inr (barrier_event # evs, Suc n)))"

definition peek_file :: "record_disk \<Rightarrow> (64 word \<times> string) option" where
  "peek_file D = (let reads = map (\<lambda>name. read_record_file D name max_pointer_size) [pointer_name, mirror_name];
       part = (\<lambda>x. case x of Inl File_missing \<Rightarrow> CHR 0x00 # ''absent'' @ [CHR 0x00]
         | Inl _ \<Rightarrow> CHR 0x00 # ''unreadable'' @ [CHR 0x00] | Inr (raw, _) \<Rightarrow> sha256 raw);
       gens = List.map_filter (\<lambda>x. case x of Inl _ \<Rightarrow> None
         | Inr (raw, _) \<Rightarrow> (case peek raw of (_, gen, None) \<Rightarrow> Some gen | _ \<Rightarrow> None)) reads
     in if list_all (\<lambda>x. x = Inl File_missing) reads then None
        else Some (case gens of [] \<Rightarrow> 0 | gen # _ \<Rightarrow> gen, sha256 (concat (map part reads))))"

end
