(* ===== verification/RecordSave.thy ===== *)
theory RecordSave
  imports RecordCommit RecordLoad
begin

text \<open>
  What a run leaves of the record wherever it stops: the frame of a write, what staging writes and what it
  leaves alone, and the record a load would find on each disk the run passes through.
\<close>

subsection \<open>The record on a disk\<close>

text \<open>A section's plaintext, from the first of its two copies that opens.\<close>

definition pick :: "record_world \<Rightarrow> record_disk \<Rightarrow> chunk_entry list \<Rightarrow> string option" where
  "pick W D es = (case es of
     [e1, e2] \<Rightarrow> (case open_entry W container_manifest D e1 of
         Inr plain \<Rightarrow> Some plain
       | Inl _ \<Rightarrow> (case open_entry W container_manifest D e2 of Inr plain \<Rightarrow> Some plain | Inl _ \<Rightarrow> None))
   | _ \<Rightarrow> None)"

definition sections_of :: "record_world \<Rightarrow> record_disk \<Rightarrow> root_pointer \<Rightarrow> string list option" where
  "sections_of W D p = (if length (remdups (map ce_i (rp_manifest p))) \<noteq> section_count p then None
     else all_some (\<lambda>pos. pick W D (entries_at (rp_manifest p) pos)) [0..<section_count p])"

definition record_on :: "record_world \<Rightarrow> record_disk \<Rightarrow> (root_pointer \<times> string list) option" where
  "record_on W D = (case best_pointer W D of
     None \<Rightarrow> None
   | Some p \<Rightarrow> if rp_gen p < newest_newer D then None else map_option (Pair p) (sections_of W D p))"

lemma read_section_pick:
  "(\<exists>s'. read_section W D es pos s = Inr (plain, s')) \<longleftrightarrow> pick W D (entries_at es pos) = Some plain"
  by (auto simp: read_section_def pick_def Let_def split: list.splits sum.splits)

lemma read_from_pick:
  "(\<exists>s'. read_from W D es ps s = Inr (plains, s')) \<longleftrightarrow> all_some (\<lambda>pos. pick W D (entries_at es pos)) ps = Some plains"
proof (induction ps arbitrary: s plains)
  case (Cons pos ps)
  show ?case
  proof (cases "pick W D (entries_at es pos)")
    case None
    then have "\<nexists>plain s'. read_section W D es pos s = Inr (plain, s')" using read_section_pick by (metis option.distinct(1))
    then show ?thesis using None by auto
  next
    case (Some plain)
    then obtain s1 where s1: "read_section W D es pos s = Inr (plain, s1)" using read_section_pick by metis
    show ?thesis using Cons.IH [of s1] Some s1 by (auto split: option.splits) metis+
  qed
qed simp

lemma read_sections_pick:
  "(\<exists>s'. read_sections W D s = Inr (plains, s')) \<longleftrightarrow> sections_of W D (rs_ptr s) = Some plains"
  using read_from_pick [of W D "rp_manifest (rs_ptr s)" "[0..<section_count (rs_ptr s)]" s plains]
  by (simp add: read_sections_def sections_of_def Let_def)

text \<open>The record on a disk is what the load's own readers find there.\<close>

lemma record_on_reads:
  "record_on W D = Some (p, plains) \<longleftrightarrow>
     (\<exists>newer s s'. read_pointers W D new_store = Inr (Some p, newer, s) \<and> read_sections W D (s\<lparr>rs_ptr := p\<rparr>) = Inr (plains, s'))"
proof -
  have r: "(\<exists>newer s. read_pointers W D new_store = Inr (Some p, newer, s)) \<longleftrightarrow> best_pointer W D = Some p \<and> newest_newer D \<le> rp_gen p"
    by (auto simp: read_pointers_def Let_def scan_result not_less split: option.splits)
  have "(\<exists>s'. read_sections W D (s\<lparr>rs_ptr := p\<rparr>) = Inr (plains, s')) \<longleftrightarrow> sections_of W D p = Some plains" for s
    using read_sections_pick [of W D "s\<lparr>rs_ptr := p\<rparr>" plains] by simp
  then show ?thesis using r by (auto simp: record_on_def not_less split: option.splits if_splits)
qed

subsection \<open>What reading depends on\<close>

definition same_at :: "record_disk \<Rightarrow> record_disk \<Rightarrow> string set \<Rightarrow> bool" where
  "same_at D D' A \<longleftrightarrow> rd_planted D' = rd_planted D \<and> (\<forall>rel \<in> A. mget (rd_files D') rel = mget (rd_files D) rel)"

lemma same_at_trans: "same_at D D' A \<Longrightarrow> same_at D' D'' B \<Longrightarrow> same_at D D'' (A \<inter> B)"
  by (simp add: same_at_def)

lemma same_at_sub: "same_at D D' B \<Longrightarrow> A \<subseteq> B \<Longrightarrow> same_at D D' A"
  by (auto simp: same_at_def)

lemma read_same: "same_at D D' A \<Longrightarrow> rel \<in> A \<Longrightarrow> read_record_file D' rel most = read_record_file D rel most"
  by (simp add: same_at_def read_record_file_def folders_real_def)

lemma open_same: "same_at D D' A \<Longrightarrow> chunk_path (ce_name e) \<in> A \<Longrightarrow> open_entry W k D' e = open_entry W k D e"
  by (simp add: open_entry_def read_chunk_def read_same)

lemma pick_same:
  assumes "same_at D D' A" and "(\<lambda>e. chunk_path (ce_name e)) ` set es \<subseteq> A"
  shows "pick W D' es = pick W D es"
proof -
  have "\<forall>e \<in> set es. open_entry W container_manifest D' e = open_entry W container_manifest D e"
    using open_same [OF assms(1)] assms(2) by blast
  then show ?thesis by (cases es; cases "tl es"; cases "tl (tl es)") (simp_all add: pick_def split: sum.split)
qed

lemma pointer_same:
  assumes "same_at D D' A" and "{pointer_name, mirror_name} \<subseteq> A"
  shows "best_pointer W D' = best_pointer W D" "newest_newer D' = newest_newer D"
  using assms read_same [OF assms(1), where most = max_pointer_size]
  by (simp_all add: best_pointer_def newest_newer_def pointer_at_def newer_at_def)

lemma all_some_cong: "(\<And>x. x \<in> set xs \<Longrightarrow> f x = g x) \<Longrightarrow> all_some f xs = all_some g xs"
  by (induction xs) (auto split: option.splits)

lemma sections_same:
  assumes "same_at D D' A" and "(\<lambda>e. chunk_path (ce_name e)) ` set (rp_manifest p) \<subseteq> A"
  shows "sections_of W D' p = sections_of W D p"
proof -
  have "pick W D' (entries_at (rp_manifest p) pos) = pick W D (entries_at (rp_manifest p) pos)" for pos
    using assms by (intro pick_same [OF assms(1)]) (auto simp: entries_at_def)
  then show ?thesis by (simp add: sections_of_def)
qed

text \<open>Where chunks lie: apart from each other and from every other file of the record.\<close>

lemma chunk_path_inj: "chunk_path m = chunk_path n \<Longrightarrow> length m = length n \<Longrightarrow> m = n"
proof -
  assume e: "chunk_path m = chunk_path n" and l: "length m = length n"
  have "length (take 2 (name_text m)) = length (take 2 (name_text n))" by (simp add: name_text_def l)
  then have "name_text m = name_text n" using e by (simp add: chunk_path_def Let_def)
  then show "m = n" using hex_encode_inj by (simp add: name_text_def)
qed

lemma chunk_path_elsewhere:
  "chunk_path n \<notin> {pointer_name, mirror_name, envelope_name, inventory_name}" "chunk_path n \<noteq> shard_file_name p gen"
  by (simp_all add: chunk_path_def Let_def chunks_dir_def pointer_name_def mirror_name_def envelope_name_def inventory_name_def
      shard_file_name_def inventory_dir_def)

lemma names_apart:
  "pointer_name \<noteq> mirror_name" "envelope_name \<notin> {pointer_name, mirror_name}" "inventory_name \<notin> {pointer_name, mirror_name}"
  "shard_file_name p gen \<notin> {pointer_name, mirror_name}"
  by (simp_all add: pointer_name_def mirror_name_def envelope_name_def inventory_name_def shard_file_name_def inventory_dir_def)

subsection \<open>What staging writes\<close>

text \<open>From \<open>r\<close> to \<open>r'\<close> the names \<open>ns\<close> were drawn, and nothing was written but chunks of those names.\<close>

definition untouched :: "string list \<Rightarrow> string set" where
  "untouched ns = - chunk_path ` set ns"

definition stages :: "record_run \<Rightarrow> string list \<Rightarrow> record_run \<Rightarrow> bool" where
  "stages r ns r' \<longleftrightarrow> rr_names r = concat ns @ rr_names r' \<and> (\<forall>n \<in> set ns. length n = id_size)
     \<and> (\<exists>T. rr_trail r' = rr_trail r @ T \<and> (\<forall>D \<in> set T. same_at (rr_disk r) D (untouched ns)))
     \<and> same_at (rr_disk r) (rr_disk r') (untouched ns)"

lemma stages_refl [simp]: "stages r [] r"
  by (simp add: stages_def same_at_def)

lemma stages_random [simp]: "stages r ns (r'\<lparr>rr_random := x\<rparr>) \<longleftrightarrow> stages r ns r'" "stages (r\<lparr>rr_random := x\<rparr>) ns r' \<longleftrightarrow> stages r ns r'"
  by (simp_all add: stages_def)

lemma stages_trans:
  assumes "stages a ms b" "stages b ns c"
  shows "stages a (ms @ ns) c"
proof -
  obtain S T where t: "rr_trail b = rr_trail a @ S" "\<forall>D \<in> set S. same_at (rr_disk a) D (untouched ms)"
    "rr_trail c = rr_trail b @ T" "\<forall>D \<in> set T. same_at (rr_disk b) D (untouched ns)"
    using assms by (auto simp: stages_def)
  have d: "same_at (rr_disk a) (rr_disk b) (untouched ms)" "same_at (rr_disk b) (rr_disk c) (untouched ns)"
    using assms by (simp_all add: stages_def)
  have u: "untouched (ms @ ns) = untouched ms \<inter> untouched ns" by (auto simp: untouched_def)
  have "same_at (rr_disk a) D (untouched (ms @ ns))" if "D \<in> set (S @ T)" for D
    using t(2,4) that same_at_trans [OF d(1)] same_at_sub [of "rr_disk a" D "untouched ms"] unfolding u by auto
  moreover have "same_at (rr_disk a) (rr_disk c) (untouched (ms @ ns))" using same_at_trans [OF d] unfolding u .
  ultimately show ?thesis using assms t(1,3) by (auto simp: stages_def)
qed

lemma write_chunk_stages:
  assumes "write_chunk W kind gen pos plain r = (res, r')"
  shows "\<exists>ns. stages r ns r' \<and> (\<forall>e. res = Inr e \<longrightarrow> ns = [ce_name e])"
proof (cases "seal_chunk (rw_cipher W) (rw_key W) kind gen (word_of_nat pos) plain (rr_random r)")
  case (Inl e)
  then show ?thesis using assms by (auto simp: write_chunk_def intro: exI [of _ "[]"])
next
  case (Inr x)
  obtain sealed random where x: "x = (sealed, random)" by fastforce
  show ?thesis
  proof (cases "max_chunk_size < length sealed \<or> (\<exists>e. new_name (rr_names r) = Inl e)")
    case True
    then have "r' = r\<lparr>rr_random := random\<rparr> \<and> (\<nexists>e. res = Inr e)" using assms Inr x by (auto simp: write_chunk_def Let_def split: if_splits)
    then show ?thesis by (intro exI [of _ "[]"]) simp
  next
    case False
    then obtain name names where n: "new_name (rr_names r) = Inr (name, names)" by (metis old.sum.exhaust prod.exhaust)
    then have nn: "rr_names r = name @ names" "length name = id_size"
      by (auto simp: new_name_def split: sum.splits dest!: draw_some)
    let ?r = "r\<lparr>rr_random := random, rr_names := names\<rparr>"
    obtain w r1 where w: "write_record_file (chunk_path name) sealed (rw_run_start W) ?r = (w, r1)" by fastforce
    have st: "stages r [name] r1"
      using w nn by (auto simp: write_record_file_def stages_def same_at_def untouched_def Let_def split: if_splits list.splits)
    have "res = (case w of Inl e \<Rightarrow> Inl e | Inr _ \<Rightarrow> Inr \<lparr>ce_i = word_of_nat pos, ce_name = name, ce_gen = gen,
        ce_sha256 = sha256 sealed, ce_size = word_of_nat (length sealed)\<rparr>)" "r' = r1"
      using assms Inr x False n w by (auto simp: write_chunk_def Let_def split: sum.splits)
    then show ?thesis using st by (auto split: sum.splits)
  qed
qed

lemma write_chunk_opens:
  assumes "authentic_cipher (rw_cipher W)" and "write_chunk W kind gen pos plain r = (Inr e, r')"
  shows "open_entry W kind (rr_disk r') e = Inr plain \<and> entry_shape e \<and> ce_i e = word_of_nat pos \<and> ce_gen e = gen"
proof -
  obtain sealed random name names where s: "seal_chunk (rw_cipher W) (rw_key W) kind gen (word_of_nat pos) plain (rr_random r) = Inr (sealed, random)"
    "\<not> max_chunk_size < length sealed" "new_name (rr_names r) = Inr (name, names)"
    and w: "write_record_file (chunk_path name) sealed (rw_run_start W) (r\<lparr>rr_random := random, rr_names := names\<rparr>) = (Inr (), r')"
    and e: "e = \<lparr>ce_i = word_of_nat pos, ce_name = name, ce_gen = gen, ce_sha256 = sha256 sealed, ce_size = word_of_nat (length sealed)\<rparr>"
    using assms(2) by (auto simp: write_chunk_def Let_def split: sum.splits if_splits prod.splits)
  have f: "mget (rd_files (rr_disk r')) (chunk_path name) = Some (Plain_file sealed (rw_run_start W))" "folders_real (rr_disk r') (chunk_path name)"
    using w by (auto simp: write_record_file_def folders_real_def Let_def split: if_splits list.splits)
  have "length sealed < 2 ^ 32" using s(2) by (simp add: max_chunk_size_def)
  then have "read_chunk (rr_disk r') e = Inr sealed"
    using f by (simp add: read_chunk_def read_record_file_def e unat_of_nat)
  moreover have "open_chunk (rw_cipher W) (rw_key W) kind gen (word_of_nat pos) sealed = Inr plain"
    using s(1) open_seal [OF assms(1)]
    by (auto simp: seal_chunk_def open_chunk_def container_use_def with_key_def split: option.splits if_splits)
  moreover have "length name = id_size" using s(3) by (auto simp: new_name_def split: sum.splits dest!: draw_some)
  ultimately show ?thesis by (simp add: open_entry_def vault_step_def e entry_shape_def)
qed

subsection \<open>Names that are not in use\<close>

function name_blocks :: "string \<Rightarrow> string list" where
  "name_blocks names = (if length names < id_size then [] else take id_size names # name_blocks (drop id_size names))"
  by pat_completeness auto
termination by (relation "measure length") (auto simp: id_size_def)

declare name_blocks.simps [simp del]

lemma name_blocks_concat: "\<forall>n \<in> set ns. length n = id_size \<Longrightarrow> name_blocks (concat ns @ rest) = ns @ name_blocks rest"
proof (induction ns)
  case (Cons n ns)
  then show ?case by (subst name_blocks.simps) simp
qed simp

text \<open>No name still to be drawn is one the pointer's sections use.\<close>

definition fresh_names :: "root_pointer \<Rightarrow> string \<Rightarrow> bool" where
  "fresh_names p names \<longleftrightarrow> list_all (\<lambda>e. ce_name e \<notin> set (name_blocks names)) (rp_manifest p)"

definition record_paths :: "root_pointer \<Rightarrow> string set" where
  "record_paths p = {pointer_name, mirror_name} \<union> (\<lambda>e. chunk_path (ce_name e)) ` set (rp_manifest p)"

lemma stages_fresh:
  assumes "stages r ns r'" and "fresh_names p (rr_names r)"
  shows "fresh_names p (rr_names r')" "\<forall>e \<in> set (rp_manifest p). ce_name e \<notin> set ns"
proof -
  have "name_blocks (rr_names r) = ns @ name_blocks (rr_names r')"
    using assms(1) name_blocks_concat by (auto simp: stages_def)
  then show "fresh_names p (rr_names r')" "\<forall>e \<in> set (rp_manifest p). ce_name e \<notin> set ns"
    using assms(2) by (auto simp: fresh_names_def list_all_iff)
qed

lemma chunk_untouched:
  assumes "\<forall>n \<in> set ns. length n = id_size" and "entry_shape e" and "ce_name e \<notin> set ns"
  shows "chunk_path (ce_name e) \<in> untouched ns"
  using assms chunk_path_inj by (fastforce simp: untouched_def entry_shape_def)

lemma record_untouched:
  assumes "stages r ns r'" and "fresh_names p (rr_names r)" and "pointer_shape p"
  shows "record_paths p \<subseteq> untouched ns"
proof -
  have l: "\<forall>n \<in> set ns. length n = id_size" using assms(1) by (simp add: stages_def)
  have "chunk_path (ce_name e) \<in> untouched ns" if "e \<in> set (rp_manifest p)" for e
    using chunk_untouched [OF l] stages_fresh(2) [OF assms(1,2)] assms(3) that by (simp add: pointer_shape_def list_all_iff)
  moreover have "{pointer_name, mirror_name} \<subseteq> untouched ns" using chunk_path_elsewhere by (force simp: untouched_def)
  ultimately show ?thesis by (auto simp: record_paths_def)
qed

lemma stages_record:
  assumes "stages r ns r'" and "fresh_names p (rr_names r)" and "pointer_shape p"
  shows "same_at (rr_disk r) (rr_disk r') (record_paths p)"
    "\<exists>T. rr_trail r' = rr_trail r @ T \<and> (\<forall>D \<in> set T. same_at (rr_disk r) D (record_paths p))"
  using assms(1) same_at_sub [OF _ record_untouched [OF assms]] by (auto simp: stages_def)

lemma kept_record:
  assumes "same_at D D' (record_paths p)" and "best_pointer W D \<in> {None, Some p}"
  shows "record_on W D' = record_on W D"
proof -
  have "best_pointer W D' = best_pointer W D" "newest_newer D' = newest_newer D"
    using pointer_same [OF assms(1)] by (simp_all add: record_paths_def)
  moreover have "sections_of W D' p = sections_of W D p" by (rule sections_same [OF assms(1)]) (auto simp: record_paths_def)
  ultimately show ?thesis using assms(2) by (auto simp: record_on_def)
qed

text \<open>The digests a store remembers are those of the sections its pointer names.\<close>

definition digests_known :: "record_world \<Rightarrow> record_disk \<Rightarrow> record_store \<Rightarrow> bool" where
  "digests_known W D s \<longleftrightarrow> (\<forall>pos d. mget (rs_sections s) (word_of_nat pos) = Some d
     \<longrightarrow> map_option sha256 (pick W D (entries_at (rp_manifest (rs_ptr s)) pos)) = Some d)"

lemma known_kept:
  assumes "same_at D D' (record_paths (rs_ptr s))"
  shows "digests_known W D' s = digests_known W D s"
proof -
  have "pick W D' (entries_at (rp_manifest (rs_ptr s)) pos) = pick W D (entries_at (rp_manifest (rs_ptr s)) pos)" for pos
    by (intro pick_same [OF assms]) (auto simp: entries_at_def record_paths_def)
  then show ?thesis by (simp add: digests_known_def)
qed

text \<open>
  What the staging of a commit leaves: only fresh chunks on the disk, the store's pointer and digests as they
  were, and a table whose entries open to the sections they were written for.
\<close>

subsection \<open>History and index\<close>

definition same_core :: "record_store \<Rightarrow> record_store \<Rightarrow> bool" where
  "same_core s s' \<longleftrightarrow> rs_ptr s' = rs_ptr s \<and> rs_attempted s' = rs_attempted s \<and> rs_sections s' = rs_sections s
     \<and> rs_reseal s' = rs_reseal s"

lemma same_core_refl [simp]: "same_core s s"
  by (simp add: same_core_def)

lemma same_core_trans: "same_core a b \<Longrightarrow> same_core b c \<Longrightarrow> same_core a c"
  by (simp add: same_core_def)

lemma same_core_steps [simp]:
  "same_core s (on_header f s')  \<longleftrightarrow> same_core s s'" "same_core s (notice n s') \<longleftrightarrow> same_core s s'"
  "same_core s (s'\<lparr>rs_quiet_behind := b\<rparr>) \<longleftrightarrow> same_core s s'" "same_core s (s'\<lparr>rs_hist_loss := g\<rparr>) \<longleftrightarrow> same_core s s'"
  "same_core s (s'\<lparr>rs_gap_staging := b\<rparr>) \<longleftrightarrow> same_core s s'" "same_core s (s'\<lparr>rs_tail_loaded := b\<rparr>) \<longleftrightarrow> same_core s s'"
  "same_core s (s'\<lparr>rs_tail_bad := b\<rparr>) \<longleftrightarrow> same_core s s'" "same_core s (s'\<lparr>rs_hist_tail := t, rs_hist_header := h\<rparr>) \<longleftrightarrow> same_core s s'"
  by (simp_all add: same_core_def on_header_def notice_def)

lemma load_tail_core: "same_core s (load_tail W D s)"
  by (simp add: load_tail_def split: list.split sum.split)

lemma open_tail_facts:
  assumes "open_tail gen lines s = (kept, tail, s')"
  shows "same_core s s' \<and> set kept \<subseteq> set (rp_history (rs_ptr s))"
  using assms by (auto simp: open_tail_def mark_history_loss_def Let_def split: if_splits dest: in_set_butlastD)

lemma write_chunk_shape:
  assumes "write_chunk W kind gen pos plain r = (Inr e, r')"
  shows "entry_shape e"
proof -
  obtain ns where "stages r ns r'" "ns = [ce_name e]" using write_chunk_stages [OF assms] by auto
  then have "length (ce_name e) = id_size" by (simp add: stages_def)
  moreover have "length (ce_sha256 e) = 32" using assms by (auto simp: write_chunk_def Let_def split: sum.splits if_splits prod.splits)
  ultimately show ?thesis by (simp add: entry_shape_def)
qed

lemma stage_history_facts:
  assumes "stage_history W gen s r = (res, s', r')"
  shows "(\<exists>ns. stages r ns r') \<and> same_core s s'
    \<and> (\<forall>h. res = Inr h \<longrightarrow> list_all entry_shape (rp_history (rs_ptr s)) \<longrightarrow> list_all entry_shape (sg_table h))"
proof (cases "rs_timeline s = None \<or> rs_timeline s = Some []")
  case True
  then have "res = Inr (staged_nothing s) \<and> s' = s \<and> r' = r" using assms by (auto simp: stage_history_def)
  then show ?thesis by (auto simp: staged_nothing_def intro: exI [of _ "[]"])
next
  case False
  then obtain ev evs where t: "rs_timeline s = Some (ev # evs)" by (cases "rs_timeline s"; cases "the (rs_timeline s)") auto
  show ?thesis
  proof (cases "encode_events W (ev # evs)")
    case (Inl e)
    then have "res = Inl e \<and> s' = s \<and> r' = r" using assms t by (simp add: stage_history_def del: encode_events.simps)
    then show ?thesis by (auto intro: exI [of _ "[]"])
  next
    case (Inr lines)
    let ?s = "load_tail W (rr_disk r) s"
    obtain kept tail s1 where o: "open_tail gen lines ?s = (kept, tail, s1)" by (metis prod_cases3)
    note of = open_tail_facts [OF o]
    have c: "same_core s s1" using load_tail_core of same_core_trans by blast
    have k: "set kept \<subseteq> set (rp_history (rs_ptr s))" using of load_tail_core [of s W "rr_disk r"] by (simp add: same_core_def)
    let ?t = "if tail = [] \<and> \<not> is_run_header ev
                   then (case rs_hist_header s1 of None \<Rightarrow> Inr [] | Some h \<Rightarrow> encode_events W [h]) else Inr tail"
    have r: "(res, s', r') = (case ?t of
               Inl e \<Rightarrow> (Inl e, s1, r)
             | Inr tail \<Rightarrow> (case write_chunk W container_history gen (length kept) (tail @ lines) r of
                 (Inl e, r) \<Rightarrow> (Inl e, s1, r)
               | (Inr e, r) \<Rightarrow> (Inr \<lparr>sg_table = kept @ [e], sg_n = length (ev # evs), sg_tail = tail @ lines,
                   sg_header = last_header (ev # evs) (rs_hist_header s1), sg_clear_bad = rs_tail_bad ?s\<rparr>, s1, r)))"
      using assms by (simp only: stage_history_def t option.case list.case Inr sum.case Let_def o prod.case list.sel)
    show ?thesis
    proof (cases ?t)
      case (Inl e)
      then have "res = Inl e \<and> s' = s1 \<and> r' = r" using r by simp
      then show ?thesis using c by (auto intro: exI [of _ "[]"])
    next
      case (Inr tl)
      obtain w r1 where w: "write_chunk W container_history gen (length kept) (tl @ lines) r = (w, r1)" by fastforce
      have "s' = s1 \<and> r' = r1 \<and> (\<forall>h. res = Inr h \<longrightarrow> (\<exists>e. w = Inr e \<and> sg_table h = kept @ [e]))"
        using r unfolding Inr by (auto simp: w split: sum.splits)
      moreover have "entry_shape e" if "w = Inr e" for e using write_chunk_shape w that by simp
      ultimately show ?thesis using write_chunk_stages [OF w] c k by (fastforce simp: list_all_iff)
    qed
  qed
qed

lemma seal_image_facts:
  "seal_image W gen c s is r = (res, r') \<Longrightarrow> (\<exists>ns. stages r ns r')
    \<and> (\<forall>es. res = Some es \<longrightarrow> list_all entry_shape (rp_index (rs_ptr s)) \<longrightarrow> list_all (entry_shape \<circ> fst) es)"
proof (induction "is" arbitrary: r res r')
  case Nil
  then show ?case by (auto intro: exI [of _ "[]"])
next
  case (Cons i js)
  show ?case
  proof (cases "ic_read c (i * index_chunk_size) (min index_chunk_size (ic_size c - i * index_chunk_size))")
    case None
    then show ?thesis using Cons.prems by (auto intro: exI [of _ "[]"])
  next
    case (Some plain)
    obtain rest r1 where rest: "seal_image W gen c s js r = (rest, r1)" by fastforce
    note kept = Cons.IH [OF rest]
    obtain w r2 where w: "write_chunk W container_index gen i plain r = (w, r2)" by fastforce
    obtain rest3 r3 where rest3: "seal_image W gen c s js r2 = (rest3, r3)" by fastforce
    note new = Cons.IH [OF rest3] and ws = write_chunk_stages [OF w]
    show ?thesis
    proof (cases "i < length (rs_index_digests s) \<and> i < length (rp_index (rs_ptr s)) \<and> rs_index_digests s ! i = sha256 plain")
      case True
      then have "r' = r1 \<and> res = map_option (Cons (rp_index (rs_ptr s) ! i, sha256 plain)) rest"
        using Cons.prems Some rest by (auto simp: Let_def split: option.splits)
      moreover have "list_all entry_shape (rp_index (rs_ptr s)) \<Longrightarrow> entry_shape (rp_index (rs_ptr s) ! i)"
        using True by (simp add: list_all_length)
      ultimately show ?thesis using kept by auto
    next
      case False
      show ?thesis
      proof (cases w)
        case (Inl e)
        then have "r' = r2 \<and> res = None" using Cons.prems Some False w by (auto simp: Let_def)
        then show ?thesis using ws by blast
      next
        case (Inr e)
        then have "r' = r3 \<and> res = map_option (Cons (e, sha256 plain)) rest3"
          using Cons.prems Some False w rest3 by (auto simp: Let_def split: option.splits)
        moreover have "entry_shape e" using write_chunk_shape w Inr by blast
        ultimately show ?thesis using new ws stages_trans by (auto, blast)
      qed
    qed
  qed
qed

lemma stage_index_facts:
  assumes "stage_index W gen s r = (idx, s', r')"
  shows "(\<exists>ns. stages r ns r') \<and> same_core s s' \<and> (list_all entry_shape (rp_index (rs_ptr s)) \<longrightarrow> list_all entry_shape (sx_table idx))"
proof (cases "\<exists>c. rs_index_source s = Some (Source_gives c)")
  case False
  then have "r' = r \<and> same_core s s' \<and> sx_table idx = rp_index (rs_ptr s)"
    using assms by (auto simp: stage_index_def mark_index_behind_def kept_index_def split: option.splits index_source.splits)
  then show ?thesis by (auto intro: exI [of _ "[]"])
next
  case True
  then obtain c where c: "rs_index_source s = Some (Source_gives c)" by blast
  obtain res r1 where i: "seal_image W gen c s [0..<(ic_size c + index_chunk_size - 1) div index_chunk_size] r = (res, r1)" by fastforce
  have "r' = r1 \<and> same_core s s' \<and> sx_table idx = (case res of None \<Rightarrow> rp_index (rs_ptr s) | Some es \<Rightarrow> map fst es)"
    using assms by (cases res) (auto simp: stage_index_def c i mark_index_behind_def kept_index_def simp del: One_nat_def)
  then show ?thesis using seal_image_facts [OF i] by (auto simp: list.pred_map split: option.splits)
qed

subsection \<open>The sections\<close>

text \<open>From one position on, two entries for each section, and the digest of what the two open to.\<close>

fun pairs :: "record_world \<Rightarrow> record_disk \<Rightarrow> nat \<Rightarrow> string list \<Rightarrow> chunk_entry list \<Rightarrow> bool" where
  "pairs W D pos [] es \<longleftrightarrow> es = []"
| "pairs W D pos (d # ds) (e1 # e2 # es) \<longleftrightarrow> ce_i e1 = word_of_nat pos \<and> ce_i e2 = word_of_nat pos
     \<and> map_option sha256 (pick W D [e1, e2]) = Some d \<and> pairs W D (Suc pos) ds es"
| "pairs W D pos (d # ds) es \<longleftrightarrow> False"

lemma span_Suc: "[pos..<pos + Suc n] = pos # [Suc pos..<Suc pos + n]"
  by (simp add: upt_conv_Cons del: upt_Suc)

lemma pairs_positions:
  "pairs W D pos ds es \<Longrightarrow> map ce_i es = concat (map (\<lambda>q. [word_of_nat q, word_of_nat q]) [pos..<pos + length ds])"
proof (induction W D pos ds es rule: pairs.induct)
  case (2 W D pos d ds e1 e2 es)
  then show ?case unfolding list.size(4) add_0 One_nat_def add_Suc_right span_Suc [unfolded add_Suc_right] by (simp del: upt_Suc)
qed simp_all

lemma word_pos_inj: "p < 2 ^ 32 \<Longrightarrow> q < 2 ^ 32 \<Longrightarrow> (word_of_nat p :: 32 word) = word_of_nat q \<longleftrightarrow> p = q"
proof -
  assume "p < 2 ^ 32" "q < 2 ^ 32"
  then have "unat (word_of_nat p :: 32 word) = p" "unat (word_of_nat q :: 32 word) = q" by (simp_all add: unat_of_nat)
  then show ?thesis by metis
qed

lemma pairs_count:
  assumes "pairs W D 0 ds es" and "length ds \<le> 2 ^ 32"
  shows "length (remdups (map ce_i es)) = length ds"
proof -
  have "set (map ce_i es) = (word_of_nat :: nat \<Rightarrow> 32 word) ` {0..<length ds}"
    unfolding pairs_positions [OF assms(1)] by auto
  moreover have "inj_on (word_of_nat :: nat \<Rightarrow> 32 word) {0..<length ds}"
    using assms(2) word_pos_inj by (auto intro!: inj_onI)
  ultimately show ?thesis by (simp only: length_remdups_card_conv card_image card_atLeastLessThan diff_zero)
qed

lemma pairs_pick:
  "pairs W D pos ds es \<Longrightarrow> pos + length ds \<le> 2 ^ 32
   \<Longrightarrow> \<exists>plains. all_some (\<lambda>q. pick W D (entries_at es q)) [pos..<pos + length ds] = Some plains \<and> map sha256 plains = ds"
proof (induction W D pos ds es rule: pairs.induct)
  case (2 W D pos d ds e1 e2 es)
  obtain plains where plains: "all_some (\<lambda>q. pick W D (entries_at es q)) [Suc pos..<Suc pos + length ds] = Some plains" "map sha256 plains = ds"
    using 2 by auto
  have p: "ce_i e1 = word_of_nat pos" "ce_i e2 = word_of_nat pos" "map_option sha256 (pick W D [e1, e2]) = Some d" "pairs W D (Suc pos) ds es"
    using "2.prems"(1) by simp_all
  have at: "set (map ce_i es) = word_of_nat ` {Suc pos..<Suc pos + length ds}" unfolding pairs_positions [OF p(4)] by auto
  have "ce_i e \<noteq> word_of_nat pos" if "e \<in> set es" for e
  proof
    assume "ce_i e = word_of_nat pos"
    moreover have "ce_i e \<in> set (map ce_i es)" using that by simp
    ultimately obtain q where "q \<in> {Suc pos..<Suc pos + length ds}" "(word_of_nat pos :: 32 word) = word_of_nat q"
      unfolding at by auto
    then show False using "2.prems"(2) word_pos_inj [of pos q] by simp
  qed
  then have "entries_at es pos = []" by (simp add: entries_at_def)
  then have here: "entries_at (e1 # e2 # es) pos = [e1, e2]" using p by (simp add: entries_at_def)
  have "pick W D (entries_at (e1 # e2 # es) q) = pick W D (entries_at es q)" if "q \<in> set [Suc pos..<Suc pos + length ds]" for q
  proof -
    have "q \<noteq> pos" "q < 2 ^ 32" "pos < 2 ^ 32" using "2.prems"(2) that by auto
    then have "(word_of_nat pos :: 32 word) \<noteq> word_of_nat q" using word_pos_inj by metis
    then show ?thesis by (simp add: entries_at_def p(1,2))
  qed
  then have "all_some (\<lambda>q. pick W D (entries_at (e1 # e2 # es) q)) [Suc pos..<Suc pos + length ds] = Some plains"
    using all_some_cong [of "[Suc pos..<Suc pos + length ds]"] plains(1) by metis
  then show ?case using here p(3) plains(2) unfolding list.size(4) add_0 One_nat_def add_Suc_right span_Suc [unfolded add_Suc_right]
    by (auto simp del: upt_Suc)
qed simp_all

lemma write_sections_facts:
  assumes "authentic_cipher (rw_cipher W)" and "pointer_shape (rs_ptr s)"
  shows "write_sections W gen s n pos plains r = (res, r') \<Longrightarrow> fresh_names (rs_ptr s) (rr_names r) \<Longrightarrow> digests_known W (rr_disk r) s
    \<Longrightarrow> \<exists>ns. stages r ns r' \<and> (\<forall>es. res = Inr es \<longrightarrow> set ns \<subseteq> ce_name ` set es \<and> list_all entry_shape es
       \<and> (distinct (map ce_name es) \<longrightarrow> pairs W (rr_disk r') pos (map sha256 plains) es))"
proof (induction plains arbitrary: pos r res r')
  case Nil
  then show ?case by (auto intro: exI [of _ "[]"])
next
  case (Cons plain plains)
  show ?case
  proof (cases "keeps_section s n pos plain")
    case True
    obtain rest r1 where rest: "write_sections W gen s n (Suc pos) plains r = (rest, r1)" by fastforce
    obtain ns where ns: "stages r ns r1" "\<And>es. rest = Inr es \<Longrightarrow> set ns \<subseteq> ce_name ` set es \<and> list_all entry_shape es
       \<and> (distinct (map ce_name es) \<longrightarrow> pairs W (rr_disk r1) (Suc pos) (map sha256 plains) es)"
      using Cons.IH [OF rest Cons.prems(2,3)] by blast
    have r: "r' = r1" "res = (case rest of Inl e \<Rightarrow> Inl e | Inr es \<Rightarrow> Inr (entries_at (rp_manifest (rs_ptr s)) pos @ es))"
      using Cons.prems(1) True rest by (auto split: sum.splits)
    obtain e1 e2 where e: "entries_at (rp_manifest (rs_ptr s)) pos = [e1, e2]"
      using True by (auto simp: keeps_section_def length_Suc_conv numeral_2_eq_2)
    then have es: "{e1, e2} \<subseteq> set (rp_manifest (rs_ptr s))" "ce_i e1 = word_of_nat pos" "ce_i e2 = word_of_nat pos"
      using arg_cong [OF e, of set] unfolding entries_at_def set_filter by auto
    have "map_option sha256 (pick W (rr_disk r) [e1, e2]) = Some (sha256 plain)"
    proof -
      have "mget (rs_sections s) (word_of_nat pos) = Some (sha256 plain)" using True by (simp add: keeps_section_def)
      then show ?thesis using Cons.prems(3) e unfolding digests_known_def by metis
    qed
    moreover note stages_record(1) [OF ns(1) Cons.prems(2) assms(2)]
    then have "pick W (rr_disk r1) [e1, e2] = pick W (rr_disk r) [e1, e2]"
      by (rule pick_same) (use es in \<open>auto simp: record_paths_def\<close>)
    moreover have "entry_shape e1" "entry_shape e2" using assms(2) es(1) by (auto simp: pointer_shape_def list_all_iff)
    ultimately have "\<forall>es. res = Inr es \<longrightarrow> set ns \<subseteq> ce_name ` set es \<and> list_all entry_shape es
       \<and> (distinct (map ce_name es) \<longrightarrow> pairs W (rr_disk r') pos (map sha256 (plain # plains)) es)"
      using ns(2) es(2,3) r by (cases rest) (auto simp: e)
    then show ?thesis using ns(1) r(1) by blast
  next
    case False
    obtain w1 r1 where w1: "write_chunk W container_manifest gen pos plain r = (w1, r1)" by fastforce
    obtain w2 r2 where w2: "write_chunk W container_manifest gen pos plain r1 = (w2, r2)" by fastforce
    obtain rest r3 where rest: "write_sections W gen s n (Suc pos) plains r2 = (rest, r3)" by fastforce
    obtain n1 where n1: "stages r n1 r1" "\<And>e. w1 = Inr e \<Longrightarrow> n1 = [ce_name e]" using write_chunk_stages [OF w1] by blast
    obtain n2 where n2: "stages r1 n2 r2" "\<And>e. w2 = Inr e \<Longrightarrow> n2 = [ce_name e]" using write_chunk_stages [OF w2] by blast
    have st: "stages r (n1 @ n2) r2" using stages_trans n1(1) n2(1) by blast
    have k: "digests_known W (rr_disk r2) s"
      using known_kept [OF stages_record(1) [OF st Cons.prems(2) assms(2)]] Cons.prems(3) by simp
    obtain ns where ns: "stages r2 ns r3" "\<And>es. rest = Inr es \<Longrightarrow> set ns \<subseteq> ce_name ` set es \<and> list_all entry_shape es
       \<and> (distinct (map ce_name es) \<longrightarrow> pairs W (rr_disk r3) (Suc pos) (map sha256 plains) es)"
      using Cons.IH [OF rest stages_fresh(1) [OF st Cons.prems(2)] k] by blast
    consider (first) e where "w1 = Inl e" | (second) e where "\<exists>e1. w1 = Inr e1" "w2 = Inl e"
      | (rest) e where "\<exists>e1 e2. w1 = Inr e1 \<and> w2 = Inr e2" "rest = Inl e"
      | (ok) e1 e2 es where "w1 = Inr e1" "w2 = Inr e2" "rest = Inr es" by (metis old.sum.exhaust)
    then show ?thesis
    proof cases
      case first
      then show ?thesis using Cons.prems(1) False w1 n1(1) by auto
    next
      case second
      then show ?thesis using Cons.prems(1) False w1 w2 st by auto
    next
      case rest
      then show ?thesis using Cons.prems(1) False w1 w2 \<open>write_sections W gen s n (Suc pos) plains r2 = (rest, r3)\<close> stages_trans [OF st ns(1)] by auto
    next
      case ok
      then have r: "res = Inr (e1 # e2 # es)" "r' = r3" using Cons.prems(1) False w1 w2 rest by auto
      note o1 = write_chunk_opens [OF assms(1) w1 [unfolded ok(1)]] and o2 = write_chunk_opens [OF assms(1) w2 [unfolded ok(2)]]
      have later: "stages r1 (n2 @ ns) r3" using stages_trans [OF n2(1) ns(1)] .
      have "pairs W (rr_disk r3) pos (map sha256 (plain # plains)) (e1 # e2 # es)" if d: "distinct (map ce_name (e1 # e2 # es))"
      proof -
        have "ce_name e1 \<notin> set (n2 @ ns)" using d n2(2) ok(2) ns(2) [OF ok(3)] by auto
        moreover have "\<forall>m \<in> set (n2 @ ns). length m = id_size" using later by (simp add: stages_def)
        ultimately have "chunk_path (ce_name e1) \<in> untouched (n2 @ ns)" using chunk_untouched o1 by blast
        then have "open_entry W container_manifest (rr_disk r3) e1 = Inr plain"
          using open_same later o1 unfolding stages_def by metis
        then show ?thesis using o1 o2 ns(2) [OF ok(3)] d by (simp add: pick_def)
      qed
      then show ?thesis using stages_trans [OF st ns(1)] ns(2) [OF ok(3)] n1(2) [OF ok(1)] n2(2) [OF ok(2)] o1 o2
        by (intro exI [of _ "(n1 @ n2) @ ns"]) (auto simp: r)
    qed
  qed
qed

subsection \<open>All that a commit stages\<close>

lemma bucket_loop_sections:
  assumes "encode_sections J k v h n stamp = Inr (sections, n')"
  shows "length sections = pos_first + unat n'"
  using assms bucket_loop_result by (auto simp: encode_sections_def pos_first_def split: option.splits)

definition well_staged :: "record_world \<Rightarrow> record_disk \<Rightarrow> view \<Rightarrow> 64 word \<Rightarrow> gotime \<Rightarrow> staged_commit \<Rightarrow> bool" where
  "well_staged W D v gen stamp c \<longleftrightarrow> rp_gen (sc_pointer c) = gen \<and> pointer_shape (sc_pointer c)
     \<and> (\<exists>h n. encode_sections (rw_codec W) (rw_key W) v h n stamp = Inr (sc_sections c, ph_buckets (rp_head (sc_pointer c))))
     \<and> (distinct (map ce_name (rp_manifest (sc_pointer c)))
        \<longrightarrow> pairs W D 0 (map sha256 (sc_sections c)) (rp_manifest (sc_pointer c)))"

lemma stage_commit_facts:
  assumes "authentic_cipher (rw_cipher W)" and "pointer_shape (rs_ptr s)" and "fresh_names (rs_ptr s) (rr_names r)"
    and "digests_known W (rr_disk r) s" and "stage_commit W v gen s r = (res, s', r')"
  shows "(\<exists>ns. stages r ns r') \<and> same_core s s' \<and> (\<forall>c. res = Inr c \<longrightarrow> (\<exists>stamp. well_staged W (rr_disk r') v gen stamp c))"
proof -
  obtain hist s1 r1 where h: "stage_history W gen s r = (hist, s1, r1)" by (metis prod_cases3)
  note hf = stage_history_facts [OF h]
  define s2 where "s2 = (case hist of Inl _ \<Rightarrow> hold_history gen s1
           | Inr h \<Rightarrow> if 0 < sg_n h \<and> rs_gap_staging s1 then on_header (\<lambda>d. d\<lparr>sh_history_gap := rs_hist_loss s1\<rparr>) s1 else s1)"
  define h2 where "h2 = (case hist of Inl _ \<Rightarrow> staged_nothing s2 | Inr h \<Rightarrow> h)"
  obtain idx s3 r3 where i: "stage_index W gen s2 r1 = (idx, s3, r3)" by (metis prod_cases3)
  note xf = stage_index_facts [OF i]
  have c2: "same_core s s2" using hf by (auto simp: s2_def hold_history_def split: sum.split)
  have c3: "same_core s s3" using c2 xf same_core_trans by blast
  obtain ns where ns: "stages r ns r3" using hf xf stages_trans by blast
  have ptr: "rs_ptr s2 = rs_ptr s" "rs_ptr s3 = rs_ptr s" using c2 c3 by (simp_all add: same_core_def)
  have hs: "list_all entry_shape (sg_table h2)"
    using hf assms(2) ptr by (cases hist) (simp_all add: h2_def staged_nothing_def pointer_shape_def)
  have xs: "list_all entry_shape (sx_table idx)" using xf assms(2) ptr by (simp add: pointer_shape_def)
  have st: "stage_commit W v gen s r = (case encode_sections (rw_codec W) (rw_key W) v (rs_hdr s3) (ph_buckets (rp_head (rs_ptr s3))) (rs_run_stamp s3) of
           Inl e \<Rightarrow> (Inl e, s3, r3)
         | Inr (sections, n) \<Rightarrow> (case write_sections W gen s3 n 0 sections r3 of
             (Inl e, r) \<Rightarrow> (Inl e, s3, r)
           | (Inr table, r) \<Rightarrow> (Inr \<lparr>sc_sections = sections, sc_history = h2, sc_index = idx,
               sc_pointer = staged_pointer W gen s3 n table h2 idx\<rparr>, s3, r)))"
    unfolding stage_commit_def h prod.case Let_def s2_def [symmetric] h2_def [symmetric] i by (rule refl)
  show ?thesis
  proof (cases "encode_sections (rw_codec W) (rw_key W) v (rs_hdr s3) (ph_buckets (rp_head (rs_ptr s3))) (rs_run_stamp s3)")
    case (Inl e)
    then show ?thesis using assms(5) st ns c3 by auto
  next
    case (Inr x)
    obtain sections n where x: "x = (sections, n)" by fastforce
    obtain w r4 where w: "write_sections W gen s3 n 0 sections r3 = (w, r4)" by fastforce
    have "same_at (rr_disk r) (rr_disk r3) (record_paths (rs_ptr s))" by (rule stages_record(1) [OF ns assms(3,2)])
    then have "digests_known W (rr_disk r3) s3"
      using assms(4) known_kept c3 by (simp add: digests_known_def same_core_def known_kept)
    then obtain ms where ms: "stages r3 ms r4" "\<And>es. w = Inr es \<Longrightarrow> list_all entry_shape es
        \<and> (distinct (map ce_name es) \<longrightarrow> pairs W (rr_disk r4) 0 (map sha256 sections) es)"
      using write_sections_facts [OF assms(1) _ w] assms(2) stages_fresh(1) [OF ns assms(3)] unfolding ptr by blast
    have r: "r' = r4" "s' = s3" "\<And>c. res = Inr c \<Longrightarrow> \<exists>table. w = Inr table \<and> c = \<lparr>sc_sections = sections, sc_history = h2, sc_index = idx,
               sc_pointer = staged_pointer W gen s3 n table h2 idx\<rparr>"
      using assms(5) st Inr x w by (auto split: sum.splits)
    have "well_staged W (rr_disk r') v gen (rs_run_stamp s3) c" if a: "res = Inr c" for c
    proof -
      obtain table where t: "w = Inr table" "c = \<lparr>sc_sections = sections, sc_history = h2, sc_index = idx,
               sc_pointer = staged_pointer W gen s3 n table h2 idx\<rparr>" using r(3) [OF a] by blast
      have "rp_gen (sc_pointer c) = gen" "pointer_shape (sc_pointer c)" "rp_manifest (sc_pointer c) = table"
        "ph_buckets (rp_head (sc_pointer c)) = n" "sc_sections c = sections"
        using ms(2) [OF t(1)] hs xs by (simp_all add: t(2) staged_pointer_def pointer_shape_def)
      then show ?thesis using ms(2) [OF t(1)] Inr x r(1) unfolding well_staged_def by metis
    qed
    then show ?thesis using stages_trans [OF ns ms(1)] c3 r(1,2) by blast
  qed
qed

end
