(* ===== verification/RecordWhole.thy ===== *)
theory RecordWhole
  imports RecordSave
begin

text \<open>
  A save of an encrypted archive is whole or it is nothing: every disk it passes through carries the record
  from before it or the one it saves, and the store it leaves is ready for the next save.
\<close>

subsection \<open>After the pointer\<close>

text \<open>A run from \<open>r\<close> to \<open>r'\<close> every disk of which has a property.\<close>

definition always :: "(record_disk \<Rightarrow> bool) \<Rightarrow> record_run \<Rightarrow> record_run \<Rightarrow> bool" where
  "always P r r' \<longleftrightarrow> (\<exists>T. rr_trail r' = rr_trail r @ T \<and> list_all P T) \<and> (P (rr_disk r) \<longrightarrow> P (rr_disk r'))"

lemma always_refl [simp]: "always P r r"
  by (simp add: always_def)

definition mutable :: "string set" where
  "mutable = - ({pointer_name} \<union> range chunk_path)"

text \<open>The pointer is in place: it and its mirror decide for one record, whose sections open.\<close>

definition landed_on :: "record_world \<Rightarrow> root_pointer \<Rightarrow> string list \<Rightarrow> record_disk \<Rightarrow> bool" where
  "landed_on W p ds D \<longleftrightarrow> pointer_at W D pointer_name = Some p \<and> newer_at D pointer_name = 0
     \<and> newer_at D mirror_name \<le> rp_gen p
     \<and> (case pointer_at W D mirror_name of None \<Rightarrow> True | Some q \<Rightarrow> q = p \<or> rp_gen q < rp_gen p)
     \<and> map_option (map sha256) (sections_of W D p) = Some ds"

lemma landed_record:
  assumes "landed_on W p ds D"
  shows "best_pointer W D = Some p" "newest_newer D \<le> rp_gen p"
    "\<exists>plains. record_on W D = Some (p, plains) \<and> map sha256 plains = ds"
proof -
  show b: "best_pointer W D = Some p"
    using assms by (auto simp: landed_on_def best_pointer_def better_def split: option.splits)
  show n: "newest_newer D \<le> rp_gen p" using assms by (auto simp: landed_on_def newest_newer_def)
  show "\<exists>plains. record_on W D = Some (p, plains) \<and> map sha256 plains = ds"
    using assms b n by (auto simp: landed_on_def record_on_def not_less)
qed

lemma write_keeps_landed:
  assumes "write_record_file rel data mt r = (res, r')" and "rel \<notin> insert pointer_name (range chunk_path)" and "landed_on W p ds (rr_disk r)"
    and "rel = mirror_name \<Longrightarrow> open_root (rw_cipher W) (rw_head W) (rw_key W) data = Inr p \<and> length data \<le> max_pointer_size"
  shows "always (landed_on W p ds) r r' \<and> landed_on W p ds (rr_disk r')"
proof -
  let ?D = "(rr_disk r)\<lparr>rd_files := mput rel (Plain_file data mt) (rd_files (rr_disk r))\<rparr>"
  have same: "same_at (rr_disk r) ?D (- {rel})" by (simp add: same_at_def)
  have s: "sections_of W ?D p = sections_of W (rr_disk r) p" by (rule sections_same [OF same]) (use assms(2) in auto)
  have ptr: "pointer_at W ?D pointer_name = pointer_at W (rr_disk r) pointer_name" "newer_at ?D pointer_name = newer_at (rr_disk r) pointer_name"
    using read_same [OF same, of pointer_name] assms(2) by (auto simp: pointer_at_def newer_at_def)
  have mir: "newer_at ?D mirror_name \<le> rp_gen p \<and> (case pointer_at W ?D mirror_name of None \<Rightarrow> True | Some q \<Rightarrow> q = p \<or> rp_gen q < rp_gen p)"
  proof (cases "rel = mirror_name")
    case True
    have o: "open_root (rw_cipher W) (rw_head W) (rw_key W) data = Inr p" "length data \<le> max_pointer_size" using assms(4) True by blast+
    obtain f where "peek data = (f, rp_gen p, None)" using open_root_not_newer [OF o(1)] by blast
    then show ?thesis using o by (simp add: True pointer_at_def newer_at_def read_record_file_def split: if_split)
  next
    case False
    then show ?thesis using read_same [OF same, of mirror_name] assms(3) by (simp add: pointer_at_def newer_at_def landed_on_def)
  qed
  have "landed_on W p ds ?D" using assms(3) s ptr mir by (simp add: landed_on_def)
  then show ?thesis using assms(1,3) by (auto simp: write_record_file_def always_def Let_def split: if_splits list.splits)
qed

lemma always_trans: "always P a b \<Longrightarrow> always P b c \<Longrightarrow> always P a c"
  by (auto simp: always_def)

lemma shard_elsewhere: "shard_file_name q gen \<notin> insert pointer_name (range chunk_path)" "shard_file_name q gen \<noteq> mirror_name"
  using names_apart(4) chunk_path_elsewhere(2) by (metis image_iff insertE insertI1, blast)

definition keeps_landed :: "record_world \<Rightarrow> root_pointer \<Rightarrow> string list \<Rightarrow> record_run \<Rightarrow> record_run \<Rightarrow> bool" where
  "keeps_landed W p ds r r' \<longleftrightarrow> (landed_on W p ds (rr_disk r) \<longrightarrow> always (landed_on W p ds) r r' \<and> landed_on W p ds (rr_disk r'))"

lemma keeps_landed_refl [simp]: "keeps_landed W p ds r r"
  by (simp add: keeps_landed_def)

lemma keeps_landed_trans: "keeps_landed W p ds a b \<Longrightarrow> keeps_landed W p ds b c \<Longrightarrow> keeps_landed W p ds a c"
  using always_trans by (auto simp: keeps_landed_def)

lemma shard_keeps: "write_record_file (shard_file_name q gen) data mt r = (res, r') \<Longrightarrow> keeps_landed W p ds r r'"
  using write_keeps_landed shard_elsewhere unfolding keeps_landed_def by metis

lemma other_keeps:
  assumes "write_record_file rel data mt r = (res, r')" and "rel \<in> {envelope_name, inventory_name}"
  shows "keeps_landed W p ds r r'"
proof -
  have "rel \<notin> insert pointer_name (range chunk_path)" "rel \<noteq> mirror_name"
    using assms(2) chunk_path_elsewhere(1) names_apart by (auto, metis, metis)
  then show ?thesis using write_keeps_landed [OF assms(1)] unfolding keeps_landed_def by blast
qed

lemma place_shard_keeps:
  assumes "place_shard W gen old q n b r = (res, r')"
  shows "keeps_landed W p ds r r'"
proof -
  obtain w r1 where w: "write_record_file (shard_file_name q gen) b (rw_run_start W) r = (w, r1)" by fastforce
  have "r' = r \<or> r' = r1" using assms by (auto simp: place_shard_def write_shard_def w split: option.splits if_splits sum.splits)
  then show ?thesis using shard_keeps [OF w] by auto
qed

lemma write_shards_keeps: "write_shards W gen old by ps r = (res, r') \<Longrightarrow> keeps_landed W p ds r r'"
proof (induction ps arbitrary: r res r')
  case (Cons q ps)
  let ?files = "sort_key lf_path (map snd (filter (\<lambda>(q', _). q' = q) by))"
  show ?case
  proof (cases "marshal_shard \<lparr>is_prefix = q, is_files = ?files\<rparr>")
    case (Inl e)
    then show ?thesis using Cons.prems by simp
  next
    case (Inr b)
    obtain x r2 where x: "place_shard W gen (old q) q (length ?files) b r = (x, r2)" by fastforce
    obtain y r3 where y: "write_shards W gen old by ps r2 = (y, r3)" by fastforce
    have "r' = r2 \<or> r' = r3" using Cons.prems x y by (auto simp: Let_def Inr split: sum.splits)
    then show ?thesis using place_shard_keeps [OF x] Cons.IH [OF y] keeps_landed_trans by blast
  qed
qed simp

lemma write_inventory_keeps:
  assumes "write_inventory W gen ptr mirror live mt s r = (e, s', r')"
  shows "keeps_landed W p ds r r' \<and> same_core s s'"
proof -
  define files where "files = all_listed live (rs_retained s)"
  define fanout where "fanout = grow_fanout (max_fanout - (case rs_inv s of None \<Rightarrow> min_fanout | Some t \<Rightarrow> nat (tf_fanout t)))
    (case rs_inv s of None \<Rightarrow> min_fanout | Some t \<Rightarrow> nat (tf_fanout t)) (length files)"
  note wi = assms [unfolded write_inventory_def Let_def, folded files_def, folded fanout_def]
  show ?thesis
  proof (cases "prefixed fanout files")
    case (Inl x)
    then show ?thesis using wi by simp
  next
    case tagged: (Inr tagged)
    obtain refs r1 where w: "write_shards W gen (old_shard s fanout) tagged (sort (remdups (map fst tagged))) r = (refs, r1)" by fastforce
    show ?thesis
    proof (cases refs)
      case (Inl x)
      then show ?thesis using wi tagged Inl w write_shards_keeps [OF w] by simp
    next
      case refs: (Inr rs)
      define t where "t = \<lparr>tf_gen = gen, tf_pointer = ptr, tf_mirror = mirror, tf_fanout = int fanout, tf_shards = map fst rs\<rparr>"
      show ?thesis
      proof (cases "marshal_top t")
        case (Inl x)
        then show ?thesis using wi tagged w refs Inl write_shards_keeps [OF w] by (simp add: t_def)
      next
        case b: (Inr b)
        obtain z r2 where z: "write_record_file inventory_name b mt r1 = (z, r2)" by fastforce
        have "r' = r2 \<and> same_core s s'"
          using wi tagged w refs b z by (cases z) (auto simp: t_def same_core_def)
        then show ?thesis using write_shards_keeps [OF w] other_keeps [OF z] keeps_landed_trans by blast
      qed
    qed
  qed
qed

lemma finish_keeps:
  assumes "finish_commit W v raw mt prev s r = (e, s', r')"
    and "open_root (rw_cipher W) (rw_head W) (rw_key W) raw = Inr p" "length raw \<le> max_pointer_size"
  shows "keeps_landed W p ds r r' \<and> same_core s s' \<and> (e = None \<or> (\<exists>x. e = Some (Inventory_unsaved x)))"
proof -
  obtain mirror r1 where m: "write_record_file mirror_name raw mt r = (mirror, r1)" by fastforce
  have "mirror_name \<notin> insert pointer_name (range chunk_path)" using chunk_path_elsewhere(1) names_apart(1) by (auto, metis)
  then have k1: "keeps_landed W p ds r r1" using write_keeps_landed [OF m] assms(2,3) unfolding keeps_landed_def by blast
  define s1 where "s1 = (case mirror of Inl _ \<Rightarrow> notice Mirror_unwritten s | Inr _ \<Rightarrow> s)"
  define heal where "heal = (if rs_env_heal s1 then (case write_envelope W r1 of
             (Inr _, r) \<Rightarrow> (s1\<lparr>rs_env_heal := False\<rparr>, r) | (Inl _, r) \<Rightarrow> (notice Envelope_unwritten s1, r)) else (s1, r1))"
  obtain env r1' where env: "write_envelope W r1 = (env, r1')" by fastforce
  obtain s2 r2 where h: "heal = (s2, r2)" by fastforce
  have "keeps_landed W p ds r1 r1'" using env other_keeps unfolding write_envelope_def by blast
  then have k2: "keeps_landed W p ds r1 r2" and c2: "same_core s s2"
    using h by (auto simp: heal_def env s1_def same_core_def notice_def split: sum.splits if_splits)
  note fin = assms(1) [unfolded finish_commit_def m prod.case Let_def, folded s1_def, folded heal_def, unfolded h prod.case]
  show ?thesis
  proof (cases "live_files W s2 v")
    case (Inl x)
    then show ?thesis using fin k1 k2 c2 keeps_landed_trans by auto
  next
    case (Inr live)
    let ?s = "s2\<lparr>rs_retained := filter (\<lambda>(p, _). mget live p = None)
        (fold (\<lambda>(p, d) m. if mget live p = None then mput p d m else m) prev (rs_retained s2)), rs_prev_live := live\<rparr>"
    let ?mirror = "case mirror of Inl _ \<Rightarrow> None | Inr _ \<Rightarrow> Some (digest_of raw)"
    obtain x s3 r3 where w: "write_inventory W (rp_gen (rs_ptr ?s)) (digest_of raw) ?mirror live mt ?s r2 = (x, s3, r3)"
      by (cases "write_inventory W (rp_gen (rs_ptr ?s)) (digest_of raw) ?mirror live mt ?s r2") simp
    have "(e, s', r') = (case x of Some e \<Rightarrow> (Some (Inventory_unsaved e), s3, r3) | None \<Rightarrow> (None, s3, r3))"
      using fin Inr w by (auto split: option.splits)
    then have "r' = r3 \<and> s' = s3 \<and> (e = None \<or> (\<exists>x. e = Some (Inventory_unsaved x)))" by (auto split: option.splits)
    moreover have "same_core s ?s" using c2 by (simp add: same_core_def)
    ultimately show ?thesis using write_inventory_keeps [OF w] k1 k2 keeps_landed_trans same_core_trans by blast
  qed
qed

subsection \<open>The commit point\<close>

lemma check_section_names:
  "check_section gen prev seen es = Some seen' \<Longrightarrow> distinct (map ce_name es) \<and> set seen \<inter> ce_name ` set es = {}"
proof (induction es arbitrary: prev seen)
  case (Cons e es)
  then show ?case by (fastforce split: if_splits)
qed simp

lemma checked_names: "check_pointer p = Inr () \<Longrightarrow> distinct (map ce_name (rp_manifest p))"
  using check_section_names by (fastforce simp: check_pointer_def Let_def split: if_splits option.splits)

lemma staged_sections:
  assumes "well_staged W D v gen stamp c" and "check_pointer (sc_pointer c) = Inr ()"
  shows "map_option (map sha256) (sections_of W D (sc_pointer c)) = Some (map sha256 (sc_sections c))"
proof -
  let ?p = "sc_pointer c" and ?ds = "map sha256 (sc_sections c)"
  have pr: "pairs W D 0 ?ds (rp_manifest ?p)" using assms checked_names by (simp add: well_staged_def)
  have l: "length ?ds = pos_first + unat (ph_buckets (rp_head ?p))" using assms(1) bucket_loop_sections by (auto simp: well_staged_def)
  then have "?ds \<noteq> []" by (auto simp: pos_first_def)
  then have ne: "rp_manifest ?p \<noteq> []" using pr by (cases "rp_manifest ?p"; cases ?ds) auto
  then have "ph_buckets (rp_head ?p) \<le> max_buckets" using check_bounds(8) [OF assms(2)] by (simp add: bucket_count_ok_def)
  then have "unat (ph_buckets (rp_head ?p)) \<le> 2 ^ 24" by (simp add: max_buckets_def word_le_nat_alt)
  then have b: "length ?ds \<le> 2 ^ 32" using l by (simp add: pos_first_def)
  have c: "section_count ?p = length ?ds" using l ne by (simp add: section_count_def)
  obtain plains where "all_some (\<lambda>q. pick W D (entries_at (rp_manifest ?p) q)) [0..<0 + length ?ds] = Some plains" "map sha256 plains = ?ds"
    using pairs_pick [OF pr] b by auto
  then show ?thesis using pairs_count [OF pr b] unfolding sections_of_def c by simp
qed

text \<open>A store and the disk it belongs to.\<close>

definition record_held :: "record_world \<Rightarrow> record_disk \<Rightarrow> record_store \<Rightarrow> bool" where
  "record_held W D s \<longleftrightarrow> pointer_shape (rs_ptr s) \<and> best_pointer W D \<in> {None, Some (rs_ptr s)} \<and> digests_known W D s
     \<and> newest_newer D \<le> rs_attempted s
     \<and> (\<forall>name \<in> {pointer_name, mirror_name}. \<forall>q. pointer_at W D name = Some q \<longrightarrow> rp_gen q \<le> rs_attempted s)"

lemma section_digests_get:
  assumes "mget (section_digests sections) i = Some d"
  shows "\<exists>q < length sections. i = word_of_nat q \<and> d = sha256 (sections ! q)"
  using map_of_SomeD [OF assms] by (auto simp: section_digests_def in_set_enumerate_eq)

lemma all_some_nth: "all_some f xs = Some ys \<Longrightarrow> length ys = length xs \<and> (\<forall>i < length xs. f (xs ! i) = Some (ys ! i))"
proof (induction xs arbitrary: ys)
  case (Cons x xs)
  then show ?case by (auto simp: nth_Cons split: option.splits nat.splits)
qed simp

lemma landed_digests:
  assumes "map_option (map sha256) (sections_of W D p) = Some (map sha256 sections)" and "rs_ptr s = p"
    and "rs_sections s = section_digests sections"
  shows "digests_known W D s"
  unfolding digests_known_def
proof (intro allI impI)
  fix pos d
  assume "mget (rs_sections s) (word_of_nat pos) = Some d"
  then obtain q where q: "q < length sections" "(word_of_nat pos :: 32 word) = word_of_nat q" "d = sha256 (sections ! q)"
    using section_digests_get assms(3) by metis
  obtain plains where pl: "all_some (\<lambda>pos. pick W D (entries_at (rp_manifest p) pos)) [0..<section_count p] = Some plains"
    "map sha256 plains = map sha256 sections" using assms(1) by (auto simp: sections_of_def split: if_splits)
  note n = all_some_nth [OF pl(1)]
  have l: "length plains = length sections" using pl(2) by (metis length_map)
  then have "pick W D (entries_at (rp_manifest p) q) = Some (plains ! q)" using n q(1) by auto
  moreover have "sha256 (plains ! q) = sha256 (sections ! q)" using pl(2) l q(1) by (metis nth_map)
  ultimately show "map_option sha256 (pick W D (entries_at (rp_manifest (rs_ptr s)) pos)) = Some d"
    using q assms(2) by (simp add: entries_at_def)
qed

subsection \<open>Errors before the commit point\<close>

definition unsaved_list :: "container_error option \<Rightarrow> bool" where
  "unsaved_list e \<longleftrightarrow> (case e of Some (Inventory_unsaved _) \<Rightarrow> True | _ \<Rightarrow> False)"

definition early :: "container_error + 'a \<Rightarrow> bool" where
  "early x \<longleftrightarrow> (case x of Inl e \<Rightarrow> \<not> unsaved_list (Some e) | Inr _ \<Rightarrow> True)"

lemma early_simps [simp]: "early (Inr a)" "early (Inl e) \<longleftrightarrow> \<not> unsaved_list (Some e)" "early (vault_step y)"
  by (auto simp: early_def vault_step_def unsaved_list_def split: sum.splits)

lemma early_on_ok: "early x \<Longrightarrow> (\<And>a. early (f a)) \<Longrightarrow> early (on_ok x f)"
  by (cases x) simp_all

lemma early_buckets:
  "early (marshal_all g xs)" "early (tag_buckets k n seen stamp es)" "early (encode_buckets J k n seen stamp es)"
proof -
  show m: "early (marshal_all g xs)" for g :: "'x \<Rightarrow> string option" and xs
    by (induction xs) (auto simp: unsaved_list_def intro!: early_on_ok split: option.split)
  show t: "early (tag_buckets k n seen stamp es)" by (induction es) (auto intro!: early_on_ok split: prod.split)
  show "early (encode_buckets J k n seen stamp es)" unfolding encode_buckets_def by (intro early_on_ok t m)
qed

lemma early_loop: "early (bucket_loop J k n seen stamp es)"
proof (induction J k n seen stamp es rule: bucket_loop.induct)
  case (1 J k n seen stamp es)
  then show ?case using early_buckets(3) [of J k "if n < min_buckets then min_buckets else n" seen stamp es]
    by (subst bucket_loop.simps) (auto simp: Let_def split: sum.split)
qed

lemma early_encode: "early (encode_sections J k v h n stamp)"
  by (auto simp: encode_sections_def unsaved_list_def intro!: early_on_ok early_loop split: option.split)

lemma early_chunk: "write_chunk W kind gen pos plain r = (Inl e, r') \<Longrightarrow> \<not> unsaved_list (Some e)"
  by (auto simp: write_chunk_def write_record_file_def new_name_def unsaved_list_def Let_def
      split: sum.splits if_splits prod.splits list.splits)

lemma early_write_sections: "write_sections W gen s n pos plains r = (Inl e, r') \<Longrightarrow> \<not> unsaved_list (Some e)"
proof (induction plains arbitrary: pos r r')
  case (Cons plain plains)
  show ?case
  proof (cases "keeps_section s n pos plain")
    case True
    then show ?thesis using Cons by (auto split: sum.splits prod.splits)
  next
    case False
    obtain w1 r1 where w1: "write_chunk W container_manifest gen pos plain r = (w1, r1)" by fastforce
    obtain w2 r2 where w2: "write_chunk W container_manifest gen pos plain r1 = (w2, r2)" by fastforce
    obtain w3 r3 where w3: "write_sections W gen s n (Suc pos) plains r2 = (w3, r3)" by fastforce
    have "w1 = Inl e \<or> w2 = Inl e \<or> w3 = Inl e"
      using Cons.prems False w1 w2 w3 by (cases w1; cases w2; cases w3) simp_all
    then show ?thesis using early_chunk Cons.IH w1 w2 w3 by blast
  qed
qed simp

lemma early_stage:
  assumes "stage_commit W v gen s r = (Inl e, s', r')"
  shows "\<not> unsaved_list (Some e)"
proof -
  obtain s1 n plains table r1 where "encode_sections (rw_codec W) (rw_key W) v (rs_hdr s1) (ph_buckets (rp_head (rs_ptr s1))) (rs_run_stamp s1) = Inl e
      \<or> write_sections W gen s1 n 0 plains r1 = (Inl e, r')"
    using assms unfolding stage_commit_def Let_def by (auto split: prod.splits sum.splits)
  then show ?thesis using early_encode early_simps(2) early_write_sections by metis
qed

lemma early_root: "early (seal_root C J k p r)"
proof -
  have "early (check_pointer p)"
    by (auto simp: check_pointer_def unsaved_list_def Let_def simp del: check_sections.simps split: if_split)
  then show ?thesis unfolding seal_root_def by (intro early_on_ok) (auto simp: unsaved_list_def Let_def split: prod.split if_split intro!: early_on_ok)
qed

subsection \<open>A save\<close>

text \<open>A disk that carries what one save sealed: its pointer, and sections with the digests of those encoded.\<close>

definition carries :: "record_world \<Rightarrow> view \<Rightarrow> root_pointer \<Rightarrow> record_disk \<Rightarrow> bool" where
  "carries W v p D \<longleftrightarrow> (\<exists>plains sections h n stamp. record_on W D = Some (p, plains)
     \<and> encode_sections (rw_codec W) (rw_key W) v h n stamp = Inr (sections, ph_buckets (rp_head p))
     \<and> map sha256 plains = map sha256 sections)"

lemma pointer_elsewhere: "pointer_name \<noteq> chunk_path n"
  using chunk_path_elsewhere(1) [of n] by auto

lemma below_next: "x \<le> a \<Longrightarrow> a + 1 \<noteq> 0 \<Longrightarrow> x < a + 1" for a :: "64 word"
  using unatSuc [of a] by (simp add: word_less_nat_alt word_le_nat_alt add.commute)

lemma held_same:
  assumes "record_held W D s" and "same_at D D' (record_paths (rs_ptr s))" and "same_core s s'"
  shows "record_held W D' s'" "record_on W D' = record_on W D"
    "record_held W D' (s'\<lparr>rs_attempted := rs_attempted s' + 1\<rparr>) \<or> rs_attempted s + 1 = 0"
proof -
  have p: "rs_ptr s' = rs_ptr s" "rs_attempted s' = rs_attempted s" "rs_sections s' = rs_sections s"
    using assms(3) by (simp_all add: same_core_def)
  have ptr: "best_pointer W D' = best_pointer W D" "newest_newer D' = newest_newer D"
    using pointer_same [OF assms(2)] by (simp_all add: record_paths_def)
  have at: "pointer_at W D' name = pointer_at W D name" if "name \<in> {pointer_name, mirror_name}" for name
    using read_same [OF assms(2), of name] that by (auto simp: pointer_at_def record_paths_def)
  have known: "digests_known W D' s = digests_known W D s" by (rule known_kept [OF assms(2)])
  show "record_on W D' = record_on W D" using kept_record [OF assms(2)] assms(1) by (simp add: record_held_def)
  show h: "record_held W D' s'"
    using assms(1) at known by (auto simp: record_held_def p ptr digests_known_def)
  show "record_held W D' (s'\<lparr>rs_attempted := rs_attempted s' + 1\<rparr>) \<or> rs_attempted s + 1 = 0"
  proof (cases "rs_attempted s + 1 = 0")
    case False
    then have "x \<le> rs_attempted s + 1" if "x \<le> rs_attempted s" for x
      using below_next [OF that False] by simp
    then show ?thesis using h by (auto simp: record_held_def p digests_known_def)
  qed simp
qed

lemma landing:
  assumes "authentic_cipher (rw_cipher W)" "good_head_codec (rw_head W)" and "record_held W (rr_disk r) s" and "rs_attempted s + 1 \<noteq> 0"
    and "same_at (rr_disk r) D (record_paths (rs_ptr s))" and "well_staged W D v (rs_attempted s + 1) stamp c"
    and "seal_root (rw_cipher W) (rw_head W) (rw_key W) (sc_pointer c) rnd = Inr (raw, rnd')"
  shows "landed_on W (sc_pointer c) (map sha256 (sc_sections c)) (D\<lparr>rd_files := mput pointer_name (Plain_file raw mt) (rd_files D)\<rparr>)"
    "open_root (rw_cipher W) (rw_head W) (rw_key W) raw = Inr (sc_pointer c)" "length raw \<le> max_pointer_size"
proof -
  let ?p = "sc_pointer c" and ?D = "D\<lparr>rd_files := mput pointer_name (Plain_file raw mt) (rd_files D)\<rparr>"
  obtain sealed where sr: "check_pointer ?p = Inr ()" "raw = pointer_file_bytes (rp_gen ?p) sealed" "length raw \<le> max_pointer_size"
    using sealed_root [OF assms(7)] by blast
  show o: "open_root (rw_cipher W) (rw_head W) (rw_key W) raw = Inr ?p"
    using open_seal_root [OF assms(1,2) _ assms(7)] assms(6) by (simp add: well_staged_def)
  show "length raw \<le> max_pointer_size" by (rule sr(3))
  have pk: "peek raw = (format_version, rp_gen ?p, None)" using peek_file check_bounds(5) [OF sr(1)] sr(2) by blast
  have same: "same_at D ?D (- {pointer_name})" by (simp add: same_at_def)
  have secs: "sections_of W ?D ?p = sections_of W D ?p"
    by (rule sections_same [OF same]) (use pointer_elsewhere in \<open>auto simp: image_subset_iff\<close>)
  have mir: "read_record_file ?D mirror_name m = read_record_file (rr_disk r) mirror_name m" for m
    using read_same [OF same, of mirror_name m] read_same [OF assms(5), of mirror_name m] names_apart(1) by (simp add: record_paths_def)
  have lt: "x < rp_gen ?p" if "x \<le> rs_attempted s" for x
    using below_next [OF that assms(4)] assms(6) by (simp add: well_staged_def)
  have "pointer_at W ?D mirror_name = pointer_at W (rr_disk r) mirror_name" "newer_at ?D mirror_name = newer_at (rr_disk r) mirror_name"
    by (simp_all add: pointer_at_def newer_at_def mir)
  moreover have "newer_at (rr_disk r) mirror_name \<le> rs_attempted s"
    "\<And>q. pointer_at W (rr_disk r) mirror_name = Some q \<Longrightarrow> rp_gen q \<le> rs_attempted s"
    using assms(3) by (auto simp: record_held_def newest_newer_def)
  moreover have "pointer_at W ?D pointer_name = Some ?p" "newer_at ?D pointer_name = 0"
    using o pk sr(3) by (simp_all add: pointer_at_def newer_at_def read_record_file_def folders_real_def folders_of_def pointer_name_def)
  ultimately show "landed_on W ?p (map sha256 (sc_sections c)) ?D"
    using lt staged_sections [OF assms(6) sr(1)] secs by (auto simp: landed_on_def less_imp_le split: option.split)
qed

lemma undo_same [simp]:
  "same_core s (undo_header s0 s') \<longleftrightarrow> same_core s s'" "same_core s (start_commit s') \<longleftrightarrow> same_core s s'"
  by (simp_all add: undo_header_def start_commit_def)

lemma held_header [simp]: "record_held W D (on_header f s) = record_held W D s" "rs_ptr (on_header f s) = rs_ptr s"
  by (simp_all add: record_held_def digests_known_def on_header_def)

lemma write_stops:
  assumes "write_record_file rel data mt r = (Inl e, r')"
  shows "\<not> unsaved_list (Some e) \<and> rr_disk r' = rr_disk r \<and> rr_trail r' = rr_trail r"
  using assms by (auto simp: write_record_file_def unsaved_list_def Let_def split: if_splits list.splits)

lemma put_pointer_stops:
  assumes "put_pointer W gen p s r = (Inl e, s', r')"
  shows "\<not> unsaved_list (Some e) \<and> rr_disk r' = rr_disk r \<and> rr_trail r' = rr_trail r \<and> s' \<in> {s, s\<lparr>rs_attempted := gen\<rparr>}"
proof (cases "rr_held r")
  case False
  then show ?thesis using assms by (auto simp: put_pointer_def unsaved_list_def)
next
  case held: True
  show ?thesis
  proof (cases "seal_root (rw_cipher W) (rw_head W) (rw_key W) p (rr_random r)")
    case (Inl x)
    then show ?thesis using assms held early_root by (auto simp: put_pointer_def) (metis early_simps(2))
  next
    case (Inr x)
    obtain raw random where x: "x = (raw, random)" by fastforce
    obtain w r1 where w: "write_record_file pointer_name raw (next_fixed_time W s) (r\<lparr>rr_random := random\<rparr>) = (w, r1)" by fastforce
    have "w = Inl e \<and> r' = r1 \<and> s' = s\<lparr>rs_attempted := gen\<rparr>"
      using assms held Inr x w by (cases w) (simp_all add: put_pointer_def Let_def)
    then show ?thesis using write_stops [of pointer_name raw _ "r\<lparr>rr_random := random\<rparr>"] w by auto
  qed
qed

lemma put_pointer_lands:
  assumes "put_pointer W gen p s r = (Inr (raw, mt), s', r')"
  shows "\<exists>random. seal_root (rw_cipher W) (rw_head W) (rw_key W) p (rr_random r) = Inr (raw, random)
    \<and> s' = s\<lparr>rs_attempted := gen\<rparr> \<and> rr_trail r' = rr_trail r @ [rr_disk r']
    \<and> rr_disk r' = (rr_disk r)\<lparr>rd_files := mput pointer_name (Plain_file raw mt) (rd_files (rr_disk r))\<rparr>"
  using assms by (auto simp: put_pointer_def write_record_file_def Let_def split: if_splits list.splits sum.splits prod.splits)

lemma landed_held:
  assumes "landed_on W p (map sha256 sections) D" and "rs_ptr s = p" and "rs_sections s = section_digests sections"
    and "rs_attempted s = rp_gen p" and "pointer_shape p"
  shows "record_held W D s"
proof -
  have k: "digests_known W D s" by (rule landed_digests [OF _ assms(2,3)]) (use assms(1) in \<open>simp only: landed_on_def\<close>)
  have "rp_gen q \<le> rp_gen p" if "name \<in> {pointer_name, mirror_name}" "pointer_at W D name = Some q" for name q
    using assms(1) that by (auto simp: landed_on_def less_imp_le)
  then show ?thesis using k landed_record [OF assms(1)] assms(2,4,5) by (auto simp: record_held_def)
qed

lemma landed_fields: "rs_ptr (landed c mt s) = sc_pointer c" "rs_sections (landed c mt s) = section_digests (sc_sections c)"
  "rs_attempted (landed c mt s) = rs_attempted s"
  by (simp_all add: landed_def apply_history_def Let_def)

lemma held_start:
  assumes "authentic_cipher (rw_cipher W)" and "record_held W (rr_disk r) s" and "fresh_names (rs_ptr s) (rr_names r)"
    and "stage_commit W v gen (start_commit s) r = (res, s1, r1)"
  shows "same_at (rr_disk r) (rr_disk r1) (record_paths (rs_ptr s))" "same_core s s1"
    "\<And>c. res = Inr c \<Longrightarrow> \<exists>stamp. well_staged W (rr_disk r1) v gen stamp c"
    "\<exists>T. rr_trail r1 = rr_trail r @ T \<and> (\<forall>D \<in> set T. record_on W D = record_on W (rr_disk r))"
proof -
  have c0: "rs_ptr (start_commit s) = rs_ptr s" "rs_sections (start_commit s) = rs_sections s"
    using undo_same(2) [of s s] by (simp_all add: same_core_def)
  have k: "digests_known W (rr_disk r) (start_commit s)" "pointer_shape (rs_ptr s)"
    using assms(2) by (simp_all add: record_held_def digests_known_def c0)
  obtain ns where ns: "stages r ns r1" and c1: "same_core (start_commit s) s1"
    and ok: "\<And>c. res = Inr c \<Longrightarrow> \<exists>stamp. well_staged W (rr_disk r1) v gen stamp c"
    using stage_commit_facts [OF assms(1) _ _ k(1) assms(4)] assms(3) k(2) unfolding c0 by blast
  note sr = stages_record [OF ns assms(3) k(2)]
  show "same_at (rr_disk r) (rr_disk r1) (record_paths (rs_ptr s))" by (rule sr(1))
  have "same_core s (start_commit s)" by simp
  then show "same_core s s1" using c1 same_core_trans by blast
  show "\<And>c. res = Inr c \<Longrightarrow> \<exists>stamp. well_staged W (rr_disk r1) v gen stamp c" by (rule ok)
  show "\<exists>T. rr_trail r1 = rr_trail r @ T \<and> (\<forall>D \<in> set T. record_on W D = record_on W (rr_disk r))"
    using sr(2) held_same(2) [OF assms(2) _ same_core_refl] by blast
qed

lemma whole_or_nothing:
  assumes "authentic_cipher (rw_cipher W)" and "good_head_codec (rw_head W)" and "record_held W (rr_disk r) s"
    and "fresh_names (rs_ptr s) (rr_names r)" and "rs_attempted s + 1 \<noteq> 0" and "commit W v s r = (e, s', r')"
  shows "record_held W (rr_disk r') s'
    \<and> (\<exists>before after. rr_trail r' = rr_trail r @ before @ after \<and> (\<forall>D \<in> set before. record_on W D = record_on W (rr_disk r))
      \<and> (if e = None \<or> unsaved_list e
         then after \<noteq> [] \<and> rp_gen (rs_ptr s') = rs_attempted s + 1 \<and> (\<forall>D \<in> set (rr_disk r' # after). carries W v (rs_ptr s') D)
         else after = [] \<and> rs_ptr s' = rs_ptr s \<and> record_on W (rr_disk r') = record_on W (rr_disk r)))"
proof (cases "rw_read_only W")
  case True
  then have "e = Some Opened_to_read" "s' = s" "r' = r" using assms(6) by (simp_all add: commit_def)
  then show ?thesis using assms(3) by (auto simp: unsaved_list_def intro: exI [of _ "[]"])
next
  case False
  let ?gen = "rs_attempted s + 1" and ?s0 = "start_commit s"
  obtain res s1 r1 where st: "stage_commit W v ?gen ?s0 r = (res, s1, r1)" by (metis prod_cases3)
  note start = held_start [OF assms(1,3,4) st]
  obtain T where T: "rr_trail r1 = rr_trail r @ T" "\<forall>D \<in> set T. record_on W D = record_on W (rr_disk r)" using start(4) by blast
  have stopped: ?thesis if "s'' \<in> {s1, s1\<lparr>rs_attempted := ?gen\<rparr>}" "s' = undo_header ?s0 s''" "rr_disk r' = rr_disk r1" "rr_trail r' = rr_trail r1"
    "e = Some x" "\<not> unsaved_list (Some x)" for s'' x
  proof -
    have "record_held W (rr_disk r1) s'' \<and> rs_ptr s'' = rs_ptr s"
      using that(1) held_same(1,3) [OF assms(3) start(1,2)] start(2) assms(5) by (auto simp: same_core_def)
    then have "record_held W (rr_disk r1) s'" "rs_ptr s' = rs_ptr s"
      unfolding that(2) undo_header_def by simp_all
    then show ?thesis using T held_same(2) [OF assms(3) start(1,2)] that(3-6) by (intro conjI exI [of _ T] exI [of _ "[]"]) auto
  qed
  show ?thesis
  proof (cases res)
    case (Inl x)
    then have "e = Some x" "s' = undo_header ?s0 s1" "r' = r1" using assms(6) False st by (simp_all add: commit_def Let_def)
    then show ?thesis using early_stage st Inl by (intro stopped [of s1 x]) auto
  next
    case (Inr c)
    obtain put s2 r2 where put: "put_pointer W ?gen (sc_pointer c) s1 r1 = (put, s2, r2)" by (metis prod_cases3)
    show ?thesis
    proof (cases put)
      case (Inl x)
      then have "e = Some x" "s' = undo_header ?s0 s2" "r' = r2" using assms(6) False st Inr put by (simp_all add: commit_def Let_def)
      then show ?thesis using put_pointer_stops [of W ?gen "sc_pointer c" s1 r1 x s2 r2] put Inl by (intro stopped [of s2 x]) auto
    next
      case landed: (Inr y)
      obtain raw mt where y: "put = Inr (raw, mt)" using landed by (cases y) simp
      have fin: "finish_commit W v raw mt (rs_prev_live s2) (landed c mt s2) r2 = (e, s', r')"
        using assms(6) False st Inr put y by (simp add: commit_def Let_def)
      note pl = put_pointer_lands [OF put [unfolded y]]
      obtain stamp where ws: "well_staged W (rr_disk r1) v ?gen stamp c" using start(3) [OF Inr] by blast
      let ?p = "sc_pointer c" and ?ds = "map sha256 (sc_sections c)"
      obtain rnd where sr: "seal_root (rw_cipher W) (rw_head W) (rw_key W) ?p (rr_random r1) = Inr (raw, rnd)" using pl by blast
      note ld = landing [OF assms(1,2,3,5) start(1) ws sr]
      have d2: "landed_on W ?p ?ds (rr_disk r2)" using ld(1) pl by simp
      note fk = finish_keeps [OF fin ld(2,3), of ?ds]
      obtain T2 where t2: "rr_trail r' = rr_trail r2 @ T2" "list_all (landed_on W ?p ?ds) T2" and d3: "landed_on W ?p ?ds (rr_disk r')"
        using fk d2 by (auto simp: keeps_landed_def always_def)
      have s': "rs_ptr s' = ?p" "rs_sections s' = section_digests (sc_sections c)" "rs_attempted s' = ?gen"
        using fk pl by (simp_all add: same_core_def landed_fields)
      have g: "rp_gen ?p = ?gen" "pointer_shape ?p" using ws by (simp_all add: well_staged_def)
      have "carries W v ?p D" if "landed_on W ?p ?ds D" for D
        using landed_record(3) [OF that] ws unfolding carries_def well_staged_def by metis
      then have "\<forall>D \<in> set (rr_disk r' # rr_disk r2 # T2). carries W v ?p D" using d2 d3 t2(2) by (auto simp: list_all_iff)
      moreover have "record_held W (rr_disk r') s'" using landed_held [OF d3 s'(1,2)] s'(3) g by simp
      moreover have "rr_trail r' = rr_trail r @ T @ (rr_disk r2 # T2)" using t2(1) pl T(1) by simp
      moreover have "e = None \<or> unsaved_list e" using fk by (auto simp: unsaved_list_def)
      ultimately show ?thesis using T(2) g(1) s'(1) by (intro conjI exI [of _ T] exI [of _ "rr_disk r2 # T2"]) auto
    qed
  qed
qed

text \<open>
  The save of a sealed record is whole or it is nothing, and a save that does land: a new archive whose
  sections are sixteen empty buckets, the header and the gaps, written with bytes enough to draw from.
\<close>

subsection \<open>A save with nothing in its way\<close>

definition blank_codec :: section_codec where
  "blank_codec = \<lparr>sj_header = (\<lambda>_. Some []), sj_gaps = (\<lambda>_. Some []), sj_bucket = (\<lambda>_. Some []), sj_probe = (\<lambda>_. Some 6),
     sj_read_header = (\<lambda>_. Some zero_header), sj_read_gaps = (\<lambda>_. Some []), sj_read_bucket = (\<lambda>_. Some [])\<rparr>"

definition blank_host :: host where
  "blank_host = \<lparr>h_sep = CHR ''/'', h_folds = False, h_is_abs = (\<lambda>_. False), h_abs = Some, h_resolve = Some,
     h_clean = (\<lambda>s. s), h_lower = (\<lambda>s. s), h_nfc = (\<lambda>s. s)\<rparr>"

definition blank_world :: record_world where
  "blank_world = \<lparr>rw_cipher = plain_cipher, rw_head = tiny_head, rw_codec = blank_codec, rw_probe = (\<lambda>_. None),
     rw_read_envelope = (\<lambda>_. None), rw_write_envelope = (\<lambda>_. []), rw_event = (\<lambda>_. None), rw_read_event = (\<lambda>_. None),
     rw_host = blank_host, rw_now = 0, rw_key = Some sample_key32, rw_recorded = 0, rw_run_start = 0, rw_units = None,
     rw_read_only = False\<rparr>"

lemma blank_parts [simp]:
  "rw_cipher blank_world = plain_cipher" "rw_head blank_world = tiny_head" "rw_codec blank_world = blank_codec"
  "rw_key blank_world = Some sample_key32" "rw_run_start blank_world = 0" "\<not> rw_read_only blank_world"
  by (simp_all add: blank_world_def)

definition blank_view :: view where
  "blank_view = \<lparr>v_version = 6, v_entries = [], v_stores = [], v_capture_gaps = [], v_collapsed_tokens = []\<rparr>"

definition blank_name :: "nat \<Rightarrow> string" where
  "blank_name i = replicate 12 CHR ''n'' @ be_word (word_of_nat i :: 32 word)"

text \<open>No folder planted, bytes for so many more nonces, the lock held; the names and the fates still to come.\<close>

definition ready :: "nat \<Rightarrow> string \<Rightarrow> bool list \<Rightarrow> record_run \<Rightarrow> bool" where
  "ready m names fates r \<longleftrightarrow> rd_planted (rr_disk r) = [] \<and> 24 * m \<le> length (rr_random r) \<and> rr_names r = names
     \<and> rr_fates r = fates \<and> rr_held r"

lemma real_folders: "rd_planted D = [] \<Longrightarrow> folders_real D rel"
  by (simp add: folders_real_def list_all_iff)

lemma file_written:
  assumes "ready m names (True # fates) r"
  shows "\<exists>r'. write_record_file rel data t r = (Inr (), r') \<and> ready m names fates r'"
  using assms by (auto simp: write_record_file_def ready_def real_folders Let_def)

text \<open>The entry a chunk of an empty section gets.\<close>

definition blank_entry :: "64 word \<Rightarrow> nat \<Rightarrow> string \<Rightarrow> chunk_entry \<Rightarrow> bool" where
  "blank_entry gen pos name e \<longleftrightarrow> ce_i e = word_of_nat pos \<and> ce_name e = name \<and> ce_gen e = gen
     \<and> length (ce_sha256 e) = 32 \<and> ce_size e \<noteq> 0 \<and> unat (ce_size e) \<le> max_chunk_size"

lemma blank_sealed:
  assumes "24 \<le> length random"
  shows "\<exists>sealed. seal_chunk plain_cipher (Some sample_key32) container_manifest gen i [] random = Inr (sealed, drop 24 random)
     \<and> length sealed = 111"
  using assms
  by (simp add: seal_chunk_def container_use_def with_key_def sample_key32_def container_kind_known_def container_manifest_def
      seal_def draw_def key_size_def nonce_size_def plain_cipher_def plain_head_def chunk_aad_def aad_prefix_def)

lemma chunk_written:
  assumes "ready (Suc m) (name @ names) (True # fates) r" and "length name = 16"
  shows "\<exists>e r'. write_chunk blank_world container_manifest gen pos [] r = (Inr e, r') \<and> ready m names fates r' \<and> blank_entry gen pos name e"
proof -
  have "24 \<le> length (rr_random r)" using assms(1) by (simp add: ready_def)
  then obtain sealed where s: "seal_chunk plain_cipher (Some sample_key32) container_manifest gen (word_of_nat pos) [] (rr_random r)
      = Inr (sealed, drop 24 (rr_random r))" "length sealed = 111" using blank_sealed by blast
  have n: "new_name (rr_names r) = Inr (name, names)"
    using assms by (simp add: ready_def new_name_def draw_def id_size_def)
  let ?r = "r\<lparr>rr_random := drop 24 (rr_random r), rr_names := names\<rparr>"
  have "ready m names (True # fates) ?r" using assms(1) by (auto simp: ready_def)
  from file_written [OF this] obtain r' where
    "write_record_file (chunk_path name) sealed 0 ?r = (Inr (), r')" "ready m names fates r'" by blast
  with s n show ?thesis by (simp add: write_chunk_def Let_def max_chunk_size_def blank_entry_def)
qed

lemma blank_names: "i < 256 \<Longrightarrow> j < 256 \<Longrightarrow> blank_name i = blank_name j \<Longrightarrow> i = j"
  "blank_name i \<noteq> replicate id_size (CHR 0x00)" "length (blank_name i) = 16"
proof -
  show "i = j" if "i < 256" "j < 256" "blank_name i = blank_name j"
  proof -
    have "be_word (word_of_nat i :: 32 word) = be_word (word_of_nat j :: 32 word)" using that(3) by (simp add: blank_name_def)
    then have "unat (word_of_nat i :: 32 word) = unat (word_of_nat j :: 32 word)" by (metis from_be_word(2))
    then show ?thesis using that(1,2) by (simp add: unat_of_nat)
  qed
  show "blank_name i \<noteq> replicate id_size (CHR 0x00)"
  proof
    assume "blank_name i = replicate id_size (CHR 0x00)"
    then have "hd (blank_name i) = hd (replicate id_size (CHR 0x00))" by simp
    then show False by (simp add: blank_name_def id_size_def)
  qed
  show "length (blank_name i) = 16" by (simp add: blank_name_def)
qed

text \<open>The entries of so many sections pass the rules whatever came before, if their names are new.\<close>

definition entries_pass :: "64 word \<Rightarrow> nat \<Rightarrow> nat \<Rightarrow> chunk_entry list \<Rightarrow> bool" where
  "entries_pass gen pos j es \<longleftrightarrow> (\<forall>prev seen. (\<forall>i. prev = Some i \<longrightarrow> i \<le> word_of_nat pos) \<longrightarrow> set seen \<inter> blank_name ` {j..<256} = {}
     \<longrightarrow> check_section gen prev seen es \<noteq> None)"

lemma entries_pass_more:
  assumes "entries_pass gen (Suc pos) (Suc (Suc j)) es" and "blank_entry gen pos (blank_name j) e1"
    and "blank_entry gen pos (blank_name (Suc j)) e2" and "gen \<noteq> 0" and "pos + 1 < 2 ^ 32" and "j + 2 \<le> 256"
  shows "entries_pass gen pos j (e1 # e2 # es)"
  unfolding entries_pass_def
proof (intro allI impI)
  fix prev :: "32 word option" and seen
  assume p: "\<forall>i. prev = Some i \<longrightarrow> i \<le> word_of_nat pos" and n: "set seen \<inter> blank_name ` {j..<256} = {}"
  have new: "blank_name i \<notin> set seen" if "j \<le> i" "i < 256" for i using n that by auto
  have ne: "blank_name j \<noteq> blank_name (Suc j)" using blank_names(1) [of j "Suc j"] assms(6) by auto
  have lt: "(word_of_nat pos :: 32 word) \<le> word_of_nat (Suc pos)"
    using assms(5) by (simp add: word_le_nat_alt unat_of_nat del: of_nat_Suc)
  have apart: "blank_name i' \<notin> blank_name ` {Suc (Suc j)..<256}" if "i' \<in> {j, Suc j}" for i'
  proof
    assume "blank_name i' \<in> blank_name ` {Suc (Suc j)..<256}"
    then obtain i where "Suc (Suc j) \<le> i" "i < 256" "blank_name i' = blank_name i" by auto
    with blank_names(1) [of i' i] that assms(6) show False by auto
  qed
  have "set seen \<inter> blank_name ` {Suc (Suc j)..<256} = {}" using new by auto
  then have "set (blank_name (Suc j) # blank_name j # seen) \<inter> blank_name ` {Suc (Suc j)..<256} = {}"
    using apart by simp
  then have rest: "check_section gen (Some (word_of_nat pos)) (blank_name (Suc j) # blank_name j # seen) es \<noteq> None"
    using assms(1) lt unfolding entries_pass_def by auto
  have b: "ce_i e1 = word_of_nat pos" "ce_name e1 = blank_name j" "ce_gen e1 = gen" "ce_size e1 \<noteq> 0" "unat (ce_size e1) \<le> max_chunk_size"
    "ce_i e2 = word_of_nat pos" "ce_name e2 = blank_name (Suc j)" "ce_gen e2 = gen" "ce_size e2 \<noteq> 0" "unat (ce_size e2) \<le> max_chunk_size"
    using assms(2,3) by (simp_all add: blank_entry_def)
  have low: "\<not> (case prev of None \<Rightarrow> False | Some i \<Rightarrow> ce_i e1 < i)" using p b(1) by (auto simp: not_less split: option.split)
  show "check_section gen prev seen (e1 # e2 # es) \<noteq> None"
    using rest new [of j] new [of "Suc j"] assms(4,6) ne low blank_names(2)
    by (simp add: b(2-) b(6) low not_less) (simp add: b(1))
qed

lemma sections_written:
  assumes "rs_sections s = []" and "gen \<noteq> 0"
  shows "pos + k < 2 ^ 32 \<Longrightarrow> j + 2 * k \<le> 256
    \<Longrightarrow> ready (2 * k + m) (concat (map blank_name [j..<j + 2 * k])) (replicate (2 * k) True @ fates) r
    \<Longrightarrow> \<exists>es r'. write_sections blank_world gen s n pos (replicate k []) r = (Inr es, r') \<and> ready m [] fates r'
      \<and> length es = 2 * k \<and> list_all entry_shape es \<and> entries_pass gen pos j es"
proof (induction k arbitrary: pos j r)
  case 0
  then show ?case by (simp add: entries_pass_def)
next
  case (Suc k)
  let ?rest = "concat (map blank_name [Suc (Suc j)..<Suc (Suc j) + 2 * k])"
  have "[j..<j + 2 * Suc k] = j # Suc j # [Suc (Suc j)..<Suc (Suc j) + 2 * k]" by (simp add: upt_conv_Cons)
  then have "concat (map blank_name [j..<j + 2 * Suc k]) = blank_name j @ blank_name (Suc j) @ ?rest" by simp
  moreover have "replicate (2 * Suc k) True @ fates = True # True # replicate (2 * k) True @ fates" by simp
  moreover have "2 * Suc k + m = Suc (Suc (2 * k + m))" by simp
  ultimately have "ready (Suc (Suc (2 * k + m))) (blank_name j @ blank_name (Suc j) @ ?rest) (True # True # replicate (2 * k) True @ fates) r"
    using Suc.prems(3) by metis
  from chunk_written [OF this blank_names(3), of gen pos] obtain e1 r1 where
    c1: "write_chunk blank_world container_manifest gen pos [] r = (Inr e1, r1)" "blank_entry gen pos (blank_name j) e1"
    and "ready (Suc (2 * k + m)) (blank_name (Suc j) @ ?rest) (True # replicate (2 * k) True @ fates) r1" by blast
  from chunk_written [OF this(3) blank_names(3), of gen pos] obtain e2 r2 where
    c2: "write_chunk blank_world container_manifest gen pos [] r1 = (Inr e2, r2)" "blank_entry gen pos (blank_name (Suc j)) e2"
    and r2: "ready (2 * k + m) ?rest (replicate (2 * k) True @ fates) r2" by blast
  obtain es r' where w: "write_sections blank_world gen s n (Suc pos) (replicate k []) r2 = (Inr es, r')" "ready m [] fates r'"
    "length es = 2 * k" "list_all entry_shape es" "entries_pass gen (Suc pos) (Suc (Suc j)) es"
    using Suc.IH [OF _ _ r2, of "Suc pos"] Suc.prems(1,2) by auto
  have "\<not> keeps_section s n pos []" using assms(1) by (simp add: keeps_section_def)
  then have "write_sections blank_world gen s n pos (replicate (Suc k) []) r = (Inr (e1 # e2 # es), r')"
    using c1(1) c2(1) w(1) by simp
  moreover have "entry_shape e1" "entry_shape e2" using c1(2) c2(2) blank_names(3) by (simp_all add: blank_entry_def entry_shape_def id_size_def)
  ultimately show ?case
    using entries_pass_more [OF w(5) c1(2) c2(2) assms(2)] Suc.prems(1,2) w by auto
qed


subsection \<open>The save that lands\<close>

lemma blank_marshal: "marshal_all (\<lambda>_. Some []) xs = Inr (replicate (length xs) [])"
  by (induction xs) simp_all

lemma blank_sections: "encode_sections blank_codec k blank_view h 0 stamp = Inr (replicate 18 [], 16)"
proof -
  have "encode_buckets blank_codec k 16 seen stamp [] = Inr (replicate 16 [])" for seen
    by (simp add: encode_buckets_def blank_codec_def blank_marshal)
  then have "bucket_loop blank_codec k 0 (sh_seen_at h) stamp [] = Inr (replicate 16 [], 16)"
    by (subst bucket_loop.simps) (simp add: min_buckets_def sum_list_replicate)
  moreover have "replicate 18 ([] :: string) = [] # [] # replicate 16 []" by (simp add: numeral_eq_Suc)
  ultimately show ?thesis by (simp add: encode_sections_def blank_view_def) (simp add: blank_codec_def)
qed

definition blank_run :: record_run where
  "blank_run = \<lparr>rr_disk = \<lparr>rd_files = [], rd_planted = []\<rparr>, rr_trail = [], rr_random = replicate 888 CHR ''r'',
     rr_names = concat (map blank_name [0..<36]), rr_fates = replicate 37 True, rr_held = True\<rparr>"

lemma blank_staged:
  "\<exists>c r'. stage_commit blank_world blank_view 1 new_store blank_run = (Inr c, new_store, r') \<and> ready 1 [] [True] r'
     \<and> check_pointer (sc_pointer c) = Inr () \<and> pointer_shape (sc_pointer c) \<and> rp_gen (sc_pointer c) = 1
     \<and> length (rp_manifest (sc_pointer c)) = 36 \<and> rp_history (sc_pointer c) = [] \<and> rp_index (sc_pointer c) = []"
proof -
  have "ready (2 * 18 + 1) (concat (map blank_name [0..<0 + 2 * 18])) (replicate (2 * 18) True @ [True]) blank_run"
  proof -
    have "replicate (2 * 18) True @ [True] = replicate 37 True" by (simp add: replicate_append_same flip: replicate_Suc)
    then show ?thesis by (simp add: ready_def blank_run_def)
  qed
  from sections_written [OF _ _ _ _ this, of new_store 1 0 16] obtain es r' where
    w: "write_sections blank_world 1 new_store 16 0 (replicate 18 []) blank_run = (Inr es, r')" "ready 1 [] [True] r'"
      "length es = 36" "list_all entry_shape es" "entries_pass 1 0 0 es"
    by (auto simp: new_store_def)
  let ?c = "\<lparr>sc_sections = replicate 18 [], sc_history = staged_nothing new_store, sc_index = kept_index new_store,
     sc_pointer = staged_pointer blank_world 1 new_store 16 es (staged_nothing new_store) (kept_index new_store)\<rparr>"
  have n: "rs_timeline new_store = None" "rs_index_source new_store = None" "ph_buckets (rp_head (rs_ptr new_store)) = 0"
    by (simp_all add: new_store_def zero_pointer_def zero_head_def)
  have "stage_commit blank_world blank_view 1 new_store blank_run = (Inr ?c, new_store, r')"
    by (simp add: stage_commit_def stage_history_def stage_index_def n blank_sections w(1) staged_nothing_def [of new_store] Let_def)
  moreover have "check_section 1 None [] es \<noteq> None" using w(5) unfolding entries_pass_def by simp
  ultimately show ?thesis
    using w by (intro exI [of _ ?c] exI [of _ r']) (auto simp: check_pointer_def staged_pointer_def staged_nothing_def kept_index_def
        new_store_def zero_pointer_def zero_head_def bucket_count_ok_def min_buckets_def max_buckets_def max_entries_def
        pointer_shape_def Let_def)
qed


lemma blank_pointer_sealed:
  assumes "check_pointer p = Inr ()" and "pointer_shape p" and "length (rp_manifest p) = 36" "rp_history p = []" "rp_index p = []"
    and "24 \<le> length random"
  shows "\<exists>raw random'. seal_root plain_cipher tiny_head (Some sample_key32) p random = Inr (raw, random')"
proof -
  let ?plain = "encode_pointer tiny_head p"
  have "length (concat (map entry_row (rp_manifest p))) = 36 * 64"
    using length_rows [of "rp_manifest p"] assms(2,3) by (simp add: pointer_shape_def entry_size_def)
  then have l: "length ?plain = 2370"
    by (simp add: encode_pointer_def tiny_head_def encode_table_def assms(4,5) Let_def)
  obtain sealed where "seal_pointer plain_cipher (Some sample_key32) container_manifest (rp_gen p) ?plain random = Inr (sealed, drop 24 random)"
    "length sealed \<le> 5000"
    using assms(6) l by (simp add: seal_pointer_def container_use_def with_key_def sample_key32_def container_kind_known_def
        container_manifest_def seal_def draw_def key_size_def nonce_size_def plain_cipher_def plain_head_def pointer_aad_def aad_prefix_def)
  then show ?thesis
    using assms(1) by (simp add: seal_root_def vault_step_def pointer_file_bytes_def record_magic_def max_pointer_size_def)
qed

lemma blank_saved:
  "\<exists>e s' r'. commit blank_world blank_view new_store blank_run = (e, s', r') \<and> (e = None \<or> unsaved_list e)"
proof -
  obtain c r1 where st: "stage_commit blank_world blank_view 1 new_store blank_run = (Inr c, new_store, r1)" "ready 1 [] [True] r1"
    and p: "check_pointer (sc_pointer c) = Inr ()" "pointer_shape (sc_pointer c)" "length (rp_manifest (sc_pointer c)) = 36"
      "rp_history (sc_pointer c) = []" "rp_index (sc_pointer c) = []"
    using blank_staged by blast
  have "24 \<le> length (rr_random r1)" "rr_held r1" using st(2) by (simp_all add: ready_def)
  with blank_pointer_sealed [OF p] obtain raw random where
    s: "seal_root plain_cipher tiny_head (Some sample_key32) (sc_pointer c) (rr_random r1) = Inr (raw, random)" by blast
  have "ready 0 [] [True] (r1\<lparr>rr_random := random\<rparr>)" using st(2) by (simp add: ready_def)
  from file_written [OF this] obtain r2 where
    w: "write_record_file pointer_name raw (next_fixed_time blank_world new_store) (r1\<lparr>rr_random := random\<rparr>) = (Inr (), r2)" by blast
  let ?s = "new_store\<lparr>rs_attempted := 1\<rparr>"
  have put: "put_pointer blank_world 1 (sc_pointer c) new_store r1 = (Inr (raw, next_fixed_time blank_world new_store), ?s, r2)"
    using \<open>rr_held r1\<close> s w by (simp add: put_pointer_def Let_def)
  have start: "start_commit new_store = new_store" "rs_attempted new_store = 0"
    by (simp_all add: start_commit_def on_header_def new_store_def zero_header_def)
  obtain e s' r' where f: "finish_commit blank_world blank_view raw (next_fixed_time blank_world new_store) (rs_prev_live ?s)
      (landed c (next_fixed_time blank_world new_store) ?s) r2 = (e, s', r')" by (metis prod_cases3)
  then have "commit blank_world blank_view new_store blank_run = (e, s', r')"
    using st(1) put start by (simp add: commit_def Let_def)
  moreover have "e = None \<or> unsaved_list e"
    using f by (auto simp: finish_commit_def unsaved_list_def Let_def split: sum.splits prod.splits option.splits)
  ultimately show ?thesis by blast
qed

lemma blank_held: "record_held blank_world (rr_disk blank_run) new_store"
proof -
  have "read_record_file \<lparr>rd_files = [], rd_planted = []\<rparr> name most = Inl File_missing" for name most
    by (simp add: read_record_file_def folders_real_def list_all_iff)
  then show ?thesis
    by (simp add: record_held_def blank_run_def pointer_at_def best_pointer_def better_def newest_newer_def newer_at_def
        digests_known_def new_store_def pointer_shape_def zero_pointer_def)
qed

subsection \<open>Whole or nothing\<close>

text \<open>
  C15: a save is whole or it is nothing, wherever it is cut short.  Take any sealed archive whose store belongs
  to its disk, and any fate for each write of a save.  Every disk the save passes through up to its commit
  point reads as the record from before it; every disk from then on, the last one included, reads as the new
  pointer, one generation up, with a section for each section encoded and that section's digest.  A save that
  reports success or only an unwritten file list is past that point; one that reports any other error never
  reached it, and the store still names the old record.  Either way the store belongs to the disk it leaves,
  so the next save may follow.
\<close>

theorem a_save_is_whole_or_nothing:
  assumes "authentic_cipher (rw_cipher W)" and "good_head_codec (rw_head W)" and "record_held W (rr_disk r) s"
    and "fresh_names (rs_ptr s) (rr_names r)" and "rs_attempted s + 1 \<noteq> 0" and "commit W v s r = (e, s', r')"
  shows "record_held W (rr_disk r') s'
    \<and> (\<exists>before after. rr_trail r' = rr_trail r @ before @ after \<and> (\<forall>D \<in> set before. record_on W D = record_on W (rr_disk r))
      \<and> (if e = None \<or> unsaved_list e
         then after \<noteq> [] \<and> rp_gen (rs_ptr s') = rs_attempted s + 1 \<and> (\<forall>D \<in> set (rr_disk r' # after). carries W v (rs_ptr s') D)
         else after = [] \<and> rs_ptr s' = rs_ptr s \<and> record_on W (rr_disk r') = record_on W (rr_disk r)))"
  by (rule whole_or_nothing [OF assms])


theorem a_save_is_whole_or_nothing_witness:
  "\<exists>e s' r'. commit blank_world blank_view new_store blank_run = (e, s', r') \<and> rp_gen (rs_ptr s') = 1
     \<and> carries blank_world blank_view (rs_ptr s') (rr_disk r') \<and> rr_trail r' \<noteq> []"
proof -
  obtain e s' r' where c: "commit blank_world blank_view new_store blank_run = (e, s', r')" "e = None \<or> unsaved_list e"
    using blank_saved by blast
  have a: "authentic_cipher (rw_cipher blank_world)" "good_head_codec (rw_head blank_world)"
    using plain_authentic tiny_head_good by simp_all
  have f: "fresh_names (rs_ptr new_store) (rr_names blank_run)" and g: "rs_attempted new_store = 0"
    by (simp_all add: fresh_names_def new_store_def zero_pointer_def)
  from a_save_is_whole_or_nothing [OF a blank_held f _ c(1)] c g show ?thesis by auto
qed

end
