(* ===== verification/Spec2Isabelle.thy ===== *)
theory Spec2Isabelle
  imports ManifestProps Counts Collapse Findings LoadProps ExportNames HistoryProps Streaks
    Breaker WalkFindings LocalRun LocalInside LocalListed LocalLinks
    VaultPutBack VaultKeys Marker InventoryProps RecordLoad RecordWhole
begin

text \<open>
  A verification library of the mail archive tool, a Go program that copies mailboxes (local mail stores and
  Microsoft 365 mailboxes) into a folder of pages and attachments, remembers in a manifest what it has
  archived, and can keep the whole archive encrypted.  The library models the part that decides what is kept:
  the manifest and its ledgers, the walks that deliver messages, the export of one message, and the key file
  and sealed record of an encrypted archive.

  \<^bold>\<open>How the parts work together.\<close>  A run opens the manifest (\<^verbatim>\<open>internal/state\<close>), walks each source
  (\<^verbatim>\<open>internal/source\<close>, \<^verbatim>\<open>internal/app\<close>) and hands every message to the exporter (\<^verbatim>\<open>internal/export\<close>).
  The exporter names files (\<^verbatim>\<open>internal/util\<close>), compares digests (\<^verbatim>\<open>internal/model\<close>), writes, and
  records what it did; what could not be captured becomes a gap of the ledger.  At the end of a complete walk
  the sweep marks the records the walk did not see, the history log gets the run's events, and the manifest
  is saved.  An encrypted archive saves the same manifest as sealed sections under a root pointer
  (\<^verbatim>\<open>internal/container\<close>), with keys that the key file (\<^verbatim>\<open>internal/vault\<close>) wraps.

  \<^bold>\<open>Foundations.\<close>  \<open>Prelude\<close>: byte strings, Go maps as association lists with distinct keys, the lemma
  collections \<open>go_map\<close> and \<open>go_str\<close>.  \<open>Interfaces\<close>: the locales \<open>codec\<close>, \<open>sanitiser\<close>,
  \<open>machine\<close> and \<open>secondary_index\<close>, each interpreted on the program's own definitions in the theory that
  provides them.  \<open>GoText\<close>, \<open>AsciiText\<close>, \<open>BoundText\<close>: UTF-8 as Go decodes it, trims, and the cut
  between whole runes.  \<open>GoTime\<close>: instants, saturating and wrapping durations, RFC 3339.  \<open>Hash\<close>: SHA-1
  and SHA-256 written out, hexadecimal.

  \<^bold>\<open>State\<close> (\<^verbatim>\<open>internal/state\<close>).  \<open>Labels\<close>, \<open>Keys\<close>, \<open>Records\<close>: gap labels and classes,
  the grammar of a message key, the record struct field by field.  \<open>Manifest\<close>, \<open>ManifestOps\<close>,
  \<open>ManifestInv\<close>, \<open>ManifestProps\<close>: the record map with its four derived indices, every operation, the
  invariant, and any sequence of permitted operations (every method holds the lock, so sequences are all the
  interleavings there are).  \<open>Counts\<close>: the tallies.  \<open>Sweep\<close>: gone-detection and its undo.
  \<open>Collapse\<close>, \<open>Findings\<close>: the one-time identity upgrade and what it does not promise.  \<open>Ledger\<close>,
  \<open>LedgerLoad\<close>: the capture-gap ledger, its caps and its loading.  \<open>Load\<close>, \<open>LoadProps\<close>: opening,
  migrating, cleaning and saving a manifest.  \<open>History\<close>, \<open>HistoryProps\<close>: the append-only log as its
  bytes.  \<open>Streaks\<close>: the two cross-run streak records.

  \<^bold>\<open>Names and messages.\<close>  \<open>Paths\<close>, \<open>ExportNames\<close> (\<^verbatim>\<open>internal/util\<close>): the sanitisers of
  names on disk.  \<open>Message\<close> (\<^verbatim>\<open>internal/model/message.go\<close>): the message and every digest of it.

  \<^bold>\<open>Export\<close> (\<^verbatim>\<open>internal/export\<close>).  \<open>ExportDecide\<close>, \<open>Exporter\<close>, \<open>ExporterProps\<close>: the
  handler of one message, its guards, placement, files, attachment zip and record.  \<open>CaptureSafety\<close>: no
  capture replaces another message.  \<open>CaptureSeen\<close>: what an export leaves stamped.

  \<^bold>\<open>Walks.\<close>  \<open>SourceRun\<close>, \<open>RunAccounts\<close>: one local source of a run (\<^verbatim>\<open>internal/app/localrun.go\<close>);
  a delivered message is in the archive, before the window, or on the ledger.  \<open>Breaker\<close>,
  \<open>GraphFaults\<close>, \<open>GraphWalk\<close>: a Microsoft Graph mailbox (\<^verbatim>\<open>internal/app/graph.go\<close>) driven by a script
  of the service's answers; \<open>WalkKeeps\<close>, \<open>WalkSeen\<close>, \<open>WalkSteps\<close>, \<open>WalkMarks\<close>,
  \<open>WalkListed\<close>, \<open>WalkSafe\<close> prove over its step relation that no record that could be a listed
  message is marked gone, and \<open>WalkFindings\<close> has the case the guarantee leaves out.  \<open>LocalStore\<close>,
  \<open>LocalWalk\<close>, \<open>LocalRead\<close>: a maildir, an mbox tree, a Maildir++ store and a Camel cache
  (\<^verbatim>\<open>internal/source\<close>) over a disk; \<open>LocalKeeps\<close>, \<open>LocalEnds\<close>, \<open>LocalInside\<close>,
  \<open>LocalListed\<close>, \<open>LocalLinks\<close>, \<open>LocalRun\<close>: what a walk keeps, that it returns, that it stays
  inside its store, that every entry is answered for, and the composition with the run.

  \<^bold>\<open>The key file\<close> (\<^verbatim>\<open>internal/vault\<close>).  \<open>VaultSeal\<close>, \<open>VaultPlaces\<close>: sealing, the associated
  data that binds bytes to their place, HMAC and HKDF.  \<open>Recovery\<close>: the recovery key and its check
  character.  \<open>VaultFile\<close>, \<open>VaultForm\<close>, \<open>VaultFacts\<close>, \<open>VaultLife\<close>: the key hierarchy, the
  file's text and the operations on it.  \<open>VaultStore\<close>, \<open>VaultCopies\<close>, \<open>VaultChange\<close>,
  \<open>VaultHeal\<close>: the two copies, every change with each point a crash can stop at, and healing.
  \<open>VaultRestore\<close>, \<open>VaultPutBack\<close>: putting a lost key file back.  \<open>VaultKeys\<close>: remembered keys.
  \<open>Marker\<close>: recognising an encrypted archive.  \<open>VaultSample\<close>: a world in which everything assumed of
  the parameters holds, for the witnesses.

  \<^bold>\<open>The sealed record\<close> (\<^verbatim>\<open>internal/container\<close>).  \<open>RecordPointer\<close>: the root pointer, its rules and
  its strict encoding.  \<open>SealedSections\<close>: the manifest as header, gaps and record buckets.
  \<open>Inventory\<close>, \<open>InventoryProps\<close>: the keyless file list.  \<open>RecordStore\<close>, \<open>RecordLoad\<close>: the load of
  a record from its two pointers, its file list and its sections.  \<open>RecordCommit\<close>: a save, with the
  staging of history and search index, over a disk and the fate of each write still to come; the sweep of
  files nothing names, and the start of an empty record.  \<open>RecordSave\<close>, \<open>RecordWhole\<close>: whatever write
  fails and wherever a save is cut short, the disk reads as the record before it or as the record it saved.

  \<^bold>\<open>Bounds and termination.\<close>  Loops over bytes are total functions with a measure.  The drain of followed
  links is a \<open>partial_function\<close>; that it returns is proved for a disk whose links reach finitely many
  directories, and the walk keeps the program's own depth cap.  The bucket count of a sealed record doubles up
  to 2^24, which is its measure.  Generations are 64-bit words with the cap 2^62 and the headroom 2^32 of
  the source; word arithmetic wraps where Go's does.

  \<^bold>\<open>Parameters.\<close>  Code outside the repository and its environment are arguments: XChaCha20-Poly1305,
  assumed only where a property says so (what is sealed opens, and opens under no other associated data: a
  symbolic reading of authenticity), Argon2id, the Unicode tables and normal forms, the JSON codecs, the
  page renderer, the zip encoding, the mbox splitter and MIME parser, what the file system shows and which
  writes succeed, the archive lock, and the Graph service.  Each property with such an assumption has a
  witness that instantiates it.  A write replaces a whole file or leaves the old one.

  \<^bold>\<open>Not modelled.\<close>  PST and MIME parsing and HTML rendering rest on third-party parsers.  The desktop,
  wizard, server and search surfaces, the Graph HTTP client, schedulers, alerts, the preparation of other
  desktop programs, packaging and the command line are input and output around the parts above.  Archive
  deletion and archive health plan and word what the modelled predicates decide.  Of the vault, the wiping
  of key memory, the printing of secrets and the plaintext probe of \<^verbatim>\<open>claims.go\<close>; of the exporter, the
  branches of an encrypted archive; of the names, the recognisers of cloud-sync folders.  The words of error
  messages and logs are left out throughout.
\<close>

end
